(* ===== verification/Prelude.thy ===== *)
theory Prelude
  imports Main "HOL-Library.Word" "HOL-Library.Signed_Division"
begin

text \<open>
  The vocabulary shared by every component: the machine-integer types, the \<open>Status\<close> value of
  \<^verbatim>\<open>src/include/mffv1/result.hpp\<close> and \<^verbatim>\<open>src/src/util/status.cpp,hpp\<close>, the result type of fallible
  operations, and generic lemmas on words, lists and results.

  Unsigned integers of the source (\<open>uint8_t\<close> .. \<open>uint64_t\<close>) are words of the same width, so
  every arithmetic operation wraps as in C++. Signed integers are \<open>int\<close>: their overflow is
  undefined in C++, so the model computes the mathematical value and the component theories prove
  the range in which no overflow happens; explicit narrowing casts are \<open>to_int32\<close> and its kin.
  Sizes and positions in vectors (\<open>size_t\<close>) are \<open>nat\<close>.
\<close>

unbundle bit_operations_syntax

type_synonym u8 = "8 word"
type_synonym u16 = "16 word"
type_synonym u32 = "32 word"
type_synonym u64 = "64 word"
type_synonym bytes = "u8 list"

text \<open>The standard library's bound on a byte vector (\<open>PTRDIFF_MAX\<close> elements).\<close>

definition byte_vector_max_size :: nat where
  "byte_vector_max_size = 2 ^ 63 - 1"

subsection \<open>Collections of facts\<close>

named_theorems result_simps \<open>failures of composed operations\<close>
named_theorems unat_simps \<open>words read as natural numbers\<close>

subsection \<open>Status\<close>

datatype error_code =
    Ok
  | InvalidArgument
  | InvalidState
  | UnsupportedFeature
  | SyntaxError
  | CrcMismatch
  | ResourceExhausted
  | NotImplemented
  | InternalError

primrec error_code_value :: "error_code \<Rightarrow> u32" where
  "error_code_value Ok = 0"
| "error_code_value InvalidArgument = 1"
| "error_code_value InvalidState = 2"
| "error_code_value UnsupportedFeature = 3"
| "error_code_value SyntaxError = 4"
| "error_code_value CrcMismatch = 5"
| "error_code_value ResourceExhausted = 6"
| "error_code_value NotImplemented = 7"
| "error_code_value InternalError = 8"

record error_location =
  loc_byte_offset :: u64
  loc_frame_index :: u32
  loc_slice_index :: u32
  has_byte_offset :: bool
  has_frame_index :: bool
  has_slice_index :: bool

definition no_location :: error_location where
  "no_location =
     \<lparr>loc_byte_offset = 0, loc_frame_index = 0, loc_slice_index = 0,
      has_byte_offset = False, has_frame_index = False, has_slice_index = False\<rparr>"

text \<open>
  The message string is left out: it only exists when \<open>MFFV1_ENABLE_STATUS_MESSAGES\<close> is set, and
  no code of the library branches on it.
\<close>

record status =
  st_code :: error_code
  st_location :: error_location

definition status_ok :: "status \<Rightarrow> bool" where
  "status_ok s \<longleftrightarrow> st_code s = Ok"

definition ok_status :: status where
  "ok_status = \<lparr>st_code = Ok, st_location = no_location\<rparr>"

definition make_error :: "error_code \<Rightarrow> status" where
  "make_error c = \<lparr>st_code = c, st_location = no_location\<rparr>"

definition set_byte_location_if_missing :: "u64 \<Rightarrow> status \<Rightarrow> status" where
  "set_byte_location_if_missing off s =
     (if \<not> has_byte_offset (st_location s)
      then s\<lparr>st_location := (st_location s)\<lparr>loc_byte_offset := off, has_byte_offset := True\<rparr>\<rparr>
      else s)"

definition set_slice_location_if_missing :: "u32 \<Rightarrow> status \<Rightarrow> status" where
  "set_slice_location_if_missing i s =
     (if \<not> has_slice_index (st_location s)
      then s\<lparr>st_location := (st_location s)\<lparr>loc_slice_index := i, has_slice_index := True\<rparr>\<rparr>
      else s)"

definition make_byte_error :: "error_code \<Rightarrow> u64 \<Rightarrow> status" where
  "make_byte_error c off = set_byte_location_if_missing off (make_error c)"

lemma st_code_make_error [simp]: "st_code (make_error c) = c"
  by (simp add: make_error_def)

lemma st_code_set_byte_location [simp]: "st_code (set_byte_location_if_missing off s) = st_code s"
  by (simp add: set_byte_location_if_missing_def)

lemma st_code_set_slice_location [simp]: "st_code (set_slice_location_if_missing i s) = st_code s"
  by (simp add: set_slice_location_if_missing_def)

lemma st_code_make_byte_error [simp]: "st_code (make_byte_error c off) = c"
  by (simp add: make_byte_error_def)

subsection \<open>Results\<close>

text \<open>
  An operation that returns a \<open>Status\<close> and writes its outputs through references is a function
  into \<open>status + 'a\<close>: \<open>Inl\<close> is a failed status, \<open>Inr\<close> carries the outputs and the new state of
  the objects the call changes.
\<close>

type_synonym 'a result = "status + 'a"

definition bind_result :: "'a result \<Rightarrow> ('a \<Rightarrow> 'b result) \<Rightarrow> 'b result" where
  "bind_result r f = (case r of Inl e \<Rightarrow> Inl e | Inr a \<Rightarrow> f a)"

text \<open>A change to the status of a failed operation, such as setting a location.\<close>

definition map_error :: "(status \<Rightarrow> status) \<Rightarrow> 'a result \<Rightarrow> 'a result" where
  "map_error f r = (case r of Inl e \<Rightarrow> Inl (f e) | Inr a \<Rightarrow> Inr a)"

lemma bind_result_Inl [simp]: "bind_result (Inl e) f = Inl e"
  by (simp add: bind_result_def)

lemma bind_result_Inr [simp]: "bind_result (Inr a) f = f a"
  by (simp add: bind_result_def)

lemma bind_result_eq_Inr [simp]:
  "bind_result r f = Inr b \<longleftrightarrow> (\<exists>a. r = Inr a \<and> f a = Inr b)"
  by (cases r) simp_all

lemma bind_result_eq_Inl [result_simps]:
  "bind_result r f = Inl e \<longleftrightarrow> r = Inl e \<or> (\<exists>a. r = Inr a \<and> f a = Inl e)"
  by (cases r) simp_all

lemma bind_result_cong [fundef_cong]:
  "r = r' \<Longrightarrow> (\<And>a. r' = Inr a \<Longrightarrow> f a = g a) \<Longrightarrow> bind_result r f = bind_result r' g"
  by (cases r') simp_all

lemma map_error_Inl [simp]: "map_error f (Inl e) = Inl (f e)"
  by (simp add: map_error_def)

lemma map_error_Inr [simp]: "map_error f (Inr a) = Inr a"
  by (simp add: map_error_def)

lemma map_error_eq_Inr [simp]: "map_error f r = Inr a \<longleftrightarrow> r = Inr a"
  by (cases r) simp_all

definition is_ok :: "'a result \<Rightarrow> bool" where
  "is_ok r \<longleftrightarrow> (case r of Inl _ \<Rightarrow> False | Inr _ \<Rightarrow> True)"

lemma is_ok_simps [simp]: "is_ok (Inr a)" "\<not> is_ok (Inl e)"
  by (simp_all add: is_ok_def)

lemma is_ok_iff: "is_ok r \<longleftrightarrow> (\<exists>a. r = Inr a)"
  by (cases r) simp_all

text \<open>A loop whose body may return early with an error: the fold stops at the first failure.\<close>

fun fold_result :: "('a \<Rightarrow> 's \<Rightarrow> 's result) \<Rightarrow> 'a list \<Rightarrow> 's \<Rightarrow> 's result" where
  "fold_result f [] s = Inr s"
| "fold_result f (x # xs) s = bind_result (f x s) (fold_result f xs)"

lemma fold_result_append:
  "fold_result f (xs @ ys) s = bind_result (fold_result f xs s) (fold_result f ys)"
proof (induction xs arbitrary: s)
  case Nil
  then show ?case by simp
next
  case (Cons x xs)
  then show ?case by (cases "f x s") simp_all
qed

lemma fold_result_invariant:
  assumes "\<And>x s s'. x \<in> set xs \<Longrightarrow> P s \<Longrightarrow> f x s = Inr s' \<Longrightarrow> P s'"
    and "P s" and "fold_result f xs s = Inr s'"
  shows "P s'"
  using assms by (induction xs arbitrary: s) auto

text \<open>A loop that reads one value per element of a list, threading the reader.\<close>

fun read_all :: "('k \<Rightarrow> 'r \<Rightarrow> ('v \<times> 'r) result) \<Rightarrow> 'k list \<Rightarrow> 'r \<Rightarrow> ('v list \<times> 'r) result" where
  "read_all f [] r = Inr ([], r)"
| "read_all f (k # ks) r =
     bind_result (f k r) (\<lambda>(v, r'). bind_result (read_all f ks r') (\<lambda>(vs, r''). Inr (v # vs, r'')))"

lemma read_all_length: "read_all f ks r = Inr (vs, r') \<Longrightarrow> length vs = length ks"
  by (induction ks arbitrary: r vs) auto

subsection \<open>Signed casts\<close>

definition to_int32 :: "int \<Rightarrow> int" where
  "to_int32 x = signed_take_bit 31 x"

definition to_int64 :: "int \<Rightarrow> int" where
  "to_int64 x = signed_take_bit 63 x"

definition in_int32 :: "int \<Rightarrow> bool" where
  "in_int32 x \<longleftrightarrow> - (2 ^ 31) \<le> x \<and> x < 2 ^ 31"

definition in_int64 :: "int \<Rightarrow> bool" where
  "in_int64 x \<longleftrightarrow> - (2 ^ 63) \<le> x \<and> x < 2 ^ 63"

lemma to_int32_id: "in_int32 x \<Longrightarrow> to_int32 x = x"
  by (simp add: in_int32_def to_int32_def signed_take_bit_int_eq_self)

lemma to_int64_id: "in_int64 x \<Longrightarrow> to_int64 x = x"
  by (simp add: in_int64_def to_int64_def signed_take_bit_int_eq_self)

subsection \<open>Words as numbers\<close>

lemma unat_push_bit_bounded [unat_simps]:
  fixes w :: "'a::len word"
  assumes "unat w * 2 ^ n < 2 ^ LENGTH('a)"
  shows "unat (push_bit n w) = unat w * 2 ^ n"
proof -
  have "unat (push_bit n w) = take_bit LENGTH('a) (push_bit n (unat w))"
    by (rule unsigned_push_bit_eq)
  also have "\<dots> = unat w * 2 ^ n"
    using assms by (simp add: push_bit_eq_mult take_bit_nat_eq_self)
  finally show ?thesis .
qed

lemma unat_add_bounded [unat_simps]:
  fixes a b :: "'a::len word"
  assumes "unat a + unat b < 2 ^ LENGTH('a)"
  shows "unat (a + b) = unat a + unat b"
  using assms by (simp add: unat_add_lem)

lemma unat_mult_bounded [unat_simps]:
  fixes a b :: "'a::len word"
  assumes "unat a * unat b < 2 ^ LENGTH('a)"
  shows "unat (a * b) = unat a * unat b"
  using assms by (simp add: unat_mult_lem)

lemma unat_diff_bounded [unat_simps]:
  fixes a b :: "'a::len word"
  assumes "unat b \<le> unat a"
  shows "unat (a - b) = unat a - unat b"
  using assms by (simp add: unat_sub word_le_nat_alt)

lemma xor_right_cancel [simp]:
  fixes a b c :: "'a::len word"
  shows "a XOR c = b XOR c \<longleftrightarrow> a = b"
proof
  assume "a XOR c = b XOR c"
  then have "(a XOR c) XOR c = (b XOR c) XOR c" by simp
  then show "a = b" by (simp only: xor.assoc xor_self_eq xor.right_neutral)
qed simp

lemma xor_left_cancel [simp]:
  fixes a b c :: "'a::len word"
  shows "c XOR a = c XOR b \<longleftrightarrow> a = b"
  by (simp only: xor.commute [of c] xor_right_cancel)

lemma xor_eq_0_iff [simp]:
  fixes a b :: "'a::len word"
  shows "a XOR b = 0 \<longleftrightarrow> a = b"
  using xor_right_cancel [of a b b] by (simp del: xor_right_cancel)

lemma unat_bound: "unat (w :: 'a::len word) < 2 ^ LENGTH('a)"
  by (rule unsigned_less)

lemma unat_ucast_up [simp]:
  fixes w :: "'a::len word"
  assumes "LENGTH('a) \<le> LENGTH('b)"
  shows "unat (ucast w :: 'b::len word) = unat w"
proof -
  have "unat w < 2 ^ LENGTH('a)" by (rule unat_bound)
  also have "(2 :: nat) ^ LENGTH('a) \<le> 2 ^ LENGTH('b)" using assms by (rule power_increasing) simp
  finally show ?thesis by (simp add: unsigned_ucast_eq take_bit_nat_eq_self)
qed

lemma unat_ucast_small:
  fixes w :: "'a::len word"
  assumes "unat w < 2 ^ LENGTH('b)"
  shows "unat (ucast w :: 'b::len word) = unat w"
  using assms by (simp add: unsigned_ucast_eq take_bit_nat_eq_self)

lemma unat_exp: "n < LENGTH('a) \<Longrightarrow> unat (push_bit n 1 :: 'a::len word) = 2 ^ n"
  by (subst unat_push_bit_bounded) (simp_all add: power_strict_increasing)

lemma unat_exp_64: "n < 64 \<Longrightarrow> unat (push_bit n 1 :: u64) = 2 ^ n"
  by (rule unat_exp) simp

lemma length_butlast_snoc: "xs \<noteq> [] \<Longrightarrow> length (butlast xs @ [x]) = length xs"
  by (cases xs rule: rev_cases) simp_all

lemma unat_minus_one_64: "unat (- 1 :: u64) = 2 ^ 64 - 1"
  by (simp add: unsigned_minus_1_eq_mask mask_eq_exp_minus_1)

lemma low_bit:
  fixes w :: "'a::len word"
  shows "drop_bit n w AND 1 = of_bool (bit w n)"
  by (simp add: and_one_eq bit_iff_odd_drop_bit odd_iff_mod_2_eq_one)

lemma bit_unat: "bit (unat (w :: 'a::len word)) n \<longleftrightarrow> bit w n"
  by (auto simp: bit_unsigned_iff intro: bit_imp_le_length)

lemma and_one_nonzero: "(w :: 'a::len word) AND 1 \<noteq> 0 \<longleftrightarrow> odd (unat w)"
  using low_bit [of 0 w] bit_unat [of w 0] by (simp add: bit_0)

lemma unat_drop_bit_div: "unat (drop_bit n w) = unat (w :: 'a::len word) div 2 ^ n"
  unfolding unat_drop_bit_eq by (rule drop_bit_eq_div)

lemma uint_and_mask64:
  assumes "n \<le> 64"
  shows "uint ((word_of_int x :: u64) AND word_of_int (2 ^ n - 1)) = x mod 2 ^ n"
proof -
  have "(word_of_int (2 ^ n - 1) :: u64) = mask n"
    by (simp add: mask_eq_exp_minus_1)
  then have "(word_of_int x :: u64) AND word_of_int (2 ^ n - 1) = take_bit n (word_of_int x)"
    by (simp add: take_bit_eq_mask)
  also have "uint \<dots> = take_bit n (take_bit 64 x)"
    by (simp add: unsigned_take_bit_eq unsigned_of_int)
  also have "\<dots> = x mod 2 ^ n"
    using assms by (simp add: take_bit_take_bit min_def take_bit_eq_mod [symmetric])
  finally show ?thesis .
qed

lemma unat_of_nat_bounded:
  "n < 2 ^ LENGTH('a) \<Longrightarrow> unat (word_of_nat n :: 'a::len word) = n"
  by (simp add: unat_of_nat)

end
