(* ===== verification/Crc32.thy ===== *)
theory Crc32
  imports Prelude
begin

text \<open>
  The CRC-32 of \<^verbatim>\<open>src/src/util/crc32.cpp\<close> (polynomial \<open>0x04c11db7\<close>, most significant bit first, no
  reflection, zero start value), which protects slices and configuration records, and its two
  contracts: a message followed by its own CRC has remainder zero, and every error confined to four
  consecutive bytes changes the CRC.
\<close>

definition kPolynomial :: u32 where
  "kPolynomial = 0x04c11db7"

definition crc_shift :: "u32 \<Rightarrow> u32" where
  "crc_shift r =
     (if r AND 0x80000000 \<noteq> 0 then push_bit 1 r XOR kPolynomial else push_bit 1 r)"

definition crc_byte :: "u8 \<Rightarrow> u32 \<Rightarrow> u32" where
  "crc_byte b r = (crc_shift ^^ 8) (r XOR push_bit 24 (ucast b))"

definition crc32_ieee_msb :: "bytes \<Rightarrow> u32" where
  "crc32_ieee_msb bs = fold crc_byte bs 0"

text \<open>The four bytes that the writers append, most significant first.\<close>

definition be32 :: "u32 \<Rightarrow> bytes" where
  "be32 w = [ucast (drop_bit 24 w), ucast (drop_bit 16 w), ucast (drop_bit 8 w), ucast w]"

subsection \<open>The shift register is linear and injective\<close>

lemma crc_shift_alt: "crc_shift r = (if bit r 31 then push_bit 1 r XOR kPolynomial else push_bit 1 r)"
proof -
  have "(0x80000000 :: u32) = push_bit 31 1" by simp
  then have "r AND 0x80000000 \<noteq> 0 \<longleftrightarrow> bit r 31"
    by (metis and_exp_eq_0_iff_not_bit push_bit_of_1)
  then show ?thesis by (simp add: crc_shift_def)
qed

lemma crc_shift_xor: "crc_shift (a XOR b) = crc_shift a XOR crc_shift b"
  by (auto simp: crc_shift_alt bit_xor_iff push_bit_xor ac_simps)

lemma crc_shift_eq_0: "crc_shift a = 0 \<longleftrightarrow> a = 0"
proof
  assume z: "crc_shift a = 0"
  have "\<not> bit (push_bit 1 a) 0" and "bit kPolynomial 0"
    by (simp_all only: bit_push_bit_iff kPolynomial_def) simp_all
  then have "bit (push_bit 1 a XOR kPolynomial) 0" by (simp add: bit_xor_iff)
  with z have nb: "\<not> bit a 31" and p: "push_bit 1 a = 0"
    by (auto simp: crc_shift_alt split: if_splits)
  show "a = 0"
  proof (rule bit_word_eqI)
    fix n
    assume n: "n < LENGTH(32)"
    show "bit a n = bit (0 :: u32) n"
    proof (cases "n = 31")
      case True
      with nb show ?thesis by simp
    next
      case False
      with n have "bit (push_bit 1 a) (Suc n) = bit a n"
        by (simp only: bit_push_bit_iff) simp
      with p show ?thesis by simp
    qed
  qed
qed (simp add: crc_shift_alt)

lemma crc_shift_pow_xor: "(crc_shift ^^ n) (a XOR b) = (crc_shift ^^ n) a XOR (crc_shift ^^ n) b"
  by (induction n) (simp_all add: crc_shift_xor)

lemma crc_shift_pow_eq_0: "(crc_shift ^^ n) a = 0 \<longleftrightarrow> a = 0"
  by (induction n) (simp_all add: crc_shift_eq_0)

text \<open>While the top bits are clear, the register only shifts.\<close>

lemma crc_shift_pow_clear:
  assumes "\<And>i. 32 - n \<le> i \<Longrightarrow> i < 32 \<Longrightarrow> \<not> bit r i" and "n \<le> 32"
  shows "(crc_shift ^^ n) r = push_bit n r"
  using assms
proof (induction n arbitrary: r)
  case 0
  then show ?case by simp
next
  case (Suc n)
  have "(crc_shift ^^ n) r = push_bit n r"
    using Suc.prems by (intro Suc.IH) auto
  moreover have "\<not> bit (push_bit n r) 31"
    using Suc.prems(1) [of "31 - n"] Suc.prems(2) by (auto simp: bit_push_bit_iff)
  ultimately show ?case by (simp add: crc_shift_alt [of "push_bit n r"])
qed

lemma crc_byte_top: "crc_byte (ucast (drop_bit 24 r)) r = push_bit 8 r"
proof -
  let ?x = "r XOR push_bit 24 (ucast (ucast (drop_bit 24 r) :: u8))"
  have "(crc_shift ^^ 8) ?x = push_bit 8 ?x"
    by (rule crc_shift_pow_clear)
      (auto simp: bit_xor_iff bit_push_bit_iff bit_ucast_iff bit_drop_bit_eq)
  also have "\<dots> = push_bit 8 r"
    by (rule bit_word_eqI) (auto simp: bit_xor_iff bit_push_bit_iff)
  finally show ?thesis by (simp add: crc_byte_def)
qed

lemma ucast_drop_push:
  "k \<le> 24 \<Longrightarrow> (ucast (drop_bit 24 (push_bit k r)) :: u8) = ucast (drop_bit (24 - k) (r :: u32))"
  by (rule bit_word_eqI) (auto simp: bit_ucast_iff bit_drop_bit_eq bit_push_bit_iff)

lemma crc_be32: "fold crc_byte (be32 r) r = 0"
proof -
  have "crc_byte (ucast (drop_bit 24 r)) r = push_bit 8 r" by (rule crc_byte_top)
  moreover have "crc_byte (ucast (drop_bit 16 r)) (push_bit 8 r) = push_bit 16 r"
    using crc_byte_top [of "push_bit 8 r"] ucast_drop_push [of 8 r] by simp
  moreover have "crc_byte (ucast (drop_bit 8 r)) (push_bit 16 r) = push_bit 24 r"
    using crc_byte_top [of "push_bit 16 r"] ucast_drop_push [of 16 r] by simp
  moreover have "crc_byte (ucast r) (push_bit 24 r) = 0"
    using crc_byte_top [of "push_bit 24 r"] ucast_drop_push [of 24 r] by simp
  ultimately show ?thesis by (simp add: be32_def)
qed

lemma crc32_append: "crc32_ieee_msb (xs @ ys) = fold crc_byte ys (crc32_ieee_msb xs)"
  by (simp add: crc32_ieee_msb_def)

subsection \<open>Errors confined to four bytes\<close>

text \<open>The register after four bytes depends on the register and the bytes only through their XOR.\<close>

definition word_of_be :: "u8 \<Rightarrow> u8 \<Rightarrow> u8 \<Rightarrow> u8 \<Rightarrow> u32" where
  "word_of_be a b c d =
     push_bit 24 (ucast a) XOR push_bit 16 (ucast b) XOR push_bit 8 (ucast c) XOR ucast d"

lemma crc_shift_pow_low:
  "(crc_shift ^^ 8) (push_bit 16 (ucast (b :: u8))) = push_bit 24 (ucast b)"
  "(crc_shift ^^ 8) (push_bit 8 (ucast (b :: u8))) = push_bit 16 (ucast b)"
  "(crc_shift ^^ 8) (ucast (b :: u8)) = push_bit 8 (ucast b)"
  by (subst crc_shift_pow_clear; auto simp: bit_push_bit_iff bit_ucast_iff dest: bit_imp_le_length)+

lemma crc_four_bytes:
  "fold crc_byte [a, b, c, d] r = (crc_shift ^^ 32) (r XOR word_of_be a b c d)"
proof -
  have "crc_shift ^^ 32 = crc_shift ^^ 8 \<circ> crc_shift ^^ 24"
    and "crc_shift ^^ 24 = crc_shift ^^ 8 \<circ> crc_shift ^^ 16"
    and "crc_shift ^^ 16 = crc_shift ^^ 8 \<circ> crc_shift ^^ 8"
    using funpow_add [of 8 24 crc_shift] funpow_add [of 8 16 crc_shift] funpow_add [of 8 8 crc_shift]
    by simp_all
  then have split: "(crc_shift ^^ 32) x =
      (crc_shift ^^ 8) ((crc_shift ^^ 8) ((crc_shift ^^ 8) ((crc_shift ^^ 8) x)))" for x
    by (simp only: comp_apply)
  show ?thesis
    unfolding split
    by (simp add: crc_byte_def word_of_be_def crc_shift_pow_xor crc_shift_pow_low ac_simps)
qed

lemma word_of_be_bytes:
  "ucast (drop_bit 24 (word_of_be a b c d)) = a"
  "ucast (drop_bit 16 (word_of_be a b c d)) = b"
  "ucast (drop_bit 8 (word_of_be a b c d)) = c"
  "ucast (word_of_be a b c d) = d"
  by (rule bit_word_eqI;
      auto simp: word_of_be_def bit_ucast_iff bit_drop_bit_eq bit_xor_iff bit_push_bit_iff
           dest: bit_imp_le_length)+

lemma word_of_be_inject:
  assumes "word_of_be a b c d = word_of_be a' b' c' d'"
  shows "[a, b, c, d] = [a', b', c', d']"
  using assms word_of_be_bytes [of a b c d] word_of_be_bytes [of a' b' c' d'] by simp

lemma crc_four_bytes_inject:
  assumes "length xs = 4" and "length ys = 4" and "fold crc_byte xs r = fold crc_byte ys r"
  shows "xs = ys"
proof -
  obtain a b c d where xs: "xs = [a, b, c, d]"
    using assms(1) by (auto simp: numeral_eq_Suc length_Suc_conv)
  obtain a' b' c' d' where ys: "ys = [a', b', c', d']"
    using assms(2) by (auto simp: numeral_eq_Suc length_Suc_conv)
  have "(crc_shift ^^ 32) (r XOR word_of_be a b c d) = (crc_shift ^^ 32) (r XOR word_of_be a' b' c' d')"
    using assms(3) unfolding xs ys crc_four_bytes .
  then have "(crc_shift ^^ 32) (word_of_be a b c d XOR word_of_be a' b' c' d') = 0"
    by (simp add: crc_shift_pow_xor xor_eq_0_iff)
  then show ?thesis
    using word_of_be_inject by (simp add: crc_shift_pow_eq_0 xor_eq_0_iff xs ys)
qed

lemma fold_crc_byte_inj: "fold crc_byte bs r = fold crc_byte bs r' \<Longrightarrow> r = r'"
proof (induction bs arbitrary: r r')
  case Nil
  then show ?case by simp
next
  case (Cons b bs)
  from Cons.prems have "crc_byte b r = crc_byte b r'"
    using Cons.IH by simp
  then have "(crc_shift ^^ 8) r = (crc_shift ^^ 8) r'"
    by (simp only: crc_byte_def crc_shift_pow_xor xor_right_cancel)
  then have "(crc_shift ^^ 8) (r XOR r') = 0"
    by (simp only: crc_shift_pow_xor xor_self_eq)
  then show ?case by (simp add: crc_shift_pow_eq_0)
qed

lemma crc_window_inject:
  assumes "length xs = length ys" and "length ys \<le> 4" and "fold crc_byte xs r = fold crc_byte ys r"
  shows "xs = ys"
proof -
  let ?z = "replicate (4 - length ys) (0 :: u8)"
  have "fold crc_byte (xs @ ?z) r = fold crc_byte (ys @ ?z) r"
    using assms(3) by (simp only: fold_append comp_apply)
  then have "xs @ ?z = ys @ ?z"
    using assms(1,2) by (intro crc_four_bytes_inject) auto
  then show ?thesis by simp
qed

lemma crc_window_changes:
  assumes "length e = length e'" and "length e' \<le> 4" and "e \<noteq> e'"
  shows "crc32_ieee_msb (p @ e @ s) \<noteq> crc32_ieee_msb (p @ e' @ s)"
proof
  assume "crc32_ieee_msb (p @ e @ s) = crc32_ieee_msb (p @ e' @ s)"
  then have "fold crc_byte s (fold crc_byte e (crc32_ieee_msb p))
      = fold crc_byte s (fold crc_byte e' (crc32_ieee_msb p))"
    by (simp add: crc32_append)
  then have "fold crc_byte e (crc32_ieee_msb p) = fold crc_byte e' (crc32_ieee_msb p)"
    by (rule fold_crc_byte_inj)
  with assms(1,2) have "e = e'" by (rule crc_window_inject)
  with assms(3) show False by simp
qed

subsection \<open>Contracts\<close>

text \<open>
  C19: appending a message's CRC, most significant byte first, makes the CRC remainder of the whole
  zero. This is what the slice footer and the configuration record writers rely on.
\<close>

theorem crc32_residue: "crc32_ieee_msb (m @ be32 (crc32_ieee_msb m)) = 0"
  by (simp add: crc32_append crc_be32)

text \<open>
  C18: a corruption confined to a window of at most four consecutive bytes (every burst of up to 25
  bits, and every burst of 32 bits that is byte aligned) changes the CRC.
\<close>

theorem crc32_detects_window:
  assumes "length e = length e'" and "length e' \<le> 4" and "e \<noteq> e'"
  shows "crc32_ieee_msb (p @ e @ s) \<noteq> crc32_ieee_msb (p @ e' @ s)"
  using assms by (rule crc_window_changes)

theorem crc32_detects_window_witness:
  "crc32_ieee_msb ([7] @ [1, 2, 3, 4] @ [9]) \<noteq> crc32_ieee_msb ([7] @ [1, 2, 3, 5] @ [9])"
  by (rule crc32_detects_window) simp_all

end
