(* ===== verification/Rfc_Math.thy ===== *)
theory Rfc_Math
  imports Prelude
begin

text \<open>
  The integer helpers of \<^verbatim>\<open>src/src/util/rfc_math.cpp\<close>. C++ integer division truncates: \<open>sdiv\<close> and
  \<open>smod\<close> of the library are that division.
\<close>

definition arithmetic_right_shift :: "int \<Rightarrow> u8 \<Rightarrow> int" where
  "arithmetic_right_shift value shift =
     (if shift = 0 then value
      else if 63 \<le> shift then (if value < 0 then - 1 else 0)
      else
        let divisor = 2 ^ unat shift in
        if 0 \<le> value then value sdiv divisor
        else - ((- value + divisor - 1) sdiv divisor))"

definition median3 :: "int \<Rightarrow> int \<Rightarrow> int \<Rightarrow> int" where
  "median3 a b c = max (min a b) (min (max a b) c)"

definition wrap_sample_difference :: "int \<Rightarrow> u8 \<Rightarrow> int" where
  "wrap_sample_difference value bits_per_raw_sample =
     (if bits_per_raw_sample = 0 \<or> 31 \<le> bits_per_raw_sample then value
      else
        let range = 2 ^ unat bits_per_raw_sample;
            half_range = range div 2;
            value' = value smod range
        in if value' < - half_range then value' + range
           else if half_range \<le> value' then value' - range
           else value')"

subsection \<open>Truncated division\<close>

lemma sdiv_nonneg: "0 \<le> a \<Longrightarrow> 0 < b \<Longrightarrow> a sdiv b = a div (b :: int)"
  by (cases "a = 0") (simp_all add: signed_divide_int_def)

lemma smod_cases:
  assumes "0 < (b :: int)"
  shows "a smod b = (if 0 \<le> a then a mod b else - ((- a) mod b))"
  using assms by (auto simp: signed_modulo_int_def signed_divide_int_def minus_div_mult_eq_mod [symmetric] minus_mult_div_eq_mod sgn_if)

lemma smod_bounds:
  assumes "0 < (b :: int)"
  shows "- b < a smod b" and "a smod b < b"
proof -
  have "0 \<le> a mod b" "a mod b < b" "0 \<le> (- a) mod b" "(- a) mod b < b"
    using assms by simp_all
  then show "- b < a smod b" and "a smod b < b"
    using assms by (auto simp only: smod_cases split: if_split)
qed

lemma smod_mod: "0 < (b :: int) \<Longrightarrow> (a smod b) mod b = a mod b"
  by (simp add: smod_cases mod_minus_eq)

subsection \<open>Contracts\<close>

lemma floor_shift_neg:
  assumes "(0 :: int) < d"
  shows "- ((- v + d - 1) div d) = v div d"
proof -
  have "- v + d - 1 = (d - 1 - v mod d) + - (v div d) * d"
    by (simp add: minus_mod_eq_div_mult [symmetric])
  then have "(- v + d - 1) div d = (d - 1 - v mod d) div d + - (v div d)"
    using assms by (simp only: div_mult_self1)
  also have "(d - 1 - v mod d) div d = 0"
  proof (rule div_pos_pos_trivial)
    have "0 \<le> v mod d" "v mod d < d" using assms by simp_all
    then show "0 \<le> d - 1 - v mod d" and "d - 1 - v mod d < d" by linarith+
  qed
  finally show ?thesis by simp
qed

text \<open>The shift is the floor of the division by the power of two, for every shift amount.\<close>

lemma div_eq_minus1_iff:
  assumes "- d \<le> v" and "v < (0 :: int)"
  shows "v div d = - 1"
proof -
  have "v div d = (v + d) div d - 1"
    using assms by (subst div_add_self2) auto
  also have "(v + d) div d = 0" using assms by (intro div_pos_pos_trivial) auto
  finally show ?thesis by simp
qed

lemma div_power_beyond:
  assumes "in_int64 v" and "63 \<le> n"
  shows "v div 2 ^ n = (if v < 0 then - 1 else 0)"
proof -
  have "(2 :: int) ^ 63 \<le> 2 ^ n" using assms(2) by (rule power_increasing) simp
  with assms(1) have "- (2 ^ n) \<le> v" and "v < 2 ^ n" by (auto simp: in_int64_def)
  then show ?thesis
    by (simp add: div_pos_pos_trivial div_eq_minus1_iff)
qed

lemma arithmetic_right_shift_floor:
  assumes "in_int64 value"
  shows "arithmetic_right_shift value shift = value div 2 ^ unat shift"
proof -
  consider "shift = 0" | "63 \<le> shift" | "shift \<noteq> 0" "\<not> 63 \<le> shift" by blast
  then show ?thesis
  proof cases
    case 1
    then show ?thesis by (simp add: arithmetic_right_shift_def)
  next
    case 2
    then have "63 \<le> unat shift" by (simp add: word_le_nat_alt)
    with assms have "value div 2 ^ unat shift = (if value < 0 then - 1 else 0)"
      by (rule div_power_beyond)
    with 2 show ?thesis by (auto simp: arithmetic_right_shift_def)
  next
    case 3
    have "- ((- value + 2 ^ unat shift - 1) sdiv 2 ^ unat shift) = value div 2 ^ unat shift"
      if neg: "\<not> 0 \<le> value"
    proof -
      have d: "(0 :: int) < 2 ^ unat shift" by simp
      have "0 \<le> - value + 2 ^ unat shift - 1" using neg d by linarith
      then have "(- value + 2 ^ unat shift - 1) sdiv 2 ^ unat shift
          = (- value + 2 ^ unat shift - 1) div 2 ^ unat shift"
        using d by (rule sdiv_nonneg)
      then show ?thesis using d by (simp only: floor_shift_neg)
    qed
    with 3 show ?thesis
      by (simp only: arithmetic_right_shift_def Let_def if_False) (simp add: sdiv_nonneg)
  qed
qed

lemma median3_between: "min a b \<le> median3 a b c" "median3 a b c \<le> max a b"
  by (auto simp: median3_def)

lemma median3_sort: "median3 a b c = sort [a, b, c] ! 1"
  by (auto simp: median3_def)

lemma wrap_sample_difference_mod:
  assumes "bits \<noteq> 0" and "bits < 31"
  shows "wrap_sample_difference v bits mod 2 ^ unat bits = v mod 2 ^ unat bits"
  using assms by (simp add: wrap_sample_difference_def Let_def smod_mod)

lemma wrap_sample_difference_range:
  assumes "bits \<noteq> 0" and "bits < 31"
  shows "- (2 ^ (unat bits - 1)) \<le> wrap_sample_difference v bits"
    and "wrap_sample_difference v bits < 2 ^ (unat bits - 1)"
proof -
  have "unat bits \<noteq> 0" using assms(1) by (simp add: unat_eq_zero)
  then have r: "(2 :: int) ^ unat bits = 2 * 2 ^ (unat bits - 1)"
    by (cases "unat bits") simp_all
  have "- (2 ^ unat bits) < v smod (2 ^ unat bits)" "v smod (2 ^ unat bits) < 2 ^ unat bits"
    by (simp_all add: smod_bounds)
  with assms show "- (2 ^ (unat bits - 1)) \<le> wrap_sample_difference v bits"
    and "wrap_sample_difference v bits < 2 ^ (unat bits - 1)"
    by (auto simp: wrap_sample_difference_def Let_def r)
qed

end
