(* ===== verification/Predictor.thy ===== *)
theory Predictor
  imports Rfc_Math
begin

text \<open>
  Sample prediction of \<^verbatim>\<open>src/src/mffv1/predictor.cpp\<close>: the median predictor, its 16-bit signed
  variant, and the wrapped difference with its inverse.
\<close>

definition as_signed_16bit :: "int \<Rightarrow> int" where
  "as_signed_16bit sample = (if 32768 \<le> sample then sample - 65536 else sample)"

definition median_predict :: "int \<Rightarrow> int \<Rightarrow> int \<Rightarrow> int" where
  "median_predict left top' top_left = median3 left top' (left + top' - top_left)"

definition median_predict_signed_16bit :: "int \<Rightarrow> int \<Rightarrow> int \<Rightarrow> int" where
  "median_predict_signed_16bit left top' top_left =
     (let signed_left = as_signed_16bit left;
          signed_top = as_signed_16bit top';
          signed_top_left = as_signed_16bit top_left
      in median3 signed_left signed_top (signed_left + signed_top - signed_top_left))"

definition reconstruct :: "int \<Rightarrow> int \<Rightarrow> u8 \<Rightarrow> int" where
  "reconstruct prediction difference bits_per_raw_sample =
     (let reconstructed = prediction + difference in
      if bits_per_raw_sample = 0 \<or> 31 \<le> bits_per_raw_sample then reconstructed
      else
        let range = 2 ^ unat bits_per_raw_sample;
            wrapped = reconstructed smod range
        in if wrapped < 0 then wrapped + range else wrapped)"

definition sample_difference :: "int \<Rightarrow> int \<Rightarrow> u8 \<Rightarrow> int" where
  "sample_difference sample prediction bits_per_raw_sample =
     (let raw_difference = sample - prediction in
      if bits_per_raw_sample = 0 \<or> 31 \<le> bits_per_raw_sample then to_int32 raw_difference
      else wrap_sample_difference (to_int32 raw_difference) bits_per_raw_sample)"

lemma reconstruct_mod:
  assumes "bits \<noteq> 0" and "bits < 31"
  shows "reconstruct p d bits = (p + d) mod 2 ^ unat bits"
proof -
  let ?r = "2 ^ unat bits :: int"
  have nb: "\<not> (bits = 0 \<or> 31 \<le> bits)" using assms by (auto simp: not_le)
  have w: "- ?r < (p + d) smod ?r" "(p + d) smod ?r < ?r" "((p + d) smod ?r) mod ?r = (p + d) mod ?r"
    by (simp_all add: smod_bounds smod_mod)
  show ?thesis
  proof (cases "(p + d) smod ?r < 0")
    case True
    with w have "(p + d) smod ?r + ?r = ((p + d) smod ?r + ?r) mod ?r"
      by (intro mod_pos_pos_trivial [symmetric]) linarith+
    also have "\<dots> = (p + d) mod ?r" using w(3) by simp
    finally show ?thesis using True nb by (simp add: reconstruct_def Let_def)
  next
    case False
    then have "(p + d) smod ?r = ((p + d) smod ?r) mod ?r"
      using w by (simp add: mod_pos_pos_trivial)
    with False w nb show ?thesis by (simp add: reconstruct_def Let_def)
  qed
qed


lemma median_predict_between:
  "min left top' \<le> median_predict left top' top_left"
  "median_predict left top' top_left \<le> max left top'"
  by (simp_all add: median_predict_def median3_between)

lemma as_signed_16bit_range:
  "0 \<le> s \<Longrightarrow> s < 65536 \<Longrightarrow> - 32768 \<le> as_signed_16bit s \<and> as_signed_16bit s < 32768"
  by (simp add: as_signed_16bit_def)

lemma median_predict_signed_16bit_range:
  assumes "0 \<le> left" "left < 65536" "0 \<le> top'" "top' < 65536"
  shows "- 32768 \<le> median_predict_signed_16bit left top' top_left"
    and "median_predict_signed_16bit left top' top_left < 32768"
  using assms as_signed_16bit_range [of left] as_signed_16bit_range [of top']
    median3_between [of "as_signed_16bit left" "as_signed_16bit top'"]
  by (auto simp: median_predict_signed_16bit_def Let_def min_le_iff_disj le_max_iff_disj
      intro: order.trans order.strict_trans1)

subsection \<open>Contracts\<close>

lemma reconstruct_wrapped:
  assumes "bits \<noteq> 0" and "bits < 31" and "0 \<le> sample" and "sample < 2 ^ unat bits"
    and "in_int32 (sample - prediction)"
    and "d mod 2 ^ unat bits = sample_difference sample prediction bits mod 2 ^ unat bits"
  shows "reconstruct prediction d bits = sample"
proof -
  have "reconstruct prediction d bits = (prediction + d mod 2 ^ unat bits) mod 2 ^ unat bits"
    using assms(1,2) by (simp add: reconstruct_mod mod_add_right_eq)
  also have "d mod 2 ^ unat bits = (sample - prediction) mod 2 ^ unat bits"
    using assms by (simp add: sample_difference_def Let_def not_le to_int32_id wrap_sample_difference_mod)
  also have "(prediction + (sample - prediction) mod 2 ^ unat bits) mod 2 ^ unat bits = sample"
    using assms(3,4) by (simp add: mod_add_right_eq)
  finally show ?thesis .
qed

text \<open>
  C14: prediction is lossless. For every bit depth the codec uses, reconstructing from the wrapped
  difference returns the sample, whatever the prediction, and so does any difference congruent to
  it (the entropy coders may carry \<open>- half_range\<close> as \<open>half_range\<close>).
\<close>

theorem reconstruct_difference:
  assumes "bits \<noteq> 0" and "bits < 31" and "0 \<le> sample" and "sample < 2 ^ unat bits"
    and "in_int32 (sample - prediction)"
    and "d mod 2 ^ unat bits = sample_difference sample prediction bits mod 2 ^ unat bits"
  shows "reconstruct prediction d bits = sample"
  using assms by (rule reconstruct_wrapped)

theorem reconstruct_difference_witness:
  "reconstruct 3 (sample_difference 250 3 8) 8 = 250"
  by (rule reconstruct_difference [of 8 250 3 "sample_difference 250 3 8"])
    (simp_all add: in_int32_def)

end
