(* ===== verification/Color_Transform.thy ===== *)
theory Color_Transform
  imports Rfc_Math
begin

text \<open>
  The reversible colour transform of \<^verbatim>\<open>src/src/mffv1/color_transform.cpp\<close>, with the exceptional
  channel order for 9 to 15 bit streams without an extra plane, and the proof that the inverse
  undoes the forward transform on every sample of the configured depth.
\<close>

record rgb_sample =
  rgb_r :: u16
  rgb_g :: u16
  rgb_b :: u16

record rgb_code =
  code_y :: int
  code_cb :: int
  code_cr :: int

definition forward_jpeg2000_rct :: "u16 \<Rightarrow> u16 \<Rightarrow> u16 \<Rightarrow> u8 \<Rightarrow> bool \<Rightarrow> rgb_code" where
  "forward_jpeg2000_rct r g b bits_per_raw_sample has_extra_plane =
     (if bits_per_raw_sample = 0 \<or> 16 < bits_per_raw_sample then \<lparr>code_y = 0, code_cb = 0, code_cr = 0\<rparr>
      else
        let offset = 2 ^ unat bits_per_raw_sample :: int;
            coded_mask = (word_of_int (offset * 2 - 1) :: u64);
            (signed_cb, signed_cr, y) =
              (if 9 \<le> bits_per_raw_sample \<and> bits_per_raw_sample \<le> 15 \<and> \<not> has_extra_plane
               then let signed_cb = uint g - uint b;
                        signed_cr = uint r - uint b;
                        correction = arithmetic_right_shift (signed_cb + signed_cr) 2
                    in (signed_cb, signed_cr, uint b + correction)
               else let signed_cb = uint b - uint g;
                        signed_cr = uint r - uint g;
                        correction = arithmetic_right_shift (signed_cb + signed_cr) 2
                    in (signed_cb, signed_cr, uint g + correction))
        in \<lparr>code_y = to_int32 (uint (word_of_int y AND coded_mask)),
            code_cb = to_int32 (signed_cb + offset),
            code_cr = to_int32 (signed_cr + offset)\<rparr>)"

definition inverse_jpeg2000_rct :: "int \<Rightarrow> int \<Rightarrow> int \<Rightarrow> u8 \<Rightarrow> bool \<Rightarrow> rgb_sample" where
  "inverse_jpeg2000_rct y cb cr bits_per_raw_sample has_extra_plane =
     (if bits_per_raw_sample = 0 \<or> 16 < bits_per_raw_sample then \<lparr>rgb_r = 0, rgb_g = 0, rgb_b = 0\<rparr>
      else
        let offset = 2 ^ unat bits_per_raw_sample :: int;
            mask = (word_of_int (offset - 1) :: u64);
            signed_cb = cb - offset;
            signed_cr = cr - offset;
            correction = arithmetic_right_shift (signed_cb + signed_cr) 2;
            (r, g, b) =
              (if 9 \<le> bits_per_raw_sample \<and> bits_per_raw_sample \<le> 15 \<and> \<not> has_extra_plane
               then let b = y - correction in (signed_cr + b, signed_cb + b, b)
               else let g = y - correction in (signed_cr + g, g, signed_cb + g))
        in \<lparr>rgb_r = ucast (word_of_int r AND mask),
            rgb_g = ucast (word_of_int g AND mask),
            rgb_b = ucast (word_of_int b AND mask)\<rparr>)"

subsection \<open>Masks\<close>

lemma ucast_and_mask64:
  assumes "n \<le> 16"
  shows "(ucast ((word_of_int x :: u64) AND word_of_int (2 ^ n - 1)) :: u16) = word_of_int (x mod 2 ^ n)"
  using uint_and_mask64 [of n x] assms by (simp only: ucast_eq)

text \<open>
  The luma of a sample triple is an average, hence fits the sample depth: the mask of the forward
  transform and the casts lose nothing.
\<close>

lemma average_range:
  fixes p q s :: int
  assumes "0 \<le> p" "p < m" "0 \<le> q" "q < m" "0 \<le> s" "s < m"
  shows "0 \<le> s + ((p - s) + (q - s)) div 4" and "s + ((p - s) + (q - s)) div 4 < m"
proof -
  have "s + ((p - s) + (q - s)) div 4 = (((p - s) + (q - s)) + s * 4) div 4"
    by (simp only: div_mult_self1 zero_neq_numeral)
  also have "\<dots> = (p + q + 2 * s) div 4" by simp
  finally have eq: "s + ((p - s) + (q - s)) div 4 = (p + q + 2 * s) div 4" .
  from assms have "0 \<le> p + q + 2 * s" "p + q + 2 * s < 4 * m" by simp_all
  then show "0 \<le> s + ((p - s) + (q - s)) div 4" and "s + ((p - s) + (q - s)) div 4 < m"
    unfolding eq by (simp_all add: div_less_iff_less_mult ac_simps)
qed

lemma shift2_floor: "in_int64 v \<Longrightarrow> arithmetic_right_shift v 2 = v div 4"
  using arithmetic_right_shift_floor [of v 2] by simp

lemma channel_uint:
  assumes "n \<le> 16" and "unat (c :: u16) < 2 ^ n"
  shows "0 \<le> uint c" "uint c < 2 ^ n" "(2 :: int) ^ n \<le> 65536"
proof -
  have "uint c = int (unat c)" by simp
  also have "\<dots> < int (2 ^ n)" using assms(2) by (simp only: of_nat_less_iff)
  finally show "uint c < 2 ^ n" by simp
  have "(2 :: int) ^ n \<le> 2 ^ 16" using assms(1) by (rule power_increasing) simp
  then show "(2 :: int) ^ n \<le> 65536" by simp
qed simp

lemma channel_mod: "n \<le> 16 \<Longrightarrow> unat (c :: u16) < 2 ^ n \<Longrightarrow> uint c mod 2 ^ n = uint c"
  using channel_uint [of n c] by (intro mod_pos_pos_trivial) simp_all

text \<open>
  Each branch codes a base channel \<open>s\<close> and two differences: the three code values stay in the
  \<open>n + 1\<close> bit range, and the inverse's arithmetic recovers the channels.
\<close>

lemma branch_values:
  fixes p q s :: u16
  assumes n: "n \<noteq> 0" "n \<le> 16" and "unat p < 2 ^ n" "unat q < 2 ^ n" "unat s < 2 ^ n"
  defines "c \<equiv> (uint p - uint s) + (uint q - uint s)"
  shows "arithmetic_right_shift c 2 = c div 4"
    and "to_int32 (uint ((word_of_int (uint s + c div 4) :: u64) AND word_of_int (2 ^ n * 2 - 1)))
          = uint s + c div 4"
    and "to_int32 (uint p - uint s + 2 ^ n) = uint p - uint s + 2 ^ n"
    and "to_int32 (uint q - uint s + 2 ^ n) = uint q - uint s + 2 ^ n"
    and "0 \<le> uint s + c div 4" "uint s + c div 4 < 2 ^ n"
proof -
  note P = channel_uint [OF n(2) assms(3)] and Q = channel_uint [OF n(2) assms(4)]
    and S = channel_uint [OF n(2) assms(5)]
  have "- 131072 \<le> c" "c \<le> 131072" unfolding c_def using P Q S by linarith+
  then have "in_int64 c" by (simp add: in_int64_def)
  then show "arithmetic_right_shift c 2 = c div 4" by (rule shift2_floor)
  have avg: "0 \<le> uint s + c div 4" "uint s + c div 4 < 2 ^ n"
    using average_range [OF P(1,2) Q(1,2) S(1,2)] unfolding c_def by simp_all
  then show "0 \<le> uint s + c div 4" "uint s + c div 4 < 2 ^ n" by simp_all
  have "uint ((word_of_int (uint s + c div 4) :: u64) AND word_of_int (2 ^ Suc n - 1))
      = (uint s + c div 4) mod 2 ^ Suc n"
    using n by (intro uint_and_mask64) simp
  also have "\<dots> = uint s + c div 4"
    using avg by (intro mod_pos_pos_trivial) simp_all
  finally have "uint ((word_of_int (uint s + c div 4) :: u64) AND word_of_int (2 ^ n * 2 - 1))
      = uint s + c div 4" by (simp add: mult.commute)
  moreover have "in_int32 (uint s + c div 4)" using avg S(3) by (simp add: in_int32_def)
  ultimately show "to_int32 (uint ((word_of_int (uint s + c div 4) :: u64) AND word_of_int (2 ^ n * 2 - 1)))
      = uint s + c div 4" by (simp only: to_int32_id)
  show "to_int32 (uint p - uint s + 2 ^ n) = uint p - uint s + 2 ^ n"
    and "to_int32 (uint q - uint s + 2 ^ n) = uint q - uint s + 2 ^ n"
  proof -
    have "- 131072 \<le> uint p - uint s + 2 ^ n" "uint p - uint s + 2 ^ n \<le> 131072"
      "- 131072 \<le> uint q - uint s + 2 ^ n" "uint q - uint s + 2 ^ n \<le> 131072"
      using P Q S by linarith+
    then show "to_int32 (uint p - uint s + 2 ^ n) = uint p - uint s + 2 ^ n"
      and "to_int32 (uint q - uint s + 2 ^ n) = uint q - uint s + 2 ^ n"
      by (simp_all add: to_int32_id in_int32_def)
  qed
qed

lemma rct_lossless:
  assumes "bits \<noteq> 0" and "bits \<le> 16"
    and "unat r < 2 ^ unat bits" and "unat g < 2 ^ unat bits" and "unat b < 2 ^ unat bits"
  shows "(let c = forward_jpeg2000_rct r g b bits extra
          in inverse_jpeg2000_rct (code_y c) (code_cb c) (code_cr c) bits extra)
         = \<lparr>rgb_r = r, rgb_g = g, rgb_b = b\<rparr>"
proof -
  have n: "unat bits \<noteq> 0" "unat bits \<le> 16"
    using assms(1,2) by (simp_all add: unat_eq_zero word_le_nat_alt)
  have nb: "\<not> (bits = 0 \<or> 16 < bits)" using assms(1,2) by auto
  note GRB = branch_values [OF n assms(4) assms(3) assms(5)]
    and BRG = branch_values [OF n assms(5) assms(3) assms(4)]
  note unmask = ucast_and_mask64 [OF n(2)]
  note compute = forward_jpeg2000_rct_def inverse_jpeg2000_rct_def Let_def nb if_True if_False
    prod.case rgb_code.simps add_diff_cancel_right' diff_add_cancel unmask word_of_int_uint
    channel_mod [OF n(2)] assms(3-5)
  show ?thesis
  proof (cases "9 \<le> bits \<and> bits \<le> 15 \<and> \<not> extra")
    case True
    then have swapped: "(9 \<le> bits \<and> bits \<le> 15 \<and> \<not> extra) = True" by simp
    show ?thesis by (simp only: compute swapped GRB)
  next
    case False
    then have plain: "(9 \<le> bits \<and> bits \<le> 15 \<and> \<not> extra) = False" by simp
    show ?thesis by (simp only: compute plain BRG)
  qed
qed

text \<open>The code values of a pixel fit one bit more than its samples.\<close>

definition code_within :: "int \<Rightarrow> rgb_code \<Rightarrow> bool" where
  "code_within bound c \<longleftrightarrow>
     0 \<le> code_y c \<and> code_y c < bound \<and> 0 \<le> code_cb c \<and> code_cb c < bound \<and> 0 \<le> code_cr c \<and> code_cr c < bound"

lemma forward_rct_within:
  assumes "bits \<noteq> 0" and "bits \<le> 16"
    and "unat r < 2 ^ unat bits" and "unat g < 2 ^ unat bits" and "unat b < 2 ^ unat bits"
  shows "code_within (2 ^ (unat bits + 1)) (forward_jpeg2000_rct r g b bits extra)"
proof -
  have n: "unat bits \<noteq> 0" "unat bits \<le> 16"
    using assms(1,2) by (simp_all add: unat_eq_zero word_le_nat_alt)
  have nb: "\<not> (bits = 0 \<or> 16 < bits)" using assms(1,2) by auto
  note GRB = branch_values [OF n assms(4) assms(3) assms(5)]
    and BRG = branch_values [OF n assms(5) assms(3) assms(4)]
  note R = channel_uint [OF n(2) assms(3)] and G = channel_uint [OF n(2) assms(4)]
    and B = channel_uint [OF n(2) assms(5)]
  show ?thesis
  proof (cases "9 \<le> bits \<and> bits \<le> 15 \<and> \<not> extra")
    case True
    then have swapped: "(9 \<le> bits \<and> bits \<le> 15 \<and> \<not> extra) = True" by simp
    show ?thesis
      by (simp only: code_within_def forward_jpeg2000_rct_def Let_def nb if_False swapped if_True prod.case
          rgb_code.simps GRB(1-4) power_add power_one_right)
        (intro conjI; use GRB(5,6) R G B in linarith)
  next
    case False
    then have plain: "(9 \<le> bits \<and> bits \<le> 15 \<and> \<not> extra) = False" by simp
    show ?thesis
      by (simp only: code_within_def forward_jpeg2000_rct_def Let_def nb if_False plain prod.case
          rgb_code.simps BRG(1-4) power_add power_one_right)
        (intro conjI; use BRG(5,6) R G B in linarith)
  qed
qed

text \<open>
  C15: the colour transform is lossless at every supported depth, in both channel orders: for
  samples of the configured depth the inverse transform of the forward transform is the sample.
\<close>

theorem inverse_forward_rct:
  assumes "bits \<noteq> 0" and "bits \<le> 16"
    and "unat r < 2 ^ unat bits" and "unat g < 2 ^ unat bits" and "unat b < 2 ^ unat bits"
  shows "(let c = forward_jpeg2000_rct r g b bits extra
          in inverse_jpeg2000_rct (code_y c) (code_cb c) (code_cr c) bits extra)
         = \<lparr>rgb_r = r, rgb_g = g, rgb_b = b\<rparr>"
  using assms by (rule rct_lossless)

theorem inverse_forward_rct_witness:
  "(let c = forward_jpeg2000_rct 1023 5 700 10 False
    in inverse_jpeg2000_rct (code_y c) (code_cb c) (code_cr c) 10 False)
   = \<lparr>rgb_r = 1023, rgb_g = 5, rgb_b = 700\<rparr>"
  by (rule inverse_forward_rct) simp_all

end
