(* ===== verification/Bit_Lists.thy ===== *)
theory Bit_Lists
  imports Prelude
begin

text \<open>
  Bit strings, most significant bit first: the abstract view of the byte streams that the bit
  reader, the bit writer and the Golomb-Rice coders share.
\<close>

definition bits_of :: "nat \<Rightarrow> 'a::semiring_bits \<Rightarrow> bool list" where
  "bits_of n v = map (bit v) (rev [0..<n])"

definition bits_of_bytes :: "bytes \<Rightarrow> bool list" where
  "bits_of_bytes bs = concat (map (bits_of 8) bs)"

definition word_of_bits :: "u64 \<Rightarrow> bool list \<Rightarrow> u64" where
  "word_of_bits v bs = fold (\<lambda>b v. push_bit 1 v OR of_bool b) bs v"

lemma length_bits_of [simp]: "length (bits_of n v) = n"
  by (simp add: bits_of_def)

lemma bits_of_0 [simp]: "bits_of 0 v = []"
  by (simp add: bits_of_def)

lemma bits_of_Suc: "bits_of (Suc n) v = bit v n # bits_of n v"
  by (simp add: bits_of_def)

lemma nth_bits_of: "i < n \<Longrightarrow> bits_of n v ! i = bit v (n - 1 - i)"
  by (simp add: bits_of_def rev_nth)

lemma bits_of_zero: "bits_of n (0 :: 'a::len word) = replicate n False"
  by (induction n) (simp_all add: bits_of_Suc)

lemma length_bits_of_bytes [simp]: "length (bits_of_bytes bs) = 8 * length bs"
  by (induction bs) (simp_all add: bits_of_bytes_def)

lemma bits_of_bytes_Nil [simp]: "bits_of_bytes [] = []"
  by (simp add: bits_of_bytes_def)

lemma bits_of_bytes_append: "bits_of_bytes (xs @ ys) = bits_of_bytes xs @ bits_of_bytes ys"
  by (simp add: bits_of_bytes_def)

lemma bits_of_bytes_Cons: "bits_of_bytes (b # bs) = bits_of 8 b @ bits_of_bytes bs"
  by (simp add: bits_of_bytes_def)

lemma nth_bits_of_bytes:
  "i < 8 * length bs \<Longrightarrow> bits_of_bytes bs ! i = bit (bs ! (i div 8)) (7 - i mod 8)"
proof (induction bs arbitrary: i)
  case Nil
  then show ?case by simp
next
  case (Cons b bs)
  show ?case
  proof (cases "i < 8")
    case True
    then show ?thesis by (simp add: bits_of_bytes_Cons nth_append nth_bits_of)
  next
    case False
    then have "(i - 8) div 8 = i div 8 - 1" and "(i - 8) mod 8 = i mod 8" and "i div 8 \<noteq> 0"
      by (simp_all add: le_div_geq le_mod_geq)
    with False Cons.IH [of "i - 8"] Cons.prems show ?thesis
      by (simp add: bits_of_bytes_Cons nth_append nth_Cons')
  qed
qed

lemma word_of_bits_Nil [simp]: "word_of_bits v [] = v"
  by (simp add: word_of_bits_def)

lemma word_of_bits_Cons: "word_of_bits v (b # bs) = word_of_bits (push_bit 1 v OR of_bool b) bs"
  by (simp add: word_of_bits_def)

lemma word_of_bits_append: "word_of_bits v (xs @ ys) = word_of_bits (word_of_bits v xs) ys"
  by (simp add: word_of_bits_def)

lemma shift_in_bit:
  fixes v :: "'a::len word"
  shows "push_bit 1 (drop_bit (Suc n) v) OR of_bool (bit v n) = drop_bit n v"
proof (rule bit_word_eqI)
  fix i
  assume i: "i < LENGTH('a)"
  show "bit (push_bit 1 (drop_bit (Suc n) v) OR of_bool (bit v n)) i = bit (drop_bit n v) i"
    using i by (cases i) (auto simp only: bit_or_iff bit_push_bit_iff bit_drop_bit_eq bit_of_bool_iff
        comp_apply add_Suc_right, auto)
qed

lemma word_of_bits_drop: "n \<le> 64 \<Longrightarrow> word_of_bits (drop_bit n v) (bits_of n v) = v"
proof (induction n)
  case 0
  then show ?case by simp
next
  case (Suc n)
  have "word_of_bits (drop_bit (Suc n) v) (bits_of (Suc n) v) = word_of_bits (drop_bit n v) (bits_of n v)"
    by (simp only: bits_of_Suc word_of_bits_Cons shift_in_bit)
  also have "\<dots> = v" using Suc by simp
  finally show ?case .
qed

lemma drop_bit_small: "unat (v :: 'a::len word) < 2 ^ n \<Longrightarrow> drop_bit n v = 0"
  unfolding unat_eq_zero [symmetric] unat_drop_bit_eq by (simp add: drop_bit_eq_div)

lemma word_of_bits_of: "unat v < 2 ^ n \<Longrightarrow> n \<le> 64 \<Longrightarrow> word_of_bits 0 (bits_of n v) = v"
  using word_of_bits_drop [of n v] by (simp add: drop_bit_small)

end
