(* ===== verification/Bit_Reader.thy ===== *)
theory Bit_Reader
  imports Bit_Lists
begin

text \<open>
  The bit reader of \<^verbatim>\<open>src/src/bitstream/bit_reader.cpp\<close>: a byte span and a 64-bit bit position.
  Its abstraction is the list of bits still to be read.
\<close>

record bit_reader =
  br_data :: bytes
  br_bit_position :: u64

definition make_bit_reader :: "bytes \<Rightarrow> bit_reader" where
  "make_bit_reader data = \<lparr>br_data = data, br_bit_position = 0\<rparr>"

definition br_byte_position :: "bit_reader \<Rightarrow> u64" where
  "br_byte_position r = br_bit_position r div 8"

definition remaining_bits :: "bit_reader \<Rightarrow> u64" where
  "remaining_bits r =
     (let total_bits = word_of_nat (length (br_data r)) * 8 in
      if br_bit_position r \<le> total_bits then total_bits - br_bit_position r else 0)"

definition read_bit :: "bit_reader \<Rightarrow> (u8 \<times> bit_reader) result" where
  "read_bit r =
     (if remaining_bits r = 0 then Inl (make_error SyntaxError)
      else
        let byte_index = unat (br_bit_position r div 8);
            bit_index = 7 - unat (br_bit_position r mod 8);
            value = br_data r ! byte_index;
            out_bit = drop_bit bit_index value AND 1
        in Inr (out_bit, r\<lparr>br_bit_position := br_bit_position r + 1\<rparr>))"

fun read_bits_loop :: "nat \<Rightarrow> u64 \<Rightarrow> bit_reader \<Rightarrow> (u64 \<times> bit_reader) result" where
  "read_bits_loop 0 value r = Inr (value, r)"
| "read_bits_loop (Suc n) value r =
     bind_result (read_bit r) (\<lambda>(b, r'). read_bits_loop n (push_bit 1 value OR ucast b) r')"

definition read_bits :: "u8 \<Rightarrow> bit_reader \<Rightarrow> (u64 \<times> bit_reader) result" where
  "read_bits bit_count r =
     (if 64 < bit_count then Inl (make_error InvalidArgument)
      else if remaining_bits r < ucast bit_count then Inl (make_error SyntaxError)
      else read_bits_loop (unat bit_count) 0 r)"

definition skip_bits :: "u64 \<Rightarrow> bit_reader \<Rightarrow> bit_reader result" where
  "skip_bits bit_count r =
     (if remaining_bits r < bit_count then Inl (make_error SyntaxError)
      else Inr (r\<lparr>br_bit_position := br_bit_position r + bit_count\<rparr>))"

definition br_byte_align :: "bit_reader \<Rightarrow> bit_reader" where
  "br_byte_align r =
     (let remainder = br_bit_position r mod 8 in
      if remainder \<noteq> 0 then r\<lparr>br_bit_position := br_bit_position r + (8 - remainder)\<rparr> else r)"

definition br_require_byte_aligned :: "bit_reader \<Rightarrow> unit result" where
  "br_require_byte_aligned r =
     (if br_bit_position r mod 8 \<noteq> 0 then Inl (make_error SyntaxError) else Inr ())"

subsection \<open>Abstraction\<close>

text \<open>The spans the library handles are far below \<open>2 ^ 61\<close> bytes, so the bit count fits.\<close>

definition reader_ok :: "bit_reader \<Rightarrow> bool" where
  "reader_ok r \<longleftrightarrow> 8 * length (br_data r) < 2 ^ 64 \<and> unat (br_bit_position r) \<le> 8 * length (br_data r)"

definition unread :: "bit_reader \<Rightarrow> bool list" where
  "unread r = drop (unat (br_bit_position r)) (bits_of_bytes (br_data r))"

lemma reader_ok_make: "8 * length data < 2 ^ 64 \<Longrightarrow> reader_ok (make_bit_reader data)"
  by (simp add: reader_ok_def make_bit_reader_def)

lemma unread_make [simp]: "unread (make_bit_reader data) = bits_of_bytes data"
  by (simp add: unread_def make_bit_reader_def)

lemma remaining_bits_unat:
  assumes "reader_ok r"
  shows "unat (remaining_bits r) = length (unread r)"
proof -
  let ?total = "word_of_nat (length (br_data r)) * 8 :: u64"
  have "unat ?total = 8 * length (br_data r)"
    using assms by (simp add: reader_ok_def unat_mult_bounded unat_of_nat_bounded)
  with assms show ?thesis
    by (simp add: remaining_bits_def reader_ok_def unread_def word_le_nat_alt unat_diff_bounded)
qed

lemma read_bit_correct:
  assumes "reader_ok r"
  shows "read_bit r =
    (case unread r of [] \<Rightarrow> Inl (make_error SyntaxError)
     | b # _ \<Rightarrow> Inr (of_bool b, r\<lparr>br_bit_position := br_bit_position r + 1\<rparr>))"
proof (cases "unread r")
  case Nil
  with remaining_bits_unat [OF assms] have "remaining_bits r = 0" by (simp add: unat_eq_zero)
  with Nil show ?thesis by (simp add: read_bit_def)
next
  case (Cons b rest)
  with remaining_bits_unat [OF assms] have ne: "remaining_bits r \<noteq> 0" by auto
  let ?p = "unat (br_bit_position r)"
  from Cons have p: "?p < 8 * length (br_data r)" and b: "b = bits_of_bytes (br_data r) ! ?p"
    by (auto simp: unread_def nth_via_drop dest: arg_cong [where f = length])
  from p have "b = bit (br_data r ! (?p div 8)) (7 - ?p mod 8)"
    unfolding b by (rule nth_bits_of_bytes)
  then have "drop_bit (7 - ?p mod 8) (br_data r ! (?p div 8)) AND 1 = of_bool b"
    by (simp add: low_bit)
  with ne Cons show ?thesis
    by (simp add: read_bit_def Let_def unat_div unat_mod)
qed

lemma reader_advance:
  assumes "reader_ok r" and "n \<le> length (unread r)"
  defines "r' \<equiv> r\<lparr>br_bit_position := br_bit_position r + word_of_nat n\<rparr>"
  shows "reader_ok r'" and "unread r' = drop n (unread r)"
    and "unat (br_bit_position r') = unat (br_bit_position r) + n"
proof -
  have n: "n < 2 ^ 64" and fits: "unat (br_bit_position r) + n < 2 ^ 64"
    and within: "unat (br_bit_position r) + n \<le> 8 * length (br_data r)"
    using assms by (auto simp: reader_ok_def unread_def)
  from n fits show pos: "unat (br_bit_position r') = unat (br_bit_position r) + n"
    by (simp add: r'_def unat_add_bounded unat_of_nat_bounded)
  from within pos assms(1) show "reader_ok r'" by (simp add: reader_ok_def r'_def)
  from pos show "unread r' = drop n (unread r)" by (simp add: unread_def r'_def add.commute)
qed

lemma read_bit_step:
  assumes "reader_ok r" and "unread r = b # rest"
  obtains r' where "read_bit r = Inr (of_bool b, r')" "reader_ok r'" "unread r' = rest"
    "br_data r' = br_data r" "unat (br_bit_position r') = Suc (unat (br_bit_position r))"
proof
  let ?r' = "r\<lparr>br_bit_position := br_bit_position r + word_of_nat 1\<rparr>"
  have n: "1 \<le> length (unread r)" using assms(2) by simp
  show "read_bit r = Inr (of_bool b, ?r')"
    using assms by (simp add: read_bit_correct)
  from reader_advance [OF assms(1) n] assms(2)
  show "reader_ok ?r'" "unread ?r' = rest" "br_data ?r' = br_data r"
    "unat (br_bit_position ?r') = Suc (unat (br_bit_position r))" by simp_all
qed

lemma read_bits_loop_correct:
  assumes "reader_ok r" and "unread r = bs @ rest"
  shows "\<exists>r'. read_bits_loop (length bs) v r = Inr (word_of_bits v bs, r')
    \<and> reader_ok r' \<and> unread r' = rest \<and> br_data r' = br_data r
    \<and> unat (br_bit_position r') = unat (br_bit_position r) + length bs"
  using assms
proof (induction bs arbitrary: v r)
  case Nil
  then show ?case by simp
next
  case (Cons b bs)
  from Cons.prems have "unread r = b # (bs @ rest)" by simp
  with Cons.prems(1) obtain r' where r': "read_bit r = Inr (of_bool b, r')" "reader_ok r'"
    "unread r' = bs @ rest" "br_data r' = br_data r"
    "unat (br_bit_position r') = Suc (unat (br_bit_position r))"
    by (rule read_bit_step)
  have "ucast (of_bool b :: u8) = (of_bool b :: u64)" by (cases b) simp_all
  with r' Cons.IH [OF r'(2,3), of "push_bit 1 v OR of_bool b"] show ?case
    by (auto simp: word_of_bits_Cons)
qed

lemma read_bits_step:
  assumes "reader_ok r" and "unread r = bs @ rest" and "length bs = unat n" and "n \<le> 64"
  obtains r' where "read_bits n r = Inr (word_of_bits 0 bs, r')" "reader_ok r'" "unread r' = rest"
    "br_data r' = br_data r" "unat (br_bit_position r') = unat (br_bit_position r) + unat n"
proof -
  have "unat (ucast n :: u64) \<le> unat (remaining_bits r)"
    using assms(2,3) by (simp add: remaining_bits_unat [OF assms(1)])
  then have "\<not> remaining_bits r < ucast n" by (simp add: word_less_nat_alt not_less)
  moreover from assms(4) have "\<not> 64 < n" by (simp add: not_less)
  ultimately have "read_bits n r = read_bits_loop (length bs) 0 r"
    by (simp add: read_bits_def assms(3))
  with read_bits_loop_correct [OF assms(1,2), of 0] that assms(3) show thesis by auto
qed

text \<open>Every read either fails without touching the stream or consumes exactly the bits asked for.\<close>

lemma read_bits_total:
  assumes "reader_ok r" and "n \<le> 64"
  shows "read_bits n r =
    (if length (unread r) < unat n then Inl (make_error SyntaxError)
     else Inr (word_of_bits 0 (take (unat n) (unread r)),
               r\<lparr>br_bit_position := br_bit_position r + ucast n\<rparr>))"
proof (cases "length (unread r) < unat n")
  case True
  then have "remaining_bits r < ucast n"
    by (simp add: word_less_nat_alt remaining_bits_unat [OF assms(1)])
  with True assms(2) show ?thesis by (simp add: read_bits_def not_less)
next
  case False
  then have split: "unread r = take (unat n) (unread r) @ drop (unat n) (unread r)"
    and len: "length (take (unat n) (unread r)) = unat n" by simp_all
  obtain r' where r': "read_bits n r = Inr (word_of_bits 0 (take (unat n) (unread r)), r')"
    "br_data r' = br_data r" "unat (br_bit_position r') = unat (br_bit_position r) + unat n"
    using assms(1) split len assms(2) by (rule read_bits_step)
  have "unat (br_bit_position r + ucast n) = unat (br_bit_position r) + unat n"
    using reader_advance(3) [OF assms(1), of "unat n"] False by simp
  with r'(3) have "br_bit_position r' = br_bit_position r + ucast n" by (simp add: word_unat_eq_iff)
  with r' False show ?thesis by simp
qed

text \<open>C3: bits are read in order, and reading past the end is an error that consumes nothing.\<close>

end
