(* ===== verification/Bit_Writer.thy ===== *)
theory Bit_Writer
  imports Bit_Lists
begin

text \<open>
  The bit writer of \<^verbatim>\<open>src/src/bitstream/bit_writer.cpp\<close>. Its abstraction is the list of bits written
  so far; the invariant says that the last byte is zero beyond the bit position.
\<close>

record bit_writer =
  bw_bytes :: bytes
  bw_bit_position :: u64
  bw_finalized :: bool

definition new_bit_writer :: bit_writer where
  "new_bit_writer = \<lparr>bw_bytes = [], bw_bit_position = 0, bw_finalized = False\<rparr>"

definition bw_reset :: "bit_writer \<Rightarrow> bit_writer" where
  "bw_reset w = w\<lparr>bw_bytes := [], bw_bit_position := 0, bw_finalized := False\<rparr>"

definition bw_byte_position :: "bit_writer \<Rightarrow> u64" where
  "bw_byte_position w = bw_bit_position w div 8"

definition write_bit :: "u8 \<Rightarrow> bit_writer \<Rightarrow> bit_writer result" where
  "write_bit b w =
     (if bw_finalized w then Inl (make_error InvalidState)
      else if 1 < b then Inl (make_error InvalidArgument)
      else if bw_bit_position w = - 1 then Inl (make_error ResourceExhausted)
      else
        let bit_in_byte = unat (bw_bit_position w mod 8) in
        if bit_in_byte = 0 \<and> length (bw_bytes w) = byte_vector_max_size
        then Inl (make_error ResourceExhausted)
        else
          let pushed = (if bit_in_byte = 0 then bw_bytes w @ [0] else bw_bytes w);
              stored = (if b \<noteq> 0
                        then butlast pushed @ [last pushed OR push_bit (7 - bit_in_byte) 1]
                        else pushed)
          in Inr (w\<lparr>bw_bytes := stored, bw_bit_position := bw_bit_position w + 1\<rparr>))"

fun write_bits_loop :: "nat \<Rightarrow> u64 \<Rightarrow> bit_writer \<Rightarrow> bit_writer result" where
  "write_bits_loop 0 value w = Inr w"
| "write_bits_loop (Suc shift) value w =
     bind_result (write_bit (ucast (drop_bit shift value AND 1)) w) (write_bits_loop shift value)"

definition write_bits :: "u64 \<Rightarrow> u8 \<Rightarrow> bit_writer \<Rightarrow> bit_writer result" where
  "write_bits value bit_count w =
     (if bw_finalized w then Inl (make_error InvalidState)
      else if 64 < bit_count then Inl (make_error InvalidArgument)
      else if bit_count < 64 \<and> push_bit (unat bit_count) 1 \<le> value then Inl (make_error InvalidArgument)
      else if - 1 - ucast bit_count < bw_bit_position w then Inl (make_error ResourceExhausted)
      else write_bits_loop (unat bit_count) value w)"

definition bw_byte_align_zero :: "bit_writer \<Rightarrow> bit_writer result" where
  "bw_byte_align_zero w =
     (if bw_finalized w then Inl (make_error InvalidState)
      else
        let remainder = (ucast (bw_bit_position w mod 8) :: u8) in
        if remainder = 0 then Inr w else write_bits 0 (8 - remainder) w)"

definition bw_require_byte_aligned :: "bit_writer \<Rightarrow> unit result" where
  "bw_require_byte_aligned w =
     (if bw_bit_position w mod 8 \<noteq> 0 then Inl (make_error InvalidState) else Inr ())"

definition bw_finalize :: "bit_writer \<Rightarrow> (bytes \<times> bit_writer) result" where
  "bw_finalize w =
     (if bw_finalized w then Inl (make_error InvalidState)
      else bind_result (bw_require_byte_aligned w)
        (\<lambda>_. Inr (bw_bytes w, w\<lparr>bw_finalized := True\<rparr>)))"

text \<open>Evaluation on numerals.\<close>

lemma write_bits_loop_numeral [simp]:
  "write_bits_loop (numeral k) v w =
     bind_result (write_bit (ucast (drop_bit (pred_numeral k) v AND 1)) w)
       (write_bits_loop (pred_numeral k) v)"
  by (simp add: numeral_eq_Suc)

lemmas bit_writer_eval = write_bits_def write_bit_def bw_byte_align_zero_def bw_finalize_def
  bw_require_byte_aligned_def byte_vector_max_size_def new_bit_writer_def

subsection \<open>Abstraction and invariant\<close>

definition written :: "bit_writer \<Rightarrow> bool list" where
  "written w = take (unat (bw_bit_position w)) (bits_of_bytes (bw_bytes w))"

definition writer_ok :: "bit_writer \<Rightarrow> bool" where
  "writer_ok w \<longleftrightarrow>
     (\<exists>pad < 8. 8 * length (bw_bytes w) = unat (bw_bit_position w) + pad
        \<and> bits_of_bytes (bw_bytes w) = written w @ replicate pad False)"

lemma writer_ok_new [simp]: "writer_ok new_bit_writer"
  by (simp add: writer_ok_def new_bit_writer_def written_def)

lemma written_new [simp]: "written new_bit_writer = []"
  by (simp add: written_def new_bit_writer_def)

lemma length_written: "writer_ok w \<Longrightarrow> length (written w) = unat (bw_bit_position w)"
  by (auto simp: writer_ok_def written_def)

lemma bits_of_set_bit:
  assumes "k < 8"
  shows "bits_of 8 (b OR push_bit (7 - k) (1 :: u8)) = (bits_of 8 b)[k := True]"
proof (rule nth_equalityI)
  fix i
  assume "i < length (bits_of 8 (b OR push_bit (7 - k) (1 :: u8)))"
  then have i: "i < 8" by simp
  have "bit (push_bit (7 - k) (1 :: u8)) (7 - i) \<longleftrightarrow> i = k"
    using i assms by (auto simp: push_bit_of_1 bit_exp_iff)
  with i assms show "bits_of 8 (b OR push_bit (7 - k) 1) ! i = (bits_of 8 b)[k := True] ! i"
    by (simp add: nth_bits_of nth_list_update bit_or_iff)
qed simp

lemma bits_of_bytes_set_last:
  assumes "bs \<noteq> []" and "8 * (length bs - 1) \<le> p" and "p < 8 * length bs"
  shows "bits_of_bytes (butlast bs @ [last bs OR push_bit (7 - p mod 8) 1])
      = (bits_of_bytes bs)[p := True]"
proof -
  obtain ini l where bs: "bs = ini @ [l]" using assms(1) by (metis rev_exhaust)
  obtain q where p: "p = 8 * length ini + q" "q < 8"
    using assms(2,3) that [of "p - 8 * length ini"] by (simp add: bs)
  then have "p mod 8 = q" by simp
  with p show ?thesis
    by (simp add: bs bits_of_bytes_append bits_of_bytes_Cons bits_of_set_bit list_update_append
        del: push_bit_of_1)
qed

lemma take_replicate_update:
  "0 < m \<Longrightarrow> (xs @ replicate m False)[length xs := b] = xs @ b # replicate (m - 1) False"
  by (cases m) (simp_all add: list_update_append)

lemma write_bit_correct:
  assumes ok: "writer_ok w" and w': "write_bit b w = Inr w'"
  shows "writer_ok w'" and "written w' = written w @ [b \<noteq> 0]" and "bw_finalized w' = bw_finalized w"
    and "b \<le> 1"
proof -
  let ?p = "unat (bw_bit_position w)"
  let ?pushed = "if ?p mod 8 = 0 then bw_bytes w @ [0] else bw_bytes w"
  let ?stored = "if b \<noteq> 0 then butlast ?pushed @ [last ?pushed OR push_bit (7 - ?p mod 8) 1] else ?pushed"
  from w' have not_max: "bw_bit_position w \<noteq> - 1" and "\<not> 1 < b"
    and w'_eq: "w' = w\<lparr>bw_bytes := ?stored, bw_bit_position := bw_bit_position w + 1\<rparr>"
    by (auto simp: write_bit_def Let_def unat_mod split: if_splits)
  then show "b \<le> 1" by simp
  from w'_eq show "bw_finalized w' = bw_finalized w" by simp
  from not_max have "Suc ?p < 2 ^ 64"
    using unat_bound [of "bw_bit_position w"]
    by (simp add: word_unat_eq_iff unat_minus_one_64)
  then have pos: "unat (bw_bit_position w') = Suc ?p" by (simp add: w'_eq unat_add_bounded)
  obtain pad where pad: "pad < 8" "8 * length (bw_bytes w) = ?p + pad"
    "bits_of_bytes (bw_bytes w) = written w @ replicate pad False"
    using ok by (auto simp: writer_ok_def)
  have len: "length (written w) = ?p" using ok by (rule length_written)
  obtain m where m: "m < 8" "8 * length ?pushed = Suc ?p + m"
    "bits_of_bytes ?pushed = written w @ replicate (Suc m) False"
  proof (cases "?p mod 8 = 0")
    case True
    with pad(1,2) have "pad = 0" by presburger
    moreover have "bits_of 8 (0 :: u8) = replicate (Suc 7) False"
      unfolding bits_of_zero by simp
    ultimately show thesis
      using True pad(2,3) by (intro that [of 7]) (simp_all add: bits_of_bytes_append bits_of_bytes_Cons)
  next
    case False
    have "pad \<noteq> 0"
    proof
      assume "pad = 0"
      with pad(2) have "?p = 8 * length (bw_bytes w)" by simp
      with False show False by simp
    qed
    with False pad show thesis by (intro that [of "pad - 1"]) simp_all
  qed
  have "8 * (length ?pushed - 1) \<le> ?p" "?p < 8 * length ?pushed" "?pushed \<noteq> []"
    using m by auto
  then have "bits_of_bytes (butlast ?pushed @ [last ?pushed OR push_bit (7 - ?p mod 8) 1])
      = written w @ True # replicate m False"
    using bits_of_bytes_set_last [of ?pushed ?p] m(3) len
      take_replicate_update [of "Suc m" "written w" True] by simp
  then have stored: "bits_of_bytes ?stored = (written w @ [b \<noteq> 0]) @ replicate m False"
    using m(3) by simp
  have lens: "length ?stored = length ?pushed" 
    using length_butlast_snoc [OF \<open>?pushed \<noteq> []\<close>, of "last ?pushed OR push_bit (7 - ?p mod 8) 1"]
    by (cases "b = 0"; simp only: if_True if_False simp_thms)
  show wr: "written w' = written w @ [b \<noteq> 0]"
    using stored len by (simp add: written_def pos) (simp add: w'_eq)
  show "writer_ok w'"
    unfolding writer_ok_def wr
    using m(1,2) stored lens by (intro exI [of _ m]) (simp add: pos, simp add: w'_eq)
qed

lemma write_bits_loop_correct:
  assumes "writer_ok w" and "write_bits_loop n v w = Inr w'"
  shows "writer_ok w' \<and> written w' = written w @ bits_of n v \<and> bw_finalized w' = bw_finalized w"
  using assms
proof (induction n arbitrary: w)
  case 0
  then show ?case by simp
next
  case (Suc n)
  from Suc.prems(2) obtain w1 where w1: "write_bit (ucast (drop_bit n v AND 1)) w = Inr w1"
    and rest: "write_bits_loop n v w1 = Inr w'" by auto
  have "(ucast (drop_bit n v AND 1) :: u8) = of_bool (bit v n)"
    by (simp add: low_bit)
  then have "written w1 = written w @ [bit v n]" and ok: "writer_ok w1"
    and "bw_finalized w1 = bw_finalized w"
    using write_bit_correct [OF Suc.prems(1) w1] by simp_all
  with Suc.IH [OF ok rest] show ?case by (simp add: bits_of_Suc)
qed

lemma write_bits_correct:
  assumes "writer_ok w" and "write_bits v n w = Inr w'"
  shows "writer_ok w'" and "written w' = written w @ bits_of (unat n) v"
    and "bw_finalized w' = bw_finalized w" and "n \<le> 64" and "unat v < 2 ^ unat n"
proof -
  from assms(2) have n: "n \<le> 64" and fits: "\<not> (n < 64 \<and> push_bit (unat n) 1 \<le> v)"
    and loop: "write_bits_loop (unat n) v w = Inr w'"
    by (auto simp: write_bits_def split: if_splits)
  from write_bits_loop_correct [OF assms(1) loop]
  show "writer_ok w'" "written w' = written w @ bits_of (unat n) v" "bw_finalized w' = bw_finalized w"
    by simp_all
  show "n \<le> 64" by (rule n)
  show "unat v < 2 ^ unat n"
  proof (cases "n < 64")
    case True
    then have "unat n < 64" by (simp add: word_less_nat_alt)
    then have "unat (push_bit (unat n) 1 :: u64) = 2 ^ unat n"
      by (rule unat_exp_64)
    with True fits show ?thesis by (simp add: word_le_nat_alt)
  next
    case False
    with n have "n = 64" by simp
    then show ?thesis using unat_bound [of v] by simp
  qed
qed

text \<open>
  Within a vector's capacity nothing but a bad argument can fail: a write of \<open>n\<close> bits of a value
  that fits succeeds.
\<close>

lemma write_bit_succeeds:
  assumes "writer_ok w" and "\<not> bw_finalized w" and "b \<le> 1" and "unat (bw_bit_position w) < 2 ^ 63"
  shows "\<exists>w'. write_bit b w = Inr w'"
proof -
  have "unat (bw_bit_position w) \<noteq> unat (- 1 :: u64)" using assms(4) by (simp add: unat_minus_one_64)
  then have "bw_bit_position w \<noteq> - 1" by metis
  moreover have "length (bw_bytes w) \<noteq> byte_vector_max_size"
    using assms(1,4) by (auto simp: writer_ok_def byte_vector_max_size_def)
  ultimately show ?thesis using assms(2,3) by (auto simp: write_bit_def Let_def not_less)
qed

lemma write_bits_loop_succeeds:
  assumes "writer_ok w" and "\<not> bw_finalized w" and "unat (bw_bit_position w) + n \<le> 2 ^ 63"
  shows "\<exists>w'. write_bits_loop n v w = Inr w'"
  using assms
proof (induction n arbitrary: w)
  case 0
  then show ?case by simp
next
  case (Suc n)
  have "ucast (drop_bit n v AND 1) \<le> (1 :: u8)"
    by (simp add: low_bit)
  with Suc.prems obtain w1 where w1: "write_bit (ucast (drop_bit n v AND 1)) w = Inr w1"
    using write_bit_succeeds by fastforce
  note ok = write_bit_correct [OF Suc.prems(1) w1]
  have "unat (bw_bit_position w1) = Suc (unat (bw_bit_position w))"
    using length_written [OF ok(1)] length_written [OF Suc.prems(1)] ok(2) by simp
  with Suc.IH [of w1] Suc.prems ok show ?case by (auto simp: w1)
qed

lemma write_bits_succeeds:
  assumes "writer_ok w" and "\<not> bw_finalized w" and "n \<le> 64" and "unat v < 2 ^ unat n"
    and "unat (bw_bit_position w) + unat n \<le> 2 ^ 63"
  shows "\<exists>w'. write_bits v n w = Inr w'"
proof -
  have "\<not> (n < 64 \<and> push_bit (unat n) 1 \<le> v)"
  proof
    assume a: "n < 64 \<and> push_bit (unat n) 1 \<le> v"
    then have "unat n < 64" by (simp add: word_less_nat_alt)
    then have "unat (push_bit (unat n) 1 :: u64) = 2 ^ unat n"
      by (rule unat_exp_64)
    with a assms(4) show False by (simp add: word_le_nat_alt)
  qed
  moreover have "\<not> - 1 - ucast n < bw_bit_position w"
  proof -
    have "unat n \<le> 64" using assms(3) by (simp add: word_le_nat_alt)
    then have "unat (- 1 - ucast n :: u64) = 2 ^ 64 - 1 - unat n"
      by (subst unat_diff_bounded) (simp_all add: unat_minus_one_64)
    with assms(5) \<open>unat n \<le> 64\<close> show ?thesis by (simp add: word_less_nat_alt)
  qed
  ultimately show ?thesis
    using write_bits_loop_succeeds [OF assms(1,2,5)] assms(2,3) by (auto simp: write_bits_def not_less)
qed

lemma byte_align_correct:
  assumes "writer_ok w" and "bw_byte_align_zero w = Inr w'"
  shows "writer_ok w'" and "written w' = written w @ replicate ((8 - length (written w) mod 8) mod 8) False"
    and "bw_finalized w' = bw_finalized w" and "length (written w') mod 8 = 0"
proof -
  define k where "k = length (written w) mod 8"
  let ?rem = "ucast (bw_bit_position w mod 8) :: u8"
  have "unat (bw_bit_position w mod 8) = k"
    by (simp add: k_def length_written [OF assms(1)] unat_mod)
  moreover have k8: "k < 8" by (simp add: k_def)
  ultimately have rem: "unat ?rem = k"
    by (simp add: unsigned_ucast_eq take_bit_nat_eq_self)
  have len: "length (written w @ replicate ((8 - k) mod 8) False) mod 8 = 0"
    unfolding k_def by (simp add: mod_simps) presburger
  have "writer_ok w' \<and> written w' = written w @ replicate ((8 - k) mod 8) False
      \<and> bw_finalized w' = bw_finalized w"
  proof (cases "k = 0")
    case True
    then have "?rem = 0" using rem by (simp add: unat_eq_zero)
    with assms True show ?thesis by (simp add: bw_byte_align_zero_def Let_def split: if_splits)
  next
    case False
    then have "?rem \<noteq> 0" using rem by auto
    then have wb: "write_bits 0 (8 - ?rem) w = Inr w'"
      using assms(2) by (simp add: bw_byte_align_zero_def Let_def split: if_splits)
    have "unat (8 - ?rem) = (8 - k) mod 8"
      using False k8 rem by (subst unat_diff_bounded) simp_all
    with write_bits_correct [OF assms(1) wb] show ?thesis by (simp add: bits_of_zero)
  qed
  with len show "writer_ok w'" "written w' = written w @ replicate ((8 - length (written w) mod 8) mod 8) False"
    "bw_finalized w' = bw_finalized w" "length (written w') mod 8 = 0" by (simp_all add: k_def)
qed

lemma finalize_correct:
  assumes "writer_ok w" and "bw_finalize w = Inr (bs, w')"
  shows "bits_of_bytes bs = written w" and "bw_finalized w'" and "length (written w) mod 8 = 0"
proof -
  from assms(2) have bs: "bs = bw_bytes w" and "bw_finalized w'" and "bw_bit_position w mod 8 = 0"
    by (auto simp: bw_finalize_def bw_require_byte_aligned_def split: if_splits)
  then show "bw_finalized w'" by simp
  from \<open>bw_bit_position w mod 8 = 0\<close> have "unat (bw_bit_position w mod 8) = 0" by simp
  then show al: "length (written w) mod 8 = 0" by (simp add: length_written [OF assms(1)] unat_mod)
  obtain pad where "pad < 8" "8 * length (bw_bytes w) = unat (bw_bit_position w) + pad"
    "bits_of_bytes (bw_bytes w) = written w @ replicate pad False"
    using assms(1) by (auto simp: writer_ok_def)
  moreover from this al have "pad = 0" by (simp add: length_written [OF assms(1)]) presburger
  ultimately show "bits_of_bytes bs = written w" by (simp add: bs)
qed

end
