(* ===== verification/Bit_Channel.thy ===== *)
theory Bit_Channel
  imports Bit_Reader Bit_Writer
begin

text \<open>
  The contract between the bit writer and the bit reader: a sink appends the bits of each field, a
  source hands the bits back in the same order. The interpretations at the end are the model's own
  writer and reader.
\<close>

locale bit_sink =
  fixes put :: "u64 \<Rightarrow> u8 \<Rightarrow> 'w \<Rightarrow> 'w result"
    and sink_bits :: "'w \<Rightarrow> bool list"
    and sink_inv :: "'w \<Rightarrow> bool"
  assumes put_inv: "sink_inv w \<Longrightarrow> put v n w = Inr w' \<Longrightarrow> sink_inv w'"
    and put_appends: "sink_inv w \<Longrightarrow> put v n w = Inr w' \<Longrightarrow> sink_bits w' = sink_bits w @ bits_of (unat n) v"
    and put_fits: "sink_inv w \<Longrightarrow> put v n w = Inr w' \<Longrightarrow> n \<le> 64 \<and> unat v < 2 ^ unat n"
begin

lemma put_all:
  assumes "sink_inv w" and "fold_result (\<lambda>(v, n). put v n) fs w = Inr w'"
  shows "sink_inv w'"
    and "sink_bits w' = sink_bits w @ concat (map (\<lambda>(v, n). bits_of (unat n) v) fs)"
    and "\<forall>(v, n) \<in> set fs. n \<le> 64 \<and> unat v < 2 ^ unat n"
  using assms
proof (induction fs arbitrary: w)
  case Nil
  { case 1 then show ?case by simp }
  { case 2 then show ?case by simp }
  { case 3 then show ?case by simp }
next
  case (Cons f fs)
  obtain v n where f: "f = (v, n)" by (cases f)
  { case 1
    then obtain w1 where "put v n w = Inr w1" "fold_result (\<lambda>(v, n). put v n) fs w1 = Inr w'"
      by (auto simp: f)
    with 1 Cons.IH(1) put_inv show ?case by blast }
  { case 2
    then obtain w1 where w1: "put v n w = Inr w1" "fold_result (\<lambda>(v, n). put v n) fs w1 = Inr w'"
      by (auto simp: f)
    with 2 Cons.IH(2) put_inv have "sink_bits w' = sink_bits w1 @ concat (map (\<lambda>(v, n). bits_of (unat n) v) fs)"
      by blast
    with 2 w1 put_appends show ?case by (simp add: f) }
  { case 3
    then obtain w1 where w1: "put v n w = Inr w1" "fold_result (\<lambda>(v, n). put v n) fs w1 = Inr w'"
      by (auto simp: f)
    with 3 Cons.IH(3) put_inv have "\<forall>(v, n) \<in> set fs. n \<le> 64 \<and> unat v < 2 ^ unat n"
      by blast
    with 3 w1 put_fits show ?case by (auto simp: f) }
qed

end

locale bit_source =
  fixes get :: "u8 \<Rightarrow> 'r \<Rightarrow> (u64 \<times> 'r) result"
    and source_bits :: "'r \<Rightarrow> bool list"
    and source_inv :: "'r \<Rightarrow> bool"
  assumes get_front: "source_inv r \<Longrightarrow> source_bits r = bs @ rest \<Longrightarrow> length bs = unat n \<Longrightarrow> n \<le> 64
      \<Longrightarrow> \<exists>r'. get n r = Inr (word_of_bits 0 bs, r') \<and> source_inv r' \<and> source_bits r' = rest"
begin

lemma get_all:
  assumes "source_inv r"
    and "source_bits r = concat (map (\<lambda>(v, n). bits_of (unat n) v) fs) @ rest"
    and "\<forall>(v, n) \<in> set fs. n \<le> 64 \<and> unat v < 2 ^ unat n"
  shows "\<exists>r'. read_all get (map snd fs) r = Inr (map fst fs, r') \<and> source_inv r' \<and> source_bits r' = rest"
  using assms
proof (induction fs arbitrary: r)
  case Nil
  then show ?case by simp
next
  case (Cons f fs)
  obtain v n where f: "f = (v, n)" by (cases f)
  from Cons.prems have n: "n \<le> 64" and v: "unat v < 2 ^ unat n" by (auto simp: f)
  then have val: "word_of_bits 0 (bits_of (unat n) v) = v"
    by (simp add: word_of_bits_of word_le_nat_alt)
  from Cons.prems(2) have "source_bits r = bits_of (unat n) v
      @ (concat (map (\<lambda>(v, n). bits_of (unat n) v) fs) @ rest)" by (simp add: f)
  from get_front [OF Cons.prems(1) this _ n] obtain r1
    where r1: "get n r = Inr (v, r1)" "source_inv r1"
      "source_bits r1 = concat (map (\<lambda>(v, n). bits_of (unat n) v) fs) @ rest"
    by (auto simp: val)
  with Cons.IH [OF r1(2,3)] Cons.prems(3) show ?case by (auto simp: f)
qed

end

locale bit_channel = bit_sink put sink_bits sink_inv + bit_source get source_bits source_inv
  for put :: "u64 \<Rightarrow> u8 \<Rightarrow> 'w \<Rightarrow> 'w result" and sink_bits sink_inv
    and get :: "u8 \<Rightarrow> 'r \<Rightarrow> (u64 \<times> 'r) result" and source_bits source_inv
begin

lemma fields_roundtrip:
  assumes "sink_inv w" and "sink_bits w = []"
    and "fold_result (\<lambda>(v, n). put v n) fs w = Inr w'"
    and "source_inv r" and "source_bits r = sink_bits w' @ rest"
  shows "\<exists>r'. read_all get (map snd fs) r = Inr (map fst fs, r') \<and> source_inv r' \<and> source_bits r' = rest"
  using get_all [OF assms(4), of fs rest] put_all [OF assms(1,3)] assms(2,5) by simp

end

interpretation bit_io: bit_channel write_bits written writer_ok read_bits unread reader_ok
proof
  show "\<exists>r'. read_bits n r = Inr (word_of_bits 0 bs, r') \<and> reader_ok r' \<and> unread r' = rest"
    if "reader_ok r" "unread r = bs @ rest" "length bs = unat n" "n \<le> 64" for r bs rest n
    using that by (blast elim: read_bits_step)
qed (auto intro: write_bits_correct dest: write_bits_correct)

text \<open>
  C17: what the bit writer writes, the bit reader reads. Any sequence of fields that the writer
  accepts, aligned and finalized, comes back field by field from a reader over the bytes; only the
  zero padding of the alignment is left over.
\<close>

theorem bit_fields_roundtrip:
  assumes "fold_result (\<lambda>(v, n). write_bits v n) fs new_bit_writer = Inr w"
    and "bw_byte_align_zero w = Inr w'" and "bw_finalize w' = Inr (bs, w'')"
    and "8 * length bs < 2 ^ 64"
  shows "\<exists>r k. read_all read_bits (map snd fs) (make_bit_reader bs) = Inr (map fst fs, r)
      \<and> unread r = replicate k False \<and> k < 8"
proof -
  have w: "writer_ok w" using bit_io.put_all(1) [OF writer_ok_new assms(1)] .
  note al = byte_align_correct [OF w assms(2)]
  define k where "k = (8 - length (written w) mod 8) mod 8"
  have "unread (make_bit_reader bs) = written w @ replicate k False"
    using finalize_correct(1) [OF al(1) assms(3)] al(2) by (simp add: k_def)
  moreover have "k < 8" by (simp add: k_def)
  ultimately show ?thesis
    using bit_io.fields_roundtrip [OF writer_ok_new _ assms(1) reader_ok_make [OF assms(4)]] by auto
qed

theorem bit_fields_roundtrip_witness:
  "\<exists>r k. read_all read_bits [4, 12] (make_bit_reader [0xA1, 0x23]) = Inr ([0xA, 0x123], r)
      \<and> unread r = replicate k False \<and> k < 8"
proof -
  let ?w = "\<lparr>bw_bytes = [0xA1, 0x23], bw_bit_position = 16, bw_finalized = False\<rparr>"
  have w: "fold_result (\<lambda>(v, n). write_bits v n) [(0xA, 4), (0x123, 12)] new_bit_writer = Inr ?w"
    by (simp add: bit_writer_eval Let_def)
  have a: "bw_byte_align_zero ?w = Inr ?w" and f: "bw_finalize ?w = Inr ([0xA1, 0x23], ?w\<lparr>bw_finalized := True\<rparr>)"
    by (simp_all add: bit_writer_eval)
  show ?thesis using bit_fields_roundtrip [OF w a f] by simp
qed

end
