(* ===== verification/Golomb_Rice.thy ===== *)
theory Golomb_Rice
  imports Bit_Channel
begin

text \<open>
  The Golomb-Rice code words of \<^verbatim>\<open>src/src/entropy/golomb_rice_reader.cpp\<close> and
  \<^verbatim>\<open>golomb_rice_writer.cpp\<close>: a unary prefix of up to 11 zeros with a \<open>k\<close>-bit suffix, or twelve zeros
  and an escaped value. The contract is one lemma per side: the writer appends \<open>gr_code\<close>, the reader
  decodes a \<open>gr_code\<close> at the front of its stream.
\<close>

subsection \<open>Writer\<close>

fun write_zeros :: "nat \<Rightarrow> bit_writer \<Rightarrow> bit_writer result" where
  "write_zeros 0 w = Inr w"
| "write_zeros (Suc n) w = bind_result (write_bit 0 w) (write_zeros n)"

definition gr_write_unsigned :: "u8 \<Rightarrow> u8 \<Rightarrow> u64 \<Rightarrow> bit_writer \<Rightarrow> bit_writer result" where
  "gr_write_unsigned k bits_per_raw_sample value w =
     (let maximum_regular = push_bit (unat k) 12 - 1 in
      if value \<le> maximum_regular then
        let prefix = drop_bit (unat k) value;
            suffix_mask = (if k = 0 then 0 else push_bit (unat k) 1 - 1)
        in bind_result (write_zeros (unat prefix) w) (\<lambda>w.
           bind_result (write_bit 1 w) (\<lambda>w.
           write_bits (value AND suffix_mask) k w))
      else
        let escaped = value - 11;
            maximum_escaped = push_bit (unat bits_per_raw_sample) 1 - 1
        in if maximum_escaped < escaped then Inl (make_error InvalidArgument)
           else bind_result (write_bits 0 12 w) (\<lambda>w.
                write_bits escaped bits_per_raw_sample w))"

definition gr_fold :: "int \<Rightarrow> u64" where
  "gr_fold value =
     (if value < 0 then word_of_int (- 2 * value - 1) else word_of_int value * 2)"

definition gr_write_signed :: "u8 \<Rightarrow> u8 \<Rightarrow> int \<Rightarrow> bit_writer \<Rightarrow> bit_writer result" where
  "gr_write_signed k bits_per_raw_sample value w =
     (if 32 \<le> k then Inl (make_error InvalidArgument)
      else if bits_per_raw_sample = 0 \<or> 31 < bits_per_raw_sample then Inl (make_error InvalidArgument)
      else gr_write_unsigned k bits_per_raw_sample (gr_fold value) w)"

subsection \<open>Reader\<close>

function gr_read_unsigned_loop :: "u8 \<Rightarrow> u8 \<Rightarrow> nat \<Rightarrow> bit_reader \<Rightarrow> (u64 \<times> bit_reader) result" where
  "gr_read_unsigned_loop k bits_per_raw_sample prefix r =
     (if prefix < 12 then
        bind_result (read_bit r) (\<lambda>(b, r).
          if b \<noteq> 0 then
            bind_result (read_bits k r) (\<lambda>(suffix, r).
              Inr (push_bit (unat k) (word_of_nat prefix) + suffix, r))
          else gr_read_unsigned_loop k bits_per_raw_sample (Suc prefix) r)
      else
        bind_result (read_bits bits_per_raw_sample r) (\<lambda>(escaped, r). Inr (escaped + 11, r)))"
  by pat_completeness auto
termination
  by (relation "measure (\<lambda>(k, bits, prefix, r). 12 - prefix)") auto

declare gr_read_unsigned_loop.simps [simp del]

definition gr_read_unsigned :: "u8 \<Rightarrow> u8 \<Rightarrow> bit_reader \<Rightarrow> (u64 \<times> bit_reader) result" where
  "gr_read_unsigned k bits_per_raw_sample r = gr_read_unsigned_loop k bits_per_raw_sample 0 r"

definition gr_unfold :: "u64 \<Rightarrow> int" where
  "gr_unfold folded =
     (let magnitude = uint (drop_bit 1 folded) in
      if folded AND 1 \<noteq> 0 then - magnitude - 1 else magnitude)"

definition gr_read_signed :: "u8 \<Rightarrow> u8 \<Rightarrow> bit_reader \<Rightarrow> (int \<times> bit_reader) result" where
  "gr_read_signed k bits_per_raw_sample r =
     (let start_bit = br_bit_position r in
      if 32 \<le> k then Inl (make_byte_error InvalidArgument (start_bit div 8))
      else if bits_per_raw_sample = 0 \<or> 31 < bits_per_raw_sample
      then Inl (make_byte_error InvalidArgument (start_bit div 8))
      else
        case gr_read_unsigned k bits_per_raw_sample r of
          Inl status \<Rightarrow> Inl (set_byte_location_if_missing (start_bit div 8) status)
        | Inr (folded, r') \<Rightarrow>
            let value = gr_unfold folded in
            if value < - (2 ^ 31) \<or> 2 ^ 31 - 1 < value
            then Inl (make_byte_error SyntaxError (start_bit div 8))
            else Inr (to_int32 value, r'))"

subsection \<open>Folding of signs\<close>

lemma unat_gr_fold:
  assumes "in_int32 v"
  shows "unat (gr_fold v) = (if v < 0 then nat (- 2 * v - 1) else nat (2 * v))"
proof -
  have "(if v < 0 then - 2 * v - 1 else 2 * v) < 2 ^ 64" "0 \<le> (if v < 0 then - 2 * v - 1 else 2 * v)"
    using assms by (auto simp: in_int32_def)
  moreover have "gr_fold v = word_of_int (if v < 0 then - 2 * v - 1 else 2 * v)"
    by (simp add: gr_fold_def)
  ultimately have "uint (gr_fold v) = (if v < 0 then - 2 * v - 1 else 2 * v)"
    by (simp add: uint_word_of_int_eq take_bit_int_eq_self)
  then show ?thesis by (auto simp: unat_eq_nat_uint)
qed

lemma gr_unfold_fold:
  assumes "in_int32 v"
  shows "gr_unfold (gr_fold v) = v"
proof -
  let ?f = "unat (gr_fold v)"
  have low: "gr_fold v AND 1 \<noteq> 0 \<longleftrightarrow> odd ?f"
    by (rule and_one_nonzero)
  have "uint (drop_bit 1 (gr_fold v)) = int (?f div 2)"
    by (simp only: uint_nat unat_drop_bit_div power_one_right)
  with low have "gr_unfold (gr_fold v) = (if odd ?f then - int (?f div 2) - 1 else int (?f div 2))"
    by (simp add: gr_unfold_def)
  also have "\<dots> = v"
  proof (cases "v < 0")
    case True
    then have f: "?f = 2 * nat (- v - 1) + 1"
      by (simp add: unat_gr_fold [OF assms])
    then have "odd ?f" and "?f div 2 = nat (- v - 1)" by simp_all
    with True show ?thesis by simp
  next
    case False
    then have "?f = 2 * nat v" by (simp add: unat_gr_fold [OF assms])
    then have "even ?f" and "?f div 2 = nat v" by simp_all
    with False show ?thesis by simp
  qed
  finally show ?thesis .
qed

subsection \<open>The code words\<close>

definition gr_code :: "nat \<Rightarrow> nat \<Rightarrow> nat \<Rightarrow> bool list" where
  "gr_code k b u =
     (if u < 12 * 2 ^ k then replicate (u div 2 ^ k) False @ True # bits_of k u
      else replicate 12 False @ bits_of b (u - 11))"

definition gr_fits :: "nat \<Rightarrow> nat \<Rightarrow> nat \<Rightarrow> bool" where
  "gr_fits k b u \<longleftrightarrow> u < 12 * 2 ^ k \<or> u - 11 < 2 ^ b"

lemma bits_of_unat: "bits_of n (unat (v :: 'a::len word)) = bits_of n v"
  by (simp add: bits_of_def bit_unat)

lemma bits_of_mask: "bits_of n (v AND mask n) = bits_of n (v :: 'a::len word)"
  by (rule nth_equalityI) (simp_all add: nth_bits_of bit_and_iff bit_mask_iff, auto dest: bit_imp_le_length)

lemma write_zeros_correct:
  assumes "writer_ok w" and "write_zeros n w = Inr w'"
  shows "writer_ok w' \<and> written w' = written w @ replicate n False \<and> bw_finalized w' = bw_finalized w"
  using assms
proof (induction n arbitrary: w)
  case 0
  then show ?case by simp
next
  case (Suc n)
  then obtain w1 where w1: "write_bit 0 w = Inr w1" "write_zeros n w1 = Inr w'" by auto
  note step = write_bit_correct [OF Suc.prems(1) w1(1)]
  with Suc.IH [OF step(1) w1(2)] show ?case by simp
qed

lemma maximum_regular:
  assumes "(k :: u8) < 32"
  shows "unat (push_bit (unat k) 12 - 1 :: u64) = 12 * 2 ^ unat k - 1"
proof -
  have "unat k < 32" using assms by (simp add: word_less_nat_alt)
  then have "(2 :: nat) ^ unat k \<le> 2 ^ 31" by (intro power_increasing) simp_all
  then have "unat (push_bit (unat k) 12 :: u64) = 12 * 2 ^ unat k"
    by (subst unat_push_bit_bounded) simp_all
  then show ?thesis by (subst unat_diff_bounded) simp_all
qed

lemma suffix_mask: "(if k = (0 :: u8) then 0 else push_bit (unat k) 1 - 1) = (mask (unat k) :: u64)"
  by (simp add: mask_eq_exp_minus_1 push_bit_of_1)

lemma gr_write_unsigned_correct:
  assumes ok: "writer_ok w" and w': "gr_write_unsigned k b u w = Inr w'" and k: "k < 32" and b: "b < 32"
  shows "writer_ok w'" and "written w' = written w @ gr_code (unat k) (unat b) (unat u)"
    and "bw_finalized w' = bw_finalized w" and "gr_fits (unat k) (unat b) (unat u)"
proof -
  have "(0 :: nat) < 2 ^ unat k" by simp
  then have regular_iff: "u \<le> push_bit (unat k) 12 - 1 \<longleftrightarrow> unat u < 12 * 2 ^ unat k"
    unfolding word_le_nat_alt maximum_regular [OF k] by linarith
  have "writer_ok w' \<and> written w' = written w @ gr_code (unat k) (unat b) (unat u)
      \<and> bw_finalized w' = bw_finalized w \<and> gr_fits (unat k) (unat b) (unat u)"
  proof (cases "u \<le> push_bit (unat k) 12 - 1")
    case True
    then obtain w1 w2 where w1: "write_zeros (unat (drop_bit (unat k) u)) w = Inr w1"
      and w2: "write_bit 1 w1 = Inr w2" and w3: "write_bits (u AND mask (unat k)) k w2 = Inr w'"
      using w' by (auto simp: gr_write_unsigned_def Let_def suffix_mask)
    have "writer_ok w1" "written w1 = written w @ replicate (unat u div 2 ^ unat k) False"
      "bw_finalized w1 = bw_finalized w"
      using write_zeros_correct [OF ok w1] by (simp_all add: unat_drop_bit_div)
    moreover note write_bit_correct [OF this(1) w2]
    moreover note write_bits_correct [OF this(1) w3]
    ultimately show ?thesis
      using True by (simp add: regular_iff gr_code_def gr_fits_def bits_of_mask bits_of_unat)
  next
    case False
    then have escape: "\<not> push_bit (unat b) 1 - 1 < u - 11"
      using w' by (auto simp: gr_write_unsigned_def Let_def split: if_splits)
    with False obtain w1 where w1: "write_bits 0 12 w = Inr w1" and w2: "write_bits (u - 11) b w1 = Inr w'"
      using w' by (auto simp: gr_write_unsigned_def Let_def)
    note step1 = write_bits_correct [OF ok w1] note step2 = write_bits_correct [OF step1(1) w2]
    from False have big: "\<not> unat u < 12 * 2 ^ unat k" by (simp add: regular_iff)
    with \<open>(0 :: nat) < 2 ^ unat k\<close> have "11 \<le> unat u" by linarith
    then have "unat (u - 11) = unat u - 11" by (subst unat_diff_bounded) simp_all
    then have "gr_fits (unat k) (unat b) (unat u)" "bits_of (unat b) (u - 11) = bits_of (unat b) (unat u - 11)"
      using step2(5) by (simp_all add: gr_fits_def flip: bits_of_unat)
    with step1 step2 big show ?thesis by (simp add: gr_code_def bits_of_zero)
  qed
  then show "writer_ok w'" "written w' = written w @ gr_code (unat k) (unat b) (unat u)"
    "bw_finalized w' = bw_finalized w" "gr_fits (unat k) (unat b) (unat u)" by simp_all
qed

subsection \<open>Decoding\<close>

lemma word_of_bits_nat: "n \<le> 64 \<Longrightarrow> word_of_bits 0 (bits_of n (u :: nat)) = word_of_nat (u mod 2 ^ n)"
proof -
  assume n: "n \<le> 64"
  let ?v = "word_of_nat (u mod 2 ^ n) :: u64"
  have "u mod 2 ^ n < 2 ^ n" by simp
  also have "(2 :: nat) ^ n \<le> 2 ^ 64" using n by (intro power_increasing) simp_all
  finally have v: "unat ?v = u mod 2 ^ n" by (intro unat_of_nat_bounded) simp
  have "bits_of n ?v = bits_of n (u mod 2 ^ n)" using bits_of_unat [of n ?v] by (simp add: v)
  also have "\<dots> = bits_of n u"
    by (simp add: bits_of_def take_bit_eq_mod [symmetric] bit_take_bit_iff)
  finally show ?thesis using word_of_bits_of [of ?v n] n v by simp
qed

lemma gr_prefix:
  assumes "reader_ok r" and "unread r = replicate m False @ True # rest" and "p + m < 12"
  shows "\<exists>r'. gr_read_unsigned_loop k b p r =
      bind_result (read_bits k r') (\<lambda>(suffix, r). Inr (push_bit (unat k) (word_of_nat (p + m)) + suffix, r))
    \<and> reader_ok r' \<and> unread r' = rest \<and> br_data r' = br_data r"
  using assms
proof (induction m arbitrary: p r)
  case 0
  then obtain r' where "read_bit r = Inr (1, r')" "reader_ok r'" "unread r' = rest" "br_data r' = br_data r"
    by (auto elim: read_bit_step [where b = True])
  with 0 show ?case by (auto simp: gr_read_unsigned_loop.simps [of k b p r])
next
  case (Suc m)
  then obtain r1 where r1: "read_bit r = Inr (0, r1)" "reader_ok r1" "br_data r1 = br_data r"
      "unread r1 = replicate m False @ True # rest"
    by (auto elim: read_bit_step [where b = False])
  with Suc.IH [OF r1(2,4), of "Suc p"] Suc.prems(3) show ?case
    by (simp add: gr_read_unsigned_loop.simps [of k b p r])
qed

lemma gr_escape:
  assumes "reader_ok r" and "unread r = replicate m False @ rest" and "p + m = 12"
  shows "\<exists>r'. gr_read_unsigned_loop k b p r =
      bind_result (read_bits b r') (\<lambda>(escaped, r). Inr (escaped + 11, r))
    \<and> reader_ok r' \<and> unread r' = rest \<and> br_data r' = br_data r"
  using assms
proof (induction m arbitrary: p r)
  case 0
  then show ?case by (intro exI [of _ r]) (simp add: gr_read_unsigned_loop.simps [of k b 12 r])
next
  case (Suc m)
  then obtain r1 where r1: "read_bit r = Inr (0, r1)" "reader_ok r1" "br_data r1 = br_data r"
      "unread r1 = replicate m False @ rest"
    by (auto elim: read_bit_step [where b = False])
  with Suc.IH [OF r1(2,4), of "Suc p"] Suc.prems(3) show ?case
    by (simp add: gr_read_unsigned_loop.simps [of k b p r])
qed

lemma gr_read_unsigned_correct:
  assumes r: "reader_ok r" "unread r = gr_code (unat k) (unat b) (unat u) @ rest"
    and k: "k < 32" and b: "b < 32" and fits: "gr_fits (unat k) (unat b) (unat u)"
  shows "\<exists>r'. gr_read_unsigned k b r = Inr (u, r') \<and> reader_ok r' \<and> unread r' = rest \<and> br_data r' = br_data r"
proof (cases "unat u < 12 * 2 ^ unat k")
  case True
  define m where "m = unat u div 2 ^ unat k"
  have m: "m < 12" using True by (simp add: m_def div_less_iff_less_mult ac_simps)
  have "unread r = replicate m False @ True # (bits_of (unat k) (unat u) @ rest)"
    using r(2) True by (simp add: gr_code_def m_def)
  from gr_prefix [OF r(1) this, of 0 k b] m obtain r1
    where r1: "gr_read_unsigned k b r =
        bind_result (read_bits k r1) (\<lambda>(suffix, r). Inr (push_bit (unat k) (word_of_nat m) + suffix, r))"
      "reader_ok r1" "unread r1 = bits_of (unat k) (unat u) @ rest" "br_data r1 = br_data r"
    by (auto simp: gr_read_unsigned_def)
  from k have k64: "k \<le> 64" and kn: "unat k < 32" by (simp_all add: word_less_nat_alt word_le_nat_alt)
  obtain r2 where r2: "read_bits k r1 = Inr (word_of_nat (unat u mod 2 ^ unat k), r2)"
      "reader_ok r2" "unread r2 = rest" "br_data r2 = br_data r"
    using read_bits_step [OF r1(2,3) _ k64] kn r1(4) by (auto simp: word_of_bits_nat)
  have "push_bit (unat k) (word_of_nat m) + word_of_nat (unat u mod 2 ^ unat k)
      = (word_of_nat (m * 2 ^ unat k + unat u mod 2 ^ unat k) :: u64)"
    by (simp add: push_bit_eq_mult)
  also have "m * 2 ^ unat k + unat u mod 2 ^ unat k = unat u"
    unfolding m_def by (rule div_mult_mod_eq)
  finally have "push_bit (unat k) (word_of_nat m) + word_of_nat (unat u mod 2 ^ unat k) = u"
    by simp
  with r1(1) r2 show ?thesis by simp
next
  case False
  have "unread r = replicate 12 False @ (bits_of (unat b) (unat u - 11) @ rest)"
    using r(2) False by (simp add: gr_code_def)
  from gr_escape [OF r(1) this, of 0 k b] obtain r1
    where r1: "gr_read_unsigned k b r = bind_result (read_bits b r1) (\<lambda>(escaped, r). Inr (escaped + 11, r))"
      "reader_ok r1" "unread r1 = bits_of (unat b) (unat u - 11) @ rest" "br_data r1 = br_data r"
    by (auto simp: gr_read_unsigned_def)
  from b have b64: "b \<le> 64" and bn: "unat b < 32" by (simp_all add: word_less_nat_alt word_le_nat_alt)
  have "unat u - 11 < 2 ^ unat b" using fits False by (simp add: gr_fits_def)
  with bn r1(4) obtain r2 where r2: "read_bits b r1 = Inr (word_of_nat (unat u - 11), r2)"
      "reader_ok r2" "unread r2 = rest" "br_data r2 = br_data r"
    using read_bits_step [OF r1(2,3) _ b64] by (auto simp: word_of_bits_nat)
  have "(0 :: nat) < 2 ^ unat k" by simp
  with False have "11 \<le> unat u" by linarith
  then have "word_of_nat (unat u - 11) + 11 = u" by (simp add: of_nat_diff)
  with r1(1) r2 show ?thesis by simp
qed

subsection \<open>Signed symbols\<close>

definition gr_signed_code :: "u8 \<Rightarrow> u8 \<Rightarrow> int \<Rightarrow> bool list" where
  "gr_signed_code k b v = gr_code (unat k) (unat b) (unat (gr_fold v))"

lemma gr_write_signed_correct:
  assumes "writer_ok w" and "gr_write_signed k b v w = Inr w'"
  shows "writer_ok w'" and "written w' = written w @ gr_signed_code k b v"
    and "bw_finalized w' = bw_finalized w"
    and "k < 32" and "b \<noteq> 0" and "b < 32" and "gr_fits (unat k) (unat b) (unat (gr_fold v))"
proof -
  from assms(2) have k: "k < 32" and b: "b \<noteq> 0" "b < 32"
    and u: "gr_write_unsigned k b (gr_fold v) w = Inr w'"
    by (auto simp: gr_write_signed_def not_le not_less word_le_nat_alt word_less_nat_alt split: if_splits)
  from gr_write_unsigned_correct [OF assms(1) u k b(2)] k b
  show "writer_ok w'" "written w' = written w @ gr_signed_code k b v"
    "bw_finalized w' = bw_finalized w" "k < 32" "b \<noteq> 0" "b < 32"
    "gr_fits (unat k) (unat b) (unat (gr_fold v))"
    by (simp_all add: gr_signed_code_def)
qed

lemma gr_read_signed_correct:
  assumes "reader_ok r" and "unread r = gr_signed_code k b v @ rest" and "in_int32 v"
    and "k < 32" and "b \<noteq> 0" and "b < 32" and "gr_fits (unat k) (unat b) (unat (gr_fold v))"
  obtains r' where "gr_read_signed k b r = Inr (v, r')" "reader_ok r'" "unread r' = rest"
    "br_data r' = br_data r"
proof -
  obtain r' where r': "gr_read_unsigned k b r = Inr (gr_fold v, r')" "reader_ok r'" "unread r' = rest"
      "br_data r' = br_data r"
    using gr_read_unsigned_correct [OF assms(1) assms(2) [unfolded gr_signed_code_def] assms(4,6,7)] by blast
  have nk: "\<not> 32 \<le> k" and nb: "\<not> (b = 0 \<or> 31 < b)"
    using assms(4-6) by (auto simp: not_le not_less word_le_nat_alt word_less_nat_alt)
  have range: "\<not> (v < - (2 ^ 31) \<or> 2 ^ 31 - 1 < v)" using assms(3) by (auto simp: in_int32_def)
  have "gr_read_signed k b r = Inr (v, r')"
    unfolding gr_read_signed_def Let_def
    by (simp only: nk nb r'(1) sum.case prod.case if_False gr_unfold_fold [OF assms(3)] range
        to_int32_id [OF assms(3)])
  with r'(2-4) that show thesis by blast
qed

text \<open>
  A value of the sample width always fits the code, whatever the parameter \<open>k\<close>: its escape field is
  wide enough.
\<close>

lemma gr_fits_width:
  fixes b :: u8
  assumes "- (2 ^ (unat b - 1)) \<le> v" and "v < 2 ^ (unat b - 1)" and "b \<noteq> 0" and "b < 32"
  shows "gr_fits k (unat b) (unat (gr_fold v))" and "in_int32 v"
proof -
  define h where "h = (2 :: int) ^ (unat b - 1)"
  have "unat b - 1 \<le> 30" using assms(4) by (simp add: word_less_nat_alt)
  then have "h \<le> 2 ^ 30" unfolding h_def by (intro power_increasing) simp_all
  moreover have hv: "- h \<le> v" "v < h" using assms(1,2) by (simp_all only: h_def)
  ultimately show range: "in_int32 v" by (simp add: in_int32_def)
  have "unat b \<noteq> 0" using assms(3) by (simp add: unat_eq_zero)
  then have "(2 :: int) ^ unat b = 2 * h" unfolding h_def by (cases "unat b") simp_all
  then have "int (2 ^ unat b) = 2 * h" by simp
  moreover have "int (unat (gr_fold v)) < 2 * h"
    using hv by (simp add: unat_gr_fold [OF range])
  ultimately have "unat (gr_fold v) < 2 ^ unat b" by linarith
  then show "gr_fits k (unat b) (unat (gr_fold v))" unfolding gr_fits_def by linarith
qed

text \<open>A code word has at most 44 bits, so a writer with room for them accepts every fitting value.\<close>

lemma write_zeros_succeeds:
  assumes "writer_ok w" and "\<not> bw_finalized w" and "unat (bw_bit_position w) + n \<le> 2 ^ 63"
  shows "\<exists>w'. write_zeros n w = Inr w'"
  using assms
proof (induction n arbitrary: w)
  case 0
  then show ?case by simp
next
  case (Suc n)
  then obtain w1 where w1: "write_bit 0 w = Inr w1"
    using write_bit_succeeds [of w 0] by auto
  note step = write_bit_correct [OF Suc.prems(1) w1]
  have "unat (bw_bit_position w1) = Suc (unat (bw_bit_position w))"
    using length_written [OF step(1)] length_written [OF Suc.prems(1)] step(2) by simp
  with Suc.IH [of w1] Suc.prems step w1 show ?case by auto
qed

lemma gr_write_unsigned_succeeds:
  assumes ok: "writer_ok w" "\<not> bw_finalized w" and room: "unat (bw_bit_position w) + 44 \<le> 2 ^ 63"
    and k: "k < 32" and b: "b < 32" and fits: "gr_fits (unat k) (unat b) (unat u)"
  shows "\<exists>w'. gr_write_unsigned k b u w = Inr w'"
proof -
  have kn: "unat k < 32" "k \<le> 64" and bn: "unat b < 32" "b \<le> 64"
    using k b by (simp_all add: word_less_nat_alt word_le_nat_alt)
  have "(0 :: nat) < 2 ^ unat k" by simp
  then have regular_iff: "u \<le> push_bit (unat k) 12 - 1 \<longleftrightarrow> unat u < 12 * 2 ^ unat k"
    unfolding word_le_nat_alt maximum_regular [OF k] by linarith
  show ?thesis
  proof (cases "u \<le> push_bit (unat k) 12 - 1")
    case True
    define m where "m = unat (drop_bit (unat k) u)"
    have m: "m < 12"
      using True by (simp only: m_def regular_iff unat_drop_bit_div) (simp add: div_less_iff_less_mult ac_simps)
    obtain w1 where w1: "write_zeros m w = Inr w1"
      using write_zeros_succeeds [OF ok, of m] room m by auto
    have ok1: "writer_ok w1" "\<not> bw_finalized w1" and "written w1 = written w @ replicate m False"
      using write_zeros_correct [OF ok(1) w1] ok(2) by simp_all
    then have p1: "unat (bw_bit_position w1) = unat (bw_bit_position w) + m"
      using length_written [OF ok(1)] length_written [OF ok1(1)] by simp
    obtain w2 where w2: "write_bit 1 w1 = Inr w2"
      using write_bit_succeeds [OF ok1, of 1] room p1 m by auto
    note ok2 = write_bit_correct [OF ok1(1) w2]
    have p2: "unat (bw_bit_position w2) = unat (bw_bit_position w) + m + 1"
      using length_written [OF ok1(1)] length_written [OF ok2(1)] ok2(2) p1 by simp
    have "unat (u AND mask (unat k)) < 2 ^ unat k"
      using kn by (simp add: take_bit_eq_mask [symmetric] unsigned_take_bit_eq)
    then obtain w3 where "write_bits (u AND mask (unat k)) k w2 = Inr w3"
      using write_bits_succeeds [OF ok2(1) _ kn(2)] ok2(3) ok1(2) room p2 m kn(1) by fastforce
    with True w1 w2 show ?thesis
      by (simp add: gr_write_unsigned_def Let_def suffix_mask m_def)
  next
    case False
    then have big: "\<not> unat u < 12 * 2 ^ unat k" by (simp only: regular_iff) simp
    with \<open>(0 :: nat) < 2 ^ unat k\<close> have "11 \<le> unat u" by linarith
    then have u11: "unat (u - 11) = unat u - 11" by (subst unat_diff_bounded) simp_all
    with fits big have esc: "unat (u - 11) < 2 ^ unat b" by (simp add: gr_fits_def)
    have "unat (push_bit (unat b) 1 - 1 :: u64) = 2 ^ unat b - 1"
      using bn by (subst unat_diff_bounded) (simp_all only: unat_exp_64, simp_all)
    then have nesc: "\<not> push_bit (unat b) 1 - 1 < u - 11"
      using esc unfolding word_less_nat_alt by linarith
    obtain w1 where w1: "write_bits 0 12 w = Inr w1"
      using write_bits_succeeds [OF ok, of 12 0] room by auto
    note ok1 = write_bits_correct [OF ok(1) w1]
    have "unat (bw_bit_position w1) = unat (bw_bit_position w) + 12"
      using length_written [OF ok(1)] length_written [OF ok1(1)] ok1(2) by simp
    then obtain w2 where "write_bits (u - 11) b w1 = Inr w2"
      using write_bits_succeeds [OF ok1(1) _ bn(2) esc] ok1(3) ok(2) room bn(1) by auto
    with False nesc w1 show ?thesis by (simp add: gr_write_unsigned_def Let_def)
  qed
qed

lemma gr_write_signed_succeeds:
  assumes "writer_ok w" "\<not> bw_finalized w" and "unat (bw_bit_position w) + 44 \<le> 2 ^ 63"
    and "k < 32" and "b \<noteq> 0" and "b < 32" and "gr_fits (unat k) (unat b) (unat (gr_fold v))"
  shows "\<exists>w'. gr_write_signed k b v w = Inr w'"
  using gr_write_unsigned_succeeds [OF assms(1-4) assms(6,7)] assms(4-6)
  by (auto simp: gr_write_signed_def not_le not_less word_le_nat_alt word_less_nat_alt)

end
