(* ===== verification/Golomb_Context.thy ===== *)
theory Golomb_Context
  imports Golomb_Rice Rfc_Math
begin

text \<open>
  The adaptive Golomb-Rice contexts of \<^verbatim>\<open>src/src/entropy/golomb_rice_context.cpp\<close>: validation, the
  choice of the parameter \<open>k\<close>, the state update, and the symbol and run-interruption coders. The
  encoder and the decoder keep identical contexts, whatever is coded.
\<close>

record gr_context =
  gr_drift :: int
  gr_error_sum :: int
  gr_bias :: int
  gr_count :: int

definition new_gr_context :: gr_context where
  "new_gr_context = \<lparr>gr_drift = 0, gr_error_sum = 4, gr_bias = 0, gr_count = 1\<rparr>"

definition gr_validate_state :: "gr_context \<Rightarrow> unit result" where
  "gr_validate_state s =
     (if gr_count s \<le> 0 \<or> 128 < gr_count s then Inl (make_error InvalidState)
      else if gr_error_sum s < 0 then Inl (make_error InvalidState)
      else if gr_bias s < - 128 \<or> 127 < gr_bias s then Inl (make_error InvalidState)
      else Inr ())"

function gr_derive_k_loop :: "int \<Rightarrow> int \<Rightarrow> nat \<Rightarrow> u8 result" where
  "gr_derive_k_loop error_sum threshold k =
     (if threshold < error_sum then
        if 31 \<le> k then Inl (make_error InvalidState)
        else gr_derive_k_loop error_sum (threshold * 2) (Suc k)
      else Inr (word_of_nat k))"
  by pat_completeness auto
termination
  by (relation "measure (\<lambda>(e, t, k). 31 - k)") auto

declare gr_derive_k_loop.simps [simp del]

text \<open>The loop starts at \<open>k = 0\<close> and steps by one, so the source's test \<open>k == 31\<close> is \<open>31 \<le> k\<close>.\<close>

definition gr_derive_k :: "gr_context \<Rightarrow> u8 result" where
  "gr_derive_k s = gr_derive_k_loop (gr_error_sum s) (gr_count s) 0"

definition gr_sign_extend :: "int \<Rightarrow> u8 \<Rightarrow> int" where
  "gr_sign_extend value bits =
     (let range = push_bit (unat bits) (1 :: u64);
          sign = drop_bit 1 range;
          encoded = word_of_int value AND (range - 1)
      in to_int32 (if sign \<le> encoded then uint encoded - uint range else uint encoded))"

definition gr_update_state :: "int \<Rightarrow> gr_context \<Rightarrow> gr_context" where
  "gr_update_state value s0 =
     (let s1 = s0\<lparr>gr_error_sum := gr_error_sum s0 + (if value < 0 then - value else value),
                  gr_drift := gr_drift s0 + value\<rparr>;
          s2 = (if gr_count s1 = 128
                then s1\<lparr>gr_count := gr_count s1 div 2,
                        gr_drift := arithmetic_right_shift (gr_drift s1) 1,
                        gr_error_sum := gr_error_sum s1 div 2\<rparr>
                else s1);
          s3 = s2\<lparr>gr_count := gr_count s2 + 1\<rparr>
      in if gr_drift s3 \<le> - gr_count s3
         then s3\<lparr>gr_bias := max (gr_bias s3 - 1) (- 128),
                 gr_drift := max (gr_drift s3 + gr_count s3) (- gr_count s3 + 1)\<rparr>
         else if 0 < gr_drift s3
         then s3\<lparr>gr_bias := min (gr_bias s3 + 1) 127,
                 gr_drift := min (gr_drift s3 - gr_count s3) 0\<rparr>
         else s3)"

definition read_golomb_rice_symbol ::
  "u8 \<Rightarrow> bit_reader \<Rightarrow> gr_context \<Rightarrow> (int \<times> bit_reader \<times> gr_context) result" where
  "read_golomb_rice_symbol bits_per_raw_sample r s =
     bind_result (gr_validate_state s) (\<lambda>_.
     if bits_per_raw_sample = 0 \<or> 31 < bits_per_raw_sample then Inl (make_error InvalidArgument)
     else
       bind_result (gr_derive_k s) (\<lambda>k.
       bind_result (gr_read_signed k bits_per_raw_sample r) (\<lambda>(coded_value, r').
         let value = (if 2 * gr_drift s < - gr_count s then - 1 - coded_value else coded_value);
             decoded = gr_sign_extend (value + gr_bias s) bits_per_raw_sample
         in Inr (decoded, r', gr_update_state value s))))"

definition read_golomb_rice_run_interruption ::
  "u8 \<Rightarrow> bit_reader \<Rightarrow> gr_context \<Rightarrow> (int \<times> bit_reader \<times> gr_context) result" where
  "read_golomb_rice_run_interruption bits_per_raw_sample r s =
     bind_result (read_golomb_rice_symbol bits_per_raw_sample r s) (\<lambda>(value, r', s').
       Inr (if 0 \<le> value then value + 1 else value, r', s'))"

definition write_golomb_rice_symbol ::
  "u8 \<Rightarrow> int \<Rightarrow> bit_writer \<Rightarrow> gr_context \<Rightarrow> (bit_writer \<times> gr_context) result" where
  "write_golomb_rice_symbol bits_per_raw_sample value w s =
     bind_result (gr_validate_state s) (\<lambda>_.
     if bits_per_raw_sample = 0 \<or> 31 < bits_per_raw_sample then Inl (make_error InvalidArgument)
     else
       bind_result (gr_derive_k s) (\<lambda>k.
         let adaptive_value = gr_sign_extend (value - gr_bias s) bits_per_raw_sample;
             coded_value = (if 2 * gr_drift s < - gr_count s then - 1 - adaptive_value else adaptive_value)
         in bind_result (gr_write_signed k bits_per_raw_sample coded_value w) (\<lambda>w'.
              Inr (w', gr_update_state adaptive_value s))))"

definition write_golomb_rice_run_interruption ::
  "u8 \<Rightarrow> int \<Rightarrow> bit_writer \<Rightarrow> gr_context \<Rightarrow> (bit_writer \<times> gr_context) result" where
  "write_golomb_rice_run_interruption bits_per_raw_sample value w s =
     (if value = 0 then Inl (make_error InvalidArgument)
      else
        let mapped = (if 0 < value then value - 1 else value)
        in write_golomb_rice_symbol bits_per_raw_sample mapped w s)"

subsection \<open>Sign extension\<close>

lemma signed_take_bit_unique:
  fixes x v :: int
  assumes "- (2 ^ n) \<le> x" and "x < 2 ^ n" and "x mod 2 ^ Suc n = v mod 2 ^ Suc n"
  shows "x = signed_take_bit n v"
proof -
  have "signed_take_bit n x = signed_take_bit n v"
    using assms(3) by (simp only: signed_take_bit_eq_iff_take_bit_eq take_bit_eq_mod)
  moreover have "signed_take_bit n x = x"
    using assms(1,2) by (simp add: signed_take_bit_int_eq_self)
  ultimately show ?thesis by simp
qed

lemma gr_sign_extend_eq:
  assumes "bits \<noteq> 0" and "bits < 32"
  shows "gr_sign_extend v bits = signed_take_bit (unat bits - 1) v"
proof -
  obtain n where n: "unat bits = Suc n" "n < 31"
    using assms by (cases "unat bits") (simp_all add: unat_eq_zero word_less_nat_alt)
  have range: "uint (push_bit (Suc n) 1 :: u64) = 2 ^ Suc n" "uint (drop_bit 1 (push_bit (Suc n) 1) :: u64) = 2 ^ n"
    using n(2) by (simp_all only: uint_nat unat_drop_bit_div unat_exp_64) simp_all
  have mask: "push_bit (Suc n) 1 - 1 = (word_of_int (2 ^ Suc n - 1) :: u64)"
    by (simp add: push_bit_of_1)
  define e where "e = v mod 2 ^ Suc n"
  have enc: "uint (word_of_int v AND (push_bit (Suc n) 1 - 1) :: u64) = e"
    unfolding mask e_def using n(2) by (intro uint_and_mask64) simp
  have e: "0 \<le> e" "e < 2 * 2 ^ n" by (simp_all add: e_def)
  have small: "(2 :: int) ^ n \<le> 2 ^ 30" using n(2) by (intro power_increasing) simp_all
  have "gr_sign_extend v bits = to_int32 (if 2 ^ n \<le> e then e - 2 ^ Suc n else e)"
    by (simp only: gr_sign_extend_def Let_def n(1) word_le_def range enc)
  also have "\<dots> = (if 2 ^ n \<le> e then e - 2 ^ Suc n else e)"
    using e small by (intro to_int32_id) (auto simp: in_int32_def)
  also have "\<dots> = signed_take_bit n v"
  proof (rule signed_take_bit_unique)
    show "(if 2 ^ n \<le> e then e - 2 ^ Suc n else e) mod 2 ^ Suc n = v mod 2 ^ Suc n"
      by (simp add: e_def mod_diff_right_eq [symmetric])
  qed (use e in auto)
  finally show ?thesis by (simp add: n(1))
qed

lemma gr_sign_extend_range:
  assumes "bits \<noteq> 0" and "bits < 32"
  shows "- (2 ^ (unat bits - 1)) \<le> gr_sign_extend v bits" and "gr_sign_extend v bits < 2 ^ (unat bits - 1)"
  unfolding gr_sign_extend_eq [OF assms]
  by (rule signed_take_bit_int_greater_eq_minus_exp, rule signed_take_bit_int_less_exp)

lemma gr_sign_extend_cong:
  assumes "bits \<noteq> 0" and "bits < 32"
  shows "gr_sign_extend u bits = gr_sign_extend v bits \<longleftrightarrow> u mod 2 ^ unat bits = v mod 2 ^ unat bits"
proof -
  have "Suc (unat bits - 1) = unat bits" using assms(1) by (cases "unat bits") (simp_all add: unat_eq_zero)
  then show ?thesis
    unfolding gr_sign_extend_eq [OF assms] signed_take_bit_eq_iff_take_bit_eq take_bit_eq_mod by simp
qed

lemma gr_sign_extend_id:
  assumes "bits \<noteq> 0" and "bits < 32" and "- (2 ^ (unat bits - 1)) \<le> v" and "v < 2 ^ (unat bits - 1)"
  shows "gr_sign_extend v bits = v"
  unfolding gr_sign_extend_eq [OF assms(1,2)] using assms(3,4) by (simp add: signed_take_bit_int_eq_self)

lemma gr_sign_extend_mod:
  assumes "bits \<noteq> 0" and "bits < 32"
  shows "gr_sign_extend v bits mod 2 ^ unat bits = v mod 2 ^ unat bits"
proof -
  have "gr_sign_extend (gr_sign_extend v bits) bits = gr_sign_extend v bits"
    using gr_sign_extend_range [OF assms] by (intro gr_sign_extend_id assms)
  then show ?thesis by (simp only: gr_sign_extend_cong [OF assms])
qed

subsection \<open>The parameter\<close>

lemma gr_derive_k_loop_least:
  assumes "gr_derive_k_loop e t k0 = Inr k" and "k0 \<le> 31"
  shows "\<exists>n. k = word_of_nat (k0 + n) \<and> k0 + n \<le> 31 \<and> e \<le> t * 2 ^ n \<and> (\<forall>j < n. t * 2 ^ j < e)"
  using assms
proof (induction e t k0 rule: gr_derive_k_loop.induct)
  case (1 e t k0)
  show ?case
  proof (cases "t < e")
    case False
    with "1.prems" show ?thesis
      by (intro exI [of _ 0]) (simp add: gr_derive_k_loop.simps [of e t k0] not_less)
  next
    case True
    with "1.prems" have k0: "\<not> 31 \<le> k0" and rec: "gr_derive_k_loop e (t * 2) (Suc k0) = Inr k"
      by (simp_all add: gr_derive_k_loop.simps [of e t k0] split: if_splits)
    from "1.IH" [OF True k0 rec] k0 obtain n where n: "k = word_of_nat (Suc k0 + n)" "Suc k0 + n \<le> 31"
      "e \<le> t * 2 * 2 ^ n" "\<forall>j < n. t * 2 * 2 ^ j < e" by auto
    have "\<forall>j < Suc n. t * 2 ^ j < e"
    proof (intro allI impI)
      fix j assume "j < Suc n"
      with n(4) True show "t * 2 ^ j < e" by (cases j) (auto simp: mult.assoc)
    qed
    with n show ?thesis by (intro exI [of _ "Suc n"]) (simp add: mult.assoc)
  qed
qed

lemma gr_derive_k_loop_succeeds:
  assumes "e \<le> t * 2 ^ n" and "k0 + n \<le> 31"
  shows "\<exists>k. gr_derive_k_loop e t k0 = Inr k"
  using assms
proof (induction n arbitrary: t k0)
  case 0
  then show ?case by (simp add: gr_derive_k_loop.simps [of e t k0])
next
  case (Suc n)
  show ?case
  proof (cases "t < e")
    case True
    with Suc.IH [of "t * 2" "Suc k0"] Suc.prems show ?thesis
      by (simp add: gr_derive_k_loop.simps [of e t k0] mult.assoc)
  next
    case False
    then show ?thesis by (simp add: gr_derive_k_loop.simps [of e t k0])
  qed
qed

subsection \<open>The context invariant\<close>

text \<open>
  \<open>bound\<close> is any bound on the magnitude of the coded values: the error sum never exceeds \<open>bound\<close>
  times the count, which bounds \<open>k\<close>.
\<close>

definition gr_inv :: "int \<Rightarrow> gr_context \<Rightarrow> bool" where
  "gr_inv bound s \<longleftrightarrow>
     1 \<le> gr_count s \<and> gr_count s \<le> 128 \<and>
     0 \<le> gr_error_sum s \<and> gr_error_sum s \<le> bound * gr_count s \<and>
     - 128 \<le> gr_bias s \<and> gr_bias s \<le> 127 \<and>
     - gr_count s < gr_drift s \<and> gr_drift s \<le> 0"

lemma gr_inv_new: "4 \<le> bound \<Longrightarrow> gr_inv bound new_gr_context"
  by (simp add: gr_inv_def new_gr_context_def)

lemma gr_inv_validate: "gr_inv bound s \<Longrightarrow> gr_validate_state s = Inr ()"
  by (simp add: gr_inv_def gr_validate_state_def)

lemma error_sum_step:
  assumes "(e :: int) \<le> bound * c" and "\<bar>v\<bar> \<le> bound"
  shows "e + \<bar>v\<bar> \<le> bound * (c + 1)" and "c = 128 \<Longrightarrow> (e + \<bar>v\<bar>) div 2 \<le> bound * 65"
  using assms by (simp_all add: algebra_simps)

lemma drift_half: "in_int64 d \<Longrightarrow> arithmetic_right_shift d 1 = d div 2"
  using arithmetic_right_shift_floor [of d 1] by simp

lemma gr_update_normalise:
  fixes d c :: int
  assumes "1 \<le> c"
  shows "d \<le> - c \<Longrightarrow> - c < max (d + c) (- c + 1) \<and> max (d + c) (- c + 1) \<le> 0"
    and "0 < d \<Longrightarrow> - c < min (d - c) 0 \<and> min (d - c) 0 \<le> 0"
  using assms by auto

lemma gr_update_state_inv:
  assumes inv: "gr_inv bound s" and v: "\<bar>v\<bar> \<le> bound" and bound: "bound < 2 ^ 62"
  shows "gr_inv bound (gr_update_state v s)"
proof -
  have e: "gr_error_sum s \<le> bound * gr_count s" "0 \<le> gr_error_sum s"
    and c: "1 \<le> gr_count s" "gr_count s \<le> 128" using inv by (simp_all add: gr_inv_def)
  define a where "a = (if v < 0 then - v else v)"
  have a: "0 \<le> a" "a = \<bar>v\<bar>" by (simp_all add: a_def)
  note step = error_sum_step [OF e(1) v, folded a(2)]
  have "in_int64 (gr_drift s + v)"
    using inv v bound by (auto simp: gr_inv_def in_int64_def abs_le_iff)
  note half = drift_half [OF this]
  show ?thesis
  proof (cases "gr_count s = 128")
    case True
    with step(2) a(1) e(2) inv gr_update_normalise [of 65 "(gr_drift s + v) div 2"]
    show ?thesis
      by (simp add: gr_inv_def gr_update_state_def Let_def half not_le not_less flip: a_def)
  next
    case False
    with step(1) a(1) e(2) inv gr_update_normalise [of "gr_count s + 1" "gr_drift s + v"]
    show ?thesis
      by (simp add: gr_inv_def gr_update_state_def Let_def not_le not_less flip: a_def)
  qed
qed

lemma gr_inv_derive_k:
  assumes "gr_inv bound s" and "bound \<le> 2 ^ n" and "n \<le> 31"
  shows "\<exists>j \<le> n. gr_derive_k s = Inr (word_of_nat j)"
proof -
  have "gr_error_sum s \<le> bound * gr_count s" using assms(1) by (simp add: gr_inv_def)
  also have "\<dots> \<le> 2 ^ n * gr_count s"
    using assms(1,2) by (intro mult_right_mono) (simp_all add: gr_inv_def)
  finally have le: "gr_error_sum s \<le> gr_count s * 2 ^ n" by (simp add: mult.commute)
  with assms(3) obtain k where k: "gr_derive_k s = Inr k"
    using gr_derive_k_loop_succeeds [of "gr_error_sum s" "gr_count s" n 0] by (auto simp: gr_derive_k_def)
  then obtain j where j: "k = word_of_nat j" "\<forall>i < j. gr_count s * 2 ^ i < gr_error_sum s"
    using gr_derive_k_loop_least [of "gr_error_sum s" "gr_count s" 0 k] by (auto simp: gr_derive_k_def)
  with le have "j \<le> n" by (meson not_le)
  with k j show ?thesis by blast
qed

text \<open>Every value the reader can produce has magnitude at most \<open>2 ^ 31\<close>.\<close>

lemma gr_read_signed_in_int32: "gr_read_signed k b r = Inr (v, r') \<Longrightarrow> in_int32 v"
  by (auto simp: gr_read_signed_def Let_def to_int32_id in_int32_def split: if_splits sum.splits)

text \<open>A read either reports a syntax error or moves the reader forward over the same data.\<close>

definition reader_outcome :: "bit_reader \<Rightarrow> ('a \<times> bit_reader) result \<Rightarrow> bool" where
  "reader_outcome r res \<longleftrightarrow>
     (case res of Inl e \<Rightarrow> st_code e = SyntaxError
      | Inr (_, r') \<Rightarrow> reader_ok r' \<and> br_data r' = br_data r \<and> (\<exists>n. unread r' = drop n (unread r)))"

lemma read_bit_outcome: "reader_ok r \<Longrightarrow> reader_outcome r (read_bit r)"
  using reader_advance [of r 1]
  by (auto simp: reader_outcome_def read_bit_correct split: list.splits intro!: exI [of _ 1])

lemma read_bits_outcome: "reader_ok r \<Longrightarrow> n \<le> 64 \<Longrightarrow> reader_outcome r (read_bits n r)"
  using reader_advance [of r "unat n"]
  by (auto simp: reader_outcome_def read_bits_total intro!: exI [of _ "unat n"])

lemma reader_outcome_bind:
  assumes "reader_outcome r res" and "\<And>v r'. reader_ok r' \<Longrightarrow> reader_outcome r' (f (v, r'))"
  shows "reader_outcome r (bind_result res f)"
proof (cases res)
  case (Inr vr)
  then obtain v r' where "res = Inr (v, r')" by (cases vr) simp
  with assms(1) assms(2) [of r' v] show ?thesis
    by (auto simp: reader_outcome_def split: sum.splits prod.splits)
qed (use assms(1) in \<open>simp add: reader_outcome_def\<close>)

lemma reader_outcome_Inr: "reader_ok r \<Longrightarrow> reader_outcome r (Inr (v, r))"
  by (auto simp: reader_outcome_def intro: exI [of _ 0])

lemma gr_read_unsigned_loop_outcome:
  assumes "reader_ok r" and "k \<le> 64" and "b \<le> 64"
  shows "reader_outcome r (gr_read_unsigned_loop k b p r)"
  using assms(1)
proof (induction "12 - p" arbitrary: p r)
  case 0
  then show ?case
    by (auto simp: gr_read_unsigned_loop.simps [of k b p r] assms(3)
        intro!: reader_outcome_bind read_bits_outcome reader_outcome_Inr)
next
  case (Suc n)
  from Suc.hyps(2) have "p < 12" "n = 12 - Suc p" by simp_all
  with Suc.prems show ?case
    by (auto simp: gr_read_unsigned_loop.simps [of k b p r] assms(2)
        intro!: reader_outcome_bind read_bit_outcome read_bits_outcome reader_outcome_Inr Suc.hyps(1))
qed

lemma gr_read_signed_outcome:
  assumes "reader_ok r" and "k < 32" and "b \<noteq> 0" and "b < 32"
  shows "reader_outcome r (gr_read_signed k b r)"
proof -
  have "k \<le> 64" "b \<le> 64" using assms by (simp_all add: word_less_nat_alt word_le_nat_alt)
  from gr_read_unsigned_loop_outcome [OF assms(1) this, of 0]
  have "reader_outcome r (gr_read_unsigned k b r)" by (simp add: gr_read_unsigned_def)
  moreover have "\<not> 32 \<le> k" "\<not> (b = 0 \<or> 31 < b)"
    using assms(2-4) by (auto simp: not_le not_less word_le_nat_alt word_less_nat_alt)
  ultimately show ?thesis
    by (auto simp: gr_read_signed_def Let_def reader_outcome_def split: sum.splits)
qed

subsection \<open>The symbol coder\<close>

definition gr_coded_value :: "u8 \<Rightarrow> gr_context \<Rightarrow> int \<Rightarrow> int" where
  "gr_coded_value b s v =
     (let a = gr_sign_extend (v - gr_bias s) b
      in if 2 * gr_drift s < - gr_count s then - 1 - a else a)"

lemma gr_coded_value_range:
  assumes "b \<noteq> 0" and "b < 32"
  shows "- (2 ^ (unat b - 1)) \<le> gr_coded_value b s v" and "gr_coded_value b s v < 2 ^ (unat b - 1)"
  using gr_sign_extend_range [OF assms, of "v - gr_bias s"] by (auto simp: gr_coded_value_def Let_def)

lemma write_golomb_rice_symbol_correct:
  assumes "writer_ok w" and "write_golomb_rice_symbol b v w s = Inr (w', s')"
  obtains k where "gr_validate_state s = Inr ()" and "gr_derive_k s = Inr k" and "b \<noteq> 0" and "b < 32" and "k < 32"
    and "writer_ok w'" and "written w' = written w @ gr_signed_code k b (gr_coded_value b s v)"
    and "bw_finalized w' = bw_finalized w" and "s' = gr_update_state (gr_sign_extend (v - gr_bias s) b) s"
proof -
  from assms(2) obtain k where valid: "gr_validate_state s = Inr ()" and k: "gr_derive_k s = Inr k"
    and w': "gr_write_signed k b (gr_coded_value b s v) w = Inr w'"
    and s': "s' = gr_update_state (gr_sign_extend (v - gr_bias s) b) s"
    by (auto simp: write_golomb_rice_symbol_def Let_def gr_coded_value_def split: if_splits)
  from that [OF valid k _ _ _ _ _ _ s'] gr_write_signed_correct [OF assms(1) w'] show thesis by blast
qed

lemma read_golomb_rice_symbol_correct:
  assumes r: "reader_ok r" "unread r = gr_signed_code k b (gr_coded_value b s v) @ rest"
    and valid: "gr_validate_state s = Inr ()" and k: "gr_derive_k s = Inr k" "k < 32"
    and b: "b \<noteq> 0" "b < 32"
  obtains r' where "read_golomb_rice_symbol b r s =
      Inr (gr_sign_extend v b, r', gr_update_state (gr_sign_extend (v - gr_bias s) b) s)"
    and "reader_ok r'" and "unread r' = rest" and "br_data r' = br_data r"
proof -
  let ?a = "gr_sign_extend (v - gr_bias s) b"
  note range = gr_coded_value_range [OF b, of s v]
  obtain r' where r': "gr_read_signed k b r = Inr (gr_coded_value b s v, r')" "reader_ok r'" "unread r' = rest"
      "br_data r' = br_data r"
    using gr_read_signed_correct [OF r gr_fits_width(2) [OF range b] k(2) b gr_fits_width(1) [OF range b]] .
  have val: "(if 2 * gr_drift s < - gr_count s then - 1 - gr_coded_value b s v else gr_coded_value b s v) = ?a"
    by (simp add: gr_coded_value_def Let_def)
  have "(?a + gr_bias s) mod 2 ^ unat b = (v - gr_bias s + gr_bias s) mod 2 ^ unat b"
    by (rule mod_add_cong) (simp_all add: gr_sign_extend_mod [OF b])
  then have decoded: "gr_sign_extend (?a + gr_bias s) b = gr_sign_extend v b"
    by (simp add: gr_sign_extend_cong [OF b])
  have "\<not> (b = 0 \<or> 31 < b)" using b by (auto simp: not_less word_le_nat_alt word_less_nat_alt)
  with valid k(1) r'(1) have "read_golomb_rice_symbol b r s = Inr (gr_sign_extend v b, r', gr_update_state ?a s)"
    by (simp add: read_golomb_rice_symbol_def Let_def val decoded)
  with that r'(2-4) show thesis by blast
qed

definition symbol_in_width :: "u8 \<Rightarrow> int \<Rightarrow> bool" where
  "symbol_in_width b v \<longleftrightarrow> - (2 ^ (unat b - 1)) \<le> v \<and> v < 2 ^ (unat b - 1)"

text \<open>\<open>code\<close> is decoded to \<open>vs\<close> by a reader whose context is \<open>s\<close>, and leaves the context \<open>s'\<close>.\<close>

definition golomb_decodes :: "u8 \<Rightarrow> gr_context \<Rightarrow> bool list \<Rightarrow> int list \<Rightarrow> gr_context \<Rightarrow> bool" where
  "golomb_decodes b s code vs s' \<longleftrightarrow>
     (\<forall>r rest. reader_ok r \<longrightarrow> unread r = code @ rest \<longrightarrow>
       (\<exists>r'. read_all (\<lambda>_ (r, s). read_golomb_rice_symbol b r s) vs (r, s) = Inr (vs, r', s')
         \<and> reader_ok r' \<and> unread r' = rest))"

lemma golomb_decodes_Cons:
  assumes head: "\<And>r rest. reader_ok r \<Longrightarrow> unread r = code @ rest \<Longrightarrow>
      \<exists>r'. read_golomb_rice_symbol b r s = Inr (v, r', s1) \<and> reader_ok r' \<and> unread r' = rest"
    and tail: "golomb_decodes b s1 code' vs s'"
  shows "golomb_decodes b s (code @ code') (v # vs) s'"
  unfolding golomb_decodes_def
proof (intro allI impI)
  fix r rest
  assume r: "reader_ok r" "unread r = (code @ code') @ rest"
  then obtain r1 where r1: "read_golomb_rice_symbol b r s = Inr (v, r1, s1)" "reader_ok r1"
      "unread r1 = code' @ rest"
    using head [of r "code' @ rest"] by auto
  with tail obtain r' where "read_all (\<lambda>_ (r, s). read_golomb_rice_symbol b r s) vs (r1, s1) = Inr (vs, r', s')"
      "reader_ok r'" "unread r' = rest"
    unfolding golomb_decodes_def by blast
  with r1(1) show "\<exists>r'. read_all (\<lambda>_ (r, s). read_golomb_rice_symbol b r s) (v # vs) (r, s) =
      Inr (v # vs, r', s') \<and> reader_ok r' \<and> unread r' = rest" by simp
qed

lemma golomb_symbols_run:
  assumes "writer_ok w" and "fold_result (\<lambda>v (w, s). write_golomb_rice_symbol b v w s) vs (w, s) = Inr (w', s')"
    and "\<And>v. v \<in> set vs \<Longrightarrow> symbol_in_width b v"
  shows "writer_ok w' \<and> bw_finalized w' = bw_finalized w \<and>
    (\<exists>code. written w' = written w @ code \<and> golomb_decodes b s code vs s')"
  using assms
proof (induction vs arbitrary: w s)
  case Nil
  then show ?case by (simp add: golomb_decodes_def)
next
  case (Cons v vs)
  from Cons.prems(2) obtain w1 s1 where step: "write_golomb_rice_symbol b v w s = Inr (w1, s1)"
    and run: "fold_result (\<lambda>v (w, s). write_golomb_rice_symbol b v w s) vs (w1, s1) = Inr (w', s')"
    by auto
  obtain k where k: "gr_validate_state s = Inr ()" "gr_derive_k s = Inr k" "b \<noteq> 0" "b < 32" "k < 32"
    and w1: "writer_ok w1" "written w1 = written w @ gr_signed_code k b (gr_coded_value b s v)"
      "bw_finalized w1 = bw_finalized w" "s1 = gr_update_state (gr_sign_extend (v - gr_bias s) b) s"
    using write_golomb_rice_symbol_correct [OF Cons.prems(1) step] .
  have v: "gr_sign_extend v b = v"
    using gr_sign_extend_id [OF k(3,4)] Cons.prems(3) [of v] by (simp add: symbol_in_width_def)
  have "\<And>v. v \<in> set vs \<Longrightarrow> symbol_in_width b v" using Cons.prems(3) by simp
  from Cons.IH [OF w1(1) run this] obtain code where code: "writer_ok w'"
      "bw_finalized w' = bw_finalized w1" "written w' = written w1 @ code" "golomb_decodes b s1 code vs s'"
    by blast
  have "golomb_decodes b s (gr_signed_code k b (gr_coded_value b s v) @ code) (v # vs) s'"
  proof (rule golomb_decodes_Cons [OF _ code(4)])
    fix r rest
    assume "reader_ok r" "unread r = gr_signed_code k b (gr_coded_value b s v) @ rest"
    from read_golomb_rice_symbol_correct [OF this k(1,2,5,3,4)]
    show "\<exists>r'. read_golomb_rice_symbol b r s = Inr (v, r', s1) \<and> reader_ok r' \<and> unread r' = rest"
      unfolding v w1(4) by metis
  qed
  with code w1 show ?case by auto
qed

subsection \<open>Totality\<close>

lemma gr_coded_abs: "- h \<le> v \<Longrightarrow> v < (h :: int) \<Longrightarrow> \<bar>v\<bar> \<le> h"
  by (simp add: abs_le_iff)

definition gr_bound :: "u8 \<Rightarrow> int" where
  "gr_bound b = max 4 (2 ^ (unat b - 1))"

lemma gr_bound_le: "b < 32 \<Longrightarrow> gr_bound b \<le> 2 ^ 30"
proof -
  assume "b < 32"
  then have "unat b - 1 \<le> 30" by (simp add: word_less_nat_alt)
  then have "(2 :: int) ^ (unat b - 1) \<le> 2 ^ 30" by (intro power_increasing) simp_all
  then show ?thesis by (simp add: gr_bound_def)
qed

lemma gr_derive_k_small:
  assumes "gr_inv bound s" and "bound \<le> 2 ^ 31"
  obtains k where "gr_derive_k s = Inr k" and "k < 32"
proof -
  obtain j where j: "j \<le> 31" "gr_derive_k s = Inr (word_of_nat j)"
    using gr_inv_derive_k [OF assms order_refl] by blast
  then have "(word_of_nat j :: u8) < 32" by (simp add: word_less_nat_alt unat_of_nat_bounded)
  with j that show thesis by blast
qed

lemma write_golomb_rice_symbol_succeeds:
  assumes "writer_ok w" and "\<not> bw_finalized w" and "unat (bw_bit_position w) + 44 \<le> 2 ^ 63"
    and b: "b \<noteq> 0" "b < 32" and inv: "gr_inv (gr_bound b) s"
  obtains w' s' where "write_golomb_rice_symbol b v w s = Inr (w', s')" and "gr_inv (gr_bound b) s'"
proof -
  have bound: "gr_bound b \<le> 2 ^ 31" using gr_bound_le [OF b(2)] by simp
  obtain k where k: "gr_derive_k s = Inr k" "k < 32"
    using gr_derive_k_small [OF inv bound] .
  note range = gr_coded_value_range [OF b, of s v]
  obtain w' where w': "gr_write_signed k b (gr_coded_value b s v) w = Inr w'"
    using gr_write_signed_succeeds [OF assms(1-3) k(2) b gr_fits_width(1) [OF range b]] by blast
  let ?a = "gr_sign_extend (v - gr_bias s) b"
  have "\<bar>?a\<bar> \<le> gr_bound b"
    using gr_coded_abs [OF gr_sign_extend_range [OF b, of "v - gr_bias s"]] by (simp add: gr_bound_def)
  then have "gr_inv (gr_bound b) (gr_update_state ?a s)"
    using gr_update_state_inv [OF inv] gr_bound_le [OF b(2)] by simp
  moreover have "\<not> (b = 0 \<or> 31 < b)" using b by (auto simp: not_less word_le_nat_alt word_less_nat_alt)
  ultimately show thesis
    using that k w' gr_inv_validate [OF inv]
    by (simp add: write_golomb_rice_symbol_def Let_def gr_coded_value_def)
qed

lemma read_golomb_rice_symbol_outcome:
  assumes r: "reader_ok r" and b: "b \<noteq> 0" "b < 32" and inv: "gr_inv (2 ^ 31) s"
  shows "case read_golomb_rice_symbol b r s of
      Inl e \<Rightarrow> st_code e = SyntaxError
    | Inr (v, r', s') \<Rightarrow> symbol_in_width b v \<and> reader_ok r' \<and> gr_inv (2 ^ 31) s'"
proof -
  obtain k where k: "gr_derive_k s = Inr k" "k < 32"
    using gr_derive_k_small [OF inv order_refl] .
  note outcome = gr_read_signed_outcome [OF r k(2) b]
  have unfold: "read_golomb_rice_symbol b r s =
      bind_result (gr_read_signed k b r) (\<lambda>(coded_value, r').
        let value = (if 2 * gr_drift s < - gr_count s then - 1 - coded_value else coded_value)
        in Inr (gr_sign_extend (value + gr_bias s) b, r', gr_update_state value s))"
  proof -
    have "\<not> (b = 0 \<or> 31 < b)" using b by (auto simp: not_less word_le_nat_alt word_less_nat_alt)
    with k gr_inv_validate [OF inv] show ?thesis
      by (simp add: read_golomb_rice_symbol_def Let_def)
  qed
  show ?thesis
  proof (cases "gr_read_signed k b r")
    case (Inl e)
    with outcome show ?thesis by (simp add: unfold reader_outcome_def)
  next
    case (Inr vr)
    then obtain c r' where c: "gr_read_signed k b r = Inr (c, r')" by (cases vr) simp
    let ?v = "if 2 * gr_drift s < - gr_count s then - 1 - c else c"
    from gr_read_signed_in_int32 [OF c] have "\<bar>?v\<bar> \<le> 2 ^ 31"
      by (simp add: in_int32_def abs_le_iff)
    from gr_update_state_inv [OF inv this] have "gr_inv (2 ^ 31) (gr_update_state ?v s)" by simp
    moreover have "symbol_in_width b (gr_sign_extend (?v + gr_bias s) b)"
      using gr_sign_extend_range [OF b] by (simp add: symbol_in_width_def)
    moreover have "reader_ok r'" using outcome c by (simp add: reader_outcome_def)
    ultimately show ?thesis by (simp add: unfold c Let_def)
  qed
qed

lemma read_golomb_rice_symbols_outcome:
  assumes "reader_ok r" and b: "b \<noteq> 0" "b < 32" and "gr_inv (2 ^ 31) s"
  shows "case read_all (\<lambda>_ (r, s). read_golomb_rice_symbol b r s) xs (r, s) of
      Inl e \<Rightarrow> st_code e = SyntaxError
    | Inr (vs, r', s') \<Rightarrow> (\<forall>v \<in> set vs. symbol_in_width b v) \<and> reader_ok r' \<and> gr_inv (2 ^ 31) s'"
  using assms(1,4)
proof (induction xs arbitrary: r s)
  case Nil
  then show ?case by simp
next
  case (Cons x xs)
  note step = read_golomb_rice_symbol_outcome [OF Cons.prems(1) b Cons.prems(2)]
  show ?case
  proof (cases "read_golomb_rice_symbol b r s")
    case (Inl e)
    with step show ?thesis by simp
  next
    case (Inr q)
    obtain v r1 s1 where q: "q = (v, r1, s1)" by (cases q)
    with step Inr have v: "symbol_in_width b v" and r1: "reader_ok r1" "gr_inv (2 ^ 31) s1" by simp_all
    show ?thesis
    proof (cases "read_all (\<lambda>_ (r, s). read_golomb_rice_symbol b r s) xs (r1, s1)")
      case (Inl e)
      with Cons.IH [OF r1] Inr show ?thesis by (simp add: q)
    next
      case tail: (Inr q')
      obtain vs r2 s2 where "q' = (vs, r2, s2)" by (cases q')
      with Cons.IH [OF r1] tail Inr v show ?thesis by (simp add: q)
    qed
  qed
qed

text \<open>Evaluation on numerals.\<close>

lemma write_zeros_numeral:
  "write_zeros (numeral k) w = bind_result (write_bit 0 w) (write_zeros (pred_numeral k))"
  "write_zeros 1 w = write_bit 0 w"
  by (simp add: numeral_eq_Suc) (cases "write_bit 0 w", simp_all)

lemmas golomb_writer_eval = write_golomb_rice_symbol_def gr_validate_state_def gr_derive_k_def
  gr_derive_k_loop.simps gr_write_signed_def gr_write_unsigned_def gr_fold_def gr_update_state_def
  new_gr_context_def write_zeros_numeral bit_writer_eval

subsection \<open>Properties\<close>

text \<open>
  C12: the adaptive Golomb-Rice coder is lossless. If the encoder accepts a sequence of differences of
  the sample width in a context, then the decoder, started in the same context on the finalized
  bytes, returns exactly these differences, and ends in the very context the encoder ends in; only
  the alignment padding remains.
\<close>

theorem golomb_symbols_roundtrip:
  assumes "fold_result (\<lambda>v (w, s). write_golomb_rice_symbol b v w s) vs (new_bit_writer, s) = Inr (w, s')"
    and "\<forall>v \<in> set vs. symbol_in_width b v"
    and "bw_byte_align_zero w = Inr w1" and "bw_finalize w1 = Inr (bs, w2)" and "8 * length bs < 2 ^ 64"
  shows "\<exists>r k. read_all (\<lambda>_ (r, s). read_golomb_rice_symbol b r s) vs (make_bit_reader bs, s) = Inr (vs, r, s')
      \<and> unread r = replicate k False \<and> k < 8"
proof -
  from golomb_symbols_run [OF writer_ok_new assms(1)] assms(2) obtain code where
    w: "writer_ok w" "written w = code" and code: "golomb_decodes b s code vs s'" by auto
  note al = byte_align_correct [OF w(1) assms(3)]
  define k where "k = (8 - length (written w) mod 8) mod 8"
  have "unread (make_bit_reader bs) = code @ replicate k False"
    using finalize_correct(1) [OF al(1) assms(4)] al(2) w(2) by (simp add: k_def)
  moreover have "k < 8" by (simp add: k_def)
  ultimately show ?thesis
    using code reader_ok_make [OF assms(5)] unfolding golomb_decodes_def by blast
qed

theorem golomb_symbols_roundtrip_witness:
  "\<exists>r k. read_all (\<lambda>_ (r, s). read_golomb_rice_symbol 8 r s) ([3, - 2] :: int list) (make_bit_reader [0x65], new_gr_context) =
      Inr ([3, - 2], r, \<lparr>gr_drift = 0, gr_error_sum = 10, gr_bias = 0, gr_count = 3\<rparr>)
    \<and> unread r = replicate k False \<and> k < 8"
proof -
  let ?w = "\<lparr>bw_bytes = [0x65], bw_bit_position = 8, bw_finalized = False\<rparr>"
  let ?s = "\<lparr>gr_drift = 0, gr_error_sum = 10, gr_bias = 0, gr_count = 3\<rparr>"
  have sx: "gr_sign_extend 3 8 = 3" "gr_sign_extend (- 3) 8 = - 3" by (simp_all add: gr_sign_extend_id)
  have one: "write_golomb_rice_symbol 8 3 new_bit_writer new_gr_context =
      Inr (\<lparr>bw_bytes = [0x60], bw_bit_position = 4, bw_finalized = False\<rparr>,
           \<lparr>gr_drift = 0, gr_error_sum = 7, gr_bias = 1, gr_count = 2\<rparr>)"
    by (simp add: golomb_writer_eval Let_def sx)
  have two: "write_golomb_rice_symbol 8 (- 2) \<lparr>bw_bytes = [0x60], bw_bit_position = 4, bw_finalized = False\<rparr>
      \<lparr>gr_drift = 0, gr_error_sum = 7, gr_bias = 1, gr_count = 2\<rparr> = Inr (?w, ?s)"
    by (simp add: golomb_writer_eval Let_def sx word_le_nat_alt)
  have w: "fold_result (\<lambda>v (w, s). write_golomb_rice_symbol 8 v w s) [3, - 2] (new_bit_writer, new_gr_context) =
      Inr (?w, ?s)"
    by (simp add: one two)
  have align: "bw_byte_align_zero ?w = Inr ?w" and out: "bw_finalize ?w = Inr ([0x65], ?w\<lparr>bw_finalized := True\<rparr>)"
    by (simp_all add: bit_writer_eval)
  show ?thesis
    by (rule golomb_symbols_roundtrip [OF w _ align out]) (simp_all add: symbol_in_width_def)
qed

text \<open>
  C24: whatever bytes the decoder is given, a context that starts from reset never leaves its
  invariant: every symbol either decodes to a value of the sample width or is reported as a syntax
  error, and no input drives the context into the states that the code answers with
  \<open>InvalidState\<close> (a negative error sum, a count or bias out of range, or no valid \<open>k\<close>).
\<close>

theorem golomb_reader_total:
  assumes "8 * length data < 2 ^ 64" and "b \<noteq> 0" and "b < 32"
  shows "case read_all (\<lambda>_ (r, s). read_golomb_rice_symbol b r s) xs (make_bit_reader data, new_gr_context) of
      Inl e \<Rightarrow> st_code e = SyntaxError
    | Inr (vs, r', s') \<Rightarrow> (\<forall>v \<in> set vs. symbol_in_width b v) \<and> reader_ok r' \<and> gr_inv (2 ^ 31) s'"
  using reader_ok_make [OF assms(1)] assms(2,3) gr_inv_new [of "2 ^ 31"]
  by (intro read_golomb_rice_symbols_outcome) simp_all

theorem golomb_reader_total_witness:
  "case read_all (\<lambda>_ (r, s). read_golomb_rice_symbol 8 r s) [(), ()] (make_bit_reader [0xA5, 0x00], new_gr_context) of
      Inl e \<Rightarrow> st_code e = SyntaxError
    | Inr (vs, r', s') \<Rightarrow> (\<forall>v \<in> set vs. symbol_in_width 8 v) \<and> reader_ok r' \<and> gr_inv (2 ^ 31) s'"
  by (rule golomb_reader_total) simp_all

text \<open>
  C25: the Golomb-Rice encoder never fails on a difference while its output has room: from a context
  in its invariant (a fresh one is) every value is written, and the context keeps the invariant, in
  particular a valid \<open>k\<close> always exists and the escape code always fits.
\<close>

theorem golomb_writer_total:
  assumes "writer_ok w" and "\<not> bw_finalized w" and "unat (bw_bit_position w) + 44 \<le> 2 ^ 63"
    and "b \<noteq> 0" and "b < 32" and "gr_inv (gr_bound b) s"
  shows "\<exists>w' s'. write_golomb_rice_symbol b v w s = Inr (w', s') \<and> gr_inv (gr_bound b) s'"
  using write_golomb_rice_symbol_succeeds [OF assms] by blast

theorem golomb_writer_total_witness:
  "\<exists>w' s'. write_golomb_rice_symbol 8 (- 100) new_bit_writer new_gr_context = Inr (w', s')
     \<and> gr_inv (gr_bound 8) s'"
  by (rule golomb_writer_total)
    (simp_all add: gr_inv_new gr_bound_def, simp_all add: new_bit_writer_def)

end
