(* ===== verification/Golomb_Run.thy ===== *)
theory Golomb_Run
  imports Golomb_Context
begin

text \<open>
  The run mode of \<^verbatim>\<open>src/src/entropy/golomb_rice_run.cpp\<close>: a run of zero differences is a sequence of
  one bits, each for a full block of \<open>2 ^ kLog2Run ! run_index\<close> samples, ended by a zero bit and the
  remaining count. The positions and counts (\<open>uint32_t\<close>) are natural numbers: the guards keep
  them at most the row width, so no operation wraps.
\<close>

definition kLog2Run :: "nat list" where
  "kLog2Run =
    [0, 0, 0, 0, 1, 1, 1, 1,
     2, 2, 2, 2, 3, 3, 3, 3,
     4, 4, 5, 5, 6, 6, 7, 7,
     8, 9, 10, 11, 12, 13, 14, 15,
     16, 17, 18, 19, 20, 21, 22, 23,
     24]"

record gr_run_state =
  run_index :: nat
  pending_count :: nat

definition new_gr_run_state :: gr_run_state where
  "new_gr_run_state = \<lparr>run_index = 0, pending_count = 0\<rparr>"

record gr_run_segment =
  seg_count :: nat
  seg_interrupted :: bool

definition read_golomb_rice_run_segment ::
  "bit_reader \<Rightarrow> gr_run_state \<Rightarrow> nat \<Rightarrow> nat \<Rightarrow> (gr_run_segment \<times> bit_reader \<times> gr_run_state) result" where
  "read_golomb_rice_run_segment r st x width =
     (if length kLog2Run \<le> run_index st then Inl (make_error InvalidState)
      else if width < x then Inl (make_error InvalidArgument)
      else if pending_count st \<noteq> 0 then
        let count = min (pending_count st) (width - x)
        in Inr (\<lparr>seg_count = count, seg_interrupted = False\<rparr>, r,
                st\<lparr>pending_count := pending_count st - count\<rparr>)
      else
        let log2_run = kLog2Run ! run_index st in
        bind_result (read_bit r) (\<lambda>(prefix, r).
          if prefix \<noteq> 0 then
            let count = 2 ^ log2_run in
            if count \<le> width - x then
              if length kLog2Run \<le> run_index st + 1 then Inl (make_error ResourceExhausted)
              else Inr (\<lparr>seg_count = count, seg_interrupted = False\<rparr>, r,
                        st\<lparr>run_index := run_index st + 1\<rparr>)
            else Inr (\<lparr>seg_count = width - x, seg_interrupted = False\<rparr>, r, st)
          else
            bind_result (read_bits (word_of_nat log2_run) r) (\<lambda>(remainder, r).
              let count = unat (ucast remainder :: u32);
                  next_index = (if run_index st \<noteq> 0 then run_index st - 1 else run_index st);
                  row_remaining = width - x
              in if row_remaining < count
                 then Inr (\<lparr>seg_count = row_remaining, seg_interrupted = False\<rparr>, r,
                           st\<lparr>pending_count := count - row_remaining, run_index := next_index\<rparr>)
                 else Inr (\<lparr>seg_count = count, seg_interrupted = True\<rparr>, r, st\<lparr>run_index := next_index\<rparr>))))"

function write_golomb_rice_run_loop ::
  "nat \<Rightarrow> bit_writer \<Rightarrow> nat \<Rightarrow> nat \<Rightarrow> nat \<Rightarrow> (bit_writer \<times> nat) result" where
  "write_golomb_rice_run_loop width w next_index position remaining =
     (let log2_run = kLog2Run ! next_index; full_count = 2 ^ log2_run in
      if full_count \<le> remaining then
        if length kLog2Run \<le> next_index + 1 then Inl (make_error ResourceExhausted)
        else
          bind_result (write_bit 1 w) (\<lambda>w.
            if position + full_count = width then Inr (w, next_index + 1)
            else write_golomb_rice_run_loop width w (next_index + 1) (position + full_count) (remaining - full_count))
      else
        bind_result (write_bit 0 w) (\<lambda>w.
        bind_result (write_bits (word_of_nat remaining) (word_of_nat log2_run) w) (\<lambda>w.
          Inr (w, if next_index \<noteq> 0 then next_index - 1 else next_index))))"
  by pat_completeness auto
termination
proof (relation "measure (\<lambda>(width, w, next_index, position, remaining). remaining)", goal_cases)
  case (2 width w next_index position remaining log2_run full_count w')
  then have "0 < full_count" "full_count \<le> remaining" by simp_all
  then show ?case by simp
qed simp

declare write_golomb_rice_run_loop.simps [simp del]

definition write_golomb_rice_run ::
  "bit_writer \<Rightarrow> gr_run_state \<Rightarrow> nat \<Rightarrow> nat \<Rightarrow> nat \<Rightarrow> (bit_writer \<times> gr_run_state) result" where
  "write_golomb_rice_run w st x width count =
     (if length kLog2Run \<le> run_index st then Inl (make_error InvalidState)
      else if width < x \<or> width - x < count then Inl (make_error InvalidArgument)
      else bind_result (write_golomb_rice_run_loop width w (run_index st) x count)
        (\<lambda>(w, next_index). Inr (w, st\<lparr>run_index := next_index\<rparr>)))"

lemma read_golomb_rice_run_segment_progress:
  assumes "read_golomb_rice_run_segment r st x width = Inr (segment, r', st')" and "x < width"
    and "\<not> seg_interrupted segment"
  shows "0 < seg_count segment"
  using assms by (auto simp: read_golomb_rice_run_segment_def Let_def split: if_splits)

text \<open>
  The decoder's side of a run (\<open>decode_golomb_rice_line\<close> in \<^verbatim>\<open>src/src/codec/slice_decoder.cpp\<close>): read
  segments until the row is full or a segment is interrupted. The result is the position reached and
  whether the run was interrupted; the samples of the run are the predictions at these positions. The
  loop ends because a segment that is not interrupted is never empty.
\<close>

function read_golomb_rice_run ::
  "nat \<Rightarrow> bit_reader \<Rightarrow> gr_run_state \<Rightarrow> nat \<Rightarrow> (nat \<times> bool \<times> bit_reader \<times> gr_run_state) result" where
  "read_golomb_rice_run width r st x =
     (if x < width then
        bind_result (read_golomb_rice_run_segment r st x width) (\<lambda>(segment, r, st).
          let run_end = min width (x + seg_count segment) in
          if seg_interrupted segment then Inr (run_end, True, r, st)
          else read_golomb_rice_run width r st run_end)
      else Inr (x, False, r, st))"
  by pat_completeness auto
termination
  by (relation "measure (\<lambda>(width, r, st, x). width - x)")
    (auto dest: read_golomb_rice_run_segment_progress)

declare read_golomb_rice_run.simps [simp del]

lemma kLog2Run_le: "i < length kLog2Run \<Longrightarrow> kLog2Run ! i \<le> 24"
proof -
  assume "i < length kLog2Run"
  moreover have "\<forall>x \<in> set kLog2Run. x \<le> 24" by (simp add: kLog2Run_def)
  ultimately show ?thesis by (meson nth_mem)
qed

lemma length_kLog2Run: "length kLog2Run = 41"
  by (simp add: kLog2Run_def)

subsection \<open>Round trip\<close>

definition run_decodes :: "nat \<Rightarrow> nat \<Rightarrow> nat \<Rightarrow> bool list \<Rightarrow> nat \<Rightarrow> nat \<Rightarrow> bool" where
  "run_decodes width i x code x' i' \<longleftrightarrow>
     (\<forall>r rest. reader_ok r \<longrightarrow> unread r = code @ rest \<longrightarrow>
       (\<exists>interrupted r'. read_golomb_rice_run width r \<lparr>run_index = i, pending_count = 0\<rparr> x =
            Inr (x', interrupted, r', \<lparr>run_index = i', pending_count = 0\<rparr>)
          \<and> reader_ok r' \<and> unread r' = rest \<and> (x' < width \<longrightarrow> interrupted)))"

lemma run_decodes_block:
  assumes i: "i + 1 < length kLog2Run" and x: "x + 2 ^ (kLog2Run ! i) \<le> width"
    and tail: "x + 2 ^ (kLog2Run ! i) < width \<Longrightarrow> run_decodes width (i + 1) (x + 2 ^ (kLog2Run ! i)) code x' i'"
    and full: "x + 2 ^ (kLog2Run ! i) = width \<Longrightarrow> code = [] \<and> x' = width \<and> i' = i + 1"
  shows "run_decodes width i x (True # code) x' i'"
  unfolding run_decodes_def
proof (intro allI impI)
  fix r rest
  assume r: "reader_ok r" "unread r = (True # code) @ rest"
  let ?full = "(2 :: nat) ^ (kLog2Run ! i)"
  have "unread r = True # (code @ rest)" using r(2) by simp
  with r(1) obtain r1 where r1: "read_bit r = Inr (of_bool True, r1)" "reader_ok r1" "unread r1 = code @ rest"
    by (rule read_bit_step)
  have fits: "?full \<le> width - x" "0 < ?full" "x < width" using x by (simp_all add: less_le_trans [of x "x + ?full"])
  have "read_golomb_rice_run_segment r \<lparr>run_index = i, pending_count = 0\<rparr> x width =
      Inr (\<lparr>seg_count = ?full, seg_interrupted = False\<rparr>, r1, \<lparr>run_index = i + 1, pending_count = 0\<rparr>)"
    using i fits r1(1) by (simp add: read_golomb_rice_run_segment_def Let_def)
  then have step: "read_golomb_rice_run width r \<lparr>run_index = i, pending_count = 0\<rparr> x =
      read_golomb_rice_run width r1 \<lparr>run_index = i + 1, pending_count = 0\<rparr> (x + ?full)"
    using fits x by (simp add: read_golomb_rice_run.simps [of width r _ x])
  show "\<exists>interrupted r'. read_golomb_rice_run width r \<lparr>run_index = i, pending_count = 0\<rparr> x =
      Inr (x', interrupted, r', \<lparr>run_index = i', pending_count = 0\<rparr>)
      \<and> reader_ok r' \<and> unread r' = rest \<and> (x' < width \<longrightarrow> interrupted)"
  proof (cases "x + ?full = width")
    case True
    with full r1 show ?thesis
      by (intro exI [of _ False] exI [of _ r1])
        (simp add: step read_golomb_rice_run.simps [of width r1 _ width])
  next
    case False
    with x tail have "run_decodes width (i + 1) (x + ?full) code x' i'" by simp
    with r1 show ?thesis unfolding step run_decodes_def by blast
  qed
qed

lemma run_decodes_end:
  assumes i: "i < length kLog2Run" and n: "n < 2 ^ (kLog2Run ! i)" and x: "x < width" "x + n \<le> width"
  shows "run_decodes width i x (False # bits_of (kLog2Run ! i) (word_of_nat n :: u64)) (x + n)
    (if i \<noteq> 0 then i - 1 else i)"
  unfolding run_decodes_def
proof (intro allI impI)
  fix r rest
  let ?l = "kLog2Run ! i"
  assume r: "reader_ok r" "unread r = (False # bits_of ?l (word_of_nat n :: u64)) @ rest"
  have "unread r = False # (bits_of ?l (word_of_nat n :: u64) @ rest)" using r(2) by simp
  with r(1) obtain r1 where r1: "read_bit r = Inr (of_bool False, r1)" "reader_ok r1"
      "unread r1 = bits_of ?l (word_of_nat n :: u64) @ rest"
    by (rule read_bit_step)
  have l: "?l \<le> 24" using i by (rule kLog2Run_le)
  then have "(2 :: nat) ^ ?l \<le> 2 ^ 24" by (intro power_increasing) simp_all
  with n have small: "n < 2 ^ 24" by simp
  then have n32: "n < 2 ^ 32" by simp
  with small have un: "unat (word_of_nat n :: u64) = n" "unat (word_of_nat n :: u32) = n"
    by (simp_all add: unat_of_nat_bounded)
  have ul: "unat (word_of_nat ?l :: u8) = ?l" "word_of_nat ?l \<le> (64 :: u8)"
    using l by (simp_all add: unat_of_nat_bounded word_le_nat_alt)
  have "bits_of ?l (word_of_nat n :: u64) = bits_of ?l n"
    using bits_of_unat [of ?l "word_of_nat n :: u64"] by (simp add: un)
  then have val: "word_of_bits 0 (bits_of ?l (word_of_nat n :: u64)) = word_of_nat n"
    using word_of_bits_nat [of ?l n] l n by simp
  obtain r2 where r2: "read_bits (word_of_nat ?l) r1 = Inr (word_of_nat n, r2)" "reader_ok r2" "unread r2 = rest"
    using read_bits_step [OF r1(2,3) _ ul(2)] ul(1) val by auto
  have cnt: "unat (ucast (word_of_nat n :: u64) :: u32) = n"
  proof -
    have "(ucast (word_of_nat n :: u64) :: u32) = word_of_nat n"
      by (simp add: unsigned_ucast_eq word_unat_eq_iff un take_bit_nat_eq_self [OF n32])
    then show ?thesis by (simp add: un)
  qed
  have "\<not> width - x < n" using x by simp
  then have "read_golomb_rice_run_segment r \<lparr>run_index = i, pending_count = 0\<rparr> x width =
      Inr (\<lparr>seg_count = n, seg_interrupted = True\<rparr>, r2,
           \<lparr>run_index = if i \<noteq> 0 then i - 1 else i, pending_count = 0\<rparr>)"
    using i x r1(1) r2(1) by (simp add: read_golomb_rice_run_segment_def Let_def cnt not_less)
  with x have "read_golomb_rice_run width r \<lparr>run_index = i, pending_count = 0\<rparr> x =
      Inr (x + n, True, r2, \<lparr>run_index = if i \<noteq> 0 then i - 1 else i, pending_count = 0\<rparr>)"
    by (simp add: read_golomb_rice_run.simps [of width r _ x] Let_def)
  with r2 show "\<exists>interrupted r'. read_golomb_rice_run width r \<lparr>run_index = i, pending_count = 0\<rparr> x =
      Inr (x + n, interrupted, r', \<lparr>run_index = if i \<noteq> 0 then i - 1 else i, pending_count = 0\<rparr>)
      \<and> reader_ok r' \<and> unread r' = rest \<and> (x + n < width \<longrightarrow> interrupted)" by blast
qed

lemma write_golomb_rice_run_loop_correct:
  assumes "writer_ok w" and "write_golomb_rice_run_loop width w i x n = Inr (w', i')"
    and "i < length kLog2Run" and "x < width" and "x + n \<le> width"
  shows "writer_ok w' \<and> bw_finalized w' = bw_finalized w \<and>
    (\<exists>code. written w' = written w @ code \<and> run_decodes width i x code (x + n) i')"
  using assms
proof (induction width w i x n rule: write_golomb_rice_run_loop.induct)
  case (1 width w i x n)
  let ?l = "kLog2Run ! i" and ?full = "(2 :: nat) ^ (kLog2Run ! i)"
  show ?case
  proof (cases "?full \<le> n")
    case True
    with "1.prems"(2) obtain w1 where i: "i + 1 < length kLog2Run" and w1: "write_bit 1 w = Inr w1"
      and rest: "(if x + ?full = width then Inr (w1, i + 1)
          else write_golomb_rice_run_loop width w1 (i + 1) (x + ?full) (n - ?full)) = Inr (w', i')"
      by (auto simp: write_golomb_rice_run_loop.simps [of width w i x n] Let_def split: if_splits)
    note step = write_bit_correct [OF "1.prems"(1) w1]
    show ?thesis
    proof (cases "x + ?full = width")
      case row_end: True
      with rest True "1.prems"(5) have "w' = w1" "i' = i + 1" "x + n = width" by simp_all
      moreover have "run_decodes width i x (True # []) width (i + 1)"
        by (rule run_decodes_block [OF i]) (simp_all add: row_end)
      ultimately show ?thesis using step by auto
    next
      case False
      with rest True "1.prems"(5) have "x + ?full < width"
        and loop: "write_golomb_rice_run_loop width w1 (i + 1) (x + ?full) (n - ?full) = Inr (w', i')" by simp_all
      with "1.IH" [OF refl refl True _ w1 False step(1) loop] i True "1.prems"(5)
      obtain code where code: "writer_ok w'" "bw_finalized w' = bw_finalized w1" "written w' = written w1 @ code"
        "run_decodes width (i + 1) (x + ?full) code (x + n) i'" by auto
      have "run_decodes width i x (True # code) (x + n) i'"
        by (rule run_decodes_block [OF i]) (use False code(4) \<open>x + ?full < width\<close> in simp_all)
      with code step show ?thesis by auto
    qed
  next
    case False
    with "1.prems"(2) obtain w1 where w1: "write_bit 0 w = Inr w1"
        and w2: "write_bits (word_of_nat n) (word_of_nat ?l) w1 = Inr w'"
        and i': "i' = (if i \<noteq> 0 then i - 1 else i)"
      by (auto simp: write_golomb_rice_run_loop.simps [of width w i x n] Let_def)
    note step1 = write_bit_correct [OF "1.prems"(1) w1]
    note step2 = write_bits_correct [OF step1(1) w2]
    have "unat (word_of_nat ?l :: u8) = ?l"
      using kLog2Run_le [OF "1.prems"(3)] by (simp add: unat_of_nat_bounded)
    with step1 step2 have "writer_ok w' \<and> bw_finalized w' = bw_finalized w"
      and "written w' = written w @ False # bits_of ?l (word_of_nat n :: u64)" by simp_all
    moreover have "run_decodes width i x (False # bits_of ?l (word_of_nat n :: u64)) (x + n) i'"
      unfolding i' using "1.prems"(3-5) False by (intro run_decodes_end) simp_all
    ultimately show ?thesis by blast
  qed
qed

text \<open>
  C13: the run mode is lossless. A run of \<open>count\<close> zero differences at column \<open>x\<close> that the encoder
  accepts is decoded, segment by segment, to the position \<open>x + count\<close>; the decoder stops there,
  having consumed exactly the bits of the run, with the encoder's run index, and it reports an
  interruption whenever the row has samples left.
\<close>

theorem golomb_run_roundtrip:
  assumes "writer_ok w" and "write_golomb_rice_run w st x width count = Inr (w', st')"
    and "pending_count st = 0" and "x < width"
  shows "\<exists>code. written w' = written w @ code \<and>
    (\<forall>r rest. reader_ok r \<longrightarrow> unread r = code @ rest \<longrightarrow>
      (\<exists>interrupted r'. read_golomb_rice_run width r st x = Inr (x + count, interrupted, r', st')
        \<and> unread r' = rest \<and> (x + count < width \<longrightarrow> interrupted)))"
proof -
  from assms(2) obtain i' where i: "run_index st < length kLog2Run" "x + count \<le> width"
    and loop: "write_golomb_rice_run_loop width w (run_index st) x count = Inr (w', i')"
    and st': "st' = \<lparr>run_index = i', pending_count = 0\<rparr>"
    using assms(3) by (auto simp: write_golomb_rice_run_def split: if_splits)
  have st: "st = \<lparr>run_index = run_index st, pending_count = 0\<rparr>" using assms(3) by simp
  from write_golomb_rice_run_loop_correct [OF assms(1) loop i(1) assms(4) i(2)]
  obtain code where "written w' = written w @ code" "run_decodes width (run_index st) x code (x + count) i'"
    by blast
  then show ?thesis unfolding run_decodes_def st' by (subst st) blast
qed

theorem golomb_run_roundtrip_witness:
  "\<exists>code. written \<lparr>bw_bytes = [0xF8], bw_bit_position = 7, bw_finalized = False\<rparr> = written new_bit_writer @ code \<and>
    (\<forall>r rest. reader_ok r \<longrightarrow> unread r = code @ rest \<longrightarrow>
      (\<exists>interrupted r'. read_golomb_rice_run 9 r new_gr_run_state 1 =
          Inr (1 + 6, interrupted, r', \<lparr>run_index = 4, pending_count = 0\<rparr>)
        \<and> unread r' = rest \<and> (1 + 6 < (9 :: nat) \<longrightarrow> interrupted)))"
proof (rule golomb_run_roundtrip)
  show "write_golomb_rice_run new_bit_writer new_gr_run_state 1 9 6 =
      Inr (\<lparr>bw_bytes = [0xF8], bw_bit_position = 7, bw_finalized = False\<rparr>, \<lparr>run_index = 4, pending_count = 0\<rparr>)"
    by (simp add: write_golomb_rice_run_def write_golomb_rice_run_loop.simps kLog2Run_def
        new_gr_run_state_def bit_writer_eval Let_def)
qed (simp_all add: new_gr_run_state_def)

end
