(* ===== verification/State_Transition.thy ===== *)
theory State_Transition
  imports Prelude
begin

text \<open>
  The probability state machine of \<^verbatim>\<open>src/src/mffv1/state_transition.hpp\<close>: a table gives the state
  after a one bit, and the mirrored table the state after a zero bit.
\<close>

type_synonym state_transition_table = "u8 list"

definition kDefaultStateTransition :: state_transition_table where
  "kDefaultStateTransition =
    [0, 0, 0, 0, 0, 0, 0, 0, 20, 21, 22, 23, 24, 25, 26, 27,
     28, 29, 30, 31, 32, 33, 34, 35, 36, 37, 37, 38, 39, 40, 41, 42,
     43, 44, 45, 46, 47, 48, 49, 50, 51, 52, 53, 54, 55, 56, 56, 57,
     58, 59, 60, 61, 62, 63, 64, 65, 66, 67, 68, 69, 70, 71, 72, 73,
     74, 75, 75, 76, 77, 78, 79, 80, 81, 82, 83, 84, 85, 86, 87, 88,
     89, 90, 91, 92, 93, 94, 94, 95, 96, 97, 98, 99, 100, 101, 102, 103,
     104, 105, 106, 107, 108, 109, 110, 111, 112, 113, 114, 114, 115, 116, 117, 118,
     119, 120, 121, 122, 123, 124, 125, 126, 127, 128, 129, 130, 131, 132, 133, 133,
     134, 135, 136, 137, 138, 139, 140, 141, 142, 143, 144, 145, 146, 147, 148, 149,
     150, 151, 152, 152, 153, 154, 155, 156, 157, 158, 159, 160, 161, 162, 163, 164,
     165, 166, 167, 168, 169, 170, 171, 171, 172, 173, 174, 175, 176, 177, 178, 179,
     180, 181, 182, 183, 184, 185, 186, 187, 188, 189, 190, 190, 191, 192, 194, 194,
     195, 196, 197, 198, 199, 200, 201, 202, 202, 204, 205, 206, 207, 208, 209, 209,
     210, 211, 212, 213, 215, 215, 216, 217, 218, 219, 220, 220, 222, 223, 224, 225,
     226, 227, 227, 229, 229, 230, 231, 232, 234, 234, 235, 236, 237, 238, 239, 240,
     241, 242, 243, 244, 245, 246, 247, 248, 248, 0, 0, 0, 0, 0, 0, 0]"

definition range_zero_state :: "state_transition_table \<Rightarrow> u8 \<Rightarrow> u8" where
  "range_zero_state state_transition state =
     (if state = 0 then 0
      else ucast (256 - ucast (state_transition ! unat (256 - ucast state :: u32)) :: u32))"

definition range_one_state :: "state_transition_table \<Rightarrow> u8 \<Rightarrow> u8" where
  "range_one_state state_transition state = state_transition ! unat state"

text \<open>
  The default table never leaves the states 8 to 248 once it is inside: no probability reaches zero,
  so neither bit value is ever impossible to code.
\<close>

definition live_state :: "u8 \<Rightarrow> bool" where
  "live_state s \<longleftrightarrow> 8 \<le> s \<and> s \<le> 248"

lemma length_default_transition: "length kDefaultStateTransition = 256"
  by (simp add: kDefaultStateTransition_def)

lemma default_transition_inner:
  "\<forall>x \<in> set (take 241 (drop 8 kDefaultStateTransition)). 20 \<le> unat x \<and> unat x \<le> 248"
  by (simp add: kDefaultStateTransition_def)

lemma default_transition_entry:
  assumes "8 \<le> n" and "n \<le> 248"
  shows "20 \<le> unat (kDefaultStateTransition ! n)" and "unat (kDefaultStateTransition ! n) \<le> 248"
proof -
  have "kDefaultStateTransition ! n = take 241 (drop 8 kDefaultStateTransition) ! (n - 8)"
    using assms by (simp add: length_default_transition)
  also have "\<dots> \<in> set (take 241 (drop 8 kDefaultStateTransition))"
    using assms by (intro nth_mem) (simp add: length_default_transition)
  finally show "20 \<le> unat (kDefaultStateTransition ! n)" "unat (kDefaultStateTransition ! n) \<le> 248"
    using default_transition_inner by blast+
qed

lemma live_one_state:
  assumes "live_state s"
  shows "live_state (range_one_state kDefaultStateTransition s)"
  using assms default_transition_entry [of "unat s"]
  by (simp add: live_state_def range_one_state_def word_le_nat_alt)

lemma live_zero_state:
  assumes "live_state s"
  shows "live_state (range_zero_state kDefaultStateTransition s)"
proof -
  have s: "8 \<le> unat s" "unat s \<le> 248" "s \<noteq> 0"
    using assms by (auto simp: live_state_def word_le_nat_alt)
  have "unat (256 - ucast s :: u32) = 256 - unat s"
    using s by (subst unat_diff_bounded) simp_all
  moreover define t where "t = kDefaultStateTransition ! (256 - unat s)"
  moreover have t: "20 \<le> unat t" "unat t \<le> 248"
    unfolding t_def using s by (intro default_transition_entry; simp)+
  moreover have "unat (256 - ucast t :: u32) = 256 - unat t"
    using t by (subst unat_diff_bounded) simp_all
  then have "unat (ucast (256 - ucast t :: u32) :: u8) = 256 - unat t"
    using t by (simp add: unat_ucast_small)
  ultimately show ?thesis
    using s by (auto simp: live_state_def range_zero_state_def word_le_nat_alt)
qed

end
