(* ===== verification/Range_Contexts.thy ===== *)
theory Range_Contexts
  imports State_Transition
begin

text \<open>
  The scalar context storage that \<open>RangeCoder\<close> and \<open>RangeEncoder\<close> have in common
  (\<^verbatim>\<open>src/src/entropy/range_coder.hpp,cpp\<close> and \<^verbatim>\<open>range_encoder.hpp,cpp\<close>): up to four banks of contexts,
  each context an array of 32 probability states, stored in one flat vector with the offset and the
  size of each bank.
\<close>

definition kScalarContextSize :: nat where "kScalarContextSize = 32"
definition kMaxScalarContextCount :: nat where "kMaxScalarContextCount = 32768"
definition kMaxContextBankCount :: nat where "kMaxContextBankCount = 4"
definition kDefaultInitialState :: u8 where "kDefaultInitialState = 128"

text \<open>\<open>SIZE_MAX\<close> of the 64-bit targets.\<close>

definition size_max :: nat where "size_max = 2 ^ 64 - 1"

type_synonym scalar_context_states = "u8 list"
type_synonym context_state_bank = "scalar_context_states list"
type_synonym context_state_banks = "context_state_bank list"

record context_store =
  bank_offsets :: "nat list"
  bank_sizes :: "nat list"
  scalar_contexts :: "scalar_context_states list"

definition empty_context_store :: context_store where
  "empty_context_store = \<lparr>bank_offsets = [], bank_sizes = [], scalar_contexts = []\<rparr>"

fun context_offsets :: "nat \<Rightarrow> nat list \<Rightarrow> nat list" where
  "context_offsets context_offset [] = []"
| "context_offsets context_offset (c # cs) = context_offset # context_offsets (context_offset + c) cs"

definition bank_contexts :: "context_state_banks \<Rightarrow> u8 \<Rightarrow> nat list \<Rightarrow> nat \<Rightarrow> context_state_bank" where
  "bank_contexts initial_state_banks initial_state counts bank =
     (if initial_state_banks \<noteq> [] \<and> initial_state_banks ! bank \<noteq> [] then initial_state_banks ! bank
      else replicate (counts ! bank) (replicate kScalarContextSize initial_state))"

definition store_of_counts :: "nat list \<Rightarrow> context_state_banks \<Rightarrow> u8 \<Rightarrow> context_store" where
  "store_of_counts counts initial_state_banks initial_state =
     \<lparr>bank_offsets = context_offsets 0 counts, bank_sizes = counts,
      scalar_contexts =
        concat (map (bank_contexts initial_state_banks initial_state counts) [0..<length counts])\<rparr>"

text \<open>The checks of the decoder's \<open>initialize_contexts\<close>, bank by bank.\<close>

fun check_context_counts :: "context_state_banks \<Rightarrow> nat \<Rightarrow> nat list \<Rightarrow> unit result" where
  "check_context_counts banks bank [] = Inr ()"
| "check_context_counts banks bank (context_count # counts) =
     (if context_count = 0 then Inl (make_error InvalidArgument)
      else if kMaxScalarContextCount < context_count then Inl (make_error ResourceExhausted)
      else if banks \<noteq> [] \<and> banks ! bank \<noteq> [] \<and> length (banks ! bank) \<noteq> context_count
      then Inl (make_error InvalidArgument)
      else check_context_counts banks (Suc bank) counts)"

definition initialize_contexts ::
  "nat list \<Rightarrow> context_state_banks \<Rightarrow> u8 \<Rightarrow> context_store result" where
  "initialize_contexts counts initial_state_banks initial_state =
     (if counts = [] then Inl (make_error InvalidArgument)
      else if kMaxContextBankCount < length counts then Inl (make_error ResourceExhausted)
      else if initial_state_banks \<noteq> [] \<and> length initial_state_banks \<noteq> length counts
      then Inl (make_error InvalidArgument)
      else bind_result (check_context_counts initial_state_banks 0 counts) (\<lambda>_.
        Inr (store_of_counts counts initial_state_banks initial_state)))"

text \<open>The encoder's version checks the running total for overflow as well.\<close>

fun check_encoder_counts :: "context_state_banks \<Rightarrow> nat \<Rightarrow> nat \<Rightarrow> nat list \<Rightarrow> unit result" where
  "check_encoder_counts banks bank total_count [] = Inr ()"
| "check_encoder_counts banks bank total_count (context_count # counts) =
     (if context_count = 0 then Inl (make_error InvalidArgument)
      else if kMaxScalarContextCount < context_count then Inl (make_error ResourceExhausted)
      else if size_max - context_count < total_count then Inl (make_error ResourceExhausted)
      else if banks \<noteq> [] \<and> banks ! bank \<noteq> [] \<and> length (banks ! bank) \<noteq> context_count
      then Inl (make_error InvalidArgument)
      else check_encoder_counts banks (Suc bank) (total_count + context_count) counts)"

definition initialize_encoder_contexts ::
  "nat list \<Rightarrow> context_state_banks \<Rightarrow> u8 \<Rightarrow> context_store result" where
  "initialize_encoder_contexts counts initial_state_banks initial_state =
     (if counts = [] then Inl (make_error InvalidArgument)
      else if kMaxContextBankCount < length counts then Inl (make_error ResourceExhausted)
      else if initial_state_banks \<noteq> [] \<and> length initial_state_banks \<noteq> length counts
      then Inl (make_error InvalidArgument)
      else bind_result (check_encoder_counts initial_state_banks 0 0 counts) (\<lambda>_.
        Inr (store_of_counts counts initial_state_banks initial_state)))"

definition copy_context_banks :: "context_store \<Rightarrow> context_state_banks" where
  "copy_context_banks cs =
     map (\<lambda>bank. take (bank_sizes cs ! bank) (drop (bank_offsets cs ! bank) (scalar_contexts cs)))
       [0..<length (bank_sizes cs)]"

text \<open>The array \<open>scalar_contexts_[scalar_context_bank_offsets_[bank] + context]\<close> and its update.\<close>

definition context_index :: "nat \<Rightarrow> nat \<Rightarrow> context_store \<Rightarrow> nat" where
  "context_index bank context cs = bank_offsets cs ! bank + context"

definition context_states :: "nat \<Rightarrow> nat \<Rightarrow> context_store \<Rightarrow> scalar_context_states" where
  "context_states bank context cs = scalar_contexts cs ! context_index bank context cs"

definition set_context_states ::
  "nat \<Rightarrow> nat \<Rightarrow> scalar_context_states \<Rightarrow> context_store \<Rightarrow> context_store" where
  "set_context_states bank context states cs =
     cs\<lparr>scalar_contexts := (scalar_contexts cs)[context_index bank context cs := states]\<rparr>"

subsection \<open>The two initialisations agree\<close>

lemma check_encoder_counts_eq:
  "total_count + length counts * kMaxScalarContextCount \<le> size_max \<Longrightarrow>
    check_encoder_counts banks bank total_count counts = check_context_counts banks bank counts"
  by (induction banks bank total_count counts rule: check_encoder_counts.induct)
    (auto simp: kMaxScalarContextCount_def size_max_def)

lemma initialize_encoder_contexts_eq: "initialize_encoder_contexts = initialize_contexts"
proof (intro ext)
  fix counts banks s
  show "initialize_encoder_contexts counts banks s = initialize_contexts counts banks s"
  proof (cases "kMaxContextBankCount < length counts")
    case True
    then show ?thesis by (simp add: initialize_encoder_contexts_def initialize_contexts_def)
  next
    case False
    then have "check_encoder_counts banks 0 0 counts = check_context_counts banks 0 counts"
      by (intro check_encoder_counts_eq)
        (simp add: kMaxContextBankCount_def kMaxScalarContextCount_def size_max_def)
    then show ?thesis by (simp only: initialize_encoder_contexts_def initialize_contexts_def)
  qed
qed

end
