(* ===== verification/Range_Decoder.thy ===== *)
theory Range_Decoder
  imports Range_Contexts
begin

text \<open>
  The range decoder of \<^verbatim>\<open>src/src/entropy/range_coder.cpp\<close>, every operation of the class. \<open>range\<close> and
  \<open>low\<close> keep their 32 bits and the products their 64 bits, so that the wrap-around of a state
  restored by \<open>reset_from_arithmetic_state\<close> and of the legacy carries is the code's.
\<close>

record range_coder =
  rc_payload :: bytes
  rc_range :: u32
  rc_low :: u32
  rc_byte_position :: nat
  rc_end :: bool
  rc_initialized :: bool
  rc_legacy_v0_arithmetic :: bool
  rc_legacy_zero_symbol_carry :: bool
  rc_state_transition :: state_transition_table
  rc_contexts :: context_store
  rc_snapshots :: "context_store list"

definition new_range_coder :: range_coder where
  "new_range_coder =
     \<lparr>rc_payload = [], rc_range = 0, rc_low = 0, rc_byte_position = 0, rc_end = False,
      rc_initialized = False, rc_legacy_v0_arithmetic = False, rc_legacy_zero_symbol_carry = False,
      rc_state_transition = kDefaultStateTransition, rc_contexts = empty_context_store,
      rc_snapshots = []\<rparr>"

record arithmetic_state =
  as_range :: u32
  as_low :: u32
  as_byte_position :: nat
  as_end :: bool
  as_initialized :: bool

subsection \<open>Initialisation\<close>

definition rc_reset_impl ::
  "bytes \<Rightarrow> nat list \<Rightarrow> context_state_banks \<Rightarrow> u8 \<Rightarrow> state_transition_table \<Rightarrow> range_coder \<Rightarrow> range_coder result" where
  "rc_reset_impl payload counts initial_state_banks initial_state state_transition rc =
     (if length payload < 2 then Inl (make_byte_error SyntaxError 0)
      else
        bind_result (initialize_contexts counts initial_state_banks initial_state) (\<lambda>contexts.
          let range = 0xff00;
              low = push_bit 8 (ucast (payload ! 0) :: u32) OR ucast (payload ! 1);
              position = 2;
              ended = length payload \<le> position
          in Inr (rc\<lparr>rc_contexts := contexts, rc_payload := payload, rc_range := range,
                     rc_low := (if range \<le> low then range else low),
                     rc_byte_position := position,
                     rc_end := (if range \<le> low then True else ended),
                     rc_state_transition := state_transition, rc_initialized := True\<rparr>)))"

definition rc_reset :: "bytes \<Rightarrow> nat \<Rightarrow> u8 \<Rightarrow> range_coder \<Rightarrow> range_coder result" where
  "rc_reset payload scalar_context_count initial_state rc =
     rc_reset_impl payload [scalar_context_count] [] initial_state kDefaultStateTransition rc"

definition rc_reset_counts :: "bytes \<Rightarrow> nat list \<Rightarrow> u8 \<Rightarrow> range_coder \<Rightarrow> range_coder result" where
  "rc_reset_counts payload counts initial_state rc =
     rc_reset_impl payload counts [] initial_state kDefaultStateTransition rc"

definition rc_reset_banks ::
  "bytes \<Rightarrow> nat list \<Rightarrow> context_state_banks \<Rightarrow> range_coder \<Rightarrow> range_coder result" where
  "rc_reset_banks payload counts initial_state_banks rc =
     rc_reset_impl payload counts initial_state_banks kDefaultInitialState kDefaultStateTransition rc"

definition rc_reset_transition :: "bytes \<Rightarrow> state_transition_table \<Rightarrow> range_coder \<Rightarrow> range_coder result" where
  "rc_reset_transition payload state_transition rc =
     rc_reset_impl payload [1] [] kDefaultInitialState state_transition rc"

definition rc_reset_banks_transition ::
  "bytes \<Rightarrow> nat list \<Rightarrow> context_state_banks \<Rightarrow> state_transition_table \<Rightarrow> range_coder \<Rightarrow> range_coder result" where
  "rc_reset_banks_transition payload counts initial_state_banks state_transition rc =
     rc_reset_impl payload counts initial_state_banks kDefaultInitialState state_transition rc"

definition rc_reset_from_contexts ::
  "bytes \<Rightarrow> context_state_banks \<Rightarrow> state_transition_table \<Rightarrow> range_coder \<Rightarrow> range_coder result" where
  "rc_reset_from_contexts payload context_banks state_transition rc =
     rc_reset_impl payload (map length context_banks) context_banks kDefaultInitialState state_transition rc"

definition rc_reset_from_arithmetic_state ::
  "bytes \<Rightarrow> nat list \<Rightarrow> context_state_banks \<Rightarrow> state_transition_table \<Rightarrow> arithmetic_state \<Rightarrow>
   range_coder \<Rightarrow> range_coder result" where
  "rc_reset_from_arithmetic_state payload counts initial_state_banks state_transition st rc =
     (if \<not> as_initialized st then Inl (make_error InvalidArgument)
      else if as_range st = 0 then Inl (make_error InvalidArgument)
      else if length payload < as_byte_position st
      then Inl (make_byte_error SyntaxError (word_of_nat (as_byte_position st)))
      else
        bind_result (initialize_contexts counts initial_state_banks kDefaultInitialState) (\<lambda>contexts.
          Inr (rc\<lparr>rc_contexts := contexts, rc_payload := payload, rc_range := as_range st,
                  rc_low := as_low st, rc_byte_position := as_byte_position st,
                  rc_end := (as_end st \<or> length payload \<le> as_byte_position st),
                  rc_initialized := True, rc_state_transition := state_transition\<rparr>)))"

definition rc_reconfigure_contexts ::
  "nat list \<Rightarrow> context_state_banks \<Rightarrow> range_coder \<Rightarrow> range_coder result" where
  "rc_reconfigure_contexts counts initial_state_banks rc =
     (if \<not> rc_initialized rc then Inl (make_error InvalidState)
      else bind_result (initialize_contexts counts initial_state_banks kDefaultInitialState)
        (\<lambda>contexts. Inr (rc\<lparr>rc_contexts := contexts\<rparr>)))"

definition rc_copy_contexts :: "range_coder \<Rightarrow> context_state_banks result" where
  "rc_copy_contexts rc =
     (if \<not> rc_initialized rc then Inl (make_error InvalidState)
      else Inr (copy_context_banks (rc_contexts rc)))"

definition rc_arithmetic_state :: "range_coder \<Rightarrow> arithmetic_state" where
  "rc_arithmetic_state rc =
     \<lparr>as_range = rc_range rc, as_low = rc_low rc, as_byte_position = rc_byte_position rc,
      as_end = rc_end rc, as_initialized = rc_initialized rc\<rparr>"

definition rc_set_state_transition :: "state_transition_table \<Rightarrow> range_coder \<Rightarrow> range_coder result" where
  "rc_set_state_transition state_transition rc =
     (if \<not> rc_initialized rc then Inl (make_error InvalidState)
      else Inr (rc\<lparr>rc_state_transition := state_transition\<rparr>))"

definition rc_set_legacy_v0_arithmetic :: "bool \<Rightarrow> range_coder \<Rightarrow> range_coder result" where
  "rc_set_legacy_v0_arithmetic enabled rc =
     (if \<not> rc_initialized rc then Inl (make_error InvalidState)
      else
        let rc' = rc\<lparr>rc_legacy_v0_arithmetic := enabled\<rparr> in
        Inr (if enabled
             then rc'\<lparr>rc_contexts := (rc_contexts rc')\<lparr>scalar_contexts :=
                    map (\<lambda>context. context[0 := 255]) (scalar_contexts (rc_contexts rc'))\<rparr>\<rparr>
             else rc'))"

definition rc_set_legacy_zero_symbol_carry :: "bool \<Rightarrow> range_coder \<Rightarrow> range_coder result" where
  "rc_set_legacy_zero_symbol_carry enabled rc =
     (if \<not> rc_initialized rc then Inl (make_error InvalidState)
      else Inr (rc\<lparr>rc_legacy_zero_symbol_carry := enabled\<rparr>))"

definition rc_begin_independent_scalar_contexts :: "nat \<Rightarrow> range_coder \<Rightarrow> range_coder result" where
  "rc_begin_independent_scalar_contexts scalar_context_count rc =
     (if \<not> rc_initialized rc then Inl (make_error InvalidState)
      else bind_result (initialize_contexts [scalar_context_count] [] kDefaultInitialState)
        (\<lambda>contexts. Inr (rc\<lparr>rc_snapshots := rc_contexts rc # rc_snapshots rc, rc_contexts := contexts\<rparr>)))"

definition rc_end_independent_scalar_contexts :: "range_coder \<Rightarrow> range_coder result" where
  "rc_end_independent_scalar_contexts rc =
     (if \<not> rc_initialized rc then Inl (make_error InvalidState)
      else case rc_snapshots rc of
        [] \<Rightarrow> Inl (make_error InvalidState)
      | snapshot # rest \<Rightarrow> Inr (rc\<lparr>rc_contexts := snapshot, rc_snapshots := rest\<rparr>))"

subsection \<open>Binary decisions\<close>

definition rc_refill :: "range_coder \<Rightarrow> range_coder" where
  "rc_refill rc =
     (if 256 \<le> rc_range rc then rc
      else
        let rc1 = rc\<lparr>rc_range := push_bit 8 (rc_range rc), rc_low := push_bit 8 (rc_low rc)\<rparr> in
        if rc_end rc1 then rc1
        else
          let rc2 = (if rc_byte_position rc1 < length (rc_payload rc1)
                     then rc1\<lparr>rc_low := rc_low rc1 + ucast (rc_payload rc1 ! rc_byte_position rc1),
                              rc_byte_position := rc_byte_position rc1 + 1\<rparr>
                     else rc1)
          in if length (rc_payload rc2) \<le> rc_byte_position rc2 then rc2\<lparr>rc_end := True\<rparr> else rc2)"

definition read_rac :: "u8 \<Rightarrow> range_coder \<Rightarrow> (bool \<times> u8 \<times> range_coder) result" where
  "read_rac state rc =
     (if \<not> rc_initialized rc then Inl (make_error InvalidState)
      else
        let product = (ucast (rc_range rc) :: u64) * ucast state;
            rangeoff = (ucast (drop_bit 8 (product + (if rc_legacy_v0_arithmetic rc then 255 else 0))) :: u32);
            nonzero_product = ucast (rc_range rc) * ucast (256 - ucast state :: u32)
              + (if rc_legacy_v0_arithmetic rc then 0 else (255 :: u64));
            one_path_carry =
              (if rc_legacy_v0_arithmetic rc
               then (if (product + 255) AND 0xff \<noteq> 0 then 1 else 0)
                 + (if nonzero_product AND 0xff \<noteq> 0 then 1 else 0)
               else (0 :: u32));
            range = rc_range rc - rangeoff
        in if rc_low rc < range
           then Inr (False, range_zero_state (rc_state_transition rc) state,
                     rc_refill (rc\<lparr>rc_range := range\<rparr>))
           else
             let rc' = rc_refill (rc\<lparr>rc_low := rc_low rc - range, rc_range := rangeoff\<rparr>)
             in Inr (True, range_one_state (rc_state_transition rc) state,
                     rc'\<lparr>rc_low := rc_low rc' + one_path_carry\<rparr>))"

text \<open>A decision whose state is an element of a context array.\<close>

definition read_rac_at ::
  "nat \<Rightarrow> scalar_context_states \<Rightarrow> range_coder \<Rightarrow> (bool \<times> scalar_context_states \<times> range_coder) result" where
  "read_rac_at i states rc =
     bind_result (read_rac (states ! i) rc) (\<lambda>(bit, state, rc). Inr (bit, states[i := state], rc))"

definition rc_read_bool :: "range_coder \<Rightarrow> (bool \<times> range_coder) result" where
  "rc_read_bool rc =
     (if bank_sizes (rc_contexts rc) = [] \<or> bank_sizes (rc_contexts rc) ! 0 = 0
      then Inl (make_error InvalidState)
      else
        bind_result (read_rac_at 0 (context_states 0 0 (rc_contexts rc)) rc) (\<lambda>(bit, states, rc).
          Inr (bit, rc\<lparr>rc_contexts := set_context_states 0 0 states (rc_contexts rc)\<rparr>)))"

definition rc_read_termination_sentinel :: "range_coder \<Rightarrow> range_coder result" where
  "rc_read_termination_sentinel rc = bind_result (read_rac 129 rc) (\<lambda>(_, _, rc). Inr rc)"

subsection \<open>Scalar symbols\<close>

function read_exponent ::
  "nat \<Rightarrow> scalar_context_states \<Rightarrow> range_coder \<Rightarrow> (nat \<times> scalar_context_states \<times> range_coder) result" where
  "read_exponent exponent states rc =
     bind_result (read_rac_at (1 + min exponent 9) states rc) (\<lambda>(bit, states, rc).
       if \<not> bit then Inr (exponent, states, rc)
       else if 62 < exponent + 1 then Inl (make_error SyntaxError)
       else read_exponent (exponent + 1) states rc)"
  by pat_completeness auto
termination
  by (relation "measure (\<lambda>(exponent, states, rc). 63 - exponent)") auto

declare read_exponent.simps [simp del]

text \<open>The loop over \<open>i\<close> from \<open>exponent - 1\<close> down to zero; the first argument is \<open>i + 1\<close>.\<close>

fun read_magnitude ::
  "nat \<Rightarrow> u64 \<Rightarrow> scalar_context_states \<Rightarrow> range_coder \<Rightarrow> (u64 \<times> scalar_context_states \<times> range_coder) result" where
  "read_magnitude 0 magnitude states rc = Inr (magnitude, states, rc)"
| "read_magnitude (Suc i) magnitude states rc =
     bind_result (read_rac_at (22 + min i 9) states rc) (\<lambda>(bit, states, rc).
       read_magnitude i (push_bit 1 magnitude OR (if bit then 1 else 0)) states rc)"

definition read_scalar ::
  "bool \<Rightarrow> scalar_context_states \<Rightarrow> range_coder \<Rightarrow> (int \<times> scalar_context_states \<times> range_coder) result" where
  "read_scalar is_signed states rc =
     bind_result (read_rac_at 0 states rc) (\<lambda>(bit, states, rc).
       if bit then
         Inr (0, states, if rc_legacy_zero_symbol_carry rc then rc\<lparr>rc_low := rc_low rc + 1\<rparr> else rc)
       else
         bind_result (read_exponent 0 states rc) (\<lambda>(exponent, states, rc).
         bind_result (read_magnitude exponent 1 states rc) (\<lambda>(magnitude, states, rc).
           if 2 ^ 63 - 1 < magnitude then Inl (make_error SyntaxError)
           else if is_signed then
             bind_result (read_rac_at (11 + min exponent 10) states rc) (\<lambda>(bit, states, rc).
               Inr (if bit then - uint magnitude else uint magnitude, states, rc))
           else Inr (uint magnitude, states, rc))))"

definition rc_read_symbol ::
  "nat \<Rightarrow> nat \<Rightarrow> bool \<Rightarrow> range_coder \<Rightarrow> (int \<times> range_coder) result" where
  "rc_read_symbol context_bank context is_signed rc =
     (if length (bank_sizes (rc_contexts rc)) \<le> context_bank then Inl (make_error InvalidArgument)
      else if bank_sizes (rc_contexts rc) ! context_bank \<le> context then Inl (make_error InvalidArgument)
      else
        bind_result (read_scalar is_signed (context_states context_bank context (rc_contexts rc)) rc)
          (\<lambda>(v, states, rc).
            Inr (v, rc\<lparr>rc_contexts := set_context_states context_bank context states (rc_contexts rc)\<rparr>)))"

definition rc_read_unsigned :: "nat \<Rightarrow> nat \<Rightarrow> range_coder \<Rightarrow> (u64 \<times> range_coder) result" where
  "rc_read_unsigned context_bank context rc =
     bind_result (rc_read_symbol context_bank context False rc) (\<lambda>(v, rc). Inr (word_of_int v, rc))"

definition rc_read_signed :: "nat \<Rightarrow> nat \<Rightarrow> range_coder \<Rightarrow> (int \<times> range_coder) result" where
  "rc_read_signed context_bank context rc = rc_read_symbol context_bank context True rc"

end
