(* ===== verification/Range_Encoder.thy ===== *)
theory Range_Encoder
  imports Range_Contexts
begin

text \<open>
  The range encoder of \<^verbatim>\<open>src/src/entropy/range_encoder.cpp\<close>, every operation of the class. The lower
  bound of the interval is the byte vector \<open>low_bytes_\<close>, a big-endian number that grows by one byte
  per renormalisation; \<open>add_to_low\<close> propagates carries through it.
\<close>

record range_encoder =
  re_low_bytes :: bytes
  re_range :: u32
  re_state_transition :: state_transition_table
  re_contexts :: context_store
  re_snapshots :: "context_store list"
  re_initialized :: bool
  re_finalized :: bool

definition new_range_encoder :: range_encoder where
  "new_range_encoder =
     \<lparr>re_low_bytes = [], re_range = 0, re_state_transition = kDefaultStateTransition,
      re_contexts = empty_context_store, re_snapshots = [], re_initialized = False,
      re_finalized = False\<rparr>"

subsection \<open>Initialisation\<close>

definition re_reset_impl ::
  "nat list \<Rightarrow> context_state_banks \<Rightarrow> u8 \<Rightarrow> state_transition_table \<Rightarrow> range_encoder result" where
  "re_reset_impl counts initial_state_banks initial_state state_transition =
     bind_result (initialize_encoder_contexts counts initial_state_banks initial_state) (\<lambda>contexts.
       Inr (new_range_encoder\<lparr>re_contexts := contexts, re_low_bytes := [0, 0], re_range := 0xff00,
              re_state_transition := state_transition, re_initialized := True\<rparr>))"

definition re_reset_transition :: "state_transition_table \<Rightarrow> range_encoder result" where
  "re_reset_transition state_transition = re_reset_impl [1] [] kDefaultInitialState state_transition"

definition re_reset :: "nat \<Rightarrow> u8 \<Rightarrow> range_encoder result" where
  "re_reset scalar_context_count initial_state =
     re_reset_impl [scalar_context_count] [] initial_state kDefaultStateTransition"

definition re_reset_counts :: "nat list \<Rightarrow> u8 \<Rightarrow> range_encoder result" where
  "re_reset_counts counts initial_state = re_reset_impl counts [] initial_state kDefaultStateTransition"

definition re_reset_banks_transition ::
  "nat list \<Rightarrow> context_state_banks \<Rightarrow> state_transition_table \<Rightarrow> range_encoder result" where
  "re_reset_banks_transition counts initial_state_banks state_transition =
     re_reset_impl counts initial_state_banks kDefaultInitialState state_transition"

definition re_usable :: "range_encoder \<Rightarrow> unit result" where
  "re_usable e =
     (if \<not> re_initialized e then Inl (make_error InvalidState)
      else if re_finalized e then Inl (make_error InvalidState)
      else Inr ())"

definition re_reconfigure_contexts ::
  "nat list \<Rightarrow> context_state_banks \<Rightarrow> range_encoder \<Rightarrow> range_encoder result" where
  "re_reconfigure_contexts counts initial_state_banks e =
     bind_result (re_usable e) (\<lambda>_.
     bind_result (initialize_encoder_contexts counts initial_state_banks kDefaultInitialState) (\<lambda>contexts.
       Inr (e\<lparr>re_contexts := contexts\<rparr>)))"

definition re_copy_contexts :: "range_encoder \<Rightarrow> context_state_banks result" where
  "re_copy_contexts e =
     (if \<not> re_initialized e then Inl (make_error InvalidState)
      else Inr (copy_context_banks (re_contexts e)))"

definition re_begin_independent_scalar_contexts :: "nat \<Rightarrow> range_encoder \<Rightarrow> range_encoder result" where
  "re_begin_independent_scalar_contexts scalar_context_count e =
     bind_result (re_usable e) (\<lambda>_.
     bind_result (initialize_encoder_contexts [scalar_context_count] [] kDefaultInitialState) (\<lambda>contexts.
       Inr (e\<lparr>re_snapshots := re_contexts e # re_snapshots e, re_contexts := contexts\<rparr>)))"

definition re_end_independent_scalar_contexts :: "range_encoder \<Rightarrow> range_encoder result" where
  "re_end_independent_scalar_contexts e =
     bind_result (re_usable e) (\<lambda>_.
       case re_snapshots e of
         [] \<Rightarrow> Inl (make_error InvalidState)
       | snapshot # rest \<Rightarrow> Inr (e\<lparr>re_contexts := snapshot, re_snapshots := rest\<rparr>))"

subsection \<open>Binary decisions\<close>

text \<open>The carry loop; the first argument counts the bytes still below the carry.\<close>

fun add_to_low_loop :: "nat \<Rightarrow> u32 \<Rightarrow> bytes \<Rightarrow> u32 \<times> bytes" where
  "add_to_low_loop 0 carry low_bytes = (carry, low_bytes)"
| "add_to_low_loop (Suc index) carry low_bytes =
     (if carry = 0 then (carry, low_bytes)
      else
        let sum = ucast (low_bytes ! index) + (carry AND 0xff)
        in add_to_low_loop index (drop_bit 8 carry + drop_bit 8 sum)
             (low_bytes[index := ucast (sum AND 0xff)]))"

definition add_to_low :: "u32 \<Rightarrow> bytes \<Rightarrow> bytes result" where
  "add_to_low value low_bytes =
     (let (carry, low_bytes') = add_to_low_loop (length low_bytes) value low_bytes
      in if carry \<noteq> 0 then Inl (make_error InternalError) else Inr low_bytes')"

definition write_rac :: "u8 \<Rightarrow> bool \<Rightarrow> range_encoder \<Rightarrow> (u8 \<times> range_encoder) result" where
  "write_rac state value e =
     (let range_offset = drop_bit 8 (re_range e * ucast state);
          zero_range = re_range e - range_offset;
          next_range = (if value then range_offset else zero_range);
          renormalize = next_range < 256
      in if next_range = 0 then Inl (make_error InvalidArgument)
         else if renormalize \<and> length (re_low_bytes e) = byte_vector_max_size
         then Inl (make_error ResourceExhausted)
         else
           bind_result
             (if value
              then bind_result (add_to_low zero_range (re_low_bytes e)) (\<lambda>low_bytes.
                     Inr (range_one_state (re_state_transition e) state, e\<lparr>re_low_bytes := low_bytes\<rparr>))
              else Inr (range_zero_state (re_state_transition e) state, e))
             (\<lambda>(state', e').
               Inr (state',
                 if renormalize
                 then e'\<lparr>re_range := push_bit 8 next_range, re_low_bytes := re_low_bytes e' @ [0]\<rparr>
                 else e'\<lparr>re_range := next_range\<rparr>)))"

definition re_write_bool :: "bool \<Rightarrow> range_encoder \<Rightarrow> range_encoder result" where
  "re_write_bool value e =
     bind_result (re_usable e) (\<lambda>_.
       if bank_sizes (re_contexts e) = [] \<or> bank_sizes (re_contexts e) ! 0 = 0
       then Inl (make_error InvalidState)
       else
         let states = context_states 0 0 (re_contexts e) in
         bind_result (write_rac (states ! 0) value e) (\<lambda>(state, e).
           Inr (e\<lparr>re_contexts := set_context_states 0 0 (states[0 := state]) (re_contexts e)\<rparr>)))"

definition re_write_termination_sentinel :: "range_encoder \<Rightarrow> range_encoder result" where
  "re_write_termination_sentinel e =
     bind_result (re_usable e) (\<lambda>_.
     bind_result (write_rac 129 False e) (\<lambda>(_, e). Inr e))"

subsection \<open>Scalar symbols\<close>

text \<open>\<open>std::bit_width(magnitude) - 1\<close> for a nonzero magnitude.\<close>

fun bit_width_loop :: "nat \<Rightarrow> u64 \<Rightarrow> nat" where
  "bit_width_loop 0 v = 0"
| "bit_width_loop (Suc n) v = (if v = 0 then 0 else Suc (bit_width_loop n (drop_bit 1 v)))"

definition bit_width :: "u64 \<Rightarrow> nat" where
  "bit_width v = bit_width_loop 64 v"

text \<open>The decisions of one symbol: the index of the state and the value.\<close>

definition symbol_decisions :: "bool \<Rightarrow> u64 \<Rightarrow> bool \<Rightarrow> (nat \<times> bool) list" where
  "symbol_decisions is_signed magnitude negative =
     (0, magnitude = 0) #
     (if magnitude \<noteq> 0 then
        let exponent = bit_width magnitude - 1 in
        map (\<lambda>index. (1 + min index 9, True)) [0..<exponent] @
        [(1 + min exponent 9, False)] @
        map (\<lambda>b. (22 + min b 9, drop_bit b magnitude AND 1 \<noteq> 0)) (rev [0..<exponent]) @
        (if is_signed then [(11 + min exponent 10, negative)] else [])
      else [])"

fun trial_symbol ::
  "state_transition_table \<Rightarrow> (nat \<times> bool) list \<Rightarrow> scalar_context_states \<Rightarrow> u32 \<Rightarrow> nat \<Rightarrow> nat result" where
  "trial_symbol table [] trial_states trial_range appended_bytes = Inr appended_bytes"
| "trial_symbol table ((state_index, value) # decisions) trial_states trial_range appended_bytes =
     (let state = trial_states ! state_index;
          range_offset = drop_bit 8 (trial_range * ucast state);
          zero_range = trial_range - range_offset;
          next_range = (if value then range_offset else zero_range)
      in if next_range = 0 then Inl (make_error InvalidArgument)
         else
           let trial_states' = trial_states[state_index :=
                 if value then range_one_state table state else range_zero_state table state]
           in if next_range < 256
              then trial_symbol table decisions trial_states' (push_bit 8 next_range) (appended_bytes + 1)
              else trial_symbol table decisions trial_states' next_range appended_bytes)"

fun write_decisions ::
  "(nat \<times> bool) list \<Rightarrow> scalar_context_states \<Rightarrow> range_encoder \<Rightarrow>
   (scalar_context_states \<times> range_encoder) result" where
  "write_decisions [] states e = Inr (states, e)"
| "write_decisions ((state_index, value) # decisions) states e =
     (case write_rac (states ! state_index) value e of
        Inl _ \<Rightarrow> Inl (make_error InternalError)
      | Inr (state, e) \<Rightarrow> write_decisions decisions (states[state_index := state]) e)"

definition re_write_symbol ::
  "nat \<Rightarrow> nat \<Rightarrow> bool \<Rightarrow> u64 \<Rightarrow> bool \<Rightarrow> range_encoder \<Rightarrow> range_encoder result" where
  "re_write_symbol context_bank context is_signed magnitude negative e =
     (if length (bank_sizes (re_contexts e)) \<le> context_bank then Inl (make_error InvalidArgument)
      else if bank_sizes (re_contexts e) ! context_bank \<le> context then Inl (make_error InvalidArgument)
      else
        let states = context_states context_bank context (re_contexts e);
            decisions = symbol_decisions is_signed magnitude negative
        in bind_result (trial_symbol (re_state_transition e) decisions states (re_range e) 0) (\<lambda>appended_bytes.
             if byte_vector_max_size - length (re_low_bytes e) < appended_bytes
             then Inl (make_error ResourceExhausted)
             else bind_result (write_decisions decisions states e) (\<lambda>(states, e).
               Inr (e\<lparr>re_contexts := set_context_states context_bank context states (re_contexts e)\<rparr>))))"

definition re_write_unsigned :: "nat \<Rightarrow> nat \<Rightarrow> u64 \<Rightarrow> range_encoder \<Rightarrow> range_encoder result" where
  "re_write_unsigned context_bank context value e =
     bind_result (re_usable e) (\<lambda>_.
       if 2 ^ 63 - 1 < value then Inl (make_error InvalidArgument)
       else re_write_symbol context_bank context False value False e)"

text \<open>The value is an \<open>int64_t\<close>.\<close>

definition re_write_signed :: "nat \<Rightarrow> nat \<Rightarrow> int \<Rightarrow> range_encoder \<Rightarrow> range_encoder result" where
  "re_write_signed context_bank context value e =
     bind_result (re_usable e) (\<lambda>_.
       if value = - (2 ^ 63) then Inl (make_error InvalidArgument)
       else
         let negative = value < 0;
             magnitude = word_of_int (if negative then - value else value)
         in re_write_symbol context_bank context True magnitude negative e)"

subsection \<open>Finalisation\<close>

text \<open>
  The deltas are at most the range, which is below \<open>2 ^ 16\<close>: natural numbers do not differ from the
  code's \<open>uint32_t\<close>. The one unsigned subtraction that could wrap, \<open>target - aligned_delta\<close>, is only
  reached when it does not (\<open>closing_delta_no_wrap\<close> in theory \<open>Range_Roundtrip\<close>).
\<close>

function align_delta :: "nat \<Rightarrow> nat \<Rightarrow> nat \<Rightarrow> nat" where
  "align_delta width target aligned_delta =
     (if aligned_delta + 256 < width \<and> aligned_delta + 256 \<le> target
      then align_delta width target (aligned_delta + 256)
      else aligned_delta)"
  by pat_completeness auto
termination
  by (relation "measure (\<lambda>(width, target, aligned_delta). width - aligned_delta)") auto

declare align_delta.simps [simp del]

definition closing_delta :: "nat \<Rightarrow> nat \<Rightarrow> nat" where
  "closing_delta last_byte width =
     (let delta_to_zero_low_byte = (256 - last_byte) mod 256;
          target = width div 2
      in if delta_to_zero_low_byte < width then
           let aligned_delta = align_delta width target delta_to_zero_low_byte
           in if aligned_delta + 256 < width \<and> aligned_delta + 256 - target < target - aligned_delta
              then aligned_delta + 256 else aligned_delta
         else target)"

definition re_finalize_impl :: "bool \<Rightarrow> range_encoder \<Rightarrow> (bytes \<times> range_encoder) result" where
  "re_finalize_impl close_interval e =
     bind_result (re_usable e) (\<lambda>_.
       let low_bytes = re_low_bytes e;
           last_byte = (if low_bytes = [] then 0 else unat (last low_bytes))
       in bind_result
            (if close_interval
             then add_to_low (word_of_nat (closing_delta last_byte (unat (re_range e)))) low_bytes
             else Inr low_bytes)
            (\<lambda>bytes.
              Inr (if close_interval \<and> 2 < length bytes \<and> last bytes = 0 then butlast bytes else bytes,
                   e\<lparr>re_finalized := True\<rparr>)))"

definition re_finalize :: "range_encoder \<Rightarrow> (bytes \<times> range_encoder) result" where
  "re_finalize e = re_finalize_impl False e"

definition re_finalize_closed :: "range_encoder \<Rightarrow> (bytes \<times> range_encoder) result" where
  "re_finalize_closed e = re_finalize_impl True e"

definition re_byte_count :: "range_encoder \<Rightarrow> nat" where
  "re_byte_count e = length (re_low_bytes e)"

end
