(* ===== verification/Symbol_Channel.thy ===== *)
theory Symbol_Channel
  imports State_Transition
begin

text \<open>
  The interfaces \<open>SymbolReader\<close> and \<open>SymbolWriter\<close> (\<^verbatim>\<open>src/src/entropy/symbol_reader.hpp\<close>,
  \<^verbatim>\<open>symbol_writer.hpp\<close>): a record of operations stands for the virtual function table, so the clients
  (configuration and slice header code) are functions of such a record. The locale \<open>symbol_channel\<close>
  states the contract between a reader and a writer that the clients' round trips rest on; theory
  \<open>Range_Roundtrip\<close> interprets it on the range coder.
\<close>

record 'w symbol_writer =
  sw_write_bool :: "bool \<Rightarrow> 'w \<Rightarrow> 'w result"
  sw_write_unsigned :: "u64 \<Rightarrow> 'w \<Rightarrow> 'w result"
  sw_write_signed :: "int \<Rightarrow> 'w \<Rightarrow> 'w result"
  sw_write_unsigned_at :: "nat \<Rightarrow> u64 \<Rightarrow> 'w \<Rightarrow> 'w result"
  sw_write_signed_at :: "nat \<Rightarrow> int \<Rightarrow> 'w \<Rightarrow> 'w result"
  sw_begin_contexts :: "nat \<Rightarrow> 'w \<Rightarrow> 'w result"
  sw_end_contexts :: "'w \<Rightarrow> 'w result"

record 'r symbol_reader =
  sr_read_bool :: "'r \<Rightarrow> (bool \<times> 'r) result"
  sr_read_unsigned :: "'r \<Rightarrow> (u64 \<times> 'r) result"
  sr_read_signed :: "'r \<Rightarrow> (int \<times> 'r) result"
  sr_read_signed_at :: "nat \<Rightarrow> 'r \<Rightarrow> (int \<times> 'r) result"
  sr_begin_contexts :: "nat \<Rightarrow> 'r \<Rightarrow> 'r result"
  sr_end_contexts :: "'r \<Rightarrow> 'r result"
  sr_set_state_transition :: "state_transition_table \<Rightarrow> 'r \<Rightarrow> 'r result"
  sr_byte_position :: "'r \<Rightarrow> u64"

text \<open>
  The relation between the two ends: what holds of the writer (\<open>winv\<close>), whether the finished output
  continues from a writer state (\<open>reaches\<close>), and whether a reader of that output has consumed what
  the writer has written so far (\<open>synced\<close>).
\<close>

record ('w, 'r) link =
  winv :: "'w \<Rightarrow> bool"
  reaches :: "'w \<Rightarrow> bool"
  synced :: "'w \<Rightarrow> 'r \<Rightarrow> bool"

text \<open>
  \<open>matched k w w' rd v\<close>: the writer went from \<open>w\<close> to \<open>w'\<close>, and a reader in step with \<open>w\<close> obtains \<open>v\<close>
  by \<open>rd\<close> and is then in step with \<open>w'\<close>.
\<close>

definition matched ::
  "('w, 'r) link \<Rightarrow> 'w \<Rightarrow> 'w \<Rightarrow> ('r \<Rightarrow> ('a \<times> 'r) result) \<Rightarrow> 'a \<Rightarrow> bool" where
  "matched k w w' rd v \<longleftrightarrow>
     winv k w' \<and> (reaches k w' \<longrightarrow> reaches k w) \<and>
     (\<forall>r. reaches k w' \<longrightarrow> synced k w r \<longrightarrow> (\<exists>r'. rd r = Inr (v, r') \<and> synced k w' r'))"

definition unit_op :: "('r \<Rightarrow> 'r result) \<Rightarrow> 'r \<Rightarrow> (unit \<times> 'r) result" where
  "unit_op f r = bind_result (f r) (\<lambda>r. Inr ((), r))"

lemma unit_op_Inr [simp]: "unit_op f r = Inr (u, r') \<longleftrightarrow> f r = Inr r'"
  by (cases "f r") (simp_all add: unit_op_def)

lemma matched_winv: "matched k w w' rd v \<Longrightarrow> winv k w'"
  by (simp add: matched_def)

lemma matched_refl: "winv k w \<Longrightarrow> matched k w w (\<lambda>r. Inr (v, r)) v"
  by (simp add: matched_def)

text \<open>Composition: the reads follow each other as the writes do.\<close>

lemma matched_bind:
  assumes "matched k w w1 rd v" and "matched k w1 w2 (rd' v) v'"
  shows "matched k w w2 (\<lambda>r. bind_result (rd r) (\<lambda>(v, r). rd' v r)) v'"
  unfolding matched_def
proof (intro conjI allI impI)
  fix r assume "reaches k w2" and sync: "synced k w r"
  with assms(2) have "reaches k w1" by (simp add: matched_def)
  with assms(1) sync obtain r1 where "rd r = Inr (v, r1)" "synced k w1 r1" by (auto simp: matched_def)
  with assms(2) \<open>reaches k w2\<close> show "\<exists>r'. bind_result (rd r) (\<lambda>(v, r). rd' v r) = Inr (v', r') \<and> synced k w2 r'"
    by (simp add: matched_def)
qed (use assms in \<open>simp_all add: matched_def\<close>)

lemma matched_read:
  assumes "matched k w w' rd v" and "reaches k w'" and "synced k w r"
  obtains r' where "rd r = Inr (v, r')" and "synced k w' r'"
  using assms by (auto simp: matched_def)

lemma matched_cong:
  assumes "matched k w w' rd v" and "\<And>r r'. rd r = Inr (v, r') \<Longrightarrow> rd' r = Inr (v', r')"
  shows "matched k w w' rd' v'"
  using assms by (fastforce simp: matched_def)

lemma matched_ext: "matched k w w' rd v \<Longrightarrow> (\<And>r. rd' r = rd r) \<Longrightarrow> matched k w w' rd' v"
  by (simp add: matched_def)

locale symbol_channel =
  fixes W :: "'w symbol_writer" and R :: "'r symbol_reader" and k :: "('w, 'r) link"
  assumes bool: "winv k w \<Longrightarrow> sw_write_bool W b w = Inr w' \<Longrightarrow> matched k w w' (sr_read_bool R) b"
    and unsigned: "winv k w \<Longrightarrow> sw_write_unsigned W u w = Inr w' \<Longrightarrow> matched k w w' (sr_read_unsigned R) u"
    and signed: "winv k w \<Longrightarrow> in_int64 v \<Longrightarrow> sw_write_signed W v w = Inr w' \<Longrightarrow>
      matched k w w' (sr_read_signed R) v"
    and signed_at: "winv k w \<Longrightarrow> in_int64 v \<Longrightarrow> sw_write_signed_at W c v w = Inr w' \<Longrightarrow>
      matched k w w' (sr_read_signed_at R c) v"
    and begin_contexts: "winv k w \<Longrightarrow> sw_begin_contexts W n w = Inr w' \<Longrightarrow>
      matched k w w' (unit_op (sr_begin_contexts R n)) ()"
    and end_contexts: "winv k w \<Longrightarrow> sw_end_contexts W w = Inr w' \<Longrightarrow>
      matched k w w' (unit_op (sr_end_contexts R)) ()"
    and set_transition: "synced k w r \<Longrightarrow> \<exists>r'. sr_set_state_transition R t r = Inr r'"
begin

text \<open>A loop of writes is matched by the loop of reads.\<close>

lemma matched_all:
  assumes step: "\<And>x w w'. x \<in> set xs \<Longrightarrow> winv k w \<Longrightarrow> wr x w = Inr w' \<Longrightarrow> matched k w w' (rd x) (val x)"
    and "winv k w" and "fold_result wr xs w = Inr w'"
  shows "matched k w w' (read_all rd xs) (map val xs)"
  using assms
proof (induction xs arbitrary: w)
  case Nil
  then show ?case by (simp add: matched_def)
next
  case (Cons x xs)
  then obtain w1 where w1: "wr x w = Inr w1" "fold_result wr xs w1 = Inr w'" by auto
  then have head: "matched k w w1 (rd x) (val x)" using Cons.prems(1,2) by simp
  have tail: "matched k w1 w' (read_all rd xs) (map val xs)"
    using Cons.prems(1) matched_winv [OF head] w1(2) by (intro Cons.IH) simp_all
  show ?case
  proof (rule matched_cong [OF matched_bind [OF head, where rd' = "\<lambda>v r. bind_result (read_all rd xs r) (\<lambda>(vs, r). Inr (v # vs, r))"]])
    show "matched k w1 w' (\<lambda>r. bind_result (read_all rd xs r) (\<lambda>(vs, r). Inr (val x # vs, r))) (map val (x # xs))"
      by (rule matched_cong [OF tail]) simp
  qed simp
qed

end

end
