(* ===== verification/Range_Roundtrip.thy ===== *)
theory Range_Roundtrip
  imports Range_Decoder Range_Encoder Symbol_Channel
begin

text \<open>
  The range encoder and the range decoder are inverse to each other. The encoder's bytes are the lower
  bound of an interval that every decision narrows; the decoder tracks the distance of the final byte
  string from that lower bound. \<open>contains bs e\<close> says that \<open>bs\<close>, extended by zeros, lies in the
  interval of the encoder state \<open>e\<close>, and \<open>in_sync bs e d\<close> that the decoder \<open>d\<close> reads \<open>bs\<close> at the point
  the encoder has reached in \<open>e\<close>.
\<close>

subsection \<open>Big-endian numbers\<close>

fun be_val :: "bytes \<Rightarrow> nat" where
  "be_val [] = 0"
| "be_val (b # bs) = unat b * 256 ^ length bs + be_val bs"

lemma be_val_append: "be_val (xs @ ys) = be_val xs * 256 ^ length ys + be_val ys"
  by (induction xs) (simp_all add: algebra_simps power_add)

lemma be_val_snoc [simp]: "be_val (xs @ [b]) = be_val xs * 256 + unat b"
  by (simp add: be_val_append)

lemma unat_byte: "unat (b :: u8) < 256"
  using unat_bound [of b] by simp

lemma be_val_bound: "be_val xs < 256 ^ length xs"
proof (induction xs)
  case Nil
  then show ?case by simp
next
  case (Cons b xs)
  have "unat b + 1 \<le> 256" using unat_byte [of b] by simp
  then have "(unat b + 1) * 256 ^ length xs \<le> 256 * 256 ^ length xs" by (rule mult_le_mono1)
  then have "unat b * 256 ^ length xs + 256 ^ length xs \<le> 256 ^ length (b # xs)" by simp
  with Cons show ?case unfolding be_val.simps by linarith
qed

fun prefix_value :: "bytes \<Rightarrow> nat \<Rightarrow> nat" where
  "prefix_value bs 0 = 0"
| "prefix_value bs (Suc k) = prefix_value bs k * 256 + (if k < length bs then unat (bs ! k) else 0)"

lemma prefix_value_take: "k \<le> length bs \<Longrightarrow> prefix_value bs k = be_val (take k bs)"
  by (induction k) (simp_all add: take_Suc_conv_app_nth)

lemma prefix_value_length: "prefix_value bs (length bs) = be_val bs"
  by (simp add: prefix_value_take)

lemma prefix_value_butlast:
  assumes "bs \<noteq> []" and "last bs = 0" and "k \<le> length bs"
  shows "prefix_value (butlast bs) k = prefix_value bs k"
  using assms(3)
proof (induction k)
  case (Suc k)
  have "(if k < length (butlast bs) then unat (butlast bs ! k) else 0) = (if k < length bs then unat (bs ! k) else 0)"
  proof (cases "k = length bs - 1")
    case True
    with assms(1,2) have "bs ! k = 0" by (simp add: last_conv_nth)
    with True show ?thesis by simp
  next
    case False
    with Suc.prems have "k < length (butlast bs)" "k < length bs" by simp_all
    then show ?thesis by (simp add: nth_butlast)
  qed
  with Suc show ?case by simp
qed simp

subsection \<open>Carries\<close>

lemma add_to_low_loop_correct:
  assumes "i \<le> length bs" and "add_to_low_loop i c bs = (c', bs')"
  shows "length bs' = length bs \<and> drop i bs' = drop i bs \<and>
    be_val (take i bs') + unat c' * 256 ^ i = be_val (take i bs) + unat c"
  using assms
proof (induction i c bs arbitrary: c' bs' rule: add_to_low_loop.induct)
  case (1 carry bs)
  then show ?case by simp
next
  case (2 i c bs)
  show ?case
  proof (cases "c = 0")
    case True
    with "2.prems" show ?thesis by simp
  next
    case False
    define sum where "sum = (ucast (bs ! i) + (c AND 0xff) :: u32)"
    define byte where "byte = (ucast (sum AND 0xff) :: u8)"
    have low: "unat (w AND 0xff) = unat w mod 256" for w :: u32
    proof -
      have "w AND 0xff = take_bit 8 w" by (simp add: take_bit_eq_mask mask_eq_exp_minus_1)
      then have "unat (w AND 0xff) = take_bit 8 (unat w)" by (simp only: unsigned_take_bit_eq)
      then show ?thesis by (simp add: take_bit_eq_mod)
    qed
    have sum: "unat sum = unat (bs ! i) + unat c mod 256"
      unfolding sum_def using unat_byte [of "bs ! i"] by (subst unat_add_bounded) (simp_all add: low)
    have byte: "unat byte = unat sum mod 256"
      unfolding byte_def using unat_bound [of "sum AND 0xff"] by (subst unat_ucast_small) (simp_all add: low)
    have "unat c < 2 ^ 32" using unat_bound [of c] by simp
    then have carry: "unat (drop_bit 8 c + drop_bit 8 sum) = unat c div 256 + unat sum div 256"
      using sum unat_byte [of "bs ! i"] by (subst unat_add_bounded) (simp_all add: unat_drop_bit_div)
    from "2.prems"(2) False have rec: "add_to_low_loop i (drop_bit 8 c + drop_bit 8 sum) (bs[i := byte]) = (c', bs')"
      by (simp add: Let_def sum_def byte_def)
    from "2.prems"(1) have i: "i < length bs" by simp
    with "2.IH" [OF False sum_def, folded byte_def, OF _ rec]
    have IH: "length bs' = length bs" "drop i bs' = drop i (bs[i := byte])"
      "be_val (take i bs') + unat c' * 256 ^ i = be_val (take i bs) + (unat c div 256 + unat sum div 256)"
      by (simp_all add: carry)
    have nth: "bs' ! i = byte"
    proof -
      have "drop i bs' ! 0 = drop i (bs[i := byte]) ! 0" by (simp only: IH(2))
      with i IH(1) show ?thesis by simp
    qed
    have "drop (Suc i) bs' = drop (Suc i) bs"
    proof -
      have "drop 1 (drop i bs') = drop 1 (drop i (bs[i := byte]))" by (simp only: IH(2))
      then show ?thesis by simp
    qed
    moreover have "be_val (take (Suc i) bs') = be_val (take i bs') * 256 + unat byte"
      using i IH(1) nth by (simp add: take_Suc_conv_app_nth)
    moreover have "be_val (take (Suc i) bs) = be_val (take i bs) * 256 + unat (bs ! i)"
      using i by (simp add: take_Suc_conv_app_nth)
    moreover have "(be_val (take i bs') + unat c' * 256 ^ i) * 256 + unat byte
        = be_val (take i bs) * 256 + unat (bs ! i) + unat c"
    proof -
      have carry_sum: "(x + (a + s)) * 256 + y = x * 256 + b + c"
        if "a * 256 + m = c" "s * 256 + y = t" "t = b + m" for x a s y b c m t :: nat
        using that by (simp add: algebra_simps)
      show ?thesis unfolding IH(3)
        by (rule carry_sum [where m = "unat c mod 256" and t = "unat sum"]) (simp_all add: byte sum)
    qed
    ultimately show ?thesis using IH(1) by (simp add: algebra_simps)
  qed
qed

lemma add_to_low_correct:
  assumes "add_to_low v bs = Inr bs'"
  shows "length bs' = length bs" and "be_val bs' = be_val bs + unat v"
proof -
  from assms have run: "add_to_low_loop (length bs) v bs = (0, bs')"
    by (simp add: add_to_low_def split: prod.splits if_splits)
  note sum = add_to_low_loop_correct [OF order_refl run]
  then show len: "length bs' = length bs" by simp
  show "be_val bs' = be_val bs + unat v"
    using sum by (simp add: take_all [OF eq_refl [OF len]])
qed

lemma add_to_low_succeeds:
  assumes "be_val bs + unat v < 256 ^ length bs"
  shows "\<exists>bs'. add_to_low v bs = Inr bs'"
proof -
  obtain c bs' where run: "add_to_low_loop (length bs) v bs = (c, bs')" by (cases "add_to_low_loop (length bs) v bs")
  from add_to_low_loop_correct [OF order_refl run] have "be_val bs' + unat c * 256 ^ length bs = be_val bs + unat v"
    by (metis order_refl take_all)
  with assms have "unat c * 256 ^ length bs < 1 * 256 ^ length bs" by linarith
  then have "unat c = 0" by simp
  then have "c = 0" by (simp only: unat_eq_zero)
  with run show ?thesis by (simp add: add_to_low_def)
qed

subsection \<open>The encoder's interval\<close>

definition enc_inv :: "range_encoder \<Rightarrow> bool" where
  "enc_inv e \<longleftrightarrow>
     2 \<le> length (re_low_bytes e) \<and> 256 \<le> unat (re_range e) \<and> unat (re_range e) \<le> 0xff00 \<and>
     be_val (re_low_bytes e) + unat (re_range e) \<le> 0xff00 * 256 ^ (length (re_low_bytes e) - 2)"

definition contains :: "bytes \<Rightarrow> range_encoder \<Rightarrow> bool" where
  "contains bs e \<longleftrightarrow>
     be_val (re_low_bytes e) \<le> prefix_value bs (length (re_low_bytes e)) \<and>
     prefix_value bs (length (re_low_bytes e)) < be_val (re_low_bytes e) + unat (re_range e)"

definition zero_part :: "nat \<Rightarrow> u8 \<Rightarrow> nat" where
  "zero_part r s = r - r * unat s div 256"

definition one_part :: "nat \<Rightarrow> u8 \<Rightarrow> nat" where
  "one_part r s = r * unat s div 256"

lemma one_part_less: "0 < r \<Longrightarrow> one_part r s < r"
proof -
  assume "0 < r"
  have "r * unat s < r * 256" using \<open>0 < r\<close> unat_byte [of s] by simp
  then show ?thesis by (simp add: one_part_def div_less_iff_less_mult)
qed

lemma zero_one_part: "0 < r \<Longrightarrow> zero_part r s + one_part r s = r" "0 < r \<Longrightarrow> 0 < zero_part r s"
  using one_part_less [of r s] by (simp_all add: zero_part_def one_part_def)

lemma range_offset_unat:
  assumes "unat r \<le> 0xff00"
  shows "unat (drop_bit 8 (r * ucast s) :: u32) = one_part (unat r) s"
    and "unat (r - drop_bit 8 (r * ucast s) :: u32) = zero_part (unat r) s"
    and "unat (ucast (drop_bit 8 ((ucast r :: u64) * ucast s)) :: u32) = one_part (unat r) s"
proof -
  have prod: "unat r * unat s \<le> 0xff00 * 255"
    using assms unat_byte [of s] by (intro mult_le_mono) simp_all
  then have p32: "unat (r * ucast s) = unat r * unat s"
    by (subst unat_mult_bounded) simp_all
  then show one: "unat (drop_bit 8 (r * ucast s) :: u32) = one_part (unat r) s"
    by (simp only: unat_drop_bit_div one_part_def) simp
  have "one_part (unat r) s \<le> unat r"
    using one_part_less [of "unat r" s] by (cases "unat r = 0") (simp_all add: one_part_def)
  then show "unat (r - drop_bit 8 (r * ucast s) :: u32) = zero_part (unat r) s"
    by (subst unat_diff_bounded) (simp_all add: one zero_part_def one_part_def)
  have "unat ((ucast r :: u64) * ucast s) = unat r * unat s"
    using prod by (subst unat_mult_bounded) simp_all
  then have p64: "unat (drop_bit 8 ((ucast r :: u64) * ucast s)) = one_part (unat r) s"
    by (simp only: unat_drop_bit_div one_part_def) simp
  have "one_part (unat r) s < 2 ^ 32" using \<open>one_part (unat r) s \<le> unat r\<close> assms by simp
  then show "unat (ucast (drop_bit 8 ((ucast r :: u64) * ucast s)) :: u32) = one_part (unat r) s"
    by (subst unat_ucast_small) (simp_all add: p64)
qed

definition interval_base :: "u8 \<Rightarrow> bool \<Rightarrow> range_encoder \<Rightarrow> nat" where
  "interval_base s v e = (if v then be_val (re_low_bytes e) + zero_part (unat (re_range e)) s else be_val (re_low_bytes e))"

definition interval_width :: "u8 \<Rightarrow> bool \<Rightarrow> range_encoder \<Rightarrow> nat" where
  "interval_width s v e = (if v then one_part (unat (re_range e)) s else zero_part (unat (re_range e)) s)"

definition next_state :: "state_transition_table \<Rightarrow> u8 \<Rightarrow> bool \<Rightarrow> u8" where
  "next_state t s v = (if v then range_one_state t s else range_zero_state t s)"

text \<open>One decision: the interval becomes its zero part or its one part, scaled by 256 if it got small.\<close>

definition same_setting :: "range_encoder \<Rightarrow> range_encoder \<Rightarrow> bool" where
  "same_setting e e' \<longleftrightarrow>
     re_state_transition e' = re_state_transition e \<and> re_contexts e' = re_contexts e \<and>
     re_snapshots e' = re_snapshots e \<and> re_initialized e' = re_initialized e \<and> re_finalized e' = re_finalized e"

lemma same_setting_refl: "same_setting e e"
  by (simp add: same_setting_def)

lemma same_setting_trans: "same_setting e e' \<Longrightarrow> same_setting e' e'' \<Longrightarrow> same_setting e e''"
  by (simp add: same_setting_def)

lemma interval_bounds:
  assumes "enc_inv e"
  shows "interval_base s v e + interval_width s v e \<le> be_val (re_low_bytes e) + unat (re_range e)"
    and "be_val (re_low_bytes e) \<le> interval_base s v e"
    and "interval_width s v e < unat (re_range e) + 1"
  using assms zero_one_part [of "unat (re_range e)" s]
  by (auto simp: enc_inv_def interval_base_def interval_width_def)

lemma write_rac_unfold:
  assumes "enc_inv e"
  shows "write_rac s v e =
    (if interval_width s v e = 0 then Inl (make_error InvalidArgument)
     else if interval_width s v e < 256 \<and> length (re_low_bytes e) = byte_vector_max_size
     then Inl (make_error ResourceExhausted)
     else
       bind_result (if v then add_to_low (re_range e - drop_bit 8 (re_range e * ucast s)) (re_low_bytes e)
                    else Inr (re_low_bytes e)) (\<lambda>low.
         Inr (next_state (re_state_transition e) s v,
           if interval_width s v e < 256
           then e\<lparr>re_range := push_bit 8 (word_of_nat (interval_width s v e)), re_low_bytes := low @ [0]\<rparr>
           else e\<lparr>re_range := word_of_nat (interval_width s v e), re_low_bytes := low\<rparr>)))"
proof -
  have r: "unat (re_range e) \<le> 0xff00" using assms by (simp add: enc_inv_def)
  define w where "w = (if v then drop_bit 8 (re_range e * ucast s) else re_range e - drop_bit 8 (re_range e * ucast s))"
  have w: "unat w = interval_width s v e"
    using range_offset_unat [OF r, of s] by (simp add: w_def interval_width_def)
  then have "w = word_of_nat (interval_width s v e)" by (simp flip: w)
  moreover have "w = 0 \<longleftrightarrow> interval_width s v e = 0" "w < 256 \<longleftrightarrow> interval_width s v e < 256"
    using w by (simp_all add: word_less_nat_alt unat_eq_zero flip: w)
  ultimately show ?thesis
    unfolding write_rac_def Let_def w_def [symmetric] next_state_def
    by (cases v; cases "add_to_low (re_range e - drop_bit 8 (re_range e * ucast s)) (re_low_bytes e)") simp_all
qed

lemma write_rac_correct:
  assumes inv: "enc_inv e" and run: "write_rac s v e = Inr (s', e')"
  shows "enc_inv e'" and "s' = next_state (re_state_transition e) s v" and "same_setting e e'"
    and "interval_width s v e \<noteq> 0"
    and "length (re_low_bytes e') = length (re_low_bytes e) + (if interval_width s v e < 256 then 1 else 0)"
    and "be_val (re_low_bytes e') = interval_base s v e * (if interval_width s v e < 256 then 256 else 1)"
    and "unat (re_range e') = interval_width s v e * (if interval_width s v e < 256 then 256 else 1)"
proof -
  let ?w = "interval_width s v e"
  have r: "unat (re_range e) \<le> 0xff00" "2 \<le> length (re_low_bytes e)" using inv by (simp_all add: enc_inv_def)
  from run obtain low where nz: "?w \<noteq> 0"
    and low: "(if v then add_to_low (re_range e - drop_bit 8 (re_range e * ucast s)) (re_low_bytes e)
               else Inr (re_low_bytes e)) = Inr low"
    and s': "s' = next_state (re_state_transition e) s v"
    and e': "e' = (if ?w < 256 then e\<lparr>re_range := push_bit 8 (word_of_nat ?w), re_low_bytes := low @ [0]\<rparr>
                   else e\<lparr>re_range := word_of_nat ?w, re_low_bytes := low\<rparr>)"
    by (auto simp: write_rac_unfold [OF inv] split: if_splits)
  have base: "be_val low = interval_base s v e" and len: "length low = length (re_low_bytes e)"
    using low add_to_low_correct [of "re_range e - drop_bit 8 (re_range e * ucast s)" "re_low_bytes e" low]
      range_offset_unat(2) [OF r(1), of s]
    by (auto simp: interval_base_def split: if_splits)
  have w16: "?w \<le> 0xff00" using interval_bounds(3) [OF inv, of s v] r by simp
  then have uw: "unat (word_of_nat ?w :: u32) = ?w" by (simp add: unat_of_nat_bounded)
  have upush: "?w < 256 \<Longrightarrow> unat (push_bit 8 (word_of_nat ?w) :: u32) = ?w * 256"
    by (subst unat_push_bit_bounded) (simp_all add: uw)
  show "s' = next_state (re_state_transition e) s v" "?w \<noteq> 0" by (fact s' nz)+
  show "same_setting e e'" by (simp add: e' same_setting_def)
  show n': "length (re_low_bytes e') = length (re_low_bytes e) + (if ?w < 256 then 1 else 0)"
    and b': "be_val (re_low_bytes e') = interval_base s v e * (if ?w < 256 then 256 else 1)"
    and r': "unat (re_range e') = ?w * (if ?w < 256 then 256 else 1)"
    using base len uw upush by (simp_all add: e')
  have bound: "interval_base s v e + ?w \<le> 0xff00 * 256 ^ (length (re_low_bytes e) - 2)"
    using interval_bounds(1) [OF inv, of s v] inv by (simp add: enc_inv_def)
  show "enc_inv e'"
  proof (cases "?w < 256")
    case True
    have "(interval_base s v e + ?w) * 256 \<le> 0xff00 * 256 ^ (length (re_low_bytes e) - 2) * 256"
      using bound by (rule mult_le_mono1)
    also have "\<dots> = 0xff00 * 256 ^ (length (re_low_bytes e') - 2)"
    proof -
      have "length (re_low_bytes e') - 2 = Suc (length (re_low_bytes e) - 2)" using True n' r(2) by simp
      then show ?thesis by simp
    qed
    finally show ?thesis
      using True nz n' b' r' r(2) by (simp add: enc_inv_def algebra_simps)
  next
    case False
    with bound n' b' r' r(2) w16 show ?thesis by (simp add: enc_inv_def)
  qed
qed

lemma write_rac_contains:
  assumes inv: "enc_inv e" and run: "write_rac s v e = Inr (s', e')" and c: "contains bs e'"
  shows "interval_base s v e \<le> prefix_value bs (length (re_low_bytes e))"
    and "prefix_value bs (length (re_low_bytes e)) < interval_base s v e + interval_width s v e"
    and "contains bs e"
proof -
  note step = write_rac_correct [OF inv run]
  let ?p = "prefix_value bs (length (re_low_bytes e))"
  have scale: "x \<le> p \<and> p < x + w" if "x * 256 \<le> p * 256 + b" "p * 256 + b < x * 256 + w * 256" "b < 256"
    for x p b w :: nat
    using that by linarith
  show both: "interval_base s v e \<le> ?p" "?p < interval_base s v e + interval_width s v e"
  proof (atomize (full), cases "interval_width s v e < 256")
    case True
    define b where "b = (if length (re_low_bytes e) < length bs then unat (bs ! length (re_low_bytes e)) else 0)"
    have "b < 256" using unat_byte by (simp add: b_def)
    moreover have "interval_base s v e * 256 \<le> ?p * 256 + b"
        "?p * 256 + b < interval_base s v e * 256 + interval_width s v e * 256"
      using c step True by (simp_all add: contains_def b_def)
    ultimately show "interval_base s v e \<le> ?p \<and> ?p < interval_base s v e + interval_width s v e"
      by (intro scale)
  next
    case False
    with c step show "interval_base s v e \<le> ?p \<and> ?p < interval_base s v e + interval_width s v e"
      by (simp add: contains_def)
  qed
  with interval_bounds(1,2) [OF inv, of s v] show "contains bs e" by (simp add: contains_def)
qed

subsection \<open>The decoder in step with the encoder\<close>

definition in_sync :: "bytes \<Rightarrow> range_encoder \<Rightarrow> range_coder \<Rightarrow> bool" where
  "in_sync bs e d \<longleftrightarrow>
     rc_payload d = bs \<and> rc_initialized d \<and> \<not> rc_legacy_v0_arithmetic d \<and> \<not> rc_legacy_zero_symbol_carry d \<and>
     rc_range d = re_range e \<and>
     unat (rc_low d) + be_val (re_low_bytes e) = prefix_value bs (length (re_low_bytes e)) \<and>
     rc_byte_position d = min (length (re_low_bytes e)) (length bs) \<and>
     (rc_end d \<longleftrightarrow> length bs \<le> length (re_low_bytes e)) \<and>
     rc_state_transition d = re_state_transition e \<and> rc_contexts d = re_contexts e \<and>
     rc_snapshots d = re_snapshots e"

text \<open>What the decoder keeps of its setting while it reads decisions.\<close>

lemma refill_low:
  assumes "unat (rc_low d) < 2 ^ 16" and "unat (rc_range d) < 256"
  shows "unat (push_bit 8 (rc_low d)) = unat (rc_low d) * 256"
    and "unat (push_bit 8 (rc_low d) + ucast (b :: u8)) = unat (rc_low d) * 256 + unat b"
    and "unat (push_bit 8 (rc_range d)) = unat (rc_range d) * 256"
proof -
  show p: "unat (push_bit 8 (rc_low d)) = unat (rc_low d) * 256"
    using assms(1) by (subst unat_push_bit_bounded) simp_all
  show "unat (push_bit 8 (rc_low d) + ucast b) = unat (rc_low d) * 256 + unat b"
    using assms(1) unat_byte [of b] by (subst unat_add_bounded) (simp_all add: p)
  show "unat (push_bit 8 (rc_range d)) = unat (rc_range d) * 256"
    using assms(2) by (subst unat_push_bit_bounded) simp_all
qed

text \<open>
  The state after a decision and before the refill: \<open>n\<close> bytes of \<open>bs\<close> are consumed, the interval
  starts at \<open>base\<close>.
\<close>

definition reads_at :: "bytes \<Rightarrow> nat \<Rightarrow> nat \<Rightarrow> range_coder \<Rightarrow> bool" where
  "reads_at bs n base d \<longleftrightarrow>
     rc_payload d = bs \<and> unat (rc_low d) + base = prefix_value bs n \<and>
     rc_byte_position d = min n (length bs) \<and> (rc_end d \<longleftrightarrow> length bs \<le> n)"

lemma refill_reads_at:
  assumes r: "reads_at bs n base d" and low: "unat (rc_low d) < unat (rc_range d)"
    and w: "unat (rc_range d) \<le> 0xff00"
  shows "unat (rc_range (rc_refill d)) = unat (rc_range d) * (if unat (rc_range d) < 256 then 256 else 1)"
    and "reads_at bs (n + (if unat (rc_range d) < 256 then 1 else 0))
      (base * (if unat (rc_range d) < 256 then 256 else 1)) (rc_refill d)"
proof -
  have small: "rc_range d < 256 \<longleftrightarrow> unat (rc_range d) < 256" by (simp add: word_less_nat_alt)
  have "(unat (rc_range (rc_refill d)) = unat (rc_range d) * (if unat (rc_range d) < 256 then 256 else 1))
    \<and> reads_at bs (n + (if unat (rc_range d) < 256 then 1 else 0))
      (base * (if unat (rc_range d) < 256 then 256 else 1)) (rc_refill d)"
  proof (cases "unat (rc_range d) < 256")
    case False
    with small have "rc_refill d = d" by (simp add: rc_refill_def not_less)
    with False r show ?thesis by simp
  next
    case True
    with small have lt: "\<not> 256 \<le> rc_range d" by (simp add: not_le)
    have low16: "unat (rc_low d) < 2 ^ 16" using low w by simp
    note arith = refill_low [OF low16 True]
    show ?thesis
    proof (cases "rc_end d")
      case ended: True
      with lt have d': "rc_refill d = d\<lparr>rc_range := push_bit 8 (rc_range d), rc_low := push_bit 8 (rc_low d)\<rparr>"
        by (simp add: rc_refill_def Let_def)
      from ended r have "length bs \<le> n" by (simp add: reads_at_def)
      with True r arith ended show ?thesis
        by (simp add: d' reads_at_def)
    next
      case live: False
      with r have n: "n < length bs" by (simp add: reads_at_def not_le)
      with lt live r have d': "rc_refill d = d\<lparr>rc_range := push_bit 8 (rc_range d),
          rc_low := push_bit 8 (rc_low d) + ucast (bs ! n), rc_byte_position := n + 1,
          rc_end := (length bs \<le> n + 1)\<rparr>"
        by (simp add: rc_refill_def Let_def reads_at_def)
      from True r arith n show ?thesis
        by (simp add: d' reads_at_def)
    qed
  qed
  then show "unat (rc_range (rc_refill d)) = unat (rc_range d) * (if unat (rc_range d) < 256 then 256 else 1)"
    "reads_at bs (n + (if unat (rc_range d) < 256 then 1 else 0))
      (base * (if unat (rc_range d) < 256 then 256 else 1)) (rc_refill d)" by simp_all
qed

lemma rc_refill_setting:
  "rc_initialized (rc_refill d) = rc_initialized d" "rc_state_transition (rc_refill d) = rc_state_transition d"
  "rc_contexts (rc_refill d) = rc_contexts d" "rc_snapshots (rc_refill d) = rc_snapshots d"
  "rc_legacy_v0_arithmetic (rc_refill d) = rc_legacy_v0_arithmetic d"
  "rc_legacy_zero_symbol_carry (rc_refill d) = rc_legacy_zero_symbol_carry d"
  by (simp_all add: rc_refill_def Let_def)

text \<open>The decoder's decision without the legacy arithmetic, on numbers.\<close>

lemma read_rac_unfold:
  assumes "rc_initialized d" and "\<not> rc_legacy_v0_arithmetic d" and "unat (rc_range d) \<le> 0xff00"
  shows "\<exists>zero one. unat zero = zero_part (unat (rc_range d)) s \<and> unat one = one_part (unat (rc_range d)) s \<and>
    read_rac s d =
      (if unat (rc_low d) < zero_part (unat (rc_range d)) s
       then Inr (False, next_state (rc_state_transition d) s False, rc_refill (d\<lparr>rc_range := zero\<rparr>))
       else Inr (True, next_state (rc_state_transition d) s True,
              rc_refill (d\<lparr>rc_low := rc_low d - zero, rc_range := one\<rparr>)))"
proof -
  let ?one = "ucast (drop_bit 8 ((ucast (rc_range d) :: u64) * ucast s)) :: u32"
  have one: "unat ?one = one_part (unat (rc_range d)) s" by (rule range_offset_unat(3) [OF assms(3)])
  have same: "?one = drop_bit 8 (rc_range d * ucast s)"
    using one range_offset_unat(1) [OF assms(3), of s] by (simp only: word_unat_eq_iff)
  let ?zero = "rc_range d - ?one"
  have zero: "unat ?zero = zero_part (unat (rc_range d)) s"
    unfolding same by (rule range_offset_unat(2) [OF assms(3)])
  have "rc_low d < ?zero \<longleftrightarrow> unat (rc_low d) < zero_part (unat (rc_range d)) s"
    by (simp only: word_less_nat_alt zero)
  then have "read_rac s d =
      (if unat (rc_low d) < zero_part (unat (rc_range d)) s
       then Inr (False, next_state (rc_state_transition d) s False, rc_refill (d\<lparr>rc_range := ?zero\<rparr>))
       else Inr (True, next_state (rc_state_transition d) s True,
              rc_refill (d\<lparr>rc_low := rc_low d - ?zero, rc_range := ?one\<rparr>)))"
    using assms(1,2) by (simp add: read_rac_def Let_def next_state_def)
  with zero one show ?thesis by blast
qed

lemma read_rac_step:
  assumes inv: "enc_inv e" and run: "write_rac s v e = Inr (s', e')" and c: "contains bs e'"
    and sync: "in_sync bs e d"
  obtains d' where "read_rac s d = Inr (v, s', d')" and "in_sync bs e' d'"
proof -
  note step = write_rac_correct [OF inv run] note place = write_rac_contains [OF inv run c]
  let ?n = "length (re_low_bytes e)" and ?R = "unat (re_range e)" and ?L = "be_val (re_low_bytes e)"
  have R: "?R \<le> 0xff00" "256 \<le> ?R" using inv by (simp_all add: enc_inv_def)
  have d: "rc_initialized d" "\<not> rc_legacy_v0_arithmetic d" "rc_range d = re_range e"
    "unat (rc_low d) + ?L = prefix_value bs ?n" "reads_at bs ?n ?L d"
    using sync by (simp_all add: in_sync_def reads_at_def)
  obtain zero one where zo: "unat zero = zero_part ?R s" "unat one = one_part ?R s"
    and read: "read_rac s d =
      (if unat (rc_low d) < zero_part ?R s
       then Inr (False, next_state (rc_state_transition d) s False, rc_refill (d\<lparr>rc_range := zero\<rparr>))
       else Inr (True, next_state (rc_state_transition d) s True,
              rc_refill (d\<lparr>rc_low := rc_low d - zero, rc_range := one\<rparr>)))"
    using read_rac_unfold [OF d(1,2), of s] R(1) unfolding d(3) by blast
  define d1 where "d1 = (if v then d\<lparr>rc_low := rc_low d - zero, rc_range := one\<rparr> else d\<lparr>rc_range := zero\<rparr>)"
  have branch: "unat (rc_low d) < zero_part ?R s \<longleftrightarrow> \<not> v"
    using place(1,2) d(4) by (auto simp: interval_base_def interval_width_def split: if_splits)
  have t: "rc_state_transition d = re_state_transition e" using sync by (simp add: in_sync_def)
  have res: "read_rac s d = Inr (v, s', rc_refill d1)"
    using read branch step(2) by (cases v) (simp_all add: d1_def t)
  have range1: "unat (rc_range d1) = interval_width s v e"
    using zo by (simp add: d1_def interval_width_def)
  have "v \<Longrightarrow> unat (rc_low d - zero) = unat (rc_low d) - zero_part ?R s"
    using branch zo by (subst unat_diff_bounded) simp_all
  then have at1: "reads_at bs ?n (interval_base s v e) d1"
    using d(5) branch by (cases v) (simp_all add: d1_def reads_at_def interval_base_def)
  then have low1: "unat (rc_low d1) < unat (rc_range d1)"
    using place(2) range1 by (simp add: reads_at_def)
  have w: "unat (rc_range d1) \<le> 0xff00"
    using interval_bounds(3) [OF inv, of s v] R range1 by simp
  note refill = refill_reads_at [OF at1 low1 w, unfolded range1]
  have "rc_range (rc_refill d1) = re_range e'"
    using refill(1) step(7) by (simp only: word_unat_eq_iff)
  moreover have "reads_at bs (length (re_low_bytes e')) (be_val (re_low_bytes e')) (rc_refill d1)"
    using refill(2) by (simp only: step(5,6))
  moreover have "rc_initialized d1" "\<not> rc_legacy_v0_arithmetic d1" "\<not> rc_legacy_zero_symbol_carry d1"
    "rc_state_transition d1 = re_state_transition e" "rc_contexts d1 = re_contexts e" "rc_snapshots d1 = re_snapshots e"
    using sync by (auto simp: d1_def in_sync_def)
  ultimately have "in_sync bs e' (rc_refill d1)"
    using step(3) by (simp add: in_sync_def reads_at_def rc_refill_setting same_setting_def)
  with res that show thesis by blast
qed

subsection \<open>Sequences of decisions\<close>

lemma write_decisions_append:
  "write_decisions (ds @ ds') st e =
     bind_result (write_decisions ds st e) (\<lambda>(st, e). write_decisions ds' st e)"
  by (induction ds st e rule: write_decisions.induct) (auto split: sum.splits)

lemma write_decisions_Cons:
  assumes "write_decisions ((i, v) # ds) st e = Inr (stf, ef)"
  obtains s1 e1 where "write_rac (st ! i) v e = Inr (s1, e1)" and "write_decisions ds (st[i := s1]) e1 = Inr (stf, ef)"
  using assms by (auto split: sum.splits)

lemma write_decisions_correct:
  assumes "enc_inv e" and "write_decisions ds st e = Inr (st', e')"
  shows "enc_inv e' \<and> same_setting e e' \<and> (\<forall>bs. contains bs e' \<longrightarrow> contains bs e)"
  using assms
proof (induction ds arbitrary: st e)
  case Nil
  then show ?case by (simp add: same_setting_refl)
next
  case (Cons dec ds)
  obtain i v where dec: "dec = (i, v)" by (cases dec)
  from Cons.prems(2) [unfolded dec] obtain s1 e1 where w: "write_rac (st ! i) v e = Inr (s1, e1)"
    and ds: "write_decisions ds (st[i := s1]) e1 = Inr (st', e')"
    by (rule write_decisions_Cons)
  note step = write_rac_correct [OF Cons.prems(1) w]
  with Cons.IH [OF step(1) ds] show ?case
    using write_rac_contains(3) [OF Cons.prems(1) w] same_setting_trans [of e e1 e'] by blast
qed

text \<open>
  A decoder that is in step before a decision reads its value and is in step with the encoder in front
  of the remaining decisions.
\<close>

lemma read_decision:
  assumes inv: "enc_inv e" and run: "write_decisions ((i, v) # ds) st e = Inr (stf, ef)"
    and c: "contains bs ef" and sync: "in_sync bs e d"
  obtains st1 e1 d1 where "read_rac_at i st d = Inr (v, st1, d1)" and "write_decisions ds st1 e1 = Inr (stf, ef)"
    and "enc_inv e1" and "in_sync bs e1 d1" and "same_setting e e1"
proof -
  from run obtain s1 e1 where w: "write_rac (st ! i) v e = Inr (s1, e1)"
    and ds: "write_decisions ds (st[i := s1]) e1 = Inr (stf, ef)"
    by (rule write_decisions_Cons)
  note step = write_rac_correct [OF inv w]
  have "contains bs e1" using write_decisions_correct [OF step(1) ds] c by blast
  from read_rac_step [OF inv w this sync] obtain d1 where "read_rac (st ! i) d = Inr (v, s1, d1)" "in_sync bs e1 d1" .
  with that ds step(1,3) show thesis by (simp add: read_rac_at_def)
qed

subsection \<open>The digits of a symbol\<close>

lemma bit_width_loop_correct:
  assumes "unat v < 2 ^ n" and "v \<noteq> 0"
  shows "2 ^ (bit_width_loop n v - 1) \<le> unat v \<and> unat v < 2 ^ bit_width_loop n v \<and> 0 < bit_width_loop n v"
  using assms
proof (induction n v rule: bit_width_loop.induct)
  case (1 v)
  then show ?case by (simp add: unat_eq_zero)
next
  case (2 n v)
  have half: "unat (drop_bit 1 v) = unat v div 2" by (simp only: unat_drop_bit_div) simp
  show ?case
  proof (cases "drop_bit 1 v = 0")
    case True
    then have "unat v div 2 = 0" using half by simp
    moreover have "unat v \<noteq> 0" using "2.prems"(2) by (simp add: unat_eq_zero)
    moreover have "bit_width_loop n (drop_bit 1 v) = 0" using True by (cases n) simp_all
    ultimately show ?thesis using "2.prems"(2) by simp
  next
    case False
    have bounds: "unat v div 2 * 2 \<le> unat v" "unat v < unat v div 2 * 2 + 2" by linarith+
    have "unat (drop_bit 1 v) < 2 ^ n" using "2.prems"(1) half by simp
    from "2.IH" [OF "2.prems"(2) this False] obtain w where
      w: "bit_width_loop n (drop_bit 1 v) = Suc w" "2 ^ w \<le> unat v div 2" "unat v div 2 < 2 * 2 ^ w"
      by (cases "bit_width_loop n (drop_bit 1 v)") (simp_all add: half [simplified])
    then have "2 * 2 ^ w \<le> unat v" "unat v < 2 * (2 * 2 ^ w)" using bounds by linarith+
    then show ?thesis using w(1) "2.prems"(2) by simp
  qed
qed

lemma exponent_digits:
  assumes "m \<noteq> 0" and "m \<le> 2 ^ 63 - 1"
  shows "bit_width m - 1 \<le> 62" and "drop_bit (bit_width m - 1) m = 1"
proof -
  let ?x = "bit_width m - 1"
  have bw: "2 ^ ?x \<le> unat m" "unat m < 2 ^ bit_width m" "0 < bit_width m"
    using bit_width_loop_correct [of m 64] assms(1) unat_bound [of m] by (simp_all add: bit_width_def)
  have "unat m < 2 ^ 63" using assms(2) by (simp add: word_le_nat_alt)
  with bw(1) have "(2 :: nat) ^ ?x < 2 ^ 63" by linarith
  then have "?x < 63" by (simp only: power_strict_increasing_iff)
  then show "?x \<le> 62" by simp
  have "unat m < 2 * 2 ^ ?x" using bw(2,3) by (cases "bit_width m") simp_all
  then have "unat m div 2 ^ ?x = 1" using bw(1)
    by (intro div_nat_eqI) simp_all
  then have "unat (drop_bit ?x m) = unat (1 :: u64)" by (simp only: unat_drop_bit_div) simp
  then show "drop_bit ?x m = 1" by (simp only: word_unat_eq_iff)
qed

lemma read_exponent_correct:
  assumes "k \<le> x" and "x \<le> 62" and "enc_inv e"
    and "write_decisions (map (\<lambda>i. (1 + min i 9, True)) [k..<x] @ [(1 + min x 9, False)] @ ds) st e = Inr (stf, ef)"
    and "contains bs ef" and "in_sync bs e d"
  shows "\<exists>st1 e1 d1. read_exponent k st d = Inr (x, st1, d1) \<and> write_decisions ds st1 e1 = Inr (stf, ef)
    \<and> enc_inv e1 \<and> in_sync bs e1 d1 \<and> same_setting e e1"
  using assms
proof (induction "x - k" arbitrary: k st e d)
  case 0
  then have "k = x" by simp
  with 0 have "write_decisions ((1 + min x 9, False) # ds) st e = Inr (stf, ef)" by simp
  from read_decision [OF "0.prems"(3) this "0.prems"(5,6)] obtain st1 e1 d1 where
    "read_rac_at (1 + min x 9) st d = Inr (False, st1, d1)" "write_decisions ds st1 e1 = Inr (stf, ef)"
    "enc_inv e1" "in_sync bs e1 d1" "same_setting e e1" .
  with \<open>k = x\<close> show ?case by (auto simp: read_exponent.simps [of x st d])
next
  case (Suc n)
  then have k: "k < x" "n = x - Suc k" by simp_all
  then have "write_decisions ((1 + min k 9, True) # map (\<lambda>i. (1 + min i 9, True)) [Suc k..<x] @
      [(1 + min x 9, False)] @ ds) st e = Inr (stf, ef)"
    using Suc.prems(4) by (simp only: upt_conv_Cons list.map append_Cons)
  from read_decision [OF Suc.prems(3) this Suc.prems(5,6)] obtain st1 e1 d1 where
    r: "read_rac_at (1 + min k 9) st d = Inr (True, st1, d1)"
    and rest: "write_decisions (map (\<lambda>i. (1 + min i 9, True)) [Suc k..<x] @ [(1 + min x 9, False)] @ ds) st1 e1 =
        Inr (stf, ef)" "enc_inv e1" "in_sync bs e1 d1" "same_setting e e1" .
  from Suc.hyps(1) [OF k(2) _ Suc.prems(2) rest(2,1) Suc.prems(5) rest(3)] k obtain st2 e2 d2 where
    IH: "read_exponent (Suc k) st1 d1 = Inr (x, st2, d2)" "write_decisions ds st2 e2 = Inr (stf, ef)"
      "enc_inv e2" "in_sync bs e2 d2" "same_setting e1 e2" by auto
  have "read_exponent k st d = Inr (x, st2, d2)"
    using r IH(1) k(1) Suc.prems(2) by (simp add: read_exponent.simps [of k st d])
  with IH same_setting_trans [OF rest(4) IH(5)] show ?case by blast
qed

lemma append_low_bit: "push_bit 1 (drop_bit 1 w) OR (if w AND 1 \<noteq> 0 then 1 else 0) = (w :: u64)"
proof (rule bit_word_eqI)
  fix n assume "n < LENGTH(64)"
  have "bit (if w AND 1 \<noteq> 0 then 1 else 0 :: u64) n \<longleftrightarrow> n = 0 \<and> bit w 0"
    using low_bit [of 0 w] by (simp add: bit_1_iff)
  then show "bit (push_bit 1 (drop_bit 1 w) OR (if w AND 1 \<noteq> 0 then 1 else 0)) n = bit w n"
    using \<open>n < LENGTH(64)\<close>
    by (cases n) (simp_all only: bit_or_iff bit_push_bit_iff bit_drop_bit_eq o_apply, simp_all)
qed

lemma read_magnitude_correct:
  assumes "enc_inv e"
    and "write_decisions (map (\<lambda>b. (22 + min b 9, drop_bit b m AND 1 \<noteq> 0)) (rev [0..<x]) @ ds) st e = Inr (stf, ef)"
    and "contains bs ef" and "in_sync bs e d"
  shows "\<exists>st1 e1 d1. read_magnitude x (drop_bit x m) st d = Inr (m, st1, d1)
    \<and> write_decisions ds st1 e1 = Inr (stf, ef) \<and> enc_inv e1 \<and> in_sync bs e1 d1 \<and> same_setting e e1"
  using assms
proof (induction x arbitrary: st e d)
  case 0
  then show ?case using same_setting_refl by auto
next
  case (Suc x)
  then have "write_decisions ((22 + min x 9, drop_bit x m AND 1 \<noteq> 0) #
      map (\<lambda>b. (22 + min b 9, drop_bit b m AND 1 \<noteq> 0)) (rev [0..<x]) @ ds) st e = Inr (stf, ef)"
    by (simp del: write_decisions.simps)
  from read_decision [OF Suc.prems(1) this Suc.prems(3,4)] obtain st1 e1 d1 where
    r: "read_rac_at (22 + min x 9) st d = Inr (drop_bit x m AND 1 \<noteq> 0, st1, d1)"
    and rest: "write_decisions (map (\<lambda>b. (22 + min b 9, drop_bit b m AND 1 \<noteq> 0)) (rev [0..<x]) @ ds) st1 e1 =
        Inr (stf, ef)" "enc_inv e1" "in_sync bs e1 d1" "same_setting e e1" .
  have digit: "push_bit 1 (drop_bit (Suc x) m) OR (if drop_bit x m AND 1 \<noteq> 0 then 1 else 0) = drop_bit x m"
    using append_low_bit [of "drop_bit x m"] by (simp only: drop_bit_drop_bit plus_1_eq_Suc)
  from Suc.IH [OF rest(2,1) Suc.prems(3) rest(3)] obtain st2 e2 d2 where
    IH: "read_magnitude x (drop_bit x m) st1 d1 = Inr (m, st2, d2)" "write_decisions ds st2 e2 = Inr (stf, ef)"
      "enc_inv e2" "in_sync bs e2 d2" "same_setting e1 e2" by blast
  have "read_magnitude (Suc x) (drop_bit (Suc x) m) st d = Inr (m, st2, d2)"
    using IH(1) by (simp only: read_magnitude.simps r bind_result_Inr prod.case digit)
  with IH same_setting_trans [OF rest(4) IH(5)] show ?case by blast
qed

subsection \<open>Symbols\<close>

definition symbol_value :: "bool \<Rightarrow> u64 \<Rightarrow> bool \<Rightarrow> int" where
  "symbol_value is_signed magnitude negative =
     (if is_signed \<and> negative then - uint magnitude else uint magnitude)"

lemma in_sync_no_carry: "in_sync bs e d \<Longrightarrow> \<not> rc_legacy_zero_symbol_carry d"
  by (simp add: in_sync_def)

lemma read_scalar_correct:
  assumes m: "m \<le> 2 ^ 63 - 1" and inv: "enc_inv e"
    and run: "write_decisions (symbol_decisions is_signed m negative) st e = Inr (stf, ef)"
    and c: "contains bs ef" and sync: "in_sync bs e d"
  obtains df where "read_scalar is_signed st d = Inr (symbol_value is_signed m negative, stf, df)"
    and "in_sync bs ef df"
proof (cases "m = 0")
  case True
  then have "write_decisions ((0, True) # []) st e = Inr (stf, ef)"
    using run by (simp add: symbol_decisions_def)
  from read_decision [OF inv this c sync] obtain st1 e1 d1 where
    "read_rac_at 0 st d = Inr (True, st1, d1)" "write_decisions [] st1 e1 = Inr (stf, ef)"
    "enc_inv e1" "in_sync bs e1 d1" .
  with that [of d1] True in_sync_no_carry [of bs e1 d1] show thesis
    by (simp add: read_scalar_def symbol_value_def)
next
  case False
  define x where "x = bit_width m - 1"
  define tail where "tail = (if is_signed then [(11 + min x 10, negative)] else [])"
  have "write_decisions ((0, False) # map (\<lambda>i. (1 + min i 9, True)) [0..<x] @ [(1 + min x 9, False)] @
      map (\<lambda>b. (22 + min b 9, drop_bit b m AND 1 \<noteq> 0)) (rev [0..<x]) @ tail) st e = Inr (stf, ef)"
    using run False by (simp only: symbol_decisions_def Let_def x_def tail_def if_True simp_thms)
  from read_decision [OF inv this c sync] obtain st1 e1 d1 where
    r1: "read_rac_at 0 st d = Inr (False, st1, d1)"
    and w1: "write_decisions (map (\<lambda>i. (1 + min i 9, True)) [0..<x] @ [(1 + min x 9, False)] @
      map (\<lambda>b. (22 + min b 9, drop_bit b m AND 1 \<noteq> 0)) (rev [0..<x]) @ tail) st1 e1 = Inr (stf, ef)"
      "enc_inv e1" "in_sync bs e1 d1" .
  note x = exponent_digits [OF False m, folded x_def]
  from read_exponent_correct [OF le0 x(1) w1(2,1) c w1(3)] obtain st2 e2 d2 where
    r2: "read_exponent 0 st1 d1 = Inr (x, st2, d2)"
    and w2: "write_decisions (map (\<lambda>b. (22 + min b 9, drop_bit b m AND 1 \<noteq> 0)) (rev [0..<x]) @ tail) st2 e2 =
        Inr (stf, ef)" "enc_inv e2" "in_sync bs e2 d2" by blast
  from read_magnitude_correct [OF w2(2,1) c w2(3)] obtain st3 e3 d3 where
    r3: "read_magnitude x 1 st2 d2 = Inr (m, st3, d3)"
    and w3: "write_decisions tail st3 e3 = Inr (stf, ef)" "enc_inv e3" "in_sync bs e3 d3"
    unfolding x(2) by blast
  have small: "\<not> 2 ^ 63 - 1 < m" using m by (simp add: not_less)
  show thesis
  proof (cases is_signed)
    case False
    then have "stf = st3" "ef = e3" using w3(1) by (simp_all add: tail_def)
    moreover have "read_scalar is_signed st d = Inr (symbol_value is_signed m negative, st3, d3)"
      unfolding read_scalar_def symbol_value_def
      by (simp only: r1 r2 r3 bind_result_Inr prod.case if_False small False simp_thms)
    ultimately show thesis using that w3(3) by simp
  next
    case True
    then have "write_decisions ((11 + min x 10, negative) # []) st3 e3 = Inr (stf, ef)"
      using w3(1) by (simp add: tail_def)
    from read_decision [OF w3(2) this c w3(3)] obtain st4 e4 d4 where
      r4: "read_rac_at (11 + min x 10) st3 d3 = Inr (negative, st4, d4)"
      and w4: "write_decisions [] st4 e4 = Inr (stf, ef)" "in_sync bs e4 d4" .
    have "read_scalar is_signed st d = Inr (symbol_value is_signed m negative, st4, d4)"
      unfolding read_scalar_def symbol_value_def
      by (simp only: r1 r2 r3 r4 bind_result_Inr prod.case if_False if_True small True simp_thms)
    with that w4 show thesis by simp
  qed
qed

lemma re_write_symbol_correct:
  assumes inv: "enc_inv e" and run: "re_write_symbol b c is_signed m negative e = Inr e'"
    and m: "m \<le> 2 ^ 63 - 1"
  shows "enc_inv e'" and "re_finalized e' = re_finalized e" and "contains bs e' \<Longrightarrow> contains bs e"
    and "contains bs e' \<Longrightarrow> in_sync bs e d \<Longrightarrow>
      \<exists>d'. rc_read_symbol b c is_signed d = Inr (symbol_value is_signed m negative, d') \<and> in_sync bs e' d'"
proof -
  let ?st = "context_states b c (re_contexts e)"
  from run obtain stf ef where ctx: "\<not> length (bank_sizes (re_contexts e)) \<le> b"
      "\<not> bank_sizes (re_contexts e) ! b \<le> c"
    and w: "write_decisions (symbol_decisions is_signed m negative) ?st e = Inr (stf, ef)"
    and e': "e' = ef\<lparr>re_contexts := set_context_states b c stf (re_contexts ef)\<rparr>"
    by (auto simp: re_write_symbol_def Let_def split: if_splits)
  note step = write_decisions_correct [OF inv w]
  have c': "contains bs e' \<longleftrightarrow> contains bs ef" for bs by (simp add: e' contains_def)
  show "enc_inv e'" "re_finalized e' = re_finalized e" using step by (simp_all add: e' enc_inv_def same_setting_def)
  show "contains bs e' \<Longrightarrow> contains bs e" using step c' by blast
  assume "contains bs e'" and sync: "in_sync bs e d"
  then have "contains bs ef" by (simp add: c')
  from read_scalar_correct [OF m inv w this sync] obtain df where
    r: "read_scalar is_signed ?st d = Inr (symbol_value is_signed m negative, stf, df)" "in_sync bs ef df" .
  have ctx_d: "rc_contexts d = re_contexts e" "rc_contexts df = re_contexts ef"
    using sync r(2) by (simp_all add: in_sync_def)
  have "rc_read_symbol b c is_signed d =
      Inr (symbol_value is_signed m negative, df\<lparr>rc_contexts := set_context_states b c stf (rc_contexts df)\<rparr>)"
    by (simp only: rc_read_symbol_def ctx_d(1) ctx if_False r(1) bind_result_Inr prod.case)
  moreover have "in_sync bs e' (df\<lparr>rc_contexts := set_context_states b c stf (rc_contexts df)\<rparr>)"
    using r(2) ctx_d(2) by (simp add: in_sync_def e')
  ultimately show "\<exists>d'. rc_read_symbol b c is_signed d = Inr (symbol_value is_signed m negative, d') \<and> in_sync bs e' d'"
    by blast
qed

subsection \<open>The contract of the symbol interfaces\<close>

definition range_link :: "bytes \<Rightarrow> (range_encoder, range_coder) link" where
  "range_link bs = \<lparr>winv = enc_inv, reaches = contains bs, synced = in_sync bs\<rparr>"

lemma range_link_sel [simp]:
  "winv (range_link bs) = enc_inv" "reaches (range_link bs) = contains bs" "synced (range_link bs) = in_sync bs"
  by (simp_all add: range_link_def)

definition range_symbol_writer :: "range_encoder symbol_writer" where
  "range_symbol_writer =
     \<lparr>sw_write_bool = re_write_bool,
      sw_write_unsigned = re_write_unsigned 0 0,
      sw_write_signed = re_write_signed 0 0,
      sw_write_unsigned_at = re_write_unsigned 0,
      sw_write_signed_at = re_write_signed 0,
      sw_begin_contexts = re_begin_independent_scalar_contexts,
      sw_end_contexts = re_end_independent_scalar_contexts\<rparr>"

definition range_symbol_reader :: "range_coder symbol_reader" where
  "range_symbol_reader =
     \<lparr>sr_read_bool = rc_read_bool,
      sr_read_unsigned = rc_read_unsigned 0 0,
      sr_read_signed = rc_read_signed 0 0,
      sr_read_signed_at = rc_read_signed 0,
      sr_begin_contexts = rc_begin_independent_scalar_contexts,
      sr_end_contexts = rc_end_independent_scalar_contexts,
      sr_set_state_transition = rc_set_state_transition,
      sr_byte_position = (\<lambda>rc. word_of_nat (rc_byte_position rc))\<rparr>"

lemma re_write_unsigned_matched:
  assumes "enc_inv e" and "re_write_unsigned b c v e = Inr e'"
  shows "matched (range_link bs) e e' (rc_read_unsigned b c) v"
proof -
  from assms(2) have v: "v \<le> 2 ^ 63 - 1" and w: "re_write_symbol b c False v False e = Inr e'"
    by (auto simp: re_write_unsigned_def not_less split: if_splits)
  note step = re_write_symbol_correct [OF assms(1) w v]
  have "word_of_int (symbol_value False v False) = v" by (simp add: symbol_value_def)
  with step show ?thesis by (fastforce simp: matched_def rc_read_unsigned_def)
qed

lemma re_write_signed_matched:
  assumes "enc_inv e" and "in_int64 v" and "re_write_signed b c v e = Inr e'"
  shows "matched (range_link bs) e e' (rc_read_signed b c) v"
proof -
  let ?m = "word_of_int (if v < 0 then - v else v) :: u64"
  from assms(3) have ne: "v \<noteq> - (2 ^ 63)" and w: "re_write_symbol b c True ?m (v < 0) e = Inr e'"
    by (auto simp: re_write_signed_def Let_def split: if_splits)
  have bound: "0 \<le> (if v < 0 then - v else v)" "(if v < 0 then - v else v) \<le> 2 ^ 63 - 1"
    using assms(2) ne by (auto simp: in_int64_def)
  then have m: "uint ?m = (if v < 0 then - v else v)"
    by (simp add: uint_word_of_int_eq take_bit_int_eq_self)
  with bound(2) have "?m \<le> 2 ^ 63 - 1" by (simp add: word_le_def)
  note step = re_write_symbol_correct [OF assms(1) w this]
  have "symbol_value True ?m (v < 0) = v" unfolding symbol_value_def simp_thms m by simp
  with step show ?thesis by (simp add: matched_def rc_read_signed_def)
qed

lemma re_write_bool_matched:
  assumes inv: "enc_inv e" and run: "re_write_bool v e = Inr e'"
  shows "matched (range_link bs) e e' rc_read_bool v"
proof -
  let ?st = "context_states 0 0 (re_contexts e)"
  from run obtain s e1 where ctx: "\<not> (bank_sizes (re_contexts e) = [] \<or> bank_sizes (re_contexts e) ! 0 = 0)"
    and w: "write_rac (?st ! 0) v e = Inr (s, e1)"
    and e': "e' = e1\<lparr>re_contexts := set_context_states 0 0 (?st[0 := s]) (re_contexts e1)\<rparr>"
    by (auto simp: re_write_bool_def Let_def split: if_splits)
  note step = write_rac_correct [OF inv w]
  have c: "contains bs e' = contains bs e1" by (simp add: contains_def e')
  have "\<exists>r'. rc_read_bool d = Inr (v, r') \<and> in_sync bs e' r'" if "contains bs e'" and sync: "in_sync bs e d" for d
  proof -
    from that c have "contains bs e1" by simp
    from read_rac_step [OF inv w this sync] obtain d1 where d1: "read_rac (?st ! 0) d = Inr (v, s, d1)" "in_sync bs e1 d1" .
    have ctx_d: "rc_contexts d = re_contexts e" "rc_contexts d1 = re_contexts e1"
      using sync d1(2) by (simp_all add: in_sync_def)
    have "rc_read_bool d = Inr (v, d1\<lparr>rc_contexts := set_context_states 0 0 (?st[0 := s]) (rc_contexts d1)\<rparr>)"
      unfolding rc_read_bool_def read_rac_at_def ctx_d(1)
      by (simp only: ctx if_False d1(1) bind_result_Inr prod.case)
    moreover have "in_sync bs e' (d1\<lparr>rc_contexts := set_context_states 0 0 (?st[0 := s]) (rc_contexts d1)\<rparr>)"
      using d1(2) ctx_d(2) by (simp add: in_sync_def e')
    ultimately show ?thesis by blast
  qed
  moreover have "enc_inv e'" using step(1) by (simp add: e' enc_inv_def)
  moreover have "contains bs e' \<longrightarrow> contains bs e" using c write_rac_contains(3) [OF inv w] by blast
  ultimately show ?thesis by (simp add: matched_def)
qed

lemma re_write_termination_sentinel_matched:
  assumes inv: "enc_inv e" and run: "re_write_termination_sentinel e = Inr e'"
  shows "matched (range_link bs) e e' (unit_op rc_read_termination_sentinel) ()"
proof -
  from run obtain s where w: "write_rac 129 False e = Inr (s, e')"
    by (auto simp: re_write_termination_sentinel_def)
  have "\<exists>r'. rc_read_termination_sentinel d = Inr r' \<and> in_sync bs e' r'"
    if "contains bs e'" and sync: "in_sync bs e d" for d
  proof -
    from read_rac_step [OF inv w that] obtain d' where "read_rac 129 d = Inr (False, s, d')" "in_sync bs e' d'" .
    then have "rc_read_termination_sentinel d = Inr d'" by (simp add: rc_read_termination_sentinel_def)
    with \<open>in_sync bs e' d'\<close> show ?thesis by blast
  qed
  then show ?thesis
    using write_rac_correct(1) [OF inv w] write_rac_contains(3) [OF inv w] by (simp add: matched_def)
qed

text \<open>The operations on the contexts leave the interval alone.\<close>

lemma same_interval:
  assumes "re_low_bytes e' = re_low_bytes e" and "re_range e' = re_range e"
  shows "enc_inv e' = enc_inv e" and "contains bs e' = contains bs e"
  using assms by (simp_all add: enc_inv_def contains_def)

lemma re_usable_Inr: "re_usable e = Inr u \<longleftrightarrow> re_initialized e \<and> \<not> re_finalized e"
  by (simp add: re_usable_def)

lemma re_begin_matched:
  assumes "enc_inv e" and "re_begin_independent_scalar_contexts n e = Inr e'"
  shows "matched (range_link bs) e e' (unit_op (rc_begin_independent_scalar_contexts n)) ()"
proof -
  from assms(2) obtain cs where cs: "initialize_contexts [n] [] kDefaultInitialState = Inr cs"
    and e': "e' = e\<lparr>re_snapshots := re_contexts e # re_snapshots e, re_contexts := cs\<rparr>"
    by (auto simp: re_begin_independent_scalar_contexts_def initialize_encoder_contexts_eq)
  have "re_low_bytes e' = re_low_bytes e" "re_range e' = re_range e" by (simp_all add: e')
  note same = same_interval [OF this]
  have "\<exists>d'. rc_begin_independent_scalar_contexts n d = Inr d' \<and> in_sync bs e' d'" if "in_sync bs e d" for d
    using that cs by (simp add: rc_begin_independent_scalar_contexts_def in_sync_def e')
  with same assms(1) show ?thesis by (simp add: matched_def)
qed

lemma re_end_matched:
  assumes "enc_inv e" and "re_end_independent_scalar_contexts e = Inr e'"
  shows "matched (range_link bs) e e' (unit_op rc_end_independent_scalar_contexts) ()"
proof -
  from assms(2) obtain cs rest where cs: "re_snapshots e = cs # rest"
    and e': "e' = e\<lparr>re_contexts := cs, re_snapshots := rest\<rparr>"
    by (auto simp: re_end_independent_scalar_contexts_def split: list.splits)
  have "re_low_bytes e' = re_low_bytes e" "re_range e' = re_range e" by (simp_all add: e')
  note same = same_interval [OF this]
  have "\<exists>d'. rc_end_independent_scalar_contexts d = Inr d' \<and> in_sync bs e' d'" if "in_sync bs e d" for d
    using that cs by (simp add: rc_end_independent_scalar_contexts_def in_sync_def e')
  with same assms(1) show ?thesis by (simp add: matched_def)
qed

lemma re_reconfigure_matched:
  assumes "enc_inv e" and "re_reconfigure_contexts counts banks e = Inr e'"
  shows "matched (range_link bs) e e' (unit_op (rc_reconfigure_contexts counts banks)) ()"
proof -
  from assms(2) obtain cs where cs: "initialize_contexts counts banks kDefaultInitialState = Inr cs"
    and e': "e' = e\<lparr>re_contexts := cs\<rparr>"
    by (auto simp: re_reconfigure_contexts_def initialize_encoder_contexts_eq)
  have "re_low_bytes e' = re_low_bytes e" "re_range e' = re_range e" by (simp_all add: e')
  note same = same_interval [OF this]
  have "\<exists>d'. rc_reconfigure_contexts counts banks d = Inr d' \<and> in_sync bs e' d'" if "in_sync bs e d" for d
    using that cs by (simp add: rc_reconfigure_contexts_def in_sync_def e')
  with same assms(1) show ?thesis by (simp add: matched_def)
qed

interpretation range_io: symbol_channel range_symbol_writer range_symbol_reader "range_link bs" for bs
proof
  show "\<exists>r'. sr_set_state_transition range_symbol_reader t r = Inr r'" if "synced (range_link bs) w r" for w r t
    using that by (simp add: range_symbol_reader_def rc_set_state_transition_def in_sync_def)
qed (simp_all add: range_symbol_writer_def range_symbol_reader_def re_write_bool_matched
    re_write_unsigned_matched re_write_signed_matched re_begin_matched re_end_matched)

subsection \<open>Start and end of a stream\<close>

lemma re_reset_impl_correct:
  assumes "re_reset_impl counts banks init table = Inr e"
  shows "enc_inv e" and "\<not> re_finalized e"
    and "contains bs e \<Longrightarrow> 2 \<le> length bs \<Longrightarrow>
      \<exists>d. rc_reset_impl bs counts banks init table new_range_coder = Inr d \<and> in_sync bs e d"
proof -
  from assms obtain cs where cs: "initialize_contexts counts banks init = Inr cs"
    and e: "e = new_range_encoder\<lparr>re_contexts := cs, re_low_bytes := [0, 0], re_range := 0xff00,
              re_state_transition := table, re_initialized := True\<rparr>"
    by (auto simp: re_reset_impl_def initialize_encoder_contexts_eq)
  show "enc_inv e" by (simp add: e enc_inv_def)
  show "\<not> re_finalized e" by (simp add: e new_range_encoder_def)
  assume c: "contains bs e" and len: "2 \<le> length bs"
  let ?low = "push_bit 8 (ucast (bs ! 0) :: u32) OR ucast (bs ! 1)"
  have low: "unat ?low = unat (bs ! 0) * 256 + unat (bs ! 1)"
  proof -
    have hi: "unat (push_bit 8 (ucast (bs ! 0)) :: u32) = unat (bs ! 0) * 256"
      using unat_byte [of "bs ! 0"] by (subst unat_push_bit_bounded) simp_all
    have "push_bit 8 (ucast (bs ! 0) :: u32) AND ucast (bs ! 1) = 0"
      by (rule bit_word_eqI)
        (auto simp: bit_and_iff bit_push_bit_iff bit_ucast_iff dest: bit_imp_le_length)
    then have "?low = push_bit 8 (ucast (bs ! 0) :: u32) + ucast (bs ! 1)"
      by (simp only: disjunctive_add_eq_or)
    then show ?thesis
      using hi unat_byte [of "bs ! 0"] unat_byte [of "bs ! 1"] by (simp only:) (subst unat_add_bounded; simp)
  qed
  have pre: "prefix_value bs 2 = unat ?low"
    using len unfolding low by (auto simp: numeral_2_eq_2)
  have sel: "length (re_low_bytes e) = 2" "be_val (re_low_bytes e) = 0" "unat (re_range e) = 0xff00"
    "re_range e = 0xff00" "re_state_transition e = table" "re_contexts e = cs" "re_snapshots e = []"
    by (simp_all add: e new_range_encoder_def)
  with c have "prefix_value bs 2 < 0xff00" by (simp only: contains_def add_0)
  then have "unat ?low < 0xff00" by (simp only: pre)
  then have nle: "\<not> 0xff00 \<le> ?low" by (simp add: word_le_nat_alt)
  let ?d = "new_range_coder\<lparr>rc_contexts := cs, rc_payload := bs, rc_range := 0xff00, rc_low := ?low,
      rc_byte_position := 2, rc_end := (length bs \<le> 2), rc_state_transition := table, rc_initialized := True\<rparr>"
  have "rc_reset_impl bs counts banks init table new_range_coder = Inr ?d"
    using len nle by (simp add: rc_reset_impl_def cs Let_def not_less)
  moreover have "in_sync bs e ?d"
    using len pre by (simp add: in_sync_def sel new_range_coder_def)
  ultimately show "\<exists>d. rc_reset_impl bs counts banks init table new_range_coder = Inr d \<and> in_sync bs e d"
    by blast
qed

lemma align_delta_less: "d < r \<Longrightarrow> align_delta r t d < r"
  by (induction r t d rule: align_delta.induct) (simp add: align_delta.simps)

lemma align_delta_bounds:
  "d \<le> align_delta r t d" "align_delta r t d \<le> max d t"
  by (induction r t d rule: align_delta.induct; subst align_delta.simps; force)+

lemma closing_delta_less: "0 < r \<Longrightarrow> closing_delta b r < r"
  using align_delta_less [of "(256 - b) mod 256" r "r div 2"] by (auto simp: closing_delta_def Let_def)

text \<open>
  The subtraction \<open>target - aligned_delta\<close> of \<open>finalize_impl\<close> is evaluated only when it does not wrap.
\<close>

lemma closing_delta_no_wrap:
  assumes "b < 256" and "align_delta r (r div 2) ((256 - b) mod 256) + 256 < r"
  shows "align_delta r (r div 2) ((256 - b) mod 256) \<le> r div 2"
    and "r div 2 < align_delta r (r div 2) ((256 - b) mod 256) + 256"
proof -
  define d where "d = (256 - b) mod 256"
  have "d < 256" by (simp add: d_def)
  with assms(2) align_delta_bounds(1) [of d r "r div 2"] align_delta_bounds(2) [of r "r div 2" d]
  show "align_delta r (r div 2) ((256 - b) mod 256) \<le> r div 2" unfolding d_def [symmetric]
    by (cases "d \<le> r div 2") (simp_all add: max_def)
  have stop: "\<not> (align_delta r t x + 256 < r \<and> align_delta r t x + 256 \<le> t)" for t x
  proof (induction r t x rule: align_delta.induct)
    case (1 r t x)
    then show ?case by (subst (1 2) align_delta.simps) auto
  qed
  from stop [of "r div 2" d] assms(2) show "r div 2 < align_delta r (r div 2) ((256 - b) mod 256) + 256"
    unfolding d_def [symmetric] by simp
qed

text \<open>The bytes of either finalisation lie in the final interval.\<close>

lemma re_finalize_correct:
  assumes inv: "enc_inv e" and run: "re_finalize_impl close e = Inr (bs, e')"
  shows "contains bs e" and "2 \<le> length bs"
proof -
  let ?L = "re_low_bytes e"
  have e: "2 \<le> length ?L" "256 \<le> unat (re_range e)" "unat (re_range e) \<le> 0xff00" using inv by (simp_all add: enc_inv_def)
  define delta where "delta = (if close
      then closing_delta (if ?L = [] then 0 else unat (last ?L)) (unat (re_range e)) else 0)"
  have delta: "delta < unat (re_range e)" using e closing_delta_less by (simp add: delta_def)
  from run obtain v where v: "length v = length ?L" "be_val v = be_val ?L + delta"
    and bs: "bs = (if close \<and> 2 < length v \<and> last v = 0 then butlast v else v)"
  proof (cases close)
    case True
    with run obtain v where v: "add_to_low (word_of_nat delta) ?L = Inr v"
      and bs: "bs = (if close \<and> 2 < length v \<and> last v = 0 then butlast v else v)"
      by (auto simp: re_finalize_impl_def Let_def delta_def)
    have "unat (word_of_nat delta :: u32) = delta" using delta e by (simp add: unat_of_nat_bounded)
    with add_to_low_correct [OF v] that bs show thesis by simp
  next
    case False
    with run have "bs = ?L" by (simp add: re_finalize_impl_def Let_def)
    with False show thesis by (intro that [of ?L]) (simp_all add: delta_def)
  qed
  have "prefix_value bs (length ?L) = be_val v"
  proof (cases "close \<and> 2 < length v \<and> last v = 0")
    case True
    then have "prefix_value bs (length v) = prefix_value v (length v)"
      using bs by (simp, intro prefix_value_butlast) auto
    then show ?thesis using prefix_value_length [of v] v(1) by simp
  next
    case False
    then have "bs = v" unfolding bs by (simp only: if_False)
    then show ?thesis using v(1) prefix_value_length [of v] by simp
  qed
  then show "contains bs e" using v(2) delta by (simp add: contains_def)
  show "2 \<le> length bs" unfolding bs using v(1) e(1) by auto
qed

end
