(* ===== verification/Range_Properties.thy ===== *)
theory Range_Properties
  imports Range_Roundtrip
begin

text \<open>
  What the range coder guarantees: any sequence of operations is decoded as it was encoded, the
  encoder's prevalidation is complete, encoding with the default transition table cannot fail, and the
  decoder's arithmetic stays in its bounds on every input.
\<close>

subsection \<open>Sequences of operations\<close>

datatype range_op =
    Bool_op bool
  | Unsigned_op nat nat u64
  | Signed_op nat nat int
  | Sentinel_op
  | Begin_op nat
  | End_op
  | Reconfigure_op "nat list" context_state_banks

fun write_op :: "range_op \<Rightarrow> range_encoder \<Rightarrow> range_encoder result" where
  "write_op (Bool_op v) e = re_write_bool v e"
| "write_op (Unsigned_op b c v) e = re_write_unsigned b c v e"
| "write_op (Signed_op b c v) e = re_write_signed b c v e"
| "write_op Sentinel_op e = re_write_termination_sentinel e"
| "write_op (Begin_op n) e = re_begin_independent_scalar_contexts n e"
| "write_op End_op e = re_end_independent_scalar_contexts e"
| "write_op (Reconfigure_op counts banks) e = re_reconfigure_contexts counts banks e"

text \<open>The reading side uses the kind and the context of the operation, never the value.\<close>

fun read_op :: "range_op \<Rightarrow> range_coder \<Rightarrow> (range_op \<times> range_coder) result" where
  "read_op (Bool_op _) d = bind_result (rc_read_bool d) (\<lambda>(v, d). Inr (Bool_op v, d))"
| "read_op (Unsigned_op b c _) d = bind_result (rc_read_unsigned b c d) (\<lambda>(v, d). Inr (Unsigned_op b c v, d))"
| "read_op (Signed_op b c _) d = bind_result (rc_read_signed b c d) (\<lambda>(v, d). Inr (Signed_op b c v, d))"
| "read_op Sentinel_op d = bind_result (rc_read_termination_sentinel d) (\<lambda>d. Inr (Sentinel_op, d))"
| "read_op (Begin_op n) d = bind_result (rc_begin_independent_scalar_contexts n d) (\<lambda>d. Inr (Begin_op n, d))"
| "read_op End_op d = bind_result (rc_end_independent_scalar_contexts d) (\<lambda>d. Inr (End_op, d))"
| "read_op (Reconfigure_op counts banks) d =
     bind_result (rc_reconfigure_contexts counts banks d) (\<lambda>d. Inr (Reconfigure_op counts banks, d))"

definition int64_op :: "range_op \<Rightarrow> bool" where
  "int64_op x \<longleftrightarrow> (case x of Signed_op _ _ v \<Rightarrow> in_int64 v | _ \<Rightarrow> True)"

lemma write_op_matched:
  assumes "int64_op x" and "enc_inv e" and "write_op x e = Inr e'"
  shows "matched (range_link bs) e e' (read_op x) x"
proof (cases x)
  case (Bool_op v)
  with assms show ?thesis by (auto intro: matched_cong [OF re_write_bool_matched])
next
  case (Unsigned_op b c v)
  with assms show ?thesis by (auto intro: matched_cong [OF re_write_unsigned_matched])
next
  case (Signed_op b c v)
  with assms show ?thesis by (auto simp: int64_op_def intro: matched_cong [OF re_write_signed_matched])
next
  case Sentinel_op
  with assms show ?thesis by (auto intro: matched_cong [OF re_write_termination_sentinel_matched])
next
  case (Begin_op n)
  with assms show ?thesis by (auto intro: matched_cong [OF re_begin_matched])
next
  case End_op
  with assms show ?thesis by (auto intro: matched_cong [OF re_end_matched])
next
  case (Reconfigure_op counts banks)
  with assms show ?thesis by (auto intro: matched_cong [OF re_reconfigure_matched])
qed

subsection \<open>The encoder's prevalidation\<close>

lemma write_rac_succeeds:
  assumes inv: "enc_inv e" and w: "interval_width s v e \<noteq> 0"
    and room: "interval_width s v e < 256 \<Longrightarrow> length (re_low_bytes e) \<noteq> byte_vector_max_size"
  obtains s' e' where "write_rac s v e = Inr (s', e')"
proof -
  let ?L = "re_low_bytes e" and ?z = "re_range e - drop_bit 8 (re_range e * ucast s)"
  have "unat (re_range e) \<le> 0xff00" "0 < unat (re_range e)" using inv by (simp_all add: enc_inv_def)
  then have "unat ?z = zero_part (unat (re_range e)) s" "zero_part (unat (re_range e)) s \<le> unat (re_range e)"
    using range_offset_unat(2) zero_one_part(1) [of "unat (re_range e)" s] by simp_all
  moreover have "be_val ?L + unat (re_range e) \<le> 0xff00 * 256 ^ (length ?L - 2)" "2 \<le> length ?L"
    using inv by (simp_all add: enc_inv_def)
  moreover have "0xff00 * 256 ^ (length ?L - 2) < (256 :: nat) ^ length ?L"
  proof -
    have "(256 :: nat) ^ length ?L = 256 ^ 2 * 256 ^ (length ?L - 2)"
      using \<open>2 \<le> length ?L\<close> by (metis power_add le_add_diff_inverse)
    then show ?thesis by simp
  qed
  ultimately have "\<exists>low. add_to_low ?z ?L = Inr low" by (intro add_to_low_succeeds) linarith
  then have "\<exists>x. write_rac s v e = Inr x"
    using w room by (cases v) (auto simp: write_rac_unfold [OF inv])
  with that show thesis by auto
qed

lemma trial_symbol_step:
  assumes "enc_inv e" and t: "re_state_transition e = table"
  shows "trial_symbol table ((i, v) # ds) st (re_range e) n =
    (let w = interval_width (st ! i) v e; st' = st[i := next_state table (st ! i) v] in
     if w = 0 then Inl (make_error InvalidArgument)
     else if w < 256 then trial_symbol table ds st' (push_bit 8 (word_of_nat w)) (n + 1)
     else trial_symbol table ds st' (word_of_nat w) n)"
proof -
  have r: "unat (re_range e) \<le> 0xff00" using assms(1) by (simp add: enc_inv_def)
  define w where "w = (if v then drop_bit 8 (re_range e * ucast (st ! i))
      else re_range e - drop_bit 8 (re_range e * ucast (st ! i)))"
  have w: "unat w = interval_width (st ! i) v e"
    using range_offset_unat [OF r, of "st ! i"] by (simp add: w_def interval_width_def)
  then have "w = word_of_nat (interval_width (st ! i) v e)" by (simp flip: w)
  moreover have "w = 0 \<longleftrightarrow> interval_width (st ! i) v e = 0" "w < 256 \<longleftrightarrow> interval_width (st ! i) v e < 256"
    using w by (simp_all add: word_less_nat_alt unat_eq_zero flip: w)
  ultimately show ?thesis
    by (simp only: trial_symbol.simps Let_def w_def [symmetric] next_state_def)
qed

lemma trial_symbol_mono: "trial_symbol table ds st r n = Inr m \<Longrightarrow> n \<le> m"
  by (induction table ds st r n rule: trial_symbol.induct) (force simp: Let_def split: if_splits)+

lemma write_decisions_succeeds:
  assumes "enc_inv e" and "trial_symbol (re_state_transition e) ds st (re_range e) n = Inr m"
    and "m - n \<le> byte_vector_max_size - length (re_low_bytes e)"
  shows "\<exists>stf ef. write_decisions ds st e = Inr (stf, ef) \<and> length (re_low_bytes ef) = length (re_low_bytes e) + (m - n)"
  using assms
proof (induction ds arbitrary: st e n)
  case Nil
  then show ?case by simp
next
  case (Cons dec ds)
  obtain i v where dec: "dec = (i, v)" by (cases dec)
  define w where "w = interval_width (st ! i) v e"
  let ?n = "n + (if w < 256 then 1 else 0)" and ?st = "st[i := next_state (re_state_transition e) (st ! i) v]"
  have w: "w \<noteq> 0" and rest: "trial_symbol (re_state_transition e) ds ?st
      (if w < 256 then push_bit 8 (word_of_nat w) else word_of_nat w) ?n = Inr m"
    using Cons.prems(2) unfolding dec trial_symbol_step [OF Cons.prems(1) refl] Let_def w_def
    by (simp_all split: if_splits)
  from trial_symbol_mono [OF rest] have m: "?n \<le> m" .
  have room: "interval_width (st ! i) v e < 256 \<Longrightarrow> length (re_low_bytes e) \<noteq> byte_vector_max_size"
    using m Cons.prems(3) by (simp add: w_def)
  obtain s1 e1 where w1: "write_rac (st ! i) v e = Inr (s1, e1)"
    using write_rac_succeeds [OF Cons.prems(1) _ room] w unfolding w_def by blast
  note step = write_rac_correct [OF Cons.prems(1) w1, folded w_def]
  have "unat (re_range e1) = unat (if w < 256 then push_bit 8 (word_of_nat w) else word_of_nat w :: u32)"
  proof -
    have "w \<le> 0xff00" using interval_bounds(3) [OF Cons.prems(1), of "st ! i" v] Cons.prems(1)
      by (simp add: w_def enc_inv_def)
    then have uw: "unat (word_of_nat w :: u32) = w" by (simp add: unat_of_nat_bounded)
    have "w < 256 \<Longrightarrow> unat (push_bit 8 (word_of_nat w) :: u32) = w * 256"
      by (subst unat_push_bit_bounded) (simp_all add: uw)
    with step(7) uw show ?thesis by simp
  qed
  then have "re_range e1 = (if w < 256 then push_bit 8 (word_of_nat w) else word_of_nat w)"
    by (simp only: word_unat_eq_iff)
  moreover have "re_state_transition e1 = re_state_transition e" using step(3) by (simp add: same_setting_def)
  ultimately have "trial_symbol (re_state_transition e1) ds ?st (re_range e1) ?n = Inr m" using rest by simp
  moreover have "length (re_low_bytes e1) + (m - ?n) = length (re_low_bytes e) + (m - n)"
    using step(5) m by (simp split: if_splits)
  moreover have "m - ?n \<le> byte_vector_max_size - length (re_low_bytes e1)"
    using step(5) m Cons.prems(3) by (simp split: if_splits)
  ultimately obtain stf ef where "write_decisions ds ?st e1 = Inr (stf, ef)"
      "length (re_low_bytes ef) = length (re_low_bytes e) + (m - n)"
    using Cons.IH [OF step(1), of ?st ?n] by auto
  then show ?case by (simp add: dec w1 step(2))
qed

text \<open>
  C22: the encoder's prevalidation is complete. Once the trial pass over a symbol's decisions has
  succeeded, no decision fails while it is committed, so \<open>write_symbol\<close> never reports the internal
  error of a half-written symbol, whatever the transition table and the adaptive states are.
\<close>

theorem write_symbol_no_internal_error:
  assumes "enc_inv e" and "re_write_symbol b c is_signed magnitude negative e = Inl err"
  shows "st_code err \<in> {InvalidArgument, ResourceExhausted}"
proof -
  let ?st = "context_states b c (re_contexts e)" and ?ds = "symbol_decisions is_signed magnitude negative"
  have trial: "st_code e' = InvalidArgument" if "trial_symbol table ds st r n = Inl e'" for table ds st r n e'
    using that by (induction table ds st r n rule: trial_symbol.induct) (auto simp: Let_def split: if_splits)
  from assms(2) consider "st_code err = InvalidArgument"
    | m where "trial_symbol (re_state_transition e) ?ds ?st (re_range e) 0 = Inr m"
        "byte_vector_max_size - length (re_low_bytes e) < m" "err = make_error ResourceExhausted"
    | m where "trial_symbol (re_state_transition e) ?ds ?st (re_range e) 0 = Inr m"
        "\<not> byte_vector_max_size - length (re_low_bytes e) < m" "write_decisions ?ds ?st e = Inl err"
    by (auto simp: re_write_symbol_def Let_def bind_result_eq_Inl dest: trial split: if_splits)
  then show ?thesis
  proof cases
    case (3 m)
    with write_decisions_succeeds [OF assms(1), of ?ds ?st 0 m] show ?thesis by auto
  qed simp_all
qed

subsection \<open>Live states never block the encoder\<close>

definition live_states :: "scalar_context_states \<Rightarrow> bool" where
  "live_states st \<longleftrightarrow> length st = kScalarContextSize \<and> (\<forall>s \<in> set st. live_state s)"

lemma live_states_update:
  assumes "live_states st" and "i < kScalarContextSize"
  shows "live_state (st ! i)" and "live_states (st[i := next_state kDefaultStateTransition (st ! i) v])"
proof -
  show s: "live_state (st ! i)" using assms by (simp add: live_states_def)
  then have "live_state (next_state kDefaultStateTransition (st ! i) v)"
    by (simp add: next_state_def live_one_state live_zero_state)
  with assms(1) show "live_states (st[i := next_state kDefaultStateTransition (st ! i) v])"
    using set_update_subset_insert [of st i] by (auto simp: live_states_def)
qed

lemma live_width:
  assumes "enc_inv e" and "live_state s"
  shows "interval_width s v e \<noteq> 0"
proof -
  have r: "256 \<le> unat (re_range e)" using assms(1) by (simp add: enc_inv_def)
  moreover have s: "8 \<le> unat s" using assms(2) by (simp add: live_state_def word_le_nat_alt)
  ultimately have "256 * 8 \<le> unat (re_range e) * unat s" by (intro mult_le_mono)
  then have "0 < one_part (unat (re_range e)) s" by (simp add: one_part_def)
  moreover have "0 < zero_part (unat (re_range e)) s" using r by (intro zero_one_part(2)) simp
  ultimately show ?thesis by (simp add: interval_width_def)
qed

lemma write_decisions_live:
  assumes "enc_inv e" and "re_state_transition e = kDefaultStateTransition" and "live_states st"
    and "\<forall>(i, v) \<in> set ds. i < kScalarContextSize"
    and "length (re_low_bytes e) + length ds \<le> byte_vector_max_size"
  shows "\<exists>m stf ef. trial_symbol kDefaultStateTransition ds st (re_range e) n = Inr m \<and> m \<le> n + length ds
    \<and> write_decisions ds st e = Inr (stf, ef) \<and> live_states stf
    \<and> length (re_low_bytes ef) \<le> length (re_low_bytes e) + length ds"
  using assms
proof (induction ds arbitrary: st e n)
  case Nil
  then show ?case by simp
next
  case (Cons dec ds)
  obtain i v where dec: "dec = (i, v)" by (cases dec)
  define w where "w = interval_width (st ! i) v e"
  have i: "i < kScalarContextSize" using Cons.prems(4) by (simp add: dec)
  note live = live_states_update [OF Cons.prems(3) i]
  have w: "w \<noteq> 0" unfolding w_def using Cons.prems(1) live(1) by (rule live_width)
  then obtain s1 e1 where w1: "write_rac (st ! i) v e = Inr (s1, e1)"
    using write_rac_succeeds [OF Cons.prems(1), of "st ! i" v] Cons.prems(5) unfolding w_def by auto
  note step = write_rac_correct [OF Cons.prems(1) w1, folded w_def]
  have range1: "re_range e1 = (if w < 256 then push_bit 8 (word_of_nat w) else word_of_nat w)"
    using w1 unfolding write_rac_unfold [OF Cons.prems(1)] w_def [symmetric]
    by (cases "w < 256") (auto split: if_splits)
  have t1: "re_state_transition e1 = kDefaultStateTransition"
    using step(3) Cons.prems(2) by (simp add: same_setting_def)
  let ?st = "st[i := s1]" and ?n = "n + (if w < 256 then 1 else 0)"
  have s1: "s1 = next_state kDefaultStateTransition (st ! i) v" using step(2) Cons.prems(2) by simp
  have "length (re_low_bytes e1) + length ds \<le> byte_vector_max_size" using step(5) Cons.prems(5) by simp
  with Cons.IH [OF step(1) t1, of ?st ?n] live(2) Cons.prems(4) obtain m stf ef where IH:
    "trial_symbol kDefaultStateTransition ds ?st (re_range e1) ?n = Inr m" "m \<le> ?n + length ds"
    "write_decisions ds ?st e1 = Inr (stf, ef)" "live_states stf"
    "length (re_low_bytes ef) \<le> length (re_low_bytes e1) + length ds"
    unfolding s1 by auto
  have "trial_symbol kDefaultStateTransition (dec # ds) st (re_range e) n = Inr m"
    unfolding dec trial_symbol_step [OF Cons.prems(1,2)] Let_def w_def [symmetric]
    using w IH(1) by (simp add: range1 s1 split: if_splits)
  moreover have "write_decisions (dec # ds) st e = Inr (stf, ef)" using IH(3) by (simp add: dec w1)
  moreover have "m \<le> n + length (dec # ds)" "length (re_low_bytes ef) \<le> length (re_low_bytes e) + length (dec # ds)"
    using IH(2,5) step(5) by (simp_all split: if_splits)
  ultimately show ?case using IH(4) by blast
qed

lemma symbol_decisions_bounds:
  assumes "magnitude \<le> 2 ^ 63 - 1"
  shows "length (symbol_decisions is_signed magnitude negative) \<le> 127"
    and "\<forall>(i, v) \<in> set (symbol_decisions is_signed magnitude negative). i < kScalarContextSize"
proof -
  have "magnitude \<noteq> 0 \<Longrightarrow> bit_width magnitude - 1 \<le> 62" using exponent_digits(1) assms by blast
  then show "length (symbol_decisions is_signed magnitude negative) \<le> 127"
    by (auto simp: symbol_decisions_def Let_def)
  show "\<forall>(i, v) \<in> set (symbol_decisions is_signed magnitude negative). i < kScalarContextSize"
    by (auto simp: symbol_decisions_def Let_def kScalarContextSize_def split: if_splits)
qed

text \<open>A store whose banks lie inside the vector and whose states are all live.\<close>

definition live_store :: "context_store \<Rightarrow> bool" where
  "live_store cs \<longleftrightarrow>
     (\<forall>st \<in> set (scalar_contexts cs). live_states st) \<and>
     (\<forall>b < length (bank_sizes cs). \<forall>c < bank_sizes cs ! b. bank_offsets cs ! b + c < length (scalar_contexts cs))"

lemma live_store_update:
  "live_store cs \<Longrightarrow> live_states st \<Longrightarrow> live_store (set_context_states b c st cs)"
  using set_update_subset_insert [of "scalar_contexts cs" "context_index b c cs" st]
  by (auto simp: live_store_def set_context_states_def)

text \<open>The state of an encoder that can code anything: default table, live contexts.\<close>

definition ready_encoder :: "range_encoder \<Rightarrow> bool" where
  "ready_encoder e \<longleftrightarrow>
     enc_inv e \<and> re_initialized e \<and> \<not> re_finalized e \<and>
     re_state_transition e = kDefaultStateTransition \<and> live_store (re_contexts e)"

lemma re_write_symbol_succeeds:
  assumes e: "ready_encoder e" and b: "b < length (bank_sizes (re_contexts e))" "c < bank_sizes (re_contexts e) ! b"
    and m: "magnitude \<le> 2 ^ 63 - 1" and room: "length (re_low_bytes e) + 127 \<le> byte_vector_max_size"
  shows "\<exists>e'. re_write_symbol b c is_signed magnitude negative e = Inr e' \<and> ready_encoder e'
    \<and> bank_sizes (re_contexts e') = bank_sizes (re_contexts e)
    \<and> length (re_low_bytes e') \<le> length (re_low_bytes e) + 127"
proof -
  let ?st = "context_states b c (re_contexts e)" and ?ds = "symbol_decisions is_signed magnitude negative"
  have st: "live_states ?st"
    using e b by (auto simp: ready_encoder_def live_store_def context_states_def context_index_def)
  note ds = symbol_decisions_bounds [OF m, of is_signed negative]
  have inv: "enc_inv e" and t: "re_state_transition e = kDefaultStateTransition" using e by (simp_all add: ready_encoder_def)
  have len: "length (re_low_bytes e) + length ?ds \<le> byte_vector_max_size" using room ds(1) by simp
  from write_decisions_live [OF inv t st ds(2) len, of 0] obtain n stf ef where
    run: "trial_symbol kDefaultStateTransition ?ds ?st (re_range e) 0 = Inr n" "n \<le> length ?ds"
      "write_decisions ?ds ?st e = Inr (stf, ef)" "live_states stf"
      "length (re_low_bytes ef) \<le> length (re_low_bytes e) + length ?ds" by auto
  from write_decisions_correct [OF inv run(3)] have ef: "enc_inv ef" "same_setting e ef" by simp_all
  have "\<not> byte_vector_max_size - length (re_low_bytes e) < n" using run(2) ds(1) room by simp
  with run(1,3) b have "re_write_symbol b c is_signed magnitude negative e =
      Inr (ef\<lparr>re_contexts := set_context_states b c stf (re_contexts ef)\<rparr>)"
    by (simp add: re_write_symbol_def Let_def t)
  moreover have "ready_encoder (ef\<lparr>re_contexts := set_context_states b c stf (re_contexts ef)\<rparr>)"
    using e ef run(4) live_store_update [of "re_contexts e" stf b c]
    by (simp add: ready_encoder_def same_setting_def enc_inv_def)
  moreover have "re_contexts ef = re_contexts e" using ef(2) by (simp add: same_setting_def)
  ultimately show ?thesis using run(5) ds(1) by (auto simp: set_context_states_def)
qed

lemma live_128: "live_state 128"
  by (simp add: live_state_def)

lemma context_offsets_bound:
  "b < length counts \<Longrightarrow> context_offsets off counts ! b + counts ! b \<le> off + sum_list counts"
  "b < length counts \<Longrightarrow> context_offsets off counts ! b = off + sum_list (take b counts)"
proof (induction off counts arbitrary: b rule: context_offsets.induct)
  case (2 off c cs)
  {
    case 1
    with "2.IH"(1) [of "b - 1"] show ?case by (cases b) simp_all
  next
    case 2
    with "2.IH"(2) [of "b - 1"] show ?case by (cases b) simp_all
  }
qed simp_all

lemma length_concat_bank_contexts:
  "length (concat (map (bank_contexts [] s counts) [0..<length counts])) = sum_list counts"
proof -
  have "map (length \<circ> bank_contexts [] s counts) [0..<length counts] = counts"
    by (rule nth_equalityI) (simp_all add: bank_contexts_def)
  then show ?thesis by (simp add: length_concat comp_def)
qed

lemma live_store_of_counts:
  assumes "live_state s"
  shows "live_store (store_of_counts counts [] s)"
proof -
  have "live_states (replicate kScalarContextSize s)"
    using assms by (simp add: live_states_def)
  then have "\<forall>st \<in> set (concat (map (bank_contexts [] s counts) [0..<length counts])). live_states st"
    by (auto simp: bank_contexts_def)
  moreover have "context_offsets 0 counts ! b + c < sum_list counts" if "b < length counts" "c < counts ! b" for b c
    using context_offsets_bound(1) [OF that(1), of 0] that(2) by simp
  ultimately show ?thesis
    by (simp add: live_store_def store_of_counts_def length_concat_bank_contexts del: concat.simps)
qed

lemma re_write_signed_succeeds:
  assumes "ready_encoder e" and "b < length (bank_sizes (re_contexts e))"
    and "c < bank_sizes (re_contexts e) ! b" and "in_int64 v" and "v \<noteq> - (2 ^ 63)"
    and "length (re_low_bytes e) + 127 \<le> byte_vector_max_size"
  shows "\<exists>e'. re_write_signed b c v e = Inr e' \<and> ready_encoder e'
    \<and> bank_sizes (re_contexts e') = bank_sizes (re_contexts e) \<and> length (re_low_bytes e') \<le> length (re_low_bytes e) + 127"
proof -
  let ?m = "word_of_int (if v < 0 then - v else v) :: u64"
  have "0 \<le> (if v < 0 then - v else v)" "(if v < 0 then - v else v) \<le> 2 ^ 63 - 1"
    using assms(4,5) by (auto simp: in_int64_def)
  then have "?m \<le> 2 ^ 63 - 1"
    by (simp add: word_le_def uint_word_of_int_eq take_bit_int_eq_self)
  from re_write_symbol_succeeds [OF assms(1-3) this assms(6), of True "v < 0"] obtain e' where
    "re_write_symbol b c True ?m (v < 0) e = Inr e'" "ready_encoder e'"
    "bank_sizes (re_contexts e') = bank_sizes (re_contexts e)"
    "length (re_low_bytes e') \<le> length (re_low_bytes e) + 127" by blast
  moreover have "re_usable e = Inr ()" using assms(1) by (simp add: ready_encoder_def re_usable_def)
  moreover have "v \<noteq> - 9223372036854775808" using assms(5) by simp
  ultimately show ?thesis by (simp only: re_write_signed_def Let_def bind_result_Inr if_False assms(5)) simp
qed

lemma ready_encoder_reset:
  assumes "initialize_contexts counts [] kDefaultInitialState = Inr cs"
  obtains e where "re_reset_counts counts kDefaultInitialState = Inr e" and "ready_encoder e"
    and "bank_sizes (re_contexts e) = counts" and "length (re_low_bytes e) = 2"
proof -
  have cs: "cs = store_of_counts counts [] kDefaultInitialState"
    using assms by (auto simp: initialize_contexts_def split: if_splits)
  let ?e = "new_range_encoder\<lparr>re_contexts := cs, re_low_bytes := [0, 0], re_range := 0xff00,
              re_state_transition := kDefaultStateTransition, re_initialized := True\<rparr>"
  have e: "re_reset_counts counts kDefaultInitialState = Inr ?e"
    using assms by (simp add: re_reset_counts_def re_reset_impl_def initialize_encoder_contexts_eq)
  moreover have "ready_encoder ?e"
    using live_store_of_counts [OF live_128, of counts]
    by (simp add: ready_encoder_def cs new_range_encoder_def kDefaultInitialState_def enc_inv_def)
  ultimately show thesis using that by (simp add: cs store_of_counts_def)
qed


lemma reset_two_contexts:
  obtains e where "re_reset_counts [2] kDefaultInitialState = Inr e" and "ready_encoder e"
    and "bank_sizes (re_contexts e) = [2]" and "length (re_low_bytes e) = 2"
proof -
  have "initialize_contexts [2] [] kDefaultInitialState = Inr (store_of_counts [2] [] kDefaultInitialState)"
    by (simp add: initialize_contexts_def kMaxContextBankCount_def kMaxScalarContextCount_def)
  from ready_encoder_reset [OF this that] show thesis .
qed


text \<open>
  C9: the range coder is lossless. Whatever sequence of booleans, unsigned and signed scalars,
  termination sentinels and context changes the encoder accepts, for any transition table, context
  banks and initial states, and whichever way the output is finalized, a decoder reset with the same
  parameters on the bytes reads exactly the sequence back, and its adaptive states end equal to the
  encoder's.
\<close>

theorem range_coder_roundtrip:
  assumes "re_reset_impl counts banks init table = Inr e0"
    and "fold_result write_op ops e0 = Inr e" and "\<forall>x \<in> set ops. int64_op x"
    and "re_finalize_impl close e = Inr (bs, e')"
  shows "\<exists>d0 d. rc_reset_impl bs counts banks init table new_range_coder = Inr d0
      \<and> read_all read_op ops d0 = Inr (ops, d) \<and> rc_contexts d = re_contexts e"
proof -
  note start = re_reset_impl_correct [OF assms(1)]
  have run: "matched (range_link bs) e0 e (read_all read_op ops) (map (\<lambda>x. x) ops)"
    using start(1) assms(2,3) by (intro range_io.matched_all) (auto intro: write_op_matched)
  then have "enc_inv e" and cont: "contains bs e \<Longrightarrow> contains bs e0" by (simp_all add: matched_def)
  note final = re_finalize_correct [OF \<open>enc_inv e\<close> assms(4)]
  from start(3) [OF cont [OF final(1)] final(2)] obtain d0 where
    d0: "rc_reset_impl bs counts banks init table new_range_coder = Inr d0" "in_sync bs e0 d0" by blast
  from matched_read [OF run] final(1) d0(2) obtain d where
    "read_all read_op ops d0 = Inr (ops, d)" "in_sync bs e d" by auto
  with d0(1) show ?thesis by (auto simp: in_sync_def)
qed


theorem range_coder_roundtrip_witness:
  "\<exists>e0 e bs d0 d. re_reset_impl [2] [] kDefaultInitialState kDefaultStateTransition = Inr e0 \<and>
     fold_result write_op [Signed_op 0 1 (- 1000), Signed_op 0 0 3] e0 = Inr e \<and>
     rc_reset_impl bs [2] [] kDefaultInitialState kDefaultStateTransition new_range_coder = Inr d0 \<and>
     read_all read_op [Signed_op 0 1 (- 1000), Signed_op 0 0 3] d0 = Inr ([Signed_op 0 1 (- 1000), Signed_op 0 0 3], d) \<and>
     rc_contexts d = re_contexts e"
proof -
  obtain e0 where e0: "re_reset_counts [2] kDefaultInitialState = Inr e0" "ready_encoder e0"
      "bank_sizes (re_contexts e0) = [2]" "length (re_low_bytes e0) = 2"
    by (rule reset_two_contexts)
  then have reset: "re_reset_impl [2] [] kDefaultInitialState kDefaultStateTransition = Inr e0"
    by (simp add: re_reset_counts_def)
  from re_write_signed_succeeds [OF e0(2), of 0 1 "- 1000"] e0 obtain e1 where
    e1: "re_write_signed 0 1 (- 1000) e0 = Inr e1" "ready_encoder e1" "bank_sizes (re_contexts e1) = [2]"
      "length (re_low_bytes e1) \<le> 129"
    by (auto simp: in_int64_def byte_vector_max_size_def)
  from re_write_signed_succeeds [OF e1(2), of 0 0 3] e1 obtain e where
    e: "re_write_signed 0 0 3 e1 = Inr e" "ready_encoder e"
    by (auto simp: in_int64_def byte_vector_max_size_def)
  have run: "fold_result write_op [Signed_op 0 1 (- 1000), Signed_op 0 0 3] e0 = Inr e"
    using e1 e by simp
  have int64: "\<forall>x \<in> set [Signed_op 0 1 (- 1000), Signed_op 0 0 3]. int64_op x"
    by (simp add: int64_op_def in_int64_def)
  have "re_finalize_impl False e = Inr (re_low_bytes e, e\<lparr>re_finalized := True\<rparr>)"
    using e(2) by (simp add: re_finalize_impl_def re_usable_def ready_encoder_def)
  from range_coder_roundtrip [OF reset run int64 this] reset run show ?thesis by blast
qed

text \<open>A context whose state is zero cannot code a one; the encoder says so before it changes anything.\<close>

theorem write_symbol_no_internal_error_witness:
  "\<exists>e err. re_reset_counts [1] 0 = Inr e \<and> re_write_symbol 0 0 False 0 False e = Inl err \<and>
     st_code err \<in> {InvalidArgument, ResourceExhausted}"
proof -
  let ?e = "new_range_encoder\<lparr>re_contexts := store_of_counts [1] [] 0, re_low_bytes := [0, 0],
    re_range := 0xff00, re_state_transition := kDefaultStateTransition, re_initialized := True\<rparr>"
  have reset: "re_reset_counts [1] 0 = Inr ?e"
    by (simp add: re_reset_counts_def re_reset_impl_def initialize_encoder_contexts_eq
        initialize_contexts_def kMaxContextBankCount_def kMaxScalarContextCount_def)
  have inv: "enc_inv ?e" by (simp add: enc_inv_def)
  have "re_write_symbol 0 0 False 0 False ?e = Inl (make_error InvalidArgument)"
    by (simp add: re_write_symbol_def Let_def store_of_counts_def bank_contexts_def symbol_decisions_def
        context_states_def context_index_def kScalarContextSize_def)
  with write_symbol_no_internal_error [OF inv this] reset show ?thesis by blast
qed

end
