(* ===== verification/Stream_Parameters.thy ===== *)
theory Stream_Parameters
  imports State_Transition
begin

text \<open>
  The stream description of \<^verbatim>\<open>src/src/mffv1/stream_parameters.hpp\<close> with its geometry (planes,
  subsampling, the slice grid), the public types of \<^verbatim>\<open>src/include/mffv1\<close> it refers to, and the
  constraint predicates of \<^verbatim>\<open>profile_constraints.hpp\<close> and \<^verbatim>\<open>version3_constraints.hpp\<close>. Extents and grid
  positions keep their 32 and 64 bits, so the narrowing casts of the geometry are the code's.
\<close>

datatype entropy_mode = GolombRiceMode | RangeMode

datatype plane_role = RoleY | RoleCb | RoleCr | RoleAlpha | RoleR | RoleG | RoleB

datatype sample_format = UInt8 | UInt16

datatype color_space = YCbCr | Rgb

definition kContextInputs :: nat where "kContextInputs = 5"
definition kTableEntries :: nat where "kTableEntries = 256"

record quant_table_set =
  qt_tables :: "int list list"
  qt_context_count :: nat

text \<open>The value-initialised set, and \<open>make_zero_quant_table_set\<close>.\<close>

definition new_quant_table_set :: quant_table_set where
  "new_quant_table_set =
     \<lparr>qt_tables = replicate kContextInputs (replicate kTableEntries 0), qt_context_count = 0\<rparr>"

definition make_zero_quant_table_set :: quant_table_set where
  "make_zero_quant_table_set = new_quant_table_set\<lparr>qt_context_count := 1\<rparr>"

definition kInitialStateSize :: nat where "kInitialStateSize = 32"

type_synonym initial_state = "u8 list"

type_synonym initial_state_set = "initial_state list"

record stream_parameters =
  sp_version :: int
  sp_micro_version :: int
  sp_entropy_mode :: entropy_mode
  sp_width :: u32
  sp_height :: u32
  sp_bits_per_raw_sample :: u8
  sp_colorspace_type :: int
  sp_chroma_planes :: bool
  sp_extra_plane :: bool
  sp_log2_h_chroma_subsample :: u8
  sp_log2_v_chroma_subsample :: u8
  sp_num_h_slices :: u32
  sp_num_v_slices :: u32
  sp_quant_table_sets :: "quant_table_set list"
  sp_initial_states :: "initial_state_set list"
  sp_state_transition :: state_transition_table
  sp_error_status_enabled :: bool
  sp_intra_only :: bool

definition new_stream_parameters :: stream_parameters where
  "new_stream_parameters =
     \<lparr>sp_version = 3, sp_micro_version = 0, sp_entropy_mode = RangeMode, sp_width = 0, sp_height = 0,
      sp_bits_per_raw_sample = 8, sp_colorspace_type = 0, sp_chroma_planes = True,
      sp_extra_plane = False, sp_log2_h_chroma_subsample = 0, sp_log2_v_chroma_subsample = 0,
      sp_num_h_slices = 1, sp_num_v_slices = 1, sp_quant_table_sets = [], sp_initial_states = [],
      sp_state_transition = kDefaultStateTransition, sp_error_status_enabled = False,
      sp_intra_only = False\<rparr>"

subsection \<open>Planes\<close>

definition coded_plane_count :: "stream_parameters \<Rightarrow> nat" where
  "coded_plane_count stream =
     1 + (if sp_chroma_planes stream then 2 else 0) + (if sp_extra_plane stream then 1 else 0)"

definition uses_signed_16bit_predictor :: "stream_parameters \<Rightarrow> bool" where
  "uses_signed_16bit_predictor stream \<longleftrightarrow>
     sp_colorspace_type stream = 0 \<and> sp_bits_per_raw_sample stream = 16 \<and> sp_entropy_mode stream = RangeMode"

definition subsampled_extent :: "u32 \<Rightarrow> u8 \<Rightarrow> u32" where
  "subsampled_extent value log2_subsample =
     (if log2_subsample = 0 then value
      else if 32 \<le> log2_subsample then (if value = 0 then 0 else 1)
      else
        let divisor = push_bit (unat log2_subsample) (1 :: u64)
        in ucast ((ucast value + divisor - 1) div divisor))"

definition is_chroma_plane :: "stream_parameters \<Rightarrow> nat \<Rightarrow> bool" where
  "is_chroma_plane stream plane_index \<longleftrightarrow>
     sp_chroma_planes stream \<and> (plane_index = 1 \<or> plane_index = 2)"

definition quant_table_set_index_count :: "stream_parameters \<Rightarrow> nat" where
  "quant_table_set_index_count stream =
     1 + (if sp_chroma_planes stream \<or> sp_version stream \<le> 3 then 1 else 0)
       + (if sp_extra_plane stream then 1 else 0)"

definition plane_quant_table_set_index_slot :: "stream_parameters \<Rightarrow> nat \<Rightarrow> nat" where
  "plane_quant_table_set_index_slot stream plane_index =
     (if plane_index = 0 then 0
      else if is_chroma_plane stream plane_index then 1
      else if sp_version stream \<le> 3 \<or> sp_chroma_planes stream then 2 else 1)"

definition plane_width :: "stream_parameters \<Rightarrow> nat \<Rightarrow> u32" where
  "plane_width stream plane_index =
     (if sp_colorspace_type stream = 0 \<and> is_chroma_plane stream plane_index
      then subsampled_extent (sp_width stream) (sp_log2_h_chroma_subsample stream)
      else sp_width stream)"

definition plane_height :: "stream_parameters \<Rightarrow> nat \<Rightarrow> u32" where
  "plane_height stream plane_index =
     (if sp_colorspace_type stream = 0 \<and> is_chroma_plane stream plane_index
      then subsampled_extent (sp_height stream) (sp_log2_v_chroma_subsample stream)
      else sp_height stream)"

definition expected_plane_role :: "stream_parameters \<Rightarrow> nat \<Rightarrow> plane_role" where
  "expected_plane_role stream plane_index =
     (if sp_colorspace_type stream = 1 then
        (if plane_index = 0 then RoleR else if plane_index = 1 then RoleG
         else if plane_index = 2 then RoleB else RoleAlpha)
      else if plane_index = 0 then RoleY
      else if sp_chroma_planes stream \<and> plane_index = 1 then RoleCb
      else if sp_chroma_planes stream \<and> plane_index = 2 then RoleCr
      else RoleAlpha)"

subsection \<open>The slice grid\<close>

definition scaled_grid_position :: "u32 \<Rightarrow> u32 \<Rightarrow> u64 \<Rightarrow> u32" where
  "scaled_grid_position extent grid_count grid_position =
     (if grid_count = 0 then 0
      else let scaled = grid_position * ucast extent in ucast (scaled div ucast grid_count))"

definition slice_pixel_x :: "stream_parameters \<Rightarrow> u32 \<Rightarrow> u32" where
  "slice_pixel_x stream slice_x =
     scaled_grid_position (sp_width stream) (sp_num_h_slices stream) (ucast slice_x)"

definition slice_pixel_y :: "stream_parameters \<Rightarrow> u32 \<Rightarrow> u32" where
  "slice_pixel_y stream slice_y =
     scaled_grid_position (sp_height stream) (sp_num_v_slices stream) (ucast slice_y)"

definition slice_pixel_width :: "stream_parameters \<Rightarrow> u32 \<Rightarrow> u32 \<Rightarrow> u32" where
  "slice_pixel_width stream slice_x slice_width =
     (let slice_end = (ucast slice_x :: u64) + ucast slice_width;
          pixel_x = scaled_grid_position (sp_width stream) (sp_num_h_slices stream) (ucast slice_x);
          pixel_end = scaled_grid_position (sp_width stream) (sp_num_h_slices stream) slice_end
      in pixel_end - pixel_x)"

definition slice_pixel_height :: "stream_parameters \<Rightarrow> u32 \<Rightarrow> u32 \<Rightarrow> u32" where
  "slice_pixel_height stream slice_y slice_height =
     (let slice_end = (ucast slice_y :: u64) + ucast slice_height;
          pixel_y = scaled_grid_position (sp_height stream) (sp_num_v_slices stream) (ucast slice_y);
          pixel_end = scaled_grid_position (sp_height stream) (sp_num_v_slices stream) slice_end
      in pixel_end - pixel_y)"

subsection \<open>Equivalence\<close>

definition quant_table_sets_equal :: "quant_table_set \<Rightarrow> quant_table_set \<Rightarrow> bool" where
  "quant_table_sets_equal lhs rhs \<longleftrightarrow>
     qt_context_count lhs = qt_context_count rhs \<and> qt_tables lhs = qt_tables rhs"

definition initial_state_sets_equal :: "initial_state_set \<Rightarrow> initial_state_set \<Rightarrow> bool" where
  "initial_state_sets_equal lhs rhs \<longleftrightarrow> lhs = rhs"

definition stream_parameters_equivalent :: "stream_parameters \<Rightarrow> stream_parameters \<Rightarrow> bool" where
  "stream_parameters_equivalent lhs rhs \<longleftrightarrow>
     (if sp_version lhs \<noteq> sp_version rhs \<or> sp_micro_version lhs \<noteq> sp_micro_version rhs
         \<or> sp_entropy_mode lhs \<noteq> sp_entropy_mode rhs
         \<or> sp_width lhs \<noteq> sp_width rhs \<or> sp_height lhs \<noteq> sp_height rhs
         \<or> sp_bits_per_raw_sample lhs \<noteq> sp_bits_per_raw_sample rhs
         \<or> sp_colorspace_type lhs \<noteq> sp_colorspace_type rhs
         \<or> sp_chroma_planes lhs \<noteq> sp_chroma_planes rhs \<or> sp_extra_plane lhs \<noteq> sp_extra_plane rhs
         \<or> sp_log2_h_chroma_subsample lhs \<noteq> sp_log2_h_chroma_subsample rhs
         \<or> sp_log2_v_chroma_subsample lhs \<noteq> sp_log2_v_chroma_subsample rhs
         \<or> sp_num_h_slices lhs \<noteq> sp_num_h_slices rhs \<or> sp_num_v_slices lhs \<noteq> sp_num_v_slices rhs
         \<or> sp_state_transition lhs \<noteq> sp_state_transition rhs
         \<or> sp_error_status_enabled lhs \<noteq> sp_error_status_enabled rhs
         \<or> sp_intra_only lhs \<noteq> sp_intra_only rhs
         \<or> length (sp_quant_table_sets lhs) \<noteq> length (sp_quant_table_sets rhs)
         \<or> length (sp_initial_states lhs) \<noteq> length (sp_initial_states rhs)
      then False
      else
        list_all (\<lambda>(l, r). quant_table_sets_equal l r)
          (zip (sp_quant_table_sets lhs) (sp_quant_table_sets rhs)) \<and>
        list_all (\<lambda>(l, r). initial_state_sets_equal l r)
          (zip (sp_initial_states lhs) (sp_initial_states rhs)))"

subsection \<open>Constraints\<close>

definition is_supported_encoder_bit_depth :: "u8 \<Rightarrow> bool" where
  "is_supported_encoder_bit_depth bits_per_raw_sample \<longleftrightarrow> 1 \<le> bits_per_raw_sample \<and> bits_per_raw_sample \<le> 16"

definition is_supported_decoder_bit_depth :: "u8 \<Rightarrow> bool" where
  "is_supported_decoder_bit_depth bits_per_raw_sample \<longleftrightarrow> 1 \<le> bits_per_raw_sample \<and> bits_per_raw_sample \<le> 16"

definition is_supported_syntax_colorspace :: "int \<Rightarrow> bool" where
  "is_supported_syntax_colorspace colorspace_type \<longleftrightarrow> colorspace_type = 0 \<or> colorspace_type = 1"

definition is_supported_public_color_space :: "color_space \<Rightarrow> bool" where
  "is_supported_public_color_space color_space \<longleftrightarrow> color_space = YCbCr \<or> color_space = Rgb"

definition has_invalid_rgb_geometry :: "bool \<Rightarrow> bool \<Rightarrow> u8 \<Rightarrow> u8 \<Rightarrow> bool" where
  "has_invalid_rgb_geometry is_rgb has_chroma_planes log2_h log2_v \<longleftrightarrow>
     is_rgb \<and> (\<not> has_chroma_planes \<or> log2_h \<noteq> 0 \<or> log2_v \<noteq> 0)"

definition has_subsampling_without_chroma :: "bool \<Rightarrow> u8 \<Rightarrow> u8 \<Rightarrow> bool" where
  "has_subsampling_without_chroma has_chroma_planes log2_h log2_v \<longleftrightarrow>
     \<not> has_chroma_planes \<and> (log2_h \<noteq> 0 \<or> log2_v \<noteq> 0)"

definition is_supported_chroma_subsampling :: "u8 \<Rightarrow> u8 \<Rightarrow> bool" where
  "is_supported_chroma_subsampling log2_h log2_v \<longleftrightarrow> log2_h \<le> 1 \<and> log2_v \<le> 1 \<and> log2_v \<le> log2_h"

definition kVersion3CifPixelCount :: u64 where
  "kVersion3CifPixelCount = 352 * 288"

definition requires_version3_parallel_slice_limit :: "int \<Rightarrow> u32 \<Rightarrow> u32 \<Rightarrow> bool" where
  "requires_version3_parallel_slice_limit version width height \<longleftrightarrow>
     3 \<le> version \<and> kVersion3CifPixelCount < ucast width * ucast height"

definition sample_format_for_bit_depth :: "u8 \<Rightarrow> sample_format" where
  "sample_format_for_bit_depth bits_per_raw_sample = (if bits_per_raw_sample \<le> 8 then UInt8 else UInt16)"

definition bytes_per_sample :: "sample_format \<Rightarrow> u32" where
  "bytes_per_sample format = (if format = UInt16 then 2 else 1)"

subsection \<open>Properties of the geometry\<close>

lemma unat_subsampled_extent:
  "unat (subsampled_extent v l) = (unat v + 2 ^ unat l - 1) div 2 ^ unat l"
proof (cases "32 \<le> l")
  case True
  then have l: "32 \<le> unat l" "l \<noteq> 0" by (auto simp: word_le_nat_alt)
  have v: "unat v < 2 ^ 32" using unat_bound [of v] by simp
  also have "(2 :: nat) ^ 32 \<le> 2 ^ unat l" using l(1) by (intro power_increasing) simp_all
  finally have small: "unat v < 2 ^ unat l" .
  have "(unat v + 2 ^ unat l - 1) div 2 ^ unat l = (if unat v = 0 then 0 else 1)"
  proof (cases "unat v = 0")
    case False
    with small show ?thesis by (intro div_nat_eqI) (simp_all)
  qed simp
  with True l show ?thesis by (simp add: subsampled_extent_def unat_eq_zero)
next
  case False
  then have l: "unat l < 32" by (simp add: word_le_nat_alt)
  define d where "d = (push_bit (unat l) 1 :: u64)"
  have d: "unat d = 2 ^ unat l" unfolding d_def using l by (intro unat_exp_64) simp
  have "(2 :: nat) ^ unat l \<le> 2 ^ 31" using l by (intro power_increasing) simp_all
  moreover have v: "unat v < 2 ^ 32" using unat_bound [of v] by simp
  ultimately have "unat (ucast v + d) = unat v + 2 ^ unat l"
    by (subst unat_add_bounded) (simp_all add: d)
  moreover have "(1 :: nat) \<le> unat v + 2 ^ unat l" by (simp add: trans_le_add2)
  ultimately have num: "unat (ucast v + d - 1) = unat v + 2 ^ unat l - 1"
    by (subst unat_diff_bounded) simp_all
  have "(unat v + 2 ^ unat l - 1) div 2 ^ unat l \<le> unat v"
  proof (cases "unat v = 0")
    case False
    have "unat v * 1 \<le> unat v * 2 ^ unat l" by (intro mult_le_mono2) simp
    with False have "unat v + 2 ^ unat l - 1 < (unat v + 1) * 2 ^ unat l"
      unfolding add_mult_distrib by linarith
    then show ?thesis by (simp add: less_mult_imp_div_less less_Suc_eq_le [symmetric])
  qed simp
  with v have "unat ((ucast v + d - 1) div d) < 2 ^ 32"
    by (simp only: unat_div num d)
  then have "unat (ucast ((ucast v + d - 1) div d) :: u32) = (unat v + 2 ^ unat l - 1) div 2 ^ unat l"
    by (subst unat_ucast_small) (simp_all add: unat_div num d)
  moreover have "subsampled_extent v l = (if l = 0 then v else ucast ((ucast v + d - 1) div d))"
    using False by (simp only: subsampled_extent_def Let_def d_def if_False)
  ultimately show ?thesis by (cases "l = 0") simp_all
qed

lemma unat_scaled_grid_position:
  assumes "n \<noteq> 0" and "unat pos \<le> unat n"
  shows "unat (scaled_grid_position extent n pos) = unat pos * unat extent div unat n"
proof -
  have n: "unat n \<noteq> 0" "unat n < 2 ^ 32" using assms(1) unat_bound [of n] by (simp_all add: unat_eq_zero)
  have e: "unat extent < 2 ^ 32" using unat_bound [of extent] by simp
  have "unat pos * unat extent \<le> unat n * unat extent" using assms(2) by (rule mult_le_mono1)
  also have "\<dots> < 2 ^ 32 * 2 ^ 32" using n(2) e by (intro mult_strict_mono) simp_all
  finally have prod: "unat (pos * ucast extent) = unat pos * unat extent"
    by (subst unat_mult_bounded) simp_all
  have "unat pos * unat extent div unat n \<le> unat n * unat extent div unat n"
    using assms(2) by (intro div_le_mono mult_le_mono1)
  then have "unat pos * unat extent div unat n \<le> unat extent" using n by simp
  then have "unat ((pos * ucast extent) div ucast n) < 2 ^ 32"
    using e by (simp add: unat_div prod)
  then have "unat (ucast ((pos * ucast extent) div ucast n) :: u32) = unat pos * unat extent div unat n"
    by (subst unat_ucast_small) (simp_all add: unat_div prod)
  with assms(1) show ?thesis by (simp add: scaled_grid_position_def Let_def)
qed

text \<open>The positions \<open>i * e div n\<close> cut the interval below \<open>e\<close> into \<open>n\<close> consecutive pieces.\<close>

lemma grid_cell_exists:
  fixes e n p :: nat
  assumes "0 < n" and "p < e"
  shows "\<exists>i < n. i * e div n \<le> p \<and> p < (i + 1) * e div n"
proof -
  define i where "i = (LEAST i. p < (i + 1) * e div n)"
  have top: "p < (n - 1 + 1) * e div n" using assms by simp
  then have i: "p < (i + 1) * e div n" "i \<le> n - 1"
    unfolding i_def by (rule LeastI, rule Least_le)
  have "i * e div n \<le> p"
  proof (cases i)
    case (Suc j)
    then have "\<not> p < (j + 1) * e div n" using not_less_Least [of j "\<lambda>i. p < (i + 1) * e div n"] by (simp add: i_def)
    with Suc show ?thesis by simp
  qed simp
  with i assms(1) show ?thesis by (intro exI [of _ i]) simp
qed

lemma grid_cell_unique:
  fixes e n p :: nat
  assumes "i * e div n \<le> p" "p < (i + 1) * e div n" "j * e div n \<le> p" "p < (j + 1) * e div n"
  shows "i = j"
proof (rule ccontr)
  assume "i \<noteq> j"
  then consider "i + 1 \<le> j" | "j + 1 \<le> i" by linarith
  then show False
  proof cases
    case 1
    then have "(i + 1) * e div n \<le> j * e div n" by (intro div_le_mono mult_le_mono1)
    with assms show False by simp
  next
    case 2
    then have "(j + 1) * e div n \<le> i * e div n" by (intro div_le_mono mult_le_mono1)
    with assms show False by simp
  qed
qed

text \<open>The span of \<open>w\<close> grid cells from \<open>x\<close>: its extent is the difference of the two grid positions.\<close>

lemma grid_span:
  fixes x w n extent :: u32
  assumes n: "n \<noteq> 0" and fits: "unat x + unat w \<le> unat n"
  shows "unat (scaled_grid_position extent n (ucast x)) = unat x * unat extent div unat n"
    and "unat (scaled_grid_position extent n (ucast x + ucast w) - scaled_grid_position extent n (ucast x)) =
      (unat x + unat w) * unat extent div unat n - unat x * unat extent div unat n"
proof -
  have "unat n < 2 ^ 32" using unat_bound [of n] by simp
  then have sum: "unat (ucast x + ucast w :: u64) = unat x + unat w"
    using fits by (subst unat_add_bounded) simp_all
  show s: "unat (scaled_grid_position extent n (ucast x)) = unat x * unat extent div unat n"
    using n fits by (subst unat_scaled_grid_position) simp_all
  have e: "unat (scaled_grid_position extent n (ucast x + ucast w)) = (unat x + unat w) * unat extent div unat n"
    using n fits sum by (subst unat_scaled_grid_position) simp_all
  have "unat x * unat extent div unat n \<le> (unat x + unat w) * unat extent div unat n"
    by (intro div_le_mono mult_le_mono1) simp
  with s e show "unat (scaled_grid_position extent n (ucast x + ucast w) - scaled_grid_position extent n (ucast x)) =
      (unat x + unat w) * unat extent div unat n - unat x * unat extent div unat n"
    by (subst unat_diff_bounded) simp_all
qed

text \<open>The pixel rectangle of a raster rectangle.\<close>

definition slice_covers :: "stream_parameters \<Rightarrow> u32 \<Rightarrow> u32 \<Rightarrow> u32 \<Rightarrow> u32 \<Rightarrow> nat \<Rightarrow> nat \<Rightarrow> bool" where
  "slice_covers stream x y w h px py \<longleftrightarrow>
     unat (slice_pixel_x stream x) \<le> px \<and>
     px < unat (slice_pixel_x stream x) + unat (slice_pixel_width stream x w) \<and>
     unat (slice_pixel_y stream y) \<le> py \<and>
     py < unat (slice_pixel_y stream y) + unat (slice_pixel_height stream y h)"

lemma slice_covers_iff:
  assumes "sp_num_h_slices stream \<noteq> 0" and "sp_num_v_slices stream \<noteq> 0"
    and "unat x + unat w \<le> unat (sp_num_h_slices stream)" and "unat y + unat h \<le> unat (sp_num_v_slices stream)"
  shows "slice_covers stream x y w h px py \<longleftrightarrow>
    unat x * unat (sp_width stream) div unat (sp_num_h_slices stream) \<le> px \<and>
    px < (unat x + unat w) * unat (sp_width stream) div unat (sp_num_h_slices stream) \<and>
    unat y * unat (sp_height stream) div unat (sp_num_v_slices stream) \<le> py \<and>
    py < (unat y + unat h) * unat (sp_height stream) div unat (sp_num_v_slices stream)"
proof -
  have mono: "a * e div n \<le> (a + b) * e div n" for a b e n :: nat
    by (intro div_le_mono mult_le_mono1) simp
  show ?thesis
    unfolding slice_covers_def slice_pixel_x_def slice_pixel_y_def slice_pixel_width_def
      slice_pixel_height_def Let_def grid_span [OF assms(1,3)] grid_span [OF assms(2,4)]
    using mono by (simp add: le_add_diff_inverse)
qed

text \<open>
  C20: the slice grid partitions the frame. Every pixel of the frame lies in the pixel rectangle of
  exactly one grid cell, for any frame size and any nonzero grid, also when the grid does not divide
  the frame.
\<close>

theorem slice_grid_partition:
  assumes "sp_num_h_slices stream \<noteq> 0" and "sp_num_v_slices stream \<noteq> 0"
    and "px < unat (sp_width stream)" and "py < unat (sp_height stream)"
  shows "\<exists>!(x, y). x < sp_num_h_slices stream \<and> y < sp_num_v_slices stream \<and> slice_covers stream x y 1 1 px py"
proof -
  let ?n = "unat (sp_num_h_slices stream)" and ?m = "unat (sp_num_v_slices stream)"
  let ?w = "unat (sp_width stream)" and ?h = "unat (sp_height stream)"
  have nm: "0 < ?n" "0 < ?m" "?n < 2 ^ 32" "?m < 2 ^ 32"
    using assms(1,2) unat_bound [of "sp_num_h_slices stream"] unat_bound [of "sp_num_v_slices stream"]
    by (simp_all add: unat_gt_0)
  have cell: "x < sp_num_h_slices stream \<and> y < sp_num_v_slices stream \<and> slice_covers stream x y 1 1 px py \<longleftrightarrow>
      unat x < ?n \<and> unat y < ?m \<and> unat x * ?w div ?n \<le> px \<and> px < (unat x + 1) * ?w div ?n \<and>
      unat y * ?h div ?m \<le> py \<and> py < (unat y + 1) * ?h div ?m" for x y
    using slice_covers_iff [OF assms(1,2), of x 1 y 1 px py] by (auto simp: word_less_nat_alt)
  obtain i where i: "i < ?n" "i * ?w div ?n \<le> px" "px < (i + 1) * ?w div ?n"
    using grid_cell_exists [OF nm(1) assms(3)] by blast
  obtain j where j: "j < ?m" "j * ?h div ?m \<le> py" "py < (j + 1) * ?h div ?m"
    using grid_cell_exists [OF nm(2) assms(4)] by blast
  have ij: "unat (word_of_nat i :: u32) = i" "unat (word_of_nat j :: u32) = j"
    using i(1) j(1) nm(3,4) by (simp_all add: unat_of_nat_bounded)
  show ?thesis
    unfolding cell
  proof (rule ex1I [of _ "(word_of_nat i, word_of_nat j)"], unfold prod.case ij)
    show "i < ?n \<and> j < ?m \<and> i * ?w div ?n \<le> px \<and> px < (i + 1) * ?w div ?n \<and>
        j * ?h div ?m \<le> py \<and> py < (j + 1) * ?h div ?m" using i j by simp
    fix xy assume "case xy of (x, y) \<Rightarrow> unat x < ?n \<and> unat y < ?m \<and> unat x * ?w div ?n \<le> px \<and>
        px < (unat x + 1) * ?w div ?n \<and> unat y * ?h div ?m \<le> py \<and> py < (unat y + 1) * ?h div ?m"
    then have "unat (fst xy) = i" "unat (snd xy) = j"
      using grid_cell_unique i j by (auto split: prod.splits)
    then have "fst xy = word_of_nat i" "snd xy = word_of_nat j" by auto
    then show "xy = (word_of_nat i, word_of_nat j)" by (simp add: prod_eq_iff)
  qed
qed

theorem slice_grid_partition_witness:
  "\<exists>!(x, y). x < (3 :: u32) \<and> y < (2 :: u32) \<and>
    slice_covers (new_stream_parameters\<lparr>sp_width := 10, sp_height := 5, sp_num_h_slices := 3, sp_num_v_slices := 2\<rparr>)
      x y 1 1 6 4"
  using slice_grid_partition [of "new_stream_parameters\<lparr>sp_width := 10, sp_height := 5, sp_num_h_slices := 3,
      sp_num_v_slices := 2\<rparr>" 6 4] by simp

text \<open>
  C26: a subsampled plane has the rounded-up extent for every exponent, also for those beyond the
  width of the integers, where the code branches instead of shifting.
\<close>

theorem subsampled_extent_ceiling:
  "unat (subsampled_extent value log2_subsample) =
     (unat value + 2 ^ unat log2_subsample - 1) div 2 ^ unat log2_subsample"
  by (rule unat_subsampled_extent)

lemma quant_table_sets_equal_iff: "quant_table_sets_equal l r \<longleftrightarrow> l = r"
  by (auto simp: quant_table_sets_equal_def)

lemma list_all_zip_eq: "length xs = length ys \<Longrightarrow> list_all (\<lambda>(x, y). x = y) (zip xs ys) \<longleftrightarrow> xs = ys"
  by (induction xs ys rule: list_induct2) auto

text \<open>
  C27: the comparison of two stream descriptions, by which the decoder recognises that an embedded
  legacy header matches its configuration, overlooks no field: it accepts exactly equal descriptions.
\<close>

theorem stream_parameters_equivalent_iff:
  "stream_parameters_equivalent lhs rhs \<longleftrightarrow> lhs = rhs"
proof
  assume "stream_parameters_equivalent lhs rhs"
  then show "lhs = rhs"
    by (intro stream_parameters.equality)
      (simp_all add: stream_parameters_equivalent_def quant_table_sets_equal_iff initial_state_sets_equal_def
        list_all_zip_eq split: if_splits)
qed (simp add: stream_parameters_equivalent_def quant_table_sets_equal_iff initial_state_sets_equal_def
    list_all_length)

end
