(* ===== verification/Configuration_Parser.thy ===== *)
theory Configuration_Parser
  imports Stream_Parameters Symbol_Channel
begin

text \<open>
  The parser of the stream parameters (\<^verbatim>\<open>src/src/mffv1/configuration_parser.cpp\<close>), over an
  arbitrary symbol reader. Each stage of the source's long function is a definition of its own; a
  stage takes and returns the partial description and the reader.
\<close>

definition kMaxQuantTableSetCount :: u64 where "kMaxQuantTableSetCount = 8"
definition kMaxContextCount :: int where "kMaxContextCount = 32768"

definition int32_max :: int where "int32_max = 2 ^ 31 - 1"
definition int64_max :: int where "int64_max = 2 ^ 63 - 1"

subsection \<open>Quantization tables\<close>

text \<open>
  The loop over \<open>k < 128\<close>. It ends on every reader, also on one that returns \<open>UINT64_MAX\<close> as a
  length (the run is then empty): \<open>value\<close> grows, and the overflow check bounds it.
\<close>

function parse_quant_runs ::
  "'r symbol_reader \<Rightarrow> int \<Rightarrow> nat \<Rightarrow> int \<Rightarrow> int list \<Rightarrow> 'r \<Rightarrow> ((int \<times> int list) \<times> 'r) result" where
  "parse_quant_runs R scale k value table r =
     (if k < 128 then
        bind_result (sr_read_unsigned R r) (\<lambda>(len_minus_one, r).
          let remaining = (word_of_nat (128 - k) :: u64) in
          if remaining \<le> len_minus_one \<and> k = 0 then Inl (make_error SyntaxError)
          else
            let len = unat (min (len_minus_one + 1) remaining) in
            if int32_max div max scale 1 < value then Inl (make_error SyntaxError)
            else
              let stored = to_int32 (scale * value)
              in parse_quant_runs R scale (k + len) (value + 1)
                   (take k table @ replicate len stored @ drop (k + len) table) r)
      else Inr ((value, table), r))"
  by pat_completeness auto
termination
proof (relation "measure (\<lambda>(R, scale, k, value, table, r). nat (2 ^ 31 - value))", goal_cases)
  case (2 R scale k v)
  have "int32_max div max scale 1 \<le> int32_max"
    by (rule zdiv_mono2 [of int32_max 1 "max scale 1", simplified]) (simp_all add: int32_max_def)
  with 2 have "v \<le> int32_max" by linarith
  then show ?case by (simp add: int32_max_def)
qed simp

declare parse_quant_runs.simps [simp del]

text \<open>The mirrored half: entry \<open>256 - m\<close> is the negated entry \<open>m\<close>, entry 128 the negated entry 127.\<close>

definition mirror_quant_table :: "int list \<Rightarrow> int list" where
  "mirror_quant_table table =
     map (\<lambda>i. if i < 128 then table ! i else if i = 128 then - (table ! 127) else - (table ! (256 - i)))
       [0..<kTableEntries]"

definition parse_quant_table ::
  "'r symbol_reader \<Rightarrow> int list \<Rightarrow> int \<Rightarrow> 'r \<Rightarrow> ((int \<times> int list) \<times> 'r) result" where
  "parse_quant_table R table scale r =
     bind_result (parse_quant_runs R scale 0 0 table r) (\<lambda>((len_count, table), r).
       Inr ((len_count, mirror_quant_table table), r))"

text \<open>The loop over the five tables of a set; the result is the final scale and the tables.\<close>

fun parse_quant_tables ::
  "'r symbol_reader \<Rightarrow> int list list \<Rightarrow> int \<Rightarrow> 'r \<Rightarrow> ((int \<times> int list list) \<times> 'r) result" where
  "parse_quant_tables R [] scale r = Inr ((scale, []), r)"
| "parse_quant_tables R (table # tables) scale r =
     bind_result (sr_begin_contexts R 1 r) (\<lambda>r.
     bind_result (parse_quant_table R table scale r) (\<lambda>((len_count, table), r).
     bind_result (sr_end_contexts R r) (\<lambda>r.
       let multiplier = 2 * len_count - 1 in
       if multiplier \<le> 0 \<or> int64_max div multiplier < scale then Inl (make_error SyntaxError)
       else
         bind_result (parse_quant_tables R tables (scale * multiplier) r) (\<lambda>((scale, tables), r).
           Inr ((scale, table # tables), r)))))"

definition parse_quant_table_set ::
  "'r symbol_reader \<Rightarrow> quant_table_set \<Rightarrow> 'r \<Rightarrow> (quant_table_set \<times> 'r) result" where
  "parse_quant_table_set R out_set r =
     bind_result (parse_quant_tables R (qt_tables out_set) 1 r) (\<lambda>((scale, tables), r).
       let context_count = (scale + 1) div 2 in
       if context_count \<le> 0 \<or> kMaxContextCount < context_count then Inl (make_error SyntaxError)
       else Inr (out_set\<lparr>qt_tables := tables, qt_context_count := nat context_count\<rparr>, r))"

fun parse_quant_table_sets ::
  "'r symbol_reader \<Rightarrow> quant_table_set list \<Rightarrow> 'r \<Rightarrow> (quant_table_set list \<times> 'r) result" where
  "parse_quant_table_sets R [] r = Inr ([], r)"
| "parse_quant_table_sets R (table_set # sets) r =
     bind_result (parse_quant_table_set R table_set r) (\<lambda>(table_set, r).
     bind_result (parse_quant_table_sets R sets r) (\<lambda>(sets, r). Inr (table_set # sets, r)))"

subsection \<open>Initial states\<close>

text \<open>One context: every state is a delta to the same state of the previous context.\<close>

fun parse_initial_state ::
  "'r symbol_reader \<Rightarrow> nat \<Rightarrow> initial_state \<Rightarrow> 'r \<Rightarrow> (initial_state \<times> 'r) result" where
  "parse_initial_state R state_index [] r = Inr ([], r)"
| "parse_initial_state R state_index (prediction # predictions) r =
     bind_result (sr_read_signed_at R state_index r) (\<lambda>(delta, r).
     bind_result (parse_initial_state R (Suc state_index) predictions r) (\<lambda>(states, r).
       Inr ((prediction + word_of_int delta) # states, r)))"

fun parse_initial_contexts ::
  "'r symbol_reader \<Rightarrow> nat \<Rightarrow> initial_state \<Rightarrow> 'r \<Rightarrow> (initial_state_set \<times> 'r) result" where
  "parse_initial_contexts R 0 previous r = Inr ([], r)"
| "parse_initial_contexts R (Suc n) previous r =
     bind_result (parse_initial_state R 0 previous r) (\<lambda>(states, r).
     bind_result (parse_initial_contexts R n states r) (\<lambda>(contexts, r). Inr (states # contexts, r)))"

definition parse_initial_state_set ::
  "'r symbol_reader \<Rightarrow> quant_table_set \<Rightarrow> 'r \<Rightarrow> (initial_state_set \<times> 'r) result" where
  "parse_initial_state_set R table_set r =
     bind_result (sr_read_bool R r) (\<lambda>(flag, r).
       if flag then parse_initial_contexts R (qt_context_count table_set) (replicate kInitialStateSize 128) r
       else Inr ([], r))"

fun parse_initial_state_sets ::
  "'r symbol_reader \<Rightarrow> quant_table_set list \<Rightarrow> 'r \<Rightarrow> (initial_state_set list \<times> 'r) result" where
  "parse_initial_state_sets R [] r = Inr ([], r)"
| "parse_initial_state_sets R (table_set # sets) r =
     bind_result (parse_initial_state_set R table_set r) (\<lambda>(states, r).
     bind_result (parse_initial_state_sets R sets r) (\<lambda>(rest, r). Inr (states # rest, r)))"

subsection \<open>The stages of \<open>ConfigurationParser::parse\<close>\<close>

definition parse_version ::
  "'r symbol_reader \<Rightarrow> stream_parameters \<Rightarrow> 'r \<Rightarrow> (stream_parameters \<times> 'r) result" where
  "parse_version R stream r =
     bind_result (sr_read_unsigned R r) (\<lambda>(value, r).
       if value \<noteq> 0 \<and> value \<noteq> 1 \<and> value \<noteq> 3 then Inl (make_error UnsupportedFeature)
       else
         let stream = stream\<lparr>sp_version := uint value\<rparr> in
         if 3 \<le> sp_version stream then
           bind_result (sr_read_unsigned R r) (\<lambda>(value, r).
             if int32_max < uint value then Inl (make_error SyntaxError)
             else if value < 4 then Inl (make_error UnsupportedFeature)
             else Inr (stream\<lparr>sp_micro_version := uint value\<rparr>, r))
         else Inr (stream, r))"

text \<open>
  The custom transition table: states 1 to 255 are deltas to the default table, which is the one the
  description starts with. The sum is a signed 64-bit addition in the code.
\<close>

fun parse_state_transition ::
  "'r symbol_reader \<Rightarrow> u8 list \<Rightarrow> 'r \<Rightarrow> (u8 list \<times> 'r) result" where
  "parse_state_transition R [] r = Inr ([], r)"
| "parse_state_transition R (old # olds) r =
     bind_result (sr_read_signed R r) (\<lambda>(delta, r).
       let transition = uint old + delta in
       if transition < 0 \<or> 255 < transition then Inl (make_error SyntaxError)
       else bind_result (parse_state_transition R olds r) (\<lambda>(states, r).
              Inr (word_of_int transition # states, r)))"

text \<open>The second component tells whether a custom transition table is to be applied at the end.\<close>

definition parse_coder_type ::
  "'r symbol_reader \<Rightarrow> stream_parameters \<Rightarrow> 'r \<Rightarrow> ((stream_parameters \<times> bool) \<times> 'r) result" where
  "parse_coder_type R stream r =
     bind_result (sr_read_unsigned R r) (\<lambda>(value, r).
       if value = 0 then Inr ((stream\<lparr>sp_entropy_mode := GolombRiceMode\<rparr>, False), r)
       else if value = 1 then Inr ((stream\<lparr>sp_entropy_mode := RangeMode\<rparr>, False), r)
       else if value = 2 then
         bind_result (parse_state_transition R (tl (sp_state_transition stream)) r) (\<lambda>(states, r).
           Inr ((stream\<lparr>sp_entropy_mode := RangeMode,
                        sp_state_transition := hd (sp_state_transition stream) # states\<rparr>, True), r))
       else Inl (make_error UnsupportedFeature))"

definition parse_colorspace ::
  "'r symbol_reader \<Rightarrow> stream_parameters \<Rightarrow> 'r \<Rightarrow> (stream_parameters \<times> 'r) result" where
  "parse_colorspace R stream r =
     bind_result (sr_read_unsigned R r) (\<lambda>(value, r).
       if int32_max < uint value then Inl (make_error SyntaxError)
       else
         let stream = stream\<lparr>sp_colorspace_type := uint value\<rparr> in
         if \<not> is_supported_syntax_colorspace (sp_colorspace_type stream) then Inl (make_error UnsupportedFeature)
         else Inr (stream, r))"

definition parse_bit_depth ::
  "'r symbol_reader \<Rightarrow> stream_parameters \<Rightarrow> 'r \<Rightarrow> (stream_parameters \<times> 'r) result" where
  "parse_bit_depth R stream r =
     (if 1 \<le> sp_version stream then
        bind_result (sr_read_unsigned R r) (\<lambda>(value, r).
          if 16 < value then Inl (make_error UnsupportedFeature)
          else
            let decoded_bits_per_raw_sample = (if value = 0 then 8 else ucast value :: u8) in
            if \<not> is_supported_decoder_bit_depth decoded_bits_per_raw_sample
            then Inl (make_error UnsupportedFeature)
            else Inr (stream\<lparr>sp_bits_per_raw_sample := decoded_bits_per_raw_sample\<rparr>, r))
      else Inr (stream, r))"

definition parse_planes ::
  "'r symbol_reader \<Rightarrow> stream_parameters \<Rightarrow> 'r \<Rightarrow> (stream_parameters \<times> 'r) result" where
  "parse_planes R stream r =
     bind_result (sr_read_bool R r) (\<lambda>(chroma, r).
     bind_result (sr_read_unsigned R r) (\<lambda>(log2_h, r).
     if 255 < log2_h then Inl (make_error SyntaxError)
     else
       bind_result (sr_read_unsigned R r) (\<lambda>(log2_v, r).
       if 255 < log2_v then Inl (make_error SyntaxError)
       else
         bind_result (sr_read_bool R r) (\<lambda>(extra, r).
           let stream = stream\<lparr>sp_chroma_planes := chroma, sp_log2_h_chroma_subsample := ucast log2_h,
                               sp_log2_v_chroma_subsample := ucast log2_v, sp_extra_plane := extra\<rparr>
           in if has_invalid_rgb_geometry (sp_colorspace_type stream = 1) (sp_chroma_planes stream)
                   (sp_log2_h_chroma_subsample stream) (sp_log2_v_chroma_subsample stream)
              then Inl (make_error SyntaxError)
              else Inr (stream, r)))))"

definition checked_u32 :: "u64 \<Rightarrow> u32 result" where
  "checked_u32 value =
     (if 2 ^ 32 - 1 < value then Inl (make_error SyntaxError) else Inr (ucast value))"

text \<open>The slice grid of version 3, and the number of table sets.\<close>

definition parse_slice_grid ::
  "'r symbol_reader \<Rightarrow> stream_parameters \<Rightarrow> 'r \<Rightarrow> ((stream_parameters \<times> u64) \<times> 'r) result" where
  "parse_slice_grid R stream r =
     (if 3 \<le> sp_version stream then
        bind_result (sr_read_unsigned R r) (\<lambda>(value, r).
        if 2 ^ 32 - 1 \<le> value then Inl (make_error SyntaxError)
        else
          bind_result (checked_u32 (value + 1)) (\<lambda>num_h.
          bind_result (sr_read_unsigned R r) (\<lambda>(value, r).
          if 2 ^ 32 - 1 \<le> value then Inl (make_error SyntaxError)
          else
            bind_result (checked_u32 (value + 1)) (\<lambda>num_v.
              let byte_offset = sr_byte_position R r in
              bind_result (sr_read_unsigned R r) (\<lambda>(quant_table_set_count, r).
                if quant_table_set_count = 0 \<or> kMaxQuantTableSetCount < quant_table_set_count
                then Inl (make_byte_error SyntaxError byte_offset)
                else Inr ((stream\<lparr>sp_num_h_slices := num_h, sp_num_v_slices := num_v\<rparr>,
                           quant_table_set_count), r))))))
      else Inr ((stream, 1), r))"

definition parse_tables ::
  "'r symbol_reader \<Rightarrow> stream_parameters \<Rightarrow> u64 \<Rightarrow> 'r \<Rightarrow> (stream_parameters \<times> 'r) result" where
  "parse_tables R stream quant_table_set_count r =
     bind_result (parse_quant_table_sets R (replicate (unat quant_table_set_count) new_quant_table_set) r)
       (\<lambda>(sets, r). Inr (stream\<lparr>sp_quant_table_sets := sets\<rparr>, r))"

definition parse_trailer ::
  "'r symbol_reader \<Rightarrow> stream_parameters \<Rightarrow> 'r \<Rightarrow> (stream_parameters \<times> 'r) result" where
  "parse_trailer R stream r =
     (if 3 \<le> sp_version stream then
        bind_result (parse_initial_state_sets R (sp_quant_table_sets stream) r) (\<lambda>(states, r).
        bind_result (sr_read_unsigned R r) (\<lambda>(ec, r).
        if 1 < ec then Inl (make_error UnsupportedFeature)
        else
          bind_result (sr_read_unsigned R r) (\<lambda>(intra, r).
          if 1 < intra then Inl (make_error UnsupportedFeature)
          else Inr (stream\<lparr>sp_initial_states := states, sp_error_status_enabled := (ec = 1),
                           sp_intra_only := (intra = 1)\<rparr>, r))))
      else Inr (stream, r))"

definition parse_configuration ::
  "'r symbol_reader \<Rightarrow> 'r \<Rightarrow> (stream_parameters \<times> 'r) result" where
  "parse_configuration R r =
     bind_result (parse_version R new_stream_parameters r) (\<lambda>(stream, r).
     bind_result (parse_coder_type R stream r) (\<lambda>((stream, apply_custom_state_transition), r).
     bind_result (parse_colorspace R stream r) (\<lambda>(stream, r).
     bind_result (parse_bit_depth R stream r) (\<lambda>(stream, r).
     bind_result (parse_planes R stream r) (\<lambda>(stream, r).
     bind_result (parse_slice_grid R stream r) (\<lambda>((stream, quant_table_set_count), r).
     bind_result (parse_tables R stream quant_table_set_count r) (\<lambda>(stream, r).
     bind_result (parse_trailer R stream r) (\<lambda>(stream, r).
       if apply_custom_state_transition then
         bind_result (sr_set_state_transition R (sp_state_transition stream) r) (\<lambda>r. Inr (stream, r))
       else Inr (stream, r)))))))))"

end
