(* ===== verification/Configuration_Writer.thy ===== *)
theory Configuration_Writer
  imports Configuration_Parser
begin

text \<open>
  The writer of the stream parameters (\<^verbatim>\<open>src/src/codec/configuration_record_writer.cpp\<close>), over an
  arbitrary symbol writer.
\<close>

subsection \<open>Quantization tables\<close>

definition validate_quant_table_mirror :: "int list \<Rightarrow> unit result" where
  "validate_quant_table_mirror table =
     (if list_ex (\<lambda>m. table ! (256 - m) \<noteq> - (table ! m)) [1..<128] then Inl (make_error InvalidState)
      else if table ! 128 \<noteq> - (table ! 127) then Inl (make_error InvalidState)
      else Inr ())"

text \<open>The inner loop: the length of the run of \<open>expected\<close> that starts at entry \<open>k\<close>.\<close>

function run_length :: "int list \<Rightarrow> int \<Rightarrow> nat \<Rightarrow> nat" where
  "run_length table expected k =
     (if k < 128 \<and> table ! k = expected then Suc (run_length table expected (Suc k)) else 0)"
  by pat_completeness auto
termination by (relation "measure (\<lambda>(table, expected, k). 128 - k)") auto

declare run_length.simps [simp del]

function write_quant_runs ::
  "'w symbol_writer \<Rightarrow> int list \<Rightarrow> int \<Rightarrow> nat \<Rightarrow> int \<Rightarrow> 'w \<Rightarrow> (int \<times> 'w) result" where
  "write_quant_runs W table scale k v w =
     (if k < 128 then
        if v \<noteq> 0 \<and> int64_max div v < scale then Inl (make_error InvalidState)
        else
          let expected = scale * v in
          if table ! k \<noteq> expected then Inl (make_error InvalidState)
          else
            let len = run_length table expected k in
            if len = 0 then Inl (make_error InvalidState)
            else bind_result (sw_write_unsigned W (word_of_nat (len - 1)) w)
                   (write_quant_runs W table scale (k + len) (v + 1))
      else Inr (v, w))"
  by pat_completeness auto
termination by (relation "measure (\<lambda>(W, table, scale, k, v, w). 128 - k)") auto

declare write_quant_runs.simps [simp del]

definition write_quant_table ::
  "'w symbol_writer \<Rightarrow> int list \<Rightarrow> int \<Rightarrow> 'w \<Rightarrow> (int \<times> 'w) result" where
  "write_quant_table W table scale w =
     bind_result (validate_quant_table_mirror table) (\<lambda>_. write_quant_runs W table scale 0 0 w)"

text \<open>
  The loop over the five tables; the result is the final scale. When a table fails, the code still
  calls \<open>end_independent_scalar_contexts\<close>, which pops the contexts that the successful call above has
  pushed and so does not fail on the range encoder; the error returned is the table's.
\<close>

fun write_quant_tables ::
  "'w symbol_writer \<Rightarrow> int list list \<Rightarrow> int \<Rightarrow> 'w \<Rightarrow> (int \<times> 'w) result" where
  "write_quant_tables W [] scale w = Inr (scale, w)"
| "write_quant_tables W (table # tables) scale w =
     bind_result (sw_begin_contexts W 1 w) (\<lambda>w.
     bind_result (write_quant_table W table scale w) (\<lambda>(len_count, w).
     bind_result (sw_end_contexts W w) (\<lambda>w.
       let multiplier = 2 * len_count - 1 in
       if multiplier \<le> 0 \<or> int64_max div multiplier < scale then Inl (make_error InvalidState)
       else write_quant_tables W tables (scale * multiplier) w)))"

definition write_quant_table_set ::
  "'w symbol_writer \<Rightarrow> quant_table_set \<Rightarrow> 'w \<Rightarrow> 'w result" where
  "write_quant_table_set W table_set w =
     bind_result (write_quant_tables W (qt_tables table_set) 1 w) (\<lambda>(scale, w).
       let context_count = (word_of_int ((scale + 1) div 2) :: u32) in
       if qt_context_count table_set \<noteq> unat context_count then Inl (make_error InvalidState)
       else Inr w)"

subsection \<open>Initial states\<close>

definition has_coded_initial_state_set :: "initial_state_set \<Rightarrow> bool" where
  "has_coded_initial_state_set state_set \<longleftrightarrow> state_set \<noteq> []"

fun write_initial_state ::
  "'w symbol_writer \<Rightarrow> nat \<Rightarrow> initial_state \<Rightarrow> initial_state \<Rightarrow> 'w \<Rightarrow> 'w result" where
  "write_initial_state W state_index (prediction # predictions) (current # states) w =
     bind_result (sw_write_signed_at W state_index (uint current - uint prediction) w)
       (write_initial_state W (Suc state_index) predictions states)"
| "write_initial_state W state_index _ _ w = Inr w"

fun write_initial_contexts ::
  "'w symbol_writer \<Rightarrow> initial_state \<Rightarrow> initial_state_set \<Rightarrow> 'w \<Rightarrow> 'w result" where
  "write_initial_contexts W previous [] w = Inr w"
| "write_initial_contexts W previous (current # contexts) w =
     bind_result (write_initial_state W 0 previous current w) (write_initial_contexts W current contexts)"

definition write_initial_state_set ::
  "'w symbol_writer \<Rightarrow> initial_state_set \<Rightarrow> 'w \<Rightarrow> 'w result" where
  "write_initial_state_set W state_set w =
     bind_result (sw_write_bool W (has_coded_initial_state_set state_set) w) (\<lambda>w.
       if \<not> has_coded_initial_state_set state_set then Inr w
       else write_initial_contexts W (replicate kInitialStateSize 128) state_set w)"

subsection \<open>The whole description\<close>

definition has_custom_state_transition :: "stream_parameters \<Rightarrow> bool" where
  "has_custom_state_transition stream \<longleftrightarrow>
     sp_entropy_mode stream = RangeMode \<and> sp_state_transition stream \<noteq> kDefaultStateTransition"

fun initial_state_counts_match :: "initial_state_set list \<Rightarrow> quant_table_set list \<Rightarrow> bool" where
  "initial_state_counts_match (contexts # states) (table_set # sets) \<longleftrightarrow>
     (contexts = [] \<or> length contexts = qt_context_count table_set) \<and> initial_state_counts_match states sets"
| "initial_state_counts_match _ _ \<longleftrightarrow> True"

text \<open>The check of the entropy mode itself is always passed by a value of the enumeration.\<close>

definition validate_initial_profile :: "stream_parameters \<Rightarrow> unit result" where
  "validate_initial_profile stream =
     (if sp_version stream \<noteq> 3 \<or> sp_micro_version stream \<noteq> 4 then Inl (make_error UnsupportedFeature)
      else if sp_entropy_mode stream = GolombRiceMode \<and> \<not> is_supported_encoder_bit_depth (sp_bits_per_raw_sample stream)
      then Inl (make_error UnsupportedFeature)
      else if \<not> is_supported_syntax_colorspace (sp_colorspace_type stream)
              \<or> \<not> is_supported_encoder_bit_depth (sp_bits_per_raw_sample stream)
      then Inl (make_error UnsupportedFeature)
      else if has_invalid_rgb_geometry (sp_colorspace_type stream = 1) (sp_chroma_planes stream)
                (sp_log2_h_chroma_subsample stream) (sp_log2_v_chroma_subsample stream)
      then Inl (make_error InvalidArgument)
      else if has_subsampling_without_chroma (sp_chroma_planes stream)
                (sp_log2_h_chroma_subsample stream) (sp_log2_v_chroma_subsample stream)
      then Inl (make_error InvalidArgument)
      else if \<not> is_supported_chroma_subsampling (sp_log2_h_chroma_subsample stream) (sp_log2_v_chroma_subsample stream)
      then Inl (make_error UnsupportedFeature)
      else if sp_num_h_slices stream = 0 \<or> sp_num_v_slices stream = 0 then Inl (make_error InvalidArgument)
      else if sp_quant_table_sets stream = [] \<or> 8 < length (sp_quant_table_sets stream)
      then Inl (make_error InvalidArgument)
      else if list_ex (\<lambda>table_set. qt_context_count table_set = 0) (sp_quant_table_sets stream)
      then Inl (make_error InvalidState)
      else if sp_initial_states stream \<noteq> [] \<and> length (sp_initial_states stream) \<noteq> length (sp_quant_table_sets stream)
      then Inl (make_error InvalidState)
      else if \<not> initial_state_counts_match (sp_initial_states stream) (sp_quant_table_sets stream)
      then Inl (make_error InvalidState)
      else Inr ())"

definition write_coder_type :: "'w symbol_writer \<Rightarrow> stream_parameters \<Rightarrow> 'w \<Rightarrow> 'w result" where
  "write_coder_type W stream w =
     bind_result (sw_write_unsigned W
        (if sp_entropy_mode stream = GolombRiceMode then 0
         else if has_custom_state_transition stream then 2 else 1) w) (\<lambda>w.
       if has_custom_state_transition stream
       then fold_result (\<lambda>state. sw_write_signed W
              (uint (sp_state_transition stream ! state) - uint (kDefaultStateTransition ! state)))
              [1..<length (sp_state_transition stream)] w
       else Inr w)"

definition write_geometry :: "'w symbol_writer \<Rightarrow> stream_parameters \<Rightarrow> 'w \<Rightarrow> 'w result" where
  "write_geometry W stream w =
     bind_result (sw_write_unsigned W (word_of_int (sp_colorspace_type stream)) w) (\<lambda>w.
     bind_result (sw_write_unsigned W (ucast (sp_bits_per_raw_sample stream)) w) (\<lambda>w.
     bind_result (sw_write_bool W (sp_chroma_planes stream) w) (\<lambda>w.
     bind_result (sw_write_unsigned W (ucast (sp_log2_h_chroma_subsample stream)) w) (\<lambda>w.
     bind_result (sw_write_unsigned W (ucast (sp_log2_v_chroma_subsample stream)) w) (\<lambda>w.
     bind_result (sw_write_bool W (sp_extra_plane stream) w) (\<lambda>w.
     bind_result (sw_write_unsigned W (ucast (sp_num_h_slices stream - 1)) w) (\<lambda>w.
     bind_result (sw_write_unsigned W (ucast (sp_num_v_slices stream - 1)) w) (\<lambda>w.
       sw_write_unsigned W (word_of_nat (length (sp_quant_table_sets stream))) w))))))))"

definition write_states_and_flags :: "'w symbol_writer \<Rightarrow> stream_parameters \<Rightarrow> 'w \<Rightarrow> 'w result" where
  "write_states_and_flags W stream w =
     bind_result
       (if sp_initial_states stream = []
        then fold_result (\<lambda>_. sw_write_bool W False) (sp_quant_table_sets stream) w
        else fold_result (write_initial_state_set W) (sp_initial_states stream) w) (\<lambda>w.
     bind_result (sw_write_unsigned W (if sp_error_status_enabled stream then 1 else 0) w) (\<lambda>w.
       sw_write_unsigned W (if sp_intra_only stream then 1 else 0) w))"

definition write_parameters :: "'w symbol_writer \<Rightarrow> stream_parameters \<Rightarrow> 'w \<Rightarrow> 'w result" where
  "write_parameters W stream w =
     bind_result (validate_initial_profile stream) (\<lambda>_.
     bind_result (sw_write_unsigned W 3 w) (\<lambda>w.
     bind_result (sw_write_unsigned W 4 w) (\<lambda>w.
     bind_result (write_coder_type W stream w) (\<lambda>w.
     bind_result (write_geometry W stream w) (\<lambda>w.
     bind_result (fold_result (write_quant_table_set W) (sp_quant_table_sets stream) w) (\<lambda>w.
       write_states_and_flags W stream w))))))"

end
