(* ===== verification/Configuration_Record.thy ===== *)
theory Configuration_Record
  imports Configuration_Writer Range_Roundtrip Crc32
begin

text \<open>
  The configuration record: the stream parameters in range coding, followed for version 3 by four
  bytes of CRC parity. The writer is \<^verbatim>\<open>src/src/codec/configuration_record_writer.cpp\<close>, the parser
  \<^verbatim>\<open>src/src/codec/configuration_record_parser.cpp\<close>, which reads the version with a first reader to
  learn whether the parity is there.
\<close>

definition append_crc_parity :: "bytes \<Rightarrow> bytes result" where
  "append_crc_parity bytes =
     (if byte_vector_max_size - 4 < length bytes then Inl (make_error ResourceExhausted)
      else
        let crc = crc32_ieee_msb bytes
        in Inr (bytes @ [ucast (drop_bit 24 crc AND 0xff), ucast (drop_bit 16 crc AND 0xff),
                         ucast (drop_bit 8 crc AND 0xff), ucast (crc AND 0xff)]))"

definition write_configuration_record :: "stream_parameters \<Rightarrow> bytes result" where
  "write_configuration_record stream =
     bind_result (validate_initial_profile stream) (\<lambda>_.
     bind_result (re_reset kInitialStateSize kDefaultInitialState) (\<lambda>writer.
     bind_result (write_parameters range_symbol_writer stream writer) (\<lambda>writer.
     bind_result (re_finalize writer) (\<lambda>(record, _). append_crc_parity record))))"

definition check_crc_parity :: "u64 \<Rightarrow> bytes \<Rightarrow> bytes result" where
  "check_crc_parity version record =
     (if 3 \<le> version then
        (if length record < 4 then Inl (make_byte_error SyntaxError 0)
         else if crc32_ieee_msb record \<noteq> 0 then Inl (make_byte_error CrcMismatch (word_of_nat (length record - 4)))
         else Inr (take (length record - 4) record))
      else Inr record)"

definition parse_configuration_record :: "bytes \<Rightarrow> stream_parameters result" where
  "parse_configuration_record record =
     (if record = [] then Inl (make_error InvalidArgument)
      else
        bind_result (rc_reset record 1 kDefaultInitialState new_range_coder) (\<lambda>probe_reader.
        bind_result (rc_read_unsigned 0 0 probe_reader) (\<lambda>(version, _).
        bind_result (check_crc_parity version record) (\<lambda>parameter_payload.
        bind_result (rc_reset parameter_payload kInitialStateSize kDefaultInitialState new_range_coder) (\<lambda>reader.
        bind_result (parse_configuration range_symbol_reader reader) (\<lambda>(stream, _). Inr stream))))))"

subsection \<open>The parity bytes\<close>

lemma low_byte: "(ucast (w AND 0xff) :: u8) = ucast (w :: u32)"
proof -
  have "w AND 0xff = take_bit 8 w" by (simp add: take_bit_eq_mask mask_eq_exp_minus_1)
  then show ?thesis by (simp add: bit_eq_iff bit_ucast_iff bit_take_bit_iff)
qed

lemma append_crc_parity_eq:
  "append_crc_parity bytes =
    (if byte_vector_max_size - 4 < length bytes then Inl (make_error ResourceExhausted)
     else Inr (bytes @ be32 (crc32_ieee_msb bytes)))"
  by (simp add: append_crc_parity_def Let_def be32_def low_byte)

lemma check_crc_parity_append:
  assumes "append_crc_parity bytes = Inr record" and "3 \<le> version"
  shows "check_crc_parity version record = Inr bytes"
proof -
  have r: "record = bytes @ be32 (crc32_ieee_msb bytes)"
    using assms(1) by (simp add: append_crc_parity_eq split: if_splits)
  have "length (be32 (crc32_ieee_msb bytes)) = 4" by (simp add: be32_def)
  moreover have "crc32_ieee_msb record = 0" by (simp add: r crc32_append crc_be32)
  ultimately show ?thesis using assms(2) by (simp add: check_crc_parity_def r)
qed

subsection \<open>The first reader\<close>

text \<open>What a writer emits for a symbol does not depend on the other contexts.\<close>

lemma write_rac_contexts:
  "write_rac s v (e\<lparr>re_contexts := cs\<rparr>) =
    bind_result (write_rac s v e) (\<lambda>(s', e'). Inr (s', e'\<lparr>re_contexts := cs\<rparr>))"
  by (auto simp: write_rac_def Let_def bind_result_def split: sum.splits)

lemma write_decisions_contexts:
  "write_decisions ds st (e\<lparr>re_contexts := cs\<rparr>) =
    bind_result (write_decisions ds st e) (\<lambda>(st', e'). Inr (st', e'\<lparr>re_contexts := cs\<rparr>))"
proof (induction ds arbitrary: st e)
  case (Cons dec ds)
  obtain i v where dec: "dec = (i, v)" by (cases dec)
  show ?case
    by (cases "write_rac (st ! i) v e") (auto simp: dec write_rac_contexts Cons)
qed simp

lemma re_write_unsigned_contexts:
  assumes "re_write_unsigned b c v e = Inr e1"
    and "b < length (bank_sizes cs)" and "c < bank_sizes cs ! b"
    and "context_states b c cs = context_states b c (re_contexts e)"
  obtains e2 where "re_write_unsigned b c v (e\<lparr>re_contexts := cs\<rparr>) = Inr e2"
    and "re_low_bytes e2 = re_low_bytes e1" and "re_range e2 = re_range e1"
proof -
  let ?st = "context_states b c (re_contexts e)" and ?ds = "symbol_decisions False v False"
  from assms(1) obtain m stf ef where ok: "re_usable e = Inr ()" "\<not> 2 ^ 63 - 1 < v"
    "trial_symbol (re_state_transition e) ?ds ?st (re_range e) 0 = Inr m"
    "\<not> byte_vector_max_size - length (re_low_bytes e) < m"
    "write_decisions ?ds ?st e = Inr (stf, ef)"
    "e1 = ef\<lparr>re_contexts := set_context_states b c stf (re_contexts ef)\<rparr>"
    by (auto simp: re_write_unsigned_def re_write_symbol_def Let_def split: if_splits)
  have "re_usable (e\<lparr>re_contexts := cs\<rparr>) = Inr ()" using ok(1) by (simp add: re_usable_def split: if_splits)
  with ok assms(2-4) have "re_write_unsigned b c v (e\<lparr>re_contexts := cs\<rparr>) =
      Inr (ef\<lparr>re_contexts := set_context_states b c stf cs\<rparr>)"
    by (simp add: re_write_unsigned_def re_write_symbol_def Let_def write_decisions_contexts)
  then show thesis using that ok(6) by simp
qed

lemma prefix_value_append: "n \<le> length xs \<Longrightarrow> prefix_value (xs @ ys) n = prefix_value xs n"
  by (induction n) (simp_all add: nth_append)

lemma contains_append:
  "length (re_low_bytes e) \<le> length bs \<Longrightarrow> contains (bs @ ys) e = contains bs e"
  by (simp add: contains_def prefix_value_append)

end
