(* ===== verification/Configuration_Roundtrip.thy ===== *)
theory Configuration_Roundtrip
  imports Configuration_Record Range_Properties
begin

text \<open>
  The configuration parser reads back what the configuration writer has written. The lemmas about the
  stages hold for every reader and writer that satisfy the contract \<open>symbol_channel\<close>; the record
  theorem instantiates them with the range coder.
\<close>

subsection \<open>Runs\<close>

lemma run_length_bounds:
  "k \<le> 128 \<Longrightarrow> k + run_length table expected k \<le> 128"
  "i < run_length table expected k \<Longrightarrow> table ! (k + i) = expected"
proof (induction table expected k arbitrary: i rule: run_length.induct)
  case (1 table expected k)
  note IH = "1.IH"
  {
    case 1
    with IH(1) show ?case by (subst run_length.simps) (auto simp: not_le)
  next
    case 2
    then have run: "k < 128 \<and> table ! k = expected" "i < Suc (run_length table expected (Suc k))"
      by (subst (asm) run_length.simps, simp split: if_splits)+
    with IH(2) [OF run(1), of "i - 1"] show ?case by (cases i) simp_all
  }
qed

lemma take_run:
  assumes "k \<le> 128" and "128 \<le> length table"
  shows "take (k + run_length table expected k) table =
    take k table @ replicate (run_length table expected k) expected"
proof -
  have "take (run_length table expected k) (drop k table) = replicate (run_length table expected k) expected"
  proof (rule nth_equalityI)
    show len: "length (take (run_length table expected k) (drop k table)) =
        length (replicate (run_length table expected k) expected)"
      using run_length_bounds(1) [OF assms(1), of table expected] assms(2) by simp
    fix i assume "i < length (take (run_length table expected k) (drop k table))"
    then have i: "i < run_length table expected k" "k + i < length table" by auto
    with run_length_bounds(2) [OF i(1)] show "take (run_length table expected k) (drop k table) ! i =
        replicate (run_length table expected k) expected ! i" by simp
  qed
  then show ?thesis by (simp add: take_add)
qed

text \<open>A table of the form the writer accepts: 256 entries of \<open>int32_t\<close>.\<close>

definition wf_quant_table :: "int list \<Rightarrow> bool" where
  "wf_quant_table table \<longleftrightarrow> length table = kTableEntries \<and> (\<forall>x \<in> set table. in_int32 x)"

lemma mirror_validated:
  assumes "validate_quant_table_mirror table = Inr u" and "length table = kTableEntries"
    and "take 128 tbl = take 128 table" and "length tbl = kTableEntries"
  shows "mirror_quant_table tbl = table"
proof (rule nth_equalityI)
  show "length (mirror_quant_table tbl) = length table" using assms(2) by (simp add: mirror_quant_table_def)
  have low: "tbl ! i = table ! i" if "i < 128" for i
    using assms(3) that by (metis nth_take)
  from assms(1) have mirror: "\<And>m. 1 \<le> m \<Longrightarrow> m < 128 \<Longrightarrow> table ! (256 - m) = - (table ! m)"
      and mid: "table ! 128 = - (table ! 127)"
    by (auto simp: validate_quant_table_mirror_def list_ex_iff split: if_splits)
  fix i assume "i < length (mirror_quant_table tbl)"
  then have i: "i < 256" by (simp add: mirror_quant_table_def kTableEntries_def)
  then consider "i < 128" | "i = 128" | "128 < i" "1 \<le> 256 - i" "256 - i < 128" by linarith
  then show "mirror_quant_table tbl ! i = table ! i"
  proof cases
    case 3
    with mirror [of "256 - i"] low [of "256 - i"] i show ?thesis
      by (simp add: mirror_quant_table_def kTableEntries_def)
  qed (simp_all add: mirror_quant_table_def kTableEntries_def low mid)
qed

lemma matched_bind_result:
  assumes "matched k w w1 rd v" and "\<And>r. rd' v r = rd'' r" and "matched k w1 w2 rd'' v'"
  shows "matched k w w2 (\<lambda>r. bind_result (rd r) (\<lambda>(v, r). rd' v r)) v'"
  using assms by (intro matched_bind [where rd' = rd' and v = v]) (auto intro: matched_ext)

lemma matched_unit_op:
  assumes "matched k w w1 (unit_op f) ()" and "matched k w1 w2 rd' v'"
  shows "matched k w w2 (\<lambda>r. bind_result (f r) rd') v'"
  by (rule matched_ext [OF matched_bind [where rd' = "\<lambda>_. rd'", OF assms]])
    (simp add: unit_op_def bind_result_def split: sum.splits)

text \<open>The same for goals: the continuation is applied to the value that is read.\<close>

lemma matched_bindI:
  assumes "matched k w w1 rd v" and "matched k w1 w2 (\<lambda>r. f (v, r)) v'"
  shows "matched k w w2 (\<lambda>r. bind_result (rd r) f) v'"
  using matched_bind [OF assms(1), where rd' = "\<lambda>v r. f (v, r)", OF assms(2)] by simp

lemma matched_return:
  assumes "matched k w w' rd v"
  shows "matched k w w' (\<lambda>r. bind_result (rd r) (\<lambda>(v, r). Inr (f v, r))) (f v)"
  by (rule matched_cong [OF assms]) simp

lemma write_quant_runs_step:
  assumes "write_quant_runs W table scale k v w = Inr (n, w')" and "k < 128"
  obtains w1 where "table ! k = scale * v" and "run_length table (scale * v) k \<noteq> 0"
    and "sw_write_unsigned W (word_of_nat (run_length table (scale * v) k - 1)) w = Inr w1"
    and "write_quant_runs W table scale (k + run_length table (scale * v) k) (v + 1) w1 = Inr (n, w')"
  using assms unfolding write_quant_runs.simps [of W table scale k v w] Let_def
  by (simp split: if_splits) blast

lemma parse_quant_runs_done: "parse_quant_runs R scale 128 v table = (\<lambda>r. Inr ((v, table), r))"
  by (rule ext, subst parse_quant_runs.simps) simp

text \<open>The reader's step after the length is read, and its value for a run inside the table.\<close>

definition quant_run_step ::
  "'r symbol_reader \<Rightarrow> int \<Rightarrow> nat \<Rightarrow> int \<Rightarrow> int list \<Rightarrow> u64 \<Rightarrow> 'r \<Rightarrow> ((int \<times> int list) \<times> 'r) result" where
  "quant_run_step R scale k v table len_minus_one r =
     (let remaining = (word_of_nat (128 - k) :: u64) in
      if remaining \<le> len_minus_one \<and> k = 0 then Inl (make_error SyntaxError)
      else
        let len = unat (min (len_minus_one + 1) remaining) in
        if int32_max div max scale 1 < v then Inl (make_error SyntaxError)
        else
          let stored = to_int32 (scale * v)
          in parse_quant_runs R scale (k + len) (v + 1)
               (take k table @ replicate len stored @ drop (k + len) table) r)"

lemma parse_quant_runs_unfold:
  "k < 128 \<Longrightarrow> parse_quant_runs R scale k v table r =
    bind_result (sr_read_unsigned R r) (\<lambda>(len, r). quant_run_step R scale k v table len r)"
  by (subst parse_quant_runs.simps) (simp only: if_True quant_run_step_def [abs_def])

lemma quant_run_step_in_table:
  assumes "k + len \<le> 128" and "len \<noteq> 0" and "1 \<le> scale" and "in_int32 (scale * v)"
  shows "quant_run_step R scale k v table (word_of_nat (len - 1)) r =
    parse_quant_runs R scale (k + len) (v + 1)
      (take k table @ replicate len (scale * v) @ drop (k + len) table) r"
proof -
  have "v * scale \<le> int32_max"
    using assms(4) by (simp add: in_int32_def int32_max_def mult.commute)
  then have "v * scale div scale \<le> int32_max div scale" using assms(3) by (intro zdiv_mono1) simp_all
  then have "v \<le> int32_max div scale" using assms(3) by simp
  then have room: "\<not> int32_max div max scale 1 < v" using assms(3) by (simp only: max_absorb1 not_less)
  have small: "len - 1 < 2 ^ LENGTH(64)" "128 - k < 2 ^ LENGTH(64)" using assms(1,2) by simp_all
  have a: "unat (word_of_nat (len - 1) :: u64) = len - 1" by (rule unat_of_nat_bounded [OF small(1)])
  have one: "unat (word_of_nat (len - 1) + 1 :: u64) = len"
  proof -
    have "unat (word_of_nat (len - 1) + 1 :: u64) = len - 1 + 1"
      using unat_add_bounded [of "word_of_nat (len - 1) :: u64" 1, unfolded a unat_1] assms(1,2) by simp
    then show ?thesis using assms(2) by simp
  qed
  have rem: "unat (word_of_nat (128 - k) :: u64) = 128 - k" by (rule unat_of_nat_bounded [OF small(2)])
  have "\<not> (word_of_nat (128 - k) :: u64) \<le> word_of_nat (len - 1)"
    unfolding word_le_nat_alt a rem using assms(1,2) by simp
  moreover have "unat (min (word_of_nat (len - 1) + 1) (word_of_nat (128 - k)) :: u64) = len"
    unfolding min_def word_le_nat_alt one rem using assms(1) one by simp
  ultimately show ?thesis
    using room assms(4) by (simp only: quant_run_step_def Let_def simp_thms if_False to_int32_id)
qed

lemma read_all_replicate: "read_all f (replicate (length xs) q) r = read_all (\<lambda>_. f q) xs r"
  by (induction xs arbitrary: r) simp_all

text \<open>
  The product of the run counts stays below \<open>3 * 2 ^ 31\<close>, because the entries are \<open>int32_t\<close>; the cast of
  the context count to 32 bits in the writer is exact.
\<close>

lemma write_quant_runs_count:
  assumes "write_quant_runs W table scale i v w = Inr (n, w')" and "wf_quant_table table" and "i \<le> 128"
  shows "(i = 128 \<and> n = v) \<or> (v < n \<and> scale * (n - 1) \<le> int32_max)"
  using assms(1,3)
proof (induction "128 - i" arbitrary: i v w rule: less_induct)
  case less
  show ?case
  proof (cases "i < 128")
    case False
    with less.prems have "i = 128" by simp
    with less.prems(1) show ?thesis unfolding write_quant_runs.simps [of W table scale i] by simp
  next
    case True
    from write_quant_runs_step [OF less.prems(1) True] obtain w1
      where entry: "table ! i = scale * v" and pos: "run_length table (scale * v) i \<noteq> 0"
        and rest: "write_quant_runs W table scale (i + run_length table (scale * v) i) (v + 1) w1 = Inr (n, w')"
      by blast
    have "i < length table" using True assms(2) by (simp add: wf_quant_table_def kTableEntries_def)
    with entry assms(2) have "scale * v \<le> int32_max"
      using nth_mem [of i table] by (auto simp: wf_quant_table_def in_int32_def int32_max_def)
    moreover have "(n = v + 1) \<or> (v + 1 < n \<and> scale * (n - 1) \<le> int32_max)"
      using less.hyps [OF _ rest run_length_bounds(1) [OF less.prems(2)]] pos True by auto
    ultimately show ?thesis by auto
  qed
qed

lemma write_quant_tables_scale:
  assumes "write_quant_tables W tables scale w = Inr (scale', w')" and "list_all wf_quant_table tables"
    and "1 \<le> scale" and "scale \<le> 3 * int32_max"
  shows "1 \<le> scale' \<and> scale' \<le> 3 * int32_max"
  using assms
proof (induction tables arbitrary: scale w)
  case Nil
  then show ?case by simp
next
  case (Cons table tables)
  from Cons.prems(1) obtain w1 n w2 w3
    where run: "write_quant_table W table scale w1 = Inr (n, w2)"
      and ok: "\<not> (2 * n - 1 \<le> 0 \<or> int64_max div (2 * n - 1) < scale)"
      and rest: "write_quant_tables W tables (scale * (2 * n - 1)) w3 = Inr (scale', w')"
    by (auto simp: Let_def split: if_splits)
  from run have "write_quant_runs W table scale 0 0 w1 = Inr (n, w2)" by (auto simp: write_quant_table_def)
  with Cons.prems(2) write_quant_runs_count [of W table scale 0 0 w1 n w2]
  have n: "0 < n" "scale * (n - 1) \<le> int32_max" by auto
  have "scale * (2 * n - 1) \<le> 3 * int32_max"
  proof (cases "n = 1")
    case True
    with Cons.prems(4) show ?thesis by simp
  next
    case False
    with n(1) have "scale * 1 \<le> scale * (n - 1)" using Cons.prems(3) by (intro mult_left_mono) simp_all
    with n(2) show ?thesis by (simp add: algebra_simps)
  qed
  moreover have "0 < scale * (2 * n - 1)" using ok Cons.prems(3) by (intro mult_pos_pos) simp_all
  ultimately show ?case using Cons.prems(2) by (intro Cons.IH [OF rest]) simp_all
qed

definition wf_quant_table_set :: "quant_table_set \<Rightarrow> bool" where
  "wf_quant_table_set table_set \<longleftrightarrow>
     length (qt_tables table_set) = kContextInputs \<and> list_all wf_quant_table (qt_tables table_set)
     \<and> qt_context_count table_set \<le> nat kMaxContextCount"

context symbol_channel
begin

lemma quant_runs_matched:
  assumes "winv k w" and "write_quant_runs W table scale i v w = Inr (n, w')" and "wf_quant_table table"
    and "i \<le> 128" and "1 \<le> scale" and "length tbl = kTableEntries" and "take i tbl = take i table"
  shows "matched k w w' (parse_quant_runs R scale i v tbl) (n, take 128 table @ drop 128 tbl)"
  using assms
proof (induction "128 - i" arbitrary: i v w tbl rule: less_induct)
  case less
  have tlen: "length table = 256" using less.prems(3) by (simp add: wf_quant_table_def kTableEntries_def)
  show ?case
  proof (cases "i < 128")
    case False
    with less.prems have i: "i = 128" by simp
    have "n = v \<and> w' = w"
      using less.prems(2) unfolding i write_quant_runs.simps [of W table scale 128] by simp
    moreover have "take 128 table @ drop 128 tbl = tbl"
      using less.prems(7) append_take_drop_id [of 128 tbl] i by simp
    ultimately show ?thesis
      using matched_refl [OF less.prems(1)] by (simp add: i parse_quant_runs_done)
  next
    case True
    define len where "len = run_length table (scale * v) i"
    from write_quant_runs_step [OF less.prems(2) True, folded len_def] obtain w1
      where entry: "table ! i = scale * v" and pos: "len \<noteq> 0"
        and w1: "sw_write_unsigned W (word_of_nat (len - 1)) w = Inr w1"
        and rest: "write_quant_runs W table scale (i + len) (v + 1) w1 = Inr (n, w')" by blast
    have len: "i + len \<le> 128" using run_length_bounds(1) [OF less.prems(4)] by (simp add: len_def)
    have small: "in_int32 (scale * v)"
      using less.prems(3) True tlen entry nth_mem [of i table] by (auto simp: wf_quant_table_def)
    let ?tbl = "take i tbl @ replicate len (scale * v) @ drop (i + len) tbl"
    have tbl: "length ?tbl = kTableEntries" "take (i + len) ?tbl = take (i + len) table" "drop 128 ?tbl = drop 128 tbl"
      using take_run [OF less.prems(4), of table "scale * v"] less.prems(6,7) tlen len True
      by (simp_all add: len_def [symmetric] kTableEntries_def)
    have head: "matched k w w1 (sr_read_unsigned R) (word_of_nat (len - 1))"
      using less.prems(1) w1 by (rule unsigned)
    have "matched k w1 w' (parse_quant_runs R scale (i + len) (v + 1) ?tbl) (n, take 128 table @ drop 128 ?tbl)"
      using pos len True by (intro less.hyps [OF _ matched_winv [OF head] rest less.prems(3) len less.prems(5) tbl(1,2)]) simp
    from matched_bind_result [OF head, of "quant_run_step R scale i v tbl", OF quant_run_step_in_table [OF len pos less.prems(5) small] this]
    have "matched k w w' (parse_quant_runs R scale i v tbl) (n, take 128 table @ drop 128 ?tbl)"
      unfolding parse_quant_runs_unfold [OF True, abs_def]
      .
    then show ?thesis by (simp only: tbl(3))
  qed
qed

lemma quant_table_matched:
  assumes "winv k w" and "write_quant_table W table scale w = Inr (n, w')" and "wf_quant_table table"
    and "1 \<le> scale" and "length tbl = kTableEntries"
  shows "matched k w w' (parse_quant_table R tbl scale) (n, table)"
proof -
  from assms(2) obtain u where u: "validate_quant_table_mirror table = Inr u"
    and run: "write_quant_runs W table scale 0 0 w = Inr (n, w')"
    by (auto simp: write_quant_table_def)
  have len: "length table = kTableEntries" using assms(3) by (simp add: wf_quant_table_def)
  let ?tbl = "take 128 table @ drop 128 tbl"
  have "mirror_quant_table ?tbl = table"
    using u len assms(5) by (intro mirror_validated) (simp_all add: kTableEntries_def)
  moreover have "matched k w w' (parse_quant_runs R scale 0 0 tbl) (n, ?tbl)"
    using assms by (intro quant_runs_matched [OF _ run]) simp_all
  ultimately show ?thesis by (auto simp: parse_quant_table_def intro: matched_cong)
qed

lemma quant_tables_matched:
  assumes "winv k w" and "write_quant_tables W tables scale w = Inr (scale', w')"
    and "list_all wf_quant_table tables" and "1 \<le> scale"
    and "length tbls = length tables" and "list_all (\<lambda>tbl. length tbl = kTableEntries) tbls"
  shows "matched k w w' (parse_quant_tables R tbls scale) (scale', tables)"
  using assms
proof (induction tables arbitrary: scale w tbls)
  case Nil
  then show ?case by (simp add: matched_def)
next
  case (Cons table tables)
  then obtain tbl tbls' where tbls: "tbls = tbl # tbls'" by (cases tbls) simp_all
  from Cons.prems(2) obtain w1 n w2 w3 where w1: "sw_begin_contexts W 1 w = Inr w1"
    and w2: "write_quant_table W table scale w1 = Inr (n, w2)" and w3: "sw_end_contexts W w2 = Inr w3"
    and ok: "\<not> (2 * n - 1 \<le> 0 \<or> int64_max div (2 * n - 1) < scale)"
    and rest: "write_quant_tables W tables (scale * (2 * n - 1)) w3 = Inr (scale', w')"
    by (auto simp: Let_def split: if_splits)
  have b: "matched k w w1 (unit_op (sr_begin_contexts R 1)) ()"
    using begin_contexts [OF Cons.prems(1) w1] .
  have t: "matched k w1 w2 (parse_quant_table R tbl scale) (n, table)"
    using Cons.prems(3-6) by (intro quant_table_matched [OF matched_winv [OF b] w2]) (simp_all add: tbls)
  have e: "matched k w2 w3 (unit_op (sr_end_contexts R)) ()"
    using end_contexts [OF matched_winv [OF t] w3] .
  have "0 < scale * (2 * n - 1)" using ok Cons.prems(4) by (intro mult_pos_pos) simp_all
  then have r: "matched k w3 w' (parse_quant_tables R tbls' (scale * (2 * n - 1))) (scale', tables)"
    using Cons.prems(3,5,6) by (intro Cons.IH [OF matched_winv [OF e] rest]) (simp_all add: tbls)
  let ?last = "\<lambda>r. bind_result (parse_quant_tables R tbls' (scale * (2 * n - 1)) r)
    (\<lambda>((scale, tables), r). Inr ((scale, table # tables), r))"
  have "matched k w3 w' ?last (scale', table # tables)"
    by (rule matched_cong [OF r]) simp
  from matched_unit_op [OF e this] have
    "matched k w2 w' (\<lambda>r. bind_result (sr_end_contexts R r) ?last) (scale', table # tables)" .
  with ok have "matched k w2 w' (\<lambda>r. bind_result (sr_end_contexts R r) (\<lambda>r. let multiplier = 2 * n - 1 in
      if multiplier \<le> 0 \<or> int64_max div multiplier < scale then Inl (make_error SyntaxError)
      else bind_result (parse_quant_tables R tbls' (scale * multiplier) r)
        (\<lambda>((scale, tables), r). Inr ((scale, table # tables), r)))) (scale', table # tables)"
    unfolding Let_def by (simp only: if_False)
  from matched_unit_op [OF b matched_bind [OF t, where rd' = "\<lambda>(n, table) r. bind_result (sr_end_contexts R r)
      (\<lambda>r. let multiplier = 2 * n - 1 in
        if multiplier \<le> 0 \<or> int64_max div multiplier < scale then Inl (make_error SyntaxError)
        else bind_result (parse_quant_tables R tbls' (scale * multiplier) r)
          (\<lambda>((scale, tables), r). Inr ((scale, table # tables), r)))", simplified prod.case, OF this]]
  show ?case by (simp only: tbls parse_quant_tables.simps case_prod_unfold)
qed

lemma quant_table_set_matched:
  assumes "winv k w" and "write_quant_table_set W table_set w = Inr w'" and "wf_quant_table_set table_set"
  shows "matched k w w' (parse_quant_table_set R new_quant_table_set) table_set"
proof -
  from assms(2) obtain scale where run: "write_quant_tables W (qt_tables table_set) 1 w = Inr (scale, w')"
    and count: "qt_context_count table_set = unat (word_of_int ((scale + 1) div 2) :: u32)"
    by (auto simp: write_quant_table_set_def Let_def split: if_splits)
  have wf: "list_all wf_quant_table (qt_tables table_set)" "length (qt_tables table_set) = kContextInputs"
    "qt_context_count table_set \<le> nat kMaxContextCount"
    using assms(3) by (simp_all add: wf_quant_table_set_def)
  have "1 \<le> scale \<and> scale \<le> 3 * int32_max"
    using write_quant_tables_scale [OF run wf(1)] by (simp add: int32_max_def)
  then have "1 \<le> scale" "scale \<le> 6442450941" by (simp_all add: int32_max_def)
  then have pos: "0 < (scale + 1) div 2" "(scale + 1) div 2 < 4294967296" by linarith+
  then have exact: "nat ((scale + 1) div 2) = qt_context_count table_set"
    unfolding count by (simp add: unat_eq_nat_uint uint_word_of_int_eq take_bit_int_eq_self)
  with wf(3) pos(1) have small: "(scale + 1) div 2 \<le> kMaxContextCount" by (simp add: kMaxContextCount_def)
  have "matched k w w' (parse_quant_tables R (qt_tables new_quant_table_set) 1) (scale, qt_tables table_set)"
    using wf by (intro quant_tables_matched [OF assms(1) run]) (simp_all add: new_quant_table_set_def list_all_iff)
  then show ?thesis
  proof (rule matched_cong)
    have nle: "\<not> ((scale + 1) div 2 \<le> 0 \<or> kMaxContextCount < (scale + 1) div 2)" using pos(1) small by linarith
    fix r r' assume "parse_quant_tables R (qt_tables new_quant_table_set) 1 r = Inr ((scale, qt_tables table_set), r')"
    then show "parse_quant_table_set R new_quant_table_set r = Inr (table_set, r')"
      unfolding parse_quant_table_set_def by (simp only: bind_result_Inr prod.case Let_def nle if_False exact) simp
  qed
qed

lemma parse_quant_table_sets_eq:
  "parse_quant_table_sets R sets = read_all (parse_quant_table_set R) sets"
proof (rule ext)
  show "parse_quant_table_sets R sets r = read_all (parse_quant_table_set R) sets r" for r
    by (induction sets arbitrary: r) simp_all
qed

lemma quant_table_sets_matched:
  assumes "winv k w" and "fold_result (write_quant_table_set W) sets w = Inr w'"
    and "list_all wf_quant_table_set sets"
  shows "matched k w w' (parse_quant_table_sets R (replicate (length sets) new_quant_table_set)) sets"
proof -
  have "matched k w w' (read_all (\<lambda>_. parse_quant_table_set R new_quant_table_set) sets) (map (\<lambda>x. x) sets)"
    using assms by (intro matched_all) (auto simp: list_all_iff intro: quant_table_set_matched)
  then show ?thesis
    by (auto simp: parse_quant_table_sets_eq read_all_replicate intro: matched_ext)
qed

end

definition wf_initial_state_set :: "initial_state_set \<Rightarrow> bool" where
  "wf_initial_state_set contexts \<longleftrightarrow> list_all (\<lambda>states. length states = kInitialStateSize) contexts"

text \<open>
  What the format keeps of a description: not the frame size, the first entry of a transition table or
  the difference between no initial states and empty ones.
\<close>

definition coded_state_transition :: "stream_parameters \<Rightarrow> state_transition_table" where
  "coded_state_transition stream =
     (if has_custom_state_transition stream
      then hd kDefaultStateTransition # tl (sp_state_transition stream) else kDefaultStateTransition)"

definition coded_initial_states :: "stream_parameters \<Rightarrow> initial_state_set list" where
  "coded_initial_states stream =
     (if sp_initial_states stream = [] then replicate (length (sp_quant_table_sets stream)) []
      else sp_initial_states stream)"

definition coded_parameters :: "stream_parameters \<Rightarrow> stream_parameters" where
  "coded_parameters stream =
     stream\<lparr>sp_width := 0, sp_height := 0, sp_initial_states := coded_initial_states stream,
            sp_state_transition := coded_state_transition stream\<rparr>"

text \<open>The sizes the types of the source guarantee, and the parser's limit on the contexts of a set.\<close>

definition wf_parameters :: "stream_parameters \<Rightarrow> bool" where
  "wf_parameters stream \<longleftrightarrow>
     length (sp_state_transition stream) = 256 \<and> list_all wf_quant_table_set (sp_quant_table_sets stream)
     \<and> list_all wf_initial_state_set (sp_initial_states stream)"

lemma in_int64_byte_difference: "in_int64 (uint (a :: u8) - uint (b :: u8))"
proof -
  have "uint a < 256" "uint b < 256" "0 \<le> uint a" "0 \<le> uint b"
    using uint_lt2p [of a] uint_lt2p [of b] by simp_all
  then have "- 256 \<le> uint a - uint b" "uint a - uint b \<le> 256" by linarith+
  then show ?thesis by (simp add: in_int64_def)
qed

lemma slice_count_coded:
  assumes "(n :: u32) \<noteq> 0"
  shows "\<not> 2 ^ 32 - 1 \<le> (ucast (n - 1) :: u64)" and "checked_u32 (ucast (n - 1) + 1) = Inr n"
proof -
  have "unat n \<noteq> 0" "unat n < 2 ^ 32" using assms unat_bound [of n] by (simp_all add: unat_eq_zero)
  moreover from this have n1: "unat (n - 1) = unat n - 1" by (subst unat_diff_bounded) simp_all
  ultimately have v: "unat (ucast (n - 1) :: u64) = unat n - 1" by simp
  with \<open>unat n \<noteq> 0\<close> \<open>unat n < 2 ^ 32\<close> show "\<not> 2 ^ 32 - 1 \<le> (ucast (n - 1) :: u64)"
    by (simp add: word_le_nat_alt)
  have v1: "unat (ucast (n - 1) + 1 :: u64) = unat n"
    using \<open>unat n \<noteq> 0\<close> \<open>unat n < 2 ^ 32\<close> unat_add_bounded [of "ucast (n - 1) :: u64" 1, unfolded v unat_1] by simp
  then have "unat (ucast (ucast (n - 1) + 1 :: u64) :: u32) = unat n"
    using \<open>unat n < 2 ^ 32\<close> by (subst unat_ucast_small) simp_all
  then have "ucast (ucast (n - 1) + 1 :: u64) = n" by (simp only: word_unat_eq_iff)
  moreover have "\<not> 2 ^ 32 - 1 < (ucast (n - 1) + 1 :: u64)"
    using v1 \<open>unat n < 2 ^ 32\<close> by (simp add: word_less_nat_alt)
  ultimately show "checked_u32 (ucast (n - 1) + 1) = Inr n" by (simp only: checked_u32_def if_False)
qed

lemma byte_in_u64: "unat (ucast (b :: u8) :: u64) = unat b" "ucast (ucast (b :: u8) :: u64) = b"
  by (simp_all add: bit_eq_iff bit_ucast_iff)

lemma validated_geometry:
  assumes "validate_initial_profile stream = Inr u"
  shows "sp_colorspace_type stream = 0 \<or> sp_colorspace_type stream = 1"
    and "1 \<le> sp_bits_per_raw_sample stream \<and> sp_bits_per_raw_sample stream \<le> 16"
    and "\<not> has_invalid_rgb_geometry (sp_colorspace_type stream = 1) (sp_chroma_planes stream)
           (sp_log2_h_chroma_subsample stream) (sp_log2_v_chroma_subsample stream)"
    and "sp_num_h_slices stream \<noteq> 0" and "sp_num_v_slices stream \<noteq> 0"
    and "0 < length (sp_quant_table_sets stream)" and "length (sp_quant_table_sets stream) \<le> 8"
    and "sp_version stream = 3" and "sp_micro_version stream = 4"
    and "sp_initial_states stream \<noteq> [] \<Longrightarrow> length (sp_initial_states stream) = length (sp_quant_table_sets stream)"
    and "initial_state_counts_match (sp_initial_states stream) (sp_quant_table_sets stream)"
  using assms unfolding validate_initial_profile_def is_supported_syntax_colorspace_def is_supported_encoder_bit_depth_def
  by (auto split: if_splits)

context symbol_channel
begin

lemma initial_state_matched:
  assumes "winv k w" and "write_initial_state W i preds states w = Inr w'" and "length preds = length states"
  shows "matched k w w' (parse_initial_state R i preds) states"
  using assms
proof (induction preds arbitrary: i states w)
  case Nil
  then show ?case by (simp add: matched_def)
next
  case (Cons p ps)
  then obtain c cs where states: "states = c # cs" by (cases states) simp_all
  with Cons.prems(2) obtain w1 where w1: "sw_write_signed_at W i (uint c - uint p) w = Inr w1"
    and rest: "write_initial_state W (Suc i) ps cs w1 = Inr w'" by auto
  have head: "matched k w w1 (sr_read_signed_at R i) (uint c - uint p)"
    using Cons.prems(1) in_int64_byte_difference w1 by (rule signed_at)
  have "matched k w1 w' (parse_initial_state R (Suc i) ps) cs"
    using Cons.prems(3) by (intro Cons.IH [OF matched_winv [OF head] rest]) (simp add: states)
  from matched_bindI [OF head, where f = "\<lambda>(delta, r). bind_result (parse_initial_state R (Suc i) ps r)
      (\<lambda>(states, r). Inr ((p + word_of_int delta) # states, r))"]
      matched_return [OF this, where f = "\<lambda>cs. c # cs"]
  show ?case by (simp add: states)
qed

lemma initial_contexts_matched:
  assumes "winv k w" and "write_initial_contexts W previous contexts w = Inr w'"
    and "length previous = kInitialStateSize" and "wf_initial_state_set contexts"
  shows "matched k w w' (parse_initial_contexts R (length contexts) previous) contexts"
  using assms
proof (induction contexts arbitrary: previous w)
  case Nil
  then show ?case by (simp add: matched_def)
next
  case (Cons c cs)
  from Cons.prems(2) obtain w1 where w1: "write_initial_state W 0 previous c w = Inr w1"
    and rest: "write_initial_contexts W c cs w1 = Inr w'" by auto
  have head: "matched k w w1 (parse_initial_state R 0 previous) c"
    using Cons.prems by (intro initial_state_matched [OF _ w1]) (simp_all add: wf_initial_state_set_def)
  have "matched k w1 w' (parse_initial_contexts R (length cs) c) cs"
    using Cons.prems by (intro Cons.IH [OF matched_winv [OF head] rest]) (simp_all add: wf_initial_state_set_def)
  from matched_bind [OF head, where rd' = "\<lambda>states r. bind_result (parse_initial_contexts R (length cs) states r)
      (\<lambda>(contexts, r). Inr (states # contexts, r))", OF matched_return [OF this]]
  show ?case by simp
qed

lemma initial_state_set_matched:
  assumes "winv k w" and "write_initial_state_set W contexts w = Inr w'"
    and "contexts = [] \<or> length contexts = qt_context_count table_set" and "wf_initial_state_set contexts"
  shows "matched k w w' (parse_initial_state_set R table_set) contexts"
proof -
  from assms(2) obtain w1 where w1: "sw_write_bool W (contexts \<noteq> []) w = Inr w1"
    and rest: "(if contexts = [] then Inr w1
      else write_initial_contexts W (replicate kInitialStateSize 128) contexts w1) = Inr w'"
    by (auto simp: write_initial_state_set_def has_coded_initial_state_set_def)
  note head = bool [OF assms(1) w1]
  show ?thesis
  proof (cases "contexts = []")
    case True
    with rest matched_refl [OF matched_winv [OF head]] show ?thesis
      unfolding parse_initial_state_set_def by (intro matched_bindI [OF head]) simp
  next
    case False
    with initial_contexts_matched [OF matched_winv [OF head], of "replicate kInitialStateSize 128" contexts w'] rest assms(3,4)
    show ?thesis
      unfolding parse_initial_state_set_def by (intro matched_bindI [OF head]) simp
  qed
qed

lemma initial_state_sets_matched:
  assumes "winv k w" and "fold_result (write_initial_state_set W) states w = Inr w'"
    and "initial_state_counts_match states sets" and "list_all wf_initial_state_set states"
    and "length states = length sets"
  shows "matched k w w' (parse_initial_state_sets R sets) states"
  using assms
proof (induction states arbitrary: sets w)
  case Nil
  then show ?case by (simp add: matched_refl)
next
  case (Cons c cs)
  then obtain ts tss where sets: "sets = ts # tss" by (cases sets) simp_all
  from Cons.prems(2) obtain w1 where w1: "write_initial_state_set W c w = Inr w1"
    and rest: "fold_result (write_initial_state_set W) cs w1 = Inr w'" by auto
  have head: "matched k w w1 (parse_initial_state_set R ts) c"
    using Cons.prems by (intro initial_state_set_matched [OF _ w1]) (simp_all add: sets)
  have "matched k w1 w' (parse_initial_state_sets R tss) cs"
    using Cons.prems by (intro Cons.IH [OF matched_winv [OF head] rest]) (simp_all add: sets)
  from matched_return [OF this, where f = "\<lambda>rest. c # rest"]
  show ?case unfolding sets parse_initial_state_sets.simps by (intro matched_bindI [OF head]) simp
qed

lemma no_initial_states_matched:
  assumes "winv k w" and "fold_result (\<lambda>_. sw_write_bool W False) sets w = Inr w'"
  shows "matched k w w' (parse_initial_state_sets R sets) (replicate (length sets) [])"
  using assms
proof (induction sets arbitrary: w)
  case Nil
  then show ?case by (simp add: matched_refl)
next
  case (Cons ts tss)
  from Cons.prems(2) obtain w1 where w1: "sw_write_bool W False w = Inr w1"
    and rest: "fold_result (\<lambda>_. sw_write_bool W False) tss w1 = Inr w'" by auto
  have head: "matched k w w1 (parse_initial_state_set R ts) []"
    using Cons.prems(1) w1
    by (intro initial_state_set_matched)
      (simp_all add: write_initial_state_set_def has_coded_initial_state_set_def wf_initial_state_set_def)
  have "matched k w1 w' (parse_initial_state_sets R tss) (replicate (length tss) [])"
    by (rule Cons.IH [OF matched_winv [OF head] rest])
  from matched_return [OF this, where f = "\<lambda>rest. [] # rest"]
  show ?case unfolding parse_initial_state_sets.simps by (intro matched_bindI [OF head]) simp
qed

lemma state_transition_matched:
  assumes "winv k w"
    and "fold_result (\<lambda>i. sw_write_signed W (uint (news ! i) - uint (olds ! i))) [m..<length news] w = Inr w'"
    and "length news = length olds" and "m \<le> length news"
  shows "matched k w w' (parse_state_transition R (drop m olds)) (drop m news)"
  using assms
proof (induction "length news - m" arbitrary: m w)
  case 0
  then show ?case by (simp add: matched_refl)
next
  case (Suc n)
  then have m: "m < length news" by simp
  then have cons: "drop m olds = olds ! m # drop (Suc m) olds" "drop m news = news ! m # drop (Suc m) news"
    using Suc.prems(3) by (simp_all add: Cons_nth_drop_Suc)
  from Suc.prems(2) obtain w1 where w1: "sw_write_signed W (uint (news ! m) - uint (olds ! m)) w = Inr w1"
    and rest: "fold_result (\<lambda>i. sw_write_signed W (uint (news ! i) - uint (olds ! i))) [Suc m..<length news] w1 = Inr w'"
    by (auto simp: upt_conv_Cons [OF m])
  note head = signed [OF Suc.prems(1) in_int64_byte_difference w1]
  have "matched k w1 w' (parse_state_transition R (drop (Suc m) olds)) (drop (Suc m) news)"
    using Suc m by (intro Suc.hyps(1) [OF _ matched_winv [OF head] rest]) simp_all
  from matched_return [OF this, where f = "\<lambda>states. news ! m # states"]
  show ?case
    unfolding cons parse_state_transition.simps using uint_lt2p [of "news ! m"]
    by (intro matched_bindI [OF head]) (simp add: Let_def not_less)
qed

lemma version_matched:
  assumes "winv k w" and "sw_write_unsigned W 3 w = Inr w1" and "sw_write_unsigned W 4 w1 = Inr w2"
  shows "matched k w w2 (parse_version R stream) (stream\<lparr>sp_version := 3, sp_micro_version := 4\<rparr>)"
proof -
  note head = unsigned [OF assms(1,2)]
  note second = unsigned [OF matched_winv [OF head] assms(3)]
  note last = matched_refl [OF matched_winv [OF second], of "stream\<lparr>sp_version := 3, sp_micro_version := 4\<rparr>"]
  show ?thesis
    unfolding parse_version_def
    by (rule matched_bindI [OF head], simp, rule matched_bindI [OF second], simp add: int32_max_def last)
qed

lemma coder_type_matched:
  assumes "winv k w" and "write_coder_type W stream w = Inr w'"
    and "sp_state_transition s0 = kDefaultStateTransition" and "length (sp_state_transition stream) = 256"
  shows "matched k w w' (parse_coder_type R s0)
    (s0\<lparr>sp_entropy_mode := sp_entropy_mode stream, sp_state_transition := coded_state_transition stream\<rparr>,
     has_custom_state_transition stream)"
proof -
  from assms(2) obtain w1 where w1: "sw_write_unsigned W
        (if sp_entropy_mode stream = GolombRiceMode then 0 else if has_custom_state_transition stream then 2 else 1) w = Inr w1"
    and rest: "(if has_custom_state_transition stream
       then fold_result (\<lambda>i. sw_write_signed W
              (uint (sp_state_transition stream ! i) - uint (kDefaultStateTransition ! i)))
              [1..<length (sp_state_transition stream)] w1
       else Inr w1) = Inr w'"
    by (auto simp: write_coder_type_def)
  note head = unsigned [OF assms(1) w1]
  note inv = matched_winv [OF head]
  have default_len: "length kDefaultStateTransition = 256" by (simp add: kDefaultStateTransition_def)
  have s0: "s0\<lparr>sp_entropy_mode := m, sp_state_transition := kDefaultStateTransition\<rparr> = s0\<lparr>sp_entropy_mode := m\<rparr>" for m
    using assms(3) by (cases s0) simp
  show ?thesis
  proof (cases "has_custom_state_transition stream")
    case False
    with rest have "w' = w1" by simp
    with False s0 matched_refl [OF inv] show ?thesis
      unfolding parse_coder_type_def by (intro matched_bindI [OF head])
        (cases "sp_entropy_mode stream"; simp add: coded_state_transition_def)
  next
    case True
    then have mode: "sp_entropy_mode stream = RangeMode" by (simp add: has_custom_state_transition_def)
    have "matched k w1 w' (parse_state_transition R (drop 1 kDefaultStateTransition)) (drop 1 (sp_state_transition stream))"
      using rest True by (intro state_transition_matched [OF inv]) (simp_all add: assms(4) default_len)
    from matched_return [OF this, where f = "\<lambda>states. (s0\<lparr>sp_entropy_mode := RangeMode,
        sp_state_transition := hd (sp_state_transition s0) # states\<rparr>, True)"]
    show ?thesis
      unfolding parse_coder_type_def using True mode
      by (intro matched_bindI [OF head]) (simp add: assms(3) coded_state_transition_def drop_Suc)
  qed
qed

lemma geometry_matched:
  assumes "winv k w" and "write_geometry W stream w = Inr w'" and "validate_initial_profile stream = Inr u"
    and "sp_version s0 = 3"
  shows "matched k w w'
    (\<lambda>r. bind_result (parse_colorspace R s0 r) (\<lambda>(stream, r).
       bind_result (parse_bit_depth R stream r) (\<lambda>(stream, r).
       bind_result (parse_planes R stream r) (\<lambda>(stream, r). parse_slice_grid R stream r))))
    (s0\<lparr>sp_colorspace_type := sp_colorspace_type stream, sp_bits_per_raw_sample := sp_bits_per_raw_sample stream,
        sp_chroma_planes := sp_chroma_planes stream,
        sp_log2_h_chroma_subsample := sp_log2_h_chroma_subsample stream,
        sp_log2_v_chroma_subsample := sp_log2_v_chroma_subsample stream,
        sp_extra_plane := sp_extra_plane stream,
        sp_num_h_slices := sp_num_h_slices stream, sp_num_v_slices := sp_num_v_slices stream\<rparr>,
     word_of_nat (length (sp_quant_table_sets stream)))"
proof -
  from assms(2) obtain w1 w2 w3 w4 w5 w6 w7 w8 where
    w1: "sw_write_unsigned W (word_of_int (sp_colorspace_type stream)) w = Inr w1" and
    w2: "sw_write_unsigned W (ucast (sp_bits_per_raw_sample stream)) w1 = Inr w2" and
    w3: "sw_write_bool W (sp_chroma_planes stream) w2 = Inr w3" and
    w4: "sw_write_unsigned W (ucast (sp_log2_h_chroma_subsample stream)) w3 = Inr w4" and
    w5: "sw_write_unsigned W (ucast (sp_log2_v_chroma_subsample stream)) w4 = Inr w5" and
    w6: "sw_write_bool W (sp_extra_plane stream) w5 = Inr w6" and
    w7: "sw_write_unsigned W (ucast (sp_num_h_slices stream - 1)) w6 = Inr w7" and
    w8: "sw_write_unsigned W (ucast (sp_num_v_slices stream - 1)) w7 = Inr w8" and
    w9: "sw_write_unsigned W (word_of_nat (length (sp_quant_table_sets stream))) w8 = Inr w'"
    by (auto simp: write_geometry_def)
  note m1 = unsigned [OF assms(1) w1]
  note m2 = unsigned [OF matched_winv [OF m1] w2]
  note m3 = bool [OF matched_winv [OF m2] w3]
  note m4 = unsigned [OF matched_winv [OF m3] w4]
  note m5 = unsigned [OF matched_winv [OF m4] w5]
  note m6 = bool [OF matched_winv [OF m5] w6]
  note m7 = unsigned [OF matched_winv [OF m6] w7]
  note m8 = unsigned [OF matched_winv [OF m7] w8]
  note m9 = unsigned [OF matched_winv [OF m8] w9]
  note profile = validated_geometry [OF assms(3)]
  note grid = slice_count_coded [OF profile(4)] slice_count_coded [OF profile(5)]
  have colorspace: "matched k w w1 (parse_colorspace R s0) (s0\<lparr>sp_colorspace_type := sp_colorspace_type stream\<rparr>)"
    unfolding parse_colorspace_def using profile(1)
    by (intro matched_bindI [OF m1]) (auto simp: is_supported_syntax_colorspace_def int32_max_def intro: matched_refl [OF matched_winv [OF m1]])
  let ?bits = "sp_bits_per_raw_sample stream" and ?h = "sp_log2_h_chroma_subsample stream"
    and ?v = "sp_log2_v_chroma_subsample stream"
  have bits: "\<not> 16 < (ucast ?bits :: u64)" "(ucast ?bits :: u64) \<noteq> 0" "ucast (ucast ?bits :: u64) = ?bits"
    using profile(2) by (auto simp: byte_in_u64 word_less_nat_alt word_le_nat_alt simp flip: unat_eq_zero)
  have depth: "matched k w1 w2 (parse_bit_depth R s) (s\<lparr>sp_bits_per_raw_sample := ?bits\<rparr>)" if "sp_version s = 3" for s
    unfolding parse_bit_depth_def using profile(2) that bits matched_refl [OF matched_winv [OF m2]]
    by (simp, intro matched_bindI [OF m2]) (simp add: is_supported_decoder_bit_depth_def)
  have subsample: "\<not> 255 < (ucast b :: u64)" "ucast (ucast b :: u64) = b" for b :: u8
    by (auto simp: byte_in_u64 word_less_nat_alt not_less) (use unat_bound [of b] in simp)
  have planes: "matched k w2 w6 (parse_planes R s) (s\<lparr>sp_chroma_planes := sp_chroma_planes stream,
      sp_log2_h_chroma_subsample := ?h, sp_log2_v_chroma_subsample := ?v, sp_extra_plane := sp_extra_plane stream\<rparr>)"
    if "sp_colorspace_type s = sp_colorspace_type stream" for s
    unfolding parse_planes_def using profile(3) that
    by (intro matched_bindI [OF m3], simp, intro matched_bindI [OF m4], simp add: subsample,
        intro matched_bindI [OF m5], simp add: subsample, intro matched_bindI [OF m6])
      (simp add: matched_refl [OF matched_winv [OF m6]])
  have count: "word_of_nat (length (sp_quant_table_sets stream)) \<noteq> (0 :: u64)"
      "\<not> kMaxQuantTableSetCount < (word_of_nat (length (sp_quant_table_sets stream)) :: u64)"
    using profile(6,7) by (simp_all add: kMaxQuantTableSetCount_def word_less_nat_alt unat_of_nat_bounded flip: unat_eq_zero)
  have grid: "matched k w6 w' (parse_slice_grid R s) (s\<lparr>sp_num_h_slices := sp_num_h_slices stream,
      sp_num_v_slices := sp_num_v_slices stream\<rparr>, word_of_nat (length (sp_quant_table_sets stream)))"
    if "sp_version s = 3" for s
  proof -
    have "matched k w6 w' (\<lambda>r. bind_result (sr_read_unsigned R r) (\<lambda>(value, r).
        if 2 ^ 32 - 1 \<le> value then Inl (make_error SyntaxError)
        else bind_result (checked_u32 (value + 1)) (\<lambda>num_h.
          bind_result (sr_read_unsigned R r) (\<lambda>(value, r).
          if 2 ^ 32 - 1 \<le> value then Inl (make_error SyntaxError)
          else bind_result (checked_u32 (value + 1)) (\<lambda>num_v.
              let byte_offset = sr_byte_position R r in
              bind_result (sr_read_unsigned R r) (\<lambda>(quant_table_set_count, r).
                if quant_table_set_count = 0 \<or> kMaxQuantTableSetCount < quant_table_set_count
                then Inl (make_byte_error SyntaxError byte_offset)
                else Inr ((s\<lparr>sp_num_h_slices := num_h, sp_num_v_slices := num_v\<rparr>,
                           quant_table_set_count), r)))))))
        (s\<lparr>sp_num_h_slices := sp_num_h_slices stream, sp_num_v_slices := sp_num_v_slices stream\<rparr>,
         word_of_nat (length (sp_quant_table_sets stream)))"
      by (rule matched_bindI [OF m7], simp only: prod.case grid if_False bind_result_Inr,
          rule matched_bindI [OF m8], simp only: prod.case grid if_False bind_result_Inr Let_def,
          rule matched_cong [OF m9], simp only: bind_result_Inr prod.case count simp_thms if_False)
    then show ?thesis by (simp only: parse_slice_grid_def [abs_def] that order.refl if_True)
  qed
  show ?thesis
    by (rule matched_bindI [OF colorspace], simp, rule matched_bindI [OF depth], simp add: assms(4),
        simp, rule matched_bindI [OF planes], simp, simp, rule matched_cong [OF grid])
      (simp_all add: assms(4))
qed

lemma trailer_matched:
  assumes "winv k w" and "write_states_and_flags W stream w = Inr w'" and "validate_initial_profile stream = Inr u"
    and "wf_parameters stream" and "sp_version s = 3" and "sp_quant_table_sets s = sp_quant_table_sets stream"
  shows "matched k w w' (parse_trailer R s)
    (s\<lparr>sp_initial_states := coded_initial_states stream,
       sp_error_status_enabled := sp_error_status_enabled stream, sp_intra_only := sp_intra_only stream\<rparr>)"
proof -
  from assms(2) obtain w1 w2 where
    w1: "(if sp_initial_states stream = []
        then fold_result (\<lambda>_. sw_write_bool W False) (sp_quant_table_sets stream) w
        else fold_result (write_initial_state_set W) (sp_initial_states stream) w) = Inr w1" and
    w2: "sw_write_unsigned W (if sp_error_status_enabled stream then 1 else 0) w1 = Inr w2" and
    w3: "sw_write_unsigned W (if sp_intra_only stream then 1 else 0) w2 = Inr w'"
    by (auto simp: write_states_and_flags_def)
  note profile = validated_geometry [OF assms(3)]
  have m1: "matched k w w1 (parse_initial_state_sets R (sp_quant_table_sets stream)) (coded_initial_states stream)"
  proof (cases "sp_initial_states stream = []")
    case True
    with w1 no_initial_states_matched [OF assms(1)] show ?thesis by (simp add: coded_initial_states_def)
  next
    case False
    with w1 profile(10,11) assms(4) initial_state_sets_matched [OF assms(1)] show ?thesis
      by (simp add: coded_initial_states_def wf_parameters_def)
  qed
  note m2 = unsigned [OF matched_winv [OF m1] w2]
  note m3 = unsigned [OF matched_winv [OF m2] w3]
  have flag: "\<not> (1 :: u64) < (if b then 1 else 0)" "((if b then 1 else 0) = (1 :: u64)) = b" for b
    by simp_all
  show ?thesis
    by (simp only: parse_trailer_def [abs_def] assms(5,6) order.refl if_True, rule matched_bindI [OF m1], simp only: prod.case, rule matched_bindI [OF m2],
        simp only: prod.case flag if_False, rule matched_bindI [OF m3])
      (simp only: prod.case flag if_False matched_refl [OF matched_winv [OF m3]])
qed

text \<open>The parser reads what the writer has written.\<close>

lemma parameters_matched:
  assumes "winv k w" and "write_parameters W stream w = Inr w'" and "wf_parameters stream"
  shows "\<exists>w1. sw_write_unsigned W 3 w = Inr w1 \<and> winv k w' \<and> (reaches k w' \<longrightarrow> reaches k w1 \<and> reaches k w)"
    and "reaches k w' \<Longrightarrow> synced k w r \<Longrightarrow> \<exists>r'. parse_configuration R r = Inr (coded_parameters stream, r')"
proof -
  from assms(2) obtain u w2 w3 w4 w5 w1 where u: "validate_initial_profile stream = Inr u" and
    w1: "sw_write_unsigned W 3 w = Inr w1" and w2: "sw_write_unsigned W 4 w1 = Inr w2" and
    w3: "write_coder_type W stream w2 = Inr w3" and w4: "write_geometry W stream w3 = Inr w4" and
    w5: "fold_result (write_quant_table_set W) (sp_quant_table_sets stream) w4 = Inr w5" and
    w6: "write_states_and_flags W stream w5 = Inr w'"
    by (auto simp: write_parameters_def)
  note profile = validated_geometry [OF u]
  have wf: "length (sp_state_transition stream) = 256" "list_all wf_quant_table_set (sp_quant_table_sets stream)"
    using assms(3) by (simp_all add: wf_parameters_def)
  define s1 where "s1 = new_stream_parameters\<lparr>sp_version := 3, sp_micro_version := 4\<rparr>"
  define s2 where "s2 = s1\<lparr>sp_entropy_mode := sp_entropy_mode stream, sp_state_transition := coded_state_transition stream\<rparr>"
  define s3 where "s3 = s2\<lparr>sp_colorspace_type := sp_colorspace_type stream,
      sp_bits_per_raw_sample := sp_bits_per_raw_sample stream, sp_chroma_planes := sp_chroma_planes stream,
      sp_log2_h_chroma_subsample := sp_log2_h_chroma_subsample stream,
      sp_log2_v_chroma_subsample := sp_log2_v_chroma_subsample stream, sp_extra_plane := sp_extra_plane stream,
      sp_num_h_slices := sp_num_h_slices stream, sp_num_v_slices := sp_num_v_slices stream\<rparr>"
  define s4 where "s4 = s3\<lparr>sp_quant_table_sets := sp_quant_table_sets stream\<rparr>"
  have m2: "matched k w w2 (parse_version R new_stream_parameters) s1"
    unfolding s1_def by (rule version_matched [OF assms(1) w1 w2])
  have m3: "matched k w2 w3 (parse_coder_type R s1) (s2, has_custom_state_transition stream)"
    unfolding s2_def
    by (rule coder_type_matched [OF matched_winv [OF m2] w3 _ wf(1)]) (simp add: s1_def new_stream_parameters_def)
  note m4 = geometry_matched [OF matched_winv [OF m3] w4 u, of s2, folded s3_def]
  have s2v: "sp_version s2 = 3" by (simp add: s2_def s1_def)
  note m4 = m4 [OF this]
  have count: "unat (word_of_nat (length (sp_quant_table_sets stream)) :: u64) = length (sp_quant_table_sets stream)"
    using profile(7) by (intro unat_of_nat_bounded) simp
  have m5: "matched k w4 w5 (parse_tables R s3 (word_of_nat (length (sp_quant_table_sets stream)))) s4"
    using matched_return [OF quant_table_sets_matched [OF matched_winv [OF m4] w5 wf(2)],
        of "\<lambda>sets. s3\<lparr>sp_quant_table_sets := sets\<rparr>"]
    unfolding parse_tables_def count s4_def .
  have m6: "matched k w5 w' (parse_trailer R s4) (coded_parameters stream)"
  proof -
    have "sp_version s4 = 3" "sp_quant_table_sets s4 = sp_quant_table_sets stream"
      by (simp_all add: s4_def s3_def s2v)
    note trailer_matched [OF matched_winv [OF m5] w6 u assms(3) this]
    moreover have "s4\<lparr>sp_initial_states := coded_initial_states stream,
        sp_error_status_enabled := sp_error_status_enabled stream, sp_intra_only := sp_intra_only stream\<rparr> =
        coded_parameters stream"
      using profile(8,9)
      by (cases stream) (simp add: coded_parameters_def s4_def s3_def s2_def s1_def new_stream_parameters_def)
    ultimately show ?thesis by simp
  qed
  note m1 = unsigned [OF assms(1) w1]
  from unsigned [OF matched_winv [OF m1] w2] m1 m6 m5 m4 m3 w1
  show "\<exists>w1. sw_write_unsigned W 3 w = Inr w1 \<and> winv k w' \<and> (reaches k w' \<longrightarrow> reaches k w1 \<and> reaches k w)"
    by (auto simp: matched_def)
  assume final: "reaches k w'" and start: "synced k w r"
  have reach: "reaches k w5" "reaches k w4" "reaches k w3" "reaches k w2"
    using final m6 m5 m4 m3 by (auto simp: matched_def)
  from matched_read [OF m2 reach(4) start] obtain r2 where r2:
    "parse_version R new_stream_parameters r = Inr (s1, r2)" "synced k w2 r2" .
  from matched_read [OF m3 reach(3) r2(2)] obtain r3 where r3:
    "parse_coder_type R s1 r2 = Inr ((s2, has_custom_state_transition stream), r3)" "synced k w3 r3" .
  from matched_read [OF m4 reach(2) r3(2)] obtain r4 where
    g: "bind_result (parse_colorspace R s2 r3) (\<lambda>(stream, r).
       bind_result (parse_bit_depth R stream r) (\<lambda>(stream, r).
       bind_result (parse_planes R stream r) (\<lambda>(stream, r). parse_slice_grid R stream r))) =
      Inr ((s3, word_of_nat (length (sp_quant_table_sets stream))), r4)" and r4: "synced k w4 r4" .
  from matched_read [OF m5 reach(1) r4] obtain r5 where r5:
    "parse_tables R s3 (word_of_nat (length (sp_quant_table_sets stream))) r4 = Inr (s4, r5)" "synced k w5 r5" .
  from matched_read [OF m6 final r5(2)] obtain r6 where r6:
    "parse_trailer R s4 r5 = Inr (coded_parameters stream, r6)" "synced k w' r6" .
  obtain r7 where "sr_set_state_transition R (sp_state_transition (coded_parameters stream)) r6 = Inr r7"
    using set_transition [OF r6(2)] by blast
  with r2(1) r3(1) g r5(1) r6(1) show "\<exists>r'. parse_configuration R r = Inr (coded_parameters stream, r')"
    by (cases "has_custom_state_transition stream") (auto simp: parse_configuration_def)
qed

end

subsection \<open>The record\<close>

lemma first_context_states: "context_states 0 0 (store_of_counts [n] [] s) = replicate kScalarContextSize s" if "0 < n"
  using that by (simp add: context_states_def context_index_def store_of_counts_def bank_contexts_def)

lemma reset_encoder:
  assumes "re_reset_impl [n] [] s t = Inr e"
  shows "re_contexts e = store_of_counts [n] [] s" and "0 < n"
    and "re_reset_impl [1] [] s t = Inr (e\<lparr>re_contexts := store_of_counts [1] [] s\<rparr>)"
  using assms
  by (auto simp: re_reset_impl_def initialize_encoder_contexts_eq initialize_contexts_def
      kMaxContextBankCount_def kMaxScalarContextCount_def split: if_splits)

text \<open>The first reader, which has one context and reads past the parameters, finds the version.\<close>

lemma probe_reads_version:
  assumes "re_reset_impl [n] [] s t = Inr e0" and "re_write_unsigned 0 0 v e0 = Inr e1"
    and "contains bs e1" and "2 \<le> length bs"
  shows "\<exists>d d'. rc_reset_impl bs [1] [] s t new_range_coder = Inr d \<and> rc_read_unsigned 0 0 d = Inr (v, d')"
proof -
  note e0 = reset_encoder [OF assms(1)]
  let ?e0 = "e0\<lparr>re_contexts := store_of_counts [1] [] s\<rparr>"
  have "context_states 0 0 (store_of_counts [1] [] s) = context_states 0 0 (re_contexts e0)"
    by (simp only: e0(1) first_context_states e0(2) zero_less_one)
  then obtain e2 where e2: "re_write_unsigned 0 0 v ?e0 = Inr e2" "re_low_bytes e2 = re_low_bytes e1"
      "re_range e2 = re_range e1"
    by (rule re_write_unsigned_contexts [OF assms(2), of "store_of_counts [1] [] s", rotated 2])
      (simp_all add: store_of_counts_def)
  note start = re_reset_impl_correct [OF e0(3)]
  note m = re_write_unsigned_matched [OF start(1) e2(1), of bs]
  have c2: "contains bs e2" using assms(3) e2(2,3) by (simp add: contains_def)
  then have "contains bs ?e0" using m by (simp add: matched_def)
  with start(3) assms(4) obtain d where d: "rc_reset_impl bs [1] [] s t new_range_coder = Inr d" "in_sync bs ?e0 d"
    by blast
  from matched_read [OF m, of d] c2 d(2) obtain d' where "rc_read_unsigned 0 0 d = Inr (v, d')" by auto
  with d(1) show ?thesis by blast
qed

lemma record_roundtrip:
  assumes "wf_parameters stream" and "write_configuration_record stream = Inr record"
  shows "parse_configuration_record record = Inr (coded_parameters stream)"
proof -
  from assms(2) obtain e0 e bs e' where
    e0: "re_reset_impl [kInitialStateSize] [] kDefaultInitialState kDefaultStateTransition = Inr e0" and
    run: "write_parameters range_symbol_writer stream e0 = Inr e" and
    final: "re_finalize_impl False e = Inr (bs, e')" and crc: "append_crc_parity bs = Inr record"
    by (auto simp: write_configuration_record_def re_reset_def re_finalize_def)
  from crc obtain ys where rec: "record = bs @ ys" by (auto simp: append_crc_parity_eq split: if_splits)
  have low: "bs = re_low_bytes e" using final by (auto simp: re_finalize_impl_def Let_def)
  note start = re_reset_impl_correct [OF e0]
  have e0': "winv (range_link b) e0" for b using start(1) by simp
  note params = range_io.parameters_matched [OF e0' run assms(1)]
  from params(1) obtain e1 where w1: "re_write_unsigned 0 0 3 e0 = Inr e1"
    by (auto simp: range_symbol_writer_def)
  have reach: "contains b e1 \<and> contains b e0" if "contains b e" for b
    using params(1) [of b] w1 that by (auto simp: range_symbol_writer_def)
  have "enc_inv e" using params(1) by auto
  note fin = re_finalize_correct [OF this final]
  have "contains record e" unfolding rec using fin(1) by (subst contains_append) (simp_all add: low)
  then have "contains record e1" using reach by blast
  from probe_reads_version [OF e0 w1 this] obtain d d' where
    probe: "rc_reset record 1 kDefaultInitialState new_range_coder = Inr d" "rc_read_unsigned 0 0 d = Inr (3, d')"
    using fin(2) rec by (auto simp: rc_reset_def)
  obtain d0 where d0: "rc_reset bs kInitialStateSize kDefaultInitialState new_range_coder = Inr d0" "in_sync bs e0 d0"
    using start(3) [of bs] reach [OF fin(1)] fin(2) by (auto simp: rc_reset_def)
  have "\<exists>r'. parse_configuration range_symbol_reader d0 = Inr (coded_parameters stream, r')"
    using params(2) [of bs d0] fin(1) d0(2) by simp
  moreover have "record \<noteq> []" using fin(2) rec by auto
  ultimately show ?thesis
    using probe d0(1) check_crc_parity_append [OF crc, of 3] by (auto simp: parse_configuration_record_def)
qed

end
