(* ===== verification/Configuration_Totality.thy ===== *)
theory Configuration_Totality
  imports Configuration_Roundtrip
begin

text \<open>
  The configuration writer fails only because of the description it is given, never because of the
  range coder: the contract \<open>total_writer\<close> says that a writer accepts every scalar while its budget
  lasts, the lemmas run each stage of the configuration writer inside a budget, and the range encoder
  is shown to keep the contract.
\<close>

text \<open>A writer without output: what it refuses, the description is to blame for.\<close>

definition accepting_writer :: "unit symbol_writer" where
  "accepting_writer =
     \<lparr>sw_write_bool = (\<lambda>_ _. Inr ()), sw_write_unsigned = (\<lambda>_ _. Inr ()), sw_write_signed = (\<lambda>_ _. Inr ()),
      sw_write_unsigned_at = (\<lambda>_ _ _. Inr ()), sw_write_signed_at = (\<lambda>_ _ _. Inr ()),
      sw_begin_contexts = (\<lambda>_ _. Inr ()), sw_end_contexts = (\<lambda>_. Inr ())\<rparr>"

definition encodable_table_set :: "quant_table_set \<Rightarrow> bool" where
  "encodable_table_set table_set \<longleftrightarrow> write_quant_table_set accepting_writer table_set () = Inr ()"

text \<open>The number of scalars the writer emits at most.\<close>

definition initial_states_cost :: "stream_parameters \<Rightarrow> nat" where
  "initial_states_cost stream =
     (if sp_initial_states stream = [] then length (sp_quant_table_sets stream)
      else sum_list (map (\<lambda>contexts. 1 + 32 * length contexts) (sp_initial_states stream)))"

definition parameters_cost :: "stream_parameters \<Rightarrow> nat" where
  "parameters_cost stream = 269 + 640 * length (sp_quant_table_sets stream) + initial_states_cost stream"

text \<open>
  \<open>ready inner n w\<close>: the writer can go on, \<open>n\<close> scalars of the budget are used, and \<open>inner\<close> tells
  whether independent contexts are installed.
\<close>

locale total_writer =
  fixes W :: "'w symbol_writer" and ready :: "bool \<Rightarrow> nat \<Rightarrow> 'w \<Rightarrow> bool" and limit :: nat
  assumes mono: "ready i n w \<Longrightarrow> n \<le> n' \<Longrightarrow> ready i n' w"
    and bool: "ready i n w \<Longrightarrow> n < limit \<Longrightarrow> \<exists>w'. sw_write_bool W b w = Inr w' \<and> ready i (Suc n) w'"
    and unsigned: "ready i n w \<Longrightarrow> n < limit \<Longrightarrow> u \<le> 2 ^ 63 - 1 \<Longrightarrow>
      \<exists>w'. sw_write_unsigned W u w = Inr w' \<and> ready i (Suc n) w'"
    and signed: "ready i n w \<Longrightarrow> n < limit \<Longrightarrow> in_int32 v \<Longrightarrow>
      \<exists>w'. sw_write_signed W v w = Inr w' \<and> ready i (Suc n) w'"
    and signed_at: "ready False n w \<Longrightarrow> n < limit \<Longrightarrow> in_int32 v \<Longrightarrow> c < kInitialStateSize \<Longrightarrow>
      \<exists>w'. sw_write_signed_at W c v w = Inr w' \<and> ready False (Suc n) w'"
    and begin_contexts: "ready False n w \<Longrightarrow> \<exists>w'. sw_begin_contexts W 1 w = Inr w' \<and> ready True n w'"
    and end_contexts: "ready True n w \<Longrightarrow> \<exists>w'. sw_end_contexts W w = Inr w' \<and> ready False n w'"
begin

lemma unsigned_bind:
  assumes "ready i n w" and "n < limit" and "u \<le> 2 ^ 63 - 1"
    and "\<And>w1. ready i (Suc n) w1 \<Longrightarrow> \<exists>w'. g w1 = Inr w' \<and> P w'"
  shows "\<exists>w'. bind_result (sw_write_unsigned W u w) g = Inr w' \<and> P w'"
  using unsigned [OF assms(1-3)] assms(4) by auto

lemma bool_bind:
  assumes "ready i n w" and "n < limit" and "\<And>w1. ready i (Suc n) w1 \<Longrightarrow> \<exists>w'. g w1 = Inr w' \<and> P w'"
  shows "\<exists>w'. bind_result (sw_write_bool W b w) g = Inr w' \<and> P w'"
  using bool [OF assms(1,2)] assms(3) by fastforce

lemma quant_runs_total:
  assumes "write_quant_runs accepting_writer table scale k v () = Inr (len, u)" and "k \<le> 128"
    and "ready i n w" and "n + (128 - k) \<le> limit"
  shows "\<exists>w'. write_quant_runs W table scale k v w = Inr (len, w') \<and> ready i (n + (128 - k)) w'"
  using assms
proof (induction "128 - k" arbitrary: k v n w rule: less_induct)
  case less
  show ?case
  proof (cases "k < 128")
    case False
    with less.prems have "k = 128" by simp
    with less.prems show ?thesis by (simp add: write_quant_runs.simps [of _ table scale 128])
  next
    case True
    let ?l = "run_length table (scale * v) k"
    from less.prems(1) True have guards: "\<not> (v \<noteq> 0 \<and> int64_max div v < scale)" "table ! k = scale * v" "?l \<noteq> 0"
      and rest: "write_quant_runs accepting_writer table scale (k + ?l) (v + 1) () = Inr (len, u)"
      unfolding write_quant_runs.simps [of accepting_writer table scale k]
      by (simp_all add: Let_def accepting_writer_def split: if_splits)
    have l: "k + ?l \<le> 128" by (rule run_length_bounds(1) [OF less.prems(2)])
    then have "?l - 1 < 2 ^ LENGTH(64)" by simp
    then have "unat (word_of_nat (?l - 1) :: u64) = ?l - 1" by (rule unat_of_nat_bounded)
    then have "(word_of_nat (?l - 1) :: u64) \<le> 2 ^ 63 - 1" unfolding word_le_nat_alt using l by simp
    moreover have "n < limit" using less.prems(4) True by simp
    ultimately obtain w1 where w1: "sw_write_unsigned W (word_of_nat (?l - 1)) w = Inr w1" "ready i (Suc n) w1"
      using unsigned [OF less.prems(3)] by blast
    have "\<exists>w'. write_quant_runs W table scale (k + ?l) (v + 1) w1 = Inr (len, w') \<and> ready i (Suc n + (128 - (k + ?l))) w'"
      using guards(3) True less.prems(4) by (intro less.hyps [OF _ rest l w1(2)]) auto
    then obtain w' where w': "write_quant_runs W table scale (k + ?l) (v + 1) w1 = Inr (len, w')"
      "ready i (Suc n + (128 - (k + ?l))) w'" by blast
    have "write_quant_runs W table scale k v w = Inr (len, w')"
      unfolding write_quant_runs.simps [of W table scale k v w] Let_def
      using True guards w1(1) w'(1) by (simp only: if_True if_False simp_thms bind_result_Inr)
    moreover have "ready i (n + (128 - k)) w'" using mono [OF w'(2)] guards(3) True by simp
    ultimately show ?thesis by blast
  qed
qed

lemma quant_tables_total:
  assumes "write_quant_tables accepting_writer tables scale () = Inr (scale', u)"
    and "ready False n w" and "n + 128 * length tables \<le> limit"
  shows "\<exists>w'. write_quant_tables W tables scale w = Inr (scale', w') \<and> ready False (n + 128 * length tables) w'"
  using assms
proof (induction tables arbitrary: scale n w)
  case Nil
  then show ?case by simp
next
  case (Cons table tables)
  from Cons.prems(1) obtain m where valid: "validate_quant_table_mirror table = Inr ()"
    and run: "write_quant_runs accepting_writer table scale 0 0 () = Inr (m, ())"
    and guard: "\<not> (2 * m - 1 \<le> 0 \<or> int64_max div (2 * m - 1) < scale)"
    and rest: "write_quant_tables accepting_writer tables (scale * (2 * m - 1)) () = Inr (scale', u)"
    by (auto simp: accepting_writer_def write_quant_table_def Let_def split: if_splits)
  obtain w1 where w1: "sw_begin_contexts W 1 w = Inr w1" "ready True n w1"
    using begin_contexts [OF Cons.prems(2)] by blast
  have budget: "n + (128 - 0) \<le> limit" "n + 128 + 128 * length tables \<le> limit"
    using Cons.prems(3) by simp_all
  obtain w2 where w2: "write_quant_runs W table scale 0 0 w1 = Inr (m, w2)" "ready True (n + 128) w2"
    using quant_runs_total [OF run _ w1(2) budget(1)] by auto
  obtain w3 where w3: "sw_end_contexts W w2 = Inr w3" "ready False (n + 128) w3"
    using end_contexts [OF w2(2)] by blast
  obtain w' where w': "write_quant_tables W tables (scale * (2 * m - 1)) w3 = Inr (scale', w')"
      "ready False (n + 128 + 128 * length tables) w'"
    using Cons.IH [OF rest w3(2) budget(2)] by blast
  have "write_quant_tables W (table # tables) scale w = Inr (scale', w')"
    unfolding write_quant_tables.simps write_quant_table_def w1(1) bind_result_Inr valid w2(1) prod.case w3(1) Let_def
      w'(1) if_not_P [OF guard] by (rule refl)
  moreover have "n + 128 + 128 * length tables = n + 128 * length (table # tables)" by simp
  note w'(2) [unfolded this]
  ultimately show ?case by blast
qed

lemma quant_table_set_total:
  assumes "encodable_table_set table_set" and "length (qt_tables table_set) = kContextInputs"
    and "ready False n w" and "n + 640 \<le> limit"
  shows "\<exists>w'. write_quant_table_set W table_set w = Inr w' \<and> ready False (n + 640) w'"
proof -
  from assms(1) obtain scale where run: "write_quant_tables accepting_writer (qt_tables table_set) 1 () = Inr (scale, ())"
    and count: "qt_context_count table_set = unat (word_of_int ((scale + 1) div 2) :: u32)"
    by (auto simp: encodable_table_set_def write_quant_table_set_def Let_def split: if_splits)
  from quant_tables_total [OF run assms(3)] assms(2,4) obtain w' where
    "write_quant_tables W (qt_tables table_set) 1 w = Inr (scale, w')" "ready False (n + 640) w'"
    by (auto simp: kContextInputs_def)
  with count show ?thesis by (auto simp: write_quant_table_set_def)
qed

lemma fold_total:
  assumes "\<And>x n w. x \<in> set xs \<Longrightarrow> ready i n w \<Longrightarrow> n + cost x \<le> limit \<Longrightarrow>
      \<exists>w'. f x w = Inr w' \<and> ready i (n + cost x) w'"
    and "ready i n w" and "n + sum_list (map cost xs) \<le> limit"
  shows "\<exists>w'. fold_result f xs w = Inr w' \<and> ready i (n + sum_list (map cost xs)) w'"
  using assms
proof (induction xs arbitrary: n w)
  case Nil
  then show ?case by simp
next
  case (Cons x xs)
  from Cons.prems(1) [of x n w] Cons.prems(2,3) obtain w1 where
    w1: "f x w = Inr w1" "ready i (n + cost x) w1" by auto
  with Cons.IH [of "n + cost x" w1] Cons.prems(1,3) show ?case by (auto simp: ac_simps)
qed

lemma in_int32_byte_difference: "in_int32 (uint (a :: u8) - uint (b :: u8))"
proof -
  have "uint a < 256" "uint b < 256" "0 \<le> uint a" "0 \<le> uint b"
    using uint_lt2p [of a] uint_lt2p [of b] by simp_all
  then have "- 256 \<le> uint a - uint b" "uint a - uint b \<le> 256" by linarith+
  then show ?thesis by (simp add: in_int32_def)
qed

lemma initial_state_total:
  assumes "ready False n w" and "n + length states \<le> limit" and "c + length states \<le> kInitialStateSize"
  shows "\<exists>w'. write_initial_state W c preds states w = Inr w' \<and> ready False (n + length states) w'"
  using assms
proof (induction states arbitrary: c preds n w)
  case Nil
  then show ?case by simp
next
  case (Cons s ss)
  show ?case
  proof (cases preds)
    case Nil
    then show ?thesis using mono [OF Cons.prems(1)] by simp
  next
    case (Cons p ps)
    from signed_at [OF Cons.prems(1) _ in_int32_byte_difference, of c s p] Cons.prems(2,3) obtain w1 where
      w1: "sw_write_signed_at W c (uint s - uint p) w = Inr w1" "ready False (Suc n) w1" by auto
    from Cons.IH [OF w1(2), of "Suc c" ps] Cons.prems(2,3) w1(1) show ?thesis by (auto simp: Cons)
  qed
qed

lemma initial_contexts_total:
  assumes "ready False n w" and "n + 32 * length contexts \<le> limit" and "wf_initial_state_set contexts"
  shows "\<exists>w'. write_initial_contexts W previous contexts w = Inr w' \<and> ready False (n + 32 * length contexts) w'"
  using assms
proof (induction contexts arbitrary: previous n w)
  case Nil
  then show ?case by simp
next
  case (Cons c cs)
  have len: "length c = 32" using Cons.prems(3) by (simp add: wf_initial_state_set_def kInitialStateSize_def)
  from initial_state_total [OF Cons.prems(1), of c 0 previous] Cons.prems(2) len obtain w1 where
    w1: "write_initial_state W 0 previous c w = Inr w1" "ready False (n + 32) w1"
    by (auto simp: kInitialStateSize_def)
  from Cons.IH [OF w1(2), of c] Cons.prems(2,3) w1(1) show ?case
    by (auto simp: wf_initial_state_set_def ac_simps)
qed

lemma initial_state_set_total:
  assumes "ready False n w" and "n + (1 + 32 * length contexts) \<le> limit" and "wf_initial_state_set contexts"
  shows "\<exists>w'. write_initial_state_set W contexts w = Inr w' \<and> ready False (n + (1 + 32 * length contexts)) w'"
proof -
  from bool [OF assms(1)] assms(2) obtain w1 where
    w1: "sw_write_bool W (has_coded_initial_state_set contexts) w = Inr w1" "ready False (Suc n) w1" by auto
  with initial_contexts_total [OF w1(2) _ assms(3)] assms(2) show ?thesis
    by (cases "contexts = []") (auto simp: write_initial_state_set_def has_coded_initial_state_set_def)
qed

lemma coder_type_total:
  assumes "ready False n w" and "length (sp_state_transition stream) = 256" and "n + 256 \<le> limit"
  shows "\<exists>w'. write_coder_type W stream w = Inr w' \<and> ready False (n + 256) w'"
proof -
  let ?delta = "\<lambda>i. sw_write_signed W (uint (sp_state_transition stream ! i) - uint (kDefaultStateTransition ! i))"
  let ?type = "(if sp_entropy_mode stream = GolombRiceMode then 0
      else if has_custom_state_transition stream then 2 else 1) :: u64"
  have "?type \<le> 2 ^ 63 - 1" by simp
  with unsigned [OF assms(1)] assms(3) obtain w1 where
    w1: "sw_write_unsigned W ?type w = Inr w1" "ready False (Suc n) w1" by (meson Suc_le_lessD add_leD1 add_lessD1 less_add_same_cancel1 order_less_le_trans zero_less_numeral)
  have sum: "sum_list (map (\<lambda>_. 1) [1..<256]) = (255 :: nat)" by (simp add: sum_list_triv)
  have add: "Suc n + 255 = n + 256" by simp
  have "\<exists>w'. fold_result ?delta [1..<256] w1 = Inr w' \<and> ready False (Suc n + 255) w'"
    using signed [OF _ _ in_int32_byte_difference] w1(2) assms(3)
    by (subst sum [symmetric], intro fold_total) (simp_all only: sum, simp_all)
  then obtain w' where w': "fold_result ?delta [1..<256] w1 = Inr w'" "ready False (n + 256) w'"
    unfolding add by blast
  have "ready False (n + 256) w1" using mono [OF w1(2)] by simp
  with w1(1) w' show ?thesis
    by (cases "has_custom_state_transition stream") (auto simp: write_coder_type_def assms(2))
qed

lemma small_value: "u < 2 ^ 32 \<Longrightarrow> (word_of_nat u :: u64) \<le> 2 ^ 63 - 1"
  unfolding word_le_nat_alt by (subst unat_of_nat_bounded) simp_all

lemma geometry_total:
  assumes "ready False n w" and "validate_initial_profile stream = Inr u" and "n + 9 \<le> limit"
  shows "\<exists>w'. write_geometry W stream w = Inr w' \<and> ready False (n + 9) w'"
proof -
  note profile = validated_geometry [OF assms(2)]
  have narrow8: "(ucast (b :: u8) :: u64) \<le> 2 ^ 63 - 1" for b
    using unat_bound [of b] by (simp add: word_le_nat_alt byte_in_u64)
  have narrow32: "(ucast (b :: u32) :: u64) \<le> 2 ^ 63 - 1" for b
    using unat_bound [of b] by (simp add: word_le_nat_alt)
  have cs: "(word_of_int (sp_colorspace_type stream) :: u64) \<le> 2 ^ 63 - 1" using profile(1) by auto
  have cnt: "(word_of_nat (length (sp_quant_table_sets stream)) :: u64) \<le> 2 ^ 63 - 1"
    using profile(7) by (intro small_value) simp
  show ?thesis
    unfolding write_geometry_def
    by (rule unsigned_bind [OF assms(1) _ cs], use assms(3) in simp)
      ((rule unsigned_bind [OF _ _ narrow8] unsigned_bind [OF _ _ narrow32] bool_bind,
        assumption, use assms(3) in simp)+,
       use unsigned [OF _ _ cnt, of False "n + 8"] assms(3) in \<open>simp add: numeral_eq_Suc\<close>)
qed

lemma flags_total:
  assumes "ready False n w" and "wf_parameters stream" and "n + (initial_states_cost stream + 2) \<le> limit"
  shows "\<exists>w'. write_states_and_flags W stream w = Inr w' \<and> ready False (n + (initial_states_cost stream + 2)) w'"
proof -
  have "\<exists>w1. (if sp_initial_states stream = []
        then fold_result (\<lambda>_. sw_write_bool W False) (sp_quant_table_sets stream) w
        else fold_result (write_initial_state_set W) (sp_initial_states stream) w) = Inr w1 \<and>
      ready False (n + initial_states_cost stream) w1"
  proof (cases "sp_initial_states stream = []")
    case True
    have "\<exists>w1. fold_result (\<lambda>_. sw_write_bool W False) (sp_quant_table_sets stream) w = Inr w1 \<and>
        ready False (n + sum_list (map (\<lambda>_. 1) (sp_quant_table_sets stream))) w1"
      using assms(3) True bool
      by (intro fold_total [OF _ assms(1)]) (simp_all add: initial_states_cost_def sum_list_triv)
    with True show ?thesis by (simp add: initial_states_cost_def sum_list_triv)
  next
    case False
    have "\<exists>w1. fold_result (write_initial_state_set W) (sp_initial_states stream) w = Inr w1 \<and>
        ready False (n + sum_list (map (\<lambda>c. 1 + 32 * length c) (sp_initial_states stream))) w1"
      using assms(2,3) False initial_state_set_total
      by (intro fold_total [OF _ assms(1)]) (simp_all add: initial_states_cost_def wf_parameters_def list_all_iff)
    with False show ?thesis by (simp add: initial_states_cost_def)
  qed
  then obtain w1 where w1: "(if sp_initial_states stream = []
        then fold_result (\<lambda>_. sw_write_bool W False) (sp_quant_table_sets stream) w
        else fold_result (write_initial_state_set W) (sp_initial_states stream) w) = Inr w1"
    "ready False (n + initial_states_cost stream) w1" by blast
  have room: "n + initial_states_cost stream < limit" "Suc (n + initial_states_cost stream) < limit"
    using assms(3) by simp_all
  show ?thesis
    unfolding write_states_and_flags_def w1(1) bind_result_Inr
    by (rule unsigned_bind [OF w1(2) room(1)], simp)
      (use unsigned [OF _ room(2)] in simp)
qed

lemma parameters_total:
  assumes "ready False n w" and "wf_parameters stream" and "validate_initial_profile stream = Inr u"
    and "list_all encodable_table_set (sp_quant_table_sets stream)" and "n + parameters_cost stream \<le> limit"
  shows "\<exists>w'. write_parameters W stream w = Inr w' \<and> ready False (n + parameters_cost stream) w'"
proof -
  let ?sets = "sp_quant_table_sets stream"
  have sum: "sum_list (map (\<lambda>_. 640) ?sets) = 640 * length ?sets" by (simp add: sum_list_triv)
  have room: "n < limit" "Suc n < limit" "Suc (Suc n) + 256 \<le> limit" "Suc (Suc n) + 256 + 9 \<le> limit"
    "Suc (Suc n) + 256 + 9 + 640 * length ?sets \<le> limit"
    "Suc (Suc n) + 256 + 9 + 640 * length ?sets + (initial_states_cost stream + 2) \<le> limit"
    using assms(5) by (simp_all add: parameters_cost_def)
  obtain w1 where w1: "sw_write_unsigned W 3 w = Inr w1" "ready False (Suc n) w1"
    using unsigned [OF assms(1) room(1), of 3] by auto
  obtain w2 where w2: "sw_write_unsigned W 4 w1 = Inr w2" "ready False (Suc (Suc n)) w2"
    using unsigned [OF w1(2) room(2), of 4] by auto
  obtain w3 where w3: "write_coder_type W stream w2 = Inr w3" "ready False (Suc (Suc n) + 256) w3"
    using coder_type_total [OF w2(2) _ room(3)] assms(2) by (auto simp: wf_parameters_def)
  obtain w4 where w4: "write_geometry W stream w3 = Inr w4" "ready False (Suc (Suc n) + 256 + 9) w4"
    using geometry_total [OF w3(2) assms(3) room(4)] by blast
  have "\<exists>w'. fold_result (write_quant_table_set W) ?sets w4 = Inr w' \<and>
      ready False (Suc (Suc n) + 256 + 9 + sum_list (map (\<lambda>_. 640) ?sets)) w'"
  proof (rule fold_total [OF _ w4(2)])
    fix x m v assume "x \<in> set ?sets" "ready False m v" "m + 640 \<le> limit"
    with assms(2,4) show "\<exists>w'. write_quant_table_set W x v = Inr w' \<and> ready False (m + 640) w'"
      by (intro quant_table_set_total) (simp_all add: wf_parameters_def list_all_iff wf_quant_table_set_def)
  qed (simp only: sum room(5))
  then obtain w5 where w5: "fold_result (write_quant_table_set W) ?sets w4 = Inr w5"
      "ready False (Suc (Suc n) + 256 + 9 + 640 * length ?sets) w5"
    unfolding sum by blast
  obtain w6 where w6: "write_states_and_flags W stream w5 = Inr w6"
      "ready False (Suc (Suc n) + 256 + 9 + 640 * length ?sets + (initial_states_cost stream + 2)) w6"
    using flags_total [OF w5(2) assms(2) room(6)] by blast
  have "Suc (Suc n) + 256 + 9 + 640 * length ?sets + (initial_states_cost stream + 2) = n + parameters_cost stream"
    by (simp add: parameters_cost_def)
  moreover have "write_parameters W stream w = Inr w6"
    unfolding write_parameters_def assms(3) w1(1) w2(1) w3(1) w4(1) w5(1) w6(1) bind_result_Inr by (rule refl)
  ultimately show ?thesis using w6(2) by (simp only:) blast
qed

end

subsection \<open>The range encoder is total\<close>

definition symbol_budget :: nat where "symbol_budget = 10 ^ 7"

definition config_ready :: "bool \<Rightarrow> nat \<Rightarrow> range_encoder \<Rightarrow> bool" where
  "config_ready inner n e \<longleftrightarrow>
     ready_encoder e \<and> length (re_low_bytes e) \<le> 2 + 127 * n \<and>
     bank_sizes (re_contexts e) = [if inner then 1 else kInitialStateSize] \<and>
     (if inner then \<exists>cs. re_snapshots e = [cs] \<and> live_store cs \<and> bank_sizes cs = [kInitialStateSize]
      else re_snapshots e = [])"

lemma budget_room: "config_ready i n e \<Longrightarrow> n < symbol_budget \<Longrightarrow> length (re_low_bytes e) + 127 \<le> byte_vector_max_size"
  by (simp add: config_ready_def symbol_budget_def byte_vector_max_size_def)

lemma re_write_symbol_snapshots:
  assumes "enc_inv e" and "re_write_symbol b c is_signed m neg e = Inr e'"
  shows "re_snapshots e' = re_snapshots e"
  using assms write_decisions_correct [OF assms(1)]
  by (auto simp: re_write_symbol_def Let_def same_setting_def split: if_splits)

lemma write_symbol_ready:
  assumes "config_ready i n e" and "n < symbol_budget" and "c < (if i then 1 else kInitialStateSize)"
    and "m \<le> 2 ^ 63 - 1"
  shows "\<exists>e'. re_write_symbol 0 c is_signed m neg e = Inr e' \<and> config_ready i (Suc n) e'"
proof -
  have e: "ready_encoder e" "bank_sizes (re_contexts e) = [if i then 1 else kInitialStateSize]"
    using assms(1) by (simp_all add: config_ready_def)
  from re_write_symbol_succeeds [OF e(1), of 0 c m is_signed neg] e(2) assms(3,4) budget_room [OF assms(1,2)]
  obtain e' where e': "re_write_symbol 0 c is_signed m neg e = Inr e'" "ready_encoder e'"
    "bank_sizes (re_contexts e') = bank_sizes (re_contexts e)" "length (re_low_bytes e') \<le> length (re_low_bytes e) + 127"
    by auto
  moreover have "re_snapshots e' = re_snapshots e"
    using re_write_symbol_snapshots [OF _ e'(1)] e(1) by (simp add: ready_encoder_def)
  ultimately have "config_ready i (Suc n) e'" using assms(1) unfolding config_ready_def by auto
  with e'(1) show ?thesis by blast
qed

lemma ready_usable: "config_ready i n e \<Longrightarrow> re_usable e = Inr ()"
  by (simp add: config_ready_def ready_encoder_def re_usable_def)

lemma write_unsigned_ready:
  assumes "config_ready i n e" and "n < symbol_budget" and "u \<le> 2 ^ 63 - 1"
  shows "\<exists>e'. re_write_unsigned 0 0 u e = Inr e' \<and> config_ready i (Suc n) e'"
proof -
  have "\<not> 2 ^ 63 - 1 < u" using assms(3) by (simp only: not_less)
  then show ?thesis
    using write_symbol_ready [OF assms(1,2) _ assms(3), of 0 False False] ready_usable [OF assms(1)]
    by (simp only: re_write_unsigned_def bind_result_Inr if_False) (simp add: kInitialStateSize_def)
qed

lemma write_signed_ready:
  assumes "config_ready i n e" and "n < symbol_budget" and "in_int32 v" and "c < (if i then 1 else kInitialStateSize)"
  shows "\<exists>e'. re_write_signed 0 c v e = Inr e' \<and> config_ready i (Suc n) e'"
proof -
  let ?m = "word_of_int (if v < 0 then - v else v) :: u64"
  have v: "0 \<le> (if v < 0 then - v else v)" "(if v < 0 then - v else v) \<le> 2 ^ 31" "v \<noteq> - (2 ^ 63)"
    using assms(3) by (auto simp: in_int32_def)
  then have "uint ?m \<le> 2 ^ 31" by (simp add: uint_word_of_int_eq take_bit_int_eq_self)
  then have "?m \<le> 2 ^ 63 - 1" by (simp add: word_le_def)
  then show ?thesis
    using write_symbol_ready [OF assms(1,2,4), of ?m True "v < 0"] ready_usable [OF assms(1)] v(3)
    by (simp only: re_write_signed_def Let_def bind_result_Inr if_False)
qed

lemma write_bool_ready:
  assumes "config_ready i n e" and "n < symbol_budget"
  shows "\<exists>e'. re_write_bool v e = Inr e' \<and> config_ready i (Suc n) e'"
proof -
  let ?st = "context_states 0 0 (re_contexts e)"
  have e: "ready_encoder e" "enc_inv e" "re_state_transition e = kDefaultStateTransition" "live_store (re_contexts e)"
    "bank_sizes (re_contexts e) = [if i then 1 else kInitialStateSize]" "0 < (if i then 1 else kInitialStateSize)"
    using assms(1) by (simp_all add: config_ready_def ready_encoder_def kInitialStateSize_def)
  then have st: "live_states ?st"
    by (auto simp: live_store_def context_states_def context_index_def)
  note live = live_states_update [OF st, of 0, folded zero_less_iff_neq_zero]
  have "live_state (?st ! 0)" and st': "live_states (?st[0 := next_state kDefaultStateTransition (?st ! 0) v])"
    using live by (simp_all add: kScalarContextSize_def)
  then have width: "interval_width (?st ! 0) v e \<noteq> 0" using e(2) by (intro live_width)
  have room: "length (re_low_bytes e) \<noteq> byte_vector_max_size" using budget_room [OF assms] by linarith
  obtain s e1 where w: "write_rac (?st ! 0) v e = Inr (s, e1)"
    by (rule write_rac_succeeds [OF e(2) width room])
  note step = write_rac_correct [OF e(2) w]
  let ?e' = "e1\<lparr>re_contexts := set_context_states 0 0 (?st[0 := s]) (re_contexts e1)\<rparr>"
  have "re_write_bool v e = Inr ?e'"
    using ready_usable [OF assms(1)] e(5,6) w by (simp add: re_write_bool_def Let_def kInitialStateSize_def split: if_splits)
  moreover have "config_ready i (Suc n) ?e'"
    using assms(1) step(1,3,5) st' live_store_update [OF e(4)]
    by (auto simp: config_ready_def ready_encoder_def same_setting_def enc_inv_def step(2) e(3) set_context_states_def)
  ultimately show ?thesis by blast
qed

lemma begin_ready:
  assumes "config_ready False n e"
  shows "\<exists>e'. re_begin_independent_scalar_contexts 1 e = Inr e' \<and> config_ready True n e'"
proof -
  have "initialize_contexts [1] [] kDefaultInitialState = Inr (store_of_counts [1] [] kDefaultInitialState)"
    by (simp add: initialize_contexts_def kMaxContextBankCount_def kMaxScalarContextCount_def)
  moreover have "live_store (store_of_counts [1] [] kDefaultInitialState)"
    by (rule live_store_of_counts) (simp add: live_128 kDefaultInitialState_def)
  moreover have "bank_sizes (store_of_counts [1] [] kDefaultInitialState) = [1]"
    by (simp add: store_of_counts_def)
  ultimately show ?thesis
    using assms ready_usable [OF assms]
    by (auto simp: re_begin_independent_scalar_contexts_def initialize_encoder_contexts_eq config_ready_def
        ready_encoder_def enc_inv_def)
qed

lemma end_ready:
  assumes "config_ready True n e"
  shows "\<exists>e'. re_end_independent_scalar_contexts e = Inr e' \<and> config_ready False n e'"
  using assms ready_usable [OF assms]
  by (auto simp: re_end_independent_scalar_contexts_def config_ready_def ready_encoder_def enc_inv_def)

interpretation range_total: total_writer range_symbol_writer config_ready symbol_budget
proof
  show "config_ready i n' e" if "config_ready i n e" "n \<le> n'" for i n n' e
    using that by (auto simp: config_ready_def)
qed (simp_all add: range_symbol_writer_def write_bool_ready write_unsigned_ready write_signed_ready
    write_signed_ready [where c = 0] kInitialStateSize_def begin_ready end_ready del: One_nat_def)

lemma initial_states_cost_bound:
  assumes "initial_state_counts_match states sets" and "length states \<le> length sets"
    and "list_all (\<lambda>table_set. qt_context_count table_set \<le> 32768) sets"
  shows "sum_list (map (\<lambda>contexts. 1 + 32 * length contexts) states) \<le> length states * 1048577"
  using assms by (induction states sets rule: initial_state_counts_match.induct) auto

lemma parameters_cost_bound:
  assumes "validate_initial_profile stream = Inr u" and "wf_parameters stream"
  shows "parameters_cost stream \<le> symbol_budget"
proof -
  note profile = validated_geometry [OF assms(1)]
  have sets: "list_all (\<lambda>table_set. qt_context_count table_set \<le> 32768) (sp_quant_table_sets stream)"
    using assms(2) by (simp add: wf_parameters_def wf_quant_table_set_def kMaxContextCount_def list_all_iff)
  have "initial_states_cost stream \<le> 8 * 1048577"
  proof (cases "sp_initial_states stream = []")
    case True
    with profile(7) show ?thesis by (simp add: initial_states_cost_def)
  next
    case False
    from initial_states_cost_bound [OF profile(11) _ sets] profile(10) [OF False]
    have "initial_states_cost stream \<le> length (sp_initial_states stream) * 1048577"
      using False by (simp add: initial_states_cost_def)
    also have "\<dots> \<le> 8 * 1048577" using profile(7) profile(10) [OF False] by (intro mult_le_mono1) simp
    finally show ?thesis .
  qed
  with profile(7) show ?thesis by (simp add: parameters_cost_def symbol_budget_def)
qed

lemma fresh_encoder_ready:
  "\<exists>e. re_reset_impl [kInitialStateSize] [] kDefaultInitialState kDefaultStateTransition = Inr e \<and> config_ready False 0 e"
proof -
  have "initialize_contexts [kInitialStateSize] [] kDefaultInitialState =
      Inr (store_of_counts [kInitialStateSize] [] kDefaultInitialState)"
    by (simp add: initialize_contexts_def kMaxContextBankCount_def kMaxScalarContextCount_def kInitialStateSize_def)
  then obtain e where e: "re_reset_counts [kInitialStateSize] kDefaultInitialState = Inr e" "ready_encoder e"
    "bank_sizes (re_contexts e) = [kInitialStateSize]" "length (re_low_bytes e) = 2"
    by (rule ready_encoder_reset)
  then have reset: "re_reset_impl [kInitialStateSize] [] kDefaultInitialState kDefaultStateTransition = Inr e"
    by (simp add: re_reset_counts_def)
  have "re_snapshots e = []"
    using e(1) by (auto simp: re_reset_counts_def re_reset_impl_def new_range_encoder_def)
  with e have "config_ready False 0 e" by (simp add: config_ready_def)
  with reset show ?thesis by blast
qed

lemma record_total:
  assumes "validate_initial_profile stream = Inr u" and "wf_parameters stream"
    and "list_all encodable_table_set (sp_quant_table_sets stream)"
  shows "\<exists>record. write_configuration_record stream = Inr record"
proof -
  obtain e where reset: "re_reset kInitialStateSize kDefaultInitialState = Inr e" and "config_ready False 0 e"
    using fresh_encoder_ready by (auto simp: re_reset_def)
  from range_total.parameters_total [OF \<open>config_ready False 0 e\<close> assms(2,1,3)] parameters_cost_bound [OF assms(1,2)]
  obtain e' where e': "write_parameters range_symbol_writer stream e = Inr e'"
    "config_ready False (parameters_cost stream) e'" by auto
  have "length (re_low_bytes e') \<le> 2 + 127 * symbol_budget"
    using e'(2) parameters_cost_bound [OF assms(1,2)] by (simp add: config_ready_def)
  then have "\<not> byte_vector_max_size - 4 < length (re_low_bytes e')"
    by (simp add: symbol_budget_def byte_vector_max_size_def)
  moreover have "re_finalize e' = Inr (re_low_bytes e', e'\<lparr>re_finalized := True\<rparr>)"
    using ready_usable [OF e'(2)] by (simp add: re_finalize_def re_finalize_impl_def)
  ultimately show ?thesis
    using assms(1) reset e'(1) by (simp add: write_configuration_record_def append_crc_parity_eq)
qed

end
