(* ===== verification/Context_Model.thy ===== *)
theory Context_Model
  imports Stream_Parameters
begin

text \<open>
  The context of a sample (\<^verbatim>\<open>src/src/mffv1/context_model.hpp,cpp\<close>) and the three lines of samples it is
  derived from (\<^verbatim>\<open>src/src/mffv1/line_state.hpp\<close>, implemented at the top of
  \<^verbatim>\<open>src/src/codec/slice_decoder.cpp\<close>).
\<close>

subsection \<open>Neighbours and contexts\<close>

record neighbor_samples =
  ns_far_left :: int
  ns_left :: int
  ns_top :: int
  ns_top_left :: int
  ns_top_right :: int
  ns_top_top :: int

record context_decision =
  cd_context :: u32
  cd_invert_difference :: bool

definition context_input_index :: "int \<Rightarrow> nat" where
  "context_input_index gradient = unat (word_of_int gradient AND 0xff :: u64)"

definition context_gradients :: "neighbor_samples \<Rightarrow> int list" where
  "context_gradients samples =
     [ns_left samples - ns_top_left samples,
      ns_top_left samples - ns_top samples,
      ns_top samples - ns_top_right samples,
      ns_far_left samples - ns_left samples,
      ns_top_top samples - ns_top samples]"

text \<open>The sum of the loop; five entries of \<open>int32_t\<close> do not overflow an \<open>int64_t\<close>.\<close>

definition folded_context :: "int list list \<Rightarrow> int list \<Rightarrow> int" where
  "folded_context tables gradients =
     (\<Sum>(table, gradient) \<leftarrow> zip tables gradients. table ! context_input_index gradient)"

definition derive_context :: "quant_table_set \<Rightarrow> neighbor_samples \<Rightarrow> context_decision result" where
  "derive_context quant_tables samples =
     (if qt_context_count quant_tables = 0 then Inl (make_error InvalidState)
      else
        let folded = folded_context (qt_tables quant_tables) (context_gradients samples);
            invert = folded < 0;
            folded = (if invert then - folded else folded)
        in if int (qt_context_count quant_tables) \<le> folded then Inl (make_error InvalidState)
           else Inr \<lparr>cd_context = word_of_int folded, cd_invert_difference = invert\<rparr>)"

lemma context_input_index_bound: "context_input_index gradient < 256"
proof -
  have "(0xff :: u64) = mask 8" by (simp add: mask_eq_exp_minus_1)
  then have "(word_of_int gradient AND 0xff :: u64) = take_bit 8 (word_of_int gradient)"
    by (simp only: take_bit_eq_mask)
  then have "context_input_index gradient = take_bit 8 (unat (word_of_int gradient :: u64))"
    unfolding context_input_index_def by (simp only: unsigned_take_bit_eq)
  then show ?thesis by (simp add: take_bit_eq_mod)
qed

text \<open>
  The context count bounds the contexts when every table is bounded by its share of the sum: the shares
  are the numbers \<open>s i * (n i - 1)\<close>, where \<open>s (i + 1) = s i * (2 * n i - 1)\<close>.
\<close>

fun tables_within :: "int list list \<Rightarrow> int \<Rightarrow> int \<Rightarrow> bool" where
  "tables_within [] scale final \<longleftrightarrow> final = scale"
| "tables_within (table # tables) scale final \<longleftrightarrow>
     (\<exists>share \<ge> 0. length table = kTableEntries \<and> (\<forall>x \<in> set table. \<bar>x\<bar> \<le> share) \<and>
        tables_within tables (scale + 2 * share) final)"

lemma folded_context_bound:
  assumes "tables_within tables scale final" and "length gradients = length tables"
  shows "2 * \<bar>folded_context tables gradients\<bar> \<le> final - scale"
  using assms
proof (induction tables arbitrary: scale gradients)
  case Nil
  then show ?case by (simp add: folded_context_def)
next
  case (Cons table tables)
  then obtain g gs where g: "gradients = g # gs" by (cases gradients) simp_all
  from Cons.prems(1) obtain share where share: "length table = kTableEntries" "\<forall>x \<in> set table. \<bar>x\<bar> \<le> share"
    "tables_within tables (scale + 2 * share) final" by auto
  have "\<bar>table ! context_input_index g\<bar> \<le> share"
    using share(1,2) context_input_index_bound [of g] by (simp add: kTableEntries_def)
  moreover have "2 * \<bar>folded_context tables gs\<bar> \<le> final - (scale + 2 * share)"
    using Cons.IH [OF share(3)] Cons.prems(2) by (simp add: g)
  moreover have "folded_context (table # tables) (g # gs) = table ! context_input_index g + folded_context tables gs"
    by (simp add: folded_context_def)
  ultimately show ?case
    unfolding g using abs_triangle_ineq [of "table ! context_input_index g" "folded_context tables gs"] by simp
qed

lemma derive_context_succeeds:
  assumes "tables_within (qt_tables quant_tables) 1 final" and "length (qt_tables quant_tables) = kContextInputs"
    and "int (qt_context_count quant_tables) = (final + 1) div 2" and "0 < qt_context_count quant_tables"
  shows "\<exists>decision. derive_context quant_tables samples = Inr decision"
proof -
  have len: "length (context_gradients samples) = length (qt_tables quant_tables)"
    using assms(2) by (simp add: context_gradients_def kContextInputs_def)
  from folded_context_bound [OF assms(1) len]
  have "\<bar>folded_context (qt_tables quant_tables) (context_gradients samples)\<bar> < (final + 1) div 2" by linarith
  with assms(3,4) show ?thesis by (simp add: derive_context_def Let_def abs_if)
qed

subsection \<open>The lines of a plane\<close>

record line_state =
  ls_border_value :: int
  ls_second_previous :: "int list"
  ls_previous :: "int list"
  ls_current :: "int list"

definition new_line_state :: line_state where
  "new_line_state = \<lparr>ls_border_value = 0, ls_second_previous = [], ls_previous = [], ls_current = []\<rparr>"

definition ls_reset :: "u32 \<Rightarrow> int \<Rightarrow> line_state result" where
  "ls_reset width border_value =
     (if width = 0 then Inl (make_error InvalidArgument)
      else Inr \<lparr>ls_border_value = border_value,
                ls_second_previous = replicate (unat width) border_value,
                ls_previous = replicate (unat width) border_value,
                ls_current = replicate (unat width) border_value\<rparr>)"

definition ls_width :: "line_state \<Rightarrow> nat" where
  "ls_width ls = length (ls_current ls)"

definition ls_neighbors :: "line_state \<Rightarrow> nat \<Rightarrow> neighbor_samples" where
  "ls_neighbors ls x =
     \<lparr>ns_far_left = (if 1 < x then ls_current ls ! (x - 2)
        else if x = 1 then ls_previous ls ! 0 else ls_border_value ls),
      ns_left = (if 0 < x then ls_current ls ! (x - 1) else ls_previous ls ! 0),
      ns_top = ls_previous ls ! x,
      ns_top_left = (if 0 < x then ls_previous ls ! (x - 1) else ls_second_previous ls ! 0),
      ns_top_right = (if x + 1 < length (ls_current ls) then ls_previous ls ! (x + 1) else ls_previous ls ! x),
      ns_top_top = ls_second_previous ls ! x\<rparr>"

definition ls_swap_lines :: "line_state \<Rightarrow> line_state" where
  "ls_swap_lines ls =
     ls\<lparr>ls_second_previous := ls_previous ls, ls_previous := ls_current ls,
        ls_current := map (\<lambda>_. ls_border_value ls) (ls_previous ls)\<rparr>"

end
