(* ===== verification/Configuration_Properties.thy ===== *)
theory Configuration_Properties
  imports Configuration_Totality Context_Model
begin

text \<open>
  What the configuration code guarantees: the record round trip, the totality of the writer, and the
  well-formedness of everything the parser accepts, which in particular never makes the context model
  fail.
\<close>

subsection \<open>What the parser accepts\<close>

definition valid_table_set :: "quant_table_set \<Rightarrow> bool" where
  "valid_table_set table_set \<longleftrightarrow>
     length (qt_tables table_set) = kContextInputs \<and>
     (\<exists>final. tables_within (qt_tables table_set) 1 final \<and> int (qt_context_count table_set) = (final + 1) div 2) \<and>
     1 \<le> qt_context_count table_set \<and> qt_context_count table_set \<le> nat kMaxContextCount"

lemma parse_quant_runs_cases:
  assumes "parse_quant_runs R scale k v table r = Inr (res, r')" and "k < 128"
  obtains len r1 where "v \<le> int32_max div max scale 1" and "k + len \<le> 128"
    and "parse_quant_runs R scale (k + len) (v + 1)
      (take k table @ replicate len (to_int32 (scale * v)) @ drop (k + len) table) r1 = Inr (res, r')"
proof -
  have rem: "unat (word_of_nat (128 - k) :: u64) = 128 - k" by (rule unat_of_nat_bounded) simp
  have len: "k + unat (min (l + 1) (word_of_nat (128 - k) :: u64)) \<le> 128" for l :: u64
  proof -
    have "unat (min (l + 1) (word_of_nat (128 - k) :: u64)) \<le> 128 - k"
      using rem by (simp only: min_def word_le_nat_alt split: if_splits) simp
    with assms(2) show ?thesis by simp
  qed
  from assms obtain l r1 where "quant_run_step R scale k v table l r1 = Inr (res, r')"
    by (auto simp: parse_quant_runs_unfold)
  with len [of l] that [of "unat (min (l + 1) (word_of_nat (128 - k) :: u64))" r1] show thesis
    unfolding quant_run_step_def Let_def by (simp only: not_less split: if_splits) simp_all
qed

text \<open>After \<open>v\<close> runs the entries are multiples of the scale below \<open>v\<close>.\<close>

definition runs_within :: "int \<Rightarrow> nat \<Rightarrow> int \<Rightarrow> int list \<Rightarrow> bool" where
  "runs_within scale k v table \<longleftrightarrow>
     length table = kTableEntries \<and> k \<le> 128 \<and> 0 \<le> v \<and> (0 < k \<longrightarrow> 0 < v) \<and> scale * (v - 1) \<le> int32_max \<and>
     (\<forall>i < k. 0 \<le> table ! i \<and> table ! i \<le> scale * (v - 1))"

lemma parse_quant_runs_within:
  assumes "parse_quant_runs R scale k v table r = Inr ((n, table'), r')" and "runs_within scale k v table"
    and "1 \<le> scale"
  shows "runs_within scale 128 n table'"
  using assms(1,2)
proof (induction "nat (2 ^ 31 - v)" arbitrary: k v table r rule: less_induct)
  case less
  show ?case
  proof (cases "k < 128")
    case False
    with less.prems have "k = 128" by (simp add: runs_within_def)
    with less.prems show ?thesis by (simp add: parse_quant_runs_done)
  next
    case True
    from parse_quant_runs_cases [OF less.prems(1) True] obtain len r1
      where v: "v \<le> int32_max div max scale 1" and len: "k + len \<le> 128"
        and rec: "parse_quant_runs R scale (k + len) (v + 1)
          (take k table @ replicate len (to_int32 (scale * v)) @ drop (k + len) table) r1 = Inr ((n, table'), r')" .
    have v0: "0 \<le> v" using less.prems(2) by (simp add: runs_within_def)
    have "v \<le> int32_max div scale" using v assms(3) by (simp add: max_def)
    then have "scale * v \<le> scale * (int32_max div scale)" using assms(3) by (intro mult_left_mono) simp_all
    also have "\<dots> = int32_max - int32_max mod scale" by (simp only: minus_mod_eq_mult_div)
    also have "\<dots> \<le> int32_max" using pos_mod_sign [of scale int32_max] assms(3) by simp
    finally have sv: "0 \<le> scale * v" "scale * v \<le> int32_max" using v0 assms(3) by simp_all
    then have exact: "to_int32 (scale * v) = scale * v" by (intro to_int32_id) (simp add: in_int32_def int32_max_def)
    let ?t = "take k table @ replicate len (scale * v) @ drop (k + len) table"
    have mono: "scale * (v - 1) \<le> scale * v" using assms(3) by (intro mult_left_mono) simp_all
    have "runs_within scale (k + len) (v + 1) ?t"
      unfolding runs_within_def
    proof (intro conjI allI impI)
      fix i assume i: "i < k + len"
      have tlen: "length table = 256" "\<And>i. i < k \<Longrightarrow> 0 \<le> table ! i \<and> table ! i \<le> scale * (v - 1)"
        using less.prems(2) by (auto simp: runs_within_def kTableEntries_def)
      show "0 \<le> ?t ! i" "?t ! i \<le> scale * (v + 1 - 1)"
        using i tlen(1) tlen(2) [of i] sv(1) mono True by (auto simp: nth_append)
    qed (use less.prems(2) len v0 sv in \<open>auto simp: runs_within_def kTableEntries_def\<close>)
    moreover have "v < 2 ^ 31" using sv(2) assms(3) v0 mult_right_mono [of 1 scale v] by (simp add: int32_max_def)
    ultimately show ?thesis
      using rec unfolding exact by (intro less.hyps [of "v + 1"]) auto
  qed
qed

lemma mirror_within:
  assumes "runs_within scale 128 n table" and "1 \<le> scale"
  shows "length (mirror_quant_table table) = kTableEntries"
    and "\<forall>x \<in> set (mirror_quant_table table). \<bar>x\<bar> \<le> scale * (n - 1)"
proof -
  show "length (mirror_quant_table table) = kTableEntries" by (simp add: mirror_quant_table_def)
  have "0 \<le> table ! i \<and> table ! i \<le> scale * (n - 1)" if "i < 128" for i
    using assms(1) that by (simp add: runs_within_def)
  then show "\<forall>x \<in> set (mirror_quant_table table). \<bar>x\<bar> \<le> scale * (n - 1)"
    by (auto simp: mirror_quant_table_def kTableEntries_def)
qed

lemma parse_quant_tables_within:
  assumes "parse_quant_tables R tbls scale r = Inr ((final, tables), r')" and "1 \<le> scale"
    and "list_all (\<lambda>tbl. length tbl = kTableEntries) tbls"
  shows "length tables = length tbls \<and> tables_within tables scale final \<and> 1 \<le> final"
  using assms
proof (induction tbls arbitrary: scale r tables)
  case Nil
  then show ?case by simp
next
  case (Cons tbl tbls)
  from Cons.prems(1) obtain r1 n t r2 r3 ts where
    run: "parse_quant_runs R scale 0 0 tbl r1 = Inr ((n, t), r2)"
    and guard: "\<not> (2 * n - 1 \<le> 0 \<or> int64_max div (2 * n - 1) < scale)"
    and rest: "parse_quant_tables R tbls (scale * (2 * n - 1)) r3 = Inr ((final, ts), r')"
    and tables: "tables = mirror_quant_table t # ts"
    by (auto simp: parse_quant_table_def Let_def split: if_splits)
  have "runs_within scale 0 0 tbl" using Cons.prems(2,3) by (simp add: runs_within_def int32_max_def)
  from parse_quant_runs_within [OF run this Cons.prems(2)] have t: "runs_within scale 128 n t" .
  have pos: "1 \<le> scale * (2 * n - 1)"
  proof -
    have "0 < scale * (2 * n - 1)" using guard Cons.prems(2) by (intro mult_pos_pos) simp_all
    then show ?thesis by simp
  qed
  have "0 \<le> scale * (n - 1)" using guard Cons.prems(2) by (intro mult_nonneg_nonneg) simp_all
  moreover have "scale + 2 * (scale * (n - 1)) = scale * (2 * n - 1)" by (simp add: algebra_simps)
  ultimately have "tables_within tables scale final"
    using mirror_within [OF t Cons.prems(2)] Cons.IH [OF rest pos] Cons.prems(3)
    by (auto simp: tables intro!: exI [of _ "scale * (n - 1)"])
  with Cons.IH [OF rest pos] Cons.prems(3) show ?case by (simp add: tables)
qed

lemma parse_quant_table_set_valid:
  assumes "parse_quant_table_set R new_quant_table_set r = Inr (table_set, r')"
  shows "valid_table_set table_set"
proof -
  from assms obtain final tables where
    run: "parse_quant_tables R (qt_tables new_quant_table_set) 1 r = Inr ((final, tables), r')"
    and guard: "\<not> ((final + 1) div 2 \<le> 0 \<or> kMaxContextCount < (final + 1) div 2)"
    and ts: "table_set = new_quant_table_set\<lparr>qt_tables := tables, qt_context_count := nat ((final + 1) div 2)\<rparr>"
    by (auto simp: parse_quant_table_set_def Let_def split: if_splits)
  from parse_quant_tables_within [OF run] have
    "length tables = kContextInputs" "tables_within tables 1 final" "1 \<le> final"
    by (auto simp: new_quant_table_set_def list_all_iff)
  moreover have "1 \<le> nat ((final + 1) div 2)" "nat ((final + 1) div 2) \<le> nat kMaxContextCount"
    "int (nat ((final + 1) div 2)) = (final + 1) div 2"
    using guard by (simp_all add: nat_le_iff kMaxContextCount_def, linarith+)
  ultimately show ?thesis unfolding valid_table_set_def by (auto simp: ts)
qed

definition valid_parameters :: "stream_parameters \<Rightarrow> bool" where
  "valid_parameters stream \<longleftrightarrow>
     sp_version stream \<in> {0, 1, 3} \<and> (sp_version stream = 3 \<longrightarrow> 4 \<le> sp_micro_version stream) \<and>
     sp_colorspace_type stream \<in> {0, 1} \<and>
     1 \<le> sp_bits_per_raw_sample stream \<and> sp_bits_per_raw_sample stream \<le> 16 \<and>
     \<not> has_invalid_rgb_geometry (sp_colorspace_type stream = 1) (sp_chroma_planes stream)
         (sp_log2_h_chroma_subsample stream) (sp_log2_v_chroma_subsample stream) \<and>
     sp_num_h_slices stream \<noteq> 0 \<and> sp_num_v_slices stream \<noteq> 0 \<and>
     1 \<le> length (sp_quant_table_sets stream) \<and> length (sp_quant_table_sets stream) \<le> 8 \<and>
     list_all valid_table_set (sp_quant_table_sets stream) \<and>
     length (sp_state_transition stream) = 256 \<and>
     (if sp_version stream = 3
      then list_all2 (\<lambda>contexts table_set. contexts = [] \<or> length contexts = qt_context_count table_set)
             (sp_initial_states stream) (sp_quant_table_sets stream)
           \<and> list_all wf_initial_state_set (sp_initial_states stream)
      else sp_initial_states stream = [])"

lemma parse_quant_table_sets_valid:
  "parse_quant_table_sets R (replicate n new_quant_table_set) r = Inr (sets, r') \<Longrightarrow>
    length sets = n \<and> list_all valid_table_set sets"
  by (induction n arbitrary: r sets) (auto dest: parse_quant_table_set_valid)

lemma parse_initial_state_length:
  "parse_initial_state R i preds r = Inr (states, r') \<Longrightarrow> length states = length preds"
  by (induction preds arbitrary: i r states) auto

lemma parse_initial_contexts_valid:
  assumes "parse_initial_contexts R n previous r = Inr (contexts, r')" and "length previous = kInitialStateSize"
  shows "length contexts = n \<and> wf_initial_state_set contexts"
  using assms
proof (induction n arbitrary: previous r contexts)
  case 0
  then show ?case by (simp add: wf_initial_state_set_def)
next
  case (Suc n)
  then show ?case by (fastforce simp: wf_initial_state_set_def dest: parse_initial_state_length)
qed

lemma parse_initial_state_sets_valid:
  assumes "parse_initial_state_sets R sets r = Inr (states, r')"
  shows "list_all2 (\<lambda>contexts table_set. contexts = [] \<or> length contexts = qt_context_count table_set) states sets
    \<and> list_all wf_initial_state_set states"
  using assms
proof (induction sets arbitrary: r states)
  case Nil
  then show ?case by simp
next
  case (Cons table_set sets)
  from Cons.prems obtain contexts r1 rest where
    c: "parse_initial_state_set R table_set r = Inr (contexts, r1)" and
    rest: "parse_initial_state_sets R sets r1 = Inr (rest, r')" and states: "states = contexts # rest"
    by auto
  have "(contexts = [] \<or> length contexts = qt_context_count table_set) \<and> wf_initial_state_set contexts"
    using c parse_initial_contexts_valid [of R "qt_context_count table_set" "replicate kInitialStateSize 128"]
    by (auto simp: parse_initial_state_set_def wf_initial_state_set_def split: if_splits)
  with Cons.IH [OF rest] show ?case by (simp add: states)
qed

lemma parse_state_transition_length:
  "parse_state_transition R olds r = Inr (states, r') \<Longrightarrow> length states = length olds"
  by (induction olds arbitrary: r states) (auto simp: Let_def split: if_splits)

lemma checked_u32_nonzero:
  assumes "\<not> 2 ^ 32 - 1 \<le> v" and "checked_u32 (v + 1) = Inr n"
  shows "n \<noteq> 0"
proof -
  have v: "unat v < 2 ^ 32 - 1" using assms(1) by (simp add: word_le_nat_alt)
  then have "unat (v + 1) = unat v + 1" by (subst unat_add_bounded) simp_all
  moreover have "n = ucast (v + 1)" using assms(2) by (simp add: checked_u32_def split: if_splits)
  ultimately have "unat n = unat v + 1" using v by (simp add: unat_ucast_small)
  then show ?thesis by auto
qed

text \<open>The fields each stage sets, on success.\<close>

lemma parse_version_valid:
  assumes "parse_version R new_stream_parameters r = Inr (s, r')"
  shows "sp_version s \<in> {0, 1, 3} \<and> (sp_version s = 3 \<longrightarrow> 4 \<le> sp_micro_version s) \<and>
    s = new_stream_parameters\<lparr>sp_version := sp_version s, sp_micro_version := sp_micro_version s\<rparr>"
proof -
  have four: "4 \<le> uint v" if "\<not> v < 4" for v :: u64 using that by (simp add: word_less_def)
  have "uint v = 0 \<or> uint v = 1 \<or> uint v = 3" if "v = 0 \<or> v = 1 \<or> v = 3" for v :: u64 using that by auto
  with assms four show ?thesis
    by (auto simp: parse_version_def Let_def new_stream_parameters_def split: if_splits)
qed

lemma parse_coder_type_valid:
  assumes "parse_coder_type R s r = Inr ((s', c), r')" and "length (sp_state_transition s) = 256"
  shows "length (sp_state_transition s') = 256 \<and>
    s' = s\<lparr>sp_entropy_mode := sp_entropy_mode s', sp_state_transition := sp_state_transition s'\<rparr>"
  using assms by (auto simp: parse_coder_type_def dest!: parse_state_transition_length split: if_splits)

lemma parse_colorspace_valid:
  assumes "parse_colorspace R s r = Inr (s', r')"
  shows "sp_colorspace_type s' \<in> {0, 1} \<and> s' = s\<lparr>sp_colorspace_type := sp_colorspace_type s'\<rparr>"
  using assms by (auto simp: parse_colorspace_def Let_def is_supported_syntax_colorspace_def split: if_splits)

lemma parse_bit_depth_valid:
  assumes "parse_bit_depth R s r = Inr (s', r')" and "1 \<le> sp_bits_per_raw_sample s \<and> sp_bits_per_raw_sample s \<le> 16"
  shows "1 \<le> sp_bits_per_raw_sample s' \<and> sp_bits_per_raw_sample s' \<le> 16 \<and>
    s' = s\<lparr>sp_bits_per_raw_sample := sp_bits_per_raw_sample s'\<rparr>"
  using assms by (auto simp: parse_bit_depth_def Let_def is_supported_decoder_bit_depth_def split: if_splits)

lemma parse_planes_valid:
  assumes "parse_planes R s r = Inr (s', r')"
  shows "\<not> has_invalid_rgb_geometry (sp_colorspace_type s' = 1) (sp_chroma_planes s')
         (sp_log2_h_chroma_subsample s') (sp_log2_v_chroma_subsample s') \<and>
    s' = s\<lparr>sp_chroma_planes := sp_chroma_planes s', sp_log2_h_chroma_subsample := sp_log2_h_chroma_subsample s',
           sp_log2_v_chroma_subsample := sp_log2_v_chroma_subsample s', sp_extra_plane := sp_extra_plane s'\<rparr>"
  using assms by (auto simp: parse_planes_def Let_def split: if_splits)

lemma parse_slice_grid_valid:
  assumes "parse_slice_grid R s r = Inr ((s', n), r')" and "sp_num_h_slices s \<noteq> 0" and "sp_num_v_slices s \<noteq> 0"
  shows "sp_num_h_slices s' \<noteq> 0 \<and> sp_num_v_slices s' \<noteq> 0 \<and> 1 \<le> unat n \<and> unat n \<le> 8 \<and>
    s' = s\<lparr>sp_num_h_slices := sp_num_h_slices s', sp_num_v_slices := sp_num_v_slices s'\<rparr>"
proof -
  have count: "1 \<le> unat n \<and> unat n \<le> 8" if "n \<noteq> 0" "\<not> kMaxQuantTableSetCount < n" for n :: u64
    using that by (simp add: kMaxQuantTableSetCount_def word_less_nat_alt Suc_le_eq unat_gt_0)
  show ?thesis
  proof (cases "3 \<le> sp_version s")
    case False
    with assms show ?thesis by (simp add: parse_slice_grid_def)
  next
    case True
    with assms(1) obtain v1 h v2 v where "\<not> 2 ^ 32 - 1 \<le> v1" "checked_u32 (v1 + 1) = Inr h"
      "\<not> 2 ^ 32 - 1 \<le> v2" "checked_u32 (v2 + 1) = Inr v" "n \<noteq> 0" "\<not> kMaxQuantTableSetCount < n"
      "s' = s\<lparr>sp_num_h_slices := h, sp_num_v_slices := v\<rparr>"
      unfolding parse_slice_grid_def Let_def by (auto split: if_splits)
    with checked_u32_nonzero count show ?thesis by auto
  qed
qed

lemma parse_configuration_valid:
  assumes "parse_configuration R r = Inr (stream, r')"
  shows "valid_parameters stream"
proof -
  from assms obtain s1 r1 s2 c r2 s3 r3 s4 r4 s5 r5 s6 n r6 s7 r7 r8 where
    s1: "parse_version R new_stream_parameters r = Inr (s1, r1)" and
    s2: "parse_coder_type R s1 r1 = Inr ((s2, c), r2)" and
    s3: "parse_colorspace R s2 r2 = Inr (s3, r3)" and
    s4: "parse_bit_depth R s3 r3 = Inr (s4, r4)" and
    s5: "parse_planes R s4 r4 = Inr (s5, r5)" and
    s6: "parse_slice_grid R s5 r5 = Inr ((s6, n), r6)" and
    s7: "parse_tables R s6 n r6 = Inr (s7, r7)" and
    s8: "parse_trailer R s7 r7 = Inr (stream, r8)"
    by (auto simp: parse_configuration_def split: if_splits)
  from parse_version_valid [OF s1] obtain a b where v1: "s1 = new_stream_parameters\<lparr>sp_version := a, sp_micro_version := b\<rparr>"
    "a \<in> {0, 1, 3}" "a = 3 \<longrightarrow> 4 \<le> b" by blast
  then have "length (sp_state_transition s1) = 256" by (simp add: new_stream_parameters_def kDefaultStateTransition_def)
  from parse_coder_type_valid [OF s2 this] obtain m t where
    v2: "s2 = s1\<lparr>sp_entropy_mode := m, sp_state_transition := t\<rparr>" "length t = 256" by blast
  from parse_colorspace_valid [OF s3] obtain cs where v3: "s3 = s2\<lparr>sp_colorspace_type := cs\<rparr>" "cs \<in> {0, 1}" by blast
  have "1 \<le> sp_bits_per_raw_sample s3 \<and> sp_bits_per_raw_sample s3 \<le> 16"
    by (simp add: v3 v2 v1 new_stream_parameters_def)
  from parse_bit_depth_valid [OF s4 this] obtain bits where
    v4: "s4 = s3\<lparr>sp_bits_per_raw_sample := bits\<rparr>" "1 \<le> bits \<and> bits \<le> 16" by blast
  from parse_planes_valid [OF s5] obtain ch lh lv ex where
    v5: "s5 = s4\<lparr>sp_chroma_planes := ch, sp_log2_h_chroma_subsample := lh, sp_log2_v_chroma_subsample := lv, sp_extra_plane := ex\<rparr>"
    and rgb: "\<not> has_invalid_rgb_geometry (sp_colorspace_type s5 = 1) (sp_chroma_planes s5)
         (sp_log2_h_chroma_subsample s5) (sp_log2_v_chroma_subsample s5)" by blast
  have "sp_num_h_slices s5 \<noteq> 0" "sp_num_v_slices s5 \<noteq> 0"
    by (simp_all add: v5 v4 v3 v2 v1 new_stream_parameters_def)
  from parse_slice_grid_valid [OF s6 this] obtain h v where
    v6: "s6 = s5\<lparr>sp_num_h_slices := h, sp_num_v_slices := v\<rparr>" "h \<noteq> 0" "v \<noteq> 0" "1 \<le> unat n" "unat n \<le> 8"
    by (metis stream_parameters.ext_inject stream_parameters.surjective stream_parameters.update_convs)
  from s7 obtain sets where v7: "s7 = s6\<lparr>sp_quant_table_sets := sets\<rparr>"
    and "parse_quant_table_sets R (replicate (unat n) new_quant_table_set) r6 = Inr (sets, r7)"
    by (auto simp: parse_tables_def)
  from parse_quant_table_sets_valid [OF this(2)] have sets: "length sets = unat n" "list_all valid_table_set sets" by simp_all
  have ver: "sp_version s7 = a" by (simp add: v7 v6 v5 v4 v3 v2 v1)
  have states7: "sp_initial_states s7 = []" "sp_quant_table_sets s7 = sets"
    by (simp_all add: v7 v6 v5 v4 v3 v2 v1 new_stream_parameters_def)
  obtain st ec ia where v8: "stream = s7\<lparr>sp_initial_states := st, sp_error_status_enabled := ec, sp_intra_only := ia\<rparr>"
    and st: "if a = 3 then list_all2 (\<lambda>contexts table_set. contexts = [] \<or> length contexts = qt_context_count table_set) st sets
        \<and> list_all wf_initial_state_set st else st = []"
  proof (cases "a = 3")
    case True
    with s8 ver states7 that show thesis
      by (auto simp: parse_trailer_def dest!: parse_initial_state_sets_valid split: if_splits)
  next
    case False
    with v1(2) ver have "\<not> 3 \<le> sp_version s7" by auto
    with s8 have "stream = s7" by (simp add: parse_trailer_def)
    with False states7 show thesis by (intro that [of "sp_intra_only s7" "sp_error_status_enabled s7" "[]"]) simp_all
  qed
  show ?thesis
    using v1(2,3) v2(2) v3(2) v4(2) rgb v6(2-5) sets st ver
    by (simp add: valid_parameters_def v8 v7 v6(1) v5 v4(1) v3(1) v2(1) v1(1))
qed

subsection \<open>A stream to try the properties on\<close>

text \<open>The library's defaults for version 3.4 with one table set of a single context.\<close>

definition example_stream :: stream_parameters where
  "example_stream = new_stream_parameters\<lparr>sp_micro_version := 4,
     sp_quant_table_sets := [make_zero_quant_table_set], sp_intra_only := True\<rparr>"

lemma run_length_replicate: "k \<le> 128 \<Longrightarrow> run_length (replicate 256 0) 0 k = 128 - k"
proof (induction "128 - k" arbitrary: k)
  case 0
  then show ?case by (subst run_length.simps) simp
next
  case (Suc n)
  then show ?case by (subst run_length.simps) auto
qed

lemma zero_table: "write_quant_table accepting_writer (replicate 256 0) 1 () = Inr (1, ())"
  unfolding write_quant_table_def write_quant_runs.simps [of _ _ _ 0] write_quant_runs.simps [of _ _ _ "0 + 128"]
  by (simp add: Let_def run_length_replicate validate_quant_table_mirror_def list_ex_iff)
    (simp add: write_quant_runs.simps [of _ _ _ 128] accepting_writer_def)

lemma zero_tables: "write_quant_tables accepting_writer (replicate m (replicate 256 0)) 1 () = Inr (1, ())"
proof (induction m)
  case (Suc m)
  have "sw_begin_contexts accepting_writer 1 () = Inr ()" "sw_end_contexts accepting_writer () = Inr ()"
    by (simp_all add: accepting_writer_def)
  with Suc show ?case by (simp add: zero_table Let_def int64_max_def)
qed simp

lemma zero_set_encodable: "encodable_table_set make_zero_quant_table_set"
  by (simp add: encodable_table_set_def write_quant_table_set_def make_zero_quant_table_set_def new_quant_table_set_def
      kTableEntries_def zero_tables)

lemma example_stream_valid:
  "validate_initial_profile example_stream = Inr ()" "wf_parameters example_stream"
  "list_all encodable_table_set (sp_quant_table_sets example_stream)"
proof -
  have set_ok: "wf_quant_table_set make_zero_quant_table_set"
    by (simp add: wf_quant_table_set_def make_zero_quant_table_set_def new_quant_table_set_def wf_quant_table_def
        in_int32_def kMaxContextCount_def list_all_iff)
  show "validate_initial_profile example_stream = Inr ()"
    by (simp add: validate_initial_profile_def example_stream_def new_stream_parameters_def make_zero_quant_table_set_def
        is_supported_encoder_bit_depth_def is_supported_syntax_colorspace_def has_invalid_rgb_geometry_def
        has_subsampling_without_chroma_def is_supported_chroma_subsampling_def)
  have "length kDefaultStateTransition = 256" by (simp add: kDefaultStateTransition_def)
  with set_ok show "wf_parameters example_stream"
    by (simp add: wf_parameters_def example_stream_def new_stream_parameters_def)
  show "list_all encodable_table_set (sp_quant_table_sets example_stream)"
    by (simp add: example_stream_def zero_set_encodable)
qed

text \<open>
  The sizes that the types of a description have in the source: the arrays for the state transition, for the five tables
  of a set and for an initial state, and the range of \<open>int32_t\<close>.
\<close>

definition array_sizes :: "stream_parameters \<Rightarrow> bool" where
  "array_sizes stream \<longleftrightarrow>
     length (sp_state_transition stream) = 256 \<and>
     (\<forall>table_set \<in> set (sp_quant_table_sets stream). length (qt_tables table_set) = kContextInputs \<and>
        (\<forall>table \<in> set (qt_tables table_set). length table = kTableEntries \<and> (\<forall>x \<in> set table. in_int32 x))) \<and>
     (\<forall>contexts \<in> set (sp_initial_states stream). \<forall>states \<in> set contexts. length states = kInitialStateSize)"

definition contexts_within_limit :: "stream_parameters \<Rightarrow> bool" where
  "contexts_within_limit stream \<longleftrightarrow>
     (\<forall>table_set \<in> set (sp_quant_table_sets stream). qt_context_count table_set \<le> 32768)"

lemma wf_parameters_sizes: "wf_parameters stream \<longleftrightarrow> array_sizes stream \<and> contexts_within_limit stream"
  by (auto simp: wf_parameters_def array_sizes_def contexts_within_limit_def wf_quant_table_set_def wf_quant_table_def
      wf_initial_state_set_def kMaxContextCount_def list_all_iff)

lemma parsed_record_valid: "parse_configuration_record record = Inr stream \<Longrightarrow> valid_parameters stream"
  by (auto simp: parse_configuration_record_def dest: parse_configuration_valid split: if_splits)

text \<open>
  C10: a configuration record is read back as it was written, if and only if every table set has at most 32768 contexts,
  the limit of the parser, which the writer does not check. For a description within the limit that the writer accepts the
  parser returns the description itself up to what the format does not carry: the frame size, the first entry of the
  transition table (and the whole table in Golomb-Rice mode), and the difference between absent and empty initial states.
  The record of a description beyond the limit never comes back as it was. The hypothesis \<open>array_sizes\<close> is what the C++
  types of the description say.
\<close>

theorem configuration_record_roundtrip:
  assumes "array_sizes stream" and "write_configuration_record stream = Inr record"
  shows "parse_configuration_record record = Inr (coded_parameters stream) \<longleftrightarrow> contexts_within_limit stream"
proof
  assume "contexts_within_limit stream"
  with assms(1) have "wf_parameters stream" by (simp add: wf_parameters_sizes)
  from record_roundtrip [OF this assms(2)] show "parse_configuration_record record = Inr (coded_parameters stream)" .
next
  assume "parse_configuration_record record = Inr (coded_parameters stream)"
  from parsed_record_valid [OF this] have "\<forall>table_set \<in> set (sp_quant_table_sets stream). valid_table_set table_set"
    by (simp add: valid_parameters_def coded_parameters_def list_all_iff)
  then show "contexts_within_limit stream"
    by (simp add: contexts_within_limit_def valid_table_set_def kMaxContextCount_def)
qed

theorem configuration_record_roundtrip_witness:
  "\<exists>record. write_configuration_record example_stream = Inr record \<and>
     parse_configuration_record record = Inr (coded_parameters example_stream) \<and>
     sp_quant_table_sets (coded_parameters example_stream) = [make_zero_quant_table_set] \<and>
     sp_initial_states (coded_parameters example_stream) = [[]] \<and> sp_intra_only (coded_parameters example_stream)"
proof -
  from record_total [OF example_stream_valid] obtain rec where rec: "write_configuration_record example_stream = Inr rec" ..
  from example_stream_valid(2) have "array_sizes example_stream" "contexts_within_limit example_stream"
    by (simp_all add: wf_parameters_sizes)
  from configuration_record_roundtrip [OF this(1) rec] this(2) rec show ?thesis
    by (auto simp: coded_parameters_def coded_initial_states_def example_stream_def new_stream_parameters_def)
qed

text \<open>
  C21: the writer returns a record for every valid description with at most 32768 contexts per table set whose tables
  have the run structure of the format. The range coder never runs out of probability or of space while it encodes it.
\<close>

theorem configuration_writer_total:
  assumes "validate_initial_profile stream = Inr u" and "wf_parameters stream"
    and "\<forall>table_set \<in> set (sp_quant_table_sets stream). encodable_table_set table_set"
  shows "\<exists>record. write_configuration_record stream = Inr record"
  using assms by (intro record_total) (simp_all add: list_all_iff)

theorem configuration_writer_total_witness: "\<exists>record. write_configuration_record example_stream = Inr record"
  using configuration_writer_total [OF example_stream_valid(1,2)] example_stream_valid(3) by (simp add: list_all_iff)

text \<open>
  C11: what the parser accepts is well-formed, whatever bytes it is given: a known version, a bit depth of 1 to 16,
  a nonempty slice grid, one to eight table sets of five tables and at most 32768 contexts, and initial
  states that fit them; and with each accepted table set the context model finds a context in range for every
  combination of neighbouring samples.
\<close>

theorem parsed_configuration_valid:
  assumes "parse_configuration_record record = Inr stream"
  shows "valid_parameters stream \<and>
    (\<forall>table_set \<in> set (sp_quant_table_sets stream). \<forall>samples. \<exists>decision. derive_context table_set samples = Inr decision)"
proof (intro conjI ballI allI)
  from assms show valid: "valid_parameters stream" by (rule parsed_record_valid)
  fix table_set samples assume "table_set \<in> set (sp_quant_table_sets stream)"
  with valid have "valid_table_set table_set" by (auto simp: valid_parameters_def list_all_iff)
  then show "\<exists>decision. derive_context table_set samples = Inr decision"
    by (auto simp: valid_table_set_def intro: derive_context_succeeds)
qed

theorem parsed_configuration_valid_witness:
  "\<exists>record stream. parse_configuration_record record = Inr stream \<and> valid_parameters stream \<and>
     (\<forall>samples. \<exists>decision. derive_context (hd (sp_quant_table_sets stream)) samples = Inr decision)"
proof -
  from record_total [OF example_stream_valid] obtain rec where "write_configuration_record example_stream = Inr rec" ..
  from record_roundtrip [OF example_stream_valid(2) this]
  have "parse_configuration_record rec = Inr (coded_parameters example_stream)" .
  moreover have "hd (sp_quant_table_sets (coded_parameters example_stream)) \<in> set (sp_quant_table_sets (coded_parameters example_stream))"
    by (simp add: coded_parameters_def example_stream_def)
  ultimately show ?thesis using parsed_configuration_valid by blast
qed

end
