(* ===== verification/Crc_Burst.thy ===== *)
theory Crc_Burst
  imports Crc32 Bit_Lists
begin

text \<open>
  The CRC of \<^verbatim>\<open>src/src/util/crc32.cpp\<close> bit by bit: a burst of at most 32 bits changes it at every bit position,
  also when it spans five bytes.
\<close>

subsection \<open>One bit\<close>

definition crc_bit :: "bool \<Rightarrow> u32 \<Rightarrow> u32" where
  "crc_bit b r = crc_shift (r XOR (if b then push_bit 31 1 else 0))"

text \<open>The register that holds the bits in its upper end.\<close>

fun register_of :: "bool list \<Rightarrow> u32" where
  "register_of [] = 0"
| "register_of (b # bs) = (if b then push_bit 31 1 else 0) XOR drop_bit 1 (register_of bs)"

lemma bit_top_bit: "bit (push_bit 31 1 :: u32) i \<longleftrightarrow> i = 31"
proof -
  have "bit (push_bit 31 1 :: u32) i \<longleftrightarrow> i < 32 \<and> 31 \<le> i \<and> bit (1 :: u32) (i - 31)" by (simp only: bit_push_bit_iff) auto
  then show ?thesis by (auto simp: bit_1_iff)
qed

lemma bit_register_of: "bit (register_of bs) i \<longleftrightarrow> i < 32 \<and> 31 - i < length bs \<and> bs ! (31 - i)"
proof (induction bs arbitrary: i)
  case (Cons b bs)
  have drop: "bit (drop_bit 1 (register_of bs)) i = bit (register_of bs) (i + 1)" by (simp add: bit_drop_bit_eq)
  have top: "bit (if b then push_bit 31 1 else 0 :: u32) i \<longleftrightarrow> b \<and> i = 31" by (simp only: bit_top_bit split: if_splits) simp
  have step: "bit (register_of (b # bs)) i \<longleftrightarrow> (b \<and> i = 31) \<noteq> bit (register_of bs) (i + 1)"
    unfolding register_of.simps bit_xor_iff top drop ..
  have "31 - i = Suc (31 - (i + 1))" if "i < 31" using that by simp
  then show ?case
    unfolding step Cons.IH by (cases "i < 31") auto
qed simp

lemma crc_shift_drop:
  assumes "\<not> bit r 0"
  shows "crc_shift (drop_bit 1 r) = r"
proof -
  have "push_bit 1 (drop_bit 1 r) = r"
  proof (rule bit_word_eqI)
    fix i assume i: "i < LENGTH(32)"
    have "bit (push_bit 1 (drop_bit 1 r)) i \<longleftrightarrow> i < 32 \<and> 1 \<le> i \<and> bit (drop_bit 1 r) (i - 1)" by (simp only: bit_push_bit_iff) auto
    with assms i show "bit (push_bit 1 (drop_bit 1 r)) i = bit r i" by (cases i) (simp_all add: bit_drop_bit_eq)
  qed
  moreover have "\<not> bit (drop_bit 1 r) 31"
    using bit_imp_le_length [of r 32] by (auto simp: bit_drop_bit_eq)
  ultimately show ?thesis by (simp only: crc_shift_alt if_False)
qed

lemma fold_crc_bit:
  assumes "length bs \<le> 32"
  shows "fold crc_bit bs r = (crc_shift ^^ length bs) (r XOR register_of bs)"
  using assms
proof (induction bs arbitrary: r)
  case (Cons b bs)
  let ?top = "if b then push_bit 31 1 else 0 :: u32"
  have low: "\<not> bit (register_of bs) 0" using Cons.prems by (simp add: bit_register_of)
  have "fold crc_bit (b # bs) r = (crc_shift ^^ length bs) (crc_bit b r XOR register_of bs)"
    using Cons by simp
  also have "crc_bit b r XOR register_of bs = crc_shift (r XOR ?top) XOR crc_shift (drop_bit 1 (register_of bs))"
    by (simp only: crc_bit_def crc_shift_drop [OF low])
  also have "\<dots> = crc_shift (r XOR register_of (b # bs))"
    by (simp only: crc_shift_xor [symmetric] register_of.simps xor.assoc)
  finally show ?case by (simp add: funpow_swap1)
qed simp

lemma register_of_zero:
  assumes "length bs \<le> 32" and "register_of bs = 0"
  shows "True \<notin> set bs"
proof
  assume "True \<in> set bs"
  then obtain j where "j < length bs" "bs ! j" by (auto simp: in_set_conv_nth)
  then have "bit (register_of bs) (31 - j)" using assms(1) by (simp add: bit_register_of)
  with assms(2) show False by simp
qed

lemma crc_byte_bits: "crc_byte b r = fold crc_bit (bits_of 8 b) r"
proof -
  have "register_of (bits_of 8 b) = push_bit 24 (ucast b)"
  proof (rule bit_word_eqI)
    fix i assume i: "i < LENGTH(32)"
    have "bit (push_bit 24 (ucast b :: u32)) i \<longleftrightarrow> 24 \<le> i \<and> bit b (i - 24)"
      using i by (auto simp: bit_push_bit_iff bit_ucast_iff)
    moreover have "bits_of 8 b ! (31 - i) = bit b (i - 24)" if "24 \<le> i" using i that by (subst nth_bits_of) simp_all
    moreover have "31 - i < 8 \<longleftrightarrow> 24 \<le> i" using i by auto
    ultimately show "bit (register_of (bits_of 8 b)) i = bit (push_bit 24 (ucast b :: u32)) i"
      using i unfolding bit_register_of length_bits_of by (cases "24 \<le> i") simp_all
  qed
  then show ?thesis by (simp add: fold_crc_bit crc_byte_def)
qed

lemma crc32_bits: "crc32_ieee_msb bs = fold crc_bit (bits_of_bytes bs) 0"
proof -
  have "fold crc_byte bs r = fold crc_bit (bits_of_bytes bs) r" for r
    by (induction bs arbitrary: r) (simp_all add: bits_of_bytes_Cons crc_byte_bits)
  then show ?thesis by (simp add: crc32_ieee_msb_def)
qed

subsection \<open>The difference of two messages\<close>

lemma crc_bit_xor: "crc_bit a r XOR crc_bit b s = crc_bit (a \<noteq> b) (r XOR s)"
  by (simp add: crc_bit_def crc_shift_xor [symmetric] ac_simps)

lemma fold_crc_bit_xor:
  "length xs = length ys \<Longrightarrow>
    fold crc_bit xs r XOR fold crc_bit ys s = fold crc_bit (map2 (\<noteq>) xs ys) (r XOR s)"
  by (induction xs ys arbitrary: r s rule: list_induct2) (simp_all add: crc_bit_xor)

lemma fold_crc_bit_zeros: "True \<notin> set bs \<Longrightarrow> fold crc_bit bs r = (crc_shift ^^ length bs) r"
  by (induction bs arbitrary: r) (auto simp: crc_bit_def funpow_swap1)

text \<open>A burst: the bits outside 32 consecutive ones agree.\<close>

definition differ_in_burst :: "nat \<Rightarrow> bytes \<Rightarrow> bytes \<Rightarrow> bool" where
  "differ_in_burst k xs ys \<longleftrightarrow>
     length xs = length ys \<and> xs \<noteq> ys \<and>
     (\<forall>i < 8 * length xs. bits_of_bytes xs ! i = bits_of_bytes ys ! i \<or> (k \<le> i \<and> i < k + 32))"

lemma bits_of_bytes_inject:
  assumes "length xs = length ys" and "bits_of_bytes xs = bits_of_bytes ys"
  shows "xs = ys"
  using assms
proof (induction xs ys rule: list_induct2)
  case (Cons x xs y ys)
  then have bits: "bits_of 8 x = bits_of 8 y" and rest: "xs = ys" by (simp_all add: bits_of_bytes_Cons)
  have "bit x n = bit y n" if "n < 8" for n
    using arg_cong [OF bits, of "\<lambda>b. b ! (7 - n)"] that by (simp add: nth_bits_of)
  then have "x = y" by (intro bit_word_eqI) simp
  with rest show ?case by simp
qed simp

lemma differ_in_burstI:
  assumes "bits_of_bytes xs = p @ e @ s" and "bits_of_bytes ys = p @ e' @ s" and "length e = length e'" and "length e' \<le> 32"
    and "e \<noteq> e'"
  shows "differ_in_burst (length p) xs ys"
proof -
  have "8 * length xs = 8 * length ys"
    using arg_cong [OF assms(1), of length] arg_cong [OF assms(2), of length] assms(3) by simp
  then have "length xs = length ys" by simp
  moreover have "xs \<noteq> ys" using assms(1,2,5) by auto
  ultimately show ?thesis using assms by (auto simp: differ_in_burst_def nth_append)
qed

lemma crc_burst_changes:
  assumes "differ_in_burst k xs ys"
  shows "crc32_ieee_msb xs \<noteq> crc32_ieee_msb ys"
proof
  assume same: "crc32_ieee_msb xs = crc32_ieee_msb ys"
  obtain d where d: "d = map2 (\<noteq>) (bits_of_bytes xs) (bits_of_bytes ys)" by blast
  from assms have len: "length xs = length ys" "xs \<noteq> ys"
    and out: "\<And>i. i < 8 * length xs \<Longrightarrow> bits_of_bytes xs ! i \<noteq> bits_of_bytes ys ! i \<Longrightarrow> k \<le> i \<and> i < k + 32"
    by (auto simp: differ_in_burst_def)
  have dl: "length d = 8 * length xs" using len(1) by (simp add: d)
  have at: "d ! i = (bits_of_bytes xs ! i \<noteq> bits_of_bytes ys ! i)" if "i < 8 * length xs" for i
    using that len(1) by (simp add: d)
  have inside: "k \<le> i \<and> i < k + 32" if "i < length d" "d ! i" for i using out at that dl by auto
  have before: "True \<notin> set (take k d)"
    using inside by (fastforce simp: in_set_conv_nth)
  have after: "True \<notin> set (drop (k + 32) d)"
  proof
    assume "True \<in> set (drop (k + 32) d)"
    then obtain i where "k + 32 + i < length d" "d ! (k + 32 + i)" by (auto simp: in_set_conv_nth less_diff_conv ac_simps)
    with inside [of "k + 32 + i"] show False by simp
  qed
  have split: "d = take k d @ take 32 (drop k d) @ drop (k + 32) d"
    by (metis append_take_drop_id drop_drop add.commute)
  have "fold crc_bit d 0 = 0"
    using same fold_crc_bit_xor [of "bits_of_bytes xs" "bits_of_bytes ys" 0 0] len(1) by (simp add: d crc32_bits xor_eq_0_iff)
  then have "fold crc_bit (drop (k + 32) d) (fold crc_bit (take 32 (drop k d)) (fold crc_bit (take k d) 0)) = 0"
    by (metis split fold_append comp_apply)
  then have "fold crc_bit (take 32 (drop k d)) 0 = 0"
    unfolding fold_crc_bit_zeros [OF before] fold_crc_bit_zeros [OF after] crc_shift_pow_eq_0
    using crc_shift_pow_eq_0 [of "length (take k d)" 0] by simp
  moreover have "fold crc_bit (take 32 (drop k d)) 0 = (crc_shift ^^ length (take 32 (drop k d))) (register_of (take 32 (drop k d)))"
    using fold_crc_bit [of "take 32 (drop k d)" 0] by simp
  ultimately have "register_of (take 32 (drop k d)) = 0" by (simp only: crc_shift_pow_eq_0)
  from register_of_zero [OF _ this] have "True \<notin> set (take 32 (drop k d))" by simp
  with before after have "True \<notin> set (take k d @ take 32 (drop k d) @ drop (k + 32) d)" by simp
  then have none: "True \<notin> set d" unfolding split [symmetric] .
  have "bits_of_bytes xs = bits_of_bytes ys"
  proof (rule nth_equalityI)
    fix i assume "i < length (bits_of_bytes xs)"
    then have i: "i < 8 * length xs" by simp
    then have "d ! i \<in> set d" using dl by (intro nth_mem) simp
    with none at [OF i] show "bits_of_bytes xs ! i = bits_of_bytes ys ! i" by metis
  qed (simp add: len)
  with bits_of_bytes_inject [OF len(1)] len(2) show False by simp
qed

end
