(* ===== verification/Slice_Header.thy ===== *)
theory Slice_Header
  imports Configuration_Properties
begin

text \<open>
  The slice header: the descriptor of a slice (\<^verbatim>\<open>src/src/mffv1/slice_descriptor.hpp\<close>), the parser
  (\<^verbatim>\<open>src/src/codec/slice_header_parser.cpp,hpp\<close>) and the writer (\<^verbatim>\<open>slice_header_writer.cpp\<close>), over
  arbitrary symbol readers and writers. A payload is a span of bytes and is modelled by its contents.
\<close>

record slice_descriptor =
  sd_index :: u32
  sd_x :: u32
  sd_y :: u32
  sd_width :: u32
  sd_height :: u32
  sd_raster_x :: u32
  sd_raster_y :: u32
  sd_raster_width :: u32
  sd_raster_height :: u32
  sd_payload :: bytes
  sd_header_byte_offset :: u64
  sd_content_byte_offset :: u64
  sd_content_bit_offset :: u8
  sd_payload_byte_offset :: u64
  sd_footer_byte_offset :: u64
  sd_slice_size :: u32
  sd_quant_table_set_indexes :: "u32 list"
  sd_picture_structure :: u64
  sd_sar_num :: u64
  sd_sar_den :: u64
  sd_error_status :: u8
  sd_expected_crc :: u32
  sd_has_crc :: bool
  sd_continues_frame_range_state :: bool
  sd_uses_legacy_v0_arithmetic :: bool

definition new_slice_descriptor :: slice_descriptor where
  "new_slice_descriptor =
     \<lparr>sd_index = 0, sd_x = 0, sd_y = 0, sd_width = 0, sd_height = 0, sd_raster_x = 0, sd_raster_y = 0,
      sd_raster_width = 0, sd_raster_height = 0, sd_payload = [], sd_header_byte_offset = 0,
      sd_content_byte_offset = 0, sd_content_bit_offset = 0, sd_payload_byte_offset = 0,
      sd_footer_byte_offset = 0, sd_slice_size = 0, sd_quant_table_set_indexes = [],
      sd_picture_structure = 0, sd_sar_num = 0, sd_sar_den = 0, sd_error_status = 0,
      sd_expected_crc = 0, sd_has_crc = False, sd_continues_frame_range_state = False,
      sd_uses_legacy_v0_arithmetic = False\<rparr>"

record slice_header_values =
  hv_x :: u32
  hv_y :: u32
  hv_width :: u32
  hv_height :: u32
  hv_quant_table_set_indexes :: "u32 list"
  hv_picture_structure :: u64
  hv_sar_num :: u64
  hv_sar_den :: u64

definition validate_picture_structure :: "u64 \<Rightarrow> unit result" where
  "validate_picture_structure picture_structure =
     (if 3 < picture_structure then Inl (make_error SyntaxError) else Inr ())"

subsection \<open>Reading\<close>

text \<open>
  \<open>SliceHeaderParser::read\<close>, in stages: a grid coordinate, an extent minus one, the table indexes,
  the picture structure and the aspect ratio.
\<close>

definition read_slice_coordinate :: "'r symbol_reader \<Rightarrow> u32 \<Rightarrow> 'r \<Rightarrow> (u32 \<times> 'r) result" where
  "read_slice_coordinate R slices r =
     bind_result (sr_read_unsigned R r) (\<lambda>(v, r).
       if ucast slices < v \<or> 0xffffffff < v then Inl (make_byte_error SyntaxError (sr_byte_position R r))
       else Inr (ucast v, r))"

definition read_slice_extent :: "'r symbol_reader \<Rightarrow> 'r \<Rightarrow> (u32 \<times> 'r) result" where
  "read_slice_extent R r =
     bind_result (sr_read_unsigned R r) (\<lambda>(v, r).
       if 0xffffffff \<le> v then Inl (make_byte_error SyntaxError (sr_byte_position R r))
       else Inr (ucast (v + 1), r))"

definition read_quant_table_set_index ::
  "'r symbol_reader \<Rightarrow> stream_parameters \<Rightarrow> 'r \<Rightarrow> (u32 \<times> 'r) result" where
  "read_quant_table_set_index R stream r =
     bind_result (sr_read_unsigned R r) (\<lambda>(index, r).
       if 0xffffffff < index then Inl (make_byte_error SyntaxError (sr_byte_position R r))
       else if word_of_nat (length (sp_quant_table_sets stream)) \<le> index
       then Inl (make_byte_error SyntaxError (sr_byte_position R r))
       else Inr (ucast index, r))"

definition read_picture_structure :: "'r symbol_reader \<Rightarrow> 'r \<Rightarrow> (u64 \<times> 'r) result" where
  "read_picture_structure R r =
     bind_result (sr_read_unsigned R r) (\<lambda>(picture_structure, r).
       case validate_picture_structure picture_structure of
         Inl e \<Rightarrow> Inl (set_byte_location_if_missing (sr_byte_position R r) e)
       | Inr _ \<Rightarrow> Inr (picture_structure, r))"

definition read_sample_aspect_ratio :: "'r symbol_reader \<Rightarrow> 'r \<Rightarrow> ((u64 \<times> u64) \<times> 'r) result" where
  "read_sample_aspect_ratio R r =
     bind_result (sr_read_unsigned R r) (\<lambda>(sar_num, r).
     bind_result (sr_read_unsigned R r) (\<lambda>(sar_den, r).
       if sar_num = 0 \<or> sar_den = 0 then Inr ((0, 0), r) else Inr ((sar_num, sar_den), r)))"

definition check_raster_rectangle ::
  "'r symbol_reader \<Rightarrow> stream_parameters \<Rightarrow> u32 \<Rightarrow> u32 \<Rightarrow> u32 \<Rightarrow> u32 \<Rightarrow> 'r \<Rightarrow> (unit \<times> 'r) result" where
  "check_raster_rectangle R stream x y w h r =
     (if sp_num_h_slices stream - x < w \<or> sp_num_v_slices stream - y < h
      then Inl (make_byte_error SyntaxError (sr_byte_position R r)) else Inr ((), r))"

definition read_slice_header ::
  "'r symbol_reader \<Rightarrow> stream_parameters \<Rightarrow> 'r \<Rightarrow> (slice_header_values \<times> 'r) result" where
  "read_slice_header R stream r =
     bind_result (read_slice_coordinate R (sp_num_h_slices stream) r) (\<lambda>(x, r).
     bind_result (read_slice_coordinate R (sp_num_v_slices stream) r) (\<lambda>(y, r).
     bind_result (read_slice_extent R r) (\<lambda>(w, r).
     bind_result (read_slice_extent R r) (\<lambda>(h, r).
     bind_result (check_raster_rectangle R stream x y w h r) (\<lambda>(_, r).
     bind_result (read_all (\<lambda>_. read_quant_table_set_index R stream)
                    [0..<quant_table_set_index_count stream] r) (\<lambda>(indexes, r).
     bind_result (read_picture_structure R r) (\<lambda>(picture_structure, r).
     bind_result (read_sample_aspect_ratio R r) (\<lambda>((sar_num, sar_den), r).
       Inr (\<lparr>hv_x = x, hv_y = y, hv_width = w, hv_height = h, hv_quant_table_set_indexes = indexes,
             hv_picture_structure = picture_structure, hv_sar_num = sar_num, hv_sar_den = sar_den\<rparr>, r)))))))))"

subsection \<open>Applying a header\<close>

text \<open>\<open>apply\<close> takes pixel coordinates, \<open>apply_raster\<close> grid coordinates.\<close>

definition check_header_values :: "stream_parameters \<Rightarrow> u32 \<Rightarrow> u32 \<Rightarrow> slice_header_values \<Rightarrow> unit result" where
  "check_header_values stream h_limit v_limit values =
     (if hv_width values = 0 \<or> hv_height values = 0 then Inl (make_error SyntaxError)
      else if h_limit < hv_x values \<or> v_limit < hv_y values
         \<or> h_limit - hv_x values < hv_width values \<or> v_limit - hv_y values < hv_height values
      then Inl (make_error SyntaxError)
      else if hv_quant_table_set_indexes values = [] then Inl (make_error SyntaxError)
      else if list_ex (\<lambda>index. length (sp_quant_table_sets stream) \<le> unat index) (hv_quant_table_set_indexes values)
      then Inl (make_error SyntaxError)
      else validate_picture_structure (hv_picture_structure values))"

definition apply_header ::
  "stream_parameters \<Rightarrow> slice_header_values \<Rightarrow> slice_descriptor \<Rightarrow> slice_descriptor result" where
  "apply_header stream values descriptor =
     bind_result (check_header_values stream (sp_width stream) (sp_height stream) values) (\<lambda>_.
       Inr (descriptor\<lparr>sd_x := hv_x values, sd_y := hv_y values, sd_width := hv_width values,
              sd_height := hv_height values, sd_quant_table_set_indexes := hv_quant_table_set_indexes values,
              sd_picture_structure := hv_picture_structure values, sd_sar_num := hv_sar_num values,
              sd_sar_den := hv_sar_den values\<rparr>))"

definition apply_raster ::
  "stream_parameters \<Rightarrow> slice_header_values \<Rightarrow> slice_descriptor \<Rightarrow> slice_descriptor result" where
  "apply_raster stream values descriptor =
     bind_result (check_header_values stream (sp_num_h_slices stream) (sp_num_v_slices stream) values) (\<lambda>_.
       Inr (descriptor\<lparr>sd_x := slice_pixel_x stream (hv_x values), sd_y := slice_pixel_y stream (hv_y values),
              sd_width := slice_pixel_width stream (hv_x values) (hv_width values),
              sd_height := slice_pixel_height stream (hv_y values) (hv_height values),
              sd_raster_x := hv_x values, sd_raster_y := hv_y values,
              sd_raster_width := hv_width values, sd_raster_height := hv_height values,
              sd_quant_table_set_indexes := hv_quant_table_set_indexes values,
              sd_picture_structure := hv_picture_structure values,
              sd_sar_num := hv_sar_num values, sd_sar_den := hv_sar_den values\<rparr>))"

definition read_slice_descriptor ::
  "'r symbol_reader \<Rightarrow> stream_parameters \<Rightarrow> slice_descriptor \<Rightarrow> 'r \<Rightarrow> (slice_descriptor \<times> 'r) result" where
  "read_slice_descriptor R stream descriptor r =
     (let header_offset = sr_byte_position R r in
      bind_result (read_slice_header R stream r) (\<lambda>(values, r).
      bind_result (apply_raster stream values descriptor) (\<lambda>descriptor.
        Inr (descriptor\<lparr>sd_header_byte_offset := header_offset,
               sd_content_byte_offset := sr_byte_position R r,
               sd_payload_byte_offset := header_offset\<rparr>, r))))"

subsection \<open>Writing\<close>

definition write_slice_header ::
  "'w symbol_writer \<Rightarrow> stream_parameters \<Rightarrow> slice_header_values \<Rightarrow> 'w \<Rightarrow> 'w result" where
  "write_slice_header W stream values w =
     bind_result (apply_raster stream values new_slice_descriptor) (\<lambda>_.
       if length (hv_quant_table_set_indexes values) \<noteq> quant_table_set_index_count stream
       then Inl (make_error InvalidArgument)
       else if (hv_sar_num values = 0) \<noteq> (hv_sar_den values = 0) then Inl (make_error InvalidArgument)
       else
         bind_result (sw_write_unsigned W (ucast (hv_x values)) w) (\<lambda>w.
         bind_result (sw_write_unsigned W (ucast (hv_y values)) w) (\<lambda>w.
         bind_result (sw_write_unsigned W (ucast (hv_width values - 1)) w) (\<lambda>w.
         bind_result (sw_write_unsigned W (ucast (hv_height values - 1)) w) (\<lambda>w.
         bind_result (fold_result (\<lambda>index. sw_write_unsigned W (ucast index))
                        (hv_quant_table_set_indexes values) w) (\<lambda>w.
         bind_result (sw_write_unsigned W (hv_picture_structure values) w) (\<lambda>w.
         bind_result (sw_write_unsigned W (hv_sar_num values) w) (\<lambda>w.
           sw_write_unsigned W (hv_sar_den values) w))))))))"

subsection \<open>Round trip\<close>

lemma read_all_any:
  "length ks = length ks' \<Longrightarrow> read_all (\<lambda>_. f) ks r = read_all (\<lambda>_. f) ks' r"
  by (induction ks ks' arbitrary: r rule: list_induct2) simp_all

lemma ucast_up_le: "(0xffffffff :: u64) < ucast (x :: u32) \<longleftrightarrow> False"
  using unat_bound [of x] by (simp add: word_less_nat_alt)

lemma ucast_less_iff: "(ucast (x :: u32) :: u64) < ucast y \<longleftrightarrow> x < y"
  by (simp add: word_less_nat_alt)

lemma ucast_back: "ucast (ucast (x :: u32) :: u64) = x"
  by (intro word_unat_eq_iff [THEN iffD2]) (simp add: unat_ucast_small unat_bound [of x, simplified])

lemma extent_minus_one:
  assumes "(w :: u32) \<noteq> 0"
  shows "\<not> (0xffffffff :: u64) \<le> ucast (w - 1)" and "ucast ((ucast (w - 1) :: u64) + 1) = w"
proof -
  have w: "1 \<le> unat w" "unat w < 2 ^ 32" using assms unat_bound [of w] by (simp_all add: unat_eq_zero Suc_le_eq unat_gt_0)
  then have m: "unat (w - 1) = unat w - 1" by (subst unat_diff_bounded) simp_all
  then have u: "unat (ucast (w - 1) :: u64) = unat w - 1" by simp
  with w show "\<not> (0xffffffff :: u64) \<le> ucast (w - 1)" by (simp only: word_le_nat_alt) simp
  have "unat ((ucast (w - 1) :: u64) + 1) = unat w"
    using w u by (subst unat_add_bounded) simp_all
  then show "ucast ((ucast (w - 1) :: u64) + 1) = w"
    using w by (intro word_unat_eq_iff [THEN iffD2]) (simp add: unat_ucast_small)
qed

context symbol_channel
begin

lemma slice_coordinate_matched:
  assumes "winv k w" and "sw_write_unsigned W (ucast x) w = Inr w'" and "x \<le> slices"
  shows "matched k w w' (read_slice_coordinate R slices) x"
  unfolding read_slice_coordinate_def [abs_def]
  using assms(3)
  by (intro matched_cong [OF unsigned [OF assms(1,2)]])
    (simp add: ucast_up_le ucast_less_iff ucast_back)

lemma slice_extent_matched:
  assumes "winv k w" and "sw_write_unsigned W (ucast (x - 1)) w = Inr w'" and "x \<noteq> 0"
  shows "matched k w w' (read_slice_extent R) x"
  unfolding read_slice_extent_def [abs_def]
  using extent_minus_one [OF assms(3)]
  by (intro matched_cong [OF unsigned [OF assms(1,2)]]) simp

lemma quant_table_set_index_matched:
  assumes "winv k w" and "sw_write_unsigned W (ucast index) w = Inr w'"
    and "unat index < length (sp_quant_table_sets stream)" and "length (sp_quant_table_sets stream) < 2 ^ 64"
  shows "matched k w w' (read_quant_table_set_index R stream) index"
proof -
  have "unat (word_of_nat (length (sp_quant_table_sets stream)) :: u64) = length (sp_quant_table_sets stream)"
    using assms(4) by (intro unat_of_nat_bounded) simp
  then have "\<not> (word_of_nat (length (sp_quant_table_sets stream)) :: u64) \<le> ucast index"
    using assms(3) by (simp add: word_le_nat_alt)
  then show ?thesis
    unfolding read_quant_table_set_index_def [abs_def]
    by (intro matched_cong [OF unsigned [OF assms(1,2)]]) (simp add: ucast_up_le ucast_back)
qed

lemma slice_header_matched:
  assumes w: "winv k w" and run: "write_slice_header W stream values w = Inr w'"
    and sets: "length (sp_quant_table_sets stream) < 2 ^ 64"
  shows "matched k w w' (read_slice_header R stream) values"
proof -
  from run obtain w1 w2 w3 w4 w5 w6 w7 where
    ok: "check_header_values stream (sp_num_h_slices stream) (sp_num_v_slices stream) values = Inr ()"
      "length (hv_quant_table_set_indexes values) = quant_table_set_index_count stream"
      "(hv_sar_num values = 0) = (hv_sar_den values = 0)" and
    w1: "sw_write_unsigned W (ucast (hv_x values)) w = Inr w1" and
    w2: "sw_write_unsigned W (ucast (hv_y values)) w1 = Inr w2" and
    w3: "sw_write_unsigned W (ucast (hv_width values - 1)) w2 = Inr w3" and
    w4: "sw_write_unsigned W (ucast (hv_height values - 1)) w3 = Inr w4" and
    w5: "fold_result (\<lambda>index. sw_write_unsigned W (ucast index)) (hv_quant_table_set_indexes values) w4 = Inr w5" and
    w6: "sw_write_unsigned W (hv_picture_structure values) w5 = Inr w6" and
    w7: "sw_write_unsigned W (hv_sar_num values) w6 = Inr w7" and
    w8: "sw_write_unsigned W (hv_sar_den values) w7 = Inr w'"
    by (auto simp: write_slice_header_def apply_raster_def split: if_splits)
  from ok(1) have geometry: "hv_width values \<noteq> 0" "hv_height values \<noteq> 0"
    "hv_x values \<le> sp_num_h_slices stream" "hv_y values \<le> sp_num_v_slices stream"
    "\<not> sp_num_h_slices stream - hv_x values < hv_width values"
    "\<not> sp_num_v_slices stream - hv_y values < hv_height values"
    and indexes: "\<forall>index \<in> set (hv_quant_table_set_indexes values). unat index < length (sp_quant_table_sets stream)"
    and ps: "validate_picture_structure (hv_picture_structure values) = Inr ()"
    by (auto simp: check_header_values_def list_ex_iff not_less not_le split: if_splits)
  note m1 = slice_coordinate_matched [OF w w1 geometry(3)]
  note m2 = slice_coordinate_matched [OF matched_winv [OF m1] w2 geometry(4)]
  note m3 = slice_extent_matched [OF matched_winv [OF m2] w3 geometry(1)]
  note m4 = slice_extent_matched [OF matched_winv [OF m3] w4 geometry(2)]
  have m5: "matched k w4 w5 (read_all (\<lambda>_. read_quant_table_set_index R stream) [0..<quant_table_set_index_count stream])
      (hv_quant_table_set_indexes values)"
  proof (rule matched_ext)
    show "matched k w4 w5 (read_all (\<lambda>_. read_quant_table_set_index R stream) (hv_quant_table_set_indexes values))
        (hv_quant_table_set_indexes values)"
      using matched_all [where val = "\<lambda>x. x", OF quant_table_set_index_matched [OF _ _ _ sets] matched_winv [OF m4] w5]
        indexes by simp
    show "read_all (\<lambda>_. read_quant_table_set_index R stream) [0..<quant_table_set_index_count stream] r =
        read_all (\<lambda>_. read_quant_table_set_index R stream) (hv_quant_table_set_indexes values) r" for r
      using ok(2) by (intro read_all_any) simp
  qed
  have m6: "matched k w5 w6 (read_picture_structure R) (hv_picture_structure values)"
    unfolding read_picture_structure_def [abs_def]
    by (rule matched_cong [OF unsigned [OF matched_winv [OF m5] w6]]) (simp add: ps)
  have m8: "matched k w6 w' (read_sample_aspect_ratio R) (hv_sar_num values, hv_sar_den values)"
    unfolding read_sample_aspect_ratio_def [abs_def]
    by (rule matched_bindI [OF unsigned [OF matched_winv [OF m6] w7]], simp,
        rule matched_cong [OF unsigned])
      (use w8 ok(3) matched_winv [OF unsigned [OF matched_winv [OF m6] w7]] in auto)
  have m4': "matched k w4 w4 (check_raster_rectangle R stream (hv_x values) (hv_y values) (hv_width values) (hv_height values)) ()"
    using matched_refl [OF matched_winv [OF m4]] geometry(5,6) by (simp add: check_raster_rectangle_def [abs_def])
  show ?thesis
    unfolding read_slice_header_def [abs_def]
    by (rule matched_bindI [OF m1], simp only: prod.case, rule matched_bindI [OF m2], simp only: prod.case,
        rule matched_bindI [OF m3], simp only: prod.case, rule matched_bindI [OF m4], simp only: prod.case,
        rule matched_bindI [OF m4'], simp only: prod.case, rule matched_bindI [OF m5], simp only: prod.case,
        rule matched_bindI [OF m6], simp only: prod.case, rule matched_cong [OF m8]) simp
qed

end

subsection \<open>Totality\<close>

text \<open>What the writer accepts; the scalars are below \<open>2 ^ 63\<close>, which only matters to the aspect ratio.\<close>

definition codable_header :: "stream_parameters \<Rightarrow> slice_header_values \<Rightarrow> bool" where
  "codable_header stream values \<longleftrightarrow>
     check_header_values stream (sp_num_h_slices stream) (sp_num_v_slices stream) values = Inr () \<and>
     length (hv_quant_table_set_indexes values) = quant_table_set_index_count stream \<and>
     (hv_sar_num values = 0 \<longleftrightarrow> hv_sar_den values = 0) \<and>
     hv_sar_num values \<le> 2 ^ 63 - 1 \<and> hv_sar_den values \<le> 2 ^ 63 - 1"

context total_writer
begin

lemma slice_header_total:
  assumes "codable_header stream values" and "ready i n w"
    and "n + (7 + quant_table_set_index_count stream) \<le> limit"
  shows "\<exists>w'. write_slice_header W stream values w = Inr w' \<and> ready i (n + (7 + quant_table_set_index_count stream)) w'"
proof -
  let ?c = "quant_table_set_index_count stream"
  have narrow: "(ucast (b :: u32) :: u64) \<le> 2 ^ 63 - 1" for b
    using unat_bound [of b] by (simp add: word_le_nat_alt)
  have ps: "hv_picture_structure values \<le> 2 ^ 63 - 1"
  proof -
    have "hv_picture_structure values \<le> 3"
      using assms(1) by (auto simp: codable_header_def check_header_values_def validate_picture_structure_def
          not_less split: if_splits)
    then show ?thesis by (rule order.trans) simp
  qed
  have room: "n < limit" "Suc n < limit" "Suc (Suc n) < limit" "Suc (Suc (Suc n)) < limit"
    "Suc (Suc (Suc (Suc n))) + ?c \<le> limit" "Suc (Suc (Suc (Suc n))) + ?c < limit"
    "Suc (Suc (Suc (Suc (Suc n))) + ?c) < limit" "Suc (Suc (Suc (Suc (Suc (Suc n)))) + ?c) < limit"
    using assms(3) by simp_all
  obtain w1 where w1: "sw_write_unsigned W (ucast (hv_x values)) w = Inr w1" "ready i (Suc n) w1"
    using unsigned [OF assms(2) room(1) narrow] by blast
  obtain w2 where w2: "sw_write_unsigned W (ucast (hv_y values)) w1 = Inr w2" "ready i (Suc (Suc n)) w2"
    using unsigned [OF w1(2) room(2) narrow] by blast
  obtain w3 where w3: "sw_write_unsigned W (ucast (hv_width values - 1)) w2 = Inr w3" "ready i (Suc (Suc (Suc n))) w3"
    using unsigned [OF w2(2) room(3) narrow] by blast
  obtain w4 where w4: "sw_write_unsigned W (ucast (hv_height values - 1)) w3 = Inr w4" "ready i (Suc (Suc (Suc (Suc n)))) w4"
    using unsigned [OF w3(2) room(4) narrow] by blast
  have len: "sum_list (map (\<lambda>_. 1) (hv_quant_table_set_indexes values)) = ?c"
    using assms(1) by (simp add: codable_header_def sum_list_triv)
  have "\<exists>w5. fold_result (\<lambda>index. sw_write_unsigned W (ucast index)) (hv_quant_table_set_indexes values) w4 = Inr w5 \<and>
      ready i (Suc (Suc (Suc (Suc n))) + sum_list (map (\<lambda>_. 1) (hv_quant_table_set_indexes values))) w5"
    by (rule fold_total [OF _ w4(2)]) (use unsigned [OF _ _ narrow] in simp, simp only: len room(5))
  then obtain w5 where w5: "fold_result (\<lambda>index. sw_write_unsigned W (ucast index)) (hv_quant_table_set_indexes values) w4 = Inr w5"
    "ready i (Suc (Suc (Suc (Suc n))) + ?c) w5" unfolding len by blast
  obtain w6 where w6: "sw_write_unsigned W (hv_picture_structure values) w5 = Inr w6" "ready i (Suc (Suc (Suc (Suc (Suc n))) + ?c)) w6"
    using unsigned [OF w5(2) room(6) ps] by auto
  obtain w7 where w7: "sw_write_unsigned W (hv_sar_num values) w6 = Inr w7" "ready i (Suc (Suc (Suc (Suc (Suc (Suc n)))) + ?c)) w7"
    using unsigned [OF w6(2) room(7)] assms(1) by (auto simp: codable_header_def)
  obtain w8 where w8: "sw_write_unsigned W (hv_sar_den values) w7 = Inr w8" "ready i (Suc (Suc (Suc (Suc (Suc (Suc (Suc n))))) + ?c)) w8"
    using unsigned [OF w7(2) room(8)] assms(1) by (auto simp: codable_header_def)
  have "write_slice_header W stream values w = Inr w8"
    using assms(1) by (simp add: write_slice_header_def apply_raster_def codable_header_def w1(1) w2(1) w3(1) w4(1) w5(1) w6(1) w7(1) w8(1))
  moreover have "Suc (Suc (Suc (Suc (Suc (Suc (Suc n))))) + ?c) = n + (7 + ?c)" by simp
  ultimately show ?thesis using w8(2) by metis
qed

end

subsection \<open>The header over the range coder\<close>

lemma slice_header_synced:
  assumes "enc_inv e" and "write_slice_header range_symbol_writer stream values e = Inr e'"
    and "length (sp_quant_table_sets stream) < 2 ^ 64"
  shows "matched (range_link bs) e e' (read_slice_header range_symbol_reader stream) values"
  using range_io.slice_header_matched [where bs = bs] assms by simp

text \<open>
  C28: a slice header is read back as it was written: whatever follows it in the payload, a decoder in
  step with the encoder obtains the same rectangle, table indexes, picture structure and aspect ratio, and
  is then in step with the encoder again, so that the slice contents continue the same code.
\<close>

theorem slice_header_roundtrip:
  assumes "enc_inv e" and "write_slice_header range_symbol_writer stream values e = Inr e'"
    and "length (sp_quant_table_sets stream) < 2 ^ 64"
    and "contains bs e'" and "in_sync bs e d"
  shows "\<exists>d'. read_slice_header range_symbol_reader stream d = Inr (values, d') \<and> in_sync bs e' d'"
  using slice_header_synced [OF assms(1-3)] assms(4,5) by (auto simp: matched_def)

definition example_header :: slice_header_values where
  "example_header = \<lparr>hv_x = 0, hv_y = 0, hv_width = 1, hv_height = 1, hv_quant_table_set_indexes = [0, 0],
     hv_picture_structure = 0, hv_sar_num = 0, hv_sar_den = 0\<rparr>"

theorem slice_header_roundtrip_witness:
  "\<exists>e e' bs d d'. write_slice_header range_symbol_writer example_stream example_header e = Inr e' \<and>
     in_sync bs e d \<and> read_slice_header range_symbol_reader example_stream d = Inr (example_header, d') \<and> in_sync bs e' d'"
proof -
  have codable: "codable_header example_stream example_header"
    by (simp add: codable_header_def check_header_values_def example_stream_def example_header_def
        new_stream_parameters_def quant_table_set_index_count_def validate_picture_structure_def)
  obtain e where reset: "re_reset_impl [kInitialStateSize] [] kDefaultInitialState kDefaultStateTransition = Inr e"
    and e: "config_ready False 0 e"
    using fresh_encoder_ready by blast
  have "0 + (7 + quant_table_set_index_count example_stream) \<le> symbol_budget"
    by (simp add: quant_table_set_index_count_def symbol_budget_def)
  from range_total.slice_header_total [OF codable e this] obtain e' where
    e': "write_slice_header range_symbol_writer example_stream example_header e = Inr e'" "config_ready False (7 + quant_table_set_index_count example_stream) e'"
    by auto
  have inv: "enc_inv e" "enc_inv e'" using e e'(2) by (simp_all add: config_ready_def ready_encoder_def)
  have "re_finalize_impl False e' = Inr (re_low_bytes e', e'\<lparr>re_finalized := True\<rparr>)"
    using ready_usable [OF e'(2)] by (simp add: re_finalize_impl_def)
  note final = re_finalize_correct [OF inv(2) this]
  have sets: "length (sp_quant_table_sets example_stream) < 2 ^ 64" by (simp add: example_stream_def)
  have "contains (re_low_bytes e') e"
    using slice_header_synced [OF inv(1) e'(1) sets] final(1) by (auto simp: matched_def)
  then obtain d where d: "in_sync (re_low_bytes e') e d"
    using re_reset_impl_correct(3) [OF reset] final(2) by blast
  from slice_header_roundtrip [OF inv(1) e'(1) sets final(1) d] e'(1) d show ?thesis by blast
qed

end
