(* ===== verification/Slice_Footer.thy ===== *)
theory Slice_Footer
  imports Crc_Burst Bit_Reader Slice_Header
begin

text \<open>
  The slice footer (\<^verbatim>\<open>src/src/codec/slice_footer_writer.cpp\<close>, \<^verbatim>\<open>slice_footer_parser.cpp\<close>): the size of
  the slice in 24 bits and, when error detection is enabled, a status byte and the CRC of everything
  before it.
\<close>

definition footer_size :: "stream_parameters \<Rightarrow> nat" where
  "footer_size stream = (if sp_error_status_enabled stream then 8 else 3)"

definition maximum_slice_size :: nat where "maximum_slice_size = 0x00ffffff"

definition append_footer :: "stream_parameters \<Rightarrow> u8 \<Rightarrow> bytes \<Rightarrow> bytes result" where
  "append_footer stream error_status slice_payload =
     (if \<not> sp_error_status_enabled stream \<and> error_status \<noteq> 0 then Inl (make_error InvalidArgument)
      else if 2 < error_status then Inl (make_error InvalidArgument)
      else if maximum_slice_size < length slice_payload then Inl (make_error ResourceExhausted)
      else
        let slice_size = word_of_nat (length slice_payload) :: u32;
            completed = slice_payload @
              [ucast (drop_bit 16 slice_size AND 0xff), ucast (drop_bit 8 slice_size AND 0xff), ucast (slice_size AND 0xff)]
        in if sp_error_status_enabled stream then
             let completed = completed @ [error_status];
                 crc = crc32_ieee_msb completed
             in Inr (completed @
                  [ucast (drop_bit 24 crc AND 0xff), ucast (drop_bit 16 crc AND 0xff),
                   ucast (drop_bit 8 crc AND 0xff), ucast (crc AND 0xff)])
           else Inr completed)"

text \<open>\<open>at_offset off r\<close>: the location of a failed read, if it has none yet.\<close>

definition at_offset :: "u64 \<Rightarrow> 'a result \<Rightarrow> 'a result" where
  "at_offset off = map_error (set_byte_location_if_missing off)"

definition read_footer ::
  "stream_parameters \<Rightarrow> slice_descriptor \<Rightarrow> bit_reader \<Rightarrow> (slice_descriptor \<times> bit_reader) result" where
  "read_footer stream descriptor r =
     bind_result (at_offset (br_byte_position r) (br_require_byte_aligned r)) (\<lambda>_.
     bind_result (at_offset (br_byte_position r) (read_bits 24 r)) (\<lambda>(slice_size, r).
       if \<not> sp_error_status_enabled stream
       then Inr (descriptor\<lparr>sd_slice_size := ucast slice_size, sd_error_status := 0, sd_expected_crc := 0,
                   sd_has_crc := False\<rparr>, r)
       else
         let error_status_offset = br_byte_position r in
         bind_result (at_offset error_status_offset (read_bits 8 r)) (\<lambda>(error_status, r).
           if 2 < error_status then Inl (make_byte_error SyntaxError error_status_offset)
           else
             bind_result (at_offset (br_byte_position r) (read_bits 32 r)) (\<lambda>(crc, r).
               Inr (descriptor\<lparr>sd_slice_size := ucast slice_size, sd_error_status := ucast error_status,
                      sd_expected_crc := ucast crc, sd_has_crc := True\<rparr>, r)))))"

text \<open>\<open>add_byte_offset\<close>: a location relative to the span becomes one relative to the frame.\<close>

definition add_byte_offset :: "u64 \<Rightarrow> status \<Rightarrow> status" where
  "add_byte_offset base s =
     (if has_byte_offset (st_location s)
      then s\<lparr>st_location := (st_location s)\<lparr>loc_byte_offset := loc_byte_offset (st_location s) + base\<rparr>\<rparr>
      else set_byte_location_if_missing base s)"

definition read_footer_from_end ::
  "bytes \<Rightarrow> stream_parameters \<Rightarrow> slice_descriptor \<Rightarrow> bool \<Rightarrow> slice_descriptor result" where
  "read_footer_from_end slice_payload stream descriptor verify_crc =
     (if length slice_payload < footer_size stream
      then Inl (make_byte_error SyntaxError (sd_payload_byte_offset descriptor))
      else
        let footer_offset = length slice_payload - footer_size stream;
            next_descriptor = descriptor\<lparr>sd_footer_byte_offset :=
              sd_payload_byte_offset descriptor + word_of_nat footer_offset\<rparr>
        in case read_footer stream next_descriptor
                  (make_bit_reader (take (footer_size stream) (drop footer_offset slice_payload))) of
             Inl e \<Rightarrow> Inl (add_byte_offset (sd_footer_byte_offset next_descriptor) e)
           | Inr (next_descriptor, _) \<Rightarrow>
               if unat (sd_slice_size next_descriptor) + footer_size stream \<noteq> length slice_payload
               then Inl (make_byte_error SyntaxError (sd_footer_byte_offset next_descriptor))
               else if verify_crc \<and> sd_has_crc next_descriptor \<and> crc32_ieee_msb slice_payload \<noteq> 0
               then Inl (make_byte_error CrcMismatch (sd_footer_byte_offset next_descriptor + 4))
               else Inr next_descriptor)"

subsection \<open>The bytes of a footer\<close>

definition be24 :: "u32 \<Rightarrow> bytes" where
  "be24 w = [ucast (drop_bit 16 w), ucast (drop_bit 8 w), ucast w]"

text \<open>What \<open>append\<close> appends to a payload.\<close>

definition footer_bytes :: "stream_parameters \<Rightarrow> u8 \<Rightarrow> bytes \<Rightarrow> bytes" where
  "footer_bytes stream error_status payload =
     (let size_bytes = be24 (word_of_nat (length payload)) in
      if sp_error_status_enabled stream
      then size_bytes @ error_status # be32 (crc32_ieee_msb (payload @ size_bytes @ [error_status]))
      else size_bytes)"

lemma footer_low_byte: "(ucast (w AND 0xff :: u32) :: u8) = ucast w"
proof -
  have "(0xff :: u32) = mask 8" by (simp add: mask_eq_exp_minus_1)
  show ?thesis unfolding \<open>0xff = mask 8\<close>
    by (intro bit_word_eqI) (auto simp: bit_ucast_iff bit_and_iff bit_mask_iff)
qed

lemma length_footer_bytes [simp]: "length (footer_bytes stream error_status payload) = footer_size stream"
  by (simp add: footer_bytes_def footer_size_def be24_def be32_def Let_def)

lemma append_footer_eq:
  "append_footer stream error_status payload = Inr full \<longleftrightarrow>
     (sp_error_status_enabled stream \<or> error_status = 0) \<and> error_status \<le> 2 \<and>
     length payload \<le> maximum_slice_size \<and> full = payload @ footer_bytes stream error_status payload"
  by (auto simp: append_footer_def footer_bytes_def be24_def be32_def Let_def footer_low_byte not_less)

lemma bits_of_be24: "bits_of_bytes (be24 w) = bits_of 24 w"
proof (rule nth_equalityI)
  fix i assume "i < length (bits_of_bytes (be24 w))"
  then have i: "i < 24" by (simp add: be24_def)
  then consider "i < 8" | "8 \<le> i" "i < 16" | "16 \<le> i" "i < 24" by linarith
  then show "bits_of_bytes (be24 w) ! i = bits_of 24 w ! i"
    by cases (auto simp: be24_def bits_of_bytes_Cons nth_append nth_bits_of bit_ucast_iff bit_drop_bit_eq)
qed (simp add: be24_def)

lemma bits_of_be32: "bits_of_bytes (be32 w) = bits_of 32 w"
proof (rule nth_equalityI)
  fix i assume "i < length (bits_of_bytes (be32 w))"
  then have i: "i < 32" by (simp add: be32_def)
  then consider "i < 8" | "8 \<le> i" "i < 16" | "16 \<le> i" "i < 24" | "24 \<le> i" "i < 32" by linarith
  then show "bits_of_bytes (be32 w) ! i = bits_of 32 w ! i"
    by cases (auto simp: be32_def bits_of_bytes_Cons nth_append nth_bits_of bit_ucast_iff bit_drop_bit_eq)
qed (simp add: be32_def)

lemma word_of_bits_32:
  assumes "unat (w :: u32) < 2 ^ n" and "n \<le> 32"
  shows "word_of_bits 0 (bits_of n w) = ucast w"
proof -
  have "bits_of n w = bits_of n (ucast w :: u64)"
    using assms(2) by (auto simp: bits_of_def bit_ucast_iff)
  then show ?thesis using assms by (simp only:) (intro word_of_bits_of, simp_all)
qed

lemma footer_read_back:
  assumes "length payload \<le> maximum_slice_size" and "error_status \<le> 2"
  shows "\<exists>r. read_footer stream descriptor (make_bit_reader (footer_bytes stream error_status payload)) =
    Inr (descriptor\<lparr>sd_slice_size := word_of_nat (length payload),
           sd_error_status := (if sp_error_status_enabled stream then error_status else 0),
           sd_expected_crc := (if sp_error_status_enabled stream
             then crc32_ieee_msb (payload @ be24 (word_of_nat (length payload)) @ [error_status]) else 0),
           sd_has_crc := sp_error_status_enabled stream\<rparr>, r)"
proof -
  let ?size = "word_of_nat (length payload) :: u32"
  let ?crc = "crc32_ieee_msb (payload @ be24 ?size @ [error_status])"
  let ?r = "make_bit_reader (footer_bytes stream error_status payload)"
  have size: "unat ?size < 2 ^ 24"
    using assms(1) by (subst unat_of_nat_bounded) (simp_all add: maximum_slice_size_def)
  have ok: "reader_ok ?r" by (intro reader_ok_make) (simp add: footer_size_def)
  have aligned: "br_require_byte_aligned ?r = Inr ()"
    by (simp add: br_require_byte_aligned_def make_bit_reader_def)
  show ?thesis
  proof (cases "sp_error_status_enabled stream")
    case False
    then have bits: "unread ?r = bits_of 24 ?size @ []" by (simp add: footer_bytes_def bits_of_be24)
    from read_bits_step [OF ok bits, of 24] obtain r1 where
      r1: "read_bits 24 ?r = Inr (word_of_bits 0 (bits_of 24 ?size), r1)" by auto
    from r1 False size show ?thesis
      by (simp add: read_footer_def aligned at_offset_def word_of_bits_32 ucast_back)
  next
    case True
    have bits: "unread ?r = bits_of 24 ?size @ bits_of 8 error_status @ bits_of 32 ?crc"
      using True by (simp add: footer_bytes_def Let_def bits_of_bytes_append bits_of_bytes_Cons bits_of_be24 bits_of_be32)
    from read_bits_step [OF ok bits, of 24] obtain r1 where
      r1: "read_bits 24 ?r = Inr (word_of_bits 0 (bits_of 24 ?size), r1)" "reader_ok r1"
        "unread r1 = bits_of 8 error_status @ bits_of 32 ?crc" by auto
    from read_bits_step [OF r1(2,3), of 8] obtain r2 where
      r2: "read_bits 8 r1 = Inr (word_of_bits 0 (bits_of 8 error_status), r2)" "reader_ok r2"
        "unread r2 = bits_of 32 ?crc @ []" by auto
    from read_bits_step [OF r2(2,3), of 32] obtain r3 where
      r3: "read_bits 32 r2 = Inr (word_of_bits 0 (bits_of 32 ?crc), r3)" by auto
    have st: "word_of_bits 0 (bits_of 8 error_status) = ucast error_status"
    proof -
      have "bits_of 8 error_status = bits_of 8 (ucast error_status :: u64)"
        by (auto simp: bits_of_def bit_ucast_iff)
      moreover have "unat (ucast error_status :: u64) < 2 ^ 8" using unat_bound [of error_status] by simp
      ultimately show ?thesis by (simp only:) (intro word_of_bits_of, simp_all)
    qed
    have st2: "\<not> (2 :: u64) < ucast error_status" "ucast (ucast error_status :: u64) = error_status"
      using assms(2) unat_bound [of error_status]
      by (simp_all add: word_less_nat_alt word_le_nat_alt word_unat_eq_iff unat_ucast_small)
    have crc: "word_of_bits 0 (bits_of 32 ?crc) = ucast ?crc"
      using unat_bound [of ?crc] by (intro word_of_bits_32) simp_all
    from r1(1) r2(1) r3 True size show ?thesis
      by (simp add: read_footer_def aligned at_offset_def word_of_bits_32 ucast_back st st2 crc Let_def)
  qed
qed

lemma footer_crc:
  assumes "sp_error_status_enabled stream"
  shows "crc32_ieee_msb (payload @ footer_bytes stream error_status payload) = 0"
proof -
  let ?x = "payload @ be24 (word_of_nat (length payload)) @ [error_status]"
  have "payload @ footer_bytes stream error_status payload = ?x @ be32 (crc32_ieee_msb ?x)"
    using assms by (simp add: footer_bytes_def Let_def)
  then show ?thesis by (simp only: crc32_append [of ?x] crc_be32)
qed

lemma footer_from_end:
  assumes "append_footer stream error_status payload = Inr full"
  shows "read_footer_from_end full stream descriptor verify = Inr
    (descriptor\<lparr>sd_footer_byte_offset := sd_payload_byte_offset descriptor + word_of_nat (length payload),
       sd_slice_size := word_of_nat (length payload), sd_error_status := error_status,
       sd_expected_crc := (if sp_error_status_enabled stream
         then crc32_ieee_msb (payload @ be24 (word_of_nat (length payload)) @ [error_status]) else 0),
       sd_has_crc := sp_error_status_enabled stream\<rparr>)"
proof -
  let ?d = "descriptor\<lparr>sd_footer_byte_offset := sd_payload_byte_offset descriptor + word_of_nat (length payload)\<rparr>"
  from assms have full: "full = payload @ footer_bytes stream error_status payload"
    and ok: "sp_error_status_enabled stream \<or> error_status = 0" "error_status \<le> 2" "length payload \<le> maximum_slice_size"
    by (simp_all add: append_footer_eq)
  have len: "length full - footer_size stream = length payload" "\<not> length full < footer_size stream"
    "take (footer_size stream) (drop (length payload) full) = footer_bytes stream error_status payload"
    by (simp_all add: full)
  have size: "unat (word_of_nat (length payload) :: u32) = length payload"
    using ok(3) by (intro unat_of_nat_bounded) (simp add: maximum_slice_size_def)
  have crc: "sp_error_status_enabled stream \<longrightarrow> crc32_ieee_msb full = 0" unfolding full by (simp add: footer_crc)
  from footer_read_back [OF ok(3,2), of stream ?d] obtain r where
    r: "read_footer stream ?d (make_bit_reader (footer_bytes stream error_status payload)) =
      Inr (?d\<lparr>sd_slice_size := word_of_nat (length payload),
           sd_error_status := (if sp_error_status_enabled stream then error_status else 0),
           sd_expected_crc := (if sp_error_status_enabled stream
             then crc32_ieee_msb (payload @ be24 (word_of_nat (length payload)) @ [error_status]) else 0),
           sd_has_crc := sp_error_status_enabled stream\<rparr>, r)" by blast
  let ?d' = "?d\<lparr>sd_slice_size := word_of_nat (length payload),
           sd_error_status := (if sp_error_status_enabled stream then error_status else 0),
           sd_expected_crc := (if sp_error_status_enabled stream
             then crc32_ieee_msb (payload @ be24 (word_of_nat (length payload)) @ [error_status]) else 0),
           sd_has_crc := sp_error_status_enabled stream\<rparr>"
  have size': "unat (sd_slice_size ?d') + footer_size stream = length full"
    using size by (simp add: full)
  have verified: "\<not> (verify \<and> sd_has_crc ?d' \<and> crc32_ieee_msb full \<noteq> 0)" using crc by simp
  have "read_footer_from_end full stream descriptor verify = Inr ?d'"
    unfolding read_footer_from_end_def len(1) Let_def if_not_P [OF len(2)] len(3) r sum.case prod.case
      size' if_not_P [OF verified] by simp
  also have "(if sp_error_status_enabled stream then error_status else 0) = error_status" using ok(1) by auto
  finally show ?thesis by simp
qed

subsection \<open>Contracts\<close>

text \<open>
  C29: the footer that the writer appends is found again from the end of the slice: its size and status come back, and so
  does the checksum, which is that of everything before it and stands in the last four bytes; the verification of the
  checksum passes. Without error detection there is no checksum, and its field is zero.
\<close>

theorem slice_footer_roundtrip:
  assumes "append_footer stream error_status payload = Inr full"
  shows "\<exists>next_descriptor. read_footer_from_end full stream descriptor verify = Inr next_descriptor \<and>
    unat (sd_slice_size next_descriptor) = length payload \<and> take (length payload) full = payload \<and>
    sd_error_status next_descriptor = error_status \<and> sd_has_crc next_descriptor = sp_error_status_enabled stream \<and>
    (if sp_error_status_enabled stream
     then sd_expected_crc next_descriptor = crc32_ieee_msb (take (length full - 4) full) \<and>
       drop (length full - 4) full = be32 (sd_expected_crc next_descriptor)
     else sd_expected_crc next_descriptor = 0)"
proof -
  let ?crc = "crc32_ieee_msb (payload @ be24 (word_of_nat (length payload)) @ [error_status])"
  have "unat (word_of_nat (length payload) :: u32) = length payload"
    using assms by (intro unat_of_nat_bounded) (simp add: append_footer_eq maximum_slice_size_def)
  moreover have "take (length full - 4) full = payload @ be24 (word_of_nat (length payload)) @ [error_status] \<and>
      drop (length full - 4) full = be32 ?crc" if "sp_error_status_enabled stream"
    using assms that by (simp add: append_footer_eq footer_bytes_def Let_def be24_def be32_def)
  ultimately show ?thesis
    using assms footer_from_end [OF assms, of descriptor verify] by (auto simp: append_footer_eq)
qed

theorem slice_footer_roundtrip_witness:
  "\<exists>full next_descriptor. append_footer (example_stream\<lparr>sp_error_status_enabled := True\<rparr>) 1 [0x80, 0x00, 0x17] = Inr full \<and>
     read_footer_from_end full (example_stream\<lparr>sp_error_status_enabled := True\<rparr>) new_slice_descriptor True = Inr next_descriptor \<and>
     unat (sd_slice_size next_descriptor) = 3 \<and> sd_error_status next_descriptor = 1 \<and>
     drop (length full - 4) full = be32 (sd_expected_crc next_descriptor)"
proof -
  let ?s = "example_stream\<lparr>sp_error_status_enabled := True\<rparr>"
  have "append_footer ?s 1 [0x80, 0x00, 0x17] = Inr ([0x80, 0x00, 0x17] @ footer_bytes ?s 1 [0x80, 0x00, 0x17])"
    by (simp add: append_footer_eq maximum_slice_size_def)
  from slice_footer_roundtrip [OF this, of new_slice_descriptor True] this show ?thesis by auto
qed

lemma verified_footer_crc:
  assumes "read_footer_from_end full stream descriptor True = Inr d" and "sp_error_status_enabled stream"
  shows "crc32_ieee_msb full = 0"
proof -
  have "sd_has_crc d'" if "read_footer stream x r = Inr (d', r')" for x r d' r'
    using that assms(2) by (auto simp: read_footer_def at_offset_def Let_def split: if_splits sum.splits)
  with assms(1) show ?thesis
    by (auto simp: read_footer_from_end_def Let_def split: if_splits sum.splits)
qed

text \<open>
  C30: with error detection enabled, a finished slice that is damaged in a burst of at most 32 consecutive bits, at any bit
  position, footer included, is never accepted by the parser with verification on.
\<close>

theorem damaged_slice_rejected:
  assumes "append_footer stream error_status payload = Inr full" and "sp_error_status_enabled stream"
    and "differ_in_burst k full damaged"
  shows "\<exists>err. read_footer_from_end damaged stream descriptor True = Inl err"
proof (rule ccontr)
  assume "\<nexists>err. read_footer_from_end damaged stream descriptor True = Inl err"
  then obtain d where "read_footer_from_end damaged stream descriptor True = Inr d"
    by (cases "read_footer_from_end damaged stream descriptor True") auto
  then have "crc32_ieee_msb damaged = 0" using assms(2) by (rule verified_footer_crc)
  moreover have "crc32_ieee_msb full = 0"
    using assms(1) footer_crc [OF assms(2), of payload error_status] by (simp add: append_footer_eq)
  ultimately show False using crc_burst_changes [OF assms(3)] by simp
qed

text \<open>Bits 12 to 43 of a slice of three bytes, which span five bytes: its tail, its size and its status.\<close>

theorem damaged_slice_rejected_witness:
  "\<exists>full damaged err. append_footer (example_stream\<lparr>sp_error_status_enabled := True\<rparr>) 0 [0x80, 0x00, 0x17] = Inr full \<and>
     take 7 damaged = [0x80, 0x0f, 0x17, 0x00, 0x00, 0xf3, 0x00] \<and>
     read_footer_from_end damaged (example_stream\<lparr>sp_error_status_enabled := True\<rparr>) new_slice_descriptor True = Inl err"
proof -
  let ?s = "example_stream\<lparr>sp_error_status_enabled := True\<rparr>"
  let ?crc = "be32 (crc32_ieee_msb [0x80, 0x00, 0x17, 0x00, 0x00, 0x03, 0x00])"
  have a: "append_footer ?s 0 [0x80, 0x00, 0x17] = Inr ([0x80, 0x00, 0x17, 0x00, 0x00, 0x03, 0x00] @ ?crc)"
    by (simp add: append_footer_eq maximum_slice_size_def footer_bytes_def be24_def Let_def)
  have bits: "bits_of 8 (0x0f :: u8) = [False, False, False, False, True, True, True, True]" "bits_of 8 (0 :: u8) = [False, False, False, False, False, False, False, False]"
    "bits_of 8 (0xf3 :: u8) = [True, True, True, True, False, False, True, True]" "bits_of 8 (3 :: u8) = [False, False, False, False, False, False, True, True]"
    by (simp_all add: bits_of_def upt_rec)
  have repeated: "replicate 4 False = [False, False, False, False]" "replicate 4 True = [True, True, True, True]"
    "replicate 16 False = [False, False, False, False, False, False, False, False] @ [False, False, False, False, False, False, False, False]"
    by (simp_all add: numeral_eq_Suc)
  have "differ_in_burst 12 ([0x80, 0x00, 0x17, 0x00, 0x00, 0x03, 0x00] @ ?crc) ([0x80, 0x0f, 0x17, 0x00, 0x00, 0xf3, 0x00] @ ?crc)"
    using differ_in_burstI [of "[0x80, 0x00, 0x17, 0x00, 0x00, 0x03, 0x00] @ ?crc" "bits_of 8 (0x80 :: u8) @ replicate 4 False"
        "replicate 4 False @ bits_of 8 (0x17 :: u8) @ replicate 16 False @ replicate 4 False"
        "[False, False, True, True] @ bits_of 8 (0 :: u8) @ bits_of_bytes ?crc" "[0x80, 0x0f, 0x17, 0x00, 0x00, 0xf3, 0x00] @ ?crc"
        "replicate 4 True @ bits_of 8 (0x17 :: u8) @ replicate 16 False @ replicate 4 True"]
    by (simp add: bits_of_bytes_Cons bits repeated)
  from damaged_slice_rejected [OF a _ this, of new_slice_descriptor] obtain err where
    "read_footer_from_end ([0x80, 0x0f, 0x17, 0x00, 0x00, 0xf3, 0x00] @ ?crc) ?s new_slice_descriptor True = Inl err" by auto
  with a show ?thesis by (intro exI conjI) simp_all
qed

end
