(* ===== verification/Plane_Window.thy ===== *)
theory Plane_Window
  imports Slice_Header
begin

text \<open>
  The planes of a frame and the windows of a slice into them (\<^verbatim>\<open>src/include/mffv1/frame.hpp\<close>,
  \<^verbatim>\<open>src/src/codec/plane_window_math.hpp\<close>, \<^verbatim>\<open>slice_input_window.cpp,hpp\<close>,
  \<^verbatim>\<open>slice_output_window.cpp,hpp\<close>).

  A plane is memory the caller owns: a list of bytes per plane, kept apart from the views so that several
  windows can write to it. The data pointer of a view is the offset of the first sample in the memory of
  its plane, or \<open>None\<close> for a null pointer; a pointer computed from it is an offset too. Samples of 16 bits
  are stored with the low byte first, the order of the supported targets.
\<close>

subsection \<open>Views\<close>

record plane_info =
  pi_role :: plane_role
  pi_sample_format :: sample_format
  pi_width :: u32
  pi_height :: u32
  pi_stride_bytes :: int

record plane_view =
  pv_data :: "nat option"
  pv_info :: plane_info

record frame_view =
  fv_planes :: "plane_view list option"
  fv_plane_count :: nat

type_synonym frame_memory = "bytes list"

definition load_u16 :: "bytes \<Rightarrow> nat \<Rightarrow> u16" where
  "load_u16 memory address = ucast (memory ! address) OR push_bit 8 (ucast (memory ! (address + 1)))"

definition store_u16 :: "bytes \<Rightarrow> nat \<Rightarrow> u16 \<Rightarrow> bytes" where
  "store_u16 memory address sample =
     memory[address := ucast sample, address + 1 := ucast (drop_bit 8 sample)]"

subsection \<open>Offsets\<close>

definition maximum_offset :: u64 where "maximum_offset = 2 ^ 63 - 1"

definition checked_plane_row_bytes :: "plane_info \<Rightarrow> u64 result" where
  "checked_plane_row_bytes info =
     (let row_bytes = ucast (pi_width info) * ucast (bytes_per_sample (pi_sample_format info)) in
      if maximum_offset < row_bytes then Inl (make_error ResourceExhausted) else Inr row_bytes)"

definition checked_plane_window_offset :: "plane_info \<Rightarrow> u32 \<Rightarrow> u32 \<Rightarrow> u32 \<Rightarrow> u32 \<Rightarrow> int result" where
  "checked_plane_window_offset info x y w h =
     (let sample_bytes = ucast (bytes_per_sample (pi_sample_format info)) :: u64;
          stride = word_of_int (pi_stride_bytes info) :: u64
      in if y \<noteq> 0 \<and> maximum_offset div ucast y < stride then Inl (make_error ResourceExhausted)
         else
           let row_offset = stride * ucast y; column_offset = ucast x * sample_bytes in
           if maximum_offset - row_offset < column_offset then Inl (make_error ResourceExhausted)
           else if w \<noteq> 0 \<and> h \<noteq> 0 then
             let last_y = ucast y + ucast h - 1 in
             if last_y \<noteq> 0 \<and> maximum_offset div last_y < stride then Inl (make_error ResourceExhausted)
             else
               let last_row_offset = stride * last_y;
                   last_sample_extent = (ucast x + ucast w) * sample_bytes
               in if maximum_offset - last_row_offset < last_sample_extent
                  then Inl (make_error ResourceExhausted)
                  else Inr (to_int64 (uint (row_offset + column_offset)))
           else Inr (to_int64 (uint (row_offset + column_offset))))"

subsection \<open>Windows\<close>

record plane_window =
  pw_data :: nat
  pw_stride_bytes :: int
  pw_width :: u32
  pw_height :: u32
  pw_sample_format :: sample_format

definition window_plane_count :: "plane_window list \<Rightarrow> nat" where
  "window_plane_count planes = length planes"

definition window_plane_width :: "plane_window list \<Rightarrow> nat \<Rightarrow> u32" where
  "window_plane_width planes plane_index =
     (if plane_index < length planes then pw_width (planes ! plane_index) else 0)"

definition window_plane_height :: "plane_window list \<Rightarrow> nat \<Rightarrow> u32" where
  "window_plane_height planes plane_index =
     (if plane_index < length planes then pw_height (planes ! plane_index) else 0)"

definition row_address :: "plane_window \<Rightarrow> nat \<Rightarrow> nat" where
  "row_address plane y = nat (int (pw_data plane) + int y * pw_stride_bytes plane)"

definition window_row :: "sample_format \<Rightarrow> plane_window list \<Rightarrow> nat \<Rightarrow> nat \<Rightarrow> nat option" where
  "window_row format planes plane_index y =
     (if length planes \<le> plane_index \<or> unat (pw_height (planes ! plane_index)) \<le> y
         \<or> pw_sample_format (planes ! plane_index) \<noteq> format
      then None else Some (row_address (planes ! plane_index) y))"

definition row_u8 :: "plane_window list \<Rightarrow> nat \<Rightarrow> nat \<Rightarrow> nat option" where
  "row_u8 = window_row UInt8"

definition row_u16 :: "plane_window list \<Rightarrow> nat \<Rightarrow> nat \<Rightarrow> nat option" where
  "row_u16 = window_row UInt16"

subsection \<open>The input window\<close>

definition input_plane_x :: "stream_parameters \<Rightarrow> slice_descriptor \<Rightarrow> nat \<Rightarrow> u32" where
  "input_plane_x stream sl plane_index =
     (if is_chroma_plane stream plane_index
      then scaled_grid_position (plane_width stream plane_index) (sp_num_h_slices stream) (ucast (sd_raster_x sl))
      else sd_x sl)"

definition input_plane_y :: "stream_parameters \<Rightarrow> slice_descriptor \<Rightarrow> nat \<Rightarrow> u32" where
  "input_plane_y stream sl plane_index =
     (if is_chroma_plane stream plane_index
      then scaled_grid_position (plane_height stream plane_index) (sp_num_v_slices stream) (ucast (sd_raster_y sl))
      else sd_y sl)"

definition plane_extent :: "u32 \<Rightarrow> u32 \<Rightarrow> u32 \<Rightarrow> u32 \<Rightarrow> u32" where
  "plane_extent frame_extent grid_extent position len =
     (let start = scaled_grid_position frame_extent grid_extent (ucast position);
          stop = scaled_grid_position frame_extent grid_extent (ucast position + ucast len)
      in stop - start)"

definition input_slice_plane_width :: "stream_parameters \<Rightarrow> slice_descriptor \<Rightarrow> nat \<Rightarrow> u32" where
  "input_slice_plane_width stream sl plane_index =
     (if is_chroma_plane stream plane_index
      then plane_extent (plane_width stream plane_index) (sp_num_h_slices stream)
             (sd_raster_x sl) (sd_raster_width sl)
      else sd_width sl)"

definition input_slice_plane_height :: "stream_parameters \<Rightarrow> slice_descriptor \<Rightarrow> nat \<Rightarrow> u32" where
  "input_slice_plane_height stream sl plane_index =
     (if is_chroma_plane stream plane_index
      then plane_extent (plane_height stream plane_index) (sp_num_v_slices stream)
             (sd_raster_y sl) (sd_raster_height sl)
      else sd_height sl)"

text \<open>The body of the loop over the planes of \<open>SliceInputWindow::validate\<close>.\<close>

definition input_plane_window ::
  "stream_parameters \<Rightarrow> slice_descriptor \<Rightarrow> nat \<Rightarrow> plane_view \<Rightarrow> plane_window result" where
  "input_plane_window stream sl index plane =
     (let expected_format = sample_format_for_bit_depth (sp_bits_per_raw_sample stream); info = pv_info plane in
      case pv_data plane of
        None \<Rightarrow> Inl (make_error InvalidArgument)
      | Some data \<Rightarrow>
          if pi_role info \<noteq> expected_plane_role stream index \<or> pi_sample_format info \<noteq> expected_format
          then Inl (make_error InvalidArgument)
          else
            let frame_width = plane_width stream index; frame_height = plane_height stream index in
            if pi_width info \<noteq> frame_width \<or> pi_height info \<noteq> frame_height \<or> pi_stride_bytes info < 0
            then Inl (make_error InvalidArgument)
            else
              let x = input_plane_x stream sl index; y = input_plane_y stream sl index;
                  w = input_slice_plane_width stream sl index; h = input_slice_plane_height stream sl index
              in if w = 0 \<or> h = 0 \<or> frame_width < x \<or> frame_height < y
                   \<or> frame_width - x < w \<or> frame_height - y < h
                 then Inl (make_error InvalidArgument)
                 else
                   bind_result (checked_plane_row_bytes info) (\<lambda>row_bytes.
                     if word_of_int (pi_stride_bytes info) < row_bytes then Inl (make_error ResourceExhausted)
                     else
                       bind_result (checked_plane_window_offset info x y w h) (\<lambda>plane_offset.
                         Inr \<lparr>pw_data = nat (int data + plane_offset), pw_stride_bytes = pi_stride_bytes info,
                               pw_width = w, pw_height = h, pw_sample_format = expected_format\<rparr>)))"

text \<open>The loops over the planes of a view: one window per plane.\<close>

fun plane_windows ::
  "(nat \<Rightarrow> plane_view \<Rightarrow> plane_window result) \<Rightarrow> nat \<Rightarrow> plane_view list \<Rightarrow> plane_window list result" where
  "plane_windows f index [] = Inr []"
| "plane_windows f index (plane # planes) =
     bind_result (f index plane) (\<lambda>window.
     bind_result (plane_windows f (Suc index) planes) (\<lambda>windows. Inr (window # windows)))"

definition validate_input_window ::
  "stream_parameters \<Rightarrow> frame_view \<Rightarrow> slice_descriptor \<Rightarrow> plane_window list result" where
  "validate_input_window stream frame sl =
     (if sd_width sl = 0 \<or> sd_height sl = 0 \<or> sd_raster_width sl = 0 \<or> sd_raster_height sl = 0
      then Inl (make_error InvalidArgument)
      else
        let required_planes = coded_plane_count stream in
        if fv_plane_count frame \<noteq> required_planes \<or> required_planes \<noteq> 0 \<and> fv_planes frame = None
        then Inl (make_error InvalidArgument)
        else plane_windows (input_plane_window stream sl) 0 (take required_planes (the (fv_planes frame))))"

subsection \<open>The output window\<close>

definition subsampled_position :: "u32 \<Rightarrow> u8 \<Rightarrow> u32" where
  "subsampled_position v log2_subsample =
     (if 32 \<le> log2_subsample then 0 else drop_bit (unat log2_subsample) v)"

definition output_plane_x :: "stream_parameters \<Rightarrow> slice_descriptor \<Rightarrow> nat \<Rightarrow> u32" where
  "output_plane_x stream sl plane_index =
     (if is_chroma_plane stream plane_index then
        if sd_raster_width sl \<noteq> 0
        then scaled_grid_position (plane_width stream plane_index) (sp_num_h_slices stream) (ucast (sd_raster_x sl))
        else subsampled_position (sd_x sl) (sp_log2_h_chroma_subsample stream)
      else sd_x sl)"

definition output_plane_y :: "stream_parameters \<Rightarrow> slice_descriptor \<Rightarrow> nat \<Rightarrow> u32" where
  "output_plane_y stream sl plane_index =
     (if is_chroma_plane stream plane_index then
        if sd_raster_height sl \<noteq> 0
        then scaled_grid_position (plane_height stream plane_index) (sp_num_v_slices stream) (ucast (sd_raster_y sl))
        else subsampled_position (sd_y sl) (sp_log2_v_chroma_subsample stream)
      else sd_y sl)"

definition output_slice_plane_width :: "stream_parameters \<Rightarrow> slice_descriptor \<Rightarrow> nat \<Rightarrow> u32" where
  "output_slice_plane_width stream sl plane_index =
     (if is_chroma_plane stream plane_index then
        if sd_raster_width sl \<noteq> 0 then
          let start = scaled_grid_position (plane_width stream plane_index) (sp_num_h_slices stream)
                        (ucast (sd_raster_x sl));
              stop = scaled_grid_position (plane_width stream plane_index) (sp_num_h_slices stream)
                       (ucast (sd_raster_x sl) + ucast (sd_raster_width sl))
          in stop - start
        else subsampled_extent (sd_width sl) (sp_log2_h_chroma_subsample stream)
      else sd_width sl)"

definition output_slice_plane_height :: "stream_parameters \<Rightarrow> slice_descriptor \<Rightarrow> nat \<Rightarrow> u32" where
  "output_slice_plane_height stream sl plane_index =
     (if is_chroma_plane stream plane_index then
        if sd_raster_height sl \<noteq> 0 then
          let start = scaled_grid_position (plane_height stream plane_index) (sp_num_v_slices stream)
                        (ucast (sd_raster_y sl));
              stop = scaled_grid_position (plane_height stream plane_index) (sp_num_v_slices stream)
                       (ucast (sd_raster_y sl) + ucast (sd_raster_height sl))
          in stop - start
        else subsampled_extent (sd_height sl) (sp_log2_v_chroma_subsample stream)
      else sd_height sl)"

definition output_plane_window ::
  "stream_parameters \<Rightarrow> slice_descriptor \<Rightarrow> nat \<Rightarrow> plane_view \<Rightarrow> plane_window result" where
  "output_plane_window stream sl index plane =
     (let info = pv_info plane in
      case pv_data plane of
        None \<Rightarrow> Inl (make_error InvalidArgument)
      | Some data \<Rightarrow>
          if pi_role info \<noteq> expected_plane_role stream index then Inl (make_error InvalidArgument)
          else
            let px = output_plane_x stream sl index; py = output_plane_y stream sl index;
                pw = output_slice_plane_width stream sl index; ph = output_slice_plane_height stream sl index;
                frame_width = plane_width stream index; frame_height = plane_height stream index
            in if pi_width info < frame_width \<or> pi_height info < frame_height
               then Inl (make_error InvalidArgument)
               else if pi_width info < px \<or> pi_height info < py
                 \<or> pi_width info - px < pw \<or> pi_height info - py < ph
               then Inl (make_error InvalidArgument)
               else
                 bind_result (checked_plane_row_bytes info) (\<lambda>minimum_stride.
                   if pi_stride_bytes info < to_int64 (uint minimum_stride) then Inl (make_error InvalidArgument)
                   else
                     bind_result (checked_plane_window_offset info px py pw ph) (\<lambda>plane_offset.
                       Inr \<lparr>pw_data = nat (int data + plane_offset), pw_stride_bytes = pi_stride_bytes info,
                             pw_width = pw, pw_height = ph, pw_sample_format = pi_sample_format info\<rparr>)))"

definition validate_output_window ::
  "stream_parameters \<Rightarrow> frame_view \<Rightarrow> slice_descriptor \<Rightarrow> plane_window list result" where
  "validate_output_window stream frame sl =
     (if sd_width sl = 0 \<or> sd_height sl = 0 then Inl (make_error InvalidArgument)
      else if sp_width stream < sd_x sl \<or> sp_height stream < sd_y sl
        \<or> sp_width stream - sd_x sl < sd_width sl \<or> sp_height stream - sd_y sl < sd_height sl
      then Inl (make_error InvalidArgument)
      else
        let required_planes = coded_plane_count stream in
        if fv_plane_count frame < required_planes then Inl (make_error InvalidArgument)
        else if required_planes \<noteq> 0 \<and> fv_planes frame = None then Inl (make_error InvalidArgument)
        else plane_windows (output_plane_window stream sl) 0 (take required_planes (the (fv_planes frame))))"

definition contiguous_plane_window :: "nat \<Rightarrow> plane_view \<Rightarrow> plane_window result" where
  "contiguous_plane_window index plane =
     (let info = pv_info plane in
      case pv_data plane of
        None \<Rightarrow> Inl (make_error InvalidArgument)
      | Some data \<Rightarrow>
          if pi_stride_bytes info < 0 then Inl (make_error InvalidArgument)
          else
            bind_result (checked_plane_row_bytes info) (\<lambda>minimum_stride.
              if pi_stride_bytes info < to_int64 (uint minimum_stride) then Inl (make_error InvalidArgument)
              else
                bind_result (checked_plane_window_offset info 0 0 (pi_width info) (pi_height info)) (\<lambda>plane_offset.
                  Inr \<lparr>pw_data = nat (int data + plane_offset), pw_stride_bytes = pi_stride_bytes info,
                        pw_width = pi_width info, pw_height = pi_height info,
                        pw_sample_format = pi_sample_format info\<rparr>)))"

definition reset_to_contiguous_frame :: "frame_view \<Rightarrow> plane_window list result" where
  "reset_to_contiguous_frame frame =
     (if fv_plane_count frame \<noteq> 0 \<and> fv_planes frame = None then Inl (make_error InvalidArgument)
      else plane_windows contiguous_plane_window 0 (take (fv_plane_count frame) (the (fv_planes frame))))"

subsection \<open>Where the samples of a window lie\<close>

definition sample_bytes :: "sample_format \<Rightarrow> nat" where
  "sample_bytes format = unat (bytes_per_sample format)"

definition sample_address :: "plane_info \<Rightarrow> nat \<Rightarrow> nat \<Rightarrow> nat \<Rightarrow> nat" where
  "sample_address info base x y =
     base + y * nat (pi_stride_bytes info) + x * sample_bytes (pi_sample_format info)"

text \<open>The bytes of a plane: its last row ends with its last sample, not with the stride.\<close>

definition plane_bytes :: "plane_info \<Rightarrow> nat" where
  "plane_bytes info =
     (if pi_width info = 0 \<or> pi_height info = 0 then 0
      else (unat (pi_height info) - 1) * nat (pi_stride_bytes info)
        + unat (pi_width info) * sample_bytes (pi_sample_format info))"

lemma sample_bytes_cases: "sample_bytes UInt8 = 1" "sample_bytes UInt16 = 2"
  by (simp_all add: sample_bytes_def bytes_per_sample_def)

lemma sample_bytes_bounds: "1 \<le> sample_bytes format" "sample_bytes format \<le> 2"
  by (cases format; simp add: sample_bytes_cases)+

lemma unat_maximum_offset: "unat maximum_offset = 2 ^ 63 - 1"
  by (simp add: maximum_offset_def)

lemma product_within:
  fixes a b :: u64
  assumes "b = 0 \<or> \<not> maximum_offset div b < a"
  shows "unat (a * b) = unat a * unat b" and "unat a * unat b \<le> 2 ^ 63 - 1"
proof -
  have "unat a * unat b \<le> unat maximum_offset"
  proof (cases "b = 0")
    case False
    then have "unat a \<le> unat maximum_offset div unat b"
      using assms by (simp add: not_less word_le_nat_alt unat_div)
    then have "unat a * unat b \<le> (unat maximum_offset div unat b) * unat b" by (rule mult_le_mono1)
    also have "\<dots> \<le> unat maximum_offset" by simp
    finally show ?thesis .
  qed simp
  then show "unat a * unat b \<le> 2 ^ 63 - 1" by (simp only: unat_maximum_offset)
  then show "unat (a * b) = unat a * unat b" by (intro unat_mult_bounded) simp
qed

lemma sum_within:
  fixes a b :: u64
  assumes "\<not> maximum_offset - a < b" and "unat a \<le> 2 ^ 63 - 1"
  shows "unat (a + b) = unat a + unat b" and "unat a + unat b \<le> 2 ^ 63 - 1"
proof -
  have "unat (maximum_offset - a) = (2 ^ 63 - 1) - unat a"
    using assms(2) by (subst unat_diff_bounded) (simp_all only: unat_maximum_offset)
  then show "unat a + unat b \<le> 2 ^ 63 - 1"
    using assms by (simp add: not_less word_le_nat_alt)
  then show "unat (a + b) = unat a + unat b" by (intro unat_add_bounded) simp
qed

lemma unat_stride:
  assumes "0 \<le> s" and "s < 2 ^ 63"
  shows "unat (word_of_int s :: u64) = nat s"
proof -
  have "uint (word_of_int s :: u64) = s"
    using assms by (simp add: uint_word_of_int_eq take_bit_int_eq_self)
  then show ?thesis by (metis unat_eq_nat_uint)
qed

lemma unat_column:
  fixes x w :: u32
  shows "unat (ucast x * ucast (bytes_per_sample format) :: u64) = unat x * sample_bytes format"
    and "unat ((ucast x + ucast w) * ucast (bytes_per_sample format) :: u64) = (unat x + unat w) * sample_bytes format"
proof -
  have x: "unat x < 2 ^ 32" "unat w < 2 ^ 32" using unat_bound [of x] unat_bound [of w] by simp_all
  have s: "unat (ucast (bytes_per_sample format) :: u64) = sample_bytes format" by (simp add: sample_bytes_def)
  have small: "n * sample_bytes format < 2 ^ 64" if "n < 2 ^ 33" for n
  proof -
    have "n * sample_bytes format \<le> n * 2" using sample_bytes_bounds by (intro mult_le_mono2)
    also have "\<dots> < 2 ^ 64" using that by simp
    finally show ?thesis .
  qed
  show "unat (ucast x * ucast (bytes_per_sample format) :: u64) = unat x * sample_bytes format"
    using x small [of "unat x"] by (subst unat_mult_bounded) (simp_all add: s)
  have "unat (ucast x + ucast w :: u64) = unat x + unat w" using x by (subst unat_add_bounded) simp_all
  then show "unat ((ucast x + ucast w) * ucast (bytes_per_sample format) :: u64) = (unat x + unat w) * sample_bytes format"
    using x small [of "unat x + unat w"] by (subst unat_mult_bounded) (simp_all add: s)
qed

lemma int64_of_u64:
  assumes "unat (w :: u64) \<le> 2 ^ 63 - 1"
  shows "to_int64 (uint w) = int (unat w)"
proof -
  have "to_int64 (int n) = int n" if "n \<le> 2 ^ 63 - 1" for n
    using that by (intro to_int64_id) (simp add: in_int64_def)
  then show ?thesis unfolding uint_nat using assms .
qed

lemma checked_offset_exact:
  assumes "checked_plane_window_offset info x y w h = Inr off" and "0 \<le> pi_stride_bytes info"
    and "pi_stride_bytes info < 2 ^ 63"
  shows "nat (int data + off) = sample_address info data (unat x) (unat y)" and "0 \<le> off"
proof -
  let ?s = "word_of_int (pi_stride_bytes info) :: u64"
  let ?c = "ucast x * ucast (bytes_per_sample (pi_sample_format info)) :: u64"
  have s: "unat ?s = nat (pi_stride_bytes info)" using assms(2,3) by (rule unat_stride)
  from assms(1) have g1: "(ucast y :: u64) = 0 \<or> \<not> maximum_offset div ucast y < ?s"
    and g2: "\<not> maximum_offset - ?s * ucast y < ?c" and off: "off = to_int64 (uint (?s * ucast y + ?c))"
    by (auto simp: checked_plane_window_offset_def Let_def split: if_splits)
  note row = product_within [OF g1]
  have "unat (?s * ucast y) \<le> 2 ^ 63 - 1" using row by simp
  note total = sum_within [OF g2 this]
  have u: "unat (?s * ucast y + ?c) = nat (pi_stride_bytes info) * unat y + unat x * sample_bytes (pi_sample_format info)"
    using total(1) row(1) by (simp add: s unat_column)
  have "unat (?s * ucast y + ?c) \<le> 2 ^ 63 - 1" unfolding total(1) by (rule total(2))
  then have off': "off = int (unat (?s * ucast y + ?c))" unfolding off by (rule int64_of_u64)
  then show "0 \<le> off" by simp
  show "nat (int data + off) = sample_address info data (unat x) (unat y)"
    unfolding off' u sample_address_def of_nat_add [symmetric] nat_int by (simp only: ac_simps)
qed

text \<open>A window as the code sets it up: it starts at sample \<open>(x, y)\<close> of its plane and stays inside.\<close>

definition window_at :: "plane_view \<Rightarrow> nat \<Rightarrow> nat \<Rightarrow> plane_window \<Rightarrow> bool" where
  "window_at view x y window \<longleftrightarrow>
     (\<exists>data. pv_data view = Some data \<and> pw_data window = sample_address (pv_info view) data x y) \<and>
     pw_stride_bytes window = pi_stride_bytes (pv_info view) \<and> 0 \<le> pi_stride_bytes (pv_info view) \<and>
     pw_sample_format window = pi_sample_format (pv_info view) \<and>
     x + unat (pw_width window) \<le> unat (pi_width (pv_info view)) \<and>
     y + unat (pw_height window) \<le> unat (pi_height (pv_info view)) \<and>
     unat (pi_width (pv_info view)) * sample_bytes (pi_sample_format (pv_info view))
       \<le> nat (pi_stride_bytes (pv_info view))"

lemma window_sample_address:
  assumes "window_at view x y window" and "pv_data view = Some data"
  shows "row_address window r + c * sample_bytes (pw_sample_format window) =
    sample_address (pv_info view) data (x + c) (y + r)"
proof -
  have "int (pw_data window) + int r * pw_stride_bytes window =
      int (sample_address (pv_info view) data x y + r * nat (pi_stride_bytes (pv_info view)))"
    using assms by (simp add: window_at_def)
  then have "row_address window r = sample_address (pv_info view) data x y + r * nat (pi_stride_bytes (pv_info view))"
    unfolding row_address_def by (simp only: nat_int)
  then show ?thesis using assms by (simp add: window_at_def sample_address_def algebra_simps)
qed

lemma sample_address_within:
  assumes "x < unat (pi_width info)" and "y < unat (pi_height info)"
  shows "sample_address info data x y + sample_bytes (pi_sample_format info) \<le> data + plane_bytes info"
proof -
  let ?b = "sample_bytes (pi_sample_format info)"
  have "y * nat (pi_stride_bytes info) \<le> (unat (pi_height info) - 1) * nat (pi_stride_bytes info)"
    using assms(2) by (intro mult_le_mono1) simp
  moreover have "(x + 1) * ?b \<le> unat (pi_width info) * ?b" using assms(1) by (intro mult_le_mono1) simp
  then have "x * ?b + ?b \<le> unat (pi_width info) * ?b" by (simp only: add_mult_distrib mult_1)
  moreover have "pi_width info \<noteq> 0" "pi_height info \<noteq> 0" using assms by auto
  then have "plane_bytes info = (unat (pi_height info) - 1) * nat (pi_stride_bytes info) + unat (pi_width info) * ?b"
    by (simp add: plane_bytes_def)
  ultimately show ?thesis unfolding sample_address_def by linarith
qed

text \<open>Different samples of a plane do not share a byte.\<close>

lemma sample_address_disjoint:
  assumes "unat (pi_width info) * sample_bytes (pi_sample_format info) \<le> nat (pi_stride_bytes info)"
    and "x < unat (pi_width info)" and "x' < unat (pi_width info)" and "(x, y) \<noteq> (x', y')"
    and "k < sample_bytes (pi_sample_format info)" and "k' < sample_bytes (pi_sample_format info)"
  shows "sample_address info data x y + k \<noteq> sample_address info data x' y' + k'"
proof
  let ?b = "sample_bytes (pi_sample_format info)" and ?s = "nat (pi_stride_bytes info)"
  assume "sample_address info data x y + k = sample_address info data x' y' + k'"
  then have eq: "y * ?s + (x * ?b + k) = y' * ?s + (x' * ?b + k')" by (simp add: sample_address_def)
  have col: "v * ?b + j < ?s" if "v < unat (pi_width info)" "j < ?b" for v j
  proof -
    have "v * ?b + j < (v + 1) * ?b" using that by simp
    also have "\<dots> \<le> unat (pi_width info) * ?b" using that by (intro mult_le_mono1) simp
    finally show ?thesis using assms(1) by simp
  qed
  have "y = y'"
    using eq col [OF assms(2,5)] col [OF assms(3,6)]
    by (metis div_mult_self3 div_less add.left_neutral add.right_neutral less_nat_zero_code gr0I)
  moreover from this eq have "x * ?b + k = x' * ?b + k'" by simp
  then have "x = x'" using assms(5,6) by (metis div_mult_self3 div_less add.right_neutral less_nat_zero_code gr0I)
  ultimately show False using assms(4) by simp
qed

subsection \<open>Validated windows\<close>

lemma plane_windows_nth:
  assumes "plane_windows f i planes = Inr ws"
  shows "length ws = length planes \<and> (\<forall>k < length planes. f (i + k) (planes ! k) = Inr (ws ! k))"
  using assms
proof (induction planes arbitrary: i ws)
  case Nil
  then show ?case by simp
next
  case (Cons plane planes)
  then obtain w rest where w: "f i plane = Inr w" "plane_windows f (Suc i) planes = Inr rest" "ws = w # rest" by auto
  have "f (i + k) ((plane # planes) ! k) = Inr (ws ! k)" if "k < length (plane # planes)" for k
    using that w Cons.IH [OF w(2)] by (cases k) simp_all
  with w(3) Cons.IH [OF w(2)] show ?case by simp
qed

lemma row_bytes_exact:
  assumes "checked_plane_row_bytes info = Inr n"
  shows "unat n = unat (pi_width info) * sample_bytes (pi_sample_format info)" and "unat n \<le> 2 ^ 63 - 1"
proof -
  from assms have n: "n = ucast (pi_width info) * ucast (bytes_per_sample (pi_sample_format info))"
    and le: "\<not> maximum_offset < n" by (auto simp: checked_plane_row_bytes_def Let_def split: if_splits)
  show "unat n = unat (pi_width info) * sample_bytes (pi_sample_format info)" unfolding n by (rule unat_column)
  have "unat n \<le> unat maximum_offset" using le by (simp add: not_less word_le_nat_alt)
  then show "unat n \<le> 2 ^ 63 - 1" by (simp only: unat_maximum_offset)
qed

lemma fits_extent:
  assumes "\<not> lim < (x :: u32)" and "\<not> lim - x < w"
  shows "unat x + unat w \<le> unat lim"
proof -
  have x: "unat x \<le> unat lim" using assms(1) by (simp add: not_less word_le_nat_alt)
  then have "unat (lim - x) = unat lim - unat x" by (rule unat_diff_bounded)
  with assms(2) x show ?thesis by (simp add: not_less word_le_nat_alt)
qed

lemma output_plane_window_at:
  assumes "output_plane_window stream sl i view = Inr w" and "pi_stride_bytes (pv_info view) < 2 ^ 63"
  shows "window_at view (unat (output_plane_x stream sl i)) (unat (output_plane_y stream sl i)) w"
    and "pw_width w = output_slice_plane_width stream sl i" and "pw_height w = output_slice_plane_height stream sl i"
proof -
  let ?info = "pv_info view"
  from assms(1) obtain data n off where data: "pv_data view = Some data"
    and fits: "\<not> pi_width ?info < output_plane_x stream sl i" "\<not> pi_height ?info < output_plane_y stream sl i"
      "\<not> pi_width ?info - output_plane_x stream sl i < output_slice_plane_width stream sl i"
      "\<not> pi_height ?info - output_plane_y stream sl i < output_slice_plane_height stream sl i"
    and n: "checked_plane_row_bytes ?info = Inr n" and stride: "\<not> pi_stride_bytes ?info < to_int64 (uint n)"
    and off: "checked_plane_window_offset ?info (output_plane_x stream sl i) (output_plane_y stream sl i)
      (output_slice_plane_width stream sl i) (output_slice_plane_height stream sl i) = Inr off"
    and w: "w = \<lparr>pw_data = nat (int data + off), pw_stride_bytes = pi_stride_bytes ?info,
      pw_width = output_slice_plane_width stream sl i, pw_height = output_slice_plane_height stream sl i,
      pw_sample_format = pi_sample_format ?info\<rparr>"
    unfolding output_plane_window_def Let_def
    by (cases "pv_data view") (auto split: if_splits)
  show "pw_width w = output_slice_plane_width stream sl i" "pw_height w = output_slice_plane_height stream sl i"
    by (simp_all add: w)
  note rb = row_bytes_exact [OF n]
  have "int (unat n) \<le> pi_stride_bytes ?info" using stride int64_of_u64 [OF rb(2)] by simp
  then have s: "0 \<le> pi_stride_bytes ?info" "unat n \<le> nat (pi_stride_bytes ?info)" by linarith+
  note exact = checked_offset_exact(1) [OF off s(1) assms(2), of data]
  note extents = fits_extent [OF fits(1,3)] fits_extent [OF fits(2,4)]
  show "window_at view (unat (output_plane_x stream sl i)) (unat (output_plane_y stream sl i)) w"
    unfolding window_at_def using data exact s rb(1) extents by (simp add: w)
qed

lemma input_plane_window_at:
  assumes "input_plane_window stream sl i view = Inr w" and "pi_stride_bytes (pv_info view) < 2 ^ 63"
  shows "window_at view (unat (input_plane_x stream sl i)) (unat (input_plane_y stream sl i)) w"
    and "pw_width w = input_slice_plane_width stream sl i" and "pw_height w = input_slice_plane_height stream sl i"
    and "pw_width w \<noteq> 0" and "pw_height w \<noteq> 0"
    and "pw_sample_format w = sample_format_for_bit_depth (sp_bits_per_raw_sample stream)"
proof -
  let ?info = "pv_info view"
  from assms(1) obtain data n off where data: "pv_data view = Some data"
    and fmt: "pi_sample_format ?info = sample_format_for_bit_depth (sp_bits_per_raw_sample stream)"
    and s0: "\<not> pi_stride_bytes ?info < 0" and dims: "pi_width ?info = plane_width stream i" "pi_height ?info = plane_height stream i"
    and fits: "\<not> plane_width stream i < input_plane_x stream sl i" "\<not> plane_height stream i < input_plane_y stream sl i"
      "\<not> plane_width stream i - input_plane_x stream sl i < input_slice_plane_width stream sl i"
      "\<not> plane_height stream i - input_plane_y stream sl i < input_slice_plane_height stream sl i"
      "input_slice_plane_width stream sl i \<noteq> 0" "input_slice_plane_height stream sl i \<noteq> 0"
    and n: "checked_plane_row_bytes ?info = Inr n" and stride: "\<not> word_of_int (pi_stride_bytes ?info) < n"
    and off: "checked_plane_window_offset ?info (input_plane_x stream sl i) (input_plane_y stream sl i)
      (input_slice_plane_width stream sl i) (input_slice_plane_height stream sl i) = Inr off"
    and w: "w = \<lparr>pw_data = nat (int data + off), pw_stride_bytes = pi_stride_bytes ?info,
      pw_width = input_slice_plane_width stream sl i, pw_height = input_slice_plane_height stream sl i,
      pw_sample_format = sample_format_for_bit_depth (sp_bits_per_raw_sample stream)\<rparr>"
    unfolding input_plane_window_def Let_def
    by (cases "pv_data view") (auto split: if_splits)
  show "pw_width w = input_slice_plane_width stream sl i" "pw_height w = input_slice_plane_height stream sl i"
    "pw_width w \<noteq> 0" "pw_height w \<noteq> 0" "pw_sample_format w = sample_format_for_bit_depth (sp_bits_per_raw_sample stream)"
    using fits(5,6) by (simp_all add: w)
  have s: "0 \<le> pi_stride_bytes ?info" using s0 by simp
  have sn: "unat n \<le> nat (pi_stride_bytes ?info)"
    using stride unat_stride [OF s assms(2)] by (simp add: not_less word_le_nat_alt)
  note exact = checked_offset_exact(1) [OF off s assms(2), of data]
  note extents = fits_extent [OF fits(1,3)] fits_extent [OF fits(2,4)]
  show "window_at view (unat (input_plane_x stream sl i)) (unat (input_plane_y stream sl i)) w"
    unfolding window_at_def using data exact s sn row_bytes_exact(1) [OF n] extents by (simp add: w fmt dims)
qed

text \<open>The rectangle of a placed slice in a plane: two grid positions and their differences.\<close>

lemma placed_span:
  assumes "grid \<noteq> 0" and "\<not> grid < (x :: u32)" and "\<not> grid - x < w"
  shows "unat (scaled_grid_position extent grid (ucast x)) = unat x * unat extent div unat grid"
    and "unat (scaled_grid_position extent grid (ucast x)) +
      unat (scaled_grid_position extent grid (ucast x + ucast w) - scaled_grid_position extent grid (ucast x)) =
      (unat x + unat w) * unat extent div unat grid"
proof -
  have fit: "unat x + unat w \<le> unat grid" using assms(2,3) by (rule fits_extent)
  have sum: "unat (ucast x + ucast w :: u64) = unat x + unat w"
    using fit unat_bound [of grid] by (subst unat_add_bounded) simp_all
  have a: "unat (scaled_grid_position extent grid (ucast x)) = unat x * unat extent div unat grid"
    using fit by (subst unat_scaled_grid_position [OF assms(1)]) simp_all
  have b: "unat (scaled_grid_position extent grid (ucast x + ucast w)) = (unat x + unat w) * unat extent div unat grid"
    using fit by (subst unat_scaled_grid_position [OF assms(1)]) (simp_all only: sum)
  have "unat x * unat extent div unat grid \<le> (unat x + unat w) * unat extent div unat grid"
    by (intro div_le_mono mult_le_mono1) simp
  then have "unat (scaled_grid_position extent grid (ucast x + ucast w) - scaled_grid_position extent grid (ucast x)) =
      (unat x + unat w) * unat extent div unat grid - unat x * unat extent div unat grid"
    by (subst unat_diff_bounded) (simp_all only: a b)
  with a show "unat (scaled_grid_position extent grid (ucast x)) = unat x * unat extent div unat grid"
    and "unat (scaled_grid_position extent grid (ucast x)) +
      unat (scaled_grid_position extent grid (ucast x + ucast w) - scaled_grid_position extent grid (ucast x)) =
      (unat x + unat w) * unat extent div unat grid"
    using \<open>unat x * unat extent div unat grid \<le> (unat x + unat w) * unat extent div unat grid\<close> by simp_all
qed

text \<open>
  The rectangle of a slice that comes from a header, in every plane: the subsampled planes use their own
  extent, the others the extent of the frame, which is theirs too.
\<close>

lemma placed_rectangle:
  assumes "apply_raster stream values d = Inr sl" and "sp_num_h_slices stream \<noteq> 0" and "sp_num_v_slices stream \<noteq> 0"
  shows "unat (output_plane_x stream sl i) = unat (hv_x values) * unat (plane_width stream i) div unat (sp_num_h_slices stream)"
    and "unat (output_plane_x stream sl i) + unat (output_slice_plane_width stream sl i) =
      (unat (hv_x values) + unat (hv_width values)) * unat (plane_width stream i) div unat (sp_num_h_slices stream)"
    and "unat (output_plane_y stream sl i) = unat (hv_y values) * unat (plane_height stream i) div unat (sp_num_v_slices stream)"
    and "unat (output_plane_y stream sl i) + unat (output_slice_plane_height stream sl i) =
      (unat (hv_y values) + unat (hv_height values)) * unat (plane_height stream i) div unat (sp_num_v_slices stream)"
proof -
  from assms(1) have nz: "hv_width values \<noteq> 0" "hv_height values \<noteq> 0"
    and fits: "\<not> sp_num_h_slices stream < hv_x values" "\<not> sp_num_h_slices stream - hv_x values < hv_width values"
      "\<not> sp_num_v_slices stream < hv_y values" "\<not> sp_num_v_slices stream - hv_y values < hv_height values"
    by (auto simp: apply_raster_def check_header_values_def split: if_splits)
  from assms(1) have sl: "sd_x sl = slice_pixel_x stream (hv_x values)" "sd_y sl = slice_pixel_y stream (hv_y values)"
    "sd_width sl = slice_pixel_width stream (hv_x values) (hv_width values)"
    "sd_height sl = slice_pixel_height stream (hv_y values) (hv_height values)"
    "sd_raster_x sl = hv_x values" "sd_raster_y sl = hv_y values"
    "sd_raster_width sl = hv_width values" "sd_raster_height sl = hv_height values"
    by (auto simp: apply_raster_def)
  have luma: "plane_width stream i = sp_width stream" "plane_height stream i = sp_height stream" if "\<not> is_chroma_plane stream i"
    using that by (simp_all add: plane_width_def plane_height_def)
  have pos: "output_plane_x stream sl i = scaled_grid_position (plane_width stream i) (sp_num_h_slices stream) (ucast (hv_x values))"
    "output_plane_y stream sl i = scaled_grid_position (plane_height stream i) (sp_num_v_slices stream) (ucast (hv_y values))"
    using nz luma by (auto simp: output_plane_x_def output_plane_y_def sl slice_pixel_x_def slice_pixel_y_def)
  have ext: "output_slice_plane_width stream sl i =
      scaled_grid_position (plane_width stream i) (sp_num_h_slices stream) (ucast (hv_x values) + ucast (hv_width values)) -
      scaled_grid_position (plane_width stream i) (sp_num_h_slices stream) (ucast (hv_x values))"
    "output_slice_plane_height stream sl i =
      scaled_grid_position (plane_height stream i) (sp_num_v_slices stream) (ucast (hv_y values) + ucast (hv_height values)) -
      scaled_grid_position (plane_height stream i) (sp_num_v_slices stream) (ucast (hv_y values))"
    using nz luma by (auto simp: output_slice_plane_width_def output_slice_plane_height_def sl slice_pixel_width_def
        slice_pixel_height_def Let_def)
  note h = placed_span [OF assms(2) fits(1,2), of "plane_width stream i"]
  note v = placed_span [OF assms(3) fits(3,4), of "plane_height stream i"]
  show "unat (output_plane_x stream sl i) = unat (hv_x values) * unat (plane_width stream i) div unat (sp_num_h_slices stream)"
    "unat (output_plane_y stream sl i) = unat (hv_y values) * unat (plane_height stream i) div unat (sp_num_v_slices stream)"
    unfolding pos by (rule h(1), rule v(1))
  show "unat (output_plane_x stream sl i) + unat (output_slice_plane_width stream sl i) =
      (unat (hv_x values) + unat (hv_width values)) * unat (plane_width stream i) div unat (sp_num_h_slices stream)"
    unfolding pos ext by (rule h(2))
  show "unat (output_plane_y stream sl i) + unat (output_slice_plane_height stream sl i) =
      (unat (hv_y values) + unat (hv_height values)) * unat (plane_height stream i) div unat (sp_num_v_slices stream)"
    unfolding pos ext by (rule v(2))
qed

text \<open>The encoder and the decoder place a slice in the same way.\<close>

lemma input_output_rectangle:
  assumes "apply_raster stream values d = Inr sl"
  shows "input_plane_x stream sl i = output_plane_x stream sl i" and "input_plane_y stream sl i = output_plane_y stream sl i"
    and "input_slice_plane_width stream sl i = output_slice_plane_width stream sl i"
    and "input_slice_plane_height stream sl i = output_slice_plane_height stream sl i"
proof -
  have "sd_raster_width sl \<noteq> 0" "sd_raster_height sl \<noteq> 0"
    using assms by (auto simp: apply_raster_def check_header_values_def split: if_splits)
  then show "input_plane_x stream sl i = output_plane_x stream sl i" "input_plane_y stream sl i = output_plane_y stream sl i"
    "input_slice_plane_width stream sl i = output_slice_plane_width stream sl i"
    "input_slice_plane_height stream sl i = output_slice_plane_height stream sl i"
    by (simp_all add: input_plane_x_def output_plane_x_def input_plane_y_def output_plane_y_def
        input_slice_plane_width_def output_slice_plane_width_def input_slice_plane_height_def
        output_slice_plane_height_def plane_extent_def Let_def)
qed

subsection \<open>Contracts\<close>

text \<open>The byte \<open>k\<close> of the sample in row \<open>r\<close> and column \<open>c\<close> of a window.\<close>

definition window_byte :: "plane_window \<Rightarrow> nat \<Rightarrow> nat \<Rightarrow> nat \<Rightarrow> nat" where
  "window_byte window r c k = row_address window r + c * sample_bytes (pw_sample_format window) + k"

text \<open>A frame view as the caller passes it: the count is that of the array, strides are \<open>ptrdiff_t\<close>.\<close>

definition frame_views :: "frame_view \<Rightarrow> plane_view list \<Rightarrow> bool" where
  "frame_views frame views \<longleftrightarrow>
     fv_planes frame = Some views \<and> fv_plane_count frame = length views \<and>
     (\<forall>view \<in> set views. pi_stride_bytes (pv_info view) < 2 ^ 63)"

lemma output_windows_at:
  assumes "validate_output_window stream frame sl = Inr ws" and "frame_views frame views" and "i < length ws"
  shows "i < length views" and "length ws = coded_plane_count stream"
    and "window_at (views ! i) (unat (output_plane_x stream sl i)) (unat (output_plane_y stream sl i)) (ws ! i)"
    and "pw_width (ws ! i) = output_slice_plane_width stream sl i"
    and "pw_height (ws ! i) = output_slice_plane_height stream sl i"
proof -
  from assms(1,2) have len: "coded_plane_count stream \<le> length views"
    and run: "plane_windows (output_plane_window stream sl) 0 (take (coded_plane_count stream) views) = Inr ws"
    by (auto simp: validate_output_window_def frame_views_def Let_def not_less split: if_splits)
  note nth = plane_windows_nth [OF run]
  show "length ws = coded_plane_count stream" and i: "i < length views" using nth len assms(3) by auto
  from nth assms(3) len have w: "output_plane_window stream sl i (views ! i) = Inr (ws ! i)" by auto
  have "pi_stride_bytes (pv_info (views ! i)) < 2 ^ 63" using assms(2) i by (simp add: frame_views_def)
  note output_plane_window_at [OF w this]
  then show "window_at (views ! i) (unat (output_plane_x stream sl i)) (unat (output_plane_y stream sl i)) (ws ! i)"
    and "pw_width (ws ! i) = output_slice_plane_width stream sl i"
    and "pw_height (ws ! i) = output_slice_plane_height stream sl i" .
qed

text \<open>
  C31: an output window that passed validation never leaves the caller's planes: every byte of every sample
  that the decoder can address through it lies between the data pointer and the end of the plane's last row.
\<close>

theorem output_window_within_plane:
  assumes "validate_output_window stream frame sl = Inr ws" and "frame_views frame views" and "i < length ws"
    and "pv_data (views ! i) = Some data"
    and "r < unat (pw_height (ws ! i))" and "c < unat (pw_width (ws ! i))" and "k < sample_bytes (pw_sample_format (ws ! i))"
  shows "data \<le> window_byte (ws ! i) r c k \<and> window_byte (ws ! i) r c k < data + plane_bytes (pv_info (views ! i))"
proof -
  note at = output_windows_at(3) [OF assms(1-3)]
  have inside: "unat (output_plane_x stream sl i) + c < unat (pi_width (pv_info (views ! i)))"
    "unat (output_plane_y stream sl i) + r < unat (pi_height (pv_info (views ! i)))"
    and fmt: "pw_sample_format (ws ! i) = pi_sample_format (pv_info (views ! i))"
    using at assms(5,6) by (auto simp: window_at_def)
  from sample_address_within [OF inside, of data] show ?thesis
    unfolding window_byte_def window_sample_address [OF at assms(4)] using assms(7)
    by (simp add: fmt sample_address_def)
qed

lemma grid_cells_apart:
  fixes x :: nat
  assumes "p < x' * e div n" and "x * e div n \<le> p'" and "x' \<le> x"
  shows "p < p'"
proof -
  have "x' * e div n \<le> x * e div n" using assms(3) by (intro div_le_mono mult_le_mono1)
  with assms(1,2) show ?thesis by linarith
qed

lemma grid_rectangles_apart:
  assumes "apply_raster stream values d = Inr sl" and "apply_raster stream values' d' = Inr sl'"
    and "sp_num_h_slices stream \<noteq> 0" and "sp_num_v_slices stream \<noteq> 0"
    and "unat (hv_x values) + unat (hv_width values) \<le> unat (hv_x values')
       \<or> unat (hv_x values') + unat (hv_width values') \<le> unat (hv_x values)
       \<or> unat (hv_y values) + unat (hv_height values) \<le> unat (hv_y values')
       \<or> unat (hv_y values') + unat (hv_height values') \<le> unat (hv_y values)"
    and "c < unat (output_slice_plane_width stream sl i)" and "r < unat (output_slice_plane_height stream sl i)"
    and "c' < unat (output_slice_plane_width stream sl' i)" and "r' < unat (output_slice_plane_height stream sl' i)"
  shows "(unat (output_plane_x stream sl i) + c, unat (output_plane_y stream sl i) + r) \<noteq>
    (unat (output_plane_x stream sl' i) + c', unat (output_plane_y stream sl' i) + r')"
proof -
  note a = placed_rectangle [OF assms(1,3,4), of i] and b = placed_rectangle [OF assms(2,3,4), of i]
  have ca: "unat (output_plane_x stream sl i) + c < (unat (hv_x values) + unat (hv_width values)) * unat (plane_width stream i) div unat (sp_num_h_slices stream)"
    "unat (output_plane_y stream sl i) + r < (unat (hv_y values) + unat (hv_height values)) * unat (plane_height stream i) div unat (sp_num_v_slices stream)"
    unfolding a(2,4) [symmetric] using assms(6,7) by simp_all
  have cb: "unat (output_plane_x stream sl' i) + c' < (unat (hv_x values') + unat (hv_width values')) * unat (plane_width stream i) div unat (sp_num_h_slices stream)"
    "unat (output_plane_y stream sl' i) + r' < (unat (hv_y values') + unat (hv_height values')) * unat (plane_height stream i) div unat (sp_num_v_slices stream)"
    unfolding b(2,4) [symmetric] using assms(8,9) by simp_all
  have la: "unat (hv_x values) * unat (plane_width stream i) div unat (sp_num_h_slices stream) \<le> unat (output_plane_x stream sl i) + c"
    "unat (hv_y values) * unat (plane_height stream i) div unat (sp_num_v_slices stream) \<le> unat (output_plane_y stream sl i) + r"
    unfolding a(1,3) [symmetric] by simp_all
  have lb: "unat (hv_x values') * unat (plane_width stream i) div unat (sp_num_h_slices stream) \<le> unat (output_plane_x stream sl' i) + c'"
    "unat (hv_y values') * unat (plane_height stream i) div unat (sp_num_v_slices stream) \<le> unat (output_plane_y stream sl' i) + r'"
    unfolding b(1,3) [symmetric] by simp_all
  from assms(5) show ?thesis
    using grid_cells_apart [OF ca(1) lb(1)] grid_cells_apart [OF cb(1) la(1)]
      grid_cells_apart [OF ca(2) lb(2)] grid_cells_apart [OF cb(2) la(2)] by auto
qed

text \<open>
  C32: slices whose grid rectangles do not overlap never write to the same byte of any plane, subsampled
  planes included, so that they can be decoded concurrently into one frame.
\<close>

theorem disjoint_slices_write_apart:
  assumes "apply_raster stream values d = Inr sl" and "apply_raster stream values' d' = Inr sl'"
    and "sp_num_h_slices stream \<noteq> 0" and "sp_num_v_slices stream \<noteq> 0"
    and "unat (hv_x values) + unat (hv_width values) \<le> unat (hv_x values')
       \<or> unat (hv_x values') + unat (hv_width values') \<le> unat (hv_x values)
       \<or> unat (hv_y values) + unat (hv_height values) \<le> unat (hv_y values')
       \<or> unat (hv_y values') + unat (hv_height values') \<le> unat (hv_y values)"
    and "validate_output_window stream frame sl = Inr ws" and "validate_output_window stream frame sl' = Inr ws'"
    and "frame_views frame views" and "i < coded_plane_count stream"
    and "r < unat (pw_height (ws ! i))" and "c < unat (pw_width (ws ! i))" and "k < sample_bytes (pw_sample_format (ws ! i))"
    and "r' < unat (pw_height (ws' ! i))" and "c' < unat (pw_width (ws' ! i))" and "k' < sample_bytes (pw_sample_format (ws' ! i))"
  shows "window_byte (ws ! i) r c k \<noteq> window_byte (ws' ! i) r' c' k'"
proof -
  have len: "length ws = coded_plane_count stream" "length ws' = coded_plane_count stream"
    using assms(6,7,8) plane_windows_nth
    by (auto simp: validate_output_window_def frame_views_def Let_def not_less split: if_splits)
  note a = output_windows_at [OF assms(6,8) assms(9) [folded len(1)]]
  note b = output_windows_at [OF assms(7,8) assms(9) [folded len(2)]]
  obtain data where data: "pv_data (views ! i) = Some data" using a(3) by (auto simp: window_at_def)
  have apart: "(unat (output_plane_x stream sl i) + c, unat (output_plane_y stream sl i) + r) \<noteq>
      (unat (output_plane_x stream sl' i) + c', unat (output_plane_y stream sl' i) + r')"
    using assms(10,11,13,14) a(4,5) b(4,5) by (intro grid_rectangles_apart [OF assms(1-5)]) simp_all
  have fmt: "pw_sample_format (ws ! i) = pi_sample_format (pv_info (views ! i))"
    "pw_sample_format (ws' ! i) = pi_sample_format (pv_info (views ! i))"
    and rows: "unat (pi_width (pv_info (views ! i))) * sample_bytes (pi_sample_format (pv_info (views ! i)))
      \<le> nat (pi_stride_bytes (pv_info (views ! i)))"
    and inside: "unat (output_plane_x stream sl i) + c < unat (pi_width (pv_info (views ! i)))"
      "unat (output_plane_x stream sl' i) + c' < unat (pi_width (pv_info (views ! i)))"
    using a(3) b(3) assms(11,14) by (auto simp: window_at_def)
  show ?thesis
    unfolding window_byte_def window_sample_address [OF a(3) data] window_sample_address [OF b(3) data]
    by (rule sample_address_disjoint [OF rows inside apart]) (use assms(12,15) fmt in simp_all)
qed

text \<open>A picture of four by two samples in two slices, to try the windows on.\<close>

definition picture_stream :: stream_parameters where
  "picture_stream = example_stream\<lparr>sp_width := 4, sp_height := 2, sp_num_h_slices := 2\<rparr>"

definition picture_plane :: "plane_role \<Rightarrow> plane_view" where
  "picture_plane role =
     \<lparr>pv_data = Some 3, pv_info = \<lparr>pi_role = role, pi_sample_format = UInt8, pi_width = 4, pi_height = 2,
        pi_stride_bytes = 5\<rparr>\<rparr>"

definition picture_frame :: frame_view where
  "picture_frame = \<lparr>fv_planes = Some (map picture_plane [RoleY, RoleCb, RoleCr]), fv_plane_count = 3\<rparr>"

definition picture_slice :: "u32 \<Rightarrow> slice_descriptor" where
  "picture_slice x = (case apply_raster picture_stream (example_header\<lparr>hv_x := x\<rparr>) new_slice_descriptor of
     Inl _ \<Rightarrow> new_slice_descriptor | Inr sl \<Rightarrow> sl)"

definition picture_window :: "nat \<Rightarrow> plane_window" where
  "picture_window address = \<lparr>pw_data = address, pw_stride_bytes = 5, pw_width = 2, pw_height = 2, pw_sample_format = UInt8\<rparr>"

lemmas picture_eval = picture_stream_def picture_plane_def picture_frame_def picture_slice_def picture_window_def
  example_stream_def example_header_def new_stream_parameters_def new_slice_descriptor_def

lemmas window_eval = validate_output_window_def output_plane_window_def output_plane_x_def output_plane_y_def
  output_slice_plane_width_def output_slice_plane_height_def checked_plane_row_bytes_def
  checked_plane_window_offset_def coded_plane_count_def is_chroma_plane_def expected_plane_role_def
  plane_width_def plane_height_def scaled_grid_position_def slice_pixel_x_def slice_pixel_y_def
  slice_pixel_width_def slice_pixel_height_def subsampled_extent_def bytes_per_sample_def maximum_offset_def
  apply_raster_def check_header_values_def validate_picture_structure_def Let_def to_int64_def

lemma picture_windows:
  "apply_raster picture_stream example_header new_slice_descriptor = Inr (picture_slice 0)"
  "apply_raster picture_stream (example_header\<lparr>hv_x := 1\<rparr>) new_slice_descriptor = Inr (picture_slice 1)"
  "validate_output_window picture_stream picture_frame (picture_slice 0) = Inr (replicate 3 (picture_window 3))"
  "validate_output_window picture_stream picture_frame (picture_slice 1) = Inr (replicate 3 (picture_window 5))"
  "frame_views picture_frame (map picture_plane [RoleY, RoleCb, RoleCr])"
  by (simp_all add: window_eval picture_eval numeral_3_eq_3 frame_views_def)

theorem output_window_within_plane_witness:
  "(3 :: nat) \<le> window_byte (picture_window 5) 1 1 0 \<and>
     window_byte (picture_window 5) 1 1 0 < 3 + plane_bytes (pv_info (picture_plane RoleCb))"
proof -
  have "data \<le> window_byte (replicate 3 (picture_window 5) ! 1) 1 1 0 \<and>
     window_byte (replicate 3 (picture_window 5) ! 1) 1 1 0 < data + plane_bytes (pv_info (map picture_plane [RoleY, RoleCb, RoleCr] ! 1))"
    if "data = 3" for data
    by (rule output_window_within_plane [OF picture_windows(4,5)])
      (simp_all add: that picture_plane_def picture_window_def sample_bytes_cases)
  from this [OF refl] show ?thesis by (simp add: nth_Cons')
qed

theorem disjoint_slices_write_apart_witness:
  "window_byte (picture_window 3) 1 1 0 \<noteq> window_byte (picture_window 5) 1 0 0"
proof -
  have "window_byte (replicate 3 (picture_window 3) ! 1) 1 1 0 \<noteq> window_byte (replicate 3 (picture_window 5) ! 1) 1 0 0"
    by (rule disjoint_slices_write_apart [OF picture_windows(1,2) _ _ _ picture_windows(3,4,5)])
      (simp_all add: picture_stream_def example_header_def picture_window_def sample_bytes_cases
        coded_plane_count_def example_stream_def new_stream_parameters_def)
  then show ?thesis by simp
qed

end
