(* ===== verification/Slice_State.thy ===== *)
theory Slice_State
  imports Golomb_Run Range_Roundtrip Context_Model Plane_Window Slice_Footer
begin

text \<open>
  The state a slice keeps between frames (\<^verbatim>\<open>src/src/codec/slice_state.hpp\<close>, implemented in
  \<^verbatim>\<open>slice_decoder.cpp\<close>): the lines of every plane, the adaptive Golomb-Rice states and the saved
  contexts of the range coder. An operation that fails leaves the C++ object partly changed; no caller
  goes on with it, and the model drops it.
\<close>

record slice_state =
  ss_line_states :: "line_state list"
  ss_golomb_rice_contexts :: "gr_context list list"
  ss_golomb_rice_run_states :: "gr_run_state list"
  ss_range_contexts :: context_state_banks

definition new_slice_state :: slice_state where
  "new_slice_state =
     \<lparr>ss_line_states = [], ss_golomb_rice_contexts = [], ss_golomb_rice_run_states = [], ss_range_contexts = []\<rparr>"

definition plane_border_value :: "stream_parameters \<Rightarrow> nat \<Rightarrow> int" where
  "plane_border_value stream plane_index =
     (if sp_entropy_mode stream = RangeMode \<and> sp_version stream \<le> 1 \<and> sp_colorspace_type stream = 0
         \<and> is_chroma_plane stream plane_index
         \<and> 0 < sp_bits_per_raw_sample stream \<and> sp_bits_per_raw_sample stream \<le> 8
      then 2 ^ (unat (sp_bits_per_raw_sample stream) - 1)
      else 0)"

subsection \<open>Lines\<close>

text \<open>The loop of the \<open>reset\<close> overloads: every line is reset to its width and border value.\<close>

fun reset_lines :: "(u32 \<times> int) list \<Rightarrow> line_state list result" where
  "reset_lines [] = Inr []"
| "reset_lines ((w, border) # planes) =
     bind_result (ls_reset w border) (\<lambda>line. bind_result (reset_lines planes) (\<lambda>lines. Inr (line # lines)))"

definition ss_reset_stream :: "stream_parameters \<Rightarrow> slice_state \<Rightarrow> slice_state result" where
  "ss_reset_stream stream state =
     bind_result (reset_lines (map (\<lambda>i. (plane_width stream i, plane_border_value stream i))
                                 [0..<coded_plane_count stream]))
       (\<lambda>lines. Inr (state\<lparr>ss_line_states := lines\<rparr>))"

text \<open>The overloads for an input and for an output window have the same bodies.\<close>

definition ss_reset_window :: "plane_window list \<Rightarrow> slice_state \<Rightarrow> slice_state result" where
  "ss_reset_window window state =
     bind_result (reset_lines (map (\<lambda>i. (window_plane_width window i, 0)) [0..<window_plane_count window]))
       (\<lambda>lines. Inr (state\<lparr>ss_line_states := lines\<rparr>))"

definition ss_reset_stream_window ::
  "stream_parameters \<Rightarrow> plane_window list \<Rightarrow> slice_state \<Rightarrow> slice_state result" where
  "ss_reset_stream_window stream window state =
     bind_result (reset_lines (map (\<lambda>i. (window_plane_width window i, plane_border_value stream i))
                                 [0..<window_plane_count window]))
       (\<lambda>lines. Inr (state\<lparr>ss_line_states := lines\<rparr>))"

definition ss_plane_count :: "slice_state \<Rightarrow> nat" where
  "ss_plane_count state = length (ss_line_states state)"

definition ss_line_state :: "slice_state \<Rightarrow> nat \<Rightarrow> line_state" where
  "ss_line_state state plane_index = ss_line_states state ! plane_index"

definition set_line_state :: "nat \<Rightarrow> line_state \<Rightarrow> slice_state \<Rightarrow> slice_state" where
  "set_line_state plane_index line state =
     state\<lparr>ss_line_states := (ss_line_states state)[plane_index := line]\<rparr>"

subsection \<open>Entropy coder states\<close>

definition capture_decoder_contexts :: "range_coder \<Rightarrow> slice_state \<Rightarrow> slice_state result" where
  "capture_decoder_contexts reader state =
     bind_result (rc_copy_contexts reader) (\<lambda>banks. Inr (state\<lparr>ss_range_contexts := banks\<rparr>))"

definition capture_encoder_contexts :: "range_encoder \<Rightarrow> slice_state \<Rightarrow> slice_state result" where
  "capture_encoder_contexts writer state =
     bind_result (re_copy_contexts writer) (\<lambda>banks. Inr (state\<lparr>ss_range_contexts := banks\<rparr>))"

definition clear_range_contexts :: "slice_state \<Rightarrow> slice_state" where
  "clear_range_contexts state = state\<lparr>ss_range_contexts := []\<rparr>"

definition clear_entropy_state :: "slice_state \<Rightarrow> slice_state" where
  "clear_entropy_state state =
     state\<lparr>ss_range_contexts := [], ss_golomb_rice_contexts := [], ss_golomb_rice_run_states := []\<rparr>"

definition has_range_contexts :: "slice_state \<Rightarrow> bool" where
  "has_range_contexts state \<longleftrightarrow> ss_range_contexts state \<noteq> []"

definition has_golomb_rice_state :: "slice_state \<Rightarrow> bool" where
  "has_golomb_rice_state state \<longleftrightarrow> ss_golomb_rice_contexts state \<noteq> []"

definition prepare_golomb_rice :: "nat list \<Rightarrow> nat \<Rightarrow> slice_state \<Rightarrow> slice_state result" where
  "prepare_golomb_rice context_counts run_state_count state =
     (if run_state_count \<noteq> length (ss_line_states state) then Inl (make_error InvalidArgument)
      else if list_ex (\<lambda>n. n = 0) context_counts then Inl (make_error InvalidState)
      else if ss_golomb_rice_contexts state = [] \<and> ss_golomb_rice_run_states state = []
      then Inr (state\<lparr>ss_golomb_rice_contexts := map (\<lambda>n. replicate n new_gr_context) context_counts,
                  ss_golomb_rice_run_states := replicate run_state_count new_gr_run_state\<rparr>)
      else if length (ss_golomb_rice_contexts state) \<noteq> length context_counts
        \<or> length (ss_golomb_rice_run_states state) \<noteq> run_state_count
      then Inl (make_error InvalidState)
      else if map length (ss_golomb_rice_contexts state) \<noteq> context_counts then Inl (make_error InvalidState)
      else Inr state)"

definition prepare_golomb_rice_planes :: "nat list \<Rightarrow> slice_state \<Rightarrow> slice_state result" where
  "prepare_golomb_rice_planes context_counts = prepare_golomb_rice context_counts (length context_counts)"

definition golomb_rice_context :: "slice_state \<Rightarrow> nat \<Rightarrow> nat \<Rightarrow> gr_context" where
  "golomb_rice_context state plane_index context = ss_golomb_rice_contexts state ! plane_index ! context"

definition set_golomb_rice_context :: "nat \<Rightarrow> nat \<Rightarrow> gr_context \<Rightarrow> slice_state \<Rightarrow> slice_state" where
  "set_golomb_rice_context plane_index context adaptive state =
     state\<lparr>ss_golomb_rice_contexts := (ss_golomb_rice_contexts state)
       [plane_index := (ss_golomb_rice_contexts state ! plane_index)[context := adaptive]]\<rparr>"

definition golomb_rice_run_state :: "slice_state \<Rightarrow> nat \<Rightarrow> gr_run_state" where
  "golomb_rice_run_state state plane_index = ss_golomb_rice_run_states state ! plane_index"

definition set_golomb_rice_run_state :: "nat \<Rightarrow> gr_run_state \<Rightarrow> slice_state \<Rightarrow> slice_state" where
  "set_golomb_rice_run_state plane_index run_state state =
     state\<lparr>ss_golomb_rice_run_states := (ss_golomb_rice_run_states state)[plane_index := run_state]\<rparr>"

subsection \<open>Lines of bounded samples\<close>

text \<open>The samples of a line stay in \<open>[0, bound)\<close>; so do the neighbours of every position.\<close>

definition line_within :: "int \<Rightarrow> nat \<Rightarrow> line_state \<Rightarrow> bool" where
  "line_within bound w line \<longleftrightarrow>
     length (ls_second_previous line) = w \<and> length (ls_previous line) = w \<and> length (ls_current line) = w \<and>
     0 \<le> ls_border_value line \<and> ls_border_value line < bound \<and>
     (\<forall>s \<in> set (ls_second_previous line) \<union> set (ls_previous line) \<union> set (ls_current line). 0 \<le> s \<and> s < bound)"

lemma line_within_reset:
  "ls_reset w border = Inr line \<Longrightarrow> 0 \<le> border \<Longrightarrow> border < bound \<Longrightarrow> line_within bound (unat w) line"
  by (auto simp: ls_reset_def line_within_def split: if_splits)

lemma line_within_swap: "line_within bound w line \<Longrightarrow> line_within bound w (ls_swap_lines line)"
  by (auto simp: line_within_def ls_swap_lines_def)

lemma line_within_update:
  assumes "line_within bound w line" and "0 \<le> s" and "s < bound"
  shows "line_within bound w (line\<lparr>ls_current := (ls_current line)[x := s]\<rparr>)"
  using assms set_update_subset_insert [of "ls_current line" x s] by (auto simp: line_within_def)

lemma line_within_neighbors:
  assumes "line_within bound w line" and "x < w"
  shows "0 \<le> ns_left (ls_neighbors line x)" "ns_left (ls_neighbors line x) < bound"
    and "0 \<le> ns_top (ls_neighbors line x)" "ns_top (ls_neighbors line x) < bound"
proof -
  have "0 \<le> ls_current line ! i \<and> ls_current line ! i < bound" "0 \<le> ls_previous line ! i \<and> ls_previous line ! i < bound"
    if "i < w" for i using assms(1) that by (auto simp: line_within_def)
  with assms(2) show "0 \<le> ns_left (ls_neighbors line x)" "ns_left (ls_neighbors line x) < bound"
    "0 \<le> ns_top (ls_neighbors line x)" "ns_top (ls_neighbors line x) < bound"
    by (simp_all add: ls_neighbors_def)
qed

end
