(* ===== verification/Range_Lines.thy ===== *)
theory Range_Lines
  imports Predictor Slice_State
begin

text \<open>
  The range-coded samples of a line: \<open>encode_sample\<close> of \<^verbatim>\<open>src/src/codec/slice_encoder.cpp\<close> and
  \<open>decode_range_line\<close> of \<^verbatim>\<open>slice_decoder.cpp\<close>. A loop that carries a state next to the coder is
  \<open>loop_result\<close>.

  A failed read keeps no reader, so the byte position a diagnostic records for it is the one before the read;
  the code can report a later one. Nothing branches on the locations.
\<close>

fun loop_result :: "('x \<Rightarrow> 's \<Rightarrow> 'c \<Rightarrow> ('s \<times> 'c) result) \<Rightarrow> 'x list \<Rightarrow> 's \<Rightarrow> 'c \<Rightarrow> ('s \<times> 'c) result" where
  "loop_result f [] s c = Inr (s, c)"
| "loop_result f (x # xs) s c = bind_result (f x s c) (\<lambda>(s, c). loop_result f xs s c)"

lemma loop_result_append:
  "loop_result f (xs @ ys) s c = bind_result (loop_result f xs s c) (\<lambda>(s, c). loop_result f ys s c)"
proof (induction xs arbitrary: s c)
  case Nil
  then show ?case by simp
next
  case (Cons x xs)
  then show ?case by (cases "f x s c") auto
qed

text \<open>\<open>add_byte_offset\<close> relative to the slice contents, for a status from a reader.\<close>

definition set_reader_byte_offset :: "u64 \<Rightarrow> u64 \<Rightarrow> status \<Rightarrow> status" where
  "set_reader_byte_offset content_offset reader_offset s =
     (if has_byte_offset (st_location s)
      then s\<lparr>st_location := (st_location s)\<lparr>loc_byte_offset := loc_byte_offset (st_location s) + content_offset\<rparr>\<rparr>
      else set_byte_location_if_missing (content_offset + reader_offset) s)"

definition predict_sample :: "bool \<Rightarrow> neighbor_samples \<Rightarrow> int" where
  "predict_sample signed_16bit_prediction neighbors =
     (if signed_16bit_prediction
      then median_predict_signed_16bit (ns_left neighbors) (ns_top neighbors) (ns_top_left neighbors)
      else median_predict (ns_left neighbors) (ns_top neighbors) (ns_top_left neighbors))"

definition set_current :: "nat \<Rightarrow> int \<Rightarrow> line_state \<Rightarrow> line_state" where
  "set_current x sample line = line\<lparr>ls_current := (ls_current line)[x := sample]\<rparr>"

subsection \<open>Encoding\<close>

definition encode_sample ::
  "quant_table_set \<Rightarrow> nat \<Rightarrow> int \<Rightarrow> u8 \<Rightarrow> bool \<Rightarrow> nat \<Rightarrow> line_state \<Rightarrow> range_encoder \<Rightarrow> (line_state \<times> range_encoder) result" where
  "encode_sample table_set context_bank sample reconstruction_bits signed_16bit_prediction x line writer =
     (let neighbors = ls_neighbors line x;
          prediction = predict_sample signed_16bit_prediction neighbors
      in bind_result (derive_context table_set neighbors) (\<lambda>context.
           let difference = sample_difference sample prediction reconstruction_bits;
               difference = (if cd_invert_difference context then - difference else difference)
           in bind_result (re_write_signed context_bank (unat (cd_context context)) difference writer) (\<lambda>writer.
                Inr (set_current x sample line, writer))))"

subsection \<open>Decoding\<close>

text \<open>
  The byte position of the range coder after a scalar that failed. Indexes out of range consume nothing; the only other
  failure is an exponent of more than 62, after the zero flag and 63 decisions of the exponent.
\<close>

fun rc_after_decisions :: "nat list \<Rightarrow> scalar_context_states \<Rightarrow> range_coder \<Rightarrow> range_coder" where
  "rc_after_decisions [] states reader = reader"
| "rc_after_decisions (i # indexes) states reader =
     (case read_rac_at i states reader of
        Inl _ \<Rightarrow> reader
      | Inr (decision, states, reader) \<Rightarrow> rc_after_decisions indexes states reader)"

definition rc_failed_position :: "nat \<Rightarrow> nat \<Rightarrow> range_coder \<Rightarrow> u64" where
  "rc_failed_position context_bank context reader =
     word_of_nat (rc_byte_position
       (if length (bank_sizes (rc_contexts reader)) \<le> context_bank
           \<or> bank_sizes (rc_contexts reader) ! context_bank \<le> context then reader
        else
          rc_after_decisions (0 # map (\<lambda>exponent. 1 + min exponent 9) [0..<63])
            (context_states context_bank context (rc_contexts reader)) reader))"

definition decode_range_sample ::
  "u64 \<Rightarrow> quant_table_set \<Rightarrow> nat \<Rightarrow> u8 \<Rightarrow> bool \<Rightarrow> nat \<Rightarrow> line_state \<Rightarrow> range_coder \<Rightarrow> (line_state \<times> range_coder) result" where
  "decode_range_sample reader_base_offset table_set context_bank reconstruction_bits signed_16bit_prediction x line reader =
     (let neighbors = ls_neighbors line x;
          prediction = predict_sample signed_16bit_prediction neighbors
      in bind_result (derive_context table_set neighbors) (\<lambda>context.
         bind_result
           (map_error (set_reader_byte_offset reader_base_offset (rc_failed_position context_bank (unat (cd_context context)) reader))
             (rc_read_signed context_bank (unat (cd_context context)) reader)) (\<lambda>(difference64, reader).
           let difference64 = (if cd_invert_difference context then - difference64 else difference64) in
           if difference64 < - (2 ^ 31) \<or> 2 ^ 31 - 1 < difference64 then Inl (make_error SyntaxError)
           else Inr (set_current x (reconstruct prediction difference64 reconstruction_bits) line, reader))))"

definition decode_range_line ::
  "u64 \<Rightarrow> quant_table_set \<Rightarrow> nat \<Rightarrow> u32 \<Rightarrow> u8 \<Rightarrow> bool \<Rightarrow> line_state \<Rightarrow> range_coder \<Rightarrow> (line_state \<times> range_coder) result" where
  "decode_range_line reader_base_offset table_set context_bank w reconstruction_bits signed_16bit_prediction line reader =
     loop_result (decode_range_sample reader_base_offset table_set context_bank reconstruction_bits signed_16bit_prediction)
       [0..<unat w] line reader"

subsection \<open>Round trip\<close>

lemma predict_sample_range:
  assumes "0 \<le> ns_left n" "ns_left n < bound" "0 \<le> ns_top n" "ns_top n < bound" and "bound \<le> 2 ^ 17"
    and "signed16 \<longrightarrow> bound \<le> 65536"
  shows "- 32768 \<le> predict_sample signed16 n" and "predict_sample signed16 n < 2 ^ 17"
proof -
  have "- 32768 \<le> predict_sample signed16 n \<and> predict_sample signed16 n < 2 ^ 17"
  proof (cases signed16)
    case True
    with assms median_predict_signed_16bit_range [of "ns_left n" "ns_top n" "ns_top_left n"] show ?thesis
      by (simp add: predict_sample_def)
  next
    case False
    with assms median_predict_between [of "ns_left n" "ns_top n" "ns_top_left n"] show ?thesis
      by (auto simp: predict_sample_def)
  qed
  then show "- 32768 \<le> predict_sample signed16 n" and "predict_sample signed16 n < 2 ^ 17" by simp_all
qed

lemma sample_difference_bound:
  assumes "bits \<noteq> 0" and "unat bits \<le> 17"
  shows "\<bar>sample_difference s p bits\<bar> \<le> 2 ^ 16"
proof -
  have b: "bits < 31" using assms(2) by (simp add: word_less_nat_alt)
  have "(2 :: int) ^ (unat bits - 1) \<le> 2 ^ 16" using assms(2) by (intro power_increasing) simp_all
  with wrap_sample_difference_range [OF assms(1) b, of "to_int32 (s - p)"] assms(1) b show ?thesis
    by (simp add: sample_difference_def Let_def flip: not_less)
qed

lemma encode_sample_matched:
  assumes run: "encode_sample table_set bank sample bits signed16 x line e = Inr (line', e')"
    and inv: "enc_inv e" and line: "line_within (2 ^ n) w line" and x: "x < w"
    and bits: "unat bits = n" "0 < n" "n \<le> 17" "signed16 \<longrightarrow> n \<le> 16" and sample: "0 \<le> sample" "sample < 2 ^ n"
  shows "matched (range_link bs) e e' (decode_range_sample base table_set bank bits signed16 x line) line'"
    and "line' = set_current x sample line" and "line_within (2 ^ n) w line'"
proof -
  let ?n = "ls_neighbors line x"
  let ?p = "predict_sample signed16 ?n"
  let ?d = "sample_difference sample ?p bits"
  from run obtain c where c: "derive_context table_set ?n = Inr c"
    and w: "re_write_signed bank (unat (cd_context c)) (if cd_invert_difference c then - ?d else ?d) e = Inr e'"
    and line': "line' = set_current x sample line"
    by (auto simp: encode_sample_def Let_def)
  show "line' = set_current x sample line" by (rule line')
  show "line_within (2 ^ n) w line'"
    using line_within_update [OF line sample] by (simp add: line' set_current_def)
  have small: "(2 :: int) ^ n \<le> 2 ^ 17" using bits(3) by (intro power_increasing) simp_all
  have small16: "signed16 \<longrightarrow> (2 :: int) ^ n \<le> 65536"
    using power_increasing [of n 16 "2 :: int"] bits(4) by simp
  have nz: "bits \<noteq> 0" "bits < 31" using bits by (auto simp: word_less_nat_alt)
  note p = predict_sample_range [OF line_within_neighbors [OF line x] small small16]
  have d: "\<bar>?d\<bar> \<le> 2 ^ 16" using nz(1) bits by (intro sample_difference_bound) simp_all
  have "- (2 ^ 31) \<le> sample - ?p" "sample - ?p < 2 ^ 31" using p sample small by simp_all
  then have "in_int32 (sample - ?p)" by (simp add: in_int32_def)
  from reconstruct_wrapped [OF nz _ _ this, of ?d] sample have rec: "reconstruct ?p ?d bits = sample"
    by (simp add: bits(1))
  let ?v = "if cd_invert_difference c then - ?d else ?d"
  have v: "in_int64 ?v" "(if cd_invert_difference c then - ?v else ?v) = ?d" using d by (simp_all add: in_int64_def abs_le_iff)
  have range: "\<not> (?d < - (2 ^ 31) \<or> 2 ^ 31 - 1 < ?d)" using d by (simp add: abs_le_iff)
  show "matched (range_link bs) e e' (decode_range_sample base table_set bank bits signed16 x line) line'"
  proof (rule matched_cong [OF re_write_signed_matched [OF inv v(1) w]])
    fix r r' assume "rc_read_signed bank (unat (cd_context c)) r = Inr (?v, r')"
    then show "decode_range_sample base table_set bank bits signed16 x line r = Inr (line', r')"
      using range by (simp only: decode_range_sample_def Let_def c bind_result_Inr map_error_Inr prod.case v(2) if_False rec line')
  qed
qed

text \<open>A line: \<open>samples\<close> lists what the encoder codes, from the left.\<close>

definition encode_samples_at ::
  "quant_table_set \<Rightarrow> nat \<Rightarrow> (nat \<Rightarrow> int) \<Rightarrow> u8 \<Rightarrow> bool \<Rightarrow> nat \<Rightarrow> line_state \<Rightarrow> range_encoder \<Rightarrow> (line_state \<times> range_encoder) result" where
  "encode_samples_at table_set bank samples bits signed16 x = encode_sample table_set bank (samples x) bits signed16 x"

lemma encode_line_matched:
  assumes "loop_result (encode_samples_at table_set bank samples bits signed16) xs line e = Inr (line', e')"
    and "enc_inv e" and "line_within (2 ^ n) w line" and "\<forall>x \<in> set xs. x < w"
    and "unat bits = n" "0 < n" "n \<le> 17" "signed16 \<longrightarrow> n \<le> 16" and "\<forall>x \<in> set xs. 0 \<le> samples x \<and> samples x < 2 ^ n"
  shows "matched (range_link bs) e e'
      (loop_result (decode_range_sample base table_set bank bits signed16) xs line) line'"
    and "line' = line\<lparr>ls_current := fold (\<lambda>x ss. ss[x := samples x]) xs (ls_current line)\<rparr>"
    and "line_within (2 ^ n) w line'"
  using assms(1-4,9)
proof (induction xs arbitrary: line e)
  case Nil
  {
    case 1
    then show ?case by (simp add: matched_refl)
  next
    case 2
    then show ?case by simp
  next
    case 3
    then show ?case by simp
  }
next
  case (Cons x xs)
  have step: "matched (range_link bs) e e' (loop_result (decode_range_sample base table_set bank bits signed16) (x # xs) line) line'
      \<and> line' = line\<lparr>ls_current := fold (\<lambda>x ss. ss[x := samples x]) (x # xs) (ls_current line)\<rparr> \<and> line_within (2 ^ n) w line'"
    if run: "loop_result (encode_samples_at table_set bank samples bits signed16) (x # xs) line e = Inr (line', e')"
      and inv: "enc_inv e" and line: "line_within (2 ^ n) w line" and xs: "\<forall>x \<in> set (x # xs). x < w"
      and samples: "\<forall>x \<in> set (x # xs). 0 \<le> samples x \<and> samples x < 2 ^ n" for line e
  proof -
    from run obtain line1 e1 where
      w1: "encode_sample table_set bank (samples x) bits signed16 x line e = Inr (line1, e1)" and
      w2: "loop_result (encode_samples_at table_set bank samples bits signed16) xs line1 e1 = Inr (line', e')"
      by (auto simp: encode_samples_at_def)
    have xw: "x < w" "0 \<le> samples x" "samples x < 2 ^ n" using xs samples by simp_all
    note m = encode_sample_matched [OF w1 inv line xw(1) assms(5-8) xw(2,3)]
    have rest: "\<forall>x \<in> set xs. x < w" "\<forall>x \<in> set xs. 0 \<le> samples x \<and> samples x < 2 ^ n" using xs samples by simp_all
    have inv1: "enc_inv e1" using matched_winv [OF m(1) [of bs]] by simp
    note IH = Cons.IH [OF w2 inv1 m(3) rest]
    have "matched (range_link bs) e e' (loop_result (decode_range_sample base table_set bank bits signed16) (x # xs) line) line'"
      unfolding loop_result.simps by (rule matched_bindI [OF m(1)], simp only: prod.case, rule IH(1))
    moreover have "line' = line\<lparr>ls_current := fold (\<lambda>x ss. ss[x := samples x]) (x # xs) (ls_current line)\<rparr>"
      unfolding IH(2) m(2) by (simp add: set_current_def)
    ultimately show ?thesis using IH(3) by blast
  qed
  {
    case 1
    then show ?case using step by blast
  next
    case 2
    then show ?case using step by blast
  next
    case 3
    then show ?case using step by blast
  }
qed

lemma fold_update_upt:
  "n \<le> length ss \<Longrightarrow> fold (\<lambda>x ss. ss[x := f x]) [0..<n] ss = map f [0..<n] @ drop n ss"
proof (induction n)
  case (Suc n)
  then have "drop n ss = ss ! n # drop (Suc n) ss" by (simp add: Cons_nth_drop_Suc)
  with Suc show ?case by (simp add: list_update_append)
qed simp

lemma encode_full_line_matched:
  assumes "loop_result (encode_samples_at table_set bank samples bits signed16) [0..<unat w] line e = Inr (line', e')"
    and "enc_inv e" and "line_within (2 ^ n) (unat w) line"
    and "unat bits = n" "0 < n" "n \<le> 17" "signed16 \<longrightarrow> n \<le> 16" and "\<forall>x < unat w. 0 \<le> samples x \<and> samples x < 2 ^ n"
  shows "matched (range_link bs) e e' (decode_range_line base table_set bank w bits signed16 line) line'"
    and "ls_current line' = map samples [0..<unat w]" and "line_within (2 ^ n) (unat w) line'"
proof -
  note m = encode_line_matched [OF assms(1-3) _ assms(4-7)]
  have ok: "\<forall>x \<in> set [0..<unat w]. x < unat w" "\<forall>x \<in> set [0..<unat w]. 0 \<le> samples x \<and> samples x < 2 ^ n"
    using assms(8) by simp_all
  show "matched (range_link bs) e e' (decode_range_line base table_set bank w bits signed16 line) line'"
    using m(1) [OF ok] by (simp add: decode_range_line_def [abs_def])
  have "length (ls_current line) = unat w" using assms(3) by (simp add: line_within_def)
  then show "ls_current line' = map samples [0..<unat w]"
    using m(2) [OF ok] by (simp add: fold_update_upt)
  show "line_within (2 ^ n) (unat w) line'" using m(3) [OF ok] by simp
qed

end
