(* ===== verification/Golomb_Lines.thy ===== *)
theory Golomb_Lines
  imports Golomb_Run Range_Lines
begin

text \<open>
  The Golomb-Rice coded samples of a line: \<open>encode_line\<close> in
  \<open>SliceEncoder::encode_golomb_rice_samples\<close> of \<^verbatim>\<open>src/src/codec/slice_encoder.cpp\<close> and
  \<open>decode_golomb_rice_line\<close> of \<^verbatim>\<open>slice_decoder.cpp\<close>. Both work on a line, the adaptive contexts of one bank
  and a run state; the code reaches them through references into the slice state. The observer of the
  decoder only looks at copies and is left out.
\<close>

type_synonym gr_line = "line_state \<times> gr_context list \<times> gr_run_state"

text \<open>The prediction at a position from the samples before it.\<close>

definition median_at :: "line_state \<Rightarrow> nat \<Rightarrow> int" where
  "median_at line x =
     (let neighbors = ls_neighbors line x
      in median_predict (ns_left neighbors) (ns_top neighbors) (ns_top_left neighbors))"

subsection \<open>Encoding\<close>

text \<open>The inner loop of a run: the samples that equal their predictions.\<close>

function scan_run :: "int list \<Rightarrow> nat \<Rightarrow> nat \<Rightarrow> line_state \<Rightarrow> nat \<times> line_state" where
  "scan_run samples w x line =
     (if x < w \<and> samples ! x = median_at line x
      then scan_run samples w (x + 1) (set_current x (samples ! x) line)
      else (x, line))"
  by pat_completeness auto
termination
  by (relation "measure (\<lambda>(samples, w, x, line). w - x)") auto

declare scan_run.simps [simp del]

text \<open>One iteration of the loop over the line.\<close>

definition encode_golomb_rice_symbol ::
  "bool \<Rightarrow> quant_table_set \<Rightarrow> int list \<Rightarrow> u8 \<Rightarrow> nat \<Rightarrow> gr_line \<Rightarrow> context_decision \<Rightarrow> bit_writer \<Rightarrow>
     ((nat \<times> gr_line) \<times> bit_writer) result" where
  "encode_golomb_rice_symbol run_interruption table_set samples reconstruction_bits x =
     (\<lambda>(line, contexts, run_state) context writer.
       let difference = sample_difference (samples ! x) (median_at line x) reconstruction_bits;
           difference = (if cd_invert_difference context then - difference else difference);
           adaptive = contexts ! unat (cd_context context)
       in bind_result
            (if run_interruption then write_golomb_rice_run_interruption reconstruction_bits difference writer adaptive
             else write_golomb_rice_symbol reconstruction_bits difference writer adaptive) (\<lambda>(writer, adaptive).
            Inr ((x + 1, set_current x (samples ! x) line, contexts[unat (cd_context context) := adaptive], run_state), writer)))"

definition encode_golomb_rice_step ::
  "quant_table_set \<Rightarrow> int list \<Rightarrow> u8 \<Rightarrow> nat \<Rightarrow> gr_line \<Rightarrow> bit_writer \<Rightarrow> ((nat \<times> gr_line) \<times> bit_writer) result" where
  "encode_golomb_rice_step table_set samples reconstruction_bits run_start = (\<lambda>(line, contexts, run_state) writer.
     bind_result (derive_context table_set (ls_neighbors line run_start)) (\<lambda>context.
       if cd_context context = 0 then
         let (x, line) = scan_run samples (length samples) run_start line in
         bind_result (write_golomb_rice_run writer run_state run_start (length samples) (x - run_start)) (\<lambda>(writer, run_state).
           if x = length samples then Inr ((x, line, contexts, run_state), writer)
           else
             bind_result (derive_context table_set (ls_neighbors line x)) (\<lambda>interruption_context.
               encode_golomb_rice_symbol True table_set samples reconstruction_bits x (line, contexts, run_state)
                 interruption_context writer))
       else
         encode_golomb_rice_symbol False table_set samples reconstruction_bits run_start (line, contexts, run_state)
           context writer))"

lemma scan_run_progress: "scan_run samples w x line = (x', line') \<Longrightarrow> x \<le> x' \<and> (x \<le> w \<longrightarrow> x' \<le> w)"
proof (induction samples w x line rule: scan_run.induct)
  case (1 samples w x line)
  then show ?case by (auto simp: scan_run.simps [of samples w x line] split: if_splits)
qed

lemma encode_golomb_rice_step_progress:
  assumes "encode_golomb_rice_step table_set samples bits x st writer = Inr ((x', st'), writer')" and "x < length samples"
  shows "x < x' \<and> x' \<le> length samples"
proof -
  obtain line contexts run where st: "st = (line, contexts, run)" by (cases st)
  obtain x1 line1 where scan: "scan_run samples (length samples) x line = (x1, line1)" by fastforce
  with scan_run_progress [OF this] assms show ?thesis
    by (auto simp: encode_golomb_rice_step_def encode_golomb_rice_symbol_def st Let_def bind_result_eq_Inr split: if_splits)
qed

function encode_golomb_rice_from ::
  "quant_table_set \<Rightarrow> int list \<Rightarrow> u8 \<Rightarrow> nat \<Rightarrow> gr_line \<Rightarrow> bit_writer \<Rightarrow> (gr_line \<times> bit_writer) result" where
  "encode_golomb_rice_from table_set samples reconstruction_bits x st writer =
     (if x < length samples then
        bind_result (encode_golomb_rice_step table_set samples reconstruction_bits x st writer) (\<lambda>((x, st), writer).
          encode_golomb_rice_from table_set samples reconstruction_bits x st writer)
      else Inr (st, writer))"
  by pat_completeness auto
termination
  by (relation "measure (\<lambda>(table_set, samples, bits, x, st, writer). length samples - x)")
    (auto dest: encode_golomb_rice_step_progress)

declare encode_golomb_rice_from.simps [simp del]

definition encode_golomb_rice_line ::
  "quant_table_set \<Rightarrow> int list \<Rightarrow> u8 \<Rightarrow> gr_line \<Rightarrow> bit_writer \<Rightarrow> (gr_line \<times> bit_writer) result" where
  "encode_golomb_rice_line table_set samples reconstruction_bits st writer =
     bind_result (encode_golomb_rice_from table_set samples reconstruction_bits 0 st writer)
       (\<lambda>((line, contexts, run_state), writer). Inr ((ls_swap_lines line, contexts, run_state), writer))"

subsection \<open>Decoding\<close>

text \<open>A run of predictions.\<close>

definition fill_run :: "nat \<Rightarrow> nat \<Rightarrow> line_state \<Rightarrow> line_state" where
  "fill_run x run_end line = fold (\<lambda>x line. set_current x (median_at line x) line) [x..<run_end] line"

text \<open>The loop for a pending run derives the context of every position, and can fail.\<close>

definition fill_pending_run :: "quant_table_set \<Rightarrow> nat \<Rightarrow> nat \<Rightarrow> line_state \<Rightarrow> line_state result" where
  "fill_pending_run table_set x run_end line =
     fold_result (\<lambda>x line. bind_result (derive_context table_set (ls_neighbors line x)) (\<lambda>run_context.
       Inr (set_current x (median_at line x) line))) [x..<run_end] line"

text \<open>The byte position of the bit reader after a run segment that failed: past the prefix bit where one was there to read.\<close>

definition run_segment_failed_position :: "nat \<Rightarrow> nat \<Rightarrow> gr_run_state \<Rightarrow> bit_reader \<Rightarrow> u64" where
  "run_segment_failed_position w x run_state reader =
     br_byte_position
       (if length kLog2Run \<le> run_index run_state \<or> w < x then reader
        else case read_bit reader of Inl _ \<Rightarrow> reader | Inr (prefix, reader) \<Rightarrow> reader)"

definition read_run_segment ::
  "u64 \<Rightarrow> nat \<Rightarrow> nat \<Rightarrow> gr_run_state \<Rightarrow> bit_reader \<Rightarrow> (gr_run_segment \<times> bit_reader \<times> gr_run_state) result" where
  "read_run_segment payload_offset w x run_state reader =
     map_error (set_reader_byte_offset payload_offset (run_segment_failed_position w x run_state reader))
       (read_golomb_rice_run_segment reader run_state x w)"

lemma read_run_segment_progress:
  assumes "read_run_segment payload_offset w x run_state reader = Inr (segment, r', st')" and "x < w"
    and "\<not> seg_interrupted segment"
  shows "0 < seg_count segment"
  using assms read_golomb_rice_run_segment_progress by (auto simp: read_run_segment_def)

function decode_golomb_rice_run ::
  "u64 \<Rightarrow> nat \<Rightarrow> nat \<Rightarrow> line_state \<Rightarrow> gr_run_state \<Rightarrow> bit_reader \<Rightarrow> ((nat \<times> bool \<times> line_state \<times> gr_run_state) \<times> bit_reader) result" where
  "decode_golomb_rice_run payload_offset w x line run_state reader =
     (if x < w then
        bind_result (read_run_segment payload_offset w x run_state reader) (\<lambda>(segment, reader, run_state).
          let run_end = min w (x + seg_count segment);
              line = fill_run x run_end line
          in if seg_interrupted segment then Inr ((run_end, True, line, run_state), reader)
             else decode_golomb_rice_run payload_offset w run_end line run_state reader)
      else Inr ((x, False, line, run_state), reader))"
  by pat_completeness auto
termination
  by (relation "measure (\<lambda>(payload_offset, w, x, line, run_state, reader). w - x)")
    (auto dest: read_run_segment_progress)

declare decode_golomb_rice_run.simps [simp del]

definition decode_golomb_rice_symbol ::
  "bool \<Rightarrow> u64 \<Rightarrow> u8 \<Rightarrow> nat \<Rightarrow> gr_line \<Rightarrow> context_decision \<Rightarrow> bit_reader \<Rightarrow> ((nat \<times> gr_line) \<times> bit_reader) result" where
  "decode_golomb_rice_symbol run_interruption payload_offset reconstruction_bits x =
     (\<lambda>(line, contexts, run_state) context reader.
       let adaptive = contexts ! unat (cd_context context) in
       bind_result
         (map_error (set_reader_byte_offset payload_offset (br_byte_position reader))
           (if run_interruption then read_golomb_rice_run_interruption reconstruction_bits reader adaptive
            else read_golomb_rice_symbol reconstruction_bits reader adaptive)) (\<lambda>(difference, reader, adaptive).
         let difference = (if cd_invert_difference context then - difference else difference);
             reconstructed = reconstruct (median_at line x) difference reconstruction_bits
         in Inr ((x + 1, set_current x reconstructed line, contexts[unat (cd_context context) := adaptive], run_state), reader)))"

definition decode_golomb_rice_step ::
  "u64 \<Rightarrow> quant_table_set \<Rightarrow> nat \<Rightarrow> u8 \<Rightarrow> nat \<Rightarrow> gr_line \<Rightarrow> bit_reader \<Rightarrow> ((nat \<times> gr_line) \<times> bit_reader) result" where
  "decode_golomb_rice_step payload_offset table_set w reconstruction_bits x = (\<lambda>(line, contexts, run_state) reader.
     if pending_count run_state \<noteq> 0 then
       bind_result (read_run_segment payload_offset w x run_state reader) (\<lambda>(segment, reader, run_state).
         let run_end = min w (x + seg_count segment) in
         bind_result (fill_pending_run table_set x run_end line) (\<lambda>line.
           Inr ((run_end, line, contexts, run_state), reader)))
     else
       bind_result (derive_context table_set (ls_neighbors line x)) (\<lambda>context.
         if cd_context context = 0 then
           bind_result (decode_golomb_rice_run payload_offset w x line run_state reader)
             (\<lambda>((x, interrupted, line, run_state), reader).
               if \<not> interrupted \<or> x = w then Inr ((x, line, contexts, run_state), reader)
               else
                 bind_result (derive_context table_set (ls_neighbors line x)) (\<lambda>interruption_context.
                   decode_golomb_rice_symbol True payload_offset reconstruction_bits x (line, contexts, run_state)
                     interruption_context reader))
         else
           decode_golomb_rice_symbol False payload_offset reconstruction_bits x (line, contexts, run_state) context reader))"

lemma decode_golomb_rice_run_progress:
  assumes "decode_golomb_rice_run payload_offset w x line run_state reader = Inr ((x', interrupted, line', run'), r')" and "x \<le> w"
  shows "x \<le> x' \<and> x' \<le> w \<and> (\<not> interrupted \<longrightarrow> x' = w)"
  using assms
proof (induction payload_offset w x line run_state reader rule: decode_golomb_rice_run.induct)
  case (1 payload_offset w x line run_state reader)
  show ?case
  proof (cases "x < w")
    case False
    with "1.prems" show ?thesis by (simp add: decode_golomb_rice_run.simps [of payload_offset w x])
  next
    case True
    with "1.prems"(1) obtain segment r1 run1 where
      segment: "read_run_segment payload_offset w x run_state reader = Inr (segment, r1, run1)" and
      rest: "(let run_end = min w (x + seg_count segment); line = fill_run x run_end line in
        if seg_interrupted segment then Inr ((run_end, True, line, run1), r1)
        else decode_golomb_rice_run payload_offset w run_end line run1 r1) = Inr ((x', interrupted, line', run'), r')"
      by (auto simp: decode_golomb_rice_run.simps [of payload_offset w x] bind_result_eq_Inr)
    show ?thesis
    proof (cases "seg_interrupted segment")
      case interrupted: True
      with rest True show ?thesis by (auto simp: Let_def)
    next
      case False
      with rest have "decode_golomb_rice_run payload_offset w (min w (x + seg_count segment))
          (fill_run x (min w (x + seg_count segment)) line) run1 r1 = Inr ((x', interrupted, line', run'), r')"
        by (simp add: Let_def)
      from "1.IH" [OF True segment refl refl refl refl False this] show ?thesis using True by (auto simp: min_le_iff_disj)
    qed
  qed
qed

lemma decode_golomb_rice_step_progress:
  assumes "decode_golomb_rice_step payload_offset table_set w bits x st reader = Inr ((x', st'), reader')" and "x < w"
  shows "x < x'"
proof -
  obtain line contexts run where st: "st = (line, contexts, run)" by (cases st)
  show ?thesis
  proof (cases "pending_count run = 0")
    case False
    with assms show ?thesis
      by (auto simp: decode_golomb_rice_step_def st Let_def bind_result_eq_Inr read_run_segment_def
          read_golomb_rice_run_segment_def split: if_splits)
  next
    case True
    with assms show ?thesis
      by (auto simp: decode_golomb_rice_step_def decode_golomb_rice_symbol_def st Let_def bind_result_eq_Inr
          split: if_splits dest!: decode_golomb_rice_run_progress)
  qed
qed

function decode_golomb_rice_from ::
  "u64 \<Rightarrow> quant_table_set \<Rightarrow> nat \<Rightarrow> u8 \<Rightarrow> nat \<Rightarrow> gr_line \<Rightarrow> bit_reader \<Rightarrow> (gr_line \<times> bit_reader) result" where
  "decode_golomb_rice_from payload_offset table_set w reconstruction_bits x st reader =
     (if x < w then
        bind_result (decode_golomb_rice_step payload_offset table_set w reconstruction_bits x st reader) (\<lambda>((x, st), reader).
          decode_golomb_rice_from payload_offset table_set w reconstruction_bits x st reader)
      else Inr (st, reader))"
  by pat_completeness auto
termination
  by (relation "measure (\<lambda>(payload_offset, table_set, w, bits, x, st, reader). w - x)")
    (auto dest: decode_golomb_rice_step_progress)

declare decode_golomb_rice_from.simps [simp del]

definition decode_golomb_rice_line ::
  "u64 \<Rightarrow> quant_table_set \<Rightarrow> nat \<Rightarrow> u8 \<Rightarrow> gr_line \<Rightarrow> bit_reader \<Rightarrow> (gr_line \<times> bit_reader) result" where
  "decode_golomb_rice_line payload_offset table_set w reconstruction_bits =
     decode_golomb_rice_from payload_offset table_set w reconstruction_bits 0"

end
