(* ===== verification/Golomb_Roundtrip.thy ===== *)
theory Golomb_Roundtrip
  imports Golomb_Lines
begin

text \<open>
  A line that the Golomb-Rice encoder writes is read back by the decoder: the two are linked by the bits
  written so far, and the steps of \<open>Golomb_Lines\<close> correspond one to one.
\<close>

subsection \<open>The link of a bit writer and a bit reader\<close>

text \<open>\<open>code\<close> are the bits of the whole content.\<close>

definition bit_link :: "bool list \<Rightarrow> (bit_writer, bit_reader) link" where
  "bit_link code =
     \<lparr>winv = writer_ok, reaches = (\<lambda>w. \<exists>rest. code = written w @ rest),
      synced = (\<lambda>w r. reader_ok r \<and> code = written w @ unread r)\<rparr>"

lemma bit_link_sel [simp]:
  "winv (bit_link code) = writer_ok"
  "reaches (bit_link code) w \<longleftrightarrow> (\<exists>rest. code = written w @ rest)"
  "synced (bit_link code) w r \<longleftrightarrow> reader_ok r \<and> code = written w @ unread r"
  by (simp_all add: bit_link_def)

lemma bit_matchedI:
  assumes "writer_ok w'" and "written w' = written w @ c"
    and "\<And>r rest. reader_ok r \<Longrightarrow> unread r = c @ rest \<Longrightarrow> \<exists>r'. rd r = Inr (v, r') \<and> reader_ok r' \<and> unread r' = rest"
  shows "matched (bit_link code) w w' rd v"
  unfolding matched_def
proof (intro conjI allI impI)
  fix r assume "reaches (bit_link code) w'" and sync: "synced (bit_link code) w r"
  then obtain rest where "code = written w' @ rest" by auto
  with sync assms(2) have "unread r = c @ rest" by simp
  with assms(3) sync obtain r' where "rd r = Inr (v, r')" "reader_ok r'" "unread r' = rest" by auto
  with \<open>code = written w' @ rest\<close> show "\<exists>r'. rd r = Inr (v, r') \<and> synced (bit_link code) w' r'" by auto
qed (use assms(1,2) in auto)

subsection \<open>Runs\<close>

lemma scan_run_fill:
  assumes "scan_run samples w x line = (x', line')"
  shows "x \<le> x'" and "x \<le> w \<longrightarrow> x' \<le> w"
    and "line' = fold (\<lambda>x. set_current x (samples ! x)) [x..<x'] line" and "line' = fill_run x x' line"
    and "x' < w \<longrightarrow> samples ! x' \<noteq> median_at line' x'"
proof -
  have "x \<le> x' \<and> (x \<le> w \<longrightarrow> x' \<le> w) \<and> line' = fold (\<lambda>x. set_current x (samples ! x)) [x..<x'] line \<and>
    line' = fill_run x x' line \<and> (x' < w \<longrightarrow> samples ! x' \<noteq> median_at line' x')"
    using assms
  proof (induction samples w x line rule: scan_run.induct)
    case (1 samples w x line)
    show ?case
    proof (cases "x < w \<and> samples ! x = median_at line x")
      case True
      with "1.prems" have "scan_run samples w (x + 1) (set_current x (samples ! x) line) = (x', line')"
        by (simp add: scan_run.simps [of samples w x])
      with True "1.IH" have IH: "x + 1 \<le> x'" "x' \<le> w" "line' = fold (\<lambda>x. set_current x (samples ! x)) [x + 1..<x'] (set_current x (samples ! x) line)"
        "line' = fill_run (x + 1) x' (set_current x (samples ! x) line)" "x' < w \<longrightarrow> samples ! x' \<noteq> median_at line' x'"
        by auto
      moreover have "[x..<x'] = x # [x + 1..<x']" using IH(1) by (simp add: upt_conv_Cons)
      ultimately show ?thesis using True by (simp add: fill_run_def)
    next
      case False
      with "1.prems" show ?thesis by (auto simp: scan_run.simps [of samples w x] fill_run_def)
    qed
  qed
  then show "x \<le> x'" and "x \<le> w \<longrightarrow> x' \<le> w"
    and "line' = fold (\<lambda>x. set_current x (samples ! x)) [x..<x'] line" and "line' = fill_run x x' line"
    and "x' < w \<longrightarrow> samples ! x' \<noteq> median_at line' x'" by blast+
qed

lemma fill_run_append: "x \<le> y \<Longrightarrow> y \<le> z \<Longrightarrow> fill_run y z (fill_run x y line) = fill_run x z line"
  using upt_add_eq_append [of x y "z - y"] by (simp add: fill_run_def)

text \<open>Filling the segments of a run one by one is filling the run.\<close>

lemma decode_golomb_rice_run_eq:
  assumes "read_golomb_rice_run w r st x = Inr (x', interrupted, r', st')" and "x \<le> w"
  shows "decode_golomb_rice_run off w x line st r = Inr ((x', interrupted, fill_run x x' line, st'), r') \<and> x \<le> x'"
  using assms
proof (induction w r st x arbitrary: line rule: read_golomb_rice_run.induct)
  case (1 w r st x)
  show ?case
  proof (cases "x < w")
    case False
    with "1.prems" show ?thesis
      by (auto simp: read_golomb_rice_run.simps [of w r st x] decode_golomb_rice_run.simps [of off w w] fill_run_def)
  next
    case True
    with "1.prems"(1) obtain segment r1 st1 where
      segment: "read_golomb_rice_run_segment r st x w = Inr (segment, r1, st1)" and
      rest: "(let run_end = min w (x + seg_count segment) in
        if seg_interrupted segment then Inr (run_end, True, r1, st1)
        else read_golomb_rice_run w r1 st1 run_end) = Inr (x', interrupted, r', st')"
      by (auto simp: read_golomb_rice_run.simps [of w r st x] bind_result_eq_Inr)
    let ?e = "min w (x + seg_count segment)"
    have e: "x \<le> ?e" "?e \<le> w" using True by simp_all
    show ?thesis
    proof (cases "seg_interrupted segment")
      case interrupted: True
      with rest True segment e show ?thesis
        by (simp add: decode_golomb_rice_run.simps [of off w x] read_run_segment_def Let_def)
    next
      case False
      with rest have "read_golomb_rice_run w r1 st1 ?e = Inr (x', interrupted, r', st')" by (simp add: Let_def)
      from "1.IH" [OF True segment refl refl refl False this e(2), of "fill_run x ?e line"]
      have "decode_golomb_rice_run off w ?e (fill_run x ?e line) st1 r1 = Inr ((x', interrupted, fill_run ?e x' (fill_run x ?e line), st'), r')"
        "?e \<le> x'" by simp_all
      with True segment False e show ?thesis
        by (simp add: decode_golomb_rice_run.simps [of off w x] read_run_segment_def Let_def fill_run_append)
    qed
  qed
qed

lemma golomb_run_matched:
  assumes w: "writer_ok wr" and run: "write_golomb_rice_run wr st x w (x' - x) = Inr (wr', st')"
    and st: "pending_count st = 0" and x: "x < w" "x \<le> x'"
  shows "matched (bit_link code) wr wr'
      (\<lambda>r. bind_result (decode_golomb_rice_run off w x line st r) (\<lambda>((x, interrupted, line, st), r).
         Inr ((x, interrupted \<and> x \<noteq> w, line, st), r)))
      (x', x' \<noteq> w, fill_run x x' line, st')"
    and "pending_count st' = 0" and "x' \<le> w"
proof -
  from run obtain i' where i: "run_index st < length kLog2Run" "x + (x' - x) \<le> w"
    and loop: "write_golomb_rice_run_loop w wr (run_index st) x (x' - x) = Inr (wr', i')"
    and st': "st' = \<lparr>run_index = i', pending_count = 0\<rparr>"
    using st x by (auto simp: write_golomb_rice_run_def split: if_splits)
  show "pending_count st' = 0" "x' \<le> w" using st' i(2) x(2) by simp_all
  have st_eq: "st = \<lparr>run_index = run_index st, pending_count = 0\<rparr>" using st by simp
  from write_golomb_rice_run_loop_correct [OF w loop i(1) x(1) i(2)] obtain c where
    c: "writer_ok wr'" "written wr' = written wr @ c" "run_decodes w (run_index st) x c x' i'" using x(2) by auto
  show "matched (bit_link code) wr wr'
      (\<lambda>r. bind_result (decode_golomb_rice_run off w x line st r) (\<lambda>((x, interrupted, line, st), r).
         Inr ((x, interrupted \<and> x \<noteq> w, line, st), r)))
      (x', x' \<noteq> w, fill_run x x' line, st')"
  proof (rule bit_matchedI [OF c(1,2)])
    fix r rest assume "reader_ok r" "unread r = c @ rest"
    with c(3) obtain interrupted r' where
      read: "read_golomb_rice_run w r \<lparr>run_index = run_index st, pending_count = 0\<rparr> x = Inr (x', interrupted, r', st')" and
      r': "reader_ok r'" "unread r' = rest" "x' < w \<longrightarrow> interrupted"
      unfolding run_decodes_def st' by blast
    have "decode_golomb_rice_run off w x line st r = Inr ((x', interrupted, fill_run x x' line, st'), r')"
      using decode_golomb_rice_run_eq [OF read [folded st_eq]] x(1) by simp
    with r' \<open>x' \<le> w\<close> show "\<exists>r'. bind_result (decode_golomb_rice_run off w x line st r) (\<lambda>((x, interrupted, line, st), r).
         Inr ((x, interrupted \<and> x \<noteq> w, line, st), r)) = Inr ((x', x' \<noteq> w, fill_run x x' line, st'), r') \<and>
        reader_ok r' \<and> unread r' = rest" by auto
  qed
qed

subsection \<open>Symbols\<close>

lemma read_golomb_rice_symbol_code:
  assumes "writer_ok wr" and "write_golomb_rice_symbol b v wr s = Inr (wr', s')"
  obtains c where "writer_ok wr'" and "written wr' = written wr @ c" and "b \<noteq> 0" and "b < 32"
    and "\<And>r rest. reader_ok r \<Longrightarrow> unread r = c @ rest \<Longrightarrow>
      \<exists>r'. read_golomb_rice_symbol b r s = Inr (gr_sign_extend v b, r', s') \<and> reader_ok r' \<and> unread r' = rest"
proof -
  from write_golomb_rice_symbol_correct [OF assms] obtain k where
    valid: "gr_validate_state s = Inr ()" and k: "gr_derive_k s = Inr k" "k < 32" and b: "b \<noteq> 0" "b < 32" and
    w': "writer_ok wr'" "written wr' = written wr @ gr_signed_code k b (gr_coded_value b s v)" and
    s': "s' = gr_update_state (gr_sign_extend (v - gr_bias s) b) s" by metis
  have "\<exists>r'. read_golomb_rice_symbol b r s = Inr (gr_sign_extend v b, r', s') \<and> reader_ok r' \<and> unread r' = rest"
    if "reader_ok r" "unread r = gr_signed_code k b (gr_coded_value b s v) @ rest" for r rest
    using read_golomb_rice_symbol_correct [OF that valid k b] unfolding s' by metis
  with that w' b show thesis by blast
qed

text \<open>
  The decoder reads the difference up to a multiple of the range: \<open>- half_range\<close> may come back as
  \<open>half_range\<close>, and an interruption difference always comes back as it was.
\<close>

lemma golomb_difference_matched:
  assumes w: "writer_ok wr"
    and run: "(if interruption then write_golomb_rice_run_interruption b d wr s else write_golomb_rice_symbol b d wr s) = Inr (wr', s')"
    and d: "\<bar>d\<bar> \<le> 2 ^ (unat b - 1)"
  shows "\<exists>d'. matched (bit_link code) wr wr' (\<lambda>r. bind_result (if interruption then read_golomb_rice_run_interruption b r s
      else read_golomb_rice_symbol b r s) (\<lambda>(d, r, s). Inr ((d, s), r))) (d', s') \<and> d' mod 2 ^ unat b = d mod 2 ^ unat b"
proof (cases interruption)
  case False
  from run False have "write_golomb_rice_symbol b d wr s = Inr (wr', s')" by simp
  from read_golomb_rice_symbol_code [OF w this] obtain c where
    c: "writer_ok wr'" "written wr' = written wr @ c" and b: "b \<noteq> 0" "b < 32" and
    rd: "\<And>r rest. reader_ok r \<Longrightarrow> unread r = c @ rest \<Longrightarrow>
      \<exists>r'. read_golomb_rice_symbol b r s = Inr (gr_sign_extend d b, r', s') \<and> reader_ok r' \<and> unread r' = rest" by metis
  have "matched (bit_link code) wr wr' (\<lambda>r. bind_result (if interruption then read_golomb_rice_run_interruption b r s
      else read_golomb_rice_symbol b r s) (\<lambda>(d, r, s). Inr ((d, s), r))) (gr_sign_extend d b, s')"
    by (rule bit_matchedI [OF c]) (use rd False in \<open>fastforce\<close>)
  with gr_sign_extend_mod [OF b] show ?thesis by blast
next
  case True
  let ?m = "if 0 < d then d - 1 else d"
  from run True have nz: "d \<noteq> 0" and wr: "write_golomb_rice_symbol b ?m wr s = Inr (wr', s')"
    by (auto simp: write_golomb_rice_run_interruption_def Let_def split: if_splits)
  from read_golomb_rice_symbol_code [OF w wr] obtain c where
    c: "writer_ok wr'" "written wr' = written wr @ c" and b: "b \<noteq> 0" "b < 32" and
    rd: "\<And>r rest. reader_ok r \<Longrightarrow> unread r = c @ rest \<Longrightarrow>
      \<exists>r'. read_golomb_rice_symbol b r s = Inr (gr_sign_extend ?m b, r', s') \<and> reader_ok r' \<and> unread r' = rest" by metis
  have "gr_sign_extend ?m b = ?m" using d nz by (intro gr_sign_extend_id b) auto
  then have d': "(if 0 \<le> gr_sign_extend ?m b then gr_sign_extend ?m b + 1 else gr_sign_extend ?m b) = d" using nz by auto
  have "matched (bit_link code) wr wr' (\<lambda>r. bind_result (if interruption then read_golomb_rice_run_interruption b r s
      else read_golomb_rice_symbol b r s) (\<lambda>(d, r, s). Inr ((d, s), r))) (d, s')"
  proof (rule bit_matchedI [OF c])
    fix r rest assume "reader_ok r" "unread r = c @ rest"
    from rd [OF this] obtain r' where "read_golomb_rice_symbol b r s = Inr (gr_sign_extend ?m b, r', s')" "reader_ok r'" "unread r' = rest"
      by blast
    then show "\<exists>r'. bind_result (if interruption then read_golomb_rice_run_interruption b r s
        else read_golomb_rice_symbol b r s) (\<lambda>(d, r, s). Inr ((d, s), r)) = Inr ((d, s'), r') \<and> reader_ok r' \<and> unread r' = rest"
      using True by (intro exI [of _ r']) (simp only: read_golomb_rice_run_interruption_def bind_result_Inr prod.case d' if_True simp_thms)
  qed
  then show ?thesis by blast
qed

subsection \<open>The line\<close>

lemma median_at_range:
  assumes "line_within bound w line" and "x < w"
  shows "0 \<le> median_at line x" and "median_at line x < bound"
  using line_within_neighbors [OF assms]
    median_predict_between [of "ns_left (ls_neighbors line x)" "ns_top (ls_neighbors line x)" "ns_top_left (ls_neighbors line x)"]
  by (auto simp: median_at_def Let_def min_def max_def split: if_splits)

text \<open>One coded sample, in a run or not.\<close>

lemma golomb_symbol_matched:
  assumes w: "writer_ok wr" and line: "line_within (2 ^ n) (length samples) line" and x: "x < length samples"
    and bits: "unat b = n" "0 < n" "n \<le> 17" and sample: "0 \<le> samples ! x" "samples ! x < 2 ^ n"
    and run: "encode_golomb_rice_symbol interruption table_set samples b x (line, contexts, run_state) context wr = Inr ((x', st'), wr')"
  shows "matched (bit_link code) wr wr' (decode_golomb_rice_symbol interruption off b x (line, contexts, run_state) context) (x', st')"
    and "x' = x + 1" and "\<exists>contexts'. st' = (set_current x (samples ! x) line, contexts', run_state)"
proof -
  let ?p = "median_at line x"
  let ?diff = "sample_difference (samples ! x) ?p b"
  let ?d = "if cd_invert_difference context then - ?diff else ?diff"
  let ?c = "unat (cd_context context)"
  from run obtain s' where
    wr: "(if interruption then write_golomb_rice_run_interruption b ?d wr (contexts ! ?c)
      else write_golomb_rice_symbol b ?d wr (contexts ! ?c)) = Inr (wr', s')"
    and x': "x' = x + 1" and st': "st' = (set_current x (samples ! x) line, contexts[?c := s'], run_state)"
    by (auto simp: encode_golomb_rice_symbol_def Let_def bind_result_eq_Inr)
  show "x' = x + 1" "\<exists>contexts'. st' = (set_current x (samples ! x) line, contexts', run_state)" using x' st' by blast+
  have nz: "b \<noteq> 0" "b < 31" using bits by (auto simp: word_less_nat_alt)
  have small: "(2 :: int) ^ n \<le> 2 ^ 17" using bits(3) by (intro power_increasing) simp_all
  note p = median_at_range [OF line x]
  have i32: "in_int32 (samples ! x - ?p)" using p sample small by (simp add: in_int32_def)
  then have "?diff = wrap_sample_difference (samples ! x - ?p) b"
    using nz by (simp add: sample_difference_def Let_def to_int32_id flip: not_less)
  then have d: "\<bar>?d\<bar> \<le> 2 ^ (unat b - 1)"
    using wrap_sample_difference_range [OF nz, of "samples ! x - ?p"] by (simp add: abs_le_iff)
  from golomb_difference_matched [OF w wr d, where code = code] obtain d' where
    d': "matched (bit_link code) wr wr' (\<lambda>r. bind_result (if interruption then read_golomb_rice_run_interruption b r (contexts ! ?c)
      else read_golomb_rice_symbol b r (contexts ! ?c)) (\<lambda>(d, r, s). Inr ((d, s), r))) (d', s')"
    and mod: "d' mod 2 ^ unat b = ?d mod 2 ^ unat b" by blast
  have "(if cd_invert_difference context then - d' else d') mod 2 ^ unat b = ?diff mod 2 ^ unat b"
  proof (cases "cd_invert_difference context")
    case True
    then have "d' mod 2 ^ unat b = (- ?diff) mod 2 ^ unat b" using mod by simp
    then have "(- (d' mod 2 ^ unat b)) mod 2 ^ unat b = (- (- ?diff mod 2 ^ unat b)) mod 2 ^ unat b" by simp
    with True show ?thesis by (simp only: mod_minus_eq minus_minus if_True)
  qed (use mod in simp)
  from reconstruct_wrapped [OF nz _ _ i32 this] sample bits(1)
  have rec: "reconstruct ?p (if cd_invert_difference context then - d' else d') b = samples ! x" by simp
  show "matched (bit_link code) wr wr' (decode_golomb_rice_symbol interruption off b x (line, contexts, run_state) context) (x', st')"
  proof (rule matched_cong [OF d'])
    fix r r'
    assume "bind_result (if interruption then read_golomb_rice_run_interruption b r (contexts ! ?c)
      else read_golomb_rice_symbol b r (contexts ! ?c)) (\<lambda>(d, r, s). Inr ((d, s), r)) = Inr ((d', s'), r')"
    then have "(if interruption then read_golomb_rice_run_interruption b r (contexts ! ?c)
      else read_golomb_rice_symbol b r (contexts ! ?c)) = Inr (d', r', s')" by (auto simp: bind_result_eq_Inr)
    then show "decode_golomb_rice_symbol interruption off b x (line, contexts, run_state) context r = Inr ((x', st'), r')"
      by (simp only: decode_golomb_rice_symbol_def prod.case Let_def bind_result_Inr map_error_Inr rec x' st')
  qed
qed

definition line_tail :: "int list \<Rightarrow> nat \<Rightarrow> nat \<Rightarrow> line_state \<Rightarrow> line_state" where
  "line_tail samples x x' line = fold (\<lambda>x. set_current x (samples ! x)) [x..<x'] line"

lemma line_tail_within:
  assumes "line_within bound w line" and "\<forall>x < w. 0 \<le> samples ! x \<and> samples ! x < bound" and "x' \<le> w"
  shows "line_within bound w (line_tail samples x x' line)"
proof -
  have "line_within bound w (fold (\<lambda>x. set_current x (samples ! x)) xs line)" if "\<forall>x \<in> set xs. x < w" for xs
    using assms(1) that
  proof (induction xs arbitrary: line)
    case (Cons x xs)
    then have "line_within bound w (set_current x (samples ! x) line)"
      using assms(2) line_within_update [OF Cons.prems(1)] by (simp add: set_current_def)
    with Cons show ?case by simp
  qed simp
  then show ?thesis using assms(3) by (simp add: line_tail_def)
qed

lemma line_tail_step: "x < x' \<Longrightarrow> line_tail samples x x' line = line_tail samples (x + 1) x' (set_current x (samples ! x) line)"
  by (simp add: line_tail_def upt_conv_Cons)

lemma line_tail_append: "x \<le> y \<Longrightarrow> y \<le> z \<Longrightarrow> line_tail samples y z (line_tail samples x y line) = line_tail samples x z line"
  using upt_add_eq_append [of x y "z - y"] by (simp add: line_tail_def)

lemma golomb_step_matched:
  assumes w: "writer_ok wr" and line: "line_within (2 ^ n) (length samples) line" and x: "x < length samples"
    and bits: "unat b = n" "0 < n" "n \<le> 17" and samples: "\<forall>x < length samples. 0 \<le> samples ! x \<and> samples ! x < 2 ^ n"
    and pending: "pending_count run_state = 0"
    and run: "encode_golomb_rice_step table_set samples b x (line, contexts, run_state) wr = Inr ((x', st'), wr')"
  shows "matched (bit_link code) wr wr' (decode_golomb_rice_step off table_set (length samples) b x (line, contexts, run_state)) (x', st') \<and>
    x < x' \<and> x' \<le> length samples \<and>
    (\<exists>contexts' run'. st' = (line_tail samples x x' line, contexts', run') \<and> pending_count run' = 0)"
proof -
  from run obtain decision where decision: "derive_context table_set (ls_neighbors line x) = Inr decision"
    by (auto simp: encode_golomb_rice_step_def bind_result_eq_Inr)
  show ?thesis
  proof (cases "cd_context decision = 0")
    case False
    with run decision have wr: "encode_golomb_rice_symbol False table_set samples b x (line, contexts, run_state) decision wr = Inr ((x', st'), wr')"
      by (simp add: encode_golomb_rice_step_def)
    have s: "0 \<le> samples ! x" "samples ! x < 2 ^ n" using samples x by blast+
    note m = golomb_symbol_matched [OF w line x bits s wr]
    have "matched (bit_link code) wr wr' (decode_golomb_rice_step off table_set (length samples) b x (line, contexts, run_state)) (x', st')"
      using m(1) False decision pending by (simp add: decode_golomb_rice_step_def)
    with m(2,3) x pending show ?thesis by (auto simp: line_tail_def)
  next
    case True
    obtain x1 line1 where scan: "scan_run samples (length samples) x line = (x1, line1)" by fastforce
    note scan' = scan_run_fill [OF scan]
    with run decision True scan obtain wr1 run1 where
      wr1: "write_golomb_rice_run wr run_state x (length samples) (x1 - x) = Inr (wr1, run1)" and
      rest: "(if x1 = length samples then Inr ((x1, line1, contexts, run1), wr1)
        else bind_result (derive_context table_set (ls_neighbors line1 x1)) (\<lambda>interruption_context.
          encode_golomb_rice_symbol True table_set samples b x1 (line1, contexts, run1) interruption_context wr1)) = Inr ((x', st'), wr')"
      by (auto simp: encode_golomb_rice_step_def bind_result_eq_Inr)
    note rm = golomb_run_matched(1) [OF w wr1 pending x scan'(1), where off = off and line = line and code = code]
    note r = golomb_run_matched(2,3) [OF w wr1 pending x scan'(1)]
    have line1: "line1 = line_tail samples x x1 line" "line1 = fill_run x x1 line" using scan'(3,4) by (simp_all add: line_tail_def)
    show ?thesis
    proof (cases "x1 = length samples")
      case end_of_line: True
      with rest have e: "x' = x1" "st' = (line1, contexts, run1)" "wr' = wr1" by simp_all
      have "matched (bit_link code) wr wr' (decode_golomb_rice_step off table_set (length samples) b x (line, contexts, run_state)) (x', st')"
        unfolding e
        by (rule matched_cong [OF rm], auto simp: decode_golomb_rice_step_def decision True pending end_of_line line1(2), blast)
      with r(1) e x end_of_line line1(1) show ?thesis by auto
    next
      case False
      then have x1: "x1 < length samples" using scan'(2) x by simp
      from rest False obtain context1 where context1: "derive_context table_set (ls_neighbors line1 x1) = Inr context1" and
        wr': "encode_golomb_rice_symbol True table_set samples b x1 (line1, contexts, run1) context1 wr1 = Inr ((x', st'), wr')"
        by (auto simp: bind_result_eq_Inr)
      have within: "line_within (2 ^ n) (length samples) line1"
        unfolding line1(1) by (rule line_tail_within [OF line samples]) (use x1 in simp)
      have s: "0 \<le> samples ! x1" "samples ! x1 < 2 ^ n" using samples x1 by blast+
      have w1: "writer_ok wr1" using matched_winv [OF rm] by simp
      note m = golomb_symbol_matched [OF w1 within x1 bits s wr']
      let ?finish = "\<lambda>((x, go, line, st), r). if \<not> go then Inr ((x, line, contexts, st), r)
          else bind_result (derive_context table_set (ls_neighbors line x)) (\<lambda>context.
            decode_golomb_rice_symbol True off b x (line, contexts, st) context r)"
      have "matched (bit_link code) wr wr' (\<lambda>r. bind_result
          (bind_result (decode_golomb_rice_run off (length samples) x line run_state r) (\<lambda>((x, interrupted, line, st), r).
             Inr ((x, interrupted \<and> x \<noteq> length samples, line, st), r))) ?finish) (x', st')"
        by (rule matched_bindI [OF rm])
          (simp only: prod.case line1(2) [symmetric] False simp_thms if_False context1 bind_result_Inr, rule m(1))
      then have "matched (bit_link code) wr wr' (decode_golomb_rice_step off table_set (length samples) b x (line, contexts, run_state)) (x', st')"
        by (rule matched_ext)
          (auto simp: decode_golomb_rice_step_def decision True pending bind_result_def split: sum.splits)
      moreover from m(3) obtain contexts' where "st' = (set_current x1 (samples ! x1) line1, contexts', run1)" by blast
      moreover have "line_tail samples x (x1 + 1) line = set_current x1 (samples ! x1) line1"
        using line_tail_append [of x x1 "x1 + 1"] scan'(1) unfolding line1(1) by (simp add: line_tail_def)
      ultimately show ?thesis using r(1) m(2) x1 scan'(1) by auto
    qed
  qed
qed

lemma golomb_from_matched:
  assumes "encode_golomb_rice_from table_set samples b x (line, contexts, run_state) wr = Inr (st', wr')"
    and "writer_ok wr" and "line_within (2 ^ n) (length samples) line" and "x \<le> length samples"
    and "unat b = n" "0 < n" "n \<le> 17" and "\<forall>x < length samples. 0 \<le> samples ! x \<and> samples ! x < 2 ^ n"
    and "pending_count run_state = 0"
  shows "matched (bit_link code) wr wr' (decode_golomb_rice_from off table_set (length samples) b x (line, contexts, run_state)) st' \<and>
    (\<exists>contexts' run'. st' = (line_tail samples x (length samples) line, contexts', run') \<and> pending_count run' = 0)"
  using assms
proof (induction "length samples - x" arbitrary: x line contexts run_state wr rule: less_induct)
  case less
  show ?case
  proof (cases "x < length samples")
    case False
    with less.prems(1) have e: "st' = (line, contexts, run_state)" "wr' = wr"
      by (simp_all add: encode_golomb_rice_from.simps [of table_set samples b x])
    have "matched (bit_link code) wr wr (decode_golomb_rice_from off table_set (length samples) b x (line, contexts, run_state)) (line, contexts, run_state)"
      by (rule matched_ext [OF matched_refl])
        (use False less.prems(2) in \<open>simp_all add: decode_golomb_rice_from.simps [of off table_set _ b x]\<close>)
    with e False less.prems(4,9) show ?thesis by (simp add: line_tail_def)
  next
    case True
    from less.prems(1) True obtain x1 st1 wr1 where
      step: "encode_golomb_rice_step table_set samples b x (line, contexts, run_state) wr = Inr ((x1, st1), wr1)" and
      rest: "encode_golomb_rice_from table_set samples b x1 st1 wr1 = Inr (st', wr')"
      by (auto simp: encode_golomb_rice_from.simps [of table_set samples b x])
    from golomb_step_matched [OF less.prems(2,3) True less.prems(5-9) step, where code = code and off = off]
    obtain contexts1 run1 where
      m: "matched (bit_link code) wr wr1 (decode_golomb_rice_step off table_set (length samples) b x (line, contexts, run_state)) (x1, st1)" and
      x1: "x < x1" "x1 \<le> length samples" and
      st1: "st1 = (line_tail samples x x1 line, contexts1, run1)" "pending_count run1 = 0" by blast
    have w1: "writer_ok wr1" using matched_winv [OF m] by simp
    have within: "line_within (2 ^ n) (length samples) (line_tail samples x x1 line)"
      by (rule line_tail_within [OF less.prems(3,8) x1(2)])
    have dec: "length samples - x1 < length samples - x" using x1 True by simp
    from less.hyps [OF dec rest [unfolded st1(1)] w1 within x1(2) less.prems(5-8) st1(2)] obtain contexts' run' where
      IH: "matched (bit_link code) wr1 wr' (decode_golomb_rice_from off table_set (length samples) b x1 st1) st'"
      "st' = (line_tail samples x1 (length samples) (line_tail samples x x1 line), contexts', run')" "pending_count run' = 0"
      unfolding st1(1) by blast
    have "matched (bit_link code) wr wr' (\<lambda>r. bind_result
        (decode_golomb_rice_step off table_set (length samples) b x (line, contexts, run_state) r)
        (\<lambda>((x, st), r). decode_golomb_rice_from off table_set (length samples) b x st r)) st'"
      by (rule matched_bindI [OF m]) (simp only: prod.case, rule IH(1))
    then have "matched (bit_link code) wr wr' (decode_golomb_rice_from off table_set (length samples) b x (line, contexts, run_state)) st'"
      by (rule matched_ext) (simp add: decode_golomb_rice_from.simps [of off table_set _ b x] True)
    with IH(2,3) line_tail_append [of x x1 "length samples"] x1 show ?thesis by auto
  qed
qed

text \<open>The whole line: the decoder holds the samples, and both sides have the same contexts and run state.\<close>

lemma golomb_line_matched:
  assumes run: "encode_golomb_rice_line table_set samples b (line, contexts, run_state) wr = Inr ((line', contexts', run'), wr')"
    and w: "writer_ok wr" and line: "line_within (2 ^ n) (length samples) line"
    and bits: "unat b = n" "0 < n" "n \<le> 17" and samples: "\<forall>x < length samples. 0 \<le> samples ! x \<and> samples ! x < 2 ^ n"
    and pending: "pending_count run_state = 0"
  shows "\<exists>line1. matched (bit_link code) wr wr' (decode_golomb_rice_line off table_set (length samples) b (line, contexts, run_state))
      (line1, contexts', run') \<and> ls_current line1 = samples \<and> line' = ls_swap_lines line1 \<and>
    line_within (2 ^ n) (length samples) line1 \<and> pending_count run' = 0"
proof -
  from run obtain line1 where
    steps: "encode_golomb_rice_from table_set samples b 0 (line, contexts, run_state) wr = Inr ((line1, contexts', run'), wr')" and
    line': "line' = ls_swap_lines line1"
    by (auto simp: encode_golomb_rice_line_def)
  from golomb_from_matched [OF steps w line _ bits samples pending, where code = code and off = off]
  have m: "matched (bit_link code) wr wr' (decode_golomb_rice_from off table_set (length samples) b 0 (line, contexts, run_state)) (line1, contexts', run')"
    and line1: "line1 = line_tail samples 0 (length samples) line" "pending_count run' = 0" by auto
  have cur: "ls_current (fold (\<lambda>x. set_current x (samples ! x)) xs line) = fold (\<lambda>x ss. ss[x := samples ! x]) xs (ls_current line)" for xs
    by (induction xs arbitrary: line) (simp_all add: set_current_def)
  have "length (ls_current line) = length samples" using line by (simp add: line_within_def)
  then have "ls_current line1 = samples"
    unfolding line1(1) line_tail_def cur by (simp add: fold_update_upt map_nth)
  moreover have "line_within (2 ^ n) (length samples) line1"
    unfolding line1(1) by (rule line_tail_within [OF line samples order_refl])
  ultimately show ?thesis using m line' line1(2) by (auto simp: decode_golomb_rice_line_def)
qed

end
