(* ===== verification/Slice_Samples.thy ===== *)
theory Slice_Samples
  imports Color_Transform Range_Lines
begin

text \<open>
  The samples of a slice in the caller's planes: \<open>read_sample\<close> of the encoder, \<open>store_planar_line\<close> and
  \<open>store_rgb_line\<close> of the decoder (\<^verbatim>\<open>src/src/codec/slice_encoder.cpp\<close>, \<^verbatim>\<open>slice_decoder.cpp\<close>), and the
  row kernels of the colour transform (\<^verbatim>\<open>src/src/simd/codec_kernels.hpp,cpp\<close>).

  The encoder dereferences the rows of its window without a check, so the model reads them with \<open>the\<close>.
\<close>

subsection \<open>The colour transform kernels\<close>

type_synonym forward_row = "u16 list \<Rightarrow> u16 list \<Rightarrow> u16 list \<Rightarrow> nat \<Rightarrow> u8 \<Rightarrow> bool \<Rightarrow> int list \<times> int list \<times> int list"
type_synonym inverse_row = "int list \<Rightarrow> int list \<Rightarrow> int list \<Rightarrow> nat \<Rightarrow> u8 \<Rightarrow> bool \<Rightarrow> u16 list \<times> u16 list \<times> u16 list"

record codec_kernels =
  forward_color_transform_row :: forward_row
  inverse_color_transform_row :: inverse_row
  available_features :: u64
  active_features :: u64

definition forward_color_transform_row_scalar :: forward_row where
  "forward_color_transform_row_scalar r g b n bits_per_raw_sample has_extra_plane =
     (let codes = map (\<lambda>i. forward_jpeg2000_rct (r ! i) (g ! i) (b ! i) bits_per_raw_sample has_extra_plane) [0..<n]
      in (map code_y codes, map code_cb codes, map code_cr codes))"

definition inverse_color_transform_row_scalar :: inverse_row where
  "inverse_color_transform_row_scalar y cb cr n bits_per_raw_sample has_extra_plane =
     (let samples = map (\<lambda>i. inverse_jpeg2000_rct (y ! i) (cb ! i) (cr ! i) bits_per_raw_sample has_extra_plane) [0..<n]
      in (map rgb_r samples, map rgb_g samples, map rgb_b samples))"

definition scalar_kernels :: codec_kernels where
  "scalar_kernels =
     \<lparr>forward_color_transform_row = forward_color_transform_row_scalar,
      inverse_color_transform_row = inverse_color_transform_row_scalar, available_features = 0, active_features = 0\<rparr>"

text \<open>
  What the codec relies on: the inverse kernel undoes the forward kernel on every row of samples of the bit
  depth, and the codes fit one more bit.
\<close>

definition row_of_depth :: "u8 \<Rightarrow> nat \<Rightarrow> u16 list \<Rightarrow> bool" where
  "row_of_depth bits n row \<longleftrightarrow> length row = n \<and> (\<forall>s \<in> set row. unat s < 2 ^ unat bits)"

definition codes_of_depth :: "u8 \<Rightarrow> nat \<Rightarrow> int list \<Rightarrow> bool" where
  "codes_of_depth bits n row \<longleftrightarrow> length row = n \<and> (\<forall>s \<in> set row. 0 \<le> s \<and> s < 2 ^ (unat bits + 1))"

locale lossless_kernels =
  fixes kernels :: codec_kernels
  assumes codes: "bits \<noteq> 0 \<Longrightarrow> bits \<le> 16 \<Longrightarrow> row_of_depth bits n r \<Longrightarrow> row_of_depth bits n g \<Longrightarrow> row_of_depth bits n b \<Longrightarrow>
      forward_color_transform_row kernels r g b n bits extra = (y, cb, cr) \<Longrightarrow>
      codes_of_depth bits n y \<and> codes_of_depth bits n cb \<and> codes_of_depth bits n cr"
    and lossless: "bits \<noteq> 0 \<Longrightarrow> bits \<le> 16 \<Longrightarrow> row_of_depth bits n r \<Longrightarrow> row_of_depth bits n g \<Longrightarrow> row_of_depth bits n b \<Longrightarrow>
      forward_color_transform_row kernels r g b n bits extra = (y, cb, cr) \<Longrightarrow>
      inverse_color_transform_row kernels y cb cr n bits extra = (r, g, b)"

interpretation scalar: lossless_kernels scalar_kernels
proof
  fix bits :: u8 and n :: nat and r g b :: "u16 list" and extra :: bool and y cb cr :: "int list"
  assume bits: "bits \<noteq> 0" "bits \<le> 16"
    and rows: "row_of_depth bits n r" "row_of_depth bits n g" "row_of_depth bits n b"
    and fwd: "forward_color_transform_row scalar_kernels r g b n bits extra = (y, cb, cr)"
  let ?code = "\<lambda>i. forward_jpeg2000_rct (r ! i) (g ! i) (b ! i) bits extra"
  have depth: "unat (r ! i) < 2 ^ unat bits" "unat (g ! i) < 2 ^ unat bits" "unat (b ! i) < 2 ^ unat bits" if "i < n" for i
    using rows that by (simp_all add: row_of_depth_def)
  from fwd have codes: "y = map (\<lambda>i. code_y (?code i)) [0..<n]" "cb = map (\<lambda>i. code_cb (?code i)) [0..<n]"
    "cr = map (\<lambda>i. code_cr (?code i)) [0..<n]"
    by (auto simp: scalar_kernels_def forward_color_transform_row_scalar_def Let_def)
  show "codes_of_depth bits n y \<and> codes_of_depth bits n cb \<and> codes_of_depth bits n cr"
    using forward_rct_within [OF bits depth] by (auto simp: codes codes_of_depth_def code_within_def)
  have inv: "inverse_jpeg2000_rct (y ! i) (cb ! i) (cr ! i) bits extra = \<lparr>rgb_r = r ! i, rgb_g = g ! i, rgb_b = b ! i\<rparr>"
    if "i < n" for i
    using rct_lossless [OF bits depth [OF that], of extra] that by (simp add: codes Let_def)
  have len: "length r = n" "length g = n" "length b = n" using rows by (simp_all add: row_of_depth_def)
  have whole: "map (\<lambda>i. r ! i) [0..<n] = r" "map (\<lambda>i. g ! i) [0..<n] = g" "map (\<lambda>i. b ! i) [0..<n] = b"
    using map_nth [of r] map_nth [of g] map_nth [of b] len by simp_all
  have "map rgb_r (map (\<lambda>i. inverse_jpeg2000_rct (y ! i) (cb ! i) (cr ! i) bits extra) [0..<n]) = map (\<lambda>i. r ! i) [0..<n]"
    "map rgb_g (map (\<lambda>i. inverse_jpeg2000_rct (y ! i) (cb ! i) (cr ! i) bits extra) [0..<n]) = map (\<lambda>i. g ! i) [0..<n]"
    "map rgb_b (map (\<lambda>i. inverse_jpeg2000_rct (y ! i) (cb ! i) (cr ! i) bits extra) [0..<n]) = map (\<lambda>i. b ! i) [0..<n]"
    using inv by simp_all
  then show "inverse_color_transform_row scalar_kernels y cb cr n bits extra = (r, g, b)"
    unfolding whole by (simp add: scalar_kernels_def inverse_color_transform_row_scalar_def Let_def)
qed

subsection \<open>Reading the input\<close>

definition maximum_sample :: "stream_parameters \<Rightarrow> u32" where
  "maximum_sample stream =
     (if sp_bits_per_raw_sample stream = 16 then 0xffff
      else push_bit (unat (sp_bits_per_raw_sample stream)) 1 - 1)"

definition load_sample :: "stream_parameters \<Rightarrow> plane_window list \<Rightarrow> frame_memory \<Rightarrow> nat \<Rightarrow> nat \<Rightarrow> nat \<Rightarrow> u32" where
  "load_sample stream window memory plane_index y x =
     (if sp_bits_per_raw_sample stream \<le> 8
      then ucast (memory ! plane_index ! (the (row_u8 window plane_index y) + x))
      else ucast (load_u16 (memory ! plane_index) (the (row_u16 window plane_index y) + x * 2)))"

definition read_sample :: "stream_parameters \<Rightarrow> plane_window list \<Rightarrow> frame_memory \<Rightarrow> nat \<Rightarrow> nat \<Rightarrow> nat \<Rightarrow> u32 result" where
  "read_sample stream window memory plane_index y x =
     (let sample = load_sample stream window memory plane_index y x in
      if maximum_sample stream < sample then Inl (make_error InvalidArgument) else Inr sample)"

subsection \<open>Storing the output\<close>

definition truncate_to_raw_sample_bits :: "int \<Rightarrow> u8 \<Rightarrow> u16" where
  "truncate_to_raw_sample_bits sample bits_per_raw_sample =
     (if bits_per_raw_sample = 0 \<or> 16 \<le> bits_per_raw_sample then word_of_int sample
      else
        let mask_bits = push_bit (unat bits_per_raw_sample) 1 - 1 :: u32
        in ucast ((word_of_int sample :: u32) AND mask_bits))"

text \<open>One row of samples at the address of the row, in the format of the bit depth.\<close>

definition store_row :: "bool \<Rightarrow> nat \<Rightarrow> nat \<Rightarrow> (nat \<Rightarrow> u16) \<Rightarrow> bytes \<Rightarrow> bytes" where
  "store_row wide address w samples memory =
     fold (\<lambda>x memory. if wide then store_u16 memory (address + x * 2) (samples x)
                      else memory[address + x := ucast (samples x)]) [0..<w] memory"

definition output_row :: "stream_parameters \<Rightarrow> plane_window list \<Rightarrow> nat \<Rightarrow> nat \<Rightarrow> nat result" where
  "output_row stream output plane y =
     (if sp_bits_per_raw_sample stream \<le> 8
      then (case row_u8 output plane y of None \<Rightarrow> Inl (make_error InvalidArgument) | Some row \<Rightarrow> Inr row)
      else (case row_u16 output plane y of None \<Rightarrow> Inl (make_error InvalidArgument) | Some row \<Rightarrow> Inr row))"

definition store_plane_row ::
  "stream_parameters \<Rightarrow> nat \<Rightarrow> nat \<Rightarrow> nat \<Rightarrow> (nat \<Rightarrow> u16) \<Rightarrow> frame_memory \<Rightarrow> frame_memory" where
  "store_plane_row stream plane row w samples memory =
     memory[plane := store_row (8 < sp_bits_per_raw_sample stream) row w samples (memory ! plane)]"

definition store_planar_line ::
  "stream_parameters \<Rightarrow> plane_window list \<Rightarrow> nat \<Rightarrow> nat \<Rightarrow> line_state \<Rightarrow> frame_memory \<Rightarrow> (line_state \<times> frame_memory) result" where
  "store_planar_line stream output plane y line memory =
     bind_result (output_row stream output plane y) (\<lambda>row.
       Inr (ls_swap_lines line,
            store_plane_row stream plane row (unat (window_plane_width output plane))
              (\<lambda>x. word_of_int (ls_current line ! x)) memory))"

text \<open>
  The rows of all planes are looked up first. The code then writes the samples column by column; the planes
  are different memories, so that writing plane by plane is the same.
\<close>

fun output_rows :: "stream_parameters \<Rightarrow> plane_window list \<Rightarrow> nat \<Rightarrow> nat list \<Rightarrow> nat list result" where
  "output_rows stream output y [] = Inr []"
| "output_rows stream output y (plane # planes) =
     bind_result (output_row stream output plane y) (\<lambda>row.
     bind_result (output_rows stream output y planes) (\<lambda>rows. Inr (row # rows)))"

definition store_rgb_line ::
  "stream_parameters \<Rightarrow> codec_kernels \<Rightarrow> plane_window list \<Rightarrow> nat \<Rightarrow> slice_state \<Rightarrow> frame_memory \<Rightarrow>
     (slice_state \<times> frame_memory) result" where
  "store_rgb_line stream kernels output y state memory =
     bind_result (output_rows stream output y [0..<window_plane_count output]) (\<lambda>rows.
       let w = unat (window_plane_width output 0);
           (r, g, b) = inverse_color_transform_row kernels (ls_current (ss_line_state state 0))
             (ls_current (ss_line_state state 1)) (ls_current (ss_line_state state 2)) w
             (sp_bits_per_raw_sample stream) (sp_extra_plane stream);
           memory = store_plane_row stream 0 (rows ! 0) w (\<lambda>x. r ! x) memory;
           memory = store_plane_row stream 1 (rows ! 1) w (\<lambda>x. g ! x) memory;
           memory = store_plane_row stream 2 (rows ! 2) w (\<lambda>x. b ! x) memory;
           memory = (if sp_extra_plane stream
             then store_plane_row stream 3 (rows ! 3) w
                    (\<lambda>x. truncate_to_raw_sample_bits (ls_current (ss_line_state state 3) ! x) (sp_bits_per_raw_sample stream))
                    memory
             else memory)
       in Inr (state\<lparr>ss_line_states := map ls_swap_lines (ss_line_states state)\<rparr>, memory))"

subsection \<open>What is stored is read back\<close>

lemma load_store_u16:
  assumes "a + 1 < length memory"
  shows "load_u16 (store_u16 memory a s) a = s"
proof -
  have low: "store_u16 memory a s ! a = ucast s" "store_u16 memory a s ! (a + 1) = ucast (drop_bit 8 s)"
    using assms by (simp_all add: store_u16_def)
  show ?thesis unfolding load_u16_def low
    by (rule bit_word_eqI) (auto simp: bit_or_iff bit_push_bit_iff bit_ucast_iff bit_drop_bit_eq)
qed

lemma length_store_row [simp]: "length (store_row wide a w samples memory) = length memory"
proof -
  have "length (fold (\<lambda>x memory. if wide then store_u16 memory (a + x * 2) (samples x)
      else memory[a + x := ucast (samples x)]) xs memory) = length memory" for xs
    by (induction xs arbitrary: memory) (simp_all add: store_u16_def)
  then show ?thesis by (simp add: store_row_def)
qed

lemma store_row_Suc:
  "store_row wide a (Suc w) samples memory =
    (if wide then store_u16 (store_row wide a w samples memory) (a + w * 2) (samples w)
     else (store_row wide a w samples memory)[a + w := ucast (samples w)])"
  by (simp add: store_row_def)

lemma store_row_outside:
  assumes "i < a \<or> a + w * (if wide then 2 else 1) \<le> i"
  shows "store_row wide a w samples memory ! i = memory ! i"
  using assms
proof (induction w)
  case 0
  then show ?case by (simp add: store_row_def)
next
  case (Suc w)
  then show ?case by (auto simp: store_row_Suc store_u16_def)
qed

lemma store_row_narrow:
  assumes "x < w" and "a + w \<le> length memory"
  shows "store_row False a w samples memory ! (a + x) = ucast (samples x)"
  using assms
proof (induction w)
  case (Suc w)
  then show ?case by (cases "x = w") (simp_all add: store_row_Suc)
qed simp

lemma store_row_wide:
  assumes "x < w" and "a + w * 2 \<le> length memory"
  shows "load_u16 (store_row True a w samples memory) (a + x * 2) = samples x"
  using assms
proof (induction w)
  case (Suc w)
  show ?case
  proof (cases "x = w")
    case True
    with Suc.prems show ?thesis by (simp add: store_row_Suc load_store_u16)
  next
    case False
    then have "x < w" using Suc.prems by simp
    moreover from this have "a + x * 2 + 1 < a + w * 2" by simp
    ultimately show ?thesis
      using Suc by (simp add: store_row_Suc load_u16_def store_u16_def)
  qed
qed simp

text \<open>
  A window that its plane's memory can hold: the rows do not overlap and every row ends inside.
\<close>

definition window_backed :: "plane_window \<Rightarrow> bytes \<Rightarrow> bool" where
  "window_backed w memory \<longleftrightarrow>
     0 \<le> pw_stride_bytes w \<and>
     unat (pw_width w) * sample_bytes (pw_sample_format w) \<le> nat (pw_stride_bytes w) \<and>
     (\<forall>y < unat (pw_height w). row_address w y + unat (pw_width w) * sample_bytes (pw_sample_format w) \<le> length memory)"

lemma window_at_backed:
  assumes "window_at view x y w" and "pv_data view = Some data" and "data + plane_bytes (pv_info view) \<le> length memory"
    and "pw_width w \<noteq> 0"
  shows "window_backed w memory"
proof -
  let ?info = "pv_info view" and ?b = "sample_bytes (pw_sample_format w)"
  from assms(1) have w: "pw_stride_bytes w = pi_stride_bytes ?info" "0 \<le> pi_stride_bytes ?info"
    "pw_sample_format w = pi_sample_format ?info" "x + unat (pw_width w) \<le> unat (pi_width ?info)"
    "y + unat (pw_height w) \<le> unat (pi_height ?info)"
    "unat (pi_width ?info) * sample_bytes (pi_sample_format ?info) \<le> nat (pi_stride_bytes ?info)"
    by (auto simp: window_at_def)
  have pos: "0 < unat (pw_width w)" using assms(4) by (simp add: unat_gt_0)
  have "unat (pw_width w) * ?b \<le> unat (pi_width ?info) * ?b" using w(4) by (intro mult_le_mono1) simp
  also have "\<dots> \<le> nat (pi_stride_bytes ?info)" unfolding w(3) by (rule w(6))
  finally have "unat (pw_width w) * ?b \<le> nat (pi_stride_bytes ?info)" .
  moreover have "row_address w r + unat (pw_width w) * ?b \<le> length memory" if "r < unat (pw_height w)" for r
  proof -
    have "row_address w r + (unat (pw_width w) - 1) * ?b + ?b \<le> data + plane_bytes ?info"
      using window_sample_address [OF assms(1,2), of r "unat (pw_width w) - 1"]
        sample_address_within [of "x + (unat (pw_width w) - 1)" ?info "y + r" data] w pos that by simp
    also have "row_address w r + (unat (pw_width w) - 1) * ?b + ?b = row_address w r + unat (pw_width w) * ?b"
      using pos by (cases "unat (pw_width w)") simp_all
    finally show ?thesis using assms(3) by simp
  qed
  ultimately show ?thesis using w by (auto simp: window_backed_def)
qed

lemma rows_apart:
  assumes "window_backed w memory" and "y < y'"
  shows "row_address w y + unat (pw_width w) * sample_bytes (pw_sample_format w) \<le> row_address w y'"
proof -
  let ?s = "nat (pw_stride_bytes w)"
  have s: "pw_stride_bytes w = int ?s" using assms(1) by (simp add: window_backed_def)
  have addr: "row_address w r = pw_data w + r * ?s" for r
    unfolding row_address_def by (subst s) (simp only: of_nat_mult [symmetric] of_nat_add [symmetric] nat_int)
  have "(y + 1) * ?s \<le> y' * ?s" using assms(2) by (intro mult_le_mono1) simp
  then have "y * ?s + ?s \<le> y' * ?s" by (simp only: add_mult_distrib mult_1)
  with assms(1) show ?thesis unfolding addr window_backed_def by linarith
qed

text \<open>
  The condition under which an output is written and read back: planes of the format of the bit depth, each
  backed by its memory.
\<close>

definition output_backed :: "stream_parameters \<Rightarrow> plane_window list \<Rightarrow> frame_memory \<Rightarrow> bool" where
  "output_backed stream ws memory \<longleftrightarrow>
     length ws \<le> length memory \<and>
     (\<forall>i < length ws. window_backed (ws ! i) (memory ! i) \<and>
        pw_sample_format (ws ! i) = sample_format_for_bit_depth (sp_bits_per_raw_sample stream))"

lemma output_row_address:
  assumes "pw_sample_format (ws ! i) = sample_format_for_bit_depth (sp_bits_per_raw_sample stream)"
    and "i < length ws" and "y < unat (pw_height (ws ! i))"
  shows "output_row stream ws i y = Inr (row_address (ws ! i) y)"
  using assms by (simp add: output_row_def row_u8_def row_u16_def window_row_def sample_format_for_bit_depth_def)

lemma load_sample_address:
  assumes "pw_sample_format (ws ! i) = sample_format_for_bit_depth (sp_bits_per_raw_sample stream)"
    and "i < length ws" and "y < unat (pw_height (ws ! i))"
  shows "load_sample stream ws memory i y x =
    (if sp_bits_per_raw_sample stream \<le> 8 then ucast (memory ! i ! (row_address (ws ! i) y + x))
     else ucast (load_u16 (memory ! i) (row_address (ws ! i) y + x * 2)))"
  using assms by (simp add: load_sample_def row_u8_def row_u16_def window_row_def sample_format_for_bit_depth_def)

lemma length_store_plane_row [simp]: "length (store_plane_row stream i row w samples memory) = length memory"
  by (simp add: store_plane_row_def)

lemma length_store_plane_row_nth:
  "j < length memory \<Longrightarrow> length (store_plane_row stream i row w samples memory ! j) = length (memory ! j)"
  by (cases "i = j") (simp_all add: store_plane_row_def)

lemma window_backed_length: "length m = length m' \<Longrightarrow> window_backed w m = window_backed w m'"
  by (simp add: window_backed_def)

lemma output_backed_store:
  assumes "output_backed stream ws memory"
  shows "output_backed stream ws (store_plane_row stream i row w samples memory)"
  unfolding output_backed_def
proof (intro conjI allI impI)
  fix j assume j: "j < length ws"
  with assms have "j < length memory" by (simp add: output_backed_def)
  from window_backed_length [OF length_store_plane_row_nth [OF this]] assms j
  show "window_backed (ws ! j) (store_plane_row stream i row w samples memory ! j)"
    by (auto simp: output_backed_def)
qed (use assms in \<open>simp_all add: output_backed_def\<close>)

definition stored_sample :: "stream_parameters \<Rightarrow> u16 \<Rightarrow> u32" where
  "stored_sample stream s = (if sp_bits_per_raw_sample stream \<le> 8 then ucast (ucast s :: u8) else ucast s)"

lemma load_stored_row:
  assumes "output_backed stream ws memory" and "i < length ws" and "y < unat (pw_height (ws ! i))"
    and "w = unat (pw_width (ws ! i))" and "x < w"
  shows "load_sample stream ws (store_plane_row stream i (row_address (ws ! i) y) w samples memory) i y x =
    stored_sample stream (samples x)"
proof -
  let ?a = "row_address (ws ! i) y"
  from assms(1,2) have fmt: "pw_sample_format (ws ! i) = sample_format_for_bit_depth (sp_bits_per_raw_sample stream)"
    and bk: "window_backed (ws ! i) (memory ! i)" and len: "i < length memory"
    by (auto simp: output_backed_def)
  note load = load_sample_address [OF fmt assms(2,3)]
  have mem: "store_plane_row stream i ?a w samples memory ! i =
      store_row (8 < sp_bits_per_raw_sample stream) ?a w samples (memory ! i)"
    using len by (simp add: store_plane_row_def)
  have fits: "?a + w * sample_bytes (sample_format_for_bit_depth (sp_bits_per_raw_sample stream)) \<le> length (memory ! i)"
    using bk assms(3) by (simp add: window_backed_def fmt assms(4))
  show ?thesis
  proof (cases "sp_bits_per_raw_sample stream \<le> 8")
    case True
    then have "?a + w \<le> length (memory ! i)" using fits by (simp add: sample_format_for_bit_depth_def sample_bytes_cases)
    moreover have "(8 < sp_bits_per_raw_sample stream) = False" using True by simp
    ultimately show ?thesis using store_row_narrow [OF assms(5)] True by (simp add: load mem stored_sample_def)
  next
    case False
    then have "?a + w * 2 \<le> length (memory ! i)" using fits by (simp add: sample_format_for_bit_depth_def sample_bytes_cases)
    moreover have "(8 < sp_bits_per_raw_sample stream) = True" using False by simp
    ultimately show ?thesis using store_row_wide [OF assms(5)] False by (simp add: load mem stored_sample_def)
  qed
qed

lemma load_other_row:
  assumes "output_backed stream ws memory" and "i < length ws" and "y < unat (pw_height (ws ! i))"
    and "w = unat (pw_width (ws ! i))" and "i' < length ws" and "y' < unat (pw_height (ws ! i'))"
    and "x' < unat (pw_width (ws ! i'))" and "(i, y) \<noteq> (i', y')"
  shows "load_sample stream ws (store_plane_row stream i (row_address (ws ! i) y) w samples memory) i' y' x' =
    load_sample stream ws memory i' y' x'"
proof (cases "i' = i")
  case False
  with assms show ?thesis by (simp add: load_sample_def store_plane_row_def)
next
  case True
  let ?a = "row_address (ws ! i) y" and ?a' = "row_address (ws ! i) y'"
  from assms(1,2) have fmt: "pw_sample_format (ws ! i) = sample_format_for_bit_depth (sp_bits_per_raw_sample stream)"
    and bk: "window_backed (ws ! i) (memory ! i)" and len: "i < length memory"
    by (auto simp: output_backed_def)
  let ?b = "sample_bytes (pw_sample_format (ws ! i))"
  have b: "(if 8 < sp_bits_per_raw_sample stream then 2 else 1) = ?b"
    by (simp add: fmt sample_format_for_bit_depth_def sample_bytes_cases not_less)
  have "y < y' \<or> y' < y" using assms(8) True by auto
  then have apart: "?a' + unat (pw_width (ws ! i)) * ?b \<le> ?a \<or> ?a + w * ?b \<le> ?a'"
    using rows_apart [OF bk, of y y'] rows_apart [OF bk, of y' y] assms(4) by auto
  have mem: "store_plane_row stream i ?a w samples memory ! i =
      store_row (8 < sp_bits_per_raw_sample stream) ?a w samples (memory ! i)"
    using len by (simp add: store_plane_row_def)
  have "x' * ?b + ?b \<le> unat (pw_width (ws ! i)) * ?b"
  proof -
    have "(x' + 1) * ?b \<le> unat (pw_width (ws ! i)) * ?b" using assms(7) True by (intro mult_le_mono1) simp
    then show ?thesis by (simp only: add_mult_distrib mult_1)
  qed
  then have same: "store_row (8 < sp_bits_per_raw_sample stream) ?a w samples (memory ! i) ! (?a' + x' * ?b + k) =
      memory ! i ! (?a' + x' * ?b + k)" if "k < ?b" for k
    using apart that by (intro store_row_outside) (simp only: b, linarith)
  note load = load_sample_address [OF fmt assms(2), of y']
  have y': "y' < unat (pw_height (ws ! i))" using assms(6) True by simp
  show ?thesis
  proof (cases "sp_bits_per_raw_sample stream \<le> 8")
    case narrow: True
    then have "?b = 1" by (simp add: fmt sample_format_for_bit_depth_def sample_bytes_cases)
    with same [of 0] narrow show ?thesis by (simp add: True load [OF y'] mem)
  next
    case wide: False
    then have "?b = 2" by (simp add: fmt sample_format_for_bit_depth_def sample_bytes_cases)
    with same [of 0] same [of 1] wide show ?thesis by (simp add: True load [OF y'] mem load_u16_def)
  qed
qed

end
