(* ===== verification/Range_Planes.thy ===== *)
theory Range_Planes
  imports Slice_Samples
begin

text \<open>
  The range-coded samples of a slice: \<open>SliceEncoder::encode_samples\<close> of
  \<^verbatim>\<open>src/src/codec/slice_encoder.cpp\<close> and the range branch of \<open>SliceDecoder::decode\<close> in
  \<^verbatim>\<open>slice_decoder.cpp\<close>, plane by plane, row by row, and sample by sample in the order of the code.
\<close>

subsection \<open>Encoding\<close>

definition encode_planar_sample ::
  "stream_parameters \<Rightarrow> plane_window list \<Rightarrow> frame_memory \<Rightarrow> quant_table_set \<Rightarrow> nat \<Rightarrow> nat \<Rightarrow> nat \<Rightarrow> nat \<Rightarrow>
     line_state \<Rightarrow> range_encoder \<Rightarrow> (line_state \<times> range_encoder) result" where
  "encode_planar_sample stream input memory table_set context_bank plane_index y x line writer =
     bind_result (read_sample stream input memory plane_index y x) (\<lambda>sample.
       encode_sample table_set context_bank (uint sample) (sp_bits_per_raw_sample stream)
         (uses_signed_16bit_predictor stream) x line writer)"

definition encode_planar_row ::
  "stream_parameters \<Rightarrow> plane_window list \<Rightarrow> frame_memory \<Rightarrow> quant_table_set \<Rightarrow> nat \<Rightarrow> nat \<Rightarrow> nat \<Rightarrow>
     line_state \<Rightarrow> range_encoder \<Rightarrow> (line_state \<times> range_encoder) result" where
  "encode_planar_row stream input memory table_set context_bank plane_index y line writer =
     bind_result (loop_result (encode_planar_sample stream input memory table_set context_bank plane_index y)
                    [0..<unat (window_plane_width input plane_index)] line writer) (\<lambda>(line, writer).
       Inr (ls_swap_lines line, writer))"

definition range_context_bank_index :: "stream_parameters \<Rightarrow> nat \<Rightarrow> nat" where
  "range_context_bank_index stream plane_index =
     (if 3 \<le> sp_version stream then plane_quant_table_set_index_slot stream plane_index else plane_index)"

definition encode_plane ::
  "stream_parameters \<Rightarrow> plane_window list \<Rightarrow> frame_memory \<Rightarrow> quant_table_set \<Rightarrow> nat \<Rightarrow>
     slice_state \<Rightarrow> range_encoder \<Rightarrow> (slice_state \<times> range_encoder) result" where
  "encode_plane stream input memory table_set plane_index state writer =
     bind_result (loop_result (encode_planar_row stream input memory table_set
                                 (range_context_bank_index stream plane_index) plane_index)
                    [0..<unat (window_plane_height input plane_index)] (ss_line_state state plane_index) writer)
       (\<lambda>(line, writer). Inr (set_line_state plane_index line state, writer))"

text \<open>The RGB samples of a row are read and checked pixel by pixel before the row is transformed.\<close>

fun read_rgb_pixels ::
  "stream_parameters \<Rightarrow> plane_window list \<Rightarrow> frame_memory \<Rightarrow> nat \<Rightarrow> nat list \<Rightarrow> (u16 \<times> u16 \<times> u16) list result" where
  "read_rgb_pixels stream input memory y [] = Inr []"
| "read_rgb_pixels stream input memory y (x # xs) =
     bind_result (read_sample stream input memory 0 y x) (\<lambda>r.
     bind_result (read_sample stream input memory 1 y x) (\<lambda>g.
     bind_result (read_sample stream input memory 2 y x) (\<lambda>b.
     bind_result (read_rgb_pixels stream input memory y xs) (\<lambda>pixels.
       Inr ((ucast r, ucast g, ucast b) # pixels)))))"

definition encode_rgb_sample ::
  "stream_parameters \<Rightarrow> plane_window list \<Rightarrow> frame_memory \<Rightarrow> quant_table_set \<Rightarrow> nat \<Rightarrow> int list list \<Rightarrow> nat \<Rightarrow> nat \<Rightarrow>
     line_state \<Rightarrow> range_encoder \<Rightarrow> (line_state \<times> range_encoder) result" where
  "encode_rgb_sample stream input memory table_set y transformed plane_index x line writer =
     (let context_bank = range_context_bank_index stream plane_index in
      if plane_index < 3
      then encode_sample table_set context_bank (transformed ! plane_index ! x) (sp_bits_per_raw_sample stream + 1)
             False x line writer
      else
        bind_result (read_sample stream input memory plane_index y x) (\<lambda>alpha.
          encode_sample table_set context_bank (uint alpha) (sp_bits_per_raw_sample stream) False x line writer))"

definition encode_rgb_plane ::
  "stream_parameters \<Rightarrow> plane_window list \<Rightarrow> frame_memory \<Rightarrow> quant_table_set \<Rightarrow> nat \<Rightarrow> int list list \<Rightarrow> nat \<Rightarrow>
     slice_state \<Rightarrow> range_encoder \<Rightarrow> (slice_state \<times> range_encoder) result" where
  "encode_rgb_plane stream input memory table_set y transformed plane_index state writer =
     bind_result (loop_result (encode_rgb_sample stream input memory table_set y transformed plane_index)
                    [0..<unat (window_plane_width input 0)] (ss_line_state state plane_index) writer)
       (\<lambda>(line, writer). Inr (set_line_state plane_index line state, writer))"

definition swap_all_lines :: "slice_state \<Rightarrow> slice_state" where
  "swap_all_lines state = state\<lparr>ss_line_states := map ls_swap_lines (ss_line_states state)\<rparr>"

definition encode_rgb_row ::
  "stream_parameters \<Rightarrow> codec_kernels \<Rightarrow> plane_window list \<Rightarrow> frame_memory \<Rightarrow> quant_table_set \<Rightarrow> nat \<Rightarrow>
     slice_state \<Rightarrow> range_encoder \<Rightarrow> (slice_state \<times> range_encoder) result" where
  "encode_rgb_row stream kernels input memory table_set y state writer =
     (let w = unat (window_plane_width input 0) in
      bind_result (read_rgb_pixels stream input memory y [0..<w]) (\<lambda>pixels.
        let (coded_y, cb, cr) = forward_color_transform_row kernels (map (\<lambda>(r, g, b). r) pixels)
              (map (\<lambda>(r, g, b). g) pixels) (map (\<lambda>(r, g, b). b) pixels) w
              (sp_bits_per_raw_sample stream) (sp_extra_plane stream)
        in bind_result (loop_result (encode_rgb_plane stream input memory table_set y [coded_y, cb, cr])
                          [0..<coded_plane_count stream] state writer) (\<lambda>(state, writer).
             Inr (swap_all_lines state, writer))))"

definition encode_samples ::
  "stream_parameters \<Rightarrow> codec_kernels \<Rightarrow> plane_window list \<Rightarrow> frame_memory \<Rightarrow>
     slice_state \<Rightarrow> range_encoder \<Rightarrow> (slice_state \<times> range_encoder) result" where
  "encode_samples stream kernels input memory state writer =
     (let table_set = sp_quant_table_sets stream ! 0 in
      if sp_colorspace_type stream = 1
      then loop_result (encode_rgb_row stream kernels input memory table_set)
             [0..<unat (window_plane_height input 0)] state writer
      else loop_result (encode_plane stream input memory table_set) [0..<coded_plane_count stream] state writer)"

subsection \<open>Decoding\<close>

definition decode_planar_row ::
  "u64 \<Rightarrow> stream_parameters \<Rightarrow> quant_table_set \<Rightarrow> nat \<Rightarrow> plane_window list \<Rightarrow> nat \<Rightarrow> nat \<Rightarrow>
     line_state \<times> frame_memory \<Rightarrow> range_coder \<Rightarrow> ((line_state \<times> frame_memory) \<times> range_coder) result" where
  "decode_planar_row reader_base_offset stream table_set context_bank output plane_index y = (\<lambda>(line, memory) reader.
     bind_result (decode_range_line reader_base_offset table_set context_bank (window_plane_width output plane_index)
                    (sp_bits_per_raw_sample stream) (uses_signed_16bit_predictor stream) line reader)
       (\<lambda>(line, reader). bind_result (store_planar_line stream output plane_index y line memory)
       (\<lambda>(line, memory). Inr ((line, memory), reader))))"

definition decode_plane ::
  "u64 \<Rightarrow> stream_parameters \<Rightarrow> quant_table_set list \<Rightarrow> nat list \<Rightarrow> plane_window list \<Rightarrow> nat \<Rightarrow>
     slice_state \<times> frame_memory \<Rightarrow> range_coder \<Rightarrow> ((slice_state \<times> frame_memory) \<times> range_coder) result" where
  "decode_plane reader_base_offset stream context_models context_bank_indexes output plane_index = (\<lambda>(state, memory) reader.
     bind_result (loop_result (decode_planar_row reader_base_offset stream (context_models ! plane_index)
                                 (context_bank_indexes ! plane_index) output plane_index)
                    [0..<unat (window_plane_height output plane_index)] (ss_line_state state plane_index, memory) reader)
       (\<lambda>((line, memory), reader). Inr ((set_line_state plane_index line state, memory), reader)))"

text \<open>The row order of versions 0 and 1 when no plane is subsampled: the rows of the planes alternate.\<close>

definition decode_legacy_plane_row ::
  "u64 \<Rightarrow> stream_parameters \<Rightarrow> quant_table_set list \<Rightarrow> nat list \<Rightarrow> plane_window list \<Rightarrow> nat \<Rightarrow> nat \<Rightarrow>
     slice_state \<times> frame_memory \<Rightarrow> range_coder \<Rightarrow> ((slice_state \<times> frame_memory) \<times> range_coder) result" where
  "decode_legacy_plane_row reader_base_offset stream context_models context_bank_indexes output y plane_index =
     (\<lambda>(state, memory) reader.
       if unat (window_plane_height output plane_index) \<le> y then Inr ((state, memory), reader)
       else
         bind_result (decode_planar_row reader_base_offset stream (context_models ! plane_index)
                        (context_bank_indexes ! plane_index) output plane_index y
                        (ss_line_state state plane_index, memory) reader)
           (\<lambda>((line, memory), reader). Inr ((set_line_state plane_index line state, memory), reader)))"

definition decode_legacy_row ::
  "u64 \<Rightarrow> stream_parameters \<Rightarrow> quant_table_set list \<Rightarrow> nat list \<Rightarrow> plane_window list \<Rightarrow> nat \<Rightarrow>
     slice_state \<times> frame_memory \<Rightarrow> range_coder \<Rightarrow> ((slice_state \<times> frame_memory) \<times> range_coder) result" where
  "decode_legacy_row reader_base_offset stream context_models context_bank_indexes output y =
     loop_result (decode_legacy_plane_row reader_base_offset stream context_models context_bank_indexes output y)
       [0..<window_plane_count output]"

definition decode_rgb_plane ::
  "u64 \<Rightarrow> stream_parameters \<Rightarrow> quant_table_set list \<Rightarrow> nat list \<Rightarrow> plane_window list \<Rightarrow> nat \<Rightarrow>
     slice_state \<Rightarrow> range_coder \<Rightarrow> (slice_state \<times> range_coder) result" where
  "decode_rgb_plane reader_base_offset stream context_models context_bank_indexes output plane_index state reader =
     bind_result (decode_range_line reader_base_offset (context_models ! plane_index)
                    (context_bank_indexes ! plane_index) (window_plane_width output 0)
                    (if plane_index < 3 then sp_bits_per_raw_sample stream + 1 else sp_bits_per_raw_sample stream)
                    False (ss_line_state state plane_index) reader)
       (\<lambda>(line, reader). Inr (set_line_state plane_index line state, reader))"

definition decode_rgb_row ::
  "u64 \<Rightarrow> stream_parameters \<Rightarrow> codec_kernels \<Rightarrow> quant_table_set list \<Rightarrow> nat list \<Rightarrow> plane_window list \<Rightarrow> nat \<Rightarrow>
     slice_state \<times> frame_memory \<Rightarrow> range_coder \<Rightarrow> ((slice_state \<times> frame_memory) \<times> range_coder) result" where
  "decode_rgb_row reader_base_offset stream kernels context_models context_bank_indexes output y =
     (\<lambda>(state, memory) reader.
       bind_result (loop_result (decode_rgb_plane reader_base_offset stream context_models context_bank_indexes output)
                      [0..<window_plane_count output] state reader)
         (\<lambda>(state, reader). bind_result (store_rgb_line stream kernels output y state memory)
         (\<lambda>(state, memory). Inr ((state, memory), reader))))"

definition use_legacy_range_ycbcr_row_order :: "stream_parameters \<Rightarrow> bool" where
  "use_legacy_range_ycbcr_row_order stream \<longleftrightarrow>
     sp_version stream \<le> 1 \<and> sp_entropy_mode stream = RangeMode \<and> sp_colorspace_type stream = 0 \<and>
     sp_chroma_planes stream \<and> sp_log2_h_chroma_subsample stream = 0 \<and> sp_log2_v_chroma_subsample stream = 0"

definition decode_range_samples ::
  "u64 \<Rightarrow> stream_parameters \<Rightarrow> codec_kernels \<Rightarrow> quant_table_set list \<Rightarrow> nat list \<Rightarrow> plane_window list \<Rightarrow>
     slice_state \<times> frame_memory \<Rightarrow> range_coder \<Rightarrow> ((slice_state \<times> frame_memory) \<times> range_coder) result" where
  "decode_range_samples reader_base_offset stream kernels context_models context_bank_indexes output =
     (if sp_colorspace_type stream = 1
      then loop_result (decode_rgb_row reader_base_offset stream kernels context_models context_bank_indexes output)
             [0..<unat (window_plane_height output 0)]
      else if use_legacy_range_ycbcr_row_order stream
      then loop_result (decode_legacy_row reader_base_offset stream context_models context_bank_indexes output)
             [0..<unat (window_plane_height output 0)]
      else loop_result (decode_plane reader_base_offset stream context_models context_bank_indexes output)
             [0..<window_plane_count output])"

end
