(* ===== verification/Range_Slice.thy ===== *)
theory Range_Slice
  imports Range_Planes
begin

text \<open>
  What the encoder codes from its input planes the decoder stores into its output planes: the loops over
  planes, rows and samples of \<open>Range_Planes\<close> run in step, and every row that both have passed holds the
  same samples.
\<close>

subsection \<open>Windows of the same shape\<close>

definition same_shape :: "plane_window list \<Rightarrow> plane_window list \<Rightarrow> bool" where
  "same_shape iws ows \<longleftrightarrow> length iws = length ows \<and>
     (\<forall>i < length ows. pw_width (iws ! i) = pw_width (ows ! i) \<and> pw_height (iws ! i) = pw_height (ows ! i))"

text \<open>The rows of the set \<open>D\<close>, pairs of plane and row, hold the same samples in both.\<close>

definition copied ::
  "stream_parameters \<Rightarrow> plane_window list \<Rightarrow> frame_memory \<Rightarrow> plane_window list \<Rightarrow> frame_memory \<Rightarrow> (nat \<times> nat) set \<Rightarrow> bool" where
  "copied stream iws im ows m D \<longleftrightarrow>
     (\<forall>(i, y) \<in> D. i < length ows \<longrightarrow> y < unat (pw_height (ows ! i)) \<longrightarrow>
        (\<forall>x < unat (pw_width (ows ! i)). load_sample stream ows m i y x = load_sample stream iws im i y x))"

lemma same_shape_window:
  assumes "same_shape iws ows" and "i < length ows"
  shows "window_plane_width iws i = pw_width (ows ! i)" and "window_plane_width ows i = pw_width (ows ! i)"
    and "window_plane_height iws i = pw_height (ows ! i)" and "window_plane_height ows i = pw_height (ows ! i)"
  using assms by (simp_all add: same_shape_def window_plane_width_def window_plane_height_def)

lemma copied_store:
  assumes "output_backed stream ows m" and "copied stream iws im ows m D"
    and "i < length ows" and "y < unat (pw_height (ows ! i))" and "w = unat (pw_width (ows ! i))"
    and "\<And>x. x < w \<Longrightarrow> stored_sample stream (samples x) = load_sample stream iws im i y x"
  shows "copied stream iws im ows (store_plane_row stream i (row_address (ows ! i) y) w samples m) (insert (i, y) D)"
  unfolding copied_def
proof (clarify)
  fix i' y' x
  assume D: "(i', y') \<in> insert (i, y) D" and b: "i' < length ows" "y' < unat (pw_height (ows ! i'))" "x < unat (pw_width (ows ! i'))"
  show "load_sample stream ows (store_plane_row stream i (row_address (ows ! i) y) w samples m) i' y' x =
      load_sample stream iws im i' y' x"
  proof (cases "(i, y) = (i', y')")
    case True
    with load_stored_row [OF assms(1,3,4,5), of x samples] assms(5,6) b show ?thesis by auto
  next
    case False
    with D assms(2) b have "load_sample stream ows m i' y' x = load_sample stream iws im i' y' x"
      by (auto simp: copied_def)
    with load_other_row [OF assms(1,3,4,5) b False] show ?thesis by simp
  qed
qed

subsection \<open>Samples of the bit depth\<close>

lemma within_maximum:
  assumes "\<not> maximum_sample stream < s" and "unat (sp_bits_per_raw_sample stream) \<le> 16"
  shows "unat s < 2 ^ unat (sp_bits_per_raw_sample stream)"
proof (cases "sp_bits_per_raw_sample stream = 16")
  case True
  then have "unat s \<le> 0xffff" using assms(1) by (simp add: maximum_sample_def not_less word_le_nat_alt)
  with True show ?thesis by simp
next
  case False
  let ?n = "unat (sp_bits_per_raw_sample stream)"
  have e: "unat (push_bit ?n 1 :: u32) = 2 ^ ?n" using assms(2) by (intro unat_exp) simp
  have "unat (push_bit ?n 1 - 1 :: u32) = 2 ^ ?n - 1" by (subst unat_diff_bounded) (simp_all only: e, simp_all)
  then have "unat s \<le> 2 ^ ?n - 1"
    using assms(1) False by (simp add: maximum_sample_def not_less word_le_nat_alt)
  moreover have "(1 :: nat) \<le> 2 ^ ?n" by simp
  ultimately show ?thesis by linarith
qed

lemma stored_sample_exact:
  assumes "unat s < 2 ^ unat (sp_bits_per_raw_sample stream)" and "unat (sp_bits_per_raw_sample stream) \<le> 16"
  shows "stored_sample stream (ucast s) = s"
proof -
  let ?n = "unat (sp_bits_per_raw_sample stream)"
  have "unat s < 2 ^ 16" using assms power_increasing [of ?n 16 "2 :: nat"] by simp
  then have u: "unat (ucast s :: u16) = unat s" by (intro unat_ucast_small) simp
  show ?thesis
  proof (cases "sp_bits_per_raw_sample stream \<le> 8")
    case True
    then have "?n \<le> 8" by (simp add: word_le_nat_alt)
    then have "unat s < 2 ^ 8" using assms(1) power_increasing [of ?n 8 "2 :: nat"] by simp
    then have "unat (ucast (ucast s :: u16) :: u8) = unat s" by (subst unat_ucast_small) (simp_all add: u)
    with True show ?thesis by (intro word_unat_eq_iff [THEN iffD2]) (simp add: stored_sample_def)
  next
    case False
    with u show ?thesis by (intro word_unat_eq_iff [THEN iffD2]) (simp add: stored_sample_def)
  qed
qed

lemma uint_bound: "unat (s :: 'a::len word) < 2 ^ n \<Longrightarrow> 0 \<le> uint s \<and> uint s < 2 ^ n"
proof -
  assume "unat s < 2 ^ n"
  then have "int (unat s) < int (2 ^ n)" by (simp only: of_nat_less_iff)
  then show ?thesis by simp
qed

subsection \<open>Planar samples\<close>

lemma encode_planar_sample_Inr:
  "encode_planar_sample stream iws im table_set bank i y x line e = Inr r \<longleftrightarrow>
    \<not> maximum_sample stream < load_sample stream iws im i y x \<and>
    encode_sample table_set bank (uint (load_sample stream iws im i y x)) (sp_bits_per_raw_sample stream)
      (uses_signed_16bit_predictor stream) x line e = Inr r"
  by (simp add: encode_planar_sample_def read_sample_def Let_def)

lemma encode_planar_samples:
  assumes "loop_result (encode_planar_sample stream iws im table_set bank i y) xs line e = Inr r"
    and "unat (sp_bits_per_raw_sample stream) \<le> 16"
  shows "\<forall>x \<in> set xs. unat (load_sample stream iws im i y x) < 2 ^ unat (sp_bits_per_raw_sample stream)"
    and "loop_result (encode_samples_at table_set bank (\<lambda>x. uint (load_sample stream iws im i y x))
      (sp_bits_per_raw_sample stream) (uses_signed_16bit_predictor stream)) xs line e = Inr r"
proof -
  have "(\<forall>x \<in> set xs. unat (load_sample stream iws im i y x) < 2 ^ unat (sp_bits_per_raw_sample stream)) \<and>
    loop_result (encode_samples_at table_set bank (\<lambda>x. uint (load_sample stream iws im i y x))
      (sp_bits_per_raw_sample stream) (uses_signed_16bit_predictor stream)) xs line e = Inr r"
    using assms(1)
  proof (induction xs arbitrary: line e)
    case Nil
    then show ?case by simp
  next
    case (Cons x xs)
    then obtain line1 e1 where
      ok: "\<not> maximum_sample stream < load_sample stream iws im i y x" and
      w: "encode_sample table_set bank (uint (load_sample stream iws im i y x)) (sp_bits_per_raw_sample stream)
        (uses_signed_16bit_predictor stream) x line e = Inr (line1, e1)" and
      rest: "loop_result (encode_planar_sample stream iws im table_set bank i y) xs line1 e1 = Inr r"
      by (auto simp: encode_planar_sample_Inr)
    with Cons.IH [OF rest] within_maximum [OF ok assms(2)] show ?case by (simp add: encode_samples_at_def)
  qed
  then show "\<forall>x \<in> set xs. unat (load_sample stream iws im i y x) < 2 ^ unat (sp_bits_per_raw_sample stream)"
    and "loop_result (encode_samples_at table_set bank (\<lambda>x. uint (load_sample stream iws im i y x))
      (sp_bits_per_raw_sample stream) (uses_signed_16bit_predictor stream)) xs line e = Inr r"
    by blast+
qed

lemma planar_row_matched:
  assumes run: "encode_planar_row stream iws im table_set bank i y line e = Inr (line', e')"
    and inv: "enc_inv e" and shape: "same_shape iws ows" and i: "i < length ows" "y < unat (pw_height (ows ! i))"
    and line: "line_within (2 ^ unat (sp_bits_per_raw_sample stream)) (unat (pw_width (ows ! i))) line"
    and bits: "0 < unat (sp_bits_per_raw_sample stream)" "unat (sp_bits_per_raw_sample stream) \<le> 16"
    and out: "output_backed stream ows m" and D: "copied stream iws im ows m D"
  shows "\<exists>m'. matched (range_link bs) e e' (decode_planar_row base stream table_set bank ows i y (line, m)) (line', m') \<and>
    line_within (2 ^ unat (sp_bits_per_raw_sample stream)) (unat (pw_width (ows ! i))) line' \<and>
    output_backed stream ows m' \<and> copied stream iws im ows m' (insert (i, y) D)"
proof -
  let ?n = "unat (sp_bits_per_raw_sample stream)" and ?w = "pw_width (ows ! i)"
  let ?s = "\<lambda>x. load_sample stream iws im i y x"
  note win = same_shape_window [OF shape i(1)]
  from run obtain line1 where
    loop: "loop_result (encode_planar_sample stream iws im table_set bank i y) [0..<unat ?w] line e = Inr (line1, e')"
    and line': "line' = ls_swap_lines line1"
    by (auto simp: encode_planar_row_def win)
  note enc = encode_planar_samples [OF loop bits(2)]
  have depth: "unat (?s x) < 2 ^ ?n" if "x < unat ?w" for x using enc(1) that by simp
  have signed: "uses_signed_16bit_predictor stream \<longrightarrow> ?n \<le> 16" using bits by simp
  have samples: "\<forall>x < unat ?w. 0 \<le> uint (?s x) \<and> uint (?s x) < 2 ^ ?n" using uint_bound depth by blast
  have n17: "?n \<le> 17" using bits(2) by simp
  note row = encode_full_line_matched [OF enc(2) inv line refl bits(1) n17 signed samples]
  have current: "ls_current line1 ! x = uint (?s x)" if "x < unat ?w" for x using that by (simp add: row(2))
  let ?m' = "store_plane_row stream i (row_address (ows ! i) y) (unat ?w) (\<lambda>x. word_of_int (ls_current line1 ! x)) m"
  have fmt: "pw_sample_format (ows ! i) = sample_format_for_bit_depth (sp_bits_per_raw_sample stream)"
    using out i(1) by (simp add: output_backed_def)
  have store: "store_planar_line stream ows i y line1 m = Inr (line', ?m')"
    by (simp add: store_planar_line_def output_row_address [where ws = ows, OF fmt i] win line')
  have "matched (range_link bs) e e' (decode_planar_row base stream table_set bank ows i y (line, m)) (line', ?m')"
    unfolding decode_planar_row_def prod.case win
    by (rule matched_cong [OF row(1) [where base = base]]) (simp add: store)
  moreover have "line_within (2 ^ ?n) (unat ?w) line'" using line_within_swap [OF row(3)] by (simp add: line')
  moreover have "copied stream iws im ows ?m' (insert (i, y) D)"
  proof (rule copied_store [OF out D i refl])
    fix x assume x: "x < unat ?w"
    have "(word_of_int (ls_current line1 ! x) :: u16) = ucast (?s x)"
      by (simp only: current [OF x] ucast_eq)
    then show "stored_sample stream (word_of_int (ls_current line1 ! x)) = ?s x"
      using stored_sample_exact [OF depth [OF x] bits(2)] by simp
  qed
  ultimately show ?thesis using output_backed_store [OF out] by blast
qed

text \<open>
  The lines of all planes, at the widths of their windows: the first three planes of an RGB stream carry one
  more bit; with Golomb-Rice codes so does the extra plane.
\<close>

definition coded_bits :: "stream_parameters \<Rightarrow> nat \<Rightarrow> u8" where
  "coded_bits stream i =
     (if sp_colorspace_type stream = 1 \<and> (i < 3 \<or> sp_entropy_mode stream = GolombRiceMode) then sp_bits_per_raw_sample stream + 1 else sp_bits_per_raw_sample stream)"

definition lines_within :: "stream_parameters \<Rightarrow> plane_window list \<Rightarrow> slice_state \<Rightarrow> bool" where
  "lines_within stream ows state \<longleftrightarrow>
     length (ss_line_states state) = length ows \<and>
     (\<forall>i < length ows. line_within (2 ^ unat (coded_bits stream i)) (unat (pw_width (ows ! i))) (ss_line_state state i))"

lemma lines_within_set:
  assumes "lines_within stream ows state"
    and "line_within (2 ^ unat (coded_bits stream i)) (unat (pw_width (ows ! i))) line"
  shows "lines_within stream ows (set_line_state i line state)"
  unfolding lines_within_def
proof (intro conjI allI impI)
  show "length (ss_line_states (set_line_state i line state)) = length ows"
    using assms(1) by (simp add: lines_within_def set_line_state_def)
  fix j assume j: "j < length ows"
  then show "line_within (2 ^ unat (coded_bits stream j)) (unat (pw_width (ows ! j))) (ss_line_state (set_line_state i line state) j)"
    using assms by (cases "i = j") (simp_all add: lines_within_def set_line_state_def ss_line_state_def)
qed

lemma loop_result_Cons_Inr:
  "loop_result f (x # xs) s w = Inr r \<longleftrightarrow> (\<exists>s' w'. f x s w = Inr (s', w') \<and> loop_result f xs s' w' = Inr r)"
  by (auto simp: bind_result_eq_Inr)

text \<open>
  Two loops in step: each iteration of the decoder reads what the iteration of the encoder wrote, keeps the
  invariant \<open>P\<close>, and adds the rows \<open>rows x\<close> to those that are copied.
\<close>

lemma loop_result_matched:
  assumes "loop_result enc xs s w = Inr (s', w')" and "winv k w" and "P s m D"
    and step: "\<And>x s w s' w' m D. x \<in> set xs \<Longrightarrow> enc x s w = Inr (s', w') \<Longrightarrow> winv k w \<Longrightarrow> P s m D \<Longrightarrow>
      \<exists>m'. matched k w w' (dec x (s, m)) (s', m') \<and> P s' m' (D \<union> rows x)"
  shows "\<exists>m'. matched k w w' (loop_result dec xs (s, m)) (s', m') \<and> P s' m' (D \<union> (\<Union>x \<in> set xs. rows x))"
  using assms
proof (induction xs arbitrary: s w m D)
  case Nil
  then show ?case by (auto intro!: exI [of _ m] matched_refl)
next
  case (Cons x xs)
  from Cons.prems(1) obtain s1 w1 where w1: "enc x s w = Inr (s1, w1)" and w2: "loop_result enc xs s1 w1 = Inr (s', w')"
    unfolding loop_result_Cons_Inr by blast
  from Cons.prems(4) [OF _ w1 Cons.prems(2,3)] obtain m1 where
    m1: "matched k w w1 (dec x (s, m)) (s1, m1)" "P s1 m1 (D \<union> rows x)" by auto
  have "\<exists>m'. matched k w1 w' (loop_result dec xs (s1, m1)) (s', m') \<and> P s' m' (D \<union> rows x \<union> (\<Union>x \<in> set xs. rows x))"
    by (rule Cons.IH [OF w2 matched_winv [OF m1(1)] m1(2)]) (simp add: Cons.prems(4))
  then obtain m' where m': "matched k w1 w' (loop_result dec xs (s1, m1)) (s', m')" "P s' m' (D \<union> rows x \<union> (\<Union>x \<in> set xs. rows x))"
    by blast
  have "matched k w w' (loop_result dec (x # xs) (s, m)) (s', m')"
    unfolding loop_result.simps by (rule matched_bindI [OF m1(1)], simp only: prod.case, rule m'(1))
  moreover have "D \<union> rows x \<union> (\<Union>x \<in> set xs. rows x) = D \<union> (\<Union>x \<in> set (x # xs). rows x)" by auto
  ultimately show ?case using m'(2) by (intro exI [of _ m'] conjI) (simp_all only:)
qed

lemma planar_rows_matched:
  assumes run: "loop_result (encode_planar_row stream iws im table_set bank i) ys line e = Inr (line', e')"
    and inv: "enc_inv e" and shape: "same_shape iws ows" and i: "i < length ows" "\<forall>y \<in> set ys. y < unat (pw_height (ows ! i))"
    and line: "line_within (2 ^ unat (sp_bits_per_raw_sample stream)) (unat (pw_width (ows ! i))) line"
    and bits: "0 < unat (sp_bits_per_raw_sample stream)" "unat (sp_bits_per_raw_sample stream) \<le> 16"
    and out: "output_backed stream ows m" and D: "copied stream iws im ows m D"
  shows "\<exists>m'. matched (range_link bs) e e' (loop_result (decode_planar_row base stream table_set bank ows i) ys (line, m)) (line', m') \<and>
    line_within (2 ^ unat (sp_bits_per_raw_sample stream)) (unat (pw_width (ows ! i))) line' \<and>
    output_backed stream ows m' \<and> copied stream iws im ows m' (D \<union> {i} \<times> set ys)"
proof -
  have "\<exists>m'. matched (range_link bs) e e' (loop_result (decode_planar_row base stream table_set bank ows i) ys (line, m)) (line', m') \<and>
      (line_within (2 ^ unat (sp_bits_per_raw_sample stream)) (unat (pw_width (ows ! i))) line' \<and>
       output_backed stream ows m' \<and> copied stream iws im ows m' (D \<union> (\<Union>y \<in> set ys. {(i, y)})))"
  proof (rule loop_result_matched [OF run], goal_cases)
    case (3 y line e line' e' m D)
    with planar_row_matched [OF 3(2) _ shape i(1) _ _ bits, of m D bs base] i(2) show ?case by simp
  qed (use inv line out D in simp_all)
  moreover have "(\<Union>y \<in> set ys. {(i, y)}) = {i} \<times> set ys" by auto
  ultimately show ?thesis by simp
qed

text \<open>The parameters of the two sides agree: one table set for every plane, the same context banks.\<close>

definition same_contexts :: "stream_parameters \<Rightarrow> quant_table_set list \<Rightarrow> nat list \<Rightarrow> nat \<Rightarrow> bool" where
  "same_contexts stream models banks n \<longleftrightarrow>
     (\<forall>i < n. models ! i = sp_quant_table_sets stream ! 0 \<and> banks ! i = range_context_bank_index stream i)"

lemma encode_plane_Inr:
  "encode_plane stream iws im table_set i state e = Inr r \<longleftrightarrow>
    (\<exists>line' e'. loop_result (encode_planar_row stream iws im table_set (range_context_bank_index stream i) i)
       [0..<unat (window_plane_height iws i)] (ss_line_state state i) e = Inr (line', e') \<and>
       r = (set_line_state i line' state, e'))"
  by (auto simp: encode_plane_def bind_result_eq_Inr)

lemma plane_matched:
  assumes run: "encode_plane stream iws im (sp_quant_table_sets stream ! 0) i state e = Inr (state', e')"
    and inv: "enc_inv e" and shape: "same_shape iws ows" and i: "i < length ows"
    and ctx: "same_contexts stream models banks (length ows)"
    and planar: "sp_colorspace_type stream \<noteq> 1" and lines: "lines_within stream ows state"
    and bits: "0 < unat (sp_bits_per_raw_sample stream)" "unat (sp_bits_per_raw_sample stream) \<le> 16"
    and out: "output_backed stream ows m" and D: "copied stream iws im ows m D"
  shows "\<exists>m'. matched (range_link bs) e e' (decode_plane base stream models banks ows i (state, m)) (state', m') \<and>
    lines_within stream ows state' \<and>
    output_backed stream ows m' \<and> copied stream iws im ows m' (D \<union> {i} \<times> {..<unat (pw_height (ows ! i))})"
proof -
  let ?n = "unat (sp_bits_per_raw_sample stream)" and ?ys = "[0..<unat (pw_height (ows ! i))]"
  note win = same_shape_window [OF shape i]
  from run obtain line1 where
    rows: "loop_result (encode_planar_row stream iws im (sp_quant_table_sets stream ! 0) (range_context_bank_index stream i) i)
      ?ys (ss_line_state state i) e = Inr (line1, e')" and state': "state' = set_line_state i line1 state"
    unfolding encode_plane_Inr win prod.inject by blast
  have ys: "\<forall>y \<in> set ?ys. y < unat (pw_height (ows ! i))" by simp
  have line: "line_within (2 ^ ?n) (unat (pw_width (ows ! i))) (ss_line_state state i)"
    using lines i planar by (simp add: lines_within_def coded_bits_def)
  from planar_rows_matched [OF rows inv shape i ys line bits out D]
  obtain m1 where m1: "matched (range_link bs) e e' (loop_result (decode_planar_row base stream (sp_quant_table_sets stream ! 0)
      (range_context_bank_index stream i) ows i) ?ys (ss_line_state state i, m)) (line1, m1)"
    "line_within (2 ^ ?n) (unat (pw_width (ows ! i))) line1"
    "output_backed stream ows m1" "copied stream iws im ows m1 (D \<union> {i} \<times> set ?ys)" by blast
  have "matched (range_link bs) e e' (decode_plane base stream models banks ows i (state, m)) (state', m1)"
    unfolding decode_plane_def prod.case win
    by (rule matched_cong [OF m1(1)]) (use ctx i state' in \<open>simp add: same_contexts_def\<close>)
  moreover have "lines_within stream ows state'"
    using m1(2) planar unfolding state' by (intro lines_within_set [OF lines]) (simp add: coded_bits_def)
  moreover have "set ?ys = {..<unat (pw_height (ows ! i))}" by auto
  ultimately show ?thesis using m1(3,4) by auto
qed

lemma planes_matched:
  assumes run: "loop_result (encode_plane stream iws im (sp_quant_table_sets stream ! 0)) is state e = Inr (state', e')"
    and inv: "enc_inv e" and shape: "same_shape iws ows" and i: "\<forall>i \<in> set is. i < length ows"
    and ctx: "same_contexts stream models banks (length ows)"
    and planar: "sp_colorspace_type stream \<noteq> 1" and lines: "lines_within stream ows state"
    and bits: "0 < unat (sp_bits_per_raw_sample stream)" "unat (sp_bits_per_raw_sample stream) \<le> 16"
    and out: "output_backed stream ows m" and D: "copied stream iws im ows m D"
  shows "\<exists>m'. matched (range_link bs) e e' (loop_result (decode_plane base stream models banks ows) is (state, m)) (state', m') \<and>
    lines_within stream ows state' \<and>
    output_backed stream ows m' \<and> copied stream iws im ows m' (D \<union> {(i, y). i \<in> set is \<and> y < unat (pw_height (ows ! i))})"
proof -
  have "\<exists>m'. matched (range_link bs) e e' (loop_result (decode_plane base stream models banks ows) is (state, m)) (state', m') \<and>
      (lines_within stream ows state' \<and> output_backed stream ows m' \<and>
       copied stream iws im ows m' (D \<union> (\<Union>i \<in> set is. {i} \<times> {..<unat (pw_height (ows ! i))})))"
  proof (rule loop_result_matched [OF run], goal_cases)
    case (3 i state e state' e' m D)
    with plane_matched [OF 3(2) _ shape _ ctx planar _ bits, of m D bs base] i show ?case by simp
  qed (use inv lines out D in simp_all)
  moreover have "(\<Union>i \<in> set is. {i} \<times> {..<unat (pw_height (ows ! i))}) = {(i, y). i \<in> set is \<and> y < unat (pw_height (ows ! i))}" by auto
  ultimately show ?thesis by simp
qed

end
