(* ===== verification/Rgb_Slice.thy ===== *)
theory Rgb_Slice
  imports Range_Slice
begin

text \<open>
  The range-coded samples of an RGB slice, row by row: the rows go through the colour transform before they
  are coded and back through it after they are decoded. With the planar loops of \<open>Range_Slice\<close> this
  gives the round trip of \<open>encode_samples\<close> and \<open>decode_range_samples\<close>.
\<close>

subsection \<open>Reading the pixels of a row\<close>

lemma read_sample_Inr:
  "read_sample stream ws m i y x = Inr s \<longleftrightarrow>
     \<not> maximum_sample stream < load_sample stream ws m i y x \<and> s = load_sample stream ws m i y x"
  by (auto simp: read_sample_def Let_def)

lemma read_rgb_pixels_Inr:
  assumes "read_rgb_pixels stream iws im y xs = Inr pixels" and "unat (sp_bits_per_raw_sample stream) \<le> 16"
  shows "pixels = map (\<lambda>x. (ucast (load_sample stream iws im 0 y x), ucast (load_sample stream iws im 1 y x),
      ucast (load_sample stream iws im 2 y x))) xs"
    and "\<forall>x \<in> set xs. \<forall>i < 3. unat (load_sample stream iws im i y x) < 2 ^ unat (sp_bits_per_raw_sample stream)"
proof -
  have "pixels = map (\<lambda>x. (ucast (load_sample stream iws im 0 y x), ucast (load_sample stream iws im 1 y x),
      ucast (load_sample stream iws im 2 y x))) xs \<and>
    (\<forall>x \<in> set xs. \<forall>i < 3. unat (load_sample stream iws im i y x) < 2 ^ unat (sp_bits_per_raw_sample stream))"
    using assms(1)
  proof (induction xs arbitrary: pixels)
    case Nil
    then show ?case by simp
  next
    case (Cons x xs)
    let ?s = "\<lambda>i. load_sample stream iws im i y x"
    from Cons.prems obtain rest where
      ok: "\<not> maximum_sample stream < ?s 0" "\<not> maximum_sample stream < ?s 1" "\<not> maximum_sample stream < ?s 2" and
      rest: "read_rgb_pixels stream iws im y xs = Inr rest" and
      pixels: "pixels = (ucast (?s 0), ucast (?s 1), ucast (?s 2)) # rest"
      by (auto simp: read_sample_Inr)
    have "unat (?s i) < 2 ^ unat (sp_bits_per_raw_sample stream)" if "i < 3" for i
      using that within_maximum [OF ok(1) assms(2)] within_maximum [OF ok(2) assms(2)] within_maximum [OF ok(3) assms(2)]
      by (auto simp: less_Suc_eq numeral_3_eq_3 numeral_2_eq_2)
    with Cons.IH [OF rest] pixels show ?case by simp
  qed
  then show "pixels = map (\<lambda>x. (ucast (load_sample stream iws im 0 y x), ucast (load_sample stream iws im 1 y x),
      ucast (load_sample stream iws im 2 y x))) xs"
    and "\<forall>x \<in> set xs. \<forall>i < 3. unat (load_sample stream iws im i y x) < 2 ^ unat (sp_bits_per_raw_sample stream)"
    by blast+
qed

lemma loaded_row_of_depth:
  assumes "\<forall>x < n. unat (s x :: u32) < 2 ^ unat bits" and "unat bits \<le> 16"
  shows "row_of_depth bits n (map (\<lambda>x. ucast (s x)) [0..<n])"
proof -
  have "unat (ucast (s x) :: u16) = unat (s x)" if "x < n" for x
  proof -
    have "unat (s x) < 2 ^ 16" using assms that power_increasing [of "unat bits" 16 "2 :: nat"] by fastforce
    then show ?thesis by (intro unat_ucast_small) simp
  qed
  with assms(1) show ?thesis by (simp add: row_of_depth_def)
qed

subsection \<open>The planes of a row\<close>

text \<open>What the encoder codes at a position: the transformed sample, or the alpha sample as it is.\<close>

definition rgb_coded :: "stream_parameters \<Rightarrow> plane_window list \<Rightarrow> frame_memory \<Rightarrow> nat \<Rightarrow> int list list \<Rightarrow> nat \<Rightarrow> nat \<Rightarrow> int" where
  "rgb_coded stream iws im y transformed i x =
     (if i < 3 then transformed ! i ! x else uint (load_sample stream iws im i y x))"

lemma encode_rgb_sample_Inr:
  "encode_rgb_sample stream iws im table_set y transformed i x line e = Inr r \<longleftrightarrow>
    (3 \<le> i \<longrightarrow> \<not> maximum_sample stream < load_sample stream iws im i y x) \<and>
    encode_sample table_set (range_context_bank_index stream i) (rgb_coded stream iws im y transformed i x)
      (if i < 3 then sp_bits_per_raw_sample stream + 1 else sp_bits_per_raw_sample stream) False x line e = Inr r"
  by (auto simp: encode_rgb_sample_def read_sample_Inr rgb_coded_def Let_def)

lemma encode_rgb_samples:
  assumes "loop_result (encode_rgb_sample stream iws im table_set y transformed i) xs line e = Inr r"
  shows "3 \<le> i \<longrightarrow> (\<forall>x \<in> set xs. \<not> maximum_sample stream < load_sample stream iws im i y x)"
    and "loop_result (encode_samples_at table_set (range_context_bank_index stream i) (rgb_coded stream iws im y transformed i)
      (if i < 3 then sp_bits_per_raw_sample stream + 1 else sp_bits_per_raw_sample stream) False) xs line e = Inr r"
proof -
  have "(3 \<le> i \<longrightarrow> (\<forall>x \<in> set xs. \<not> maximum_sample stream < load_sample stream iws im i y x)) \<and>
    loop_result (encode_samples_at table_set (range_context_bank_index stream i) (rgb_coded stream iws im y transformed i)
      (if i < 3 then sp_bits_per_raw_sample stream + 1 else sp_bits_per_raw_sample stream) False) xs line e = Inr r"
    using assms
  proof (induction xs arbitrary: line e)
    case Nil
    then show ?case by simp
  next
    case (Cons x xs)
    from Cons.prems obtain line1 e1 where
      "encode_rgb_sample stream iws im table_set y transformed i x line e = Inr (line1, e1)" and
      rest: "loop_result (encode_rgb_sample stream iws im table_set y transformed i) xs line1 e1 = Inr r"
      by (auto simp only: loop_result_Cons_Inr)
    then have "3 \<le> i \<longrightarrow> \<not> maximum_sample stream < load_sample stream iws im i y x"
      "encode_sample table_set (range_context_bank_index stream i) (rgb_coded stream iws im y transformed i x)
        (if i < 3 then sp_bits_per_raw_sample stream + 1 else sp_bits_per_raw_sample stream) False x line e = Inr (line1, e1)"
      unfolding encode_rgb_sample_Inr by blast+
    with Cons.IH [OF rest] show ?case by (simp add: encode_samples_at_def)
  qed
  then show "3 \<le> i \<longrightarrow> (\<forall>x \<in> set xs. \<not> maximum_sample stream < load_sample stream iws im i y x)"
    and "loop_result (encode_samples_at table_set (range_context_bank_index stream i) (rgb_coded stream iws im y transformed i)
      (if i < 3 then sp_bits_per_raw_sample stream + 1 else sp_bits_per_raw_sample stream) False) xs line e = Inr r"
    by blast+
qed

lemma encode_rgb_plane_Inr:
  "encode_rgb_plane stream iws im table_set y transformed i state e = Inr r \<longleftrightarrow>
    (\<exists>line' e'. loop_result (encode_rgb_sample stream iws im table_set y transformed i)
       [0..<unat (window_plane_width iws 0)] (ss_line_state state i) e = Inr (line', e') \<and>
       r = (set_line_state i line' state, e'))"
  by (auto simp: encode_rgb_plane_def bind_result_eq_Inr)

text \<open>The geometry of an RGB slice: the planes have the same size.\<close>

definition rgb_windows :: "stream_parameters \<Rightarrow> plane_window list \<Rightarrow> bool" where
  "rgb_windows stream ows \<longleftrightarrow>
     length ows = coded_plane_count stream \<and> 3 \<le> length ows \<and> (length ows = 4 \<longleftrightarrow> sp_extra_plane stream) \<and> length ows \<le> 4 \<and>
     (\<forall>i < length ows. pw_width (ows ! i) = pw_width (ows ! 0) \<and> pw_height (ows ! i) = pw_height (ows ! 0))"

lemma rgb_plane_matched:
  assumes run: "encode_rgb_plane stream iws im (sp_quant_table_sets stream ! 0) y transformed i state e = Inr (state', e')"
    and inv: "enc_inv e" and shape: "same_shape iws ows" and i: "i < length ows"
    and ctx: "same_contexts stream models banks (length ows)" and rgb: "rgb_windows stream ows"
    and space: "sp_colorspace_type stream = 1" "sp_entropy_mode stream = RangeMode" and lines: "lines_within stream ows state"
    and bits: "0 < unat (sp_bits_per_raw_sample stream)" "unat (sp_bits_per_raw_sample stream) \<le> 16"
    and codes: "\<forall>j < 3. codes_of_depth (sp_bits_per_raw_sample stream) (unat (pw_width (ows ! 0))) (transformed ! j)"
  shows "matched (range_link bs) e e' (decode_rgb_plane base stream models banks ows i state) state'"
    and "lines_within stream ows state'"
    and "\<exists>line'. state' = set_line_state i line' state \<and>
      ls_current line' = map (rgb_coded stream iws im y transformed i) [0..<unat (pw_width (ows ! 0))]"
    and "3 \<le> i \<longrightarrow> (\<forall>x < unat (pw_width (ows ! 0)). \<not> maximum_sample stream < load_sample stream iws im i y x)"
proof -
  let ?w = "pw_width (ows ! 0)" and ?bits = "coded_bits stream i"
  have pos: "0 < length ows" using i by linarith
  note win = same_shape_window [OF shape pos]
  have wi: "pw_width (ows ! i) = ?w" using rgb i unfolding rgb_windows_def by blast
  from run obtain line' where
    loop: "loop_result (encode_rgb_sample stream iws im (sp_quant_table_sets stream ! 0) y transformed i)
      [0..<unat ?w] (ss_line_state state i) e = Inr (line', e')"
    and state': "state' = set_line_state i line' state"
    unfolding encode_rgb_plane_Inr win prod.inject by blast
  have cb: "(if i < 3 then sp_bits_per_raw_sample stream + 1 else sp_bits_per_raw_sample stream) = ?bits"
    by (simp add: coded_bits_def space)
  note enc = encode_rgb_samples [OF loop, unfolded cb]
  have line: "line_within (2 ^ unat ?bits) (unat ?w) (ss_line_state state i)"
    using lines i unfolding wi [symmetric] by (simp add: lines_within_def)
  have suc: "unat (sp_bits_per_raw_sample stream + 1) = unat (sp_bits_per_raw_sample stream) + 1"
    using bits(2) by (subst unat_add_bounded) simp_all
  have n: "0 < unat ?bits" "unat ?bits \<le> 17" using bits suc by (simp_all add: coded_bits_def)
  have samples: "\<forall>x < unat ?w. 0 \<le> rgb_coded stream iws im y transformed i x \<and> rgb_coded stream iws im y transformed i x < 2 ^ unat ?bits"
  proof (cases "i < 3")
    case True
    with codes have "codes_of_depth (sp_bits_per_raw_sample stream) (unat ?w) (transformed ! i)" by blast
    then show ?thesis using True space by (auto simp: rgb_coded_def coded_bits_def codes_of_depth_def suc)
  next
    case False
    then have "\<not> maximum_sample stream < load_sample stream iws im i y x" if "x < unat ?w" for x
      using enc(1) that by simp
    from uint_bound [OF within_maximum [OF this bits(2)]] False show ?thesis
      by (simp add: rgb_coded_def coded_bits_def space)
  qed
  note row = encode_full_line_matched [OF enc(2) inv line refl n _ samples, simplified]
  show "matched (range_link bs) e e' (decode_rgb_plane base stream models banks ows i state) state'"
    unfolding decode_rgb_plane_def [abs_def] win cb state'
    by (rule matched_cong [OF row(1) [where base = base]]) (use ctx i in \<open>simp add: same_contexts_def\<close>)
  show "lines_within stream ows state'"
    unfolding state' using row(3) wi by (intro lines_within_set [OF lines]) simp
  show "\<exists>line'. state' = set_line_state i line' state \<and>
      ls_current line' = map (rgb_coded stream iws im y transformed i) [0..<unat (pw_width (ows ! 0))]"
    using state' row(2) by blast
  show "3 \<le> i \<longrightarrow> (\<forall>x < unat ?w. \<not> maximum_sample stream < load_sample stream iws im i y x)"
    using enc(1) by simp
qed

lemma ss_line_state_set:
  "ss_line_state (set_line_state i line state) j =
    (if j = i \<and> i < length (ss_line_states state) then line else ss_line_state state j)"
  by (auto simp: ss_line_state_def set_line_state_def list_update_beyond)

text \<open>After the planes of \<open>is\<close> their current lines hold what was coded.\<close>

lemma rgb_planes_matched:
  assumes run: "loop_result (encode_rgb_plane stream iws im (sp_quant_table_sets stream ! 0) y transformed) is state e = Inr (state', e')"
    and inv: "enc_inv e" and shape: "same_shape iws ows" and i: "\<forall>i \<in> set is. i < length ows" and distinct: "distinct is"
    and ctx: "same_contexts stream models banks (length ows)" and rgb: "rgb_windows stream ows"
    and space: "sp_colorspace_type stream = 1" "sp_entropy_mode stream = RangeMode" and lines: "lines_within stream ows state"
    and bits: "0 < unat (sp_bits_per_raw_sample stream)" "unat (sp_bits_per_raw_sample stream) \<le> 16"
    and codes: "\<forall>j < 3. codes_of_depth (sp_bits_per_raw_sample stream) (unat (pw_width (ows ! 0))) (transformed ! j)"
  shows "matched (range_link bs) e e' (loop_result (decode_rgb_plane base stream models banks ows) is state) state' \<and>
    lines_within stream ows state' \<and>
    (\<forall>i < length ows. i \<notin> set is \<longrightarrow> ss_line_state state' i = ss_line_state state i) \<and>
    (\<forall>i \<in> set is. ls_current (ss_line_state state' i) = map (rgb_coded stream iws im y transformed i) [0..<unat (pw_width (ows ! 0))] \<and>
      (3 \<le> i \<longrightarrow> (\<forall>x < unat (pw_width (ows ! 0)). \<not> maximum_sample stream < load_sample stream iws im i y x)))"
  using run inv i distinct lines
proof (induction "is" arbitrary: state e)
  case Nil
  then show ?case by (simp add: matched_refl)
next
  case (Cons i "is")
  let ?row = "\<lambda>i. map (rgb_coded stream iws im y transformed i) [0..<unat (pw_width (ows ! 0))]"
  from Cons.prems(3,4) have i: "i < length ows" "\<forall>i \<in> set is. i < length ows" "i \<notin> set is" "distinct is" by simp_all
  from Cons.prems(1) obtain state1 e1 where
    w1: "encode_rgb_plane stream iws im (sp_quant_table_sets stream ! 0) y transformed i state e = Inr (state1, e1)" and
    w2: "loop_result (encode_rgb_plane stream iws im (sp_quant_table_sets stream ! 0) y transformed) is state1 e1 = Inr (state', e')"
    unfolding loop_result_Cons_Inr by blast
  note plane = rgb_plane_matched [OF w1 Cons.prems(2) shape i(1) ctx rgb space Cons.prems(5) bits codes]
  from plane(3) obtain line' where line': "state1 = set_line_state i line' state" "ls_current line' = ?row i" by blast
  have inv1: "enc_inv e1" using matched_winv [OF plane(1) [of bs]] by simp
  note IH = Cons.IH [OF w2 inv1 i(2,4) plane(2)]
  have len: "length (ss_line_states state) = length ows" using Cons.prems(5) by (simp add: lines_within_def)
  have "matched (range_link bs) e e' (loop_result (decode_rgb_plane base stream models banks ows) (i # is) state) state'"
    unfolding loop_result.simps by (rule matched_bindI [OF plane(1)], simp only: prod.case, rule IH [THEN conjunct1])
  moreover have "ls_current (ss_line_state state' i) = ?row i"
    using IH i(1,3) by (simp add: line' ss_line_state_set len)
  moreover have "\<forall>j < length ows. j \<notin> set (i # is) \<longrightarrow> ss_line_state state' j = ss_line_state state j"
    using IH by (simp add: line' ss_line_state_set)
  ultimately show ?case using IH plane(4) by (intro conjI) (simp_all del: loop_result.simps)
qed

subsection \<open>Storing the row\<close>

lemma truncate_to_raw_sample_bits_exact:
  assumes "unat (s :: u32) < 2 ^ unat bits" and "0 < unat bits" and "unat bits \<le> 16"
  shows "truncate_to_raw_sample_bits (uint s) bits = ucast s"
proof (cases "bits = 16")
  case True
  then show ?thesis by (simp add: truncate_to_raw_sample_bits_def)
next
  case False
  have "unat bits \<noteq> 16"
  proof
    assume "unat bits = 16"
    then have "unat bits = unat (16 :: u8)" by simp
    then show False using False by (simp only: word_unat_eq_iff)
  qed
  then have "bits \<noteq> 0" "bits < 16" using assms by (auto simp: word_less_nat_alt)
  moreover have "s AND (push_bit (unat bits) 1 - 1) = s"
  proof -
    have "s AND (push_bit (unat bits) 1 - 1) = take_bit (unat bits) s"
      by (simp add: take_bit_eq_mask mask_eq_exp_minus_1)
    also have "take_bit (unat bits) s = s"
      using assms(1) by (intro word_unat_eq_iff [THEN iffD2]) (simp add: unsigned_take_bit_eq take_bit_nat_eq_self)
    finally show ?thesis .
  qed
  ultimately show ?thesis by (simp add: truncate_to_raw_sample_bits_def Let_def not_le)
qed

lemma output_rows_addresses:
  assumes "output_backed stream ows m" and "\<forall>i \<in> set is. i < length ows \<and> y < unat (pw_height (ows ! i))"
  shows "output_rows stream ows y is = Inr (map (\<lambda>i. row_address (ows ! i) y) is)"
  using assms(2)
proof (induction "is")
  case (Cons i "is")
  then have "output_row stream ows i y = Inr (row_address (ows ! i) y)"
    using assms(1) by (intro output_row_address) (simp_all add: output_backed_def)
  with Cons show ?case by simp
qed simp

lemma coded_row:
  assumes "codes_of_depth bits n row"
  shows "map (\<lambda>x. row ! x) [0..<n] = row"
  using assms map_nth [of row] by (simp add: codes_of_depth_def)

lemma lines_within_swap_all:
  assumes "lines_within stream ows state"
  shows "lines_within stream ows (swap_all_lines state)"
  using assms line_within_swap
  by (simp add: lines_within_def swap_all_lines_def ss_line_state_def)

text \<open>Storing the rows of an RGB line, when the current lines hold the transformed row.\<close>

lemma store_rgb_row:
  assumes out: "output_backed stream ows m" and D: "copied stream iws im ows m D"
    and rgb: "rgb_windows stream ows" and y: "y < unat (pw_height (ows ! 0))" and w: "w = unat (pw_width (ows ! 0))"
    and bits: "0 < unat (sp_bits_per_raw_sample stream)" "unat (sp_bits_per_raw_sample stream) \<le> 16"
    and inv: "inverse_color_transform_row kernels (ls_current (ss_line_state state 0)) (ls_current (ss_line_state state 1))
      (ls_current (ss_line_state state 2)) w (sp_bits_per_raw_sample stream) (sp_extra_plane stream) =
      (map (\<lambda>x. ucast (load_sample stream iws im 0 y x)) [0..<w],
       map (\<lambda>x. ucast (load_sample stream iws im 1 y x)) [0..<w],
       map (\<lambda>x. ucast (load_sample stream iws im 2 y x)) [0..<w])"
    and alpha: "3 < length ows \<longrightarrow> (\<forall>x < w. ls_current (ss_line_state state 3) ! x = uint (load_sample stream iws im 3 y x))"
    and depth: "\<forall>i < length ows. \<forall>x < w. unat (load_sample stream iws im i y x) < 2 ^ unat (sp_bits_per_raw_sample stream)"
  shows "\<exists>m'. store_rgb_line stream kernels ows y state m = Inr (swap_all_lines state, m') \<and>
    output_backed stream ows m' \<and> copied stream iws im ows m' (D \<union> {..<length ows} \<times> {y})"
proof -
  from rgb have n: "3 \<le> length ows" "length ows \<le> 4" "length ows = 4 \<longleftrightarrow> sp_extra_plane stream"
    and same: "\<And>i. i < length ows \<Longrightarrow> pw_width (ows ! i) = pw_width (ows ! 0)"
      "\<And>i. i < length ows \<Longrightarrow> pw_height (ows ! i) = pw_height (ows ! 0)"
    unfolding rgb_windows_def by blast+
  have rows: "output_rows stream ows y [0..<window_plane_count ows] =
      Inr (map (\<lambda>i. row_address (ows ! i) y) [0..<length ows])"
    using output_rows_addresses [OF out, of "[0..<length ows]"] y same(2) by (simp add: window_plane_count_def)
  have "ows \<noteq> []" using n(1) by auto
  then have width: "unat (window_plane_width ows 0) = w" by (simp add: window_plane_width_def w)
  have step: "copied stream iws im ows (store_plane_row stream i (row_address (ows ! i) y) w samples m') (insert (i, y) D')"
    if "output_backed stream ows m'" "copied stream iws im ows m' D'" "i < length ows"
      "\<And>x. x < w \<Longrightarrow> samples x = ucast (load_sample stream iws im i y x)" for i m' D' samples
  proof (rule copied_store [OF that(1,2,3)])
    show "y < unat (pw_height (ows ! i))" "w = unat (pw_width (ows ! i))" using y same that(3) w by simp_all
    fix x assume "x < w"
    with that(3,4) depth stored_sample_exact bits(2)
    show "stored_sample stream (samples x) = load_sample stream iws im i y x" by simp
  qed
  let ?store = "\<lambda>i samples m. store_plane_row stream i (row_address (ows ! i) y) w samples m"
  let ?row = "\<lambda>i x. map (\<lambda>x. ucast (load_sample stream iws im i y x) :: u16) [0..<w] ! x"
  let ?m0 = "?store 0 (?row 0) m" let ?m1 = "?store 1 (?row 1) ?m0" let ?m2 = "?store 2 (?row 2) ?m1"
  note backed = output_backed_store
  have b: "output_backed stream ows ?m0" "output_backed stream ows ?m1" "output_backed stream ows ?m2"
    by (intro backed out)+
  have c0: "copied stream iws im ows ?m0 (insert (0, y) D)" using n by (intro step out D) auto
  have c1: "copied stream iws im ows ?m1 (insert (1, y) (insert (0, y) D))" using n by (intro step b c0) auto
  have c2: "copied stream iws im ows ?m2 (insert (2, y) (insert (1, y) (insert (0, y) D)))" using n by (intro step b c1) auto
  let ?alpha = "\<lambda>x. truncate_to_raw_sample_bits (ls_current (ss_line_state state 3) ! x) (sp_bits_per_raw_sample stream)"
  let ?m3 = "if sp_extra_plane stream then ?store 3 ?alpha ?m2 else ?m2"
  have "store_rgb_line stream kernels ows y state m = Inr (swap_all_lines state, ?m3)"
  proof -
    let ?rows = "map (\<lambda>i. row_address (ows ! i) y) [0..<length ows]"
    have row_at: "?rows ! i = row_address (ows ! i) y" if "i < length ows" for i using that by simp
    have at: "?rows ! 0 = row_address (ows ! 0) y" "?rows ! 1 = row_address (ows ! 1) y" "?rows ! 2 = row_address (ows ! 2) y"
      by (rule row_at, use n(1) in linarith)+
    have at3: "sp_extra_plane stream \<Longrightarrow> ?rows ! 3 = row_address (ows ! 3) y" using n by (intro row_at) simp
    show ?thesis
      unfolding store_rgb_line_def rows bind_result_Inr Let_def width inv prod.case at swap_all_lines_def
      by (cases "sp_extra_plane stream") (simp_all only: at3 if_True if_False)
  qed
  moreover have "output_backed stream ows ?m3" using backed b by simp
  moreover have "copied stream iws im ows ?m3 (D \<union> {..<length ows} \<times> {y})"
  proof (cases "sp_extra_plane stream")
    case True
    then have four: "length ows = 4" using n by simp
    have "copied stream iws im ows (?store 3 ?alpha ?m2) (insert (3, y) (insert (2, y) (insert (1, y) (insert (0, y) D))))"
    proof (rule step [OF b(3) c2])
      fix x assume "x < w"
      with alpha depth four truncate_to_raw_sample_bits_exact [OF _ bits]
      show "?alpha x = ucast (load_sample stream iws im 3 y x)" by simp
    qed (simp add: four)
    moreover have "insert (3, y) (insert (2, y) (insert (1, y) (insert (0, y) D))) = D \<union> {..<length ows} \<times> {y}"
      unfolding four by (auto simp: less_Suc_eq numeral_eq_Suc)
    ultimately show ?thesis using True by simp
  next
    case False
    then have three: "length ows = 3" using n by linarith
    have "insert (2, y) (insert (1, y) (insert (0, y) D)) = D \<union> {..<length ows} \<times> {y}"
      unfolding three by (auto simp: less_Suc_eq numeral_eq_Suc)
    with c2 False show ?thesis by simp
  qed
  ultimately show ?thesis by blast
qed

subsection \<open>Rows\<close>

context lossless_kernels begin

lemma rgb_row_matched:
  assumes run: "encode_rgb_row stream kernels iws im (sp_quant_table_sets stream ! 0) y state e = Inr (state', e')"
    and inv: "enc_inv e" and shape: "same_shape iws ows" and y: "y < unat (pw_height (ows ! 0))"
    and ctx: "same_contexts stream models banks (length ows)" and rgb: "rgb_windows stream ows"
    and space: "sp_colorspace_type stream = 1" "sp_entropy_mode stream = RangeMode" and lines: "lines_within stream ows state"
    and bits: "0 < unat (sp_bits_per_raw_sample stream)" "unat (sp_bits_per_raw_sample stream) \<le> 16"
    and out: "output_backed stream ows m" and D: "copied stream iws im ows m D"
  shows "\<exists>m'. matched (range_link bs) e e' (decode_rgb_row base stream kernels models banks ows y (state, m)) (state', m') \<and>
    lines_within stream ows state' \<and> output_backed stream ows m' \<and> copied stream iws im ows m' (D \<union> {..<length ows} \<times> {y})"
proof -
  define w where "w = unat (pw_width (ows ! 0))"
  let ?bits = "sp_bits_per_raw_sample stream"
  let ?row = "\<lambda>i. map (\<lambda>x. ucast (load_sample stream iws im i y x) :: u16) [0..<w]"
  from rgb have n: "3 \<le> length ows" "length ows \<le> 4" "coded_plane_count stream = length ows"
    unfolding rgb_windows_def by auto
  have pos: "0 < length ows" and lt: "1 < length ows" "2 < length ows" using n(1) by linarith+
  note win = same_shape_window [OF shape pos]
  from run obtain pixels where pixels: "read_rgb_pixels stream iws im y [0..<w] = Inr pixels"
    by (auto simp: encode_rgb_row_def Let_def win w_def)
  obtain cy cb cr where fwd: "forward_color_transform_row kernels (map (\<lambda>(r, g, b). r) pixels) (map (\<lambda>(r, g, b). g) pixels)
      (map (\<lambda>(r, g, b). b) pixels) w ?bits (sp_extra_plane stream) = (cy, cb, cr)" by (metis prod.exhaust)
  from run pixels fwd obtain state1 where
    planes: "loop_result (encode_rgb_plane stream iws im (sp_quant_table_sets stream ! 0) y [cy, cb, cr])
      [0..<length ows] state e = Inr (state1, e')" and
    state': "state' = swap_all_lines state1"
    by (auto simp: encode_rgb_row_def Let_def win w_def n(3))
  note px = read_rgb_pixels_Inr [OF pixels bits(2)]
  have rows: "map (\<lambda>(r, g, b). r) pixels = ?row 0" "map (\<lambda>(r, g, b). g) pixels = ?row 1" "map (\<lambda>(r, g, b). b) pixels = ?row 2"
    unfolding px(1) by simp_all
  have depth: "unat (load_sample stream iws im i y x) < 2 ^ unat ?bits" if "i < 3" "x < w" for i x
    using px(2) that by simp
  have row_depth: "row_of_depth ?bits w (?row i)" if "i < 3" for i
    using depth that by (intro loaded_row_of_depth) (simp_all add: bits(2))
  have bits': "?bits \<noteq> 0" "?bits \<le> 16" using bits by (auto simp: word_le_nat_alt)
  note kernel = bits' row_depth [of 0] row_depth [of 1] row_depth [of 2] fwd [unfolded rows]
  have "codes_of_depth ?bits w cy \<and> codes_of_depth ?bits w cb \<and> codes_of_depth ?bits w cr"
    by (rule codes [OF kernel]) simp_all
  then have codes: "\<forall>j < 3. codes_of_depth ?bits w ([cy, cb, cr] ! j)" and
    coded: "map (\<lambda>x. cy ! x) [0..<w] = cy" "map (\<lambda>x. cb ! x) [0..<w] = cb" "map (\<lambda>x. cr ! x) [0..<w] = cr"
    using coded_row by (auto simp: less_Suc_eq numeral_eq_Suc)
  have inverse: "inverse_color_transform_row kernels cy cb cr w ?bits (sp_extra_plane stream) = (?row 0, ?row 1, ?row 2)"
    by (rule lossless [OF kernel]) simp_all
  have idx: "\<forall>i \<in> set [0..<length ows]. i < length ows" "distinct [0..<length ows]" by simp_all
  note step = rgb_planes_matched [OF planes inv shape idx ctx rgb space lines bits, folded w_def, OF codes]
  have current: "ls_current (ss_line_state state1 i) = map (rgb_coded stream iws im y [cy, cb, cr] i) [0..<w]"
    and alpha: "3 \<le> i \<longrightarrow> (\<forall>x < w. \<not> maximum_sample stream < load_sample stream iws im i y x)" if "i < length ows" for i
    using step that by simp_all
  have c: "ls_current (ss_line_state state1 0) = cy" "ls_current (ss_line_state state1 1) = cb" "ls_current (ss_line_state state1 2) = cr"
    using current [OF pos] current [OF lt(1)] current [OF lt(2)] coded by (simp_all add: rgb_coded_def [abs_def])
  have alpha_row: "3 < length ows \<longrightarrow> (\<forall>x < w. ls_current (ss_line_state state1 3) ! x = uint (load_sample stream iws im 3 y x))"
    using current [of 3] by (simp add: rgb_coded_def)
  have all_depth: "\<forall>i < length ows. \<forall>x < w. unat (load_sample stream iws im i y x) < 2 ^ unat ?bits"
    using depth within_maximum [OF _ bits(2)] alpha by (meson not_less)
  from store_rgb_row [OF out D rgb y w_def bits, of kernels state1] inverse alpha_row all_depth
  obtain m' where m': "store_rgb_line stream kernels ows y state1 m = Inr (swap_all_lines state1, m')"
    "output_backed stream ows m'" "copied stream iws im ows m' (D \<union> {..<length ows} \<times> {y})"
    unfolding c by blast
  have "matched (range_link bs) e e' (decode_rgb_row base stream kernels models banks ows y (state, m)) (state', m')"
    unfolding decode_rgb_row_def prod.case
    by (rule matched_cong [OF step [THEN conjunct1, where base1 = base]])
      (simp add: window_plane_count_def m'(1) state')
  moreover have "lines_within stream ows state'" using lines_within_swap_all step by (simp add: state')
  ultimately show ?thesis using m'(2,3) by blast
qed

lemma rgb_rows_matched:
  assumes run: "loop_result (encode_rgb_row stream kernels iws im (sp_quant_table_sets stream ! 0)) ys state e = Inr (state', e')"
    and inv: "enc_inv e" and shape: "same_shape iws ows" and ys: "\<forall>y \<in> set ys. y < unat (pw_height (ows ! 0))"
    and ctx: "same_contexts stream models banks (length ows)" and rgb: "rgb_windows stream ows"
    and space: "sp_colorspace_type stream = 1" "sp_entropy_mode stream = RangeMode" and lines: "lines_within stream ows state"
    and bits: "0 < unat (sp_bits_per_raw_sample stream)" "unat (sp_bits_per_raw_sample stream) \<le> 16"
    and out: "output_backed stream ows m" and D: "copied stream iws im ows m D"
  shows "\<exists>m'. matched (range_link bs) e e' (loop_result (decode_rgb_row base stream kernels models banks ows) ys (state, m)) (state', m') \<and>
    lines_within stream ows state' \<and> output_backed stream ows m' \<and> copied stream iws im ows m' (D \<union> {..<length ows} \<times> set ys)"
proof -
  have "\<exists>m'. matched (range_link bs) e e' (loop_result (decode_rgb_row base stream kernels models banks ows) ys (state, m)) (state', m') \<and>
      (lines_within stream ows state' \<and> output_backed stream ows m' \<and>
       copied stream iws im ows m' (D \<union> (\<Union>y \<in> set ys. {..<length ows} \<times> {y})))"
  proof (rule loop_result_matched [OF run], goal_cases)
    case (3 y state e state' e' m D)
    with rgb_row_matched [OF 3(2) _ shape _ ctx rgb space _ bits, of m D bs base] ys show ?case by simp
  qed (use inv lines out D in simp_all)
  moreover have "(\<Union>y \<in> set ys. {..<length ows} \<times> {y}) = {..<length ows} \<times> set ys" by auto
  ultimately show ?thesis by simp
qed

text \<open>The samples of a whole slice: every row of every plane is copied.\<close>

lemma range_samples_matched:
  assumes run: "encode_samples stream kernels iws im state e = Inr (state', e')"
    and inv: "enc_inv e" and shape: "same_shape iws ows" and planes: "length ows = coded_plane_count stream"
    and rgb: "sp_colorspace_type stream = 1 \<longrightarrow> rgb_windows stream ows"
    and mode: "sp_entropy_mode stream = RangeMode" and order: "\<not> use_legacy_range_ycbcr_row_order stream"
    and ctx: "same_contexts stream models banks (length ows)" and lines: "lines_within stream ows state"
    and bits: "0 < unat (sp_bits_per_raw_sample stream)" "unat (sp_bits_per_raw_sample stream) \<le> 16"
    and out: "output_backed stream ows m"
  shows "\<exists>m'. matched (range_link bs) e e' (decode_range_samples base stream kernels models banks ows (state, m)) (state', m') \<and>
    lines_within stream ows state' \<and> output_backed stream ows m' \<and>
    copied stream iws im ows m' {(i, y). i < length ows \<and> y < unat (pw_height (ows ! i))}"
proof -
  have none: "copied stream iws im ows m {}" by (simp add: copied_def)
  show ?thesis
  proof (cases "sp_colorspace_type stream = 1")
    case True
    then have rgb: "rgb_windows stream ows" using rgb by simp
    then have h: "pw_height (ows ! i) = pw_height (ows ! 0)" if "i < length ows" for i
      using that unfolding rgb_windows_def by blast
    have "0 < length ows" using rgb unfolding rgb_windows_def by linarith
    note win = same_shape_window [OF shape this]
    have w: "loop_result (encode_rgb_row stream kernels iws im (sp_quant_table_sets stream ! 0))
        [0..<unat (pw_height (ows ! 0))] state e = Inr (state', e')"
      using run True by (simp add: encode_samples_def Let_def win)
    have ys: "\<forall>y \<in> set [0..<unat (pw_height (ows ! 0))]. y < unat (pw_height (ows ! 0))" by simp
    have "{} \<union> {..<length ows} \<times> set [0..<unat (pw_height (ows ! 0))] = {(i, y). i < length ows \<and> y < unat (pw_height (ows ! i))}"
      using h by auto
    with rgb_rows_matched [OF w inv shape ys ctx rgb True mode lines bits out none, of bs base]
    show ?thesis by (simp only: decode_range_samples_def True if_True win simp_thms)
  next
    case False
    have w: "loop_result (encode_plane stream iws im (sp_quant_table_sets stream ! 0)) [0..<length ows] state e = Inr (state', e')"
      using run False by (simp add: encode_samples_def Let_def planes)
    have idx: "\<forall>i \<in> set [0..<length ows]. i < length ows" by simp
    have "{} \<union> {(i, y). i \<in> set [0..<length ows] \<and> y < unat (pw_height (ows ! i))} =
        {(i, y). i < length ows \<and> y < unat (pw_height (ows ! i))}" by auto
    with planes_matched [OF w inv shape idx ctx False lines bits out none, of bs base]
    show ?thesis by (simp only: decode_range_samples_def False order if_False window_plane_count_def simp_thms)
  qed
qed

end

end
