(* ===== verification/Golomb_Planes.thy ===== *)
theory Golomb_Planes
  imports Golomb_Roundtrip Rgb_Slice
begin

text \<open>
  The Golomb-Rice coded samples of a slice: \<open>SliceEncoder::encode_golomb_rice_samples\<close> of
  \<^verbatim>\<open>src/src/codec/slice_encoder.cpp\<close> and \<open>decode_golomb_rice_slice\<close> of \<^verbatim>\<open>slice_decoder.cpp\<close>, and the proof
  that the second recovers what the first codes. The bit positions the decoder collects for its messages
  are left out.
\<close>

subsection \<open>Access to the slice state\<close>

definition golomb_line :: "nat \<Rightarrow> nat \<Rightarrow> nat \<Rightarrow> slice_state \<Rightarrow> gr_line" where
  "golomb_line plane_index context_bank run_state_plane state =
     (ss_line_state state plane_index, ss_golomb_rice_contexts state ! context_bank,
      golomb_rice_run_state state run_state_plane)"

definition set_golomb_line :: "nat \<Rightarrow> nat \<Rightarrow> nat \<Rightarrow> gr_line \<Rightarrow> slice_state \<Rightarrow> slice_state" where
  "set_golomb_line plane_index context_bank run_state_plane = (\<lambda>(line, contexts, run_state) state.
     set_golomb_rice_run_state run_state_plane run_state
       (set_line_state plane_index line
         (state\<lparr>ss_golomb_rice_contexts := (ss_golomb_rice_contexts state)[context_bank := contexts]\<rparr>)))"

text \<open>\<open>GolombRiceRunState::reset\<close> for every plane.\<close>

definition reset_run_states :: "nat \<Rightarrow> slice_state \<Rightarrow> slice_state" where
  "reset_run_states plane_count state =
     fold (\<lambda>plane. set_golomb_rice_run_state plane new_gr_run_state) [0..<plane_count] state"

definition clear_pending_run :: "nat \<Rightarrow> slice_state \<Rightarrow> slice_state" where
  "clear_pending_run plane state =
     set_golomb_rice_run_state plane ((golomb_rice_run_state state plane)\<lparr>pending_count := 0\<rparr>) state"

subsection \<open>Encoding\<close>

definition golomb_rice_bank_index :: "stream_parameters \<Rightarrow> nat \<Rightarrow> nat" where
  "golomb_rice_bank_index stream plane_index =
     (if 3 \<le> sp_version stream then plane_quant_table_set_index_slot stream plane_index else 0)"

definition encode_golomb_plane_line ::
  "quant_table_set \<Rightarrow> nat \<Rightarrow> nat \<Rightarrow> nat \<Rightarrow> u8 \<Rightarrow> int list \<Rightarrow> slice_state \<Rightarrow> bit_writer \<Rightarrow> (slice_state \<times> bit_writer) result" where
  "encode_golomb_plane_line table_set plane_index context_bank run_state_plane reconstruction_bits samples state writer =
     bind_result (encode_golomb_rice_line table_set samples reconstruction_bits
                    (golomb_line plane_index context_bank run_state_plane state) writer)
       (\<lambda>(st, writer). Inr (set_golomb_line plane_index context_bank run_state_plane st state, writer))"

text \<open>The pixels of an RGB row, with the extra plane if there is one.\<close>

fun read_rgba_pixels ::
  "stream_parameters \<Rightarrow> plane_window list \<Rightarrow> frame_memory \<Rightarrow> nat \<Rightarrow> nat list \<Rightarrow> ((u16 \<times> u16 \<times> u16) \<times> int) list result" where
  "read_rgba_pixels stream input memory y [] = Inr []"
| "read_rgba_pixels stream input memory y (x # xs) =
     bind_result (read_sample stream input memory 0 y x) (\<lambda>r.
     bind_result (read_sample stream input memory 1 y x) (\<lambda>g.
     bind_result (read_sample stream input memory 2 y x) (\<lambda>b.
     bind_result (if sp_extra_plane stream then read_sample stream input memory 3 y x else Inr 0) (\<lambda>alpha.
     bind_result (read_rgba_pixels stream input memory y xs) (\<lambda>pixels.
       Inr (((ucast r, ucast g, ucast b), uint alpha) # pixels))))))"

definition encode_golomb_rgb_plane ::
  "stream_parameters \<Rightarrow> quant_table_set \<Rightarrow> int list list \<Rightarrow> nat \<Rightarrow> slice_state \<Rightarrow> bit_writer \<Rightarrow> (slice_state \<times> bit_writer) result" where
  "encode_golomb_rgb_plane stream table_set rows plane_index =
     encode_golomb_plane_line table_set plane_index (golomb_rice_bank_index stream plane_index) 0
       (sp_bits_per_raw_sample stream + 1) (rows ! plane_index)"

definition encode_golomb_rgb_row ::
  "stream_parameters \<Rightarrow> codec_kernels \<Rightarrow> plane_window list \<Rightarrow> frame_memory \<Rightarrow> quant_table_set \<Rightarrow> nat \<Rightarrow>
     slice_state \<Rightarrow> bit_writer \<Rightarrow> (slice_state \<times> bit_writer) result" where
  "encode_golomb_rgb_row stream kernels input memory table_set y state writer =
     (let w = unat (window_plane_width input 0) in
      bind_result (read_rgba_pixels stream input memory y [0..<w]) (\<lambda>pixels.
        let (coded_y, cb, cr) = forward_color_transform_row kernels (map (\<lambda>((r, g, b), alpha). r) pixels)
              (map (\<lambda>((r, g, b), alpha). g) pixels) (map (\<lambda>((r, g, b), alpha). b) pixels) w
              (sp_bits_per_raw_sample stream) (sp_extra_plane stream)
        in loop_result (encode_golomb_rgb_plane stream table_set [coded_y, cb, cr, map snd pixels])
             [0..<coded_plane_count stream] state writer))"

fun read_row_samples ::
  "stream_parameters \<Rightarrow> plane_window list \<Rightarrow> frame_memory \<Rightarrow> nat \<Rightarrow> nat \<Rightarrow> nat list \<Rightarrow> int list result" where
  "read_row_samples stream input memory plane_index y [] = Inr []"
| "read_row_samples stream input memory plane_index y (x # xs) =
     bind_result (read_sample stream input memory plane_index y x) (\<lambda>sample.
     bind_result (read_row_samples stream input memory plane_index y xs) (\<lambda>samples. Inr (uint sample # samples)))"

definition encode_golomb_planar_row ::
  "stream_parameters \<Rightarrow> plane_window list \<Rightarrow> frame_memory \<Rightarrow> quant_table_set \<Rightarrow> nat \<Rightarrow> nat \<Rightarrow>
     slice_state \<Rightarrow> bit_writer \<Rightarrow> (slice_state \<times> bit_writer) result" where
  "encode_golomb_planar_row stream input memory table_set plane_index y state writer =
     bind_result (read_row_samples stream input memory plane_index y [0..<unat (window_plane_width input plane_index)]) (\<lambda>samples.
       encode_golomb_plane_line table_set plane_index (golomb_rice_bank_index stream plane_index) plane_index
         (sp_bits_per_raw_sample stream) samples state writer)"

definition encode_golomb_plane ::
  "stream_parameters \<Rightarrow> plane_window list \<Rightarrow> frame_memory \<Rightarrow> quant_table_set \<Rightarrow> nat \<Rightarrow>
     slice_state \<Rightarrow> bit_writer \<Rightarrow> (slice_state \<times> bit_writer) result" where
  "encode_golomb_plane stream input memory table_set plane_index =
     loop_result (encode_golomb_planar_row stream input memory table_set plane_index)
       [0..<unat (window_plane_height input plane_index)]"

definition encode_golomb_rice_samples ::
  "stream_parameters \<Rightarrow> codec_kernels \<Rightarrow> plane_window list \<Rightarrow> frame_memory \<Rightarrow>
     slice_state \<Rightarrow> bit_writer \<Rightarrow> (slice_state \<times> bit_writer) result" where
  "encode_golomb_rice_samples stream kernels input memory state writer =
     (let plane_count = coded_plane_count stream;
          table_set = sp_quant_table_sets stream ! 0;
          bank_count = (if 3 \<le> sp_version stream then quant_table_set_index_count stream else 1)
      in bind_result (prepare_golomb_rice (replicate bank_count (qt_context_count table_set)) plane_count state) (\<lambda>state.
           let state = reset_run_states plane_count state in
           if sp_colorspace_type stream = 1
           then loop_result (encode_golomb_rgb_row stream kernels input memory table_set)
                  [0..<unat (window_plane_height input 0)] state writer
           else loop_result (encode_golomb_plane stream input memory table_set) [0..<plane_count] state writer))"

subsection \<open>Decoding\<close>

definition decode_golomb_plane_line ::
  "u64 \<Rightarrow> quant_table_set list \<Rightarrow> nat list \<Rightarrow> nat \<Rightarrow> nat \<Rightarrow> u32 \<Rightarrow> u8 \<Rightarrow>
     slice_state \<Rightarrow> bit_reader \<Rightarrow> (slice_state \<times> bit_reader) result" where
  "decode_golomb_plane_line payload_offset context_models context_bank_indexes plane run_state_plane w reconstruction_bits state reader =
     bind_result (decode_golomb_rice_line payload_offset (context_models ! plane) (unat w) reconstruction_bits
                    (golomb_line plane (context_bank_indexes ! plane) run_state_plane state) reader)
       (\<lambda>(st, reader). Inr (set_golomb_line plane (context_bank_indexes ! plane) run_state_plane st state, reader))"

definition decode_golomb_rgb_plane ::
  "stream_parameters \<Rightarrow> u64 \<Rightarrow> quant_table_set list \<Rightarrow> nat list \<Rightarrow> plane_window list \<Rightarrow> nat \<Rightarrow>
     slice_state \<Rightarrow> bit_reader \<Rightarrow> (slice_state \<times> bit_reader) result" where
  "decode_golomb_rgb_plane stream payload_offset context_models context_bank_indexes output plane =
     decode_golomb_plane_line payload_offset context_models context_bank_indexes plane 0
       (window_plane_width output 0) (sp_bits_per_raw_sample stream + 1)"

definition decode_golomb_rgb_row ::
  "stream_parameters \<Rightarrow> codec_kernels \<Rightarrow> u64 \<Rightarrow> quant_table_set list \<Rightarrow> nat list \<Rightarrow> plane_window list \<Rightarrow> nat \<Rightarrow>
     slice_state \<times> frame_memory \<Rightarrow> bit_reader \<Rightarrow> ((slice_state \<times> frame_memory) \<times> bit_reader) result" where
  "decode_golomb_rgb_row stream kernels payload_offset context_models context_bank_indexes output y = (\<lambda>(state, memory) reader.
     bind_result (loop_result (decode_golomb_rgb_plane stream payload_offset context_models context_bank_indexes output)
                    [0..<window_plane_count output] state reader)
       (\<lambda>(state, reader). bind_result (store_rgb_line stream kernels output y state memory)
       (\<lambda>(state, memory). Inr ((state, memory), reader))))"

definition decode_golomb_planar_row ::
  "stream_parameters \<Rightarrow> u64 \<Rightarrow> quant_table_set list \<Rightarrow> nat list \<Rightarrow> plane_window list \<Rightarrow> nat \<Rightarrow> nat \<Rightarrow>
     slice_state \<times> frame_memory \<Rightarrow> bit_reader \<Rightarrow> ((slice_state \<times> frame_memory) \<times> bit_reader) result" where
  "decode_golomb_planar_row stream payload_offset context_models context_bank_indexes output plane y = (\<lambda>(state, memory) reader.
     bind_result (decode_golomb_plane_line payload_offset context_models context_bank_indexes plane plane
                    (window_plane_width output plane) (sp_bits_per_raw_sample stream) state reader)
       (\<lambda>(state, reader). bind_result (store_planar_line stream output plane y (ss_line_state state plane) memory)
       (\<lambda>(line, memory). Inr ((set_line_state plane line state, memory), reader))))"

definition decode_golomb_plane ::
  "stream_parameters \<Rightarrow> u64 \<Rightarrow> quant_table_set list \<Rightarrow> nat list \<Rightarrow> plane_window list \<Rightarrow> nat \<Rightarrow>
     slice_state \<times> frame_memory \<Rightarrow> bit_reader \<Rightarrow> ((slice_state \<times> frame_memory) \<times> bit_reader) result" where
  "decode_golomb_plane stream payload_offset context_models context_bank_indexes output plane st reader =
     bind_result (loop_result (decode_golomb_planar_row stream payload_offset context_models context_bank_indexes output plane)
                    [0..<unat (window_plane_height output plane)] st reader)
       (\<lambda>((state, memory), reader). Inr ((clear_pending_run plane state, memory), reader))"

definition decode_golomb_planes ::
  "stream_parameters \<Rightarrow> codec_kernels \<Rightarrow> u64 \<Rightarrow> quant_table_set list \<Rightarrow> nat list \<Rightarrow> plane_window list \<Rightarrow>
     slice_state \<times> frame_memory \<Rightarrow> bit_reader \<Rightarrow> ((slice_state \<times> frame_memory) \<times> bit_reader) result" where
  "decode_golomb_planes stream kernels payload_offset context_models context_bank_indexes output st reader =
     (if sp_colorspace_type stream = 1
      then bind_result (loop_result (decode_golomb_rgb_row stream kernels payload_offset context_models context_bank_indexes output)
                          [0..<unat (window_plane_height output 0)] st reader)
             (\<lambda>((state, memory), reader).
               Inr ((fold clear_pending_run [0..<window_plane_count output] state, memory), reader))
      else loop_result (decode_golomb_plane stream payload_offset context_models context_bank_indexes output)
             [0..<window_plane_count output] st reader)"

definition finish_golomb_reader ::
  "stream_parameters \<Rightarrow> bool \<Rightarrow> u64 \<Rightarrow> bit_reader \<Rightarrow> unit result" where
  "finish_golomb_reader stream allow_read_ahead_trailing_bytes payload_offset reader =
     (let reader = br_byte_align reader in
      if remaining_bits reader \<noteq> 0 then
        if allow_read_ahead_trailing_bytes \<and> 3 \<le> sp_version stream then Inr ()
        else Inl (make_byte_error SyntaxError (payload_offset + br_byte_position reader))
      else Inr ())"

definition decode_golomb_rice_slice ::
  "stream_parameters \<Rightarrow> codec_kernels \<Rightarrow> bytes \<Rightarrow> u64 \<Rightarrow> u8 \<Rightarrow> quant_table_set list \<Rightarrow> nat list \<Rightarrow> nat list \<Rightarrow>
     plane_window list \<Rightarrow> bool \<Rightarrow> slice_state \<times> frame_memory \<Rightarrow> (slice_state \<times> frame_memory) result" where
  "decode_golomb_rice_slice stream kernels payload payload_offset content_bit_offset context_models context_bank_indexes
     context_bank_counts output allow_read_ahead_trailing_bytes = (\<lambda>(state, memory).
     if length context_bank_indexes \<noteq> length context_models then Inl (make_error InvalidArgument)
     else
       bind_result (prepare_golomb_rice context_bank_counts (window_plane_count output) state) (\<lambda>state.
         let state = reset_run_states (window_plane_count output) state;
             reader = make_bit_reader payload
         in bind_result (map_error (set_reader_byte_offset payload_offset (br_byte_position reader))
                           (skip_bits (ucast content_bit_offset) reader)) (\<lambda>reader.
            bind_result (decode_golomb_planes stream kernels payload_offset context_models context_bank_indexes output
                           (state, memory) reader) (\<lambda>((state, memory), reader).
            bind_result (finish_golomb_reader stream allow_read_ahead_trailing_bytes payload_offset reader) (\<lambda>_.
              Inr (state, memory))))))"

end
