(* ===== verification/Golomb_Slice.thy ===== *)
theory Golomb_Slice
  imports Golomb_Planes
begin

text \<open>
  What the Golomb-Rice encoder codes from its input planes the decoder stores into its output planes. The
  encoder moves on to the next line as soon as a line is coded; the decoder of an RGB row only when the row
  is stored.
\<close>

subsection \<open>States\<close>

lemma ss_line_state_golomb:
  "p < length (ss_line_states state) \<Longrightarrow>
    ss_line_state (set_golomb_line p bank rp (line, contexts, run_state) state) p = line"
  by (simp add: ss_line_state_def set_golomb_line_def set_golomb_rice_run_state_def set_line_state_def)

lemma set_line_state_golomb:
  "set_line_state p line' (set_golomb_line p bank rp (line, contexts, run_state) state) =
    set_golomb_line p bank rp (line', contexts, run_state) state"
  by (simp add: set_golomb_line_def set_golomb_rice_run_state_def set_line_state_def)

text \<open>No plane has samples of a run left over.\<close>

definition no_pending :: "nat \<Rightarrow> slice_state \<Rightarrow> bool" where
  "no_pending n state \<longleftrightarrow>
     n \<le> length (ss_golomb_rice_run_states state) \<and> (\<forall>i < n. pending_count (golomb_rice_run_state state i) = 0)"

lemma no_pending_set:
  assumes "no_pending n state" and "pending_count run_state = 0"
  shows "no_pending n (set_golomb_line p bank rp (line, contexts, run_state) state)"
proof -
  let ?runs = "ss_golomb_rice_run_states state"
  from assms(1) have n: "n \<le> length ?runs" "\<forall>i < n. pending_count (?runs ! i) = 0"
    by (simp_all add: no_pending_def golomb_rice_run_state_def)
  have "pending_count (?runs[rp := run_state] ! i) = 0" if "i < n" for i
    using n that assms(2) by (cases "rp = i") simp_all
  with n(1) show ?thesis
    by (simp add: no_pending_def set_golomb_line_def set_golomb_rice_run_state_def set_line_state_def golomb_rice_run_state_def)
qed

lemma clear_pending_run_id:
  assumes "no_pending n state" and "p < n"
  shows "clear_pending_run p state = state"
proof -
  let ?run = "ss_golomb_rice_run_states state ! p"
  have "?run\<lparr>pending_count := 0\<rparr> = ?run"
    using assms by (cases ?run) (auto simp: no_pending_def golomb_rice_run_state_def)
  then show ?thesis
    by (simp add: clear_pending_run_def set_golomb_rice_run_state_def golomb_rice_run_state_def)
qed

lemma clear_pending_runs_id:
  assumes "no_pending n state" and "\<forall>p \<in> set ps. p < n"
  shows "fold clear_pending_run ps state = state"
  using assms by (induction ps) (simp_all add: clear_pending_run_id)

lemma reset_run_states_lines [simp]: "ss_line_states (reset_run_states n state) = ss_line_states state"
proof -
  have "ss_line_states (fold (\<lambda>plane. set_golomb_rice_run_state plane new_gr_run_state) ps state) = ss_line_states state" for ps
    by (induction ps arbitrary: state) (simp_all add: set_golomb_rice_run_state_def)
  then show ?thesis by (simp add: reset_run_states_def)
qed

lemma reset_run_states_runs:
  "ss_golomb_rice_run_states (reset_run_states n state) =
    fold (\<lambda>i runs. runs[i := new_gr_run_state]) [0..<n] (ss_golomb_rice_run_states state)"
proof -
  have "ss_golomb_rice_run_states (fold (\<lambda>plane. set_golomb_rice_run_state plane new_gr_run_state) ps state) =
      fold (\<lambda>i runs. runs[i := new_gr_run_state]) ps (ss_golomb_rice_run_states state)" for ps
    by (induction ps arbitrary: state) (simp_all add: set_golomb_rice_run_state_def)
  then show ?thesis by (simp add: reset_run_states_def)
qed

lemma no_pending_reset:
  assumes "length (ss_golomb_rice_run_states state) = n"
  shows "no_pending n (reset_run_states n state)"
proof -
  have "ss_golomb_rice_run_states (reset_run_states n state) = map (\<lambda>i. new_gr_run_state) [0..<n]"
    using fold_update_upt [of n "ss_golomb_rice_run_states state" "\<lambda>i. new_gr_run_state"] assms
    by (simp add: reset_run_states_runs)
  then show ?thesis by (simp add: no_pending_def golomb_rice_run_state_def new_gr_run_state_def)
qed

lemma prepare_golomb_rice_runs:
  "prepare_golomb_rice counts n state = Inr state' \<Longrightarrow>
    length (ss_golomb_rice_run_states state') = n \<and> ss_line_states state' = ss_line_states state"
  by (auto simp: prepare_golomb_rice_def split: if_splits)

lemma lines_within_lines: "ss_line_states s = ss_line_states s' \<Longrightarrow> lines_within stream ows s = lines_within stream ows s'"
  by (simp add: lines_within_def ss_line_state_def)

lemma lines_within_golomb:
  assumes "lines_within stream ows state"
    and "line_within (2 ^ unat (coded_bits stream p)) (unat (pw_width (ows ! p))) line"
  shows "lines_within stream ows (set_golomb_line p bank rp (line, contexts, run_state) state)"
  using lines_within_set [OF assms]
    lines_within_lines [of "set_line_state p line state" "set_golomb_line p bank rp (line, contexts, run_state) state"]
  by (simp add: set_golomb_line_def set_golomb_rice_run_state_def set_line_state_def)

text \<open>The parameters of the two sides agree.\<close>

definition same_golomb_contexts :: "stream_parameters \<Rightarrow> quant_table_set list \<Rightarrow> nat list \<Rightarrow> nat \<Rightarrow> bool" where
  "same_golomb_contexts stream models banks n \<longleftrightarrow>
     (\<forall>i < n. models ! i = sp_quant_table_sets stream ! 0 \<and> banks ! i = golomb_rice_bank_index stream i)"

subsection \<open>A line of a plane\<close>

lemma golomb_plane_line_matched:
  assumes enc: "encode_golomb_rice_line table_set samples b (golomb_line p bank rp state) wr = Inr (st', wr')"
    and w: "writer_ok wr" and line: "line_within (2 ^ unat b) (length samples) (ss_line_state state p)"
    and bits: "0 < unat b" "unat b \<le> 17" and samples: "\<forall>x < length samples. 0 \<le> samples ! x \<and> samples ! x < 2 ^ unat b"
    and pending: "pending_count (golomb_rice_run_state state rp) = 0"
    and same: "models ! p = table_set" "banks ! p = bank" "unat width = length samples"
  shows "\<exists>line1 contexts' run'.
    matched (bit_link code) wr wr' (decode_golomb_plane_line off models banks p rp width b state)
      (set_golomb_line p bank rp (line1, contexts', run') state) \<and>
    st' = (ls_swap_lines line1, contexts', run') \<and>
    ls_current line1 = samples \<and> line_within (2 ^ unat b) (length samples) line1 \<and> pending_count run' = 0"
proof -
  obtain line' contexts' run' where st': "st' = (line', contexts', run')" by (cases st')
  from golomb_line_matched [OF enc [unfolded golomb_line_def st'] w line refl bits samples pending, where code = code and off = off]
  obtain line1 where
    m: "matched (bit_link code) wr wr' (decode_golomb_rice_line off table_set (length samples) b
      (ss_line_state state p, ss_golomb_rice_contexts state ! bank, golomb_rice_run_state state rp)) (line1, contexts', run')" and
    line1: "ls_current line1 = samples" "line' = ls_swap_lines line1" "line_within (2 ^ unat b) (length samples) line1"
      "pending_count run' = 0" by blast
  have "matched (bit_link code) wr wr' (decode_golomb_plane_line off models banks p rp width b state)
      (set_golomb_line p bank rp (line1, contexts', run') state)"
    by (rule matched_cong [OF m]) (simp add: decode_golomb_plane_line_def golomb_line_def same)
  with line1 st' show ?thesis by blast
qed

subsection \<open>Planar samples\<close>

lemma read_row_samples_Inr:
  assumes "read_row_samples stream iws im i y xs = Inr samples" and "unat (sp_bits_per_raw_sample stream) \<le> 16"
  shows "samples = map (\<lambda>x. uint (load_sample stream iws im i y x)) xs"
    and "\<forall>x \<in> set xs. unat (load_sample stream iws im i y x) < 2 ^ unat (sp_bits_per_raw_sample stream)"
proof -
  have "samples = map (\<lambda>x. uint (load_sample stream iws im i y x)) xs \<and>
    (\<forall>x \<in> set xs. unat (load_sample stream iws im i y x) < 2 ^ unat (sp_bits_per_raw_sample stream))"
    using assms(1)
  proof (induction xs arbitrary: samples)
    case (Cons x xs)
    then obtain rest where ok: "\<not> maximum_sample stream < load_sample stream iws im i y x"
      and rest: "read_row_samples stream iws im i y xs = Inr rest"
      and samples: "samples = uint (load_sample stream iws im i y x) # rest"
      by (auto simp: read_sample_Inr)
    with Cons.IH [OF rest] within_maximum [OF ok assms(2)] show ?case by simp
  qed simp
  then show "samples = map (\<lambda>x. uint (load_sample stream iws im i y x)) xs"
    and "\<forall>x \<in> set xs. unat (load_sample stream iws im i y x) < 2 ^ unat (sp_bits_per_raw_sample stream)" by blast+
qed

lemma golomb_planar_row_matched:
  assumes run: "encode_golomb_planar_row stream iws im (sp_quant_table_sets stream ! 0) i y state wr = Inr (state', wr')"
    and w: "writer_ok wr" and shape: "same_shape iws ows" and i: "i < length ows" "y < unat (pw_height (ows ! i))"
    and ctx: "same_golomb_contexts stream models banks (length ows)" and planar: "sp_colorspace_type stream \<noteq> 1"
    and lines: "lines_within stream ows state" and pending: "no_pending (length ows) state"
    and bits: "0 < unat (sp_bits_per_raw_sample stream)" "unat (sp_bits_per_raw_sample stream) \<le> 16"
    and out: "output_backed stream ows m" and D: "copied stream iws im ows m D"
  shows "\<exists>m'. matched (bit_link code) wr wr' (decode_golomb_planar_row stream off models banks ows i y (state, m)) (state', m') \<and>
    lines_within stream ows state' \<and> no_pending (length ows) state' \<and>
    output_backed stream ows m' \<and> copied stream iws im ows m' (insert (i, y) D)"
proof -
  let ?b = "sp_bits_per_raw_sample stream" and ?w = "pw_width (ows ! i)" and ?bank = "golomb_rice_bank_index stream i"
  let ?s = "\<lambda>x. load_sample stream iws im i y x"
  note win = same_shape_window [OF shape i(1)]
  from run obtain samples st' where
    read: "read_row_samples stream iws im i y [0..<unat ?w] = Inr samples" and
    enc: "encode_golomb_rice_line (sp_quant_table_sets stream ! 0) samples ?b (golomb_line i ?bank i state) wr = Inr (st', wr')" and
    st': "state' = set_golomb_line i ?bank i st' state"
    by (auto simp: encode_golomb_planar_row_def encode_golomb_plane_line_def win bind_result_eq_Inr)
  note rd = read_row_samples_Inr [OF read bits(2)]
  have len: "length samples = unat ?w" by (simp add: rd(1))
  have depth: "unat (?s x) < 2 ^ unat ?b" if "x < unat ?w" for x using rd(2) that by simp
  have samples: "\<forall>x < length samples. 0 \<le> samples ! x \<and> samples ! x < 2 ^ unat ?b"
    using uint_bound depth by (auto simp: rd(1))
  have cb: "coded_bits stream i = ?b" using planar by (simp add: coded_bits_def)
  have line: "line_within (2 ^ unat ?b) (length samples) (ss_line_state state i)"
    using lines i(1) unfolding cb [symmetric] len by (simp add: lines_within_def)
  have b17: "unat ?b \<le> 17" using bits(2) by simp
  have p: "pending_count (golomb_rice_run_state state i) = 0" using pending i(1) by (simp add: no_pending_def)
  have c: "models ! i = sp_quant_table_sets stream ! 0" "banks ! i = ?bank" using ctx i(1) by (simp_all add: same_golomb_contexts_def)
  from golomb_plane_line_matched [OF enc w line bits(1) b17 samples p c len [symmetric], where code = code and off = off]
  obtain line1 contexts' run' where
    row: "matched (bit_link code) wr wr' (decode_golomb_plane_line off models banks i i ?w ?b state)
      (set_golomb_line i ?bank i (line1, contexts', run') state)" and
    st1: "st' = (ls_swap_lines line1, contexts', run')" and
    line1: "ls_current line1 = samples" "line_within (2 ^ unat ?b) (length samples) line1" "pending_count run' = 0" by blast
  note state' = st' [unfolded st1]
  let ?m' = "store_plane_row stream i (row_address (ows ! i) y) (unat ?w) (\<lambda>x. word_of_int (ls_current line1 ! x)) m"
  have fmt: "pw_sample_format (ows ! i) = sample_format_for_bit_depth ?b" using out i(1) by (simp add: output_backed_def)
  have store: "store_planar_line stream ows i y line1 m = Inr (ls_swap_lines line1, ?m')"
    by (simp add: store_planar_line_def output_row_address [where ws = ows, OF fmt i] win)
  have il: "i < length (ss_line_states state)" using lines i(1) by (simp add: lines_within_def)
  have "matched (bit_link code) wr wr' (decode_golomb_planar_row stream off models banks ows i y (state, m)) (state', ?m')"
    unfolding decode_golomb_planar_row_def prod.case win
    by (rule matched_cong [OF row]) (simp add: ss_line_state_golomb [OF il] store set_line_state_golomb state')
  moreover have "lines_within stream ows state'"
    unfolding state' using line_within_swap [OF line1(2)] by (intro lines_within_golomb [OF lines]) (simp add: cb len)
  moreover have "no_pending (length ows) state'" unfolding state' by (rule no_pending_set [OF pending line1(3)])
  moreover have "copied stream iws im ows ?m' (insert (i, y) D)"
  proof (rule copied_store [OF out D i refl])
    fix x assume x: "x < unat ?w"
    then have "ls_current line1 ! x = uint (?s x)" by (simp add: line1(1) rd(1))
    then have "(word_of_int (ls_current line1 ! x) :: u16) = ucast (?s x)" by (simp only: ucast_eq)
    then show "stored_sample stream (word_of_int (ls_current line1 ! x)) = ?s x"
      using stored_sample_exact [OF depth [OF x] bits(2)] by simp
  qed
  ultimately show ?thesis using output_backed_store [OF out] by blast
qed

lemma golomb_planar_rows_matched:
  assumes run: "loop_result (encode_golomb_planar_row stream iws im (sp_quant_table_sets stream ! 0) i) ys state wr = Inr (state', wr')"
    and w: "writer_ok wr" and shape: "same_shape iws ows" and i: "i < length ows" "\<forall>y \<in> set ys. y < unat (pw_height (ows ! i))"
    and ctx: "same_golomb_contexts stream models banks (length ows)" and planar: "sp_colorspace_type stream \<noteq> 1"
    and lines: "lines_within stream ows state" and pending: "no_pending (length ows) state"
    and bits: "0 < unat (sp_bits_per_raw_sample stream)" "unat (sp_bits_per_raw_sample stream) \<le> 16"
    and out: "output_backed stream ows m" and D: "copied stream iws im ows m D"
  shows "\<exists>m'. matched (bit_link code) wr wr'
      (loop_result (decode_golomb_planar_row stream off models banks ows i) ys (state, m)) (state', m') \<and>
    lines_within stream ows state' \<and> no_pending (length ows) state' \<and>
    output_backed stream ows m' \<and> copied stream iws im ows m' (D \<union> {i} \<times> set ys)"
proof -
  have "\<exists>m'. matched (bit_link code) wr wr'
        (loop_result (decode_golomb_planar_row stream off models banks ows i) ys (state, m)) (state', m') \<and>
      (lines_within stream ows state' \<and> no_pending (length ows) state' \<and>
       output_backed stream ows m' \<and> copied stream iws im ows m' (D \<union> (\<Union>y \<in> set ys. {(i, y)})))"
  proof (rule loop_result_matched [OF run], goal_cases)
    case (3 y state wr state' wr' m D)
    with golomb_planar_row_matched [OF 3(2) _ shape i(1) _ ctx planar _ _ bits, of m D code off] i(2) show ?case by simp
  qed (use w lines pending out D in simp_all)
  moreover have "(\<Union>y \<in> set ys. {(i, y)}) = {i} \<times> set ys" by auto
  ultimately show ?thesis by simp
qed

lemma golomb_plane_matched:
  assumes run: "encode_golomb_plane stream iws im (sp_quant_table_sets stream ! 0) i state wr = Inr (state', wr')"
    and w: "writer_ok wr" and shape: "same_shape iws ows" and i: "i < length ows"
    and ctx: "same_golomb_contexts stream models banks (length ows)" and planar: "sp_colorspace_type stream \<noteq> 1"
    and lines: "lines_within stream ows state" and pending: "no_pending (length ows) state"
    and bits: "0 < unat (sp_bits_per_raw_sample stream)" "unat (sp_bits_per_raw_sample stream) \<le> 16"
    and out: "output_backed stream ows m" and D: "copied stream iws im ows m D"
  shows "\<exists>m'. matched (bit_link code) wr wr' (decode_golomb_plane stream off models banks ows i (state, m)) (state', m') \<and>
    lines_within stream ows state' \<and> no_pending (length ows) state' \<and>
    output_backed stream ows m' \<and> copied stream iws im ows m' (D \<union> {i} \<times> {..<unat (pw_height (ows ! i))})"
proof -
  let ?ys = "[0..<unat (pw_height (ows ! i))]"
  note win = same_shape_window [OF shape i]
  from run have rows: "loop_result (encode_golomb_planar_row stream iws im (sp_quant_table_sets stream ! 0) i) ?ys state wr = Inr (state', wr')"
    by (simp only: encode_golomb_plane_def win)
  have ys: "\<forall>y \<in> set ?ys. y < unat (pw_height (ows ! i))" by simp
  from golomb_planar_rows_matched [OF rows w shape i ys ctx planar lines pending bits out D]
  obtain m1 where m1: "matched (bit_link code) wr wr'
      (loop_result (decode_golomb_planar_row stream off models banks ows i) ?ys (state, m)) (state', m1)"
    "lines_within stream ows state'" "no_pending (length ows) state'" "output_backed stream ows m1"
    "copied stream iws im ows m1 (D \<union> {i} \<times> set ?ys)" by blast
  have "matched (bit_link code) wr wr' (decode_golomb_plane stream off models banks ows i (state, m)) (state', m1)"
    unfolding decode_golomb_plane_def [abs_def] win
    by (rule matched_cong [OF m1(1)]) (simp add: clear_pending_run_id [OF m1(3) i])
  moreover have "set ?ys = {..<unat (pw_height (ows ! i))}" by auto
  ultimately show ?thesis using m1(2-5) by auto
qed

lemma golomb_planes_matched:
  assumes run: "loop_result (encode_golomb_plane stream iws im (sp_quant_table_sets stream ! 0)) is state wr = Inr (state', wr')"
    and w: "writer_ok wr" and shape: "same_shape iws ows" and i: "\<forall>i \<in> set is. i < length ows"
    and ctx: "same_golomb_contexts stream models banks (length ows)" and planar: "sp_colorspace_type stream \<noteq> 1"
    and lines: "lines_within stream ows state" and pending: "no_pending (length ows) state"
    and bits: "0 < unat (sp_bits_per_raw_sample stream)" "unat (sp_bits_per_raw_sample stream) \<le> 16"
    and out: "output_backed stream ows m" and D: "copied stream iws im ows m D"
  shows "\<exists>m'. matched (bit_link code) wr wr'
      (loop_result (decode_golomb_plane stream off models banks ows) is (state, m)) (state', m') \<and>
    lines_within stream ows state' \<and> no_pending (length ows) state' \<and>
    output_backed stream ows m' \<and> copied stream iws im ows m' (D \<union> {(i, y). i \<in> set is \<and> y < unat (pw_height (ows ! i))})"
proof -
  have "\<exists>m'. matched (bit_link code) wr wr' (loop_result (decode_golomb_plane stream off models banks ows) is (state, m)) (state', m') \<and>
      (lines_within stream ows state' \<and> no_pending (length ows) state' \<and> output_backed stream ows m' \<and>
       copied stream iws im ows m' (D \<union> (\<Union>i \<in> set is. {i} \<times> {..<unat (pw_height (ows ! i))})))"
  proof (rule loop_result_matched [OF run], goal_cases)
    case (3 i state wr state' wr' m D)
    with golomb_plane_matched [OF 3(2) _ shape _ ctx planar _ _ bits, of m D code off] i show ?case by simp
  qed (use w lines pending out D in simp_all)
  moreover have "(\<Union>i \<in> set is. {i} \<times> {..<unat (pw_height (ows ! i))}) = {(i, y). i \<in> set is \<and> y < unat (pw_height (ows ! i))}" by auto
  ultimately show ?thesis by simp
qed

subsection \<open>RGB samples\<close>

lemma read_rgba_pixels_Inr:
  assumes "read_rgba_pixels stream iws im y xs = Inr pixels" and "unat (sp_bits_per_raw_sample stream) \<le> 16"
    and "planes = (if sp_extra_plane stream then 4 else 3)"
  shows "pixels = map (\<lambda>x. ((ucast (load_sample stream iws im 0 y x), ucast (load_sample stream iws im 1 y x),
      ucast (load_sample stream iws im 2 y x)), if sp_extra_plane stream then uint (load_sample stream iws im 3 y x) else 0)) xs"
    and "\<forall>x \<in> set xs. \<forall>i < planes. unat (load_sample stream iws im i y x) < 2 ^ unat (sp_bits_per_raw_sample stream)"
proof -
  have "pixels = map (\<lambda>x. ((ucast (load_sample stream iws im 0 y x), ucast (load_sample stream iws im 1 y x),
      ucast (load_sample stream iws im 2 y x)), if sp_extra_plane stream then uint (load_sample stream iws im 3 y x) else 0)) xs \<and>
    (\<forall>x \<in> set xs. \<forall>i < planes. unat (load_sample stream iws im i y x) < 2 ^ unat (sp_bits_per_raw_sample stream))"
    using assms(1)
  proof (induction xs arbitrary: pixels)
    case Nil
    then show ?case by simp
  next
    case (Cons x xs)
    let ?s = "\<lambda>i. load_sample stream iws im i y x"
    from Cons.prems obtain rest where
      ok: "\<not> maximum_sample stream < ?s 0" "\<not> maximum_sample stream < ?s 1" "\<not> maximum_sample stream < ?s 2"
        "sp_extra_plane stream \<longrightarrow> \<not> maximum_sample stream < ?s 3" and
      rest: "read_rgba_pixels stream iws im y xs = Inr rest" and
      pixels: "pixels = ((ucast (?s 0), ucast (?s 1), ucast (?s 2)), if sp_extra_plane stream then uint (?s 3) else 0) # rest"
      by (auto simp: read_sample_Inr split: if_splits)
    have "\<not> maximum_sample stream < ?s i" if "i < planes" for i
      using that ok assms(3) by (auto simp: less_Suc_eq numeral_eq_Suc split: if_splits)
    with within_maximum [OF _ assms(2)] Cons.IH [OF rest] pixels show ?case by simp
  qed
  then show "pixels = map (\<lambda>x. ((ucast (load_sample stream iws im 0 y x), ucast (load_sample stream iws im 1 y x),
      ucast (load_sample stream iws im 2 y x)), if sp_extra_plane stream then uint (load_sample stream iws im 3 y x) else 0)) xs"
    and "\<forall>x \<in> set xs. \<forall>i < planes. unat (load_sample stream iws im i y x) < 2 ^ unat (sp_bits_per_raw_sample stream)"
    by blast+
qed

text \<open>The encoder has moved on to the next line in the planes of \<open>done\<close>.\<close>

definition swap_in :: "nat set \<Rightarrow> slice_state \<Rightarrow> slice_state" where
  "swap_in done state =
     state\<lparr>ss_line_states := map (\<lambda>i. if i \<in> done then ls_swap_lines (ss_line_states state ! i) else ss_line_states state ! i)
       [0..<length (ss_line_states state)]\<rparr>"

lemma swap_in_none: "swap_in {} state = state"
  by (simp add: swap_in_def map_nth)

lemma swap_in_all: "length (ss_line_states state) = n \<Longrightarrow> swap_in {..<n} state = swap_all_lines state"
  by (auto simp: swap_in_def swap_all_lines_def intro!: arg_cong [where f = "\<lambda>ls. state\<lparr>ss_line_states := ls\<rparr>"] nth_equalityI)

lemma golomb_line_swap_in:
  "p \<notin> done \<Longrightarrow> p < length (ss_line_states state) \<Longrightarrow> golomb_line p bank rp (swap_in done state) = golomb_line p bank rp state"
  by (simp add: golomb_line_def swap_in_def ss_line_state_def golomb_rice_run_state_def)

lemma set_golomb_line_swap_in:
  assumes "p \<notin> done" and "p < length (ss_line_states state)"
  shows "set_golomb_line p bank rp (ls_swap_lines line, contexts, run_state) (swap_in done state) =
    swap_in (insert p done) (set_golomb_line p bank rp (line, contexts, run_state) state)"
proof -
  have "(map (\<lambda>i. if i \<in> done then ls_swap_lines (ss_line_states state ! i) else ss_line_states state ! i)
      [0..<length (ss_line_states state)])[p := ls_swap_lines line] =
    map (\<lambda>i. if i \<in> insert p done then ls_swap_lines ((ss_line_states state)[p := line] ! i) else (ss_line_states state)[p := line] ! i)
      [0..<length (ss_line_states state)]"
    using assms by (intro nth_equalityI) (auto simp: nth_list_update)
  then show ?thesis
    by (simp add: set_golomb_line_def swap_in_def set_golomb_rice_run_state_def set_line_state_def)
qed

text \<open>The rows that are coded: one for each plane, of the width of the window and one more bit.\<close>

definition rgb_rows :: "stream_parameters \<Rightarrow> plane_window list \<Rightarrow> int list list \<Rightarrow> bool" where
  "rgb_rows stream ows rows \<longleftrightarrow>
     (\<forall>i < length ows. codes_of_depth (sp_bits_per_raw_sample stream) (unat (pw_width (ows ! 0))) (rows ! i))"

lemma golomb_rgb_plane_matched:
  assumes run: "encode_golomb_rgb_plane stream (sp_quant_table_sets stream ! 0) rows i (swap_in done state) wr = Inr (state', wr')"
    and w: "writer_ok wr" and i: "i < length ows" "i \<notin> done"
    and ctx: "same_golomb_contexts stream models banks (length ows)" and rgb: "rgb_windows stream ows"
    and space: "sp_colorspace_type stream = 1" "sp_entropy_mode stream = GolombRiceMode" and rows: "rgb_rows stream ows rows"
    and lines: "lines_within stream ows state" and pending: "no_pending (length ows) state"
    and bits: "0 < unat (sp_bits_per_raw_sample stream)" "unat (sp_bits_per_raw_sample stream) \<le> 16"
  shows "\<exists>line1 contexts' run'. matched (bit_link code) wr wr' (decode_golomb_rgb_plane stream off models banks ows i state)
      (set_golomb_line i (golomb_rice_bank_index stream i) 0 (line1, contexts', run') state) \<and>
    state' = swap_in (insert i done) (set_golomb_line i (golomb_rice_bank_index stream i) 0 (line1, contexts', run') state) \<and>
    ls_current line1 = rows ! i \<and>
    lines_within stream ows (set_golomb_line i (golomb_rice_bank_index stream i) 0 (line1, contexts', run') state) \<and>
    no_pending (length ows) (set_golomb_line i (golomb_rice_bank_index stream i) 0 (line1, contexts', run') state)"
proof -
  let ?b = "sp_bits_per_raw_sample stream + 1" and ?bank = "golomb_rice_bank_index stream i" and ?w = "pw_width (ows ! 0)"
  have il: "i < length (ss_line_states state)" using lines i(1) by (simp add: lines_within_def)
  have wi: "pw_width (ows ! i) = ?w" using rgb i(1) unfolding rgb_windows_def by blast
  have suc: "unat ?b = unat (sp_bits_per_raw_sample stream) + 1" using bits(2) by (subst unat_add_bounded) simp_all
  have n: "0 < unat ?b" "unat ?b \<le> 17" using bits suc by simp_all
  have row: "length (rows ! i) = unat ?w" "\<forall>x < length (rows ! i). 0 \<le> rows ! i ! x \<and> rows ! i ! x < 2 ^ unat ?b"
    using rows i(1) by (simp_all add: rgb_rows_def codes_of_depth_def suc)
  have cb: "coded_bits stream i = ?b" by (simp add: coded_bits_def space)
  have line: "line_within (2 ^ unat ?b) (length (rows ! i)) (ss_line_state state i)"
    using lines i(1) unfolding cb [symmetric] row(1) wi [symmetric] by (simp add: lines_within_def)
  have "0 < length ows" using i(1) by linarith
  then have p0: "pending_count (golomb_rice_run_state state 0) = 0" using pending by (simp add: no_pending_def)
  have c: "models ! i = sp_quant_table_sets stream ! 0" "banks ! i = ?bank" using ctx i(1) by (simp_all add: same_golomb_contexts_def)
  from run obtain st' where
    enc: "encode_golomb_rice_line (sp_quant_table_sets stream ! 0) (rows ! i) ?b (golomb_line i ?bank 0 state) wr = Inr (st', wr')" and
    state': "state' = set_golomb_line i ?bank 0 st' (swap_in done state)"
    by (auto simp: encode_golomb_rgb_plane_def encode_golomb_plane_line_def golomb_line_swap_in [OF i(2) il] bind_result_eq_Inr)
  from golomb_plane_line_matched [OF enc w line n row(2) p0 c row(1) [symmetric], where code = code and off = off]
  obtain line1 contexts' run' where
    m: "matched (bit_link code) wr wr' (decode_golomb_plane_line off models banks i 0 ?w ?b state)
      (set_golomb_line i ?bank 0 (line1, contexts', run') state)" and
    line1: "ls_current line1 = rows ! i" "line_within (2 ^ unat ?b) (length (rows ! i)) line1" "pending_count run' = 0" and
    st: "st' = (ls_swap_lines line1, contexts', run')" by blast
  let ?state1 = "set_golomb_line i ?bank 0 (line1, contexts', run') state"
  have "window_plane_width ows 0 = ?w" using \<open>0 < length ows\<close> by (simp add: window_plane_width_def)
  then have "matched (bit_link code) wr wr' (decode_golomb_rgb_plane stream off models banks ows i state) ?state1"
    using m by (simp add: decode_golomb_rgb_plane_def)
  moreover have "state' = swap_in (insert i done) ?state1"
    unfolding state' st by (rule set_golomb_line_swap_in [OF i(2) il])
  moreover have "lines_within stream ows ?state1"
    using line1(2) by (intro lines_within_golomb [OF lines]) (simp add: cb wi row(1))
  ultimately show ?thesis using line1(1) no_pending_set [OF pending line1(3)] by blast
qed

lemma golomb_rgb_planes_matched:
  assumes run: "loop_result (encode_golomb_rgb_plane stream (sp_quant_table_sets stream ! 0) rows) is (swap_in done state) wr = Inr (state', wr')"
    and w: "writer_ok wr" and i: "\<forall>i \<in> set is. i < length ows \<and> i \<notin> done" "distinct is"
    and ctx: "same_golomb_contexts stream models banks (length ows)" and rgb: "rgb_windows stream ows"
    and space: "sp_colorspace_type stream = 1" "sp_entropy_mode stream = GolombRiceMode" and rows: "rgb_rows stream ows rows"
    and lines: "lines_within stream ows state" and pending: "no_pending (length ows) state"
    and bits: "0 < unat (sp_bits_per_raw_sample stream)" "unat (sp_bits_per_raw_sample stream) \<le> 16"
  shows "\<exists>state1. matched (bit_link code) wr wr' (loop_result (decode_golomb_rgb_plane stream off models banks ows) is state) state1 \<and>
    state' = swap_in (done \<union> set is) state1 \<and> lines_within stream ows state1 \<and> no_pending (length ows) state1 \<and>
    (\<forall>i < length ows. i \<notin> set is \<longrightarrow> ss_line_state state1 i = ss_line_state state i) \<and>
    (\<forall>i \<in> set is. ls_current (ss_line_state state1 i) = rows ! i)"
  using run w i lines pending
proof (induction "is" arbitrary: state wr "done")
  case Nil
  then show ?case by (auto intro!: exI [of _ state] matched_refl)
next
  case (Cons i "is")
  let ?bank = "golomb_rice_bank_index stream i"
  from Cons.prems(3,4) have i: "i < length ows" "i \<notin> done" "i \<notin> set is" "distinct is"
    and rest: "\<forall>j \<in> set is. j < length ows \<and> j \<notin> insert i done" by auto
  from Cons.prems(1) obtain stateE wr1 where
    w1: "encode_golomb_rgb_plane stream (sp_quant_table_sets stream ! 0) rows i (swap_in done state) wr = Inr (stateE, wr1)" and
    w2: "loop_result (encode_golomb_rgb_plane stream (sp_quant_table_sets stream ! 0) rows) is stateE wr1 = Inr (state', wr')"
    unfolding loop_result_Cons_Inr by blast
  from golomb_rgb_plane_matched [OF w1 Cons.prems(2) i(1,2) ctx rgb space rows Cons.prems(5,6) bits, where code = code and off = off]
  obtain line1 contexts1 run1 where
    plane: "matched (bit_link code) wr wr1 (decode_golomb_rgb_plane stream off models banks ows i state)
      (set_golomb_line i ?bank 0 (line1, contexts1, run1) state)"
      "stateE = swap_in (insert i done) (set_golomb_line i ?bank 0 (line1, contexts1, run1) state)" "ls_current line1 = rows ! i"
      "lines_within stream ows (set_golomb_line i ?bank 0 (line1, contexts1, run1) state)"
      "no_pending (length ows) (set_golomb_line i ?bank 0 (line1, contexts1, run1) state)" by blast
  let ?state1 = "set_golomb_line i ?bank 0 (line1, contexts1, run1) state"
  have wr1: "writer_ok wr1" using matched_winv [OF plane(1)] by simp
  from Cons.IH [OF w2 [unfolded plane(2)] wr1 rest i(4) plane(4,5)] obtain state2 where
    IH: "matched (bit_link code) wr1 wr' (loop_result (decode_golomb_rgb_plane stream off models banks ows) is ?state1) state2"
      "state' = swap_in (insert i done \<union> set is) state2" "lines_within stream ows state2" "no_pending (length ows) state2"
      "\<forall>j < length ows. j \<notin> set is \<longrightarrow> ss_line_state state2 j = ss_line_state ?state1 j"
      "\<forall>j \<in> set is. ls_current (ss_line_state state2 j) = rows ! j" by blast
  have il: "i < length (ss_line_states state)" using Cons.prems(5) i(1) by (simp add: lines_within_def)
  have others: "ss_line_state ?state1 j = ss_line_state state j" if "j \<noteq> i" for j
    using that by (simp add: ss_line_state_def set_golomb_line_def set_golomb_rice_run_state_def set_line_state_def)
  have "matched (bit_link code) wr wr' (loop_result (decode_golomb_rgb_plane stream off models banks ows) (i # is) state) state2"
    unfolding loop_result.simps by (rule matched_bindI [OF plane(1)], simp only: prod.case, rule IH(1))
  moreover have "ls_current (ss_line_state state2 i) = rows ! i"
    using IH(5) i(1,3) plane(3) by (simp add: ss_line_state_golomb [OF il])
  moreover have "\<forall>j < length ows. j \<notin> set (i # is) \<longrightarrow> ss_line_state state2 j = ss_line_state state j"
    using IH(5) others by simp
  moreover have "insert i done \<union> set is = done \<union> set (i # is)" by simp
  ultimately show ?case using IH(2-4,6)
    by (intro exI [of _ state2] conjI) (simp_all del: loop_result.simps)
qed

context lossless_kernels begin

lemma golomb_rgb_row_matched:
  assumes run: "encode_golomb_rgb_row stream kernels iws im (sp_quant_table_sets stream ! 0) y state wr = Inr (state', wr')"
    and w: "writer_ok wr" and shape: "same_shape iws ows" and y: "y < unat (pw_height (ows ! 0))"
    and ctx: "same_golomb_contexts stream models banks (length ows)" and rgb: "rgb_windows stream ows"
    and space: "sp_colorspace_type stream = 1" "sp_entropy_mode stream = GolombRiceMode"
    and lines: "lines_within stream ows state" and pending: "no_pending (length ows) state"
    and bits: "0 < unat (sp_bits_per_raw_sample stream)" "unat (sp_bits_per_raw_sample stream) \<le> 16"
    and out: "output_backed stream ows m" and D: "copied stream iws im ows m D"
  shows "\<exists>m'. matched (bit_link code) wr wr' (decode_golomb_rgb_row stream kernels off models banks ows y (state, m)) (state', m') \<and>
    lines_within stream ows state' \<and> no_pending (length ows) state' \<and>
    output_backed stream ows m' \<and> copied stream iws im ows m' (D \<union> {..<length ows} \<times> {y})"
proof -
  define w where "w = unat (pw_width (ows ! 0))"
  let ?bits = "sp_bits_per_raw_sample stream"
  let ?load = "\<lambda>i x. load_sample stream iws im i y x"
  let ?row = "\<lambda>i. map (\<lambda>x. ucast (?load i x) :: u16) [0..<w]"
  from rgb have n: "3 \<le> length ows" "length ows \<le> 4" "coded_plane_count stream = length ows"
    "length ows = 4 \<longleftrightarrow> sp_extra_plane stream"
    unfolding rgb_windows_def by auto
  have pos: "0 < length ows" and lt: "1 < length ows" "2 < length ows" using n(1) by linarith+
  have count: "length ows = (if sp_extra_plane stream then 4 else 3)" using n by auto
  note win = same_shape_window [OF shape pos]
  from run obtain pixels where pixels: "read_rgba_pixels stream iws im y [0..<w] = Inr pixels"
    by (auto simp: encode_golomb_rgb_row_def Let_def win w_def)
  note px = read_rgba_pixels_Inr [OF pixels bits(2) count]
  obtain cy cb cr where fwd: "forward_color_transform_row kernels (map (\<lambda>((r, g, b), alpha). r) pixels)
      (map (\<lambda>((r, g, b), alpha). g) pixels) (map (\<lambda>((r, g, b), alpha). b) pixels) w ?bits (sp_extra_plane stream) = (cy, cb, cr)"
    by (metis prod.exhaust)
  let ?rows = "[cy, cb, cr, map snd pixels]"
  from run pixels fwd have planes: "loop_result (encode_golomb_rgb_plane stream (sp_quant_table_sets stream ! 0) ?rows)
      [0..<length ows] (swap_in {} state) wr = Inr (state', wr')"
    by (auto simp: encode_golomb_rgb_row_def Let_def win w_def n(3) swap_in_none)
  have channels: "map (\<lambda>((r, g, b), alpha). r) pixels = ?row 0" "map (\<lambda>((r, g, b), alpha). g) pixels = ?row 1"
    "map (\<lambda>((r, g, b), alpha). b) pixels = ?row 2"
    unfolding px(1) by simp_all
  have depth: "unat (?load i x) < 2 ^ unat ?bits" if "i < length ows" "x < w" for i x using px(2) that by simp
  have row_depth: "row_of_depth ?bits w (?row i)" if "i < length ows" for i
    using depth that by (intro loaded_row_of_depth) (simp_all add: bits(2))
  have bits': "?bits \<noteq> 0" "?bits \<le> 16" using bits by (auto simp: word_le_nat_alt)
  note kernel = bits' row_depth [OF pos] row_depth [OF lt(1)] row_depth [OF lt(2)] fwd [unfolded channels]
  have codes: "codes_of_depth ?bits w cy \<and> codes_of_depth ?bits w cb \<and> codes_of_depth ?bits w cr"
    by (rule codes [OF kernel])
  have inverse: "inverse_color_transform_row kernels cy cb cr w ?bits (sp_extra_plane stream) = (?row 0, ?row 1, ?row 2)"
    by (rule lossless [OF kernel])
  have alpha: "map snd pixels = map (\<lambda>x. if sp_extra_plane stream then uint (?load 3 x) else 0) [0..<w]"
    unfolding px(1) by simp
  have alpha_codes: "codes_of_depth ?bits w (map snd pixels)"
  proof -
    have "0 \<le> uint (?load 3 x) \<and> uint (?load 3 x) < 2 ^ (unat ?bits + 1)" if "sp_extra_plane stream" "x < w" for x
    proof -
      have "0 \<le> uint (?load 3 x) \<and> uint (?load 3 x) < 2 ^ unat ?bits"
        using that count by (intro uint_bound depth) simp_all
      moreover have "(2 :: int) ^ unat ?bits \<le> 2 ^ (unat ?bits + 1)" by (intro power_increasing) simp_all
      ultimately show ?thesis by linarith
    qed
    then show ?thesis unfolding alpha by (simp add: codes_of_depth_def)
  qed
  have "codes_of_depth ?bits w (?rows ! i)" if "i < length ows" for i
  proof -
    from that n(2) have "i = 0 \<or> i = 1 \<or> i = 2 \<or> i = 3" by linarith
    with codes alpha_codes show ?thesis by auto
  qed
  then have rows: "rgb_rows stream ows ?rows" by (simp add: rgb_rows_def w_def)
  have idx: "\<forall>i \<in> set [0..<length ows]. i < length ows \<and> i \<notin> {}" "distinct [0..<length ows]" by simp_all
  from golomb_rgb_planes_matched [OF planes \<open>writer_ok wr\<close> idx ctx rgb space rows lines pending bits, where code = code and off = off]
  obtain state1 where step: "matched (bit_link code) wr wr'
      (loop_result (decode_golomb_rgb_plane stream off models banks ows) [0..<length ows] state) state1"
    "state' = swap_in ({} \<union> set [0..<length ows]) state1" "lines_within stream ows state1" "no_pending (length ows) state1"
    "\<forall>i \<in> set [0..<length ows]. ls_current (ss_line_state state1 i) = ?rows ! i" by blast
  have len: "length (ss_line_states state1) = length ows" using step(3) by (simp add: lines_within_def)
  have "{} \<union> set [0..<length ows] = {..<length ows}" by auto
  then have state': "state' = swap_all_lines state1" using step(2) swap_in_all [OF len] by simp
  have current: "ls_current (ss_line_state state1 i) = ?rows ! i" if "i < length ows" for i using step(5) that by simp
  have c: "ls_current (ss_line_state state1 0) = cy" "ls_current (ss_line_state state1 1) = cb" "ls_current (ss_line_state state1 2) = cr"
    using current [OF pos] current [OF lt(1)] current [OF lt(2)] by simp_all
  have alpha_row: "3 < length ows \<longrightarrow> (\<forall>x < w. ls_current (ss_line_state state1 3) ! x = uint (?load 3 x))"
    using current [of 3] count by (auto simp: alpha)
  have all_depth: "\<forall>i < length ows. \<forall>x < w. unat (?load i x) < 2 ^ unat ?bits" using depth by blast
  from store_rgb_row [OF out D rgb y w_def bits, of kernels state1] inverse alpha_row all_depth
  obtain m' where m': "store_rgb_line stream kernels ows y state1 m = Inr (swap_all_lines state1, m')"
    "output_backed stream ows m'" "copied stream iws im ows m' (D \<union> {..<length ows} \<times> {y})"
    unfolding c by blast
  have "matched (bit_link code) wr wr' (decode_golomb_rgb_row stream kernels off models banks ows y (state, m)) (state', m')"
    unfolding decode_golomb_rgb_row_def prod.case
    by (rule matched_cong [OF step(1)]) (simp add: window_plane_count_def m'(1) state')
  moreover have "lines_within stream ows state'" using lines_within_swap_all [OF step(3)] by (simp add: state')
  moreover have "no_pending (length ows) state'"
    using step(4) by (simp add: state' no_pending_def swap_all_lines_def golomb_rice_run_state_def)
  ultimately show ?thesis using m'(2,3) by blast
qed

text \<open>All the samples: both sides prepare the same contexts and reset the run states.\<close>

lemma golomb_samples_matched:
  assumes run: "encode_golomb_rice_samples stream kernels iws im state wr = Inr (state', wr')"
    and w: "writer_ok wr" and shape: "same_shape iws ows" and planes: "length ows = coded_plane_count stream"
    and rgb: "sp_colorspace_type stream = 1 \<longrightarrow> rgb_windows stream ows" and mode: "sp_entropy_mode stream = GolombRiceMode"
    and ctx: "same_golomb_contexts stream models banks (length ows)"
    and counts: "counts = replicate (if 3 \<le> sp_version stream then quant_table_set_index_count stream else 1)
      (qt_context_count (sp_quant_table_sets stream ! 0))"
    and lines: "lines_within stream ows state"
    and bits: "0 < unat (sp_bits_per_raw_sample stream)" "unat (sp_bits_per_raw_sample stream) \<le> 16"
    and out: "output_backed stream ows m"
  shows "\<exists>state1 m'. prepare_golomb_rice counts (window_plane_count ows) state = Inr state1 \<and>
    matched (bit_link code) wr wr' (decode_golomb_planes stream kernels off models banks ows
      (reset_run_states (window_plane_count ows) state1, m)) (state', m') \<and>
    lines_within stream ows state' \<and> output_backed stream ows m' \<and>
    copied stream iws im ows m' {(i, y). i < length ows \<and> y < unat (pw_height (ows ! i))}"
proof -
  let ?n = "length ows"
  have none: "copied stream iws im ows m {}" by (simp add: copied_def)
  have wn: "window_plane_count ows = ?n" by (simp add: window_plane_count_def)
  from run obtain state1 where prep: "prepare_golomb_rice counts ?n state = Inr state1" and
    loop: "(if sp_colorspace_type stream = 1
      then loop_result (encode_golomb_rgb_row stream kernels iws im (sp_quant_table_sets stream ! 0))
        [0..<unat (window_plane_height iws 0)] (reset_run_states ?n state1) wr
      else loop_result (encode_golomb_plane stream iws im (sp_quant_table_sets stream ! 0)) [0..<?n] (reset_run_states ?n state1) wr)
      = Inr (state', wr')"
    unfolding encode_golomb_rice_samples_def Let_def counts [symmetric] planes [symmetric] by (auto simp: bind_result_eq_Inr)
  let ?state = "reset_run_states ?n state1"
  note pr = prepare_golomb_rice_runs [OF prep]
  have lines1: "lines_within stream ows ?state"
    using lines pr lines_within_lines [of ?state state stream ows] by simp
  have pending: "no_pending ?n ?state" using pr by (intro no_pending_reset) simp
  have "\<exists>m'. matched (bit_link code) wr wr' (decode_golomb_planes stream kernels off models banks ows (?state, m)) (state', m') \<and>
    lines_within stream ows state' \<and> output_backed stream ows m' \<and>
    copied stream iws im ows m' {(i, y). i < ?n \<and> y < unat (pw_height (ows ! i))}"
  proof (cases "sp_colorspace_type stream = 1")
    case True
    then have rgb: "rgb_windows stream ows" using rgb by simp
    then have h: "pw_height (ows ! i) = pw_height (ows ! 0)" if "i < ?n" for i using that unfolding rgb_windows_def by blast
    have "0 < ?n" using rgb unfolding rgb_windows_def by linarith
    note win = same_shape_window [OF shape this]
    have rows: "loop_result (encode_golomb_rgb_row stream kernels iws im (sp_quant_table_sets stream ! 0))
        [0..<unat (pw_height (ows ! 0))] ?state wr = Inr (state', wr')"
      using loop True by (simp add: win)
    have "\<exists>m'. matched (bit_link code) wr wr' (loop_result (decode_golomb_rgb_row stream kernels off models banks ows)
          [0..<unat (pw_height (ows ! 0))] (?state, m)) (state', m') \<and>
        (lines_within stream ows state' \<and> no_pending ?n state' \<and> output_backed stream ows m' \<and>
         copied stream iws im ows m' ({} \<union> (\<Union>y \<in> set [0..<unat (pw_height (ows ! 0))]. {..<?n} \<times> {y})))"
    proof (rule loop_result_matched [OF rows], goal_cases)
      case (3 y state wr state' wr' m D)
      with golomb_rgb_row_matched [OF 3(2) _ shape _ ctx rgb True mode _ _ bits, of m D code off] show ?case by simp
    qed (use w lines1 pending out none in simp_all)
    then obtain m' where m': "matched (bit_link code) wr wr' (loop_result (decode_golomb_rgb_row stream kernels off models banks ows)
          [0..<unat (pw_height (ows ! 0))] (?state, m)) (state', m')" "lines_within stream ows state'" "no_pending ?n state'"
      "output_backed stream ows m'" "copied stream iws im ows m' ({} \<union> (\<Union>y \<in> set [0..<unat (pw_height (ows ! 0))]. {..<?n} \<times> {y}))"
      by blast
    have "matched (bit_link code) wr wr' (decode_golomb_planes stream kernels off models banks ows (?state, m)) (state', m')"
      by (rule matched_cong [OF m'(1)])
        (simp add: decode_golomb_planes_def True win wn clear_pending_runs_id [OF m'(3)])
    moreover have "{} \<union> (\<Union>y \<in> set [0..<unat (pw_height (ows ! 0))]. {..<?n} \<times> {y}) = {(i, y). i < ?n \<and> y < unat (pw_height (ows ! i))}"
      using h by auto
    ultimately show ?thesis using m'(2,4,5) by auto
  next
    case False
    have rows: "loop_result (encode_golomb_plane stream iws im (sp_quant_table_sets stream ! 0)) [0..<?n] ?state wr = Inr (state', wr')"
      using loop False by simp
    have idx: "\<forall>i \<in> set [0..<?n]. i < ?n" by simp
    have "{} \<union> {(i, y). i \<in> set [0..<?n] \<and> y < unat (pw_height (ows ! i))} = {(i, y). i < ?n \<and> y < unat (pw_height (ows ! i))}" by auto
    with golomb_planes_matched [OF rows w shape idx ctx False lines1 pending bits out none, of code off]
    show ?thesis by (auto simp: decode_golomb_planes_def [abs_def] False wn)
  qed
  with prep show ?thesis unfolding wn by blast
qed

end

end
