(* ===== verification/Encoder_Profile.thy ===== *)
theory Encoder_Profile
  imports Configuration_Properties Plane_Window
begin

text \<open>
  From the caller's options to a stream description: \<open>normalize_encoder_profile\<close> of
  \<^verbatim>\<open>src/src/codec/encoder_profile.cpp\<close>, with the option types of
  \<^verbatim>\<open>src/include/mffv1/options.hpp\<close> and \<^verbatim>\<open>config.hpp\<close>.
\<close>

datatype cpu_feature = Sse2 | Ssse3 | Avx2 | Neon

record cpu_features =
  cf_allowed :: u64
  cf_auto_detect :: bool

definition new_cpu_features :: cpu_features where
  "new_cpu_features = \<lparr>cf_allowed = 0, cf_auto_detect = True\<rparr>"

record encoder_options =
  eo_thread_count :: int
  eo_version :: int
  eo_entropy_mode :: entropy_mode
  eo_keyframe_interval :: u32
  eo_cpu :: cpu_features

record stream_info =
  si_width :: u32
  si_height :: u32
  si_version :: u8
  si_bits_per_raw_sample :: u8
  si_log2_h_chroma_subsample :: u8
  si_log2_v_chroma_subsample :: u8
  si_has_chroma_planes :: bool
  si_has_extra_plane :: bool
  si_color_space :: color_space
  si_num_h_slices :: u32
  si_num_v_slices :: u32
  si_error_status_enabled :: bool

definition new_encoder_options :: encoder_options where
  "new_encoder_options =
     \<lparr>eo_thread_count = 0, eo_version = 3, eo_entropy_mode = RangeMode, eo_keyframe_interval = 1,
      eo_cpu = new_cpu_features\<rparr>"

definition new_stream_info :: stream_info where
  "new_stream_info =
     \<lparr>si_width = 0, si_height = 0, si_version = 3, si_bits_per_raw_sample = 8, si_log2_h_chroma_subsample = 0,
      si_log2_v_chroma_subsample = 0, si_has_chroma_planes = True, si_has_extra_plane = False, si_color_space = YCbCr,
      si_num_h_slices = 1, si_num_v_slices = 1, si_error_status_enabled = False\<rparr>"

text \<open>The assignments to the fields of \<open>stream\<close>.\<close>

definition profile_stream :: "encoder_options \<Rightarrow> stream_info \<Rightarrow> stream_parameters" where
  "profile_stream options info =
     new_stream_parameters\<lparr>sp_version := 3, sp_micro_version := 4, sp_entropy_mode := eo_entropy_mode options,
       sp_width := si_width info, sp_height := si_height info, sp_bits_per_raw_sample := si_bits_per_raw_sample info,
       sp_colorspace_type := (case si_color_space info of YCbCr \<Rightarrow> 0 | Rgb \<Rightarrow> 1),
       sp_chroma_planes := si_has_chroma_planes info, sp_extra_plane := si_has_extra_plane info,
       sp_log2_h_chroma_subsample := si_log2_h_chroma_subsample info,
       sp_log2_v_chroma_subsample := si_log2_v_chroma_subsample info,
       sp_num_h_slices := si_num_h_slices info, sp_num_v_slices := si_num_v_slices info,
       sp_error_status_enabled := si_error_status_enabled info\<rparr>"

definition empty_plane_region :: "stream_parameters \<Rightarrow> nat \<Rightarrow> bool" where
  "empty_plane_region stream plane_index \<longleftrightarrow>
     plane_width stream plane_index < sp_num_h_slices stream \<or> plane_height stream plane_index < sp_num_v_slices stream"

definition normalize_encoder_profile :: "encoder_options \<Rightarrow> stream_info \<Rightarrow> stream_parameters result" where
  "normalize_encoder_profile options info =
     (if si_width info = 0 \<or> si_height info = 0 then Inl (make_error InvalidArgument)
      else if eo_version options \<noteq> uint (si_version info) then Inl (make_error InvalidArgument)
      else if eo_version options \<noteq> 3 then Inl (make_error UnsupportedFeature)
      else if eo_entropy_mode options \<noteq> RangeMode \<and> eo_entropy_mode options \<noteq> GolombRiceMode
      then Inl (make_error UnsupportedFeature)
      else if \<not> is_supported_encoder_bit_depth (si_bits_per_raw_sample info) then Inl (make_error UnsupportedFeature)
      else if \<not> is_supported_public_color_space (si_color_space info) then Inl (make_error UnsupportedFeature)
      else if has_invalid_rgb_geometry (si_color_space info = Rgb) (si_has_chroma_planes info)
                (si_log2_h_chroma_subsample info) (si_log2_v_chroma_subsample info)
      then Inl (make_error InvalidArgument)
      else if has_subsampling_without_chroma (si_has_chroma_planes info)
                (si_log2_h_chroma_subsample info) (si_log2_v_chroma_subsample info)
      then Inl (make_error InvalidArgument)
      else if \<not> is_supported_chroma_subsampling (si_log2_h_chroma_subsample info) (si_log2_v_chroma_subsample info)
      then Inl (make_error UnsupportedFeature)
      else if si_num_h_slices info = 0 \<or> si_num_v_slices info = 0 then Inl (make_error InvalidArgument)
      else
        let stream = profile_stream options info;
            slice_count = (ucast (sp_num_h_slices stream) * ucast (sp_num_v_slices stream) :: u64)
        in if requires_version3_parallel_slice_limit (sp_version stream) (sp_width stream) (sp_height stream) \<and> slice_count < 4
           then Inl (make_error InvalidArgument)
           else if list_ex (empty_plane_region stream) [0..<coded_plane_count stream] then Inl (make_error InvalidArgument)
           else Inr (stream\<lparr>sp_quant_table_sets := [make_zero_quant_table_set],
                            sp_intra_only := (eo_keyframe_interval options = 1)\<rparr>))"

subsection \<open>What a normalised stream satisfies\<close>

text \<open>Every cell of the slice grid has at least one sample in every plane.\<close>

definition grid_fits :: "stream_parameters \<Rightarrow> bool" where
  "grid_fits stream \<longleftrightarrow>
     sp_num_h_slices stream \<noteq> 0 \<and> sp_num_v_slices stream \<noteq> 0 \<and>
     (\<forall>i < coded_plane_count stream.
        sp_num_h_slices stream \<le> plane_width stream i \<and> sp_num_v_slices stream \<le> plane_height stream i)"

text \<open>The profile the encoder supports: what \<open>normalize_encoder_profile\<close> establishes.\<close>

definition encoder_profile :: "stream_parameters \<Rightarrow> bool" where
  "encoder_profile stream \<longleftrightarrow>
     sp_version stream = 3 \<and> sp_micro_version stream = 4 \<and> sp_width stream \<noteq> 0 \<and> sp_height stream \<noteq> 0 \<and>
     is_supported_encoder_bit_depth (sp_bits_per_raw_sample stream) \<and>
     is_supported_syntax_colorspace (sp_colorspace_type stream) \<and>
     \<not> has_invalid_rgb_geometry (sp_colorspace_type stream = 1) (sp_chroma_planes stream)
         (sp_log2_h_chroma_subsample stream) (sp_log2_v_chroma_subsample stream) \<and>
     \<not> has_subsampling_without_chroma (sp_chroma_planes stream)
         (sp_log2_h_chroma_subsample stream) (sp_log2_v_chroma_subsample stream) \<and>
     is_supported_chroma_subsampling (sp_log2_h_chroma_subsample stream) (sp_log2_v_chroma_subsample stream) \<and>
     grid_fits stream \<and>
     (requires_version3_parallel_slice_limit (sp_version stream) (sp_width stream) (sp_height stream) \<longrightarrow>
        4 \<le> unat (sp_num_h_slices stream) * unat (sp_num_v_slices stream)) \<and>
     sp_quant_table_sets stream = [make_zero_quant_table_set] \<and> sp_initial_states stream = [] \<and>
     sp_state_transition stream = kDefaultStateTransition"

lemma slice_count_product: "unat (ucast (a :: u32) * ucast (b :: u32) :: u64) = unat a * unat b"
proof -
  have "unat a * unat b < 2 ^ 32 * 2 ^ 32"
    using unat_bound [of a] unat_bound [of b] by (intro mult_strict_mono) simp_all
  then show ?thesis by (subst unat_mult_bounded) simp_all
qed

lemma profile_geometry:
  "coded_plane_count (stream\<lparr>sp_quant_table_sets := qs, sp_intra_only := b\<rparr>) = coded_plane_count stream"
  "plane_width (stream\<lparr>sp_quant_table_sets := qs, sp_intra_only := b\<rparr>) i = plane_width stream i"
  "plane_height (stream\<lparr>sp_quant_table_sets := qs, sp_intra_only := b\<rparr>) i = plane_height stream i"
  by (auto simp: coded_plane_count_def plane_width_def plane_height_def is_chroma_plane_def)

lemma normalized_profile:
  assumes "normalize_encoder_profile options info = Inr stream"
  shows "encoder_profile stream"
proof -
  let ?s = "profile_stream options info"
  from assms have stream: "stream = ?s\<lparr>sp_quant_table_sets := [make_zero_quant_table_set],
        sp_intra_only := (eo_keyframe_interval options = 1)\<rparr>"
    and checks: "si_width info \<noteq> 0" "si_height info \<noteq> 0" "is_supported_encoder_bit_depth (si_bits_per_raw_sample info)"
      "\<not> has_invalid_rgb_geometry (si_color_space info = Rgb) (si_has_chroma_planes info)
         (si_log2_h_chroma_subsample info) (si_log2_v_chroma_subsample info)"
      "\<not> has_subsampling_without_chroma (si_has_chroma_planes info)
         (si_log2_h_chroma_subsample info) (si_log2_v_chroma_subsample info)"
      "is_supported_chroma_subsampling (si_log2_h_chroma_subsample info) (si_log2_v_chroma_subsample info)"
      "si_num_h_slices info \<noteq> 0" "si_num_v_slices info \<noteq> 0"
    and cif: "requires_version3_parallel_slice_limit (sp_version ?s) (sp_width ?s) (sp_height ?s) \<Longrightarrow>
        4 \<le> (ucast (sp_num_h_slices ?s) * ucast (sp_num_v_slices ?s) :: u64)"
    and regions: "\<not> list_ex (empty_plane_region ?s) [0..<coded_plane_count ?s]"
    by (auto simp: normalize_encoder_profile_def Let_def not_less split: if_splits)
  have "grid_fits stream"
    using regions checks(7,8) unfolding stream grid_fits_def profile_geometry
    by (auto simp: list_ex_iff empty_plane_region_def not_less profile_stream_def)
  moreover have "4 \<le> unat (sp_num_h_slices ?s) * unat (sp_num_v_slices ?s)"
    if "requires_version3_parallel_slice_limit (sp_version ?s) (sp_width ?s) (sp_height ?s)"
    using cif [OF that] by (simp add: word_le_nat_alt slice_count_product)
  ultimately show ?thesis
    using checks unfolding encoder_profile_def stream
    by (cases "si_color_space info")
      (simp_all add: profile_stream_def new_stream_parameters_def is_supported_syntax_colorspace_def)
qed

lemma encoder_profile_writable:
  assumes "encoder_profile stream"
  shows "validate_initial_profile stream = Inr ()" "wf_parameters stream"
    "list_all encodable_table_set (sp_quant_table_sets stream)"
proof -
  have "wf_quant_table_set make_zero_quant_table_set" "length kDefaultStateTransition = 256"
    using example_stream_valid(2) by (simp_all add: wf_parameters_def example_stream_def new_stream_parameters_def)
  with assms show "wf_parameters stream" by (simp add: wf_parameters_def encoder_profile_def)
  from assms show "validate_initial_profile stream = Inr ()"
    by (simp add: validate_initial_profile_def encoder_profile_def grid_fits_def make_zero_quant_table_set_def)
  from assms show "list_all encodable_table_set (sp_quant_table_sets stream)"
    by (simp add: encoder_profile_def zero_set_encodable)
qed

lemma encoder_profile_coded:
  assumes "encoder_profile stream"
  shows "coded_parameters stream = stream\<lparr>sp_width := 0, sp_height := 0, sp_initial_states := [[]]\<rparr>"
proof -
  have "kDefaultStateTransition \<noteq> []" by (simp add: kDefaultStateTransition_def)
  with assms have "coded_state_transition stream = kDefaultStateTransition"
    by (simp add: coded_state_transition_def encoder_profile_def)
  with assms show ?thesis by (simp add: coded_parameters_def coded_initial_states_def encoder_profile_def)
qed

text \<open>The record of a normalised stream always exists, and tells the decoder the stream but for its dimensions.\<close>

lemma encoder_profile_record:
  assumes "encoder_profile stream"
  obtains rec where "write_configuration_record stream = Inr rec"
    and "parse_configuration_record rec = Inr (stream\<lparr>sp_width := 0, sp_height := 0, sp_initial_states := [[]]\<rparr>)"
proof -
  from record_total [OF encoder_profile_writable [OF assms]] obtain rec where
    rec: "write_configuration_record stream = Inr rec" ..
  from record_roundtrip [OF encoder_profile_writable(2) [OF assms] this] encoder_profile_coded [OF assms] that rec
  show ?thesis by simp
qed

text \<open>
  C36: what the options and the stream description of the caller normalise to is always a stream that both sides can
  configure: the configuration record can be written, and the record parser returns the stream itself but for the
  frame size, which the container carries and which becomes 0, and but for the initial states, which the stream does not
  have and which come back as one empty list for the one table set.
\<close>

theorem normalized_profile_configures:
  assumes "normalize_encoder_profile options info = Inr stream"
  shows "\<exists>rec. write_configuration_record stream = Inr rec \<and>
    parse_configuration_record rec = Inr (stream\<lparr>sp_width := 0, sp_height := 0, sp_initial_states := [[]]\<rparr>)"
  using encoder_profile_record [OF normalized_profile [OF assms]] by blast

definition picture_info :: stream_info where
  "picture_info = new_stream_info\<lparr>si_width := 7, si_height := 5, si_log2_h_chroma_subsample := 1,
     si_log2_v_chroma_subsample := 1, si_num_h_slices := 2\<rparr>"

lemma picture_info_normalizes:
  "normalize_encoder_profile new_encoder_options picture_info =
     Inr ((profile_stream new_encoder_options picture_info)
       \<lparr>sp_quant_table_sets := [make_zero_quant_table_set], sp_intra_only := True\<rparr>)"
  by (simp add: normalize_encoder_profile_def picture_info_def new_stream_info_def new_encoder_options_def
      is_supported_encoder_bit_depth_def is_supported_public_color_space_def has_invalid_rgb_geometry_def
      has_subsampling_without_chroma_def is_supported_chroma_subsampling_def Let_def profile_stream_def
      new_stream_parameters_def requires_version3_parallel_slice_limit_def kVersion3CifPixelCount_def
      empty_plane_region_def coded_plane_count_def plane_width_def plane_height_def is_chroma_plane_def
      subsampled_extent_def word_le_nat_alt upt_rec)

theorem normalized_profile_configures_witness:
  "\<exists>stream rec. normalize_encoder_profile new_encoder_options picture_info = Inr stream \<and> sp_width stream = 7 \<and>
     write_configuration_record stream = Inr rec \<and>
     parse_configuration_record rec = Inr (stream\<lparr>sp_width := 0, sp_height := 0, sp_initial_states := [[]]\<rparr>)"
  using normalized_profile_configures [OF picture_info_normalizes] picture_info_normalizes
  by (auto simp: profile_stream_def picture_info_def new_stream_info_def)

end
