(* ===== verification/Frame_Validator.thy ===== *)
theory Frame_Validator
  imports Plane_Window
begin

text \<open>
  The description of a frame and the checks of the caller's planes against it
  (\<^verbatim>\<open>src/src/codec/frame_info_builder.cpp\<close>, \<^verbatim>\<open>frame_validator.cpp\<close>). The array of planes of a
  \<open>FrameInfo\<close> is a list of four entries, default entries after the planes in use.
\<close>

subsection \<open>The description of a frame\<close>

definition kMaxFramePlanes :: nat where "kMaxFramePlanes = 4"

record frame_info =
  fi_width :: u32
  fi_height :: u32
  fi_version :: u8
  fi_micro_version :: u16
  fi_entropy_mode :: entropy_mode
  fi_bits_per_raw_sample :: u8
  fi_plane_count :: nat
  fi_planes :: "plane_info list"
  fi_color_space :: color_space
  fi_has_chroma_planes :: bool
  fi_has_extra_plane :: bool
  fi_log2_h_chroma_subsample :: u8
  fi_log2_v_chroma_subsample :: u8
  fi_error_status_enabled :: bool
  fi_intra_only :: bool
  fi_keyframe :: bool
  fi_slice_count :: u32

definition new_plane_info :: plane_info where
  "new_plane_info = \<lparr>pi_role = RoleY, pi_sample_format = UInt8, pi_width = 0, pi_height = 0, pi_stride_bytes = 0\<rparr>"

definition new_frame_info :: frame_info where
  "new_frame_info =
     \<lparr>fi_width = 0, fi_height = 0, fi_version = 0, fi_micro_version = 0, fi_entropy_mode = RangeMode,
      fi_bits_per_raw_sample = 0, fi_plane_count = 0, fi_planes = replicate kMaxFramePlanes new_plane_info,
      fi_color_space = YCbCr, fi_has_chroma_planes = False, fi_has_extra_plane = False,
      fi_log2_h_chroma_subsample = 0, fi_log2_v_chroma_subsample = 0, fi_error_status_enabled = False,
      fi_intra_only = False, fi_keyframe = False, fi_slice_count = 0\<rparr>"

text \<open>The body of the loop over the planes.\<close>

definition expected_plane_info :: "stream_parameters \<Rightarrow> nat \<Rightarrow> plane_info" where
  "expected_plane_info stream plane_index =
     (let sample_format = sample_format_for_bit_depth (sp_bits_per_raw_sample stream);
          w = plane_width stream plane_index
      in \<lparr>pi_role = expected_plane_role stream plane_index, pi_sample_format = sample_format,
          pi_width = w, pi_height = plane_height stream plane_index,
          pi_stride_bytes = uint w * uint (bytes_per_sample sample_format)\<rparr>)"

definition make_frame_info :: "stream_parameters \<Rightarrow> frame_info" where
  "make_frame_info stream =
     (let plane_count = coded_plane_count stream in
      \<lparr>fi_width = sp_width stream, fi_height = sp_height stream, fi_version = word_of_int (sp_version stream),
       fi_micro_version = word_of_int (sp_micro_version stream), fi_entropy_mode = sp_entropy_mode stream,
       fi_bits_per_raw_sample = sp_bits_per_raw_sample stream, fi_plane_count = plane_count,
       fi_planes = map (\<lambda>i. if i < plane_count then expected_plane_info stream i else new_plane_info) [0..<kMaxFramePlanes],
       fi_color_space = (if sp_colorspace_type stream = 1 then Rgb else YCbCr),
       fi_has_chroma_planes = sp_chroma_planes stream, fi_has_extra_plane = sp_extra_plane stream,
       fi_log2_h_chroma_subsample = sp_log2_h_chroma_subsample stream,
       fi_log2_v_chroma_subsample = sp_log2_v_chroma_subsample stream,
       fi_error_status_enabled = sp_error_status_enabled stream, fi_intra_only = sp_intra_only stream,
       fi_keyframe = False, fi_slice_count = 0\<rparr>)"

subsection \<open>The checks\<close>

definition validate_stream_shape :: "stream_parameters \<Rightarrow> unit result" where
  "validate_stream_shape stream =
     (if sp_width stream = 0 \<or> sp_height stream = 0 then Inl (make_error InvalidArgument)
      else if \<not> is_supported_decoder_bit_depth (sp_bits_per_raw_sample stream) then Inl (make_error UnsupportedFeature)
      else if \<not> is_supported_syntax_colorspace (sp_colorspace_type stream) then Inl (make_error UnsupportedFeature)
      else if has_invalid_rgb_geometry (sp_colorspace_type stream = 1) (sp_chroma_planes stream)
                (sp_log2_h_chroma_subsample stream) (sp_log2_v_chroma_subsample stream)
      then Inl (make_error InvalidArgument)
      else if sp_num_h_slices stream = 0 \<or> sp_num_v_slices stream = 0 then Inl (make_error InvalidArgument)
      else Inr ())"

definition validate_plane_info :: "plane_info \<Rightarrow> plane_info \<Rightarrow> unit result" where
  "validate_plane_info expected info =
     (if pi_role info \<noteq> pi_role expected then Inl (make_error InvalidArgument)
      else if pi_sample_format info \<noteq> pi_sample_format expected then Inl (make_error InvalidArgument)
      else if pi_width info < pi_width expected \<or> pi_height info < pi_height expected then Inl (make_error InvalidArgument)
      else if pi_stride_bytes info < pi_stride_bytes expected then Inl (make_error InvalidArgument)
      else Inr ())"

definition validate_input_plane_info :: "plane_info \<Rightarrow> plane_info \<Rightarrow> unit result" where
  "validate_input_plane_info expected info =
     (if pi_role info \<noteq> pi_role expected then Inl (make_error InvalidArgument)
      else if pi_sample_format info \<noteq> pi_sample_format expected then Inl (make_error InvalidArgument)
      else if pi_width info \<noteq> pi_width expected \<or> pi_height info \<noteq> pi_height expected then Inl (make_error InvalidArgument)
      else if pi_stride_bytes info < 0 then Inl (make_error UnsupportedFeature)
      else if pi_stride_bytes info < pi_stride_bytes expected then Inl (make_error InvalidArgument)
      else
        bind_result (checked_plane_window_offset info 0 0 (pi_width expected) (pi_height expected)) (\<lambda>unused_offset. Inr ()))"

text \<open>The loops over the planes of the view.\<close>

definition validate_view_plane ::
  "(plane_info \<Rightarrow> plane_info \<Rightarrow> unit result) \<Rightarrow> frame_info \<Rightarrow> plane_view list \<Rightarrow> nat \<Rightarrow> unit \<Rightarrow> unit result" where
  "validate_view_plane check expected planes i u =
     (if pv_data (planes ! i) = None then Inl (make_error InvalidArgument)
      else check (fi_planes expected ! i) (pv_info (planes ! i)))"

definition validate_output :: "stream_parameters \<Rightarrow> frame_view \<Rightarrow> unit result" where
  "validate_output stream frame =
     bind_result (validate_stream_shape stream) (\<lambda>_.
       let expected = make_frame_info stream; required_planes = fi_plane_count expected in
       if fv_plane_count frame < required_planes then Inl (make_error InvalidArgument)
       else if required_planes \<noteq> 0 \<and> fv_planes frame = None then Inl (make_error InvalidArgument)
       else fold_result (validate_view_plane validate_plane_info expected (the (fv_planes frame))) [0..<required_planes] ())"

definition validate_input :: "stream_parameters \<Rightarrow> frame_view \<Rightarrow> unit result" where
  "validate_input stream frame =
     bind_result (validate_stream_shape stream) (\<lambda>_.
       let expected = make_frame_info stream; required_planes = fi_plane_count expected in
       if fv_plane_count frame \<noteq> required_planes then Inl (make_error InvalidArgument)
       else if required_planes \<noteq> 0 \<and> fv_planes frame = None then Inl (make_error InvalidArgument)
       else fold_result (validate_view_plane validate_input_plane_info expected (the (fv_planes frame))) [0..<required_planes] ())"

subsection \<open>What a validated frame has\<close>

lemma coded_plane_count_le: "coded_plane_count stream \<le> kMaxFramePlanes"
  by (simp add: coded_plane_count_def kMaxFramePlanes_def)

lemma make_frame_info_plane:
  "i < coded_plane_count stream \<Longrightarrow> fi_planes (make_frame_info stream) ! i = expected_plane_info stream i"
  using coded_plane_count_le [of stream] by (simp add: make_frame_info_def Let_def)

lemma fold_result_unit: "fold_result f xs () = Inr () \<longleftrightarrow> (\<forall>x \<in> set xs. f x () = Inr ())"
  by (induction xs) auto

lemma validate_plane_info_Inr:
  "validate_plane_info expected info = Inr u \<longleftrightarrow>
     pi_role info = pi_role expected \<and> pi_sample_format info = pi_sample_format expected \<and>
     pi_width expected \<le> pi_width info \<and> pi_height expected \<le> pi_height info \<and>
     pi_stride_bytes expected \<le> pi_stride_bytes info"
  by (auto simp: validate_plane_info_def)

lemma validate_input_plane_info_Inr:
  "validate_input_plane_info expected info = Inr u \<longleftrightarrow>
     pi_role info = pi_role expected \<and> pi_sample_format info = pi_sample_format expected \<and>
     pi_width info = pi_width expected \<and> pi_height info = pi_height expected \<and>
     0 \<le> pi_stride_bytes info \<and> pi_stride_bytes expected \<le> pi_stride_bytes info \<and>
     is_ok (checked_plane_window_offset info 0 0 (pi_width expected) (pi_height expected))"
  by (auto simp: validate_input_plane_info_def is_ok_iff)

lemma validate_view_plane_Inr:
  "validate_view_plane check expected planes i () = Inr () \<longleftrightarrow>
     pv_data (planes ! i) \<noteq> None \<and> check (fi_planes expected ! i) (pv_info (planes ! i)) = Inr ()"
  by (simp add: validate_view_plane_def)

definition supported_shape :: "stream_parameters \<Rightarrow> bool" where
  "supported_shape stream \<longleftrightarrow>
     sp_width stream \<noteq> 0 \<and> sp_height stream \<noteq> 0 \<and> is_supported_decoder_bit_depth (sp_bits_per_raw_sample stream) \<and>
     is_supported_syntax_colorspace (sp_colorspace_type stream) \<and>
     \<not> has_invalid_rgb_geometry (sp_colorspace_type stream = 1) (sp_chroma_planes stream)
         (sp_log2_h_chroma_subsample stream) (sp_log2_v_chroma_subsample stream) \<and>
     sp_num_h_slices stream \<noteq> 0 \<and> sp_num_v_slices stream \<noteq> 0"

lemma validate_stream_shape_Inr: "validate_stream_shape stream = Inr u \<longleftrightarrow> supported_shape stream"
  by (auto simp: validate_stream_shape_def supported_shape_def)

lemma validate_output_Inr:
  "validate_output stream frame = Inr u \<longleftrightarrow>
     supported_shape stream \<and> coded_plane_count stream \<le> fv_plane_count frame \<and>
     (\<exists>planes. fv_planes frame = Some planes \<and>
       (\<forall>i < coded_plane_count stream. pv_data (planes ! i) \<noteq> None \<and>
          validate_plane_info (expected_plane_info stream i) (pv_info (planes ! i)) = Inr ()))"
proof -
  have "coded_plane_count stream \<noteq> 0" by (simp add: coded_plane_count_def)
  moreover have "fi_plane_count (make_frame_info stream) = coded_plane_count stream"
    by (simp add: make_frame_info_def Let_def)
  ultimately show ?thesis
    by (auto simp: validate_output_def validate_stream_shape_Inr Let_def fold_result_unit validate_view_plane_Inr
        make_frame_info_plane not_less)
qed

lemma validate_input_Inr:
  "validate_input stream frame = Inr u \<longleftrightarrow>
     supported_shape stream \<and> fv_plane_count frame = coded_plane_count stream \<and>
     (\<exists>planes. fv_planes frame = Some planes \<and>
       (\<forall>i < coded_plane_count stream. pv_data (planes ! i) \<noteq> None \<and>
          validate_input_plane_info (expected_plane_info stream i) (pv_info (planes ! i)) = Inr ()))"
proof -
  have "coded_plane_count stream \<noteq> 0" by (simp add: coded_plane_count_def)
  moreover have "fi_plane_count (make_frame_info stream) = coded_plane_count stream"
    by (simp add: make_frame_info_def Let_def)
  ultimately show ?thesis
    by (auto simp: validate_input_def validate_stream_shape_Inr Let_def fold_result_unit validate_view_plane_Inr
        make_frame_info_plane)
qed

end
