(* ===== verification/Encoder_Geometry.thy ===== *)
theory Encoder_Geometry
  imports Encoder_Profile Frame_Validator
begin

text \<open>
  The geometry checks of the encoder agree with each other: once \<open>FrameValidator::validate_input\<close> has accepted a
  frame, no slice of the grid can fail in \<open>SliceHeaderParser::apply_raster\<close> or \<open>SliceInputWindow::validate\<close>.
\<close>

lemma product_exceeds:
  fixes a b :: u64
  assumes "b \<noteq> 0"
  shows "maximum_offset div b < a \<longleftrightarrow> 2 ^ 63 - 1 < unat a * unat b"
proof -
  have "0 < unat b" using assms by (simp add: unat_gt_0)
  have "maximum_offset div b < a \<longleftrightarrow> unat maximum_offset div unat b < unat a"
    by (simp add: word_less_nat_alt unat_div)
  also have "\<dots> \<longleftrightarrow> unat maximum_offset < unat a * unat b"
    using \<open>0 < unat b\<close> by (rule div_less_iff_less_mult)
  finally show ?thesis by (simp only: unat_maximum_offset)
qed

lemma sum_exceeds:
  fixes a b :: u64
  assumes "unat a \<le> 2 ^ 63 - 1"
  shows "maximum_offset - a < b \<longleftrightarrow> 2 ^ 63 - 1 < unat a + unat b"
proof -
  have "unat (maximum_offset - a) = (2 ^ 63 - 1) - unat a"
    using assms by (subst unat_diff_bounded) (simp_all only: unat_maximum_offset)
  with assms show ?thesis by (auto simp: word_less_nat_alt)
qed

text \<open>The last byte of a window, counted from the data pointer.\<close>

definition window_end :: "plane_info \<Rightarrow> nat \<Rightarrow> nat \<Rightarrow> nat" where
  "window_end info right bottom =
     (bottom - 1) * nat (pi_stride_bytes info) + right * sample_bytes (pi_sample_format info)"

lemma last_row:
  fixes y h :: u32
  assumes "h \<noteq> 0"
  shows "unat (ucast y + ucast h - 1 :: u64) = unat y + unat h - 1"
proof -
  have b: "unat y < 2 ^ 32" "unat h < 2 ^ 32" "unat h \<noteq> 0"
    using assms unat_bound [of y] unat_bound [of h] by (simp_all add: unat_eq_zero)
  then have "unat (ucast y + ucast h :: u64) = unat y + unat h" by (subst unat_add_bounded) simp_all
  with b show ?thesis by (subst unat_diff_bounded) simp_all
qed

text \<open>The offset is computed exactly for the windows that end below \<open>2 ^ 63\<close>.\<close>

lemma checked_offset_ok_iff:
  assumes "0 \<le> pi_stride_bytes info" and "pi_stride_bytes info < 2 ^ 63" and "w \<noteq> 0" and "h \<noteq> 0"
  shows "is_ok (checked_plane_window_offset info x y w h) \<longleftrightarrow>
    window_end info (unat x + unat w) (unat y + unat h) \<le> 2 ^ 63 - 1"
proof -
  let ?s = "word_of_int (pi_stride_bytes info) :: u64" and ?S = "nat (pi_stride_bytes info)"
  let ?b = "ucast (bytes_per_sample (pi_sample_format info)) :: u64" and ?B = "sample_bytes (pi_sample_format info)"
  let ?ly = "ucast y + ucast h - 1 :: u64"
  have s: "unat ?s = ?S" using assms(1,2) by (rule unat_stride)
  have h: "0 < unat h" using assms(4) by (simp add: unat_gt_0)
  note ly = last_row [OF assms(4), of y]
  have rows: "unat y * ?S \<le> (unat y + unat h - 1) * ?S" using h by (intro mult_le_mono1) linarith
  have cols: "unat x * ?B \<le> (unat x + unat w) * ?B" by (intro mult_le_mono1) simp
  have row1: "y \<noteq> 0 \<and> maximum_offset div ucast y < ?s \<longleftrightarrow> 2 ^ 63 - 1 < ?S * unat y"
  proof (cases "y = 0")
    case False
    then have "unat (ucast y :: u64) \<noteq> 0" by (simp add: unat_eq_zero)
    then have "(ucast y :: u64) \<noteq> 0" by (metis unat_0)
    with False product_exceeds [OF this, of ?s] show ?thesis by (simp add: s)
  qed simp
  have row2: "?ly \<noteq> 0 \<and> maximum_offset div ?ly < ?s \<longleftrightarrow> 2 ^ 63 - 1 < ?S * (unat y + unat h - 1)"
  proof (cases "?ly = 0")
    case True
    then have "unat y + unat h - 1 = 0" using ly by (metis unat_0)
    with True show ?thesis by simp
  next
    case False
    with product_exceeds [OF this] show ?thesis by (simp add: s ly)
  qed
  let ?c2 = "maximum_offset - ?s * ucast y < ucast x * ?b"
  let ?c4 = "maximum_offset - ?s * ?ly < (ucast x + ucast w) * ?b"
  have ok: "is_ok (checked_plane_window_offset info x y w h) \<longleftrightarrow>
      \<not> 2 ^ 63 - 1 < ?S * unat y \<and> \<not> ?c2 \<and> \<not> 2 ^ 63 - 1 < ?S * (unat y + unat h - 1) \<and> \<not> ?c4"
    unfolding checked_plane_window_offset_def Let_def row1 row2 using assms(3,4)
    by (auto simp only: is_ok_simps split: if_splits)
  show ?thesis
  proof (cases "2 ^ 63 - 1 < ?S * (unat y + unat h - 1)")
    case True
    then have "\<not> window_end info (unat x + unat w) (unat y + unat h) \<le> 2 ^ 63 - 1"
      by (simp add: window_end_def mult.commute)
    moreover have "\<not> is_ok (checked_plane_window_offset info x y w h)"
      using True by (simp only: ok simp_thms)
    ultimately show ?thesis by simp
  next
    case False
    with rows have y_ok: "?S * unat y \<le> 2 ^ 63 - 1" unfolding mult.commute [of ?S] by linarith
    have mul: "unat (?s * ucast y) = ?S * unat y" "unat (?s * ?ly) = ?S * (unat y + unat h - 1)"
      using y_ok False by (subst unat_mult_bounded; simp add: s ly)+
    have sum1: "maximum_offset - ?s * ucast y < ucast x * ?b \<longleftrightarrow> 2 ^ 63 - 1 < ?S * unat y + unat x * ?B"
      using y_ok by (subst sum_exceeds) (simp_all add: mul unat_column)
    have sum2: "maximum_offset - ?s * ?ly < (ucast x + ucast w) * ?b \<longleftrightarrow>
        2 ^ 63 - 1 < ?S * (unat y + unat h - 1) + (unat x + unat w) * ?B"
      using False by (subst sum_exceeds) (simp_all only: mul unat_column not_less)
    have le: "?S * unat y + unat x * ?B \<le> ?S * (unat y + unat h - 1) + (unat x + unat w) * ?B"
      using rows cols unfolding mult.commute [of ?S] by (rule add_mono)
    have "is_ok (checked_plane_window_offset info x y w h) \<longleftrightarrow> \<not> ?c2 \<and> \<not> ?c4"
      using y_ok False by (simp only: ok not_less simp_thms)
    also have "\<dots> \<longleftrightarrow> ?S * (unat y + unat h - 1) + (unat x + unat w) * ?B \<le> 2 ^ 63 - 1"
      unfolding sum1 sum2 not_less using le by (meson le_trans)
    finally show ?thesis by (simp add: window_end_def mult.commute)
  qed
qed

text \<open>A rectangle of grid cells is never empty where the grid fits.\<close>

lemma grid_extent_positive:
  fixes x w e n :: nat
  assumes "0 < n" and "n \<le> e" and "0 < w"
  shows "x * e div n < (x + w) * e div n"
proof -
  have "n * 1 \<le> e * w" using assms by (intro mult_le_mono) simp_all
  then have "x * e + n \<le> (x + w) * e" by (simp add: algebra_simps)
  then have "(x * e + n) div n \<le> (x + w) * e div n" by (rule div_le_mono)
  moreover have "(x * e + n) div n = x * e div n + 1" using assms(1) by (subst div_add_self2) simp_all
  ultimately show ?thesis by linarith
qed

lemma raster_header_ok:
  assumes "apply_raster stream values d = Inr sl"
  shows "unat (hv_x values) + unat (hv_width values) \<le> unat (sp_num_h_slices stream)"
    and "unat (hv_y values) + unat (hv_height values) \<le> unat (sp_num_v_slices stream)"
    and "hv_width values \<noteq> 0" and "hv_height values \<noteq> 0"
proof -
  from assms have fits: "\<not> sp_num_h_slices stream < hv_x values" "\<not> sp_num_h_slices stream - hv_x values < hv_width values"
      "\<not> sp_num_v_slices stream < hv_y values" "\<not> sp_num_v_slices stream - hv_y values < hv_height values"
    and nz: "hv_width values \<noteq> 0" "hv_height values \<noteq> 0"
    by (auto simp: apply_raster_def check_header_values_def split: if_splits)
  show "unat (hv_x values) + unat (hv_width values) \<le> unat (sp_num_h_slices stream)"
    by (rule fits_extent [OF fits(1,2)])
  show "unat (hv_y values) + unat (hv_height values) \<le> unat (sp_num_v_slices stream)"
    by (rule fits_extent [OF fits(3,4)])
  from nz show "hv_width values \<noteq> 0" "hv_height values \<noteq> 0" by simp_all
qed

text \<open>The rectangle of a slice in plane \<open>i\<close>: not empty and inside the plane.\<close>

lemma placed_inside:
  assumes "apply_raster stream values d = Inr sl" and "grid_fits stream" and "i < coded_plane_count stream"
  shows "unat (input_plane_x stream sl i) + unat (input_slice_plane_width stream sl i) \<le> unat (plane_width stream i)"
    and "unat (input_plane_y stream sl i) + unat (input_slice_plane_height stream sl i) \<le> unat (plane_height stream i)"
    and "input_slice_plane_width stream sl i \<noteq> 0" and "input_slice_plane_height stream sl i \<noteq> 0"
proof -
  let ?n = "unat (sp_num_h_slices stream)" and ?m = "unat (sp_num_v_slices stream)"
  from assms(2,3) have grid: "sp_num_h_slices stream \<noteq> 0" "sp_num_v_slices stream \<noteq> 0"
    "?n \<le> unat (plane_width stream i)" "?m \<le> unat (plane_height stream i)"
    by (auto simp: grid_fits_def word_le_nat_alt)
  then have nm: "0 < ?n" "0 < ?m" by (simp_all add: unat_gt_0)
  note hv = raster_header_ok [OF assms(1)]
  note rect = placed_rectangle [OF assms(1) grid(1,2), of i] and same = input_output_rectangle [OF assms(1), of i]
  have wh: "0 < unat (hv_width values)" "0 < unat (hv_height values)" using hv(3,4) by (simp_all add: unat_gt_0)
  have "(unat (hv_x values) + unat (hv_width values)) * unat (plane_width stream i) div ?n \<le> ?n * unat (plane_width stream i) div ?n"
    using hv(1) by (intro div_le_mono mult_le_mono1)
  then show "unat (input_plane_x stream sl i) + unat (input_slice_plane_width stream sl i) \<le> unat (plane_width stream i)"
    unfolding same rect(2) using nm by simp
  have "(unat (hv_y values) + unat (hv_height values)) * unat (plane_height stream i) div ?m \<le> ?m * unat (plane_height stream i) div ?m"
    using hv(2) by (intro div_le_mono mult_le_mono1)
  then show "unat (input_plane_y stream sl i) + unat (input_slice_plane_height stream sl i) \<le> unat (plane_height stream i)"
    unfolding same rect(4) using nm by simp
  have "unat (output_plane_x stream sl i) < unat (output_plane_x stream sl i) + unat (output_slice_plane_width stream sl i)"
    unfolding rect(2) unfolding rect(1) using nm(1) grid(3) wh(1) by (rule grid_extent_positive)
  then show "input_slice_plane_width stream sl i \<noteq> 0" by (auto simp: same)
  have "unat (output_plane_y stream sl i) < unat (output_plane_y stream sl i) + unat (output_slice_plane_height stream sl i)"
    unfolding rect(4) unfolding rect(3) using nm(2) grid(4) wh(2) by (rule grid_extent_positive)
  then show "input_slice_plane_height stream sl i \<noteq> 0" by (auto simp: same)
qed

lemma window_end_mono:
  "right \<le> right' \<Longrightarrow> bottom \<le> bottom' \<Longrightarrow> window_end info right bottom \<le> window_end info right' bottom'"
  unfolding window_end_def by (intro add_mono mult_le_mono1) simp_all

lemma extent_fits:
  assumes "unat (x :: u32) + unat w \<le> unat lim"
  shows "\<not> lim < x" and "\<not> lim - x < w"
proof -
  show "\<not> lim < x" using assms by (simp add: word_less_nat_alt)
  have "unat (lim - x) = unat lim - unat x" using assms by (intro unat_diff_bounded) simp
  with assms show "\<not> lim - x < w" by (simp add: word_less_nat_alt)
qed

lemma row_bytes_ok: "checked_plane_row_bytes info = Inr (ucast (pi_width info) * ucast (bytes_per_sample (pi_sample_format info)))"
proof -
  have "unat (pi_width info) * sample_bytes (pi_sample_format info) \<le> 2 ^ 32 * 2"
    using unat_bound [of "pi_width info"] sample_bytes_bounds(2) [of "pi_sample_format info"] by (intro mult_le_mono) simp_all
  then have "\<not> maximum_offset < ucast (pi_width info) * ucast (bytes_per_sample (pi_sample_format info))"
    by (simp add: word_less_nat_alt unat_column unat_maximum_offset)
  then show ?thesis by (simp add: checked_plane_row_bytes_def Let_def)
qed

lemma validated_plane_window:
  assumes "validate_input_plane_info (expected_plane_info stream i) (pv_info view) = Inr ()" and "pv_data view \<noteq> None"
    and "pi_stride_bytes (pv_info view) < 2 ^ 63"
    and "apply_raster stream values d = Inr sl" and "grid_fits stream" and "i < coded_plane_count stream"
  shows "\<exists>w. input_plane_window stream sl i view = Inr w"
proof -
  let ?info = "pv_info view"
  let ?x = "input_plane_x stream sl i" and ?y = "input_plane_y stream sl i"
  let ?w = "input_slice_plane_width stream sl i" and ?h = "input_slice_plane_height stream sl i"
  note inside = placed_inside [OF assms(4-6)]
  from assms(1) have info: "pi_role ?info = expected_plane_role stream i"
    "pi_sample_format ?info = sample_format_for_bit_depth (sp_bits_per_raw_sample stream)"
    "pi_width ?info = plane_width stream i" "pi_height ?info = plane_height stream i" "0 \<le> pi_stride_bytes ?info"
    "uint (plane_width stream i) * uint (bytes_per_sample (pi_sample_format ?info)) \<le> pi_stride_bytes ?info"
    and last: "is_ok (checked_plane_window_offset ?info 0 0 (plane_width stream i) (plane_height stream i))"
    by (simp_all add: validate_input_plane_info_Inr expected_plane_info_def Let_def)
  have "0 < unat ?w" "0 < unat ?h" using inside(3,4) by (simp_all add: unat_gt_0)
  with inside(1,2) have "0 < unat (plane_width stream i)" "0 < unat (plane_height stream i)" by linarith+
  then have dims: "plane_width stream i \<noteq> 0" "plane_height stream i \<noteq> 0" by (simp_all add: unat_gt_0)
  have "window_end ?info (unat (plane_width stream i)) (unat (plane_height stream i)) \<le> 2 ^ 63 - 1"
    using last checked_offset_ok_iff [OF info(5) assms(3) dims, of 0 0] by simp
  with window_end_mono [OF inside(1,2), of ?info]
  have "window_end ?info (unat ?x + unat ?w) (unat ?y + unat ?h) \<le> 2 ^ 63 - 1" by linarith
  then have "is_ok (checked_plane_window_offset ?info ?x ?y ?w ?h)"
    using checked_offset_ok_iff [OF info(5) assms(3) inside(3,4)] by blast
  then obtain off where off: "checked_plane_window_offset ?info ?x ?y ?w ?h = Inr off" by (auto simp: is_ok_iff)
  have "int (unat (pi_width ?info) * sample_bytes (pi_sample_format ?info)) \<le> pi_stride_bytes ?info"
    using info(6) by (simp add: info(3) sample_bytes_def)
  then have "unat (pi_width ?info) * sample_bytes (pi_sample_format ?info) \<le> nat (pi_stride_bytes ?info)" by linarith
  then have stride: "\<not> (word_of_int (pi_stride_bytes ?info) :: u64) <
      ucast (pi_width ?info) * ucast (bytes_per_sample (pi_sample_format ?info))"
    by (simp add: word_less_nat_alt unat_column unat_stride [OF info(5) assms(3)])
  from assms(2) obtain data where "pv_data view = Some data" by blast
  with info inside(3,4) extent_fits [OF inside(1)] extent_fits [OF inside(2)] off stride show ?thesis
    by (simp add: input_plane_window_def Let_def row_bytes_ok)
qed

lemma plane_windows_ok:
  assumes "\<forall>k < length planes. \<exists>w. f (i + k) (planes ! k) = Inr w"
  shows "\<exists>ws. plane_windows f i planes = Inr ws"
  using assms
proof (induction planes arbitrary: i)
  case (Cons plane planes)
  from Cons.prems have "\<exists>w. f i plane = Inr w" by (metis add_0_right length_Cons nth_Cons_0 zero_less_Suc)
  moreover have "\<forall>k < length planes. \<exists>w. f (Suc i + k) (planes ! k) = Inr w"
    using Cons.prems by (metis Suc_less_eq add_Suc_right add_Suc length_Cons nth_Cons_Suc)
  then have "\<exists>ws. plane_windows f (Suc i) planes = Inr ws" by (rule Cons.IH)
  ultimately show ?case by auto
qed simp

lemma placed_pixels:
  assumes "apply_raster stream values d = Inr sl" and "grid_fits stream"
  shows "sd_width sl \<noteq> 0" and "sd_height sl \<noteq> 0" and "sd_raster_width sl \<noteq> 0" and "sd_raster_height sl \<noteq> 0"
proof -
  have "0 < coded_plane_count stream" by (simp add: coded_plane_count_def)
  from placed_inside(3,4) [OF assms this] show "sd_width sl \<noteq> 0" "sd_height sl \<noteq> 0"
    by (simp_all add: input_slice_plane_width_def input_slice_plane_height_def is_chroma_plane_def)
  from assms(1) raster_header_ok(3,4) [OF assms(1)] show "sd_raster_width sl \<noteq> 0" "sd_raster_height sl \<noteq> 0"
    by (auto simp: apply_raster_def)
qed

lemma validated_frame_windows:
  assumes "validate_input stream frame = Inr ()" and "frame_views frame views"
    and "apply_raster stream values d = Inr sl" and "grid_fits stream"
  shows "\<exists>ws. validate_input_window stream frame sl = Inr ws"
proof -
  from assms(1,2) have planes: "fv_planes frame = Some views" "fv_plane_count frame = coded_plane_count stream"
      "length views = coded_plane_count stream"
    and info: "\<And>i. i < coded_plane_count stream \<Longrightarrow> pv_data (views ! i) \<noteq> None \<and>
        validate_input_plane_info (expected_plane_info stream i) (pv_info (views ! i)) = Inr () \<and>
        pi_stride_bytes (pv_info (views ! i)) < 2 ^ 63"
    by (auto simp: validate_input_Inr frame_views_def)
  have "\<exists>ws. plane_windows (input_plane_window stream sl) 0 views = Inr ws"
    using info planes(3) validated_plane_window [OF _ _ _ assms(3,4)] by (intro plane_windows_ok) auto
  with planes placed_pixels [OF assms(3,4)] show ?thesis by (simp add: validate_input_window_def Let_def)
qed

text \<open>
  C35: the geometry checks of the encoder are consistent. For a stream that the encoder profile accepted and a frame
  that passed the frame check, every rectangle of grid cells that a slice header may name gives a valid window into
  the frame: no slice fails because of its position, an empty plane region, or an offset that cannot be represented.
\<close>

theorem encoder_windows_exist:
  assumes "normalize_encoder_profile options info = Inr stream" and "validate_input stream frame = Inr u"
    and "frame_views frame views" and "apply_raster stream values descriptor = Inr sl"
  shows "\<exists>ws. validate_input_window stream frame sl = Inr ws \<and> length ws = coded_plane_count stream"
proof -
  have "grid_fits stream" using normalized_profile [OF assms(1)] by (simp add: encoder_profile_def)
  from validated_frame_windows [OF _ assms(3,4) this] assms(2)
  obtain ws where ws: "validate_input_window stream frame sl = Inr ws" by auto
  with assms(3) have "length ws = coded_plane_count stream"
    by (auto simp: validate_input_window_def frame_views_def Let_def split: if_splits dest!: plane_windows_nth)
  with ws show ?thesis by blast
qed

definition picture_frame_420 :: frame_view where
  "picture_frame_420 =
     (let plane = \<lambda>role w h. \<lparr>pv_data = Some 0, pv_info = \<lparr>pi_role = role, pi_sample_format = UInt8, pi_width = w,
            pi_height = h, pi_stride_bytes = 8\<rparr>\<rparr>
      in \<lparr>fv_planes = Some [plane RoleY 7 5, plane RoleCb 4 3, plane RoleCr 4 3], fv_plane_count = 3\<rparr>)"

definition picture_header :: "u32 \<Rightarrow> slice_header_values" where
  "picture_header x = \<lparr>hv_x = x, hv_y = 0, hv_width = 1, hv_height = 1, hv_quant_table_set_indexes = [0, 0],
     hv_picture_structure = 0, hv_sar_num = 0, hv_sar_den = 0\<rparr>"

theorem encoder_windows_exist_witness:
  "\<exists>stream sl ws. normalize_encoder_profile new_encoder_options picture_info = Inr stream \<and>
     apply_raster stream (picture_header 1) new_slice_descriptor = Inr sl \<and>
     validate_input_window stream picture_frame_420 sl = Inr ws \<and> length ws = 3"
proof -
  let ?s = "(profile_stream new_encoder_options picture_info)
       \<lparr>sp_quant_table_sets := [make_zero_quant_table_set], sp_intra_only := True\<rparr>"
  have planes: "coded_plane_count ?s = 3"
    by (simp add: coded_plane_count_def profile_stream_def picture_info_def new_stream_info_def)
  have upt: "i < 3 \<longleftrightarrow> i = 0 \<or> i = 1 \<or> i = 2" for i :: nat by linarith
  have "validate_input ?s picture_frame_420 = Inr ()"
    unfolding validate_input_Inr planes upt
    by (auto simp: supported_shape_def picture_frame_420_def Let_def validate_input_plane_info_Inr expected_plane_info_def
        profile_stream_def picture_info_def new_stream_info_def new_stream_parameters_def is_supported_decoder_bit_depth_def
        is_supported_syntax_colorspace_def has_invalid_rgb_geometry_def expected_plane_role_def plane_width_def plane_height_def
        is_chroma_plane_def subsampled_extent_def word_le_nat_alt sample_format_for_bit_depth_def bytes_per_sample_def
        checked_plane_window_offset_def maximum_offset_def new_encoder_options_def)
  moreover have "frame_views picture_frame_420 (the (fv_planes picture_frame_420))"
    by (simp add: frame_views_def picture_frame_420_def Let_def)
  moreover obtain sl where sl: "apply_raster ?s (picture_header 1) new_slice_descriptor = Inr sl"
    by (simp add: apply_raster_def check_header_values_def picture_header_def profile_stream_def picture_info_def
        new_stream_info_def validate_picture_structure_def)
  ultimately obtain ws where "validate_input_window ?s picture_frame_420 sl = Inr ws" "length ws = coded_plane_count ?s"
    using encoder_windows_exist [OF picture_info_normalizes] by blast
  then have "validate_input_window ?s picture_frame_420 sl = Inr ws \<and> length ws = 3" by (simp only: planes)
  with sl picture_info_normalizes show ?thesis by blast
qed

end
