(* ===== verification/Slice_Locator.thy ===== *)
theory Slice_Locator
  imports Slice_Footer
begin

text \<open>
  Finding the slices of a frame from its end (\<^verbatim>\<open>src/src/codec/slice_payload_locator.cpp\<close>): the footer of the last
  slice tells where it starts, and so on to the front. A \<open>TrailingSliceResult\<close> is a descriptor, or an error with the
  descriptor if there is one.
\<close>

type_synonym trailing_slice_result = "(status \<times> slice_descriptor option) + slice_descriptor"

definition locate_trailing_slice_candidate ::
  "bytes \<Rightarrow> stream_parameters \<Rightarrow> bool \<Rightarrow> slice_descriptor \<Rightarrow> trailing_slice_result" where
  "locate_trailing_slice_candidate frame_payload stream verify_crc seed =
     (let size = footer_size stream in
      if length frame_payload < size then Inl (make_byte_error SyntaxError 0, None)
      else
        let footer_offset = length frame_payload - size;
            next_slice = seed\<lparr>sd_footer_byte_offset := word_of_nat footer_offset\<rparr>
        in case read_footer stream next_slice (make_bit_reader (take size (drop footer_offset frame_payload))) of
             Inl e \<Rightarrow> Inl (add_byte_offset (word_of_nat footer_offset) e, None)
           | Inr (next_slice, _) \<Rightarrow>
               if length frame_payload - size < unat (sd_slice_size next_slice)
               then Inl (make_byte_error SyntaxError (word_of_nat footer_offset), None)
               else
                 let total_slice_size = unat (sd_slice_size next_slice) + size;
                     offset = word_of_nat (length frame_payload - total_slice_size);
                     next_slice = next_slice\<lparr>sd_payload_byte_offset := offset,
                       sd_payload := take total_slice_size (drop (unat offset) frame_payload),
                       sd_footer_byte_offset := offset + ucast (sd_slice_size next_slice)\<rparr>
                 in if verify_crc \<and> sd_has_crc next_slice \<and> crc32_ieee_msb (sd_payload next_slice) \<noteq> 0
                    then Inl (make_byte_error CrcMismatch (sd_footer_byte_offset next_slice + 4), Some next_slice)
                    else Inr next_slice)"

definition locate_trailing_slice ::
  "bytes \<Rightarrow> stream_parameters \<Rightarrow> slice_descriptor \<Rightarrow> bool \<Rightarrow> slice_descriptor result" where
  "locate_trailing_slice frame_payload stream descriptor verify_crc =
     (case locate_trailing_slice_candidate frame_payload stream verify_crc descriptor of
        Inl (status, _) \<Rightarrow> Inl status
      | Inr located \<Rightarrow> Inr located)"

lemma unat_word_of_nat_le: "unat (word_of_nat n :: 'a::len word) \<le> n"
  by (simp add: unsigned_of_nat take_bit_nat_less_eq_self)

lemma footer_size_positive: "0 < footer_size stream"
  by (simp add: footer_size_def)

lemma candidate_before:
  assumes "locate_trailing_slice_candidate frame_payload stream verify_crc seed = Inr d"
  shows "unat (sd_payload_byte_offset d) < length frame_payload"
proof -
  have "unat (word_of_nat (length frame_payload - (n + footer_size stream)) :: u64) < length frame_payload"
    if "\<not> length frame_payload < footer_size stream" for n
  proof -
    have "unat (word_of_nat (length frame_payload - (n + footer_size stream)) :: u64) \<le> length frame_payload - (n + footer_size stream)"
      by (rule unat_word_of_nat_le)
    with that footer_size_positive [of stream] show ?thesis by linarith
  qed
  with assms show ?thesis
    by (auto simp: locate_trailing_slice_candidate_def Let_def simp del: of_nat_diff of_nat_add
        split: if_splits sum.splits prod.splits)
qed

text \<open>
  The number of slices in the first \<open>remaining_size\<close> bytes, if they are whole slices and at most \<open>limit\<close> of them. The
  loop counts up to the limit; here the limit counts down.
\<close>

function count_preceding_slices :: "bytes \<Rightarrow> stream_parameters \<Rightarrow> nat \<Rightarrow> nat \<Rightarrow> nat \<Rightarrow> nat option" where
  "count_preceding_slices frame_payload stream remaining_size limit out_count =
     (if remaining_size = 0 then Some out_count
      else if out_count = limit then None
      else case locate_trailing_slice_candidate (take remaining_size frame_payload) stream False new_slice_descriptor of
          Inl _ \<Rightarrow> None
        | Inr d \<Rightarrow> count_preceding_slices frame_payload stream (unat (sd_payload_byte_offset d)) limit (out_count + 1))"
  by pat_completeness auto
termination
  by (relation "measure (\<lambda>(frame_payload, stream, remaining_size, limit, out_count). remaining_size)")
    (auto dest: candidate_before)

declare count_preceding_slices.simps [simp del]

definition set_slice_location :: "u32 \<Rightarrow> status \<Rightarrow> status" where
  "set_slice_location index s =
     s\<lparr>st_location := (st_location s)\<lparr>loc_slice_index := index, has_slice_index := True\<rparr>\<rparr>"

text \<open>The error of the loop when a slice cannot be located: its index, if the slices before it can be counted.\<close>

definition locate_error ::
  "bytes \<Rightarrow> stream_parameters \<Rightarrow> nat \<Rightarrow> nat \<Rightarrow> status \<times> slice_descriptor option \<Rightarrow> status" where
  "locate_error frame_payload stream maximum_slice_count located_count = (\<lambda>(status, candidate).
     case candidate of
       Some d \<Rightarrow>
         if st_code status = CrcMismatch then
           case count_preceding_slices frame_payload stream (unat (sd_payload_byte_offset d))
                  (maximum_slice_count - located_count - 1) 0 of
             Some preceding_count \<Rightarrow> set_slice_location (word_of_nat preceding_count) status
           | None \<Rightarrow> set_slice_location_if_missing 0 status
         else set_slice_location_if_missing 0 status
     | None \<Rightarrow> set_slice_location_if_missing 0 status)"

text \<open>The loop; the located slices are pushed to the back and reversed at the end, here they are consed.\<close>

function locate_slices_loop ::
  "bytes \<Rightarrow> stream_parameters \<Rightarrow> nat \<Rightarrow> bool \<Rightarrow> nat \<Rightarrow> slice_descriptor list \<Rightarrow> slice_descriptor list result" where
  "locate_slices_loop frame_payload stream maximum_slice_count verify_crc remaining_size located =
     (if remaining_size = 0 then Inr located
      else if length located = maximum_slice_count
      then Inl (set_slice_location_if_missing 0 (make_byte_error SyntaxError 0))
      else case locate_trailing_slice_candidate (take remaining_size frame_payload) stream verify_crc new_slice_descriptor of
          Inl failed \<Rightarrow> Inl (locate_error frame_payload stream maximum_slice_count (length located) failed)
        | Inr d \<Rightarrow> locate_slices_loop frame_payload stream maximum_slice_count verify_crc
                    (unat (sd_payload_byte_offset d)) (d # located))"
  by pat_completeness auto
termination
  by (relation "measure (\<lambda>(frame_payload, stream, maximum_slice_count, verify_crc, remaining_size, located). remaining_size)")
    (auto dest: candidate_before)

declare locate_slices_loop.simps [simp del]

definition locate_slices ::
  "bytes \<Rightarrow> stream_parameters \<Rightarrow> nat \<Rightarrow> bool \<Rightarrow> slice_descriptor list result" where
  "locate_slices frame_payload stream maximum_slice_count verify_crc =
     (if maximum_slice_count = 0 then Inl (make_error InvalidArgument)
      else if 2 ^ 32 - 1 < maximum_slice_count then Inl (make_error ResourceExhausted)
      else
        bind_result (locate_slices_loop frame_payload stream maximum_slice_count verify_crc (length frame_payload) [])
          (\<lambda>located. Inr (map (\<lambda>(index, d). d\<lparr>sd_index := word_of_nat index\<rparr>) (enumerate 0 located))))"

subsection \<open>Located slices\<close>

text \<open>What a located slice is: a stretch of the frame with its own footer.\<close>

definition slice_at :: "bytes \<Rightarrow> stream_parameters \<Rightarrow> bool \<Rightarrow> nat \<Rightarrow> slice_descriptor \<Rightarrow> bool" where
  "slice_at frame_payload stream verify_crc position d \<longleftrightarrow>
     unat (sd_payload_byte_offset d) = position \<and>
     sd_payload d = take (unat (sd_slice_size d) + footer_size stream) (drop position frame_payload) \<and>
     length (sd_payload d) = unat (sd_slice_size d) + footer_size stream \<and>
     unat (sd_footer_byte_offset d) = position + unat (sd_slice_size d) \<and>
     sd_has_crc d = sp_error_status_enabled stream \<and>
     (verify_crc \<and> sp_error_status_enabled stream \<longrightarrow> crc32_ieee_msb (sd_payload d) = 0)"

fun slices_from :: "bytes \<Rightarrow> stream_parameters \<Rightarrow> bool \<Rightarrow> nat \<Rightarrow> slice_descriptor list \<Rightarrow> bool" where
  "slices_from frame_payload stream verify_crc position [] \<longleftrightarrow> position = length frame_payload"
| "slices_from frame_payload stream verify_crc position (d # ds) \<longleftrightarrow>
     slice_at frame_payload stream verify_crc position d \<and>
     slices_from frame_payload stream verify_crc (position + length (sd_payload d)) ds"

lemma read_footer_has_crc: "read_footer stream d r = Inr (d', r') \<Longrightarrow> sd_has_crc d' = sp_error_status_enabled stream"
  by (cases "sp_error_status_enabled stream")
    (auto simp: read_footer_def at_offset_def Let_def split: if_splits sum.splits)

lemma candidate_slice_at:
  assumes "locate_trailing_slice_candidate (take n frame_payload) stream verify_crc seed = Inr d"
    and "n \<le> length frame_payload" and "length frame_payload < 2 ^ 64"
  shows "slice_at frame_payload stream verify_crc (unat (sd_payload_byte_offset d)) d"
    and "unat (sd_payload_byte_offset d) + length (sd_payload d) = n"
proof -
  let ?f = "footer_size stream"
  have len: "length (take n frame_payload) = n" using assms(2) by simp
  from assms(1) obtain d1 r where ge: "\<not> n < ?f"
    and d1: "read_footer stream (seed\<lparr>sd_footer_byte_offset := word_of_nat (n - ?f)\<rparr>)
        (make_bit_reader (take ?f (drop (n - ?f) (take n frame_payload)))) = Inr (d1, r)"
    and size: "\<not> n - ?f < unat (sd_slice_size d1)"
    and d: "d = d1\<lparr>sd_payload_byte_offset := word_of_nat (n - (unat (sd_slice_size d1) + ?f)),
       sd_payload := take (unat (sd_slice_size d1) + ?f)
         (drop (unat (word_of_nat (n - (unat (sd_slice_size d1) + ?f)) :: u64)) (take n frame_payload)),
       sd_footer_byte_offset := word_of_nat (n - (unat (sd_slice_size d1) + ?f)) + ucast (sd_slice_size d1)\<rparr>"
    and crc: "\<not> (verify_crc \<and> sd_has_crc d \<and> crc32_ieee_msb (sd_payload d) \<noteq> 0)"
    unfolding locate_trailing_slice_candidate_def Let_def len
    by (auto simp del: of_nat_diff of_nat_add split: if_splits sum.splits prod.splits)
  define t where "t = unat (sd_slice_size d1) + ?f"
  have t: "t \<le> n" using ge size by (simp add: t_def)
  have n: "n - t < 2 ^ 64" "n < 2 ^ 64" using assms(2,3) by linarith+
  have off: "unat (word_of_nat (n - t) :: u64) = n - t" using n by (intro unat_of_nat_bounded) simp
  have payload: "take t (drop (n - t) (take n frame_payload)) = take t (drop (n - t) frame_payload)"
    using t by (simp add: drop_take)
  have foot: "unat (word_of_nat (n - t) + ucast (sd_slice_size d1) :: u64) = n - t + unat (sd_slice_size d1)"
  proof -
    have "unat (sd_slice_size d1) \<le> t" by (simp add: t_def)
    with t n show ?thesis by (subst unat_add_bounded) (simp_all add: off del: of_nat_diff)
  qed
  have d': "d = d1\<lparr>sd_payload_byte_offset := word_of_nat (n - t), sd_payload := take t (drop (n - t) frame_payload),
       sd_footer_byte_offset := word_of_nat (n - t) + ucast (sd_slice_size d1)\<rparr>"
    using d by (simp only: t_def [symmetric] off payload)
  show "slice_at frame_payload stream verify_crc (unat (sd_payload_byte_offset d)) d"
    using crc t assms(2) read_footer_has_crc [OF d1]
    by (auto simp: slice_at_def d' off foot t_def [symmetric] simp del: of_nat_diff)
  show "unat (sd_payload_byte_offset d) + length (sd_payload d) = n"
    using t assms(2) by (simp add: d' off del: of_nat_diff)
qed

lemma locate_loop_sound:
  assumes "locate_slices_loop frame_payload stream maximum verify_crc n located = Inr ds"
    and "n \<le> length frame_payload" and "length frame_payload < 2 ^ 64"
    and "slices_from frame_payload stream verify_crc n located" and "length located \<le> maximum"
  shows "slices_from frame_payload stream verify_crc 0 ds \<and> length ds \<le> maximum"
  using assms
proof (induction frame_payload stream maximum verify_crc n located rule: locate_slices_loop.induct)
  case (1 frame_payload stream maximum verify_crc n located)
  show ?case
  proof (cases "n = 0")
    case True
    with "1.prems" show ?thesis by (simp add: locate_slices_loop.simps [of frame_payload])
  next
    case False
    with "1.prems"(1) obtain d where room: "length located \<noteq> maximum"
      and d: "locate_trailing_slice_candidate (take n frame_payload) stream verify_crc new_slice_descriptor = Inr d"
      and rest: "locate_slices_loop frame_payload stream maximum verify_crc (unat (sd_payload_byte_offset d)) (d # located) = Inr ds"
      by (auto simp: locate_slices_loop.simps [of frame_payload stream maximum verify_crc n] split: if_splits sum.splits)
    note at = candidate_slice_at [OF d "1.prems"(2,3)]
    have "slices_from frame_payload stream verify_crc (unat (sd_payload_byte_offset d)) (d # located)"
      using at "1.prems"(4) by simp
    with "1.IH" [OF False room d rest] at(2) "1.prems"(2,3,5) room show ?thesis by simp
  qed
qed

lemma slices_from_reindex:
  "slices_from frame_payload stream verify_crc position (map (\<lambda>(i, d). d\<lparr>sd_index := g i\<rparr>) (enumerate k ds)) \<longleftrightarrow>
     slices_from frame_payload stream verify_crc position ds"
  by (induction ds arbitrary: position k) (simp_all add: slice_at_def)

lemma slices_from_concat:
  assumes "slices_from frame_payload stream verify_crc position ds" and "position \<le> length frame_payload"
  shows "concat (map sd_payload ds) = drop position frame_payload"
  using assms
proof (induction ds arbitrary: position)
  case (Cons d ds)
  let ?t = "unat (sd_slice_size d) + footer_size stream"
  from Cons.prems(1) have d: "sd_payload d = take ?t (drop position frame_payload)" "length (sd_payload d) = ?t"
    and "slices_from frame_payload stream verify_crc (position + length (sd_payload d)) ds"
    by (auto simp only: slices_from.simps slice_at_def)
  then have rest: "slices_from frame_payload stream verify_crc (position + ?t) ds" by simp
  have "position + ?t \<le> length frame_payload" using d Cons.prems(2) by simp
  from Cons.IH [OF rest this] have "concat (map sd_payload (d # ds)) = take ?t (drop position frame_payload) @ drop ?t (drop position frame_payload)"
    unfolding drop_drop add.commute [of ?t] by (simp only: list.map concat.simps d(1) [symmetric])
  then show ?case by (simp only: append_take_drop_id)
qed simp

lemma slices_from_nth:
  assumes "slices_from frame_payload stream verify_crc position ds" and "i < length ds"
  shows "slice_at frame_payload stream verify_crc (position + sum_list (map (length \<circ> sd_payload) (take i ds))) (ds ! i)"
  using assms
proof (induction ds arbitrary: position i)
  case (Cons d ds)
  show ?case
  proof (cases i)
    case (Suc j)
    with Cons.prems Cons.IH [of "position + length (sd_payload d)" j] show ?thesis by (simp add: add.assoc)
  qed (use Cons.prems in simp)
qed simp

text \<open>
  C37: the slices that are located cut the frame into consecutive pieces without gap or overlap: their payloads in
  order are the frame, slice \<open>i\<close> carries the index \<open>i\<close> and the offset of its first byte, its footer starts where its
  own size says, and with verification on the checksum of every piece holds.
\<close>

theorem located_slices_partition:
  assumes "locate_slices frame_payload stream maximum_slice_count verify_crc = Inr ds"
    and "length frame_payload < 2 ^ 64"
  shows "concat (map sd_payload ds) = frame_payload \<and> length ds \<le> maximum_slice_count \<and>
    (\<forall>i < length ds. unat (sd_index (ds ! i)) = i \<and>
       slice_at frame_payload stream verify_crc (sum_list (map (length \<circ> sd_payload) (take i ds))) (ds ! i))"
proof -
  from assms(1) obtain located where run: "locate_slices_loop frame_payload stream maximum_slice_count verify_crc
        (length frame_payload) [] = Inr located"
    and ds: "ds = map (\<lambda>(index, d). d\<lparr>sd_index := word_of_nat index\<rparr>) (enumerate 0 located)"
    and max: "\<not> 2 ^ 32 - 1 < maximum_slice_count"
    by (auto simp: locate_slices_def split: if_splits)
  from locate_loop_sound [OF run _ assms(2)]
  have from0: "slices_from frame_payload stream verify_crc 0 located" and len: "length located \<le> maximum_slice_count" by simp_all
  from from0 have from1: "slices_from frame_payload stream verify_crc 0 ds" unfolding ds by (simp only: slices_from_reindex)
  have "unat (sd_index (ds ! i)) = i" if "i < length ds" for i
  proof -
    from that have "i < 2 ^ 32" using len max by (simp add: ds)
    then have "unat (word_of_nat i :: u32) = i" by (intro unat_of_nat_bounded) simp
    with that show ?thesis by (simp add: ds nth_enumerate_eq)
  qed
  moreover have "concat (map sd_payload ds) = frame_payload"
    using slices_from_concat [OF from1] by simp
  moreover have "length ds \<le> maximum_slice_count" using len by (simp add: ds)
  moreover have "slice_at frame_payload stream verify_crc (sum_list (map (length \<circ> sd_payload) (take i ds))) (ds ! i)"
    if "i < length ds" for i
    using slices_from_nth [OF from1 that] by simp
  ultimately show ?thesis by blast
qed

text \<open>A slice made by the footer writer is found from its end.\<close>

lemma candidate_of_footer:
  assumes "append_footer stream error_status payload = Inr full"
    and "length pre + length full < 2 ^ 64"
  shows "\<exists>d. locate_trailing_slice_candidate (pre @ full) stream verify_crc seed = Inr d \<and>
    unat (sd_payload_byte_offset d) = length pre \<and> sd_payload d = full \<and> unat (sd_slice_size d) = length payload \<and>
    unat (sd_footer_byte_offset d) = length pre + length payload \<and> sd_error_status d = error_status \<and>
    sd_has_crc d = sp_error_status_enabled stream"
proof -
  let ?f = "footer_size stream" and ?n = "length payload"
  from assms(1) have full: "full = payload @ footer_bytes stream error_status payload"
    and ok: "sp_error_status_enabled stream \<or> error_status = 0" "error_status \<le> 2" "?n \<le> maximum_slice_size"
    by (simp_all add: append_footer_eq)
  have size: "unat (word_of_nat ?n :: u32) = ?n"
    using ok(3) by (intro unat_of_nat_bounded) (simp add: maximum_slice_size_def)
  have len: "\<not> length (pre @ full) < ?f" "length (pre @ full) - ?f = length pre + ?n"
    "take ?f (drop (length pre + ?n) (pre @ full)) = footer_bytes stream error_status payload"
    by (simp_all add: full)
  have off: "unat (word_of_nat (length pre) :: u64) = length pre" using assms(2) by (intro unat_of_nat_bounded) simp
  have foot: "unat (word_of_nat (length pre) + word_of_nat ?n :: u64) = length pre + ?n"
    using assms(2) unfolding of_nat_add [symmetric] by (intro unat_of_nat_bounded) (simp add: full)
  have cast: "(ucast (word_of_nat ?n :: u32) :: u64) = word_of_nat ?n"
  proof -
    have "unat (word_of_nat ?n :: u64) = ?n"
      using ok(3) by (intro unat_of_nat_bounded) (simp add: maximum_slice_size_def)
    moreover have "unat (ucast (word_of_nat ?n :: u32) :: u64) = ?n"
      using unat_ucast_up [of "word_of_nat ?n :: u32", where 'b = 64] size by simp
    ultimately show ?thesis by (simp only: word_unat_eq_iff)
  qed
  have tail: "length (pre @ full) - (?n + ?f) = length pre" "take (?n + ?f) (drop (length pre) (pre @ full)) = full"
    by (simp_all add: full)
  have crc: "sp_error_status_enabled stream \<Longrightarrow> crc32_ieee_msb full = 0" unfolding full by (rule footer_crc)
  let ?seed = "seed\<lparr>sd_footer_byte_offset := word_of_nat (length pre + ?n)\<rparr>"
  from footer_read_back [OF ok(3,2), of stream ?seed] obtain r d1 where
    r: "read_footer stream ?seed (make_bit_reader (footer_bytes stream error_status payload)) = Inr (d1, r)"
    and d1: "sd_slice_size d1 = word_of_nat ?n" "sd_has_crc d1 = sp_error_status_enabled stream"
      "sd_error_status d1 = (if sp_error_status_enabled stream then error_status else 0)" by force
  have d1s: "unat (sd_slice_size d1) = ?n" by (simp only: d1(1) size)
  have fits: "\<not> length pre + ?n < ?n" by simp
  let ?d = "d1\<lparr>sd_payload_byte_offset := word_of_nat (length pre), sd_payload := full,
    sd_footer_byte_offset := word_of_nat (length pre) + word_of_nat ?n\<rparr>"
  have verified: "\<not> (verify_crc \<and> sd_has_crc ?d \<and> crc32_ieee_msb (sd_payload ?d) \<noteq> 0)"
    using crc d1(2) by simp
  have "locate_trailing_slice_candidate (pre @ full) stream verify_crc seed = Inr ?d"
    unfolding locate_trailing_slice_candidate_def Let_def if_not_P [OF len(1)] len(2,3) r sum.case prod.case
      d1s if_not_P [OF fits] tail(1) off tail(2) cast [folded d1(1)] by (rule if_not_P [OF verified])
  moreover have "sd_error_status ?d = error_status" using d1(3) ok(1) by auto
  ultimately show ?thesis using off foot d1s d1(2) by (intro exI [of _ ?d]) simp
qed

text \<open>Finished slices: the error status, the payload and the bytes with the footer of each.\<close>

definition finished_slices :: "stream_parameters \<Rightarrow> (u8 \<times> bytes \<times> bytes) list \<Rightarrow> bool" where
  "finished_slices stream parts \<longleftrightarrow>
     (\<forall>(error_status, payload, full) \<in> set parts. append_footer stream error_status payload = Inr full)"

definition slices_bytes :: "(u8 \<times> bytes \<times> bytes) list \<Rightarrow> bytes" where
  "slices_bytes parts = concat (map (\<lambda>(error_status, payload, full). full) parts)"

definition located_as :: "stream_parameters \<Rightarrow> u8 \<times> bytes \<times> bytes \<Rightarrow> slice_descriptor \<Rightarrow> bool" where
  "located_as stream = (\<lambda>(error_status, payload, full) d. sd_payload d = full \<and>
     unat (sd_slice_size d) = length payload \<and> sd_error_status d = error_status \<and>
     sd_has_crc d = sp_error_status_enabled stream)"

lemma slices_bytes_append: "slices_bytes (xs @ ys) = slices_bytes xs @ slices_bytes ys"
  by (simp add: slices_bytes_def)

lemma locate_loop_complete:
  assumes "finished_slices stream parts" and "length (slices_bytes parts) + length rest < 2 ^ 64"
    and "length parts + length located \<le> maximum"
  shows "\<exists>ds. locate_slices_loop (slices_bytes parts @ rest) stream maximum verify_crc (length (slices_bytes parts)) located =
      Inr (ds @ located) \<and> list_all2 (located_as stream) parts ds"
  using assms
proof (induction parts arbitrary: located rest rule: rev_induct)
  case Nil
  then show ?case by (simp add: locate_slices_loop.simps slices_bytes_def)
next
  case (snoc part parts)
  obtain error_status payload full where part: "part = (error_status, payload, full)" by (cases part)
  from snoc.prems(1) have full: "append_footer stream error_status payload = Inr full" and parts: "finished_slices stream parts"
    by (auto simp: finished_slices_def part)
  let ?pre = "slices_bytes parts"
  have bytes: "slices_bytes (parts @ [part]) = ?pre @ full" by (simp add: slices_bytes_def part)
  have "length ?pre + length full < 2 ^ 64" using snoc.prems(2) by (simp add: bytes)
  from candidate_of_footer [OF full this, of verify_crc new_slice_descriptor] obtain d where
    d: "locate_trailing_slice_candidate (?pre @ full) stream verify_crc new_slice_descriptor = Inr d"
      "unat (sd_payload_byte_offset d) = length ?pre" "located_as stream part d"
    by (auto simp: located_as_def part)
  have "full \<noteq> []" using full footer_size_positive [of stream] by (auto simp: append_footer_eq simp flip: length_0_conv)
  then have nonempty: "\<not> length (?pre @ full) = 0" by simp
  have room: "\<not> length located = maximum" using snoc.prems(3) by simp
  have frame: "slices_bytes (parts @ [part]) @ rest = ?pre @ (full @ rest)" by (simp add: bytes)
  have step: "locate_slices_loop (?pre @ (full @ rest)) stream maximum verify_crc (length (?pre @ full)) located =
      locate_slices_loop (?pre @ (full @ rest)) stream maximum verify_crc (length ?pre) (d # located)"
    unfolding locate_slices_loop.simps [of "?pre @ (full @ rest)" stream maximum verify_crc "length (?pre @ full)"]
      if_not_P [OF nonempty] if_not_P [OF room]
    using d(1,2) by simp
  from snoc.prems have len: "length ?pre + length (full @ rest) < 2 ^ 64" "length parts + length (d # located) \<le> maximum"
    by (simp_all add: bytes)
  from snoc.IH [OF parts len] obtain ds where
    ds: "locate_slices_loop (?pre @ (full @ rest)) stream maximum verify_crc (length ?pre) (d # located) = Inr (ds @ d # located)"
      "list_all2 (located_as stream) parts ds" by blast
  from ds(1) have "locate_slices_loop (slices_bytes (parts @ [part]) @ rest) stream maximum verify_crc
      (length (slices_bytes (parts @ [part]))) located = Inr ((ds @ [d]) @ located)"
    unfolding frame unfolding bytes step by simp
  moreover have "list_all2 (located_as stream) (parts @ [part]) (ds @ [d])"
    using ds(2) d(3) by (simp add: list_all2_appendI)
  ultimately show ?case by blast
qed

text \<open>
  C34: the slices of a frame are found again from its end. For any number of finished slices up to the maximum, the
  locator returns one descriptor per slice, in order, with the bytes, the size and the error status of that slice.
\<close>

theorem located_slices_roundtrip:
  assumes "finished_slices stream parts" and "length (slices_bytes parts) < 2 ^ 64" and "length parts \<le> maximum_slice_count"
    and "0 < maximum_slice_count" and "maximum_slice_count < 2 ^ 32"
  shows "\<exists>ds. locate_slices (slices_bytes parts) stream maximum_slice_count verify_crc = Inr ds \<and>
    list_all2 (located_as stream) parts ds"
proof -
  from locate_loop_complete [OF assms(1), of "[]" "[]" maximum_slice_count verify_crc] assms(2,3) obtain ds where
    ds: "locate_slices_loop (slices_bytes parts) stream maximum_slice_count verify_crc (length (slices_bytes parts)) [] = Inr ds"
      "list_all2 (located_as stream) parts ds" by auto
  let ?indexed = "map (\<lambda>(index, d). d\<lparr>sd_index := word_of_nat index\<rparr>) (enumerate 0 ds)"
  have "list_all2 (located_as stream) parts ?indexed"
    using ds(2) by (auto simp: list_all2_conv_all_nth nth_enumerate_eq located_as_def)
  with ds(1) assms(4,5) show ?thesis by (auto simp: locate_slices_def)
qed

theorem located_slices_roundtrip_witness:
  "\<exists>first second ds. append_footer (example_stream\<lparr>sp_error_status_enabled := True\<rparr>) 0 [0x80, 0x00] = Inr first \<and>
     append_footer (example_stream\<lparr>sp_error_status_enabled := True\<rparr>) 1 [0x17] = Inr second \<and>
     locate_slices (first @ second) (example_stream\<lparr>sp_error_status_enabled := True\<rparr>) 4 True = Inr ds \<and>
     map sd_payload ds = [first, second] \<and> map sd_error_status ds = [0, 1]"
proof -
  let ?s = "example_stream\<lparr>sp_error_status_enabled := True\<rparr>"
  let ?a = "[0x80, 0x00] @ footer_bytes ?s 0 [0x80, 0x00]" and ?b = "[0x17] @ footer_bytes ?s 1 [0x17]"
  have ab: "append_footer ?s 0 [0x80, 0x00] = Inr ?a" "append_footer ?s 1 [0x17] = Inr ?b"
    by (simp_all add: append_footer_eq maximum_slice_size_def)
  let ?parts = "[(0, [0x80, 0x00], ?a), (1, [0x17], ?b)]"
  have "finished_slices ?s ?parts" using ab by (simp only: finished_slices_def list.set ball_simps prod.case simp_thms)
  moreover have "length (slices_bytes ?parts) < 2 ^ 64" by (simp add: slices_bytes_def footer_size_def)
  ultimately obtain ds where ds: "locate_slices (slices_bytes ?parts) ?s 4 True = Inr ds" "list_all2 (located_as ?s) ?parts ds"
    using located_slices_roundtrip [of ?s ?parts 4 True] by auto
  then have "map sd_payload ds = [?a, ?b] \<and> map sd_error_status ds = [0, 1]"
    by (auto simp: list_all2_Cons1 located_as_def)
  moreover have "slices_bytes ?parts = ?a @ ?b" by (simp add: slices_bytes_def)
  ultimately show ?thesis using ab ds(1) by metis
qed

theorem located_slices_partition_witness:
  "\<exists>first ds. append_footer example_stream 0 [0x80, 0x00] = Inr first \<and> locate_slices (first @ first) example_stream 2 False = Inr ds \<and>
     concat (map sd_payload ds) = first @ first \<and> unat (sd_index (ds ! 1)) = 1"
proof -
  let ?a = "[0x80, 0x00] @ footer_bytes example_stream 0 [0x80, 0x00]"
  have a: "append_footer example_stream 0 [0x80, 0x00] = Inr ?a"
    by (simp add: append_footer_eq maximum_slice_size_def)
  let ?parts = "[(0, [0x80, 0x00], ?a), (0, [0x80, 0x00], ?a)]"
  have parts: "finished_slices example_stream ?parts" using a by (simp only: finished_slices_def list.set ball_simps prod.case simp_thms)
  have bytes: "slices_bytes ?parts = ?a @ ?a" "length (?a @ ?a) < 2 ^ 64"
    by (simp_all add: slices_bytes_def footer_size_def)
  from locate_loop_complete [OF parts, of "[]" "[]" 2 False] bytes obtain ds where
    "locate_slices_loop (?a @ ?a) example_stream 2 False (length (?a @ ?a)) [] = Inr ds" "list_all2 (located_as example_stream) ?parts ds"
    by auto
  then obtain ds' where ds: "locate_slices (?a @ ?a) example_stream 2 False = Inr ds'" "length ds' = 2"
    by (auto simp: locate_slices_def dest: list_all2_lengthD)
  from located_slices_partition [OF ds(1) bytes(2)] ds a show ?thesis by (intro exI [of _ ?a] exI [of _ ds']) simp
qed

end
