(* ===== verification/Slice_Raster.thy ===== *)
theory Slice_Raster
  imports Slice_Header
begin

text \<open>
  The check that the slices of a frame cover its raster exactly once
  (\<^verbatim>\<open>src/src/codec/slice_raster_validator.cpp\<close>): a sweep over the left and right sides of the rectangles
  with an ordered map of the vertical intervals the sweep line crosses.
\<close>

subsection \<open>Sweep events\<close>

datatype sweep_event = SweepEvent (event_x: u32) (event_position: nat) (event_starts: bool)

text \<open>The order of the events, by which they are sorted: right sides come before left sides at the same place.\<close>

definition event_before :: "sweep_event \<Rightarrow> sweep_event \<Rightarrow> bool" where
  "event_before left right \<longleftrightarrow>
     (if event_x left \<noteq> event_x right then event_x left < event_x right
      else if event_starts left \<noteq> event_starts right then \<not> event_starts left
      else event_position left < event_position right)"

instantiation sweep_event :: linorder
begin

definition less_sweep_event :: "sweep_event \<Rightarrow> sweep_event \<Rightarrow> bool" where
  "less_sweep_event = event_before"

definition less_eq_sweep_event :: "sweep_event \<Rightarrow> sweep_event \<Rightarrow> bool" where
  "less_eq_sweep_event left right \<longleftrightarrow> left = right \<or> event_before left right"

instance
proof
  fix a b c :: sweep_event
  show "a < b \<longleftrightarrow> a \<le> b \<and> \<not> b \<le> a"
    by (auto simp: less_sweep_event_def less_eq_sweep_event_def event_before_def split: if_splits)
  show "a \<le> a" by (simp add: less_eq_sweep_event_def)
  show "a \<le> c" if "a \<le> b" "b \<le> c"
    using that by (auto simp: less_eq_sweep_event_def event_before_def split: if_splits)
  show "a = b" if "a \<le> b" "b \<le> a"
    using that by (auto simp: less_eq_sweep_event_def event_before_def split: if_splits)
  show "a \<le> b \<or> b \<le> a"
    by (cases a; cases b) (auto simp: less_eq_sweep_event_def event_before_def)
qed

end

text \<open>The active intervals: an ordered map from the lower end to the upper end.\<close>

type_synonym active_intervals = "(u32 \<times> u32) list"

definition active_erase :: "u32 \<Rightarrow> active_intervals \<Rightarrow> active_intervals" where
  "active_erase y active = filter (\<lambda>(first, _). first \<noteq> y) active"

text \<open>The entries before \<open>lower_bound\<close> and from it on.\<close>

definition active_below :: "u32 \<Rightarrow> active_intervals \<Rightarrow> active_intervals" where
  "active_below y active = takeWhile (\<lambda>(first, _). first < y) active"

definition active_from :: "u32 \<Rightarrow> active_intervals \<Rightarrow> active_intervals" where
  "active_from y active = dropWhile (\<lambda>(first, _). first < y) active"

definition active_overlaps :: "u32 \<Rightarrow> u32 \<Rightarrow> active_intervals \<Rightarrow> bool" where
  "active_overlaps y y_end active \<longleftrightarrow>
     (active_from y active \<noteq> [] \<and> fst (hd (active_from y active)) < y_end) \<or>
     (active_below y active \<noteq> [] \<and> y < snd (last (active_below y active)))"

definition active_emplace :: "u32 \<Rightarrow> u32 \<Rightarrow> active_intervals \<Rightarrow> active_intervals" where
  "active_emplace y y_end active =
     (case active_from y active of
        [] \<Rightarrow> active @ [(y, y_end)]
      | (first, stop) # _ \<Rightarrow>
          if first = y then active else active_below y active @ (y, y_end) # active_from y active)"

subsection \<open>The check\<close>

definition make_slice_error :: "error_code \<Rightarrow> u32 \<Rightarrow> status" where
  "make_slice_error code slice_index = set_slice_location_if_missing slice_index (make_error code)"

text \<open>\<open>std::vector<SweepEvent>::max_size\<close> with events of 24 bytes.\<close>

definition sweep_events_max_size :: nat where
  "sweep_events_max_size = (2 ^ 63 - 1) div 24"

text \<open>The body of the loop over the slices: the area covered so far, whether it exceeded the raster, the events.\<close>

definition scan_slice ::
  "stream_parameters \<Rightarrow> nat \<times> slice_descriptor \<Rightarrow> u64 \<times> bool \<times> sweep_event list \<Rightarrow> (u64 \<times> bool \<times> sweep_event list) result" where
  "scan_slice stream = (\<lambda>(position, sl) (covered_area, covered_area_exceeds_raster, events).
     let cell_count64 = ucast (sp_num_h_slices stream) * ucast (sp_num_v_slices stream);
         slice_area = ucast (sd_raster_width sl) * ucast (sd_raster_height sl)
     in if sd_raster_width sl = 0 \<or> sd_raster_height sl = 0 then Inl (make_slice_error SyntaxError (sd_index sl))
        else if sp_num_h_slices stream < sd_raster_x sl \<or> sp_num_v_slices stream < sd_raster_y sl
          \<or> sp_num_h_slices stream - sd_raster_x sl < sd_raster_width sl
          \<or> sp_num_v_slices stream - sd_raster_y sl < sd_raster_height sl
        then Inl (make_slice_error SyntaxError (sd_index sl))
        else if requires_version3_parallel_slice_limit (sp_version stream) (sp_width stream) (sp_height stream)
          \<and> cell_count64 div 4 < slice_area
        then Inl (make_slice_error SyntaxError (sd_index sl))
        else
          let events = events @ [SweepEvent (sd_raster_x sl) position True,
                SweepEvent (sd_raster_x sl + sd_raster_width sl) position False]
          in if cell_count64 - covered_area < slice_area then Inr (covered_area, True, events)
             else Inr (covered_area + slice_area, covered_area_exceeds_raster, events))"

text \<open>The body of the loop over the sorted events.\<close>

definition sweep_step ::
  "slice_descriptor list \<Rightarrow> sweep_event \<Rightarrow> active_intervals \<Rightarrow> active_intervals result" where
  "sweep_step slices event active =
     (let sl = slices ! event_position event in
      if \<not> event_starts event then Inr (active_erase (sd_raster_y sl) active)
      else
        let y_end = sd_raster_y sl + sd_raster_height sl in
        if active_overlaps (sd_raster_y sl) y_end active then Inl (make_slice_error SyntaxError (sd_index sl))
        else Inr (active_emplace (sd_raster_y sl) y_end active))"

definition validate_slice_raster_coverage :: "stream_parameters \<Rightarrow> slice_descriptor list \<Rightarrow> unit result" where
  "validate_slice_raster_coverage stream slices =
     (if sp_num_h_slices stream = 0 \<or> sp_num_v_slices stream = 0 then Inl (make_error InvalidState)
      else if sweep_events_max_size div 2 < length slices then Inl (make_error ResourceExhausted)
      else
        bind_result (fold_result (scan_slice stream) (enumerate 0 slices) (0, False, []))
          (\<lambda>(covered_area, covered_area_exceeds_raster, events).
        bind_result (fold_result (sweep_step slices) (sort events) []) (\<lambda>active.
          if covered_area_exceeds_raster
             \<or> covered_area \<noteq> ucast (sp_num_h_slices stream) * ucast (sp_num_v_slices stream)
          then Inl (make_error SyntaxError) else Inr ())))"

definition is_incomplete_slice_raster_coverage_status :: "status \<Rightarrow> bool" where
  "is_incomplete_slice_raster_coverage_status status \<longleftrightarrow>
     st_code status = SyntaxError \<and> \<not> has_byte_offset (st_location status) \<and>
     \<not> has_frame_index (st_location status) \<and> \<not> has_slice_index (st_location status)"

subsection \<open>Ordered disjoint intervals\<close>

definition intervals_ok :: "active_intervals \<Rightarrow> bool" where
  "intervals_ok active \<longleftrightarrow>
     (\<forall>(first, stop) \<in> set active. first < stop) \<and> sorted_wrt (\<lambda>(_, stop) (first, _). stop \<le> first) active"

lemma intervals_ok_Nil [simp]: "intervals_ok []"
  by (simp add: intervals_ok_def)

lemma intervals_ok_append:
  "intervals_ok (xs @ ys) \<longleftrightarrow>
     intervals_ok xs \<and> intervals_ok ys \<and> (\<forall>(_, stop) \<in> set xs. \<forall>(first, _) \<in> set ys. stop \<le> first)"
  by (fastforce simp: intervals_ok_def sorted_wrt_append)

lemma intervals_ok_Cons:
  "intervals_ok ((first, stop) # xs) \<longleftrightarrow> first < stop \<and> intervals_ok xs \<and> (\<forall>(first', _) \<in> set xs. stop \<le> first')"
  by (fastforce simp: intervals_ok_def)

lemma active_split: "active = active_below y active @ active_from y active"
  by (simp add: active_below_def active_from_def)

lemma active_below_less: "(first, stop) \<in> set (active_below y active) \<Longrightarrow> first < y"
  by (auto simp: active_below_def dest: set_takeWhileD)

lemma active_from_ge:
  assumes "intervals_ok active" and "(first, stop) \<in> set (active_from y active)"
  shows "y \<le> first"
proof (cases "active_from y active")
  case Nil
  with assms(2) show ?thesis by simp
next
  case (Cons e es)
  obtain f s where e: "e = (f, s)" by (cases e)
  have "\<not> f < y" using Cons by (simp add: active_from_def e dropWhile_eq_Cons_conv)
  moreover have "intervals_ok (active_from y active)"
    using assms(1) active_split [of active y] by (metis intervals_ok_append)
  then have "intervals_ok ((f, s) # es)" by (simp add: Cons e)
  then have "f < s" "\<forall>(first', _) \<in> set es. s \<le> first'" by (auto simp: intervals_ok_Cons)
  with assms(2) have "f \<le> first" by (auto simp: Cons e)
  ultimately show ?thesis by simp
qed

text \<open>The two neighbours decide whether any active interval overlaps.\<close>

lemma active_overlaps_iff:
  assumes "intervals_ok active" and "y < y_end"
  shows "active_overlaps y y_end active \<longleftrightarrow> (\<exists>(first, stop) \<in> set active. first < y_end \<and> y < stop)"
proof
  assume "active_overlaps y y_end active"
  then consider "active_from y active \<noteq> []" "fst (hd (active_from y active)) < y_end"
    | "active_below y active \<noteq> []" "y < snd (last (active_below y active))"
    by (auto simp: active_overlaps_def)
  then show "\<exists>(first, stop) \<in> set active. first < y_end \<and> y < stop"
  proof cases
    case 1
    obtain f s where hd: "hd (active_from y active) = (f, s)" by fastforce
    then have mem: "(f, s) \<in> set (active_from y active)" using 1(1) hd_in_set by metis
    then have "(f, s) \<in> set active" using active_split [of active y] by (metis UnCI set_append)
    moreover from this have "f < s" using assms(1) by (auto simp: intervals_ok_def)
    moreover have "y \<le> f" by (rule active_from_ge [OF assms(1) mem])
    ultimately show ?thesis using 1(2) hd by (intro bexI [of _ "(f, s)"]) auto
  next
    case 2
    obtain f s where last: "last (active_below y active) = (f, s)" by fastforce
    then have mem: "(f, s) \<in> set (active_below y active)" using 2(1) last_in_set by metis
    then have "(f, s) \<in> set active" using active_split [of active y] by (metis UnCI set_append)
    moreover have "f < y" by (rule active_below_less [OF mem])
    ultimately show ?thesis using 2(2) last assms(2) by (intro bexI [of _ "(f, s)"]) auto
  qed
next
  assume "\<exists>(first, stop) \<in> set active. first < y_end \<and> y < stop"
  then obtain f s where fs: "(f, s) \<in> set active" "f < y_end" "y < s" by blast
  have oks: "intervals_ok (active_below y active)" "intervals_ok (active_from y active)"
    using assms(1) active_split [of active y] by (metis intervals_ok_append)+
  from fs(1) consider "(f, s) \<in> set (active_below y active)" | "(f, s) \<in> set (active_from y active)"
    using active_split [of active y] by (metis UnE set_append)
  then show "active_overlaps y y_end active"
  proof cases
    case 1
    then obtain xs e where below: "active_below y active = xs @ [e]" by (cases "active_below y active" rule: rev_cases) auto
    obtain f' s' where e: "e = (f', s')" by (cases e)
    from oks(1) have "f' < s'" "\<forall>(_, stop) \<in> set xs. stop \<le> f'" by (auto simp: below e intervals_ok_append intervals_ok_Cons)
    with 1 have "s \<le> s'" by (auto simp: below e)
    with fs(3) have "y < s'" by simp
    then show ?thesis by (simp add: active_overlaps_def below e)
  next
    case 2
    then obtain xs e where from_y: "active_from y active = e # xs" by (cases "active_from y active") auto
    obtain f' s' where e: "e = (f', s')" by (cases e)
    from oks(2) have "f' < s'" "\<forall>(first', _) \<in> set xs. s' \<le> first'" by (auto simp: from_y e intervals_ok_Cons)
    with 2 have "f' \<le> f" by (auto simp: from_y e)
    with fs(2) have "f' < y_end" by simp
    then show ?thesis by (simp add: active_overlaps_def from_y e)
  qed
qed

lemma active_emplace_ok:
  assumes "intervals_ok active" and "y < y_end" and "\<not> active_overlaps y y_end active"
  shows "intervals_ok (active_emplace y y_end active)"
    and "set (active_emplace y y_end active) = insert (y, y_end) (set active)"
proof -
  let ?b = "active_below y active" and ?f = "active_from y active"
  have none: "\<not> (first < y_end \<and> y < stop)" if "(first, stop) \<in> set active" for first stop
    using that assms(3) unfolding active_overlaps_iff [OF assms(1,2)] by blast
  have split: "active = ?b @ ?f" by (rule active_split)
  have "intervals_ok (?b @ ?f)" using assms(1) by (simp only: active_split [symmetric])
  then have oks: "intervals_ok ?b" "intervals_ok ?f" and cross: "\<forall>(_, stop) \<in> set ?b. \<forall>(first, _) \<in> set ?f. stop \<le> first"
    unfolding intervals_ok_append by blast+
  have members: "set active = set ?b \<union> set ?f" using split by (metis set_append)
  have below: "stop \<le> y" if "(first, stop) \<in> set ?b" for first stop
    using none [of first stop] active_below_less [OF that] that assms(2) members by auto
  have above: "y_end \<le> first" if "(first, stop) \<in> set ?f" for first stop
  proof -
    have "first < stop" using that members assms(1) by (auto simp: intervals_ok_def)
    with none [of first stop] active_from_ge [OF assms(1) that] that members show ?thesis by auto
  qed
  have placed: "active_emplace y y_end active = ?b @ (y, y_end) # ?f"
  proof (cases ?f)
    case Nil
    then have "active = ?b" using split by simp
    with Nil show ?thesis by (simp add: active_emplace_def)
  next
    case (Cons e es)
    obtain f s where e: "e = (f, s)" by (cases e)
    have "y_end \<le> f" using above [of f s] by (simp add: Cons e)
    with assms(2) have "f \<noteq> y" by auto
    then show ?thesis by (simp add: active_emplace_def Cons e)
  qed
  show "set (active_emplace y y_end active) = insert (y, y_end) (set active)"
    unfolding placed members by simp
  show "intervals_ok (active_emplace y y_end active)"
    unfolding placed intervals_ok_append intervals_ok_Cons
  proof (intro conjI oks assms(2))
    show "\<forall>(first', _) \<in> set ?f. y_end \<le> first'" using above by blast
    show "\<forall>(_, stop) \<in> set ?b. \<forall>(first, _) \<in> set ((y, y_end) # ?f). stop \<le> first"
      using below cross by (simp only: list.set ball_simps prod.case) blast
  qed
qed

lemma active_erase_ok:
  assumes "intervals_ok active"
  shows "intervals_ok (active_erase y active)"
    and "set (active_erase y active) = {(first, stop) \<in> set active. first \<noteq> y}"
proof -
  show "set (active_erase y active) = {(first, stop) \<in> set active. first \<noteq> y}" by (auto simp: active_erase_def)
  from assms show "intervals_ok (active_erase y active)"
    unfolding intervals_ok_def active_erase_def by (auto intro: sorted_wrt_filter)
qed

subsection \<open>The sweep\<close>

definition x_end :: "slice_descriptor \<Rightarrow> u32" where "x_end sl = sd_raster_x sl + sd_raster_width sl"
definition y_end :: "slice_descriptor \<Rightarrow> u32" where "y_end sl = sd_raster_y sl + sd_raster_height sl"

definition start_event :: "slice_descriptor list \<Rightarrow> nat \<Rightarrow> sweep_event" where
  "start_event slices i = SweepEvent (sd_raster_x (slices ! i)) i True"

definition end_event :: "slice_descriptor list \<Rightarrow> nat \<Rightarrow> sweep_event" where
  "end_event slices i = SweepEvent (x_end (slices ! i)) i False"

definition sides_ok :: "slice_descriptor list \<Rightarrow> bool" where
  "sides_ok slices \<longleftrightarrow> (\<forall>sl \<in> set slices. sd_raster_x sl < x_end sl \<and> sd_raster_y sl < y_end sl)"

definition all_events :: "slice_descriptor list \<Rightarrow> sweep_event set" where
  "all_events slices = start_event slices ` {..<length slices} \<union> end_event slices ` {..<length slices}"

text \<open>The rectangles the sweep line crosses after the events \<open>seen\<close>.\<close>

definition live :: "slice_descriptor list \<Rightarrow> sweep_event set \<Rightarrow> nat set" where
  "live slices seen = {i. i < length slices \<and> start_event slices i \<in> seen \<and> end_event slices i \<notin> seen}"

definition y_apart :: "slice_descriptor \<Rightarrow> slice_descriptor \<Rightarrow> bool" where
  "y_apart a b \<longleftrightarrow> y_end a \<le> sd_raster_y b \<or> y_end b \<le> sd_raster_y a"

definition x_apart :: "slice_descriptor \<Rightarrow> slice_descriptor \<Rightarrow> bool" where
  "x_apart a b \<longleftrightarrow> x_end a \<le> sd_raster_x b \<or> x_end b \<le> sd_raster_x a"

definition sweep_inv :: "slice_descriptor list \<Rightarrow> sweep_event set \<Rightarrow> active_intervals \<Rightarrow> bool" where
  "sweep_inv slices seen active \<longleftrightarrow>
     intervals_ok active \<and>
     set active = (\<lambda>i. (sd_raster_y (slices ! i), y_end (slices ! i))) ` live slices seen \<and>
     (\<forall>i \<in> live slices seen. \<forall>j \<in> live slices seen. i \<noteq> j \<longrightarrow> y_apart (slices ! i) (slices ! j))"

lemma start_end_events:
  "start_event slices i = start_event slices j \<longleftrightarrow> i = j" "end_event slices i = end_event slices j \<longleftrightarrow> i = j"
  "start_event slices i \<noteq> end_event slices j" "end_event slices j \<noteq> start_event slices i"
  by (auto simp: start_event_def end_event_def)

lemma start_before_end: "sides_ok slices \<Longrightarrow> i < length slices \<Longrightarrow> start_event slices i < end_event slices i"
  by (drule nth_mem) (auto simp: less_sweep_event_def event_before_def start_event_def end_event_def sides_ok_def)

lemma end_before_start: "end_event slices i < start_event slices j \<longleftrightarrow> x_end (slices ! i) \<le> sd_raster_x (slices ! j)"
  by (auto simp: less_sweep_event_def event_before_def start_event_def end_event_def)

lemma start_before_start: "start_event slices i < start_event slices j \<Longrightarrow> sd_raster_x (slices ! i) \<le> sd_raster_x (slices ! j)"
  by (auto simp: less_sweep_event_def event_before_def start_event_def split: if_splits)

lemma sweep_start_inv:
  assumes "sweep_inv slices seen active" and "sides_ok slices" and "j < length slices"
    and "end_event slices j \<notin> seen" and "start_event slices j \<notin> seen"
    and "\<forall>i \<in> live slices seen. y_apart (slices ! i) (slices ! j)"
  shows "sweep_step slices (start_event slices j) active =
      Inr (active_emplace (sd_raster_y (slices ! j)) (y_end (slices ! j)) active)"
    and "sweep_inv slices (insert (start_event slices j) seen)
      (active_emplace (sd_raster_y (slices ! j)) (y_end (slices ! j)) active)"
proof -
  let ?y = "sd_raster_y (slices ! j)" and ?e = "y_end (slices ! j)"
  from assms(1) have ok: "intervals_ok active"
    and act: "set active = (\<lambda>i. (sd_raster_y (slices ! i), y_end (slices ! i))) ` live slices seen"
    and apart: "\<forall>i \<in> live slices seen. \<forall>j \<in> live slices seen. i \<noteq> j \<longrightarrow> y_apart (slices ! i) (slices ! j)"
    by (simp_all add: sweep_inv_def)
  have ye: "?y < ?e" using assms(2,3) by (simp add: sides_ok_def)
  have free: "\<not> active_overlaps ?y ?e active"
    unfolding active_overlaps_iff [OF ok ye] act using assms(6) by (fastforce simp: y_apart_def)
  then show "sweep_step slices (start_event slices j) active = Inr (active_emplace ?y ?e active)"
    by (simp add: sweep_step_def start_event_def y_end_def Let_def)
  have grown: "live slices (insert (start_event slices j) seen) = insert j (live slices seen)"
    using assms(3,4) start_end_events by (auto simp: live_def)
  show "sweep_inv slices (insert (start_event slices j) seen) (active_emplace ?y ?e active)"
    unfolding sweep_inv_def grown active_emplace_ok(2) [OF ok ye free] act
    using active_emplace_ok(1) [OF ok ye free] apart assms(6) by (auto simp: y_apart_def)
qed

lemma sweep_end_inv:
  assumes "sweep_inv slices seen active" and "sides_ok slices" and "k < length slices"
    and "start_event slices k \<in> seen" and "end_event slices k \<notin> seen"
  shows "sweep_inv slices (insert (end_event slices k) seen) (active_erase (sd_raster_y (slices ! k)) active)"
proof -
  from assms(1) have ok: "intervals_ok active"
    and act: "set active = (\<lambda>i. (sd_raster_y (slices ! i), y_end (slices ! i))) ` live slices seen"
    and apart: "\<forall>i \<in> live slices seen. \<forall>j \<in> live slices seen. i \<noteq> j \<longrightarrow> y_apart (slices ! i) (slices ! j)"
    by (simp_all add: sweep_inv_def)
  have k: "k \<in> live slices seen" using assms(3-5) by (simp add: live_def)
  have rest: "live slices (insert (end_event slices k) seen) = live slices seen - {k}"
    using start_end_events by (auto simp: live_def)
  have other: "sd_raster_y (slices ! i) \<noteq> sd_raster_y (slices ! k)" if "i \<in> live slices seen" "i \<noteq> k" for i
  proof -
    have "i < length slices" using that(1) by (simp add: live_def)
    then have "sd_raster_y (slices ! i) < y_end (slices ! i)" "sd_raster_y (slices ! k) < y_end (slices ! k)"
      using assms(2,3) by (simp_all add: sides_ok_def)
    moreover have "y_apart (slices ! i) (slices ! k)" using apart that k by blast
    ultimately show ?thesis by (auto simp: y_apart_def)
  qed
  have "set (active_erase (sd_raster_y (slices ! k)) active) =
      (\<lambda>i. (sd_raster_y (slices ! i), y_end (slices ! i))) ` (live slices seen - {k})"
    unfolding active_erase_ok(2) [OF ok] act using other by auto
  with apart active_erase_ok(1) [OF ok] show ?thesis by (simp add: sweep_inv_def rest)
qed

text \<open>The sweep reports no error exactly if every rectangle is apart from those the line crosses at its left side.\<close>

lemma sweep_iff:
  assumes "sorted (seen @ rest)" and "distinct (seen @ rest)" and "set (seen @ rest) = all_events slices"
    and "sides_ok slices" and "sweep_inv slices (set seen) active"
  shows "is_ok (fold_result (sweep_step slices) rest active) \<longleftrightarrow>
    (\<forall>j < length slices. start_event slices j \<in> set rest \<longrightarrow>
      (\<forall>i < length slices. start_event slices i < start_event slices j \<longrightarrow> \<not> end_event slices i < start_event slices j \<longrightarrow>
        y_apart (slices ! i) (slices ! j)))"
    (is "_ \<longleftrightarrow> ?clear rest")
  using assms
proof (induction rest arbitrary: seen active)
  case Nil
  then show ?case by simp
next
  case (Cons e rest)
  have fresh: "e \<notin> set seen" "e \<notin> set rest" using Cons.prems(2) by auto
  have order: "\<forall>e' \<in> set seen. e' < e" "\<forall>e' \<in> set rest. e < e'"
    using Cons.prems(1,2) fresh by (auto simp: sorted_append order.strict_iff_order)
  have before: "e' \<in> set seen \<longleftrightarrow> e' < e" if "e' \<in> all_events slices" for e'
  proof -
    from that Cons.prems(3) have "e' \<in> set seen \<or> e' = e \<or> e' \<in> set rest" by auto
    with order show ?thesis using order.asym by blast
  qed
  have events: "start_event slices i \<in> all_events slices" "end_event slices i \<in> all_events slices" if "i < length slices" for i
    using that by (auto simp: all_events_def)
  have IH: "sweep_inv slices (insert e (set seen)) active' \<Longrightarrow> is_ok (fold_result (sweep_step slices) rest active') \<longleftrightarrow> ?clear rest"
    for active'
    using Cons.IH [of "seen @ [e]" active'] Cons.prems(1-4) by simp
  have "e \<in> all_events slices" using Cons.prems(3) by auto
  then consider j where "j < length slices" "e = start_event slices j" | k where "k < length slices" "e = end_event slices k"
    by (auto simp: all_events_def)
  then show ?case
  proof cases
    case 1
    have live: "i \<in> live slices (set seen) \<longleftrightarrow>
        i < length slices \<and> start_event slices i < e \<and> \<not> end_event slices i < e" for i
      using before events by (auto simp: live_def)
    have split: "?clear (e # rest) \<longleftrightarrow> (\<forall>i \<in> live slices (set seen). y_apart (slices ! i) (slices ! j)) \<and> ?clear rest"
      using 1 by (auto simp: live start_end_events)
    show ?thesis
    proof (cases "\<forall>i \<in> live slices (set seen). y_apart (slices ! i) (slices ! j)")
      case True
      have "end_event slices j \<notin> set seen"
        using before [OF events(2)] start_before_end [OF Cons.prems(4)] 1 by (metis order.asym)
      note step = sweep_start_inv [OF Cons.prems(5,4) 1(1) this _ True]
      have "start_event slices j \<notin> set seen" using fresh(1) 1(2) by simp
      note step = step [OF this]
      from IH [OF step(2) [folded 1(2)]] step(1) [folded 1(2)] split True show ?thesis by simp
    next
      case False
      then obtain i where i: "i \<in> live slices (set seen)" "\<not> y_apart (slices ! i) (slices ! j)" by blast
      from Cons.prems(5) have ok: "intervals_ok active"
        and act: "set active = (\<lambda>i. (sd_raster_y (slices ! i), y_end (slices ! i))) ` live slices (set seen)"
        by (simp_all add: sweep_inv_def)
      have ye: "sd_raster_y (slices ! j) < y_end (slices ! j)" using Cons.prems(4) 1(1) by (simp add: sides_ok_def)
      have "active_overlaps (sd_raster_y (slices ! j)) (y_end (slices ! j)) active"
        unfolding active_overlaps_iff [OF ok ye] act using i by (auto simp: y_apart_def not_le)
      then have "\<not> is_ok (fold_result (sweep_step slices) (e # rest) active)"
        by (simp add: 1(2) sweep_step_def start_event_def y_end_def is_ok_def Let_def)
      with split False show ?thesis by simp
    qed
  next
    case 2
    have "start_event slices k \<in> set seen"
      using before [OF events(1)] start_before_end [OF Cons.prems(4)] 2 by metis
    moreover have "end_event slices k \<notin> set seen" using fresh(1) 2(2) by simp
    ultimately have "sweep_inv slices (insert e (set seen)) (active_erase (sd_raster_y (slices ! k)) active)"
      unfolding 2(2) by (rule sweep_end_inv [OF Cons.prems(5,4) 2(1)])
    note IH [OF this]
    moreover have "sweep_step slices e active = Inr (active_erase (sd_raster_y (slices ! k)) active)"
      by (simp add: 2(2) sweep_step_def end_event_def)
    moreover have "?clear (e # rest) \<longleftrightarrow> ?clear rest" using 2 by (auto simp: start_end_events)
    ultimately show ?thesis by simp
  qed
qed

definition rectangles_apart :: "slice_descriptor list \<Rightarrow> bool" where
  "rectangles_apart slices \<longleftrightarrow>
     (\<forall>i < length slices. \<forall>j < length slices. i \<noteq> j \<longrightarrow> x_apart (slices ! i) (slices ! j) \<or> y_apart (slices ! i) (slices ! j))"

lemma sweep_correct:
  assumes "set events = all_events slices" and "distinct events" and "sides_ok slices"
  shows "is_ok (fold_result (sweep_step slices) (sort events) []) \<longleftrightarrow> rectangles_apart slices"
proof -
  have "sweep_inv slices (set []) []" by (simp add: sweep_inv_def live_def)
  from sweep_iff [OF _ _ _ assms(3) this, of "sort events"] assms(1,2)
  have "is_ok (fold_result (sweep_step slices) (sort events) []) \<longleftrightarrow>
    (\<forall>j < length slices. \<forall>i < length slices. start_event slices i < start_event slices j \<longrightarrow>
      \<not> end_event slices i < start_event slices j \<longrightarrow> y_apart (slices ! i) (slices ! j))"
    by (auto simp: all_events_def)
  also have "\<dots> \<longleftrightarrow> rectangles_apart slices"
  proof
    assume *: "\<forall>j < length slices. \<forall>i < length slices. start_event slices i < start_event slices j \<longrightarrow>
      \<not> end_event slices i < start_event slices j \<longrightarrow> y_apart (slices ! i) (slices ! j)"
    have "x_apart (slices ! i) (slices ! j) \<or> y_apart (slices ! i) (slices ! j)"
      if "i < length slices" "j < length slices" "i \<noteq> j" for i j
    proof -
      have "start_event slices i < start_event slices j \<or> start_event slices j < start_event slices i"
        using that(3) start_end_events(1) by (meson linorder_neqE)
      with * that(1,2) end_before_start show ?thesis by (auto simp: x_apart_def y_apart_def)
    qed
    then show "rectangles_apart slices" by (simp add: rectangles_apart_def)
  next
    assume apart: "rectangles_apart slices"
    have "y_apart (slices ! i) (slices ! j)"
      if "i < length slices" "j < length slices" "start_event slices i < start_event slices j"
        "\<not> end_event slices i < start_event slices j" for i j
    proof -
      have "sd_raster_x (slices ! j) < x_end (slices ! i)" using that(4) end_before_start by (simp add: not_le)
      moreover have "sd_raster_x (slices ! i) \<le> sd_raster_x (slices ! j)" by (rule start_before_start [OF that(3)])
      moreover have "sd_raster_x (slices ! j) < x_end (slices ! j)" using assms(3) that(2) by (simp add: sides_ok_def)
      ultimately have "\<not> x_apart (slices ! i) (slices ! j)" by (auto simp: x_apart_def not_le)
      moreover have "i \<noteq> j" using that(3) by auto
      ultimately show ?thesis using apart that(1,2) by (auto simp: rectangles_apart_def)
    qed
    then show "\<forall>j < length slices. \<forall>i < length slices. start_event slices i < start_event slices j \<longrightarrow>
      \<not> end_event slices i < start_event slices j \<longrightarrow> y_apart (slices ! i) (slices ! j)" by blast
  qed
  finally show ?thesis .
qed

subsection \<open>Covered cells\<close>

definition slice_area :: "slice_descriptor \<Rightarrow> nat" where
  "slice_area sl = unat (sd_raster_width sl) * unat (sd_raster_height sl)"

definition cell_count :: "stream_parameters \<Rightarrow> nat" where
  "cell_count stream = unat (sp_num_h_slices stream) * unat (sp_num_v_slices stream)"

text \<open>A rectangle inside the raster, small enough where the format limits the size of slices.\<close>

definition valid_raster :: "stream_parameters \<Rightarrow> slice_descriptor \<Rightarrow> bool" where
  "valid_raster stream sl \<longleftrightarrow>
     sd_raster_width sl \<noteq> 0 \<and> sd_raster_height sl \<noteq> 0 \<and>
     unat (sd_raster_x sl) + unat (sd_raster_width sl) \<le> unat (sp_num_h_slices stream) \<and>
     unat (sd_raster_y sl) + unat (sd_raster_height sl) \<le> unat (sp_num_v_slices stream) \<and>
     (requires_version3_parallel_slice_limit (sp_version stream) (sp_width stream) (sp_height stream) \<longrightarrow>
        slice_area sl \<le> cell_count stream div 4)"

definition raster_cells :: "slice_descriptor \<Rightarrow> (nat \<times> nat) set" where
  "raster_cells sl =
     {unat (sd_raster_x sl)..<unat (sd_raster_x sl) + unat (sd_raster_width sl)} \<times>
     {unat (sd_raster_y sl)..<unat (sd_raster_y sl) + unat (sd_raster_height sl)}"

definition raster_grid :: "stream_parameters \<Rightarrow> (nat \<times> nat) set" where
  "raster_grid stream = {..<unat (sp_num_h_slices stream)} \<times> {..<unat (sp_num_v_slices stream)}"

lemma unat_area: "unat (ucast (a :: u32) * ucast (b :: u32) :: u64) = unat a * unat b"
proof -
  have "unat a * unat b < 2 ^ 32 * 2 ^ 32"
    using unat_bound [of a] unat_bound [of b] by (intro mult_strict_mono) simp_all
  then show ?thesis by (subst unat_mult_bounded) simp_all
qed

lemma extent_within_iff:
  fixes x w lim :: u32
  shows "\<not> (lim < x \<or> lim - x < w) \<longleftrightarrow> unat x + unat w \<le> unat lim"
proof (cases "lim < x")
  case True
  then show ?thesis by (simp add: word_less_nat_alt)
next
  case False
  then have le: "unat x \<le> unat lim" by (simp add: word_less_nat_alt)
  then have "unat (lim - x) = unat lim - unat x" by (rule unat_diff_bounded)
  with False le show ?thesis by (auto simp: word_less_nat_alt)
qed

text \<open>The two events of each slice.\<close>

fun slice_events :: "nat \<Rightarrow> slice_descriptor list \<Rightarrow> sweep_event list" where
  "slice_events position [] = []"
| "slice_events position (sl # slices) =
     SweepEvent (sd_raster_x sl) position True # SweepEvent (x_end sl) position False # slice_events (Suc position) slices"

lemma make_slice_error_located: "has_slice_index (st_location (make_slice_error code i))"
  by (simp add: make_slice_error_def set_slice_location_if_missing_def make_error_def)

lemma scan_slice_invalid:
  assumes "\<not> valid_raster stream sl"
  shows "\<exists>e. scan_slice stream (position, sl) st = Inl e \<and> has_slice_index (st_location e)"
proof -
  obtain c x ev where st: "st = (c, x, ev)" by (cases st)
  let ?out = "sp_num_h_slices stream < sd_raster_x sl \<or> sp_num_v_slices stream < sd_raster_y sl
          \<or> sp_num_h_slices stream - sd_raster_x sl < sd_raster_width sl
          \<or> sp_num_v_slices stream - sd_raster_y sl < sd_raster_height sl"
  let ?large = "requires_version3_parallel_slice_limit (sp_version stream) (sp_width stream) (sp_height stream)
          \<and> (ucast (sp_num_h_slices stream) * ucast (sp_num_v_slices stream) :: u64) div 4
              < ucast (sd_raster_width sl) * ucast (sd_raster_height sl)"
  have "?out \<longleftrightarrow> \<not> (unat (sd_raster_x sl) + unat (sd_raster_width sl) \<le> unat (sp_num_h_slices stream) \<and>
      unat (sd_raster_y sl) + unat (sd_raster_height sl) \<le> unat (sp_num_v_slices stream))"
    unfolding extent_within_iff [symmetric] by blast
  moreover have "?large \<longleftrightarrow> \<not> (requires_version3_parallel_slice_limit (sp_version stream) (sp_width stream) (sp_height stream) \<longrightarrow>
      slice_area sl \<le> cell_count stream div 4)"
    by (auto simp: word_less_nat_alt unat_div unat_area slice_area_def cell_count_def)
  ultimately have "(sd_raster_width sl = 0 \<or> sd_raster_height sl = 0) \<or> ?out \<or> ?large"
    using assms unfolding valid_raster_def by blast
  then show ?thesis unfolding st scan_slice_def Let_def prod.case by (auto simp: make_slice_error_located)
qed

lemma scan_slice_valid:
  assumes "valid_raster stream sl" and "unat c \<le> cell_count stream"
  shows "scan_slice stream (position, sl) (c, x, ev) =
    (let ev = ev @ [SweepEvent (sd_raster_x sl) position True, SweepEvent (x_end sl) position False] in
     if cell_count stream < unat c + slice_area sl then Inr (c, True, ev)
     else Inr (c + ucast (sd_raster_width sl) * ucast (sd_raster_height sl), x, ev))"
proof -
  let ?cells = "ucast (sp_num_h_slices stream) * ucast (sp_num_v_slices stream) :: u64"
  let ?area = "ucast (sd_raster_width sl) * ucast (sd_raster_height sl) :: u64"
  have in_range: "\<not> (sp_num_h_slices stream < sd_raster_x sl \<or> sp_num_v_slices stream < sd_raster_y sl
          \<or> sp_num_h_slices stream - sd_raster_x sl < sd_raster_width sl
          \<or> sp_num_v_slices stream - sd_raster_y sl < sd_raster_height sl)"
    using assms(1) unfolding valid_raster_def extent_within_iff [symmetric] by blast
  have small: "\<not> (requires_version3_parallel_slice_limit (sp_version stream) (sp_width stream) (sp_height stream) \<and> ?cells div 4 < ?area)"
    using assms(1) by (auto simp: valid_raster_def word_less_nat_alt unat_div unat_area slice_area_def cell_count_def)
  have nz: "\<not> (sd_raster_width sl = 0 \<or> sd_raster_height sl = 0)" using assms(1) by (simp add: valid_raster_def)
  have "unat (?cells - c) = cell_count stream - unat c"
    using assms(2) by (subst unat_diff_bounded) (simp_all add: unat_area cell_count_def)
  then have "?cells - c < ?area \<longleftrightarrow> cell_count stream < unat c + slice_area sl"
    using assms(2) by (auto simp: word_less_nat_alt unat_area slice_area_def)
  then show ?thesis
    unfolding scan_slice_def prod.case Let_def if_not_P [OF nz] if_not_P [OF in_range] if_not_P [OF small] x_end_def by simp
qed

lemma unat_area_sum:
  assumes "unat c + slice_area sl \<le> cell_count stream"
  shows "unat (c + ucast (sd_raster_width sl) * ucast (sd_raster_height sl) :: u64) = unat c + slice_area sl"
proof -
  have "cell_count stream < 2 ^ 64"
    using unat_bound [of "ucast (sp_num_h_slices stream) * ucast (sp_num_v_slices stream) :: u64"]
    by (simp add: unat_area cell_count_def)
  with assms show ?thesis by (subst unat_add_bounded) (simp_all add: unat_area slice_area_def)
qed

lemma scan_invalid:
  assumes "sl \<in> set slices" and "\<not> valid_raster stream sl"
  shows "\<exists>e. fold_result (scan_slice stream) (enumerate k slices) st = Inl e \<and> has_slice_index (st_location e)"
  using assms(1)
proof (induction slices arbitrary: k st)
  case (Cons s slices)
  show ?case
  proof (cases "scan_slice stream (k, s) st")
    case (Inl e)
    then have "\<not> valid_raster stream s \<or> has_slice_index (st_location e)"
      by (cases st) (auto simp: scan_slice_def Let_def make_slice_error_located split: if_splits)
    with Inl scan_slice_invalid [of stream s k st] show ?thesis by (auto simp: is_ok_def)
  next
    case (Inr st')
    with scan_slice_invalid [of stream s k st] have "valid_raster stream s" by force
    with assms(2) Cons.prems have "sl \<in> set slices" by auto
    from Cons.IH [OF this] Inr show ?thesis by simp
  qed
qed simp

text \<open>The scan of valid rectangles: the covered area is exact unless the raster was exceeded.\<close>

lemma scan_valid:
  assumes "\<forall>sl \<in> set slices. valid_raster stream sl" and "unat c \<le> cell_count stream"
  shows "\<exists>c' x'. fold_result (scan_slice stream) (enumerate k slices) (c, x, ev) = Inr (c', x', ev @ slice_events k slices) \<and>
    (if x \<or> cell_count stream < unat c + sum_list (map slice_area slices) then x'
     else \<not> x' \<and> unat c' = unat c + sum_list (map slice_area slices))"
  using assms
proof (induction slices arbitrary: k c x ev)
  case Nil
  then show ?case by simp
next
  case (Cons sl slices)
  let ?ev = "ev @ [SweepEvent (sd_raster_x sl) k True, SweepEvent (x_end sl) k False]"
  from Cons.prems have valid: "valid_raster stream sl" "\<forall>sl \<in> set slices. valid_raster stream sl" by simp_all
  note step = scan_slice_valid [OF valid(1) Cons.prems(2), of k x ev, unfolded Let_def]
  show ?case
  proof (cases "cell_count stream < unat c + slice_area sl")
    case True
    from Cons.IH [OF valid(2) Cons.prems(2), of "Suc k" True ?ev] obtain c' x' where
      "fold_result (scan_slice stream) (enumerate (Suc k) slices) (c, True, ?ev) = Inr (c', x', ?ev @ slice_events (Suc k) slices)" "x'"
      by auto
    with True step show ?thesis by (intro exI [of _ c'] exI [of _ x']) simp
  next
    case False
    let ?c = "c + ucast (sd_raster_width sl) * ucast (sd_raster_height sl)"
    have sum: "unat ?c = unat c + slice_area sl" using False by (intro unat_area_sum [of _ _ stream]) simp
    with False have le: "unat ?c \<le> cell_count stream" by simp
    from Cons.IH [OF valid(2) le, of "Suc k" x ?ev] obtain c' x' where
      rest: "fold_result (scan_slice stream) (enumerate (Suc k) slices) (?c, x, ?ev) = Inr (c', x', ?ev @ slice_events (Suc k) slices)"
      "if x \<or> cell_count stream < unat ?c + sum_list (map slice_area slices) then x'
       else \<not> x' \<and> unat c' = unat ?c + sum_list (map slice_area slices)" by blast
    have "fold_result (scan_slice stream) (enumerate k (sl # slices)) (c, x, ev) = Inr (c', x', ev @ slice_events k (sl # slices))"
      using rest(1) step False by simp
    with rest(2) show ?thesis unfolding sum by (intro exI [of _ c'] exI [of _ x']) (simp add: add.assoc)
  qed
qed

lemma set_slice_events:
  "set (slice_events k slices) =
     {SweepEvent (sd_raster_x (slices ! i)) (k + i) True |i. i < length slices} \<union>
     {SweepEvent (x_end (slices ! i)) (k + i) False |i. i < length slices}"
proof (induction slices arbitrary: k)
  case (Cons sl slices)
  have split: "{f i |i. i < Suc n} = insert (f 0) {f (Suc i) |i. i < n}" for f :: "nat \<Rightarrow> sweep_event" and n
    by (auto simp: less_Suc_eq_0_disj)
  show ?case unfolding slice_events.simps list.set Cons.IH length_Cons split by auto
qed simp

lemma distinct_slice_events: "distinct (slice_events k slices)"
  by (induction slices arbitrary: k) (auto simp: set_slice_events)

lemma all_slice_events: "set (slice_events 0 slices) = all_events slices"
  by (auto simp: set_slice_events all_events_def start_event_def end_event_def)

lemma valid_ends:
  assumes "valid_raster stream sl"
  shows "unat (x_end sl) = unat (sd_raster_x sl) + unat (sd_raster_width sl)"
    and "unat (y_end sl) = unat (sd_raster_y sl) + unat (sd_raster_height sl)"
    and "sd_raster_x sl < x_end sl" and "sd_raster_y sl < y_end sl"
proof -
  from assms have *: "unat (sd_raster_x sl) + unat (sd_raster_width sl) < 2 ^ 32" "unat (sd_raster_y sl) + unat (sd_raster_height sl) < 2 ^ 32"
    "0 < unat (sd_raster_width sl)" "0 < unat (sd_raster_height sl)"
    using unat_bound [of "sp_num_h_slices stream"] unat_bound [of "sp_num_v_slices stream"]
    by (auto simp: valid_raster_def unat_gt_0)
  then show x: "unat (x_end sl) = unat (sd_raster_x sl) + unat (sd_raster_width sl)"
    and y: "unat (y_end sl) = unat (sd_raster_y sl) + unat (sd_raster_height sl)"
    unfolding x_end_def y_end_def by (simp_all add: unat_add_bounded)
  from * x y show "sd_raster_x sl < x_end sl" "sd_raster_y sl < y_end sl" by (simp_all add: word_less_nat_alt)
qed

lemma valid_sides: "\<forall>sl \<in> set slices. valid_raster stream sl \<Longrightarrow> sides_ok slices"
  using valid_ends by (auto simp: sides_ok_def)

lemma apart_cells:
  assumes "valid_raster stream a" and "valid_raster stream b"
  shows "x_apart a b \<or> y_apart a b \<longleftrightarrow> raster_cells a \<inter> raster_cells b = {}"
proof -
  have disjoint: "{m..<n} \<inter> {m'..<n'} = {} \<longleftrightarrow> n \<le> m' \<or> n' \<le> m" if "m < n" "m' < n'" for m n m' n' :: nat
    using that by (auto simp: disjoint_iff)
  have "0 < unat (sd_raster_width a)" "0 < unat (sd_raster_height a)" "0 < unat (sd_raster_width b)" "0 < unat (sd_raster_height b)"
    using assms by (auto simp: valid_raster_def unat_gt_0)
  then show ?thesis
    by (auto simp: raster_cells_def x_apart_def y_apart_def word_le_nat_alt valid_ends [OF assms(1)] valid_ends [OF assms(2)]
        Times_Int_Times disjoint)
qed

lemma rectangles_apart_cells:
  assumes "\<forall>sl \<in> set slices. valid_raster stream sl"
  shows "rectangles_apart slices \<longleftrightarrow>
    (\<forall>i < length slices. \<forall>j < length slices. i \<noteq> j \<longrightarrow> raster_cells (slices ! i) \<inter> raster_cells (slices ! j) = {})"
proof -
  have "x_apart (slices ! i) (slices ! j) \<or> y_apart (slices ! i) (slices ! j) \<longleftrightarrow>
      raster_cells (slices ! i) \<inter> raster_cells (slices ! j) = {}" if "i < length slices" "j < length slices" for i j
    using that assms by (intro apart_cells [of stream]) simp_all
  then show ?thesis unfolding rectangles_apart_def by blast
qed

lemma card_raster_cells: "card (raster_cells sl) = slice_area sl"
  by (simp add: raster_cells_def slice_area_def card_cartesian_product)

lemma card_raster_grid: "card (raster_grid stream) = cell_count stream"
  by (simp add: raster_grid_def cell_count_def card_cartesian_product)

lemma raster_cells_grid: "valid_raster stream sl \<Longrightarrow> raster_cells sl \<subseteq> raster_grid stream"
  by (auto simp: raster_cells_def raster_grid_def valid_raster_def)

lemma finite_raster: "finite (raster_grid stream)" "finite (raster_cells sl)"
  by (simp_all add: raster_grid_def raster_cells_def)

text \<open>Disjoint rectangles cover the raster exactly if their areas sum up to it.\<close>

lemma apart_area:
  assumes valid: "\<forall>sl \<in> set slices. valid_raster stream sl" and apart: "rectangles_apart slices"
  shows "sum_list (map slice_area slices) \<le> cell_count stream"
    and "sum_list (map slice_area slices) = cell_count stream \<longleftrightarrow>
      raster_grid stream \<subseteq> (\<Union>i < length slices. raster_cells (slices ! i))"
proof -
  let ?U = "\<Union>i < length slices. raster_cells (slices ! i)"
  have "\<forall>i \<in> {..<length slices}. \<forall>j \<in> {..<length slices}. i \<noteq> j \<longrightarrow> raster_cells (slices ! i) \<inter> raster_cells (slices ! j) = {}"
    using apart unfolding rectangles_apart_cells [OF valid] by simp
  then have "card ?U = (\<Sum>i < length slices. card (raster_cells (slices ! i)))"
    by (intro card_UN_disjoint) (simp_all add: finite_raster)
  then have card: "card ?U = sum_list (map slice_area slices)"
    by (simp add: card_raster_cells sum_list_sum_nth atLeast0LessThan)
  have sub: "?U \<subseteq> raster_grid stream" using valid raster_cells_grid by fastforce
  then show "sum_list (map slice_area slices) \<le> cell_count stream"
    using card_mono [OF finite_raster(1) sub] by (simp add: card card_raster_grid)
  show "sum_list (map slice_area slices) = cell_count stream \<longleftrightarrow> raster_grid stream \<subseteq> ?U"
  proof
    assume "sum_list (map slice_area slices) = cell_count stream"
    then have "?U = raster_grid stream" using card_subset_eq [OF finite_raster(1) sub] by (simp add: card card_raster_grid)
    then show "raster_grid stream \<subseteq> ?U" by simp
  next
    assume "raster_grid stream \<subseteq> ?U"
    with sub have "?U = raster_grid stream" by (rule subset_antisym)
    with card show "sum_list (map slice_area slices) = cell_count stream" by (simp add: card_raster_grid)
  qed
qed

text \<open>What the check returns, by cases.\<close>

lemma coverage_invalid:
  assumes "sp_num_h_slices stream \<noteq> 0" "sp_num_v_slices stream \<noteq> 0" "length slices \<le> sweep_events_max_size div 2"
    and "sl \<in> set slices" "\<not> valid_raster stream sl"
  shows "\<exists>e. validate_slice_raster_coverage stream slices = Inl e \<and> has_slice_index (st_location e)"
  using assms(1-3) scan_invalid [OF assms(4,5), of 0 "(0, False, [])"] by (auto simp: validate_slice_raster_coverage_def)

lemma sweep_error_located:
  "fold_result (sweep_step slices) events active = Inl e \<Longrightarrow> has_slice_index (st_location e)"
  by (induction events arbitrary: active)
    (auto simp: sweep_step_def Let_def result_simps make_slice_error_located split: if_splits)

lemma coverage_valid:
  assumes "sp_num_h_slices stream \<noteq> 0" "sp_num_v_slices stream \<noteq> 0" "length slices \<le> sweep_events_max_size div 2"
    and valid: "\<forall>sl \<in> set slices. valid_raster stream sl"
  shows "if \<not> rectangles_apart slices
    then \<exists>e. validate_slice_raster_coverage stream slices = Inl e \<and> has_slice_index (st_location e)
    else validate_slice_raster_coverage stream slices =
      (if raster_grid stream \<subseteq> (\<Union>i < length slices. raster_cells (slices ! i)) then Inr () else Inl (make_error SyntaxError))"
proof -
  from scan_valid [OF valid, of 0 0 False "[]"] obtain c x where
    scan: "fold_result (scan_slice stream) (enumerate 0 slices) (0, False, []) = Inr (c, x, slice_events 0 slices)"
    and area: "if cell_count stream < sum_list (map slice_area slices) then x
      else \<not> x \<and> unat c = sum_list (map slice_area slices)" by auto
  have limits: "\<not> (sp_num_h_slices stream = 0 \<or> sp_num_v_slices stream = 0)" "\<not> sweep_events_max_size div 2 < length slices"
    using assms(1-3) by simp_all
  let ?cells = "ucast (sp_num_h_slices stream) * ucast (sp_num_v_slices stream) :: u64"
  have check: "validate_slice_raster_coverage stream slices =
      bind_result (fold_result (sweep_step slices) (sort (slice_events 0 slices)) [])
        (\<lambda>active. if x \<or> c \<noteq> ?cells then Inl (make_error SyntaxError) else Inr ())"
    unfolding validate_slice_raster_coverage_def if_not_P [OF limits(1)] if_not_P [OF limits(2)] scan by simp
  note sweep = sweep_correct [OF all_slice_events distinct_slice_events valid_sides [OF valid]]
  show ?thesis
  proof (cases "rectangles_apart slices")
    case False
    then obtain e where "fold_result (sweep_step slices) (sort (slice_events 0 slices)) [] = Inl e"
      using sweep by (cases "fold_result (sweep_step slices) (sort (slice_events 0 slices)) []") auto
    with False check sweep_error_located [OF this] show ?thesis by simp
  next
    case True
    then obtain active where active: "fold_result (sweep_step slices) (sort (slice_events 0 slices)) [] = Inr active"
      using sweep by (auto simp: is_ok_iff)
    note areas = apart_area [OF valid True]
    have "\<not> x" "unat c = sum_list (map slice_area slices)" using area areas(1) by (auto split: if_splits)
    then have "x \<or> c \<noteq> ?cells \<longleftrightarrow> sum_list (map slice_area slices) \<noteq> cell_count stream"
      by (simp add: word_unat_eq_iff unat_area cell_count_def)
    with True active check areas(2) show ?thesis by simp
  qed
qed

text \<open>
  C33: the sweep accepts exactly the tilings of the raster. A list of slices passes if and only if the grid is not
  empty, every rectangle is nonempty, inside the raster and within the area limit of version 3, and every cell of the
  raster lies in exactly one of the rectangles.
\<close>

theorem raster_coverage_iff:
  assumes "length slices \<le> sweep_events_max_size div 2"
  shows "validate_slice_raster_coverage stream slices = Inr () \<longleftrightarrow>
    sp_num_h_slices stream \<noteq> 0 \<and> sp_num_v_slices stream \<noteq> 0 \<and> (\<forall>sl \<in> set slices. valid_raster stream sl) \<and>
    (\<forall>cell \<in> raster_grid stream. \<exists>!i. i < length slices \<and> cell \<in> raster_cells (slices ! i))"
    (is "?ok \<longleftrightarrow> ?h \<and> ?v \<and> ?valid \<and> ?tiled")
proof (cases "?h \<and> ?v \<and> ?valid")
  case False
  then have "\<not> ?ok" using coverage_invalid [OF _ _ assms] by (cases "?h \<and> ?v") (fastforce simp: validate_slice_raster_coverage_def)+
  with False show ?thesis by blast
next
  case True
  then have hv: "?h" "?v" and valid: "?valid" by simp_all
  have "?tiled \<longleftrightarrow> rectangles_apart slices \<and> raster_grid stream \<subseteq> (\<Union>i < length slices. raster_cells (slices ! i))"
  proof
    assume tiled: ?tiled
    have "raster_cells (slices ! i) \<inter> raster_cells (slices ! j) = {}" if "i < length slices" "j < length slices" "i \<noteq> j" for i j
    proof (rule ccontr)
      assume "raster_cells (slices ! i) \<inter> raster_cells (slices ! j) \<noteq> {}"
      then obtain cell where cell: "cell \<in> raster_cells (slices ! i)" "cell \<in> raster_cells (slices ! j)" by blast
      with that(1) valid raster_cells_grid have "cell \<in> raster_grid stream" by (meson nth_mem subsetD)
      with tiled that cell show False by blast
    qed
    then have "rectangles_apart slices" unfolding rectangles_apart_cells [OF valid] by blast
    with tiled show "rectangles_apart slices \<and> raster_grid stream \<subseteq> (\<Union>i < length slices. raster_cells (slices ! i))" by blast
  next
    assume "rectangles_apart slices \<and> raster_grid stream \<subseteq> (\<Union>i < length slices. raster_cells (slices ! i))"
    then show ?tiled unfolding rectangles_apart_cells [OF valid] by blast
  qed
  with coverage_valid [OF hv assms valid] hv valid show ?thesis by (auto split: if_splits)
qed

text \<open>
  C38: the status that the frame parser takes for a frame with missing slices is returned for exactly that: the
  rectangles are valid and do not overlap, but leave cells of the raster uncovered.
\<close>

theorem incomplete_coverage_iff:
  assumes "length slices \<le> sweep_events_max_size div 2"
  shows "(\<exists>e. validate_slice_raster_coverage stream slices = Inl e \<and> is_incomplete_slice_raster_coverage_status e) \<longleftrightarrow>
    sp_num_h_slices stream \<noteq> 0 \<and> sp_num_v_slices stream \<noteq> 0 \<and> (\<forall>sl \<in> set slices. valid_raster stream sl) \<and>
    (\<forall>i < length slices. \<forall>j < length slices. i \<noteq> j \<longrightarrow> raster_cells (slices ! i) \<inter> raster_cells (slices ! j) = {}) \<and>
    (\<exists>cell \<in> raster_grid stream. \<forall>sl \<in> set slices. cell \<notin> raster_cells sl)"
    (is "?incomplete \<longleftrightarrow> ?h \<and> ?v \<and> ?valid \<and> ?disjoint \<and> ?missing")
proof (cases "?h \<and> ?v \<and> ?valid")
  case False
  have "\<not> ?incomplete"
  proof (cases "?h \<and> ?v")
    case True
    with False obtain sl where "sl \<in> set slices" "\<not> valid_raster stream sl" by blast
    with coverage_invalid [OF _ _ assms] True show ?thesis
      by (fastforce simp: is_incomplete_slice_raster_coverage_status_def)
  qed (auto simp: validate_slice_raster_coverage_def is_incomplete_slice_raster_coverage_status_def make_error_def)
  with False show ?thesis by blast
next
  case True
  then have hv: "?h" "?v" and valid: "?valid" by simp_all
  have incomplete: "is_incomplete_slice_raster_coverage_status (make_error SyntaxError)"
    by (simp add: is_incomplete_slice_raster_coverage_status_def make_error_def no_location_def)
  have "?missing \<longleftrightarrow> \<not> raster_grid stream \<subseteq> (\<Union>i < length slices. raster_cells (slices ! i))"
    by (fastforce simp: in_set_conv_nth)
  moreover have "?disjoint \<longleftrightarrow> rectangles_apart slices" using rectangles_apart_cells [OF valid] by blast
  moreover note result = coverage_valid [OF hv assms valid]
  have "?incomplete \<longleftrightarrow> rectangles_apart slices \<and> \<not> raster_grid stream \<subseteq> (\<Union>i < length slices. raster_cells (slices ! i))"
  proof (cases "rectangles_apart slices")
    case False
    with result show ?thesis by (auto simp: is_incomplete_slice_raster_coverage_status_def)
  next
    case True
    then show ?thesis using result incomplete by simp
  qed
  ultimately show ?thesis using hv valid by blast
qed

definition raster_slice :: "u32 \<Rightarrow> u32 \<Rightarrow> u32 \<Rightarrow> u32 \<Rightarrow> slice_descriptor" where
  "raster_slice x y w h = new_slice_descriptor\<lparr>sd_raster_x := x, sd_raster_y := y, sd_raster_width := w, sd_raster_height := h\<rparr>"

definition raster_stream :: stream_parameters where
  "raster_stream = new_stream_parameters\<lparr>sp_num_h_slices := 2, sp_num_v_slices := 2\<rparr>"

theorem raster_coverage_iff_witness:
  "validate_slice_raster_coverage raster_stream [raster_slice 1 0 1 2, raster_slice 0 0 1 2] = Inr ()"
proof -
  let ?slices = "[raster_slice 1 0 1 2, raster_slice 0 0 1 2]"
  have cells: "cell \<in> raster_cells (raster_slice 1 0 1 2) \<longleftrightarrow> fst cell = 1 \<and> snd cell < 2"
    "cell \<in> raster_cells (raster_slice 0 0 1 2) \<longleftrightarrow> fst cell = 0 \<and> snd cell < 2" for cell
    by (cases cell; auto simp: raster_cells_def raster_slice_def)+
  have two: "i < length ?slices \<longleftrightarrow> i = 0 \<or> i = 1" for i by auto
  have grid: "cell \<in> raster_grid raster_stream \<longleftrightarrow> (fst cell = 0 \<or> fst cell = 1) \<and> snd cell < 2" for cell
    by (cases cell) (auto simp: raster_grid_def raster_stream_def)
  have "\<exists>!i. i < length ?slices \<and> cell \<in> raster_cells (?slices ! i)" if "cell \<in> raster_grid raster_stream" for cell
  proof (rule ex1I [of _ "1 - fst cell"])
    show "1 - fst cell < length ?slices \<and> cell \<in> raster_cells (?slices ! (1 - fst cell))"
      using that unfolding grid by (elim conjE disjE) (simp_all add: cells)
    show "i = 1 - fst cell" if "i < length ?slices \<and> cell \<in> raster_cells (?slices ! i)" for i
      using that unfolding two by (elim conjE disjE) (simp_all add: cells)
  qed
  moreover have "\<forall>sl \<in> set ?slices. valid_raster raster_stream sl"
    by (simp add: valid_raster_def raster_slice_def raster_stream_def new_stream_parameters_def
        requires_version3_parallel_slice_limit_def kVersion3CifPixelCount_def)
  moreover have "length ?slices \<le> sweep_events_max_size div 2" by (simp add: sweep_events_max_size_def)
  moreover have "sp_num_h_slices raster_stream \<noteq> 0" "sp_num_v_slices raster_stream \<noteq> 0" by (simp_all add: raster_stream_def)
  ultimately show ?thesis using raster_coverage_iff [of ?slices raster_stream] by blast
qed

theorem incomplete_coverage_iff_witness:
  "\<exists>e. validate_slice_raster_coverage raster_stream [raster_slice 1 0 1 2] = Inl e \<and>
     is_incomplete_slice_raster_coverage_status e"
proof -
  have "\<exists>cell \<in> raster_grid raster_stream. \<forall>sl \<in> set [raster_slice 1 0 1 2]. cell \<notin> raster_cells sl"
    by (intro bexI [of _ "(0, 0)"]) (simp_all add: raster_grid_def raster_stream_def raster_cells_def raster_slice_def)
  moreover have "\<forall>sl \<in> set [raster_slice 1 0 1 2]. valid_raster raster_stream sl"
    by (simp add: valid_raster_def raster_slice_def raster_stream_def new_stream_parameters_def
        requires_version3_parallel_slice_limit_def kVersion3CifPixelCount_def)
  moreover have "length [raster_slice 1 0 1 2] \<le> sweep_events_max_size div 2" by (simp add: sweep_events_max_size_def)
  ultimately show ?thesis using incomplete_coverage_iff [of "[raster_slice 1 0 1 2]" raster_stream]
    by (simp add: raster_stream_def)
qed

end
