(* ===== verification/Slice_Encoder.thy ===== *)
theory Slice_Encoder
  imports Golomb_Slice Frame_Validator Encoder_Profile
begin

text \<open>
  The encoder of a slice (\<^verbatim>\<open>src/src/codec/slice_encoder.cpp\<close>, class \<open>SliceEncoder\<close>): the checks of the
  stream, the payload of a frame without slice structure, and the assembly of a slice from its header, its
  samples and its footer. The stream and the kernels are the members of the class; the frame is the view of
  the caller's planes together with the memory they point to. An operation that fails leaves the output
  vector and the slice state of the caller as they were, so its model returns the error alone.
\<close>

subsection \<open>The stream\<close>

definition validate_encoder_stream :: "stream_parameters \<Rightarrow> unit result" where
  "validate_encoder_stream stream =
     (if (sp_entropy_mode stream \<noteq> RangeMode \<and> sp_entropy_mode stream \<noteq> GolombRiceMode)
         \<or> \<not> is_supported_syntax_colorspace (sp_colorspace_type stream)
         \<or> \<not> is_supported_encoder_bit_depth (sp_bits_per_raw_sample stream)
      then Inl (make_error UnsupportedFeature)
      else if sp_entropy_mode stream = GolombRiceMode \<and> \<not> is_supported_encoder_bit_depth (sp_bits_per_raw_sample stream)
      then Inl (make_error UnsupportedFeature)
      else if has_invalid_rgb_geometry (sp_colorspace_type stream = 1) (sp_chroma_planes stream)
                (sp_log2_h_chroma_subsample stream) (sp_log2_v_chroma_subsample stream)
      then Inl (make_error InvalidArgument)
      else if has_subsampling_without_chroma (sp_chroma_planes stream)
                (sp_log2_h_chroma_subsample stream) (sp_log2_v_chroma_subsample stream)
      then Inl (make_error InvalidArgument)
      else if \<not> is_supported_chroma_subsampling (sp_log2_h_chroma_subsample stream) (sp_log2_v_chroma_subsample stream)
      then Inl (make_error UnsupportedFeature)
      else if length (sp_quant_table_sets stream) \<noteq> 1 then Inl (make_error UnsupportedFeature)
      else if sp_initial_states stream \<noteq> [] \<and> length (sp_initial_states stream) \<noteq> length (sp_quant_table_sets stream)
      then Inl (make_error InvalidState)
      else
        let context_count = qt_context_count (sp_quant_table_sets stream ! 0) in
        if context_count = 0 then Inl (make_error InvalidState)
        else if sp_initial_states stream \<noteq> [] \<and> sp_initial_states stream ! 0 \<noteq> []
           \<and> length (sp_initial_states stream ! 0) \<noteq> context_count
        then Inl (make_error InvalidState)
        else Inr ())"

text \<open>The header the encoder gives a slice that covers the whole grid.\<close>

definition whole_frame_header :: "stream_parameters \<Rightarrow> slice_header_values" where
  "whole_frame_header stream =
     \<lparr>hv_x = 0, hv_y = 0, hv_width = sp_num_h_slices stream, hv_height = sp_num_v_slices stream,
      hv_quant_table_set_indexes = replicate (quant_table_set_index_count stream) 0,
      hv_picture_structure = 0, hv_sar_num = 0, hv_sar_den = 0\<rparr>"

subsection \<open>A frame without slice structure\<close>

text \<open>The bits of a Golomb-Rice coded slice, padded to a byte.\<close>

definition golomb_rice_content ::
  "stream_parameters \<Rightarrow> codec_kernels \<Rightarrow> plane_window list \<Rightarrow> frame_memory \<Rightarrow> slice_state \<Rightarrow> (bytes \<times> slice_state) result" where
  "golomb_rice_content stream kernels window memory state =
     bind_result (encode_golomb_rice_samples stream kernels window memory state new_bit_writer) (\<lambda>(state, bits).
     bind_result (bw_byte_align_zero bits) (\<lambda>bits.
     bind_result (bw_finalize bits) (\<lambda>(payload, bits). Inr (payload, state))))"

definition encode_content :: "stream_parameters \<Rightarrow> codec_kernels \<Rightarrow> frame_view \<Rightarrow> frame_memory \<Rightarrow> bytes result" where
  "encode_content stream kernels input memory =
     bind_result (validate_encoder_stream stream) (\<lambda>_.
     bind_result (validate_input stream input) (\<lambda>_.
     bind_result (apply_raster stream (whole_frame_header stream) new_slice_descriptor) (\<lambda>descriptor.
     bind_result (validate_input_window stream input descriptor) (\<lambda>window.
     bind_result (ss_reset_stream_window stream window new_slice_state) (\<lambda>state.
       if sp_entropy_mode stream = GolombRiceMode
       then bind_result (golomb_rice_content stream kernels window memory state) (\<lambda>(payload, state). Inr payload)
       else
         let range_context_bank_count =
               (if 3 \<le> sp_version stream then quant_table_set_index_count stream else coded_plane_count stream);
             context_counts = replicate range_context_bank_count (qt_context_count (sp_quant_table_sets stream ! 0));
             initial_state_banks = replicate range_context_bank_count
               (if sp_initial_states stream = [] then [] else sp_initial_states stream ! 0)
         in bind_result (re_reset_banks_transition context_counts initial_state_banks (sp_state_transition stream)) (\<lambda>writer.
            bind_result (encode_samples stream kernels window memory state writer) (\<lambda>(state, writer).
            bind_result (re_finalize writer) (\<lambda>(payload, writer). Inr payload))))))))"

subsection \<open>The contexts of a range coded slice\<close>

text \<open>The loop over the banks: a context count and the initial states of each index slot.\<close>

definition slot_table_set_index :: "stream_parameters \<Rightarrow> u32 list \<Rightarrow> nat \<Rightarrow> nat" where
  "slot_table_set_index stream indexes bank = (if 3 \<le> sp_version stream then unat (indexes ! bank) else 0)"

definition slot_context_counts :: "stream_parameters \<Rightarrow> u32 list \<Rightarrow> nat \<Rightarrow> nat list" where
  "slot_context_counts stream indexes bank_count =
     map (\<lambda>bank. qt_context_count (sp_quant_table_sets stream ! slot_table_set_index stream indexes bank)) [0..<bank_count]"

definition slot_initial_states :: "stream_parameters \<Rightarrow> u32 list \<Rightarrow> nat \<Rightarrow> context_state_banks" where
  "slot_initial_states stream indexes bank_count =
     map (\<lambda>bank. if sp_initial_states stream = [] then []
                  else sp_initial_states stream ! slot_table_set_index stream indexes bank) [0..<bank_count]"

text \<open>The contexts saved from the previous frame take the place of the initial states.\<close>

definition saved_or_initial_states ::
  "nat list \<Rightarrow> context_state_banks \<Rightarrow> slice_state \<Rightarrow> context_state_banks result" where
  "saved_or_initial_states context_counts initial_state_banks state =
     (if has_range_contexts state then
        let saved_contexts = ss_range_contexts state in
        if length saved_contexts \<noteq> length context_counts then Inl (make_error InvalidState)
        else if list_ex (\<lambda>i. length (saved_contexts ! i) \<noteq> context_counts ! i) [0..<length saved_contexts]
        then Inl (make_error InvalidState)
        else Inr saved_contexts
      else Inr initial_state_banks)"

subsection \<open>A slice\<close>

text \<open>The range coded part before the samples: the keyframe flag of the first slice, and the header.\<close>

definition encode_slice_prefix ::
  "stream_parameters \<Rightarrow> slice_header_values \<Rightarrow> bool \<Rightarrow> bool \<Rightarrow> range_encoder result" where
  "encode_slice_prefix stream header write_keyframe keyframe =
     bind_result (re_reset_transition (sp_state_transition stream)) (\<lambda>writer.
     bind_result
       (if write_keyframe
        then bind_result (re_write_bool keyframe writer) (re_reconfigure_contexts [1] [])
        else Inr writer)
       (write_slice_header range_symbol_writer stream header))"

definition finish_golomb_rice_slice ::
  "stream_parameters \<Rightarrow> codec_kernels \<Rightarrow> plane_window list \<Rightarrow> frame_memory \<Rightarrow> slice_state \<Rightarrow> range_encoder \<Rightarrow>
     (bytes \<times> slice_state) result" where
  "finish_golomb_rice_slice stream kernels window memory working_state writer =
     bind_result (re_finalize writer) (\<lambda>(payload, writer).
     bind_result (golomb_rice_content stream kernels window memory working_state) (\<lambda>(content, working_state).
       if byte_vector_max_size - length payload < length content then Inl (make_error ResourceExhausted)
       else bind_result (append_footer stream 0 (payload @ content)) (\<lambda>payload. Inr (payload, working_state))))"

definition finish_range_slice ::
  "stream_parameters \<Rightarrow> codec_kernels \<Rightarrow> slice_header_values \<Rightarrow> plane_window list \<Rightarrow> frame_memory \<Rightarrow> slice_state \<Rightarrow>
     range_encoder \<Rightarrow> (bytes \<times> slice_state) result" where
  "finish_range_slice stream kernels header window memory working_state writer =
     (let range_context_bank_count =
            (if 3 \<le> sp_version stream then quant_table_set_index_count stream else coded_plane_count stream);
          indexes = hv_quant_table_set_indexes header;
          context_counts = slot_context_counts stream indexes range_context_bank_count
      in bind_result (saved_or_initial_states context_counts
                        (slot_initial_states stream indexes range_context_bank_count) working_state) (\<lambda>initial_state_banks.
         bind_result (re_reconfigure_contexts context_counts initial_state_banks writer) (\<lambda>writer.
         bind_result (encode_samples stream kernels window memory working_state writer) (\<lambda>(working_state, writer).
         bind_result (capture_encoder_contexts writer working_state) (\<lambda>working_state.
         bind_result (re_finalize_closed writer) (\<lambda>(payload, writer).
         bind_result (append_footer stream 0 payload) (\<lambda>payload. Inr (payload, working_state))))))))"

text \<open>The state a slice starts from: cleared by a keyframe, otherwise the one left by the previous frame.\<close>

definition reference_state :: "stream_parameters \<Rightarrow> bool \<Rightarrow> slice_state \<Rightarrow> slice_state result" where
  "reference_state stream keyframe state =
     (if keyframe then Inr (clear_entropy_state state)
      else if (if sp_entropy_mode stream = RangeMode then \<not> has_range_contexts state else \<not> has_golomb_rice_state state)
      then Inl (make_error InvalidState)
      else Inr state)"

definition encode_slice ::
  "stream_parameters \<Rightarrow> codec_kernels \<Rightarrow> frame_view \<Rightarrow> frame_memory \<Rightarrow> slice_header_values \<Rightarrow> bool \<Rightarrow> bool \<Rightarrow>
     slice_state \<Rightarrow> (bytes \<times> slice_state) result" where
  "encode_slice stream kernels input memory header write_keyframe keyframe state =
     bind_result (validate_encoder_stream stream) (\<lambda>_.
       if sp_version stream \<noteq> 3 then Inl (make_error UnsupportedFeature)
       else if write_keyframe \<and> \<not> keyframe \<and> sp_intra_only stream then Inl (make_error InvalidArgument)
       else
         bind_result (validate_input stream input) (\<lambda>_.
         bind_result (apply_raster stream header new_slice_descriptor) (\<lambda>descriptor.
         bind_result (validate_input_window stream input descriptor) (\<lambda>window.
         bind_result (reference_state stream keyframe state) (\<lambda>working_state.
         bind_result (ss_reset_stream_window stream window working_state) (\<lambda>working_state.
         bind_result (encode_slice_prefix stream header write_keyframe keyframe) (\<lambda>writer.
           if sp_entropy_mode stream = GolombRiceMode
           then finish_golomb_rice_slice stream kernels window memory working_state writer
           else finish_range_slice stream kernels header window memory working_state writer)))))))"

definition encode_slice_fresh ::
  "stream_parameters \<Rightarrow> codec_kernels \<Rightarrow> frame_view \<Rightarrow> frame_memory \<Rightarrow> slice_header_values \<Rightarrow> bool \<Rightarrow> bool \<Rightarrow> bytes result" where
  "encode_slice_fresh stream kernels input memory header write_keyframe keyframe =
     bind_result (encode_slice stream kernels input memory header write_keyframe keyframe new_slice_state)
       (\<lambda>(payload, state). Inr payload)"

definition encode_whole_frame ::
  "stream_parameters \<Rightarrow> codec_kernels \<Rightarrow> frame_view \<Rightarrow> frame_memory \<Rightarrow> bool \<Rightarrow> bytes result" where
  "encode_whole_frame stream kernels input memory keyframe =
     encode_slice_fresh stream kernels input memory (whole_frame_header stream) True keyframe"

end
