(* ===== verification/Legacy_Bootstrap.thy ===== *)
theory Legacy_Bootstrap
  imports Configuration_Properties Range_Roundtrip
begin

text \<open>
  Frames of versions 0 and 1 carry the stream parameters inside the keyframe
  (\<^verbatim>\<open>src/src/codec/legacy_frame_bootstrap_parser.cpp\<close>): the keyframe flag, then, in fresh contexts, the
  parameters. The arithmetic states of the range decoder after both are kept, so that the slice decoder can
  go on from there.
\<close>

record legacy_frame_bootstrap =
  lb_keyframe :: bool
  lb_has_embedded_parameters :: bool
  lb_content_byte_offset :: nat
  lb_range_state_after_keyframe :: arithmetic_state
  lb_range_state_after_parameters :: arithmetic_state
  lb_stream :: stream_parameters

definition new_arithmetic_state :: arithmetic_state where
  "new_arithmetic_state = \<lparr>as_range = 0, as_low = 0, as_byte_position = 0, as_end = False, as_initialized = False\<rparr>"

definition new_legacy_frame_bootstrap :: legacy_frame_bootstrap where
  "new_legacy_frame_bootstrap =
     \<lparr>lb_keyframe = False, lb_has_embedded_parameters = False, lb_content_byte_offset = 0,
      lb_range_state_after_keyframe = new_arithmetic_state, lb_range_state_after_parameters = new_arithmetic_state,
      lb_stream = new_stream_parameters\<rparr>"

text \<open>A range decoder on a payload, with one context, as \<open>reset\<close> sets it up by default.\<close>

definition open_range_reader :: "bytes \<Rightarrow> range_coder result" where
  "open_range_reader payload = rc_reset payload 1 kDefaultInitialState new_range_coder"

definition parse_legacy_frame_bootstrap :: "bytes \<Rightarrow> u32 \<Rightarrow> u32 \<Rightarrow> legacy_frame_bootstrap result" where
  "parse_legacy_frame_bootstrap frame_payload frame_width frame_height =
     (if frame_payload = [] then Inl (make_error InvalidArgument)
      else
        bind_result (open_range_reader frame_payload) (\<lambda>reader.
        bind_result (rc_read_bool reader) (\<lambda>(keyframe, reader).
          let bootstrap = new_legacy_frame_bootstrap\<lparr>lb_keyframe := keyframe,
                lb_content_byte_offset := rc_byte_position reader,
                lb_range_state_after_keyframe := rc_arithmetic_state reader\<rparr>
          in if \<not> keyframe then Inr bootstrap
             else
               bind_result (rc_reconfigure_contexts [1] [] reader) (\<lambda>reader.
               bind_result (parse_configuration range_symbol_reader reader) (\<lambda>(stream, reader).
                 Inr (bootstrap\<lparr>lb_has_embedded_parameters := True,
                        lb_content_byte_offset := rc_byte_position reader,
                        lb_range_state_after_parameters := rc_arithmetic_state reader,
                        lb_stream := stream\<lparr>sp_width := frame_width, sp_height := frame_height\<rparr>\<rparr>))))))"

end
