(* ===== verification/Slice_Decoder.thy ===== *)
theory Slice_Decoder
  imports Slice_Encoder Legacy_Bootstrap
begin

text \<open>
  The decoder of a slice (\<^verbatim>\<open>src/src/codec/slice_decoder.cpp\<close>, class \<open>SliceDecoder\<close>): where the content of a
  slice lies, the checks of its descriptor, the contexts of its planes, and the range decoder resumed after the
  slice header, after the header of a legacy frame, or started on the content. The stream, the kernels and the
  flag \<open>allow_golomb_rice_read_ahead_trailing_bytes\<close> are the members of the class. The observer, which only
  traces, is left out; when decoding fails the partly written planes and state are dropped.
\<close>

subsection \<open>The content of a slice\<close>

definition local_content_end :: "slice_descriptor \<Rightarrow> u64 \<Rightarrow> u64 result" where
  "local_content_end sl local_content_offset =
     (if sd_footer_byte_offset sl \<noteq> 0 \<or> sd_slice_size sl \<noteq> 0 then
        if sd_footer_byte_offset sl < sd_payload_byte_offset sl
        then Inl (make_byte_error SyntaxError (sd_footer_byte_offset sl))
        else
          let local_footer_offset = sd_footer_byte_offset sl - sd_payload_byte_offset sl in
          if length (sd_payload sl) < unat local_footer_offset
          then Inl (make_byte_error SyntaxError (sd_footer_byte_offset sl))
          else if local_footer_offset < local_content_offset
          then Inl (make_byte_error SyntaxError (sd_footer_byte_offset sl))
          else Inr local_footer_offset
      else Inr (word_of_nat (length (sd_payload sl))))"

definition resolve_content_payload :: "stream_parameters \<Rightarrow> slice_descriptor \<Rightarrow> bytes result" where
  "resolve_content_payload stream sl =
     (if sd_content_byte_offset sl < sd_payload_byte_offset sl
      then Inl (make_byte_error SyntaxError (sd_content_byte_offset sl))
      else
        let local_content_offset = sd_content_byte_offset sl - sd_payload_byte_offset sl in
        if length (sd_payload sl) < unat local_content_offset
        then Inl (make_byte_error SyntaxError (sd_content_byte_offset sl))
        else
          bind_result (local_content_end sl local_content_offset) (\<lambda>content_end.
            let payload = take (unat (content_end - local_content_offset)) (drop (unat local_content_offset) (sd_payload sl));
                has_continuous_range_state = (sp_entropy_mode stream = RangeMode
                  \<and> ((3 \<le> sp_version stream \<and> sd_slice_size sl \<noteq> 0) \<or> sd_continues_frame_range_state sl))
            in if payload = [] \<and> \<not> has_continuous_range_state
               then Inl (make_byte_error SyntaxError (sd_content_byte_offset sl))
               else Inr payload))"

subsection \<open>The checks\<close>

text \<open>The body of the loop over the table indexes.\<close>

definition validate_table_index :: "stream_parameters \<Rightarrow> u32 \<Rightarrow> unit \<Rightarrow> unit result" where
  "validate_table_index stream index u =
     (if length (sp_quant_table_sets stream) \<le> unat index then Inl (make_error SyntaxError)
      else if sp_entropy_mode stream = RangeMode \<and> sp_initial_states stream \<noteq> [] then
        if length (sp_initial_states stream) \<noteq> length (sp_quant_table_sets stream) then Inl (make_error InvalidState)
        else
          let states = sp_initial_states stream ! unat index in
          if states \<noteq> [] \<and> length states \<noteq> qt_context_count (sp_quant_table_sets stream ! unat index)
          then Inl (make_error InvalidState)
          else Inr ()
      else Inr ())"

definition validate_slice :: "stream_parameters \<Rightarrow> slice_descriptor \<Rightarrow> plane_window list \<Rightarrow> unit result" where
  "validate_slice stream sl output =
     bind_result (resolve_content_payload stream sl) (\<lambda>payload.
       if 7 < sd_content_bit_offset sl then Inl (make_byte_error SyntaxError (sd_content_byte_offset sl))
       else if sp_entropy_mode stream \<noteq> GolombRiceMode \<and> sd_content_bit_offset sl \<noteq> 0
       then Inl (make_byte_error SyntaxError (sd_content_byte_offset sl))
       else if window_plane_count output \<noteq> coded_plane_count stream then Inl (make_error InvalidArgument)
       else if \<not> is_supported_decoder_bit_depth (sp_bits_per_raw_sample stream) then Inl (make_error UnsupportedFeature)
       else if sp_quant_table_sets stream = [] then Inl (make_error InvalidState)
       else if sd_quant_table_set_indexes sl = [] then Inl (make_error SyntaxError)
       else if length (sd_quant_table_set_indexes sl)
           \<noteq> (if 3 \<le> sp_version stream then quant_table_set_index_count stream else 1)
       then Inl (make_error SyntaxError)
       else fold_result (validate_table_index stream) (sd_quant_table_set_indexes sl) ())"

definition validate_state_line_geometry :: "plane_window list \<Rightarrow> slice_state \<Rightarrow> unit result" where
  "validate_state_line_geometry output state =
     (if window_plane_count output \<noteq> ss_plane_count state then Inl (make_error InvalidArgument)
      else if list_ex (\<lambda>plane. word_of_nat (ls_width (ss_line_state state plane)) \<noteq> window_plane_width output plane)
                [0..<window_plane_count output]
      then Inl (make_error InvalidState)
      else Inr ())"

subsection \<open>The contexts of the planes\<close>

definition plane_table_set_index :: "stream_parameters \<Rightarrow> slice_descriptor \<Rightarrow> nat \<Rightarrow> nat" where
  "plane_table_set_index stream sl plane_index =
     unat (sd_quant_table_set_indexes sl !
       (if 3 \<le> sp_version stream then plane_quant_table_set_index_slot stream plane_index else 0))"

definition slice_context_models :: "stream_parameters \<Rightarrow> slice_descriptor \<Rightarrow> nat \<Rightarrow> quant_table_set list" where
  "slice_context_models stream sl plane_count =
     map (\<lambda>plane_index. sp_quant_table_sets stream ! plane_table_set_index stream sl plane_index) [0..<plane_count]"

definition golomb_rice_bank_counts :: "stream_parameters \<Rightarrow> slice_descriptor \<Rightarrow> nat list" where
  "golomb_rice_bank_counts stream sl =
     (if 3 \<le> sp_version stream
      then slot_context_counts stream (sd_quant_table_set_indexes sl) (quant_table_set_index_count stream)
      else map qt_context_count (sp_quant_table_sets stream))"

definition golomb_rice_bank_indexes :: "stream_parameters \<Rightarrow> slice_descriptor \<Rightarrow> nat \<Rightarrow> nat list" where
  "golomb_rice_bank_indexes stream sl plane_count =
     map (\<lambda>plane_index. if 3 \<le> sp_version stream then plane_quant_table_set_index_slot stream plane_index
                        else plane_table_set_index stream sl plane_index) [0..<plane_count]"

definition range_bank_counts :: "stream_parameters \<Rightarrow> slice_descriptor \<Rightarrow> nat \<Rightarrow> nat list" where
  "range_bank_counts stream sl plane_count =
     (if 3 \<le> sp_version stream
      then slot_context_counts stream (sd_quant_table_set_indexes sl) (quant_table_set_index_count stream)
      else map qt_context_count (slice_context_models stream sl plane_count))"

definition range_bank_states :: "stream_parameters \<Rightarrow> slice_descriptor \<Rightarrow> nat \<Rightarrow> context_state_banks" where
  "range_bank_states stream sl plane_count =
     (if 3 \<le> sp_version stream
      then slot_initial_states stream (sd_quant_table_set_indexes sl) (quant_table_set_index_count stream)
      else map (\<lambda>plane_index. if sp_initial_states stream = [] then []
                              else sp_initial_states stream ! plane_table_set_index stream sl plane_index) [0..<plane_count])"

definition range_bank_indexes :: "stream_parameters \<Rightarrow> bool \<Rightarrow> nat \<Rightarrow> nat list" where
  "range_bank_indexes stream continue_from_legacy_frame_header plane_count =
     map (\<lambda>plane_index.
       if 3 \<le> sp_version stream then plane_quant_table_set_index_slot stream plane_index
       else if continue_from_legacy_frame_header \<and> sp_colorspace_type stream = 1 \<and> plane_index = 2 then 1
       else plane_index) [0..<plane_count]"

subsection \<open>Resuming the range decoder\<close>

definition golomb_rice_content_byte_position :: "range_coder \<Rightarrow> nat" where
  "golomb_rice_content_byte_position header_reader =
     (let arithmetic = rc_arithmetic_state header_reader in
      if as_byte_position arithmetic \<noteq> 0 \<and> as_low arithmetic AND 0xff \<noteq> 0
      then as_byte_position arithmetic - 1
      else as_byte_position arithmetic)"

text \<open>The keyframe flag in front of the first slice.\<close>

definition reread_keyframe :: "stream_parameters \<Rightarrow> slice_descriptor \<Rightarrow> range_coder \<Rightarrow> (bool \<times> range_coder) result" where
  "reread_keyframe stream sl reader =
     bind_result (map_error (add_byte_offset (sd_payload_byte_offset sl)) (rc_read_bool reader)) (\<lambda>(keyframe, reader).
       if \<not> keyframe \<and> sp_intra_only stream then Inl (make_byte_error SyntaxError (sd_payload_byte_offset sl))
       else Inr (keyframe, reader))"

definition same_encoded_header :: "stream_parameters \<Rightarrow> slice_descriptor \<Rightarrow> slice_descriptor \<Rightarrow> range_coder \<Rightarrow> bool" where
  "same_encoded_header stream encoded sl reader \<longleftrightarrow>
     sd_raster_x encoded = sd_raster_x sl \<and> sd_raster_y encoded = sd_raster_y sl \<and>
     sd_raster_width encoded = sd_raster_width sl \<and> sd_raster_height encoded = sd_raster_height sl \<and>
     sd_quant_table_set_indexes encoded = sd_quant_table_set_indexes sl \<and>
     sd_picture_structure encoded = sd_picture_structure sl \<and>
     sd_sar_num encoded = sd_sar_num sl \<and> sd_sar_den encoded = sd_sar_den sl \<and>
     word_of_nat (if sp_entropy_mode stream = GolombRiceMode then golomb_rice_content_byte_position reader
                  else rc_byte_position reader) = sd_content_byte_offset sl - sd_payload_byte_offset sl"

definition resume_after_slice_header ::
  "stream_parameters \<Rightarrow> slice_descriptor \<Rightarrow> nat list \<Rightarrow> context_state_banks \<Rightarrow> range_coder result" where
  "resume_after_slice_header stream sl counts states =
     (let entropy_payload = take (unat (sd_footer_byte_offset sl - sd_payload_byte_offset sl)) (sd_payload sl);
          located = (\<lambda>r. map_error (add_byte_offset (sd_payload_byte_offset sl)) r)
      in bind_result (located (rc_reset_transition entropy_payload (sp_state_transition stream) new_range_coder)) (\<lambda>reader.
         bind_result
           (if sd_index sl = 0
            then bind_result (reread_keyframe stream sl reader) (\<lambda>(keyframe, reader).
                   located (rc_reconfigure_contexts [1] [] reader))
            else Inr reader) (\<lambda>reader.
         bind_result (map_error (add_byte_offset (sd_payload_byte_offset sl))
                        (read_slice_descriptor range_symbol_reader stream new_slice_descriptor reader)) (\<lambda>(encoded_slice, reader).
           if \<not> same_encoded_header stream encoded_slice sl reader
           then Inl (make_byte_error SyntaxError (sd_header_byte_offset sl))
           else located (rc_reconfigure_contexts counts states reader)))))"

text \<open>The flags of the legacy coders.\<close>

definition apply_legacy_flags :: "stream_parameters \<Rightarrow> slice_descriptor \<Rightarrow> range_coder \<Rightarrow> range_coder result" where
  "apply_legacy_flags stream sl reader =
     bind_result (if sd_uses_legacy_v0_arithmetic sl then rc_set_legacy_v0_arithmetic True reader else Inr reader) (\<lambda>reader.
       if sp_version stream \<le> 1 \<and> sp_entropy_mode stream = RangeMode \<and> sp_colorspace_type stream = 0
       then rc_set_legacy_zero_symbol_carry True reader else Inr reader)"

definition skip_matching_legacy_parameters_if_needed ::
  "stream_parameters \<Rightarrow> u64 \<Rightarrow> u64 \<Rightarrow> range_coder \<Rightarrow> range_coder result" where
  "skip_matching_legacy_parameters_if_needed stream local_content_offset header_byte_offset reader =
     (if word_of_nat (rc_byte_position reader) = local_content_offset then Inr reader
      else
        bind_result (rc_reconfigure_contexts [1] [] reader) (\<lambda>reader.
          case parse_configuration range_symbol_reader reader of
            Inl e \<Rightarrow> Inl (make_byte_error SyntaxError header_byte_offset)
          | Inr (embedded_stream, reader) \<Rightarrow>
              if \<not> stream_parameters_equivalent stream
                    (embedded_stream\<lparr>sp_width := sp_width stream, sp_height := sp_height stream\<rparr>)
                 \<or> word_of_nat (rc_byte_position reader) \<noteq> local_content_offset
              then Inl (make_byte_error SyntaxError header_byte_offset)
              else Inr reader))"

text \<open>
  After the keyframe flag of a legacy frame. When the embedded parameters are those of the stream the arithmetic
  state after them is restored; otherwise the parameters, if any, are read again.
\<close>

definition state_after_matching_parameters ::
  "stream_parameters \<Rightarrow> slice_descriptor \<Rightarrow> bool \<Rightarrow> u64 \<Rightarrow> arithmetic_state option" where
  "state_after_matching_parameters stream sl keyframe local_content_offset =
     (if \<not> keyframe then None
      else case parse_legacy_frame_bootstrap (sd_payload sl) (sp_width stream) (sp_height stream) of
        Inl e \<Rightarrow> None
      | Inr bootstrap \<Rightarrow>
          if lb_has_embedded_parameters bootstrap
            \<and> word_of_nat (lb_content_byte_offset bootstrap) = local_content_offset
            \<and> stream_parameters_equivalent stream (lb_stream bootstrap)
          then Some (lb_range_state_after_parameters bootstrap) else None)"

definition resume_after_legacy_header ::
  "stream_parameters \<Rightarrow> slice_descriptor \<Rightarrow> nat list \<Rightarrow> context_state_banks \<Rightarrow> range_coder result" where
  "resume_after_legacy_header stream sl counts states =
     (let located = (\<lambda>r. map_error (add_byte_offset (sd_payload_byte_offset sl)) r);
          local_content_offset = sd_content_byte_offset sl - sd_payload_byte_offset sl
      in bind_result (located (open_range_reader (sd_payload sl))) (\<lambda>reader.
         bind_result (reread_keyframe stream sl reader) (\<lambda>(keyframe, reader).
           case state_after_matching_parameters stream sl keyframe local_content_offset of
             Some st \<Rightarrow>
               located (bind_result (rc_reset_from_arithmetic_state (sd_payload sl) counts states
                                       (sp_state_transition stream) st reader) (apply_legacy_flags stream sl))
           | None \<Rightarrow>
               bind_result (skip_matching_legacy_parameters_if_needed stream local_content_offset
                              (sd_header_byte_offset sl) reader) (\<lambda>reader.
               located (bind_result (rc_set_state_transition (sp_state_transition stream) reader) (\<lambda>reader.
                 bind_result (rc_reconfigure_contexts counts states reader) (apply_legacy_flags stream sl)))))))"

text \<open>The decoder on the samples, and the offset of the bytes it reads.\<close>

definition open_slice_reader ::
  "stream_parameters \<Rightarrow> slice_descriptor \<Rightarrow> bytes \<Rightarrow> nat list \<Rightarrow> context_state_banks \<Rightarrow> (range_coder \<times> u64) result" where
  "open_slice_reader stream sl content_payload counts states =
     (if 3 \<le> sp_version stream \<and> sd_slice_size sl \<noteq> 0
      then bind_result (resume_after_slice_header stream sl counts states)
             (\<lambda>reader. Inr (reader, sd_payload_byte_offset sl))
      else if sd_continues_frame_range_state sl
      then bind_result (resume_after_legacy_header stream sl counts states)
             (\<lambda>reader. Inr (reader, sd_payload_byte_offset sl))
      else bind_result (map_error (add_byte_offset (sd_content_byte_offset sl))
             (rc_reset_banks_transition content_payload counts states (sp_state_transition stream) new_range_coder))
             (\<lambda>reader. Inr (reader, sd_content_byte_offset sl)))"

subsection \<open>A slice\<close>

definition decode_slice ::
  "stream_parameters \<Rightarrow> codec_kernels \<Rightarrow> bool \<Rightarrow> slice_descriptor \<Rightarrow> plane_window list \<Rightarrow>
     slice_state \<times> frame_memory \<Rightarrow> (slice_state \<times> frame_memory) result" where
  "decode_slice stream kernels allow_read_ahead sl output = (\<lambda>(state, memory).
     bind_result (validate_slice stream sl output) (\<lambda>_.
     bind_result (validate_state_line_geometry output state) (\<lambda>_.
     bind_result (resolve_content_payload stream sl) (\<lambda>content_payload.
       let plane_count = window_plane_count output;
           context_models = slice_context_models stream sl plane_count
       in if sp_entropy_mode stream = GolombRiceMode
          then decode_golomb_rice_slice stream kernels content_payload (sd_content_byte_offset sl)
                 (sd_content_bit_offset sl) context_models (golomb_rice_bank_indexes stream sl plane_count)
                 (golomb_rice_bank_counts stream sl) output allow_read_ahead (state, memory)
          else
            let range_context_counts = range_bank_counts stream sl plane_count in
            bind_result (saved_or_initial_states range_context_counts (range_bank_states stream sl plane_count) state)
              (\<lambda>range_initial_state_banks.
            bind_result (open_slice_reader stream sl content_payload range_context_counts range_initial_state_banks)
              (\<lambda>(reader, reader_base_offset).
            bind_result (decode_range_samples reader_base_offset stream kernels context_models
                (range_bank_indexes stream (sd_continues_frame_range_state sl) plane_count) output (state, memory) reader)
              (\<lambda>((state, memory), reader).
            bind_result (capture_decoder_contexts reader state) (\<lambda>state. Inr (state, memory)))))))))"

end
