(* ===== verification/Frame_Parser.thy ===== *)
theory Frame_Parser
  imports Slice_Decoder Slice_Locator Slice_Raster
begin

text \<open>
  From the bytes of a frame to its slices (\<^verbatim>\<open>src/src/codec/frame_parser.cpp\<close>, class \<open>FrameParser\<close>). The
  slices of version 3 are located from the end of the frame by their footers and each carries its header;
  those of versions 0 and 1 share one range decoder, or are a single slice. The stream and \<open>verify_crc\<close> are
  the members of the class; the output planes a \<open>FrameDecodeContext\<close> also points to belong to its user.
\<close>

record frame_decode_context =
  fc_slices :: "slice_descriptor list"
  fc_frame_info :: frame_info
  fc_keyframe :: bool

definition maximum_slice_count :: "stream_parameters \<Rightarrow> nat" where
  "maximum_slice_count stream = unat (ucast (sp_num_h_slices stream) * ucast (sp_num_v_slices stream) :: u64)"

definition validate_keyframe :: "stream_parameters \<Rightarrow> bool \<Rightarrow> u64 \<Rightarrow> unit result" where
  "validate_keyframe stream keyframe byte_offset =
     (if \<not> keyframe \<and> sp_intra_only stream then Inl (make_byte_error SyntaxError byte_offset) else Inr ())"

definition finalize_frame_metadata :: "bool \<Rightarrow> frame_decode_context \<Rightarrow> frame_decode_context" where
  "finalize_frame_metadata keyframe frame =
     frame\<lparr>fc_keyframe := keyframe,
       fc_frame_info := (fc_frame_info frame)\<lparr>fi_keyframe := keyframe,
         fi_slice_count := word_of_nat (length (fc_slices frame))\<rparr>\<rparr>"

definition initialize_frame :: "stream_parameters \<Rightarrow> bytes \<Rightarrow> frame_decode_context result" where
  "initialize_frame stream payload =
     (if payload = [] then Inl (make_error InvalidArgument)
      else if sp_width stream = 0 \<or> sp_height stream = 0 then Inl (make_error InvalidState)
      else if sp_num_h_slices stream = 0 \<or> sp_num_v_slices stream = 0 then Inl (make_error InvalidState)
      else Inr \<lparr>fc_slices = [], fc_frame_info = make_frame_info stream, fc_keyframe = False\<rparr>)"

subsection \<open>Parameters embedded in a legacy keyframe\<close>

definition normalize_legacy_embedded_parameters :: "stream_parameters \<Rightarrow> stream_parameters \<Rightarrow> stream_parameters" where
  "normalize_legacy_embedded_parameters stream embedded_stream =
     embedded_stream\<lparr>sp_width := sp_width stream, sp_height := sp_height stream,
       sp_num_h_slices := sp_num_h_slices stream, sp_num_v_slices := sp_num_v_slices stream,
       sp_intra_only := sp_intra_only stream\<rparr>"

text \<open>The parameters are read in one fresh context and compared; the reader is then behind them.\<close>

definition read_matching_parameters :: "stream_parameters \<Rightarrow> range_coder \<Rightarrow> range_coder option" where
  "read_matching_parameters stream reader =
     (case bind_result (rc_reconfigure_contexts [1] [] reader) (parse_configuration range_symbol_reader) of
        Inl e \<Rightarrow> None
      | Inr (embedded_stream, reader) \<Rightarrow>
          if stream_parameters_equivalent stream (normalize_legacy_embedded_parameters stream embedded_stream)
          then Some reader else None)"

definition detect_legacy_embedded_parameters_offset :: "stream_parameters \<Rightarrow> nat \<Rightarrow> range_coder \<Rightarrow> nat" where
  "detect_legacy_embedded_parameters_offset stream fallback_offset frame_reader =
     (case read_matching_parameters stream frame_reader of
        None \<Rightarrow> fallback_offset | Some reader \<Rightarrow> rc_byte_position reader)"

definition detect_matching_legacy_embedded_parameters_reader :: "bytes \<Rightarrow> stream_parameters \<Rightarrow> range_coder option" where
  "detect_matching_legacy_embedded_parameters_reader payload stream =
     (case bind_result (open_range_reader payload) rc_read_bool of
        Inl e \<Rightarrow> None
      | Inr (keyframe, probe) \<Rightarrow> if \<not> keyframe then None else read_matching_parameters stream probe)"

text \<open>The probe for Golomb-Rice frames: the keyframe flag is then set, and the content starts here.\<close>

definition detect_legacy_golomb_rice_embedded_parameters :: "bytes \<Rightarrow> stream_parameters \<Rightarrow> nat option" where
  "detect_legacy_golomb_rice_embedded_parameters payload stream =
     map_option rc_byte_position (detect_matching_legacy_embedded_parameters_reader payload stream)"

subsection \<open>Version 3: located slices\<close>

definition locate_parse_error :: "slice_descriptor \<Rightarrow> 'a result \<Rightarrow> 'a result" where
  "locate_parse_error located =
     map_error (\<lambda>e. set_slice_location_if_missing (sd_index located)
       (add_byte_offset (sd_payload_byte_offset located) e))"

definition read_frame_keyframe :: "stream_parameters \<Rightarrow> slice_descriptor \<Rightarrow> range_coder \<Rightarrow> (bool \<times> range_coder) result" where
  "read_frame_keyframe stream located reader =
     bind_result (locate_parse_error located (rc_read_bool reader)) (\<lambda>(keyframe, reader).
     bind_result (map_error (set_slice_location_if_missing (sd_index located))
                    (validate_keyframe stream keyframe (sd_payload_byte_offset located))) (\<lambda>_.
     bind_result (locate_parse_error located (rc_reconfigure_contexts [1] [] reader)) (\<lambda>reader.
       Inr (keyframe, reader))))"

text \<open>The body of the loop over the located slices.\<close>

definition parse_located_slice ::
  "stream_parameters \<Rightarrow> slice_descriptor \<Rightarrow> bool \<Rightarrow> bool \<Rightarrow> (slice_descriptor \<times> bool) result" where
  "parse_located_slice stream located first keyframe =
     bind_result (locate_parse_error located
                    (rc_reset_transition (sd_payload located) (sp_state_transition stream) new_range_coder)) (\<lambda>reader.
     bind_result (if first then read_frame_keyframe stream located reader else Inr (keyframe, reader)) (\<lambda>(keyframe, reader).
     bind_result (locate_parse_error located
                    (read_slice_descriptor range_symbol_reader stream
                       (new_slice_descriptor\<lparr>sd_index := sd_index located\<rparr>) reader)) (\<lambda>(parsed, reader).
       let content = (if sp_entropy_mode stream = GolombRiceMode
                      then word_of_nat (golomb_rice_content_byte_position reader) else sd_content_byte_offset parsed)
       in if length (sd_payload located) < unat content
          then Inl (set_slice_location_if_missing (sd_index located)
                      (make_byte_error SyntaxError (sd_payload_byte_offset located + content)))
          else Inr (parsed\<lparr>sd_index := sd_index located, sd_payload := sd_payload located,
                      sd_payload_byte_offset := sd_payload_byte_offset located,
                      sd_header_byte_offset := sd_header_byte_offset parsed + sd_payload_byte_offset located,
                      sd_content_byte_offset := content + sd_payload_byte_offset located,
                      sd_footer_byte_offset := sd_footer_byte_offset located, sd_slice_size := sd_slice_size located,
                      sd_error_status := sd_error_status located, sd_expected_crc := sd_expected_crc located,
                      sd_has_crc := sd_has_crc located\<rparr>, keyframe))))"

fun parse_located_loop ::
  "stream_parameters \<Rightarrow> bool \<Rightarrow> slice_descriptor list \<Rightarrow> bool \<Rightarrow> (slice_descriptor list \<times> bool) result" where
  "parse_located_loop stream first [] keyframe = Inr ([], keyframe)"
| "parse_located_loop stream first (located # rest) keyframe =
     bind_result (parse_located_slice stream located first keyframe) (\<lambda>(parsed, keyframe).
     bind_result (parse_located_loop stream False rest keyframe) (\<lambda>(slices, keyframe). Inr (parsed # slices, keyframe)))"

definition parse_located_range_slices :: "stream_parameters \<Rightarrow> bool \<Rightarrow> bytes \<Rightarrow> frame_decode_context result" where
  "parse_located_range_slices stream verify_crc payload =
     bind_result (initialize_frame stream payload) (\<lambda>frame.
     bind_result (locate_slices payload stream (maximum_slice_count stream) verify_crc) (\<lambda>located_slices.
     bind_result (parse_located_loop stream True located_slices False) (\<lambda>(parsed_slices, keyframe).
     bind_result (validate_slice_raster_coverage stream parsed_slices) (\<lambda>_.
       Inr (finalize_frame_metadata keyframe (frame\<lparr>fc_slices := parsed_slices\<rparr>))))))"

definition parse_with_range_header :: "stream_parameters \<Rightarrow> bool \<Rightarrow> bytes \<Rightarrow> frame_decode_context result" where
  "parse_with_range_header = parse_located_range_slices"

subsection \<open>Versions 0 and 1: slices in one range coded stream\<close>

text \<open>
  The loop stops as soon as the slices read cover the grid; its first argument counts the slices still allowed,
  from \<open>maximum_slice_count\<close> down.
\<close>

fun parse_legacy_loop ::
  "'r symbol_reader \<Rightarrow> stream_parameters \<Rightarrow> bytes \<Rightarrow> bool \<Rightarrow> nat \<Rightarrow> slice_descriptor list \<Rightarrow> 'r \<Rightarrow>
     slice_descriptor list result" where
  "parse_legacy_loop R stream payload uses_legacy_v0_arithmetic 0 slices reader =
     bind_result (validate_slice_raster_coverage stream slices) (\<lambda>_. Inr slices)"
| "parse_legacy_loop R stream payload uses_legacy_v0_arithmetic (Suc remaining) slices reader =
     (let index = word_of_nat (length slices);
          located = (\<lambda>e. set_slice_location_if_missing index e)
      in case read_slice_descriptor R stream (new_slice_descriptor\<lparr>sd_index := index\<rparr>) reader of
           Inl e \<Rightarrow> Inl (located e)
         | Inr (sl, reader) \<Rightarrow>
             if length payload < unat (sd_content_byte_offset sl)
             then Inl (located (make_byte_error SyntaxError (sd_content_byte_offset sl)))
             else
               let slices = slices @ [sl\<lparr>sd_payload := payload, sd_uses_legacy_v0_arithmetic := uses_legacy_v0_arithmetic\<rparr>]
               in case validate_slice_raster_coverage stream slices of
                    Inr _ \<Rightarrow> Inr slices
                  | Inl e \<Rightarrow>
                      if \<not> is_incomplete_slice_raster_coverage_status e then Inl (located e)
                      else parse_legacy_loop R stream payload uses_legacy_v0_arithmetic remaining slices reader)"

definition parse_legacy_range_slices_after_keyframe ::
  "'r symbol_reader \<Rightarrow> stream_parameters \<Rightarrow> bytes \<Rightarrow> 'r \<Rightarrow> bool \<Rightarrow> bool \<Rightarrow> frame_decode_context result" where
  "parse_legacy_range_slices_after_keyframe R stream payload header_reader keyframe uses_legacy_v0_arithmetic =
     bind_result (initialize_frame stream payload) (\<lambda>frame.
     bind_result (parse_legacy_loop R stream payload uses_legacy_v0_arithmetic (maximum_slice_count stream) [] header_reader) (\<lambda>slices.
       Inr (finalize_frame_metadata keyframe (frame\<lparr>fc_slices := slices\<rparr>))))"

definition parse_with_header_reader ::
  "'r symbol_reader \<Rightarrow> stream_parameters \<Rightarrow> bytes \<Rightarrow> 'r \<Rightarrow> frame_decode_context result" where
  "parse_with_header_reader R stream payload header_reader =
     bind_result (map_error (add_byte_offset 0) (sr_read_bool R header_reader)) (\<lambda>(keyframe, header_reader).
     bind_result (validate_keyframe stream keyframe 0) (\<lambda>_.
       parse_legacy_range_slices_after_keyframe R stream payload header_reader keyframe False))"

definition parse_legacy_range_frame :: "stream_parameters \<Rightarrow> bytes \<Rightarrow> frame_decode_context result" where
  "parse_legacy_range_frame stream payload =
     bind_result (open_range_reader payload) (\<lambda>frame_reader.
     bind_result (map_error (add_byte_offset 0) (rc_read_bool frame_reader)) (\<lambda>(keyframe, frame_reader).
     bind_result (validate_keyframe stream keyframe 0) (\<lambda>_.
       case (if keyframe then detect_matching_legacy_embedded_parameters_reader payload stream else None) of
         Some embedded_parameter_reader \<Rightarrow>
           parse_legacy_range_slices_after_keyframe range_symbol_reader stream payload embedded_parameter_reader keyframe
             (sp_version stream = 0)
       | None \<Rightarrow>
           parse_legacy_range_slices_after_keyframe range_symbol_reader stream payload frame_reader keyframe False)))"

subsection \<open>A frame that is one slice without a header\<close>

text \<open>The keyframe flag, and the byte and the bit at which the content starts.\<close>

definition read_single_slice_start :: "stream_parameters \<Rightarrow> bytes \<Rightarrow> (bool \<times> nat \<times> u8) result" where
  "read_single_slice_start stream payload =
     (if sp_version stream \<le> 1 \<and> sp_entropy_mode stream = RangeMode then
        bind_result (bind_result (open_range_reader payload) rc_read_bool) (\<lambda>(keyframe, frame_reader).
        bind_result (validate_keyframe stream keyframe 0) (\<lambda>_.
          Inr (keyframe,
            (if keyframe
             then detect_legacy_embedded_parameters_offset stream (rc_byte_position frame_reader) frame_reader
             else rc_byte_position frame_reader), 0)))
      else if sp_version stream \<le> 1 \<and> sp_entropy_mode stream = GolombRiceMode then
        (case detect_legacy_golomb_rice_embedded_parameters payload stream of
           Some content_byte_offset \<Rightarrow>
             bind_result (validate_keyframe stream True 0) (\<lambda>_. Inr (True, content_byte_offset, 0))
         | None \<Rightarrow>
             bind_result (read_bit (make_bit_reader payload)) (\<lambda>(keyframe_bit, frame_bits).
             bind_result (validate_keyframe stream (keyframe_bit \<noteq> 0) 0) (\<lambda>_.
               Inr (keyframe_bit \<noteq> 0, 0, 1))))
      else Inr (False, 0, 0))"

definition single_slice_header :: slice_header_values where
  "single_slice_header =
     \<lparr>hv_x = 0, hv_y = 0, hv_width = 1, hv_height = 1, hv_quant_table_set_indexes = [0],
      hv_picture_structure = 0, hv_sar_num = 0, hv_sar_den = 0\<rparr>"

definition parse_single_slice_frame :: "stream_parameters \<Rightarrow> bytes \<Rightarrow> frame_decode_context \<Rightarrow> frame_decode_context result" where
  "parse_single_slice_frame stream payload frame =
     bind_result (read_single_slice_start stream payload) (\<lambda>(keyframe, content_byte_offset, content_bit_offset).
     bind_result (map_error (set_slice_location_if_missing 0)
                    (apply_raster stream single_slice_header new_slice_descriptor)) (\<lambda>sl.
       let slices = [sl\<lparr>sd_payload := payload, sd_header_byte_offset := 0,
             sd_content_byte_offset := word_of_nat content_byte_offset, sd_content_bit_offset := content_bit_offset,
             sd_payload_byte_offset := 0,
             sd_continues_frame_range_state := (sp_version stream \<le> 1 \<and> sp_entropy_mode stream = RangeMode),
             sd_uses_legacy_v0_arithmetic := False\<rparr>]
       in bind_result (map_error (set_slice_location_if_missing 0) (validate_slice_raster_coverage stream slices)) (\<lambda>_.
            Inr (finalize_frame_metadata keyframe (frame\<lparr>fc_slices := slices\<rparr>)))))"

subsection \<open>A frame\<close>

definition parse_frame :: "stream_parameters \<Rightarrow> bool \<Rightarrow> bytes \<Rightarrow> frame_decode_context result" where
  "parse_frame stream verify_crc payload =
     bind_result (initialize_frame stream payload) (\<lambda>next_frame.
       if 3 \<le> sp_version stream then parse_with_range_header stream verify_crc payload
       else if sp_num_h_slices stream \<noteq> 1 \<or> sp_num_v_slices stream \<noteq> 1 then
         if sp_version stream \<le> 1 \<and> sp_entropy_mode stream = RangeMode
         then parse_legacy_range_frame stream payload
         else Inl (make_error UnsupportedFeature)
       else parse_single_slice_frame stream payload next_frame)"

end
