(* ===== verification/Slice_Roundtrip.thy ===== *)
theory Slice_Roundtrip
  imports Frame_Parser
begin

text \<open>
  A slice from the encoder to the decoder: the header and the keyframe flag are read back twice, by the frame
  parser from the slice with its footer and by the slice decoder from the slice without it; then the samples are
  stored into the output planes as they were in the input planes, and both sides keep the same state for the
  next frame.
\<close>

subsection \<open>The prefix of a slice\<close>

definition slice_prefix_size :: "stream_parameters \<Rightarrow> slice_header_values \<Rightarrow> bool \<Rightarrow> bool \<Rightarrow> nat" where
  "slice_prefix_size stream header write_keyframe keyframe =
     (case encode_slice_prefix stream header write_keyframe keyframe of Inl e \<Rightarrow> 0 | Inr writer \<Rightarrow> re_byte_count writer)"

lemma slice_prefix_size_eq:
  "encode_slice_prefix stream header wk kf = Inr e \<Longrightarrow> slice_prefix_size stream header wk kf = length (re_low_bytes e)"
  by (simp add: slice_prefix_size_def re_byte_count_def)

text \<open>
  A decoder on any bytes of the prefix's interval reads the flag and the header that were written, and is then in
  step with the encoder.
\<close>

definition prefix_read ::
  "stream_parameters \<Rightarrow> slice_header_values \<Rightarrow> bool \<Rightarrow> bool \<Rightarrow> bytes \<Rightarrow> range_coder \<Rightarrow> bool" where
  "prefix_read stream header write_keyframe keyframe bs d \<longleftrightarrow>
     (\<exists>d0 d1. rc_reset_transition bs (sp_state_transition stream) new_range_coder = Inr d0 \<and>
        (if write_keyframe then \<exists>d'. rc_read_bool d0 = Inr (keyframe, d') \<and> rc_reconfigure_contexts [1] [] d' = Inr d1
         else d1 = d0) \<and>
        read_slice_header range_symbol_reader stream d1 = Inr (header, d))"

lemma prefix_matched:
  assumes run: "encode_slice_prefix stream header wk kf = Inr e"
    and sets: "length (sp_quant_table_sets stream) < 2 ^ 64"
  shows "enc_inv e"
    and "contains bs e \<Longrightarrow> 2 \<le> length bs \<Longrightarrow> \<exists>d. prefix_read stream header wk kf bs d \<and> in_sync bs e d"
proof -
  from run obtain e0 e1 where
    e0: "re_reset_impl [1] [] kDefaultInitialState (sp_state_transition stream) = Inr e0" and
    e1: "(if wk then bind_result (re_write_bool kf e0) (re_reconfigure_contexts [1] []) else Inr e0) = Inr e1" and
    e: "write_slice_header range_symbol_writer stream header e1 = Inr e"
    by (auto simp: encode_slice_prefix_def re_reset_transition_def)
  note start = re_reset_impl_correct [OF e0]
  have flag: "enc_inv e1 \<and> (\<forall>bs. contains bs e1 \<longrightarrow> contains bs e0) \<and>
    (\<forall>bs d0. contains bs e1 \<longrightarrow> in_sync bs e0 d0 \<longrightarrow>
      (\<exists>d1. (if wk then \<exists>d'. rc_read_bool d0 = Inr (kf, d') \<and> rc_reconfigure_contexts [1] [] d' = Inr d1 else d1 = d0) \<and>
        in_sync bs e1 d1))"
  proof (cases wk)
    case True
    with e1 obtain e' where w: "re_write_bool kf e0 = Inr e'" "re_reconfigure_contexts [1] [] e' = Inr e1" by auto
    have inv': "enc_inv e'" using matched_winv [OF re_write_bool_matched [OF start(1) w(1)]] by simp
    have m: "matched (range_link bs) e0 e' rc_read_bool kf"
      "matched (range_link bs) e' e1 (unit_op (rc_reconfigure_contexts [1] [])) ()" for bs
      using re_write_bool_matched [OF start(1) w(1)] re_reconfigure_matched [OF inv' w(2)] by auto
    then show ?thesis using True by (fastforce simp: matched_def)
  next
    case False
    with e1 start(1) show ?thesis by auto
  qed
  have m: "matched (range_link bs) e1 e (read_slice_header range_symbol_reader stream) header" for bs
    using slice_header_synced [OF _ e sets] flag by blast
  show "enc_inv e" using matched_winv [OF m] by simp
  assume c: "contains bs e" and len: "2 \<le> length bs"
  have c1: "contains bs e1" using c m [of bs] by (simp add: matched_def)
  with flag start(3) [OF _ len] obtain d0 where
    d0: "rc_reset_impl bs [1] [] kDefaultInitialState (sp_state_transition stream) new_range_coder = Inr d0" "in_sync bs e0 d0"
    by blast
  from flag c1 d0(2) obtain d1 where
    d1: "if wk then \<exists>d'. rc_read_bool d0 = Inr (kf, d') \<and> rc_reconfigure_contexts [1] [] d' = Inr d1 else d1 = d0"
      "in_sync bs e1 d1" by blast
  from m [of bs] c d1(2) obtain d where "read_slice_header range_symbol_reader stream d1 = Inr (header, d)" "in_sync bs e d"
    by (auto simp: matched_def)
  with d0(1) d1(1) show "\<exists>d. prefix_read stream header wk kf bs d \<and> in_sync bs e d"
    unfolding prefix_read_def rc_reset_transition_def by blast
qed

subsection \<open>What the frame parser makes of a slice\<close>

text \<open>The descriptor of a slice with header \<open>header\<close>, whose prefix has \<open>n\<close> bytes.\<close>

definition describes ::
  "stream_parameters \<Rightarrow> slice_header_values \<Rightarrow> nat \<Rightarrow> slice_descriptor \<Rightarrow> slice_descriptor \<Rightarrow> bool" where
  "describes stream header n located sl \<longleftrightarrow>
     (\<exists>d0 off. apply_raster stream header (new_slice_descriptor\<lparr>sd_index := sd_index located\<rparr>) = Inr d0 \<and>
        sl = d0\<lparr>sd_payload := sd_payload located, sd_payload_byte_offset := sd_payload_byte_offset located,
               sd_header_byte_offset := off, sd_content_byte_offset := word_of_nat n + sd_payload_byte_offset located,
               sd_footer_byte_offset := sd_footer_byte_offset located, sd_slice_size := sd_slice_size located,
               sd_error_status := sd_error_status located, sd_expected_crc := sd_expected_crc located,
               sd_has_crc := sd_has_crc located\<rparr>)"

lemma apply_raster_index:
  "apply_raster stream header new_slice_descriptor = Inr d \<Longrightarrow>
    apply_raster stream header (new_slice_descriptor\<lparr>sd_index := i\<rparr>) = Inr (d\<lparr>sd_index := i\<rparr>)"
  by (auto simp: apply_raster_def)

lemma in_sync_content_position:
  assumes "in_sync bs e d" and "length (re_low_bytes e) \<le> length bs"
  shows "rc_byte_position d = length (re_low_bytes e)"
    and "prefix_value bs (length (re_low_bytes e)) = be_val (re_low_bytes e) \<Longrightarrow>
      golomb_rice_content_byte_position d = length (re_low_bytes e)"
  using assms by (auto simp: in_sync_def golomb_rice_content_byte_position_def rc_arithmetic_state_def Let_def unat_eq_zero)

lemma parsed_slice_describes:
  assumes run: "encode_slice_prefix stream header wk kf = Inr e"
    and sets: "length (sp_quant_table_sets stream) < 2 ^ 64"
    and c: "contains (sd_payload located) e" and n: "length (re_low_bytes e) \<le> length (sd_payload located)"
    and golomb: "sp_entropy_mode stream = GolombRiceMode \<Longrightarrow>
      prefix_value (sd_payload located) (length (re_low_bytes e)) = be_val (re_low_bytes e)"
    and raster: "apply_raster stream header new_slice_descriptor = Inr d"
    and size: "length (sd_payload located) < 2 ^ 64"
    and intra: "wk \<longrightarrow> kf \<or> \<not> sp_intra_only stream"
  shows "\<exists>sl. parse_located_slice stream located wk k0 = Inr (sl, if wk then kf else k0) \<and>
    describes stream header (length (re_low_bytes e)) located sl"
proof -
  let ?n = "length (re_low_bytes e)" and ?bs = "sd_payload located"
  note prefix = prefix_matched [OF run sets]
  have "2 \<le> ?n" using prefix(1) by (simp add: enc_inv_def)
  with n have len: "2 \<le> length ?bs" by simp
  from prefix(2) [OF c len] obtain d0 d1 d2 where
    d0: "rc_reset_transition ?bs (sp_state_transition stream) new_range_coder = Inr d0" and
    d1: "if wk then \<exists>d'. rc_read_bool d0 = Inr (kf, d') \<and> rc_reconfigure_contexts [1] [] d' = Inr d1 else d1 = d0" and
    d2: "read_slice_header range_symbol_reader stream d1 = Inr (header, d2)" and sync: "in_sync ?bs e d2"
    unfolding prefix_read_def by blast
  note pos = in_sync_content_position [OF sync n]
  have flag: "(if wk then read_frame_keyframe stream located d0 else Inr (k0, d0)) = Inr (if wk then kf else k0, d1)"
    using d1 intra by (auto simp: read_frame_keyframe_def locate_parse_error_def validate_keyframe_def)
  let ?base = "new_slice_descriptor\<lparr>sd_index := sd_index located\<rparr>"
  have parsed: "read_slice_descriptor range_symbol_reader stream ?base d1 =
      Inr (d\<lparr>sd_index := sd_index located, sd_header_byte_offset := word_of_nat (rc_byte_position d1),
        sd_content_byte_offset := word_of_nat ?n, sd_payload_byte_offset := word_of_nat (rc_byte_position d1)\<rparr>, d2)"
    using d2 pos(1) apply_raster_index [OF raster]
    by (simp add: read_slice_descriptor_def range_symbol_reader_def Let_def)
  have content: "sp_entropy_mode stream = GolombRiceMode \<Longrightarrow> golomb_rice_content_byte_position d2 = ?n"
    using pos(2) golomb by simp
  have "unat (word_of_nat ?n :: u64) = ?n" using n size by (intro unat_of_nat_bounded) simp
  with n have fits: "\<not> length ?bs < unat (word_of_nat ?n :: u64)" by simp
  have "parse_located_slice stream located wk k0 = Inr (d\<lparr>sd_index := sd_index located, sd_payload := sd_payload located,
      sd_payload_byte_offset := sd_payload_byte_offset located,
      sd_header_byte_offset := word_of_nat (rc_byte_position d1) + sd_payload_byte_offset located,
      sd_content_byte_offset := word_of_nat ?n + sd_payload_byte_offset located,
      sd_footer_byte_offset := sd_footer_byte_offset located, sd_slice_size := sd_slice_size located,
      sd_error_status := sd_error_status located, sd_expected_crc := sd_expected_crc located,
      sd_has_crc := sd_has_crc located\<rparr>, if wk then kf else k0)"
    using d0 flag parsed content fits
    by (simp add: parse_located_slice_def locate_parse_error_def Let_def)
  moreover have "describes stream header ?n located (d\<lparr>sd_index := sd_index located, sd_payload := sd_payload located,
      sd_payload_byte_offset := sd_payload_byte_offset located,
      sd_header_byte_offset := word_of_nat (rc_byte_position d1) + sd_payload_byte_offset located,
      sd_content_byte_offset := word_of_nat ?n + sd_payload_byte_offset located,
      sd_footer_byte_offset := sd_footer_byte_offset located, sd_slice_size := sd_slice_size located,
      sd_error_status := sd_error_status located, sd_expected_crc := sd_expected_crc located,
      sd_has_crc := sd_has_crc located\<rparr>)"
    unfolding describes_def using apply_raster_index [OF raster] by (intro exI conjI, assumption) simp
  ultimately show ?thesis by blast
qed

subsection \<open>What the encoder accepts\<close>

lemma validate_encoder_stream_Inr:
  assumes "validate_encoder_stream stream = Inr u"
  shows "is_supported_syntax_colorspace (sp_colorspace_type stream)"
    and "0 < unat (sp_bits_per_raw_sample stream)" and "unat (sp_bits_per_raw_sample stream) \<le> 16"
    and "sp_colorspace_type stream = 1 \<Longrightarrow> sp_chroma_planes stream"
    and "length (sp_quant_table_sets stream) = 1"
    and "fold_result (validate_table_index stream) (replicate n 0) () = Inr ()"
proof -
  have checks: "is_supported_syntax_colorspace (sp_colorspace_type stream) \<and>
      is_supported_encoder_bit_depth (sp_bits_per_raw_sample stream) \<and>
      (sp_colorspace_type stream = 1 \<longrightarrow> sp_chroma_planes stream) \<and> length (sp_quant_table_sets stream) = 1 \<and>
      (sp_initial_states stream = [] \<or> length (sp_initial_states stream) = 1 \<and>
        (sp_initial_states stream ! 0 = [] \<or>
         length (sp_initial_states stream ! 0) = qt_context_count (sp_quant_table_sets stream ! 0)))"
    using assms by (auto simp: validate_encoder_stream_def has_invalid_rgb_geometry_def Let_def split: if_splits)
  then show "is_supported_syntax_colorspace (sp_colorspace_type stream)"
    "sp_colorspace_type stream = 1 \<Longrightarrow> sp_chroma_planes stream" "length (sp_quant_table_sets stream) = 1" by auto
  from checks show "0 < unat (sp_bits_per_raw_sample stream)" "unat (sp_bits_per_raw_sample stream) \<le> 16"
    by (auto simp: is_supported_encoder_bit_depth_def word_le_nat_alt)
  from checks show "fold_result (validate_table_index stream) (replicate n 0) () = Inr ()"
    by (auto simp: fold_result_unit validate_table_index_def Let_def)
qed

text \<open>With one table set every index of a header is zero.\<close>

lemma header_indexes_zero:
  assumes "apply_raster stream header d = Inr sl" and "length (sp_quant_table_sets stream) = 1"
  shows "hv_quant_table_set_indexes header = replicate (length (hv_quant_table_set_indexes header)) 0"
    and "hv_quant_table_set_indexes header \<noteq> []"
proof -
  from assms have idx: "\<not> list_ex (\<lambda>index. 1 \<le> unat index) (hv_quant_table_set_indexes header)"
    by (auto simp: apply_raster_def check_header_values_def split: if_splits)
  then have "\<forall>i \<in> set (hv_quant_table_set_indexes header). unat i = 0" by (auto simp: list_ex_iff not_le)
  then have "\<forall>i \<in> set (hv_quant_table_set_indexes header). i = 0" by (simp add: unat_eq_zero)
  then show "hv_quant_table_set_indexes header = replicate (length (hv_quant_table_set_indexes header)) 0"
    by (intro replicate_eqI) simp_all
  show "hv_quant_table_set_indexes header \<noteq> []"
    using assms(1) by (auto simp: apply_raster_def check_header_values_def split: if_splits)
qed

lemma prefix_index_count:
  "encode_slice_prefix stream header wk kf = Inr e \<Longrightarrow>
    length (hv_quant_table_set_indexes header) = quant_table_set_index_count stream"
  by (auto simp: encode_slice_prefix_def write_slice_header_def split: if_splits)

subsection \<open>Windows and lines\<close>

lemma described_rectangle:
  assumes "describes stream header n located sl" and "apply_raster stream header new_slice_descriptor = Inr d"
  shows "input_slice_plane_width stream d i = output_slice_plane_width stream sl i"
    and "input_slice_plane_height stream d i = output_slice_plane_height stream sl i"
    and "input_plane_x stream d i = output_plane_x stream sl i" and "input_plane_y stream d i = output_plane_y stream sl i"
proof -
  from assms obtain off where sl: "sl = d\<lparr>sd_index := sd_index located, sd_payload := sd_payload located,
      sd_payload_byte_offset := sd_payload_byte_offset located, sd_header_byte_offset := off,
      sd_content_byte_offset := word_of_nat n + sd_payload_byte_offset located,
      sd_footer_byte_offset := sd_footer_byte_offset located, sd_slice_size := sd_slice_size located,
      sd_error_status := sd_error_status located, sd_expected_crc := sd_expected_crc located,
      sd_has_crc := sd_has_crc located\<rparr>"
    unfolding describes_def apply_raster_index [OF assms(2)] by auto
  have "output_slice_plane_width stream sl i = output_slice_plane_width stream d i"
    "output_slice_plane_height stream sl i = output_slice_plane_height stream d i"
    "output_plane_x stream sl i = output_plane_x stream d i" "output_plane_y stream sl i = output_plane_y stream d i"
    unfolding sl by (simp_all add: output_slice_plane_width_def output_slice_plane_height_def output_plane_x_def output_plane_y_def)
  with input_output_rectangle [OF assms(2), of i]
  show "input_slice_plane_width stream d i = output_slice_plane_width stream sl i"
    "input_slice_plane_height stream d i = output_slice_plane_height stream sl i"
    "input_plane_x stream d i = output_plane_x stream sl i" "input_plane_y stream d i = output_plane_y stream sl i"
    by simp_all
qed

lemma input_windows_size:
  assumes "validate_input_window stream frame d = Inr iws" and "frame_views frame views"
  shows "length iws = coded_plane_count stream"
    and "\<And>i. i < length iws \<Longrightarrow> pw_width (iws ! i) = input_slice_plane_width stream d i \<and>
      pw_height (iws ! i) = input_slice_plane_height stream d i \<and> pw_width (iws ! i) \<noteq> 0"
proof -
  from assms have len: "coded_plane_count stream = length views"
    and run: "plane_windows (input_plane_window stream d) 0 (take (coded_plane_count stream) views) = Inr iws"
    by (auto simp: validate_input_window_def frame_views_def Let_def split: if_splits)
  note nth = plane_windows_nth [OF run]
  show "length iws = coded_plane_count stream" using nth len by simp
  fix i assume i: "i < length iws"
  with nth len have w: "input_plane_window stream d i (views ! i) = Inr (iws ! i)" by auto
  have "pi_stride_bytes (pv_info (views ! i)) < 2 ^ 63" using assms(2) i nth len by (simp add: frame_views_def)
  from input_plane_window_at(2-4) [OF w this]
  show "pw_width (iws ! i) = input_slice_plane_width stream d i \<and>
      pw_height (iws ! i) = input_slice_plane_height stream d i \<and> pw_width (iws ! i) \<noteq> 0" by simp
qed

lemma described_shape:
  assumes "describes stream header n located sl" and "apply_raster stream header new_slice_descriptor = Inr d"
    and "validate_input_window stream frame d = Inr iws" and "frame_views frame views"
    and "validate_output_window stream oframe sl = Inr ows" and "frame_views oframe oviews"
  shows "same_shape iws ows" and "length ows = coded_plane_count stream"
    and "\<And>i. i < length ows \<Longrightarrow> pw_width (ows ! i) \<noteq> 0"
proof -
  note inw = input_windows_size [OF assms(3,4)]
  have "coded_plane_count stream \<noteq> 0" by (simp add: coded_plane_count_def)
  have run: "plane_windows (output_plane_window stream sl) 0 (take (coded_plane_count stream) oviews) = Inr ows"
    "coded_plane_count stream \<le> length oviews"
    using assms(5,6) by (auto simp: validate_output_window_def frame_views_def Let_def not_less split: if_splits)
  show len: "length ows = coded_plane_count stream" using plane_windows_nth [OF run(1)] run(2) by simp
  note outw = output_windows_at(4,5) [OF assms(5,6)]
  show "same_shape iws ows"
    unfolding same_shape_def using inw outw len described_rectangle [OF assms(1,2)] by simp
  then show "pw_width (ows ! i) \<noteq> 0" if "i < length ows" for i
    using inw(1) inw(2) [of i] len that by (auto simp: same_shape_def)
qed

lemma input_rgb_windows:
  assumes "apply_raster stream header new_slice_descriptor = Inr d" and "validate_input_window stream frame d = Inr iws"
    and "frame_views frame views" and "sp_colorspace_type stream = 1" and "sp_chroma_planes stream"
  shows "rgb_windows stream iws"
proof -
  have p: "plane_width stream i = sp_width stream" "plane_height stream i = sp_height stream" for i
    using assms(4) by (simp_all add: plane_width_def plane_height_def)
  have d: "sd_width d = plane_extent (sp_width stream) (sp_num_h_slices stream) (sd_raster_x d) (sd_raster_width d)"
    "sd_height d = plane_extent (sp_height stream) (sp_num_v_slices stream) (sd_raster_y d) (sd_raster_height d)"
    using assms(1) by (auto simp: apply_raster_def slice_pixel_width_def slice_pixel_height_def slice_pixel_x_def
        slice_pixel_y_def plane_extent_def Let_def)
  have "input_slice_plane_width stream d i = sd_width d" "input_slice_plane_height stream d i = sd_height d" for i
    using d by (simp_all add: input_slice_plane_width_def input_slice_plane_height_def p)
  with input_windows_size [OF assms(2,3)] show ?thesis
    using assms(5) by (auto simp: rgb_windows_def coded_plane_count_def)
qed

lemma rgb_windows_shape: "same_shape iws ows \<Longrightarrow> rgb_windows stream iws = rgb_windows stream ows"
  unfolding rgb_windows_def same_shape_def by (cases "ows = []") auto

text \<open>Some planes of the shape of any windows.\<close>

lemma backed_output_exists:
  "\<exists>ows m. same_shape iws ows \<and> length ows = length iws \<and> output_backed stream ows m"
proof -
  let ?f = "sample_format_for_bit_depth (sp_bits_per_raw_sample stream)"
  let ?s = "\<lambda>w. unat (pw_width w) * sample_bytes ?f"
  let ?o = "\<lambda>w. \<lparr>pw_data = 0, pw_stride_bytes = int (?s w), pw_width = pw_width w, pw_height = pw_height w, pw_sample_format = ?f\<rparr>"
  let ?ows = "map ?o iws" and ?m = "map (\<lambda>w. replicate (unat (pw_height w) * ?s w) 0) iws :: frame_memory"
  have addr: "row_address (?o w) y = y * ?s w" for w :: plane_window and y
    unfolding row_address_def by (simp del: of_nat_mult flip: of_nat_mult)
  have "window_backed (?o w) (replicate (unat (pw_height w) * ?s w) (0 :: u8))" for w :: plane_window
    unfolding window_backed_def
  proof (intro conjI allI impI)
    fix y assume "y < unat (pw_height (?o w))"
    then have "(y + 1) * ?s w \<le> unat (pw_height w) * ?s w" by (intro mult_le_mono1) simp
    then show "row_address (?o w) y + unat (pw_width (?o w)) * sample_bytes (pw_sample_format (?o w))
        \<le> length (replicate (unat (pw_height w) * ?s w) (0 :: u8))"
      unfolding addr by (simp add: algebra_simps)
  qed (simp_all del: of_nat_mult)
  then have "output_backed stream ?ows ?m" by (simp add: output_backed_def)
  moreover have "same_shape iws ?ows" by (simp add: same_shape_def)
  ultimately show ?thesis by (intro exI [of _ ?ows] exI [of _ ?m]) simp
qed

lemma reset_lines_length: "reset_lines ws = Inr lines \<Longrightarrow> length lines = length ws"
  by (induction ws arbitrary: lines rule: reset_lines.induct) auto

lemma reset_lines_nth:
  assumes "reset_lines ws = Inr lines" and "i < length ws"
  shows "ls_reset (fst (ws ! i)) (snd (ws ! i)) = Inr (lines ! i)"
  using assms by (induction ws arbitrary: lines i rule: reset_lines.induct) (auto simp: nth_Cons split: nat.splits)

lemma reset_same_shape:
  assumes "same_shape iws ows"
  shows "ss_reset_stream_window stream iws state = ss_reset_stream_window stream ows state"
proof -
  have "map (\<lambda>i. (window_plane_width iws i, plane_border_value stream i)) [0..<window_plane_count iws] =
      map (\<lambda>i. (window_plane_width ows i, plane_border_value stream i)) [0..<window_plane_count ows]"
    using assms by (auto simp: same_shape_def window_plane_count_def window_plane_width_def)
  then show ?thesis by (simp only: ss_reset_stream_window_def)
qed

text \<open>Lines are reset to zeros from version 2 on.\<close>

lemma reset_state:
  assumes "ss_reset_stream_window stream ows base = Inr state" and "2 \<le> sp_version stream"
  shows "lines_within stream ows state" and "validate_state_line_geometry ows state = Inr ()"
    and "state = base\<lparr>ss_line_states := ss_line_states state\<rparr>"
proof -
  let ?ws = "map (\<lambda>i. (window_plane_width ows i, plane_border_value stream i)) [0..<window_plane_count ows]"
  from assms(1) obtain lines where lines: "reset_lines ?ws = Inr lines" and state: "state = base\<lparr>ss_line_states := lines\<rparr>"
    by (auto simp: ss_reset_stream_window_def)
  have len: "length lines = length ows" using reset_lines_length [OF lines] by (simp add: window_plane_count_def)
  have line: "ls_reset (pw_width (ows ! i)) 0 = Inr (lines ! i)" if "i < length ows" for i
    using reset_lines_nth [OF lines, of i] that assms(2)
    by (simp add: window_plane_count_def window_plane_width_def plane_border_value_def)
  show "lines_within stream ows state"
    using len line line_within_reset [where border = 0] by (simp add: lines_within_def state ss_line_state_def)
  have "ls_width (lines ! i) = unat (pw_width (ows ! i))" if "i < length ows" for i
    using line_within_reset [OF line [OF that], of 1] by (simp add: line_within_def ls_width_def)
  then have "\<not> list_ex (\<lambda>plane. word_of_nat (ls_width (ss_line_state state plane)) \<noteq> window_plane_width ows plane)
      [0..<window_plane_count ows]"
    by (simp add: list_ex_iff window_plane_count_def window_plane_width_def state ss_line_state_def)
  then show "validate_state_line_geometry ows state = Inr ()"
    using len by (simp add: validate_state_line_geometry_def ss_plane_count_def state window_plane_count_def)
  show "state = base\<lparr>ss_line_states := ss_line_states state\<rparr>" by (simp add: state)
qed

subsection \<open>The range decoder behind the header\<close>

lemma described_fields:
  assumes "describes stream header n located sl"
  shows "sd_index sl = sd_index located" "sd_payload sl = sd_payload located"
    "sd_payload_byte_offset sl = sd_payload_byte_offset located"
    "sd_content_byte_offset sl = word_of_nat n + sd_payload_byte_offset located"
    "sd_footer_byte_offset sl = sd_footer_byte_offset located" "sd_slice_size sl = sd_slice_size located"
    "sd_content_bit_offset sl = 0" "\<not> sd_continues_frame_range_state sl"
    "sd_raster_x sl = hv_x header" "sd_raster_y sl = hv_y header" "sd_raster_width sl = hv_width header"
    "sd_raster_height sl = hv_height header" "sd_quant_table_set_indexes sl = hv_quant_table_set_indexes header"
    "sd_picture_structure sl = hv_picture_structure header" "sd_sar_num sl = hv_sar_num header"
    "sd_sar_den sl = hv_sar_den header"
  using assms by (auto simp: describes_def apply_raster_def new_slice_descriptor_def)

lemma resume_matched:
  assumes run: "encode_slice_prefix stream header wk kf = Inr e"
    and sets: "length (sp_quant_table_sets stream) < 2 ^ 64"
    and raster: "apply_raster stream header new_slice_descriptor = Inr d"
    and sl: "describes stream header (length (re_low_bytes e)) located sl"
    and mode: "sp_entropy_mode stream = RangeMode" and first: "sd_index located = 0 \<longleftrightarrow> wk"
    and entropy: "take (unat (sd_footer_byte_offset located - sd_payload_byte_offset located)) (sd_payload located) = bs"
    and intra: "wk \<longrightarrow> kf \<or> \<not> sp_intra_only stream"
    and recon: "re_reconfigure_contexts counts states e = Inr e1"
    and c: "contains bs e1" and n: "length (re_low_bytes e) \<le> length bs"
  shows "\<exists>r. resume_after_slice_header stream sl counts states = Inr r \<and> in_sync bs e1 r" and "enc_inv e1"
proof -
  note prefix = prefix_matched [OF run sets] note fields = described_fields [OF sl]
  note recon_m = re_reconfigure_matched [OF prefix(1) recon]
  show "enc_inv e1" using matched_winv [OF recon_m] by simp
  have "2 \<le> length bs" using n prefix(1) by (simp add: enc_inv_def)
  moreover have ce: "contains bs e" using recon_m [of bs] c by (simp add: matched_def)
  ultimately obtain d0 d1 d2 where
    d0: "rc_reset_transition bs (sp_state_transition stream) new_range_coder = Inr d0" and
    d1: "if wk then \<exists>d'. rc_read_bool d0 = Inr (kf, d') \<and> rc_reconfigure_contexts [1] [] d' = Inr d1 else d1 = d0" and
    d2: "read_slice_header range_symbol_reader stream d1 = Inr (header, d2)" and sync: "in_sync bs e d2"
    using prefix(2) unfolding prefix_read_def by blast
  from recon_m [of bs] c sync obtain r where r: "rc_reconfigure_contexts counts states d2 = Inr r" "in_sync bs e1 r"
    by (auto simp: matched_def)
  have flag: "(if sd_index sl = 0
      then bind_result (reread_keyframe stream sl d0) (\<lambda>(keyframe, reader).
        map_error (add_byte_offset (sd_payload_byte_offset sl)) (rc_reconfigure_contexts [1] [] reader))
      else Inr d0) = Inr d1"
  proof (cases wk)
    case True
    with d1 obtain d' where d': "rc_read_bool d0 = Inr (kf, d')" "rc_reconfigure_contexts [1] [] d' = Inr d1" by auto
    then have "reread_keyframe stream sl d0 = Inr (kf, d')" using intra True by (simp add: reread_keyframe_def)
    with True d'(2) first show ?thesis by (simp add: fields)
  next
    case False
    with d1 first show ?thesis by (simp add: fields)
  qed
  let ?enc = "d\<lparr>sd_header_byte_offset := word_of_nat (rc_byte_position d1),
        sd_content_byte_offset := word_of_nat (rc_byte_position d2), sd_payload_byte_offset := word_of_nat (rc_byte_position d1)\<rparr>"
  have parsed: "read_slice_descriptor range_symbol_reader stream new_slice_descriptor d1 = Inr (?enc, d2)"
    using d2 raster by (simp add: read_slice_descriptor_def range_symbol_reader_def Let_def)
  have same: "same_encoded_header stream ?enc sl d2"
    using raster mode in_sync_content_position(1) [OF sync n]
    by (auto simp: same_encoded_header_def fields apply_raster_def)
  have "resume_after_slice_header stream sl counts states = Inr r"
    unfolding resume_after_slice_header_def Let_def fields(2,3,5) entropy
    using d0 flag [unfolded fields(3)] parsed same r(1) by simp
  with r(2) show "\<exists>r. resume_after_slice_header stream sl counts states = Inr r \<and> in_sync bs e1 r" by blast
qed

subsection \<open>The contents of a slice\<close>

text \<open>
  Where the slice lies: \<open>located\<close> is the descriptor of the bytes \<open>bytes\<close>, whose footer starts behind the entropy
  coded bytes.
\<close>

definition slice_entropy :: "stream_parameters \<Rightarrow> bytes \<Rightarrow> bytes" where
  "slice_entropy stream bytes = take (length bytes - footer_size stream) bytes"

definition locates :: "stream_parameters \<Rightarrow> slice_descriptor \<Rightarrow> bytes \<Rightarrow> bool" where
  "locates stream located bytes \<longleftrightarrow>
     sd_payload located = bytes \<and> footer_size stream \<le> length bytes \<and>
     unat (sd_payload_byte_offset located) + length bytes < 2 ^ 64 \<and>
     unat (sd_footer_byte_offset located) = unat (sd_payload_byte_offset located) + (length bytes - footer_size stream) \<and>
     unat (sd_slice_size located) = length bytes - footer_size stream"

lemma located_footer:
  assumes "locates stream located bytes"
  shows "unat (sd_footer_byte_offset located - sd_payload_byte_offset located) = length bytes - footer_size stream"
    and "take (unat (sd_footer_byte_offset located - sd_payload_byte_offset located)) (sd_payload located) = slice_entropy stream bytes"
    and "\<not> sd_footer_byte_offset located < sd_payload_byte_offset located"
proof -
  from assms have "unat (sd_footer_byte_offset located) = unat (sd_payload_byte_offset located) + (length bytes - footer_size stream)"
    unfolding locates_def by blast
  then have le: "unat (sd_payload_byte_offset located) \<le> unat (sd_footer_byte_offset located)" by linarith
  then show "\<not> sd_footer_byte_offset located < sd_payload_byte_offset located" by (simp add: word_less_nat_alt)
  show u: "unat (sd_footer_byte_offset located - sd_payload_byte_offset located) = length bytes - footer_size stream"
    using assms by (subst unat_diff_bounded [OF le]) (simp add: locates_def)
  then show "take (unat (sd_footer_byte_offset located - sd_payload_byte_offset located)) (sd_payload located) = slice_entropy stream bytes"
    using assms by (simp add: slice_entropy_def locates_def)
qed

lemma located_content:
  assumes loc: "locates stream located bytes" and sl: "describes stream header n located sl"
    and n: "n \<le> length bytes - footer_size stream" "0 < n"
    and nonempty: "sp_entropy_mode stream = GolombRiceMode \<Longrightarrow> n < length bytes - footer_size stream"
    and version: "3 \<le> sp_version stream"
  shows "resolve_content_payload stream sl = Inr (drop n (slice_entropy stream bytes))"
    and "sd_slice_size sl \<noteq> 0"
proof -
  note fields = described_fields [OF sl] note foot = located_footer [OF loc]
  let ?p = "sd_payload_byte_offset located" and ?m = "length bytes - footer_size stream"
  have b: "sd_payload located = bytes" "unat ?p + length bytes < 2 ^ 64" "unat (sd_slice_size located) = ?m"
    using loc by (simp_all add: locates_def)
  have nb: "n < 2 ^ 64" using n b(2) by linarith
  have u: "unat (word_of_nat n :: u64) = n" using nb by (intro unat_of_nat_bounded) simp
  show size: "sd_slice_size sl \<noteq> 0" using b(3) n unfolding fields by (metis unat_0 not_less0 le_zero_eq)
  have content: "unat (word_of_nat n + ?p) = n + unat ?p"
    using n b(2) by (subst unat_add_bounded) (simp_all add: u)
  then have c1: "\<not> word_of_nat n + ?p < ?p" by (simp add: word_less_nat_alt)
  have local: "word_of_nat n + ?p - ?p = word_of_nat n" by simp
  have c2: "\<not> length bytes < unat (word_of_nat n :: u64)" using n by (simp add: u)
  let ?f = "sd_footer_byte_offset located - ?p"
  have c3: "\<not> ?f < word_of_nat n" using n foot(1) by (simp add: word_less_nat_alt u)
  have c4: "\<not> length bytes < unat ?f" using foot(1) by simp
  have cend: "local_content_end sl (word_of_nat n) = Inr ?f"
    using size foot(3) c3 c4 unfolding fields by (simp add: local_content_end_def fields b(1) Let_def)
  have "unat (?f - word_of_nat n) = ?m - n"
    using n by (subst unat_diff_bounded) (simp_all add: u foot(1))
  then have payload: "take (unat (?f - word_of_nat n)) (drop (unat (word_of_nat n :: u64)) bytes) = drop n (slice_entropy stream bytes)"
    by (simp add: u slice_entropy_def drop_take)
  have "drop n (slice_entropy stream bytes) = [] \<Longrightarrow> sp_entropy_mode stream = RangeMode"
    using nonempty n by (cases "sp_entropy_mode stream") (auto simp: slice_entropy_def)
  then show "resolve_content_payload stream sl = Inr (drop n (slice_entropy stream bytes))"
    using c1 c2 cend payload size version
    unfolding resolve_content_payload_def Let_def fields b(1) local
    by (auto simp del: take_eq_Nil take_eq_Nil2 drop_eq_Nil drop_eq_Nil2)
qed

text \<open>The checks of the descriptor pass.\<close>

lemma described_valid:
  assumes stream: "validate_encoder_stream stream = Inr u" and raster: "apply_raster stream header new_slice_descriptor = Inr d"
    and sl: "describes stream header n located sl" and version: "3 \<le> sp_version stream"
    and idx: "length (hv_quant_table_set_indexes header) = quant_table_set_index_count stream"
    and planes: "length ows = coded_plane_count stream" and content: "resolve_content_payload stream sl = Inr c"
  shows "validate_slice stream sl ows = Inr ()"
proof -
  note fields = described_fields [OF sl] note ok = validate_encoder_stream_Inr [OF stream]
  note zero = header_indexes_zero [OF raster ok(5)]
  have "is_supported_decoder_bit_depth (sp_bits_per_raw_sample stream)"
    using stream by (auto simp: validate_encoder_stream_def is_supported_decoder_bit_depth_def
        is_supported_encoder_bit_depth_def Let_def split: if_splits)
  moreover have "fold_result (validate_table_index stream) (hv_quant_table_set_indexes header) () = Inr ()"
    by (subst zero(1)) (rule ok(6))
  moreover have "sp_quant_table_sets stream \<noteq> []" using ok(5) by auto
  ultimately show ?thesis
    using content zero(2) idx planes version
    unfolding validate_slice_def fields window_plane_count_def by simp
qed

subsection \<open>Range coded slices\<close>

lemma encode_slice_Inr:
  assumes "encode_slice stream kernels frame im header wk kf st = Inr (bytes, st')"
  obtains d iws base ws e where "validate_encoder_stream stream = Inr ()" and "sp_version stream = 3"
    and "wk \<longrightarrow> kf \<or> \<not> sp_intra_only stream" and "validate_input stream frame = Inr ()"
    and "apply_raster stream header new_slice_descriptor = Inr d" and "validate_input_window stream frame d = Inr iws"
    and "reference_state stream kf st = Inr base" and "ss_reset_stream_window stream iws base = Inr ws"
    and "encode_slice_prefix stream header wk kf = Inr e"
    and "sp_entropy_mode stream = GolombRiceMode \<Longrightarrow> finish_golomb_rice_slice stream kernels iws im ws e = Inr (bytes, st')"
    and "sp_entropy_mode stream = RangeMode \<Longrightarrow> finish_range_slice stream kernels header iws im ws e = Inr (bytes, st')"
  using assms by (auto simp: encode_slice_def split: if_splits)

lemma finish_range_slice_Inr:
  assumes "finish_range_slice stream kernels header iws im ws e = Inr (bytes, st')" and "sp_version stream = 3"
  obtains states e1 ws' e2 payload e3 where
    "saved_or_initial_states (slot_context_counts stream (hv_quant_table_set_indexes header) (quant_table_set_index_count stream))
       (slot_initial_states stream (hv_quant_table_set_indexes header) (quant_table_set_index_count stream)) ws = Inr states"
    and "re_reconfigure_contexts (slot_context_counts stream (hv_quant_table_set_indexes header)
       (quant_table_set_index_count stream)) states e = Inr e1"
    and "encode_samples stream kernels iws im ws e1 = Inr (ws', e2)"
    and "capture_encoder_contexts e2 ws' = Inr st'" and "re_finalize_impl True e2 = Inr (payload, e3)"
    and "append_footer stream 0 payload = Inr bytes"
  using assms by (auto simp: finish_range_slice_def re_finalize_closed_def Let_def)

lemma finished_payload:
  assumes "append_footer stream 0 payload = Inr bytes"
  shows "slice_entropy stream bytes = payload" and "length bytes = length payload + footer_size stream"
    and "\<And>k. k \<le> length payload \<Longrightarrow> prefix_value bytes k = prefix_value payload k"
proof -
  from assms have bytes: "bytes = payload @ footer_bytes stream 0 payload"
    by (auto simp: append_footer_eq split: if_splits)
  then show "slice_entropy stream bytes = payload" "length bytes = length payload + footer_size stream"
    by (simp_all add: slice_entropy_def)
  show "prefix_value bytes k = prefix_value payload k" if "k \<le> length payload" for k
    using that prefix_value_take [of k payload] prefix_value_take [of k bytes] by (simp add: bytes)
qed

text \<open>The parser reads the header of a slice whose bytes continue the prefix.\<close>

lemma slice_parsed:
  assumes stream: "validate_encoder_stream stream = Inr ()"
    and run: "encode_slice_prefix stream header wk kf = Inr e" and raster: "apply_raster stream header new_slice_descriptor = Inr d"
    and intra: "wk \<longrightarrow> kf \<or> \<not> sp_intra_only stream"
    and foot: "append_footer stream 0 payload = Inr bytes" and loc: "locates stream located bytes"
    and c: "contains payload e" and n: "length (re_low_bytes e) \<le> length payload"
    and golomb: "sp_entropy_mode stream = GolombRiceMode \<Longrightarrow>
      prefix_value payload (length (re_low_bytes e)) = be_val (re_low_bytes e)"
  shows "\<exists>sl. parse_located_slice stream located wk k0 = Inr (sl, if wk then kf else k0) \<and>
    describes stream header (length (re_low_bytes e)) located sl"
proof -
  note ok = validate_encoder_stream_Inr [OF stream] note final = finished_payload [OF foot]
  have sets: "length (sp_quant_table_sets stream) < 2 ^ 64" using ok(5) by simp
  have b: "sd_payload located = bytes" "length bytes < 2 ^ 64" using loc by (auto simp: locates_def)
  have pv: "prefix_value bytes (length (re_low_bytes e)) = prefix_value payload (length (re_low_bytes e))"
    using final(3) n by simp
  have cb: "contains (sd_payload located) e" using c pv b(1) by (simp add: contains_def)
  have nb: "length (re_low_bytes e) \<le> length (sd_payload located)" using n final(2) b(1) by simp
  have gb: "prefix_value (sd_payload located) (length (re_low_bytes e)) = be_val (re_low_bytes e)"
    if "sp_entropy_mode stream = GolombRiceMode" using golomb [OF that] pv b(1) by simp
  have len: "length (sd_payload located) < 2 ^ 64" using b by simp
  show ?thesis by (rule parsed_slice_describes [OF run sets cb nb gb raster len intra])
qed

lemma described_contexts:
  assumes raster: "apply_raster stream header new_slice_descriptor = Inr d" and one: "length (sp_quant_table_sets stream) = 1"
    and sl: "describes stream header n located sl" and version: "sp_version stream = 3"
    and idx: "length (hv_quant_table_set_indexes header) = quant_table_set_index_count stream" and "i < plane_count"
    and planes: "plane_count \<le> coded_plane_count stream"
  shows "slice_context_models stream sl plane_count ! i = sp_quant_table_sets stream ! 0"
proof -
  note fields = described_fields [OF sl] note zero = header_indexes_zero(1) [OF raster one]
  have "plane_quant_table_set_index_slot stream i < quant_table_set_index_count stream"
    using assms(6) planes version
    by (auto simp: plane_quant_table_set_index_slot_def quant_table_set_index_count_def coded_plane_count_def
        is_chroma_plane_def split: if_splits)
  then have "hv_quant_table_set_indexes header ! plane_quant_table_set_index_slot stream i = 0"
    unfolding idx [symmetric] by (subst zero) simp
  then show ?thesis
    using assms(6) version by (simp add: slice_context_models_def plane_table_set_index_def fields)
qed

context lossless_kernels begin

lemma range_slice_decoded:
  assumes enc: "encode_slice stream kernels frame im header wk kf st = Inr (bytes, st')"
    and mode: "sp_entropy_mode stream = RangeMode" and views: "frame_views frame views"
    and loc: "locates stream located bytes" and first: "sd_index located = 0 \<longleftrightarrow> wk"
    and fits: "slice_prefix_size stream header wk kf + footer_size stream \<le> length bytes"
  shows "\<exists>sl d iws base. parse_located_slice stream located wk k0 = Inr (sl, if wk then kf else k0) \<and>
    describes stream header (slice_prefix_size stream header wk kf) located sl \<and>
    apply_raster stream header new_slice_descriptor = Inr d \<and> validate_input_window stream frame d = Inr iws \<and>
    reference_state stream kf st = Inr base \<and>
    (\<forall>oframe oviews ows m allow. validate_output_window stream oframe sl = Inr ows \<longrightarrow> frame_views oframe oviews \<longrightarrow>
      output_backed stream ows m \<longrightarrow>
      (\<exists>state m'. ss_reset_stream_window stream ows base = Inr state \<and>
         decode_slice stream kernels allow sl ows (state, m) = Inr (st', m') \<and> output_backed stream ows m' \<and>
         copied stream iws im ows m' {(i, y). i < length ows \<and> y < unat (pw_height (ows ! i))}))"
proof -
  from encode_slice_Inr [OF enc] mode obtain d iws base ws e where
    stream: "validate_encoder_stream stream = Inr ()" and version: "sp_version stream = 3" and
    intra: "wk \<longrightarrow> kf \<or> \<not> sp_intra_only stream" and raster: "apply_raster stream header new_slice_descriptor = Inr d" and
    iws: "validate_input_window stream frame d = Inr iws" and base: "reference_state stream kf st = Inr base" and
    ws: "ss_reset_stream_window stream iws base = Inr ws" and run: "encode_slice_prefix stream header wk kf = Inr e" and
    finish: "finish_range_slice stream kernels header iws im ws e = Inr (bytes, st')" by metis
  let ?idx = "hv_quant_table_set_indexes header" and ?k = "quant_table_set_index_count stream"
  let ?counts = "slot_context_counts stream ?idx ?k"
  from finish_range_slice_Inr [OF finish version] obtain states e1 ws' e2 payload e3 where
    states: "saved_or_initial_states ?counts (slot_initial_states stream ?idx ?k) ws = Inr states" and
    recon: "re_reconfigure_contexts ?counts states e = Inr e1" and
    samples: "encode_samples stream kernels iws im ws e1 = Inr (ws', e2)" and
    capture: "capture_encoder_contexts e2 ws' = Inr st'" and final: "re_finalize_impl True e2 = Inr (payload, e3)" and
    foot: "append_footer stream 0 payload = Inr bytes" by metis
  note ok = validate_encoder_stream_Inr [OF stream] note fin = finished_payload [OF foot]
  have sets: "length (sp_quant_table_sets stream) < 2 ^ 64" using ok(5) by simp
  note prefix = prefix_matched [OF run sets] note inw = input_windows_size [OF iws views]
  have inv1: "enc_inv e1" using matched_winv [OF re_reconfigure_matched [OF prefix(1) recon]] by simp
  have rgb: "sp_colorspace_type stream = 1 \<longrightarrow> rgb_windows stream iws"
    using input_rgb_windows [OF raster iws views] ok(4) by blast
  have order: "\<not> use_legacy_range_ycbcr_row_order stream" using version by (simp add: use_legacy_range_ycbcr_row_order_def)
  have two: "2 \<le> sp_version stream" using version by simp
  have n: "slice_prefix_size stream header wk kf = length (re_low_bytes e)" by (rule slice_prefix_size_eq [OF run])
  have step: "\<exists>m'. matched (range_link bs) e1 e2 (decode_range_samples off stream kernels models banks ows (ws, m)) (ws', m') \<and>
      output_backed stream ows m' \<and> copied stream iws im ows m' {(i, y). i < length ows \<and> y < unat (pw_height (ows ! i))}"
    if shape: "same_shape iws ows" and out: "output_backed stream ows m" and ctx: "same_contexts stream models banks (length ows)"
    for ows m bs off models banks
  proof -
    have planes: "length ows = coded_plane_count stream" using shape inw(1) by (simp add: same_shape_def)
    have rgbw: "sp_colorspace_type stream = 1 \<longrightarrow> rgb_windows stream ows" using rgb rgb_windows_shape [OF shape] by simp
    have lines: "lines_within stream ows ws" using reset_state(1) [OF ws [unfolded reset_same_shape [OF shape]] two] .
    from range_samples_matched [OF samples inv1 shape planes rgbw mode order ctx lines ok(2,3) out, of bs off]
    show ?thesis by blast
  qed
  obtain ows0 m0 where dummy: "same_shape iws ows0" "output_backed stream ows0 m0"
    using backed_output_exists by blast
  let ?models = "replicate (length ows0) (sp_quant_table_sets stream ! 0)" and ?banks = "map (range_context_bank_index stream) [0..<length ows0]"
  have "same_contexts stream ?models ?banks (length ows0)" by (simp add: same_contexts_def)
  from step [OF dummy this] have inv2: "enc_inv e2" and down: "contains bs e2 \<Longrightarrow> contains bs e1" for bs
    by (force simp: matched_def)+
  note finalized = re_finalize_correct [OF inv2 final]
  have c: "contains payload e1" "contains payload e"
    using down [OF finalized(1)] re_reconfigure_matched [OF prefix(1) recon, of payload] by (simp_all add: matched_def)
  have nle: "length (re_low_bytes e) \<le> length payload" using fits n fin(2) by simp
  from slice_parsed [OF stream run raster intra foot loc c(2) nle, of k0] mode obtain sl where
    parsed: "parse_located_slice stream located wk k0 = Inr (sl, if wk then kf else k0)" and
    sl: "describes stream header (length (re_low_bytes e)) located sl" by auto
  note fields = described_fields [OF sl]
  have idx: "length ?idx = ?k" by (rule prefix_index_count [OF run])
  have "2 \<le> length (re_low_bytes e)" using prefix(1) by (simp add: enc_inv_def)
  then have npos: "0 < length (re_low_bytes e)" by linarith
  have nle': "length (re_low_bytes e) \<le> length bytes - footer_size stream" using nle fin(2) by simp
  have three: "3 \<le> sp_version stream" using version by simp
  note content = located_content [OF loc sl nle' npos _ three]
  have decoded: "\<exists>state m'. ss_reset_stream_window stream ows base = Inr state \<and>
      decode_slice stream kernels allow sl ows (state, m) = Inr (st', m') \<and> output_backed stream ows m' \<and>
      copied stream iws im ows m' {(i, y). i < length ows \<and> y < unat (pw_height (ows ! i))}"
    if win: "validate_output_window stream oframe sl = Inr ows" and oviews: "frame_views oframe oviews"
      and out: "output_backed stream ows m" for oframe oviews ows m allow
  proof -
    note shape = described_shape [OF sl raster iws views win oviews]
    have ws': "ss_reset_stream_window stream ows base = Inr ws" using ws reset_same_shape [OF shape(1)] by simp
    note state = reset_state [OF ws' two]
    have wn: "window_plane_count ows = coded_plane_count stream" using shape(2) by (simp add: window_plane_count_def)
    let ?models = "slice_context_models stream sl (window_plane_count ows)"
    let ?banks = "range_bank_indexes stream (sd_continues_frame_range_state sl) (window_plane_count ows)"
    have ctx: "same_contexts stream ?models ?banks (length ows)"
      using described_contexts [OF raster ok(5) sl version idx] shape(2) three
      by (simp add: same_contexts_def wn range_bank_indexes_def range_context_bank_index_def)
    from step [OF shape(1) out ctx, of payload "sd_payload_byte_offset sl"] obtain m' where
      m': "matched (range_link payload) e1 e2 (decode_range_samples (sd_payload_byte_offset sl) stream kernels ?models ?banks ows (ws, m)) (ws', m')"
        "output_backed stream ows m'" "copied stream iws im ows m' {(i, y). i < length ows \<and> y < unat (pw_height (ows ! i))}"
      by blast
    have entropy: "take (unat (sd_footer_byte_offset located - sd_payload_byte_offset located)) (sd_payload located) = payload"
      using located_footer(2) [OF loc] fin(1) by simp
    from resume_matched(1) [OF run sets raster sl mode first entropy intra recon c(1) nle]
    obtain r where r: "resume_after_slice_header stream sl ?counts states = Inr r" "in_sync payload e1 r" by blast
    from m'(1) finalized(1) r(2) obtain r' where
      r': "decode_range_samples (sd_payload_byte_offset sl) stream kernels ?models ?banks ows (ws, m) r = Inr ((ws', m'), r')"
        "in_sync payload e2 r'" by (auto simp: matched_def)
    have captured: "capture_decoder_contexts r' ws' = Inr st'"
      using capture r'(2) by (auto simp: capture_decoder_contexts_def capture_encoder_contexts_def rc_copy_contexts_def
          re_copy_contexts_def in_sync_def split: if_splits)
    have valid: "validate_slice stream sl ows = Inr ()"
      by (rule described_valid [OF stream raster sl three idx shape(2) content(1)]) (simp add: mode)
    have counts: "range_bank_counts stream sl (window_plane_count ows) = ?counts"
      "range_bank_states stream sl (window_plane_count ows) = slot_initial_states stream ?idx ?k"
      using three by (simp_all add: range_bank_counts_def range_bank_states_def fields)
    have opened: "open_slice_reader stream sl c ?counts states = Inr (r, sd_payload_byte_offset sl)" for c
      using three content(2) mode r(1) by (simp add: open_slice_reader_def)
    have "decode_slice stream kernels allow sl ows (ws, m) = Inr (st', m')"
      unfolding decode_slice_def prod.case Let_def valid state(2) bind_result_Inr counts
      using content(1) mode states opened r'(1) captured by simp
    with ws' m'(2,3) show ?thesis by blast
  qed
  then show ?thesis using parsed sl raster iws base unfolding n by blast
qed

end

subsection \<open>Golomb-Rice coded slices\<close>

lemma finish_aligned_reader:
  assumes "reader_ok r" and "length (unread r) < 8"
  shows "finish_golomb_reader stream allow off r = Inr ()"
proof -
  let ?p = "unat (br_bit_position r)" and ?n = "8 * length (br_data r)"
  have p: "?p \<le> ?n" "?n - ?p < 8" "?n < 2 ^ 64" using assms by (auto simp: reader_ok_def unread_def)
  have m: "unat (br_bit_position r mod 8) = ?p mod 8" by (simp add: unat_mod)
  have q: "?p = 8 * (?p div 8) + ?p mod 8" "?p mod 8 < 8" by simp_all
  have word: "w = word_of_nat ?n" if "unat w = ?n" for w :: u64
    using that p(3) by (simp only: word_unat_eq_iff) (subst unat_of_nat_bounded; simp)
  have "br_byte_align r = r\<lparr>br_bit_position := word_of_nat ?n\<rparr>"
  proof (cases "?p mod 8 = 0")
    case True
    have "\<not> ?p div 8 < length (br_data r)" using p(2) q(1) True by linarith
    then have "?p = ?n" using p(1) q(1) True by linarith
    then have "br_bit_position r = word_of_nat ?n" by (rule word)
    moreover have "br_bit_position r mod 8 = 0" using m True by (simp add: unat_eq_zero)
    ultimately show ?thesis by (simp add: br_byte_align_def Let_def)
  next
    case False
    then have "0 < ?p mod 8" by simp
    then have "\<not> length (br_data r) \<le> ?p div 8" "\<not> ?p div 8 + 2 \<le> length (br_data r)" using p(1,2) q(1) by linarith+
    then have "length (br_data r) = ?p div 8 + 1" by linarith
    then have e: "?p + (8 - ?p mod 8) = ?n" using q by linarith
    have eight: "unat (8 :: u64) = 8" by simp
    have "unat (br_bit_position r mod 8) \<le> unat (8 :: u64)" unfolding m eight by simp
    from unat_diff_bounded [OF this] have d: "unat (8 - br_bit_position r mod 8) = 8 - ?p mod 8" unfolding m eight .
    have "?p + unat (8 - br_bit_position r mod 8) < 2 ^ LENGTH(64)" unfolding d e using p(3) by simp
    from unat_add_bounded [OF this] have "unat (br_bit_position r + (8 - br_bit_position r mod 8)) = ?n" unfolding d e .
    then have "br_bit_position r + (8 - br_bit_position r mod 8) = word_of_nat ?n" by (rule word)
    moreover have "br_bit_position r mod 8 \<noteq> 0" using m False by (metis unat_0)
    ultimately show ?thesis by (simp add: br_byte_align_def Let_def)
  qed
  moreover have "remaining_bits (r\<lparr>br_bit_position := word_of_nat ?n\<rparr>) = 0"
    by (simp add: remaining_bits_def Let_def mult.commute)
  ultimately show ?thesis by (simp add: finish_golomb_reader_def Let_def)
qed

text \<open>The bits of the content are those of the samples and less than a byte of zeros.\<close>

lemma golomb_rice_content_bits:
  assumes "golomb_rice_content stream kernels iws im ws = Inr (content, ws')"
  obtains wr k where "encode_golomb_rice_samples stream kernels iws im ws new_bit_writer = Inr (ws', wr)"
    and "writer_ok wr \<Longrightarrow> bits_of_bytes content = written wr @ replicate k False" and "k < 8"
proof -
  from assms obtain wr wr1 wr2 where enc: "encode_golomb_rice_samples stream kernels iws im ws new_bit_writer = Inr (ws', wr)"
    and al: "bw_byte_align_zero wr = Inr wr1" and fin: "bw_finalize wr1 = Inr (content, wr2)"
    by (auto simp: golomb_rice_content_def)
  show thesis
  proof (rule that [OF enc])
    assume ok: "writer_ok wr"
    note al = byte_align_correct [OF ok al]
    from finalize_correct(1) [OF al(1) fin] al(2)
    show "bits_of_bytes content = written wr @ replicate ((8 - length (written wr) mod 8) mod 8) False" by simp
  qed simp
qed

lemma finish_golomb_rice_slice_Inr:
  assumes "finish_golomb_rice_slice stream kernels iws im ws e = Inr (bytes, st')"
  obtains payload content e' where "re_finalize_impl False e = Inr (payload, e')" and "payload = re_low_bytes e"
    and "golomb_rice_content stream kernels iws im ws = Inr (content, st')" and "append_footer stream 0 (payload @ content) = Inr bytes"
  using assms by (auto simp: finish_golomb_rice_slice_def re_finalize_def re_finalize_impl_def Let_def split: if_splits)

lemma described_golomb_contexts:
  assumes raster: "apply_raster stream header new_slice_descriptor = Inr d" and one: "length (sp_quant_table_sets stream) = 1"
    and sl: "describes stream header n located sl" and version: "sp_version stream = 3"
    and idx: "length (hv_quant_table_set_indexes header) = quant_table_set_index_count stream"
  shows "golomb_rice_bank_counts stream sl =
      replicate (quant_table_set_index_count stream) (qt_context_count (sp_quant_table_sets stream ! 0))"
proof -
  note fields = described_fields [OF sl] note zero = header_indexes_zero(1) [OF raster one]
  have "hv_quant_table_set_indexes header ! i = 0" if "i < quant_table_set_index_count stream" for i
    using that unfolding idx [symmetric] by (subst zero) simp
  then have "map (\<lambda>i. qt_context_count (sp_quant_table_sets stream ! unat (hv_quant_table_set_indexes header ! i)))
      [0..<quant_table_set_index_count stream] =
    map (\<lambda>i. qt_context_count (sp_quant_table_sets stream ! 0)) [0..<quant_table_set_index_count stream]" by simp
  then show ?thesis
    using version by (simp add: golomb_rice_bank_counts_def slot_context_counts_def slot_table_set_index_def fields map_replicate_const)
qed

context lossless_kernels begin

lemma golomb_slice_decoded:
  assumes enc: "encode_slice stream kernels frame im header wk kf st = Inr (bytes, st')"
    and mode: "sp_entropy_mode stream = GolombRiceMode" and views: "frame_views frame views"
    and loc: "locates stream located bytes"
    and fits: "slice_prefix_size stream header wk kf + footer_size stream < length bytes"
  shows "\<exists>sl d iws base. parse_located_slice stream located wk k0 = Inr (sl, if wk then kf else k0) \<and>
    describes stream header (slice_prefix_size stream header wk kf) located sl \<and>
    apply_raster stream header new_slice_descriptor = Inr d \<and> validate_input_window stream frame d = Inr iws \<and>
    reference_state stream kf st = Inr base \<and>
    (\<forall>oframe oviews ows m allow. validate_output_window stream oframe sl = Inr ows \<longrightarrow> frame_views oframe oviews \<longrightarrow>
      output_backed stream ows m \<longrightarrow>
      (\<exists>state m'. ss_reset_stream_window stream ows base = Inr state \<and>
         decode_slice stream kernels allow sl ows (state, m) = Inr (st', m') \<and> output_backed stream ows m' \<and>
         copied stream iws im ows m' {(i, y). i < length ows \<and> y < unat (pw_height (ows ! i))}))"
proof -
  from encode_slice_Inr [OF enc] mode obtain d iws base ws e where
    stream: "validate_encoder_stream stream = Inr ()" and version: "sp_version stream = 3" and
    intra: "wk \<longrightarrow> kf \<or> \<not> sp_intra_only stream" and raster: "apply_raster stream header new_slice_descriptor = Inr d" and
    iws: "validate_input_window stream frame d = Inr iws" and base: "reference_state stream kf st = Inr base" and
    ws: "ss_reset_stream_window stream iws base = Inr ws" and run: "encode_slice_prefix stream header wk kf = Inr e" and
    finish: "finish_golomb_rice_slice stream kernels iws im ws e = Inr (bytes, st')" by metis
  from finish_golomb_rice_slice_Inr [OF finish] obtain payload content e' where
    final: "re_finalize_impl False e = Inr (payload, e')" and low: "payload = re_low_bytes e" and
    content: "golomb_rice_content stream kernels iws im ws = Inr (content, st')" and
    foot: "append_footer stream 0 (payload @ content) = Inr bytes" by metis
  from golomb_rice_content_bits [OF content] obtain wr k where
    samples: "encode_golomb_rice_samples stream kernels iws im ws new_bit_writer = Inr (st', wr)" and
    bits: "writer_ok wr \<Longrightarrow> bits_of_bytes content = written wr @ replicate k False" and k: "k < 8" by metis
  note ok = validate_encoder_stream_Inr [OF stream] note fin = finished_payload [OF foot]
  have sets: "length (sp_quant_table_sets stream) < 2 ^ 64" using ok(5) by simp
  note prefix = prefix_matched [OF run sets] note inw = input_windows_size [OF iws views]
  have rgb: "sp_colorspace_type stream = 1 \<longrightarrow> rgb_windows stream iws"
    using input_rgb_windows [OF raster iws views] ok(4) by blast
  have two: "2 \<le> sp_version stream" and three: "3 \<le> sp_version stream" using version by simp_all
  have n: "slice_prefix_size stream header wk kf = length (re_low_bytes e)" by (rule slice_prefix_size_eq [OF run])
  let ?n = "length (re_low_bytes e)"
  have npos: "0 < ?n" using prefix(1) unfolding enc_inv_def by linarith
  have whole: "prefix_value (payload @ content) ?n = be_val (re_low_bytes e)"
    using prefix_value_take [of ?n "payload @ content"] by (simp add: low)
  have c: "contains (payload @ content) e"
    using prefix(1) whole unfolding contains_def enc_inv_def by linarith
  have nle: "?n \<le> length (payload @ content)" by (simp add: low)
  from slice_parsed [OF stream run raster intra foot loc c nle whole, of k0] obtain sl where
    parsed: "parse_located_slice stream located wk k0 = Inr (sl, if wk then kf else k0)" and
    sl: "describes stream header ?n located sl" by blast
  note fields = described_fields [OF sl]
  have idx: "length (hv_quant_table_set_indexes header) = quant_table_set_index_count stream" by (rule prefix_index_count [OF run])
  have nlt: "?n < length bytes - footer_size stream" using fits n by simp
  then have nle': "?n \<le> length bytes - footer_size stream" by simp
  from located_content(1) [OF loc sl nle' npos nlt three]
  have payload: "resolve_content_payload stream sl = Inr content" by (simp add: fin(1) low)
  have size: "8 * length content < 2 ^ 64"
  proof -
    have "length (payload @ content) \<le> maximum_slice_size" using foot by (auto simp: append_footer_eq)
    then show ?thesis by (simp add: maximum_slice_size_def)
  qed
  have decoded: "\<exists>state m'. ss_reset_stream_window stream ows base = Inr state \<and>
      decode_slice stream kernels allow sl ows (state, m) = Inr (st', m') \<and> output_backed stream ows m' \<and>
      copied stream iws im ows m' {(i, y). i < length ows \<and> y < unat (pw_height (ows ! i))}"
    if win: "validate_output_window stream oframe sl = Inr ows" and oviews: "frame_views oframe oviews"
      and out: "output_backed stream ows m" for oframe oviews ows m allow
  proof -
    note shape = described_shape [OF sl raster iws views win oviews]
    have ws': "ss_reset_stream_window stream ows base = Inr ws" using ws reset_same_shape [OF shape(1)] by simp
    note state = reset_state [OF ws' two]
    have wn: "window_plane_count ows = coded_plane_count stream" using shape(2) by (simp add: window_plane_count_def)
    let ?models = "slice_context_models stream sl (window_plane_count ows)"
    let ?banks = "golomb_rice_bank_indexes stream sl (window_plane_count ows)" and ?counts = "golomb_rice_bank_counts stream sl"
    have rgbw: "sp_colorspace_type stream = 1 \<longrightarrow> rgb_windows stream ows" using rgb rgb_windows_shape [OF shape(1)] by simp
    have ctx: "same_golomb_contexts stream ?models ?banks (length ows)"
      using described_contexts [OF raster ok(5) sl version idx] shape(2) three
      by (simp add: same_golomb_contexts_def wn golomb_rice_bank_indexes_def golomb_rice_bank_index_def)
    have counts: "?counts = replicate (if 3 \<le> sp_version stream then quant_table_set_index_count stream else 1)
        (qt_context_count (sp_quant_table_sets stream ! 0))"
      using described_golomb_contexts [OF raster ok(5) sl version idx] three by simp
    from golomb_samples_matched [OF samples writer_ok_new shape(1,2) rgbw mode ctx counts state(1) ok(2,3) out,
        of "bits_of_bytes content" "sd_content_byte_offset sl"]
    obtain state1 m' where prep: "prepare_golomb_rice ?counts (window_plane_count ows) ws = Inr state1" and
      m: "matched (bit_link (bits_of_bytes content)) new_bit_writer wr
        (decode_golomb_planes stream kernels (sd_content_byte_offset sl) ?models ?banks ows
          (reset_run_states (window_plane_count ows) state1, m)) (st', m')" and
      m': "output_backed stream ows m'" "copied stream iws im ows m' {(i, y). i < length ows \<and> y < unat (pw_height (ows ! i))}"
      by blast
    have "writer_ok wr" using matched_winv [OF m] by simp
    with bits have code: "bits_of_bytes content = written wr @ replicate k False" .
    have sync: "synced (bit_link (bits_of_bytes content)) new_bit_writer (make_bit_reader content)"
      using reader_ok_make [OF size] by simp
    from m code sync obtain r' where
      r': "decode_golomb_planes stream kernels (sd_content_byte_offset sl) ?models ?banks ows
          (reset_run_states (window_plane_count ows) state1, m) (make_bit_reader content) = Inr ((st', m'), r')"
        "synced (bit_link (bits_of_bytes content)) wr r'" by (force simp: matched_def)
    then have "reader_ok r'" "unread r' = replicate k False" using code by auto
    with k have rest: "finish_golomb_reader stream allow (sd_content_byte_offset sl) r' = Inr ()"
      by (intro finish_aligned_reader) simp_all
    have skip: "skip_bits (ucast (sd_content_bit_offset sl)) (make_bit_reader content) = Inr (make_bit_reader content)"
      by (simp add: skip_bits_def fields make_bit_reader_def)
    have valid: "validate_slice stream sl ows = Inr ()"
      by (rule described_valid [OF stream raster sl three idx shape(2) payload])
    have lens: "length ?banks = length ?models" by (simp add: golomb_rice_bank_indexes_def slice_context_models_def)
    have "decode_slice stream kernels allow sl ows (ws, m) = Inr (st', m')"
      unfolding decode_slice_def prod.case Let_def valid state(2) payload bind_result_Inr mode
      using lens prep skip r'(1) rest by (simp add: decode_golomb_rice_slice_def Let_def)
    with ws' m' show ?thesis by blast
  qed
  then show ?thesis using parsed sl raster iws base unfolding n by blast
qed

end

end
