(* ===== verification/Slice_Executor.thy ===== *)
theory Slice_Executor
  imports Slice_Roundtrip "HOL-Library.Product_Lexorder"
begin

text \<open>
  Decoding the slices of a frame (\<^verbatim>\<open>src/src/codec/slice_executor.cpp\<close>, class \<open>SliceExecutor\<close>): the slice
  states kept between frames and matched by the layout of the slices, the alternative start of Golomb-Rice
  contents, and the serial and the parallel loop over the slices. The stream, the kernels and the thread count
  are members of the class; the reply of \<open>std::thread::hardware_concurrency\<close> is a parameter.
\<close>

type_synonym slice_layout = "u32 \<times> u32 \<times> u32 \<times> u32"

record slice_executor =
  sx_slice_states :: "slice_state list"
  sx_slice_layouts :: "slice_layout list"

definition new_slice_executor :: slice_executor where
  "new_slice_executor = \<lparr>sx_slice_states = [], sx_slice_layouts = []\<rparr>"

definition normalize_thread_count :: "u32 \<Rightarrow> int \<Rightarrow> u32" where
  "normalize_thread_count hardware_threads thread_count =
     (if thread_count < 0 then 1
      else if thread_count = 0 then (if hardware_threads = 0 then 1 else hardware_threads)
      else word_of_int thread_count)"

definition worker_count_for :: "u32 \<Rightarrow> nat \<Rightarrow> nat" where
  "worker_count_for thread_count slice_count =
     (if slice_count = 0 then 0 else min (unat thread_count) slice_count)"

definition slice_layout :: "slice_descriptor \<Rightarrow> slice_layout" where
  "slice_layout sl = (sd_raster_x sl, sd_raster_y sl, sd_raster_width sl, sd_raster_height sl)"

definition sx_has_reference_state :: "slice_executor \<Rightarrow> bool" where
  "sx_has_reference_state executor \<longleftrightarrow> sx_slice_states executor \<noteq> []"

subsection \<open>The start of a Golomb-Rice content\<close>

definition can_try_golomb_rice_read_ahead_boundary :: "stream_parameters \<Rightarrow> slice_descriptor \<Rightarrow> bool" where
  "can_try_golomb_rice_read_ahead_boundary stream sl \<longleftrightarrow>
     (if sp_entropy_mode stream \<noteq> GolombRiceMode \<or> sd_content_byte_offset sl \<le> sd_payload_byte_offset sl then False
      else if (sd_footer_byte_offset sl \<noteq> 0 \<or> sd_slice_size sl \<noteq> 0)
        \<and> sd_footer_byte_offset sl \<le> sd_content_byte_offset sl - 1 then False
      else if 3 \<le> sp_version stream then True
      else sp_version stream \<le> 1 \<and> sd_content_bit_offset sl = 0)"

definition should_prefer_golomb_rice_read_ahead_boundary :: "stream_parameters \<Rightarrow> bool" where
  "should_prefer_golomb_rice_read_ahead_boundary stream \<longleftrightarrow>
     3 \<le> sp_version stream \<and> sp_entropy_mode stream = GolombRiceMode \<and> sp_extra_plane stream \<and>
     (1 < sp_num_h_slices stream \<or> 1 < sp_num_v_slices stream)"

definition make_golomb_rice_read_ahead_boundary :: "slice_descriptor \<Rightarrow> slice_descriptor" where
  "make_golomb_rice_read_ahead_boundary sl = sl\<lparr>sd_content_byte_offset := sd_content_byte_offset sl - 1\<rparr>"

definition make_golomb_rice_content_candidates :: "stream_parameters \<Rightarrow> slice_descriptor \<Rightarrow> slice_descriptor list" where
  "make_golomb_rice_content_candidates stream sl =
     (if can_try_golomb_rice_read_ahead_boundary stream sl then
        if should_prefer_golomb_rice_read_ahead_boundary stream
        then [make_golomb_rice_read_ahead_boundary sl, sl]
        else [sl, make_golomb_rice_read_ahead_boundary sl]
      else [sl])"

subsection \<open>Temporary planes\<close>

definition temporary_plane :: "frame_view \<Rightarrow> plane_window list \<Rightarrow> nat \<Rightarrow> (plane_view \<times> bytes) result" where
  "temporary_plane output window i =
     (let info = pv_info (the (fv_planes output) ! i); w = window_plane_width window i; h = window_plane_height window i in
      if pi_stride_bytes info < 0 then Inl (make_error InvalidArgument)
      else
        let row_bytes = (if pi_sample_format info = UInt16 then ucast w * 2 else ucast w :: u64) in
        if maximum_offset < row_bytes then Inl (make_error ResourceExhausted)
        else if h \<noteq> 0 \<and> (2 ^ 64 - 1) div ucast h < row_bytes then Inl (make_error ResourceExhausted)
        else Inr (\<lparr>pv_data = Some 0, pv_info = info\<lparr>pi_width := w, pi_height := h, pi_stride_bytes := uint row_bytes\<rparr>\<rparr>,
                  replicate (unat (row_bytes * ucast h)) 0))"

fun temporary_planes :: "frame_view \<Rightarrow> plane_window list \<Rightarrow> nat list \<Rightarrow> (plane_view \<times> bytes) list result" where
  "temporary_planes output window [] = Inr []"
| "temporary_planes output window (i # is) =
     bind_result (temporary_plane output window i) (\<lambda>plane.
     bind_result (temporary_planes output window is) (\<lambda>planes. Inr (plane # planes)))"

definition make_temporary_frame :: "plane_window list \<Rightarrow> frame_view \<Rightarrow> (frame_view \<times> frame_memory) result" where
  "make_temporary_frame window output =
     bind_result (temporary_planes output window [0..<window_plane_count window]) (\<lambda>planes.
       Inr (\<lparr>fv_planes = Some (map fst planes), fv_plane_count = length planes\<rparr>, map snd planes))"

text \<open>\<open>memcpy\<close> of one row.\<close>

definition copy_bytes :: "nat \<Rightarrow> nat \<Rightarrow> nat \<Rightarrow> bytes \<Rightarrow> bytes \<Rightarrow> bytes" where
  "copy_bytes source destination n source_memory memory =
     take destination memory @ take n (drop source source_memory) @ drop (destination + n) memory"

definition copy_row ::
  "plane_window list \<Rightarrow> frame_memory \<Rightarrow> plane_window list \<Rightarrow> nat \<Rightarrow> nat \<Rightarrow> frame_memory \<Rightarrow> frame_memory result" where
  "copy_row source source_memory destination plane y memory =
     (let w = unat (window_plane_width source plane) in
      case row_u8 source plane y of
        Some src \<Rightarrow>
          (case row_u8 destination plane y of
             None \<Rightarrow> Inl (make_error InternalError)
           | Some dst \<Rightarrow> Inr (memory[plane := copy_bytes src dst w (source_memory ! plane) (memory ! plane)]))
      | None \<Rightarrow>
          (case row_u16 source plane y of
             Some src \<Rightarrow>
               (case row_u16 destination plane y of
                  None \<Rightarrow> Inl (make_error InternalError)
                | Some dst \<Rightarrow> Inr (memory[plane := copy_bytes src dst (2 * w) (source_memory ! plane) (memory ! plane)]))
           | None \<Rightarrow> Inl (make_error InternalError)))"

definition copy_plane ::
  "plane_window list \<Rightarrow> frame_memory \<Rightarrow> plane_window list \<Rightarrow> nat \<Rightarrow> frame_memory \<Rightarrow> frame_memory result" where
  "copy_plane source source_memory destination plane memory =
     (if window_plane_width source plane \<noteq> window_plane_width destination plane
         \<or> window_plane_height source plane \<noteq> window_plane_height destination plane
      then Inl (make_error InternalError)
      else fold_result (copy_row source source_memory destination plane)
             [0..<unat (window_plane_height source plane)] memory)"

definition copy_decoded_slice ::
  "plane_window list \<Rightarrow> frame_memory \<Rightarrow> plane_window list \<Rightarrow> frame_memory \<Rightarrow> frame_memory result" where
  "copy_decoded_slice source source_memory destination memory =
     (if window_plane_count source \<noteq> window_plane_count destination then Inl (make_error InternalError)
      else fold_result (copy_plane source source_memory destination) [0..<window_plane_count source] memory)"

subsection \<open>A slice\<close>

text \<open>
  The loop over the candidates. A failed attempt may leave samples in the temporary planes; a later attempt that
  succeeds writes every sample of them.
\<close>

fun try_candidates ::
  "stream_parameters \<Rightarrow> codec_kernels \<Rightarrow> plane_window list \<Rightarrow> frame_memory \<Rightarrow> plane_window list \<Rightarrow>
     slice_descriptor list \<Rightarrow> status option \<Rightarrow> slice_state \<times> frame_memory \<Rightarrow> (slice_state \<times> frame_memory) result" where
  "try_candidates stream kernels temporary_window storage window [] first_status (state, memory) =
     Inl (case first_status of Some e \<Rightarrow> e | None \<Rightarrow> ok_status)"
| "try_candidates stream kernels temporary_window storage window (candidate # candidates) first_status (state, memory) =
     (case decode_slice stream kernels True candidate temporary_window (state, storage) of
        Inl e \<Rightarrow>
          try_candidates stream kernels temporary_window storage window candidates
            (Some (case first_status of None \<Rightarrow> e | Some first \<Rightarrow> first)) (state, memory)
      | Inr (candidate_state, decoded) \<Rightarrow>
          bind_result (copy_decoded_slice temporary_window decoded window memory) (\<lambda>memory. Inr (candidate_state, memory)))"

definition execute_slice ::
  "stream_parameters \<Rightarrow> codec_kernels \<Rightarrow> frame_view \<Rightarrow> slice_descriptor \<Rightarrow> slice_state \<times> frame_memory \<Rightarrow>
     (slice_state \<times> frame_memory) result" where
  "execute_slice stream kernels output sl = (\<lambda>(state, memory).
     bind_result (validate_output_window stream output sl) (\<lambda>window.
     bind_result (ss_reset_stream_window stream window state) (\<lambda>state.
       if \<not> can_try_golomb_rice_read_ahead_boundary stream sl
       then decode_slice stream kernels False sl window (state, memory)
       else
         bind_result (make_temporary_frame window output) (\<lambda>(temporary_frame, storage).
         bind_result (reset_to_contiguous_frame temporary_frame) (\<lambda>temporary_window.
           try_candidates stream kernels temporary_window storage window
             (make_golomb_rice_content_candidates stream sl) None (state, memory))))))"

subsection \<open>The checks before decoding\<close>

definition slices_have_raster_layout :: "slice_descriptor list \<Rightarrow> bool" where
  "slices_have_raster_layout slices \<longleftrightarrow> list_all (\<lambda>sl. sd_raster_width sl \<noteq> 0 \<and> sd_raster_height sl \<noteq> 0) slices"

definition validate_parallel_slice_layout :: "stream_parameters \<Rightarrow> slice_descriptor list \<Rightarrow> unit result" where
  "validate_parallel_slice_layout stream slices =
     (if slices = [] \<or> \<not> slices_have_raster_layout slices then Inr ()
      else validate_slice_raster_coverage stream slices)"

definition can_decode_parallel_safely :: "stream_parameters \<Rightarrow> slice_descriptor list \<Rightarrow> bool" where
  "can_decode_parallel_safely stream slices \<longleftrightarrow>
     slices \<noteq> [] \<and> slices_have_raster_layout slices \<and> is_ok (validate_slice_raster_coverage stream slices)"

definition validate_candidate :: "stream_parameters \<Rightarrow> frame_view \<Rightarrow> slice_descriptor \<Rightarrow> unit result" where
  "validate_candidate stream output sl =
     bind_result (validate_output_window stream output sl) (validate_slice stream sl)"

definition validate_executed_slice :: "stream_parameters \<Rightarrow> frame_view \<Rightarrow> slice_descriptor \<Rightarrow> unit \<Rightarrow> unit result" where
  "validate_executed_slice stream output sl u =
     (case validate_candidate stream output sl of
        Inr _ \<Rightarrow> Inr ()
      | Inl e \<Rightarrow>
          if list_ex (\<lambda>candidate. is_ok (validate_candidate stream output candidate))
               (make_golomb_rice_content_candidates stream sl)
          then Inr () else Inl (set_slice_location_if_missing (sd_index sl) e))"

definition validate_slices ::
  "stream_parameters \<Rightarrow> u32 \<Rightarrow> frame_view \<Rightarrow> slice_descriptor list \<Rightarrow> unit result" where
  "validate_slices stream thread_count output slices =
     bind_result (if 1 < thread_count \<and> 2 \<le> length slices then validate_parallel_slice_layout stream slices else Inr ()) (\<lambda>_.
       fold_result (validate_executed_slice stream output) slices ())"

subsection \<open>The states of the previous frame\<close>

text \<open>
  Both frames' slices are put in the order of their layouts; the slices of the same rank must have the same
  layout. \<open>std::sort\<close> may order equal layouts in any way, the model keeps their order.
\<close>

definition layout_order :: "slice_layout list \<Rightarrow> nat list" where
  "layout_order layouts = sort_key (\<lambda>i. layouts ! i) [0..<length layouts]"

definition match_reference ::
  "slice_executor \<Rightarrow> slice_descriptor list \<Rightarrow> nat \<times> nat \<Rightarrow> slice_state list \<Rightarrow> slice_state list result" where
  "match_reference executor slices = (\<lambda>(current, reference) working_states.
     if slice_layout (slices ! current) \<noteq> sx_slice_layouts executor ! reference
     then Inl (set_slice_location_if_missing (sd_index (slices ! current)) (make_error SyntaxError))
     else Inr (working_states[current := sx_slice_states executor ! reference]))"

definition starting_states :: "slice_executor \<Rightarrow> slice_descriptor list \<Rightarrow> bool \<Rightarrow> slice_state list result" where
  "starting_states executor slices keyframe =
     (if keyframe then Inr (replicate (length slices) new_slice_state)
      else if sx_slice_states executor = [] then Inl (make_error InvalidState)
      else if length (sx_slice_states executor) \<noteq> length slices then Inl (make_error SyntaxError)
      else if length (sx_slice_layouts executor) \<noteq> length (sx_slice_states executor) then Inl (make_error InvalidState)
      else fold_result (match_reference executor slices)
             (zip (layout_order (map slice_layout slices)) (layout_order (sx_slice_layouts executor)))
             (replicate (length slices) new_slice_state))"

subsection \<open>The loops over the slices\<close>

text \<open>Slice \<open>i\<close> and its state.\<close>

definition execute_slice_at ::
  "stream_parameters \<Rightarrow> codec_kernels \<Rightarrow> frame_view \<Rightarrow> slice_descriptor list \<Rightarrow> nat \<Rightarrow>
     slice_state list \<times> frame_memory \<Rightarrow> (slice_state list \<times> frame_memory) result" where
  "execute_slice_at stream kernels output slices i = (\<lambda>(states, memory).
     bind_result (map_error (set_slice_location_if_missing (sd_index (slices ! i)))
                    (execute_slice stream kernels output (slices ! i) (states ! i, memory)))
       (\<lambda>(state, memory). Inr (states[i := state], memory)))"

definition decode_serial ::
  "stream_parameters \<Rightarrow> codec_kernels \<Rightarrow> frame_view \<Rightarrow> slice_descriptor list \<Rightarrow>
     slice_state list \<times> frame_memory \<Rightarrow> (slice_state list \<times> frame_memory) result" where
  "decode_serial stream kernels output slices =
     fold_result (execute_slice_at stream kernels output slices) [0..<length slices]"

text \<open>
  The asynchronous tasks of a batch all run, whatever the others return; \<open>order\<close> is the order in which they take
  effect on the output. A task that fails keeps its state, and its partial output is dropped. The statuses are
  looked at in the order of the slices.
\<close>

definition run_task ::
  "stream_parameters \<Rightarrow> codec_kernels \<Rightarrow> frame_view \<Rightarrow> slice_descriptor list \<Rightarrow> nat \<Rightarrow>
     (nat \<Rightarrow> status option) \<times> slice_state list \<times> frame_memory \<Rightarrow> (nat \<Rightarrow> status option) \<times> slice_state list \<times> frame_memory" where
  "run_task stream kernels output slices i = (\<lambda>(statuses, states, memory).
     case execute_slice_at stream kernels output slices i (states, memory) of
       Inl e \<Rightarrow> (statuses(i := Some e), states, memory)
     | Inr (states, memory) \<Rightarrow> (statuses(i := None), states, memory))"

definition decode_parallel ::
  "stream_parameters \<Rightarrow> codec_kernels \<Rightarrow> frame_view \<Rightarrow> slice_descriptor list \<Rightarrow> nat list \<Rightarrow>
     slice_state list \<times> frame_memory \<Rightarrow> (slice_state list \<times> frame_memory) result" where
  "decode_parallel stream kernels output slices order = (\<lambda>(states, memory).
     let (statuses, states, memory) = fold (run_task stream kernels output slices) order (\<lambda>i. None, states, memory) in
     case List.find (\<lambda>i. statuses i \<noteq> None) [0..<length slices] of
       None \<Rightarrow> Inr (states, memory)
     | Some i \<Rightarrow> Inl (the (statuses i)))"

text \<open>The orders that the batches allow: batch after batch, each task once.\<close>

definition batch_order :: "nat \<Rightarrow> nat \<Rightarrow> nat list \<Rightarrow> bool" where
  "batch_order worker_count slice_count order \<longleftrightarrow>
     sort order = [0..<slice_count] \<and> sorted (map (\<lambda>i. i div worker_count) order)"

subsection \<open>A frame\<close>

definition execute_decode ::
  "stream_parameters \<Rightarrow> codec_kernels \<Rightarrow> u32 \<Rightarrow> nat list \<Rightarrow> frame_view \<Rightarrow> slice_descriptor list \<Rightarrow> bool \<Rightarrow>
     slice_executor \<times> frame_memory \<Rightarrow> (slice_executor \<times> frame_memory) result" where
  "execute_decode stream kernels thread_count order output slices keyframe = (\<lambda>(executor, memory).
     bind_result (validate_slices stream thread_count output slices) (\<lambda>_.
       let parallel_safe = (1 < thread_count \<and> 2 \<le> length slices \<and> can_decode_parallel_safely stream slices) in
       bind_result (starting_states executor slices keyframe) (\<lambda>working_states.
       bind_result
         (if \<not> parallel_safe then decode_serial stream kernels output slices (working_states, memory)
          else decode_parallel stream kernels output slices order (working_states, memory)) (\<lambda>(working_states, memory).
         Inr (\<lparr>sx_slice_states = working_states, sx_slice_layouts = map slice_layout slices\<rparr>, memory)))))"

end
