(* ===== verification/Slice_Encode_Executor.thy ===== *)
theory Slice_Encode_Executor
  imports Slice_Executor
begin

text \<open>
  Encoding the slices of a frame (\<^verbatim>\<open>src/src/codec/slice_encode_executor.cpp\<close>, class
  \<open>SliceEncodeExecutor\<close>): one slice per cell of the grid, the states kept between frames, the serial loop and
  the batches of asynchronous tasks. A task reads the frame, which nobody writes, and writes its own state and
  output, so that its result does not depend on the order of the tasks; on failure the state is that before.
\<close>

record slice_encode_executor =
  ee_slice_states :: "slice_state list"
  ee_slice_layouts :: "slice_layout list"

definition new_slice_encode_executor :: slice_encode_executor where
  "new_slice_encode_executor = \<lparr>ee_slice_states = [], ee_slice_layouts = []\<rparr>"

definition ee_has_reference_state :: "slice_encode_executor \<Rightarrow> bool" where
  "ee_has_reference_state executor \<longleftrightarrow> ee_slice_states executor \<noteq> []"

definition checked_slice_count :: "stream_parameters \<Rightarrow> nat result" where
  "checked_slice_count stream =
     (let count = (ucast (sp_num_h_slices stream) * ucast (sp_num_v_slices stream) :: u64) in
      if count = 0 \<or> size_max < unat count then Inl (make_error ResourceExhausted) else Inr (unat count))"

text \<open>
  \<open>max_size\<close> of a vector of vectors and of a vector of statuses: \<open>PTRDIFF_MAX\<close> over the element size, which is
  three pointers, and a code, a string of 32 bytes and a location.
\<close>

definition slice_vector_max_size :: nat where "slice_vector_max_size = (2 ^ 63 - 1) div 24"
definition status_vector_max_size :: nat where "status_vector_max_size = (2 ^ 63 - 1) div 64"

definition grid_cell_x :: "stream_parameters \<Rightarrow> nat \<Rightarrow> u32" where
  "grid_cell_x stream slice_index = word_of_nat (slice_index mod unat (sp_num_h_slices stream))"

definition grid_cell_y :: "stream_parameters \<Rightarrow> nat \<Rightarrow> u32" where
  "grid_cell_y stream slice_index = word_of_nat (slice_index div unat (sp_num_h_slices stream))"

definition encode_slice_layout :: "stream_parameters \<Rightarrow> nat \<Rightarrow> slice_layout" where
  "encode_slice_layout stream slice_index = (grid_cell_x stream slice_index, grid_cell_y stream slice_index, 1, 1)"

definition grid_header :: "stream_parameters \<Rightarrow> nat \<Rightarrow> slice_header_values" where
  "grid_header stream slice_index =
     \<lparr>hv_x = grid_cell_x stream slice_index, hv_y = grid_cell_y stream slice_index, hv_width = 1, hv_height = 1,
      hv_quant_table_set_indexes = replicate (quant_table_set_index_count stream) 0,
      hv_picture_structure = 0, hv_sar_num = 0, hv_sar_den = 0\<rparr>"

definition encode_grid_slice ::
  "stream_parameters \<Rightarrow> codec_kernels \<Rightarrow> frame_view \<Rightarrow> frame_memory \<Rightarrow> bool \<Rightarrow> slice_state \<Rightarrow> nat \<Rightarrow>
     (bytes \<times> slice_state) result" where
  "encode_grid_slice stream kernels input memory keyframe state slice_index =
     encode_slice stream kernels input memory (grid_header stream slice_index) (slice_index = 0) keyframe state"

definition append_slices :: "bytes list \<Rightarrow> bytes result" where
  "append_slices slices =
     bind_result (fold_result (\<lambda>sl total_size.
         if size_max - total_size < length sl then Inl (make_error ResourceExhausted) else Inr (total_size + length sl)) slices 0)
       (\<lambda>total_size. if byte_vector_max_size < total_size then Inl (make_error ResourceExhausted) else Inr (concat slices))"

definition encoder_starting_states ::
  "stream_parameters \<Rightarrow> slice_encode_executor \<Rightarrow> nat \<Rightarrow> bool \<Rightarrow> slice_state list result" where
  "encoder_starting_states stream executor slice_count keyframe =
     (if keyframe then Inr (replicate slice_count new_slice_state)
      else if sp_intra_only stream then Inl (make_error InvalidArgument)
      else if ee_slice_states executor = [] then Inl (make_error InvalidState)
      else if length (ee_slice_states executor) \<noteq> slice_count
         \<or> length (ee_slice_layouts executor) \<noteq> length (ee_slice_states executor)
      then Inl (make_error InvalidState)
      else if ee_slice_layouts executor \<noteq> map (encode_slice_layout stream) [0..<slice_count] then Inl (make_error InvalidState)
      else Inr (ee_slice_states executor))"

subsection \<open>The loops over the slices\<close>

definition encode_serial ::
  "stream_parameters \<Rightarrow> codec_kernels \<Rightarrow> frame_view \<Rightarrow> frame_memory \<Rightarrow> bool \<Rightarrow> slice_state list \<Rightarrow> nat \<Rightarrow>
     (bytes \<times> slice_state) result list" where
  "encode_serial stream kernels input memory keyframe states slice_count =
     map (\<lambda>index. encode_grid_slice stream kernels input memory keyframe (states ! index) index) [0..<slice_count]"

function encode_batches ::
  "stream_parameters \<Rightarrow> codec_kernels \<Rightarrow> frame_view \<Rightarrow> frame_memory \<Rightarrow> bool \<Rightarrow> slice_state list \<Rightarrow> nat \<Rightarrow> nat \<Rightarrow> nat \<Rightarrow>
     (bytes \<times> slice_state) result list" where
  "encode_batches stream kernels input memory keyframe states worker_count slice_count offset =
     (if worker_count = 0 \<or> slice_count \<le> offset then []
      else
        let batch_size = min worker_count (slice_count - offset)
        in map (\<lambda>index. encode_grid_slice stream kernels input memory keyframe (states ! (offset + index)) (offset + index))
             [0..<batch_size]
           @ encode_batches stream kernels input memory keyframe states worker_count slice_count (offset + worker_count))"
  by pat_completeness auto
termination
  by (relation "measure (\<lambda>(stream, kernels, input, memory, keyframe, states, worker_count, slice_count, offset).
    slice_count - offset)") auto

declare encode_batches.simps [simp del]

text \<open>The first failed slice decides.\<close>

definition collect_slices :: "(bytes \<times> slice_state) result list \<Rightarrow> (bytes \<times> slice_state) list result" where
  "collect_slices results =
     fold_result (\<lambda>(index, r) done. bind_result (map_error (set_slice_location_if_missing (word_of_nat index)) r)
       (\<lambda>sl. Inr (done @ [sl]))) (enumerate 0 results) []"

subsection \<open>A frame\<close>

definition execute_encode ::
  "stream_parameters \<Rightarrow> codec_kernels \<Rightarrow> u32 \<Rightarrow> frame_view \<Rightarrow> frame_memory \<Rightarrow> bool \<Rightarrow> slice_encode_executor \<Rightarrow>
     (bytes \<times> slice_encode_executor) result" where
  "execute_encode stream kernels thread_count input memory keyframe executor =
     bind_result (validate_input stream input) (\<lambda>_.
     bind_result (checked_slice_count stream) (\<lambda>slice_count.
       if slice_vector_max_size < slice_count \<or> status_vector_max_size < slice_count
       then Inl (make_error ResourceExhausted)
       else
         let working_layouts = map (encode_slice_layout stream) [0..<slice_count] in
         bind_result (encoder_starting_states stream executor slice_count keyframe) (\<lambda>working_states.
           let worker_count = worker_count_for thread_count slice_count;
               results = (if worker_count \<le> 1
                 then encode_serial stream kernels input memory keyframe working_states slice_count
                 else encode_batches stream kernels input memory keyframe working_states worker_count slice_count 0)
           in bind_result (collect_slices results) (\<lambda>slices.
              bind_result (append_slices (map fst slices)) (\<lambda>out_frame.
                Inr (out_frame, \<lparr>ee_slice_states = map snd slices, ee_slice_layouts = working_layouts\<rparr>))))))"

subsection \<open>Batches\<close>

lemma encode_batches_serial:
  assumes "0 < worker_count"
  shows "encode_batches stream kernels input memory keyframe states worker_count slice_count offset =
    map (\<lambda>index. encode_grid_slice stream kernels input memory keyframe (states ! index) index) [offset..<slice_count]"
  using assms
proof (induction stream kernels input memory keyframe states worker_count slice_count offset rule: encode_batches.induct)
  case (1 stream kernels input memory keyframe states worker_count slice_count offset)
  show ?case
  proof (cases "slice_count \<le> offset")
    case True
    then show ?thesis by (simp add: encode_batches.simps [of stream])
  next
    case False
    let ?f = "\<lambda>index. encode_grid_slice stream kernels input memory keyframe (states ! index) index"
    let ?b = "min worker_count (slice_count - offset)"
    have rest: "encode_batches stream kernels input memory keyframe states worker_count slice_count (offset + worker_count) =
        map ?f [offset + worker_count..<slice_count]"
      using "1.IH" [of ?b] "1.prems" False by simp
    have "map (\<lambda>index. ?f (offset + index)) [0..<?b] = map ?f [offset..<offset + ?b]"
      by (rule nth_equalityI) simp_all
    moreover have "[offset..<offset + ?b] @ [offset + worker_count..<slice_count] = [offset..<slice_count]"
    proof (cases "worker_count \<le> slice_count - offset")
      case True
      then have "?b = worker_count" by simp
      with True False upt_add_eq_append [of offset "offset + worker_count" "slice_count - (offset + worker_count)"]
      show ?thesis by simp
    next
      case False
      then have "?b = slice_count - offset" by simp
      with False \<open>\<not> slice_count \<le> offset\<close> show ?thesis by simp
    qed
    ultimately show ?thesis
      using False "1.prems" rest by (simp add: encode_batches.simps [of stream] Let_def flip: map_append)
  qed
qed

text \<open>
  C39: the number of threads does not show in the encoded stream: whatever number of workers encodes the slices, the
  frame, the slice states kept for the next frame and every error are those of the serial loop.
\<close>

theorem encode_thread_count_irrelevant:
  "execute_encode stream kernels threads input memory keyframe executor =
   execute_encode stream kernels 1 input memory keyframe executor"
proof -
  have "(if worker_count_for t n \<le> 1 then encode_serial stream kernels input memory keyframe states n
      else encode_batches stream kernels input memory keyframe states (worker_count_for t n) n 0) =
    encode_serial stream kernels input memory keyframe states n" for t n states
    by (simp add: encode_batches_serial encode_serial_def)
  then show ?thesis by (simp only: execute_encode_def Let_def)
qed

end
