(* ===== verification/Codec.thy ===== *)
theory Codec
  imports Slice_Encode_Executor
begin

text \<open>
  The public encoder and decoder (\<^verbatim>\<open>src/src/codec/encoder.cpp\<close>, \<^verbatim>\<open>decoder.cpp\<close>) with their factories and
  options. The kernels that \<open>make_codec_kernels\<close> selects for the processor and the number of hardware threads are
  parameters. An operation that fails leaves the object unchanged.
\<close>

subsection \<open>The encoder\<close>

record encoder =
  en_options :: encoder_options
  en_stream :: "stream_parameters option"
  en_executor :: "slice_encode_executor option"
  en_next_frame_index :: u64

definition create_encoder :: "encoder_options \<Rightarrow> encoder result" where
  "create_encoder options =
     (if eo_thread_count options < 0 then Inl (make_error InvalidArgument)
      else if eo_keyframe_interval options = 0 then Inl (make_error InvalidArgument)
      else Inr \<lparr>en_options = options, en_stream = None, en_executor = None, en_next_frame_index = 0\<rparr>)"

definition encoder_configure :: "stream_info \<Rightarrow> encoder \<Rightarrow> (bytes \<times> encoder) result" where
  "encoder_configure info encoder =
     bind_result (normalize_encoder_profile (en_options encoder) info) (\<lambda>normalized.
     bind_result (write_configuration_record normalized) (\<lambda>record_bytes.
       Inr (record_bytes, encoder\<lparr>en_stream := Some normalized, en_executor := Some new_slice_encode_executor,
                            en_next_frame_index := 0\<rparr>)))"

definition next_is_keyframe :: "encoder \<Rightarrow> bool" where
  "next_is_keyframe encoder \<longleftrightarrow> en_next_frame_index encoder mod ucast (eo_keyframe_interval (en_options encoder)) = 0"

definition encoder_encode_frame ::
  "codec_kernels \<Rightarrow> u32 \<Rightarrow> frame_view \<Rightarrow> frame_memory \<Rightarrow> encoder \<Rightarrow> (bytes \<times> encoder) result" where
  "encoder_encode_frame kernels hardware_threads input memory encoder =
     (case en_stream encoder of
        None \<Rightarrow> Inl (make_error InvalidState)
      | Some stream \<Rightarrow>
          (case en_executor encoder of
             None \<Rightarrow> Inl (make_error InvalidState)
           | Some executor \<Rightarrow>
               bind_result (execute_encode stream kernels
                   (normalize_thread_count hardware_threads (eo_thread_count (en_options encoder)))
                   input memory (next_is_keyframe encoder) executor)
                 (\<lambda>(frame_bytes, executor).
                   Inr (frame_bytes, encoder\<lparr>en_executor := Some executor,
                          en_next_frame_index := en_next_frame_index encoder + 1\<rparr>))))"

subsection \<open>The decoder\<close>

record decoder_options =
  do_thread_count :: int
  do_verify_crc :: bool
  do_strict :: bool
  do_frame_width :: u32
  do_frame_height :: u32
  do_cpu :: cpu_features

record decoder =
  de_options :: decoder_options
  de_stream :: "stream_parameters option"
  de_executor :: "slice_executor option"

definition create_decoder :: "decoder_options \<Rightarrow> decoder result" where
  "create_decoder options =
     (if do_thread_count options < 0 then Inl (make_error InvalidArgument)
      else if \<not> do_strict options then Inl (make_error UnsupportedFeature)
      else if (do_frame_width options = 0) \<noteq> (do_frame_height options = 0) then Inl (make_error InvalidArgument)
      else Inr \<lparr>de_options = options, de_stream = None, de_executor = None\<rparr>)"

definition decoder_configure :: "bytes \<Rightarrow> decoder \<Rightarrow> decoder result" where
  "decoder_configure configuration_record decoder =
     bind_result (parse_configuration_record configuration_record) (\<lambda>stream.
       let options = de_options decoder;
           stream = (if do_frame_width options \<noteq> 0 \<and> do_frame_height options \<noteq> 0
             then stream\<lparr>sp_width := do_frame_width options, sp_height := do_frame_height options\<rparr> else stream)
       in Inr (decoder\<lparr>de_stream := Some stream, de_executor := Some new_slice_executor\<rparr>))"

datatype legacy_bootstrap_state =
  NoEmbeddedParameters | Configured | MatchesCurrentConfiguration | DiffersFromCurrentConfiguration

record legacy_bootstrap_info =
  li_state :: legacy_bootstrap_state
  li_frame_info :: frame_info

text \<open>A frame may configure the decoder; otherwise its parameters are only compared with the current ones.\<close>

definition bootstrap_legacy_frame :: "bytes \<Rightarrow> decoder \<Rightarrow> (legacy_bootstrap_info \<times> decoder) result" where
  "bootstrap_legacy_frame frame_payload decoder =
     (if frame_payload = [] then Inl (make_error InvalidArgument)
      else
        let options = de_options decoder in
        bind_result (parse_legacy_frame_bootstrap frame_payload (do_frame_width options) (do_frame_height options)) (\<lambda>bootstrap.
          if \<not> lb_has_embedded_parameters bootstrap
          then Inr (\<lparr>li_state = NoEmbeddedParameters, li_frame_info = new_frame_info\<rparr>, decoder)
          else
            let info = (make_frame_info (lb_stream bootstrap))\<lparr>fi_keyframe := lb_keyframe bootstrap\<rparr> in
            case de_stream decoder of
              None \<Rightarrow>
                Inr (\<lparr>li_state = Configured, li_frame_info = info\<rparr>,
                     decoder\<lparr>de_stream := Some (lb_stream bootstrap), de_executor := Some new_slice_executor\<rparr>)
            | Some stream \<Rightarrow>
                Inr (\<lparr>li_state = (if stream_parameters_equivalent stream (lb_stream bootstrap)
                        then MatchesCurrentConfiguration else DiffersFromCurrentConfiguration),
                      li_frame_info = info\<rparr>, decoder)))"

definition ensure_dimensions_known :: "stream_parameters \<Rightarrow> unit result" where
  "ensure_dimensions_known stream =
     (if sp_width stream = 0 \<or> sp_height stream = 0 then Inl (make_error InvalidState) else Inr ())"

definition decoder_parse_frame :: "stream_parameters \<Rightarrow> bool \<Rightarrow> bytes \<Rightarrow> frame_decode_context result" where
  "decoder_parse_frame stream verify_crc frame_payload =
     (if 3 \<le> sp_version stream then parse_with_range_header stream verify_crc frame_payload
      else parse_frame stream verify_crc frame_payload)"

text \<open>The checks that \<open>inspect_frame\<close> and \<open>decode_frame\<close> share, and the parsed frame.\<close>

definition open_frame :: "bytes \<Rightarrow> decoder \<Rightarrow> (stream_parameters \<times> frame_decode_context) result" where
  "open_frame frame_payload decoder =
     (case de_stream decoder of
        None \<Rightarrow> Inl (make_error InvalidState)
      | Some stream \<Rightarrow>
          bind_result (ensure_dimensions_known stream) (\<lambda>_.
            if frame_payload = [] then Inl (make_error InvalidArgument)
            else bind_result (decoder_parse_frame stream (do_verify_crc (de_options decoder)) frame_payload)
                   (\<lambda>frame. Inr (stream, frame))))"

definition inspect_frame :: "bytes \<Rightarrow> decoder \<Rightarrow> frame_info result" where
  "inspect_frame frame_payload decoder =
     bind_result (open_frame frame_payload decoder) (\<lambda>(stream, frame). Inr (fc_frame_info frame))"

definition decode_frame_slices ::
  "codec_kernels \<Rightarrow> u32 \<Rightarrow> nat list \<Rightarrow> stream_parameters \<Rightarrow> frame_decode_context \<Rightarrow> frame_view \<Rightarrow>
     decoder \<times> frame_memory \<Rightarrow> (decoder \<times> frame_memory) result" where
  "decode_frame_slices kernels hardware_threads order stream frame output = (\<lambda>(decoder, memory).
     case de_executor decoder of
       None \<Rightarrow> Inl (make_error InvalidState)
     | Some executor \<Rightarrow>
         bind_result (execute_decode stream kernels
             (normalize_thread_count hardware_threads (do_thread_count (de_options decoder)))
             order output (fc_slices frame) (fc_keyframe frame) (executor, memory))
           (\<lambda>(executor, memory). Inr (decoder\<lparr>de_executor := Some executor\<rparr>, memory)))"

definition decoder_decode_frame ::
  "codec_kernels \<Rightarrow> u32 \<Rightarrow> nat list \<Rightarrow> bytes \<Rightarrow> frame_view \<Rightarrow> decoder \<times> frame_memory \<Rightarrow>
     (decoder \<times> frame_memory) result" where
  "decoder_decode_frame kernels hardware_threads order frame_payload output = (\<lambda>(decoder, memory).
     bind_result (open_frame frame_payload decoder) (\<lambda>(stream, frame).
     bind_result (validate_output stream output) (\<lambda>_.
       decode_frame_slices kernels hardware_threads order stream frame output (decoder, memory))))"

end
