(* ===== verification/Window_Writes.thy ===== *)
theory Window_Writes
  imports Codec
begin

text \<open>
  The frame condition of the decoder: whatever a slice contains, decoding it changes no byte of the planes outside
  the windows it was given.
\<close>

subsection \<open>Bytes outside the windows\<close>

definition in_window :: "plane_window list \<Rightarrow> nat \<Rightarrow> nat \<Rightarrow> bool" where
  "in_window ws p a \<longleftrightarrow> p < length ws \<and>
     (\<exists>y < unat (pw_height (ws ! p)). row_address (ws ! p) y \<le> a \<and>
        a < row_address (ws ! p) y + unat (pw_width (ws ! p)) * sample_bytes (pw_sample_format (ws ! p)))"

definition keeps_outside :: "plane_window list \<Rightarrow> frame_memory \<Rightarrow> frame_memory \<Rightarrow> bool" where
  "keeps_outside ws m m' \<longleftrightarrow> length m' = length m \<and>
     (\<forall>p < length m. length (m' ! p) = length (m ! p) \<and> (\<forall>a. \<not> in_window ws p a \<longrightarrow> m' ! p ! a = m ! p ! a))"

lemma keeps_refl: "keeps_outside ws m m"
  by (simp add: keeps_outside_def)

lemma keeps_trans: "keeps_outside ws m m1 \<Longrightarrow> keeps_outside ws m1 m2 \<Longrightarrow> keeps_outside ws m m2"
  by (auto simp: keeps_outside_def)

lemma keeps_store:
  assumes "p < length ws" and "y < unat (pw_height (ws ! p))" and "w = unat (pw_width (ws ! p))"
    and "pw_sample_format (ws ! p) = sample_format_for_bit_depth (sp_bits_per_raw_sample stream)"
  shows "keeps_outside ws m (store_plane_row stream p (row_address (ws ! p) y) w samples m)"
proof -
  let ?b = "if 8 < sp_bits_per_raw_sample stream then 2 else 1 :: nat"
  have b: "sample_bytes (pw_sample_format (ws ! p)) = ?b"
    using assms(4) by (auto simp: sample_format_for_bit_depth_def sample_bytes_cases not_le)
  have "store_row (8 < sp_bits_per_raw_sample stream) (row_address (ws ! p) y) w samples mem ! a = mem ! a"
    if "\<not> in_window ws p a" for a mem
  proof (rule store_row_outside)
    show "a < row_address (ws ! p) y \<or> row_address (ws ! p) y + w * ?b \<le> a"
      using that assms(1,2,3) unfolding in_window_def b by (meson not_less)
  qed
  note kept = this
  have "length (store_plane_row stream p (row_address (ws ! p) y) w samples m ! q) = length (m ! q) \<and>
      (\<forall>a. \<not> in_window ws q a \<longrightarrow> store_plane_row stream p (row_address (ws ! p) y) w samples m ! q ! a = m ! q ! a)"
    if "q < length m" for q
    using that kept by (cases "q = p") (simp_all add: store_plane_row_def)
  then show ?thesis by (simp add: keeps_outside_def)
qed

lemma output_row_Inr:
  assumes "output_row stream ws p y = Inr row"
  shows "row = row_address (ws ! p) y" and "p < length ws" and "y < unat (pw_height (ws ! p))"
    and "pw_sample_format (ws ! p) = sample_format_for_bit_depth (sp_bits_per_raw_sample stream)"
  using assms
  by (auto simp: output_row_def row_u8_def row_u16_def window_row_def sample_format_for_bit_depth_def not_le
      split: if_splits option.splits)

lemma output_rows_Inr:
  "output_rows stream ws y ps = Inr rows \<Longrightarrow> length rows = length ps \<and> (\<forall>i < length ps. output_row stream ws (ps ! i) y = Inr (rows ! i))"
  by (induction ps arbitrary: rows) (auto simp: nth_Cons split: nat.splits)

lemma store_planar_line_keeps:
  assumes "store_planar_line stream ws p y line m = Inr (line', m')"
  shows "keeps_outside ws m m'"
proof -
  from assms obtain row where row: "output_row stream ws p y = Inr row" and
    m': "m' = store_plane_row stream p row (unat (window_plane_width ws p)) (\<lambda>x. word_of_int (ls_current line ! x)) m"
    by (auto simp: store_planar_line_def)
  note r = output_row_Inr [OF row]
  show ?thesis unfolding m' r(1) by (rule keeps_store) (use r in \<open>simp_all add: window_plane_width_def\<close>)
qed

lemma store_rgb_line_keeps:
  assumes "store_rgb_line stream kernels ws y state m = Inr (state', m')" and "rgb_windows stream ws"
  shows "keeps_outside ws m m'"
proof -
  let ?w = "unat (window_plane_width ws 0)"
  obtain r g b where rgb: "inverse_color_transform_row kernels (ls_current (ss_line_state state 0))
      (ls_current (ss_line_state state 1)) (ls_current (ss_line_state state 2)) ?w
      (sp_bits_per_raw_sample stream) (sp_extra_plane stream) = (r, g, b)" by (metis prod_cases3)
  obtain rows where rows: "output_rows stream ws y [0..<window_plane_count ws] = Inr rows"
    using assms(1) by (cases "output_rows stream ws y [0..<window_plane_count ws]") (simp_all add: store_rgb_line_def)
  have m': "m' =
      (let m = store_plane_row stream 0 (rows ! 0) ?w ((!) r) m; m = store_plane_row stream 1 (rows ! 1) ?w ((!) g) m;
           m = store_plane_row stream 2 (rows ! 2) ?w ((!) b) m
       in if sp_extra_plane stream then store_plane_row stream 3 (rows ! 3) ?w
         (\<lambda>x. truncate_to_raw_sample_bits (ls_current (ss_line_state state 3) ! x) (sp_bits_per_raw_sample stream)) m else m)"
    using arg_cong [OF assms(1), where f = "\<lambda>r. snd (projr r)"]
    unfolding store_rgb_line_def Let_def rows rgb bind_result_Inr prod.case sum.sel snd_conv by (rule sym)
  have n: "3 \<le> length ws" "sp_extra_plane stream \<Longrightarrow> length ws = 4"
    and w: "\<And>p. p < length ws \<Longrightarrow> pw_width (ws ! p) = pw_width (ws ! 0)"
    using assms(2) unfolding rgb_windows_def by (blast, blast, blast)
  have step: "keeps_outside ws m (store_plane_row stream p (rows ! p) ?w s m)" if p: "p < length ws" for p s m
  proof -
    have row: "output_row stream ws p y = Inr (rows ! p)"
      using output_rows_Inr [OF rows] p by (simp add: window_plane_count_def)
    note r = output_row_Inr [OF row]
    have "0 < length ws" using p by linarith
    then have "?w = unat (pw_width (ws ! p))" unfolding w [OF p] window_plane_width_def by (simp only: if_True)
    then show ?thesis unfolding r(1) by (intro keeps_store r)
  qed
  have i: "0 < length ws" "1 < length ws" "2 < length ws" using n(1) by linarith+
  note three = keeps_trans [OF keeps_trans [OF step [OF i(1)] step [OF i(2)]] step [OF i(3)]]
  show ?thesis
  proof (cases "sp_extra_plane stream")
    case True
    then have "3 < length ws" using n(2) by simp
    from keeps_trans [OF three step [OF this]] True show ?thesis unfolding m' by (simp add: Let_def)
  next
    case False
    with three show ?thesis unfolding m' by (simp add: Let_def)
  qed
qed

subsection \<open>The loops\<close>

lemma loop_result_keeps:
  assumes "\<And>x s m c s' m' c'. x \<in> set xs \<Longrightarrow> f x (s, m) c = Inr ((s', m'), c') \<Longrightarrow> keeps_outside ws m m'"
    and "loop_result f xs (s, m) c = Inr ((s', m'), c')"
  shows "keeps_outside ws m m'"
  using assms
proof (induction xs arbitrary: s m c)
  case Nil
  then show ?case by (simp add: keeps_refl)
next
  case (Cons x xs)
  from Cons.prems(2) obtain s1 m1 c1 where one: "f x (s, m) c = Inr ((s1, m1), c1)"
    and rest: "loop_result f xs (s1, m1) c1 = Inr ((s', m'), c')" by auto
  have "keeps_outside ws m m1" using Cons.prems(1) [OF _ one] by simp
  moreover have "keeps_outside ws m1 m'" by (rule Cons.IH [OF _ rest]) (rule Cons.prems(1), simp_all)
  ultimately show ?case by (rule keeps_trans)
qed

lemma decode_planar_row_keeps:
  "decode_planar_row off stream t b ws p y (line, m) c = Inr ((line', m'), c') \<Longrightarrow> keeps_outside ws m m'"
  by (auto simp: decode_planar_row_def dest: store_planar_line_keeps)

lemma decode_plane_keeps:
  "decode_plane off stream models banks ws p (state, m) c = Inr ((state', m'), c') \<Longrightarrow> keeps_outside ws m m'"
  by (auto simp: decode_plane_def intro: loop_result_keeps [OF decode_planar_row_keeps])

lemma decode_legacy_row_keeps:
  assumes "decode_legacy_row off stream models banks ws y (state, m) c = Inr ((state', m'), c')"
  shows "keeps_outside ws m m'"
proof (rule loop_result_keeps [OF _ assms [unfolded decode_legacy_row_def]])
  show "keeps_outside ws m m'" if "decode_legacy_plane_row off stream models banks ws y p (s, m) c = Inr ((s', m'), c')"
    for p s m c s' m' c'
    using that by (auto simp: decode_legacy_plane_row_def keeps_refl dest: decode_planar_row_keeps split: if_splits)
qed

lemma decode_rgb_row_keeps:
  "decode_rgb_row off stream kernels models banks ws y (state, m) c = Inr ((state', m'), c') \<Longrightarrow> rgb_windows stream ws \<Longrightarrow>
    keeps_outside ws m m'"
  by (auto simp: decode_rgb_row_def dest: store_rgb_line_keeps)

lemma decode_range_samples_keeps:
  assumes "decode_range_samples off stream kernels models banks ws (state, m) c = Inr ((state', m'), c')"
    and "sp_colorspace_type stream = 1 \<longrightarrow> rgb_windows stream ws"
  shows "keeps_outside ws m m'"
proof (cases "sp_colorspace_type stream = 1")
  case True
  with assms(2) have rgb: "rgb_windows stream ws" by simp
  show ?thesis
    using assms(1) unfolding decode_range_samples_def if_P [OF True]
    by (rule loop_result_keeps [rotated]) (rule decode_rgb_row_keeps [OF _ rgb])
next
  case False
  show ?thesis
  proof (cases "use_legacy_range_ycbcr_row_order stream")
    case True
    show ?thesis
      using assms(1) unfolding decode_range_samples_def if_not_P [OF False] if_P [OF True]
      by (rule loop_result_keeps [rotated]) (rule decode_legacy_row_keeps)
  next
    case order: False
    show ?thesis
      using assms(1) unfolding decode_range_samples_def if_not_P [OF False] if_not_P [OF order]
      by (rule loop_result_keeps [rotated]) (rule decode_plane_keeps)
  qed
qed

lemma decode_golomb_planar_row_keeps:
  "decode_golomb_planar_row stream off models banks ws p y (state, m) c = Inr ((state', m'), c') \<Longrightarrow> keeps_outside ws m m'"
  by (auto simp: decode_golomb_planar_row_def dest: store_planar_line_keeps)

lemma decode_golomb_plane_keeps:
  "decode_golomb_plane stream off models banks ws p (state, m) c = Inr ((state', m'), c') \<Longrightarrow> keeps_outside ws m m'"
  by (auto simp: decode_golomb_plane_def intro: loop_result_keeps [OF decode_golomb_planar_row_keeps])

lemma decode_golomb_rgb_row_keeps:
  "decode_golomb_rgb_row stream kernels off models banks ws y (state, m) c = Inr ((state', m'), c') \<Longrightarrow> rgb_windows stream ws \<Longrightarrow>
    keeps_outside ws m m'"
  by (auto simp: decode_golomb_rgb_row_def dest: store_rgb_line_keeps)

lemma decode_golomb_planes_keeps:
  assumes "decode_golomb_planes stream kernels off models banks ws (state, m) c = Inr ((state', m'), c')"
    and "sp_colorspace_type stream = 1 \<longrightarrow> rgb_windows stream ws"
  shows "keeps_outside ws m m'"
proof (cases "sp_colorspace_type stream = 1")
  case True
  with assms(2) have rgb: "rgb_windows stream ws" by simp
  from assms(1) True obtain s c1 where
    "loop_result (decode_golomb_rgb_row stream kernels off models banks ws) [0..<unat (window_plane_height ws 0)] (state, m) c = Inr ((s, m'), c1)"
    by (auto simp: decode_golomb_planes_def)
  then show ?thesis by (rule loop_result_keeps [rotated]) (rule decode_golomb_rgb_row_keeps [OF _ rgb])
next
  case False
  show ?thesis
    using assms(1) unfolding decode_golomb_planes_def if_not_P [OF False]
    by (rule loop_result_keeps [rotated]) (rule decode_golomb_plane_keeps)
qed

subsection \<open>A slice\<close>

lemma decode_slice_keeps:
  assumes "decode_slice stream kernels allow sl ws (state, m) = Inr (state', m')"
    and "sp_colorspace_type stream = 1 \<longrightarrow> rgb_windows stream ws"
  shows "keeps_outside ws m m'"
proof (cases "sp_entropy_mode stream = GolombRiceMode")
  case True
  with assms(1) obtain off models banks s c s' c' where
    "decode_golomb_planes stream kernels off models banks ws (s, m) c = Inr ((s', m'), c')"
    by (auto simp: decode_slice_def decode_golomb_rice_slice_def Let_def split: if_splits)
  then show ?thesis by (rule decode_golomb_planes_keeps [OF _ assms(2)])
next
  case False
  with assms(1) obtain off models banks c s' c' where
    "decode_range_samples off stream kernels models banks ws (state, m) c = Inr ((s', m'), c')"
    by (auto simp: decode_slice_def Let_def)
  then show ?thesis by (rule decode_range_samples_keeps [OF _ assms(2)])
qed

end
