(* ===== verification/Frame_Encoding.thy ===== *)
theory Frame_Encoding
  imports Window_Writes Encoder_Geometry
begin

text \<open>
  The frame that the slice encode executor makes, taken apart, and what the locator and the frame parser make of it:
  one slice per cell of the grid, each with the bytes of its own encoder run, found and described again.
\<close>

subsection \<open>The slices of an encoded frame\<close>

lemma collect_slices_Inr:
  assumes "fold_result (\<lambda>(index, r) collected. bind_result (map_error (set_slice_location_if_missing (word_of_nat index)) r)
      (\<lambda>sl. Inr (collected @ [sl]))) (enumerate k results) before = Inr slices"
  shows "\<exists>ys. slices = before @ ys \<and> results = map Inr ys"
  using assms
proof (induction results arbitrary: k before)
  case (Cons r results)
  from Cons.prems obtain y where r: "r = Inr y" by (cases r) auto
  from Cons.prems Cons.IH [of "Suc k" "before @ [y]"] obtain ys where "slices = before @ y # ys" "results = map Inr ys"
    by (auto simp: r)
  with r show ?case by (intro exI [of _ "y # ys"]) simp
qed simp

lemma append_slices_Inr:
  assumes "append_slices slices = Inr bytes"
  shows "bytes = concat slices" and "length bytes \<le> byte_vector_max_size"
proof -
  have total: "fold_result (\<lambda>sl total_size. if size_max - total_size < length sl then Inl (make_error ResourceExhausted)
      else Inr (total_size + length sl)) xs n = Inr k \<Longrightarrow> k = n + length (concat xs)" for xs :: "bytes list" and n k
  proof (induction xs arbitrary: n)
    case (Cons x xs)
    from Cons.prems Cons.IH [of "n + length x"] show ?case by (simp split: if_splits)
  qed simp
  from assms show "bytes = concat slices" "length bytes \<le> byte_vector_max_size"
    by (auto simp: append_slices_def split: if_splits dest!: total)
qed

lemma encode_results_serial:
  "(if worker_count_for t n \<le> 1 then encode_serial stream kernels input memory keyframe states n
    else encode_batches stream kernels input memory keyframe states (worker_count_for t n) n 0) =
   map (\<lambda>i. encode_grid_slice stream kernels input memory keyframe (states ! i) i) [0..<n]"
  by (simp add: encode_batches_serial encode_serial_def)

lemma execute_encode_Inr:
  assumes "execute_encode stream kernels threads input memory keyframe executor = Inr (bytes, executor')"
  obtains states slices where "validate_input stream input = Inr ()" and "cell_count stream \<noteq> 0"
    and "encoder_starting_states stream executor (cell_count stream) keyframe = Inr states"
    and "length slices = cell_count stream"
    and "\<And>i. i < cell_count stream \<Longrightarrow> encode_grid_slice stream kernels input memory keyframe (states ! i) i = Inr (slices ! i)"
    and "bytes = concat (map fst slices)" and "length bytes \<le> byte_vector_max_size"
    and "executor' = \<lparr>ee_slice_states = map snd slices, ee_slice_layouts = map (encode_slice_layout stream) [0..<cell_count stream]\<rparr>"
proof -
  have count: "checked_slice_count stream = Inr n \<Longrightarrow> n = cell_count stream \<and> n \<noteq> 0" for n
    unfolding checked_slice_count_def Let_def cell_count_def slice_count_product [symmetric] unat_eq_zero
    by (auto simp: unat_gt_0 split: if_splits)
  from assms obtain n states slices where
    n: "checked_slice_count stream = Inr n" and input: "validate_input stream input = Inr ()" and
    states: "encoder_starting_states stream executor n keyframe = Inr states" and
    slices: "collect_slices (map (\<lambda>i. encode_grid_slice stream kernels input memory keyframe (states ! i) i) [0..<n]) = Inr slices" and
    bytes: "append_slices (map fst slices) = Inr bytes" and
    executor': "executor' = \<lparr>ee_slice_states = map snd slices, ee_slice_layouts = map (encode_slice_layout stream) [0..<n]\<rparr>"
    unfolding execute_encode_def Let_def encode_results_serial by (auto split: if_splits)
  from collect_slices_Inr [OF slices [unfolded collect_slices_def]]
  have results: "map (\<lambda>i. encode_grid_slice stream kernels input memory keyframe (states ! i) i) [0..<n] = map Inr slices" by simp
  have len: "length slices = n" using arg_cong [OF results, of length] by simp
  have each: "encode_grid_slice stream kernels input memory keyframe (states ! i) i = Inr (slices ! i)" if "i < n" for i
    using arg_cong [OF results, of "\<lambda>xs. xs ! i"] that len by simp
  note n = count [OF n] note appended = append_slices_Inr [OF bytes]
  show thesis
    by (rule that [of states slices]) (use input states len each executor' appended n in simp_all)
qed

subsection \<open>The slices are located\<close>

lemma slices_bytes_take: "sum_list (map length (take i bs)) + length (bs ! i) \<le> length (concat bs)" if "i < length bs"
proof -
  have "concat bs = concat (take i bs) @ bs ! i @ concat (drop (Suc i) bs)"
    using id_take_nth_drop [OF that] by (metis concat.simps(2) concat_append)
  then show ?thesis by (simp add: length_concat)
qed

lemma slices_located:
  assumes foot: "\<And>i. i < length bs \<Longrightarrow> append_footer stream 0 (ps i) = Inr (bs ! i)"
    and size: "length (concat bs) < 2 ^ 64" and n: "0 < length bs" "length bs < 2 ^ 32"
  shows "\<exists>ds. locate_slices (concat bs) stream (length bs) verify_crc = Inr ds \<and> length ds = length bs \<and>
    (\<forall>i < length bs. locates stream (ds ! i) (bs ! i) \<and> unat (sd_index (ds ! i)) = i)"
proof -
  let ?parts = "map (\<lambda>i. (0 :: u8, ps i, bs ! i)) [0..<length bs]"
  have parts: "finished_slices stream ?parts" using foot by (auto simp: finished_slices_def)
  have "map (\<lambda>(error_status, payload, full). full) ?parts = bs" by (rule nth_equalityI) simp_all
  then have bytes: "slices_bytes ?parts = concat bs" by (simp only: slices_bytes_def)
  from locate_loop_complete [OF parts, of "[]" "[]" "length bs" verify_crc] size obtain located where
    run: "locate_slices_loop (concat bs) stream (length bs) verify_crc (length (concat bs)) [] = Inr located" and
    as: "list_all2 (located_as stream) ?parts located"
    unfolding bytes by auto
  let ?ds = "map (\<lambda>(index, d). d\<lparr>sd_index := word_of_nat index\<rparr>) (enumerate 0 located)"
  have len: "length located = length bs" using list_all2_lengthD [OF as] by simp
  have ds: "locate_slices (concat bs) stream (length bs) verify_crc = Inr ?ds"
    using run n by (simp add: locate_slices_def)
  have from0: "slices_from (concat bs) stream verify_crc 0 located"
    using locate_loop_sound [OF run _ size] by simp
  have each: "locates stream (?ds ! i) (bs ! i) \<and> unat (sd_index (?ds ! i)) = i" if i: "i < length bs" for i
  proof -
    let ?d = "located ! i"
    have d: "?ds ! i = ?d\<lparr>sd_index := word_of_nat i\<rparr>" using i len by (simp add: nth_enumerate_eq)
    have "located_as stream (0, ps i, bs ! i) ?d" using list_all2_nthD2 [OF as, of i] i len by simp
    then have pay: "sd_payload ?d = bs ! i" and sz: "unat (sd_slice_size ?d) = length (ps i)" by (simp_all add: located_as_def)
    have full: "length (bs ! i) = length (ps i) + footer_size stream" using finished_payload(2) [OF foot [OF i]] .
    have "sum_list (map (length \<circ> sd_payload) (take i located)) = sum_list (map length (take i bs))"
    proof -
      have "map (length \<circ> sd_payload) (take i located) = map length (take i bs)"
      proof (rule nth_equalityI)
        fix j assume "j < length (map (length \<circ> sd_payload) (take i located))"
        then have "j < length bs" "j < i" using len by auto
        moreover from this have "sd_payload (located ! j) = bs ! j"
          using list_all2_nthD2 [OF as, of j] len by (simp add: located_as_def)
        ultimately show "map (length \<circ> sd_payload) (take i located) ! j = map length (take i bs) ! j" using len i by simp
      qed (use len in simp)
      then show ?thesis by simp
    qed
    with slices_from_nth [OF from0, of i] i len have at:
      "slice_at (concat bs) stream verify_crc (sum_list (map length (take i bs))) ?d" by simp
    have idx: "unat (word_of_nat i :: u32) = i" using i n by (intro unat_of_nat_bounded) simp
    show ?thesis
      unfolding d locates_def using at pay sz full idx slices_bytes_take [OF i] size
      by (simp add: slice_at_def)
  qed
  show ?thesis using ds len each by (intro exI [of _ ?ds]) simp
qed

subsection \<open>The located slices are parsed\<close>

lemma parse_rest:
  assumes "length sls = length ds" and "\<And>i. i < length ds \<Longrightarrow> parse_located_slice stream (ds ! i) False keyframe = Inr (sls ! i, keyframe)"
  shows "parse_located_loop stream False ds keyframe = Inr (sls, keyframe)"
  using assms
proof (induction ds arbitrary: sls)
  case (Cons d ds)
  from Cons.prems(1) obtain sl rest where sls: "sls = sl # rest" "length rest = length ds" by (cases sls) auto
  have "parse_located_slice stream d False keyframe = Inr (sl, keyframe)" using Cons.prems(2) [of 0] sls by simp
  moreover have "parse_located_loop stream False ds keyframe = Inr (rest, keyframe)"
    using Cons.prems(2) [of "Suc _"] sls by (intro Cons.IH) auto
  ultimately show ?case by (simp add: sls)
qed simp

lemma parse_all:
  assumes "length sls = length ds" and "ds \<noteq> []"
    and "parse_located_slice stream (ds ! 0) True False = Inr (sls ! 0, keyframe)"
    and "\<And>i. i < length ds \<Longrightarrow> i \<noteq> 0 \<Longrightarrow> parse_located_slice stream (ds ! i) False keyframe = Inr (sls ! i, keyframe)"
  shows "parse_located_loop stream True ds False = Inr (sls, keyframe)"
proof -
  from assms(1,2) obtain d ds' sl rest where l: "ds = d # ds'" "sls = sl # rest" by (cases ds; cases sls) auto
  have "parse_located_loop stream False ds' keyframe = Inr (rest, keyframe)"
    using assms(1) assms(4) [of "Suc _"] by (intro parse_rest) (auto simp: l)
  with assms(3) show ?thesis by (simp add: l)
qed

end
