(* ===== verification/Frame_Output.thy ===== *)
theory Frame_Output
  imports Frame_Encoding
begin

text \<open>
  The cells of the grid and the planes of the output: the slices of an encoded frame tile the raster, their windows
  into the output exist, do not share a byte, and contain every sample of every plane.
\<close>

subsection \<open>The cells of the grid\<close>

lemma cell_column_row:
  assumes "i < h * v"
  shows "i mod h < h" and "i div h < (v :: nat)"
proof -
  have "0 < h" using assms by (cases h) simp_all
  then show "i mod h < h" by simp
  have "i < v * h" using assms by (simp only: mult.commute)
  then show "i div h < v" by (rule less_mult_imp_div_less)
qed

lemma grid_cell:
  assumes "i < cell_count stream"
  shows "unat (grid_cell_x stream i) = i mod unat (sp_num_h_slices stream)"
    and "unat (grid_cell_y stream i) = i div unat (sp_num_h_slices stream)"
    and "unat (grid_cell_x stream i) < unat (sp_num_h_slices stream)"
    and "unat (grid_cell_y stream i) < unat (sp_num_v_slices stream)"
proof -
  note at = cell_column_row [OF assms [unfolded cell_count_def]]
  have b: "unat (sp_num_h_slices stream) < 2 ^ 32" "unat (sp_num_v_slices stream) < 2 ^ 32"
    using unat_bound [of "sp_num_h_slices stream"] unat_bound [of "sp_num_v_slices stream"] by simp_all
  show x: "unat (grid_cell_x stream i) = i mod unat (sp_num_h_slices stream)"
    unfolding grid_cell_x_def using at(1) b(1) by (intro unat_of_nat_bounded) simp
  show y: "unat (grid_cell_y stream i) = i div unat (sp_num_h_slices stream)"
    unfolding grid_cell_y_def using at(2) b(2) by (intro unat_of_nat_bounded) simp
  show "unat (grid_cell_x stream i) < unat (sp_num_h_slices stream)" "unat (grid_cell_y stream i) < unat (sp_num_v_slices stream)"
    using at by (simp_all only: x y)
qed

text \<open>Where the format limits the size of slices, the grid has four cells.\<close>

definition grid_allowed :: "stream_parameters \<Rightarrow> bool" where
  "grid_allowed stream \<longleftrightarrow> grid_fits stream \<and> cell_count stream < 2 ^ 32 \<and>
     (requires_version3_parallel_slice_limit (sp_version stream) (sp_width stream) (sp_height stream) \<longrightarrow> 4 \<le> cell_count stream)"

definition in_cell :: "stream_parameters \<Rightarrow> nat \<Rightarrow> slice_descriptor \<Rightarrow> bool" where
  "in_cell stream i sl \<longleftrightarrow> sd_raster_x sl = grid_cell_x stream i \<and> sd_raster_y sl = grid_cell_y stream i \<and>
     sd_raster_width sl = 1 \<and> sd_raster_height sl = 1"

lemma in_cell_valid:
  assumes "in_cell stream i sl" and "i < cell_count stream" and "grid_allowed stream"
  shows "valid_raster stream sl"
    and "raster_cells sl = {(i mod unat (sp_num_h_slices stream), i div unat (sp_num_h_slices stream))}"
proof -
  note cell = grid_cell [OF assms(2)]
  have "slice_area sl = 1" using assms(1) by (simp add: slice_area_def in_cell_def)
  moreover have "1 \<le> cell_count stream div 4" if "4 \<le> cell_count stream" using that by simp
  ultimately show "valid_raster stream sl"
    using assms(1,3) cell(3,4) unfolding valid_raster_def in_cell_def grid_allowed_def by simp
  show "raster_cells sl = {(i mod unat (sp_num_h_slices stream), i div unat (sp_num_h_slices stream))}"
    using assms(1) cell(1,2) by (auto simp: raster_cells_def in_cell_def)
qed

lemma grid_covered:
  assumes len: "length sls = cell_count stream" and cells: "\<And>i. i < cell_count stream \<Longrightarrow> in_cell stream i (sls ! i)"
    and grid: "grid_allowed stream"
  shows "validate_slice_raster_coverage stream sls = Inr ()"
proof -
  let ?h = "unat (sp_num_h_slices stream)"
  have valid: "\<forall>sl \<in> set sls. valid_raster stream sl"
    using in_cell_valid(1) [OF cells _ grid] len by (auto simp: in_set_conv_nth)
  have at: "raster_cells (sls ! i) = {(i mod ?h, i div ?h)}" if "i < length sls" for i
    using in_cell_valid(2) [OF cells _ grid] that len by simp
  have "rectangles_apart sls" unfolding rectangles_apart_cells [OF valid]
  proof (intro allI impI)
    fix i j assume ij: "i < length sls" "j < length sls" "i \<noteq> j"
    have "(i mod ?h, i div ?h) \<noteq> (j mod ?h, j div ?h)" using ij(3) by (metis Pair_inject div_mult_mod_eq)
    then show "raster_cells (sls ! i) \<inter> raster_cells (sls ! j) = {}" unfolding at [OF ij(1)] at [OF ij(2)] by simp
  qed
  moreover have "raster_grid stream \<subseteq> (\<Union>i < length sls. raster_cells (sls ! i))"
  proof
    fix c assume "c \<in> raster_grid stream"
    then obtain x y where c: "c = (x, y)" "x < ?h" "y < unat (sp_num_v_slices stream)" by (auto simp: raster_grid_def)
    have "y * ?h + x < (y + 1) * ?h" using c(2) by simp
    also have "\<dots> \<le> unat (sp_num_v_slices stream) * ?h" using c(3) by (intro mult_le_mono1) simp
    finally have n: "y * ?h + x < length sls" by (simp only: len cell_count_def mult.commute)
    have "raster_cells (sls ! (y * ?h + x)) = {(x, y)}" unfolding at [OF n] using c(2) by simp
    with n show "c \<in> (\<Union>i < length sls. raster_cells (sls ! i))" by (auto simp: c(1))
  qed
  moreover have "length sls \<le> sweep_events_max_size div 2"
    using grid len by (simp add: grid_allowed_def sweep_events_max_size_def)
  moreover have "sp_num_h_slices stream \<noteq> 0" "sp_num_v_slices stream \<noteq> 0" using grid by (auto simp: grid_allowed_def grid_fits_def)
  ultimately show ?thesis using coverage_valid [OF _ _ _ valid] by simp
qed

subsection \<open>The output planes\<close>

text \<open>
  What the caller of the decoder provides: planes of the expected kind, at least as large as the frame, whose rows
  do not overlap, in memory that the planes do not exceed and whose size is a \<open>ptrdiff_t\<close>.
\<close>

definition output_plane_ok :: "stream_parameters \<Rightarrow> nat \<Rightarrow> plane_view \<Rightarrow> bytes \<Rightarrow> bool" where
  "output_plane_ok stream i view mem \<longleftrightarrow>
     (let info = pv_info view in
      pi_role info = expected_plane_role stream i \<and>
      pi_sample_format info = sample_format_for_bit_depth (sp_bits_per_raw_sample stream) \<and>
      plane_width stream i \<le> pi_width info \<and> plane_height stream i \<le> pi_height info \<and>
      0 \<le> pi_stride_bytes info \<and>
      unat (pi_width info) * sample_bytes (pi_sample_format info) \<le> nat (pi_stride_bytes info) \<and>
      (case pv_data view of None \<Rightarrow> False | Some data \<Rightarrow> data + plane_bytes info \<le> length mem) \<and> length mem < 2 ^ 63)"

definition output_planes_ok :: "stream_parameters \<Rightarrow> plane_view list \<Rightarrow> frame_memory \<Rightarrow> bool" where
  "output_planes_ok stream views m \<longleftrightarrow> coded_plane_count stream \<le> length views \<and> coded_plane_count stream \<le> length m \<and>
     (\<forall>i < coded_plane_count stream. output_plane_ok stream i (views ! i) (m ! i))"

lemma output_plane_ok_length: "length mem' = length mem \<Longrightarrow> output_plane_ok stream i view mem' = output_plane_ok stream i view mem"
  by (simp add: output_plane_ok_def cong: option.case_cong)

lemma keeps_outside_planes:
  assumes "keeps_outside ws m m'"
  shows "output_planes_ok stream views m' = output_planes_ok stream views m"
proof -
  have "output_plane_ok stream i (views ! i) (m' ! i) = output_plane_ok stream i (views ! i) (m ! i)" if "i < length m" for i
    using assms that by (intro output_plane_ok_length) (simp add: keeps_outside_def)
  moreover have "length m' = length m" using assms by (simp add: keeps_outside_def)
  ultimately show ?thesis by (auto simp: output_planes_ok_def)
qed

lemma validate_output_ok:
  assumes "output_planes_ok stream views m" and "frame_views output views" and "validate_stream_shape stream = Inr ()"
  shows "validate_output stream output = Inr ()"
proof -
  have "validate_view_plane validate_plane_info (make_frame_info stream) views i () = Inr ()" if "i < coded_plane_count stream" for i
  proof -
    have ok: "output_plane_ok stream i (views ! i) (m ! i)" using assms(1) that by (simp add: output_planes_ok_def)
    let ?info = "pv_info (views ! i)"
    from ok have fmt: "pi_sample_format ?info = sample_format_for_bit_depth (sp_bits_per_raw_sample stream)"
      and w: "plane_width stream i \<le> pi_width ?info"
      and s0: "0 \<le> pi_stride_bytes ?info" and s: "unat (pi_width ?info) * sample_bytes (pi_sample_format ?info) \<le> nat (pi_stride_bytes ?info)"
      by (auto simp: output_plane_ok_def Let_def)
    have "unat (plane_width stream i) * sample_bytes (pi_sample_format ?info) \<le> nat (pi_stride_bytes ?info)"
      using w s by (meson le_trans mult_le_mono1 word_le_nat_alt)
    then have "int (unat (plane_width stream i) * sample_bytes (pi_sample_format ?info)) \<le> pi_stride_bytes ?info"
      using s0 by linarith
    with ok show ?thesis
      unfolding validate_view_plane_Inr make_frame_info_plane [OF that] validate_plane_info_Inr
      by (auto simp: output_plane_ok_def expected_plane_info_def Let_def fmt sample_bytes_def split: option.splits)
  qed
  with assms show ?thesis
    by (auto simp: validate_output_def fold_result_unit frame_views_def output_planes_ok_def make_frame_info_def Let_def)
qed

subsection \<open>The windows of the slices\<close>

lemma output_plane_window_ok:
  assumes ok: "output_plane_ok stream i view mem" and stride: "pi_stride_bytes (pv_info view) < 2 ^ 63"
    and inside: "unat (output_plane_x stream sl i) + unat (output_slice_plane_width stream sl i) \<le> unat (plane_width stream i)"
      "unat (output_plane_y stream sl i) + unat (output_slice_plane_height stream sl i) \<le> unat (plane_height stream i)"
    and nonzero: "output_slice_plane_width stream sl i \<noteq> 0" "output_slice_plane_height stream sl i \<noteq> 0"
  shows "\<exists>w. output_plane_window stream sl i view = Inr w"
proof -
  let ?info = "pv_info view"
  let ?x = "output_plane_x stream sl i" and ?y = "output_plane_y stream sl i"
  let ?w = "output_slice_plane_width stream sl i" and ?h = "output_slice_plane_height stream sl i"
  from ok obtain data where data: "pv_data view = Some data" "data + plane_bytes ?info \<le> length mem" "length mem < 2 ^ 63"
    and role: "pi_role ?info = expected_plane_role stream i" and size: "plane_width stream i \<le> pi_width ?info" "plane_height stream i \<le> pi_height ?info"
    and s0: "0 \<le> pi_stride_bytes ?info" and rows: "unat (pi_width ?info) * sample_bytes (pi_sample_format ?info) \<le> nat (pi_stride_bytes ?info)"
    by (auto simp: output_plane_ok_def Let_def split: option.splits)
  have le: "unat ?x + unat ?w \<le> unat (pi_width ?info)" "unat ?y + unat ?h \<le> unat (pi_height ?info)"
    using inside size unfolding word_le_nat_alt by linarith+
  have "0 < unat ?w" "0 < unat ?h" using nonzero by (simp_all add: unat_gt_0)
  then have "pi_width ?info \<noteq> 0" "pi_height ?info \<noteq> 0" using le by auto
  then have "window_end ?info (unat (pi_width ?info)) (unat (pi_height ?info)) = plane_bytes ?info"
    by (simp add: window_end_def plane_bytes_def)
  with window_end_mono [OF le, of ?info] data(2,3)
  have "window_end ?info (unat ?x + unat ?w) (unat ?y + unat ?h) \<le> 2 ^ 63 - 1" by linarith
  then obtain off where off: "checked_plane_window_offset ?info ?x ?y ?w ?h = Inr off"
    using checked_offset_ok_iff [OF s0 stride nonzero] by (auto simp: is_ok_iff)
  let ?n = "ucast (pi_width ?info) * ucast (bytes_per_sample (pi_sample_format ?info)) :: u64"
  have n: "unat ?n = unat (pi_width ?info) * sample_bytes (pi_sample_format ?info)" by (rule unat_column)
  have "unat (pi_width ?info) * sample_bytes (pi_sample_format ?info) \<le> 2 ^ 63 - 1"
    by (rule le_trans [OF rows]) (use stride in simp)
  then have "to_int64 (uint ?n) = int (unat ?n)" by (intro int64_of_u64) (simp only: n)
  then have "\<not> pi_stride_bytes ?info < to_int64 (uint ?n)" using rows s0 unfolding n by linarith
  then show ?thesis
    using data(1) role size extent_fits [OF le(1)] extent_fits [OF le(2)] off
    by (simp add: output_plane_window_def Let_def row_bytes_ok not_less)
qed

lemma described_output:
  assumes "describes stream header n located sl" and "apply_raster stream header new_slice_descriptor = Inr d"
  shows "sd_x sl = sd_x d" and "sd_y sl = sd_y d" and "sd_width sl = sd_width d" and "sd_height sl = sd_height d"
    and "output_plane_x stream sl i = output_plane_x stream d i" and "output_plane_y stream sl i = output_plane_y stream d i"
    and "output_slice_plane_width stream sl i = output_slice_plane_width stream d i"
    and "output_slice_plane_height stream sl i = output_slice_plane_height stream d i"
proof -
  from assms show "sd_x sl = sd_x d" "sd_y sl = sd_y d" "sd_width sl = sd_width d" "sd_height sl = sd_height d"
    unfolding describes_def apply_raster_index [OF assms(2)] by auto
  show "output_plane_x stream sl i = output_plane_x stream d i" "output_plane_y stream sl i = output_plane_y stream d i"
    "output_slice_plane_width stream sl i = output_slice_plane_width stream d i"
    "output_slice_plane_height stream sl i = output_slice_plane_height stream d i"
    using described_rectangle [OF assms, of i] input_output_rectangle [OF assms(2), of i] by simp_all
qed

lemma output_window_exists:
  assumes sl: "describes stream header n located sl" and raster: "apply_raster stream header new_slice_descriptor = Inr d"
    and grid: "grid_fits stream" and planes: "output_planes_ok stream views m" and views: "frame_views output views"
  shows "\<exists>ows. validate_output_window stream output sl = Inr ows \<and> output_backed stream ows m"
proof -
  note out = described_output [OF sl raster] note same = input_output_rectangle [OF raster]
  note inside = placed_inside [OF raster grid, unfolded same, folded out]
  have count: "0 < coded_plane_count stream" by (simp add: coded_plane_count_def)
  have luma: "output_plane_x stream sl 0 = sd_x sl" "output_plane_y stream sl 0 = sd_y sl"
    "output_slice_plane_width stream sl 0 = sd_width sl" "output_slice_plane_height stream sl 0 = sd_height sl"
    "plane_width stream 0 = sp_width stream" "plane_height stream 0 = sp_height stream"
    by (simp_all add: output_plane_x_def output_plane_y_def output_slice_plane_width_def output_slice_plane_height_def
        plane_width_def plane_height_def is_chroma_plane_def)
  note inside0 = inside [OF count, unfolded luma]
  have ok: "\<And>i. i < coded_plane_count stream \<Longrightarrow> output_plane_ok stream i (views ! i) (m ! i)"
    and len: "coded_plane_count stream \<le> length views" "coded_plane_count stream \<le> length m"
    using planes by (simp_all add: output_planes_ok_def)
  have stride: "i < length views \<Longrightarrow> pi_stride_bytes (pv_info (views ! i)) < 2 ^ 63" for i
    using views by (simp add: frame_views_def)
  have "\<exists>w. output_plane_window stream sl i (views ! i) = Inr w" if "i < coded_plane_count stream" for i
    using output_plane_window_ok [OF ok [OF that] _ inside [OF that]] stride that len(1) by simp
  then have "\<exists>ows. plane_windows (output_plane_window stream sl) 0 (take (coded_plane_count stream) views) = Inr ows"
    using len(1) by (intro plane_windows_ok) simp
  then obtain ows where ows: "plane_windows (output_plane_window stream sl) 0 (take (coded_plane_count stream) views) = Inr ows" ..
  have valid: "validate_output_window stream output sl = Inr ows"
    using ows views len(1) inside0 extent_fits [OF inside0(1)] extent_fits [OF inside0(2)]
    by (simp add: validate_output_window_def frame_views_def Let_def not_less)
  have each: "window_backed (ows ! i) (m ! i) \<and>
      pw_sample_format (ows ! i) = sample_format_for_bit_depth (sp_bits_per_raw_sample stream)" if i: "i < length ows" for i
  proof -
    note at = output_windows_at [OF valid views i]
    have ic: "i < coded_plane_count stream" using i at(2) by simp
    note ok = ok [OF ic]
    from ok obtain data where data: "pv_data (views ! i) = Some data" "data + plane_bytes (pv_info (views ! i)) \<le> length (m ! i)"
      and fmt: "pi_sample_format (pv_info (views ! i)) = sample_format_for_bit_depth (sp_bits_per_raw_sample stream)"
      by (auto simp: output_plane_ok_def Let_def split: option.splits)
    have "pw_width (ows ! i) \<noteq> 0" using inside(3) [OF ic] at(4) by simp
    from window_at_backed [OF at(3) data this] at(3) fmt show ?thesis by (simp add: window_at_def)
  qed
  have "length ows = coded_plane_count stream" using plane_windows_nth [OF ows] len(1) by simp
  with each len(2) have "output_backed stream ows m" by (simp add: output_backed_def)
  with valid show ?thesis by blast
qed

end
