(* ===== verification/Frame_Samples.thy ===== *)
theory Frame_Samples
  imports Frame_Output
begin

text \<open>
  The samples of whole planes: every sample lies in the window of exactly one slice of the grid, and no byte is in the
  windows of two.
\<close>

subsection \<open>Windows of different cells\<close>

lemma in_windowE:
  assumes "in_window ws p a"
  obtains r c k where "p < length ws" and "r < unat (pw_height (ws ! p))" and "c < unat (pw_width (ws ! p))"
    and "k < sample_bytes (pw_sample_format (ws ! p))" and "a = window_byte (ws ! p) r c k"
proof -
  let ?b = "sample_bytes (pw_sample_format (ws ! p))"
  from assms obtain r where r: "p < length ws" "r < unat (pw_height (ws ! p))" "row_address (ws ! p) r \<le> a"
      "a < row_address (ws ! p) r + unat (pw_width (ws ! p)) * ?b" by (auto simp: in_window_def)
  let ?o = "a - row_address (ws ! p) r"
  have b: "0 < ?b" using sample_bytes_bounds(1) [of "pw_sample_format (ws ! p)"] by linarith
  have "?o < unat (pw_width (ws ! p)) * ?b" using r(3,4) by linarith
  then have "?o div ?b < unat (pw_width (ws ! p))" by (rule less_mult_imp_div_less)
  moreover have "a = window_byte (ws ! p) r (?o div ?b) (?o mod ?b)" using r(3) by (simp add: window_byte_def)
  ultimately show thesis using r(1,2) b by (intro that [of r "?o div ?b" "?o mod ?b"]) simp_all
qed

lemma cells_differ:
  assumes "i < cell_count stream" and "j < cell_count stream" and "i \<noteq> j"
  shows "unat (grid_cell_x stream i) + 1 \<le> unat (grid_cell_x stream j) \<or> unat (grid_cell_x stream j) + 1 \<le> unat (grid_cell_x stream i) \<or>
    unat (grid_cell_y stream i) + 1 \<le> unat (grid_cell_y stream j) \<or> unat (grid_cell_y stream j) + 1 \<le> unat (grid_cell_y stream i)"
proof -
  have "i mod h = j mod h \<and> i div h = j div h \<Longrightarrow> i = j" for h by (metis div_mult_mod_eq)
  with assms(3) show ?thesis unfolding grid_cell(1,2) [OF assms(1)] grid_cell(1,2) [OF assms(2)] by (metis not_less_eq_eq antisym Suc_eq_plus1)
qed

lemma cell_windows_apart:
  assumes sl: "describes stream (grid_header stream i) n located sl" "apply_raster stream (grid_header stream i) new_slice_descriptor = Inr d"
    and sl': "describes stream (grid_header stream j) n' located' sl'" "apply_raster stream (grid_header stream j) new_slice_descriptor = Inr d'"
    and cells: "i < cell_count stream" "j < cell_count stream" "i \<noteq> j" and grid: "grid_fits stream"
    and win: "validate_output_window stream output sl = Inr ows" "validate_output_window stream output sl' = Inr ows'"
    and views: "frame_views output views"
    and a: "in_window ows p a"
  shows "\<not> in_window ows' p a"
proof
  assume "in_window ows' p a"
  then obtain r' c' k' where at': "p < length ows'" "r' < unat (pw_height (ows' ! p))" "c' < unat (pw_width (ows' ! p))"
    "k' < sample_bytes (pw_sample_format (ows' ! p))" "a = window_byte (ows' ! p) r' c' k'" by (rule in_windowE)
  from a obtain r c k where at: "p < length ows" "r < unat (pw_height (ows ! p))" "c < unat (pw_width (ows ! p))"
    "k < sample_bytes (pw_sample_format (ows ! p))" "a = window_byte (ows ! p) r c k" by (rule in_windowE)
  note w = output_windows_at(3-5) [OF win(1) views at(1)] and w' = output_windows_at(3-5) [OF win(2) views at'(1)]
  note out = described_output [OF sl] and out' = described_output [OF sl']
  obtain data where data: "pv_data (views ! p) = Some data" using w(1) by (auto simp: window_at_def)
  have hv: "sp_num_h_slices stream \<noteq> 0" "sp_num_v_slices stream \<noteq> 0" using grid by (auto simp: grid_fits_def)
  have apart: "(unat (output_plane_x stream sl p) + c, unat (output_plane_y stream sl p) + r) \<noteq>
      (unat (output_plane_x stream sl' p) + c', unat (output_plane_y stream sl' p) + r')"
    unfolding out out'
    by (rule grid_rectangles_apart [OF sl(2) sl'(2) hv])
      (use cells_differ [OF cells] at at' w w' out out' in \<open>simp_all add: grid_header_def\<close>)
  have fmt: "pw_sample_format (ows ! p) = pi_sample_format (pv_info (views ! p))"
    "pw_sample_format (ows' ! p) = pi_sample_format (pv_info (views ! p))"
    and rows: "unat (pi_width (pv_info (views ! p))) * sample_bytes (pi_sample_format (pv_info (views ! p)))
      \<le> nat (pi_stride_bytes (pv_info (views ! p)))"
    and inside: "unat (output_plane_x stream sl p) + c < unat (pi_width (pv_info (views ! p)))"
      "unat (output_plane_x stream sl' p) + c' < unat (pi_width (pv_info (views ! p)))"
    using w(1) w'(1) at(3) at'(3) by (auto simp: window_at_def)
  have "window_byte (ows ! p) r c k \<noteq> window_byte (ows' ! p) r' c' k'"
    unfolding window_byte_def window_sample_address [OF w(1) data] window_sample_address [OF w'(1) data]
    by (rule sample_address_disjoint [OF rows inside apart]) (use at(4) at'(4) fmt in simp_all)
  with at(5) at'(5) show False by simp
qed

subsection \<open>Samples by their place in the plane\<close>

definition plane_sample :: "stream_parameters \<Rightarrow> plane_view \<Rightarrow> bytes \<Rightarrow> nat \<Rightarrow> nat \<Rightarrow> u32" where
  "plane_sample stream view mem x y =
     (let address = sample_address (pv_info view) (the (pv_data view)) x y in
      if sp_bits_per_raw_sample stream \<le> 8 then ucast (mem ! address) else ucast (load_u16 mem address))"

lemma load_sample_plane:
  assumes at: "window_at view x y (ws ! p)" and "p < length ws" and "r < unat (pw_height (ws ! p))"
    and fmt: "pw_sample_format (ws ! p) = sample_format_for_bit_depth (sp_bits_per_raw_sample stream)"
  shows "load_sample stream ws m p r c = plane_sample stream view (m ! p) (x + c) (y + r)"
proof -
  obtain data where data: "pv_data view = Some data" using at by (auto simp: window_at_def)
  have "sample_bytes (pw_sample_format (ws ! p)) = (if sp_bits_per_raw_sample stream \<le> 8 then 1 else 2)"
    using fmt by (simp add: sample_format_for_bit_depth_def sample_bytes_cases)
  with window_sample_address [OF at data, of r c] show ?thesis
    unfolding load_sample_address [OF fmt assms(2,3)] plane_sample_def Let_def data option.sel by (auto split: if_splits)
qed

lemma input_windows_at:
  assumes "validate_input_window stream frame d = Inr iws" and "frame_views frame views" and "p < length iws"
  shows "window_at (views ! p) (unat (input_plane_x stream d p)) (unat (input_plane_y stream d p)) (iws ! p)"
    and "pw_sample_format (iws ! p) = sample_format_for_bit_depth (sp_bits_per_raw_sample stream)"
    and "pw_height (iws ! p) = input_slice_plane_height stream d p"
proof -
  from assms(1,2) have len: "coded_plane_count stream = length views"
    and run: "plane_windows (input_plane_window stream d) 0 (take (coded_plane_count stream) views) = Inr iws"
    by (auto simp: validate_input_window_def frame_views_def Let_def split: if_splits)
  note nth = plane_windows_nth [OF run]
  have w: "input_plane_window stream d p (views ! p) = Inr (iws ! p)" using nth len assms(3) by auto
  have "pi_stride_bytes (pv_info (views ! p)) < 2 ^ 63" using assms(2,3) nth len by (simp add: frame_views_def)
  from input_plane_window_at [OF w this]
  show "window_at (views ! p) (unat (input_plane_x stream d p)) (unat (input_plane_y stream d p)) (iws ! p)"
    "pw_sample_format (iws ! p) = sample_format_for_bit_depth (sp_bits_per_raw_sample stream)"
    "pw_height (iws ! p) = input_slice_plane_height stream d p" by simp_all
qed

text \<open>The rows of a slice that were copied, as samples of the planes.\<close>

lemma copied_plane_samples:
  assumes copied: "copied stream iws im ows m {(i, y). i < length ows \<and> y < unat (pw_height (ows ! i))}"
    and sl: "describes stream header n located sl" "apply_raster stream header new_slice_descriptor = Inr d"
    and iws: "validate_input_window stream frame d = Inr iws" "frame_views frame iviews"
    and ows: "validate_output_window stream output sl = Inr ows" "frame_views output oviews" "output_backed stream ows m"
    and p: "p < length ows" and c: "c < unat (output_slice_plane_width stream sl p)"
    and r: "r < unat (output_slice_plane_height stream sl p)"
  shows "plane_sample stream (oviews ! p) (m ! p) (unat (output_plane_x stream sl p) + c) (unat (output_plane_y stream sl p) + r) =
    plane_sample stream (iviews ! p) (im ! p) (unat (output_plane_x stream sl p) + c) (unat (output_plane_y stream sl p) + r)"
proof -
  note out = output_windows_at [OF ows(1,2) p]
  have pi: "p < length iws" using input_windows_size(1) [OF iws] p out(2) by simp
  note inp = input_windows_at [OF iws pi] and rect = described_rectangle [OF sl, of p]
  have fmt: "pw_sample_format (ows ! p) = sample_format_for_bit_depth (sp_bits_per_raw_sample stream)"
    using ows(3) p by (simp add: output_backed_def)
  have rows: "r < unat (pw_height (ows ! p))" "r < unat (pw_height (iws ! p))" "c < unat (pw_width (ows ! p))"
    using r c out(4,5) inp(3) rect(2) by simp_all
  have "load_sample stream ows m p r c = load_sample stream iws im p r c"
    using copied p rows by (auto simp: copied_def)
  then show ?thesis
    unfolding load_sample_plane [OF out(3) p rows(1) fmt] load_sample_plane [OF inp(1) pi rows(2) inp(2)] rect(3,4) .
qed

subsection \<open>The cell of a sample\<close>

lemma grid_interval:
  fixes x e n :: nat
  assumes "x < m * e div n"
  shows "\<exists>k < m. k * e div n \<le> x \<and> x < (k + 1) * e div n"
  using assms
proof (induction m)
  case (Suc m)
  show ?case
  proof (cases "x < m * e div n")
    case True
    with Suc.IH show ?thesis by (meson less_SucI)
  next
    case False
    with Suc.prems show ?thesis by (intro exI [of _ m]) simp
  qed
qed simp

lemma sample_cell:
  assumes x: "x < unat (plane_width stream p)" and y: "y < unat (plane_height stream p)" and grid: "grid_fits stream"
    and d: "\<And>i. i < cell_count stream \<Longrightarrow> apply_raster stream (grid_header stream i) new_slice_descriptor = Inr (d i)"
  shows "\<exists>i < cell_count stream. \<exists>c r. c < unat (output_slice_plane_width stream (d i) p) \<and> r < unat (output_slice_plane_height stream (d i) p) \<and>
    x = unat (output_plane_x stream (d i) p) + c \<and> y = unat (output_plane_y stream (d i) p) + r"
proof -
  let ?h = "unat (sp_num_h_slices stream)" and ?v = "unat (sp_num_v_slices stream)"
  have hv: "sp_num_h_slices stream \<noteq> 0" "sp_num_v_slices stream \<noteq> 0" using grid by (auto simp: grid_fits_def)
  then have pos: "0 < ?h" "0 < ?v" by (simp_all add: unat_gt_0)
  have "x < ?h * unat (plane_width stream p) div ?h" "y < ?v * unat (plane_height stream p) div ?v" using x y pos by simp_all
  from grid_interval [OF this(1)] grid_interval [OF this(2)] obtain kx ky where
    kx: "kx < ?h" "kx * unat (plane_width stream p) div ?h \<le> x" "x < (kx + 1) * unat (plane_width stream p) div ?h" and
    ky: "ky < ?v" "ky * unat (plane_height stream p) div ?v \<le> y" "y < (ky + 1) * unat (plane_height stream p) div ?v" by blast
  let ?i = "ky * ?h + kx"
  have "?i < (ky + 1) * ?h" using kx(1) by simp
  also have "\<dots> \<le> ?v * ?h" using ky(1) by (intro mult_le_mono1) simp
  finally have i: "?i < cell_count stream" by (simp only: cell_count_def mult.commute)
  have hx: "unat (hv_x (grid_header stream ?i)) = kx" "unat (hv_y (grid_header stream ?i)) = ky"
    "hv_width (grid_header stream ?i) = 1" "hv_height (grid_header stream ?i) = 1"
    using grid_cell(1,2) [OF i] kx(1) by (simp_all add: grid_header_def)
  note rect = placed_rectangle [OF d [OF i] hv, of p, unfolded hx]
  let ?c = "x - unat (output_plane_x stream (d ?i) p)" and ?r = "y - unat (output_plane_y stream (d ?i) p)"
  have "x < unat (output_plane_x stream (d ?i) p) + unat (output_slice_plane_width stream (d ?i) p)"
    "unat (output_plane_x stream (d ?i) p) \<le> x"
    "y < unat (output_plane_y stream (d ?i) p) + unat (output_slice_plane_height stream (d ?i) p)"
    "unat (output_plane_y stream (d ?i) p) \<le> y"
    unfolding rect(2,4) unfolding rect(1,3) using kx ky by simp_all
  then have "?c < unat (output_slice_plane_width stream (d ?i) p) \<and> ?r < unat (output_slice_plane_height stream (d ?i) p) \<and>
    x = unat (output_plane_x stream (d ?i) p) + ?c \<and> y = unat (output_plane_y stream (d ?i) p) + ?r" by linarith
  with i show ?thesis by blast
qed

end
