(* ===== verification/Frame_Roundtrip.thy ===== *)
theory Frame_Roundtrip
  imports Frame_Samples
begin

text \<open>
  A frame from the encoder to the decoder: the slices are found, described and decoded, one after the other or in the
  order in which the tasks of the batches happen to take effect, and give back every sample of every plane and the
  slice states of the encoder.
\<close>

subsection \<open>Slices in any order\<close>

definition agree_in :: "plane_window list \<Rightarrow> frame_memory \<Rightarrow> frame_memory \<Rightarrow> bool" where
  "agree_in ws m m' \<longleftrightarrow> length m' = length m \<and> (\<forall>p < length m. \<forall>a. in_window ws p a \<longrightarrow> m' ! p ! a = m ! p ! a)"

lemma load_sample_agree:
  assumes "agree_in ws m m'" and "p < length ws" and "length ws \<le> length m" and "r < unat (pw_height (ws ! p))"
    and "c < unat (pw_width (ws ! p))"
    and fmt: "pw_sample_format (ws ! p) = sample_format_for_bit_depth (sp_bits_per_raw_sample stream)"
  shows "load_sample stream ws m' p r c = load_sample stream ws m p r c"
proof -
  let ?b = "if sp_bits_per_raw_sample stream \<le> 8 then 1 else 2 :: nat"
  have b: "sample_bytes (pw_sample_format (ws ! p)) = ?b"
    using fmt by (simp add: sample_format_for_bit_depth_def sample_bytes_cases)
  have "(c + 1) * ?b \<le> unat (pw_width (ws ! p)) * ?b" using assms(5) by (intro mult_le_mono1) simp
  then have "in_window ws p (row_address (ws ! p) r + c * ?b + k)" if "k < ?b" for k
    unfolding in_window_def b using assms(2,4) that by (intro conjI exI [of _ r]) (simp_all add: algebra_simps)
  then have byte: "m' ! p ! (row_address (ws ! p) r + c * ?b + k) = m ! p ! (row_address (ws ! p) r + c * ?b + k)" if "k < ?b" for k
    using assms(1,2,3) that by (simp add: agree_in_def)
  show ?thesis
  proof (cases "sp_bits_per_raw_sample stream \<le> 8")
    case True
    with byte [of 0] show ?thesis unfolding load_sample_address [OF fmt assms(2,4)] by simp
  next
    case False
    with byte [of 0] byte [of 1] show ?thesis unfolding load_sample_address [OF fmt assms(2,4)] by (simp add: load_u16_def)
  qed
qed

lemma copied_agree:
  assumes "copied stream iws im ows m D" and "agree_in ows m m'" and "output_backed stream ows m"
  shows "copied stream iws im ows m' D"
  unfolding copied_def
proof clarify
  fix i y x assume D: "(i, y) \<in> D" and b: "i < length ows" "y < unat (pw_height (ows ! i))" "x < unat (pw_width (ows ! i))"
  have "load_sample stream ows m' i y x = load_sample stream ows m i y x"
    using assms(3) b by (intro load_sample_agree [OF assms(2)]) (simp_all add: output_backed_def)
  with assms(1) D b show "load_sample stream ows m' i y x = load_sample stream iws im i y x" by (auto simp: copied_def)
qed

text \<open>
  Tasks that succeed on any output planes, each changing only its own window: in any order every task finds its state
  as it was and leaves its result, and the results are all there at the end.
\<close>

lemma tasks_in_any_order:
  assumes task: "\<And>i m. i < n \<Longrightarrow> output_planes_ok stream views m \<Longrightarrow>
      \<exists>m'. execute_slice stream kernels output (sls ! i) (init ! i, m) = Inr (final ! i, m') \<and> keeps_outside (ows i) m m' \<and> good i m'"
    and good: "\<And>i m m'. i < n \<Longrightarrow> good i m \<Longrightarrow> output_planes_ok stream views m \<Longrightarrow> agree_in (ows i) m m' \<Longrightarrow> good i m'"
    and apart: "\<And>i j p a. i < n \<Longrightarrow> j < n \<Longrightarrow> i \<noteq> j \<Longrightarrow> in_window (ows i) p a \<Longrightarrow> \<not> in_window (ows j) p a"
    and "distinct order" and "set order \<subseteq> {..<n}" and "length states = n" and "\<And>i. i \<in> set order \<Longrightarrow> states ! i = init ! i"
    and "output_planes_ok stream views m"
  shows "\<exists>states' m'. fold_result (execute_slice_at stream kernels output sls) order (states, m) = Inr (states', m') \<and>
    length states' = n \<and> (\<forall>i < n. states' ! i = (if i \<in> set order then final ! i else states ! i)) \<and>
    output_planes_ok stream views m' \<and> (\<forall>i \<in> set order. good i m') \<and>
    (\<forall>ws. (\<forall>i \<in> set order. \<forall>p a. in_window ws p a \<longrightarrow> \<not> in_window (ows i) p a) \<longrightarrow> agree_in ws m m')"
  using assms(4-8)
proof (induction order arbitrary: states m)
  case Nil
  then show ?case by (simp add: agree_in_def)
next
  case (Cons i order)
  have i: "i < n" "i \<notin> set order" "distinct order" "set order \<subseteq> {..<n}" using Cons.prems by simp_all
  from task [OF i(1) Cons.prems(5)] obtain m1 where m1: "keeps_outside (ows i) m m1" "good i m1"
      and run: "execute_slice stream kernels output (sls ! i) (init ! i, m) = Inr (final ! i, m1)" by blast
  have ok: "output_planes_ok stream views m1" using keeps_outside_planes [OF m1(1)] Cons.prems(5) by simp
  let ?states = "states[i := final ! i]"
  have same: "?states ! j = init ! j" if "j \<in> set order" for j
  proof -
    have "i \<noteq> j" using that i(2) by auto
    with Cons.prems(4) [of j] that show ?thesis by simp
  qed
  have "length ?states = n" using Cons.prems(3) by simp
  from Cons.IH [OF i(3,4) this same ok] obtain states' m' where
    rest: "fold_result (execute_slice_at stream kernels output sls) order (?states, m1) = Inr (states', m')" and
    len: "length states' = n" and fin: "\<forall>j < n. states' ! j = (if j \<in> set order then final ! j else ?states ! j)" and
    ok': "output_planes_ok stream views m'" and goods: "\<forall>j \<in> set order. good j m'" and
    keep: "\<And>ws. (\<forall>j \<in> set order. \<forall>p a. in_window ws p a \<longrightarrow> \<not> in_window (ows j) p a) \<Longrightarrow> agree_in ws m1 m'" by blast
  have "agree_in (ows i) m1 m'"
  proof (rule keep, intro ballI allI impI)
    fix j p a assume "j \<in> set order" "in_window (ows i) p a"
    then show "\<not> in_window (ows j) p a" using apart [of i j p a] i by auto
  qed
  from good [OF i(1) m1(2) ok this] have "good i m'" .
  moreover have "execute_slice_at stream kernels output sls i (states, m) = Inr (?states, m1)"
    using run Cons.prems(4) [of i] by (simp add: execute_slice_at_def)
  moreover have "agree_in ws m m'" if "\<forall>j \<in> set (i # order). \<forall>p a. in_window ws p a \<longrightarrow> \<not> in_window (ows j) p a" for ws
    using that keep [of ws] m1(1) by (auto simp: agree_in_def keeps_outside_def)
  moreover have "states' ! j = (if j \<in> set (i # order) then final ! j else states ! j)" if "j < n" for j
    using fin that Cons.prems(3) i(2) by auto
  ultimately show ?case using rest len ok' goods by (intro exI [of _ states'] exI [of _ m']) auto
qed

lemma run_tasks_succeed:
  assumes "fold_result (execute_slice_at stream kernels output sls) order (states, m) = Inr (states', m')"
  shows "fold (run_task stream kernels output sls) order (statuses, states, m) =
    (\<lambda>i. if i \<in> set order then None else statuses i, states', m')"
  using assms
proof (induction order arbitrary: statuses states m)
  case (Cons i order)
  from Cons.prems obtain s1 m1 where one: "execute_slice_at stream kernels output sls i (states, m) = Inr (s1, m1)"
    and rest: "fold_result (execute_slice_at stream kernels output sls) order (s1, m1) = Inr (states', m')" by auto
  have "run_task stream kernels output sls i (statuses, states, m) = (statuses(i := None), s1, m1)"
    by (simp add: run_task_def one)
  moreover have "(\<lambda>j. if j \<in> set order then None else (statuses(i := None)) j) =
      (\<lambda>j. if j \<in> set (i # order) then None else statuses j)" by auto
  ultimately show ?case using Cons.IH [OF rest, of "statuses(i := None)"] by (simp only: fold.simps comp_apply)
qed simp

lemma decode_parallel_succeeds:
  assumes "fold_result (execute_slice_at stream kernels output sls) order (states, m) = Inr (states', m')"
  shows "decode_parallel stream kernels output sls order (states, m) = Inr (states', m')"
proof -
  have "List.find (\<lambda>i. (if i \<in> set order then None else None :: status option) \<noteq> None) [0..<length sls] = None"
    by (simp add: find_None_iff)
  with run_tasks_succeed [OF assms, of "\<lambda>i. None"] show ?thesis by (simp add: decode_parallel_def)
qed

subsection \<open>The states of the previous frame\<close>

lemma match_reference_self:
  assumes "\<And>i. i \<in> set order \<Longrightarrow> slice_layout (slices ! i) = sx_slice_layouts executor ! i"
    and "set order \<subseteq> {..<length w}" and "length w = length (sx_slice_states executor)"
  shows "\<exists>w'. fold_result (match_reference executor slices) (map (\<lambda>i. (i, i)) order) w = Inr w' \<and> length w' = length w \<and>
    (\<forall>i < length w. w' ! i = (if i \<in> set order then sx_slice_states executor ! i else w ! i))"
  using assms
proof (induction order arbitrary: w)
  case (Cons i order)
  let ?w = "w[i := sx_slice_states executor ! i]"
  have "slice_layout (slices ! i) = sx_slice_layouts executor ! i" using Cons.prems(1) by simp
  moreover from Cons.prems Cons.IH [of ?w] obtain w' where
    "fold_result (match_reference executor slices) (map (\<lambda>i. (i, i)) order) ?w = Inr w'" "length w' = length w"
    "\<forall>j < length w. w' ! j = (if j \<in> set order then sx_slice_states executor ! j else ?w ! j)" by auto
  moreover from this have "w' ! j = (if j \<in> set (i # order) then sx_slice_states executor ! j else w ! j)" if "j < length w" for j
    using that by auto
  ultimately show ?case by (auto simp: match_reference_def)
qed simp

lemma layout_order_set: "set (layout_order layouts) = {..<length layouts}"
  by (auto simp: layout_order_def)

lemma starting_states_same:
  assumes "sx_slice_layouts executor = map slice_layout slices" and "length (sx_slice_states executor) = length slices"
    and "slices \<noteq> []"
  shows "starting_states executor slices False = Inr (sx_slice_states executor)"
proof -
  let ?o = "layout_order (map slice_layout slices)"
  have "zip ?o ?o = map (\<lambda>i. (i, i)) ?o" by (simp add: zip_same_conv_map)
  moreover obtain w' where w': "fold_result (match_reference executor slices) (map (\<lambda>i. (i, i)) ?o)
      (replicate (length slices) new_slice_state) = Inr w'" "length w' = length slices"
      "\<forall>i < length slices. w' ! i = sx_slice_states executor ! i"
    using match_reference_self [of ?o slices executor "replicate (length slices) new_slice_state"] assms
    by (auto simp: layout_order_set)
  moreover from this have "w' = sx_slice_states executor" using assms(2) by (intro nth_equalityI) simp_all
  ultimately show ?thesis using assms by (auto simp: starting_states_def)
qed

subsection \<open>The slices of an encoded frame are decoded\<close>

text \<open>
  The hypothesis on the slices: the entropy coded bytes of each are at least as many as its flag and header took. A
  slice whose samples add no byte can end before them, and is then rejected by the decoder.
\<close>

definition slice_complete :: "stream_parameters \<Rightarrow> codec_kernels \<Rightarrow> frame_view \<Rightarrow> frame_memory \<Rightarrow> bool \<Rightarrow> slice_state \<Rightarrow> nat \<Rightarrow> bool" where
  "slice_complete stream kernels frame im keyframe state i \<longleftrightarrow>
     (case encode_grid_slice stream kernels frame im keyframe state i of
        Inl e \<Rightarrow> True
      | Inr (bytes, _) \<Rightarrow>
          slice_prefix_size stream (grid_header stream i) (i = 0) keyframe + footer_size stream \<le> length bytes)"

definition frame_complete ::
  "stream_parameters \<Rightarrow> codec_kernels \<Rightarrow> frame_view \<Rightarrow> frame_memory \<Rightarrow> bool \<Rightarrow> slice_encode_executor \<Rightarrow> bool" where
  "frame_complete stream kernels frame im keyframe executor \<longleftrightarrow>
     (case encoder_starting_states stream executor (cell_count stream) keyframe of
        Inl e \<Rightarrow> True
      | Inr states \<Rightarrow> list_all (\<lambda>i. slice_complete stream kernels frame im keyframe (states ! i) i) [0..<cell_count stream])"

text \<open>What decoding has to do for slice \<open>i\<close>, whatever the output planes.\<close>

definition slice_decodes ::
  "stream_parameters \<Rightarrow> codec_kernels \<Rightarrow> frame_view \<Rightarrow> frame_memory \<Rightarrow> nat \<Rightarrow> slice_descriptor \<Rightarrow> nat \<Rightarrow> slice_state \<Rightarrow> slice_state \<Rightarrow>
     slice_descriptor \<times> slice_descriptor \<times> plane_window list \<Rightarrow> bool" where
  "slice_decodes stream kernels frame im i located n base st' = (\<lambda>(sl, d, iws).
     describes stream (grid_header stream i) n located sl \<and>
     apply_raster stream (grid_header stream i) new_slice_descriptor = Inr d \<and> validate_input_window stream frame d = Inr iws \<and>
     (\<forall>oframe oviews ows m. validate_output_window stream oframe sl = Inr ows \<longrightarrow> frame_views oframe oviews \<longrightarrow>
       output_backed stream ows m \<longrightarrow>
       (\<exists>m'. execute_slice stream kernels oframe sl (base, m) = Inr (st', m') \<and> validate_slice stream sl ows = Inr () \<and>
          keeps_outside ows m m' \<and> output_backed stream ows m' \<and>
          copied stream iws im ows m' {(i, y). i < length ows \<and> y < unat (pw_height (ows ! i))})))"

lemma range_slice_footer:
  assumes "encode_slice stream kernels frame im header wk kf st = Inr (bytes, st')" and "sp_entropy_mode stream = RangeMode"
  shows "\<exists>payload. append_footer stream 0 payload = Inr bytes"
proof -
  from encode_slice_Inr [OF assms(1)] assms(2) obtain iws ws e where v: "sp_version stream = 3"
    "finish_range_slice stream kernels header iws im ws e = Inr (bytes, st')" by metis
  from finish_range_slice_Inr [OF v(2,1)] show ?thesis by metis
qed

lemma decode_slice_valid: "decode_slice stream kernels allow sl ows (state, m) = Inr r \<Longrightarrow> validate_slice stream sl ows = Inr ()"
  by (auto simp: decode_slice_def)

context lossless_kernels begin

lemma range_slice_task:
  assumes enc: "encode_grid_slice stream kernels frame im kf st i = Inr (bytes, st')"
    and mode: "sp_entropy_mode stream = RangeMode" and views: "frame_views frame views"
    and loc: "locates stream located bytes" and first: "unat (sd_index located) = i"
    and fits: "slice_prefix_size stream (grid_header stream i) (i = 0) kf + footer_size stream \<le> length bytes"
    and base: "reference_state stream kf st = Inr st \<or> kf \<and> st = new_slice_state"
  shows "\<exists>t. parse_located_slice stream located (i = 0) k0 = Inr (fst t, if i = 0 then kf else k0) \<and>
    slice_decodes stream kernels frame im i located (slice_prefix_size stream (grid_header stream i) (i = 0) kf) st st' t"
proof -
  have enc': "encode_slice stream kernels frame im (grid_header stream i) (i = 0) kf st = Inr (bytes, st')"
    using enc by (simp add: encode_grid_slice_def)
  have idx: "sd_index located = 0 \<longleftrightarrow> i = 0" using first by (metis unat_0 unat_eq_zero)
  from range_slice_decoded [OF enc' mode views loc idx fits, of k0] obtain sl d iws base where
    parsed: "parse_located_slice stream located (i = 0) k0 = Inr (sl, if i = 0 then kf else k0)" and
    sl: "describes stream (grid_header stream i) (slice_prefix_size stream (grid_header stream i) (i = 0) kf) located sl" and
    raster: "apply_raster stream (grid_header stream i) new_slice_descriptor = Inr d" and
    iws: "validate_input_window stream frame d = Inr iws" and ref: "reference_state stream kf st = Inr base" and
    dec: "\<And>oframe oviews ows m allow. validate_output_window stream oframe sl = Inr ows \<Longrightarrow> frame_views oframe oviews \<Longrightarrow>
      output_backed stream ows m \<Longrightarrow>
      \<exists>state m'. ss_reset_stream_window stream ows base = Inr state \<and>
         decode_slice stream kernels allow sl ows (state, m) = Inr (st', m') \<and> output_backed stream ows m' \<and>
         copied stream iws im ows m' {(i, y). i < length ows \<and> y < unat (pw_height (ows ! i))}" by blast
  have "base = st"
  proof (cases "reference_state stream kf st = Inr st")
    case True
    with ref show ?thesis by simp
  next
    case False
    then have "kf \<and> st = new_slice_state" using assms(7) by blast
    with ref show ?thesis by (simp add: reference_state_def clear_entropy_state_def new_slice_state_def)
  qed
  from encode_slice_Inr [OF enc'] have "validate_encoder_stream stream = Inr ()" by metis
  note ok = validate_encoder_stream_Inr [OF this]
  have "\<exists>m'. execute_slice stream kernels oframe sl (st, m) = Inr (st', m') \<and> validate_slice stream sl ows = Inr () \<and>
      keeps_outside ows m m' \<and> output_backed stream ows m' \<and>
      copied stream iws im ows m' {(i, y). i < length ows \<and> y < unat (pw_height (ows ! i))}"
    if win: "validate_output_window stream oframe sl = Inr ows" and oviews: "frame_views oframe oviews"
      and out: "output_backed stream ows m" for oframe oviews ows m
  proof -
    from dec [OF win oviews out, of False] obtain state m' where
      m': "ss_reset_stream_window stream ows st = Inr state" "decode_slice stream kernels False sl ows (state, m) = Inr (st', m')"
        "output_backed stream ows m'" "copied stream iws im ows m' {(i, y). i < length ows \<and> y < unat (pw_height (ows ! i))}"
      unfolding \<open>base = st\<close> by blast
    have "execute_slice stream kernels oframe sl (st, m) = Inr (st', m')"
      using win m'(1,2) mode by (simp add: execute_slice_def can_try_golomb_rice_read_ahead_boundary_def)
    moreover have "sp_colorspace_type stream = 1 \<longrightarrow> rgb_windows stream ows"
      using input_rgb_windows [OF raster iws views] ok(4) rgb_windows_shape [OF described_shape(1) [OF sl raster iws views win oviews]]
      by blast
    then have "keeps_outside ows m m'" by (rule decode_slice_keeps [OF m'(2)])
    ultimately show ?thesis using m'(3,4) decode_slice_valid [OF m'(2)] by blast
  qed
  then have "slice_decodes stream kernels frame im i located (slice_prefix_size stream (grid_header stream i) (i = 0) kf) st st' (sl, d, iws)"
    unfolding slice_decodes_def prod.case using sl raster iws by blast
  with parsed show ?thesis by (intro exI [of _ "(sl, d, iws)"]) simp
qed

end

subsection \<open>All slices\<close>

text \<open>Every sample of every plane of the frame, in the subsampled planes too.\<close>

definition same_picture ::
  "stream_parameters \<Rightarrow> plane_view list \<Rightarrow> frame_memory \<Rightarrow> plane_view list \<Rightarrow> frame_memory \<Rightarrow> bool" where
  "same_picture stream oviews m iviews im \<longleftrightarrow>
     (\<forall>p < coded_plane_count stream. \<forall>y < unat (plane_height stream p). \<forall>x < unat (plane_width stream p).
        plane_sample stream (oviews ! p) (m ! p) x y = plane_sample stream (iviews ! p) (im ! p) x y)"

lemma execute_all:
  assumes len: "length sls = cell_count stream" "length init = cell_count stream" "length final = cell_count stream"
    and dec: "\<And>i. i < cell_count stream \<Longrightarrow> slice_decodes stream kernels frame im i (located i) (k i) (init ! i) (final ! i) (sls ! i, d i, iws i)"
    and grid: "grid_allowed stream" and iviews: "frame_views frame iviews" and oviews: "frame_views output oviews"
    and planes: "output_planes_ok stream oviews m" and start: "starting_states sx sls kf = Inr init"
    and order: "sort order = [0..<cell_count stream]"
  shows "\<exists>m'. execute_decode stream kernels threads order output sls kf (sx, m) =
      Inr (\<lparr>sx_slice_states = final, sx_slice_layouts = map slice_layout sls\<rparr>, m') \<and>
    same_picture stream oviews m' iviews im \<and> output_planes_ok stream oviews m'"
proof -
  let ?n = "cell_count stream"
  define ows where "ows = (\<lambda>i. projr (validate_output_window stream output (sls ! i)))"
  have fits: "grid_fits stream" using grid by (simp add: grid_allowed_def)
  have sl: "describes stream (grid_header stream i) (k i) (located i) (sls ! i)"
    and raster: "apply_raster stream (grid_header stream i) new_slice_descriptor = Inr (d i)"
    and iws: "validate_input_window stream frame (d i) = Inr (iws i)" if "i < ?n" for i
    using dec [OF that] by (simp_all add: slice_decodes_def)
  have win: "validate_output_window stream output (sls ! i) = Inr (ows i) \<and> output_backed stream (ows i) m"
    if "i < ?n" "output_planes_ok stream oviews m" for i m
    using output_window_exists [OF sl [OF that(1)] raster [OF that(1)] fits that(2) oviews] by (auto simp: ows_def)
  note window = win [OF _ planes, THEN conjunct1]
  let ?rows = "\<lambda>ws. {(p, y). p < length ws \<and> y < unat (pw_height (ws ! p))}"
  let ?good = "\<lambda>i m. copied stream (iws i) im (ows i) m (?rows (ows i))"
  have task: "\<exists>m'. execute_slice stream kernels output (sls ! i) (init ! i, m) = Inr (final ! i, m') \<and>
      keeps_outside (ows i) m m' \<and> ?good i m' \<and> validate_slice stream (sls ! i) (ows i) = Inr ()"
    if "i < ?n" "output_planes_ok stream oviews m" for i m
    using dec [OF that(1)] win [OF that] oviews unfolding slice_decodes_def prod.case by blast
  have task3: "\<exists>m'. execute_slice stream kernels output (sls ! i) (init ! i, m) = Inr (final ! i, m') \<and>
      keeps_outside (ows i) m m' \<and> ?good i m'" if "i < ?n" "output_planes_ok stream oviews m" for i m
    using task [OF that] by blast
  have good: "?good i m'" if "i < ?n" "?good i m" "output_planes_ok stream oviews m" "agree_in (ows i) m m'" for i m m'
    using copied_agree [OF that(2,4)] win [OF that(1,3)] by blast
  have apart: "\<not> in_window (ows j) p a" if "i < ?n" "j < ?n" "i \<noteq> j" "in_window (ows i) p a" for i j p a
    using cell_windows_apart [OF sl [OF that(1)] raster [OF that(1)] sl [OF that(2)] raster [OF that(2)] that(1-3) fits
        window [OF that(1)] window [OF that(2)] oviews that(4)] .
  have run: "\<exists>m'. fold_result (execute_slice_at stream kernels output sls) o' (init, m) = Inr (final, m') \<and>
      (\<forall>i < ?n. ?good i m') \<and> output_planes_ok stream oviews m'" if o': "sort o' = [0..<?n]" for o'
  proof -
    have "distinct (sort o')" "set (sort o') = {..<?n}" unfolding o' by (simp_all add: atLeast0LessThan)
    then have o: "distinct o'" "set o' = {..<?n}" by simp_all
    have sub: "set o' \<subseteq> {..<?n}" using o(2) by simp
    have "\<exists>states' m'. fold_result (execute_slice_at stream kernels output sls) o' (init, m) = Inr (states', m') \<and>
        length states' = ?n \<and> (\<forall>i < ?n. states' ! i = (if i \<in> set o' then final ! i else init ! i)) \<and>
        output_planes_ok stream oviews m' \<and> (\<forall>i \<in> set o'. ?good i m') \<and>
        (\<forall>ws. (\<forall>i \<in> set o'. \<forall>p a. in_window ws p a \<longrightarrow> \<not> in_window (ows i) p a) \<longrightarrow> agree_in ws m m')"
      by (rule tasks_in_any_order) (fact task3 good apart o(1) sub len(2) planes | rule refl)+
    then obtain states' m' where r: "fold_result (execute_slice_at stream kernels output sls) o' (init, m) = Inr (states', m')"
        "length states' = ?n" "\<forall>i < ?n. states' ! i = (if i \<in> set o' then final ! i else init ! i)"
        "output_planes_ok stream oviews m'" "\<forall>i \<in> set o'. ?good i m'" by blast
    then have "states' = final" using len(3) o(2) by (intro nth_equalityI) simp_all
    with r o(2) show ?thesis by auto
  qed
  have cells: "in_cell stream i (sls ! i)" if "i < ?n" for i
    using described_fields [OF sl [OF that]] by (simp add: in_cell_def grid_header_def)
  note covered = grid_covered [OF len(1) cells grid]
  have each: "validate_executed_slice stream output sl () = Inr ()" if "sl \<in> set sls" for sl
  proof -
    from that len(1) obtain i where i: "i < ?n" "sl = sls ! i" by (auto simp: in_set_conv_nth)
    have "validate_slice stream (sls ! i) (ows i) = Inr ()" using task [OF i(1) planes] by blast
    with window [OF i(1)] i(2) show ?thesis by (simp add: validate_executed_slice_def validate_candidate_def)
  qed
  have valid: "validate_slices stream threads output sls = Inr ()"
    using each covered by (simp add: validate_slices_def validate_parallel_slice_layout_def fold_result_unit)
  let ?parallel = "1 < threads \<and> 2 \<le> length sls \<and> can_decode_parallel_safely stream sls"
  let ?run = "if \<not> ?parallel then decode_serial stream kernels output sls (init, m)
      else decode_parallel stream kernels output sls order (init, m)"
  obtain m' where m': "?run = Inr (final, m')" "\<forall>i < ?n. ?good i m'" "output_planes_ok stream oviews m'"
  proof (cases ?parallel)
    case True
    then have par: "\<not> \<not> ?parallel" by blast
    from run [OF order] obtain m' where r: "fold_result (execute_slice_at stream kernels output sls) order (init, m) = Inr (final, m')"
      "\<forall>i < ?n. ?good i m'" "output_planes_ok stream oviews m'" by blast
    show thesis by (rule that [OF _ r(2,3)]) (simp only: if_not_P [OF par] decode_parallel_succeeds [OF r(1)])
  next
    case False
    have "sort [0..<?n] = [0..<?n]" by (simp add: sorted_sort_id)
    from run [OF this] obtain m' where
      r: "fold_result (execute_slice_at stream kernels output sls) [0..<?n] (init, m) = Inr (final, m')"
      "\<forall>i < ?n. ?good i m'" "output_planes_ok stream oviews m'" by blast
    show thesis by (rule that [OF _ r(2,3)]) (use False in \<open>simp add: decode_serial_def len(1) r(1)\<close>)
  qed
  have picture: "same_picture stream oviews m' iviews im"
    unfolding same_picture_def
  proof (intro allI impI)
    fix p x y assume p: "p < coded_plane_count stream" and x: "x < unat (plane_width stream p)" and y: "y < unat (plane_height stream p)"
    from sample_cell [OF x y fits raster] obtain i c r where i: "i < ?n"
      and c: "c < unat (output_slice_plane_width stream (d i) p)" "r < unat (output_slice_plane_height stream (d i) p)"
        "x = unat (output_plane_x stream (d i) p) + c" "y = unat (output_plane_y stream (d i) p) + r" by blast
    note out = described_output [OF sl [OF i] raster [OF i]]
    note w = win [OF i m'(3)]
    have "p < length (ows i)"
      using p plane_windows_nth w oviews by (auto simp: validate_output_window_def frame_views_def Let_def not_less split: if_splits)
    from copied_plane_samples [OF m'(2) [rule_format, OF i] sl [OF i] raster [OF i] iws [OF i] iviews conjunct1 [OF w] oviews
        conjunct2 [OF w] this, of c r] c
    show "plane_sample stream (oviews ! p) (m' ! p) x y = plane_sample stream (iviews ! p) (im ! p) x y"
      by (simp only: out)
  qed
  have "execute_decode stream kernels threads order output sls kf (sx, m) =
      Inr (\<lparr>sx_slice_states = final, sx_slice_layouts = map slice_layout sls\<rparr>, m')"
    unfolding execute_decode_def prod.case valid start bind_result_Inr Let_def m'(1) by simp
  with picture m'(3) show ?thesis by blast
qed

end
