(* ===== verification/Initial_States.thy ===== *)
theory Initial_States
  imports Frame_Roundtrip
begin

text \<open>
  The decoder parses a list with an empty set of initial states where the encoder has an empty list. No part of the
  encoder tells them apart.
\<close>

named_theorems initial_states

lemma coded_plane_count_initial [initial_states]: "coded_plane_count (stream\<lparr>sp_initial_states := ss\<rparr>) = coded_plane_count stream"
  by ((intro ext)?) (simp add: coded_plane_count_def initial_states Let_def cong: if_cong option.case_cong)

lemma is_chroma_plane_initial [initial_states]: "is_chroma_plane (stream\<lparr>sp_initial_states := ss\<rparr>) = is_chroma_plane stream"
  by ((intro ext)?) (simp add: is_chroma_plane_def initial_states Let_def cong: if_cong option.case_cong)

lemma uses_signed_16bit_predictor_initial [initial_states]: "uses_signed_16bit_predictor (stream\<lparr>sp_initial_states := ss\<rparr>) = uses_signed_16bit_predictor stream"
  by ((intro ext)?) (simp add: uses_signed_16bit_predictor_def initial_states Let_def cong: if_cong option.case_cong)

lemma quant_table_set_index_count_initial [initial_states]: "quant_table_set_index_count (stream\<lparr>sp_initial_states := ss\<rparr>) = quant_table_set_index_count stream"
  by ((intro ext)?) (simp add: quant_table_set_index_count_def initial_states Let_def cong: if_cong option.case_cong)

lemma plane_quant_table_set_index_slot_initial [initial_states]: "plane_quant_table_set_index_slot (stream\<lparr>sp_initial_states := ss\<rparr>) = plane_quant_table_set_index_slot stream"
  by ((intro ext)?) (simp add: plane_quant_table_set_index_slot_def initial_states Let_def cong: if_cong option.case_cong)

lemma plane_width_initial [initial_states]: "plane_width (stream\<lparr>sp_initial_states := ss\<rparr>) = plane_width stream"
  by ((intro ext)?) (simp add: plane_width_def initial_states Let_def cong: if_cong option.case_cong)

lemma plane_height_initial [initial_states]: "plane_height (stream\<lparr>sp_initial_states := ss\<rparr>) = plane_height stream"
  by ((intro ext)?) (simp add: plane_height_def initial_states Let_def cong: if_cong option.case_cong)

lemma expected_plane_role_initial [initial_states]: "expected_plane_role (stream\<lparr>sp_initial_states := ss\<rparr>) = expected_plane_role stream"
  by ((intro ext)?) (simp add: expected_plane_role_def initial_states Let_def cong: if_cong option.case_cong)

lemma slice_pixel_x_initial [initial_states]: "slice_pixel_x (stream\<lparr>sp_initial_states := ss\<rparr>) = slice_pixel_x stream"
  by ((intro ext)?) (simp add: slice_pixel_x_def initial_states Let_def cong: if_cong option.case_cong)

lemma slice_pixel_y_initial [initial_states]: "slice_pixel_y (stream\<lparr>sp_initial_states := ss\<rparr>) = slice_pixel_y stream"
  by ((intro ext)?) (simp add: slice_pixel_y_def initial_states Let_def cong: if_cong option.case_cong)

lemma slice_pixel_width_initial [initial_states]: "slice_pixel_width (stream\<lparr>sp_initial_states := ss\<rparr>) = slice_pixel_width stream"
  by ((intro ext)?) (simp add: slice_pixel_width_def initial_states Let_def cong: if_cong option.case_cong)

lemma slice_pixel_height_initial [initial_states]: "slice_pixel_height (stream\<lparr>sp_initial_states := ss\<rparr>) = slice_pixel_height stream"
  by ((intro ext)?) (simp add: slice_pixel_height_def initial_states Let_def cong: if_cong option.case_cong)

lemma check_header_values_initial [initial_states]: "check_header_values (stream\<lparr>sp_initial_states := ss\<rparr>) = check_header_values stream"
  by ((intro ext)?) (simp add: check_header_values_def initial_states Let_def cong: if_cong option.case_cong)

lemma apply_raster_initial [initial_states]: "apply_raster (stream\<lparr>sp_initial_states := ss\<rparr>) = apply_raster stream"
  by ((intro ext)?) (simp add: apply_raster_def initial_states Let_def cong: if_cong option.case_cong)

lemma input_plane_x_initial [initial_states]: "input_plane_x (stream\<lparr>sp_initial_states := ss\<rparr>) = input_plane_x stream"
  by ((intro ext)?) (simp add: input_plane_x_def initial_states Let_def cong: if_cong option.case_cong)

lemma input_plane_y_initial [initial_states]: "input_plane_y (stream\<lparr>sp_initial_states := ss\<rparr>) = input_plane_y stream"
  by ((intro ext)?) (simp add: input_plane_y_def initial_states Let_def cong: if_cong option.case_cong)

lemma input_slice_plane_width_initial [initial_states]: "input_slice_plane_width (stream\<lparr>sp_initial_states := ss\<rparr>) = input_slice_plane_width stream"
  by ((intro ext)?) (simp add: input_slice_plane_width_def initial_states Let_def cong: if_cong option.case_cong)

lemma input_slice_plane_height_initial [initial_states]: "input_slice_plane_height (stream\<lparr>sp_initial_states := ss\<rparr>) = input_slice_plane_height stream"
  by ((intro ext)?) (simp add: input_slice_plane_height_def initial_states Let_def cong: if_cong option.case_cong)

lemma input_plane_window_initial [initial_states]: "input_plane_window (stream\<lparr>sp_initial_states := ss\<rparr>) = input_plane_window stream"
  by ((intro ext)?) (simp add: input_plane_window_def initial_states Let_def cong: if_cong option.case_cong)

lemma validate_input_window_initial [initial_states]: "validate_input_window (stream\<lparr>sp_initial_states := ss\<rparr>) = validate_input_window stream"
  by ((intro ext)?) (simp add: validate_input_window_def initial_states Let_def cong: if_cong option.case_cong)

lemma expected_plane_info_initial [initial_states]: "expected_plane_info (stream\<lparr>sp_initial_states := ss\<rparr>) = expected_plane_info stream"
  by ((intro ext)?) (simp add: expected_plane_info_def initial_states Let_def cong: if_cong option.case_cong)

lemma make_frame_info_initial [initial_states]: "make_frame_info (stream\<lparr>sp_initial_states := ss\<rparr>) = make_frame_info stream"
  by ((intro ext)?) (simp add: make_frame_info_def initial_states Let_def cong: if_cong option.case_cong)

lemma validate_stream_shape_initial [initial_states]: "validate_stream_shape (stream\<lparr>sp_initial_states := ss\<rparr>) = validate_stream_shape stream"
  by ((intro ext)?) (simp add: validate_stream_shape_def initial_states Let_def cong: if_cong option.case_cong)

lemma validate_input_initial [initial_states]: "validate_input (stream\<lparr>sp_initial_states := ss\<rparr>) = validate_input stream"
  by ((intro ext)?) (simp add: validate_input_def initial_states Let_def cong: if_cong option.case_cong)

lemma plane_border_value_initial [initial_states]: "plane_border_value (stream\<lparr>sp_initial_states := ss\<rparr>) = plane_border_value stream"
  by ((intro ext)?) (simp add: plane_border_value_def initial_states Let_def cong: if_cong option.case_cong)

lemma ss_reset_stream_window_initial [initial_states]: "ss_reset_stream_window (stream\<lparr>sp_initial_states := ss\<rparr>) = ss_reset_stream_window stream"
  by ((intro ext)?) (simp add: ss_reset_stream_window_def initial_states Let_def cong: if_cong option.case_cong)

lemma maximum_sample_initial [initial_states]: "maximum_sample (stream\<lparr>sp_initial_states := ss\<rparr>) = maximum_sample stream"
  by ((intro ext)?) (simp add: maximum_sample_def initial_states Let_def cong: if_cong option.case_cong)

lemma load_sample_initial [initial_states]: "load_sample (stream\<lparr>sp_initial_states := ss\<rparr>) = load_sample stream"
  by ((intro ext)?) (simp add: load_sample_def initial_states Let_def cong: if_cong option.case_cong)

lemma read_sample_initial [initial_states]: "read_sample (stream\<lparr>sp_initial_states := ss\<rparr>) = read_sample stream"
  by ((intro ext)?) (simp add: read_sample_def initial_states Let_def cong: if_cong option.case_cong)

lemma encode_planar_sample_initial [initial_states]: "encode_planar_sample (stream\<lparr>sp_initial_states := ss\<rparr>) = encode_planar_sample stream"
  by ((intro ext)?) (simp add: encode_planar_sample_def initial_states Let_def cong: if_cong option.case_cong)

lemma encode_planar_row_initial [initial_states]: "encode_planar_row (stream\<lparr>sp_initial_states := ss\<rparr>) = encode_planar_row stream"
  by ((intro ext)?) (simp add: encode_planar_row_def initial_states Let_def cong: if_cong option.case_cong)

lemma range_context_bank_index_initial [initial_states]: "range_context_bank_index (stream\<lparr>sp_initial_states := ss\<rparr>) = range_context_bank_index stream"
  by ((intro ext)?) (simp add: range_context_bank_index_def initial_states Let_def cong: if_cong option.case_cong)

lemma encode_plane_initial [initial_states]: "encode_plane (stream\<lparr>sp_initial_states := ss\<rparr>) = encode_plane stream"
  by ((intro ext)?) (simp add: encode_plane_def initial_states Let_def cong: if_cong option.case_cong)

lemma read_rgb_pixels_initial [initial_states]:
  "read_rgb_pixels (stream\<lparr>sp_initial_states := ss\<rparr>) = read_rgb_pixels stream"
proof (intro ext)
  fix input memory y xs show "read_rgb_pixels (stream\<lparr>sp_initial_states := ss\<rparr>) input memory y xs = read_rgb_pixels stream input memory y xs"
    by (induction xs) (simp_all add: initial_states)
qed

lemma encode_rgb_sample_initial [initial_states]: "encode_rgb_sample (stream\<lparr>sp_initial_states := ss\<rparr>) = encode_rgb_sample stream"
  by ((intro ext)?) (simp add: encode_rgb_sample_def initial_states Let_def cong: if_cong option.case_cong)

lemma encode_rgb_plane_initial [initial_states]: "encode_rgb_plane (stream\<lparr>sp_initial_states := ss\<rparr>) = encode_rgb_plane stream"
  by ((intro ext)?) (simp add: encode_rgb_plane_def initial_states Let_def cong: if_cong option.case_cong)

lemma encode_rgb_row_initial [initial_states]: "encode_rgb_row (stream\<lparr>sp_initial_states := ss\<rparr>) = encode_rgb_row stream"
  by ((intro ext)?) (simp add: encode_rgb_row_def initial_states Let_def cong: if_cong option.case_cong)

lemma encode_samples_initial [initial_states]: "encode_samples (stream\<lparr>sp_initial_states := ss\<rparr>) = encode_samples stream"
  by ((intro ext)?) (simp add: encode_samples_def initial_states Let_def cong: if_cong option.case_cong)

lemma golomb_rice_bank_index_initial [initial_states]: "golomb_rice_bank_index (stream\<lparr>sp_initial_states := ss\<rparr>) = golomb_rice_bank_index stream"
  by ((intro ext)?) (simp add: golomb_rice_bank_index_def initial_states Let_def cong: if_cong option.case_cong)

lemma read_rgba_pixels_initial [initial_states]:
  "read_rgba_pixels (stream\<lparr>sp_initial_states := ss\<rparr>) = read_rgba_pixels stream"
proof (intro ext)
  fix input memory y xs show "read_rgba_pixels (stream\<lparr>sp_initial_states := ss\<rparr>) input memory y xs = read_rgba_pixels stream input memory y xs"
    by (induction xs) (simp_all add: initial_states)
qed

lemma encode_golomb_rgb_plane_initial [initial_states]: "encode_golomb_rgb_plane (stream\<lparr>sp_initial_states := ss\<rparr>) = encode_golomb_rgb_plane stream"
  by ((intro ext)?) (simp add: encode_golomb_rgb_plane_def initial_states Let_def cong: if_cong option.case_cong)

lemma encode_golomb_rgb_row_initial [initial_states]: "encode_golomb_rgb_row (stream\<lparr>sp_initial_states := ss\<rparr>) = encode_golomb_rgb_row stream"
  by ((intro ext)?) (simp add: encode_golomb_rgb_row_def initial_states Let_def cong: if_cong option.case_cong)

lemma read_row_samples_initial [initial_states]:
  "read_row_samples (stream\<lparr>sp_initial_states := ss\<rparr>) = read_row_samples stream"
proof (intro ext)
  fix input memory plane_index y xs show "read_row_samples (stream\<lparr>sp_initial_states := ss\<rparr>) input memory plane_index y xs = read_row_samples stream input memory plane_index y xs"
    by (induction xs) (simp_all add: initial_states)
qed

lemma encode_golomb_planar_row_initial [initial_states]: "encode_golomb_planar_row (stream\<lparr>sp_initial_states := ss\<rparr>) = encode_golomb_planar_row stream"
  by ((intro ext)?) (simp add: encode_golomb_planar_row_def initial_states Let_def cong: if_cong option.case_cong)

lemma encode_golomb_plane_initial [initial_states]: "encode_golomb_plane (stream\<lparr>sp_initial_states := ss\<rparr>) = encode_golomb_plane stream"
  by ((intro ext)?) (simp add: encode_golomb_plane_def initial_states Let_def cong: if_cong option.case_cong)

lemma encode_golomb_rice_samples_initial [initial_states]: "encode_golomb_rice_samples (stream\<lparr>sp_initial_states := ss\<rparr>) = encode_golomb_rice_samples stream"
  by ((intro ext)?) (simp add: encode_golomb_rice_samples_def initial_states Let_def cong: if_cong option.case_cong)

lemma golomb_rice_content_initial [initial_states]: "golomb_rice_content (stream\<lparr>sp_initial_states := ss\<rparr>) = golomb_rice_content stream"
  by ((intro ext)?) (simp add: golomb_rice_content_def initial_states Let_def cong: if_cong option.case_cong)

lemma write_slice_header_initial [initial_states]: "write_slice_header W (stream\<lparr>sp_initial_states := ss\<rparr>) = write_slice_header W stream"
  by (intro ext) (simp add: write_slice_header_def initial_states Let_def cong: if_cong option.case_cong)

lemma encode_slice_prefix_initial [initial_states]: "encode_slice_prefix (stream\<lparr>sp_initial_states := ss\<rparr>) = encode_slice_prefix stream"
  by ((intro ext)?) (simp add: encode_slice_prefix_def initial_states Let_def cong: if_cong option.case_cong)

lemma footer_size_initial [initial_states]: "footer_size (stream\<lparr>sp_initial_states := ss\<rparr>) = footer_size stream"
  by ((intro ext)?) (simp add: footer_size_def initial_states Let_def cong: if_cong option.case_cong)

lemma append_footer_initial [initial_states]: "append_footer (stream\<lparr>sp_initial_states := ss\<rparr>) = append_footer stream"
  by ((intro ext)?) (simp add: append_footer_def initial_states Let_def cong: if_cong option.case_cong)

lemma slot_table_set_index_initial [initial_states]: "slot_table_set_index (stream\<lparr>sp_initial_states := ss\<rparr>) = slot_table_set_index stream"
  by ((intro ext)?) (simp add: slot_table_set_index_def initial_states Let_def cong: if_cong option.case_cong)

lemma slot_context_counts_initial [initial_states]: "slot_context_counts (stream\<lparr>sp_initial_states := ss\<rparr>) = slot_context_counts stream"
  by ((intro ext)?) (simp add: slot_context_counts_def initial_states Let_def cong: if_cong option.case_cong)

lemma finish_golomb_rice_slice_initial [initial_states]: "finish_golomb_rice_slice (stream\<lparr>sp_initial_states := ss\<rparr>) = finish_golomb_rice_slice stream"
  by ((intro ext)?) (simp add: finish_golomb_rice_slice_def initial_states Let_def cong: if_cong option.case_cong)

lemma reference_state_initial [initial_states]: "reference_state (stream\<lparr>sp_initial_states := ss\<rparr>) = reference_state stream"
  by ((intro ext)?) (simp add: reference_state_def initial_states Let_def cong: if_cong option.case_cong)

lemma cell_count_initial [initial_states]: "cell_count (stream\<lparr>sp_initial_states := ss\<rparr>) = cell_count stream"
  by ((intro ext)?) (simp add: cell_count_def initial_states Let_def cong: if_cong option.case_cong)

lemma grid_cell_x_initial [initial_states]: "grid_cell_x (stream\<lparr>sp_initial_states := ss\<rparr>) = grid_cell_x stream"
  by ((intro ext)?) (simp add: grid_cell_x_def initial_states Let_def cong: if_cong option.case_cong)

lemma grid_cell_y_initial [initial_states]: "grid_cell_y (stream\<lparr>sp_initial_states := ss\<rparr>) = grid_cell_y stream"
  by ((intro ext)?) (simp add: grid_cell_y_def initial_states Let_def cong: if_cong option.case_cong)

lemma encode_slice_layout_initial [initial_states]: "encode_slice_layout (stream\<lparr>sp_initial_states := ss\<rparr>) = encode_slice_layout stream"
  by ((intro ext)?) (simp add: encode_slice_layout_def initial_states Let_def cong: if_cong option.case_cong)

lemma grid_header_initial [initial_states]: "grid_header (stream\<lparr>sp_initial_states := ss\<rparr>) = grid_header stream"
  by ((intro ext)?) (simp add: grid_header_def initial_states Let_def cong: if_cong option.case_cong)

lemma checked_slice_count_initial [initial_states]: "checked_slice_count (stream\<lparr>sp_initial_states := ss\<rparr>) = checked_slice_count stream"
  by ((intro ext)?) (simp add: checked_slice_count_def initial_states Let_def cong: if_cong option.case_cong)

end
