(* ===== verification/Frame_Decoded.thy ===== *)
theory Frame_Decoded
  imports Initial_States
begin

text \<open>Frames: from the encode executor through the frame parser to the decode executor.\<close>

lemma encoder_states_start:
  assumes "encoder_starting_states stream ee n keyframe = Inr states"
  shows "length states = n"
    and "keyframe \<Longrightarrow> states = replicate n new_slice_state"
    and "\<not> keyframe \<Longrightarrow> states = ee_slice_states ee \<and> ee_slice_layouts ee = map (encode_slice_layout stream) [0..<n]"
  using assms by (auto simp: encoder_starting_states_def split: if_splits)

lemma encode_grid_slice_reference:
  assumes "encode_grid_slice stream kernels frame im keyframe st i = Inr r"
  shows "reference_state stream keyframe st = Inr st \<or> keyframe"
proof -
  obtain bytes st' where r: "r = (bytes, st')" by (cases r)
  from encode_slice_Inr [OF assms [unfolded encode_grid_slice_def r]] obtain base where
    "reference_state stream keyframe st = Inr base" by metis
  then show ?thesis by (auto simp: reference_state_def split: if_splits)
qed

lemma grid_cell_layout: "in_cell stream i sl \<Longrightarrow> slice_layout sl = encode_slice_layout stream i"
  by (simp add: in_cell_def slice_layout_def encode_slice_layout_def)

lemma described_cell: "describes stream (grid_header stream i) n located sl \<Longrightarrow> in_cell stream i sl"
  using described_fields [of stream "grid_header stream i" n located sl] by (simp add: in_cell_def grid_header_def)

text \<open>The header's flag of the first slice tells the decoder what the frame is.\<close>

context lossless_kernels begin

lemma frame_parsed:
  assumes enc: "execute_encode stream kernels threads frame im keyframe ee = Inr (bytes, ee')"
    and mode: "sp_entropy_mode stream = RangeMode" and views: "frame_views frame iviews" and grid: "grid_allowed stream"
    and complete: "frame_complete stream kernels frame im keyframe ee"
  shows "\<exists>fc states k d iws located. parse_with_range_header stream verify_crc bytes = Inr fc \<and> fc_keyframe fc = keyframe \<and>
    length (fc_slices fc) = cell_count stream \<and>
    encoder_starting_states stream ee (cell_count stream) keyframe = Inr states \<and>
    length (ee_slice_states ee') = cell_count stream \<and>
    ee_slice_layouts ee' = map (encode_slice_layout stream) [0..<cell_count stream] \<and>
    (\<forall>i < cell_count stream. slice_decodes stream kernels frame im i (located i) (k i) (states ! i) (ee_slice_states ee' ! i)
       (fc_slices fc ! i, d i, iws i))"
proof -
  let ?n = "cell_count stream"
  from execute_encode_Inr [OF enc] obtain states slices where
    input: "validate_input stream frame = Inr ()" and nz: "?n \<noteq> 0" and
    states: "encoder_starting_states stream ee ?n keyframe = Inr states" and len: "length slices = ?n" and
    each: "\<And>i. i < ?n \<Longrightarrow> encode_grid_slice stream kernels frame im keyframe (states ! i) i = Inr (slices ! i)" and
    bytes: "bytes = concat (map fst slices)" and size: "length bytes \<le> byte_vector_max_size" and
    ee': "ee' = \<lparr>ee_slice_states = map snd slices, ee_slice_layouts = map (encode_slice_layout stream) [0..<?n]\<rparr>" by metis
  note st = encoder_states_start [OF states]
  let ?bs = "map fst slices"
  have pair: "encode_grid_slice stream kernels frame im keyframe (states ! i) i = Inr (?bs ! i, ee_slice_states ee' ! i)" if "i < ?n" for i
    using each [OF that] that len by (simp add: ee')
  have foot: "\<exists>payload. append_footer stream 0 payload = Inr (?bs ! i)" if "i < ?n" for i
    using range_slice_footer [OF pair [OF that, unfolded encode_grid_slice_def] mode] .
  then have "\<forall>i. \<exists>payload. i < ?n \<longrightarrow> append_footer stream 0 payload = Inr (?bs ! i)" by blast
  then obtain ps where ps: "\<And>i. i < ?n \<Longrightarrow> append_footer stream 0 (ps i) = Inr (?bs ! i)" by metis
  have small: "length (concat ?bs) < 2 ^ 64" using size by (simp add: bytes byte_vector_max_size_def)
  have n32: "?n < 2 ^ 32" using grid by (simp add: grid_allowed_def)
  have lb: "length ?bs = ?n" using len by simp
  from slices_located [of ?bs stream ps verify_crc, unfolded lb, OF ps small _ n32] nz obtain ds where
    ds: "locate_slices bytes stream ?n verify_crc = Inr ds" "length ds = ?n" and
    loc: "\<And>i. i < ?n \<Longrightarrow> locates stream (ds ! i) (?bs ! i) \<and> unat (sd_index (ds ! i)) = i"
    unfolding bytes by auto
  have fits: "slice_prefix_size stream (grid_header stream i) (i = 0) keyframe + footer_size stream \<le> length (?bs ! i)" if "i < ?n" for i
  proof -
    have "slice_complete stream kernels frame im keyframe (states ! i) i"
      using complete states that by (simp add: frame_complete_def list_all_iff)
    then show ?thesis unfolding slice_complete_def pair [OF that] by simp
  qed
  have ref: "reference_state stream keyframe (states ! i) = Inr (states ! i) \<or> keyframe \<and> states ! i = new_slice_state" if "i < ?n" for i
    using encode_grid_slice_reference [OF pair [OF that]] st(2) that by (cases keyframe) auto
  let ?k = "\<lambda>i. slice_prefix_size stream (grid_header stream i) (i = 0) keyframe"
  have "\<exists>t. parse_located_slice stream (ds ! i) (i = 0) (i \<noteq> 0 \<and> keyframe) = Inr (fst t, keyframe) \<and>
      slice_decodes stream kernels frame im i (ds ! i) (?k i) (states ! i) (ee_slice_states ee' ! i) t" if i: "i < ?n" for i
    using range_slice_task [OF pair [OF i] mode views loc [OF i, THEN conjunct1] loc [OF i, THEN conjunct2] fits [OF i] ref [OF i],
        of "i \<noteq> 0 \<and> keyframe"] by (cases "i = 0") auto
  then obtain t where t: "\<And>i. i < ?n \<Longrightarrow> parse_located_slice stream (ds ! i) (i = 0) (i \<noteq> 0 \<and> keyframe) = Inr (fst (t i), keyframe)"
    "\<And>i. i < ?n \<Longrightarrow> slice_decodes stream kernels frame im i (ds ! i) (?k i) (states ! i) (ee_slice_states ee' ! i) (t i)" by metis
  let ?sls = "map (\<lambda>i. fst (t i)) [0..<?n]"
  have parsed: "parse_located_loop stream True ds False = Inr (?sls, keyframe)"
  proof (rule parse_all)
    show "length ?sls = length ds" "ds \<noteq> []" using ds(2) nz by auto
    show "parse_located_slice stream (ds ! 0) True False = Inr (?sls ! 0, keyframe)" using t(1) [of 0] nz by simp
    show "parse_located_slice stream (ds ! i) False keyframe = Inr (?sls ! i, keyframe)" if "i < length ds" "i \<noteq> 0" for i
      using t(1) [of i] that ds(2) by simp
  qed
  have triple: "slice_decodes stream kernels frame im i (ds ! i) (?k i) (states ! i) (ee_slice_states ee' ! i)
      (?sls ! i, fst (snd (t i)), snd (snd (t i)))" if "i < ?n" for i
    using t(2) [OF that] that by simp
  have "in_cell stream i (?sls ! i)" if "i < ?n" for i
    using triple [OF that] described_cell by (auto simp: slice_decodes_def)
  then have covered: "validate_slice_raster_coverage stream ?sls = Inr ()" by (intro grid_covered [OF _ _ grid]) simp_all
  have "bytes \<noteq> []"
  proof
    assume "bytes = []"
    then have "?bs ! 0 = []" using nz lb by (simp add: bytes)
    with fits [of 0] footer_size_positive [of stream] nz show False by simp
  qed
  moreover have "sp_width stream \<noteq> 0" "sp_height stream \<noteq> 0" "sp_num_h_slices stream \<noteq> 0" "sp_num_v_slices stream \<noteq> 0"
    using input by (auto simp: validate_input_def validate_stream_shape_def split: if_splits)
  ultimately have init: "initialize_frame stream bytes = Inr \<lparr>fc_slices = [], fc_frame_info = make_frame_info stream, fc_keyframe = False\<rparr>"
    by (simp add: initialize_frame_def)
  have max: "maximum_slice_count stream = ?n" by (simp add: maximum_slice_count_def slice_count_product cell_count_def)
  let ?fc = "finalize_frame_metadata keyframe \<lparr>fc_slices = ?sls, fc_frame_info = make_frame_info stream, fc_keyframe = False\<rparr>"
  have "parse_with_range_header stream verify_crc bytes = Inr ?fc"
    by (simp add: parse_with_range_header_def parse_located_range_slices_def init max ds(1) parsed covered)
  moreover have "fc_slices ?fc = ?sls" "fc_keyframe ?fc = keyframe" by (simp_all add: finalize_frame_metadata_def)
  ultimately show ?thesis
    using states triple len by (intro exI [of _ ?fc] exI [of _ states] exI [of _ ?k] exI [of _ "\<lambda>i. fst (snd (t i))"]
        exI [of _ "\<lambda>i. snd (snd (t i))"] exI [of _ "\<lambda>i. ds ! i"]) (simp add: ee')
qed

text \<open>
  The abstract specification of a frame: the decoder that holds the states of the encoder returns the picture, and
  holds the states of the encoder again.
\<close>

lemma frame_decoded:
  assumes enc: "execute_encode stream kernels threads frame im keyframe ee = Inr (bytes, ee')"
    and mode: "sp_entropy_mode stream = RangeMode" and views: "frame_views frame iviews" and grid: "grid_allowed stream"
    and complete: "frame_complete stream kernels frame im keyframe ee"
    and linked: "\<not> keyframe \<longrightarrow> sx_slice_states sx = ee_slice_states ee \<and> sx_slice_layouts sx = ee_slice_layouts ee"
    and oviews: "frame_views output oviews" and planes: "output_planes_ok stream oviews m"
    and order: "sort order = [0..<cell_count stream]"
  shows "\<exists>fc sx' m'. parse_with_range_header stream verify_crc bytes = Inr fc \<and> fc_keyframe fc = keyframe \<and>
    execute_decode stream kernels dthreads order output (fc_slices fc) keyframe (sx, m) = Inr (sx', m') \<and>
    sx_slice_states sx' = ee_slice_states ee' \<and> sx_slice_layouts sx' = ee_slice_layouts ee' \<and>
    same_picture stream oviews m' iviews im"
proof -
  let ?n = "cell_count stream"
  from frame_parsed [OF enc mode views grid complete, of verify_crc] obtain fc states k d iws located where
    fc: "parse_with_range_header stream verify_crc bytes = Inr fc" "fc_keyframe fc = keyframe" "length (fc_slices fc) = ?n" and
    states: "encoder_starting_states stream ee ?n keyframe = Inr states" and
    ee': "length (ee_slice_states ee') = ?n" "ee_slice_layouts ee' = map (encode_slice_layout stream) [0..<?n]" and
    dec: "\<And>i. i < ?n \<Longrightarrow> slice_decodes stream kernels frame im i (located i) (k i) (states ! i) (ee_slice_states ee' ! i)
      (fc_slices fc ! i, d i, iws i)" by blast
  note st = encoder_states_start [OF states]
  have layouts: "map slice_layout (fc_slices fc) = map (encode_slice_layout stream) [0..<?n]"
  proof (rule nth_equalityI)
    show "map slice_layout (fc_slices fc) ! i = map (encode_slice_layout stream) [0..<?n] ! i" if "i < length (map slice_layout (fc_slices fc))" for i
      using that fc(3) dec [of i] described_cell grid_cell_layout by (auto simp: slice_decodes_def)
  qed (simp add: fc(3))
  have start: "starting_states sx (fc_slices fc) keyframe = Inr states"
  proof (cases keyframe)
    case True
    with st(2) fc(3) show ?thesis by (simp add: starting_states_def)
  next
    case False
    with st(3) linked have sx: "sx_slice_states sx = states" "sx_slice_layouts sx = map slice_layout (fc_slices fc)"
      by (simp_all add: layouts)
    have "fc_slices fc \<noteq> []" using fc(3) execute_encode_Inr [OF enc] by (metis length_0_conv)
    from starting_states_same [OF sx(2) _ this] sx(1) st(1) fc(3) False show ?thesis by simp
  qed
  from execute_all [OF fc(3) st(1) ee'(1) dec grid views oviews planes start order, of dthreads] obtain m' where
    m': "execute_decode stream kernels dthreads order output (fc_slices fc) keyframe (sx, m) =
      Inr (\<lparr>sx_slice_states = ee_slice_states ee', sx_slice_layouts = map slice_layout (fc_slices fc)\<rparr>, m')"
    "same_picture stream oviews m' iviews im" by blast
  with fc(1,2) show ?thesis unfolding layouts ee'(2) [symmetric]
    by (intro exI [of _ fc] exI [of _ "\<lparr>sx_slice_states = ee_slice_states ee', sx_slice_layouts = ee_slice_layouts ee'\<rparr>"]
        exI [of _ m']) simp
qed

end

end
