(* ===== verification/Codec_Roundtrip.thy ===== *)
theory Codec_Roundtrip
  imports Frame_Decoded
begin

text \<open>
  The public encoder and decoder together: a decoder configured with the record of the encoder returns every picture
  that the encoder was given.
\<close>

subsection \<open>The stream of the decoder\<close>

text \<open>What the record parser makes of an encoder stream, once the dimensions are set.\<close>

definition decoder_stream :: "stream_parameters \<Rightarrow> stream_parameters" where
  "decoder_stream stream = stream\<lparr>sp_initial_states := [[]]\<rparr>"

lemma validate_encoder_stream_initial:
  assumes "sp_initial_states stream = []"
  shows "validate_encoder_stream (decoder_stream stream) = validate_encoder_stream stream"
  using assms by (simp add: validate_encoder_stream_def decoder_stream_def Let_def cong: if_cong)

lemma slot_initial_states_initial:
  assumes "sp_initial_states stream = []" and "\<And>i. i < n \<Longrightarrow> slot_table_set_index stream indexes i = 0"
  shows "slot_initial_states (decoder_stream stream) indexes n = slot_initial_states stream indexes n"
  using assms by (simp add: slot_initial_states_def decoder_stream_def initial_states)

lemma encode_grid_slice_initial:
  assumes "sp_initial_states stream = []" and "sp_version stream = 3"
  shows "encode_grid_slice (decoder_stream stream) kernels frame im keyframe st i = encode_grid_slice stream kernels frame im keyframe st i"
proof -
  have header: "grid_header (decoder_stream stream) i = grid_header stream i" by (simp add: decoder_stream_def initial_states)
  have "slot_initial_states (decoder_stream stream) (hv_quant_table_set_indexes (grid_header stream i)) (quant_table_set_index_count stream) =
      slot_initial_states stream (hv_quant_table_set_indexes (grid_header stream i)) (quant_table_set_index_count stream)"
    by (rule slot_initial_states_initial [OF assms(1)]) (simp add: slot_table_set_index_def grid_header_def)
  then have finish: "finish_range_slice (decoder_stream stream) kernels (grid_header stream i) window im ws e =
      finish_range_slice stream kernels (grid_header stream i) window im ws e" for window ws e
    using assms(2) by (simp add: finish_range_slice_def Let_def) (simp add: decoder_stream_def initial_states)
  show ?thesis
    unfolding encode_grid_slice_def encode_slice_def header finish validate_encoder_stream_initial [OF assms(1)]
    by (simp add: decoder_stream_def initial_states cong: if_cong)
qed

lemma execute_encode_initial:
  assumes "sp_initial_states stream = []" and "sp_version stream = 3"
  shows "execute_encode (decoder_stream stream) kernels threads frame im keyframe ee = execute_encode stream kernels threads frame im keyframe ee"
proof -
  have start: "encoder_starting_states (decoder_stream stream) ee n keyframe = encoder_starting_states stream ee n keyframe" for n
    by (simp add: encoder_starting_states_def decoder_stream_def initial_states cong: if_cong)
  show ?thesis
    unfolding execute_encode_def Let_def encode_results_serial encode_grid_slice_initial [OF assms] start
    by (simp add: decoder_stream_def initial_states cong: if_cong)
qed

lemma frame_complete_initial:
  assumes "sp_initial_states stream = []" and "sp_version stream = 3"
  shows "frame_complete (decoder_stream stream) kernels frame im keyframe ee = frame_complete stream kernels frame im keyframe ee"
proof -
  have start: "encoder_starting_states (decoder_stream stream) ee n keyframe = encoder_starting_states stream ee n keyframe" for n
    by (simp add: encoder_starting_states_def decoder_stream_def initial_states cong: if_cong)
  have cells: "cell_count (decoder_stream stream) = cell_count stream" by (simp add: decoder_stream_def initial_states)
  have parts: "slice_prefix_size (decoder_stream stream) header wk keyframe = slice_prefix_size stream header wk keyframe"
    "grid_header (decoder_stream stream) i = grid_header stream i" "footer_size (decoder_stream stream) = footer_size stream" for header wk i
    by (simp_all add: slice_prefix_size_def decoder_stream_def initial_states)
  have "slice_complete (decoder_stream stream) kernels frame im keyframe st i = slice_complete stream kernels frame im keyframe st i" for st i
    unfolding slice_complete_def encode_grid_slice_initial [OF assms] parts ..
  then show ?thesis unfolding frame_complete_def start cells by (simp cong: sum.case_cong)
qed

lemma decoder_stream_geometry:
  "coded_plane_count (decoder_stream stream) = coded_plane_count stream" "cell_count (decoder_stream stream) = cell_count stream"
  "grid_allowed (decoder_stream stream) = grid_allowed stream" "output_planes_ok (decoder_stream stream) = output_planes_ok stream"
  "same_picture (decoder_stream stream) = same_picture stream" "validate_stream_shape (decoder_stream stream) = validate_stream_shape stream"
  "sp_version (decoder_stream stream) = sp_version stream" "sp_entropy_mode (decoder_stream stream) = sp_entropy_mode stream"
  "sp_width (decoder_stream stream) = sp_width stream" "sp_height (decoder_stream stream) = sp_height stream"
proof -
  show "grid_allowed (decoder_stream stream) = grid_allowed stream"
    by (simp add: grid_allowed_def grid_fits_def decoder_stream_def initial_states)
  show "output_planes_ok (decoder_stream stream) = output_planes_ok stream"
    by (intro ext) (simp add: output_planes_ok_def output_plane_ok_def decoder_stream_def initial_states Let_def cong: option.case_cong)
  show "same_picture (decoder_stream stream) = same_picture stream"
    by (intro ext) (simp add: same_picture_def plane_sample_def decoder_stream_def initial_states Let_def)
qed (simp_all add: decoder_stream_def initial_states)

subsection \<open>Encoder and decoder in step\<close>

text \<open>The decoder has the stream and the slice states of the encoder.\<close>

definition in_step :: "encoder \<Rightarrow> decoder \<Rightarrow> bool" where
  "in_step en de \<longleftrightarrow>
     (case (en_stream en, en_executor en, de_stream de, de_executor de) of
        (Some stream, Some ee, Some stream', Some sx) \<Rightarrow>
          encoder_profile stream \<and> stream' = decoder_stream stream \<and>
          sx_slice_states sx = ee_slice_states ee \<and> sx_slice_layouts sx = ee_slice_layouts ee
      | _ \<Rightarrow> False)"

lemma in_stepE:
  assumes "in_step en de"
  obtains stream ee sx where "en_stream en = Some stream" and "en_executor en = Some ee" and "de_stream de = Some (decoder_stream stream)"
    and "de_executor de = Some sx" and "encoder_profile stream" and "sx_slice_states sx = ee_slice_states ee"
    and "sx_slice_layouts sx = ee_slice_layouts ee"
  using assms by (auto simp: in_step_def split: option.splits)

lemma configured_in_step:
  assumes "encoder_configure info en = Inr (rec, en')"
    and "do_frame_width (de_options de) = si_width info" and "do_frame_height (de_options de) = si_height info"
  shows "\<exists>de'. decoder_configure rec de = Inr de' \<and> in_step en' de' \<and> de_options de' = de_options de"
proof -
  from assms(1) obtain stream where stream: "normalize_encoder_profile (en_options en) info = Inr stream"
    and rec: "write_configuration_record stream = Inr rec"
    and en': "en_stream en' = Some stream" "en_executor en' = Some new_slice_encode_executor"
    by (auto simp: encoder_configure_def)
  note profile = normalized_profile [OF stream]
  from encoder_profile_record [OF profile] rec have
    parsed: "parse_configuration_record rec = Inr (stream\<lparr>sp_width := 0, sp_height := 0, sp_initial_states := [[]]\<rparr>)" by auto
  have dims: "sp_width stream = si_width info" "sp_height stream = si_height info" "si_width info \<noteq> 0" "si_height info \<noteq> 0"
    using stream by (auto simp: normalize_encoder_profile_def profile_stream_def Let_def split: if_splits)
  have "stream\<lparr>sp_width := 0, sp_height := 0, sp_initial_states := [[]], sp_width := si_width info, sp_height := si_height info\<rparr> =
      decoder_stream stream"
    using dims by (cases stream) (simp add: decoder_stream_def)
  then have "decoder_configure rec de = Inr (de\<lparr>de_stream := Some (decoder_stream stream), de_executor := Some new_slice_executor\<rparr>)"
    using parsed assms(2,3) dims(3,4) by (simp add: decoder_configure_def Let_def)
  then show ?thesis
    using en' profile by (simp add: in_step_def new_slice_executor_def new_slice_encode_executor_def)
qed

subsection \<open>One picture\<close>

text \<open>The streams that the round trip is shown for: those of the range coder, with fewer than \<open>2 ^ 32\<close> slices.\<close>

definition range_coded :: "encoder \<Rightarrow> bool" where
  "range_coded en \<longleftrightarrow>
     (case en_stream en of
        None \<Rightarrow> False
      | Some stream \<Rightarrow> sp_entropy_mode stream = RangeMode \<and> cell_count stream < 2 ^ 32)"

lemma range_codedE:
  assumes "range_coded en" and "en_stream en = Some stream"
  shows "sp_entropy_mode stream = RangeMode" and "cell_count stream < 2 ^ 32"
  using assms by (simp_all add: range_coded_def)

text \<open>
  The picture of an encoder call: planes as the interface describes them, and no slice whose coded bytes, of which the
  encoder drops a zero at the end, stop before the end of its own header.
\<close>

definition picture_fits :: "codec_kernels \<Rightarrow> frame_view \<Rightarrow> frame_memory \<Rightarrow> encoder \<Rightarrow> bool" where
  "picture_fits kernels input im en \<longleftrightarrow>
     (case (en_stream en, en_executor en, fv_planes input) of
        (Some stream, Some ee, Some views) \<Rightarrow>
          frame_views input views \<and> frame_complete stream kernels input im (next_is_keyframe en) ee
      | _ \<Rightarrow> False)"

lemma picture_fitsE:
  assumes "picture_fits kernels input im en"
  obtains stream ee views where "en_stream en = Some stream" and "en_executor en = Some ee" and "frame_views input views"
    and "frame_complete stream kernels input im (next_is_keyframe en) ee"
  using assms by (auto simp: picture_fits_def split: option.splits)

text \<open>The planes a decoder call may write to.\<close>

definition output_fits :: "frame_view \<Rightarrow> frame_memory \<Rightarrow> nat list \<Rightarrow> encoder \<Rightarrow> bool" where
  "output_fits output m order en \<longleftrightarrow>
     (case (en_stream en, fv_planes output) of
        (Some stream, Some views) \<Rightarrow>
          frame_views output views \<and> output_planes_ok stream views m \<and> sort order = [0..<cell_count stream]
      | _ \<Rightarrow> False)"

lemma output_fitsE:
  assumes "output_fits output m order en" and "en_stream en = Some stream"
  obtains views where "frame_views output views" and "output_planes_ok stream views m" and "sort order = [0..<cell_count stream]"
  using assms by (auto simp: output_fits_def split: option.splits)

definition same_pictures :: "encoder \<Rightarrow> frame_view \<Rightarrow> frame_memory \<Rightarrow> frame_view \<Rightarrow> frame_memory \<Rightarrow> bool" where
  "same_pictures en output m input im \<longleftrightarrow>
     (case (en_stream en, fv_planes output, fv_planes input) of
        (Some stream, Some oviews, Some iviews) \<Rightarrow> same_picture stream oviews m iviews im
      | _ \<Rightarrow> False)"

context lossless_kernels begin

lemma step_decoded:
  assumes step: "in_step en de" and enc: "encoder_encode_frame kernels hw input im en = Inr (bytes, en')"
    and range: "range_coded en" and fits: "picture_fits kernels input im en" "output_fits output m order en"
  shows "\<exists>de' m'. decoder_decode_frame kernels hw' order bytes output (de, m) = Inr (de', m') \<and> in_step en' de' \<and>
    de_options de' = de_options de \<and> en_stream en' = en_stream en \<and> same_pictures en output m' input im"
proof -
  from step obtain stream ee sx where en: "en_stream en = Some stream" "en_executor en = Some ee"
    and de: "de_stream de = Some (decoder_stream stream)" "de_executor de = Some sx"
    and profile: "encoder_profile stream"
    and sx: "sx_slice_states sx = ee_slice_states ee" "sx_slice_layouts sx = ee_slice_layouts ee" by (rule in_stepE)
  from fits(1) en obtain iviews where views: "frame_views input iviews" and complete: "frame_complete stream kernels input im (next_is_keyframe en) ee"
    by (auto elim: picture_fitsE)
  note mode = range_codedE(1) [OF range en(1)] and cells = range_codedE(2) [OF range en(1)]
  from fits(2) en(1) obtain oviews where oviews: "frame_views output oviews" and planes: "output_planes_ok stream oviews m"
    and order: "sort order = [0..<cell_count stream]" by (rule output_fitsE)
  from profile have init: "sp_initial_states stream = []" and version: "sp_version stream = 3"
    and dims: "sp_width stream \<noteq> 0" "sp_height stream \<noteq> 0" by (simp_all add: encoder_profile_def)
  from profile cells have grid: "grid_allowed stream"
    by (auto simp: grid_allowed_def encoder_profile_def cell_count_def)
  let ?threads = "normalize_thread_count hw (eo_thread_count (en_options en))"
  from enc en obtain ee' where run: "execute_encode stream kernels ?threads input im (next_is_keyframe en) ee = Inr (bytes, ee')"
    and en': "en' = en\<lparr>en_executor := Some ee', en_next_frame_index := en_next_frame_index en + 1\<rparr>"
    by (auto simp: encoder_encode_frame_def)
  let ?dthreads = "normalize_thread_count hw' (do_thread_count (de_options de))" and ?verify = "do_verify_crc (de_options de)"
  have "\<exists>fc sx' m'. parse_with_range_header (decoder_stream stream) ?verify bytes = Inr fc \<and> fc_keyframe fc = next_is_keyframe en \<and>
    execute_decode (decoder_stream stream) kernels ?dthreads order output (fc_slices fc) (next_is_keyframe en) (sx, m) = Inr (sx', m') \<and>
    sx_slice_states sx' = ee_slice_states ee' \<and> sx_slice_layouts sx' = ee_slice_layouts ee' \<and>
    same_picture (decoder_stream stream) oviews m' iviews im"
    by (rule frame_decoded [OF run [folded execute_encode_initial [OF init version]]])
      (use mode views grid complete sx oviews planes order in
        \<open>simp_all add: decoder_stream_geometry frame_complete_initial [OF init version]\<close>)
  then obtain fc sx' m' where fc: "parse_with_range_header (decoder_stream stream) ?verify bytes = Inr fc" "fc_keyframe fc = next_is_keyframe en"
    and dec: "execute_decode (decoder_stream stream) kernels ?dthreads order output (fc_slices fc) (next_is_keyframe en) (sx, m) = Inr (sx', m')"
    and sx': "sx_slice_states sx' = ee_slice_states ee'" "sx_slice_layouts sx' = ee_slice_layouts ee'"
    and same: "same_picture stream oviews m' iviews im" by (auto simp: decoder_stream_geometry)
  from run have shape: "validate_stream_shape stream = Inr ()"
    by (auto simp: execute_encode_def validate_input_def split: if_splits)
  have "bytes \<noteq> []" using fc(1) by (auto simp: parse_with_range_header_def parse_located_range_slices_def initialize_frame_def)
  then have opened: "open_frame bytes de = Inr (decoder_stream stream, fc)"
    using de(1) fc(1) version dims
    by (simp add: open_frame_def ensure_dimensions_known_def decoder_parse_frame_def decoder_stream_geometry)
  have valid: "validate_output (decoder_stream stream) output = Inr ()"
    by (rule validate_output_ok [of _ oviews m]) (simp_all add: decoder_stream_geometry planes oviews shape)
  have "decoder_decode_frame kernels hw' order bytes output (de, m) = Inr (de\<lparr>de_executor := Some sx'\<rparr>, m')"
    using opened valid de(2) dec fc(2) by (simp add: decoder_decode_frame_def decode_frame_slices_def)
  moreover have "in_step en' (de\<lparr>de_executor := Some sx'\<rparr>)"
    using en de profile sx' by (simp add: en' in_step_def)
  moreover have "same_pictures en output m' input im"
    using en oviews views same by (simp add: same_pictures_def frame_views_def)
  moreover have "de_options (de\<lparr>de_executor := Some sx'\<rparr>) = de_options de" by simp
  moreover have "en_stream en' = en_stream en" by (simp add: en')
  ultimately show ?thesis by blast
qed

end

subsection \<open>A sequence of pictures\<close>

fun encode_pictures ::
  "codec_kernels \<Rightarrow> u32 \<Rightarrow> (frame_view \<times> frame_memory) list \<Rightarrow> encoder \<Rightarrow> (bytes list \<times> encoder) result" where
  "encode_pictures kernels hw [] en = Inr ([], en)"
| "encode_pictures kernels hw ((input, im) # pictures) en =
     bind_result (encoder_encode_frame kernels hw input im en) (\<lambda>(bytes, en).
     bind_result (encode_pictures kernels hw pictures en) (\<lambda>(payloads, en). Inr (bytes # payloads, en)))"

text \<open>Each output has the order in which its slices complete, its planes and their memory before decoding.\<close>

fun decode_pictures ::
  "codec_kernels \<Rightarrow> u32 \<Rightarrow> (nat list \<times> frame_view \<times> frame_memory) list \<Rightarrow> bytes list \<Rightarrow> decoder \<Rightarrow>
     (frame_memory list \<times> decoder) result" where
  "decode_pictures kernels hw ((order, output, m) # outputs) (bytes # payloads) de =
     bind_result (decoder_decode_frame kernels hw order bytes output (de, m)) (\<lambda>(de, m).
     bind_result (decode_pictures kernels hw outputs payloads de) (\<lambda>(ms, de). Inr (m # ms, de)))"
| "decode_pictures kernels hw outputs payloads de = Inr ([], de)"

fun session_fits ::
  "codec_kernels \<Rightarrow> u32 \<Rightarrow> (frame_view \<times> frame_memory) list \<Rightarrow> (nat list \<times> frame_view \<times> frame_memory) list \<Rightarrow>
     encoder \<Rightarrow> bool" where
  "session_fits kernels hw [] [] en \<longleftrightarrow> True"
| "session_fits kernels hw ((input, im) # pictures) ((order, output, m) # outputs) en \<longleftrightarrow>
     picture_fits kernels input im en \<and> output_fits output m order en \<and>
     (case encoder_encode_frame kernels hw input im en of
        Inl e \<Rightarrow> True
      | Inr (bytes, en) \<Rightarrow> session_fits kernels hw pictures outputs en)"
| "session_fits kernels hw pictures outputs en \<longleftrightarrow> False"

lemma session_length:
  assumes "encode_pictures kernels hw pictures en = Inr (payloads, en')" and "session_fits kernels hw pictures outputs en"
  shows "length outputs = length pictures"
  using assms by (induction kernels hw pictures outputs en arbitrary: payloads rule: session_fits.induct) auto

lemma configured_range_coded:
  assumes "encoder_configure info en = Inr (rec, en')" and "eo_entropy_mode (en_options en) = RangeMode"
    and "unat (si_num_h_slices info) * unat (si_num_v_slices info) < 2 ^ 32"
  shows "range_coded en'"
proof -
  from assms(1) obtain stream where stream: "normalize_encoder_profile (en_options en) info = Inr stream" "en_stream en' = Some stream"
    by (auto simp: encoder_configure_def)
  have "sp_entropy_mode stream = eo_entropy_mode (en_options en)" "sp_num_h_slices stream = si_num_h_slices info"
    "sp_num_v_slices stream = si_num_v_slices info"
    using stream(1) by (auto simp: normalize_encoder_profile_def profile_stream_def Let_def split: if_splits)
  with assms(2,3) stream(2) show ?thesis by (simp add: range_coded_def cell_count_def)
qed

lemma same_pictures_stream:
  "en_stream en' = en_stream en \<Longrightarrow> same_pictures en' output m input im = same_pictures en output m input im"
  by (simp add: same_pictures_def)

context lossless_kernels begin

lemma pictures_decoded:
  assumes "in_step en de" and "encode_pictures kernels hw pictures en = Inr (payloads, en')"
    and "range_coded en" and "session_fits kernels hw pictures outputs en"
  shows "\<exists>ms de'. decode_pictures kernels hw' outputs payloads de = Inr (ms, de') \<and> in_step en' de' \<and>
    list_all2 (\<lambda>m (output, input, im). same_pictures en output m input im) ms
      (map (\<lambda>((order, output, m), input, im). (output, input, im)) (zip outputs pictures))"
  using assms
proof (induction pictures arbitrary: outputs en de payloads)
  case Nil
  then show ?case by (cases outputs) auto
next
  case (Cons picture pictures)
  obtain input im where picture: "picture = (input, im)" by (cases picture)
  from Cons.prems(4) obtain order oview m outs where outputs: "outputs = (order, oview, m) # outs"
    by (cases outputs) (auto simp: picture)
  from Cons.prems(2) obtain bytes en1 rest where one: "encoder_encode_frame kernels hw input im en = Inr (bytes, en1)"
    and more: "encode_pictures kernels hw pictures en1 = Inr (rest, en')" and payloads: "payloads = bytes # rest"
    by (auto simp: picture)
  from Cons.prems(4) one have fits: "picture_fits kernels input im en" "output_fits oview m order en"
    and later: "session_fits kernels hw pictures outs en1" by (simp_all add: picture outputs)
  from step_decoded [OF Cons.prems(1) one Cons.prems(3) fits, of hw'] obtain de1 m1 where
    dec: "decoder_decode_frame kernels hw' order bytes oview (de, m) = Inr (de1, m1)" and step: "in_step en1 de1"
    and stream: "en_stream en1 = en_stream en" and same: "same_pictures en oview m1 input im" by blast
  have "range_coded en1" using Cons.prems(3) by (simp add: range_coded_def stream)
  from Cons.IH [OF step more this later] obtain ms de' where
    ms: "decode_pictures kernels hw' outs rest de1 = Inr (ms, de')" "in_step en' de'"
      "list_all2 (\<lambda>m (oview, input, im). same_pictures en oview m input im) ms
        (map (\<lambda>((order, oview, m), input, im). (oview, input, im)) (zip outs pictures))"
    unfolding same_pictures_stream [OF stream] by blast
  then show ?case using dec same by (intro exI [of _ "m1 # ms"] exI [of _ de']) (simp add: payloads picture outputs)
qed

end

end
