(* ===== verification/Codec_Example.thy ===== *)
theory Codec_Example
  imports Codec_Roundtrip
begin

text \<open>
  The encoder evaluated on a small session: a grey picture of one sample, as a keyframe and again as an inter frame. Its
  facts discharge the hypotheses of the theorems on sessions and frames at concrete inputs.
\<close>

subsection \<open>Header symbols\<close>

definition header_encoder :: "bytes \<Rightarrow> u32 \<Rightarrow> u8 \<Rightarrow> range_encoder" where
  "header_encoder low rng s = new_range_encoder\<lparr>re_low_bytes := low, re_range := rng, re_initialized := True,
     re_contexts := \<lparr>bank_offsets = [0], bank_sizes = [1], scalar_contexts = [s # replicate 31 128]\<rparr>\<rparr>"

lemma zero_symbol:
  assumes rac: "write_rac s True e = Inr (s', e')" and states: "context_states b c (re_contexts e) = s # rest"
    and bank: "b < length (bank_sizes (re_contexts e))" "c < bank_sizes (re_contexts e) ! b"
    and table: "re_state_transition e = kDefaultStateTransition" and short: "length (re_low_bytes e) < 100"
  shows "re_write_symbol b c is_signed 0 False e = Inr (e'\<lparr>re_contexts := set_context_states b c (s' # rest) (re_contexts e')\<rparr>)"
proof -
  have decisions: "symbol_decisions is_signed 0 False = [(0, True)]" by (simp add: symbol_decisions_def)
  have "drop_bit 8 (re_range e * ucast s) \<noteq> 0"
    using rac by (auto simp: write_rac_def Let_def split: if_splits)
  then have "\<exists>n \<le> 1. trial_symbol kDefaultStateTransition [(0, True)] (s # rest) (re_range e) 0 = Inr n"
    by (simp add: Let_def)
  then obtain n where n: "n \<le> 1" "trial_symbol kDefaultStateTransition [(0, True)] (s # rest) (re_range e) 0 = Inr n"
    by blast
  have "write_decisions [(0, True)] (s # rest) e = Inr (s' # rest, e')" using rac by simp
  with n(1) bank short show ?thesis
    by (simp add: re_write_symbol_def states decisions table n(2) byte_vector_max_size_def Let_def not_le
        del: trial_symbol.simps write_decisions.simps)
qed

lemma header_zero:
  assumes "write_rac s True (header_encoder low rng s) = Inr (s', header_encoder low' rng' s)" and "length low < 100"
  shows "re_write_unsigned 0 0 0 (header_encoder low rng s) = Inr (header_encoder low' rng' s')"
proof -
  have "re_write_symbol 0 0 False 0 False (header_encoder low rng s) = Inr (header_encoder low' rng' s\<lparr>re_contexts :=
      set_context_states 0 0 (s' # replicate 31 128) (re_contexts (header_encoder low' rng' s))\<rparr>)"
    by (rule zero_symbol [OF assms(1)])
      (use assms(2) in \<open>simp_all add: header_encoder_def new_range_encoder_def context_states_def context_index_def\<close>)
  moreover have "re_usable (header_encoder low rng s) = Inr ()"
    by (simp add: re_usable_def header_encoder_def new_range_encoder_def)
  ultimately show ?thesis
    by (simp add: re_write_unsigned_def) (simp add: header_encoder_def set_context_states_def context_index_def)
qed

lemma default_transitions:
  "kDefaultStateTransition ! 128 = 134"
  "kDefaultStateTransition ! 134 = 140"
  "kDefaultStateTransition ! 140 = 146"
  "kDefaultStateTransition ! 146 = 152"
  "kDefaultStateTransition ! 152 = 157"
  "kDefaultStateTransition ! 157 = 162"
  "kDefaultStateTransition ! 162 = 167"
  "kDefaultStateTransition ! 167 = 171"
  "kDefaultStateTransition ! 171 = 175"
  by (simp_all add: kDefaultStateTransition_def)

text \<open>The nine zeros of a header, after the keyframe flag.\<close>

lemma keyframe_header_zeros:
  "re_write_unsigned 0 0 0 (header_encoder [127, 128] 32640 128) = Inr (header_encoder [191, 64] 16320 134)"
  "re_write_unsigned 0 0 0 (header_encoder [191, 64] 16320 134) = Inr (header_encoder [221, 162] 8542 140)"
  "re_write_unsigned 0 0 0 (header_encoder [221, 162] 8542 140) = Inr (header_encoder [236, 193] 4671 146)"
  "re_write_unsigned 0 0 0 (header_encoder [236, 193] 4671 146) = Inr (header_encoder [244, 153] 2663 152)"
  "re_write_unsigned 0 0 0 (header_encoder [244, 153] 2663 152) = Inr (header_encoder [248, 211] 1581 157)"
  "re_write_unsigned 0 0 0 (header_encoder [248, 211] 1581 157) = Inr (header_encoder [251, 55] 969 162)"
  "re_write_unsigned 0 0 0 (header_encoder [251, 55] 969 162) = Inr (header_encoder [252, 155] 613 167)"
  "re_write_unsigned 0 0 0 (header_encoder [252, 155] 613 167) = Inr (header_encoder [253, 113] 399 171)"
  "re_write_unsigned 0 0 0 (header_encoder [253, 113] 399 171) = Inr (header_encoder [253, 246] 266 175)"
  by - (rule header_zero, simp add: write_rac_def header_encoder_def new_range_encoder_def add_to_low_def range_one_state_def default_transitions Let_def, simp)+

lemma inter_header_zeros:
  "re_write_unsigned 0 0 0 (header_encoder [0, 0] 32640 128) = Inr (header_encoder [63, 192] 16320 134)"
  "re_write_unsigned 0 0 0 (header_encoder [63, 192] 16320 134) = Inr (header_encoder [94, 34] 8542 140)"
  "re_write_unsigned 0 0 0 (header_encoder [94, 34] 8542 140) = Inr (header_encoder [109, 65] 4671 146)"
  "re_write_unsigned 0 0 0 (header_encoder [109, 65] 4671 146) = Inr (header_encoder [117, 25] 2663 152)"
  "re_write_unsigned 0 0 0 (header_encoder [117, 25] 2663 152) = Inr (header_encoder [121, 83] 1581 157)"
  "re_write_unsigned 0 0 0 (header_encoder [121, 83] 1581 157) = Inr (header_encoder [123, 183] 969 162)"
  "re_write_unsigned 0 0 0 (header_encoder [123, 183] 969 162) = Inr (header_encoder [125, 27] 613 167)"
  "re_write_unsigned 0 0 0 (header_encoder [125, 27] 613 167) = Inr (header_encoder [125, 241] 399 171)"
  "re_write_unsigned 0 0 0 (header_encoder [125, 241] 399 171) = Inr (header_encoder [126, 118] 266 175)"
  by - (rule header_zero, simp add: write_rac_def header_encoder_def new_range_encoder_def add_to_low_def range_one_state_def default_transitions Let_def, simp)+

definition tiny_info :: stream_info where
  "tiny_info = new_stream_info\<lparr>si_width := 1, si_height := 1, si_has_chroma_planes := False\<rparr>"

definition tiny_options :: encoder_options where
  "tiny_options = new_encoder_options\<lparr>eo_keyframe_interval := 2\<rparr>"

definition tiny_stream :: stream_parameters where
  "tiny_stream = (profile_stream tiny_options tiny_info)\<lparr>sp_quant_table_sets := [make_zero_quant_table_set], sp_intra_only := False\<rparr>"

lemma tiny_stream_fields:
  "sp_version tiny_stream = 3" "sp_micro_version tiny_stream = 4" "sp_entropy_mode tiny_stream = RangeMode"
  "sp_width tiny_stream = 1" "sp_height tiny_stream = 1" "sp_bits_per_raw_sample tiny_stream = 8"
  "sp_colorspace_type tiny_stream = 0" "\<not> sp_chroma_planes tiny_stream" "\<not> sp_extra_plane tiny_stream"
  "sp_log2_h_chroma_subsample tiny_stream = 0" "sp_log2_v_chroma_subsample tiny_stream = 0"
  "sp_num_h_slices tiny_stream = 1" "sp_num_v_slices tiny_stream = 1"
  "sp_quant_table_sets tiny_stream = [make_zero_quant_table_set]" "sp_initial_states tiny_stream = []"
  "sp_state_transition tiny_stream = kDefaultStateTransition" "\<not> sp_error_status_enabled tiny_stream"
  "\<not> sp_intra_only tiny_stream"
  by (simp_all add: tiny_stream_def tiny_info_def tiny_options_def profile_stream_def new_stream_info_def new_encoder_options_def
      new_stream_parameters_def)

lemma tiny_normalizes: "normalize_encoder_profile tiny_options tiny_info = Inr tiny_stream"
  by (simp add: normalize_encoder_profile_def tiny_stream_def tiny_info_def tiny_options_def new_stream_info_def new_encoder_options_def
      is_supported_encoder_bit_depth_def is_supported_public_color_space_def has_invalid_rgb_geometry_def
      has_subsampling_without_chroma_def is_supported_chroma_subsampling_def Let_def profile_stream_def
      new_stream_parameters_def requires_version3_parallel_slice_limit_def kVersion3CifPixelCount_def
      empty_plane_region_def coded_plane_count_def plane_width_def plane_height_def is_chroma_plane_def
      subsampled_extent_def word_le_nat_alt upt_rec)

lemma tiny_geometry:
  "coded_plane_count tiny_stream = 1" "quant_table_set_index_count tiny_stream = 2" "cell_count tiny_stream = 1"
  "plane_width tiny_stream 0 = 1" "plane_height tiny_stream 0 = 1" "expected_plane_role tiny_stream 0 = RoleY"
  "checked_slice_count tiny_stream = Inr 1" "footer_size tiny_stream = 3"
  by (simp_all add: coded_plane_count_def quant_table_set_index_count_def cell_count_def plane_width_def plane_height_def
      expected_plane_role_def checked_slice_count_def footer_size_def is_chroma_plane_def tiny_stream_fields Let_def size_max_def)

definition tiny_header :: slice_header_values where
  "tiny_header = \<lparr>hv_x = 0, hv_y = 0, hv_width = 1, hv_height = 1, hv_quant_table_set_indexes = [0, 0],
     hv_picture_structure = 0, hv_sar_num = 0, hv_sar_den = 0\<rparr>"

lemma tiny_grid_header: "grid_header tiny_stream 0 = tiny_header"
  by (simp add: grid_header_def tiny_header_def grid_cell_x_def grid_cell_y_def tiny_stream_fields tiny_geometry numeral_2_eq_2)

lemma tiny_prefix:
  "encode_slice_prefix tiny_stream tiny_header True True = Inr (header_encoder [253, 246] 266 175)"
  "encode_slice_prefix tiny_stream tiny_header True False = Inr (header_encoder [126, 118] 266 175)"
proof -
  have raster: "\<exists>sl. apply_raster tiny_stream tiny_header new_slice_descriptor = Inr sl"
    by (simp add: apply_raster_def check_header_values_def tiny_header_def validate_picture_structure_def tiny_stream_fields tiny_geometry
        Let_def)
  have store: "store_of_counts [1] [] 128 = \<lparr>bank_offsets = [0], bank_sizes = [1], scalar_contexts = [128 # replicate 31 128]\<rparr>"
    by (simp add: store_of_counts_def bank_contexts_def kScalarContextSize_def numeral_eq_Suc)
  have contexts: "initialize_encoder_contexts [1] [] kDefaultInitialState = Inr (store_of_counts [1] [] 128)"
    by (simp add: initialize_encoder_contexts_eq initialize_contexts_def kMaxContextBankCount_def kMaxScalarContextCount_def kDefaultInitialState_def)
  have reset: "re_reset_transition kDefaultStateTransition = Inr (header_encoder [0, 0] 0xff00 128)"
    by (simp add: re_reset_transition_def re_reset_impl_def contexts [unfolded One_nat_def] store [unfolded One_nat_def] header_encoder_def new_range_encoder_def)
  have usable: "re_usable (header_encoder low rng s) = Inr ()" for low rng s
    by (simp add: re_usable_def header_encoder_def new_range_encoder_def)
  have racs: "write_rac 128 True (header_encoder [0, 0] 0xff00 128) = Inr (134, header_encoder [127, 128] 32640 128)"
    "write_rac 128 False (header_encoder [0, 0] 0xff00 128) = Inr (range_zero_state kDefaultStateTransition 128, header_encoder [0, 0] 32640 128)"
    by (simp_all add: write_rac_def header_encoder_def new_range_encoder_def add_to_low_def range_one_state_def default_transitions Let_def)
  have states: "context_states 0 0 (re_contexts (header_encoder low rng s)) = s # replicate 31 128" for low rng s
    by (simp add: header_encoder_def context_states_def context_index_def)
  have bank: "bank_sizes (re_contexts (header_encoder low rng s)) = [1]" for low rng s by (simp add: header_encoder_def)
  have reconfigured: "re_reconfigure_contexts [1] [] (header_encoder low rng s\<lparr>re_contexts := cs\<rparr>) = Inr (header_encoder low rng 128)"
    for low rng s cs
    unfolding re_reconfigure_contexts_def contexts store
    by (simp add: re_usable_def) (simp add: header_encoder_def new_range_encoder_def)
  have flag: "bind_result (re_write_bool True (header_encoder [0, 0] 0xff00 128)) (re_reconfigure_contexts [1] []) =
      Inr (header_encoder [127, 128] 32640 128)"
    "bind_result (re_write_bool False (header_encoder [0, 0] 0xff00 128)) (re_reconfigure_contexts [1] []) =
      Inr (header_encoder [0, 0] 32640 128)"
    by (simp_all add: re_write_bool_def usable bank states racs reconfigured [unfolded One_nat_def] Let_def)
  have zeros: "write_slice_header range_symbol_writer tiny_stream tiny_header (header_encoder [127, 128] 32640 128) = Inr (header_encoder [253, 246] 266 175)"
    "write_slice_header range_symbol_writer tiny_stream tiny_header (header_encoder [0, 0] 32640 128) = Inr (header_encoder [126, 118] 266 175)"
    using raster by (auto simp: write_slice_header_def tiny_geometry tiny_header_def range_symbol_writer_def keyframe_header_zeros inter_header_zeros)
  show "encode_slice_prefix tiny_stream tiny_header True True = Inr (header_encoder [253, 246] 266 175)"
    "encode_slice_prefix tiny_stream tiny_header True False = Inr (header_encoder [126, 118] 266 175)"
    by (simp_all only: encode_slice_prefix_def tiny_stream_fields reset bind_result_Inr if_True flag zeros)
qed

subsection \<open>The samples\<close>

definition tiny_plane :: plane_view where
  "tiny_plane = \<lparr>pv_data = Some 0, pv_info = \<lparr>pi_role = RoleY, pi_sample_format = UInt8, pi_width = 1, pi_height = 1,
     pi_stride_bytes = 1\<rparr>\<rparr>"

definition tiny_frame :: frame_view where
  "tiny_frame = \<lparr>fv_planes = Some [tiny_plane], fv_plane_count = 1\<rparr>"

definition tiny_window :: plane_window where
  "tiny_window = \<lparr>pw_data = 0, pw_stride_bytes = 1, pw_width = 1, pw_height = 1, pw_sample_format = UInt8\<rparr>"

definition content_encoder :: "bytes \<Rightarrow> u32 \<Rightarrow> u8 \<Rightarrow> range_encoder" where
  "content_encoder low rng s = new_range_encoder\<lparr>re_low_bytes := low, re_range := rng, re_initialized := True,
     re_contexts := \<lparr>bank_offsets = [0, 1], bank_sizes = [1, 1],
       scalar_contexts = [s # replicate 31 128, 128 # replicate 31 128]\<rparr>\<rparr>"

definition tiny_line :: line_state where
  "tiny_line = \<lparr>ls_border_value = 0, ls_second_previous = [0], ls_previous = [0], ls_current = [0]\<rparr>"

lemma tiny_validates: "validate_input tiny_stream tiny_frame = Inr ()"
  unfolding validate_input_Inr tiny_geometry
  by (simp add: supported_shape_def tiny_frame_def tiny_plane_def tiny_geometry tiny_stream_fields validate_input_plane_info_Inr
      expected_plane_info_def is_supported_decoder_bit_depth_def is_supported_syntax_colorspace_def has_invalid_rgb_geometry_def
      sample_format_for_bit_depth_def bytes_per_sample_def checked_plane_window_offset_def maximum_offset_def)

lemma tiny_raster:
  obtains sl where "apply_raster tiny_stream tiny_header new_slice_descriptor = Inr sl"
    and "validate_input_window tiny_stream tiny_frame sl = Inr [tiny_window]"
proof -
  let ?sl = "case apply_raster tiny_stream tiny_header new_slice_descriptor of Inr sl \<Rightarrow> sl"
  have header: "check_header_values tiny_stream 1 1 tiny_header = Inr ()"
    by (simp add: check_header_values_def tiny_header_def validate_picture_structure_def tiny_stream_fields tiny_geometry Let_def)
  have raster: "apply_raster tiny_stream tiny_header new_slice_descriptor = Inr ?sl"
    by (simp add: apply_raster_def tiny_stream_fields header)
  have sl: "sd_width ?sl = 1" "sd_height ?sl = 1" "sd_x ?sl = 0" "sd_y ?sl = 0" "sd_raster_x ?sl = 0" "sd_raster_y ?sl = 0" "sd_raster_width ?sl = 1" "sd_raster_height ?sl = 1"
    by (simp_all add: apply_raster_def tiny_stream_fields header [unfolded tiny_header_def] tiny_header_def slice_pixel_width_def slice_pixel_height_def
        slice_pixel_x_def slice_pixel_y_def scaled_grid_position_def)
  have "input_plane_window tiny_stream ?sl 0 tiny_plane = Inr tiny_window"
    by (simp add: input_plane_window_def tiny_plane_def tiny_window_def tiny_geometry tiny_stream_fields sl
        input_plane_x_def input_plane_y_def input_slice_plane_width_def input_slice_plane_height_def is_chroma_plane_def
        slice_pixel_width_def slice_pixel_height_def slice_pixel_x_def slice_pixel_y_def scaled_grid_position_def
        sample_format_for_bit_depth_def checked_plane_row_bytes_def checked_plane_window_offset_def bytes_per_sample_def maximum_offset_def
        to_int64_def Let_def)
  then have "validate_input_window tiny_stream tiny_frame ?sl = Inr [tiny_window]"
    by (simp add: validate_input_window_def sl tiny_geometry tiny_frame_def)
  with raster that show thesis by blast
qed

lemma zero_derive_context:
  "derive_context make_zero_quant_table_set neighbors = Inr \<lparr>cd_context = 0, cd_invert_difference = False\<rparr>"
proof -
  have "folded_context (replicate kContextInputs (replicate kTableEntries 0)) gradients = 0" for gradients
  proof -
    let ?pairs = "zip (replicate kContextInputs (replicate kTableEntries (0 :: int))) gradients"
    have "map (\<lambda>(table, gradient). table ! context_input_index gradient) ?pairs = map (\<lambda>_. 0) ?pairs"
      using context_input_index_bound by (intro map_cong) (auto simp: kTableEntries_def dest: set_zip_leftD)
    then have "folded_context (replicate kContextInputs (replicate kTableEntries 0)) gradients = sum_list (map (\<lambda>_. 0) ?pairs)"
      by (simp only: folded_context_def)
    then show ?thesis by simp
  qed
  then show ?thesis
    by (simp add: derive_context_def make_zero_quant_table_set_def new_quant_table_set_def Let_def)
qed

lemma tiny_samples:
  assumes "write_rac s True (content_encoder low rng s) = Inr (s', content_encoder low' rng' s)" and "length low < 100"
    and "ss_line_states state = [tiny_line]"
  shows "encode_samples tiny_stream kernels [tiny_window] [[0]] state (content_encoder low rng s) =
    Inr (state, content_encoder low' rng' s')"
proof -
  have "re_write_symbol 0 0 True 0 False (content_encoder low rng s) = Inr (content_encoder low' rng' s\<lparr>re_contexts :=
      set_context_states 0 0 (s' # replicate 31 128) (re_contexts (content_encoder low' rng' s))\<rparr>)"
    by (rule zero_symbol [OF assms(1)])
      (use assms(2) in \<open>simp_all add: content_encoder_def new_range_encoder_def context_states_def context_index_def\<close>)
  moreover have "re_usable (content_encoder low rng s) = Inr ()"
    by (simp add: re_usable_def content_encoder_def new_range_encoder_def)
  moreover have "content_encoder low' rng' s\<lparr>re_contexts :=
      set_context_states 0 0 (s' # replicate 31 128) (re_contexts (content_encoder low' rng' s))\<rparr> = content_encoder low' rng' s'"
    by (simp add: content_encoder_def set_context_states_def context_index_def)
  ultimately have signed: "re_write_signed 0 0 0 (content_encoder low rng s) = Inr (content_encoder low' rng' s')"
    by (simp add: re_write_signed_def)
  have sample: "encode_sample make_zero_quant_table_set 0 0 8 False 0 tiny_line (content_encoder low rng s) =
      Inr (tiny_line, content_encoder low' rng' s')"
    by (simp add: encode_sample_def zero_derive_context predict_sample_def ls_neighbors_def tiny_line_def median_predict_def median3_def
        sample_difference_def wrap_sample_difference_def to_int32_def signed set_current_def Let_def)
  have read: "read_sample tiny_stream [tiny_window] [[0]] 0 0 0 = Inr 0"
    by (simp add: read_sample_def load_sample_def tiny_stream_fields row_u8_def window_row_def tiny_window_def row_address_def)
  have mode: "\<not> uses_signed_16bit_predictor tiny_stream" "range_context_bank_index tiny_stream 0 = 0"
    by (simp_all add: uses_signed_16bit_predictor_def range_context_bank_index_def plane_quant_table_set_index_slot_def is_chroma_plane_def
        tiny_stream_fields)
  have width: "window_plane_width [tiny_window] 0 = 1" by (simp add: window_plane_width_def tiny_window_def)
  have swap: "ls_swap_lines tiny_line = tiny_line" by (simp add: ls_swap_lines_def tiny_line_def)
  have "encode_planar_row tiny_stream [tiny_window] [[0]] make_zero_quant_table_set 0 0 0 tiny_line (content_encoder low rng s) =
      Inr (tiny_line, content_encoder low' rng' s')"
    by (simp add: encode_planar_row_def encode_planar_sample_def width read tiny_stream_fields mode sample swap)
  moreover have "window_plane_height [tiny_window] 0 = 1" by (simp add: window_plane_height_def tiny_window_def)
  moreover have "set_line_state 0 tiny_line state = state" using assms(3) by (cases state) (simp add: set_line_state_def)
  moreover have "ss_line_state state 0 = tiny_line" using assms(3) by (simp add: ss_line_state_def)
  ultimately show ?thesis
    by (simp add: encode_samples_def tiny_stream_fields tiny_geometry encode_plane_def mode)
qed

subsection \<open>The slice\<close>

definition tiny_state :: "u8 \<Rightarrow> slice_state" where
  "tiny_state s = new_slice_state\<lparr>ss_line_states := [tiny_line],
     ss_range_contexts := [[s # replicate 31 128], [128 # replicate 31 128]]\<rparr>"

lemma tiny_finish:
  assumes "re_reconfigure_contexts [1, 1] banks (header_encoder low rng 175) = Inr (content_encoder low rng s)"
    and "write_rac s True (content_encoder low rng s) = Inr (s', content_encoder low' rng' s)" and "length low < 100"
    and "re_finalize_closed (content_encoder low' rng' s') = Inr (payload, e)" and "length payload = 2"
    and "saved_or_initial_states [1, 1] [[], []] state = Inr banks" and "state = new_slice_state\<lparr>ss_line_states := [tiny_line], ss_range_contexts := cs\<rparr>"
  shows "\<exists>bytes. finish_range_slice tiny_stream kernels tiny_header [tiny_window] [[0]] state (header_encoder low rng 175) =
    Inr (bytes, tiny_state s') \<and> length bytes = 5"
proof -
  have counts: "slot_context_counts tiny_stream [0, 0] 2 = [1, 1]" "slot_initial_states tiny_stream [0, 0] 2 = [[], []]"
    by (simp_all add: slot_context_counts_def slot_initial_states_def slot_table_set_index_def tiny_stream_fields make_zero_quant_table_set_def numeral_2_eq_2)
  have "copy_context_banks (re_contexts (content_encoder low' rng' s')) = [[s' # replicate 31 128], [128 # replicate 31 128]]"
    by (simp add: copy_context_banks_def content_encoder_def numeral_2_eq_2)
  then have capture: "capture_encoder_contexts (content_encoder low' rng' s') state = Inr (tiny_state s')"
    by (simp add: capture_encoder_contexts_def re_copy_contexts_def assms(7) tiny_state_def new_slice_state_def)
      (simp add: content_encoder_def)
  have "ss_line_states state = [tiny_line]" by (simp add: assms(7))
  note samples = tiny_samples [OF assms(2,3) this, of kernels]
  have "\<exists>bytes. append_footer tiny_stream 0 payload = Inr bytes \<and> length bytes = 5"
    using assms(5) by (simp add: append_footer_def tiny_stream_fields maximum_slice_size_def Let_def)
  then show ?thesis
    using assms(1-6) samples
    by (auto simp: finish_range_slice_def tiny_stream_fields tiny_geometry tiny_header_def counts capture Let_def)
qed

lemma tiny_lines: "ss_reset_stream_window tiny_stream [tiny_window] state = Inr (state\<lparr>ss_line_states := [tiny_line]\<rparr>)"
  by (simp add: ss_reset_stream_window_def window_plane_count_def window_plane_width_def tiny_window_def plane_border_value_def
      tiny_stream_fields ls_reset_def tiny_line_def)

lemma fresh_context: "replicate 32 (128 :: u8) = 128 # replicate 31 128"
  by (simp add: numeral_eq_Suc)

lemma tiny_contexts:
  "initialize_encoder_contexts [1, 1] [[], []] kDefaultInitialState =
     Inr \<lparr>bank_offsets = [0, 1], bank_sizes = [1, 1], scalar_contexts = [128 # replicate 31 128, 128 # replicate 31 128]\<rparr>"
  "initialize_encoder_contexts [1, 1] [[s # replicate 31 128], [128 # replicate 31 128]] kDefaultInitialState =
     Inr \<lparr>bank_offsets = [0, 1], bank_sizes = [1, 1], scalar_contexts = [s # replicate 31 128, 128 # replicate 31 128]\<rparr>"
  by (simp_all add: initialize_encoder_contexts_def kMaxContextBankCount_def kMaxScalarContextCount_def size_max_def
      store_of_counts_def bank_contexts_def kScalarContextSize_def kDefaultInitialState_def fresh_context)

lemma tiny_reconfigured:
  "re_reconfigure_contexts [1, 1] [[], []] (header_encoder low rng s) = Inr (content_encoder low rng 128)"
  "re_reconfigure_contexts [1, 1] [[s' # replicate 31 128], [128 # replicate 31 128]] (header_encoder low rng s) = Inr (content_encoder low rng s')"
  unfolding re_reconfigure_contexts_def tiny_contexts
  by (simp_all add: re_usable_def) (simp_all add: header_encoder_def content_encoder_def new_range_encoder_def)

lemma tiny_closed:
  "\<exists>e. re_finalize_closed (content_encoder [254, 123, 0] 34048 s) = Inr ([254, 189], e)"
  "\<exists>e. re_finalize_closed (content_encoder [126, 245, 0] 35584 s) = Inr ([127, 58], e)"
proof -
  have "closing_delta 0 34048 = 16896" "closing_delta 0 35584 = 17664"
    by (simp_all add: closing_delta_def align_delta.simps Let_def)
  then show "\<exists>e. re_finalize_closed (content_encoder [254, 123, 0] 34048 s) = Inr ([254, 189], e)"
    "\<exists>e. re_finalize_closed (content_encoder [126, 245, 0] 35584 s) = Inr ([127, 58], e)"
    by (simp_all add: re_finalize_closed_def re_finalize_impl_def re_usable_def content_encoder_def new_range_encoder_def add_to_low_def Let_def)
qed

lemma tiny_racs:
  "write_rac 128 True (content_encoder [253, 246] 266 128) = Inr (134, content_encoder [254, 123, 0] 34048 128)"
  "write_rac 134 True (content_encoder [126, 118] 266 134) = Inr (140, content_encoder [126, 245, 0] 35584 134)"
  by (simp_all add: write_rac_def content_encoder_def new_range_encoder_def add_to_low_def range_one_state_def default_transitions
      byte_vector_max_size_def Let_def)

lemma tiny_slices:
  "\<exists>bytes. encode_grid_slice tiny_stream kernels tiny_frame [[0]] True new_slice_state 0 = Inr (bytes, tiny_state 134) \<and> length bytes = 5"
  "\<exists>bytes. encode_grid_slice tiny_stream kernels tiny_frame [[0]] False (tiny_state 134) 0 = Inr (bytes, tiny_state 140) \<and> length bytes = 5"
proof -
  from tiny_raster obtain sl where raster: "apply_raster tiny_stream tiny_header new_slice_descriptor = Inr sl"
    and window: "validate_input_window tiny_stream tiny_frame sl = Inr [tiny_window]" .
  have valid: "validate_encoder_stream tiny_stream = Inr ()"
    by (simp add: validate_encoder_stream_def tiny_stream_fields is_supported_syntax_colorspace_def is_supported_encoder_bit_depth_def
        has_invalid_rgb_geometry_def has_subsampling_without_chroma_def is_supported_chroma_subsampling_def make_zero_quant_table_set_def Let_def)
  have slice: "encode_grid_slice tiny_stream kernels tiny_frame [[0]] keyframe state 0 =
      bind_result (reference_state tiny_stream keyframe state) (\<lambda>state.
      bind_result (encode_slice_prefix tiny_stream tiny_header True keyframe)
        (finish_range_slice tiny_stream kernels tiny_header [tiny_window] [[0]] (state\<lparr>ss_line_states := [tiny_line]\<rparr>)))" for keyframe state
    by (simp add: encode_grid_slice_def encode_slice_def tiny_grid_header valid tiny_stream_fields tiny_validates raster window tiny_lines)
  have starts: "reference_state tiny_stream True new_slice_state = Inr (new_slice_state\<lparr>ss_range_contexts := []\<rparr>)"
    "ss_range_contexts state \<noteq> [] \<Longrightarrow> reference_state tiny_stream False state = Inr state" for state
    by (simp_all add: reference_state_def clear_entropy_state_def new_slice_state_def tiny_state_def has_range_contexts_def tiny_stream_fields)
  from tiny_closed [of 134] obtain e where "re_finalize_closed (content_encoder [254, 123, 0] 34048 134) = Inr ([254, 189], e)" by blast
  from tiny_finish [OF tiny_reconfigured(1) tiny_racs(1) _ this _ _ refl, of "[]" kernels]
  show "\<exists>bytes. encode_grid_slice tiny_stream kernels tiny_frame [[0]] True new_slice_state 0 = Inr (bytes, tiny_state 134) \<and> length bytes = 5"
    by (simp add: slice starts(1) [unfolded new_slice_state_def] tiny_prefix saved_or_initial_states_def has_range_contexts_def new_slice_state_def)
  from tiny_closed [of 140] obtain e where "re_finalize_closed (content_encoder [126, 245, 0] 35584 140) = Inr ([127, 58], e)" by blast
  from tiny_finish [OF tiny_reconfigured(2) tiny_racs(2) _ this _ _ refl, of "[[134 # replicate 31 128], [128 # replicate 31 128]]" kernels]
  show "\<exists>bytes. encode_grid_slice tiny_stream kernels tiny_frame [[0]] False (tiny_state 134) 0 = Inr (bytes, tiny_state 140) \<and> length bytes = 5"
    by (simp add: slice starts(2) tiny_prefix saved_or_initial_states_def has_range_contexts_def new_slice_state_def tiny_state_def upt_rec)
qed

subsection \<open>The session\<close>

definition tiny_encoder :: encoder where
  "tiny_encoder = \<lparr>en_options = tiny_options, en_stream = Some tiny_stream, en_executor = Some new_slice_encode_executor,
     en_next_frame_index = 0\<rparr>"

lemma tiny_slice_count:
  "eo_entropy_mode tiny_options = RangeMode" "unat (si_num_h_slices tiny_info) * unat (si_num_v_slices tiny_info) < 2 ^ 32"
  by (simp_all add: tiny_options_def new_encoder_options_def tiny_info_def new_stream_info_def)

lemma tiny_range_coded: "en_stream en = Some tiny_stream \<Longrightarrow> range_coded en"
  by (simp add: range_coded_def tiny_stream_fields tiny_geometry)

lemma tiny_configured:
  "\<exists>rec. encoder_configure tiny_info \<lparr>en_options = tiny_options, en_stream = None, en_executor = None, en_next_frame_index = 0\<rparr> =
     Inr (rec, tiny_encoder)"
proof -
  from encoder_profile_record [OF normalized_profile [OF tiny_normalizes]] obtain rec where
    "write_configuration_record tiny_stream = Inr rec" by blast
  then show ?thesis by (simp add: encoder_configure_def tiny_normalizes tiny_encoder_def)
qed

lemma tiny_planes: "fv_planes tiny_frame = Some [tiny_plane]" by (simp add: tiny_frame_def)

lemma tiny_frame_encoded:
  assumes "encode_grid_slice tiny_stream kernels tiny_frame [[0]] keyframe state 0 = Inr (bytes, state')" and "length bytes = 5"
    and "en_stream en = Some tiny_stream" and "en_executor en = Some ee" and "next_is_keyframe en = keyframe"
    and "encoder_starting_states tiny_stream ee 1 keyframe = Inr [state]"
  shows "encoder_encode_frame kernels hw tiny_frame [[0]] en =
      Inr (bytes, en\<lparr>en_executor := Some \<lparr>ee_slice_states = [state'], ee_slice_layouts = [(0, 0, 1, 1)]\<rparr>,
                     en_next_frame_index := en_next_frame_index en + 1\<rparr>)"
    and "picture_fits kernels tiny_frame [[0]] en"
proof -
  have layout: "encode_slice_layout tiny_stream 0 = (0, 0, 1, 1)"
    by (simp add: encode_slice_layout_def grid_cell_x_def grid_cell_y_def tiny_stream_fields)
  have "execute_encode tiny_stream kernels threads tiny_frame [[0]] keyframe ee =
      Inr (bytes, \<lparr>ee_slice_states = [state'], ee_slice_layouts = [(0, 0, 1, 1)]\<rparr>)" for threads
    using assms(1,2,6) unfolding execute_encode_def Let_def encode_results_serial
    by (simp add: tiny_validates tiny_geometry layout slice_vector_max_size_def status_vector_max_size_def append_slices_def size_max_def byte_vector_max_size_def collect_slices_def)
  then show "encoder_encode_frame kernels hw tiny_frame [[0]] en =
      Inr (bytes, en\<lparr>en_executor := Some \<lparr>ee_slice_states = [state'], ee_slice_layouts = [(0, 0, 1, 1)]\<rparr>,
                     en_next_frame_index := en_next_frame_index en + 1\<rparr>)"
    using assms(3-5) by (simp add: encoder_encode_frame_def)
  have "slice_prefix_size tiny_stream tiny_header True keyframe = 2"
    by (cases keyframe) (simp_all add: slice_prefix_size_def tiny_prefix re_byte_count_def header_encoder_def)
  then have "frame_complete tiny_stream kernels tiny_frame [[0]] keyframe ee"
    using assms(1,2,6) by (simp add: frame_complete_def tiny_geometry slice_complete_def tiny_grid_header)
  moreover have "frame_views tiny_frame [tiny_plane]" by (simp add: frame_views_def tiny_frame_def tiny_plane_def)
  ultimately show "picture_fits kernels tiny_frame [[0]] en"
    using assms(3-5) by (simp add: picture_fits_def tiny_stream_fields tiny_geometry tiny_planes)
qed

lemma tiny_output: "en_stream en = Some tiny_stream \<Longrightarrow> output_fits tiny_frame [[x]] [0] en"
  by (simp add: output_fits_def output_planes_ok_def output_plane_ok_def tiny_geometry frame_views_def tiny_planes)
    (simp add: tiny_frame_def tiny_plane_def tiny_stream_fields plane_bytes_def sample_format_for_bit_depth_def sample_bytes_cases)

lemma tiny_session:
  obtains payloads en where
    "encode_pictures kernels hw [(tiny_frame, [[0]]), (tiny_frame, [[0]])] tiny_encoder = Inr (payloads, en)"
    and "session_fits kernels hw [(tiny_frame, [[0]]), (tiny_frame, [[0]])] [([0], tiny_frame, [[9]]), ([0], tiny_frame, [[7]])] tiny_encoder"
proof -
  from tiny_slices [of kernels] obtain b1 b2 where
    one: "encode_grid_slice tiny_stream kernels tiny_frame [[0]] True new_slice_state 0 = Inr (b1, tiny_state 134)" "length b1 = 5" and
    two: "encode_grid_slice tiny_stream kernels tiny_frame [[0]] False (tiny_state 134) 0 = Inr (b2, tiny_state 140)" "length b2 = 5"
    by blast
  let ?ee = "\<lparr>ee_slice_states = [tiny_state 134], ee_slice_layouts = [(0, 0, 1, 1)]\<rparr>"
  let ?en = "tiny_encoder\<lparr>en_executor := Some ?ee, en_next_frame_index := 1\<rparr>"
  have first: "encoder_encode_frame kernels hw tiny_frame [[0]] tiny_encoder = Inr (b1, ?en)"
    "picture_fits kernels tiny_frame [[0]] tiny_encoder"
    using tiny_frame_encoded(1) [OF one, of tiny_encoder new_slice_encode_executor hw]
      tiny_frame_encoded(2) [OF one, of tiny_encoder new_slice_encode_executor]
    by (simp_all add: tiny_encoder_def next_is_keyframe_def encoder_starting_states_def)
  have layout: "encode_slice_layout tiny_stream 0 = (0, 0, 1, 1)"
    by (simp add: encode_slice_layout_def grid_cell_x_def grid_cell_y_def tiny_stream_fields)
  have later: "\<not> next_is_keyframe ?en" by (simp add: next_is_keyframe_def tiny_encoder_def tiny_options_def)
  have second: "\<exists>en'. encoder_encode_frame kernels hw tiny_frame [[0]] ?en = Inr (b2, en')"
    "picture_fits kernels tiny_frame [[0]] ?en"
    using tiny_frame_encoded(1) [OF two, of ?en ?ee hw] tiny_frame_encoded(2) [OF two, of ?en ?ee] later
    by (simp_all add: tiny_encoder_def encoder_starting_states_def tiny_stream_fields layout)
  then obtain en' where en': "encoder_encode_frame kernels hw tiny_frame [[0]] ?en = Inr (b2, en')" by blast
  have stream: "en_stream tiny_encoder = Some tiny_stream" "en_stream ?en = Some tiny_stream" by (simp_all add: tiny_encoder_def)
  show thesis
    by (rule that [of "[b1, b2]" en'])
      (simp_all add: first en' second(2) tiny_output [OF stream(1)] tiny_output [OF stream(2)])
qed

end
