(* ===== verification/Memory_Independence.thy ===== *)
theory Memory_Independence
  imports Window_Writes
begin

text \<open>
  Decoding a slice only writes to the output planes. Two runs of the decoder on planes of the same sizes return the same
  status, the same slice state, and have written the same bytes to the same places.
\<close>

subsection \<open>Two runs\<close>

text \<open>Every byte of a plane is left alone by both runs, or has the same value after both.\<close>

definition alike :: "frame_memory \<Rightarrow> frame_memory \<Rightarrow> frame_memory \<Rightarrow> frame_memory \<Rightarrow> bool" where
  "alike m1 m2 m1' m2' \<longleftrightarrow> map length m1' = map length m1 \<and> map length m2' = map length m2 \<and>
     (\<forall>p < length m1. \<forall>a. m1' ! p ! a = m2' ! p ! a \<or> m1' ! p ! a = m1 ! p ! a \<and> m2' ! p ! a = m2 ! p ! a)"

lemma alike_refl: "alike m1 m2 m1 m2"
  by (simp add: alike_def)

lemma alike_trans:
  assumes "alike m1 m2 n1 n2" and "alike n1 n2 m1' m2'"
  shows "alike m1 m2 m1' m2'"
proof -
  from assms(1) have "length n1 = length m1" by (metis alike_def length_map)
  with assms show ?thesis unfolding alike_def by metis
qed

lemma alike_shape: "alike m1 m2 m1' m2' \<Longrightarrow> map length m1 = map length m2 \<Longrightarrow> map length m1' = map length m2'"
  by (simp add: alike_def)

abbreviation same_run :: "('a \<Rightarrow> 'b \<Rightarrow> bool) \<Rightarrow> 'a result \<Rightarrow> 'b result \<Rightarrow> bool" where
  "same_run \<equiv> rel_sum (=)"

lemma same_run_bind:
  assumes "same_run R r1 r2" and "\<And>x y. R x y \<Longrightarrow> same_run S (f x) (g y)"
  shows "same_run S (bind_result r1 f) (bind_result r2 g)"
  using assms by (cases r1; cases r2) auto

lemma same_run_bind_eq:
  assumes "\<And>x. r = Inr x \<Longrightarrow> same_run S (f x) (g x)"
  shows "same_run S (bind_result r f) (bind_result r g)"
  using assms by (cases r) auto

abbreviation with_memory :: "frame_memory \<Rightarrow> frame_memory \<Rightarrow> 's \<times> frame_memory \<Rightarrow> 's \<times> frame_memory \<Rightarrow> bool" where
  "with_memory m1 m2 \<equiv> rel_prod (=) (alike m1 m2)"

text \<open>A loop body with a state, the memory and a reader.\<close>

definition blind :: "('s \<times> frame_memory \<Rightarrow> 'c \<Rightarrow> (('s \<times> frame_memory) \<times> 'c) result) \<Rightarrow> bool" where
  "blind f \<longleftrightarrow> (\<forall>s c m1 m2. map length m1 = map length m2 \<longrightarrow>
     same_run (rel_prod (with_memory m1 m2) (=)) (f (s, m1) c) (f (s, m2) c))"

lemma blindI:
  assumes "\<And>s c m1 m2. map length m1 = map length m2 \<Longrightarrow> same_run (rel_prod (with_memory m1 m2) (=)) (f (s, m1) c) (f (s, m2) c)"
  shows "blind f"
  using assms by (simp add: blind_def)

lemma blindD:
  "blind f \<Longrightarrow> map length m1 = map length m2 \<Longrightarrow> same_run (rel_prod (with_memory m1 m2) (=)) (f (s, m1) c) (f (s, m2) c)"
  by (simp add: blind_def)

lemma blind_bind:
  assumes "blind f" and "\<And>m1 m2. map length m1 = map length m2 \<Longrightarrow>
      (\<And>s c m1' m2'. alike m1 m2 m1' m2' \<Longrightarrow> map length m1' = map length m2' \<Longrightarrow>
        same_run (rel_prod (with_memory m1 m2) (=)) (g ((s, m1'), c)) (g ((s, m2'), c)))"
  shows "blind (\<lambda>sm c. bind_result (f sm c) g)"
proof (rule blindI)
  fix s c and m1 m2 :: frame_memory
  assume shape: "map length m1 = map length m2"
  show "same_run (rel_prod (with_memory m1 m2) (=)) (bind_result (f (s, m1) c) g) (bind_result (f (s, m2) c) g)"
    by (rule same_run_bind [OF blindD [OF assms(1) shape]])
      (auto intro!: assms(2) [OF shape] elim: alike_shape [OF _ shape])
qed

lemma loop_result_blind:
  assumes "\<And>x. x \<in> set xs \<Longrightarrow> blind (f x)"
  shows "blind (loop_result f xs)"
  using assms
proof (induction xs)
  case Nil
  then show ?case by (intro blindI) (simp add: alike_refl)
next
  case (Cons x xs)
  then have IH: "blind (loop_result f xs)" and one: "blind (f x)" by simp_all
  show ?case
  proof (rule blindI)
    fix s c and m1 m2 :: frame_memory
    assume shape: "map length m1 = map length m2"
    have "same_run (rel_prod (with_memory m1 m2) (=)) (loop_result f xs (s', n1) c') (loop_result f xs (s', n2) c')"
      if n: "alike m1 m2 n1 n2" for s' c' n1 n2
      using blindD [OF IH alike_shape [OF n shape], of s' c'] alike_trans [OF n] by (auto elim!: rel_sum.cases intro!: rel_sum.intros)
    then show "same_run (rel_prod (with_memory m1 m2) (=)) (loop_result f (x # xs) (s, m1) c) (loop_result f (x # xs) (s, m2) c)"
      by (simp only: loop_result.simps) (rule same_run_bind [OF blindD [OF one shape]], auto)
  qed
qed

subsection \<open>Stores\<close>

lemma update_alike:
  assumes "length xs = length ys"
  shows "xs[k := v] ! i = ys[k := v] ! i \<or> xs[k := v] ! i = xs ! i \<and> ys[k := v] ! i = ys ! i"
  using assms by (cases "k < length ys"; cases "i = k") (simp_all add: list_update_beyond)

lemma store_row_alike:
  assumes "length mem1 = length mem2"
  shows "store_row wide a w s mem1 ! i = store_row wide a w s mem2 ! i \<or>
    store_row wide a w s mem1 ! i = mem1 ! i \<and> store_row wide a w s mem2 ! i = mem2 ! i"
proof (induction w)
  case 0
  then show ?case by (simp add: store_row_def)
next
  case (Suc w)
  let ?s1 = "store_row wide a w s mem1" and ?s2 = "store_row wide a w s mem2"
  have len: "length ?s1 = length ?s2" using assms by simp
  show ?case
  proof (cases wide)
    case False
    with Suc update_alike [OF len, of "a + w" "ucast (s w)" i] show ?thesis by (auto simp: store_row_Suc)
  next
    case True
    have len': "length (?s1[a + w * 2 := ucast (s w)]) = length (?s2[a + w * 2 := ucast (s w)])" using len by simp
    from Suc update_alike [OF len, of "a + w * 2" "ucast (s w)" i]
      update_alike [OF len', of "a + w * 2 + 1" "ucast (drop_bit 8 (s w))" i] True
    show ?thesis by (auto simp: store_row_Suc store_u16_def)
  qed
qed

lemma store_plane_row_alike:
  assumes "map length m1 = map length m2"
  shows "alike m1 m2 (store_plane_row stream p row w s m1) (store_plane_row stream p row w s m2)"
proof -
  let ?n1 = "store_plane_row stream p row w s m1" and ?n2 = "store_plane_row stream p row w s m2"
  have len: "length m1 = length m2" using assms by (rule map_eq_imp_length_eq)
  have "length (m1 ! q) = length (m2 ! q)" if "q < length m1" for q using assms that len by (metis nth_map)
  then have "?n1 ! q ! a = ?n2 ! q ! a \<or> ?n1 ! q ! a = m1 ! q ! a \<and> ?n2 ! q ! a = m2 ! q ! a" if "q < length m1" for q a
    using store_row_alike [of "m1 ! p" "m2 ! p"] len that by (cases "q = p") (auto simp: store_plane_row_def)
  moreover have "map length (store_plane_row stream p row w s m) = map length m" for m
    unfolding store_plane_row_def map_update by (simp only: length_store_row) (simp add: map_update [symmetric] list_update_id)
  ultimately show ?thesis by (simp add: alike_def)
qed

lemma store_planar_line_alike:
  assumes "map length m1 = map length m2"
  shows "same_run (with_memory m1 m2) (store_planar_line stream ws p y line m1) (store_planar_line stream ws p y line m2)"
  unfolding store_planar_line_def by (rule same_run_bind_eq) (simp add: store_plane_row_alike [OF assms])

lemma store_rgb_line_alike:
  assumes "map length m1 = map length m2"
  shows "same_run (with_memory m1 m2) (store_rgb_line stream kernels ws y state m1) (store_rgb_line stream kernels ws y state m2)"
proof -
  obtain r g b where rgb: "inverse_color_transform_row kernels (ls_current (ss_line_state state 0))
      (ls_current (ss_line_state state 1)) (ls_current (ss_line_state state 2)) (unat (window_plane_width ws 0))
      (sp_bits_per_raw_sample stream) (sp_extra_plane stream) = (r, g, b)" by (metis prod_cases3)
  have next': "alike m1 m2 (store_plane_row stream p row w s n1) (store_plane_row stream p row w s n2)"
    if "alike m1 m2 n1 n2" for n1 n2 p row w s
    by (rule alike_trans [OF that store_plane_row_alike [OF alike_shape [OF that assms]]])
  show ?thesis
    unfolding store_rgb_line_def rgb Let_def prod.case
    by (rule same_run_bind_eq) (simp add: next' alike_refl)
qed

subsection \<open>Rows and planes\<close>

lemma decode_planar_row_blind: "blind (decode_planar_row off stream t b ws p y)"
  unfolding decode_planar_row_def
  by (intro blindI) (auto intro!: same_run_bind_eq same_run_bind [OF store_planar_line_alike] split: prod.split)

lemma decode_plane_blind: "blind (decode_plane off stream models banks ws p)"
proof (rule blindI)
  fix state c and m1 m2 :: frame_memory
  assume shape: "map length m1 = map length m2"
  show "same_run (rel_prod (with_memory m1 m2) (=)) (decode_plane off stream models banks ws p (state, m1) c)
      (decode_plane off stream models banks ws p (state, m2) c)"
    unfolding decode_plane_def prod.case
    by (rule same_run_bind [OF blindD [OF loop_result_blind [OF decode_planar_row_blind] shape]]) auto
qed

lemma decode_legacy_row_blind: "blind (decode_legacy_row off stream models banks ws y)"
  unfolding decode_legacy_row_def
proof (rule loop_result_blind, rule blindI)
  fix p state c and m1 m2 :: frame_memory
  assume shape: "map length m1 = map length m2"
  show "same_run (rel_prod (with_memory m1 m2) (=)) (decode_legacy_plane_row off stream models banks ws y p (state, m1) c)
      (decode_legacy_plane_row off stream models banks ws y p (state, m2) c)"
  proof (cases "unat (window_plane_height ws p) \<le> y")
    case True
    then show ?thesis by (simp add: decode_legacy_plane_row_def alike_refl)
  next
    case False
    show ?thesis
      unfolding decode_legacy_plane_row_def prod.case if_not_P [OF False]
      by (rule same_run_bind [OF blindD [OF decode_planar_row_blind shape]]) auto
  qed
qed

lemma decode_rgb_row_blind: "blind (decode_rgb_row off stream kernels models banks ws y)"
  unfolding decode_rgb_row_def
  by (intro blindI) (auto intro!: same_run_bind_eq same_run_bind [OF store_rgb_line_alike] split: prod.split)

lemma decode_range_samples_blind: "blind (decode_range_samples off stream kernels models banks ws)"
  unfolding decode_range_samples_def
  by (simp add: loop_result_blind decode_rgb_row_blind decode_legacy_row_blind decode_plane_blind)

lemma decode_golomb_planar_row_blind: "blind (decode_golomb_planar_row stream off models banks ws p y)"
  unfolding decode_golomb_planar_row_def
  by (intro blindI) (auto intro!: same_run_bind_eq same_run_bind [OF store_planar_line_alike] split: prod.split)

lemma decode_golomb_plane_blind: "blind (decode_golomb_plane stream off models banks ws p)"
proof (rule blindI)
  fix state c and m1 m2 :: frame_memory
  assume shape: "map length m1 = map length m2"
  show "same_run (rel_prod (with_memory m1 m2) (=)) (decode_golomb_plane stream off models banks ws p (state, m1) c)
      (decode_golomb_plane stream off models banks ws p (state, m2) c)"
    unfolding decode_golomb_plane_def
    by (rule same_run_bind [OF blindD [OF loop_result_blind [OF decode_golomb_planar_row_blind] shape]]) auto
qed

lemma decode_golomb_rgb_row_blind: "blind (decode_golomb_rgb_row stream kernels off models banks ws y)"
  unfolding decode_golomb_rgb_row_def
  by (intro blindI) (auto intro!: same_run_bind_eq same_run_bind [OF store_rgb_line_alike] split: prod.split)

lemma decode_golomb_planes_blind: "blind (decode_golomb_planes stream kernels off models banks ws)"
proof (cases "sp_colorspace_type stream = 1")
  case True
  show ?thesis
  proof (rule blindI)
    fix state c and m1 m2 :: frame_memory
    assume shape: "map length m1 = map length m2"
    show "same_run (rel_prod (with_memory m1 m2) (=)) (decode_golomb_planes stream kernels off models banks ws (state, m1) c)
        (decode_golomb_planes stream kernels off models banks ws (state, m2) c)"
      unfolding decode_golomb_planes_def if_P [OF True]
      by (rule same_run_bind [OF blindD [OF loop_result_blind [OF decode_golomb_rgb_row_blind] shape]]) auto
  qed
next
  case False
  have "decode_golomb_planes stream kernels off models banks ws =
      loop_result (decode_golomb_plane stream off models banks ws) [0..<window_plane_count ws]"
    by (intro ext) (simp add: decode_golomb_planes_def False)
  then show ?thesis by (simp add: loop_result_blind decode_golomb_plane_blind)
qed

subsection \<open>A slice\<close>

lemma decode_golomb_rice_slice_alike:
  assumes "map length m1 = map length m2"
  shows "same_run (with_memory m1 m2)
    (decode_golomb_rice_slice stream kernels payload off bits models banks counts ws allow (state, m1))
    (decode_golomb_rice_slice stream kernels payload off bits models banks counts ws allow (state, m2))"
  unfolding decode_golomb_rice_slice_def prod.case Let_def
  by (auto intro!: same_run_bind_eq same_run_bind [OF blindD [OF decode_golomb_planes_blind assms]])

lemma decode_slice_alike:
  assumes "map length m1 = map length m2"
  shows "same_run (with_memory m1 m2) (decode_slice stream kernels allow sl ws (state, m1)) (decode_slice stream kernels allow sl ws (state, m2))"
proof (cases "sp_entropy_mode stream = GolombRiceMode")
  case True
  show ?thesis
    unfolding decode_slice_def prod.case Let_def if_P [OF True]
    by (intro same_run_bind_eq decode_golomb_rice_slice_alike assms)
next
  case False
  show ?thesis
    unfolding decode_slice_def prod.case Let_def if_not_P [OF False]
    by (auto intro!: same_run_bind_eq same_run_bind [OF blindD [OF decode_range_samples_blind assms]] split: prod.split)
qed

text \<open>The planes keep their sizes.\<close>

lemma decode_slice_shape:
  assumes "decode_slice stream kernels allow sl ws (state, m) = Inr (state', m')"
  shows "map length m' = map length m"
  using decode_slice_alike [of m m stream kernels allow sl ws state] assms by (simp add: alike_def)

end
