(* ===== verification/Temporary_Frames.thy ===== *)
theory Temporary_Frames
  imports Memory_Independence
begin

text \<open>
  A slice in the executor: decoded straight into the windows of the output, or into planes of its own that are copied
  into the windows when an attempt has succeeded. Either way it writes into its windows only, and what it writes does
  not depend on what is there.
\<close>

subsection \<open>Windows in memory\<close>

definition rows_within :: "plane_window list \<Rightarrow> frame_memory \<Rightarrow> bool" where
  "rows_within ws m \<longleftrightarrow> length ws \<le> length m \<and>
     (\<forall>p < length ws. pw_width (ws ! p) \<noteq> 0 \<longrightarrow>
        (\<forall>y < unat (pw_height (ws ! p)). row_address (ws ! p) y + unat (pw_width (ws ! p)) * sample_bytes (pw_sample_format (ws ! p))
           \<le> length (m ! p)))"

lemma rows_within_shape:
  assumes "map length m = map length m'"
  shows "rows_within ws m = rows_within ws m'"
proof -
  have len: "length m = length m'" using assms by (rule map_eq_imp_length_eq)
  have "length (m ! p) = length (m' ! p)" if "p < length m" for p using assms that len by (metis nth_map)
  with len show ?thesis by (auto simp: rows_within_def)
qed

lemma keeps_shape: "keeps_outside ws m m' \<Longrightarrow> map length m' = map length m"
  by (intro nth_equalityI) (simp_all add: keeps_outside_def)

subsection \<open>Writers\<close>

text \<open>An operation on the memory that writes into windows without looking.\<close>

definition writer_into :: "plane_window list \<Rightarrow> (frame_memory \<Rightarrow> frame_memory result) \<Rightarrow> bool" where
  "writer_into ws f \<longleftrightarrow> (\<forall>m1 m2. map length m1 = map length m2 \<longrightarrow> rows_within ws m1 \<longrightarrow>
     same_run (\<lambda>n1 n2. alike m1 m2 n1 n2 \<and> keeps_outside ws m1 n1 \<and> keeps_outside ws m2 n2) (f m1) (f m2))"

lemma writer_intoD:
  assumes "writer_into ws f" and "map length m1 = map length m2" and "rows_within ws m1"
  shows "same_run (\<lambda>n1 n2. alike m1 m2 n1 n2 \<and> keeps_outside ws m1 n1 \<and> keeps_outside ws m2 n2) (f m1) (f m2)"
  using assms by (simp add: writer_into_def)

lemma fold_writer:
  assumes "\<And>x. x \<in> set xs \<Longrightarrow> writer_into ws (f x)"
  shows "writer_into ws (fold_result f xs)"
  using assms
proof (induction xs)
  case Nil
  then show ?case by (simp add: writer_into_def alike_refl keeps_refl)
next
  case (Cons x xs)
  then have one: "writer_into ws (f x)" and IH: "writer_into ws (fold_result f xs)" by simp_all
  show ?case unfolding writer_into_def
  proof (intro allI impI)
    fix m1 m2 :: frame_memory
    assume shape: "map length m1 = map length m2" and rows: "rows_within ws m1"
    have "same_run (\<lambda>n1 n2. alike m1 m2 n1 n2 \<and> keeps_outside ws m1 n1 \<and> keeps_outside ws m2 n2) (fold_result f xs k1) (fold_result f xs k2)"
      if k: "alike m1 m2 k1 k2 \<and> keeps_outside ws m1 k1 \<and> keeps_outside ws m2 k2" for k1 k2
    proof -
      have "rows_within ws k1" using rows rows_within_shape [OF keeps_shape, of ws m1 k1] k by simp
      from writer_intoD [OF IH alike_shape [OF _ shape] this] k
      have "same_run (\<lambda>n1 n2. alike k1 k2 n1 n2 \<and> keeps_outside ws k1 n1 \<and> keeps_outside ws k2 n2) (fold_result f xs k1) (fold_result f xs k2)"
        by blast
      then show ?thesis
        using k by (auto elim!: rel_sum.cases intro!: rel_sum.intros intro: alike_trans keeps_trans)
    qed
    then show "same_run (\<lambda>n1 n2. alike m1 m2 n1 n2 \<and> keeps_outside ws m1 n1 \<and> keeps_outside ws m2 n2)
        (fold_result f (x # xs) m1) (fold_result f (x # xs) m2)"
      by (simp only: fold_result.simps) (rule same_run_bind [OF writer_intoD [OF one shape rows]])
  qed
qed

subsection \<open>Copying\<close>

lemma copy_bytes_nth:
  assumes "destination + n \<le> length mem" and "source + n \<le> length smem"
  shows "length (copy_bytes source destination n smem mem) = length mem"
    and "copy_bytes source destination n smem mem ! a =
      (if destination \<le> a \<and> a < destination + n then smem ! (source + (a - destination)) else mem ! a)"
proof -
  have take_n: "length (take n (drop source smem)) = n" "length (take destination mem) = destination" using assms by simp_all
  show "length (copy_bytes source destination n smem mem) = length mem"
    using assms(1) take_n by (simp add: copy_bytes_def)
  consider "a < destination" | "destination \<le> a" "a < destination + n" | "destination + n \<le> a" by linarith
  then show "copy_bytes source destination n smem mem ! a =
      (if destination \<le> a \<and> a < destination + n then smem ! (source + (a - destination)) else mem ! a)"
  proof cases
    case 1
    then show ?thesis using take_n by (simp add: copy_bytes_def nth_append)
  next
    case 2
    then have "a - destination < n" by linarith
    with 2 show ?thesis using take_n assms by (simp add: copy_bytes_def nth_append)
  next
    case 3
    have "(xs @ ys @ zs) ! a = zs ! (a - (length xs + length ys))" if "length xs + length ys \<le> a" for xs ys zs :: bytes
      unfolding append_assoc [symmetric] using that by (subst nth_append) simp
    from this [of "take destination mem" "take n (drop source smem)" "drop (destination + n) mem"] 3
    have "copy_bytes source destination n smem mem ! a = drop (destination + n) mem ! (a - (destination + n))"
      by (simp only: copy_bytes_def take_n)
    also have "\<dots> = mem ! a" using 3 assms(1) by simp
    finally show ?thesis using 3 by simp
  qed
qed

text \<open>One row: the bytes of the source, at the addresses of a row of the window.\<close>

lemma row_copied:
  assumes row: "copy_row source smem ws p y m = Inr m'" and same: "window_plane_width source p = window_plane_width ws p"
  shows "m' = m[p := copy_bytes (row_address (source ! p) y) (row_address (ws ! p) y)
      (unat (pw_width (ws ! p)) * sample_bytes (pw_sample_format (ws ! p))) (smem ! p) (m ! p)]"
    and "p < length ws" and "y < unat (pw_height (ws ! p))" and "p < length source" and "y < unat (pw_height (source ! p))"
    and "pw_sample_format (source ! p) = pw_sample_format (ws ! p)" and "pw_width (source ! p) = pw_width (ws ! p)"
  using assms
  by (auto simp: copy_row_def row_u8_def row_u16_def window_row_def window_plane_width_def sample_bytes_cases mult.commute Let_def not_le
      split: option.splits if_splits)

lemma copy_row_writer:
  assumes rows: "rows_within source smem" and same: "window_plane_width source p = window_plane_width ws p"
  shows "writer_into ws (copy_row source smem ws p y)"
  unfolding writer_into_def
proof (intro allI impI)
  fix m1 m2 :: frame_memory
  assume shape: "map length m1 = map length m2" and within: "rows_within ws m1"
  show "same_run (\<lambda>n1 n2. alike m1 m2 n1 n2 \<and> keeps_outside ws m1 n1 \<and> keeps_outside ws m2 n2)
      (copy_row source smem ws p y m1) (copy_row source smem ws p y m2)"
  proof (cases "copy_row source smem ws p y m1")
    case (Inl e)
    then have "copy_row source smem ws p y m2 = Inl e" by (auto simp: copy_row_def Let_def split: option.splits)
    with Inl show ?thesis by simp
  next
    case (Inr n1)
    then obtain n2 where n2: "copy_row source smem ws p y m2 = Inr n2" by (auto simp: copy_row_def Let_def split: option.splits)
    note c1 = row_copied [OF Inr same] and c2 = row_copied [OF n2 same]
    let ?w = "unat (pw_width (ws ! p)) * sample_bytes (pw_sample_format (ws ! p))"
    let ?dst = "row_address (ws ! p) y"
    have eq: "map length m2 = map length m1" using shape by simp
    let ?copied = "\<lambda>m. m[p := copy_bytes (row_address (source ! p) y) ?dst ?w (smem ! p) (m ! p)]"
    have at: "map length (?copied m) = map length m \<and> (\<forall>q < length m. \<forall>a. ?copied m ! q ! a =
        (if q = p \<and> ?dst \<le> a \<and> a < ?dst + ?w then smem ! p ! (row_address (source ! p) y + (a - ?dst)) else m ! q ! a))"
      if m: "map length m = map length m1" for m
    proof -
      have m_within: "rows_within ws m" using within rows_within_shape [OF m] by simp
      then have p: "p < length m" using c1(2) by (simp add: rows_within_def)
      have lens: "?dst + ?w \<le> length (m ! p) \<and> row_address (source ! p) y + ?w \<le> length (smem ! p) \<or> ?w = 0"
        using m_within rows c1(2-7) by (auto simp: rows_within_def)
      have "length (copy_bytes (row_address (source ! p) y) ?dst ?w (smem ! p) (m ! p)) = length (m ! p) \<and>
          (\<forall>a. copy_bytes (row_address (source ! p) y) ?dst ?w (smem ! p) (m ! p) ! a =
            (if ?dst \<le> a \<and> a < ?dst + ?w then smem ! p ! (row_address (source ! p) y + (a - ?dst)) else m ! p ! a))"
        using lens
      proof
        assume "?w = 0"
        then show ?thesis by (simp only: copy_bytes_def) auto
      qed (simp add: copy_bytes_nth)
      moreover have "map length (m[p := bs]) = map length m" if "length bs = length (m ! p)" for bs
        using that by (simp add: map_update) (metis list_update_id map_update)
      ultimately show ?thesis using p by (auto simp: nth_list_update)
    qed
    have kept: "keeps_outside ws m (?copied m)" if m: "map length m = map length m1" for m
    proof -
      have "\<not> (?dst \<le> a \<and> a < ?dst + ?w)" if "\<not> in_window ws p a" for a
        using that c1(2,3) by (auto simp: in_window_def)
      moreover have "length (?copied m ! q) = length (m ! q)" if "q < length m" for q
        using at [OF m] that by (metis length_list_update nth_map)
      ultimately show ?thesis using at [OF m] by (auto simp: keeps_outside_def)
    qed
    have len: "length m1 = length m2" using shape by (rule map_eq_imp_length_eq)
    have "alike m1 m2 n1 n2"
      unfolding alike_def c1(1) c2(1) using at [OF refl] at [OF eq] len by auto
    moreover have "keeps_outside ws m1 n1" "keeps_outside ws m2 n2" unfolding c1(1) c2(1) using kept eq by auto
    ultimately show ?thesis unfolding Inr n2 by simp
  qed
qed

lemma writer_guard:
  "(\<not> c \<Longrightarrow> writer_into ws f) \<Longrightarrow> writer_into ws (\<lambda>m. if c then Inl e else f m)"
  by (simp add: writer_into_def)

lemma copy_plane_writer: "rows_within source smem \<Longrightarrow> writer_into ws (copy_plane source smem ws p)"
  unfolding copy_plane_def [abs_def] by (intro writer_guard fold_writer copy_row_writer) auto

lemma copy_slice_writer: "rows_within source smem \<Longrightarrow> writer_into ws (copy_decoded_slice source smem ws)"
  unfolding copy_decoded_slice_def [abs_def] by (intro writer_guard fold_writer copy_plane_writer)

subsection \<open>Temporary planes\<close>

lemma temporary_planes_nth:
  assumes "temporary_planes output window is = Inr planes"
  shows "length planes = length is \<and> (\<forall>k < length is. temporary_plane output window (is ! k) = Inr (planes ! k))"
  using assms
proof (induction "is" arbitrary: planes)
  case Nil
  then show ?case by simp
next
  case (Cons i "is")
  then obtain one rest where "temporary_plane output window i = Inr one" "temporary_planes output window is = Inr rest" "planes = one # rest"
    by auto
  with Cons.IH show ?case by (auto simp: nth_Cons split: nat.splits)
qed

lemma temporary_window:
  assumes plane: "temporary_plane output window i = Inr (view, mem)" and win: "contiguous_plane_window k view = Inr w"
    and y: "y < unat (pw_height w)"
  shows "row_address w y + unat (pw_width w) * sample_bytes (pw_sample_format w) \<le> length mem"
proof -
  let ?info = "pv_info (the (fv_planes output) ! i)"
  let ?w = "window_plane_width window i" and ?h = "window_plane_height window i"
  let ?n = "(if pi_sample_format ?info = UInt16 then ucast ?w * 2 else ucast ?w) :: u64"
  have fits: "\<not> (?h \<noteq> 0 \<and> (2 ^ 64 - 1) div ucast ?h < ?n)" and
    view: "view = \<lparr>pv_data = Some 0, pv_info = ?info\<lparr>pi_width := ?w, pi_height := ?h, pi_stride_bytes := uint ?n\<rparr>\<rparr>" and
    mem: "mem = replicate (unat (?n * ucast ?h)) 0"
    using plane by (auto simp: temporary_plane_def Let_def split: if_splits)
  have "?n = ucast ?w * ucast (bytes_per_sample (pi_sample_format ?info))"
    by (cases "pi_sample_format ?info") (simp_all add: bytes_per_sample_def)
  then have n: "unat ?n = unat ?w * sample_bytes (pi_sample_format ?info)" by (simp only: unat_column)
  have small: "unat ?n < 2 ^ 63"
  proof -
    have "unat ?w * sample_bytes (pi_sample_format ?info) \<le> 2 ^ 32 * 2"
      using unat_bound [of ?w] sample_bytes_bounds(2) [of "pi_sample_format ?info"] by (intro mult_le_mono) simp_all
    then show ?thesis unfolding n by simp
  qed
  have "uint x < 2 ^ 63" if "unat x < 2 ^ 63" for x :: u64
    using that by (metis uint_nat of_nat_less_iff of_nat_numeral of_nat_power)
  from this [OF small] have stride: "0 \<le> uint ?n" "uint ?n < 2 ^ 63" by (simp_all only: uint_0_iff unsigned_greater_eq)
  have total: "unat ?n * unat ?h \<le> 2 ^ 64 - 1"
  proof (cases "?h = 0")
    case False
    with fits have "?n \<le> (2 ^ 64 - 1) div ucast ?h" by (auto simp: not_less)
    then have "unat ?n \<le> (2 ^ 64 - 1) div unat ?h" by (simp add: word_le_nat_alt unat_div)
    then have "unat ?n * unat ?h \<le> (2 ^ 64 - 1) div unat ?h * unat ?h" by (rule mult_le_mono1)
    also have "\<dots> \<le> 2 ^ 64 - 1" by simp
    finally show ?thesis .
  qed simp
  have "unat (?n * ucast ?h) = unat ?n * unat ?h"
    by (rule unat_mult_bounded [THEN trans]) (use total in \<open>simp_all\<close>)
  then have len: "length mem = unat ?h * unat ?n" by (simp add: mem mult.commute)
  from win view obtain off where off: "checked_plane_window_offset (?info\<lparr>pi_width := ?w, pi_height := ?h, pi_stride_bytes := uint ?n\<rparr>) 0 0 ?w ?h = Inr off"
    and w: "w = \<lparr>pw_data = nat (int 0 + off), pw_stride_bytes = uint ?n, pw_width = ?w, pw_height = ?h, pw_sample_format = pi_sample_format ?info\<rparr>"
    by (auto simp: contiguous_plane_window_def Let_def split: if_splits)
  have "nat (int 0 + off) = sample_address (?info\<lparr>pi_width := ?w, pi_height := ?h, pi_stride_bytes := uint ?n\<rparr>) 0 (unat (0 :: u32)) (unat (0 :: u32))"
    by (rule checked_offset_exact(1) [OF off]) (use stride in simp_all)
  then have data: "nat (int 0 + off) = 0" by (simp add: sample_address_def)
  have "pw_data w = 0" unfolding w using data by simp
  moreover have "pw_stride_bytes w = int (unat ?n)" unfolding w by (simp only: plane_window.select_convs) (rule uint_nat)
  ultimately have "row_address w y = y * unat ?n"
    unfolding row_address_def by (simp only: of_nat_0 add_0 of_nat_mult [symmetric] nat_int)
  then have "row_address w y + unat ?n = (y + 1) * unat ?n" by simp
  also have "\<dots> \<le> unat ?h * unat ?n" using y by (intro mult_le_mono1) (simp add: w)
  finally show ?thesis unfolding len n w by simp
qed

lemma temporary_frame_rows:
  assumes frame: "make_temporary_frame window output = Inr (temporary, storage)"
    and win: "reset_to_contiguous_frame temporary = Inr tws"
  shows "rows_within tws storage"
proof -
  from frame obtain planes where planes: "temporary_planes output window [0..<window_plane_count window] = Inr planes"
    and temporary: "temporary = \<lparr>fv_planes = Some (map fst planes), fv_plane_count = length planes\<rparr>" and storage: "storage = map snd planes"
    by (auto simp: make_temporary_frame_def)
  note nth = temporary_planes_nth [OF planes]
  from win have "plane_windows contiguous_plane_window 0 (map fst planes) = Inr tws"
    by (simp add: reset_to_contiguous_frame_def temporary)
  note windows = plane_windows_nth [OF this]
  have "row_address (tws ! p) y + unat (pw_width (tws ! p)) * sample_bytes (pw_sample_format (tws ! p)) \<le> length (storage ! p)"
    if p: "p < length tws" and y: "y < unat (pw_height (tws ! p))" for p y
  proof -
    have len: "p < length planes" using windows p by simp
    have "temporary_plane output window ([0..<window_plane_count window] ! p) = Inr (fst (planes ! p), snd (planes ! p))"
      using nth len by simp
    from temporary_window [OF this _ y, of "0 + p"] windows len show ?thesis by (simp add: storage)
  qed
  then show ?thesis using windows by (simp add: rows_within_def storage)
qed

subsection \<open>A slice\<close>

lemma try_candidates_writer:
  assumes "rows_within tws storage"
  shows "map length m1 = map length m2 \<Longrightarrow> rows_within ws m1 \<Longrightarrow>
    same_run (\<lambda>(s1, n1) (s2, n2). s1 = s2 \<and> alike m1 m2 n1 n2 \<and> keeps_outside ws m1 n1 \<and> keeps_outside ws m2 n2)
      (try_candidates stream kernels tws storage ws candidates first (state, m1))
      (try_candidates stream kernels tws storage ws candidates first (state, m2))"
proof (induction candidates arbitrary: first)
  case Nil
  then show ?case by simp
next
  case (Cons candidate candidates)
  show ?case
  proof (cases "decode_slice stream kernels True candidate tws (state, storage)")
    case (Inl e)
    with Cons show ?thesis by simp
  next
    case (Inr r)
    then obtain s decoded where dec: "decode_slice stream kernels True candidate tws (state, storage) = Inr (s, decoded)" by (cases r) simp
    from rows_within_shape [OF decode_slice_shape [OF dec]] assms have "rows_within tws decoded" by blast
    from writer_intoD [OF copy_slice_writer [OF this] Cons.prems] show ?thesis
      by (simp only: try_candidates.simps dec sum.case prod.case) (rule same_run_bind, assumption, simp)
  qed
qed

text \<open>What a slice needs of the output: its windows lie in the planes, and have the same shape for RGB.\<close>

definition slice_output_ok :: "stream_parameters \<Rightarrow> frame_view \<Rightarrow> slice_descriptor \<Rightarrow> frame_memory \<Rightarrow> bool" where
  "slice_output_ok stream output sl m \<longleftrightarrow>
     (\<forall>ws. validate_output_window stream output sl = Inr ws \<longrightarrow>
        rows_within ws m \<and> (sp_colorspace_type stream = 1 \<longrightarrow> rgb_windows stream ws))"

definition slice_keeps :: "stream_parameters \<Rightarrow> frame_view \<Rightarrow> slice_descriptor \<Rightarrow> frame_memory \<Rightarrow> frame_memory \<Rightarrow> bool" where
  "slice_keeps stream output sl m m' \<longleftrightarrow>
     (\<exists>ws. validate_output_window stream output sl = Inr ws \<and> keeps_outside ws m m')"

lemma execute_slice_alike:
  assumes shape: "map length m1 = map length m2" and ok: "slice_output_ok stream output sl m1"
  shows "same_run (\<lambda>(s1, n1) (s2, n2). s1 = s2 \<and> alike m1 m2 n1 n2 \<and> slice_keeps stream output sl m1 n1 \<and> slice_keeps stream output sl m2 n2)
    (execute_slice stream kernels output sl (state, m1)) (execute_slice stream kernels output sl (state, m2))"
    (is "same_run ?R _ _")
proof -
  have direct: "same_run ?R (decode_slice stream kernels allow sl ws (s, m1)) (decode_slice stream kernels allow sl ws (s, m2))"
    if ws: "validate_output_window stream output sl = Inr ws" for ws s allow
  proof -
    from ok ws have rgb: "sp_colorspace_type stream = 1 \<longrightarrow> rgb_windows stream ws" by (simp add: slice_output_ok_def)
    have keeps: "decode_slice stream kernels allow sl ws (s, m) = Inr (s', n) \<Longrightarrow> slice_keeps stream output sl m n" for m s' n
      using decode_slice_keeps [OF _ rgb] ws by (auto simp: slice_keeps_def)
    show ?thesis
      using decode_slice_alike [OF shape, of stream kernels allow sl ws s] keeps
      by (cases "decode_slice stream kernels allow sl ws (s, m1)"; cases "decode_slice stream kernels allow sl ws (s, m2)") auto
  qed
  have copied: "same_run ?R (try_candidates stream kernels tws storage ws candidates first (s, m1))
      (try_candidates stream kernels tws storage ws candidates first (s, m2))"
    if ws: "validate_output_window stream output sl = Inr ws" and storage: "rows_within tws storage" for ws tws storage candidates first s
  proof -
    from ok ws have "rows_within ws m1" by (simp add: slice_output_ok_def)
    from try_candidates_writer [OF storage shape this, of stream kernels candidates first s] show ?thesis
      by (rule sum.rel_mono_strong) (use ws in \<open>auto simp: slice_keeps_def\<close>)
  qed
  show ?thesis
    unfolding execute_slice_def prod.case
    by (intro same_run_bind_eq) (auto intro!: direct copied same_run_bind_eq temporary_frame_rows)
qed

end
