(* ===== verification/Task_Order.thy ===== *)
theory Task_Order
  imports Temporary_Frames
begin

text \<open>
  The slices of a frame in any order. The windows of the slices do not meet and a slice does not look at the output, so
  that what a task returns and writes does not depend on the tasks that have run before it. Serial and parallel decoding
  return the same.
\<close>

subsection \<open>Separate outputs\<close>

definition outputs_apart :: "stream_parameters \<Rightarrow> frame_view \<Rightarrow> slice_descriptor list \<Rightarrow> bool" where
  "outputs_apart stream output sls \<longleftrightarrow>
     (\<forall>i < length sls. \<forall>j < length sls. i \<noteq> j \<longrightarrow>
        (\<forall>ws ws' p a. validate_output_window stream output (sls ! i) = Inr ws \<longrightarrow> validate_output_window stream output (sls ! j) = Inr ws' \<longrightarrow>
           in_window ws p a \<longrightarrow> \<not> in_window ws' p a))"

text \<open>The window bytes of a slice that has been executed alone.\<close>

definition written_by :: "stream_parameters \<Rightarrow> frame_view \<Rightarrow> slice_descriptor \<Rightarrow> nat \<Rightarrow> nat \<Rightarrow> bool" where
  "written_by stream output sl p a \<longleftrightarrow> (\<exists>ws. validate_output_window stream output sl = Inr ws \<and> in_window ws p a)"

lemma slice_keepsD:
  assumes "slice_keeps stream output sl m m'"
  shows "map length m' = map length m" and "p < length m \<Longrightarrow> \<not> written_by stream output sl p a \<Longrightarrow> m' ! p ! a = m ! p ! a"
  using assms keeps_shape by (auto simp: slice_keeps_def keeps_outside_def written_by_def)

lemma written_apart:
  assumes apart: "outputs_apart stream output sls" and ij: "i < length sls" "j < length sls" "i \<noteq> j"
    and i: "written_by stream output (sls ! i) p a"
  shows "\<not> written_by stream output (sls ! j) p a"
proof
  assume "written_by stream output (sls ! j) p a"
  then obtain ws' where ws': "validate_output_window stream output (sls ! j) = Inr ws'" "in_window ws' p a"
    by (auto simp: written_by_def)
  obtain ws where "validate_output_window stream output (sls ! i) = Inr ws" "in_window ws p a"
    using i by (auto simp: written_by_def)
  then have "\<not> in_window ws' p a" using apart ij ws'(1) unfolding outputs_apart_def by blast
  with ws'(2) show False by simp
qed

subsection \<open>The memory after some of the tasks\<close>

text \<open>
  \<open>run i\<close> is what task \<open>i\<close> returns on the initial memory \<open>m0\<close>. After the tasks in \<open>J\<close> the bytes of each window are those
  of its own task.
\<close>

definition combined ::
  "stream_parameters \<Rightarrow> frame_view \<Rightarrow> slice_descriptor list \<Rightarrow> (nat \<Rightarrow> (slice_state \<times> frame_memory) result) \<Rightarrow> frame_memory \<Rightarrow>
     nat set \<Rightarrow> frame_memory \<Rightarrow> bool" where
  "combined stream output sls run m0 J m \<longleftrightarrow> map length m = map length m0 \<and>
     (\<forall>p < length m0. \<forall>a.
        (\<forall>i \<in> J. \<forall>s n. run i = Inr (s, n) \<longrightarrow> written_by stream output (sls ! i) p a \<longrightarrow> m ! p ! a = n ! p ! a) \<and>
        ((\<forall>i \<in> J. is_ok (run i) \<longrightarrow> \<not> written_by stream output (sls ! i) p a) \<longrightarrow> m ! p ! a = m0 ! p ! a))"

lemma combined_unique:
  assumes "combined stream output sls run m0 J m" and "combined stream output sls run m0 J m'"
  shows "m = m'"
proof (rule nth_equalityI)
  have shape: "map length m = map length m0" "map length m' = map length m0" using assms by (simp_all add: combined_def)
  then have len: "length m = length m0" "length m' = length m0" by (metis length_map)+
  then show "length m = length m'" by simp
  fix p assume "p < length m"
  then have p: "p < length m0" by (simp add: len)
  have lens: "length (m ! p) = length (m0 ! p)" "length (m' ! p) = length (m0 ! p)" using shape p len by (metis nth_map)+
  show "m ! p = m' ! p"
  proof (rule nth_equalityI)
    fix a
    show "m ! p ! a = m' ! p ! a"
    proof (cases "\<exists>i \<in> J. is_ok (run i) \<and> written_by stream output (sls ! i) p a")
      case True
      then obtain i s n where "i \<in> J" "run i = Inr (s, n)" "written_by stream output (sls ! i) p a" by (auto simp: is_ok_iff)
      then show ?thesis using assms p unfolding combined_def by metis
    next
      case False
      then show ?thesis using assms p unfolding combined_def by metis
    qed
  qed (simp add: lens)
qed

lemma combined_step:
  assumes J: "combined stream output sls run m0 J m" "J \<subseteq> {..<length sls}" "i \<notin> J" "i < length sls"
    and apart: "outputs_apart stream output sls" and ok: "slice_output_ok stream output (sls ! i) m0"
    and run: "run i = execute_slice stream kernels output (sls ! i) (s0, m0)"
  shows "case execute_slice stream kernels output (sls ! i) (s0, m) of
      Inl e \<Rightarrow> run i = Inl e \<and> combined stream output sls run m0 (insert i J) m
    | Inr (s, m') \<Rightarrow> (\<exists>n. run i = Inr (s, n)) \<and> combined stream output sls run m0 (insert i J) m'"
proof -
  have shape: "map length m0 = map length m" using J(1) by (simp add: combined_def)
  note two = execute_slice_alike [OF shape ok, of kernels s0]
  show ?thesis
  proof (cases "execute_slice stream kernels output (sls ! i) (s0, m)")
    case (Inl e)
    with two have "run i = Inl e" by (auto simp: run elim: rel_sum.cases)
    with J(1) Inl show ?thesis by (simp add: combined_def is_ok_def)
  next
    case (Inr r)
    then obtain s m' where m': "execute_slice stream kernels output (sls ! i) (s0, m) = Inr (s, m')" by (cases r) simp
    with two obtain n where n: "run i = Inr (s, n)" and same: "alike m0 m n m'"
      and keeps: "slice_keeps stream output (sls ! i) m0 n" "slice_keeps stream output (sls ! i) m m'"
      by (auto simp: run elim: rel_sum.cases)
    have len: "length m = length m0" using shape by (metis length_map)
    have "m' ! p ! a = n' ! p ! a" if p: "p < length m0" and j: "j \<in> insert i J" "run j = Inr (s', n')" "written_by stream output (sls ! j) p a"
      for p a j s' n'
    proof (cases "j = i")
      case True
      with j(2) n have n': "n' = n" by simp
      have "\<not> written_by stream output (sls ! k) p a" if "k \<in> J" for k
        using written_apart [OF apart, of i k] J(2-4) that j(3) True by auto
      then have "m ! p ! a = m0 ! p ! a" using J(1) p by (auto simp: combined_def)
      moreover have "n ! p ! a = m' ! p ! a \<or> n ! p ! a = m0 ! p ! a \<and> m' ! p ! a = m ! p ! a"
        using same p by (simp add: alike_def)
      ultimately show ?thesis using n' by auto
    next
      case False
      then have "\<not> written_by stream output (sls ! i) p a"
        using written_apart [OF apart, of j i] J(2,4) j by auto
      then have "m' ! p ! a = m ! p ! a" using slice_keepsD(2) [OF keeps(2)] p len by simp
      with J(1) p j False show ?thesis by (auto simp: combined_def)
    qed
    moreover have "m' ! p ! a = m0 ! p ! a"
      if p: "p < length m0" and none: "\<forall>j \<in> insert i J. is_ok (run j) \<longrightarrow> \<not> written_by stream output (sls ! j) p a" for p a
    proof -
      have "m' ! p ! a = m ! p ! a" using slice_keepsD(2) [OF keeps(2)] none n p len by (simp add: is_ok_def)
      with J(1) p none show ?thesis by (auto simp: combined_def)
    qed
    moreover have "map length m' = map length m0" using slice_keepsD(1) [OF keeps(2)] shape by simp
    ultimately have "combined stream output sls run m0 (insert i J) m'" unfolding combined_def by blast
    with m' n show ?thesis by simp
  qed
qed

subsection \<open>Tasks\<close>

text \<open>The slices, their states and the memory before the frame; what each task returns when it runs first.\<close>

definition first_run ::
  "stream_parameters \<Rightarrow> codec_kernels \<Rightarrow> frame_view \<Rightarrow> slice_descriptor list \<Rightarrow> slice_state list \<Rightarrow> frame_memory \<Rightarrow>
     nat \<Rightarrow> (slice_state \<times> frame_memory) result" where
  "first_run stream kernels output sls states m0 i = execute_slice stream kernels output (sls ! i) (states ! i, m0)"

definition task_status :: "slice_descriptor list \<Rightarrow> (nat \<Rightarrow> (slice_state \<times> frame_memory) result) \<Rightarrow> nat \<Rightarrow> status option" where
  "task_status sls run i = (case run i of Inl e \<Rightarrow> Some (set_slice_location_if_missing (sd_index (sls ! i)) e) | Inr _ \<Rightarrow> None)"

definition task_state :: "slice_state list \<Rightarrow> (nat \<Rightarrow> (slice_state \<times> frame_memory) result) \<Rightarrow> nat \<Rightarrow> slice_state" where
  "task_state states run i = (case run i of Inl e \<Rightarrow> states ! i | Inr (s, _) \<Rightarrow> s)"

definition tasks_separate :: "stream_parameters \<Rightarrow> frame_view \<Rightarrow> slice_descriptor list \<Rightarrow> frame_memory \<Rightarrow> bool" where
  "tasks_separate stream output sls m0 \<longleftrightarrow>
     outputs_apart stream output sls \<and> (\<forall>i < length sls. slice_output_ok stream output (sls ! i) m0)"

lemma execute_slice_at_combined:
  assumes sep: "tasks_separate stream output sls m0" and i: "i < length sls" "i \<notin> J" "J \<subseteq> {..<length sls}"
    and J: "combined stream output sls (first_run stream kernels output sls states m0) m0 J m" and st: "st ! i = states ! i"
  shows "case task_status sls (first_run stream kernels output sls states m0) i of
      Some e \<Rightarrow> execute_slice_at stream kernels output sls i (st, m) = Inl e \<and>
        combined stream output sls (first_run stream kernels output sls states m0) m0 (insert i J) m
    | None \<Rightarrow> \<exists>m'. execute_slice_at stream kernels output sls i (st, m) =
          Inr (st[i := task_state states (first_run stream kernels output sls states m0) i], m') \<and>
        combined stream output sls (first_run stream kernels output sls states m0) m0 (insert i J) m'"
proof -
  have "case execute_slice stream kernels output (sls ! i) (states ! i, m) of
      Inl e \<Rightarrow> first_run stream kernels output sls states m0 i = Inl e \<and>
        combined stream output sls (first_run stream kernels output sls states m0) m0 (insert i J) m
    | Inr (s, m') \<Rightarrow> (\<exists>n. first_run stream kernels output sls states m0 i = Inr (s, n)) \<and>
        combined stream output sls (first_run stream kernels output sls states m0) m0 (insert i J) m'"
    using sep i by (intro combined_step [OF J i(3,2,1)]) (simp_all add: tasks_separate_def first_run_def)
  then show ?thesis
    by (auto simp: execute_slice_at_def st task_status_def task_state_def split: sum.splits prod.splits)
qed

lemma serial_tasks:
  assumes sep: "tasks_separate stream output sls m0" and run: "run = first_run stream kernels output sls states m0"
    and "distinct is" and "set is \<subseteq> {..<length sls}" and "set is \<inter> J = {}" and "J \<subseteq> {..<length sls}"
    and "combined stream output sls run m0 J m" and "\<forall>i \<in> set is. st ! i = states ! i"
  shows "case List.find (\<lambda>i. task_status sls run i \<noteq> None) is of
      Some i \<Rightarrow> fold_result (execute_slice_at stream kernels output sls) is (st, m) = Inl (the (task_status sls run i))
    | None \<Rightarrow> \<exists>m'. fold_result (execute_slice_at stream kernels output sls) is (st, m) =
          Inr (fold (\<lambda>i st. st[i := task_state states run i]) is st, m') \<and> combined stream output sls run m0 (J \<union> set is) m'"
  using assms(3-)
proof (induction "is" arbitrary: J m st)
  case Nil
  then show ?case by auto
next
  case (Cons i "is")
  have i: "i < length sls" "i \<notin> J" using Cons.prems by auto
  have st: "st ! i = states ! i" using Cons.prems by simp
  note step = execute_slice_at_combined [OF sep i Cons.prems(4) Cons.prems(5) [unfolded run] st, folded run]
  show ?case
  proof (cases "task_status sls run i")
    case (Some e)
    with step show ?thesis by simp
  next
    case None
    with step obtain m1 where m1: "execute_slice_at stream kernels output sls i (st, m) = Inr (st[i := task_state states run i], m1)"
      "combined stream output sls run m0 (insert i J) m1" by auto
    have "\<forall>j \<in> set is. st[i := task_state states run i] ! j = states ! j"
    using Cons.prems(1,6) by (metis distinct.simps(2) list.set_intros(2) nth_list_update_neq)
    from Cons.IH [OF _ _ _ _ m1(2) this] Cons.prems i None m1(1) show ?thesis
      by (auto simp: Un_insert_left [symmetric] simp del: Un_insert_left split: option.splits)
  qed
qed

lemma parallel_tasks:
  assumes sep: "tasks_separate stream output sls m0" and run: "run = first_run stream kernels output sls states m0"
    and "distinct is" and "set is \<subseteq> {..<length sls}" and "set is \<inter> J = {}" and "J \<subseteq> {..<length sls}"
    and "combined stream output sls run m0 J m" and "\<forall>i \<in> set is. st ! i = states ! i"
  shows "\<exists>m'. fold (run_task stream kernels output sls) is (statuses, st, m) =
      (\<lambda>i. if i \<in> set is then task_status sls run i else statuses i, fold (\<lambda>i st. st[i := task_state states run i]) is st, m') \<and>
    combined stream output sls run m0 (J \<union> set is) m'"
  using assms(3-)
proof (induction "is" arbitrary: J m st statuses)
  case Nil
  then show ?case by auto
next
  case (Cons i "is")
  have i: "i < length sls" "i \<notin> J" using Cons.prems by auto
  have st: "st ! i = states ! i" using Cons.prems by simp
  note step = execute_slice_at_combined [OF sep i Cons.prems(4) Cons.prems(5) [unfolded run] st, folded run]
  have "\<exists>m1. run_task stream kernels output sls i (statuses, st, m) =
      (statuses(i := task_status sls run i), st[i := task_state states run i], m1) \<and> combined stream output sls run m0 (insert i J) m1"
  proof (cases "task_status sls run i")
    case (Some e)
    then have "task_state states run i = st ! i" by (auto simp: task_status_def task_state_def st split: sum.splits)
    with step Some show ?thesis by (simp add: run_task_def list_update_id)
  next
    case None
    with step show ?thesis by (auto simp: run_task_def)
  qed
  then obtain m1 where m1: "run_task stream kernels output sls i (statuses, st, m) =
      (statuses(i := task_status sls run i), st[i := task_state states run i], m1)" "combined stream output sls run m0 (insert i J) m1" by blast
  have "\<forall>j \<in> set is. st[i := task_state states run i] ! j = states ! j"
    using Cons.prems(1,6) by (metis distinct.simps(2) list.set_intros(2) nth_list_update_neq)
  note states_kept = this
  have rest: "distinct is" "set is \<subseteq> {..<length sls}" "set is \<inter> insert i J = {}" "insert i J \<subseteq> {..<length sls}"
    using Cons.prems i by auto
  from Cons.IH [OF rest m1(2) states_kept, of "statuses(i := task_status sls run i)"]
  obtain m' where "fold (run_task stream kernels output sls) is (statuses(i := task_status sls run i), st[i := task_state states run i], m1) =
      (\<lambda>j. if j \<in> set is then task_status sls run j else (statuses(i := task_status sls run i)) j,
       fold (\<lambda>i st. st[i := task_state states run i]) is (st[i := task_state states run i]), m')"
    "combined stream output sls run m0 (insert i J \<union> set is) m'" by blast
  then show ?case using m1(1) by (intro exI [of _ m']) (auto simp: fun_eq_iff)
qed

subsection \<open>The order does not matter\<close>

lemma fold_update_nth:
  "distinct is \<Longrightarrow> length (fold (\<lambda>i st. st[i := f i]) is st) = length st \<and>
    (\<forall>k < length st. fold (\<lambda>i st. st[i := f i]) is st ! k = (if k \<in> set is then f k else st ! k))"
  by (induction "is" arbitrary: st) (auto simp: nth_list_update)

lemma find_same: "(\<And>x. x \<in> set xs \<Longrightarrow> P x = Q x) \<Longrightarrow> List.find P xs = List.find Q xs"
  by (induction xs) auto

lemma decode_order_irrelevant:
  assumes sep: "tasks_separate stream output sls m" and order: "sort order = [0..<length sls]" and len: "length states = length sls"
  shows "decode_parallel stream kernels output sls order (states, m) = decode_serial stream kernels output sls (states, m)"
proof -
  obtain run where run: "run = first_run stream kernels output sls states m" by blast
  have set_order: "set order = {..<length sls}" and dist: "distinct order"
    using arg_cong [OF order, of set] arg_cong [OF order, of distinct] by (auto simp: atLeast0LessThan)
  have none: "combined stream output sls run m {} m" by (simp add: combined_def)
  obtain mp where par: "fold (run_task stream kernels output sls) order (\<lambda>i. None, states, m) =
      (\<lambda>i. if i \<in> set order then task_status sls run i else None, fold (\<lambda>i st. st[i := task_state states run i]) order states, mp)"
    "combined stream output sls run m ({} \<union> set order) mp"
    using parallel_tasks [OF sep run dist _ _ _ none, of states "\<lambda>i. None"] set_order by auto
  note ser = serial_tasks [OF sep run _ _ _ _ none, of "[0..<length sls]" states, simplified, unfolded atLeast0LessThan, OF subset_refl]
  have states: "fold (\<lambda>i st. st[i := task_state states run i]) order states =
      fold (\<lambda>i st. st[i := task_state states run i]) [0..<length sls] states"
    using fold_update_nth [OF dist, of "task_state states run" states]
      fold_update_nth [OF distinct_upt, of "task_state states run" 0 "length sls" states]
    by (intro nth_equalityI) (simp_all add: set_order atLeast0LessThan)
  have found: "List.find (\<lambda>i. (if i \<in> set order then task_status sls run i else None) \<noteq> None) [0..<length sls] =
      List.find (\<lambda>i. task_status sls run i \<noteq> None) [0..<length sls]"
    by (rule find_same) (simp add: set_order)
  show ?thesis
  proof (cases "List.find (\<lambda>i. task_status sls run i \<noteq> None) [0..<length sls]")
    case None
    with ser obtain ms where "decode_serial stream kernels output sls (states, m) =
        Inr (fold (\<lambda>i st. st[i := task_state states run i]) [0..<length sls] states, ms)"
      "combined stream output sls run m {..<length sls} ms" by (auto simp: decode_serial_def atLeast0LessThan)
    moreover from this(2) par(2) have "ms = mp" by (intro combined_unique) (simp_all add: set_order atLeast0LessThan)
    ultimately show ?thesis using None by (simp only: decode_parallel_def par(1) prod.case Let_def found option.case states)
  next
    case (Some i)
    then have i: "i < length sls" by (auto simp: find_Some_iff)
    with Some ser have "decode_serial stream kernels output sls (states, m) = Inl (the (task_status sls run i))"
      by (simp add: decode_serial_def)
    moreover have "i \<in> set order" using i set_order by simp
    ultimately show ?thesis using Some by (simp only: decode_parallel_def par(1) prod.case Let_def found option.case if_True)
  qed
qed

end
