(* ===== verification/Decode_Order.thy ===== *)
theory Decode_Order
  imports Task_Order Frame_Samples
begin

text \<open>
  Decoding any bytes at all: the slices that the frame parser accepts have separate windows in the planes, so that the
  number of threads and the order of the tasks make no difference, and nothing but samples of the coded planes is
  written.
\<close>

subsection \<open>The slices of a parsed frame\<close>

definition placed :: "stream_parameters \<Rightarrow> slice_descriptor \<Rightarrow> bool" where
  "placed stream sl \<longleftrightarrow>
     (\<exists>vals d d'. apply_raster stream vals d = Inr d' \<and> sd_x sl = sd_x d' \<and> sd_y sl = sd_y d' \<and>
        sd_width sl = sd_width d' \<and> sd_height sl = sd_height d' \<and> sd_raster_x sl = hv_x vals \<and> sd_raster_y sl = hv_y vals \<and>
        sd_raster_width sl = hv_width vals \<and> sd_raster_height sl = hv_height vals)"

lemma apply_raster_placed:
  assumes "apply_raster stream vals d = Inr d'"
  shows "placed stream d'"
proof -
  from assms have "sd_raster_x d' = hv_x vals" "sd_raster_y d' = hv_y vals" "sd_raster_width d' = hv_width vals"
    "sd_raster_height d' = hv_height vals"
    by (auto simp: apply_raster_def)
  with assms show ?thesis unfolding placed_def by (intro exI [of _ vals] exI [of _ d] exI [of _ d']) simp
qed

lemma placed_update:
  assumes "placed stream sl"
  shows "placed stream (sl\<lparr>sd_payload := p\<rparr>)" "placed stream (sl\<lparr>sd_index := i\<rparr>)" "placed stream (sl\<lparr>sd_payload_byte_offset := o1\<rparr>)"
    "placed stream (sl\<lparr>sd_header_byte_offset := o1\<rparr>)" "placed stream (sl\<lparr>sd_content_byte_offset := o1\<rparr>)"
    "placed stream (sl\<lparr>sd_footer_byte_offset := o1\<rparr>)" "placed stream (sl\<lparr>sd_slice_size := n\<rparr>)"
    "placed stream (sl\<lparr>sd_error_status := s\<rparr>)" "placed stream (sl\<lparr>sd_expected_crc := crc\<rparr>)" "placed stream (sl\<lparr>sd_has_crc := b\<rparr>)"
    "placed stream (sl\<lparr>sd_content_bit_offset := bit_offset\<rparr>)" "placed stream (sl\<lparr>sd_continues_frame_range_state := b\<rparr>)"
    "placed stream (sl\<lparr>sd_uses_legacy_v0_arithmetic := b\<rparr>)"
  using assms by (simp_all add: placed_def)

lemma read_descriptor_placed:
  assumes "read_slice_descriptor R stream d r = Inr (sl, r')"
  shows "placed stream sl"
proof -
  from assms obtain vals r1 d1 where raster: "apply_raster stream vals d = Inr d1"
    and sl: "sl = d1\<lparr>sd_header_byte_offset := sr_byte_position R r, sd_content_byte_offset := sr_byte_position R r1,
      sd_payload_byte_offset := sr_byte_position R r\<rparr>"
    by (auto simp: read_slice_descriptor_def Let_def)
  show ?thesis unfolding sl by (intro placed_update apply_raster_placed [OF raster])
qed

lemma parse_located_loop_placed:
  "parse_located_loop stream first located keyframe = Inr (sls, kf) \<Longrightarrow> \<forall>sl \<in> set sls. placed stream sl"
proof (induction stream first located keyframe arbitrary: sls kf rule: parse_located_loop.induct)
  case (2 stream first located rest keyframe)
  then show ?case
    by (fastforce simp: parse_located_slice_def Let_def locate_parse_error_def map_error_def split: if_splits sum.splits
        dest: read_descriptor_placed intro!: placed_update)
qed simp

lemma parse_legacy_loop_placed:
  assumes "parse_legacy_loop R stream payload v0 n sls reader = Inr sls'" and "\<forall>sl \<in> set sls. placed stream sl"
  shows "(\<forall>sl \<in> set sls'. placed stream sl) \<and> validate_slice_raster_coverage stream sls' = Inr ()"
  using assms
proof (induction R stream payload v0 n sls reader rule: parse_legacy_loop.induct)
  case (1 R stream payload v0 sls reader)
  then show ?case by auto
next
  case (2 R stream payload v0 remaining sls reader)
  then show ?case
    by (fastforce simp: Let_def split: sum.splits if_splits dest: read_descriptor_placed intro: placed_update)
qed

lemma legacy_after_keyframe_placed:
  assumes "parse_legacy_range_slices_after_keyframe R stream payload r keyframe v0 = Inr fc"
  shows "(\<forall>sl \<in> set (fc_slices fc). placed stream sl) \<and> validate_slice_raster_coverage stream (fc_slices fc) = Inr ()"
  using assms
  by (auto simp: parse_legacy_range_slices_after_keyframe_def finalize_frame_metadata_def dest!: parse_legacy_loop_placed)

lemma located_slices_placed:
  assumes "parse_located_range_slices stream verify_crc payload = Inr fc"
  shows "(\<forall>sl \<in> set (fc_slices fc). placed stream sl) \<and> validate_slice_raster_coverage stream (fc_slices fc) = Inr ()"
  using assms
  by (auto simp: parse_located_range_slices_def finalize_frame_metadata_def dest: parse_located_loop_placed)

lemma single_slice_placed:
  assumes "parse_single_slice_frame stream payload frame = Inr fc"
  shows "(\<forall>sl \<in> set (fc_slices fc). placed stream sl) \<and> validate_slice_raster_coverage stream (fc_slices fc) = Inr ()"
proof -
  from assms obtain keyframe bytes bits where start: "read_single_slice_start stream payload = Inr (keyframe, bytes, bits)"
    by (auto simp: parse_single_slice_frame_def)
  with assms obtain d where "apply_raster stream single_slice_header new_slice_descriptor = Inr d"
    and fc: "fc_slices fc = [d\<lparr>sd_payload := payload, sd_header_byte_offset := 0, sd_content_byte_offset := word_of_nat bytes,
      sd_content_bit_offset := bits, sd_payload_byte_offset := 0,
      sd_continues_frame_range_state := (sp_version stream \<le> 1 \<and> sp_entropy_mode stream = RangeMode),
      sd_uses_legacy_v0_arithmetic := False\<rparr>]"
    and cover: "validate_slice_raster_coverage stream (fc_slices fc) = Inr ()"
    by (auto simp: parse_single_slice_frame_def Let_def finalize_frame_metadata_def)
  then have "placed stream d" by (intro apply_raster_placed)
  with cover show ?thesis by (simp add: fc placed_update)
qed

lemma parsed_frame_placed:
  assumes "decoder_parse_frame stream verify_crc payload = Inr fc"
  shows "\<forall>sl \<in> set (fc_slices fc). placed stream sl" and "validate_slice_raster_coverage stream (fc_slices fc) = Inr ()"
proof -
  have "(\<forall>sl \<in> set (fc_slices fc). placed stream sl) \<and> validate_slice_raster_coverage stream (fc_slices fc) = Inr ()"
    using assms
    by (auto simp: decoder_parse_frame_def parse_frame_def parse_with_range_header_def parse_legacy_range_frame_def
        split: if_splits option.splits dest: legacy_after_keyframe_placed located_slices_placed single_slice_placed)
  then show "\<forall>sl \<in> set (fc_slices fc). placed stream sl" and "validate_slice_raster_coverage stream (fc_slices fc) = Inr ()"
    by blast+
qed

subsection \<open>Their rectangles\<close>

lemma covered_rectangles:
  assumes "validate_slice_raster_coverage stream sls = Inr ()"
  shows "sp_num_h_slices stream \<noteq> 0" and "sp_num_v_slices stream \<noteq> 0" and "\<forall>sl \<in> set sls. valid_raster stream sl"
    and "rectangles_apart sls"
proof -
  have hv: "sp_num_h_slices stream \<noteq> 0" "sp_num_v_slices stream \<noteq> 0" and len: "length sls \<le> sweep_events_max_size div 2"
    using assms by (auto simp: validate_slice_raster_coverage_def split: if_splits)
  then show "sp_num_h_slices stream \<noteq> 0" "sp_num_v_slices stream \<noteq> 0" by simp_all
  show valid: "\<forall>sl \<in> set sls. valid_raster stream sl" using coverage_invalid [OF hv len] assms by fastforce
  show "rectangles_apart sls" using coverage_valid [OF hv len valid] assms by (auto split: if_splits)
qed

lemma raster_ends:
  assumes "valid_raster stream sl"
  shows "unat (x_end sl) = unat (sd_raster_x sl) + unat (sd_raster_width sl)"
    and "unat (y_end sl) = unat (sd_raster_y sl) + unat (sd_raster_height sl)"
proof -
  from assms have "unat (sd_raster_x sl) + unat (sd_raster_width sl) < 2 ^ 32" "unat (sd_raster_y sl) + unat (sd_raster_height sl) < 2 ^ 32"
    using unat_bound [of "sp_num_h_slices stream"] unat_bound [of "sp_num_v_slices stream"] by (auto simp: valid_raster_def)
  then show "unat (x_end sl) = unat (sd_raster_x sl) + unat (sd_raster_width sl)"
    "unat (y_end sl) = unat (sd_raster_y sl) + unat (sd_raster_height sl)"
    unfolding x_end_def y_end_def by (subst unat_add_bounded; simp)+
qed

lemma same_output_rectangle:
  assumes "sd_x sl = sd_x d" and "sd_y sl = sd_y d" and "sd_width sl = sd_width d" and "sd_height sl = sd_height d"
    and "sd_raster_x sl = sd_raster_x d" and "sd_raster_y sl = sd_raster_y d"
    and "sd_raster_width sl = sd_raster_width d" and "sd_raster_height sl = sd_raster_height d"
  shows "output_plane_x stream sl i = output_plane_x stream d i" and "output_plane_y stream sl i = output_plane_y stream d i"
    and "output_slice_plane_width stream sl i = output_slice_plane_width stream d i"
    and "output_slice_plane_height stream sl i = output_slice_plane_height stream d i"
  by (simp_all add: output_plane_x_def output_plane_y_def output_slice_plane_width_def output_slice_plane_height_def assms cong: if_cong)

lemma placed_windows_apart:
  assumes sl: "placed stream sl" "placed stream sl'" and hv: "sp_num_h_slices stream \<noteq> 0" "sp_num_v_slices stream \<noteq> 0"
    and raster: "valid_raster stream sl" "valid_raster stream sl'" "x_apart sl sl' \<or> y_apart sl sl'"
    and win: "validate_output_window stream frame sl = Inr ws" "validate_output_window stream frame sl' = Inr ws'"
    and views: "frame_views frame views" and a: "in_window ws p a"
  shows "\<not> in_window ws' p a"
proof
  assume "in_window ws' p a"
  then obtain r' c' k' where at': "p < length ws'" "r' < unat (pw_height (ws' ! p))" "c' < unat (pw_width (ws' ! p))"
    "k' < sample_bytes (pw_sample_format (ws' ! p))" "a = window_byte (ws' ! p) r' c' k'" by (rule in_windowE)
  from a obtain r c k where at: "p < length ws" "r < unat (pw_height (ws ! p))" "c < unat (pw_width (ws ! p))"
    "k < sample_bytes (pw_sample_format (ws ! p))" "a = window_byte (ws ! p) r c k" by (rule in_windowE)
  from sl obtain hv1 b1 d1 hv2 b2 d2 where
    d: "apply_raster stream hv1 b1 = Inr d1" "apply_raster stream hv2 b2 = Inr d2" and
    e1: "sd_x sl = sd_x d1" "sd_y sl = sd_y d1" "sd_width sl = sd_width d1" "sd_height sl = sd_height d1"
      "sd_raster_x sl = hv_x hv1" "sd_raster_y sl = hv_y hv1" "sd_raster_width sl = hv_width hv1" "sd_raster_height sl = hv_height hv1" and
    e2: "sd_x sl' = sd_x d2" "sd_y sl' = sd_y d2" "sd_width sl' = sd_width d2" "sd_height sl' = sd_height d2"
      "sd_raster_x sl' = hv_x hv2" "sd_raster_y sl' = hv_y hv2" "sd_raster_width sl' = hv_width hv2" "sd_raster_height sl' = hv_height hv2"
    unfolding placed_def by blast
  have r1: "sd_raster_x sl = sd_raster_x d1" "sd_raster_y sl = sd_raster_y d1" "sd_raster_width sl = sd_raster_width d1" "sd_raster_height sl = sd_raster_height d1"
    and r2: "sd_raster_x sl' = sd_raster_x d2" "sd_raster_y sl' = sd_raster_y d2" "sd_raster_width sl' = sd_raster_width d2" "sd_raster_height sl' = sd_raster_height d2"
    using d e1 e2 by (auto simp: apply_raster_def)
  note same1 = same_output_rectangle [OF e1(1-4) r1] and same2 = same_output_rectangle [OF e2(1-4) r2]
  have apart: "unat (hv_x hv1) + unat (hv_width hv1) \<le> unat (hv_x hv2) \<or> unat (hv_x hv2) + unat (hv_width hv2) \<le> unat (hv_x hv1)
      \<or> unat (hv_y hv1) + unat (hv_height hv1) \<le> unat (hv_y hv2) \<or> unat (hv_y hv2) + unat (hv_height hv2) \<le> unat (hv_y hv1)"
    using raster(3) unfolding x_apart_def y_apart_def word_le_nat_alt raster_ends [OF raster(1)] raster_ends [OF raster(2)] e1 e2 by blast
  note w = output_windows_at(3-5) [OF win(1) views at(1)] and w' = output_windows_at(3-5) [OF win(2) views at'(1)]
  obtain data where data: "pv_data (views ! p) = Some data" using w(1) by (auto simp: window_at_def)
  have differ: "(unat (output_plane_x stream sl p) + c, unat (output_plane_y stream sl p) + r) \<noteq>
      (unat (output_plane_x stream sl' p) + c', unat (output_plane_y stream sl' p) + r')"
    unfolding same1 same2
    by (rule grid_rectangles_apart [OF d hv apart]) (use at at' w w' same1 same2 in simp_all)
  have fmt: "pw_sample_format (ws ! p) = pi_sample_format (pv_info (views ! p))"
    "pw_sample_format (ws' ! p) = pi_sample_format (pv_info (views ! p))"
    and rows: "unat (pi_width (pv_info (views ! p))) * sample_bytes (pi_sample_format (pv_info (views ! p)))
      \<le> nat (pi_stride_bytes (pv_info (views ! p)))"
    and inside: "unat (output_plane_x stream sl p) + c < unat (pi_width (pv_info (views ! p)))"
      "unat (output_plane_x stream sl' p) + c' < unat (pi_width (pv_info (views ! p)))"
    using w(1) w'(1) at(3) at'(3) by (auto simp: window_at_def)
  have "window_byte (ws ! p) r c k \<noteq> window_byte (ws' ! p) r' c' k'"
    unfolding window_byte_def window_sample_address [OF w(1) data] window_sample_address [OF w'(1) data]
    by (rule sample_address_disjoint [OF rows inside differ]) (use at(4) at'(4) fmt in simp_all)
  with at(5) at'(5) show False by simp
qed

lemma covered_outputs_apart:
  assumes "\<forall>sl \<in> set sls. placed stream sl" and "validate_slice_raster_coverage stream sls = Inr ()"
    and "frame_views output views"
  shows "outputs_apart stream output sls"
proof -
  note cover = covered_rectangles [OF assms(2)]
  have "\<not> in_window ws' p a"
    if "i < length sls" "j < length sls" "i \<noteq> j" "validate_output_window stream output (sls ! i) = Inr ws"
      "validate_output_window stream output (sls ! j) = Inr ws'" "in_window ws p a" for i j ws ws' p a
    using assms(1) cover that
    by (intro placed_windows_apart [OF _ _ cover(1,2) _ _ _ that(4,5) assms(3) that(6)]) (auto simp: rectangles_apart_def)
  then show ?thesis unfolding outputs_apart_def by blast
qed

subsection \<open>Their windows\<close>

text \<open>The planes of the caller hold the samples that their descriptions promise.\<close>

definition planes_within :: "stream_parameters \<Rightarrow> plane_view list \<Rightarrow> frame_memory \<Rightarrow> bool" where
  "planes_within stream views m \<longleftrightarrow> coded_plane_count stream \<le> length m \<and>
     (\<forall>i < coded_plane_count stream. case pv_data (views ! i) of
        None \<Rightarrow> True | Some data \<Rightarrow> data + plane_bytes (pv_info (views ! i)) \<le> length (m ! i))"

lemma placed_inside_plane:
  assumes "placed stream sl" and hv: "sp_num_h_slices stream \<noteq> 0" "sp_num_v_slices stream \<noteq> 0" and raster: "valid_raster stream sl"
  shows "unat (output_plane_x stream sl i) + unat (output_slice_plane_width stream sl i) \<le> unat (plane_width stream i)"
    and "unat (output_plane_y stream sl i) + unat (output_slice_plane_height stream sl i) \<le> unat (plane_height stream i)"
    and "plane_width stream i = plane_width stream j \<Longrightarrow> output_slice_plane_width stream sl i = output_slice_plane_width stream sl j"
    and "plane_height stream i = plane_height stream j \<Longrightarrow> output_slice_plane_height stream sl i = output_slice_plane_height stream sl j"
proof -
  from assms(1) obtain hv b d where d: "apply_raster stream hv b = Inr d" and
    e: "sd_x sl = sd_x d" "sd_y sl = sd_y d" "sd_width sl = sd_width d" "sd_height sl = sd_height d" and
    r: "sd_raster_x sl = hv_x hv" "sd_raster_y sl = hv_y hv" "sd_raster_width sl = hv_width hv" "sd_raster_height sl = hv_height hv"
    unfolding placed_def by blast
  have same: "sd_raster_x sl = sd_raster_x d" "sd_raster_y sl = sd_raster_y d" "sd_raster_width sl = sd_raster_width d" "sd_raster_height sl = sd_raster_height d"
    using d r by (auto simp: apply_raster_def)
  note rect = placed_rectangle [OF d assms(2,3)] and out = same_output_rectangle [OF e same]
  have within: "a * n div k \<le> n" if "a \<le> k" for a n k :: nat
  proof (cases "k = 0")
    case False
    have "a * n div k \<le> k * n div k" using that by (intro div_le_mono mult_le_mono1)
    with False show ?thesis by simp
  qed simp
  have fits: "unat (hv_x hv) + unat (hv_width hv) \<le> unat (sp_num_h_slices stream)"
    "unat (hv_y hv) + unat (hv_height hv) \<le> unat (sp_num_v_slices stream)" using raster r by (auto simp: valid_raster_def)
  show "unat (output_plane_x stream sl i) + unat (output_slice_plane_width stream sl i) \<le> unat (plane_width stream i)"
    "unat (output_plane_y stream sl i) + unat (output_slice_plane_height stream sl i) \<le> unat (plane_height stream i)"
    unfolding out rect(2) rect(4) by (rule within [OF fits(1)], rule within [OF fits(2)])
  show "output_slice_plane_width stream sl i = output_slice_plane_width stream sl j" if "plane_width stream i = plane_width stream j"
    using rect(1,2) [of i] rect(1,2) [of j] unfolding out that by (simp add: word_unat_eq_iff)
  show "output_slice_plane_height stream sl i = output_slice_plane_height stream sl j" if "plane_height stream i = plane_height stream j"
    using rect(3,4) [of i] rect(3,4) [of j] unfolding out that by (simp add: word_unat_eq_iff)
qed

lemma placed_output_ok:
  assumes "placed stream sl" and "sp_num_h_slices stream \<noteq> 0" and "sp_num_v_slices stream \<noteq> 0" and "valid_raster stream sl"
    and views: "frame_views output views" "planes_within stream views m"
    and rgb: "sp_colorspace_type stream = 1 \<longrightarrow> sp_chroma_planes stream"
  shows "slice_output_ok stream output sl m"
proof -
  note inside = placed_inside_plane [OF assms(1-4)]
  have "rows_within ws m \<and> (sp_colorspace_type stream = 1 \<longrightarrow> rgb_windows stream ws)"
    if ws: "validate_output_window stream output sl = Inr ws" for ws
  proof
    note at = output_windows_at [OF ws views(1)]
    have count: "length ws = coded_plane_count stream"
      using ws views(1) plane_windows_nth by (auto simp: validate_output_window_def frame_views_def Let_def not_less split: if_splits)
    have "window_backed (ws ! p) (m ! p)" if p: "p < length ws" and w: "pw_width (ws ! p) \<noteq> 0" for p
    proof -
      from at(3) [OF p] obtain data where data: "pv_data (views ! p) = Some data" by (auto simp: window_at_def)
      have "data + plane_bytes (pv_info (views ! p)) \<le> length (m ! p)"
        using views(2) p data unfolding planes_within_def count by fastforce
      from window_at_backed [OF at(3) [OF p] data this w] show ?thesis .
    qed
    then show "rows_within ws m" using views(2) by (auto simp: rows_within_def planes_within_def count window_backed_def)
    show "sp_colorspace_type stream = 1 \<longrightarrow> rgb_windows stream ws"
    proof
      assume space: "sp_colorspace_type stream = 1"
      then have same: "plane_width stream i = plane_width stream 0" "plane_height stream i = plane_height stream 0" for i
        by (simp_all add: plane_width_def plane_height_def)
      have zero: "0 < length ws" by (simp add: count coded_plane_count_def)
      have "pw_width (ws ! i) = pw_width (ws ! 0) \<and> pw_height (ws ! i) = pw_height (ws ! 0)" if "i < length ws" for i
        unfolding at(4,5) [OF that] at(4,5) [OF zero] using inside(3) [OF same(1) [of i]] inside(4) [OF same(2) [of i]] by blast
      moreover have "3 \<le> length ws" "(length ws = 4) = sp_extra_plane stream" "length ws \<le> 4"
        using rgb space by (simp_all add: count coded_plane_count_def)
      ultimately show "rgb_windows stream ws" unfolding rgb_windows_def using count by blast
    qed
  qed
  then show ?thesis by (simp add: slice_output_ok_def)
qed

lemma covered_tasks_separate:
  assumes "\<forall>sl \<in> set sls. placed stream sl" and "validate_slice_raster_coverage stream sls = Inr ()"
    and "frame_views output views" and "planes_within stream views m" and "supported_shape stream"
  shows "tasks_separate stream output sls m"
proof -
  note cover = covered_rectangles [OF assms(2)]
  have "sp_colorspace_type stream = 1 \<longrightarrow> sp_chroma_planes stream"
    using assms(5) by (auto simp: supported_shape_def has_invalid_rgb_geometry_def)
  then show ?thesis
    unfolding tasks_separate_def using assms(1) cover(3) covered_outputs_apart [OF assms(1-3)]
    by (auto intro: placed_output_ok [OF _ cover(1,2) _ assms(3,4)])
qed

end
