(* ===== verification/Decode_Schedule.thy ===== *)
theory Decode_Schedule
  imports Decode_Order Codec_Example
begin

text \<open>
  A call of \<open>Decoder::decode_frame\<close> on any bytes: what it returns and writes does not depend on the threads and the order
  of the tasks, and it writes to nothing but the samples of the coded planes.
\<close>

subsection \<open>The executor\<close>

lemma starting_states_length:
  assumes "starting_states executor sls keyframe = Inr states"
  shows "length states = length sls"
proof -
  have "length states' = length st" if "fold_result (match_reference executor sls) pairs st = Inr states'" for pairs st states'
    using that
  proof (induction pairs arbitrary: st)
    case (Cons pair pairs)
    then show ?case by (cases pair) (fastforce simp: match_reference_def split: if_splits)
  qed simp
  with assms show ?thesis by (auto simp: starting_states_def split: if_splits)
qed

lemma execute_decode_order:
  assumes sls: "\<forall>sl \<in> set sls. placed stream sl" and cover: "validate_slice_raster_coverage stream sls = Inr ()"
    and views: "frame_views output views" "planes_within stream views m" and shape: "supported_shape stream"
    and order: "sort order = [0..<length sls]"
  shows "execute_decode stream kernels threads order output sls keyframe (executor, m) =
    bind_result (fold_result (validate_executed_slice stream output) sls ()) (\<lambda>_.
    bind_result (starting_states executor sls keyframe) (\<lambda>states.
    bind_result (decode_serial stream kernels output sls (states, m)) (\<lambda>(states, m).
      Inr (\<lparr>sx_slice_states = states, sx_slice_layouts = map slice_layout sls\<rparr>, m))))"
proof -
  note sep = covered_tasks_separate [OF sls cover views shape]
  have layout: "validate_parallel_slice_layout stream sls = Inr ()" by (simp add: validate_parallel_slice_layout_def cover)
  have "decode_parallel stream kernels output sls order (states, m) = decode_serial stream kernels output sls (states, m)"
    if "starting_states executor sls keyframe = Inr states" for states
    by (rule decode_order_irrelevant [OF sep order starting_states_length [OF that]])
  then show ?thesis
    by (cases "starting_states executor sls keyframe") (simp_all add: execute_decode_def validate_slices_def layout Let_def)
qed

lemma decode_serial_writes:
  assumes sep: "tasks_separate stream output sls m" and run: "decode_serial stream kernels output sls (states, m) = Inr (states', m')"
  shows "map length m' = map length m"
    and "p < length m \<Longrightarrow> \<forall>sl \<in> set sls. \<not> written_by stream output sl p a \<Longrightarrow> m' ! p ! a = m ! p ! a"
proof -
  obtain tasks where tasks: "tasks = first_run stream kernels output sls states m" by blast
  have none: "combined stream output sls tasks m {} m" by (simp add: combined_def)
  note ser = serial_tasks [OF sep tasks _ _ _ _ none, of "[0..<length sls]" states, simplified, unfolded atLeast0LessThan, OF subset_refl]
  have "List.find (\<lambda>i. task_status sls tasks i \<noteq> None) [0..<length sls] = None"
    using ser run by (auto simp: decode_serial_def split: option.splits)
  with ser run have "combined stream output sls tasks m {..<length sls} m'" by (auto simp: decode_serial_def atLeast0LessThan)
  then show "map length m' = map length m"
    and "p < length m \<Longrightarrow> \<forall>sl \<in> set sls. \<not> written_by stream output sl p a \<Longrightarrow> m' ! p ! a = m ! p ! a"
    by (simp_all add: combined_def)
qed

subsection \<open>The decoder\<close>

text \<open>The planes of a call, and an order of its tasks.\<close>

definition output_in_memory :: "decoder \<Rightarrow> frame_view \<Rightarrow> frame_memory \<Rightarrow> bool" where
  "output_in_memory de output m \<longleftrightarrow>
     (case (de_stream de, fv_planes output) of
        (Some stream, Some views) \<Rightarrow> frame_views output views \<and> planes_within stream views m
      | _ \<Rightarrow> False)"

definition task_order :: "decoder \<Rightarrow> bytes \<Rightarrow> nat list \<Rightarrow> bool" where
  "task_order de payload order \<longleftrightarrow>
     (case open_frame payload de of
        Inl e \<Rightarrow> True
      | Inr (stream, frame) \<Rightarrow> sort order = [0..<length (fc_slices frame)])"

lemma output_in_memoryE:
  assumes "output_in_memory de output m" and "de_stream de = Some stream"
  obtains views where "frame_views output views" and "fv_planes output = Some views" and "planes_within stream views m"
  using assms by (auto simp: output_in_memory_def split: option.splits)

lemma open_frame_placed:
  assumes "open_frame payload de = Inr (stream, frame)"
  shows "de_stream de = Some stream" and "\<forall>sl \<in> set (fc_slices frame). placed stream sl"
    and "validate_slice_raster_coverage stream (fc_slices frame) = Inr ()"
  using assms parsed_frame_placed by (auto simp: open_frame_def split: option.splits if_splits)

text \<open>What remains of a call once the frame is parsed.\<close>

definition decoded_serially ::
  "codec_kernels \<Rightarrow> stream_parameters \<Rightarrow> frame_decode_context \<Rightarrow> frame_view \<Rightarrow> slice_executor option \<Rightarrow> frame_memory \<Rightarrow>
     (slice_executor \<times> frame_memory) result" where
  "decoded_serially kernels stream frame output executor m =
     (case executor of
        None \<Rightarrow> Inl (make_error InvalidState)
      | Some executor \<Rightarrow>
          bind_result (fold_result (validate_executed_slice stream output) (fc_slices frame) ()) (\<lambda>_.
          bind_result (starting_states executor (fc_slices frame) (fc_keyframe frame)) (\<lambda>states.
          bind_result (decode_serial stream kernels output (fc_slices frame) (states, m)) (\<lambda>(states, m).
            Inr (\<lparr>sx_slice_states = states, sx_slice_layouts = map slice_layout (fc_slices frame)\<rparr>, m)))))"

lemma decode_frame_serially:
  assumes memory: "output_in_memory de output m" and order: "task_order de payload order"
  shows "decoder_decode_frame kernels hw order payload output (de, m) =
    bind_result (open_frame payload de) (\<lambda>(stream, frame).
    bind_result (validate_output stream output) (\<lambda>_.
    bind_result (decoded_serially kernels stream frame output (de_executor de) m) (\<lambda>(executor, m).
      Inr (de\<lparr>de_executor := Some executor\<rparr>, m))))"
proof (cases "open_frame payload de")
  case (Inr r)
  then obtain stream frame where open_: "open_frame payload de = Inr (stream, frame)" by (cases r) simp
  note placed = open_frame_placed [OF open_]
  from memory placed(1) obtain views where views: "frame_views output views" "planes_within stream views m"
    by (rule output_in_memoryE)
  have "decode_frame_slices kernels hw order stream frame output (de, m) =
      bind_result (decoded_serially kernels stream frame output (de_executor de) m) (\<lambda>(executor, m). Inr (de\<lparr>de_executor := Some executor\<rparr>, m))"
    if "validate_output stream output = Inr ()"
  proof -
    from that have shape: "supported_shape stream" by (simp add: validate_output_Inr)
    have "sort order = [0..<length (fc_slices frame)]" using order by (simp add: task_order_def open_)
    from execute_decode_order [OF placed(2,3) views shape this] show ?thesis
      by (cases "de_executor de") (simp_all add: decode_frame_slices_def decoded_serially_def)
  qed
  then show ?thesis
    by (cases "validate_output stream output") (simp_all add: decoder_decode_frame_def open_)
qed (simp add: decoder_decode_frame_def)

text \<open>
  C3: how a frame is decoded does not depend on its schedule. For any bytes at all the status is the same, and after a
  success so are the slice states for the next frame and every byte of the output planes, for every number of threads
  that the options ask for, for every number of threads the machine has, and for every order in which the tasks take
  effect. The reason is that the parser accepts only slices that tile the raster, so that no two of them share a byte of
  a plane. What a failed decoding leaves in the planes is outside the model.
\<close>

theorem decode_schedule_irrelevant:
  assumes "output_in_memory de output m" and "task_order de payload order" and "task_order de payload order'"
  shows "bind_result (decoder_decode_frame kernels hw' order' payload output
      (de\<lparr>de_options := (de_options de)\<lparr>do_thread_count := threads\<rparr>\<rparr>, m)) (\<lambda>(de', m'). Inr (de_executor de', m')) =
    bind_result (decoder_decode_frame kernels hw order payload output (de, m)) (\<lambda>(de', m'). Inr (de_executor de', m'))"
proof -
  let ?de = "de\<lparr>de_options := (de_options de)\<lparr>do_thread_count := threads\<rparr>\<rparr>"
  have opened: "open_frame payload ?de = open_frame payload de" by (cases "de_stream de") (simp_all add: open_frame_def)
  have memory: "output_in_memory ?de output m" using assms(1) by (simp add: output_in_memory_def)
  have order: "task_order ?de payload order'" using assms(3) by (simp only: task_order_def opened)
  show ?thesis
    unfolding decode_frame_serially [OF assms(1,2)] decode_frame_serially [OF memory order] opened
    by (simp add: bind_result_def split: sum.splits prod.splits)
qed

subsection \<open>What is written\<close>

text \<open>The bytes of the samples of a plane; bytes between the rows and behind the picture are not among them.\<close>

definition sample_byte :: "stream_parameters \<Rightarrow> plane_view list \<Rightarrow> nat \<Rightarrow> nat \<Rightarrow> bool" where
  "sample_byte stream views p a \<longleftrightarrow> p < coded_plane_count stream \<and>
     (\<exists>x < unat (plane_width stream p). \<exists>y < unat (plane_height stream p).
        \<exists>k < sample_bytes (pi_sample_format (pv_info (views ! p))).
          a = sample_address (pv_info (views ! p)) (the (pv_data (views ! p))) x y + k)"

lemma written_sample:
  assumes sl: "placed stream sl" "sp_num_h_slices stream \<noteq> 0" "sp_num_v_slices stream \<noteq> 0" "valid_raster stream sl"
    and views: "frame_views output views" and a: "written_by stream output sl p a"
  shows "sample_byte stream views p a"
proof -
  from a obtain ws where ws: "validate_output_window stream output sl = Inr ws" "in_window ws p a" by (auto simp: written_by_def)
  from ws(2) obtain r c k where at: "p < length ws" "r < unat (pw_height (ws ! p))" "c < unat (pw_width (ws ! p))"
    "k < sample_bytes (pw_sample_format (ws ! p))" "a = window_byte (ws ! p) r c k" by (rule in_windowE)
  note w = output_windows_at [OF ws(1) views at(1)] and inside = placed_inside_plane(1,2) [OF sl, of p]
  obtain data where data: "pv_data (views ! p) = Some data" using w(3) by (auto simp: window_at_def)
  have fmt: "pw_sample_format (ws ! p) = pi_sample_format (pv_info (views ! p))" using w(3) by (simp add: window_at_def)
  let ?x = "unat (output_plane_x stream sl p) + c" and ?y = "unat (output_plane_y stream sl p) + r"
  have "?x < unat (plane_width stream p)" "?y < unat (plane_height stream p)" using inside at(2,3) w(4,5) by simp_all
  moreover have "a = sample_address (pv_info (views ! p)) (the (pv_data (views ! p))) ?x ?y + k"
    unfolding at(5) window_byte_def window_sample_address [OF w(3) data] by (simp add: data)
  moreover have "p < coded_plane_count stream" using at(1) w(2) by simp
  ultimately show ?thesis unfolding sample_byte_def using at(4) fmt by auto
qed

text \<open>
  C4: decoding never touches a byte that is not part of a sample. A successful call on any bytes keeps the size of every
  plane, and the bytes between the rows of a plane, those beyond the picture where the plane is larger than it, and all of
  the planes that the stream does not code have their values from before.
\<close>

theorem decoder_writes_only_samples:
  assumes "decoder_decode_frame kernels hw order payload output (de, m) = Inr (de', m')"
    and "output_in_memory de output m" and "task_order de payload order"
    and "de_stream de = Some stream" and "fv_planes output = Some views"
  shows "map length m' = map length m \<and>
    (\<forall>p < length m. \<forall>a. sample_byte stream views p a \<or> m' ! p ! a = m ! p ! a)"
proof -
  from assms(1) decode_frame_serially [OF assms(2,3), of kernels hw] obtain str frame executor where
    open_: "open_frame payload de = Inr (str, frame)" and valid: "validate_output str output = Inr ()" and
    run: "decoded_serially kernels str frame output (de_executor de) m = Inr (executor, m')"
    by auto
  note placed = open_frame_placed [OF open_]
  from placed(1) assms(4) have str: "str = stream" by simp
  from assms(2,4) obtain views' where views': "frame_views output views'" "fv_planes output = Some views'" "planes_within stream views' m"
    by (rule output_in_memoryE)
  with assms(5) have views: "frame_views output views" "planes_within stream views m" by simp_all
  have shape: "supported_shape stream" using valid by (simp add: validate_output_Inr str)
  note cover = covered_rectangles [OF placed(3) [unfolded str]]
  note sep = covered_tasks_separate [OF placed(2,3) [unfolded str] views shape]
  from run obtain states states' where "decode_serial stream kernels output (fc_slices frame) (states, m) = Inr (states', m')"
    by (auto simp: decoded_serially_def str split: option.splits)
  note writes = decode_serial_writes [OF sep this]
  have "m' ! p ! a = m ! p ! a" if p: "p < length m" and a: "\<not> sample_byte stream views p a" for p a
  proof (rule writes(2) [OF p], rule ballI)
    fix sl assume "sl \<in> set (fc_slices frame)"
    then show "\<not> written_by stream output sl p a"
      using written_sample [OF _ cover(1,2) _ views(1), of sl p a] placed(2) cover(3) a str by blast
  qed
  with writes(1) show ?thesis by blast
qed

subsection \<open>Encoder and decoder\<close>

text \<open>
  C5: in Range mode the decoder simulates the encoder. Whenever the two are in step (same stream, same slice states and
  layouts), a frame that the encoder returns is accepted by the decoder, whose planes then hold the samples of the encoded
  picture, and the two are in step again, whether it is a keyframe or an inter frame. The conditions are: the stream uses
  the range coder and has fewer than \<open>2 ^ 32\<close> slices (\<open>range_coded\<close>); the planes of the picture are as the interface
  describes them, and no slice stops before the end of its own header, which happens when the encoder drops a zero byte
  at its end and which the decoder rejects (\<open>picture_fits\<close>); the output planes lie in their memory and have the format of
  the stream, and every task completes once (\<open>output_fits\<close>). Golomb-Rice streams are not covered.
\<close>

theorem decoder_simulates_encoder:
  assumes "in_step en de" and "encoder_encode_frame scalar_kernels hw input im en = Inr (payload, en')"
    and "range_coded en" and "picture_fits scalar_kernels input im en" and "output_fits output m order en"
  shows "\<exists>de' m'. decoder_decode_frame scalar_kernels hw' order payload output (de, m) = Inr (de', m') \<and> in_step en' de' \<and>
    same_pictures en output m' input im"
  using scalar.step_decoded [OF assms, of hw'] by blast

subsection \<open>A small frame\<close>

lemma one_cell_one_slice:
  assumes cover: "validate_slice_raster_coverage stream sls = Inr ()" and cells: "cell_count stream = 1"
  shows "length sls = 1"
proof -
  have len: "length sls \<le> sweep_events_max_size div 2"
    using cover by (auto simp: validate_slice_raster_coverage_def split: if_splits)
  have hv: "unat (sp_num_h_slices stream) = 1" "unat (sp_num_v_slices stream) = 1"
    using cells by (auto simp: cell_count_def)
  have valid: "\<forall>sl \<in> set sls. valid_raster stream sl"
    and one: "\<exists>!i. i < length sls \<and> (0, 0) \<in> raster_cells (sls ! i)"
    using cover [unfolded raster_coverage_iff [OF len]] hv by (auto simp: raster_grid_def)
  have "(0, 0) \<in> raster_cells (sls ! i)" if "i < length sls" for i
  proof -
    have "valid_raster stream (sls ! i)" using valid that by simp
    moreover from this have "0 < unat (sd_raster_width (sls ! i))" "0 < unat (sd_raster_height (sls ! i))"
      by (simp_all add: valid_raster_def unat_gt_0)
    ultimately show ?thesis by (auto simp: valid_raster_def raster_cells_def hv)
  qed
  with one have "\<exists>!i. i < length sls" by auto
  then show ?thesis by (metis One_nat_def Suc_lessI less_Suc0 less_trans not_less_eq zero_less_Suc lessI gr0I)
qed

definition tiny_decoder :: decoder where
  "tiny_decoder = \<lparr>de_options = \<lparr>do_thread_count = 1, do_verify_crc = True, do_strict = True, do_frame_width = 1, do_frame_height = 1,
       do_cpu = new_cpu_features\<rparr>,
     de_stream = Some (decoder_stream tiny_stream), de_executor = Some new_slice_executor\<rparr>"

lemma tiny_in_step: "in_step tiny_encoder tiny_decoder"
proof -
  from normalized_profile [OF tiny_normalizes] show ?thesis
    by (simp add: in_step_def tiny_encoder_def tiny_decoder_def new_slice_executor_def new_slice_encode_executor_def)
qed

lemma tiny_ranged: "range_coded tiny_encoder"
  by (rule tiny_range_coded) (simp add: tiny_encoder_def)

lemma tiny_keyframe:
  obtains payload en where "encoder_encode_frame kernels hw tiny_frame [[0]] tiny_encoder = Inr (payload, en)"
    and "picture_fits kernels tiny_frame [[0]] tiny_encoder"
proof -
  from tiny_slices(1) [of kernels] obtain b where
    one: "encode_grid_slice tiny_stream kernels tiny_frame [[0]] True new_slice_state 0 = Inr (b, tiny_state 134)" "length b = 5" by blast
  from tiny_frame_encoded [OF one, of tiny_encoder new_slice_encode_executor] show thesis
    by (intro that) (simp_all add: tiny_encoder_def next_is_keyframe_def encoder_starting_states_def)
qed

text \<open>The plane is the first byte of two.\<close>

lemma tiny_fits: "output_fits tiny_frame [[x, y]] [0] tiny_encoder"
  by (simp add: output_fits_def tiny_encoder_def output_planes_ok_def output_plane_ok_def tiny_geometry frame_views_def tiny_planes)
    (simp add: tiny_frame_def tiny_plane_def tiny_stream_fields plane_bytes_def sample_format_for_bit_depth_def sample_bytes_cases)

lemma tiny_memory: "output_in_memory tiny_decoder tiny_frame [[x, y]]"
  using tiny_fits [of x y]
  by (auto simp: output_in_memory_def output_fits_def planes_within_def output_planes_ok_def output_plane_ok_def tiny_decoder_def
      tiny_encoder_def decoder_stream_geometry Let_def split: option.splits)

lemma tiny_order: "task_order tiny_decoder payload [0]"
proof (cases "open_frame payload tiny_decoder")
  case (Inr r)
  then obtain stream frame where open_: "open_frame payload tiny_decoder = Inr (stream, frame)" by (cases r) simp
  from open_frame_placed(1) [OF open_] have "stream = decoder_stream tiny_stream" by (simp add: tiny_decoder_def)
  then have "cell_count stream = 1" by (simp add: decoder_stream_geometry tiny_geometry)
  from one_cell_one_slice [OF open_frame_placed(3) [OF open_] this] show ?thesis by (simp add: task_order_def open_)
qed (simp add: task_order_def)

theorem decoder_simulates_encoder_witness:
  "\<exists>payload en de m. encoder_encode_frame scalar_kernels 4 tiny_frame [[0]] tiny_encoder = Inr (payload, en) \<and>
     decoder_decode_frame scalar_kernels 8 [0] payload tiny_frame (tiny_decoder, [[9, 5]]) = Inr (de, m) \<and> in_step en de \<and>
     same_pictures tiny_encoder tiny_frame m tiny_frame [[0]]"
proof -
  obtain payload en where enc: "encoder_encode_frame scalar_kernels 4 tiny_frame [[0]] tiny_encoder = Inr (payload, en)"
    and fits: "picture_fits scalar_kernels tiny_frame [[0]] tiny_encoder" by (rule tiny_keyframe)
  from decoder_simulates_encoder [OF tiny_in_step enc tiny_ranged fits tiny_fits, of 8 9 5] enc show ?thesis by blast
qed

lemma tiny_decoded:
  obtains payload de m where "decoder_decode_frame scalar_kernels 8 [0] payload tiny_frame (tiny_decoder, [[9, 5]]) = Inr (de, m)"
proof -
  obtain payload en where enc: "encoder_encode_frame scalar_kernels 4 tiny_frame [[0]] tiny_encoder = Inr (payload, en)"
    and fits: "picture_fits scalar_kernels tiny_frame [[0]] tiny_encoder" by (rule tiny_keyframe)
  from scalar.step_decoded [OF tiny_in_step enc tiny_ranged fits tiny_fits, of 8 9 5] that show thesis by blast
qed

theorem decode_schedule_irrelevant_witness:
  "\<exists>payload de m. decoder_decode_frame scalar_kernels 8 [0] payload tiny_frame (tiny_decoder, [[9, 5]]) = Inr (de, m) \<and>
     bind_result (decoder_decode_frame scalar_kernels 2 [0] payload tiny_frame
       (tiny_decoder\<lparr>de_options := (de_options tiny_decoder)\<lparr>do_thread_count := 3\<rparr>\<rparr>, [[9, 5]])) (\<lambda>(de', m'). Inr (de_executor de', m')) =
     Inr (de_executor de, m)"
proof -
  obtain payload de m where dec: "decoder_decode_frame scalar_kernels 8 [0] payload tiny_frame (tiny_decoder, [[9, 5]]) = Inr (de, m)"
    by (rule tiny_decoded)
  from decode_schedule_irrelevant [OF tiny_memory tiny_order tiny_order, of scalar_kernels 2 payload 3 9 5 8] dec show ?thesis
    by (intro exI [of _ payload] exI [of _ de] exI [of _ m]) simp
qed

theorem decoder_writes_only_samples_witness:
  "\<exists>payload de m. decoder_decode_frame scalar_kernels 8 [0] payload tiny_frame (tiny_decoder, [[9, 5]]) = Inr (de, m) \<and>
     length (m ! 0) = 2 \<and> m ! 0 ! 1 = 5"
proof -
  obtain payload de m where dec: "decoder_decode_frame scalar_kernels 8 [0] payload tiny_frame (tiny_decoder, [[9, 5]]) = Inr (de, m)"
    by (rule tiny_decoded)
  have "map length m = map length [[9 :: u8, 5]] \<and> (\<forall>p < length [[9 :: u8, 5]]. \<forall>a.
      sample_byte (decoder_stream tiny_stream) [tiny_plane] p a \<or> m ! p ! a = [[9, 5]] ! p ! a)"
    by (rule decoder_writes_only_samples [OF dec tiny_memory tiny_order]) (simp_all add: tiny_decoder_def tiny_planes)
  moreover have "\<not> sample_byte (decoder_stream tiny_stream) [tiny_plane] 0 1"
    by (auto simp: sample_byte_def decoder_stream_geometry tiny_geometry tiny_plane_def sample_address_def sample_bytes_cases
        decoder_stream_def initial_states)
  ultimately have "length (m ! 0) = 2" "m ! 0 ! 1 = 5" by (auto simp: Cons_eq_map_conv)
  with dec show ?thesis by blast
qed

end
