(* ===== verification/Vector_Lanes.thy ===== *)
theory Vector_Lanes
  imports Slice_Samples
begin

text \<open>
  Vector registers as words of 128 and 256 bits, their lanes, and the colour transform on one lane of 32 bits, which
  computes what the transform on integers of 64 bits computes.
\<close>

subsection \<open>Lanes\<close>

type_synonym m128 = "128 word"
type_synonym m256 = "256 word"

definition lane32 :: "'v::len word \<Rightarrow> nat \<Rightarrow> u32" where
  "lane32 v i = ucast (drop_bit (32 * i) v)"

definition lane16 :: "'v::len word \<Rightarrow> nat \<Rightarrow> u16" where
  "lane16 v i = ucast (drop_bit (16 * i) v)"

text \<open>The register with the given lanes, the first in the lowest bits.\<close>

definition of_lanes :: "'b::len word list \<Rightarrow> 'v::len word" where
  "of_lanes ls = word_rcat (rev ls)"

lemma bit_of_lanes:
  fixes ls :: "'b::len word list"
  shows "bit (of_lanes ls :: 'v::len word) n \<longleftrightarrow>
    n < LENGTH('v) \<and> n div LENGTH('b) < length ls \<and> bit (ls ! (n div LENGTH('b))) (n mod LENGTH('b))"
  by (simp add: of_lanes_def word_rcat_def bit_simps bit_horner_sum_uint_exp_iff)

lemma lane32_of_lanes:
  fixes ls :: "u32 list"
  assumes "i < length ls" and "32 * (i + 1) \<le> LENGTH('v)"
  shows "lane32 (of_lanes ls :: 'v::len word) i = ls ! i"
proof (rule bit_word_eqI)
  fix n assume "n < LENGTH(32)"
  then have n: "n < 32" by simp
  then have "(32 * i + n) div 32 = i" "(32 * i + n) mod 32 = n" "32 * i + n < LENGTH('v)" using assms(2) by simp_all
  with n assms(1) show "bit (lane32 (of_lanes ls :: 'v word) i) n = bit (ls ! i) n"
    by (simp add: lane32_def bit_simps bit_of_lanes)
qed

lemma lane16_of_lanes:
  fixes ls :: "u16 list"
  assumes "i < length ls" and "16 * (i + 1) \<le> LENGTH('v)"
  shows "lane16 (of_lanes ls :: 'v::len word) i = ls ! i"
proof (rule bit_word_eqI)
  fix n assume "n < LENGTH(16)"
  then have n: "n < 16" by simp
  then have "(16 * i + n) div 16 = i" "(16 * i + n) mod 16 = n" "16 * i + n < LENGTH('v)" using assms(2) by simp_all
  with n assms(1) show "bit (lane16 (of_lanes ls :: 'v word) i) n = bit (ls ! i) n"
    by (simp add: lane16_def bit_simps bit_of_lanes)
qed

text \<open>A lane of 32 bits whose upper half is zero.\<close>

lemma lane32_widened:
  fixes v :: "'v::len word"
  assumes "lane16 v (2 * i + 1) = 0" and "32 * (i + 1) \<le> LENGTH('v)"
  shows "lane32 v i = ucast (lane16 v (2 * i))"
proof (rule bit_word_eqI)
  fix n assume "n < LENGTH(32)"
  then have n: "n < 32" by simp
  show "bit (lane32 v i) n = bit (ucast (lane16 v (2 * i)) :: u32) n"
  proof (cases "n < 16")
    case True
    have "32 * i + n = 16 * (2 * i) + n" by simp
    with True n show ?thesis by (simp add: lane32_def lane16_def bit_simps)
  next
    case False
    have "bit (lane16 v (2 * i + 1)) (n - 16) = bit v (32 * i + n)"
      using False n by (auto simp: lane16_def bit_simps)
    with assms(1) have "\<not> bit v (32 * i + n)" by simp
    with False n show ?thesis by (simp add: lane32_def lane16_def bit_simps)
  qed
qed

lemma lane_bitwise:
  "lane32 (v AND w) i = lane32 v i AND lane32 w i" "lane16 (v XOR w) i = lane16 v i XOR lane16 w i"
  by (rule bit_word_eqI; simp add: lane32_def lane16_def bit_simps)+

subsection \<open>Integers in lanes\<close>

lemma sint_word_of_int32: "in_int32 x \<Longrightarrow> sint (word_of_int x :: u32) = x"
  by (simp add: sint_sbintrunc' in_int32_def signed_take_bit_int_eq_self)

lemma shift2_lane:
  assumes "in_int32 x"
  shows "signed_drop_bit 2 (word_of_int x :: u32) = word_of_int (x div 4)"
proof -
  have "in_int32 (x div 4)" using assms by (auto simp: in_int32_def)
  then have "sint (signed_drop_bit 2 (word_of_int x :: u32)) = sint (word_of_int (x div 4) :: u32)"
    using assms by (simp add: sint_signed_drop_bit_eq sint_word_of_int32 drop_bit_eq_div)
  then show ?thesis by (rule signed_word_eqI)
qed

lemma and_mask_lane: "(word_of_int x :: u32) AND word_of_int (2 ^ k - 1) = word_of_int (x mod 2 ^ k)"
  by (rule bit_word_eqI)
    (simp add: bit_simps mask_eq_exp_minus_1 [symmetric] take_bit_eq_mod [symmetric], auto)

subsection \<open>The transform of one pixel\<close>

definition swapped_layout :: "u8 \<Rightarrow> bool \<Rightarrow> bool" where
  "swapped_layout bits extra \<longleftrightarrow> 9 \<le> bits \<and> bits \<le> 15 \<and> \<not> extra"

definition forward_lane :: "u8 \<Rightarrow> bool \<Rightarrow> u32 \<Rightarrow> u32 \<Rightarrow> u32 \<Rightarrow> u32 \<times> u32 \<times> u32" where
  "forward_lane bits extra r g b =
     (let base = if swapped_layout bits extra then b else g;
          cb = if swapped_layout bits extra then g - b else b - g;
          cr = if swapped_layout bits extra then r - b else r - g;
          correction = signed_drop_bit 2 (cb + cr)
      in ((base + correction) AND word_of_int (2 ^ unat bits * 2 - 1), cb + word_of_int (2 ^ unat bits), cr + word_of_int (2 ^ unat bits)))"

definition inverse_lane :: "u8 \<Rightarrow> bool \<Rightarrow> u32 \<Rightarrow> u32 \<Rightarrow> u32 \<Rightarrow> u32 \<times> u32 \<times> u32" where
  "inverse_lane bits extra y cb cr =
     (let signed_cb = cb - word_of_int (2 ^ unat bits);
          signed_cr = cr - word_of_int (2 ^ unat bits);
          correction = signed_drop_bit 2 (signed_cb + signed_cr);
          base = y - correction;
          r = signed_cr + base;
          g = if swapped_layout bits extra then signed_cb + base else base;
          b = if swapped_layout bits extra then base else signed_cb + base;
          mask = word_of_int (2 ^ unat bits - 1)
      in (r AND mask, g AND mask, b AND mask))"

lemma ucast_lane: "(ucast (r :: u16) :: u32) = word_of_int (uint r)"
  by (simp only: ucast_eq)

lemma sample_range: "0 \<le> uint (r :: u16)" "uint r \<le> 65535"
proof -
  have "uint r < 2 ^ LENGTH(16)" by (rule uint_lt2p)
  then show "uint r \<le> 65535" by simp
qed (rule uint_ge_0)

lemma forward_lane_scalar:
  fixes r g b :: u16
  assumes bits: "bits \<noteq> 0" "bits \<le> 16" and lane: "forward_lane bits extra (ucast r) (ucast g) (ucast b) = (yv, cbv, crv)"
  shows "sint yv = code_y (forward_jpeg2000_rct r g b bits extra)" and "sint cbv = code_cb (forward_jpeg2000_rct r g b bits extra)"
    and "sint crv = code_cr (forward_jpeg2000_rct r g b bits extra)"
proof -
  have nb: "\<not> (bits = 0 \<or> 16 < bits)" using bits by auto
  have n: "unat bits \<le> 16" using bits(2) by (simp add: word_le_nat_alt)
  then have p: "(2 :: int) ^ unat bits \<le> 65536" using power_increasing [of "unat bits" 16 "2 :: int"] by simp
  have p0: "(0 :: int) < 2 ^ unat bits" by simp
  have twice: "(2 :: int) ^ unat bits * 2 = 2 ^ (unat bits + 1)" by simp
  note R = sample_range [of r] and G = sample_range [of g] and B = sample_range [of b]
  have core: "sint ((ucast z + signed_drop_bit 2 (ucast x - ucast z + (ucast v - ucast z))) AND word_of_int (2 ^ unat bits * 2 - 1) :: u32) =
      to_int32 (uint (word_of_int (uint z + arithmetic_right_shift (uint x - uint z + (uint v - uint z)) 2) AND word_of_int (2 ^ unat bits * 2 - 1) :: u64))"
    "sint (ucast x - ucast z + word_of_int (2 ^ unat bits) :: u32) = to_int32 (uint x - uint z + 2 ^ unat bits)" for x v z :: u16
  proof -
    note X = sample_range [of x] and V = sample_range [of v] and Z = sample_range [of z]
    let ?s = "uint x - uint z + (uint v - uint z)"
    have "- 131072 \<le> ?s" "?s \<le> 131072" using X V Z by linarith+
    then have s: "in_int32 ?s" "in_int64 ?s" by (simp_all add: in_int32_def in_int64_def)
    let ?y = "uint z + ?s div 4"
    have small: "in_int32 m" if "0 \<le> m" "m < 2 ^ (unat bits + 1)" for m
      using that p by (simp add: in_int32_def)
    have y: "in_int32 (?y mod 2 ^ (unat bits + 1))" by (rule small [OF pos_mod_sign pos_mod_bound]) simp_all
    have "(ucast z + signed_drop_bit 2 (ucast x - ucast z + (ucast v - ucast z)) :: u32) = word_of_int ?y"
      by (simp only: ucast_lane wi_hom_sub wi_hom_add shift2_lane [OF s(1)])
    moreover have "uint (word_of_int ?y AND word_of_int (2 ^ (unat bits + 1) - 1) :: u64) = ?y mod 2 ^ (unat bits + 1)"
      using n by (intro uint_and_mask64) simp
    ultimately show "sint ((ucast z + signed_drop_bit 2 (ucast x - ucast z + (ucast v - ucast z))) AND word_of_int (2 ^ unat bits * 2 - 1) :: u32) =
        to_int32 (uint (word_of_int (uint z + arithmetic_right_shift ?s 2) AND word_of_int (2 ^ unat bits * 2 - 1) :: u64))"
      by (simp only: twice and_mask_lane shift2_floor [OF s(2)] sint_word_of_int32 [OF y] to_int32_id [OF y])
    have cd: "- 131072 \<le> uint x - uint z + 2 ^ unat bits" "uint x - uint z + 2 ^ unat bits \<le> 131072" using X Z p p0 by linarith+
    have c: "in_int32 (uint x - uint z + 2 ^ unat bits)" using cd by (simp add: in_int32_def)
    then show "sint (ucast x - ucast z + word_of_int (2 ^ unat bits) :: u32) = to_int32 (uint x - uint z + 2 ^ unat bits)"
      by (simp only: ucast_lane wi_hom_sub wi_hom_add sint_word_of_int32 [OF c] to_int32_id [OF c])
  qed
  show "sint yv = code_y (forward_jpeg2000_rct r g b bits extra)" "sint cbv = code_cb (forward_jpeg2000_rct r g b bits extra)"
    "sint crv = code_cr (forward_jpeg2000_rct r g b bits extra)"
    using lane core
    by (auto simp: forward_lane_def forward_jpeg2000_rct_def nb Let_def swapped_layout_def simp del: to_int32_def split: if_splits)
qed

text \<open>
  The inverse transform on 32 bits agrees for codes far beyond those of any depth; its results fit 16 bits, so that the
  saturating pack of biased values keeps them.
\<close>

definition moderate :: "int \<Rightarrow> bool" where
  "moderate x \<longleftrightarrow> - (2 ^ 28) \<le> x \<and> x \<le> 2 ^ 28"

lemma inverse_lane_scalar:
  assumes bits: "bits \<noteq> 0" "bits \<le> 16" and codes: "moderate y" "moderate cb" "moderate cr"
    and lane: "inverse_lane bits extra (word_of_int y) (word_of_int cb) (word_of_int cr) = (rv, gv, bv)"
  shows "ucast rv = rgb_r (inverse_jpeg2000_rct y cb cr bits extra)" and "ucast gv = rgb_g (inverse_jpeg2000_rct y cb cr bits extra)"
    and "ucast bv = rgb_b (inverse_jpeg2000_rct y cb cr bits extra)"
    and "unat rv < 65536" and "unat gv < 65536" and "unat bv < 65536"
proof -
  have nb: "\<not> (bits = 0 \<or> 16 < bits)" using bits by auto
  have n: "unat bits \<le> 16" using bits(2) by (simp add: word_le_nat_alt)
  then have p: "(2 :: int) ^ unat bits \<le> 65536" using power_increasing [of "unat bits" 16 "2 :: int"] by simp
  have p0: "(0 :: int) < 2 ^ unat bits" by simp
  let ?s = "cb - 2 ^ unat bits + (cr - 2 ^ unat bits)"
  have "- 268435456 \<le> cb" "cb \<le> 268435456" "- 268435456 \<le> cr" "cr \<le> 268435456" using codes by (simp_all add: moderate_def)
  then have "- 1073741824 \<le> ?s" "?s \<le> 1073741824" using p p0 by linarith+
  then have s: "in_int32 ?s" "in_int64 ?s" by (simp_all add: in_int32_def in_int64_def)
  have masked: "ucast ((word_of_int x AND word_of_int (2 ^ unat bits - 1) :: u32)) = (ucast (word_of_int x AND word_of_int (2 ^ unat bits - 1) :: u64) :: u16)"
    "unat ((word_of_int x AND word_of_int (2 ^ unat bits - 1) :: u32)) < 65536" for x
  proof -
    have m: "0 \<le> x mod 2 ^ unat bits" "x mod 2 ^ unat bits < 65536"
      using pos_mod_sign [OF p0, of x] pos_mod_bound [OF p0, of x] p by linarith+
    then have "uint (word_of_int (x mod 2 ^ unat bits) :: u32) = x mod 2 ^ unat bits"
      by (simp only: uint_word_of_int) (rule mod_pos_pos_trivial, simp_all)
    then show "ucast ((word_of_int x AND word_of_int (2 ^ unat bits - 1) :: u32)) = (ucast (word_of_int x AND word_of_int (2 ^ unat bits - 1) :: u64) :: u16)"
      unfolding and_mask_lane ucast_and_mask64 [OF n] by (simp only: ucast_eq)
    show "unat ((word_of_int x AND word_of_int (2 ^ unat bits - 1) :: u32)) < 65536"
      using \<open>uint _ = _\<close> m by (simp only: and_mask_lane unat_eq_nat_uint)
  qed
  have shift: "signed_drop_bit 2 (word_of_int cb - word_of_int (2 ^ unat bits) + (word_of_int cr - word_of_int (2 ^ unat bits)) :: u32) =
      word_of_int (?s div 4)" by (simp only: wi_hom_sub wi_hom_add shift2_lane [OF s(1)])
  note lane' = lane [unfolded inverse_lane_def Let_def shift, unfolded wi_hom_sub wi_hom_add]
  show "ucast rv = rgb_r (inverse_jpeg2000_rct y cb cr bits extra)" "ucast gv = rgb_g (inverse_jpeg2000_rct y cb cr bits extra)"
    "ucast bv = rgb_b (inverse_jpeg2000_rct y cb cr bits extra)"
    using lane' masked(1) by (auto simp only: inverse_jpeg2000_rct_def nb if_False Let_def swapped_layout_def shift2_floor [OF s(2)]
      prod.case prod.inject rgb_sample.simps split: if_splits)
  show "unat rv < 65536" "unat gv < 65536" "unat bv < 65536"  using lane' by (auto simp only: prod.inject masked(2) split: if_splits)
qed

definition pack_lane :: "u32 \<Rightarrow> u16" where
  "pack_lane v = word_of_int (max (- 32768) (min 32767 (sint v)))"

lemma bit_top16: "bit (0x8000 :: u16) k \<longleftrightarrow> k = 15"
proof -
  have "(0x8000 :: u16) = push_bit 15 1" by simp
  then have "bit (0x8000 :: u16) k \<longleftrightarrow> bit (push_bit 15 1 :: u16) k" by (rule arg_cong)
  also have "\<dots> \<longleftrightarrow> k = 15" by (simp only: bit_push_bit_iff bit_1_iff possible_bit_word) auto
  finally show ?thesis .
qed

lemma plus_top_bit: "((w :: u16) + 0x8000) XOR 0x8000 = w"
proof (cases "bit w 15")
  case False
  have "w AND 0x8000 = 0" by (rule bit_word_eqI) (use False in \<open>auto simp: bit_and_iff bit_top16 simp del: bit_numeral_word_iff\<close>)
  then have "w + 0x8000 = w OR 0x8000" by (rule disjunctive_add_eq_or)
  moreover have "(w OR 0x8000) XOR 0x8000 = w"
    by (rule bit_word_eqI) (use False in \<open>auto simp: bit_or_iff bit_xor_iff bit_top16 simp del: bit_numeral_word_iff\<close>)
  ultimately show ?thesis by simp
next
  case True
  let ?u = "w XOR 0x8000"
  have "?u AND 0x8000 = 0" by (rule bit_word_eqI) (use True in \<open>auto simp: bit_and_iff bit_xor_iff bit_top16 simp del: bit_numeral_word_iff\<close>)
  then have "?u + 0x8000 = ?u OR 0x8000" by (rule disjunctive_add_eq_or)
  also have "\<dots> = w" by (rule bit_word_eqI) (use True in \<open>auto simp: bit_or_iff bit_xor_iff bit_top16 simp del: bit_numeral_word_iff\<close>)
  finally have "w + 0x8000 = ?u + 0x8000 + 0x8000" by simp
  also have "\<dots> = ?u" by simp
  finally show ?thesis by (simp add: xor.assoc)
qed

lemma pack_biased:
  assumes "unat v < 65536"
  shows "pack_lane (v - word_of_int 0x8000) XOR word_of_int (- 32768) = ucast v"
proof -
  have u: "uint v < 65536" using assms by (metis of_nat_less_iff of_nat_numeral uint_nat)
  have u0: "0 \<le> uint v" by (rule uint_ge_0)
  have "v - word_of_int 0x8000 = word_of_int (uint v - 32768)" by (simp only: wi_hom_sub [symmetric] word_of_int_uint)
  moreover have "in_int32 (uint v - 32768)" using u u0 by (simp add: in_int32_def del: uint_ge_0)
  ultimately have "sint (v - word_of_int 0x8000) = uint v - 32768" by (simp only: sint_word_of_int32)
  moreover have clamped: "max (- 32768) (min 32767 (uint v - 32768)) = uint v - 32768" using u u0 by linarith
  ultimately have "pack_lane (v - word_of_int 0x8000) = word_of_int (uint v - 32768)"
    by (simp only: pack_lane_def)
  also have "\<dots> = ucast v - 0x8000" by (simp only: wi_hom_sub [symmetric] ucast_eq) simp
  also have "\<dots> = ucast v + 0x8000" by simp
  finally have "pack_lane (v - word_of_int 0x8000) = ucast v + 0x8000" .
  moreover have "(word_of_int (- 32768) :: u16) = 0x8000" by simp
  ultimately show ?thesis by (simp only: plus_top_bit)
qed

end
