(* ===== verification/Vector_Kernels.thy ===== *)
theory Vector_Kernels
  imports Vector_Lanes
begin

text \<open>
  The colour transform of rows with vector instructions (\<^verbatim>\<open>src/src/simd/color_transform_sse2.cpp\<close>,
  \<^verbatim>\<open>color_transform_avx2.cpp\<close>). The intrinsics of the compiler are a parameter, a record of functions on registers; what
  their documentation says of the lanes is a hypothesis. The kernels then return what the scalar kernels return.
  \<open>_mm256_zeroupper\<close> has no effect on values.
\<close>

subsection \<open>Intrinsics\<close>

text \<open>Loads and stores are given the elements behind their pointer, in the type that the pointer was cast from.\<close>

record sse2_intrinsics =
  mm_set1_epi32 :: "int \<Rightarrow> m128"
  mm_set1_epi16 :: "int \<Rightarrow> m128"
  mm_setzero_si128 :: m128
  mm_loadl_epi64 :: "u16 list \<Rightarrow> m128"
  mm_loadu_si128_u16 :: "u16 list \<Rightarrow> m128"
  mm_loadu_si128_i32 :: "int list \<Rightarrow> m128"
  mm_unpacklo_epi16 :: "m128 \<Rightarrow> m128 \<Rightarrow> m128"
  mm_add_epi32 :: "m128 \<Rightarrow> m128 \<Rightarrow> m128"
  mm_sub_epi32 :: "m128 \<Rightarrow> m128 \<Rightarrow> m128"
  mm_srai_epi32 :: "m128 \<Rightarrow> nat \<Rightarrow> m128"
  mm_and_si128 :: "m128 \<Rightarrow> m128 \<Rightarrow> m128"
  mm_xor_si128 :: "m128 \<Rightarrow> m128 \<Rightarrow> m128"
  mm_packs_epi32 :: "m128 \<Rightarrow> m128 \<Rightarrow> m128"
  mm_storel_epi64 :: "m128 \<Rightarrow> u16 list"
  mm_storeu_si128_u16 :: "m128 \<Rightarrow> u16 list"
  mm_storeu_si128_i32 :: "m128 \<Rightarrow> int list"

definition sse2_documented :: "'a sse2_intrinsics_scheme \<Rightarrow> bool" where
  "sse2_documented ops \<longleftrightarrow>
     (\<forall>x. \<forall>i < 4. lane32 (mm_set1_epi32 ops x) i = word_of_int x) \<and>
     (\<forall>x. \<forall>i < 8. lane16 (mm_set1_epi16 ops x) i = word_of_int x) \<and>
     mm_setzero_si128 ops = 0 \<and>
     (\<forall>xs. length xs = 4 \<longrightarrow> (\<forall>i < 4. lane16 (mm_loadl_epi64 ops xs) i = xs ! i)) \<and>
     (\<forall>xs. length xs = 8 \<longrightarrow> (\<forall>i < 8. lane16 (mm_loadu_si128_u16 ops xs) i = xs ! i)) \<and>
     (\<forall>xs. length xs = 4 \<longrightarrow> (\<forall>i < 4. lane32 (mm_loadu_si128_i32 ops xs) i = word_of_int (xs ! i))) \<and>
     (\<forall>v w. \<forall>i < 4. lane16 (mm_unpacklo_epi16 ops v w) (2 * i) = lane16 v i \<and> lane16 (mm_unpacklo_epi16 ops v w) (2 * i + 1) = lane16 w i) \<and>
     (\<forall>v w. \<forall>i < 4. lane32 (mm_add_epi32 ops v w) i = lane32 v i + lane32 w i) \<and>
     (\<forall>v w. \<forall>i < 4. lane32 (mm_sub_epi32 ops v w) i = lane32 v i - lane32 w i) \<and>
     (\<forall>v n. \<forall>i < 4. n < 32 \<longrightarrow> lane32 (mm_srai_epi32 ops v n) i = signed_drop_bit n (lane32 v i)) \<and>
     (\<forall>v w. mm_and_si128 ops v w = v AND w) \<and> (\<forall>v w. mm_xor_si128 ops v w = v XOR w) \<and>
     (\<forall>v w. \<forall>i < 4. lane16 (mm_packs_epi32 ops v w) i = pack_lane (lane32 v i) \<and>
        lane16 (mm_packs_epi32 ops v w) (i + 4) = pack_lane (lane32 w i)) \<and>
     (\<forall>v. mm_storel_epi64 ops v = map (lane16 v) [0..<4]) \<and>
     (\<forall>v. mm_storeu_si128_u16 ops v = map (lane16 v) [0..<8]) \<and>
     (\<forall>v. mm_storeu_si128_i32 ops v = map (\<lambda>i. sint (lane32 v i)) [0..<4])"

record avx2_intrinsics = sse2_intrinsics +
  mm256_set1_epi32 :: "int \<Rightarrow> m256"
  mm256_cvtepu16_epi32 :: "m128 \<Rightarrow> m256"
  mm256_loadu_si256 :: "int list \<Rightarrow> m256"
  mm256_add_epi32 :: "m256 \<Rightarrow> m256 \<Rightarrow> m256"
  mm256_sub_epi32 :: "m256 \<Rightarrow> m256 \<Rightarrow> m256"
  mm256_srai_epi32 :: "m256 \<Rightarrow> nat \<Rightarrow> m256"
  mm256_and_si256 :: "m256 \<Rightarrow> m256 \<Rightarrow> m256"
  mm256_castsi256_si128 :: "m256 \<Rightarrow> m128"
  mm256_extracti128_si256 :: "m256 \<Rightarrow> nat \<Rightarrow> m128"
  mm256_storeu_si256 :: "m256 \<Rightarrow> int list"

definition avx2_documented :: "'a avx2_intrinsics_scheme \<Rightarrow> bool" where
  "avx2_documented ops \<longleftrightarrow>
     sse2_documented ops \<and>
     (\<forall>x. \<forall>i < 8. lane32 (mm256_set1_epi32 ops x) i = word_of_int x) \<and>
     (\<forall>v. \<forall>i < 8. lane32 (mm256_cvtepu16_epi32 ops v) i = ucast (lane16 v i)) \<and>
     (\<forall>xs. length xs = 8 \<longrightarrow> (\<forall>i < 8. lane32 (mm256_loadu_si256 ops xs) i = word_of_int (xs ! i))) \<and>
     (\<forall>v w. \<forall>i < 8. lane32 (mm256_add_epi32 ops v w) i = lane32 v i + lane32 w i) \<and>
     (\<forall>v w. \<forall>i < 8. lane32 (mm256_sub_epi32 ops v w) i = lane32 v i - lane32 w i) \<and>
     (\<forall>v n. \<forall>i < 8. n < 32 \<longrightarrow> lane32 (mm256_srai_epi32 ops v n) i = signed_drop_bit n (lane32 v i)) \<and>
     (\<forall>v w. mm256_and_si256 ops v w = v AND w) \<and>
     (\<forall>v. \<forall>i < 4. lane32 (mm256_castsi256_si128 ops v) i = lane32 v i) \<and>
     (\<forall>v. \<forall>i < 4. lane32 (mm256_extracti128_si256 ops v 1) i = lane32 v (i + 4)) \<and>
     (\<forall>v. mm256_storeu_si256 ops v = map (\<lambda>i. sint (lane32 v i)) [0..<8])"

subsection \<open>The loop over a row\<close>

text \<open>The elements behind a pointer into a row.\<close>

definition row_part :: "'a list \<Rightarrow> nat \<Rightarrow> nat \<Rightarrow> 'a list" where
  "row_part row index n = map (\<lambda>i. row ! (index + i)) [0..<n]"

text \<open>Vectors while one fits, the rest of the row by the scalar kernel.\<close>

function vector_loop ::
  "nat \<Rightarrow> (nat \<Rightarrow> 'a list \<times> 'a list \<times> 'a list) \<Rightarrow> (nat \<Rightarrow> 'a list \<times> 'a list \<times> 'a list) \<Rightarrow> nat \<Rightarrow> nat \<Rightarrow>
     'a list \<times> 'a list \<times> 'a list" where
  "vector_loop lanes body remainder count index =
     (if 0 < lanes \<and> index + lanes \<le> count then
        let (a, b, c) = body index; (as, bs, cs) = vector_loop lanes body remainder count (index + lanes)
        in (a @ as, b @ bs, c @ cs)
      else remainder index)"
  by auto
termination by (relation "measure (\<lambda>(lanes, body, remainder, count, index). count - index)") auto

declare vector_loop.simps [simp del]

lemma vector_loop_map:
  assumes body: "\<And>index. index + lanes \<le> count \<Longrightarrow>
      body index = (map f [index..<index + lanes], map g [index..<index + lanes], map h [index..<index + lanes])"
    and remainder: "\<And>index. index \<le> count \<Longrightarrow> remainder index = (map f [index..<count], map g [index..<count], map h [index..<count])"
    and "index \<le> count"
  shows "vector_loop lanes body remainder count index = (map f [index..<count], map g [index..<count], map h [index..<count])"
  using assms(3)
proof (induction "count - index" arbitrary: index rule: less_induct)
  case less
  show ?case
  proof (cases "0 < lanes \<and> index + lanes \<le> count")
    case True
    have split: "[index..<count] = [index..<index + lanes] @ [index + lanes..<count]"
      using True upt_add_eq_append [of index "index + lanes" "count - (index + lanes)"] by simp
    have "vector_loop lanes body remainder count (index + lanes) =
        (map f [index + lanes..<count], map g [index + lanes..<count], map h [index + lanes..<count])"
      using True by (intro less.hyps) auto
    with True show ?thesis by (subst vector_loop.simps) (simp add: body split)
  next
    case False
    then show ?thesis by (subst vector_loop.simps) (simp only: if_not_P remainder [OF less.prems] if_False)
  qed
qed

subsection \<open>SSE2\<close>

definition forward_vector_sse2 ::
  "'a sse2_intrinsics_scheme \<Rightarrow> u8 \<Rightarrow> bool \<Rightarrow> u16 list \<Rightarrow> u16 list \<Rightarrow> u16 list \<Rightarrow> int list \<times> int list \<times> int list" where
  "forward_vector_sse2 ops bits_per_raw_sample has_extra_plane r g b =
     (let offset_value = 2 ^ unat bits_per_raw_sample;
          coded_mask_value = offset_value * 2 - 1;
          offset = mm_set1_epi32 ops offset_value;
          coded_mask = mm_set1_epi32 ops coded_mask_value;
          zero = mm_setzero_si128 ops;
          compatibility_layout = (9 \<le> bits_per_raw_sample \<and> bits_per_raw_sample \<le> 15 \<and> \<not> has_extra_plane);
          rv = mm_unpacklo_epi16 ops (mm_loadl_epi64 ops r) zero;
          gv = mm_unpacklo_epi16 ops (mm_loadl_epi64 ops g) zero;
          bv = mm_unpacklo_epi16 ops (mm_loadl_epi64 ops b) zero;
          base = (if compatibility_layout then bv else gv);
          signed_cb = (if compatibility_layout then mm_sub_epi32 ops gv bv else mm_sub_epi32 ops bv gv);
          signed_cr = (if compatibility_layout then mm_sub_epi32 ops rv bv else mm_sub_epi32 ops rv gv);
          correction = mm_srai_epi32 ops (mm_add_epi32 ops signed_cb signed_cr) 2;
          yv = mm_and_si128 ops (mm_add_epi32 ops base correction) coded_mask;
          cbv = mm_add_epi32 ops signed_cb offset;
          crv = mm_add_epi32 ops signed_cr offset
      in (mm_storeu_si128_i32 ops yv, mm_storeu_si128_i32 ops cbv, mm_storeu_si128_i32 ops crv))"

text \<open>\<open>compiled\<close> is whether the translation unit was compiled with the instruction set.\<close>

definition forward_color_transform_row_sse2 :: "bool \<Rightarrow> 'a sse2_intrinsics_scheme \<Rightarrow> forward_row" where
  "forward_color_transform_row_sse2 compiled ops r g b count bits_per_raw_sample has_extra_plane =
     (if count = 0 then ([], [], [])
      else if \<not> compiled \<or> bits_per_raw_sample = 0 \<or> 16 < bits_per_raw_sample
      then forward_color_transform_row_scalar r g b count bits_per_raw_sample has_extra_plane
      else
        vector_loop 4
          (\<lambda>index. forward_vector_sse2 ops bits_per_raw_sample has_extra_plane
             (row_part r index 4) (row_part g index 4) (row_part b index 4))
          (\<lambda>index. forward_color_transform_row_scalar (row_part r index (count - index)) (row_part g index (count - index))
             (row_part b index (count - index)) (count - index) bits_per_raw_sample has_extra_plane)
          count 0)"

definition store_samples_sse2 :: "'a sse2_intrinsics_scheme \<Rightarrow> m128 \<Rightarrow> m128 \<Rightarrow> u16 list" where
  "store_samples_sse2 ops sample_mask register =
     (let packing_bias = mm_set1_epi32 ops 0x8000;
          output_bias = mm_set1_epi16 ops (- 32768);
          adjusted = mm_sub_epi32 ops (mm_and_si128 ops register sample_mask) packing_bias;
          packed = mm_xor_si128 ops (mm_packs_epi32 ops adjusted (mm_setzero_si128 ops)) output_bias
      in mm_storel_epi64 ops packed)"

definition inverse_vector_sse2 ::
  "'a sse2_intrinsics_scheme \<Rightarrow> u8 \<Rightarrow> bool \<Rightarrow> int list \<Rightarrow> int list \<Rightarrow> int list \<Rightarrow> u16 list \<times> u16 list \<times> u16 list" where
  "inverse_vector_sse2 ops bits_per_raw_sample has_extra_plane y cb cr =
     (let offset_value = 2 ^ unat bits_per_raw_sample;
          offset = mm_set1_epi32 ops offset_value;
          sample_mask = mm_set1_epi32 ops (offset_value - 1);
          compatibility_layout = (9 \<le> bits_per_raw_sample \<and> bits_per_raw_sample \<le> 15 \<and> \<not> has_extra_plane);
          yv = mm_loadu_si128_i32 ops y;
          signed_cb = mm_sub_epi32 ops (mm_loadu_si128_i32 ops cb) offset;
          signed_cr = mm_sub_epi32 ops (mm_loadu_si128_i32 ops cr) offset;
          correction = mm_srai_epi32 ops (mm_add_epi32 ops signed_cb signed_cr) 2;
          base = mm_sub_epi32 ops yv correction;
          rv = mm_add_epi32 ops signed_cr base;
          gv = (if compatibility_layout then mm_add_epi32 ops signed_cb base else base);
          bv = (if compatibility_layout then base else mm_add_epi32 ops signed_cb base)
      in (store_samples_sse2 ops sample_mask rv, store_samples_sse2 ops sample_mask gv, store_samples_sse2 ops sample_mask bv))"

definition inverse_color_transform_row_sse2 :: "bool \<Rightarrow> 'a sse2_intrinsics_scheme \<Rightarrow> inverse_row" where
  "inverse_color_transform_row_sse2 compiled ops y cb cr count bits_per_raw_sample has_extra_plane =
     (if count = 0 then ([], [], [])
      else if \<not> compiled \<or> bits_per_raw_sample = 0 \<or> 16 < bits_per_raw_sample
      then inverse_color_transform_row_scalar y cb cr count bits_per_raw_sample has_extra_plane
      else
        vector_loop 4
          (\<lambda>index. inverse_vector_sse2 ops bits_per_raw_sample has_extra_plane
             (row_part y index 4) (row_part cb index 4) (row_part cr index 4))
          (\<lambda>index. inverse_color_transform_row_scalar (row_part y index (count - index)) (row_part cb index (count - index))
             (row_part cr index (count - index)) (count - index) bits_per_raw_sample has_extra_plane)
          count 0)"

subsection \<open>AVX2\<close>

definition forward_vector_avx2 ::
  "'a avx2_intrinsics_scheme \<Rightarrow> u8 \<Rightarrow> bool \<Rightarrow> u16 list \<Rightarrow> u16 list \<Rightarrow> u16 list \<Rightarrow> int list \<times> int list \<times> int list" where
  "forward_vector_avx2 ops bits_per_raw_sample has_extra_plane r g b =
     (let offset_value = 2 ^ unat bits_per_raw_sample;
          coded_mask_value = offset_value * 2 - 1;
          offset = mm256_set1_epi32 ops offset_value;
          coded_mask = mm256_set1_epi32 ops coded_mask_value;
          compatibility_layout = (9 \<le> bits_per_raw_sample \<and> bits_per_raw_sample \<le> 15 \<and> \<not> has_extra_plane);
          rv = mm256_cvtepu16_epi32 ops (mm_loadu_si128_u16 ops r);
          gv = mm256_cvtepu16_epi32 ops (mm_loadu_si128_u16 ops g);
          bv = mm256_cvtepu16_epi32 ops (mm_loadu_si128_u16 ops b);
          base = (if compatibility_layout then bv else gv);
          signed_cb = (if compatibility_layout then mm256_sub_epi32 ops gv bv else mm256_sub_epi32 ops bv gv);
          signed_cr = (if compatibility_layout then mm256_sub_epi32 ops rv bv else mm256_sub_epi32 ops rv gv);
          correction = mm256_srai_epi32 ops (mm256_add_epi32 ops signed_cb signed_cr) 2;
          yv = mm256_and_si256 ops (mm256_add_epi32 ops base correction) coded_mask;
          cbv = mm256_add_epi32 ops signed_cb offset;
          crv = mm256_add_epi32 ops signed_cr offset
      in (mm256_storeu_si256 ops yv, mm256_storeu_si256 ops cbv, mm256_storeu_si256 ops crv))"

definition forward_color_transform_row_avx2 :: "bool \<Rightarrow> 'a avx2_intrinsics_scheme \<Rightarrow> forward_row" where
  "forward_color_transform_row_avx2 compiled ops r g b count bits_per_raw_sample has_extra_plane =
     (if count = 0 then ([], [], [])
      else if \<not> compiled \<or> bits_per_raw_sample = 0 \<or> 16 < bits_per_raw_sample
      then forward_color_transform_row_scalar r g b count bits_per_raw_sample has_extra_plane
      else
        vector_loop 8
          (\<lambda>index. forward_vector_avx2 ops bits_per_raw_sample has_extra_plane
             (row_part r index 8) (row_part g index 8) (row_part b index 8))
          (\<lambda>index. forward_color_transform_row_scalar (row_part r index (count - index)) (row_part g index (count - index))
             (row_part b index (count - index)) (count - index) bits_per_raw_sample has_extra_plane)
          count 0)"

definition store_samples_avx2 :: "'a avx2_intrinsics_scheme \<Rightarrow> m256 \<Rightarrow> m256 \<Rightarrow> u16 list" where
  "store_samples_avx2 ops sample_mask register =
     (let packing_bias = mm256_set1_epi32 ops 0x8000;
          output_bias = mm_set1_epi16 ops (- 32768);
          adjusted = mm256_sub_epi32 ops (mm256_and_si256 ops register sample_mask) packing_bias;
          low = mm256_castsi256_si128 ops adjusted;
          high = mm256_extracti128_si256 ops adjusted 1;
          packed = mm_xor_si128 ops (mm_packs_epi32 ops low high) output_bias
      in mm_storeu_si128_u16 ops packed)"

definition inverse_vector_avx2 ::
  "'a avx2_intrinsics_scheme \<Rightarrow> u8 \<Rightarrow> bool \<Rightarrow> int list \<Rightarrow> int list \<Rightarrow> int list \<Rightarrow> u16 list \<times> u16 list \<times> u16 list" where
  "inverse_vector_avx2 ops bits_per_raw_sample has_extra_plane y cb cr =
     (let offset_value = 2 ^ unat bits_per_raw_sample;
          offset = mm256_set1_epi32 ops offset_value;
          sample_mask = mm256_set1_epi32 ops (offset_value - 1);
          compatibility_layout = (9 \<le> bits_per_raw_sample \<and> bits_per_raw_sample \<le> 15 \<and> \<not> has_extra_plane);
          yv = mm256_loadu_si256 ops y;
          signed_cb = mm256_sub_epi32 ops (mm256_loadu_si256 ops cb) offset;
          signed_cr = mm256_sub_epi32 ops (mm256_loadu_si256 ops cr) offset;
          correction = mm256_srai_epi32 ops (mm256_add_epi32 ops signed_cb signed_cr) 2;
          base = mm256_sub_epi32 ops yv correction;
          rv = mm256_add_epi32 ops signed_cr base;
          gv = (if compatibility_layout then mm256_add_epi32 ops signed_cb base else base);
          bv = (if compatibility_layout then base else mm256_add_epi32 ops signed_cb base)
      in (store_samples_avx2 ops sample_mask rv, store_samples_avx2 ops sample_mask gv, store_samples_avx2 ops sample_mask bv))"

definition inverse_color_transform_row_avx2 :: "bool \<Rightarrow> 'a avx2_intrinsics_scheme \<Rightarrow> inverse_row" where
  "inverse_color_transform_row_avx2 compiled ops y cb cr count bits_per_raw_sample has_extra_plane =
     (if count = 0 then ([], [], [])
      else if \<not> compiled \<or> bits_per_raw_sample = 0 \<or> 16 < bits_per_raw_sample
      then inverse_color_transform_row_scalar y cb cr count bits_per_raw_sample has_extra_plane
      else
        vector_loop 8
          (\<lambda>index. inverse_vector_avx2 ops bits_per_raw_sample has_extra_plane
             (row_part y index 8) (row_part cb index 8) (row_part cr index 8))
          (\<lambda>index. inverse_color_transform_row_scalar (row_part y index (count - index)) (row_part cb index (count - index))
             (row_part cr index (count - index)) (count - index) bits_per_raw_sample has_extra_plane)
          count 0)"

subsection \<open>The lanes of a vector\<close>

lemma sse2_lanes:
  assumes "sse2_documented ops"
  shows "i < 4 \<Longrightarrow> lane32 (mm_set1_epi32 ops x) i = word_of_int x" and "i < 8 \<Longrightarrow> lane16 (mm_set1_epi16 ops x) i = word_of_int x"
    and "length ws = 4 \<Longrightarrow> i < 4 \<Longrightarrow> lane16 (mm_loadl_epi64 ops ws) i = ws ! i"
    and "length ws = 8 \<Longrightarrow> i < 8 \<Longrightarrow> lane16 (mm_loadu_si128_u16 ops ws) i = ws ! i"
    and "length xs = 4 \<Longrightarrow> i < 4 \<Longrightarrow> lane32 (mm_loadu_si128_i32 ops xs) i = word_of_int (xs ! i)"
    and "i < 4 \<Longrightarrow> lane32 (mm_unpacklo_epi16 ops v (mm_setzero_si128 ops)) i = ucast (lane16 v i)"
    and "i < 4 \<Longrightarrow> lane32 (mm_add_epi32 ops v w) i = lane32 v i + lane32 w i"
    and "i < 4 \<Longrightarrow> lane32 (mm_sub_epi32 ops v w) i = lane32 v i - lane32 w i"
    and "i < 4 \<Longrightarrow> lane32 (mm_srai_epi32 ops v 2) i = signed_drop_bit 2 (lane32 v i)"
    and "mm_and_si128 ops v w = v AND w" and "mm_xor_si128 ops v w = v XOR w"
    and "i < 4 \<Longrightarrow> lane16 (mm_packs_epi32 ops v w) i = pack_lane (lane32 v i)"
    and "i < 4 \<Longrightarrow> lane16 (mm_packs_epi32 ops v w) (i + 4) = pack_lane (lane32 w i)"
    and "mm_storel_epi64 ops v = map (lane16 v) [0..<4]" and "mm_storeu_si128_u16 ops v = map (lane16 v) [0..<8]"
    and "mm_storeu_si128_i32 ops v = map (\<lambda>i. sint (lane32 v i)) [0..<4]"
proof -
  show "lane32 (mm_unpacklo_epi16 ops v (mm_setzero_si128 ops)) i = ucast (lane16 v i)" if "i < 4"
  proof -
    have "lane16 (0 :: m128) i = 0" by (simp add: lane16_def)
    then have "lane16 (mm_unpacklo_epi16 ops v (mm_setzero_si128 ops)) (2 * i + 1) = 0"
      using assms that unfolding sse2_documented_def by metis
    moreover have "lane16 (mm_unpacklo_epi16 ops v (mm_setzero_si128 ops)) (2 * i) = lane16 v i"
      using assms that unfolding sse2_documented_def by metis
    ultimately show ?thesis using that by (subst lane32_widened) simp_all
  qed
qed (use assms in \<open>simp_all add: sse2_documented_def\<close>)

lemma avx2_lanes:
  assumes "avx2_documented ops"
  shows "sse2_documented ops" and "i < 8 \<Longrightarrow> lane32 (mm256_set1_epi32 ops x) i = word_of_int x"
    and "i < 8 \<Longrightarrow> lane32 (mm256_cvtepu16_epi32 ops v) i = ucast (lane16 v i)"
    and "length xs = 8 \<Longrightarrow> i < 8 \<Longrightarrow> lane32 (mm256_loadu_si256 ops xs) i = word_of_int (xs ! i)"
    and "i < 8 \<Longrightarrow> lane32 (mm256_add_epi32 ops p q) i = lane32 p i + lane32 q i"
    and "i < 8 \<Longrightarrow> lane32 (mm256_sub_epi32 ops p q) i = lane32 p i - lane32 q i"
    and "i < 8 \<Longrightarrow> lane32 (mm256_srai_epi32 ops p 2) i = signed_drop_bit 2 (lane32 p i)"
    and "mm256_and_si256 ops p q = p AND q"
    and "i < 4 \<Longrightarrow> lane32 (mm256_castsi256_si128 ops p) i = lane32 p i"
    and "i < 4 \<Longrightarrow> lane32 (mm256_extracti128_si256 ops p 1) i = lane32 p (i + 4)"
    and "mm256_storeu_si256 ops p = map (\<lambda>i. sint (lane32 p i)) [0..<8]"
  using assms by (simp_all add: avx2_documented_def)

lemma forward_lane_codes:
  assumes "bits \<noteq> 0" and "bits \<le> 16"
  shows "code_y (forward_jpeg2000_rct r g b bits extra) = sint (fst (forward_lane bits extra (ucast r) (ucast g) (ucast b)))"
    and "code_cb (forward_jpeg2000_rct r g b bits extra) = sint (fst (snd (forward_lane bits extra (ucast r) (ucast g) (ucast b))))"
    and "code_cr (forward_jpeg2000_rct r g b bits extra) = sint (snd (snd (forward_lane bits extra (ucast r) (ucast g) (ucast b))))"
  using forward_lane_scalar [OF assms, of extra r g b] by (metis prod.collapse)+

lemma forward_vector_sse2_codes:
  assumes ops: "sse2_documented ops" and bits: "bits \<noteq> 0" "bits \<le> 16" and len: "length r = 4" "length g = 4" "length b = 4"
  shows "forward_vector_sse2 ops bits extra r g b =
    (map (\<lambda>i. code_y (forward_jpeg2000_rct (r ! i) (g ! i) (b ! i) bits extra)) [0..<4],
     map (\<lambda>i. code_cb (forward_jpeg2000_rct (r ! i) (g ! i) (b ! i) bits extra)) [0..<4],
     map (\<lambda>i. code_cr (forward_jpeg2000_rct (r ! i) (g ! i) (b ! i) bits extra)) [0..<4])"
proof -
  note lanes = sse2_lanes [OF ops] lane_bitwise
  show ?thesis
    unfolding forward_vector_sse2_def Let_def lanes(16) prod.inject swapped_layout_def [symmetric]
    by (intro conjI map_cong refl; cases "swapped_layout bits extra")
      (simp_all only: set_upt atLeastLessThan_iff lanes len forward_lane_codes [OF bits] forward_lane_def Let_def
        if_True if_False fst_conv snd_conv)
qed

lemma forward_vector_avx2_codes:
  assumes ops: "avx2_documented ops" and bits: "bits \<noteq> 0" "bits \<le> 16" and len: "length r = 8" "length g = 8" "length b = 8"
  shows "forward_vector_avx2 ops bits extra r g b =
    (map (\<lambda>i. code_y (forward_jpeg2000_rct (r ! i) (g ! i) (b ! i) bits extra)) [0..<8],
     map (\<lambda>i. code_cb (forward_jpeg2000_rct (r ! i) (g ! i) (b ! i) bits extra)) [0..<8],
     map (\<lambda>i. code_cr (forward_jpeg2000_rct (r ! i) (g ! i) (b ! i) bits extra)) [0..<8])"
proof -
  note lanes = avx2_lanes [OF ops] sse2_lanes(4) [OF avx2_lanes(1) [OF ops]] lane_bitwise
  show ?thesis
    unfolding forward_vector_avx2_def Let_def lanes(11) prod.inject swapped_layout_def [symmetric]
    by (intro conjI map_cong refl; cases "swapped_layout bits extra")
      (simp_all only: set_upt atLeastLessThan_iff lanes len forward_lane_codes [OF bits] forward_lane_def Let_def
        if_True if_False fst_conv snd_conv)
qed

subsection \<open>Stored samples\<close>

lemma upt8: "[0..<8] = [0..<4] @ map (\<lambda>i. i + 4) [0..<4]"
  by (simp add: upt_rec)

lemma store_samples_sse2_lanes:
  assumes ops: "sse2_documented ops" and small: "\<And>i. i < 4 \<Longrightarrow> unat (lane32 (v AND m) i) < 65536"
  shows "store_samples_sse2 ops m v = map (\<lambda>i. ucast (lane32 (v AND m) i)) [0..<4]"
proof -
  note lanes = sse2_lanes [OF ops]
  have bias: "i < 4 \<Longrightarrow> lane16 (mm_set1_epi16 ops x) i = word_of_int x" for i x using lanes(2) by simp
  show ?thesis
    unfolding store_samples_sse2_def Let_def lanes(14)
    by (intro map_cong refl)
      (simp only: set_upt atLeastLessThan_iff lanes(1,8,10-12) bias lane_bitwise(2) pack_biased small)
qed

lemma store_samples_avx2_lanes:
  assumes ops: "avx2_documented ops" and small: "\<And>i. i < 8 \<Longrightarrow> unat (lane32 (v AND m) i) < 65536"
  shows "store_samples_avx2 ops m v = map (\<lambda>i. ucast (lane32 (v AND m) i)) [0..<8]"
proof -
  note lanes = avx2_lanes [OF ops] and sse2 = sse2_lanes [OF avx2_lanes(1) [OF ops]]
  have wide: "i < 4 \<Longrightarrow> lane32 (mm256_set1_epi32 ops x) i = word_of_int x"
    "i < 4 \<Longrightarrow> lane32 (mm256_sub_epi32 ops p q) i = lane32 p i - lane32 q i"
    "i < 4 \<Longrightarrow> unat (lane32 (v AND m) i) < 65536"
    "i < 4 \<Longrightarrow> lane32 (mm256_set1_epi32 ops x) (i + 4) = word_of_int x"
    "i < 4 \<Longrightarrow> lane32 (mm256_sub_epi32 ops p q) (i + 4) = lane32 p (i + 4) - lane32 q (i + 4)"
    "i < 4 \<Longrightarrow> unat (lane32 (v AND m) (i + 4)) < 65536"
    "i < 4 \<Longrightarrow> lane16 (mm_set1_epi16 ops x) i = word_of_int x" "i < 4 \<Longrightarrow> lane16 (mm_set1_epi16 ops x) (i + 4) = word_of_int x"
    for i x p q using lanes(2,6) small sse2(2) by simp_all
  show ?thesis
    unfolding store_samples_avx2_def Let_def sse2(15) upt8 map_append map_map comp_def
    by (intro arg_cong2 [of _ _ _ _ append] map_cong refl)
      (simp_all only: set_upt atLeastLessThan_iff sse2(11-13) lanes(8-10) wide lane_bitwise(2) pack_biased)
qed

lemma inverse_lane_samples:
  assumes "bits \<noteq> 0" and "bits \<le> 16" and "moderate y" "moderate cb" "moderate cr"
  shows "rgb_r (inverse_jpeg2000_rct y cb cr bits extra) = ucast (fst (inverse_lane bits extra (word_of_int y) (word_of_int cb) (word_of_int cr)))"
    and "rgb_g (inverse_jpeg2000_rct y cb cr bits extra) = ucast (fst (snd (inverse_lane bits extra (word_of_int y) (word_of_int cb) (word_of_int cr))))"
    and "rgb_b (inverse_jpeg2000_rct y cb cr bits extra) = ucast (snd (snd (inverse_lane bits extra (word_of_int y) (word_of_int cb) (word_of_int cr))))"
    and "unat (fst (inverse_lane bits extra (word_of_int y) (word_of_int cb) (word_of_int cr))) < 65536"
    and "unat (fst (snd (inverse_lane bits extra (word_of_int y) (word_of_int cb) (word_of_int cr)))) < 65536"
    and "unat (snd (snd (inverse_lane bits extra (word_of_int y) (word_of_int cb) (word_of_int cr)))) < 65536"
  using inverse_lane_scalar [OF assms, of extra] by (metis prod.collapse)+

lemma inverse_vector_sse2_samples:
  assumes ops: "sse2_documented ops" and bits: "bits \<noteq> 0" "bits \<le> 16" and len: "length y = 4" "length cb = 4" "length cr = 4"
    and codes: "\<And>i. i < 4 \<Longrightarrow> moderate (y ! i) \<and> moderate (cb ! i) \<and> moderate (cr ! i)"
  shows "inverse_vector_sse2 ops bits extra y cb cr =
    (map (\<lambda>i. rgb_r (inverse_jpeg2000_rct (y ! i) (cb ! i) (cr ! i) bits extra)) [0..<4],
     map (\<lambda>i. rgb_g (inverse_jpeg2000_rct (y ! i) (cb ! i) (cr ! i) bits extra)) [0..<4],
     map (\<lambda>i. rgb_b (inverse_jpeg2000_rct (y ! i) (cb ! i) (cr ! i) bits extra)) [0..<4])"
proof -
  let ?lane = "\<lambda>i. inverse_lane bits extra (word_of_int (y ! i)) (word_of_int (cb ! i)) (word_of_int (cr ! i))"
  have "\<exists>rv gv bv m. inverse_vector_sse2 ops bits extra y cb cr =
      (store_samples_sse2 ops m rv, store_samples_sse2 ops m gv, store_samples_sse2 ops m bv) \<and>
      (\<forall>i < 4. lane32 (rv AND m) i = fst (?lane i) \<and> lane32 (gv AND m) i = fst (snd (?lane i)) \<and>
        lane32 (bv AND m) i = snd (snd (?lane i)))"
    unfolding inverse_vector_sse2_def Let_def swapped_layout_def [symmetric]
    by (intro exI conjI, rule refl, intro allI impI conjI; cases "swapped_layout bits extra")
      (simp_all only: sse2_lanes [OF ops] lane_bitwise(1) len inverse_lane_def Let_def if_True if_False fst_conv snd_conv simp_thms)
  then obtain rv gv bv m where store: "inverse_vector_sse2 ops bits extra y cb cr =
      (store_samples_sse2 ops m rv, store_samples_sse2 ops m gv, store_samples_sse2 ops m bv)" and
    lane: "\<And>i. i < 4 \<Longrightarrow> lane32 (rv AND m) i = fst (?lane i)" "\<And>i. i < 4 \<Longrightarrow> lane32 (gv AND m) i = fst (snd (?lane i))"
      "\<And>i. i < 4 \<Longrightarrow> lane32 (bv AND m) i = snd (snd (?lane i))" by blast
  note samples = inverse_lane_samples [OF bits, of "y ! i" "cb ! i" "cr ! i" extra for i]
  have small: "i < 4 \<Longrightarrow> unat (lane32 (rv AND m) i) < 65536" "i < 4 \<Longrightarrow> unat (lane32 (gv AND m) i) < 65536"
    "i < 4 \<Longrightarrow> unat (lane32 (bv AND m) i) < 65536" for i
    using codes samples(4-6) by (simp_all only: lane)
  have stored: "store_samples_sse2 ops m rv = map (\<lambda>i. ucast (lane32 (rv AND m) i)) [0..<4]"
    "store_samples_sse2 ops m gv = map (\<lambda>i. ucast (lane32 (gv AND m) i)) [0..<4]"
    "store_samples_sse2 ops m bv = map (\<lambda>i. ucast (lane32 (bv AND m) i)) [0..<4]"
    by (rule store_samples_sse2_lanes [OF ops], erule small)+
  show ?thesis
    unfolding store stored prod.inject
    by (intro conjI map_cong refl) (simp_all only: set_upt atLeastLessThan_iff lane samples(1-3) codes)
qed

lemma inverse_vector_avx2_samples:
  assumes ops: "avx2_documented ops" and bits: "bits \<noteq> 0" "bits \<le> 16" and len: "length y = 8" "length cb = 8" "length cr = 8"
    and codes: "\<And>i. i < 8 \<Longrightarrow> moderate (y ! i) \<and> moderate (cb ! i) \<and> moderate (cr ! i)"
  shows "inverse_vector_avx2 ops bits extra y cb cr =
    (map (\<lambda>i. rgb_r (inverse_jpeg2000_rct (y ! i) (cb ! i) (cr ! i) bits extra)) [0..<8],
     map (\<lambda>i. rgb_g (inverse_jpeg2000_rct (y ! i) (cb ! i) (cr ! i) bits extra)) [0..<8],
     map (\<lambda>i. rgb_b (inverse_jpeg2000_rct (y ! i) (cb ! i) (cr ! i) bits extra)) [0..<8])"
proof -
  let ?lane = "\<lambda>i. inverse_lane bits extra (word_of_int (y ! i)) (word_of_int (cb ! i)) (word_of_int (cr ! i))"
  have "\<exists>rv gv bv m. inverse_vector_avx2 ops bits extra y cb cr =
      (store_samples_avx2 ops m rv, store_samples_avx2 ops m gv, store_samples_avx2 ops m bv) \<and>
      (\<forall>i < 8. lane32 (rv AND m) i = fst (?lane i) \<and> lane32 (gv AND m) i = fst (snd (?lane i)) \<and>
        lane32 (bv AND m) i = snd (snd (?lane i)))"
    unfolding inverse_vector_avx2_def Let_def swapped_layout_def [symmetric]
    by (intro exI conjI, rule refl, intro allI impI conjI; cases "swapped_layout bits extra")
      (simp_all only: avx2_lanes [OF ops] lane_bitwise(1) len inverse_lane_def Let_def if_True if_False fst_conv snd_conv simp_thms)
  then obtain rv gv bv m where store: "inverse_vector_avx2 ops bits extra y cb cr =
      (store_samples_avx2 ops m rv, store_samples_avx2 ops m gv, store_samples_avx2 ops m bv)" and
    lane: "\<And>i. i < 8 \<Longrightarrow> lane32 (rv AND m) i = fst (?lane i)" "\<And>i. i < 8 \<Longrightarrow> lane32 (gv AND m) i = fst (snd (?lane i))"
      "\<And>i. i < 8 \<Longrightarrow> lane32 (bv AND m) i = snd (snd (?lane i))" by blast
  note samples = inverse_lane_samples [OF bits, of "y ! i" "cb ! i" "cr ! i" extra for i]
  have small: "i < 8 \<Longrightarrow> unat (lane32 (rv AND m) i) < 65536" "i < 8 \<Longrightarrow> unat (lane32 (gv AND m) i) < 65536"
    "i < 8 \<Longrightarrow> unat (lane32 (bv AND m) i) < 65536" for i
    using codes samples(4-6) by (simp_all only: lane)
  have stored: "store_samples_avx2 ops m rv = map (\<lambda>i. ucast (lane32 (rv AND m) i)) [0..<8]"
    "store_samples_avx2 ops m gv = map (\<lambda>i. ucast (lane32 (gv AND m) i)) [0..<8]"
    "store_samples_avx2 ops m bv = map (\<lambda>i. ucast (lane32 (bv AND m) i)) [0..<8]"
    by (rule store_samples_avx2_lanes [OF ops], erule small)+
  show ?thesis
    unfolding store stored prod.inject
    by (intro conjI map_cong refl) (simp_all only: set_upt atLeastLessThan_iff lane samples(1-3) codes)
qed

subsection \<open>Rows\<close>

lemma parts_map:
  "map (\<lambda>i. f (row_part r index n ! i) (row_part g index n ! i) (row_part b index n ! i)) [0..<n] =
    map (\<lambda>i. f (r ! i) (g ! i) (b ! i)) [index..<index + n]"
  by (rule nth_equalityI) (simp_all add: row_part_def)

lemma row_part_length: "length (row_part r index n) = n"
  by (simp add: row_part_def)

lemma forward_scalar_maps:
  "forward_color_transform_row_scalar r g b n bits extra =
    (map (\<lambda>i. code_y (forward_jpeg2000_rct (r ! i) (g ! i) (b ! i) bits extra)) [0..<n],
     map (\<lambda>i. code_cb (forward_jpeg2000_rct (r ! i) (g ! i) (b ! i) bits extra)) [0..<n],
     map (\<lambda>i. code_cr (forward_jpeg2000_rct (r ! i) (g ! i) (b ! i) bits extra)) [0..<n])"
  by (simp add: forward_color_transform_row_scalar_def)

lemma inverse_scalar_maps:
  "inverse_color_transform_row_scalar y cb cr n bits extra =
    (map (\<lambda>i. rgb_r (inverse_jpeg2000_rct (y ! i) (cb ! i) (cr ! i) bits extra)) [0..<n],
     map (\<lambda>i. rgb_g (inverse_jpeg2000_rct (y ! i) (cb ! i) (cr ! i) bits extra)) [0..<n],
     map (\<lambda>i. rgb_b (inverse_jpeg2000_rct (y ! i) (cb ! i) (cr ! i) bits extra)) [0..<n])"
  by (simp add: inverse_color_transform_row_scalar_def)

lemma forward_loop:
  assumes "\<And>r g b. length r = lanes \<Longrightarrow> length g = lanes \<Longrightarrow> length b = lanes \<Longrightarrow> vector r g b =
    (map (\<lambda>i. code_y (forward_jpeg2000_rct (r ! i) (g ! i) (b ! i) bits extra)) [0..<lanes],
     map (\<lambda>i. code_cb (forward_jpeg2000_rct (r ! i) (g ! i) (b ! i) bits extra)) [0..<lanes],
     map (\<lambda>i. code_cr (forward_jpeg2000_rct (r ! i) (g ! i) (b ! i) bits extra)) [0..<lanes])"
  shows "vector_loop lanes (\<lambda>index. vector (row_part r index lanes) (row_part g index lanes) (row_part b index lanes))
      (\<lambda>index. forward_color_transform_row_scalar (row_part r index (count - index)) (row_part g index (count - index))
         (row_part b index (count - index)) (count - index) bits extra) count 0 =
    forward_color_transform_row_scalar r g b count bits extra"
  unfolding forward_scalar_maps
  by (rule vector_loop_map)
    (simp_all add: assms row_part_length
      parts_map [of "\<lambda>r g b. code_y (forward_jpeg2000_rct r g b bits extra)"]
      parts_map [of "\<lambda>r g b. code_cb (forward_jpeg2000_rct r g b bits extra)"]
      parts_map [of "\<lambda>r g b. code_cr (forward_jpeg2000_rct r g b bits extra)"])

lemma inverse_loop:
  assumes "\<And>y cb cr. length y = lanes \<Longrightarrow> length cb = lanes \<Longrightarrow> length cr = lanes \<Longrightarrow>
      (\<And>i. i < lanes \<Longrightarrow> moderate (y ! i) \<and> moderate (cb ! i) \<and> moderate (cr ! i)) \<Longrightarrow> vector y cb cr =
    (map (\<lambda>i. rgb_r (inverse_jpeg2000_rct (y ! i) (cb ! i) (cr ! i) bits extra)) [0..<lanes],
     map (\<lambda>i. rgb_g (inverse_jpeg2000_rct (y ! i) (cb ! i) (cr ! i) bits extra)) [0..<lanes],
     map (\<lambda>i. rgb_b (inverse_jpeg2000_rct (y ! i) (cb ! i) (cr ! i) bits extra)) [0..<lanes])"
    and codes: "\<And>i. i < count \<Longrightarrow> moderate (y ! i) \<and> moderate (cb ! i) \<and> moderate (cr ! i)"
  shows "vector_loop lanes (\<lambda>index. vector (row_part y index lanes) (row_part cb index lanes) (row_part cr index lanes))
      (\<lambda>index. inverse_color_transform_row_scalar (row_part y index (count - index)) (row_part cb index (count - index))
         (row_part cr index (count - index)) (count - index) bits extra) count 0 =
    inverse_color_transform_row_scalar y cb cr count bits extra"
proof -
  have body: "vector (row_part y index lanes) (row_part cb index lanes) (row_part cr index lanes) =
      (map (\<lambda>i. rgb_r (inverse_jpeg2000_rct (y ! i) (cb ! i) (cr ! i) bits extra)) [index..<index + lanes],
       map (\<lambda>i. rgb_g (inverse_jpeg2000_rct (y ! i) (cb ! i) (cr ! i) bits extra)) [index..<index + lanes],
       map (\<lambda>i. rgb_b (inverse_jpeg2000_rct (y ! i) (cb ! i) (cr ! i) bits extra)) [index..<index + lanes])"
    if "index + lanes \<le> count" for index
  proof -
    have "moderate (row_part y index lanes ! i) \<and> moderate (row_part cb index lanes ! i) \<and> moderate (row_part cr index lanes ! i)"
      if "i < lanes" for i using codes [of "index + i"] that \<open>index + lanes \<le> count\<close> by (simp add: row_part_def)
    from assms(1) [OF row_part_length row_part_length row_part_length this] show ?thesis
      by (simp add: parts_map [of "\<lambda>y cb cr. rgb_r (inverse_jpeg2000_rct y cb cr bits extra)"]
        parts_map [of "\<lambda>y cb cr. rgb_g (inverse_jpeg2000_rct y cb cr bits extra)"]
        parts_map [of "\<lambda>y cb cr. rgb_b (inverse_jpeg2000_rct y cb cr bits extra)"])
  qed
  show ?thesis
    unfolding inverse_scalar_maps
    by (rule vector_loop_map)
      (simp_all add: body parts_map [of "\<lambda>y cb cr. rgb_r (inverse_jpeg2000_rct y cb cr bits extra)"]
        parts_map [of "\<lambda>y cb cr. rgb_g (inverse_jpeg2000_rct y cb cr bits extra)"]
        parts_map [of "\<lambda>y cb cr. rgb_b (inverse_jpeg2000_rct y cb cr bits extra)"])
qed

text \<open>The forward kernels agree on every row; the inverse kernels on rows of moderate codes.\<close>

lemma forward_rows:
  assumes bits: "bits \<noteq> 0" "bits \<le> 16"
  shows "sse2_documented ops \<Longrightarrow> forward_color_transform_row_sse2 compiled ops r g b count bits extra =
      forward_color_transform_row_scalar r g b count bits extra"
    and "avx2_documented ops' \<Longrightarrow> forward_color_transform_row_avx2 compiled ops' r g b count bits extra =
      forward_color_transform_row_scalar r g b count bits extra"
proof -
  have none: "forward_color_transform_row_scalar r g b 0 bits extra = ([], [], [])" by (simp add: forward_scalar_maps)
  show "forward_color_transform_row_sse2 compiled ops r g b count bits extra = forward_color_transform_row_scalar r g b count bits extra"
    if "sse2_documented ops"
  proof -
    have "vector_loop 4 (\<lambda>index. forward_vector_sse2 ops bits extra (row_part r index 4) (row_part g index 4) (row_part b index 4))
        (\<lambda>index. forward_color_transform_row_scalar (row_part r index (count - index)) (row_part g index (count - index))
           (row_part b index (count - index)) (count - index) bits extra) count 0 =
      forward_color_transform_row_scalar r g b count bits extra"
      by (rule forward_loop) (rule forward_vector_sse2_codes [OF that bits])
    with none show ?thesis by (auto simp only: forward_color_transform_row_sse2_def if_True if_False split: if_splits)
  qed
  show "forward_color_transform_row_avx2 compiled ops' r g b count bits extra = forward_color_transform_row_scalar r g b count bits extra"
    if "avx2_documented ops'"
  proof -
    have "vector_loop 8 (\<lambda>index. forward_vector_avx2 ops' bits extra (row_part r index 8) (row_part g index 8) (row_part b index 8))
        (\<lambda>index. forward_color_transform_row_scalar (row_part r index (count - index)) (row_part g index (count - index))
           (row_part b index (count - index)) (count - index) bits extra) count 0 =
      forward_color_transform_row_scalar r g b count bits extra"
      by (rule forward_loop) (rule forward_vector_avx2_codes [OF that bits])
    with none show ?thesis by (auto simp only: forward_color_transform_row_avx2_def if_True if_False split: if_splits)
  qed
qed

lemma forward_row_sse2:
  assumes "sse2_documented ops"
  shows "forward_color_transform_row_sse2 compiled ops = forward_color_transform_row_scalar"
proof (intro ext)
  fix r g b :: "u16 list" and count and bits :: u8 and extra
  show "forward_color_transform_row_sse2 compiled ops r g b count bits extra = forward_color_transform_row_scalar r g b count bits extra"
    using forward_rows(1) [OF _ _ assms, of bits compiled r g b count extra]
    by (cases "bits = 0 \<or> 16 < bits") (auto simp: forward_color_transform_row_sse2_def forward_scalar_maps not_less)
qed

lemma forward_row_avx2:
  assumes "avx2_documented ops"
  shows "forward_color_transform_row_avx2 compiled ops = forward_color_transform_row_scalar"
proof (intro ext)
  fix r g b :: "u16 list" and count and bits :: u8 and extra
  show "forward_color_transform_row_avx2 compiled ops r g b count bits extra = forward_color_transform_row_scalar r g b count bits extra"
    using forward_rows(2) [OF _ _ assms, of bits compiled r g b count extra]
    by (cases "bits = 0 \<or> 16 < bits") (auto simp: forward_color_transform_row_avx2_def forward_scalar_maps not_less)
qed

lemma inverse_row_sse2:
  assumes ops: "sse2_documented ops" and codes: "\<And>i. i < count \<Longrightarrow> moderate (y ! i) \<and> moderate (cb ! i) \<and> moderate (cr ! i)"
  shows "inverse_color_transform_row_sse2 compiled ops y cb cr count bits extra = inverse_color_transform_row_scalar y cb cr count bits extra"
proof (cases "bits = 0 \<or> 16 < bits")
  case True
  then show ?thesis by (auto simp: inverse_color_transform_row_sse2_def inverse_scalar_maps)
next
  case False
  then have bits: "bits \<noteq> 0" "bits \<le> 16" by auto
  have none: "inverse_color_transform_row_scalar y cb cr 0 bits extra = ([], [], [])" by (simp add: inverse_scalar_maps)
  have "vector_loop 4 (\<lambda>index. inverse_vector_sse2 ops bits extra (row_part y index 4) (row_part cb index 4) (row_part cr index 4))
      (\<lambda>index. inverse_color_transform_row_scalar (row_part y index (count - index)) (row_part cb index (count - index))
         (row_part cr index (count - index)) (count - index) bits extra) count 0 = inverse_color_transform_row_scalar y cb cr count bits extra"
  proof (rule inverse_loop)
    fix y cb cr :: "int list"
    assume "length y = 4" "length cb = 4" "length cr = 4" "\<And>i. i < 4 \<Longrightarrow> moderate (y ! i) \<and> moderate (cb ! i) \<and> moderate (cr ! i)"
    then show "inverse_vector_sse2 ops bits extra y cb cr =
      (map (\<lambda>i. rgb_r (inverse_jpeg2000_rct (y ! i) (cb ! i) (cr ! i) bits extra)) [0..<4],
       map (\<lambda>i. rgb_g (inverse_jpeg2000_rct (y ! i) (cb ! i) (cr ! i) bits extra)) [0..<4],
       map (\<lambda>i. rgb_b (inverse_jpeg2000_rct (y ! i) (cb ! i) (cr ! i) bits extra)) [0..<4])"
      by (rule inverse_vector_sse2_samples [OF ops bits])
  qed (rule codes)
  with none show ?thesis by (simp add: inverse_color_transform_row_sse2_def bits not_less)
qed

lemma inverse_row_avx2:
  assumes ops: "avx2_documented ops" and codes: "\<And>i. i < count \<Longrightarrow> moderate (y ! i) \<and> moderate (cb ! i) \<and> moderate (cr ! i)"
  shows "inverse_color_transform_row_avx2 compiled ops y cb cr count bits extra = inverse_color_transform_row_scalar y cb cr count bits extra"
proof (cases "bits = 0 \<or> 16 < bits")
  case True
  then show ?thesis by (auto simp: inverse_color_transform_row_avx2_def inverse_scalar_maps)
next
  case False
  then have bits: "bits \<noteq> 0" "bits \<le> 16" by auto
  have none: "inverse_color_transform_row_scalar y cb cr 0 bits extra = ([], [], [])" by (simp add: inverse_scalar_maps)
  have "vector_loop 8 (\<lambda>index. inverse_vector_avx2 ops bits extra (row_part y index 8) (row_part cb index 8) (row_part cr index 8))
      (\<lambda>index. inverse_color_transform_row_scalar (row_part y index (count - index)) (row_part cb index (count - index))
         (row_part cr index (count - index)) (count - index) bits extra) count 0 = inverse_color_transform_row_scalar y cb cr count bits extra"
  proof (rule inverse_loop)
    fix y cb cr :: "int list"
    assume "length y = 8" "length cb = 8" "length cr = 8" "\<And>i. i < 8 \<Longrightarrow> moderate (y ! i) \<and> moderate (cb ! i) \<and> moderate (cr ! i)"
    then show "inverse_vector_avx2 ops bits extra y cb cr =
      (map (\<lambda>i. rgb_r (inverse_jpeg2000_rct (y ! i) (cb ! i) (cr ! i) bits extra)) [0..<8],
       map (\<lambda>i. rgb_g (inverse_jpeg2000_rct (y ! i) (cb ! i) (cr ! i) bits extra)) [0..<8],
       map (\<lambda>i. rgb_b (inverse_jpeg2000_rct (y ! i) (cb ! i) (cr ! i) bits extra)) [0..<8])"
      by (rule inverse_vector_avx2_samples [OF ops bits])
  qed (rule codes)
  with none show ?thesis by (simp add: inverse_color_transform_row_avx2_def bits not_less)
qed

end
