(* ===== verification/Rgb_Example.thy ===== *)
theory Rgb_Example
  imports Decode_Schedule
begin

text \<open>
  The encoder evaluated on a colour picture: a row of eight green pixels in one bit, as a keyframe. The row is as long as
  one vector of the AVX2 kernels and two of the SSE2 kernels, so that sessions with this picture run the vector code on
  both sides.
\<close>

definition rgb_info :: stream_info where
  "rgb_info = new_stream_info\<lparr>si_width := 8, si_height := 1, si_bits_per_raw_sample := 1, si_color_space := Rgb\<rparr>"

definition rgb_stream :: stream_parameters where
  "rgb_stream = (profile_stream new_encoder_options rgb_info)\<lparr>sp_quant_table_sets := [make_zero_quant_table_set], sp_intra_only := True\<rparr>"

lemma rgb_stream_fields:
  "sp_version rgb_stream = 3" "sp_micro_version rgb_stream = 4" "sp_entropy_mode rgb_stream = RangeMode"
  "sp_width rgb_stream = 8" "sp_height rgb_stream = 1" "sp_bits_per_raw_sample rgb_stream = 1"
  "sp_colorspace_type rgb_stream = 1" "sp_chroma_planes rgb_stream" "\<not> sp_extra_plane rgb_stream"
  "sp_log2_h_chroma_subsample rgb_stream = 0" "sp_log2_v_chroma_subsample rgb_stream = 0"
  "sp_num_h_slices rgb_stream = 1" "sp_num_v_slices rgb_stream = 1"
  "sp_quant_table_sets rgb_stream = [make_zero_quant_table_set]" "sp_initial_states rgb_stream = []"
  "sp_state_transition rgb_stream = kDefaultStateTransition" "\<not> sp_error_status_enabled rgb_stream"
  "sp_intra_only rgb_stream"
  by (simp_all add: rgb_stream_def rgb_info_def profile_stream_def new_stream_info_def new_encoder_options_def
      new_stream_parameters_def)

lemma rgb_normalizes: "normalize_encoder_profile new_encoder_options rgb_info = Inr rgb_stream"
  by (simp add: normalize_encoder_profile_def rgb_stream_def rgb_info_def new_stream_info_def new_encoder_options_def
      is_supported_encoder_bit_depth_def is_supported_public_color_space_def has_invalid_rgb_geometry_def
      has_subsampling_without_chroma_def is_supported_chroma_subsampling_def Let_def profile_stream_def
      new_stream_parameters_def requires_version3_parallel_slice_limit_def kVersion3CifPixelCount_def
      empty_plane_region_def coded_plane_count_def plane_width_def plane_height_def is_chroma_plane_def
      subsampled_extent_def word_le_nat_alt upt_rec)

lemma rgb_geometry:
  "coded_plane_count rgb_stream = 3" "quant_table_set_index_count rgb_stream = 2" "cell_count rgb_stream = 1"
  "plane_width rgb_stream i = 8" "plane_height rgb_stream i = 1"
  "expected_plane_role rgb_stream 0 = RoleR" "expected_plane_role rgb_stream (Suc 0) = RoleG" "expected_plane_role rgb_stream (Suc (Suc 0)) = RoleB"
  "checked_slice_count rgb_stream = Inr 1" "footer_size rgb_stream = 3"
  by (simp_all add: coded_plane_count_def quant_table_set_index_count_def cell_count_def plane_width_def plane_height_def
      expected_plane_role_def checked_slice_count_def footer_size_def is_chroma_plane_def rgb_stream_fields Let_def size_max_def)

lemma rgb_grid_header: "grid_header rgb_stream 0 = tiny_header"
  by (simp add: grid_header_def tiny_header_def grid_cell_x_def grid_cell_y_def rgb_stream_fields rgb_geometry numeral_2_eq_2)

definition rgb_plane :: "plane_role \<Rightarrow> plane_view" where
  "rgb_plane role = \<lparr>pv_data = Some 0, pv_info = \<lparr>pi_role = role, pi_sample_format = UInt8, pi_width = 8, pi_height = 1,
     pi_stride_bytes = 8\<rparr>\<rparr>"

definition rgb_frame :: frame_view where
  "rgb_frame = \<lparr>fv_planes = Some [rgb_plane RoleR, rgb_plane RoleG, rgb_plane RoleB], fv_plane_count = 3\<rparr>"

definition green :: frame_memory where
  "green = [replicate 8 0, replicate 8 1, replicate 8 0]"

definition rgb_window :: plane_window where
  "rgb_window = \<lparr>pw_data = 0, pw_stride_bytes = 8, pw_width = 8, pw_height = 1, pw_sample_format = UInt8\<rparr>"

lemma rgb_validates: "validate_input rgb_stream rgb_frame = Inr ()"
  unfolding validate_input_Inr rgb_geometry
  by (simp add: supported_shape_def rgb_frame_def rgb_plane_def rgb_geometry rgb_stream_fields validate_input_plane_info_Inr
      expected_plane_info_def is_supported_decoder_bit_depth_def is_supported_syntax_colorspace_def has_invalid_rgb_geometry_def
      sample_format_for_bit_depth_def bytes_per_sample_def checked_plane_window_offset_def maximum_offset_def less_Suc_eq numeral_3_eq_3)

lemma rgb_raster:
  obtains sl where "apply_raster rgb_stream tiny_header new_slice_descriptor = Inr sl"
    and "validate_input_window rgb_stream rgb_frame sl = Inr [rgb_window, rgb_window, rgb_window]"
proof -
  let ?sl = "case apply_raster rgb_stream tiny_header new_slice_descriptor of Inr sl \<Rightarrow> sl"
  have header: "check_header_values rgb_stream 1 1 tiny_header = Inr ()"
    by (simp add: check_header_values_def tiny_header_def validate_picture_structure_def rgb_stream_fields rgb_geometry Let_def)
  have raster: "apply_raster rgb_stream tiny_header new_slice_descriptor = Inr ?sl"
    by (simp add: apply_raster_def rgb_stream_fields header)
  have sl: "sd_width ?sl = 8" "sd_height ?sl = 1" "sd_x ?sl = 0" "sd_y ?sl = 0" "sd_raster_x ?sl = 0" "sd_raster_y ?sl = 0" "sd_raster_width ?sl = 1" "sd_raster_height ?sl = 1"
    by (simp_all add: apply_raster_def rgb_stream_fields header [unfolded tiny_header_def] tiny_header_def slice_pixel_width_def slice_pixel_height_def
        slice_pixel_x_def slice_pixel_y_def scaled_grid_position_def)
  have window: "input_plane_window rgb_stream ?sl i (rgb_plane (expected_plane_role rgb_stream i)) = Inr rgb_window" for i
    by (simp add: input_plane_window_def rgb_plane_def rgb_window_def rgb_geometry rgb_stream_fields sl
        input_plane_x_def input_plane_y_def input_slice_plane_width_def input_slice_plane_height_def plane_extent_def is_chroma_plane_def
        slice_pixel_width_def slice_pixel_height_def slice_pixel_x_def slice_pixel_y_def scaled_grid_position_def
        sample_format_for_bit_depth_def checked_plane_row_bytes_def checked_plane_window_offset_def bytes_per_sample_def maximum_offset_def
        to_int64_def Let_def)
  from window [of 0] window [of "Suc 0"] window [of "Suc (Suc 0)"]
  have "validate_input_window rgb_stream rgb_frame ?sl = Inr [rgb_window, rgb_window, rgb_window]"
    by (simp add: validate_input_window_def sl rgb_geometry rgb_frame_def numeral_3_eq_3)
  with raster that show thesis by blast
qed

subsection \<open>The slice header\<close>

lemma rgb_prefix: "encode_slice_prefix rgb_stream tiny_header True True = Inr (header_encoder [253, 246] 266 175)"
proof -
  from rgb_raster tiny_raster obtain sl sl' where "apply_raster rgb_stream tiny_header new_slice_descriptor = Inr sl"
    and "apply_raster tiny_stream tiny_header new_slice_descriptor = Inr sl'" by metis
  then have "write_slice_header range_symbol_writer rgb_stream tiny_header = write_slice_header range_symbol_writer tiny_stream tiny_header"
    by (intro ext) (simp add: write_slice_header_def rgb_geometry tiny_geometry)
  then have "encode_slice_prefix rgb_stream tiny_header True True = encode_slice_prefix tiny_stream tiny_header True True"
    by (simp add: encode_slice_prefix_def rgb_stream_fields tiny_stream_fields)
  then show ?thesis by (simp add: tiny_prefix)
qed

subsection \<open>Symbols\<close>

definition rgb_encoder :: "bytes \<Rightarrow> u32 \<Rightarrow> u8 \<Rightarrow> u8 \<Rightarrow> u8 \<Rightarrow> range_encoder" where
  "rgb_encoder low rng s t u = new_range_encoder\<lparr>re_low_bytes := low, re_range := rng, re_initialized := True,
     re_contexts := \<lparr>bank_offsets = [0, 1], bank_sizes = [1, 1],
       scalar_contexts = [s # replicate 31 128, t # u # replicate 9 128 @ u # replicate 20 128]\<rparr>\<rparr>"

lemma rgb_usable: "re_usable (rgb_encoder low rng s t u) = Inr ()"
  by (simp add: re_usable_def rgb_encoder_def new_range_encoder_def)

lemma rgb_luma_zero:
  assumes "write_rac s True (rgb_encoder low rng s t u) = Inr (s', rgb_encoder low' rng' s t u)" and "length low < 100"
  shows "re_write_signed 0 0 0 (rgb_encoder low rng s t u) = Inr (rgb_encoder low' rng' s' t u)"
proof -
  have "re_write_symbol 0 0 True 0 False (rgb_encoder low rng s t u) = Inr (rgb_encoder low' rng' s t u\<lparr>re_contexts :=
      set_context_states 0 0 (s' # replicate 31 128) (re_contexts (rgb_encoder low' rng' s t u))\<rparr>)"
    by (rule zero_symbol [OF assms(1)])
      (use assms(2) in \<open>simp_all add: rgb_encoder_def new_range_encoder_def context_states_def context_index_def\<close>)
  then show ?thesis
    by (simp add: re_write_signed_def rgb_usable) (simp add: rgb_encoder_def set_context_states_def context_index_def)
qed

lemma rgb_chroma_zero:
  assumes "write_rac t True (rgb_encoder low rng s t u) = Inr (t', rgb_encoder low' rng' s t u)" and "length low < 100"
  shows "re_write_signed (Suc 0) 0 0 (rgb_encoder low rng s t u) = Inr (rgb_encoder low' rng' s t' u)"
proof -
  have "re_write_symbol (Suc 0) 0 True 0 False (rgb_encoder low rng s t u) = Inr (rgb_encoder low' rng' s t u\<lparr>re_contexts :=
      set_context_states (Suc 0) 0 (t' # u # replicate 9 128 @ u # replicate 20 128) (re_contexts (rgb_encoder low' rng' s t u))\<rparr>)"
    by (rule zero_symbol [OF assms(1)])
      (use assms(2) in \<open>simp_all add: rgb_encoder_def new_range_encoder_def context_states_def context_index_def\<close>)
  then show ?thesis
    by (simp add: re_write_signed_def rgb_usable) (simp add: rgb_encoder_def set_context_states_def context_index_def)
qed

lemma rgb_transitions:
  "kDefaultStateTransition ! 122 = 129" "kDefaultStateTransition ! 129 = 135" "kDefaultStateTransition ! 135 = 141"
  "kDefaultStateTransition ! 141 = 147" "kDefaultStateTransition ! 147 = 152" "kDefaultStateTransition ! 154 = 159"
  "kDefaultStateTransition ! 159 = 164" "kDefaultStateTransition ! 164 = 169" "kDefaultStateTransition ! 169 = 173"
  "kDefaultStateTransition ! 173 = 177" "kDefaultStateTransition ! 177 = 181" "kDefaultStateTransition ! 181 = 185"
  "range_zero_state kDefaultStateTransition 128 = 122" "range_zero_state kDefaultStateTransition 122 = 116"
  "range_zero_state kDefaultStateTransition 162 = 154"
  by (simp_all add: kDefaultStateTransition_def range_zero_state_def)

lemma rgb_encoder_fields:
  "re_range (rgb_encoder low rng s t u) = rng" "re_low_bytes (rgb_encoder low rng s t u) = low"
  "re_state_transition (rgb_encoder low rng s t u) = kDefaultStateTransition"
  "bank_sizes (re_contexts (rgb_encoder low rng s t u)) = [1, 1]"
  "context_states (Suc 0) 0 (re_contexts (rgb_encoder low rng s t u)) = t # u # replicate 9 128 @ u # replicate 20 128"
  by (simp_all add: rgb_encoder_def new_range_encoder_def context_states_def context_index_def)

lemma rgb_one_racs:
  "write_rac 128 False (rgb_encoder [254, 252, 189] 835 171 t u) = Inr (122, rgb_encoder [254, 252, 189] 418 171 t u)"
  "write_rac 128 False (rgb_encoder [254, 252, 189] 418 171 t u) = Inr (122, rgb_encoder [254, 252, 189, 0] 53504 171 t u)"
  "write_rac 128 False (rgb_encoder [254, 252, 189, 0] 53504 171 t u) = Inr (122, rgb_encoder [254, 252, 189, 0] 26752 171 t u)"
  "write_rac 162 False (rgb_encoder [254, 253, 35, 251] 389 171 t u) = Inr (154, rgb_encoder [254, 253, 35, 251, 0] 36608 171 t u)"
  "write_rac 122 False (rgb_encoder [254, 253, 35, 251, 0] 36608 171 t u) = Inr (116, rgb_encoder [254, 253, 35, 251, 0] 19162 171 t u)"
  "write_rac 122 False (rgb_encoder [254, 253, 35, 251, 0] 19162 171 t u) = Inr (116, rgb_encoder [254, 253, 35, 251, 0] 10031 171 t u)"
  by (simp_all add: write_rac_def rgb_encoder_def new_range_encoder_def rgb_transitions byte_vector_max_size_def Let_def)

lemma rgb_chroma_one:
  "re_write_signed (Suc 0) 0 1 (rgb_encoder [254, 252, 189] 835 171 128 128) = Inr (rgb_encoder [254, 252, 189, 0] 26752 171 122 122)"
  "re_write_signed (Suc 0) 0 1 (rgb_encoder [254, 253, 35, 251] 389 171 162 122) = Inr (rgb_encoder [254, 253, 35, 251, 0] 10031 171 154 116)"
proof -
  have decisions: "symbol_decisions True 1 False = [(0, False), (1, False), (11, False)]"
    by (simp add: symbol_decisions_def bit_width_def bit_width_loop.simps numeral_eq_Suc)
  have nth: "(replicate 9 128 @ u # replicate 20 (128 :: u8)) ! 9 = u"
    and upd: "(replicate 9 128 @ u # replicate 20 (128 :: u8))[9 := v] = replicate 9 128 @ v # replicate 20 128" for u v
    by (simp_all add: nth_append list_update_append)
  have set: "rgb_encoder low rng s t u\<lparr>re_contexts := set_context_states (Suc 0) 0 (t' # u' # replicate 9 128 @ u' # replicate 20 128)
      (re_contexts (rgb_encoder low rng s t u))\<rparr> = rgb_encoder low rng s t' u'" for low rng s t u t' u'
    by (simp add: rgb_encoder_def set_context_states_def context_index_def)
  show "re_write_signed (Suc 0) 0 1 (rgb_encoder [254, 252, 189] 835 171 128 128) = Inr (rgb_encoder [254, 252, 189, 0] 26752 171 122 122)"
    by (simp add: re_write_signed_def rgb_usable re_write_symbol_def rgb_encoder_fields decisions rgb_one_racs rgb_transitions nth upd set byte_vector_max_size_def Let_def)
  show "re_write_signed (Suc 0) 0 1 (rgb_encoder [254, 253, 35, 251] 389 171 162 122) = Inr (rgb_encoder [254, 253, 35, 251, 0] 10031 171 154 116)"
    by (simp add: re_write_signed_def rgb_usable re_write_symbol_def rgb_encoder_fields decisions rgb_one_racs rgb_transitions nth upd set byte_vector_max_size_def Let_def)
qed

subsection \<open>Lines\<close>

definition rgb_line :: "nat \<Rightarrow> int \<Rightarrow> line_state" where
  "rgb_line n v = \<lparr>ls_border_value = 0, ls_second_previous = replicate 8 0, ls_previous = replicate 8 0,
     ls_current = replicate n v @ replicate (8 - n) 0\<rparr>"

lemma rgb_line_next: "n < 8 \<Longrightarrow> set_current n v (rgb_line n v) = rgb_line (Suc n) v"
proof -
  assume "n < 8"
  then have "8 - n = Suc (8 - Suc n)" by simp
  then show ?thesis by (simp add: set_current_def rgb_line_def list_update_append replicate_app_Cons_same [symmetric])
qed

lemma rgb_line_prediction: "n < 8 \<Longrightarrow> 0 \<le> v \<Longrightarrow> predict_sample False (ls_neighbors (rgb_line n v) n) = (if n = 0 then 0 else v)"
  by (simp add: predict_sample_def median_predict_def median3_def ls_neighbors_def rgb_line_def nth_append)

lemma rgb_sample:
  assumes "n < 8" and "v \<in> {0, 1}" and "re_write_signed b 0 (if n = 0 then v else 0) writer = Inr writer'"
  shows "encode_sample make_zero_quant_table_set b v 2 False n (rgb_line n v) writer = Inr (rgb_line (Suc n) v, writer')"
proof -
  have "sample_difference v (if n = 0 then 0 else v) 2 = (if n = 0 then v else 0)"
    using assms(2) by (auto simp: sample_difference_def signed_modulo_int_def wrap_sample_difference_def to_int32_def Let_def)
  moreover have "0 \<le> v" using assms(2) by auto
  ultimately show ?thesis
    using assms(3) by (simp add: encode_sample_def zero_derive_context rgb_line_prediction [OF assms(1)] rgb_line_next [OF assms(1)] Let_def)
qed

text \<open>The symbols of the three lines.\<close>

lemma rgb_luma_racs:
  "write_rac 128 True (rgb_encoder [253, 246] 266 128 t u) = Inr (134, rgb_encoder [254, 123, 0] 34048 128 t u)"
  "write_rac 134 True (rgb_encoder [254, 123, 0] 34048 134 t u) = Inr (140, rgb_encoder [254, 186, 98] 17822 134 t u)"
  "write_rac 140 True (rgb_encoder [254, 186, 98] 17822 140 t u) = Inr (146, rgb_encoder [254, 217, 238] 9746 140 t u)"
  "write_rac 146 True (rgb_encoder [254, 217, 238] 9746 146 t u) = Inr (152, rgb_encoder [254, 234, 74] 5558 146 t u)"
  "write_rac 152 True (rgb_encoder [254, 234, 74] 5558 152 t u) = Inr (157, rgb_encoder [254, 243, 28] 3300 152 t u)"
  "write_rac 157 True (rgb_encoder [254, 243, 28] 3300 157 t u) = Inr (162, rgb_encoder [254, 248, 25] 2023 157 t u)"
  "write_rac 162 True (rgb_encoder [254, 248, 25] 2023 162 t u) = Inr (167, rgb_encoder [254, 251, 0] 1280 162 t u)"
  "write_rac 167 True (rgb_encoder [254, 251, 0] 1280 167 t u) = Inr (171, rgb_encoder [254, 252, 189] 835 167 t u)"
  by (simp_all add: write_rac_def rgb_encoder_def new_range_encoder_def add_to_low_def range_one_state_def default_transitions
      byte_vector_max_size_def Let_def)

lemma rgb_chroma_racs:
  "write_rac 122 True (rgb_encoder [254, 252, 189, 0] 26752 s 122 u) = Inr (129, rgb_encoder [254, 252, 243, 179] 12749 s 122 u)"
  "write_rac 129 True (rgb_encoder [254, 252, 243, 179] 12749 s 129 u) = Inr (135, rgb_encoder [254, 253, 12, 104] 6424 s 129 u)"
  "write_rac 135 True (rgb_encoder [254, 253, 12, 104] 6424 s 135 u) = Inr (141, rgb_encoder [254, 253, 24, 69] 3387 s 135 u)"
  "write_rac 141 True (rgb_encoder [254, 253, 24, 69] 3387 s 141 u) = Inr (147, rgb_encoder [254, 253, 30, 55] 1865 s 141 u)"
  "write_rac 147 True (rgb_encoder [254, 253, 30, 55] 1865 s 147 u) = Inr (152, rgb_encoder [254, 253, 33, 82] 1070 s 147 u)"
  "write_rac 152 True (rgb_encoder [254, 253, 33, 82] 1070 s 152 u) = Inr (157, rgb_encoder [254, 253, 35, 5] 635 s 152 u)"
  "write_rac 157 True (rgb_encoder [254, 253, 35, 5] 635 s 157 u) = Inr (162, rgb_encoder [254, 253, 35, 251] 389 s 157 u)"
  "write_rac 154 True (rgb_encoder [254, 253, 35, 251, 0] 10031 s 154 u) = Inr (159, rgb_encoder [254, 253, 36, 10, 157] 6034 s 154 u)"
  "write_rac 159 True (rgb_encoder [254, 253, 36, 10, 157] 6034 s 159 u) = Inr (164, rgb_encoder [254, 253, 36, 19, 140] 3747 s 159 u)"
  "write_rac 164 True (rgb_encoder [254, 253, 36, 19, 140] 3747 s 164 u) = Inr (169, rgb_encoder [254, 253, 36, 24, 207] 2400 s 164 u)"
  "write_rac 169 True (rgb_encoder [254, 253, 36, 24, 207] 2400 s 169 u) = Inr (173, rgb_encoder [254, 253, 36, 27, 255] 1584 s 169 u)"
  "write_rac 173 True (rgb_encoder [254, 253, 36, 27, 255] 1584 s 173 u) = Inr (177, rgb_encoder [254, 253, 36, 30, 1] 1070 s 173 u)"
  "write_rac 177 True (rgb_encoder [254, 253, 36, 30, 1] 1070 s 177 u) = Inr (181, rgb_encoder [254, 253, 36, 31, 76] 739 s 177 u)"
  "write_rac 181 True (rgb_encoder [254, 253, 36, 31, 76] 739 s 181 u) = Inr (185, rgb_encoder [254, 253, 36, 32, 37] 522 s 181 u)"
  by (simp_all add: write_rac_def rgb_encoder_def new_range_encoder_def add_to_low_def range_one_state_def default_transitions rgb_transitions
      byte_vector_max_size_def Let_def)

lemmas rgb_luma_symbols = rgb_luma_racs [THEN rgb_luma_zero, simplified]
lemmas rgb_chroma_symbols = rgb_chroma_racs [THEN rgb_chroma_zero, simplified]

lemma rgb_modes:
  "range_context_bank_index rgb_stream 0 = 0" "range_context_bank_index rgb_stream (Suc 0) = Suc 0"
  "range_context_bank_index rgb_stream 2 = Suc 0"
  by (simp_all add: range_context_bank_index_def plane_quant_table_set_index_slot_def is_chroma_plane_def rgb_stream_fields)

lemma eight: "[0..<8] = [0, Suc 0, 2, 3, 4, 5, 6, 7 :: nat]"
  by (simp add: upt_rec)

lemma rgb_rows:
  "loop_result (encode_rgb_sample rgb_stream input im make_zero_quant_table_set y [replicate 8 0, replicate 8 1, replicate 8 1] 0)
     [0..<8] (rgb_line 0 0) (rgb_encoder [253, 246] 266 128 128 128) = Inr (rgb_line 8 0, rgb_encoder [254, 252, 189] 835 171 128 128)"
  "loop_result (encode_rgb_sample rgb_stream input im make_zero_quant_table_set y [replicate 8 0, replicate 8 1, replicate 8 1] (Suc 0))
     [0..<8] (rgb_line 0 1) (rgb_encoder [254, 252, 189] 835 171 128 128) = Inr (rgb_line 8 1, rgb_encoder [254, 253, 35, 251] 389 171 162 122)"
  "loop_result (encode_rgb_sample rgb_stream input im make_zero_quant_table_set y [replicate 8 0, replicate 8 1, replicate 8 1] 2)
     [0..<8] (rgb_line 0 1) (rgb_encoder [254, 253, 35, 251] 389 171 162 122) = Inr (rgb_line 8 1, rgb_encoder [254, 253, 36, 32, 37] 522 171 185 116)"
  by (simp_all add: eight encode_rgb_sample_def rgb_modes rgb_stream_fields rgb_sample rgb_luma_symbols rgb_chroma_symbols rgb_chroma_one
      numeral_2_eq_2 [symmetric])

subsection \<open>The slice\<close>

lemma green_sample:
  "x < 8 \<Longrightarrow> read_sample rgb_stream [rgb_window, rgb_window, rgb_window] green 0 0 x = Inr 0"
  "x < 8 \<Longrightarrow> read_sample rgb_stream [rgb_window, rgb_window, rgb_window] green (Suc 0) 0 x = Inr 1"
  "x < 8 \<Longrightarrow> read_sample rgb_stream [rgb_window, rgb_window, rgb_window] green 2 0 x = Inr 0"
  by (simp_all add: read_sample_def load_sample_def rgb_stream_fields row_u8_def window_row_def rgb_window_def row_address_def green_def
      maximum_sample_def word_le_nat_alt)

lemma green_pixels: "read_rgb_pixels rgb_stream [rgb_window, rgb_window, rgb_window] green 0 [0..<8] = Inr (replicate 8 (0, 1, 0))"
proof -
  have "\<forall>x \<in> set xs. x < 8 \<Longrightarrow> read_rgb_pixels rgb_stream [rgb_window, rgb_window, rgb_window] green 0 xs = Inr (replicate (length xs) (0, 1, 0))" for xs
    by (induction xs) (simp_all add: green_sample)
  from this [of "[0..<8]"] show ?thesis by simp
qed

lemma green_codes:
  "forward_color_transform_row scalar_kernels (replicate 8 0) (replicate 8 1) (replicate 8 0) 8 1 False =
     (replicate 8 0, replicate 8 1, replicate 8 1)"
proof -
  have "forward_jpeg2000_rct 0 1 0 1 False = \<lparr>code_y = 0, code_cb = 1, code_cr = 1\<rparr>"
    by (simp add: forward_jpeg2000_rct_def arithmetic_right_shift_def to_int32_def word_le_nat_alt Let_def)
  then show ?thesis by (simp add: scalar_kernels_def forward_color_transform_row_scalar_def eight Let_def) (simp add: numeral_eq_Suc)
qed

definition green_lines :: "line_state list" where
  "green_lines = [rgb_line 0 0, rgb_line 0 0, rgb_line 0 0]"

definition green_next_lines :: "line_state list" where
  "green_next_lines = map ls_swap_lines [rgb_line 8 0, rgb_line 8 1, rgb_line 8 1]"

lemma rgb_lines: "ss_reset_stream_window rgb_stream [rgb_window, rgb_window, rgb_window] state = Inr (state\<lparr>ss_line_states := green_lines\<rparr>)"
  by (simp add: ss_reset_stream_window_def window_plane_count_def window_plane_width_def rgb_window_def plane_border_value_def
      rgb_stream_fields ls_reset_def rgb_line_def green_lines_def upt_rec)

lemma rgb_line_fresh: "rgb_line 0 v = rgb_line 0 0" by (simp add: rgb_line_def)

lemma rgb_samples:
  assumes "ss_line_states state = green_lines"
  shows "encode_samples rgb_stream scalar_kernels [rgb_window, rgb_window, rgb_window] green state (rgb_encoder [253, 246] 266 128 128 128) =
    Inr (state\<lparr>ss_line_states := green_next_lines\<rparr>, rgb_encoder [254, 253, 36, 32, 37] 522 171 185 116)"
proof -
  have window: "window_plane_width [rgb_window, rgb_window, rgb_window] 0 = 8" "window_plane_height [rgb_window, rgb_window, rgb_window] 0 = 1"
    by (simp_all add: window_plane_width_def window_plane_height_def rgb_window_def)
  have planes: "[0..<3] = [0, Suc 0, 2 :: nat]" by (simp add: upt_rec)
  show ?thesis
    using assms
    by (simp add: encode_samples_def rgb_stream_fields window encode_rgb_row_def green_pixels green_codes rgb_geometry
        encode_rgb_plane_def ss_line_state_def green_lines_def green_next_lines_def set_line_state_def swap_all_lines_def
        planes
        rgb_rows [unfolded rgb_line_fresh [of 1]] numeral_2_eq_2 [symmetric] Let_def del: upt_rec_numeral)
qed

lemma rgb_reconfigured: "re_reconfigure_contexts [1, 1] [[], []] (header_encoder low rng s) = Inr (rgb_encoder low rng 128 128 128)"
proof -
  have "replicate 31 (128 :: u8) = 128 # replicate 9 128 @ 128 # replicate 20 128" by (simp add: numeral_eq_Suc)
  then have "content_encoder low rng 128 = rgb_encoder low rng 128 128 128" by (simp add: content_encoder_def rgb_encoder_def)
  then show ?thesis by (simp only: tiny_reconfigured(1))
qed

lemma rgb_closed: "\<exists>e. re_finalize_closed (rgb_encoder [254, 253, 36, 32, 37] 522 s t u) = Inr ([254, 253, 36, 33], e)"
proof -
  have "closing_delta 37 522 = 219"
    by (simp add: closing_delta_def align_delta.simps Let_def)
  then show ?thesis
    by (simp add: re_finalize_closed_def re_finalize_impl_def re_usable_def rgb_encoder_def new_range_encoder_def add_to_low_def Let_def)
qed

definition rgb_state :: slice_state where
  "rgb_state = new_slice_state\<lparr>ss_line_states := green_next_lines,
     ss_range_contexts := [[171 # replicate 31 128], [185 # 116 # replicate 9 128 @ 116 # replicate 20 128]]\<rparr>"

lemma rgb_slice:
  "\<exists>bytes. encode_grid_slice rgb_stream scalar_kernels rgb_frame green True new_slice_state 0 = Inr (bytes, rgb_state) \<and> length bytes = 7"
proof -
  from rgb_raster obtain sl where raster: "apply_raster rgb_stream tiny_header new_slice_descriptor = Inr sl"
    and window: "validate_input_window rgb_stream rgb_frame sl = Inr [rgb_window, rgb_window, rgb_window]" .
  have valid: "validate_encoder_stream rgb_stream = Inr ()"
    by (simp add: validate_encoder_stream_def rgb_stream_fields is_supported_syntax_colorspace_def is_supported_encoder_bit_depth_def
        has_invalid_rgb_geometry_def has_subsampling_without_chroma_def is_supported_chroma_subsampling_def make_zero_quant_table_set_def Let_def)
  have start: "reference_state rgb_stream True new_slice_state = Inr (new_slice_state\<lparr>ss_range_contexts := []\<rparr>)"
    by (simp add: reference_state_def clear_entropy_state_def new_slice_state_def rgb_stream_fields)
  have counts: "slot_context_counts rgb_stream [0, 0] 2 = [1, 1]" "slot_initial_states rgb_stream [0, 0] 2 = [[], []]"
    by (simp_all add: slot_context_counts_def slot_initial_states_def slot_table_set_index_def rgb_stream_fields make_zero_quant_table_set_def numeral_2_eq_2)
  from rgb_closed [of 171 185 116] obtain e where
    closed: "re_finalize_closed (rgb_encoder [254, 253, 36, 32, 37] 522 171 185 116) = Inr ([254, 253, 36, 33], e)" by blast
  let ?state = "new_slice_state\<lparr>ss_range_contexts := [], ss_line_states := green_lines\<rparr>"
  let ?coded = "rgb_encoder [254, 253, 36, 32, 37] 522 171 185 116"
  have "saved_or_initial_states [1, 1] [[], []] ?state = Inr [[], []]"
    by (simp add: saved_or_initial_states_def has_range_contexts_def)
  moreover have "encode_samples rgb_stream scalar_kernels [rgb_window, rgb_window, rgb_window] green ?state (rgb_encoder [253, 246] 266 128 128 128) =
    Inr (?state\<lparr>ss_line_states := green_next_lines\<rparr>, ?coded)"
    by (rule rgb_samples) simp
  moreover have "capture_encoder_contexts ?coded (?state\<lparr>ss_line_states := green_next_lines\<rparr>) = Inr rgb_state"
    by (simp add: capture_encoder_contexts_def re_copy_contexts_def copy_context_banks_def rgb_encoder_def rgb_state_def new_slice_state_def)
  moreover have "\<exists>bytes. append_footer rgb_stream 0 [254, 253, 36, 33] = Inr bytes \<and> length bytes = 7"
    by (simp add: append_footer_def rgb_stream_fields maximum_slice_size_def Let_def)
  ultimately have "\<exists>bytes. finish_range_slice rgb_stream scalar_kernels tiny_header [rgb_window, rgb_window, rgb_window] green ?state
      (header_encoder [253, 246] 266 175) = Inr (bytes, rgb_state) \<and> length bytes = 7"
    by (auto simp: finish_range_slice_def tiny_header_def rgb_stream_fields rgb_geometry counts rgb_reconfigured [unfolded One_nat_def] closed Let_def)
  then show ?thesis
    by (simp add: encode_grid_slice_def encode_slice_def rgb_grid_header valid rgb_stream_fields rgb_validates raster window rgb_lines start rgb_prefix)
qed

subsection \<open>The session\<close>

definition rgb_encoder_object :: encoder where
  "rgb_encoder_object = \<lparr>en_options = new_encoder_options, en_stream = Some rgb_stream, en_executor = Some new_slice_encode_executor,
     en_next_frame_index = 0\<rparr>"

lemma rgb_slice_count:
  "eo_entropy_mode new_encoder_options = RangeMode" "unat (si_num_h_slices rgb_info) * unat (si_num_v_slices rgb_info) < 2 ^ 32"
  by (simp_all add: new_encoder_options_def rgb_info_def new_stream_info_def)

lemma rgb_configured:
  "\<exists>rec. encoder_configure rgb_info \<lparr>en_options = new_encoder_options, en_stream = None, en_executor = None, en_next_frame_index = 0\<rparr> =
     Inr (rec, rgb_encoder_object)"
proof -
  from encoder_profile_record [OF normalized_profile [OF rgb_normalizes]] obtain rec where
    "write_configuration_record rgb_stream = Inr rec" by blast
  then show ?thesis by (simp add: encoder_configure_def rgb_normalizes rgb_encoder_object_def)
qed

lemma rgb_keyframe:
  obtains payload en where "encoder_encode_frame scalar_kernels hw rgb_frame green rgb_encoder_object = Inr (payload, en)"
    and "picture_fits scalar_kernels rgb_frame green rgb_encoder_object"
proof -
  from rgb_slice obtain bytes where
    slice: "encode_grid_slice rgb_stream scalar_kernels rgb_frame green True new_slice_state 0 = Inr (bytes, rgb_state)" "length bytes = 7"
    by blast
  have keyframe: "next_is_keyframe rgb_encoder_object" by (simp add: next_is_keyframe_def rgb_encoder_object_def)
  have states: "encoder_starting_states rgb_stream new_slice_encode_executor 1 True = Inr [new_slice_state]"
    by (simp add: encoder_starting_states_def)
  have "\<exists>ee. execute_encode rgb_stream scalar_kernels threads rgb_frame green True new_slice_encode_executor = Inr (bytes, ee)" for threads
    using slice states unfolding execute_encode_def Let_def encode_results_serial
    by (simp add: rgb_validates rgb_geometry slice_vector_max_size_def status_vector_max_size_def append_slices_def size_max_def
        byte_vector_max_size_def collect_slices_def)
  then have run: "\<exists>en. encoder_encode_frame scalar_kernels hw rgb_frame green rgb_encoder_object = Inr (bytes, en)"
    using keyframe by (simp add: encoder_encode_frame_def rgb_encoder_object_def)
  have "slice_prefix_size rgb_stream tiny_header True True = 2"
    by (simp add: slice_prefix_size_def rgb_prefix re_byte_count_def header_encoder_def)
  then have complete: "frame_complete rgb_stream scalar_kernels rgb_frame green True new_slice_encode_executor"
    using slice states by (simp add: frame_complete_def rgb_geometry slice_complete_def rgb_grid_header)
  have views: "frame_views rgb_frame [rgb_plane RoleR, rgb_plane RoleG, rgb_plane RoleB]"
    by (simp add: frame_views_def rgb_frame_def rgb_plane_def)
  have fits: "picture_fits scalar_kernels rgb_frame green rgb_encoder_object"
    using complete views keyframe by (simp add: picture_fits_def rgb_encoder_object_def rgb_frame_def)
  from run obtain en where "encoder_encode_frame scalar_kernels hw rgb_frame green rgb_encoder_object = Inr (bytes, en)" by blast
  from that [OF this fits] show thesis .
qed

lemma rgb_fits: "output_fits rgb_frame (replicate 3 (replicate 8 x)) [0] rgb_encoder_object"
proof -
  have "output_planes_ok rgb_stream [rgb_plane RoleR, rgb_plane RoleG, rgb_plane RoleB] (replicate 3 (replicate 8 x))"
    unfolding output_planes_ok_def output_plane_ok_def rgb_geometry
    by (simp add: rgb_plane_def rgb_geometry rgb_stream_fields plane_bytes_def sample_format_for_bit_depth_def sample_bytes_cases
        less_Suc_eq numeral_3_eq_3)
  moreover have "frame_views rgb_frame [rgb_plane RoleR, rgb_plane RoleG, rgb_plane RoleB]"
    by (simp add: frame_views_def rgb_frame_def rgb_plane_def)
  ultimately show ?thesis
    by (simp add: output_fits_def rgb_encoder_object_def) (simp add: rgb_frame_def rgb_geometry)
qed

lemma rgb_session:
  obtains payloads en where "encode_pictures scalar_kernels hw [(rgb_frame, green)] rgb_encoder_object = Inr (payloads, en)"
    and "session_fits scalar_kernels hw [(rgb_frame, green)] [([0], rgb_frame, replicate 3 (replicate 8 9))] rgb_encoder_object"
proof -
  obtain payload en where "encoder_encode_frame scalar_kernels hw rgb_frame green rgb_encoder_object = Inr (payload, en)"
    and "picture_fits scalar_kernels rgb_frame green rgb_encoder_object" by (rule rgb_keyframe)
  with rgb_fits [of 9] show thesis by (intro that [of "[payload]" en]) simp_all
qed

definition rgb_decoder :: decoder where
  "rgb_decoder = \<lparr>de_options = \<lparr>do_thread_count = 1, do_verify_crc = True, do_strict = True, do_frame_width = 8, do_frame_height = 1,
       do_cpu = new_cpu_features\<rparr>,
     de_stream = Some (decoder_stream rgb_stream), de_executor = Some new_slice_executor\<rparr>"

lemma rgb_memory: "output_in_memory rgb_decoder rgb_frame (replicate 3 (replicate 8 x))"
  using rgb_fits [of x]
  by (auto simp: output_in_memory_def output_fits_def planes_within_def output_planes_ok_def output_plane_ok_def rgb_decoder_def
      rgb_encoder_object_def decoder_stream_geometry Let_def split: option.splits)

lemma rgb_order: "task_order rgb_decoder payload [0]"
proof (cases "open_frame payload rgb_decoder")
  case (Inr r)
  then obtain stream frame where open_: "open_frame payload rgb_decoder = Inr (stream, frame)" by (cases r) simp
  from open_frame_placed(1) [OF open_] have "stream = decoder_stream rgb_stream" by (simp add: rgb_decoder_def)
  then have "cell_count stream = 1" by (simp add: decoder_stream_geometry rgb_geometry)
  from one_cell_one_slice [OF open_frame_placed(3) [OF open_] this] show ?thesis by (simp add: task_order_def open_)
qed (simp add: task_order_def)

lemma rgb_decoded:
  obtains payload de m where "decoder_decode_frame scalar_kernels 8 [0] payload rgb_frame (rgb_decoder, replicate 3 (replicate 8 9)) = Inr (de, m)"
    and "same_pictures rgb_encoder_object rgb_frame m rgb_frame green"
proof -
  have step: "in_step rgb_encoder_object rgb_decoder"
    using normalized_profile [OF rgb_normalizes]
    by (simp add: in_step_def rgb_encoder_object_def rgb_decoder_def new_slice_executor_def new_slice_encode_executor_def)
  have ranged: "range_coded rgb_encoder_object"
    by (simp add: range_coded_def rgb_encoder_object_def rgb_stream_fields rgb_geometry)
  obtain payload en where enc: "encoder_encode_frame scalar_kernels 4 rgb_frame green rgb_encoder_object = Inr (payload, en)"
    and fits: "picture_fits scalar_kernels rgb_frame green rgb_encoder_object" by (rule rgb_keyframe)
  from scalar.step_decoded [OF step enc ranged fits rgb_fits, of 8 9] that show thesis by blast
qed

end
