(* ===== verification/Kernel_Selection.thy ===== *)
theory Kernel_Selection
  imports Vector_Kernels Rgb_Example
begin

text \<open>
  The choice of the colour transform kernels (\<^verbatim>\<open>src/src/simd/cpu_features.cpp\<close>, \<^verbatim>\<open>codec_kernels.cpp\<close>,
  \<^verbatim>\<open>src/include/mffv1/options.hpp\<close>): which features were compiled, which the processor reports, and which a caller
  allows. Whatever is chosen, the codec returns the same.
\<close>

subsection \<open>Features\<close>

fun feature_bit :: "cpu_feature \<Rightarrow> u64" where
  "feature_bit Sse2 = 1"
| "feature_bit Ssse3 = 2"
| "feature_bit Avx2 = 4"
| "feature_bit Neon = 0x10000"

text \<open>What the preprocessor sees.\<close>

datatype compiler = Msvc | Gnu | OtherCompiler
datatype architecture = X86 | Arm64 | OtherArchitecture

record build_target =
  bt_compiler :: compiler
  bt_architecture :: architecture
  bt_has_avx2_kernel :: bool
  bt_sse2_unit :: bool
  bt_avx2_unit :: bool

definition compiled_cpu_features :: "build_target \<Rightarrow> u64" where
  "compiled_cpu_features target =
     (let features = 0;
          features = (if bt_architecture target = X86
                      then let features = features OR feature_bit Sse2;
                               features = features OR feature_bit Ssse3
                           in if bt_has_avx2_kernel target then features OR feature_bit Avx2 else features
                      else features)
      in if bt_architecture target = Arm64 then features OR feature_bit Neon else features)"

text \<open>
  What the processor answers: the registers \<open>eax\<close>, \<open>ebx\<close>, \<open>ecx\<close>, \<open>edx\<close> for a leaf, the extended control register, and
  for the other compilers \<open>__get_cpuid\<close> and \<open>__builtin_cpu_supports\<close>.
\<close>

record processor =
  pr_cpuid :: "nat \<Rightarrow> u32 \<times> u32 \<times> u32 \<times> u32"
  pr_xgetbv :: u64
  pr_get_cpuid :: "nat \<Rightarrow> (u32 \<times> u32 \<times> u32 \<times> u32) option"
  pr_supports_avx2 :: bool

definition detected_msvc :: "processor \<Rightarrow> u64" where
  "detected_msvc cpu =
     (let (maximum_leaf, _, _, _) = pr_cpuid cpu 0 in
      if sint maximum_leaf < 1 then 0
      else
        let (_, _, ecx, edx) = pr_cpuid cpu 1;
            features = 0;
            features = (if edx AND push_bit 26 1 \<noteq> 0 then features OR feature_bit Sse2 else features);
            features = (if ecx AND push_bit 9 1 \<noteq> 0 then features OR feature_bit Ssse3 else features);
            has_osxsave = (ecx AND push_bit 27 1 \<noteq> 0);
            has_avx = (ecx AND push_bit 28 1 \<noteq> 0);
            os_has_avx_state = (has_osxsave \<and> has_avx \<and> pr_xgetbv cpu AND 6 = 6)
        in if 7 \<le> sint maximum_leaf \<and> os_has_avx_state
           then let (_, ebx, _, _) = pr_cpuid cpu 7
                in if ebx AND push_bit 5 1 \<noteq> 0 then features OR feature_bit Avx2 else features
           else features)"

definition detected_gnu :: "processor \<Rightarrow> u64" where
  "detected_gnu cpu =
     (let features =
        (case pr_get_cpuid cpu 1 of
           None \<Rightarrow> 0
         | Some (_, _, ecx, edx) \<Rightarrow>
             let features = (if edx AND push_bit 26 1 \<noteq> 0 then feature_bit Sse2 else 0)
             in if ecx AND push_bit 9 1 \<noteq> 0 then features OR feature_bit Ssse3 else features)
      in if pr_supports_avx2 cpu then features OR feature_bit Avx2 else features)"

definition detected_cpu_features :: "build_target \<Rightarrow> processor \<Rightarrow> u64" where
  "detected_cpu_features target cpu =
     (let features =
        (if bt_compiler target = Msvc \<and> bt_architecture target = X86 then detected_msvc cpu
         else if bt_compiler target = Gnu \<and> bt_architecture target = X86 then detected_gnu cpu
         else if bt_architecture target = Arm64 then feature_bit Neon
         else 0)
      in features AND compiled_cpu_features target)"

definition resolve_cpu_features :: "build_target \<Rightarrow> processor \<Rightarrow> cpu_features \<Rightarrow> u64" where
  "resolve_cpu_features target cpu requested =
     (let compiled = compiled_cpu_features target in
      if \<not> cf_auto_detect requested then cf_allowed requested AND compiled
      else
        let detected = detected_cpu_features target cpu
        in if cf_allowed requested = 0 then detected else cf_allowed requested AND detected)"

subsection \<open>Kernels\<close>

definition make_codec_kernels ::
  "build_target \<Rightarrow> processor \<Rightarrow> 'a avx2_intrinsics_scheme \<Rightarrow> cpu_features \<Rightarrow> codec_kernels" where
  "make_codec_kernels target cpu ops requested =
     (let kernels = scalar_kernels\<lparr>available_features := resolve_cpu_features target cpu requested\<rparr>;
          sse2 = feature_bit Sse2;
          kernels =
            (if available_features kernels AND sse2 \<noteq> 0
             then kernels\<lparr>forward_color_transform_row := forward_color_transform_row_sse2 (bt_sse2_unit target) ops,
                    inverse_color_transform_row := inverse_color_transform_row_sse2 (bt_sse2_unit target) ops,
                    active_features := active_features kernels OR sse2\<rparr>
             else kernels);
          avx2 = feature_bit Avx2
      in if bt_has_avx2_kernel target \<and> available_features kernels AND avx2 \<noteq> 0
         then kernels\<lparr>forward_color_transform_row := forward_color_transform_row_avx2 (bt_avx2_unit target) ops,
                inverse_color_transform_row := inverse_color_transform_row_avx2 (bt_avx2_unit target) ops,
                active_features := avx2\<rparr>
         else kernels)"

lemma made_forward:
  assumes "avx2_documented ops"
  shows "forward_color_transform_row (make_codec_kernels target cpu ops requested) = forward_color_transform_row_scalar"
  using forward_row_sse2 [OF avx2_lanes(1) [OF assms]] forward_row_avx2 [OF assms]
  by (simp add: make_codec_kernels_def Let_def scalar_kernels_def)

lemma made_inverse:
  assumes ops: "avx2_documented ops" and codes: "\<And>i. i < count \<Longrightarrow> moderate (y ! i) \<and> moderate (cb ! i) \<and> moderate (cr ! i)"
  shows "inverse_color_transform_row (make_codec_kernels target cpu ops requested) y cb cr count bits extra =
    inverse_color_transform_row_scalar y cb cr count bits extra"
  using inverse_row_sse2 [OF avx2_lanes(1) [OF ops] codes] inverse_row_avx2 [OF ops codes]
  by (simp add: make_codec_kernels_def Let_def scalar_kernels_def)

lemma made_lossless:
  assumes ops: "avx2_documented ops"
  shows "lossless_kernels (make_codec_kernels target cpu ops requested)"
proof
  fix bits :: u8 and n :: nat and r g b :: "u16 list" and extra :: bool and y cb cr :: "int list"
  assume bits: "bits \<noteq> 0" "bits \<le> 16"
    and rows: "row_of_depth bits n r" "row_of_depth bits n g" "row_of_depth bits n b"
    and fwd: "forward_color_transform_row (make_codec_kernels target cpu ops requested) r g b n bits extra = (y, cb, cr)"
  have fwd': "forward_color_transform_row scalar_kernels r g b n bits extra = (y, cb, cr)"
    using fwd by (simp add: made_forward [OF ops]) (simp add: scalar_kernels_def)
  show codes: "codes_of_depth bits n y \<and> codes_of_depth bits n cb \<and> codes_of_depth bits n cr"
    by (rule scalar.codes [OF bits rows fwd'])
  have "unat bits + 1 \<le> 17" using bits(2) by (simp add: word_le_nat_alt)
  then have "(2 :: int) ^ (unat bits + 1) \<le> 2 ^ 17" by (rule power_increasing) simp
  then have "moderate s" if "0 \<le> s" "s < 2 ^ (unat bits + 1)" for s using that by (simp add: moderate_def)
  with codes have "moderate (y ! i) \<and> moderate (cb ! i) \<and> moderate (cr ! i)" if "i < n" for i
    using that by (auto simp: codes_of_depth_def)
  from made_inverse [OF ops this] scalar.lossless [OF bits rows fwd']
  show "inverse_color_transform_row (make_codec_kernels target cpu ops requested) y cb cr n bits extra = (r, g, b)"
    by (simp add: scalar_kernels_def)
qed

subsection \<open>Intrinsics on lanes\<close>

text \<open>Functions that do what the documentation of the intrinsics says: the hypotheses can be met.\<close>

definition lane_intrinsics :: avx2_intrinsics where
  "lane_intrinsics =
     \<lparr>mm_set1_epi32 = \<lambda>x. of_lanes (replicate 4 (word_of_int x :: u32)),
      mm_set1_epi16 = \<lambda>x. of_lanes (replicate 8 (word_of_int x :: u16)),
      mm_setzero_si128 = 0,
      mm_loadl_epi64 = of_lanes,
      mm_loadu_si128_u16 = of_lanes,
      mm_loadu_si128_i32 = \<lambda>xs. of_lanes (map (word_of_int :: int \<Rightarrow> u32) xs),
      mm_unpacklo_epi16 = \<lambda>v w. of_lanes (concat (map (\<lambda>i. [lane16 v i, lane16 w i]) [0..<4])),
      mm_add_epi32 = \<lambda>v w. of_lanes (map (\<lambda>i. lane32 v i + lane32 w i) [0..<4]),
      mm_sub_epi32 = \<lambda>v w. of_lanes (map (\<lambda>i. lane32 v i - lane32 w i) [0..<4]),
      mm_srai_epi32 = \<lambda>v n. of_lanes (map (\<lambda>i. signed_drop_bit n (lane32 v i)) [0..<4]),
      mm_and_si128 = (AND), mm_xor_si128 = (XOR),
      mm_packs_epi32 = \<lambda>v w. of_lanes (map (\<lambda>i. pack_lane (lane32 v i)) [0..<4] @ map (\<lambda>i. pack_lane (lane32 w i)) [0..<4]),
      mm_storel_epi64 = \<lambda>v. map (lane16 v) [0..<4],
      mm_storeu_si128_u16 = \<lambda>v. map (lane16 v) [0..<8],
      mm_storeu_si128_i32 = \<lambda>v. map (\<lambda>i. sint (lane32 v i)) [0..<4],
      mm256_set1_epi32 = \<lambda>x. of_lanes (replicate 8 (word_of_int x :: u32)),
      mm256_cvtepu16_epi32 = \<lambda>v. of_lanes (map (\<lambda>i. ucast (lane16 v i) :: u32) [0..<8]),
      mm256_loadu_si256 = \<lambda>xs. of_lanes (map (word_of_int :: int \<Rightarrow> u32) xs),
      mm256_add_epi32 = \<lambda>v w. of_lanes (map (\<lambda>i. lane32 v i + lane32 w i) [0..<8]),
      mm256_sub_epi32 = \<lambda>v w. of_lanes (map (\<lambda>i. lane32 v i - lane32 w i) [0..<8]),
      mm256_srai_epi32 = \<lambda>v n. of_lanes (map (\<lambda>i. signed_drop_bit n (lane32 v i)) [0..<8]),
      mm256_and_si256 = (AND),
      mm256_castsi256_si128 = \<lambda>v. of_lanes (map (lane32 v) [0..<4]),
      mm256_extracti128_si256 = \<lambda>v n. of_lanes (map (\<lambda>i. lane32 v (4 * n + i)) [0..<4]),
      mm256_storeu_si256 = \<lambda>v. map (\<lambda>i. sint (lane32 v i)) [0..<8]\<rparr>"

lemma less_4: "i < 4 \<longleftrightarrow> i = 0 \<or> i = 1 \<or> i = 2 \<or> i = (3 :: nat)"
  by auto

lemma lane_intrinsics_sse2: "sse2_documented lane_intrinsics"
proof -
  have unpacked: "lane16 (of_lanes (concat (map (\<lambda>i. [lane16 v i, lane16 w i]) [0..<4])) :: m128) (2 * i) = lane16 v i"
    "lane16 (of_lanes (concat (map (\<lambda>i. [lane16 v i, lane16 w i]) [0..<4])) :: m128) (2 * i + 1) = lane16 w i"
    if "i < 4" for v w :: m128 and i
    using that by (auto simp: less_4 lane16_of_lanes upt_rec numeral_2_eq_2 numeral_3_eq_3)
  show ?thesis
    unfolding sse2_documented_def lane_intrinsics_def
    by (simp add: lane32_of_lanes lane16_of_lanes unpacked nth_append del: One_nat_def)
qed

lemma lane_intrinsics_documented: "avx2_documented lane_intrinsics"
  unfolding avx2_documented_def
  by (intro conjI lane_intrinsics_sse2) (simp_all add: lane_intrinsics_def lane32_of_lanes add.commute [of 4])

interpretation vector: lossless_kernels "make_codec_kernels target cpu lane_intrinsics requested" for target cpu requested
  by (rule made_lossless [OF lane_intrinsics_documented])

subsection \<open>The encoder only uses the forward kernel\<close>

lemma encode_slice_kernels:
  assumes forward: "forward_color_transform_row kernels = forward_color_transform_row kernels'"
  shows "encode_slice stream kernels = encode_slice stream kernels'"
proof -
  have rgb: "encode_rgb_row stream kernels = encode_rgb_row stream kernels'"
    by (intro ext) (simp only: encode_rgb_row_def forward)
  have samples: "encode_samples stream kernels = encode_samples stream kernels'"
    by (intro ext) (simp only: encode_samples_def rgb)
  have golomb_rgb: "encode_golomb_rgb_row stream kernels = encode_golomb_rgb_row stream kernels'"
    by (intro ext) (simp only: encode_golomb_rgb_row_def forward)
  have golomb: "encode_golomb_rice_samples stream kernels = encode_golomb_rice_samples stream kernels'"
    by (intro ext) (simp only: encode_golomb_rice_samples_def golomb_rgb)
  show ?thesis
    by (intro ext) (simp only: encode_slice_def finish_golomb_rice_slice_def golomb_rice_content_def finish_range_slice_def samples golomb)
qed

lemma encoder_kernels:
  assumes forward: "forward_color_transform_row kernels = forward_color_transform_row kernels'"
  shows "encoder_encode_frame kernels = encoder_encode_frame kernels'" and "picture_fits kernels = picture_fits kernels'"
proof -
  have grid: "encode_grid_slice stream kernels = encode_grid_slice stream kernels'" for stream
    by (intro ext) (simp only: encode_grid_slice_def encode_slice_kernels [OF forward])
  have "execute_encode stream kernels = execute_encode stream kernels'" for stream
    by (intro ext) (simp only: execute_encode_def encode_results_serial Let_def grid)
  then show "encoder_encode_frame kernels = encoder_encode_frame kernels'"
    by (intro ext) (simp only: encoder_encode_frame_def)
  have "frame_complete stream kernels = frame_complete stream kernels'" for stream
    by (intro ext) (simp only: frame_complete_def slice_complete_def grid)
  then show "picture_fits kernels = picture_fits kernels'"
    by (intro ext) (simp only: picture_fits_def)
qed

lemma session_kernels:
  assumes forward: "forward_color_transform_row kernels = forward_color_transform_row kernels'"
  shows "encode_pictures kernels hw pictures en = encode_pictures kernels' hw pictures en"
    and "session_fits kernels hw pictures outputs en = session_fits kernels' hw pictures outputs en"
proof -
  note same = encoder_kernels [OF forward]
  show "encode_pictures kernels hw pictures en = encode_pictures kernels' hw pictures en"
  proof (induction pictures arbitrary: en)
    case (Cons picture pictures)
    then show ?case by (cases picture) (simp add: same(1) bind_result_def split: sum.splits)
  qed simp
  show "session_fits kernels hw pictures outputs en = session_fits kernels' hw pictures outputs en"
  proof (induction pictures arbitrary: outputs en)
    case Nil
    then show ?case by (cases outputs) simp_all
  next
    case (Cons picture pictures)
    obtain input im where picture: "picture = (input, im)" by (cases picture)
    show ?case
    proof (cases outputs)
      case (Cons out outs)
      obtain order oview m where "out = (order, oview, m)" by (cases out)
      then show ?thesis by (simp add: Cons picture same Cons.IH split: sum.splits)
    qed (simp add: picture)
  qed
qed

subsection \<open>Properties\<close>

text \<open>
  C6: the vector kernels compute what the scalar kernels compute. For every build, processor and set of allowed features,
  the forward kernel that is chosen returns the codes of the scalar kernel on every row of samples, of any depth and any
  length, the elements behind the last whole vector included. The inverse kernel returns its samples for all codes of at
  most 28 bits and a sign, which contain the codes of 17 bits of the deepest stream: there, no 32-bit lane wraps, and the
  saturating pack of biased values to 16 bits loses nothing. The hypothesis is the documentation of the intrinsics.
\<close>

theorem vector_kernels_agree:
  assumes "avx2_documented ops"
  shows "forward_color_transform_row (make_codec_kernels target cpu ops requested) r g b count bits extra =
      forward_color_transform_row_scalar r g b count bits extra \<and>
    ((\<forall>i < count. moderate (y ! i) \<and> moderate (cb ! i) \<and> moderate (cr ! i)) \<longrightarrow>
      inverse_color_transform_row (make_codec_kernels target cpu ops requested) y cb cr count bits extra =
      inverse_color_transform_row_scalar y cb cr count bits extra)"
  using made_forward [OF assms] made_inverse [OF assms] by auto

text \<open>A build with all kernels, and a processor with AVX2.\<close>

definition gnu_target :: build_target where
  "gnu_target = \<lparr>bt_compiler = Gnu, bt_architecture = X86, bt_has_avx2_kernel = True, bt_sse2_unit = True, bt_avx2_unit = True\<rparr>"

definition avx2_processor :: processor where
  "avx2_processor = \<lparr>pr_cpuid = \<lambda>leaf. (7, 0, 0, 0), pr_xgetbv = 0,
     pr_get_cpuid = \<lambda>leaf. Some (7, 0, push_bit 9 1, push_bit 26 1), pr_supports_avx2 = True\<rparr>"

lemma avx2_chosen:
  "forward_color_transform_row (make_codec_kernels gnu_target avx2_processor ops new_cpu_features) = forward_color_transform_row_avx2 True ops"
  "active_features (make_codec_kernels gnu_target avx2_processor ops new_cpu_features) = 4"
  "available_features (make_codec_kernels gnu_target avx2_processor ops new_cpu_features) = 7"
  by (simp_all add: make_codec_kernels_def resolve_cpu_features_def detected_cpu_features_def compiled_cpu_features_def detected_gnu_def
      gnu_target_def avx2_processor_def new_cpu_features_def scalar_kernels_def Let_def)

theorem vector_kernels_agree_witness:
  "forward_color_transform_row_avx2 True lane_intrinsics [9, 1, 2, 3, 4, 5, 6, 7, 1023] (replicate 9 512) (replicate 9 3) 9 10 False =
     forward_color_transform_row_scalar [9, 1, 2, 3, 4, 5, 6, 7, 1023] (replicate 9 512) (replicate 9 3) 9 10 False \<and>
   inverse_color_transform_row (make_codec_kernels gnu_target avx2_processor lane_intrinsics new_cpu_features)
     (replicate 9 131071) (replicate 9 0) (replicate 9 131071) 9 16 True =
     inverse_color_transform_row_scalar (replicate 9 131071) (replicate 9 0) (replicate 9 131071) 9 16 True"
  using vector_kernels_agree [OF lane_intrinsics_documented, of gnu_target avx2_processor new_cpu_features
      "[9, 1, 2, 3, 4, 5, 6, 7, 1023]" "replicate 9 512" "replicate 9 3" 9 10 False "replicate 9 131071" "replicate 9 0" "replicate 9 131071"]
    vector_kernels_agree [OF lane_intrinsics_documented, of gnu_target avx2_processor new_cpu_features
      "[9, 1, 2, 3, 4, 5, 6, 7, 1023]" "replicate 9 512" "replicate 9 3" 9 16 True "replicate 9 131071" "replicate 9 0" "replicate 9 131071"]
  unfolding avx2_chosen(1) by (simp add: moderate_def)







text \<open>
  C2: in Range mode a stream can be encoded on one machine and decoded on another. The two machines may choose
  different kernels, with vector instructions or without, if their intrinsics behave as Intel documents them. An
  encoder that is configured with the range coder and fewer than \<open>2 ^ 32\<close> slices, and that encodes a
  sequence of pictures, writes the bytes that the scalar kernels write, and a decoder that is configured with the
  record and the size of the pictures recovers the samples of every picture with the kernels of its own machine. The
  hypothesis \<open>session_fits\<close> names the other conditions: the planes of each picture are as the interface
  describes them; no slice stops before the end of its own header, which happens when the encoder drops a zero byte at
  its end and which the decoder rejects; the output planes lie in their memory and have the format of the stream;
  every task completes once. Golomb-Rice streams are not covered.
\<close>

theorem session_lossless_across_machines:
  assumes "avx2_documented ops" and "avx2_documented ops'"
    and "encoder_configure info en0 = Inr (rec, en)"
    and "do_frame_width (de_options de0) = si_width info" and "do_frame_height (de_options de0) = si_height info"
    and "encode_pictures (make_codec_kernels target cpu ops requested) hw pictures en = Inr (payloads, en')"
    and "eo_entropy_mode (en_options en0) = RangeMode"
    and "unat (si_num_h_slices info) * unat (si_num_v_slices info) < 2 ^ 32"
    and "session_fits (make_codec_kernels target cpu ops requested) hw pictures outputs en"
  shows "encode_pictures scalar_kernels hw pictures en = Inr (payloads, en') \<and>
    (\<exists>de ms de'. decoder_configure rec de0 = Inr de \<and>
      decode_pictures (make_codec_kernels target' cpu' ops' requested') hw' outputs payloads de = Inr (ms, de') \<and>
      length ms = length pictures \<and>
      (\<forall>i < length pictures.
         same_pictures en (fst (snd (outputs ! i))) (ms ! i) (fst (pictures ! i)) (snd (pictures ! i))))"
proof -
  let ?k = "make_codec_kernels target cpu ops requested" and ?k' = "make_codec_kernels target' cpu' ops' requested'"
  have scalar: "forward_color_transform_row ?k = forward_color_transform_row scalar_kernels"
    and other: "forward_color_transform_row ?k = forward_color_transform_row ?k'"
    by (simp_all add: made_forward [OF assms(1)] made_forward [OF assms(2)] scalar_kernels_def)
  have run: "encode_pictures ?k' hw pictures en = Inr (payloads, en')" and fits: "session_fits ?k' hw pictures outputs en"
    using assms(6,9) by (simp_all add: session_kernels [OF other, symmetric])
  have "encode_pictures scalar_kernels hw pictures en = Inr (payloads, en')"
    using assms(6) by (simp add: session_kernels [OF scalar, symmetric])
  moreover from configured_in_step [OF assms(3-5)] obtain de where de: "decoder_configure rec de0 = Inr de" "in_step en de" by blast
  from lossless_kernels.pictures_decoded [OF made_lossless [OF assms(2)] de(2) run configured_range_coded [OF assms(3,7,8)] fits, of hw'] obtain ms de' where
    ms: "decode_pictures ?k' hw' outputs payloads de = Inr (ms, de')" and
    same: "list_all2 (\<lambda>m (output, input, im). same_pictures en output m input im) ms
      (map (\<lambda>((order, output, m), input, im). (output, input, im)) (zip outputs pictures))" by blast
  have len: "length outputs = length pictures" by (rule session_length [OF run fits])
  with same have "length ms = length pictures"
    and "\<And>i. i < length pictures \<Longrightarrow> same_pictures en (fst (snd (outputs ! i))) (ms ! i) (fst (pictures ! i)) (snd (pictures ! i))"
    by (auto simp: list_all2_conv_all_nth split_beta)
  ultimately show ?thesis using de(1) ms by blast
qed

theorem session_lossless_across_machines_witness:
  "\<exists>rec payloads en' de m de'.
     encoder_configure rgb_info \<lparr>en_options = new_encoder_options, en_stream = None, en_executor = None, en_next_frame_index = 0\<rparr> =
       Inr (rec, rgb_encoder_object) \<and>
     encode_pictures (make_codec_kernels gnu_target avx2_processor lane_intrinsics new_cpu_features) 4 [(rgb_frame, green)]
       rgb_encoder_object = Inr (payloads, en') \<and>
     decoder_configure rec \<lparr>de_options = \<lparr>do_thread_count = 2, do_verify_crc = True, do_strict = True, do_frame_width = 8, do_frame_height = 1,
       do_cpu = new_cpu_features\<rparr>,
       de_stream = None, de_executor = None\<rparr> = Inr de \<and>
     decode_pictures (make_codec_kernels gnu_target avx2_processor lane_intrinsics \<lparr>cf_allowed = 1, cf_auto_detect = False\<rparr>) 4
       [([0], rgb_frame, replicate 3 (replicate 8 9))] payloads de = Inr ([m], de') \<and>
     same_pictures rgb_encoder_object rgb_frame m rgb_frame green"
proof -
  let ?k = "make_codec_kernels gnu_target avx2_processor lane_intrinsics new_cpu_features"
  let ?de0 = "\<lparr>de_options = \<lparr>do_thread_count = 2, do_verify_crc = True, do_strict = True, do_frame_width = 8, do_frame_height = 1,
       do_cpu = new_cpu_features\<rparr>,
       de_stream = None, de_executor = None\<rparr>"
  let ?pictures = "[(rgb_frame, green)]" and ?outputs = "[([0], rgb_frame, replicate 3 (replicate 8 9))] :: (nat list \<times> frame_view \<times> frame_memory) list"
  from rgb_configured obtain rec where
    rec: "encoder_configure rgb_info \<lparr>en_options = new_encoder_options, en_stream = None, en_executor = None, en_next_frame_index = 0\<rparr> =
      Inr (rec, rgb_encoder_object)" by blast
  have scalar: "forward_color_transform_row ?k = forward_color_transform_row scalar_kernels"
    by (simp add: made_forward [OF lane_intrinsics_documented] scalar_kernels_def)
  from rgb_session [of 4] obtain payloads en' where
    run: "encode_pictures ?k 4 ?pictures rgb_encoder_object = Inr (payloads, en')" and
    fits: "session_fits ?k 4 ?pictures ?outputs rgb_encoder_object"
    unfolding session_kernels [OF scalar] by blast
  have dims: "do_frame_width (de_options ?de0) = si_width rgb_info" "do_frame_height (de_options ?de0) = si_height rgb_info"
    by (simp_all add: rgb_info_def)
  from session_lossless_across_machines [OF lane_intrinsics_documented lane_intrinsics_documented rec dims run _ _ fits, of
      gnu_target avx2_processor "\<lparr>cf_allowed = 1, cf_auto_detect = False\<rparr>" 4] rgb_slice_count
  obtain de ms de' where "decoder_configure rec ?de0 = Inr de" and
    dec: "decode_pictures (make_codec_kernels gnu_target avx2_processor lane_intrinsics \<lparr>cf_allowed = 1, cf_auto_detect = False\<rparr>) 4
      ?outputs payloads de = Inr (ms, de')" and "length ms = 1" and "same_pictures rgb_encoder_object rgb_frame (ms ! 0) rgb_frame green"
    by auto
  moreover from this obtain m where "ms = [m]" by (cases ms) auto
  ultimately show ?thesis using rec run by auto
qed

end
