(* ===== verification/Decode_Kernels.thy ===== *)
theory Decode_Kernels
  imports Kernel_Selection
begin

text \<open>
  Decoding arbitrary bytes with different kernels. Whatever is decoded, the lines of an RGB slice hold codes of 17 bits at
  most, so that the inverse kernels get only rows on which they agree, and the decoder returns the same with all of them.
\<close>

subsection \<open>Loops with an invariant\<close>

lemma loop_result_invariant:
  assumes "loop_result f xs s c = Inr (s', c')" and "P s"
    and "\<And>x s c s' c'. x \<in> set xs \<Longrightarrow> P s \<Longrightarrow> f x s c = Inr (s', c') \<Longrightarrow> P s'"
  shows "P s'"
  using assms
proof (induction xs arbitrary: s c)
  case (Cons x xs)
  from Cons.prems(1) obtain s1 c1 where step: "f x s c = Inr (s1, c1)" "loop_result f xs s1 c1 = Inr (s', c')" by auto
  have "P s1" by (rule Cons.prems(3) [OF _ Cons.prems(2) step(1)]) simp
  from Cons.IH [OF step(2) this] Cons.prems(3) show ?case by (meson list.set_intros(2))
qed simp

lemma loop_result_agrees:
  assumes "P s" and "\<And>x s c. x \<in> set xs \<Longrightarrow> P s \<Longrightarrow> f x s c = g x s c"
    and "\<And>x s c s' c'. x \<in> set xs \<Longrightarrow> P s \<Longrightarrow> g x s c = Inr (s', c') \<Longrightarrow> P s'"
  shows "loop_result f xs s c = loop_result g xs s c"
  using assms
proof (induction xs arbitrary: s c)
  case (Cons x xs)
  have here: "f x s c = g x s c" by (rule Cons.prems(2)) (simp_all add: Cons.prems(1))
  show ?case
  proof (cases "g x s c")
    case (Inr r)
    obtain s1 c1 where r: "r = (s1, c1)" by (cases r)
    have "P s1" by (rule Cons.prems(3) [OF _ Cons.prems(1) Inr [unfolded r]]) simp
    from Cons.IH [OF this] Cons.prems(2,3) have "loop_result f xs s1 c1 = loop_result g xs s1 c1"
      by (meson list.set_intros(2))
    then show ?thesis by (simp add: here Inr r)
  qed (simp add: here)
qed simp

subsection \<open>Lines of codes\<close>

definition code_line :: "nat \<Rightarrow> line_state \<Rightarrow> bool" where
  "code_line w line \<longleftrightarrow> line_within 131072 w line"

lemma reconstruct_within:
  assumes "bits \<noteq> 0" and "bits \<le> 17"
  shows "0 \<le> reconstruct p d bits" and "reconstruct p d bits < 131072"
proof -
  have "unat bits \<le> 17" using assms(2) by (simp add: word_le_nat_alt)
  then have "(2 :: int) ^ unat bits \<le> 131072"
    using power_increasing [of "unat bits" 17 "2 :: int"] by simp
  moreover have "bits < 31" using assms(2) by (simp add: word_le_nat_alt word_less_nat_alt)
  then have r: "reconstruct p d bits = (p + d) mod 2 ^ unat bits" by (rule reconstruct_mod [OF assms(1)])
  moreover have "0 \<le> (p + d) mod 2 ^ unat bits" "(p + d) mod 2 ^ unat bits < 2 ^ unat bits" by simp_all
  ultimately show "0 \<le> reconstruct p d bits" and "reconstruct p d bits < 131072" by linarith+
qed

lemma set_current_code:
  assumes "code_line w line" and "0 \<le> s" and "s < 131072"
  shows "code_line w (set_current x s line)"
  using line_within_update [OF assms(1) [unfolded code_line_def] assms(2,3)] by (simp add: set_current_def code_line_def)

lemma set_median_code:
  assumes "code_line w line" and "x < w"
  shows "code_line w (set_current x (median_at line x) line)"
proof (rule set_current_code [OF assms(1)])
  note n = line_within_neighbors [OF assms(1) [unfolded code_line_def] assms(2)] median_predict_between [of "ns_left (ls_neighbors line x)"
      "ns_top (ls_neighbors line x)" "ns_top_left (ls_neighbors line x)"]
  show "0 \<le> median_at line x" "median_at line x < 131072" using n by (simp_all add: median_at_def Let_def)
qed

lemma decode_range_line_code:
  assumes "decode_range_line base table_set bank width bits signed16 line reader = Inr (line', reader')"
    and "code_line w line" and "bits \<noteq> 0" and "bits \<le> 17"
  shows "code_line w line'"
proof (rule loop_result_invariant [where P = "code_line w"])
  show "loop_result (decode_range_sample base table_set bank bits signed16) [0..<unat width] line reader = Inr (line', reader')"
    using assms(1) by (simp add: decode_range_line_def)
qed (use assms(2) in \<open>auto simp: decode_range_sample_def Let_def split: if_splits
       intro!: set_current_code reconstruct_within [OF assms(3,4)]\<close>)

lemma fill_run_code:
  assumes "code_line w line" and "stop \<le> w"
  shows "code_line w (fill_run x stop line)"
proof -
  have "code_line w (fold (\<lambda>x line. set_current x (median_at line x) line) xs line)" if "\<forall>x \<in> set xs. x < w" for xs
    using assms(1) that by (induction xs arbitrary: line) (simp_all add: set_median_code)
  then show ?thesis unfolding fill_run_def using assms(2) by simp
qed

lemma fill_pending_run_code:
  assumes "fill_pending_run table_set x stop line = Inr line'" and "code_line w line" and "stop \<le> w"
  shows "code_line w line'"
  by (rule fold_result_invariant [where P = "code_line w", OF _ assms(2) assms(1) [unfolded fill_pending_run_def]])
    (use assms(3) in \<open>auto simp: set_median_code\<close>)

lemma decode_golomb_rice_run_code:
  assumes "decode_golomb_rice_run base w x line run reader = Inr ((x', interrupted, line', run'), reader')" and "code_line w line"
  shows "code_line w line'"
  using assms
proof (induction base w x line run reader rule: decode_golomb_rice_run.induct)
  case (1 base w x line run reader)
  show ?case
  proof (cases "x < w")
    case False
    with "1.prems" show ?thesis by (simp add: decode_golomb_rice_run.simps [of base w x])
  next
    case True
    with "1.prems"(1) obtain segment r1 run1 where
      segment: "read_run_segment base w x run reader = Inr (segment, r1, run1)" and
      rest: "(let run_end = min w (x + seg_count segment); line = fill_run x run_end line in
        if seg_interrupted segment then Inr ((run_end, True, line, run1), r1)
        else decode_golomb_rice_run base w run_end line run1 r1) = Inr ((x', interrupted, line', run'), reader')"
      by (auto simp: decode_golomb_rice_run.simps [of base w x] bind_result_eq_Inr)
    have filled: "code_line w (fill_run x (min w (x + seg_count segment)) line)"
      by (rule fill_run_code [OF "1.prems"(2)]) simp
    show ?thesis
    proof (cases "seg_interrupted segment")
      case interrupted: True
      with rest filled show ?thesis by (auto simp: Let_def)
    next
      case False
      with rest have "decode_golomb_rice_run base w (min w (x + seg_count segment))
          (fill_run x (min w (x + seg_count segment)) line) run1 r1 = Inr ((x', interrupted, line', run'), reader')"
        by (simp add: Let_def)
      from "1.IH" [OF True segment refl refl refl refl False this filled] show ?thesis .
    qed
  qed
qed

lemma decode_golomb_rice_symbol_code:
  assumes "decode_golomb_rice_symbol interruption base bits x (line, contexts, run) context reader = Inr ((x', line', rest), reader')"
    and "code_line w line" and "bits \<noteq> 0" and "bits \<le> 17"
  shows "code_line w line'"
  using assms(1,2) by (auto simp: decode_golomb_rice_symbol_def Let_def intro!: set_current_code reconstruct_within [OF assms(3,4)])

lemma decode_golomb_rice_step_code:
  assumes run: "decode_golomb_rice_step base table_set w bits x (line, contexts, run) reader = Inr ((x', line', rest), reader')"
    and line: "code_line w line" and bits: "bits \<noteq> 0" "bits \<le> 17"
  shows "code_line w line'"
proof (cases "pending_count run = 0")
  case False
  with run line show ?thesis
    by (auto simp: decode_golomb_rice_step_def Let_def dest: fill_pending_run_code)
next
  case True
  with run obtain ctx where ctx: "derive_context table_set (ls_neighbors line x) = Inr ctx"
    by (auto simp: decode_golomb_rice_step_def)
  show ?thesis
  proof (cases "cd_context ctx = 0")
    case False
    with run True ctx have "decode_golomb_rice_symbol False base bits x (line, contexts, run) ctx reader =
        Inr ((x', line', rest), reader')"
      by (simp add: decode_golomb_rice_step_def)
    from decode_golomb_rice_symbol_code [OF this line bits] show ?thesis .
  next
    case zero: True
    with run True ctx obtain x1 interrupted line1 run1 r1 where
      seg: "decode_golomb_rice_run base w x line run reader = Inr ((x1, interrupted, line1, run1), r1)" and
      rest: "(if \<not> interrupted \<or> x1 = w then Inr ((x1, line1, contexts, run1), r1)
         else bind_result (derive_context table_set (ls_neighbors line1 x1)) (\<lambda>interruption_context.
           decode_golomb_rice_symbol True base bits x1 (line1, contexts, run1) interruption_context r1)) = Inr ((x', line', rest), reader')"
      by (auto simp: decode_golomb_rice_step_def)
    from decode_golomb_rice_run_code [OF seg line] have line1: "code_line w line1" .
    with rest show ?thesis by (auto split: if_splits dest: decode_golomb_rice_symbol_code [OF _ line1 bits])
  qed
qed

lemma decode_golomb_rice_from_code:
  assumes "decode_golomb_rice_from base table_set w bits x st reader = Inr (st', reader')"
    and "code_line w (fst st)" and "bits \<noteq> 0" and "bits \<le> 17"
  shows "code_line w (fst st')"
  using assms
proof (induction base table_set w bits x st reader rule: decode_golomb_rice_from.induct)
  case (1 base table_set w bits x st reader)
  show ?case
  proof (cases "x < w")
    case False
    with "1.prems" show ?thesis by (simp add: decode_golomb_rice_from.simps [of base table_set w bits x])
  next
    case True
    with "1.prems"(1) obtain x1 st1 r1 where
      step: "decode_golomb_rice_step base table_set w bits x st reader = Inr ((x1, st1), r1)" and
      rest: "decode_golomb_rice_from base table_set w bits x1 st1 r1 = Inr (st', reader')"
      by (auto simp: decode_golomb_rice_from.simps [of base table_set w bits x])
    obtain line contexts run where st: "st = (line, contexts, run)" by (cases st)
    obtain line1 rest1 where st1: "st1 = (line1, rest1)" by (cases st1)
    have "code_line w (fst st1)"
      using decode_golomb_rice_step_code [OF step [unfolded st st1]] "1.prems"(2-4) by (simp add: st st1)
    from "1.IH" [OF True step refl refl rest this "1.prems"(3,4)] show ?thesis .
  qed
qed

subsection \<open>The rows of an RGB slice\<close>

text \<open>The lines of all planes have the width of the first.\<close>

definition code_lines :: "nat \<Rightarrow> nat \<Rightarrow> slice_state \<Rightarrow> bool" where
  "code_lines n w state \<longleftrightarrow> length (ss_line_states state) = n \<and> (\<forall>i < n. code_line w (ss_line_states state ! i))"

lemma code_lines_set:
  assumes "code_lines n w state" and "code_line w line"
  shows "code_lines n w (set_line_state plane line state)"
proof -
  have "code_line w ((ss_line_states state)[plane := line] ! i)" if "i < n" for i
    using assms that by (cases "i = plane") (simp_all add: code_lines_def)
  with assms(1) show ?thesis by (simp add: code_lines_def set_line_state_def)
qed

lemma code_lines_line: "code_lines n w state \<Longrightarrow> plane < n \<Longrightarrow> code_line w (ss_line_state state plane)"
  by (simp add: code_lines_def ss_line_state_def)

lemma code_lines_golomb [simp]:
  "code_lines n w (set_golomb_rice_run_state plane run state) = code_lines n w state"
  "code_lines n w (state\<lparr>ss_golomb_rice_contexts := contexts\<rparr>) = code_lines n w state"
  "code_lines n w (clear_pending_run plane state) = code_lines n w state"
  "code_lines n w (reset_run_states count state) = code_lines n w state"
proof -
  show run: "code_lines n w (set_golomb_rice_run_state plane run state) = code_lines n w state" for plane run state
    by (simp add: code_lines_def set_golomb_rice_run_state_def)
  then show "code_lines n w (clear_pending_run plane state) = code_lines n w state" by (simp add: clear_pending_run_def)
  have "code_lines n w (fold (\<lambda>plane. set_golomb_rice_run_state plane new_gr_run_state) xs state) = code_lines n w state" for xs
    by (induction xs arbitrary: state) (simp_all add: run)
  then show "code_lines n w (reset_run_states count state) = code_lines n w state" by (simp add: reset_run_states_def)
qed (simp add: code_lines_def)

lemma depth_bits:
  assumes "is_supported_decoder_bit_depth bits"
  shows "bits \<noteq> 0" "bits \<le> 17" "bits + 1 \<noteq> 0" "bits + 1 \<le> 17"
  using assms unfolding is_supported_decoder_bit_depth_def
  by (auto simp: word_le_nat_alt unat_word_ariths unat_eq_zero [symmetric] simp flip: unat_0_iff)

lemma decode_rgb_plane_code:
  assumes run: "decode_rgb_plane base stream models banks output plane state reader = Inr (state', reader')"
    and lines: "code_lines n w state" and plane: "plane < n" and bits: "is_supported_decoder_bit_depth (sp_bits_per_raw_sample stream)"
  shows "code_lines n w state'"
proof -
  from run obtain line where
    line: "decode_range_line base (models ! plane) (banks ! plane) (window_plane_width output 0)
      (if plane < 3 then sp_bits_per_raw_sample stream + 1 else sp_bits_per_raw_sample stream)
      False (ss_line_state state plane) reader = Inr (line, reader')" and
    state': "state' = set_line_state plane line state"
    by (auto simp: decode_rgb_plane_def)
  from decode_range_line_code [OF line code_lines_line [OF lines plane]] depth_bits [OF bits] have "code_line w line" by auto
  with lines show ?thesis unfolding state' by (rule code_lines_set)
qed

lemma decode_golomb_rgb_plane_code:
  assumes run: "decode_golomb_rgb_plane stream base models banks output plane state reader = Inr (state', reader')"
    and lines: "code_lines n w state" and plane: "plane < n" and bits: "is_supported_decoder_bit_depth (sp_bits_per_raw_sample stream)"
    and width: "unat (window_plane_width output 0) = w"
  shows "code_lines n w state'"
proof -
  let ?st = "golomb_line plane (banks ! plane) 0 state"
  from run obtain st where
    st: "decode_golomb_rice_from base (models ! plane) w (sp_bits_per_raw_sample stream + 1) 0 ?st reader = Inr (st, reader')" and
    state': "state' = set_golomb_line plane (banks ! plane) 0 st state"
    by (auto simp: decode_golomb_rgb_plane_def decode_golomb_plane_line_def decode_golomb_rice_line_def width)
  have "code_line w (fst ?st)" using code_lines_line [OF lines plane] by (simp add: golomb_line_def)
  from decode_golomb_rice_from_code [OF st this depth_bits(3,4) [OF bits]] have "code_line w (fst st)" .
  moreover have "code_lines n w (state\<lparr>ss_golomb_rice_contexts := contexts\<rparr>)" for contexts using lines by simp
  ultimately show ?thesis unfolding state' by (cases st) (simp add: set_golomb_line_def code_lines_set)
qed

lemma store_rgb_line_code:
  assumes "store_rgb_line stream kernels output y state m = Inr (state', m')" and "code_lines n w state"
  shows "code_lines n w state'"
proof -
  obtain r g b where "inverse_color_transform_row kernels (ls_current (ss_line_state state 0)) (ls_current (ss_line_state state 1))
      (ls_current (ss_line_state state 2)) (unat (window_plane_width output 0)) (sp_bits_per_raw_sample stream)
      (sp_extra_plane stream) = (r, g, b)" by (rule prod_cases3)
  with assms(1) have "ss_line_states state' = map ls_swap_lines (ss_line_states state)" by (auto simp: store_rgb_line_def Let_def)
  with assms(2) show ?thesis by (simp add: code_lines_def code_line_def line_within_swap)
qed

lemma prepared_code_lines:
  assumes "prepare_golomb_rice counts n' state = Inr state'"
  shows "code_lines n w state' = code_lines n w state"
proof -
  have "ss_line_states state' = ss_line_states state" using assms by (auto simp: prepare_golomb_rice_def split: if_splits)
  then show ?thesis by (simp add: code_lines_def)
qed

text \<open>What an RGB slice starts with; the states of other slices do not matter.\<close>

definition starts_coded :: "stream_parameters \<Rightarrow> slice_state \<Rightarrow> bool" where
  "starts_coded stream state \<longleftrightarrow>
     (sp_colorspace_type stream = 1 \<longrightarrow> (\<exists>n w. 3 \<le> n \<and> w < 2 ^ 32 \<and> code_lines n w state))"

lemma starts_coded_geometry:
  assumes "starts_coded stream state" and "validate_state_line_geometry output state = Inr u" and "sp_colorspace_type stream = 1"
  shows "code_lines (window_plane_count output) (unat (window_plane_width output 0)) state" and "3 \<le> window_plane_count output"
proof -
  from assms(1,3) obtain n w where lines: "3 \<le> n" "w < 2 ^ 32" "code_lines n w state" unfolding starts_coded_def by blast
  from assms(2) have count: "window_plane_count output = ss_plane_count state"
    and widths: "\<forall>plane < window_plane_count output. word_of_nat (ls_width (ss_line_state state plane)) = window_plane_width output plane"
    by (auto simp: validate_state_line_geometry_def list_ex_iff split: if_splits)
  from lines(3) have n: "window_plane_count output = n" unfolding count by (simp add: ss_plane_count_def code_lines_def)
  have "ls_width (ss_line_state state 0) = w"
    using code_lines_line [OF lines(3), of 0] lines(1) by (simp add: code_line_def line_within_def ls_width_def)
  with widths lines(1) have "window_plane_width output 0 = word_of_nat w" by (auto simp: n)
  then have "unat (window_plane_width output 0) = w" using lines(2) by (simp add: unat_of_nat take_bit_nat_eq_self)
  with lines n show "code_lines (window_plane_count output) (unat (window_plane_width output 0)) state" "3 \<le> window_plane_count output"
    by simp_all
qed

lemma reset_starts_coded:
  assumes "ss_reset_stream_window stream ws state = Inr state'" and rgb: "sp_colorspace_type stream = 1 \<longrightarrow> rgb_windows stream ws"
  shows "starts_coded stream state'"
  unfolding starts_coded_def
proof
  assume space: "sp_colorspace_type stream = 1"
  with rgb have ws: "3 \<le> length ws" "i < length ws \<Longrightarrow> pw_width (ws ! i) = pw_width (ws ! 0)" for i
    unfolding rgb_windows_def by blast+
  let ?spec = "map (\<lambda>i. (window_plane_width ws i, plane_border_value stream i)) [0..<window_plane_count ws]"
  from assms(1) obtain lines where lines: "reset_lines ?spec = Inr lines" and state': "ss_line_states state' = lines"
    by (auto simp: ss_reset_stream_window_def)
  have count: "window_plane_count ws = length ws" by (simp add: window_plane_count_def)
  have "code_line (unat (pw_width (ws ! 0))) (lines ! i)" if "i < length ws" for i
    unfolding code_line_def
  proof (rule line_within_reset)
    show "ls_reset (pw_width (ws ! 0)) 0 = Inr (lines ! i)"
      using reset_lines_nth [OF lines, of i] that ws(2) [OF that] by (simp add: count window_plane_width_def plane_border_value_def space)
  qed simp_all
  moreover have "length lines = length ws" using reset_lines_length [OF lines] by (simp add: count)
  moreover have "unat (pw_width (ws ! 0)) < 2 ^ 32" using unsigned_less [of "pw_width (ws ! 0)"] by simp
  ultimately show "\<exists>n w. 3 \<le> n \<and> w < 2 ^ 32 \<and> code_lines n w state'"
    using ws(1) by (intro exI [of _ "length ws"] exI [of _ "unat (pw_width (ws ! 0))"]) (simp add: code_lines_def state')
qed

subsection \<open>Kernels that agree\<close>

locale agreeing_kernels =
  fixes kernels kernels' :: codec_kernels
  assumes inverse: "(\<And>i. i < n \<Longrightarrow> {y ! i, cb ! i, cr ! i} \<subseteq> {0..<131072}) \<Longrightarrow>
    inverse_color_transform_row kernels y cb cr n bits extra = inverse_color_transform_row kernels' y cb cr n bits extra"
begin

lemma store_rgb_line_agrees:
  assumes "code_lines n w state" and "3 \<le> n" and "unat (window_plane_width output 0) = w"
  shows "store_rgb_line stream kernels output y state m = store_rgb_line stream kernels' output y state m"
proof -
  have "ls_current (ss_line_state state p) ! i \<in> {0..<131072}" if "p < 3" "i < w" for p i
    using code_lines_line [OF assms(1), of p] assms(2) that by (auto simp: code_line_def line_within_def)
  then have "inverse_color_transform_row kernels (ls_current (ss_line_state state 0)) (ls_current (ss_line_state state 1))
      (ls_current (ss_line_state state 2)) w (sp_bits_per_raw_sample stream) (sp_extra_plane stream) =
    inverse_color_transform_row kernels' (ls_current (ss_line_state state 0)) (ls_current (ss_line_state state 1))
      (ls_current (ss_line_state state 2)) w (sp_bits_per_raw_sample stream) (sp_extra_plane stream)"
    by (intro inverse) simp
  then show ?thesis unfolding store_rgb_line_def assms(3) Let_def by simp
qed

text \<open>A row: \<open>planes\<close> decodes the lines of its planes.\<close>

lemma rgb_row_agrees:
  assumes planes: "\<And>plane state reader state' reader'. plane < n \<Longrightarrow> code_lines n w state \<Longrightarrow>
      planes plane state reader = Inr (state', reader') \<Longrightarrow> code_lines n w state'"
    and lines: "code_lines n w state" and n: "3 \<le> n" and width: "unat (window_plane_width output 0) = w"
  shows "bind_result (loop_result planes [0..<n] state reader) (\<lambda>(state, reader).
      bind_result (store_rgb_line stream kernels output y state m) (\<lambda>(state, m). Inr ((state, m), reader))) =
    bind_result (loop_result planes [0..<n] state reader) (\<lambda>(state, reader).
      bind_result (store_rgb_line stream kernels' output y state m) (\<lambda>(state, m). Inr ((state, m), reader)))"
    and "bind_result (loop_result planes [0..<n] state reader) (\<lambda>(state, reader).
      bind_result (store_rgb_line stream kernels' output y state m) (\<lambda>(state, m). Inr ((state, m), reader))) =
      Inr ((state', m'), reader') \<Longrightarrow> code_lines n w state'"
proof -
  have decoded: "code_lines n w st" if "loop_result planes [0..<n] state reader = Inr (st, r)" for st r
    using planes by (rule loop_result_invariant [where P = "code_lines n w", OF that lines]) simp
  show "bind_result (loop_result planes [0..<n] state reader) (\<lambda>(state, reader).
      bind_result (store_rgb_line stream kernels output y state m) (\<lambda>(state, m). Inr ((state, m), reader))) =
    bind_result (loop_result planes [0..<n] state reader) (\<lambda>(state, reader).
      bind_result (store_rgb_line stream kernels' output y state m) (\<lambda>(state, m). Inr ((state, m), reader)))"
  proof (rule bind_result_cong [OF refl])
    fix a assume a: "loop_result planes [0..<n] state reader = Inr a"
    obtain st r where "a = (st, r)" by (cases a)
    with store_rgb_line_agrees [OF decoded [of st r] n width] a
    show "(case a of (state, reader) \<Rightarrow> bind_result (store_rgb_line stream kernels output y state m) (\<lambda>(state, m). Inr ((state, m), reader))) =
      (case a of (state, reader) \<Rightarrow> bind_result (store_rgb_line stream kernels' output y state m) (\<lambda>(state, m). Inr ((state, m), reader)))"
      by simp
  qed
  show "code_lines n w state'" if "bind_result (loop_result planes [0..<n] state reader) (\<lambda>(state, reader).
      bind_result (store_rgb_line stream kernels' output y state m) (\<lambda>(state, m). Inr ((state, m), reader))) = Inr ((state', m'), reader')"
    using that decoded by (auto dest: store_rgb_line_code)
qed

lemma rgb_rows_agree:
  assumes planes: "\<And>plane state reader state' reader'. plane < n \<Longrightarrow> code_lines n w state \<Longrightarrow>
      planes plane state reader = Inr (state', reader') \<Longrightarrow> code_lines n w state'"
    and n: "3 \<le> n" and width: "unat (window_plane_width output 0) = w" and lines: "code_lines n w state"
    and f: "\<And>y state m reader. f y (state, m) reader = bind_result (loop_result planes [0..<n] state reader) (\<lambda>(state, reader).
      bind_result (store_rgb_line stream kernels output y state m) (\<lambda>(state, m). Inr ((state, m), reader)))"
    and f': "\<And>y state m reader. f' y (state, m) reader = bind_result (loop_result planes [0..<n] state reader) (\<lambda>(state, reader).
      bind_result (store_rgb_line stream kernels' output y state m) (\<lambda>(state, m). Inr ((state, m), reader)))"
  shows "loop_result f ys (state, m) reader = loop_result f' ys (state, m) reader"
proof (rule loop_result_agrees [where P = "\<lambda>s. code_lines n w (fst s)"])
  have row: "f y (state, m) reader = f' y (state, m) reader"
      "f' y (state, m) reader = Inr ((state', m'), reader') \<Longrightarrow> code_lines n w state'"
    if "code_lines n w state" for y state m reader state' m' reader'
    unfolding f f' using rgb_row_agrees [where planes = planes, OF _ that n width] planes by blast+
  show "f y s r = f' y s r" if "code_lines n w (fst s)" for y s r
    using row(1) [of "fst s" y "snd s" r] that by (cases s) simp
  show "code_lines n w (fst s')" if "code_lines n w (fst s)" "f' y s r = Inr (s', r')" for y s r s' r'
    using row(2) [of "fst s" y "snd s" r "fst s'" "snd s'" r'] that by simp
qed (simp add: lines)

lemma decode_range_samples_agrees:
  assumes lines: "sp_colorspace_type stream = 1 \<longrightarrow>
      code_lines (window_plane_count output) (unat (window_plane_width output 0)) state \<and> 3 \<le> window_plane_count output"
    and bits: "is_supported_decoder_bit_depth (sp_bits_per_raw_sample stream)"
  shows "decode_range_samples base stream kernels models banks output (state, m) reader =
    decode_range_samples base stream kernels' models banks output (state, m) reader"
proof (cases "sp_colorspace_type stream = 1")
  case True
  let ?n = "window_plane_count output" and ?w = "unat (window_plane_width output 0)"
  have rgb: "code_lines ?n ?w state" "3 \<le> ?n" using lines True by simp_all
  have "loop_result (decode_rgb_row base stream kernels models banks output) ys (state, m) reader = loop_result (decode_rgb_row base stream kernels' models banks output) ys (state, m) reader" for ys
    by (rule rgb_rows_agree [OF decode_rgb_plane_code [OF _ _ _ bits] rgb(2) refl rgb(1)]) (simp_all add: decode_rgb_row_def)
  then show ?thesis by (simp add: decode_range_samples_def True)
qed (simp add: decode_range_samples_def)

lemma decode_golomb_planes_agrees:
  assumes lines: "sp_colorspace_type stream = 1 \<longrightarrow>
      code_lines (window_plane_count output) (unat (window_plane_width output 0)) state \<and> 3 \<le> window_plane_count output"
    and bits: "is_supported_decoder_bit_depth (sp_bits_per_raw_sample stream)"
  shows "decode_golomb_planes stream kernels base models banks output (state, m) reader =
    decode_golomb_planes stream kernels' base models banks output (state, m) reader"
proof (cases "sp_colorspace_type stream = 1")
  case True
  let ?n = "window_plane_count output" and ?w = "unat (window_plane_width output 0)"
  have rgb: "code_lines ?n ?w state" "3 \<le> ?n" using lines True by simp_all
  have "loop_result (decode_golomb_rgb_row stream kernels base models banks output) ys (state, m) reader = loop_result (decode_golomb_rgb_row stream kernels' base models banks output) ys (state, m) reader" for ys
    by (rule rgb_rows_agree [OF decode_golomb_rgb_plane_code [OF _ _ _ bits refl] rgb(2) refl rgb(1)]) (simp_all add: decode_golomb_rgb_row_def)
  then show ?thesis by (simp add: decode_golomb_planes_def True)
qed (simp add: decode_golomb_planes_def)

lemma decode_slice_agrees:
  assumes "starts_coded stream state"
  shows "decode_slice stream kernels ahead sl output (state, m) = decode_slice stream kernels' ahead sl output (state, m)"
proof (cases "validate_slice stream sl output")
  case (Inr u)
  then have bits: "is_supported_decoder_bit_depth (sp_bits_per_raw_sample stream)"
    by (auto simp: validate_slice_def split: if_splits)
  show ?thesis
  proof (cases "validate_state_line_geometry output state")
    case geometry: (Inr u')
    note start = starts_coded_geometry [OF assms geometry]
    have golomb: "decode_golomb_rice_slice stream kernels payload base start_bit models banks counts output ahead (state, m) =
        decode_golomb_rice_slice stream kernels' payload base start_bit models banks counts output ahead (state, m)"
      for payload base start_bit models banks counts
    proof (cases "prepare_golomb_rice counts (window_plane_count output) state")
      case prepared: (Inr state1)
      have "sp_colorspace_type stream = 1 \<longrightarrow> code_lines (window_plane_count output) (unat (window_plane_width output 0))
          (reset_run_states (window_plane_count output) state1) \<and> 3 \<le> window_plane_count output"
        using start by (simp add: prepared_code_lines [OF prepared])
      note planes = decode_golomb_planes_agrees [OF this bits]
      show ?thesis by (simp add: decode_golomb_rice_slice_def prepared Let_def planes)
    qed (simp add: decode_golomb_rice_slice_def)
    have range: "decode_range_samples base stream kernels models banks output (state, m) reader =
        decode_range_samples base stream kernels' models banks output (state, m) reader" for base models banks reader
      using start by (intro decode_range_samples_agrees [OF _ bits]) simp
    show ?thesis unfolding decode_slice_def Let_def prod.case golomb range ..
  qed (simp add: decode_slice_def)
qed (simp add: decode_slice_def)

lemma try_candidates_agrees:
  assumes "starts_coded stream state"
  shows "try_candidates stream kernels temporary storage window sls first_status (state, m) =
    try_candidates stream kernels' temporary storage window sls first_status (state, m)"
  by (induction sls arbitrary: first_status) (simp_all add: decode_slice_agrees [OF assms] split: sum.splits)

lemma execute_slice_agrees:
  assumes "slice_output_ok stream output sl m0"
  shows "execute_slice stream kernels output sl (state, m) = execute_slice stream kernels' output sl (state, m)"
proof (cases "validate_output_window stream output sl")
  case (Inr ws)
  with assms have rgb: "sp_colorspace_type stream = 1 \<longrightarrow> rgb_windows stream ws" by (simp add: slice_output_ok_def)
  show ?thesis
  proof (cases "ss_reset_stream_window stream ws state")
    case reset: (Inr state1)
    note agree = decode_slice_agrees [OF reset_starts_coded [OF reset rgb]] try_candidates_agrees [OF reset_starts_coded [OF reset rgb]]
    show ?thesis unfolding execute_slice_def prod.case Inr reset bind_result_Inr agree ..
  qed (simp add: execute_slice_def Inr)
qed (simp add: execute_slice_def)

lemma decode_serial_agrees:
  assumes "tasks_separate stream output sls m0"
  shows "decode_serial stream kernels output sls st = decode_serial stream kernels' output sls st"
proof -
  have "execute_slice_at stream kernels output sls i st = execute_slice_at stream kernels' output sls i st" if "i < length sls" for i st
  proof -
    have "slice_output_ok stream output (sls ! i) m0" using assms that by (simp add: tasks_separate_def)
    note slice = execute_slice_agrees [OF this]
    show ?thesis by (cases st) (simp add: execute_slice_at_def slice)
  qed
  then have "fold_result (execute_slice_at stream kernels output sls) xs st = fold_result (execute_slice_at stream kernels' output sls) xs st"
    if "\<forall>i \<in> set xs. i < length sls" for xs st
    using that by (induction xs arbitrary: st) (auto intro!: bind_result_cong)
  then show ?thesis unfolding decode_serial_def by simp
qed

lemma decode_frame_agrees:
  assumes memory: "output_in_memory de output m" and order: "task_order de payload order"
  shows "decoder_decode_frame kernels hw order payload output (de, m) = decoder_decode_frame kernels' hw order payload output (de, m)"
  unfolding decode_frame_serially [OF assms]
proof (rule bind_result_cong [OF refl])
  fix opened assume "open_frame payload de = Inr opened"
  then obtain stream frame where opened: "opened = (stream, frame)" "open_frame payload de = Inr (stream, frame)" by (cases opened) simp
  note placed = open_frame_placed [OF opened(2)]
  from memory placed(1) obtain views where views: "frame_views output views" "planes_within stream views m" by (rule output_in_memoryE)
  have "decoded_serially kernels stream frame output (de_executor de) m = decoded_serially kernels' stream frame output (de_executor de) m"
    if "validate_output stream output = Inr ()"
  proof -
    from that have "supported_shape stream" by (simp add: validate_output_Inr)
    note serial = decode_serial_agrees [OF covered_tasks_separate [OF placed(2,3) views this]]
    show ?thesis unfolding decoded_serially_def serial ..
  qed
  then show "(case opened of (stream, frame) \<Rightarrow> bind_result (validate_output stream output) (\<lambda>_.
      bind_result (decoded_serially kernels stream frame output (de_executor de) m) (\<lambda>(executor, m). Inr (de\<lparr>de_executor := Some executor\<rparr>, m)))) =
    (case opened of (stream, frame) \<Rightarrow> bind_result (validate_output stream output) (\<lambda>_.
      bind_result (decoded_serially kernels' stream frame output (de_executor de) m) (\<lambda>(executor, m). Inr (de\<lparr>de_executor := Some executor\<rparr>, m))))"
    by (cases "validate_output stream output") (simp_all add: opened(1))
qed

end

lemma made_agreeing:
  assumes "avx2_documented ops"
  shows "agreeing_kernels (make_codec_kernels target cpu ops requested) scalar_kernels"
proof
  fix n :: nat and y cb cr :: "int list" and bits :: u8 and extra :: bool
  assume codes: "\<And>i. i < n \<Longrightarrow> {y ! i, cb ! i, cr ! i} \<subseteq> {0..<131072}"
  have "moderate (y ! i) \<and> moderate (cb ! i) \<and> moderate (cr ! i)" if "i < n" for i
    using codes [OF that] by (auto simp: moderate_def)
  from made_inverse [OF assms this]
  show "inverse_color_transform_row (make_codec_kernels target cpu ops requested) y cb cr n bits extra =
      inverse_color_transform_row scalar_kernels y cb cr n bits extra" by (simp add: scalar_kernels_def)
qed

interpretation lanes: agreeing_kernels "make_codec_kernels target cpu lane_intrinsics requested" scalar_kernels
  for target cpu requested
  by (rule made_agreeing [OF lane_intrinsics_documented])

subsection \<open>Property\<close>

text \<open>
  C7: the vector instructions of the machine make no difference to what is decoded. For any bytes, intact or damaged, the
  status and, after a success, the state of the decoder and every byte of the output are those of the scalar kernels,
  whatever kernels were compiled, detected and allowed; what a failed decoding leaves in the planes is outside the model. The codes that reach the inverse transform have at most 17 bits even when the stream
  holds arbitrary differences, because each sample is reduced to its depth; there the vector and the scalar kernels agree.
\<close>

theorem decoder_kernels_irrelevant:
  assumes "avx2_documented ops" and "output_in_memory de output m" and "task_order de payload order"
  shows "decoder_decode_frame (make_codec_kernels target cpu ops requested) hw order payload output (de, m) =
    decoder_decode_frame scalar_kernels hw order payload output (de, m)"
  by (rule agreeing_kernels.decode_frame_agrees [OF made_agreeing [OF assms(1)] assms(2,3)])

theorem decoder_kernels_irrelevant_witness:
  "\<exists>payload de m. decoder_decode_frame scalar_kernels 8 [0] payload rgb_frame (rgb_decoder, replicate 3 (replicate 8 9)) = Inr (de, m) \<and>
     decoder_decode_frame (make_codec_kernels gnu_target avx2_processor lane_intrinsics (do_cpu (de_options rgb_decoder)))
       8 [0] payload rgb_frame (rgb_decoder, replicate 3 (replicate 8 9)) = Inr (de, m) \<and>
     same_pictures rgb_encoder_object rgb_frame m rgb_frame green"
proof -
  obtain payload de m where
    dec: "decoder_decode_frame scalar_kernels 8 [0] payload rgb_frame (rgb_decoder, replicate 3 (replicate 8 9)) = Inr (de, m)" and
    same: "same_pictures rgb_encoder_object rgb_frame m rgb_frame green"
    by (rule rgb_decoded)
  from decoder_kernels_irrelevant [OF lane_intrinsics_documented rgb_memory rgb_order, of gnu_target avx2_processor
      "do_cpu (de_options rgb_decoder)" 8 payload 9] dec same show ?thesis by auto
qed

end
