(* ===== verification/Encoder_Sessions.thy ===== *)
theory Encoder_Sessions
  imports Codec_Example
begin

text \<open>
  The encoder as a state machine: the states that a caller can reach from \<open>create_encoder\<close> by configuring it and encoding
  pictures, in any order and as often as wanted, and the invariant that an inter frame always has its reference.
\<close>

subsection \<open>Steps\<close>

inductive encoder_step :: "encoder \<Rightarrow> encoder \<Rightarrow> bool" where
  configure: "encoder_configure info en = Inr (rec, en') \<Longrightarrow> encoder_step en en'"
| encode: "encoder_encode_frame kernels hw input im en = Inr (payload, en') \<Longrightarrow> encoder_step en en'"

inductive encoder_reachable :: "encoder \<Rightarrow> bool" where
  create: "create_encoder options = Inr en \<Longrightarrow> encoder_reachable en"
| step: "encoder_reachable en \<Longrightarrow> encoder_step en en' \<Longrightarrow> encoder_reachable en'"

inductive_cases encoder_stepE: "encoder_step en en'"

subsection \<open>Invariant\<close>

text \<open>The executor holds a state and the layout for every cell of the grid, unless a keyframe comes next anyway.\<close>

definition holds_reference :: "stream_parameters \<Rightarrow> slice_encode_executor \<Rightarrow> bool" where
  "holds_reference stream executor \<longleftrightarrow>
     cell_count stream \<noteq> 0 \<and> length (ee_slice_states executor) = cell_count stream \<and>
     ee_slice_layouts executor = map (encode_slice_layout stream) [0..<cell_count stream]"

definition encoder_inv :: "encoder \<Rightarrow> bool" where
  "encoder_inv en \<longleftrightarrow> eo_keyframe_interval (en_options en) \<noteq> 0 \<and>
     (case (en_stream en, en_executor en) of
        (None, None) \<Rightarrow> en_next_frame_index en = 0
      | (Some stream, Some executor) \<Rightarrow>
          sp_intra_only stream = (eo_keyframe_interval (en_options en) = 1) \<and>
          (en_next_frame_index en \<noteq> 0 \<longrightarrow> holds_reference stream executor)
      | _ \<Rightarrow> False)"

lemma create_encoder_inv: "create_encoder options = Inr en \<Longrightarrow> encoder_inv en"
  by (auto simp: create_encoder_def encoder_inv_def split: if_splits)

lemma configure_inv:
  assumes "encoder_configure info en = Inr (rec, en')" and "encoder_inv en"
  shows "encoder_inv en'"
proof -
  from assms(1) obtain stream where stream: "normalize_encoder_profile (en_options en) info = Inr stream"
    and en': "en' = en\<lparr>en_stream := Some stream, en_executor := Some new_slice_encode_executor, en_next_frame_index := 0\<rparr>"
    by (auto simp: encoder_configure_def)
  from stream have "sp_intra_only stream = (eo_keyframe_interval (en_options en) = 1)"
    by (auto simp: normalize_encoder_profile_def Let_def split: if_splits)
  with assms(2) show ?thesis by (simp add: en' encoder_inv_def)
qed

lemma encode_inv:
  assumes enc: "encoder_encode_frame kernels hw input im en = Inr (payload, en')" and inv: "encoder_inv en"
  shows "encoder_inv en'"
proof -
  from enc obtain stream ee ee' where en: "en_stream en = Some stream" "en_executor en = Some ee"
    and run: "execute_encode stream kernels (normalize_thread_count hw (eo_thread_count (en_options en))) input im (next_is_keyframe en) ee =
      Inr (payload, ee')"
    and en': "en' = en\<lparr>en_executor := Some ee', en_next_frame_index := en_next_frame_index en + 1\<rparr>"
    by (auto simp: encoder_encode_frame_def split: option.splits)
  from run have "holds_reference stream ee'"
    by (rule execute_encode_Inr) (simp add: holds_reference_def)
  with inv en show ?thesis by (simp add: en' encoder_inv_def)
qed

lemma reachable_inv: "encoder_reachable en \<Longrightarrow> encoder_inv en"
proof (induction rule: encoder_reachable.induct)
  case (step en en')
  then show ?case by (auto elim!: encoder_stepE dest: configure_inv encode_inv)
qed (rule create_encoder_inv)

lemma reference_starts:
  assumes inv: "encoder_inv en" and stream: "en_stream en = Some stream"
  shows "\<exists>executor states. en_executor en = Some executor \<and>
    encoder_starting_states stream executor (cell_count stream) (next_is_keyframe en) = Inr states \<and> length states = cell_count stream"
proof -
  from inv stream obtain executor where executor: "en_executor en = Some executor"
    and intra: "sp_intra_only stream = (eo_keyframe_interval (en_options en) = 1)"
    and reference: "en_next_frame_index en \<noteq> 0 \<longrightarrow> holds_reference stream executor"
    by (auto simp: encoder_inv_def split: option.splits)
  show ?thesis
  proof (cases "next_is_keyframe en")
    case True
    then show ?thesis by (simp add: executor encoder_starting_states_def)
  next
    case False
    then have "en_next_frame_index en \<noteq> 0" "eo_keyframe_interval (en_options en) \<noteq> 1"
      by (auto simp: next_is_keyframe_def)
    with reference intra have "holds_reference stream executor" "\<not> sp_intra_only stream" by simp_all
    with False show ?thesis by (auto simp: executor encoder_starting_states_def holds_reference_def)
  qed
qed

text \<open>
  C8: an inter frame never lacks its reference. In every state that an encoder can reach by configurations and encoded
  pictures, whatever failed in between, a configured encoder has an executor whose slice states and layouts match the grid
  of the current stream whenever the next frame is an inter frame: the checks for missing or foreign reference states in
  \<open>SliceEncodeExecutor::encode\<close> do not fail, also after a new configuration with another grid and after \<open>2 ^ 64\<close> frames.
\<close>

theorem encoder_reference_available:
  assumes "encoder_reachable en" and "en_stream en = Some stream"
  shows "\<exists>executor states. en_executor en = Some executor \<and>
    encoder_starting_states stream executor (cell_count stream) (next_is_keyframe en) = Inr states \<and> length states = cell_count stream"
  by (rule reference_starts [OF reachable_inv [OF assms(1)] assms(2)])

theorem encoder_reference_available_witness:
  "\<exists>payload en executor states. encoder_encode_frame scalar_kernels 4 tiny_frame [[0]] tiny_encoder = Inr (payload, en) \<and>
     \<not> next_is_keyframe en \<and> en_executor en = Some executor \<and>
     encoder_starting_states tiny_stream executor (cell_count tiny_stream) (next_is_keyframe en) = Inr states"
proof -
  have fresh: "create_encoder tiny_options = Inr \<lparr>en_options = tiny_options, en_stream = None, en_executor = None, en_next_frame_index = 0\<rparr>"
    by (simp add: create_encoder_def tiny_options_def new_encoder_options_def)
  from tiny_configured obtain rec where
    "encoder_configure tiny_info \<lparr>en_options = tiny_options, en_stream = None, en_executor = None, en_next_frame_index = 0\<rparr> =
      Inr (rec, tiny_encoder)" by blast
  then have configured: "encoder_reachable tiny_encoder"
    by (intro encoder_reachable.step [OF encoder_reachable.create [OF fresh]] encoder_step.configure)
  from tiny_slices(1) [of scalar_kernels] obtain b where
    one: "encode_grid_slice tiny_stream scalar_kernels tiny_frame [[0]] True new_slice_state 0 = Inr (b, tiny_state 134)" "length b = 5" by blast
  let ?en = "tiny_encoder\<lparr>en_executor := Some \<lparr>ee_slice_states = [tiny_state 134], ee_slice_layouts = [(0, 0, 1, 1)]\<rparr>, en_next_frame_index := 1\<rparr>"
  have enc: "encoder_encode_frame scalar_kernels 4 tiny_frame [[0]] tiny_encoder = Inr (b, ?en)"
    using tiny_frame_encoded(1) [OF one, of tiny_encoder new_slice_encode_executor 4]
    by (simp add: tiny_encoder_def next_is_keyframe_def encoder_starting_states_def)
  have en: "en_stream ?en = Some tiny_stream" by (simp add: tiny_encoder_def)
  have inter: "\<not> next_is_keyframe ?en" by (simp add: next_is_keyframe_def tiny_encoder_def tiny_options_def)
  have "encoder_reachable ?en" by (rule encoder_reachable.step [OF configured encoder_step.encode [OF enc]])
  from encoder_reference_available [OF this en] enc inter show ?thesis by blast
qed

end
