(* ===== verification/Spec2Isabelle.thy ===== *)
theory Spec2Isabelle
  imports Crc32 Predictor Color_Transform Bit_Channel Golomb_Run Range_Safety Configuration_Properties Crc_Burst Slice_Footer Plane_Window
    Golomb_Slice Encoder_Geometry Slice_Locator Slice_Raster Codec_Example Decode_Schedule
    Decode_Kernels Encoder_Sessions
begin

text \<open>
  \<^bold>\<open>A verification development for mffv1\<close>, an FFV1 (RFC 9043) video codec library in C++20. The sources are under
  \<^verbatim>\<open>src/\<close> of the repository; paths below are relative to it.

  \<^bold>\<open>The program.\<close> An \<open>Encoder\<close> (\<^verbatim>\<open>src/src/codec/encoder.cpp\<close>) is configured with a picture format, from which
  \<open>normalize_encoder_profile\<close> makes the stream parameters and \<open>ConfigurationRecordWriter\<close> the configuration record
  of a container. It encodes one picture after the other: \<open>SliceEncodeExecutor\<close> cuts the picture into a grid of slices,
  a \<open>SliceEncoder\<close> turns each into a range coded header, the samples (range coded or in Golomb-Rice codes), and a
  footer with the size and a CRC; the slices are concatenated. A \<open>Decoder\<close> (\<^verbatim>\<open>decoder.cpp\<close>) is configured with the
  record, or, for the old versions 0 and 1, by a first keyframe. \<open>FrameParser\<close> finds the slices of a frame from their
  footers and reads their headers, \<open>SliceExecutor\<close> runs \<open>SliceDecoder\<close> on each of them, in one thread or in batches of
  asynchronous tasks, and stores the samples into the planes of the caller. Both executors keep the adaptive state of
  each slice for the inter frames that follow a keyframe.

  \<^bold>\<open>Conventions.\<close> A C++ record is a \<open>record\<close> with the same fields under a prefix, an enumeration a \<open>datatype\<close>, an
  unsigned integer of \<open>n\<close> bits an \<open>n word\<close>, a signed integer an \<open>int\<close> with the wrap-around or the range checks written
  out, \<open>Result<T>\<close> the sum \<open>status + 'a\<close>. An operation on an object takes the object last and returns it changed; an
  operation that fails returns the error alone, and the object keeps its value. The planes of a caller are a list of
  byte lists, one for each plane, and a pointer is an index into its list. Loops are recursive functions; each of them
  is total, none needs fuel. Virtual interfaces are records of operations with a locale for their contract. The names
  are those of the code.

  \<^bold>\<open>Theories and sources.\<close>
  \<^item> \<^verbatim>\<open>Prelude\<close>: statuses and results (\<^verbatim>\<open>result.hpp\<close>, \<^verbatim>\<open>util/status.cpp\<close>), machine integers, lists.
  \<^item> \<^verbatim>\<open>Crc32\<close>, \<^verbatim>\<open>Crc_Burst\<close>, \<^verbatim>\<open>Rfc_Math\<close>, \<^verbatim>\<open>Predictor\<close>, \<^verbatim>\<open>Color_Transform\<close>: \<^verbatim>\<open>util/crc32.cpp\<close>, \<^verbatim>\<open>util/rfc_math.cpp\<close>,
    \<^verbatim>\<open>mffv1/predictor.cpp\<close>, \<^verbatim>\<open>mffv1/color_transform.cpp\<close>; error detection, the predictor and the colour transform
    are exactly inverted.
  \<^item> \<^verbatim>\<open>Bit_Lists\<close>, \<^verbatim>\<open>Bit_Reader\<close>, \<^verbatim>\<open>Bit_Writer\<close>, \<^verbatim>\<open>Bit_Channel\<close>: \<^verbatim>\<open>bitstream/\<close>; the locales of bit sources and sinks.
  \<^item> \<^verbatim>\<open>Golomb_Rice\<close>, \<^verbatim>\<open>Golomb_Context\<close>, \<^verbatim>\<open>Golomb_Run\<close>: \<^verbatim>\<open>entropy/golomb_rice_*.cpp\<close>; code words, adaptive contexts,
    run mode.
  \<^item> \<^verbatim>\<open>State_Transition\<close>, \<^verbatim>\<open>Range_Contexts\<close>, \<^verbatim>\<open>Range_Encoder\<close>, \<^verbatim>\<open>Range_Decoder\<close>: \<^verbatim>\<open>entropy/range_*.cpp\<close>;
    \<^verbatim>\<open>Range_Roundtrip\<close>, \<^verbatim>\<open>Range_Properties\<close>, \<^verbatim>\<open>Range_Safety\<close> show that the coder is lossless, total and safe on
    arbitrary input. \<^verbatim>\<open>Symbol_Channel\<close>: \<^verbatim>\<open>symbol_reader.hpp\<close>, \<^verbatim>\<open>symbol_writer.hpp\<close> and the locale
    \<open>symbol_channel\<close> that every header and record proof uses.
  \<^item> \<^verbatim>\<open>Stream_Parameters\<close>, \<^verbatim>\<open>Configuration_Parser\<close>, \<^verbatim>\<open>Configuration_Writer\<close>, \<^verbatim>\<open>Configuration_Record\<close>:
    \<^verbatim>\<open>mffv1/stream_parameters.hpp\<close>, \<^verbatim>\<open>mffv1/configuration_parser.cpp\<close>, \<^verbatim>\<open>codec/configuration_record_*.cpp\<close>;
    \<^verbatim>\<open>Configuration_Roundtrip\<close>, \<^verbatim>\<open>Configuration_Totality\<close>, \<^verbatim>\<open>Configuration_Properties\<close>: the record is read back,
    writing it cannot fail, what is parsed is well-formed.
  \<^item> \<^verbatim>\<open>Context_Model\<close>, \<^verbatim>\<open>Slice_State\<close>: \<^verbatim>\<open>mffv1/context_model.cpp\<close>, \<^verbatim>\<open>codec/slice_state.hpp\<close>.
  \<^item> \<^verbatim>\<open>Slice_Header\<close>, \<^verbatim>\<open>Slice_Footer\<close>, \<^verbatim>\<open>Slice_Locator\<close>, \<^verbatim>\<open>Slice_Raster\<close>: \<^verbatim>\<open>codec/slice_header_*.cpp\<close>,
    \<^verbatim>\<open>slice_footer_*.cpp\<close>, \<^verbatim>\<open>slice_payload_locator.cpp\<close>, \<^verbatim>\<open>slice_raster_validator.cpp\<close>.
  \<^item> \<^verbatim>\<open>Plane_Window\<close>, \<^verbatim>\<open>Frame_Validator\<close>, \<^verbatim>\<open>Encoder_Profile\<close>, \<^verbatim>\<open>Encoder_Geometry\<close>: \<^verbatim>\<open>mffv1/frame.hpp\<close>,
    \<^verbatim>\<open>codec/*_window.cpp\<close>, \<^verbatim>\<open>frame_validator.cpp\<close>, \<^verbatim>\<open>encoder_profile.cpp\<close>.
  \<^item> \<^verbatim>\<open>Slice_Samples\<close>, \<^verbatim>\<open>Range_Lines\<close>, \<^verbatim>\<open>Range_Planes\<close>, \<^verbatim>\<open>Golomb_Lines\<close>, \<^verbatim>\<open>Golomb_Planes\<close>: the sample loops of
    \<^verbatim>\<open>codec/slice_encoder.cpp\<close> and \<^verbatim>\<open>slice_decoder.cpp\<close>; \<^verbatim>\<open>Range_Slice\<close>, \<^verbatim>\<open>Rgb_Slice\<close>, \<^verbatim>\<open>Golomb_Roundtrip\<close>,
    \<^verbatim>\<open>Golomb_Slice\<close>: the decoder loops store what the encoder loops read.
  \<^item> \<^verbatim>\<open>Slice_Encoder\<close>, \<^verbatim>\<open>Slice_Decoder\<close>, \<^verbatim>\<open>Legacy_Bootstrap\<close>, \<^verbatim>\<open>Frame_Parser\<close>, \<^verbatim>\<open>Slice_Executor\<close>,
    \<^verbatim>\<open>Slice_Encode_Executor\<close>, \<^verbatim>\<open>Codec\<close>: the classes of \<^verbatim>\<open>codec/\<close> with these names, and the public objects.
  \<^item> \<^verbatim>\<open>Slice_Roundtrip\<close>, \<^verbatim>\<open>Window_Writes\<close>, \<^verbatim>\<open>Frame_Encoding\<close>, \<^verbatim>\<open>Frame_Output\<close>, \<^verbatim>\<open>Frame_Samples\<close>,
    \<^verbatim>\<open>Frame_Roundtrip\<close>, \<^verbatim>\<open>Initial_States\<close>, \<^verbatim>\<open>Frame_Decoded\<close>, \<^verbatim>\<open>Codec_Roundtrip\<close>: from one slice to a whole session.
    A slice comes back; decoding it writes only into its windows; the windows of a frame are disjoint and cover the
    planes; so the tasks of a frame may take effect in any order, the frame comes back, and decoder and encoder stay in
    step. \<^verbatim>\<open>Codec_Example\<close> and \<^verbatim>\<open>Rgb_Example\<close> evaluate the encoder on a grey picture of one sample and on a row of
    eight colour pixels.
  \<^item> \<^verbatim>\<open>Encoder_Sessions\<close>: the encoder object as a state machine whose steps are calls of \<open>configure\<close> and \<open>encode_frame\<close>,
    failed calls included; whenever an inter frame is due, the reference contexts of every slice are there.
  \<^item> \<^verbatim>\<open>Memory_Independence\<close>, \<^verbatim>\<open>Temporary_Frames\<close>, \<^verbatim>\<open>Task_Order\<close>, \<^verbatim>\<open>Decode_Order\<close>, \<^verbatim>\<open>Decode_Schedule\<close>: decoding
    arbitrary bytes, which no encoder need have written. A task reads nothing but its payload and its own window, tasks
    of different windows commute, and the windows that \<open>FrameParser\<close> and the raster validation accept do not overlap;
    so \<open>decode_frame\<close> gives one result for every thread count and completion order, that of decoding the slices one after
    the other (\<open>decode_frame_serially\<close>), and changes no byte of the caller outside the samples of the picture.
  \<^item> \<^verbatim>\<open>Vector_Lanes\<close>, \<^verbatim>\<open>Vector_Kernels\<close>, \<^verbatim>\<open>Kernel_Selection\<close>, \<^verbatim>\<open>Decode_Kernels\<close>: \<^verbatim>\<open>simd/color_transform_sse2.cpp\<close>,
    \<^verbatim>\<open>simd/color_transform_avx2.cpp\<close>, \<^verbatim>\<open>simd/cpu_features.cpp\<close>, \<^verbatim>\<open>simd/codec_kernels.cpp\<close>. A vector
    register is a word of 128 or 256 bits that is read as lanes. The compiler intrinsics are a record of functions, a
    parameter; what Intel documents of their lanes is the predicates \<open>sse2_documented\<close> and \<open>avx2_documented\<close>, and the witnesses
    give functions that satisfy them. Then the vector rows are the scalar rows, any choice of kernels codes the same,
    encoder and decoder may run on machines with different features, and damaged bytes too are decoded alike with every
    choice, because the lines of an RGB slice only hold codes of 17 bits.

  \<^bold>\<open>Bounds.\<close> Sizes are those of the code: a slice is shorter than \<open>2 ^ 24\<close> bytes, a byte vector than \<open>2 ^ 63\<close>, the
  number of slices fits 32 bits. The round trips of whole frames and sessions are about Range mode, the default entropy
  mode; of Golomb-Rice mode the slice contents are shown to come back (\<^verbatim>\<open>Golomb_Slice\<close>), not whole frames.

  \<^bold>\<open>Not modelled.\<close> The compiler's SSE2 and AVX2 intrinsics, the \<^verbatim>\<open>cpuid\<close> query of the processor and the symbols of the
  preprocessor are parameters, not definitions. The message strings of statuses, which
  only exist in debugging builds. The observers for tests. The memory that a failed decoding leaves in the output planes:
  a failing operation returns the error alone. Tasks of a batch take effect one after the other, in an order that is a
  parameter; interleavings inside a slice are not modelled. Allocation failures other than the size checks of the code.
\<close>

section \<open>Lossless sessions\<close>

text \<open>
  C1: in Range mode, coding is lossless from one end of the library to the other. An encoder that is configured with the
  range coder and fewer than \<open>2 ^ 32\<close> slices writes a configuration record and encodes a sequence of pictures, keyframes
  and inter frames. A decoder that is configured with the record and the picture size then accepts every frame, in any
  thread count on either side and for any order in which its tasks complete, and leaves exactly the samples of the encoded
  picture in its output planes. The hypothesis \<open>session_fits\<close> names the other conditions: the planes of each picture are as
  the interface describes them; no slice stops before the end of its own header, which happens when the encoder drops a
  zero byte at its end (an all-zero slice) and which the decoder rejects; the output planes lie in their memory and have
  the format of the stream; every task completes once. Golomb-Rice streams are not covered.
\<close>

theorem session_lossless:
  assumes "encoder_configure info en0 = Inr (rec, en)"
    and "do_frame_width (de_options de0) = si_width info" and "do_frame_height (de_options de0) = si_height info"
    and "encode_pictures scalar_kernels hw pictures en = Inr (payloads, en')"
    and "eo_entropy_mode (en_options en0) = RangeMode"
    and "unat (si_num_h_slices info) * unat (si_num_v_slices info) < 2 ^ 32"
    and "session_fits scalar_kernels hw pictures outputs en"
  shows "\<exists>de ms de'. decoder_configure rec de0 = Inr de \<and>
    decode_pictures scalar_kernels hw' outputs payloads de = Inr (ms, de') \<and> length ms = length pictures \<and>
    (\<forall>i < length pictures.
       same_pictures en (fst (snd (outputs ! i))) (ms ! i) (fst (pictures ! i)) (snd (pictures ! i)))"
proof -
  from configured_in_step [OF assms(1-3)] obtain de where de: "decoder_configure rec de0 = Inr de" "in_step en de" by blast
  from scalar.pictures_decoded [OF de(2) assms(4) configured_range_coded [OF assms(1,5,6)] assms(7), of hw'] obtain ms de' where
    ms: "decode_pictures scalar_kernels hw' outputs payloads de = Inr (ms, de')" and
    same: "list_all2 (\<lambda>m (output, input, im). same_pictures en output m input im) ms
      (map (\<lambda>((order, output, m), input, im). (output, input, im)) (zip outputs pictures))" by blast
  have len: "length outputs = length pictures" by (rule session_length [OF assms(4,7)])
  with same have "length ms = length pictures"
    and "\<And>i. i < length pictures \<Longrightarrow> same_pictures en (fst (snd (outputs ! i))) (ms ! i) (fst (pictures ! i)) (snd (pictures ! i))"
    by (auto simp: list_all2_conv_all_nth split_beta)
  with de(1) ms show ?thesis by blast
qed

theorem session_lossless_witness:
  "\<exists>rec en payloads en' de ms de'.
     encoder_configure tiny_info \<lparr>en_options = tiny_options, en_stream = None, en_executor = None, en_next_frame_index = 0\<rparr> = Inr (rec, en) \<and>
     encode_pictures scalar_kernels 4 [(tiny_frame, [[0]]), (tiny_frame, [[0]])] en = Inr (payloads, en') \<and>
     decoder_configure rec \<lparr>de_options = \<lparr>do_thread_count = 2, do_verify_crc = True, do_strict = True, do_frame_width = 1, do_frame_height = 1,
       do_cpu = new_cpu_features\<rparr>,
       de_stream = None, de_executor = None\<rparr> = Inr de \<and>
     decode_pictures scalar_kernels 4 [([0], tiny_frame, [[9]]), ([0], tiny_frame, [[7]])] payloads de = Inr (ms, de') \<and> length ms = 2 \<and>
     same_pictures en tiny_frame (ms ! 1) tiny_frame [[0]]"
proof -
  let ?de0 = "\<lparr>de_options = \<lparr>do_thread_count = 2, do_verify_crc = True, do_strict = True, do_frame_width = 1, do_frame_height = 1,
       do_cpu = new_cpu_features\<rparr>,
       de_stream = None, de_executor = None\<rparr>"
  from tiny_configured obtain rec where
    rec: "encoder_configure tiny_info \<lparr>en_options = tiny_options, en_stream = None, en_executor = None, en_next_frame_index = 0\<rparr> =
      Inr (rec, tiny_encoder)" by blast
  from tiny_session [of scalar_kernels 4] obtain payloads en' where
    run: "encode_pictures scalar_kernels 4 [(tiny_frame, [[0]]), (tiny_frame, [[0]])] tiny_encoder = Inr (payloads, en')" and
    fits: "session_fits scalar_kernels 4 [(tiny_frame, [[0]]), (tiny_frame, [[0]])] [([0], tiny_frame, [[9]]), ([0], tiny_frame, [[7]])] tiny_encoder"
    by blast
  have dims: "do_frame_width (de_options ?de0) = si_width tiny_info" "do_frame_height (de_options ?de0) = si_height tiny_info"
    by (simp_all add: tiny_info_def)
  let ?pictures = "[(tiny_frame, [[0]]), (tiny_frame, [[0]])] :: (frame_view \<times> frame_memory) list"
  let ?outputs = "[([0], tiny_frame, [[9]]), ([0], tiny_frame, [[7]])] :: (nat list \<times> frame_view \<times> frame_memory) list"
  from session_lossless [OF rec dims run _ _ fits, of 4] tiny_slice_count obtain de ms de' where
    "decoder_configure rec ?de0 = Inr de" and "decode_pictures scalar_kernels 4 ?outputs payloads de = Inr (ms, de')" and
    "length ms = length ?pictures" and same: "\<forall>i < length ?pictures. same_pictures tiny_encoder (fst (snd (?outputs ! i)))
       (ms ! i) (fst (?pictures ! i)) (snd (?pictures ! i))"
    by auto
  then have "decoder_configure rec ?de0 = Inr de \<and> decode_pictures scalar_kernels 4 ?outputs payloads de = Inr (ms, de') \<and> length ms = 2" by simp
  moreover have "same_pictures tiny_encoder tiny_frame (ms ! 1) tiny_frame [[0]]" using same [rule_format, of 1] by simp
  ultimately show ?thesis using rec run by blast
qed

end
